(* ===== verification/Q9_Prelude.thy ===== *)
theory Q9_Prelude
  imports Main "HOL-Library.Word" "HOL-Library.Monad_Syntax"
begin

unbundle bit_operations_syntax

text \<open>
  Machine types, disjointness of address ranges and the small generic lemmas shared by the
  component theories.  The kernel is compiled for a 32-bit big-endian target where
  \<^verbatim>\<open>Q9_u32\<close>, \<^verbatim>\<open>Q9_u16\<close> and \<^verbatim>\<open>Q9_u8\<close> are 32, 16 and 8 bits wide; every address, cell
  and register image of the model has exactly that width.
\<close>

named_theorems q9_frame \<open>reads of one cell after a write to a disjoint one\<close>
named_theorems q9_sep \<open>facts that separate two address ranges\<close>

type_synonym u8 = "8 word"
type_synonym u16 = "16 word"
type_synonym u32 = "32 word"

text \<open>The whole kernel state is the byte-addressed memory of the machine.\<close>

type_synonym memory = "u32 \<Rightarrow> u8"

section \<open>Disjoint address ranges\<close>

text \<open>\<open>apart a n b k\<close>: the \<open>n\<close> bytes at \<open>a\<close> and the \<open>k\<close> bytes at \<open>b\<close> do not overlap,
  also when one of the ranges runs past the end of the address space.\<close>

definition apart :: "u32 \<Rightarrow> u32 \<Rightarrow> u32 \<Rightarrow> u32 \<Rightarrow> bool" where
  "apart a n b k \<longleftrightarrow> (\<forall>i<n. \<forall>j<k. a + i \<noteq> b + j)"

lemma apartD: "apart a n b k \<Longrightarrow> i < n \<Longrightarrow> j < k \<Longrightarrow> a + i \<noteq> b + j"
  by (simp add: apart_def)

lemma apart_sym: "apart a n b k \<Longrightarrow> apart b k a n"
  by (metis apart_def)

lemma word_offset_less: "x < n \<Longrightarrow> i + n \<le> N \<Longrightarrow> i \<le> i + n \<Longrightarrow> i + x < N" for x :: u32
  by unat_arith

lemma apart_sub:
  assumes "apart a N b M" "i + n \<le> N" "i \<le> i + n" "j + k \<le> M" "j \<le> j + k"
  shows "apart (a + i) n (b + j) k"
  unfolding apart_def
proof (intro allI impI)
  fix x y assume "x < n" "y < k"
  then have "i + x < N" "j + y < M"
    using assms word_offset_less by blast+
  then have "a + (i + x) \<noteq> b + (j + y)"
    using assms(1) by (rule apartD [rotated])
  then show "a + i + x \<noteq> b + j + y" by (simp add: add.assoc)
qed

text \<open>Two ranges are apart when each starts behind the other one's end, counted modulo the
  address space; for literal addresses and for two offsets of one base the premises evaluate.\<close>

lemma apart_offsets [simp, q9_sep]:
  assumes "n \<le> b - a" "k \<le> a - b"
  shows "apart a n b k"
  unfolding apart_def
proof (intro allI impI notI)
  fix i j assume ij: "i < n" "j < k" and e: "a + i = b + j"
  then have d: "b - a = i - j" "a - b = j - i" by (simp_all add: algebra_simps eq_diff_eq)
  show False
  proof (cases "j \<le> i")
    case True
    then have "i - j \<le> i" by (rule word_sub_le)
    moreover have "n \<le> i - j" using assms(1) d by simp
    ultimately show False using ij(1) by (meson leD order_trans)
  next
    case False
    then have "j - i \<le> j" by (simp add: word_sub_le order_less_imp_le)
    moreover have "k \<le> j - i" using assms(2) d by simp
    ultimately show False using ij(2) by (meson leD order_trans)
  qed
qed

lemma one_le_word [simp]: "1 \<le> x \<longleftrightarrow> x \<noteq> 0" for x :: u32
  by (simp add: word_le_nat_alt) (metis unat_eq_0 Suc_leI neq0_conv not_less_eq_eq le0 Suc_le_eq)

lemma unat_offset: "unat a + unat i < 2^32 \<Longrightarrow> unat (a + i) = unat a + unat i" for a :: u32
  using unat_add_lem [of a i] by simp

lemma unat_step: "i < n \<Longrightarrow> unat (i + 1) = unat i + 1" for i n :: u32
proof -
  assume "i < n"
  then have "unat i < unat n" by (simp add: word_less_nat_alt)
  moreover have "unat n < 2 ^ 32" using unsigned_less [of n] by simp
  ultimately have "unat i + unat (1 :: u32) < 2 ^ 32" by simp
  then show ?thesis using unat_offset [of i 1] by simp
qed

lemma unat_countdown: "i < n \<Longrightarrow> unat n - unat (i + 1) < unat n - unat i" for i n :: u32
  using unat_step [of i n] by (simp add: word_less_nat_alt)

lemma unat_sub_less: "\<not> (x = 0 \<or> x > y) \<Longrightarrow> unat (y - x) < unat y" for x y :: u32
proof -
  assume a: "\<not> (x = 0 \<or> x > y)"
  then have "unat (y - x) = unat y - unat x" by (intro unat_sub) (auto simp: not_less)
  moreover have "unat x \<noteq> 0" "unat x \<le> unat y" using a by (auto simp: unat_eq_0 not_less word_le_nat_alt)
  ultimately show ?thesis by simp
qed

lemma unat_u32_less: "unat (a :: u32) < 2^32"
  using unsigned_less [of a] by simp

lemma unat_of_nat_u32: "i < 2 ^ 32 \<Longrightarrow> unat (of_nat i :: u32) = i"
  by (simp add: unat_of_nat take_bit_nat_eq_self)

lemma of_nat_Suc_neq_0: "i < n \<Longrightarrow> n < 2 ^ 32 \<Longrightarrow> (1 + of_nat i :: u32) \<noteq> 0"
proof
  assume "i < n" "n < 2 ^ 32" "(1 + of_nat i :: u32) = 0"
  then have "unat (of_nat (Suc i) :: u32) = Suc i" by (simp add: unat_of_nat take_bit_nat_eq_self del: of_nat_Suc)
  then show False using \<open>1 + of_nat i = (0 :: u32)\<close> by simp
qed

lemma unat_ucast_up [simp]:
  "unat (ucast (x :: u16) :: u32) = unat x" "unat (ucast (y :: u8) :: u32) = unat y"
  "unat (ucast (y :: u8) :: u16) = unat y"
proof -
  have "unat x < 2 ^ 16" "unat y < 2 ^ 8" using unsigned_less [of x] unsigned_less [of y] by simp_all
  then show "unat (ucast x :: u32) = unat x" "unat (ucast y :: u32) = unat y" "unat (ucast y :: u16) = unat y"
    by (simp_all add: unsigned_ucast_eq take_bit_nat_eq_self)
qed

lemma and_FF_16: "x AND 0xFF = take_bit 8 x" for x :: u16
proof -
  have "(0xFF :: u16) = mask 8" by (simp add: mask_eq_exp_minus_1)
  then show ?thesis by (simp add: take_bit_eq_mask)
qed

lemma ucast_low_byte: "ucast (ucast (x AND 0xFF) :: u8) = x AND 0xFF" for x :: u16
  unfolding and_FF_16 by (rule bit_word_eqI) (auto simp: bit_simps)

text \<open>An object above a boundary and a cell below it are apart.\<close>

lemma apart_high_low:
  assumes "L \<le> unat d" "unat d + unat i + unat n \<le> 2^32" "unat g + unat k \<le> L"
  shows "apart (d + i) n g k"
  unfolding apart_def
proof (intro allI impI notI)
  fix x y assume xy: "x < n" "y < k" and e: "d + i + x = g + y"
  have x: "unat x < unat n" and y: "unat y < unat k" using xy by (simp_all add: word_less_nat_alt)
  have 1: "unat (d + i) = unat d + unat i" using x assms by (intro unat_offset) linarith
  have 2: "unat (d + i + x) = unat d + unat i + unat x"
    using unat_offset [of "d + i" x] 1 x assms by simp
  have "unat g + unat y < 2^32" using y assms unat_u32_less [of d] by linarith
  then have "unat (g + y) = unat g + unat y" by (rule unat_offset)
  with 2 e y assms show False by simp
qed

text \<open>Ranges that do not wrap are apart when their intervals of natural numbers are disjoint.\<close>

lemma apart_ranges:
  assumes "unat a + unat n \<le> 2 ^ 32" "unat b + unat k \<le> 2 ^ 32"
    and "{unat a ..< unat a + unat n} \<inter> {unat b ..< unat b + unat k} = {}"
  shows "apart a n b k"
  unfolding apart_def
proof (intro allI impI notI)
  fix i j assume ij: "i < n" "j < k" and e: "a + i = b + j"
  have l: "unat i < unat n" "unat j < unat k" using ij by (simp_all add: word_less_nat_alt)
  then have "unat (a + i) = unat a + unat i" "unat (b + j) = unat b + unat j"
    using assms(1,2) unat_offset [of a i] unat_offset [of b j] by simp_all
  then have "unat a + unat i = unat b + unat j" using e by simp
  moreover have "unat a + unat i \<in> {unat a ..< unat a + unat n}" "unat b + unat j \<in> {unat b ..< unat b + unat k}" using l by auto
  ultimately show False using assms(3) by auto
qed

section \<open>The first maximal element\<close>

text \<open>What a loop selects that replaces its candidate only by a strictly better one.\<close>

definition first_max :: "('a \<Rightarrow> bool) \<Rightarrow> ('a \<Rightarrow> 'b::linorder) \<Rightarrow> 'a list \<Rightarrow> 'a \<Rightarrow> bool" where
  "first_max el ag xs b \<longleftrightarrow> (\<exists>as bs. xs = as @ b # bs \<and> el b \<and>
     (\<forall>y\<in>set as. el y \<longrightarrow> ag y < ag b) \<and> (\<forall>y\<in>set bs. el y \<longrightarrow> ag y \<le> ag b))"

lemma first_maxI:
  "\<lbrakk>xs = as @ b # bs; el b; \<And>y. y \<in> set as \<Longrightarrow> el y \<Longrightarrow> ag y < ag b; \<And>y. y \<in> set bs \<Longrightarrow> el y \<Longrightarrow> ag y \<le> ag b\<rbrakk>
   \<Longrightarrow> first_max el ag xs b"
  unfolding first_max_def by blast

lemma first_max_in: "first_max el ag xs b \<Longrightarrow> b \<in> set xs \<and> el b \<and> (\<forall>y\<in>set xs. el y \<longrightarrow> ag y \<le> ag b)"
  unfolding first_max_def by force

lemma first_max_snoc_new:
  assumes "first_max el ag xs b" "el x" "ag b < ag x"
  shows "first_max el ag (xs @ [x]) x"
  by (rule first_maxI [of _ xs _ "[]"]) (use assms first_max_in [OF assms(1)] in fastforce)+

lemma first_max_snoc_old:
  assumes "first_max el ag xs b" "\<not> (el x \<and> ag b < ag x)"
  shows "first_max el ag (xs @ [x]) b"
proof -
  obtain as bs where q: "xs = as @ b # bs" "el b" "\<forall>y\<in>set as. el y \<longrightarrow> ag y < ag b"
    "\<forall>y\<in>set bs. el y \<longrightarrow> ag y \<le> ag b" using assms(1) unfolding first_max_def by blast
  show ?thesis by (rule first_maxI [of _ as _ "bs @ [x]"]) (use q assms(2) in auto)
qed

definition best_by :: "('a::zero \<Rightarrow> bool) \<Rightarrow> ('a \<Rightarrow> 'b::linorder) \<Rightarrow> 'a list \<Rightarrow> 'a \<Rightarrow> bool" where
  "best_by el ag xs b \<longleftrightarrow> (if filter el xs = [] then b = 0 else first_max el ag xs b)"

lemma best_by_snoc:
  assumes p: "best_by el ag xs b" and nz: "0 \<notin> set (xs @ [x])"
  shows "best_by el ag (xs @ [x]) (if el x \<and> (b = 0 \<or> ag x > ag b) then x else b)"
proof (cases "filter el xs = []")
  case True
  then have b: "b = 0" using p by (simp add: best_by_def)
  have "first_max el ag (xs @ [x]) x" if "el x"
    by (rule first_maxI [of _ xs _ "[]"]) (use True that in \<open>auto simp: filter_empty_conv\<close>)
  then show ?thesis using True b by (simp add: best_by_def)
next
  case False
  then have f: "first_max el ag xs b" using p by (simp add: best_by_def)
  then have "b \<noteq> 0" using first_max_in [OF f] nz by auto
  then show ?thesis using False first_max_snoc_new [OF f] first_max_snoc_old [OF f]
    by (simp add: best_by_def)
qed

section \<open>Linked lists\<close>

text \<open>\<open>path nx p xs q\<close>: following \<open>nx\<close> from \<open>p\<close> through \<open>xs\<close> leads to \<open>q\<close>.\<close>

fun path :: "('a \<Rightarrow> 'a) \<Rightarrow> 'a \<Rightarrow> 'a list \<Rightarrow> 'a \<Rightarrow> bool" where
  "path nx p [] q \<longleftrightarrow> p = q"
| "path nx p (x # xs) q \<longleftrightarrow> p = x \<and> path nx (nx x) xs q"

lemma path_append: "path nx p (xs @ ys) q \<longleftrightarrow> (\<exists>r. path nx p xs r \<and> path nx r ys q)"
  by (induction xs arbitrary: p) auto

lemma path_cong: "(\<And>x. x \<in> set xs \<Longrightarrow> nx' x = nx x) \<Longrightarrow> path nx' p xs q = path nx p xs q"
  by (induction xs arbitrary: p) auto

lemma path_snoc: "path nx p (xs @ [x]) q \<longleftrightarrow> path nx p xs x \<and> nx x = q"
  by (auto simp: path_append)

text \<open>Taking out a node: its predecessor, or the head, leads to its successor.\<close>

lemma path_skip:
  assumes p: "path nx p (as @ s # bs) q" and d: "distinct (as @ bs)"
    and h: "p' = (if as = [] then nx s else p)" "as \<noteq> [] \<Longrightarrow> nx' (last as) = nx s"
    and o: "\<And>x. x \<in> set (as @ bs) \<Longrightarrow> (as \<noteq> [] \<Longrightarrow> x \<noteq> last as) \<Longrightarrow> nx' x = nx x"
  shows "path nx' p' (as @ bs) q"
proof -
  have bs: "path nx (nx s) bs q" and as: "path nx p as s" using p by (auto simp: path_append)
  have b: "path nx' (nx s) bs q"
  proof (subst path_cong [of bs nx' nx])
    fix x assume x: "x \<in> set bs"
    moreover have "x \<notin> set as" using d x by auto
    ultimately show "nx' x = nx x" using last_in_set [of as] by (intro o) (simp, metis)
  qed (rule bs)
  show ?thesis
  proof (cases as rule: rev_cases)
    case Nil then show ?thesis using b h(1) by simp
  next
    case (snoc cs c)
    have "path nx' p cs c" using as d snoc o by (subst path_cong [of cs nx' nx]) (auto simp: path_snoc)
    then show ?thesis using b h snoc by (auto simp: path_append)
  qed
qed

end
