(* ===== verification/Q9_Memory.thy ===== *)
theory Q9_Memory
  imports Q9_Prelude
begin

text \<open>
  The cell accessors \<^verbatim>\<open>Q9K_GetU8\<close> \<dots> \<^verbatim>\<open>Q9K_SetU32\<close> that every kernel file declares, as big-endian
  reads and writes of the byte memory, and the laws the components use: what a read returns
  after a write to the same cell and after a write to a cell that is apart from it.
\<close>

section \<open>The accessors\<close>

definition Q9K_GetU8 :: "memory \<Rightarrow> u32 \<Rightarrow> u8" where
  "Q9K_GetU8 m a = m a"

definition Q9K_SetU8 :: "memory \<Rightarrow> u32 \<Rightarrow> u8 \<Rightarrow> memory" where
  "Q9K_SetU8 m a v = m(a := v)"

definition Q9K_GetU16 :: "memory \<Rightarrow> u32 \<Rightarrow> u16" where
  "Q9K_GetU16 m a = push_bit 8 (ucast (m a)) OR ucast (m (a + 1))"

definition Q9K_SetU16 :: "memory \<Rightarrow> u32 \<Rightarrow> u16 \<Rightarrow> memory" where
  "Q9K_SetU16 m a v = m(a := ucast (drop_bit 8 v), a + 1 := ucast v)"

definition Q9K_GetU32 :: "memory \<Rightarrow> u32 \<Rightarrow> u32" where
  "Q9K_GetU32 m a =
     push_bit 24 (ucast (m a)) OR push_bit 16 (ucast (m (a + 1))) OR
     push_bit 8 (ucast (m (a + 2))) OR ucast (m (a + 3))"

definition Q9K_SetU32 :: "memory \<Rightarrow> u32 \<Rightarrow> u32 \<Rightarrow> memory" where
  "Q9K_SetU32 m a v =
     m(a := ucast (drop_bit 24 v), a + 1 := ucast (drop_bit 16 v),
       a + 2 := ucast (drop_bit 8 v), a + 3 := ucast v)"

section \<open>The laws of a cell\<close>

text \<open>A cell is a getter and a setter of some width: it reads back what was written, reads only
  its own bytes and writes only its own bytes.\<close>

locale cell =
  fixes get :: "memory \<Rightarrow> u32 \<Rightarrow> 'v"
    and put :: "memory \<Rightarrow> u32 \<Rightarrow> 'v \<Rightarrow> memory"
    and width :: u32
  assumes get_put_same: "get (put m a v) a = v"
    and get_local: "(\<And>i. i < width \<Longrightarrow> m' (a + i) = m (a + i)) \<Longrightarrow> get m' a = get m a"
    and put_local: "(\<And>i. i < width \<Longrightarrow> b \<noteq> a + i) \<Longrightarrow> put m a v b = m b"
    and put_put: "put (put m a v) a w = put m a w"
    and put_get: "put m a (get m a) = m"
begin

text \<open>A write keeps every byte range that is apart from the cell.\<close>

lemma put_keeps:
  assumes "apart a width b n" "i < n"
  shows "put m a v (b + i) = m (b + i)"
proof (rule put_local)
  fix j assume "j < width"
  with assms show "b + i \<noteq> a + j" using apartD by metis
qed

end

locale two_cells = x: cell get1 put1 w1 + y: cell get2 put2 w2
  for get1 :: "memory \<Rightarrow> u32 \<Rightarrow> 'a" and put1 w1
    and get2 :: "memory \<Rightarrow> u32 \<Rightarrow> 'b" and put2 w2
begin

lemma frame: "apart a w2 b w1 \<Longrightarrow> get1 (put2 m a v) b = get1 m b"
  by (rule x.get_local) (rule y.put_keeps)

end

lemma less_2_cases: "i < 2 \<Longrightarrow> i = 0 \<or> i = 1" for i :: u32
  by unat_arith

lemma less_4_cases: "i < 4 \<Longrightarrow> i = 0 \<or> i = 1 \<or> i = 2 \<or> i = 3" for i :: u32
  by unat_arith

lemma GetU16_SetU16: "Q9K_GetU16 (Q9K_SetU16 m a v) a = v"
proof (rule bit_word_eqI)
  fix n assume "n < LENGTH(16)"
  then consider "n < 8" | "8 \<le> n" "n < 16" by force
  then show "bit (Q9K_GetU16 (Q9K_SetU16 m a v) a) n = bit v n"
    by cases (auto simp add: Q9K_GetU16_def Q9K_SetU16_def bit_simps)
qed

lemma GetU32_SetU32: "Q9K_GetU32 (Q9K_SetU32 m a v) a = v"
proof (rule bit_word_eqI)
  fix n assume "n < LENGTH(32)"
  then consider "n < 8" | "8 \<le> n" "n < 16" | "16 \<le> n" "n < 24" | "24 \<le> n" "n < 32" by force
  then show "bit (Q9K_GetU32 (Q9K_SetU32 m a v) a) n = bit v n"
    by cases (auto simp add: Q9K_GetU32_def Q9K_SetU32_def bit_simps)
qed

lemma SetU16_GetU16: "Q9K_SetU16 m a (Q9K_GetU16 m a) = m"
proof -
  have "ucast (drop_bit 8 (Q9K_GetU16 m a)) = m a" "ucast (Q9K_GetU16 m a) = m (a + 1)"
    by (rule bit_word_eqI; auto simp add: Q9K_GetU16_def bit_simps dest: bit_imp_le_length)+
  then show ?thesis by (auto simp add: Q9K_SetU16_def)
qed

lemma SetU32_GetU32: "Q9K_SetU32 m a (Q9K_GetU32 m a) = m"
proof -
  have "ucast (drop_bit 24 (Q9K_GetU32 m a)) = m a"
    "ucast (drop_bit 16 (Q9K_GetU32 m a)) = m (a + 1)"
    "ucast (drop_bit 8 (Q9K_GetU32 m a)) = m (a + 2)" "ucast (Q9K_GetU32 m a) = m (a + 3)"
    by (rule bit_word_eqI; auto simp add: Q9K_GetU32_def bit_simps dest: bit_imp_le_length)+
  then show ?thesis by (auto simp add: Q9K_SetU32_def)
qed

interpretation c8: cell Q9K_GetU8 Q9K_SetU8 1
proof unfold_locales
  show "Q9K_GetU8 m' a = Q9K_GetU8 m a" if "\<And>i. i < 1 \<Longrightarrow> m' (a + i) = m (a + i)" for m m' a
    using that [of 0] by (simp add: Q9K_GetU8_def)
  show "Q9K_SetU8 m a v b = m b" if "\<And>i. i < 1 \<Longrightarrow> b \<noteq> a + i" for m a v b
    using that [of 0] by (simp add: Q9K_SetU8_def)
qed (simp_all add: Q9K_GetU8_def Q9K_SetU8_def)

interpretation c16: cell Q9K_GetU16 Q9K_SetU16 2
proof unfold_locales
  show "Q9K_GetU16 m' a = Q9K_GetU16 m a" if "\<And>i. i < 2 \<Longrightarrow> m' (a + i) = m (a + i)" for m m' a
    using that [of 0] that [of 1] by (simp add: Q9K_GetU16_def)
  show "Q9K_SetU16 m a v b = m b" if "\<And>i. i < 2 \<Longrightarrow> b \<noteq> a + i" for m a v b
    using that [of 0] that [of 1] by (simp add: Q9K_SetU16_def)
  show "Q9K_SetU16 (Q9K_SetU16 m a v) a w = Q9K_SetU16 m a w" for m a v w
    by (auto simp add: Q9K_SetU16_def)
qed (simp_all add: GetU16_SetU16 SetU16_GetU16)

interpretation c32: cell Q9K_GetU32 Q9K_SetU32 4
proof unfold_locales
  show "Q9K_GetU32 m' a = Q9K_GetU32 m a" if "\<And>i. i < 4 \<Longrightarrow> m' (a + i) = m (a + i)" for m m' a
    using that [of 0] that [of 1] that [of 2] that [of 3] by (simp add: Q9K_GetU32_def)
  show "Q9K_SetU32 m a v b = m b" if "\<And>i. i < 4 \<Longrightarrow> b \<noteq> a + i" for m a v b
    using that [of 0] that [of 1] that [of 2] that [of 3] by (simp add: Q9K_SetU32_def)
  show "Q9K_SetU32 (Q9K_SetU32 m a v) a w = Q9K_SetU32 m a w" for m a v w
    by (auto simp add: Q9K_SetU32_def fun_upd_def)
qed (simp_all add: GetU32_SetU32 SetU32_GetU32)

interpretation c8_8: two_cells Q9K_GetU8 Q9K_SetU8 1 Q9K_GetU8 Q9K_SetU8 1 ..
interpretation c8_16: two_cells Q9K_GetU8 Q9K_SetU8 1 Q9K_GetU16 Q9K_SetU16 2 ..
interpretation c8_32: two_cells Q9K_GetU8 Q9K_SetU8 1 Q9K_GetU32 Q9K_SetU32 4 ..
interpretation c16_8: two_cells Q9K_GetU16 Q9K_SetU16 2 Q9K_GetU8 Q9K_SetU8 1 ..
interpretation c16_16: two_cells Q9K_GetU16 Q9K_SetU16 2 Q9K_GetU16 Q9K_SetU16 2 ..
interpretation c16_32: two_cells Q9K_GetU16 Q9K_SetU16 2 Q9K_GetU32 Q9K_SetU32 4 ..
interpretation c32_8: two_cells Q9K_GetU32 Q9K_SetU32 4 Q9K_GetU8 Q9K_SetU8 1 ..
interpretation c32_16: two_cells Q9K_GetU32 Q9K_SetU32 4 Q9K_GetU16 Q9K_SetU16 2 ..
interpretation c32_32: two_cells Q9K_GetU32 Q9K_SetU32 4 Q9K_GetU32 Q9K_SetU32 4 ..

lemmas cell_same [simp, q9_frame] = c8.get_put_same c16.get_put_same c32.get_put_same

lemmas cell_frame [simp, q9_frame] =
  c8_8.frame c8_16.frame c8_32.frame c16_8.frame c16_16.frame c16_32.frame
  c32_8.frame c32_16.frame c32_32.frame

lemmas cell_over [simp] = c8.put_put c16.put_put c32.put_put

section \<open>Block copy\<close>

text \<open>The byte loop \<^verbatim>\<open>for (i = 0; i < count; ++i) dst[i] = src[i]\<close>, one byte at a time.  Without
  overlap it copies; bytes outside the target never change.\<close>

fun copy_bytes :: "nat \<Rightarrow> memory \<Rightarrow> u32 \<Rightarrow> u32 \<Rightarrow> memory" where
  "copy_bytes 0 m dst src = m"
| "copy_bytes (Suc n) m dst src = copy_bytes n (m(dst := m src)) (dst + 1) (src + 1)"

lemma copy_bytes_outside:
  "\<forall>i<n. a \<noteq> dst + of_nat i \<Longrightarrow> copy_bytes n m dst src a = m a"
proof (induction n arbitrary: m dst src)
  case (Suc n)
  have "\<forall>i<n. a \<noteq> dst + 1 + of_nat i"
  proof (intro allI impI)
    fix i assume "i < n"
    then show "a \<noteq> dst + 1 + of_nat i" using Suc.prems [rule_format, of "Suc i"] by (simp add: add.assoc)
  qed
  moreover have "a \<noteq> dst" using Suc.prems [rule_format, of 0] by simp
  ultimately show ?case using Suc.IH by simp
qed simp

lemma copy_bytes_inside:
  assumes "\<forall>i<n. \<forall>j<n. dst + of_nat i \<noteq> src + of_nat j" "n \<le> 2 ^ 32" "i < n"
  shows "copy_bytes n m dst src (dst + of_nat i) = m (src + of_nat i)"
  using assms
proof (induction n arbitrary: m dst src i)
  case (Suc n)
  show ?case
  proof (cases i)
    case 0
    have "\<forall>j<n. dst \<noteq> dst + 1 + of_nat j"
      using Suc.prems(2) of_nat_Suc_neq_0 [of _ n] by (auto simp: add.assoc)
    then show ?thesis using 0 by (simp add: copy_bytes_outside)
  next
    case (Suc k)
    have "\<forall>i<n. \<forall>j<n. dst + 1 + of_nat i \<noteq> src + 1 + of_nat j"
    proof (intro allI impI)
      fix i j assume "i < n" "j < n"
      then show "dst + 1 + of_nat i \<noteq> src + 1 + of_nat j"
        using Suc.prems(1) [rule_format, of "Suc i" "Suc j"] by (simp add: add.assoc)
    qed
    moreover have "src + of_nat i \<noteq> dst" using Suc.prems(1) [rule_format, of 0 i] Suc.prems(3) by simp
    moreover define m1 where "m1 = m(dst := m src)"
    ultimately show ?thesis using Suc.IH [of "dst + 1" "src + 1" k m1] Suc.prems(2,3) Suc
      by (simp add: add.assoc m1_def [symmetric]) (simp add: m1_def)
  qed
qed simp

lemma copy_bytes_word:
  assumes "apart dst n src n"
  shows "i < n \<Longrightarrow> copy_bytes (unat n) m dst src (dst + i) = m (src + i)"
    and "(\<And>i. i < n \<Longrightarrow> a \<noteq> dst + i) \<Longrightarrow> copy_bytes (unat n) m dst src a = m a"
proof -
  have lt: "of_nat i < n" if "i < unat n" for i
    using that unat_of_nat_u32 [of i] unat_u32_less [of n] by (simp add: word_less_nat_alt)
  have "\<forall>i<unat n. \<forall>j<unat n. dst + of_nat i \<noteq> src + of_nat j" using assms lt by (auto simp: apart_def)
  then show "i < n \<Longrightarrow> copy_bytes (unat n) m dst src (dst + i) = m (src + i)"
    using copy_bytes_inside [of "unat n" dst src "unat i" m] unat_u32_less [of n] by (simp add: word_less_nat_alt)
  show "(\<And>i. i < n \<Longrightarrow> a \<noteq> dst + i) \<Longrightarrow> copy_bytes (unat n) m dst src a = m a"
    using lt by (intro copy_bytes_outside) blast
qed
section \<open>Longwords written byte by byte\<close>

text \<open>Several files write or read a longword as four explicit big-endian bytes; that is the same
  as the longword access of the target.\<close>

lemma and_FF: "x AND 0xFF = take_bit 8 x" for x :: u32
proof -
  have "(0xFF :: u32) = mask 8" by (simp add: mask_eq_exp_minus_1)
  then show ?thesis by (simp add: take_bit_eq_mask)
qed

lemma ucast_and_FF: "(ucast (x AND 0xFF) :: u8) = ucast x" for x :: u32
  unfolding and_FF by (rule bit_word_eqI) (auto simp: bit_simps)

lemma bytes_SetU32:
  "Q9K_SetU8 (Q9K_SetU8 (Q9K_SetU8 (Q9K_SetU8 m a (ucast (drop_bit 24 v))) (a + 1) (ucast (drop_bit 16 v)))
     (a + 2) (ucast (drop_bit 8 v))) (a + 3) (ucast v) = Q9K_SetU32 m a v"
  by (simp add: Q9K_SetU8_def Q9K_SetU32_def)

lemma bytes_GetU32:
  "push_bit 24 (ucast (Q9K_GetU8 m a)) OR push_bit 16 (ucast (Q9K_GetU8 m (a + 1))) OR
   push_bit 8 (ucast (Q9K_GetU8 m (a + 2))) OR ucast (Q9K_GetU8 m (a + 3)) = Q9K_GetU32 m a"
  by (simp add: Q9K_GetU8_def Q9K_GetU32_def)

end
