(* ===== verification/Q9_Date.thy ===== *)
theory Q9_Date
  imports Q9_Memory
begin

text \<open>
  Calendar arithmetic of \<^verbatim>\<open>q9kernel_date.c\<close> (F$Julian, F$Gregor): day numbers of calendar dates with
  the Julian/Gregorian switch of 15 October 1582, and the conversion back.  All arithmetic is on
  32-bit words, as in the source.
\<close>

abbreviation Q9K_JULIAN_GREGORIAN_START :: u32 where "Q9K_JULIAN_GREGORIAN_START \<equiv> 2299160"

section \<open>Day numbers\<close>

definition Q9K_DateIsGregorian :: "u32 \<Rightarrow> u32 \<Rightarrow> u32 \<Rightarrow> bool" where
  "Q9K_DateIsGregorian year month day =
     (if year \<noteq> 1582 then year > 1582 else if month \<noteq> 10 then month > 10 else day \<ge> 15)"

definition Q9K_JulianFromDate :: "u32 \<Rightarrow> u32 \<Rightarrow> u32 \<Rightarrow> u32" where
  "Q9K_JulianFromDate year month day =
     (if month < 1 \<or> month > 12 \<or> day < 1 \<or> day > 31 then 0
      else
        let a = (14 - month) div 12;
            y = year + 4800 - a;
            m = month + 12 * a - 3
        in if Q9K_DateIsGregorian year month day
           then day + (153 * m + 2) div 5 + 365 * y + y div 4 - y div 100 + y div 400 - 32045 - 1
           else day + (153 * m + 2) div 5 + 365 * y + y div 4 - 32083 - 1)"

text \<open>The result is the triple (year, month, day) the source writes through its pointers.\<close>

definition Q9K_DateFromJulian :: "u32 \<Rightarrow> u32 \<times> u32 \<times> u32" where
  "Q9K_DateFromJulian julian0 =
     (let julian = julian0 + 1 in
      if julian \<ge> Q9K_JULIAN_GREGORIAN_START + 1 then
        let l1 = julian + 68569;
            n = (4 * l1) div 146097;
            l2 = l1 - (146097 * n + 3) div 4;
            i = (4000 * (l2 + 1)) div 1461001;
            l3 = l2 - (1461 * i) div 4 + 31;
            j = (80 * l3) div 2447;
            outDay = l3 - (2447 * j) div 80;
            l4 = j div 11;
            outMonth = j + 2 - 12 * l4;
            outYear = 100 * (n - 49) + i + l4
        in (outYear, outMonth, outDay)
      else
        let j1 = julian + 1402;
            k = (j1 - 1) div 1461;
            l = j1 - 1461 * k;
            n = (l - 1) div 365 - l div 1461;
            i1 = l - 365 * n + 30;
            j2 = (80 * i1) div 2447;
            outDay = i1 - (2447 * j2) div 80;
            i2 = j2 div 11;
            outMonth = j2 + 2 - 12 * i2;
            outYear = 4 * k + n + i2 - 4716
        in (outYear, outMonth, outDay))"

section \<open>F$Julian and F$Gregor\<close>

definition Q9K_ProcJulian :: "u32 \<Rightarrow> u32 \<Rightarrow> u16 + u32 \<times> u32" where
  "Q9K_ProcJulian packedTime packedDate =
     (let year = drop_bit 16 packedDate AND 0xFFFF;
          month = drop_bit 8 packedDate AND 0xFF;
          day = packedDate AND 0xFF;
          hour = drop_bit 16 packedTime AND 0xFF;
          mn = drop_bit 8 packedTime AND 0xFF;
          sec = packedTime AND 0xFF
      in if hour > 23 \<or> mn > 59 \<or> sec > 59 then Inl 0xD2
         else
           let julian = Q9K_JulianFromDate year month day in
           if julian = 0 then Inl 0xD2
           else Inr (hour * 3600 + mn * 60 + sec, julian))"

definition Q9K_ProcGregor :: "u32 \<Rightarrow> u32 \<Rightarrow> u16 + u32 \<times> u32" where
  "Q9K_ProcGregor seconds julian =
     (if julian = 0 \<or> seconds \<ge> 24 * 3600 then Inl 0xD2
      else
        let (year, month, day) = Q9K_DateFromJulian julian
        in Inr (push_bit 16 (seconds div 3600) OR push_bit 8 ((seconds div 60) mod 60) OR seconds mod 60,
                push_bit 16 year OR push_bit 8 month OR day))"

definition Q9K_SysJulianImpl :: "memory \<Rightarrow> memory" where
  "Q9K_SysJulianImpl m =
     (case Q9K_ProcJulian (Q9K_GetU32 m 0x1930) (Q9K_GetU32 m 0x1934) of
        Inr (seconds, julian) \<Rightarrow>
          Q9K_SetU32 (Q9K_SetU32 (Q9K_SetU32 m 0x1930 seconds) 0x1934 julian) 0x193C 1
      | Inl err \<Rightarrow> Q9K_SetU32 (Q9K_SetU32 m 0x1938 (ucast err)) 0x193C 0)"

definition Q9K_SysGregorImpl :: "memory \<Rightarrow> memory" where
  "Q9K_SysGregorImpl m =
     (case Q9K_ProcGregor (Q9K_GetU32 m 0x1930) (Q9K_GetU32 m 0x1934) of
        Inr (packedTime, packedDate) \<Rightarrow>
          Q9K_SetU32 (Q9K_SetU32 (Q9K_SetU32 m 0x1930 packedTime) 0x1934 packedDate) 0x193C 1
      | Inl err \<Rightarrow> Q9K_SetU32 (Q9K_SetU32 m 0x1938 (ucast err)) 0x193C 0)"

end
