(* ===== verification/Q9_Clock.thy ===== *)
theory Q9_Clock
  imports Q9_Date
begin

text \<open>
  The system clock of \<^verbatim>\<open>q9kernel_clock.c\<close> (F$Time, F$STime) and the readers of the battery-backed
  hardware clock from \<^verbatim>\<open>q9kernel_alarm.c\<close>.  The hardware registers are the bytes of the memory at
  \<^verbatim>\<open>0xFFFFD000\<close>: between two reads of one call they do not change.
\<close>

abbreviation Q9K_CLOCK_DAY :: u32 where "Q9K_CLOCK_DAY \<equiv> 0x1B20"
abbreviation Q9K_CLOCK_SEC :: u32 where "Q9K_CLOCK_SEC \<equiv> 0x1B24"
abbreviation Q9K_CLOCK_TICK :: u32 where "Q9K_CLOCK_TICK \<equiv> 0x1B28"
abbreviation Q9K_CLOCK_VALID :: u32 where "Q9K_CLOCK_VALID \<equiv> 0x1B2C"
abbreviation Q9K_TICKS_PER_SEC :: u32 where "Q9K_TICKS_PER_SEC \<equiv> 100"
abbreviation Q9K_SECS_PER_DAY :: u32 where "Q9K_SECS_PER_DAY \<equiv> 86400"
abbreviation Q9K_RTC_BASE :: u32 where "Q9K_RTC_BASE \<equiv> 0xFFFFD000"

section \<open>The hardware clock\<close>

definition Q9K_RtcBcd :: "memory \<Rightarrow> u32 \<Rightarrow> u32" where
  "Q9K_RtcBcd m offset =
     (let raw = ucast (Q9K_GetU8 m (Q9K_RTC_BASE + offset)) :: u32
      in (drop_bit 4 raw AND 0x0F) * 10 + (raw AND 0x0F))"

record rtc_fields =
  rtcYear :: u32
  rtcMonth :: u32
  rtcDay :: u32
  rtcHour :: u32
  rtcMin :: u32
  rtcSec :: u32

definition Q9K_RtcReadFields :: "memory \<Rightarrow> rtc_fields" where
  "Q9K_RtcReadFields m =
     \<lparr>rtcYear = Q9K_RtcBcd m 10 + 2000, rtcMonth = Q9K_RtcBcd m 8, rtcDay = Q9K_RtcBcd m 6,
      rtcHour = Q9K_RtcBcd m 4, rtcMin = Q9K_RtcBcd m 2, rtcSec = Q9K_RtcBcd m 0\<rparr>"

definition Q9K_RtcRead :: "memory \<Rightarrow> u32 \<times> u32" where
  "Q9K_RtcRead m =
     (let f = Q9K_RtcReadFields m
      in (Q9K_JulianFromDate (rtcYear f) (rtcMonth f) (rtcDay f),
          rtcHour f * 3600 + rtcMin f * 60 + rtcSec f))"

section \<open>The software clock\<close>

definition Q9K_ClockSet :: "memory \<Rightarrow> u32 \<Rightarrow> u32 \<Rightarrow> memory" where
  "Q9K_ClockSet m julianDay seconds =
     (let m1 = Q9K_SetU32 m Q9K_CLOCK_DAY julianDay;
          m2 = Q9K_SetU32 m1 Q9K_CLOCK_SEC seconds;
          m3 = Q9K_SetU32 m2 Q9K_CLOCK_TICK 0
      in Q9K_SetU32 m3 Q9K_CLOCK_VALID 1)"

definition Q9K_ClockRead :: "memory \<Rightarrow> (u32 \<times> u32) \<times> memory" where
  "Q9K_ClockRead m =
     (let m1 = (if Q9K_GetU32 m Q9K_CLOCK_VALID = 0
                then (let (day, sec) = Q9K_RtcRead m in Q9K_ClockSet m day sec) else m)
      in ((Q9K_GetU32 m1 Q9K_CLOCK_DAY, Q9K_GetU32 m1 Q9K_CLOCK_SEC), m1))"

definition Q9K_ClockTick :: "memory \<Rightarrow> u32 \<times> memory" where
  "Q9K_ClockTick m =
     (if Q9K_GetU32 m Q9K_CLOCK_VALID = 0 then (0, m)
      else
        let ticks = Q9K_GetU32 m Q9K_CLOCK_TICK + 1 in
        if ticks < Q9K_TICKS_PER_SEC then (0, Q9K_SetU32 m Q9K_CLOCK_TICK ticks)
        else
          let m1 = Q9K_SetU32 m Q9K_CLOCK_TICK 0;
              sec = Q9K_GetU32 m1 Q9K_CLOCK_SEC + 1
          in if sec \<ge> Q9K_SECS_PER_DAY
             then (1, Q9K_SetU32 (Q9K_SetU32 m1 Q9K_CLOCK_DAY (Q9K_GetU32 m1 Q9K_CLOCK_DAY + 1)) Q9K_CLOCK_SEC 0)
             else (1, Q9K_SetU32 m1 Q9K_CLOCK_SEC sec))"

section \<open>F$Time and F$STime\<close>

definition Q9K_SysTimeImpl :: "memory \<Rightarrow> memory" where
  "Q9K_SysTimeImpl m =
     (let ((day, sec), m1) = Q9K_ClockRead m;
          (year, month, dayOfMonth) = Q9K_DateFromJulian day;
          m2 = Q9K_SetU32 m1 0x1B34 (push_bit 16 year OR push_bit 8 month OR dayOfMonth)
      in Q9K_SetU32 m2 0x1B30
           (push_bit 16 (sec div 3600) OR push_bit 8 ((sec div 60) mod 60) OR sec mod 60))"

definition Q9K_SysSTimeImpl :: "memory \<Rightarrow> memory" where
  "Q9K_SysSTimeImpl m =
     (let date = Q9K_GetU32 m 0x1B34;
          time = Q9K_GetU32 m 0x1B30;
          year = drop_bit 16 date AND 0xFFFF;
          month = drop_bit 8 date AND 0xFF;
          day = date AND 0xFF;
          hour = drop_bit 16 time AND 0xFF;
          mn = drop_bit 8 time AND 0xFF;
          sec = time AND 0xFF;
          m0 = Q9K_SetU32 m 0x1B3C 0;
          f = (if month = 0
               then (let r = Q9K_RtcReadFields m0
                     in r\<lparr>rtcYear := (if year \<noteq> 0 then (year div 100) * 100 + rtcYear r mod 100 else rtcYear r)\<rparr>)
               else \<lparr>rtcYear = year, rtcMonth = month, rtcDay = day, rtcHour = hour, rtcMin = mn, rtcSec = sec\<rparr>)
      in if rtcHour f > 23 \<or> rtcMin f > 59 \<or> rtcSec f > 59 then Q9K_SetU32 m0 0x1B38 0xD2
         else
           let jd = Q9K_JulianFromDate (rtcYear f) (rtcMonth f) (rtcDay f) in
           if jd = 0 then Q9K_SetU32 m0 0x1B38 0xD2
           else Q9K_SetU32 (Q9K_ClockSet m0 jd (rtcHour f * 3600 + rtcMin f * 60 + rtcSec f)) 0x1B3C 1)"

end
