(* ===== verification/Q9_Ring.thy ===== *)
theory Q9_Ring
  imports Q9_Memory
begin

text \<open>
  The circular doubly linked lists of \<^verbatim>\<open>q9kernel_sched.c\<close>: a sentinel and the process descriptors
  are linked through the fields at \<^verbatim>\<open>+0x30\<close> (next) and \<^verbatim>\<open>+0x34\<close> (previous).  The abstraction
  relates the memory to the list of queued descriptors; append and unlink are the list
  operations under it, whatever the position of the node.
\<close>

abbreviation Q9K_READYQ_NEXT_OFF :: u32 where "Q9K_READYQ_NEXT_OFF \<equiv> 0x30"
abbreviation Q9K_READYQ_PREV_OFF :: u32 where "Q9K_READYQ_PREV_OFF \<equiv> 0x34"

section \<open>Operations\<close>

definition Q9K_ListUnlink :: "memory \<Rightarrow> u32 \<Rightarrow> memory" where
  "Q9K_ListUnlink m node =
     (let next = Q9K_GetU32 m (node + Q9K_READYQ_NEXT_OFF);
          prev = Q9K_GetU32 m (node + Q9K_READYQ_PREV_OFF);
          m1 = Q9K_SetU32 m (prev + Q9K_READYQ_NEXT_OFF) next
      in Q9K_SetU32 m1 (next + Q9K_READYQ_PREV_OFF) prev)"

definition Q9K_ListAppend :: "memory \<Rightarrow> u32 \<Rightarrow> u32 \<Rightarrow> memory" where
  "Q9K_ListAppend m sentinel node =
     (let tail = Q9K_GetU32 m (sentinel + Q9K_READYQ_PREV_OFF);
          m1 = Q9K_SetU32 m (node + Q9K_READYQ_NEXT_OFF) sentinel;
          m2 = Q9K_SetU32 m1 (node + Q9K_READYQ_PREV_OFF) tail;
          m3 = Q9K_SetU32 m2 (tail + Q9K_READYQ_NEXT_OFF) node
      in Q9K_SetU32 m3 (sentinel + Q9K_READYQ_PREV_OFF) node)"

section \<open>The list abstraction\<close>

abbreviation nxt :: "memory \<Rightarrow> u32 \<Rightarrow> u32" where
  "nxt m x \<equiv> Q9K_GetU32 m (x + Q9K_READYQ_NEXT_OFF)"

abbreviation prv :: "memory \<Rightarrow> u32 \<Rightarrow> u32" where
  "prv m x \<equiv> Q9K_GetU32 m (x + Q9K_READYQ_PREV_OFF)"

fun links :: "memory \<Rightarrow> u32 list \<Rightarrow> bool" where
  "links m (a # b # r) \<longleftrightarrow> nxt m a = b \<and> prv m b = a \<and> links m (b # r)"
| "links m _ \<longleftrightarrow> True"

definition ring :: "memory \<Rightarrow> u32 \<Rightarrow> u32 list \<Rightarrow> bool" where
  "ring m s xs \<longleftrightarrow> links m (s # xs @ [s])"

text \<open>The link fields of the given nodes do not overlap.\<close>

definition links_apart :: "u32 set \<Rightarrow> bool" where
  "links_apart X \<longleftrightarrow> (\<forall>x\<in>X. \<forall>y\<in>X. x \<noteq> y \<longrightarrow> apart (x + 0x30) 8 (y + 0x30) 8)"

lemma links_apart_mono: "links_apart X \<Longrightarrow> Y \<subseteq> X \<Longrightarrow> links_apart Y"
  unfolding links_apart_def by blast

lemma links_apartD:
  assumes "links_apart X" "x \<in> X" "y \<in> X" "x \<noteq> y"
  shows "apart (x + 0x30) 4 (y + 0x30) 4" "apart (x + 0x30) 4 (y + 0x34) 4"
    "apart (x + 0x34) 4 (y + 0x30) 4" "apart (x + 0x34) 4 (y + 0x34) 4"
proof -
  have a: "apart (x + 0x30) 8 (y + 0x30) 8" using assms by (auto simp: links_apart_def)
  show "apart (x + 0x30) 4 (y + 0x30) 4" using apart_sub [OF a, of 0 4 0 4] by simp
  show "apart (x + 0x30) 4 (y + 0x34) 4" using apart_sub [OF a, of 0 4 4 4] by (simp add: add.assoc)
  show "apart (x + 0x34) 4 (y + 0x30) 4" using apart_sub [OF a, of 4 4 0 4] by (simp add: add.assoc)
  show "apart (x + 0x34) 4 (y + 0x34) 4" using apart_sub [OF a, of 4 4 4 4] by (simp add: add.assoc)
qed

lemma links_join: "links m (xs @ x # ys) \<longleftrightarrow> links m (xs @ [x]) \<and> links m (x # ys)"
proof (induction xs)
  case (Cons a xs) then show ?case by (cases xs) auto
qed simp

lemma links_cong:
  assumes "\<And>x. x \<in> set (butlast zs) \<Longrightarrow> nxt m' x = nxt m x"
    "\<And>x. x \<in> set (tl zs) \<Longrightarrow> prv m' x = prv m x"
  shows "links m' zs \<longleftrightarrow> links m zs"
  using assms
proof (induction m zs rule: links.induct)
  case (1 m a b r)
  then have "links m' (b # r) = links m (b # r)" by (simp add: list.set_sel)
  with 1 show ?case by simp
qed simp_all

lemma cons_last: "s # xs @ zs = butlast (s # xs) @ last (s # xs) # zs"
proof -
  have "s # xs = butlast (s # xs) @ [last (s # xs)]" by (rule append_butlast_last_id [symmetric]) simp
  from arg_cong [OF this, of "\<lambda>l. l @ zs"] show ?thesis by simp
qed

lemma ring_split:
  "ring m s (xs @ ys) \<longleftrightarrow> links m (s # xs) \<and> links m (last (s # xs) # ys @ [s])"
proof -
  define as t where "as = butlast (s # xs)" and "t = last (s # xs)"
  have "s # (xs @ ys) @ [s] = as @ t # ys @ [s]" "s # xs = as @ [t]"
    using cons_last [of s xs "ys @ [s]"] by (simp_all add: as_def t_def)
  then have "ring m s (xs @ ys) \<longleftrightarrow> links m (as @ [t]) \<and> links m (t # ys @ [s])" "links m (s # xs) = links m (as @ [t])"
    by (simp_all only: ring_def links_join [of m as t "ys @ [s]"])
  then show ?thesis by (simp only: t_def)
qed

lemma ring_ends:
  assumes "ring m s xs"
  shows "prv m s = last (s # xs)" "nxt m s = hd (xs @ [s])"
proof -
  have "links m (last (s # xs) # [s])" using assms ring_split [of m s xs "[]"] by simp
  then show "prv m s = last (s # xs)" by simp
  show "nxt m s = hd (xs @ [s])" using assms by (cases xs) (auto simp: ring_def)
qed

lemma ring_node:
  assumes "ring m s (xs @ n # ys)"
  shows "prv m n = last (s # xs)" "nxt m n = hd (ys @ [s])"
proof -
  have l: "links m (last (s # xs) # n # ys @ [s])" using assms ring_split [of m s xs "n # ys"] by simp
  then show "prv m n = last (s # xs)" by simp
  from l show "nxt m n = hd (ys @ [s])" by (cases ys) auto
qed

section \<open>Append and unlink\<close>

lemma ring_append:
  assumes r: "ring m s xs" and d: "distinct (s # n # xs)" and a: "links_apart (set (s # n # xs))"
  shows "ring (Q9K_ListAppend m s n) s (xs @ [n])"
proof -
  define m' t as where "m' = Q9K_ListAppend m s n" and "t = last (s # xs)" and "as = butlast (s # xs)"
  note ap = links_apartD [OF a]
  have sx: "s # xs = as @ [t]" by (simp add: as_def t_def)
  have "distinct (as @ [t])" "n \<notin> set (as @ [t])" unfolding sx [symmetric] using d by auto
  then have as: "t \<noteq> n" "t \<notin> set as" "n \<notin> set as" by auto
  have set: "set as \<subseteq> set (s # n # xs)" "t \<in> set (s # n # xs)" "s \<in> set (s # n # xs)" "n \<in> set (s # n # xs)"
    using sx by (auto simp: as_def t_def dest: in_set_butlastD)
  have m: "m' = Q9K_SetU32 (Q9K_SetU32 (Q9K_SetU32 (Q9K_SetU32 m (n + 0x30) s) (n + 0x34) t) (t + 0x30) n)
      (s + 0x34) n"
    unfolding m'_def Q9K_ListAppend_def t_def using ring_ends(1) [OF r] by (simp add: Let_def)
  have new: "nxt m' n = s" "prv m' n = t" "nxt m' t = n" "prv m' s = n"
    unfolding m using d as set by (cases "t = s"; simp add: ap)+
  have fx: "nxt m' x = nxt m x" if "x \<in> set as" for x
  proof -
    have "x \<noteq> n" "x \<noteq> t" "x \<in> set (s # n # xs)" using that as set by auto
    then show ?thesis unfolding m using set by (cases "x = s"; simp add: ap del: set_simps)
  qed
  have fy: "prv m' x = prv m x" if "x \<in> set xs" for x
  proof -
    have "x \<noteq> n" "x \<noteq> s" "x \<in> set (s # n # xs)" using that d by auto
    then show ?thesis unfolding m using set by (cases "x = t"; simp add: ap del: set_simps)
  qed
  have "links m' (s # xs) = links m (s # xs)" by (rule links_cong) (auto simp: fx fy as_def)
  with r new show ?thesis unfolding m'_def [symmetric]
    using ring_split [of m s xs "[]"] ring_split [of m' s xs "[n]"] by (simp add: t_def)
qed

lemma ring_unlink:
  assumes r: "ring m s (xs @ n # ys)" and d: "distinct (s # xs @ n # ys)"
    and a: "links_apart (set (s # xs @ n # ys))"
  shows "ring (Q9K_ListUnlink m n) s (xs @ ys)"
proof -
  define m' p q where "m' = Q9K_ListUnlink m n" and "p = last (s # xs)" and "q = hd (ys @ [s])"
  note ap = links_apartD [OF a]
  have m: "m' = Q9K_SetU32 (Q9K_SetU32 m (p + 0x30) q) (q + 0x34) p"
    unfolding m'_def Q9K_ListUnlink_def p_def q_def using ring_node [OF r] by (simp add: Let_def)
  have pq: "p \<in> set (s # xs @ n # ys)" "q \<in> set (s # xs @ n # ys)"
    by (auto simp: p_def q_def hd_append)
  have new: "nxt m' p = q" "prv m' q = p"
    unfolding m using pq by (cases "p = q"; simp add: ap del: set_simps)+
  have fx: "nxt m' x = nxt m x" if "x \<in> set (s # xs @ n # ys)" "x \<noteq> p" for x
    unfolding m using that pq by (cases "x = q"; simp add: ap del: set_simps)
  have fy: "prv m' x = prv m x" if "x \<in> set (s # xs @ n # ys)" "x \<noteq> q" for x
    unfolding m using that pq by (cases "x = p"; simp add: ap del: set_simps)
  have sx: "s # xs = butlast (s # xs) @ [p]" by (simp add: p_def)
  obtain zs where sy: "ys @ [s] = q # zs" by (cases ys) (auto simp: q_def)
  have l1: "links m' (s # xs) = links m (s # xs)"
  proof (rule links_cong)
    fix x assume "x \<in> set (butlast (s # xs))"
    moreover have "distinct (butlast (s # xs) @ [p])" using d unfolding sx [symmetric] by auto
    moreover have "x \<in> set (s # xs)" using calculation(1) by (rule in_set_butlastD)
    ultimately show "nxt m' x = nxt m x" by (intro fx) auto
  next
    fix x assume "x \<in> set (tl (s # xs))"
    then show "prv m' x = prv m x" using d by (intro fy) (auto simp: q_def hd_append split: if_splits)
  qed
  have l2: "links m' (ys @ [s]) = links m (ys @ [s])"
  proof (rule links_cong)
    fix x assume "x \<in> set (butlast (ys @ [s]))"
    moreover have "p \<in> set (s # xs)" unfolding p_def by (rule last_in_set) simp
    ultimately show "nxt m' x = nxt m x" using d by (intro fx) auto
  next
    fix x assume "x \<in> set (tl (ys @ [s]))"
    then have "x \<in> set zs" by (simp add: sy)
    moreover have "distinct (q # zs)" "set (q # zs) \<subseteq> set (s # xs @ n # ys)"
      using d unfolding sy [symmetric] by auto
    ultimately show "prv m' x = prv m x" by (intro fy) auto
  qed
  from r have "links m (s # xs)" "links m (n # ys @ [s])"
    using ring_split [of m s xs "n # ys"] by auto
  then have "links m' (s # xs)" "links m' (ys @ [s])"
    using l1 l2 by (auto simp: sy)
  then show ?thesis unfolding m'_def [symmetric] using new ring_split [of m' s xs ys]
    by (simp add: sy p_def)
qed

end
