(* ===== verification/Q9_Layout.thy ===== *)
theory Q9_Layout
  imports Q9_Ring
begin

text \<open>
  Addresses, field offsets and error numbers shared by the kernel files, and the memory layout
  facts the proofs rest on: the kernel globals live below \<^verbatim>\<open>0x8000\<close>, process descriptors are
  blocks of \<^verbatim>\<open>0x400\<close> bytes above it, and the memory-mapped devices sit in the last 64 KByte.
\<close>

section \<open>Kernel globals\<close>

abbreviation Q9_D_PROC :: u32 where "Q9_D_PROC \<equiv> 0x04C"
abbreviation Q9K_READYQ_SENTINEL_ADDR :: u32 where "Q9K_READYQ_SENTINEL_ADDR \<equiv> 0x1240"
abbreviation Q9K_WAITQ_SENTINEL_ADDR :: u32 where "Q9K_WAITQ_SENTINEL_ADDR \<equiv> 0x12A0"
abbreviation Q9K_SLEEPQ_SENTINEL_ADDR :: u32 where "Q9K_SLEEPQ_SENTINEL_ADDR \<equiv> 0x12F0"
abbreviation Q9K_SCHED_SLICE_ADDR :: u32 where "Q9K_SCHED_SLICE_ADDR \<equiv> 0x123C"
abbreviation Q9K_SCHED_MINPTY_ADDR :: u32 where "Q9K_SCHED_MINPTY_ADDR \<equiv> 0x19E0"
abbreviation Q9K_SCHED_NOSWITCH_ADDR :: u32 where "Q9K_SCHED_NOSWITCH_ADDR \<equiv> 0x2488"
abbreviation Q9K_SCHED_MAXAGE_ADDR :: u32 where "Q9K_SCHED_MAXAGE_ADDR \<equiv> 0x2550"
abbreviation Q9K_SCHED_TSLICE :: u16 where "Q9K_SCHED_TSLICE \<equiv> 2"
abbreviation Q9K_SLEEP_INFINITE :: u32 where "Q9K_SLEEP_INFINITE \<equiv> 0xFFFFFFFF"

section \<open>Process descriptor\<close>

abbreviation Q9K_PROCDESC_SAVEDSP_OFF :: u32 where "Q9K_PROCDESC_SAVEDSP_OFF \<equiv> 0x08"
abbreviation Q9K_PROCDESC_USER_OFF :: u32 where "Q9K_PROCDESC_USER_OFF \<equiv> 0x14"
abbreviation Q9K_PROCDESC_PRIORITY_OFF :: u32 where "Q9K_PROCDESC_PRIORITY_OFF \<equiv> 0x19"
abbreviation Q9K_PROCDESC_AGE_OFF :: u32 where "Q9K_PROCDESC_AGE_OFF \<equiv> 0x1A"
abbreviation Q9K_PROCDESC_STATE_OFF :: u32 where "Q9K_PROCDESC_STATE_OFF \<equiv> 0x1D"
abbreviation Q9K_PROCDESC_SIGNAL_OFF :: u32 where "Q9K_PROCDESC_SIGNAL_OFF \<equiv> 0x26"
abbreviation Q9K_PROCDESC_SIGVEC_OFF :: u32 where "Q9K_PROCDESC_SIGVEC_OFF \<equiv> 0x28"
abbreviation Q9K_PROCDESC_SIGDAT_OFF :: u32 where "Q9K_PROCDESC_SIGDAT_OFF \<equiv> 0x2C"
abbreviation Q9K_PROCDESC_MODHDR_OFF :: u32 where "Q9K_PROCDESC_MODHDR_OFF \<equiv> 0x38"
abbreviation Q9K_PROCDESC_ALLOCBASE_OFF :: u32 where "Q9K_PROCDESC_ALLOCBASE_OFF \<equiv> 0x1B0"
abbreviation Q9K_PROCDESC_ALLOCSIZE_OFF :: u32 where "Q9K_PROCDESC_ALLOCSIZE_OFF \<equiv> 0x1B4"
abbreviation Q9K_PROCDESC_SLEEPTICKS_OFF :: u32 where "Q9K_PROCDESC_SLEEPTICKS_OFF \<equiv> 0x1C4"
abbreviation Q9K_PROCDESC_ICPTDEPTH_OFF :: u32 where "Q9K_PROCDESC_ICPTDEPTH_OFF \<equiv> 0x1CC"
abbreviation Q9K_PROCDESC_EVMIN_OFF :: u32 where "Q9K_PROCDESC_EVMIN_OFF \<equiv> 0x1D0"
abbreviation Q9K_PROCDESC_EVMAX_OFF :: u32 where "Q9K_PROCDESC_EVMAX_OFF \<equiv> 0x1D4"
abbreviation Q9K_PROCDESC_SIGLVL_OFF :: u32 where "Q9K_PROCDESC_SIGLVL_OFF \<equiv> 0x210"
abbreviation Q9K_PROCDESC_SIZE :: u32 where "Q9K_PROCDESC_SIZE \<equiv> 0x400"

text \<open>The state letters: \<^verbatim>\<open>'a'\<close> active, \<^verbatim>\<open>'w'\<close> waiting, \<^verbatim>\<open>'s'\<close> sleeping, \<^verbatim>\<open>'p'\<close> on a semaphore,
  \<^verbatim>\<open>'z'\<close> zombie, \<^verbatim>\<open>'i'\<close> the idle descriptor.\<close>

abbreviation Q9K_PROCDESC_STATE_ACTIVE :: u8 where "Q9K_PROCDESC_STATE_ACTIVE \<equiv> 0x61"
abbreviation Q9K_PROCDESC_STATE_IDLE :: u8 where "Q9K_PROCDESC_STATE_IDLE \<equiv> 0x69"
abbreviation Q9K_PROCDESC_STATE_SEMA :: u8 where "Q9K_PROCDESC_STATE_SEMA \<equiv> 0x70"
abbreviation Q9K_PROCDESC_STATE_SLEEPING :: u8 where "Q9K_PROCDESC_STATE_SLEEPING \<equiv> 0x73"
abbreviation Q9K_PROCDESC_STATE_WAITING :: u8 where "Q9K_PROCDESC_STATE_WAITING \<equiv> 0x77"
abbreviation Q9K_PROCDESC_STATE_ZOMBIE :: u8 where "Q9K_PROCDESC_STATE_ZOMBIE \<equiv> 0x7A"

section \<open>Error numbers\<close>

abbreviation Q9K_E_PERMIT :: u16 where "Q9K_E_PERMIT \<equiv> 0xA4"
abbreviation Q9K_E_MEMFUL :: u16 where "Q9K_E_MEMFUL \<equiv> 0xCF"
abbreviation Q9K_E_UNKSVC :: u16 where "Q9K_E_UNKSVC \<equiv> 0xD0"
abbreviation Q9K_E_BPADDR :: u16 where "Q9K_E_BPADDR \<equiv> 0xD2"
abbreviation Q9K_E_PRCID :: u16 where "Q9K_E_PRCID \<equiv> 0xE0"
abbreviation Q9K_E_NORAM :: u16 where "Q9K_E_NORAM \<equiv> 0xED"

section \<open>Where descriptors may lie\<close>

definition desc_ok :: "u32 \<Rightarrow> bool" where
  "desc_ok d \<longleftrightarrow> 0x8000 \<le> unat d \<and> unat d + 0x400 \<le> 0xFFFF0000"

definition procs_ok :: "u32 set \<Rightarrow> bool" where
  "procs_ok P \<longleftrightarrow> (\<forall>d\<in>P. desc_ok d) \<and> (\<forall>d\<in>P. \<forall>e\<in>P. d \<noteq> e \<longrightarrow> apart d 0x400 e 0x400)"

lemma procs_okD: "procs_ok P \<Longrightarrow> d \<in> P \<Longrightarrow> desc_ok d"
  and procs_ok_apart: "procs_ok P \<Longrightarrow> d \<in> P \<Longrightarrow> e \<in> P \<Longrightarrow> d \<noteq> e \<Longrightarrow> apart d 0x400 e 0x400"
  by (auto simp: procs_ok_def)

lemma desc_ok_nonzero: "desc_ok d \<Longrightarrow> d \<noteq> 0"
  by (auto simp: desc_ok_def)

lemma desc_ok_not_global: "desc_ok d \<Longrightarrow> unat g < 0x8000 \<Longrightarrow> d \<noteq> g"
  by (auto simp: desc_ok_def)

text \<open>A field of a descriptor and a kernel global are apart; so are fields of two descriptors.\<close>

lemma desc_global:
  assumes "desc_ok d" "unat i + unat n \<le> 0x400" "unat g + unat k \<le> 0x8000"
  shows "apart (d + i) n g k" "apart g k (d + i) n"
proof -
  show "apart (d + i) n g k"
    using assms by (intro apart_high_low [where L = "0x8000"]) (auto simp: desc_ok_def)
  then show "apart g k (d + i) n" by (rule apart_sym)
qed

lemma desc_desc:
  assumes "apart d 0x400 e 0x400" "i + n \<le> 0x400" "i \<le> i + n" "j + k \<le> 0x400" "j \<le> j + k"
  shows "apart (d + i) n (e + j) k" "apart (e + j) k (d + i) n"
  using apart_sub [OF assms] apart_sym by blast+

lemmas desc_sep [q9_sep] = desc_global desc_desc

lemma links_apart_procs:
  assumes "procs_ok P" "unat s + 0x38 \<le> 0x8000"
  shows "links_apart (insert s P)"
proof -
  have s: "unat (s + 0x30) + 8 \<le> 0x8000" using assms(2) by (subst unat_offset) simp_all
  have "apart (x + 0x30) 8 (y + 0x30) 8" if xy: "x \<in> insert s P" "y \<in> insert s P" "x \<noteq> y" for x y
  proof -
    consider "x \<in> P" "y \<in> P" | "x \<in> P" "y = s" | "x = s" "y \<in> P" using xy by blast
    then show ?thesis
    proof cases
      case 1 then show ?thesis
        using assms(1) xy by (intro desc_desc procs_ok_apart) auto
    next
      case 2 then show ?thesis using assms(1) s by (auto intro!: desc_global(1) dest: procs_okD)
    next
      case 3 then show ?thesis using assms(1) s by (auto intro!: desc_global(2) dest: procs_okD)
    qed
  qed
  then show ?thesis by (auto simp: links_apart_def)
qed

end
