(* ===== verification/Q9_Sched.thy ===== *)
theory Q9_Sched
  imports Q9_Layout
begin

text \<open>
  The scheduler core of \<^verbatim>\<open>q9kernel_sched.c\<close>: ready, wait and sleep queue, aging, selection of the
  process with the highest age, and waking.  The periodic entry point \<^verbatim>\<open>Q9K_SchedReschedule\<close> also
  runs the alarms and the clock and is in theory \<^verbatim>\<open>Q9_Tick\<close>.  A loop over a queue returns
  \<^const>\<open>None\<close> exactly when it would run forever on a broken queue.
\<close>

section \<open>Loops over a queue\<close>

text \<open>\<open>walk\<close> reads the link after the body, \<open>walk_saved\<close> before it (the body may unlink the node),
  \<open>walk_acc\<close> only reads the memory.\<close>

partial_function (option) walk ::
  "(memory \<Rightarrow> u32 \<Rightarrow> memory) \<Rightarrow> u32 \<Rightarrow> memory \<Rightarrow> u32 \<Rightarrow> memory option" where
  "walk body sentinel m node =
     (if node = sentinel then Some m
      else walk body sentinel (body m node) (nxt (body m node) node))"

partial_function (option) walk_saved ::
  "(memory \<Rightarrow> u32 \<Rightarrow> memory) \<Rightarrow> u32 \<Rightarrow> memory \<Rightarrow> u32 \<Rightarrow> memory option" where
  "walk_saved body sentinel m node =
     (if node = sentinel then Some m
      else walk_saved body sentinel (body m node) (nxt m node))"

partial_function (option) walk_acc ::
  "(memory \<Rightarrow> u32 \<Rightarrow> 'a \<Rightarrow> 'a) \<Rightarrow> u32 \<Rightarrow> memory \<Rightarrow> u32 \<Rightarrow> 'a \<Rightarrow> 'a option" where
  "walk_acc body sentinel m node acc =
     (if node = sentinel then Some acc
      else walk_acc body sentinel m (nxt m node) (body m node acc))"

section \<open>Queue operations\<close>

definition Q9K_SchedInsert :: "memory \<Rightarrow> u32 \<Rightarrow> memory" where
  "Q9K_SchedInsert m desc =
     (let m1 = Q9K_SetU16 m (desc + Q9K_PROCDESC_AGE_OFF)
                 (ucast (Q9K_GetU8 m (desc + Q9K_PROCDESC_PRIORITY_OFF)))
      in Q9K_ListAppend m1 Q9K_READYQ_SENTINEL_ADDR desc)"

definition Q9K_SchedRemove :: "memory \<Rightarrow> u32 \<Rightarrow> memory" where
  "Q9K_SchedRemove m desc = (if desc \<noteq> 0 then Q9K_ListUnlink m desc else m)"

definition Q9K_SchedCommitPreempt :: "memory \<Rightarrow> u32 \<Rightarrow> u32 \<times> memory" where
  "Q9K_SchedCommitPreempt m target =
     (let current = Q9K_GetU32 m Q9_D_PROC in
      if target = 0 \<or> target = current then (0, m)
      else
        let m1 = Q9K_SchedRemove m target;
            m2 = (if current \<noteq> 0 then Q9K_SchedInsert m1 current else m1)
        in (target, Q9K_SetU32 m2 Q9_D_PROC target))"

partial_function (option) Q9K_SchedSetPriority_loop ::
  "memory \<Rightarrow> u32 \<Rightarrow> u8 \<Rightarrow> u32 \<Rightarrow> memory option" where
  "Q9K_SchedSetPriority_loop m desc stored node =
     (if node = Q9K_READYQ_SENTINEL_ADDR then Some m
      else if node = desc then Some (Q9K_SetU16 m (desc + Q9K_PROCDESC_AGE_OFF) (ucast stored))
      else Q9K_SchedSetPriority_loop m desc stored (nxt m node))"

definition Q9K_SchedSetPriority :: "memory \<Rightarrow> u32 \<Rightarrow> u16 \<Rightarrow> memory option" where
  "Q9K_SchedSetPriority m desc priority =
     (let stored = ucast (priority AND 0xFF);
          m1 = Q9K_SetU8 m (desc + Q9K_PROCDESC_PRIORITY_OFF) stored;
          node = nxt m1 Q9K_READYQ_SENTINEL_ADDR
      in Q9K_SchedSetPriority_loop m1 desc stored node)"

definition Q9K_SchedWake :: "memory \<Rightarrow> u32 \<Rightarrow> memory" where
  "Q9K_SchedWake m desc =
     (if desc = 0 then m
      else if Q9K_GetU8 m (desc + Q9K_PROCDESC_STATE_OFF) \<noteq> Q9K_PROCDESC_STATE_SLEEPING then m
      else
        let m1 = Q9K_ListUnlink m desc;
            m2 = Q9K_SetU8 m1 (desc + Q9K_PROCDESC_STATE_OFF) Q9K_PROCDESC_STATE_ACTIVE
        in Q9K_SchedInsert m2 desc)"

definition Q9K_WaitQInsert :: "memory \<Rightarrow> u32 \<Rightarrow> memory" where
  "Q9K_WaitQInsert m desc = Q9K_ListAppend m Q9K_WAITQ_SENTINEL_ADDR desc"

definition Q9K_WaitQRemove :: "memory \<Rightarrow> u32 \<Rightarrow> memory" where
  "Q9K_WaitQRemove m desc = Q9K_ListUnlink m desc"

definition Q9K_SleepQInsert :: "memory \<Rightarrow> u32 \<Rightarrow> memory" where
  "Q9K_SleepQInsert m desc = Q9K_ListAppend m Q9K_SLEEPQ_SENTINEL_ADDR desc"

definition Q9K_SleepQDecrement_node :: "memory \<Rightarrow> u32 \<Rightarrow> memory" where
  "Q9K_SleepQDecrement_node m node =
     (let ticks = Q9K_GetU32 m (node + Q9K_PROCDESC_SLEEPTICKS_OFF) in
      if ticks \<noteq> Q9K_SLEEP_INFINITE then
        let ticks' = (if ticks = 0 then 0 else ticks - 1);
            m1 = Q9K_SetU32 m (node + Q9K_PROCDESC_SLEEPTICKS_OFF) ticks'
        in if ticks' = 0 then
             let m2 = Q9K_ListUnlink m1 node;
                 m3 = Q9K_SetU8 m2 (node + Q9K_PROCDESC_STATE_OFF) Q9K_PROCDESC_STATE_ACTIVE
             in Q9K_SchedInsert m3 node
           else m1
      else m)"

definition Q9K_SleepQDecrementAll :: "memory \<Rightarrow> memory option" where
  "Q9K_SleepQDecrementAll m =
     walk_saved Q9K_SleepQDecrement_node Q9K_SLEEPQ_SENTINEL_ADDR m (nxt m Q9K_SLEEPQ_SENTINEL_ADDR)"

definition Q9K_SchedGetMinPty :: "memory \<Rightarrow> u32" where
  "Q9K_SchedGetMinPty m = ucast (Q9K_GetU16 m Q9K_SCHED_MINPTY_ADDR)"

definition Q9K_SchedSetMinPty :: "memory \<Rightarrow> u32 \<Rightarrow> memory" where
  "Q9K_SchedSetMinPty m value = Q9K_SetU16 m Q9K_SCHED_MINPTY_ADDR (ucast value)"

definition Q9K_SchedGetMaxAge :: "memory \<Rightarrow> u32" where
  "Q9K_SchedGetMaxAge m = ucast (Q9K_GetU16 m Q9K_SCHED_MAXAGE_ADDR)"

definition Q9K_SchedSetMaxAge :: "memory \<Rightarrow> u32 \<Rightarrow> memory" where
  "Q9K_SchedSetMaxAge m value = Q9K_SetU16 m Q9K_SCHED_MAXAGE_ADDR (ucast value)"

definition Q9K_SchedAge_node :: "u16 \<Rightarrow> memory \<Rightarrow> u32 \<Rightarrow> memory" where
  "Q9K_SchedAge_node maxAge m node =
     (let age = Q9K_GetU16 m (node + Q9K_PROCDESC_AGE_OFF) in
      if maxAge = 0 then
        if age \<noteq> 0xFFFF then Q9K_SetU16 m (node + Q9K_PROCDESC_AGE_OFF) (age + 1) else m
      else if ucast (Q9K_GetU8 m (node + Q9K_PROCDESC_PRIORITY_OFF)) \<ge> maxAge then m
      else if age < maxAge then Q9K_SetU16 m (node + Q9K_PROCDESC_AGE_OFF) (age + 1)
      else m)"

definition Q9K_SchedAgeAll :: "memory \<Rightarrow> memory option" where
  "Q9K_SchedAgeAll m =
     (let node = nxt m Q9K_READYQ_SENTINEL_ADDR;
          maxAge = Q9K_GetU16 m Q9K_SCHED_MAXAGE_ADDR
      in walk (Q9K_SchedAge_node maxAge) Q9K_READYQ_SENTINEL_ADDR m node)"

text \<open>The loop body of the selection: \<open>acc\<close> is the pair (best, bestAge).\<close>

definition Q9K_SchedPick_node :: "u16 \<Rightarrow> memory \<Rightarrow> u32 \<Rightarrow> u32 \<times> u16 \<Rightarrow> u32 \<times> u16" where
  "Q9K_SchedPick_node minPty m node acc =
     (let age = Q9K_GetU16 m (node + Q9K_PROCDESC_AGE_OFF) in
      if minPty = 0 \<or> ucast (Q9K_GetU8 m (node + Q9K_PROCDESC_PRIORITY_OFF)) \<ge> minPty then
        if fst acc = 0 \<or> age > snd acc then (node, age) else acc
      else acc)"

definition Q9K_SchedPickHighestAge :: "memory \<Rightarrow> (u32 \<times> memory) option" where
  "Q9K_SchedPickHighestAge m =
     (let node = nxt m Q9K_READYQ_SENTINEL_ADDR;
          minPty = Q9K_GetU16 m Q9K_SCHED_MINPTY_ADDR
      in do {
        (best, bestAge) \<leftarrow> walk_acc (Q9K_SchedPick_node minPty) Q9K_READYQ_SENTINEL_ADDR m node (0, 0);
        Some (best, if best \<noteq> 0 then Q9K_ListUnlink m best else m)
      })"

definition Q9K_SchedFirstPick :: "memory \<Rightarrow> (u32 \<times> memory) option" where
  "Q9K_SchedFirstPick m = do {
     (first, m2) \<leftarrow> Q9K_SchedPickHighestAge (Q9K_SetU16 m Q9K_SCHED_MINPTY_ADDR 0);
     Some (first,
       if first \<noteq> 0
       then Q9K_SetU16 (Q9K_SetU32 m2 Q9_D_PROC first) Q9K_SCHED_SLICE_ADDR Q9K_SCHED_TSLICE
       else m2)
   }"


section \<open>The queues as lists\<close>

type_synonym queues = "u32 \<Rightarrow> u32 list"

definition sentinels :: "u32 set" where
  "sentinels = {Q9K_READYQ_SENTINEL_ADDR, Q9K_WAITQ_SENTINEL_ADDR, Q9K_SLEEPQ_SENTINEL_ADDR}"

text \<open>\<open>sched_rep m P Q\<close>: the three rings of the memory hold the lists \<open>Q\<close>, over descriptors of the
  set \<open>P\<close>, and no descriptor is queued twice.\<close>

definition sched_rep :: "memory \<Rightarrow> u32 set \<Rightarrow> queues \<Rightarrow> bool" where
  "sched_rep m P Q \<longleftrightarrow> procs_ok P \<and>
     (\<forall>s\<in>sentinels. ring m s (Q s) \<and> set (Q s) \<subseteq> P \<and> distinct (Q s)) \<and>
     (\<forall>s\<in>sentinels. \<forall>t\<in>sentinels. s \<noteq> t \<longrightarrow> set (Q s) \<inter> set (Q t) = {})"

definition queued :: "queues \<Rightarrow> u32 set" where
  "queued Q = (\<Union>s\<in>sentinels. set (Q s))"

lemma sentinels_iff [simp]:
  "Q9K_READYQ_SENTINEL_ADDR \<in> sentinels" "Q9K_WAITQ_SENTINEL_ADDR \<in> sentinels"
  "Q9K_SLEEPQ_SENTINEL_ADDR \<in> sentinels"
  by (simp_all add: sentinels_def)

lemma sched_repD:
  assumes "sched_rep m P Q"
  shows "procs_ok P" "s \<in> sentinels \<Longrightarrow> ring m s (Q s)" "s \<in> sentinels \<Longrightarrow> set (Q s) \<subseteq> P"
    "s \<in> sentinels \<Longrightarrow> distinct (Q s)"
    "s \<in> sentinels \<Longrightarrow> t \<in> sentinels \<Longrightarrow> s \<noteq> t \<Longrightarrow> x \<in> set (Q s) \<Longrightarrow> x \<notin> set (Q t)"
  using assms unfolding sched_rep_def by (simp_all, blast)

lemma sentinel_small: "s \<in> sentinels \<Longrightarrow> unat s + 0x38 \<le> 0x8000"
  by (auto simp: sentinels_def)

lemma sentinel_not_proc: "procs_ok P \<Longrightarrow> s \<in> sentinels \<Longrightarrow> s \<notin> P"
  using sentinel_small [of s] desc_ok_not_global [of s s] procs_okD [of P s] by fastforce

lemma links_apart_sched: assumes "procs_ok P" shows "links_apart (sentinels \<union> P)"
  unfolding links_apart_def
proof (intro ballI impI)
  fix x y assume xy: "x \<in> sentinels \<union> P" "y \<in> sentinels \<union> P" "x \<noteq> y"
  show "apart (x + 0x30) 8 (y + 0x30) 8"
  proof (cases "x \<in> sentinels \<and> y \<in> sentinels")
    case True then show ?thesis using xy(3) by (auto simp: sentinels_def)
  next
    case False
    have "\<exists>s\<in>sentinels. x \<in> insert s P \<and> y \<in> insert s P"
    proof (cases "x \<in> sentinels")
      case True with False xy show ?thesis by (intro bexI [of _ x]) auto
    next
      case F: False then show ?thesis
        using xy by (cases "y \<in> sentinels") (auto intro: bexI [of _ y] exI [of _ Q9K_READYQ_SENTINEL_ADDR])
    qed
    then show ?thesis using links_apart_procs [OF assms sentinel_small] xy(3)
      by (auto simp: links_apart_def)
  qed
qed

lemma sched_links:
  assumes "sched_rep m P Q" "s \<in> sentinels" "set zs \<subseteq> P"
  shows "links_apart (set (s # zs))" "s \<notin> set zs"
proof -
  have P: "procs_ok P" by (rule sched_repD(1) [OF assms(1)])
  show "links_apart (set (s # zs))"
    by (rule links_apart_mono [OF links_apart_sched [OF P]]) (use assms in auto)
  show "s \<notin> set zs" using sentinel_not_proc [OF P assms(2)] assms(3) by blast
qed

lemma sched_other:
  assumes "sched_rep m P Q" "s \<in> sentinels" "t \<in> sentinels" "t \<noteq> s" "x \<in> set (t # Q t)"
  shows "x \<in> sentinels \<union> P" "x \<notin> insert s (set (Q s))"
proof -
  show "x \<in> sentinels \<union> P" using assms sched_repD(3) [OF assms(1,3)] by auto
  show "x \<notin> insert s (set (Q s))"
    using assms(2-5) sched_repD(3,5) [OF assms(1)] sentinel_not_proc [OF sched_repD(1) [OF assms(1)]]
    by (metis insert_iff list.simps(15) subsetD)
qed

text \<open>Append and unlink touch only the links of their own ring.\<close>

lemma ListAppend_other:
  assumes "ring m s xs" "links_apart X" "set (s # n # xs) \<subseteq> X" "x \<in> X" "x \<notin> set (s # n # xs)"
  shows "nxt (Q9K_ListAppend m s n) x = nxt m x" "prv (Q9K_ListAppend m s n) x = prv m x"
proof -
  have t: "prv m s \<in> set (s # xs)" using ring_ends(1) [OF assms(1)] by (metis last_in_set list.distinct(1))
  note ap = links_apartD [OF assms(2)]
  have ne: "x \<noteq> s" "x \<noteq> n" "x \<noteq> prv m s" "s \<in> X" "n \<in> X" "prv m s \<in> X" using t assms by auto
  then show "nxt (Q9K_ListAppend m s n) x = nxt m x" "prv (Q9K_ListAppend m s n) x = prv m x"
    unfolding Q9K_ListAppend_def Let_def using assms(4) by (simp_all add: ap)
qed

lemma ListUnlink_other:
  assumes "ring m s (xs @ n # ys)" "links_apart X" "set (s # xs @ ys) \<subseteq> X" "x \<in> X"
    "x \<notin> set (s # xs @ ys)"
  shows "nxt (Q9K_ListUnlink m n) x = nxt m x" "prv (Q9K_ListUnlink m n) x = prv m x"
proof -
  have t: "prv m n \<in> set (s # xs)" "nxt m n \<in> set (ys @ [s])"
    using ring_node [OF assms(1)] by (metis last_in_set list.distinct(1)) (metis assms(1) ring_node(2) hd_in_set snoc_eq_iff_butlast)
  note ap = links_apartD [OF assms(2)]
  have ne: "x \<noteq> nxt m n" "x \<noteq> prv m n" "nxt m n \<in> X" "prv m n \<in> X" using t assms by auto
  then show "nxt (Q9K_ListUnlink m n) x = nxt m x" "prv (Q9K_ListUnlink m n) x = prv m x"
    unfolding Q9K_ListUnlink_def Let_def using assms(4) by (simp_all add: ap)
qed

lemma ring_same:
  assumes "\<And>x. x \<in> set (s # xs) \<Longrightarrow> nxt m' x = nxt m x" "\<And>x. x \<in> set (s # xs) \<Longrightarrow> prv m' x = prv m x"
  shows "ring m' s xs = ring m s xs"
  unfolding ring_def by (rule links_cong) (use assms in \<open>auto dest: in_set_butlastD split: if_splits\<close>)

lemma sched_append:
  assumes r: "sched_rep m P Q" and s: "s \<in> sentinels" and n: "n \<in> P" "n \<notin> queued Q"
  shows "sched_rep (Q9K_ListAppend m s n) P (Q(s := Q s @ [n]))"
proof -
  have P: "procs_ok P" and rg: "ring m s (Q s)" and QP: "set (Q s) \<subseteq> P" using sched_repD [OF r] s by auto
  have nq: "n \<notin> set (Q t)" if "t \<in> sentinels" for t using n that by (auto simp: queued_def)
  have ns: "n \<notin> sentinels" using sentinel_not_proc [OF P] n by blast
  have 1: "ring (Q9K_ListAppend m s n) s (Q s @ [n])"
    using sched_links [OF r s, of "n # Q s"] rg n QP nq s sched_repD(4) [OF r s] by (intro ring_append) auto
  have 2: "ring (Q9K_ListAppend m s n) t (Q t)" if t: "t \<in> sentinels" "t \<noteq> s" for t
  proof -
    have "x \<in> sentinels \<union> P" "x \<notin> set (s # n # Q s)" if x: "x \<in> set (t # Q t)" for x
      using sched_other [OF r s t x] x t nq ns by auto
    then have "ring (Q9K_ListAppend m s n) t (Q t) = ring m t (Q t)"
      using links_apart_sched [OF P] rg s n QP
      by (intro ring_same; intro ListAppend_other [where X = "sentinels \<union> P" and xs = "Q s"]) auto
    then show ?thesis using sched_repD(2) [OF r t(1)] by simp
  qed
  show ?thesis
    using r n nq 1 2 unfolding sched_rep_def by auto
qed

lemma sched_unlink:
  assumes r: "sched_rep m P Q" and s: "s \<in> sentinels" and Q: "Q s = xs @ n # ys"
  shows "sched_rep (Q9K_ListUnlink m n) P (Q(s := xs @ ys))"
proof -
  have P: "procs_ok P" by (rule sched_repD(1) [OF r])
  have rg: "ring m s (xs @ n # ys)" and QP: "set (xs @ n # ys) \<subseteq> P" and d: "distinct (xs @ n # ys)"
    using sched_repD(2,3,4) [OF r s] Q by simp_all
  have 1: "ring (Q9K_ListUnlink m n) s (xs @ ys)"
    using sched_links [OF r s QP] rg d by (intro ring_unlink) auto
  have 2: "ring (Q9K_ListUnlink m n) t (Q t)" if t: "t \<in> sentinels" "t \<noteq> s" for t
  proof -
    have "x \<in> sentinels \<union> P" "x \<notin> set (s # xs @ ys)" if x: "x \<in> set (t # Q t)" for x
      using sched_other [OF r s t x] Q by auto
    then have "ring (Q9K_ListUnlink m n) t (Q t) = ring m t (Q t)"
      using links_apart_sched [OF P] rg s QP
      by (intro ring_same; intro ListUnlink_other [where X = "sentinels \<union> P" and xs = xs and ys = ys]) auto
    then show ?thesis using sched_repD(2) [OF r t(1)] by simp
  qed
  have 3: "set (xs @ ys) \<inter> set (Q t) = {}" if "t \<in> sentinels" "t \<noteq> s" for t
    using sched_repD(5) [OF r s that(1)] that(2) Q by (auto simp: disjoint_iff)
  show ?thesis
    using r QP d 1 2 3 unfolding sched_rep_def by (simp add: Int_commute)
qed

text \<open>A memory change that keeps all links keeps the queues; so does a write to any other field of
  a descriptor or to a kernel global outside the sentinels.\<close>

lemma sched_rep_links:
  assumes "\<And>x. x \<in> sentinels \<union> P \<Longrightarrow> nxt m' x = nxt m x" "\<And>x. x \<in> sentinels \<union> P \<Longrightarrow> prv m' x = prv m x"
  shows "sched_rep m' P Q = sched_rep m P Q"
proof -
  have "ring m' s (Q s) = ring m s (Q s)" if "s \<in> sentinels" "set (Q s) \<subseteq> P" for s
    using that assms by (intro ring_same) auto
  then show ?thesis by (auto simp: sched_rep_def)
qed

lemma apart_shift: "apart i n j k \<Longrightarrow> apart (d + i) n (d + j) k"
  unfolding apart_def by (simp add: add.assoc)

lemma field_links8:
  assumes "procs_ok P" "d \<in> P" "apart i n 0x30 8" "i + n \<le> 0x400" "i \<le> i + n" "unat i + unat n \<le> 0x400"
    "x \<in> sentinels \<union> P"
  shows "apart (d + i) n (x + 0x30) 8"
proof (cases "x = d")
  case True then show ?thesis using assms(3) by (simp add: apart_shift)
next
  case False
  show ?thesis
  proof (cases "x \<in> P")
    case True with False show ?thesis
      using assms by (intro desc_desc(1)) (auto intro: procs_ok_apart)
  next
    case False
    then have "x \<in> sentinels" using assms(7) by blast
    then show ?thesis using assms procs_okD [OF assms(1,2)]
      by (intro desc_global(1)) (auto simp: sentinels_def)
  qed
qed

lemma apart_links_halves:
  assumes "apart a n (x + 0x30) 8"
  shows "apart a n (x + 0x30) 4" "apart a n (x + 0x34) 4"
  using apart_sub [OF assms, of 0 n 0 4] apart_sub [OF assms, of 0 n 4 4] by (simp_all add: add.assoc)

lemma sched_rep_field [simp]:
  assumes "procs_ok P" "d \<in> P"
  shows "\<lbrakk>apart i 1 0x30 8; i + 1 \<le> 0x400; i \<le> i + 1; unat i + 1 \<le> 0x400\<rbrakk> \<Longrightarrow>
      sched_rep (Q9K_SetU8 m (d + i) v8) P Q = sched_rep m P Q"
    and "\<lbrakk>apart i 2 0x30 8; i + 2 \<le> 0x400; i \<le> i + 2; unat i + 2 \<le> 0x400\<rbrakk> \<Longrightarrow>
      sched_rep (Q9K_SetU16 m (d + i) v16) P Q = sched_rep m P Q"
    and "\<lbrakk>apart i 4 0x30 8; i + 4 \<le> 0x400; i \<le> i + 4; unat i + 4 \<le> 0x400\<rbrakk> \<Longrightarrow>
      sched_rep (Q9K_SetU32 m (d + i) v32) P Q = sched_rep m P Q"
  by (rule sched_rep_links; simp add: apart_links_halves field_links8 [OF assms])+

lemma global_links8:
  assumes "procs_ok P" "unat g + unat n \<le> 0x8000" "apart g n 0x1270 8" "apart g n 0x12D0 8" "apart g n 0x1320 8"
    "x \<in> sentinels \<union> P"
  shows "apart g n (x + 0x30) 8"
proof (cases "x \<in> P")
  case True then show ?thesis using assms procs_okD [OF assms(1)] by (intro desc_global(2)) auto
next
  case False then show ?thesis using assms by (auto simp: sentinels_def)
qed

lemma sched_rep_global:
  assumes "procs_ok P"
  shows "\<lbrakk>unat g + 1 \<le> 0x8000; apart g 1 0x1270 8; apart g 1 0x12D0 8; apart g 1 0x1320 8\<rbrakk> \<Longrightarrow>
      sched_rep (Q9K_SetU8 m g v8) P Q = sched_rep m P Q"
    and "\<lbrakk>unat g + 2 \<le> 0x8000; apart g 2 0x1270 8; apart g 2 0x12D0 8; apart g 2 0x1320 8\<rbrakk> \<Longrightarrow>
      sched_rep (Q9K_SetU16 m g v16) P Q = sched_rep m P Q"
    and "\<lbrakk>unat g + 4 \<le> 0x8000; apart g 4 0x1270 8; apart g 4 0x12D0 8; apart g 4 0x1320 8\<rbrakk> \<Longrightarrow>
      sched_rep (Q9K_SetU32 m g v32) P Q = sched_rep m P Q"
  by (rule sched_rep_links; simp add: apart_links_halves global_links8 [OF assms])+

text \<open>\<open>only_links m m' P\<close>: from \<open>m\<close> to \<open>m'\<close> only link fields of the sentinels and of the
  descriptors in \<open>P\<close> have changed.  Every other cell reads the same.\<close>

definition only_links :: "u32 set \<Rightarrow> memory \<Rightarrow> memory \<Rightarrow> bool" where
  "only_links P m m' \<longleftrightarrow> (\<forall>a. (\<forall>x\<in>sentinels \<union> P. apart a 1 (x + 0x30) 8) \<longrightarrow> m' a = m a)"

definition off_links :: "u32 set \<Rightarrow> u32 \<Rightarrow> u32 \<Rightarrow> bool" where
  "off_links P a n \<longleftrightarrow> (\<forall>x\<in>sentinels \<union> P. apart a n (x + 0x30) 8)"

lemma only_links_refl [simp]: "only_links P m m"
  by (simp add: only_links_def)

lemma only_links_trans [trans]: "only_links P m m1 \<Longrightarrow> only_links P m1 m2 \<Longrightarrow> only_links P m m2"
  by (simp add: only_links_def)

lemma only_links_bytes:
  assumes "only_links P m m'" "off_links P a n" "i < n"
  shows "m' (a + i) = m (a + i)"
proof -
  have "apart (a + i) 1 (x + 0x30) 8" if "x \<in> sentinels \<union> P" for x
    using assms(2,3) that unfolding off_links_def apart_def by force
  then show ?thesis using assms(1) by (simp add: only_links_def)
qed

lemma only_links_get:
  assumes "only_links P m m'"
  shows "off_links P a 1 \<Longrightarrow> Q9K_GetU8 m' a = Q9K_GetU8 m a"
    and "off_links P a 2 \<Longrightarrow> Q9K_GetU16 m' a = Q9K_GetU16 m a"
    and "off_links P a 4 \<Longrightarrow> Q9K_GetU32 m' a = Q9K_GetU32 m a"
  using only_links_bytes [OF assms] c8.get_local c16.get_local c32.get_local by metis+

lemma off_links_field:
  assumes "procs_ok P" "d \<in> P" "apart i n 0x30 8" "i + n \<le> 0x400" "i \<le> i + n" "unat i + unat n \<le> 0x400"
  shows "off_links P (d + i) n"
  using field_links8 [OF assms] by (simp add: off_links_def)

lemma off_links_global:
  assumes "procs_ok P" "unat g + unat n \<le> 0x8000" "apart g n 0x1270 8" "apart g n 0x12D0 8" "apart g n 0x1320 8"
  shows "off_links P g n"
  using global_links8 [OF assms] by (simp add: off_links_def)

lemmas off_links [q9_sep] = off_links_field off_links_global

lemma only_links_put:
  assumes "x \<in> sentinels \<union> P"
  shows "only_links P m (Q9K_SetU32 m (x + 0x30) v)" "only_links P m (Q9K_SetU32 m (x + 0x34) v)"
proof -
  have "Q9K_SetU32 m (x + j) v a = m a" if a: "apart a 1 (x + 0x30) 8" and j: "j = 0x30 \<or> j = 0x34" for a j
  proof -
    have "apart a 1 (x + 0x30) 4" "apart a 1 (x + 0x34) 4"
      using apart_sub [OF a, of 0 1 0 4] apart_sub [OF a, of 0 1 4 4] by (simp_all add: add.assoc)
    then have "apart (x + j) 4 a 1" using j apart_sym by blast
    then show ?thesis using c32.put_keeps [of "x + j" a 1 0 m v] by simp
  qed
  with assms show "only_links P m (Q9K_SetU32 m (x + 0x30) v)" "only_links P m (Q9K_SetU32 m (x + 0x34) v)"
    unfolding only_links_def by blast+
qed

lemma only_links_step:
  assumes "only_links P m m1" "x \<in> sentinels \<union> P"
  shows "only_links P m (Q9K_SetU32 m1 (x + 0x30) v)" "only_links P m (Q9K_SetU32 m1 (x + 0x34) v)"
  by (rule only_links_trans [OF assms(1)], rule only_links_put [OF assms(2)])+

lemma only_links_append:
  assumes "s \<in> sentinels" "n \<in> P" "prv m s \<in> sentinels \<union> P"
  shows "only_links P m (Q9K_ListAppend m s n)"
  unfolding Q9K_ListAppend_def Let_def using assms
  by (intro only_links_step only_links_refl) simp_all

lemma only_links_unlink:
  assumes "nxt m n \<in> sentinels \<union> P" "prv m n \<in> sentinels \<union> P"
  shows "only_links P m (Q9K_ListUnlink m n)"
  unfolding Q9K_ListUnlink_def Let_def using assms
  by (intro only_links_step only_links_refl) simp_all

lemma sched_ends:
  assumes r: "sched_rep m P Q" and s: "s \<in> sentinels"
  shows "prv m s \<in> sentinels \<union> P"
    and "n \<in> set (Q s) \<Longrightarrow> nxt m n \<in> sentinels \<union> P" "n \<in> set (Q s) \<Longrightarrow> prv m n \<in> sentinels \<union> P"
proof -
  have rg: "ring m s (Q s)" and QP: "set (s # Q s) \<subseteq> sentinels \<union> P" using sched_repD [OF r] s by auto
  show "prv m s \<in> sentinels \<union> P" using ring_ends(1) [OF rg] QP by (metis last_in_set list.distinct(1) subsetD)
  assume "n \<in> set (Q s)"
  then obtain xs ys where q: "Q s = xs @ n # ys" by (meson split_list)
  have e: "prv m n = last (s # xs)" "nxt m n = hd (ys @ [s])" using ring_node [of m s xs n ys] rg q by simp_all
  have "last (s # xs) \<in> set (s # xs)" "hd (ys @ [s]) \<in> set (ys @ [s])" by (rule last_in_set hd_in_set; simp)+
  then show "nxt m n \<in> sentinels \<union> P" "prv m n \<in> sentinels \<union> P" using e q QP by auto
qed

end
