(* ===== verification/Q9_Example.thy ===== *)
theory Q9_Example
  imports Q9_Sched
begin

text \<open>
  A small concrete machine on which the general theorems are exercised: a process pool of three
  descriptors, of which the first is ready, the second sleeps for five more ticks with a signal
  intercept installed, and the third is running, and the permanent idle descriptor beside it.
\<close>

abbreviation ex_ready :: u32 where "ex_ready \<equiv> 0x10000"
abbreviation ex_sleeper :: u32 where "ex_sleeper \<equiv> 0x10400"
abbreviation ex_running :: u32 where "ex_running \<equiv> 0x10800"

abbreviation ex_idle :: u32 where "ex_idle \<equiv> 0x10C00"

definition ex_procs :: "u32 set" where
  "ex_procs = {ex_ready, ex_sleeper, ex_running, ex_idle}"

text \<open>The cells of the machine before any process is queued: the three empty rings, the globals and
  the descriptor fields.\<close>

definition ex_base :: memory where
  "ex_base =
     fold (\<lambda>(a, v) m. Q9K_SetU8 m a v)
       [(ex_ready + Q9K_PROCDESC_STATE_OFF, Q9K_PROCDESC_STATE_ACTIVE),
        (ex_sleeper + Q9K_PROCDESC_STATE_OFF, Q9K_PROCDESC_STATE_SLEEPING),
        (ex_running + Q9K_PROCDESC_STATE_OFF, Q9K_PROCDESC_STATE_ACTIVE),
        (ex_idle + Q9K_PROCDESC_STATE_OFF, Q9K_PROCDESC_STATE_IDLE),
        (ex_ready + Q9K_PROCDESC_PRIORITY_OFF, 20), (ex_sleeper + Q9K_PROCDESC_PRIORITY_OFF, 30),
        (ex_running + Q9K_PROCDESC_PRIORITY_OFF, 10)]
       (fold (\<lambda>(a, v) m. Q9K_SetU32 m a v)
         [(Q9K_READYQ_SENTINEL_ADDR + 0x30, Q9K_READYQ_SENTINEL_ADDR),
          (Q9K_READYQ_SENTINEL_ADDR + 0x34, Q9K_READYQ_SENTINEL_ADDR),
          (Q9K_WAITQ_SENTINEL_ADDR + 0x30, Q9K_WAITQ_SENTINEL_ADDR),
          (Q9K_WAITQ_SENTINEL_ADDR + 0x34, Q9K_WAITQ_SENTINEL_ADDR),
          (Q9K_SLEEPQ_SENTINEL_ADDR + 0x30, Q9K_SLEEPQ_SENTINEL_ADDR),
          (Q9K_SLEEPQ_SENTINEL_ADDR + 0x34, Q9K_SLEEPQ_SENTINEL_ADDR),
          (0x1204, ex_ready), (0x1220, 3), (Q9_D_PROC, ex_running),
          (ex_ready + Q9K_PROCDESC_SAVEDSP_OFF, 0x20000), (ex_sleeper + Q9K_PROCDESC_SAVEDSP_OFF, 0x21000),
          (ex_running + Q9K_PROCDESC_SAVEDSP_OFF, 0x22000), (ex_idle + Q9K_PROCDESC_SAVEDSP_OFF, 0x23000),
          (ex_sleeper + Q9K_PROCDESC_SIGVEC_OFF, 0x30000),
          (ex_sleeper + Q9K_PROCDESC_SIGDAT_OFF, 0x31000), (ex_sleeper + Q9K_PROCDESC_SLEEPTICKS_OFF, 5)]
         (\<lambda>_. 0))"

definition ex_mem :: memory where
  "ex_mem = Q9K_SchedInsert (Q9K_SleepQInsert ex_base ex_sleeper) ex_ready"

definition ex_queues :: queues where
  "ex_queues = (\<lambda>_. [])(Q9K_SLEEPQ_SENTINEL_ADDR := [ex_sleeper], Q9K_READYQ_SENTINEL_ADDR := [ex_ready])"

lemma zero_mem [simp]: "Q9K_GetU8 (\<lambda>_. 0) a = 0" "Q9K_GetU16 (\<lambda>_. 0) a = 0" "Q9K_GetU32 (\<lambda>_. 0) a = 0"
  by (simp_all add: Q9K_GetU8_def Q9K_GetU16_def Q9K_GetU32_def)

lemma ex_procs_ok: "procs_ok ex_procs"
  by (auto simp: procs_ok_def desc_ok_def ex_procs_def)

lemma ex_base_rep: "sched_rep ex_base ex_procs (\<lambda>_. [])"
proof -
  have "ring ex_base s []" if "s \<in> sentinels" for s
    using that unfolding sentinels_def by (auto simp: ring_def ex_base_def)
  then show ?thesis by (simp add: sched_rep_def ex_procs_ok)
qed

lemma ex_rep: "sched_rep ex_mem ex_procs ex_queues"
proof -
  let ?Q = "(\<lambda>_. [])(Q9K_SLEEPQ_SENTINEL_ADDR := [ex_sleeper])"
  have "sched_rep (Q9K_SleepQInsert ex_base ex_sleeper) ex_procs ?Q"
    using sched_append [OF ex_base_rep, of Q9K_SLEEPQ_SENTINEL_ADDR ex_sleeper]
    by (simp add: Q9K_SleepQInsert_def queued_def ex_procs_def)
  then have "sched_rep (Q9K_SetU16 (Q9K_SleepQInsert ex_base ex_sleeper) (ex_ready + 0x1A) v) ex_procs ?Q" for v
    using sched_rep_field(2) [OF ex_procs_ok, of ex_ready "0x1A"] by (simp add: ex_procs_def)
  from sched_append [OF this, of Q9K_READYQ_SENTINEL_ADDR ex_ready] show ?thesis
    by (simp add: ex_mem_def Q9K_SchedInsert_def queued_def ex_procs_def ex_queues_def sentinels_def Let_def)
qed

lemma ex_reads [simp]:
  "Q9K_GetU32 ex_mem Q9_D_PROC = ex_running" "Q9K_GetU32 ex_mem 0x1204 = ex_ready" "Q9K_GetU32 ex_mem 0x1220 = 3"
  "Q9K_GetU8 ex_mem 0x1001D = Q9K_PROCDESC_STATE_ACTIVE" "Q9K_GetU8 ex_mem 0x1041D = Q9K_PROCDESC_STATE_SLEEPING"
  "Q9K_GetU8 ex_mem 0x1081D = Q9K_PROCDESC_STATE_ACTIVE"
  "Q9K_GetU32 ex_mem 0x10408 = 0x21000" "Q9K_GetU32 ex_mem 0x10808 = 0x22000" "Q9K_GetU32 ex_mem 0x10428 = 0x30000"
  "Q9K_GetU16 ex_mem 0x10826 = 0" "Q9K_GetU8 ex_mem 0x10610 = 0" "Q9K_GetU32 ex_mem 0x105C4 = 5"
  "Q9K_GetU32 ex_mem 0x10008 = 0x20000" "Q9K_GetU32 ex_mem 0x10C08 = 0x23000" "Q9K_GetU8 ex_mem 0x10C1D = Q9K_PROCDESC_STATE_IDLE"
  "Q9K_GetU16 ex_mem 0x123C = 0" "Q9K_GetU32 ex_mem 0x2488 = 0" "Q9K_GetU16 ex_mem 0x2550 = 0" "Q9K_GetU16 ex_mem 0x19E0 = 0"
  "Q9K_GetU32 ex_mem 0x105CC = 0" "Q9K_GetU16 ex_mem 0x1001A = 20" "Q9K_GetU8 ex_mem 0x10019 = 20"
  by (simp_all add: ex_mem_def ex_base_def Q9K_SchedInsert_def Q9K_SleepQInsert_def Q9K_ListAppend_def Let_def)

end
