(* ===== verification/Q9_Sched_Props.thy ===== *)
theory Q9_Sched_Props
  imports Q9_Example
begin

text \<open>
  What the scheduler operations do to the queues: insertion, removal and waking as list
  operations, the traversals end on every well-formed queue, aging and selection follow the
  documented rule, and the per-tick countdown moves exactly the expired sleepers.
\<close>

section \<open>Traversals end\<close>

lemma walk_acc_list:
  assumes "links m (xs @ [s])" "s \<notin> set xs"
  shows "walk_acc body s m (hd (xs @ [s])) acc = Some (fold (body m) xs acc)"
  using assms
proof (induction xs arbitrary: acc)
  case Nil
  show ?case by (subst walk_acc.simps) simp
next
  case (Cons x xs)
  have "nxt m x = hd (xs @ [s])" "links m (xs @ [s])" using Cons.prems(1) by (cases xs; simp)+
  moreover have "x \<noteq> s" "s \<notin> set xs" using Cons.prems(2) by auto
  ultimately show ?case using Cons.IH by (subst walk_acc.simps) simp
qed

lemma walk_list:
  assumes "links m (xs @ [s])" "s \<notin> set xs"
    and "\<And>m' x y. x \<in> set xs \<Longrightarrow> y \<in> set (xs @ [s]) \<Longrightarrow> nxt (body m' x) y = nxt m' y"
    and "\<And>m' x y. x \<in> set xs \<Longrightarrow> y \<in> set (xs @ [s]) \<Longrightarrow> prv (body m' x) y = prv m' y"
  shows "walk body s m (hd (xs @ [s])) = Some (fold (\<lambda>x m. body m x) xs m)"
  using assms
proof (induction xs arbitrary: m)
  case Nil
  show ?case by (subst walk.simps) simp
next
  case (Cons x xs)
  have n: "nxt m x = hd (xs @ [s])" "links m (xs @ [s])" using Cons.prems(1) by (cases xs; simp)+
  have "links (body m x) (xs @ [s]) = links m (xs @ [s])"
    by (rule links_cong) (use Cons.prems(3,4) [of x] in \<open>auto dest: in_set_butlastD list.set_sel(2) [rotated]\<close>)
  moreover have "nxt (body m x) x = hd (xs @ [s])" using Cons.prems(3) [of x x] n by simp
  ultimately show ?case using Cons n by (subst walk.simps) auto
qed

lemma ring_links: "ring m s xs \<Longrightarrow> links m (xs @ [s])"
  unfolding ring_def by (cases xs) auto

lemma sched_walk:
  assumes "sched_rep m P Q" "s \<in> sentinels"
  shows "links m (Q s @ [s])" "s \<notin> set (Q s)" "nxt m s = hd (Q s @ [s])"
  using assms sched_repD(1,2,3) [OF assms(1)] ring_links ring_ends(2) sentinel_not_proc by blast+

section \<open>Insert, remove, wake\<close>

lemma sched_insert:
  assumes r: "sched_rep m P Q" and d: "d \<in> P" "d \<notin> queued Q"
  shows "sched_rep (Q9K_SchedInsert m d) P (Q(Q9K_READYQ_SENTINEL_ADDR := Q Q9K_READYQ_SENTINEL_ADDR @ [d]))"
    and "only_links P (Q9K_SetU16 m (d + Q9K_PROCDESC_AGE_OFF) (ucast (Q9K_GetU8 m (d + Q9K_PROCDESC_PRIORITY_OFF))))
           (Q9K_SchedInsert m d)"
proof -
  let ?m = "Q9K_SetU16 m (d + Q9K_PROCDESC_AGE_OFF) (ucast (Q9K_GetU8 m (d + Q9K_PROCDESC_PRIORITY_OFF)))"
  have P: "procs_ok P" by (rule sched_repD(1) [OF r])
  have r': "sched_rep ?m P Q" using r d P by simp
  show "sched_rep (Q9K_SchedInsert m d) P (Q(Q9K_READYQ_SENTINEL_ADDR := Q Q9K_READYQ_SENTINEL_ADDR @ [d]))"
    unfolding Q9K_SchedInsert_def Let_def using r' d by (intro sched_append) auto
  have "prv ?m Q9K_READYQ_SENTINEL_ADDR \<in> sentinels \<union> P" by (rule sched_ends(1) [OF r']) simp
  then show "only_links P ?m (Q9K_SchedInsert m d)"
    unfolding Q9K_SchedInsert_def Let_def using d(1) by (intro only_links_append) simp_all
qed

lemma sched_insert_age:
  assumes r: "sched_rep m P Q" and d: "d \<in> P" "d \<notin> queued Q"
  shows "Q9K_GetU16 (Q9K_SchedInsert m d) (d + Q9K_PROCDESC_AGE_OFF) =
    ucast (Q9K_GetU8 m (d + Q9K_PROCDESC_PRIORITY_OFF))"
  using only_links_get(2) [OF sched_insert(2) [OF assms], of "d + Q9K_PROCDESC_AGE_OFF"] sched_repD(1) [OF r] d
  by (simp add: off_links)

lemma sched_remove:
  assumes r: "sched_rep m P Q" and d: "d \<in> set (Q s)" and s: "s \<in> sentinels"
  shows "sched_rep (Q9K_ListUnlink m d) P (Q(s := remove1 d (Q s)))" "only_links P m (Q9K_ListUnlink m d)"
proof -
  obtain xs ys where q: "Q s = xs @ d # ys" "d \<notin> set xs" using d by (meson split_list_first)
  then have "remove1 d (Q s) = xs @ ys" by (simp add: remove1_append)
  then show "sched_rep (Q9K_ListUnlink m d) P (Q(s := remove1 d (Q s)))" using sched_unlink [OF r s q(1)] by simp
  show "only_links P m (Q9K_ListUnlink m d)"
    using sched_ends(2,3) [OF r s d] by (rule only_links_unlink)
qed

text \<open>Waking moves a sleeping process to the end of the ready queue.\<close>

lemma sched_wake:
  assumes r: "sched_rep m P Q" and d: "d \<in> set (Q Q9K_SLEEPQ_SENTINEL_ADDR)"
    and st: "Q9K_GetU8 m (d + Q9K_PROCDESC_STATE_OFF) = Q9K_PROCDESC_STATE_SLEEPING"
  shows "sched_rep (Q9K_SchedWake m d) P
      (Q(Q9K_SLEEPQ_SENTINEL_ADDR := remove1 d (Q Q9K_SLEEPQ_SENTINEL_ADDR),
         Q9K_READYQ_SENTINEL_ADDR := Q Q9K_READYQ_SENTINEL_ADDR @ [d]))"
    and "Q9K_GetU8 (Q9K_SchedWake m d) (d + Q9K_PROCDESC_STATE_OFF) = Q9K_PROCDESC_STATE_ACTIVE"
proof -
  let ?Q1 = "Q(Q9K_SLEEPQ_SENTINEL_ADDR := remove1 d (Q Q9K_SLEEPQ_SENTINEL_ADDR))"
  define m2 where "m2 = Q9K_SetU8 (Q9K_ListUnlink m d) (d + Q9K_PROCDESC_STATE_OFF) Q9K_PROCDESC_STATE_ACTIVE"
  have P: "procs_ok P" by (rule sched_repD(1) [OF r])
  have dP: "d \<in> P" using sched_repD(3) [OF r, of Q9K_SLEEPQ_SENTINEL_ADDR] d by auto
  have w: "Q9K_SchedWake m d = Q9K_SchedInsert m2 d"
    using st procs_okD [OF P dP] desc_ok_nonzero by (auto simp: Q9K_SchedWake_def m2_def)
  have r2: "sched_rep m2 P ?Q1" unfolding m2_def using sched_remove(1) [OF r d] P dP by simp
  have nq: "d \<notin> queued ?Q1"
    using d sched_repD(4) [OF r, of Q9K_SLEEPQ_SENTINEL_ADDR] sched_repD(5) [OF r, of Q9K_SLEEPQ_SENTINEL_ADDR _ d]
    by (auto simp: queued_def sentinels_def)
  show "sched_rep (Q9K_SchedWake m d) P
      (Q(Q9K_SLEEPQ_SENTINEL_ADDR := remove1 d (Q Q9K_SLEEPQ_SENTINEL_ADDR),
         Q9K_READYQ_SENTINEL_ADDR := Q Q9K_READYQ_SENTINEL_ADDR @ [d]))"
    using sched_insert(1) [OF r2 dP nq] w by simp
  have "Q9K_GetU8 (Q9K_SchedInsert m2 d) (d + Q9K_PROCDESC_STATE_OFF) = Q9K_GetU8 m2 (d + Q9K_PROCDESC_STATE_OFF)"
    using only_links_get(1) [OF sched_insert(2) [OF r2 dP nq]] P dP by (simp add: off_links)
  then show "Q9K_GetU8 (Q9K_SchedWake m d) (d + Q9K_PROCDESC_STATE_OFF) = Q9K_PROCDESC_STATE_ACTIVE"
    by (simp add: w m2_def)
qed

lemma sched_wake_age:
  assumes r: "sched_rep m P Q" and d: "d \<in> set (Q Q9K_SLEEPQ_SENTINEL_ADDR)"
    and st: "Q9K_GetU8 m (d + Q9K_PROCDESC_STATE_OFF) = Q9K_PROCDESC_STATE_SLEEPING"
  shows "Q9K_GetU16 (Q9K_SchedWake m d) (d + Q9K_PROCDESC_AGE_OFF) = ucast (Q9K_GetU8 m (d + Q9K_PROCDESC_PRIORITY_OFF))"
proof -
  let ?S = "Q9K_SLEEPQ_SENTINEL_ADDR"
  define m2 where "m2 = Q9K_SetU8 (Q9K_ListUnlink m d) (d + Q9K_PROCDESC_STATE_OFF) Q9K_PROCDESC_STATE_ACTIVE"
  have P: "procs_ok P" and dP: "d \<in> P" using sched_repD(1) [OF r] sched_repD(3) [OF r, of ?S] d by auto
  have w: "Q9K_SchedWake m d = Q9K_SchedInsert m2 d"
    using st procs_okD [OF P dP] desc_ok_nonzero by (auto simp: Q9K_SchedWake_def m2_def)
  have r2: "sched_rep m2 P (Q(?S := remove1 d (Q ?S)))" unfolding m2_def using sched_remove(1) [OF r d] P dP by simp
  have nq: "d \<notin> queued (Q(?S := remove1 d (Q ?S)))"
    using d sched_repD(4) [OF r, of ?S] sched_repD(5) [OF r, of ?S _ d] by (auto simp: queued_def sentinels_def)
  have "only_links P m (Q9K_ListUnlink m d)" by (rule sched_remove(2) [OF r d]) simp
  then have "Q9K_GetU8 m2 (d + Q9K_PROCDESC_PRIORITY_OFF) = Q9K_GetU8 m (d + Q9K_PROCDESC_PRIORITY_OFF)"
    using only_links_get(1) [of P m "Q9K_ListUnlink m d"] P dP by (simp add: m2_def off_links)
  then show ?thesis using sched_insert_age [OF r2 dP nq] w by simp
qed

lemma sched_wake_awake:
  "Q9K_GetU8 m (d + Q9K_PROCDESC_STATE_OFF) \<noteq> Q9K_PROCDESC_STATE_SLEEPING \<Longrightarrow> Q9K_SchedWake m d = m"
  by (simp add: Q9K_SchedWake_def)

section \<open>Selection\<close>

definition eligible :: "memory \<Rightarrow> u32 \<Rightarrow> bool" where
  "eligible m x \<longleftrightarrow> Q9K_GetU16 m Q9K_SCHED_MINPTY_ADDR = 0 \<or>
     ucast (Q9K_GetU8 m (x + Q9K_PROCDESC_PRIORITY_OFF)) \<ge> Q9K_GetU16 m Q9K_SCHED_MINPTY_ADDR"

abbreviation prio_of :: "memory \<Rightarrow> u32 \<Rightarrow> u8" where
  "prio_of m x \<equiv> Q9K_GetU8 m (x + Q9K_PROCDESC_PRIORITY_OFF)"

abbreviation age_of :: "memory \<Rightarrow> u32 \<Rightarrow> u16" where
  "age_of m x \<equiv> Q9K_GetU16 m (x + Q9K_PROCDESC_AGE_OFF)"

lemma pick_node_eq:
  "Q9K_SchedPick_node (Q9K_GetU16 m Q9K_SCHED_MINPTY_ADDR) m x acc =
     (if eligible m x \<and> (fst acc = 0 \<or> age_of m x > snd acc) then (x, age_of m x) else acc)"
  by (auto simp: Q9K_SchedPick_node_def eligible_def Let_def)

text \<open>The fold keeps the first eligible node of maximal age: all eligible nodes before it are
  younger, none behind it is older.\<close>

definition picks :: "memory \<Rightarrow> u32 list \<Rightarrow> u32 \<Rightarrow> bool" where
  "picks m xs b \<longleftrightarrow> best_by (eligible m) (age_of m) xs b"

lemma picks_snoc:
  assumes "picks m xs b" "0 \<notin> set (xs @ [x])"
  shows "picks m (xs @ [x]) (if eligible m x \<and> (b = 0 \<or> age_of m x > age_of m b) then x else b)"
  using best_by_snoc [of "eligible m" "age_of m" xs b x] assms by (simp add: picks_def)

lemma pick_fold:
  assumes "0 \<notin> set xs"
  shows "\<exists>b. fold (Q9K_SchedPick_node (Q9K_GetU16 m Q9K_SCHED_MINPTY_ADDR) m) xs (0, 0) =
      (b, if b = 0 then 0 else age_of m b) \<and> picks m xs b"
  using assms
proof (induction xs rule: rev_induct)
  case Nil show ?case by (simp add: picks_def best_by_def)
next
  case (snoc x xs)
  let ?f = "Q9K_SchedPick_node (Q9K_GetU16 m Q9K_SCHED_MINPTY_ADDR) m"
  obtain b where b: "fold ?f xs (0, 0) = (b, if b = 0 then 0 else age_of m b)" "picks m xs b"
    using snoc by auto
  let ?b = "if eligible m x \<and> (b = 0 \<or> age_of m x > age_of m b) then x else b"
  have "fold ?f (xs @ [x]) (0, 0) = ?f x (b, if b = 0 then 0 else age_of m b)" using b(1) by simp
  also have "\<dots> = (?b, if ?b = 0 then 0 else age_of m ?b)" using snoc.prems by (auto simp: pick_node_eq)
  finally show ?case using picks_snoc [OF b(2) snoc.prems] by blast
qed

lemma sched_pick:
  assumes r: "sched_rep m P Q"
  obtains b where
    "Q9K_SchedPickHighestAge m = Some (b, if b = 0 then m else Q9K_ListUnlink m b)"
    "picks m (Q Q9K_READYQ_SENTINEL_ADDR) b"
    "sched_rep (if b = 0 then m else Q9K_ListUnlink m b) P
       (Q(Q9K_READYQ_SENTINEL_ADDR := remove1 b (Q Q9K_READYQ_SENTINEL_ADDR)))"
    "only_links P m (if b = 0 then m else Q9K_ListUnlink m b)"
proof -
  let ?R = "Q9K_READYQ_SENTINEL_ADDR"
  have z: "0 \<notin> set (Q ?R)"
    using sched_repD(1) [OF r] sched_repD(3) [OF r, of ?R] procs_okD desc_ok_nonzero by fastforce
  obtain b where b: "fold (Q9K_SchedPick_node (Q9K_GetU16 m Q9K_SCHED_MINPTY_ADDR) m) (Q ?R) (0, 0) =
      (b, if b = 0 then 0 else age_of m b)" "picks m (Q ?R) b" using pick_fold [OF z] by blast
  have w: "walk_acc f ?R m (nxt m ?R) a = Some (fold (f m) (Q ?R) a)" for f and a :: "u32 \<times> u16"
    unfolding sched_walk(3) [OF r sentinels_iff(1)]
    by (rule walk_acc_list) (rule sched_walk [OF r sentinels_iff(1)])+
  have e: "Q9K_SchedPickHighestAge m = Some (b, if b = 0 then m else Q9K_ListUnlink m b)"
    unfolding Q9K_SchedPickHighestAge_def Let_def
    unfolding w b(1) by simp
  have bin: "b \<noteq> 0 \<Longrightarrow> b \<in> set (Q ?R)" using b(2) first_max_in [of "eligible m"] by (fastforce simp: picks_def best_by_def split: if_splits)
  have "sched_rep (if b = 0 then m else Q9K_ListUnlink m b) P (Q(?R := remove1 b (Q ?R)))"
    using sched_remove(1) [OF r bin] r z by (auto simp: remove1_idem fun_upd_idem)
  moreover have "only_links P m (if b = 0 then m else Q9K_ListUnlink m b)"
    using sched_remove(2) [OF r bin] by auto
  ultimately show ?thesis using that e b(2) by blast
qed

section \<open>Aging\<close>

definition aged :: "u16 \<Rightarrow> u8 \<Rightarrow> u16 \<Rightarrow> u16" where
  "aged maxAge prio age =
     (if maxAge = 0 then if age = 0xFFFF then age else age + 1
      else if ucast prio \<ge> maxAge \<or> age \<ge> maxAge then age else age + 1)"

lemma Age_node_eq:
  "Q9K_SchedAge_node maxAge m x =
     Q9K_SetU16 m (x + Q9K_PROCDESC_AGE_OFF)
       (aged maxAge (Q9K_GetU8 m (x + Q9K_PROCDESC_PRIORITY_OFF)) (age_of m x))"
  using c16.put_get [of m "x + Q9K_PROCDESC_AGE_OFF"]
  by (cases "maxAge = 0"; cases "age_of m x = 0xFFFF")
    (auto simp: Q9K_SchedAge_node_def aged_def Let_def dest: leD)

lemma desc_fields_apart:
  assumes "procs_ok P" "x \<in> P" "y \<in> P" "x \<noteq> y" "i + n \<le> 0x400" "i \<le> i + n" "j + k \<le> 0x400" "j \<le> j + k"
  shows "apart (x + i) n (y + j) k"
  using assms by (intro desc_desc(1) procs_ok_apart) auto

lemma age_fold:
  assumes P: "procs_ok P" and "set xs \<subseteq> P" "distinct xs"
  shows "sched_rep (fold (\<lambda>x m. Q9K_SchedAge_node k m x) xs m) P Q = sched_rep m P Q"
    and "y \<in> P \<Longrightarrow> Q9K_GetU8 (fold (\<lambda>x m. Q9K_SchedAge_node k m x) xs m) (y + Q9K_PROCDESC_PRIORITY_OFF) =
       Q9K_GetU8 m (y + Q9K_PROCDESC_PRIORITY_OFF)"
    and "y \<in> P \<Longrightarrow> age_of (fold (\<lambda>x m. Q9K_SchedAge_node k m x) xs m) y =
       (if y \<in> set xs then aged k (Q9K_GetU8 m (y + Q9K_PROCDESC_PRIORITY_OFF)) (age_of m y) else age_of m y)"
  using assms(2,3)
proof (induction xs arbitrary: m)
  case Nil { case 1 show ?case by simp next case 2 then show ?case by simp next case 3 then show ?case by simp }
next
  case (Cons x xs)
  have pr: "y \<in> P \<Longrightarrow> x \<in> P \<Longrightarrow> Q9K_GetU8 (Q9K_SchedAge_node k m x) (y + 0x19) = Q9K_GetU8 m (y + 0x19)" for y m
    unfolding Age_node_eq by (cases "y = x") (simp_all add: desc_fields_apart [OF P])
  have ag: "y \<in> P \<Longrightarrow> x \<in> P \<Longrightarrow> y \<noteq> x \<Longrightarrow> age_of (Q9K_SchedAge_node k m x) y = age_of m y" for y m
    unfolding Age_node_eq by (simp add: desc_fields_apart [OF P])
  { case 1 then show ?case using Cons.IH(1) [of "Q9K_SchedAge_node k m x"] P by (simp add: Age_node_eq)
  next
    case 2 then show ?case using Cons.IH(2) [of "Q9K_SchedAge_node k m x"] pr [of y] by auto
  next
    case 3 then show ?case using Cons.IH(3) [of "Q9K_SchedAge_node k m x"]
      by (cases "y = x") (simp_all add: pr ag, simp add: Age_node_eq)
  }
qed

lemma age_fold_ticks:
  assumes "procs_ok P" "set xs \<subseteq> P" "y \<in> P"
  shows "Q9K_GetU32 (fold (\<lambda>x m. Q9K_SchedAge_node k m x) xs m) (y + Q9K_PROCDESC_SLEEPTICKS_OFF) =
    Q9K_GetU32 m (y + Q9K_PROCDESC_SLEEPTICKS_OFF)"
  using assms(2)
proof (induction xs arbitrary: m)
  case (Cons x xs)
  then show ?case using assms(3) by (cases "y = x") (simp_all add: Age_node_eq desc_fields_apart [OF assms(1)])
qed simp

lemma sched_age_fold:
  assumes r: "sched_rep m P Q"
  shows "Q9K_SchedAgeAll m = Some (fold (\<lambda>x m'. Q9K_SchedAge_node (Q9K_GetU16 m Q9K_SCHED_MAXAGE_ADDR) m' x)
    (Q Q9K_READYQ_SENTINEL_ADDR) m)"
proof -
  let ?R = "Q9K_READYQ_SENTINEL_ADDR" and ?k = "Q9K_GetU16 m Q9K_SCHED_MAXAGE_ADDR"
  let ?m = "fold (\<lambda>x m. Q9K_SchedAge_node ?k m x) (Q ?R) m"
  have P: "procs_ok P" and QP: "set (Q ?R) \<subseteq> P" "distinct (Q ?R)" using sched_repD [OF r] by auto
  have l: "apart (x + 0x1A) 2 (y + 0x30) 8" if "x \<in> set (Q ?R)" "y \<in> set (Q ?R @ [?R])" for x y
    using that QP by (intro field_links8 [OF P]) auto
  have "walk (Q9K_SchedAge_node ?k) ?R m (nxt m ?R) = Some ?m"
    unfolding sched_walk(3) [OF r sentinels_iff(1)]
    by (rule walk_list; (rule sched_walk [OF r sentinels_iff(1)])?)
      (simp_all only: Age_node_eq l [THEN apart_links_halves(1)] l [THEN apart_links_halves(2)] cell_frame)
  then show ?thesis by (simp add: Q9K_SchedAgeAll_def Let_def)
qed

lemma sched_age:
  assumes r: "sched_rep m P Q"
  obtains m' where "Q9K_SchedAgeAll m = Some m'" "sched_rep m' P Q"
    "\<And>y. y \<in> P \<Longrightarrow> age_of m' y = (if y \<in> set (Q Q9K_READYQ_SENTINEL_ADDR)
       then aged (Q9K_GetU16 m Q9K_SCHED_MAXAGE_ADDR) (Q9K_GetU8 m (y + Q9K_PROCDESC_PRIORITY_OFF)) (age_of m y)
       else age_of m y)"
    "\<And>y. y \<in> P \<Longrightarrow> Q9K_GetU8 m' (y + Q9K_PROCDESC_PRIORITY_OFF) = Q9K_GetU8 m (y + Q9K_PROCDESC_PRIORITY_OFF)"
proof -
  have P: "procs_ok P" "set (Q Q9K_READYQ_SENTINEL_ADDR) \<subseteq> P" "distinct (Q Q9K_READYQ_SENTINEL_ADDR)"
    using sched_repD [OF r] by auto
  show thesis using that [OF sched_age_fold [OF r]] age_fold [OF P] r by simp
qed

section \<open>The sleep countdown\<close>

abbreviation ticks_of :: "memory \<Rightarrow> u32 \<Rightarrow> u32" where
  "ticks_of m x \<equiv> Q9K_GetU32 m (x + Q9K_PROCDESC_SLEEPTICKS_OFF)"

definition expired :: "memory \<Rightarrow> u32 \<Rightarrow> bool" where
  "expired m x \<longleftrightarrow> ticks_of m x = 0 \<or> ticks_of m x = 1"

lemma decr_waiting:
  "\<not> expired m x \<Longrightarrow> Q9K_SleepQDecrement_node m x =
     Q9K_SetU32 m (x + Q9K_PROCDESC_SLEEPTICKS_OFF)
       (if ticks_of m x = Q9K_SLEEP_INFINITE then Q9K_SLEEP_INFINITE else ticks_of m x - 1)"
  by (auto simp: Q9K_SleepQDecrement_node_def expired_def Let_def) (metis c32.put_get)

lemma decr_expired:
  "expired m x \<Longrightarrow> Q9K_SleepQDecrement_node m x =
     Q9K_SchedInsert (Q9K_SetU8 (Q9K_ListUnlink (Q9K_SetU32 m (x + Q9K_PROCDESC_SLEEPTICKS_OFF) 0) x)
       (x + Q9K_PROCDESC_STATE_OFF) Q9K_PROCDESC_STATE_ACTIVE) x"
  by (auto simp: Q9K_SleepQDecrement_node_def expired_def Let_def)


lemma sched_reinsert:
  assumes r: "sched_rep m P Q" and x: "Q Q9K_SLEEPQ_SENTINEL_ADDR = ks @ x # rest"
    and m': "m' = Q9K_SchedInsert (Q9K_SetU8 (Q9K_ListUnlink m x)
       (x + Q9K_PROCDESC_STATE_OFF) Q9K_PROCDESC_STATE_ACTIVE) x"
  shows "sched_rep m' P (Q(Q9K_SLEEPQ_SENTINEL_ADDR := ks @ rest,
           Q9K_READYQ_SENTINEL_ADDR := Q Q9K_READYQ_SENTINEL_ADDR @ [x]))"
    and "Q9K_GetU8 m' (x + Q9K_PROCDESC_STATE_OFF) = Q9K_PROCDESC_STATE_ACTIVE"
    and "y \<in> P \<Longrightarrow> ticks_of m' y = ticks_of m y"
    and "y \<in> P \<Longrightarrow> y \<noteq> x \<Longrightarrow> Q9K_GetU8 m' (y + Q9K_PROCDESC_STATE_OFF) = Q9K_GetU8 m (y + Q9K_PROCDESC_STATE_OFF)"
    and "y \<in> P \<Longrightarrow> prio_of m' y = prio_of m y"
    and "y \<in> P \<Longrightarrow> age_of m' y = (if y = x then ucast (prio_of m y) else age_of m y)"
proof -
  let ?Q1 = "Q(Q9K_SLEEPQ_SENTINEL_ADDR := ks @ rest)"
  define m2 where "m2 = Q9K_SetU8 (Q9K_ListUnlink m x) (x + Q9K_PROCDESC_STATE_OFF) Q9K_PROCDESC_STATE_ACTIVE"
  have P: "procs_ok P" by (rule sched_repD(1) [OF r])
  have xin: "x \<in> set (Q Q9K_SLEEPQ_SENTINEL_ADDR)" using x by simp
  have xP: "x \<in> P" using sched_repD(3) [OF r, of Q9K_SLEEPQ_SENTINEL_ADDR] x by auto
  have o1: "only_links P m (Q9K_ListUnlink m x)" by (rule sched_remove(2) [OF r xin]) simp
  have r2: "sched_rep m2 P ?Q1" unfolding m2_def using sched_unlink [OF r _ x] P xP by simp
  have nq: "x \<notin> queued ?Q1"
    using x sched_repD(4) [OF r, of Q9K_SLEEPQ_SENTINEL_ADDR] sched_repD(5) [OF r, of Q9K_SLEEPQ_SENTINEL_ADDR _ x]
    by (auto simp: queued_def sentinels_def)
  note o2 = sched_insert(2) [OF r2 xP nq] and m2 = m' [folded m2_def]
  show "sched_rep m' P (Q(Q9K_SLEEPQ_SENTINEL_ADDR := ks @ rest,
           Q9K_READYQ_SENTINEL_ADDR := Q Q9K_READYQ_SENTINEL_ADDR @ [x]))"
    using sched_insert(1) [OF r2 xP nq] m2 by simp
  have st: "Q9K_GetU8 m' (y + Q9K_PROCDESC_STATE_OFF) = Q9K_GetU8 m2 (y + Q9K_PROCDESC_STATE_OFF)" if "y \<in> P" for y
    using only_links_get(1) [OF o2] P that xP
    by (cases "y = x") (simp_all add: m2 off_links desc_fields_apart [OF P])
  then show "Q9K_GetU8 m' (x + Q9K_PROCDESC_STATE_OFF) = Q9K_PROCDESC_STATE_ACTIVE"
    using xP by (simp add: m2_def)
  show "y \<in> P \<Longrightarrow> ticks_of m' y = ticks_of m y"
    using only_links_get(3) [OF o2] only_links_get(3) [OF o1] P xP
    by (cases "y = x") (simp_all add: m2 m2_def off_links desc_fields_apart [OF P])
  show "y \<in> P \<Longrightarrow> y \<noteq> x \<Longrightarrow> Q9K_GetU8 m' (y + Q9K_PROCDESC_STATE_OFF) = Q9K_GetU8 m (y + Q9K_PROCDESC_STATE_OFF)"
    using st only_links_get(1) [OF o1] P xP by (simp add: m2_def off_links desc_fields_apart [OF P])
  have pr: "prio_of m2 y = prio_of m y" "age_of m2 y = age_of m y" if "y \<in> P" for y
    using only_links_get(1,2) [OF o1] P xP that by (cases "y = x"; simp add: m2_def off_links desc_fields_apart [OF P])+
  show "y \<in> P \<Longrightarrow> prio_of m' y = prio_of m y"
    using only_links_get(1) [OF o2] pr(1) P xP by (cases "y = x") (simp_all add: m2 off_links desc_fields_apart [OF P])
  show "y \<in> P \<Longrightarrow> age_of m' y = (if y = x then ucast (prio_of m y) else age_of m y)"
    using only_links_get(2) [OF o2] pr P xP by (cases "y = x") (simp_all add: m2 off_links desc_fields_apart [OF P])
qed

definition countdown :: "u32 \<Rightarrow> u32" where
  "countdown t = (if t = Q9K_SLEEP_INFINITE \<or> t = 0 then t else t - 1)"

abbreviation state_of :: "memory \<Rightarrow> u32 \<Rightarrow> u8" where
  "state_of m x \<equiv> Q9K_GetU8 m (x + Q9K_PROCDESC_STATE_OFF)"

lemma decr_step:
  assumes r: "sched_rep m P Q" and x: "Q Q9K_SLEEPQ_SENTINEL_ADDR = ks @ x # rest"
    and m1: "m1 = Q9K_SleepQDecrement_node m x"
  shows "sched_rep m1 P (if expired m x then Q(Q9K_SLEEPQ_SENTINEL_ADDR := ks @ rest,
           Q9K_READYQ_SENTINEL_ADDR := Q Q9K_READYQ_SENTINEL_ADDR @ [x]) else Q)"
    and "y \<in> P \<Longrightarrow> ticks_of m1 y = (if y = x then countdown (ticks_of m x) else ticks_of m y)"
    and "y \<in> P \<Longrightarrow> state_of m1 y = (if y = x \<and> expired m x then Q9K_PROCDESC_STATE_ACTIVE else state_of m y)"
    and "y \<in> P \<Longrightarrow> prio_of m1 y = prio_of m y"
    and "y \<in> P \<Longrightarrow> age_of m1 y = (if y = x \<and> expired m x then ucast (prio_of m y) else age_of m y)"
proof -
  have P: "procs_ok P" by (rule sched_repD(1) [OF r])
  have xP: "x \<in> P" using sched_repD(3) [OF r, of Q9K_SLEEPQ_SENTINEL_ADDR] x by auto
  have set: "ticks_of (Q9K_SetU32 m (x + 0x1C4) v) y = (if y = x then v else ticks_of m y)"
     "state_of (Q9K_SetU32 m (x + 0x1C4) v) y = state_of m y" "prio_of (Q9K_SetU32 m (x + 0x1C4) v) y = prio_of m y"
     "age_of (Q9K_SetU32 m (x + 0x1C4) v) y = age_of m y" if "y \<in> P" for y v
    using that xP by (cases "y = x"; simp add: desc_fields_apart [OF P])+
  have r1: "sched_rep (Q9K_SetU32 m (x + 0x1C4) v) P Q" for v using r P xP by simp
  note re = sched_reinsert [OF r1 x trans [OF m1 decr_expired]]
  show "sched_rep m1 P (if expired m x then Q(Q9K_SLEEPQ_SENTINEL_ADDR := ks @ rest,
           Q9K_READYQ_SENTINEL_ADDR := Q Q9K_READYQ_SENTINEL_ADDR @ [x]) else Q)"
    using re(1) r1 m1 decr_waiting [of m x] by simp
  show "y \<in> P \<Longrightarrow> ticks_of m1 y = (if y = x then countdown (ticks_of m x) else ticks_of m y)"
    using re(3) [of y] set [of y] m1 decr_waiting [of m x]
    by (cases "expired m x"; cases "y = x") (auto simp: countdown_def expired_def)
  show "y \<in> P \<Longrightarrow> state_of m1 y = (if y = x \<and> expired m x then Q9K_PROCDESC_STATE_ACTIVE else state_of m y)"
    using re(2) re(4) [of y] set [of y] m1 decr_waiting [of m x]
    by (cases "expired m x"; cases "y = x") simp_all
  show "y \<in> P \<Longrightarrow> prio_of m1 y = prio_of m y"
    using re(5) [of y] set [of y] m1 decr_waiting [of m x] by (cases "expired m x") simp_all
  show "y \<in> P \<Longrightarrow> age_of m1 y = (if y = x \<and> expired m x then ucast (prio_of m y) else age_of m y)"
    using re(6) [of y] set [of y] m1 decr_waiting [of m x] by (cases "expired m x"; cases "y = x") simp_all
qed

lemma sleep_walk:
  assumes "sched_rep m P Q" "Q Q9K_SLEEPQ_SENTINEL_ADDR = ks @ rest"
  shows "\<exists>m'. walk_saved Q9K_SleepQDecrement_node Q9K_SLEEPQ_SENTINEL_ADDR m (hd (rest @ [Q9K_SLEEPQ_SENTINEL_ADDR])) = Some m' \<and>
    sched_rep m' P (Q(Q9K_SLEEPQ_SENTINEL_ADDR := ks @ filter (\<lambda>x. \<not> expired m x) rest,
      Q9K_READYQ_SENTINEL_ADDR := Q Q9K_READYQ_SENTINEL_ADDR @ filter (expired m) rest)) \<and>
    (\<forall>y\<in>P. ticks_of m' y = (if y \<in> set rest then countdown (ticks_of m y) else ticks_of m y) \<and>
      state_of m' y = (if y \<in> set rest \<and> expired m y then Q9K_PROCDESC_STATE_ACTIVE else state_of m y) \<and>
      prio_of m' y = prio_of m y \<and> age_of m' y = (if y \<in> set rest \<and> expired m y then ucast (prio_of m y) else age_of m y))"
  using assms
proof (induction rest arbitrary: m Q ks)
  case Nil
  have "Q(Q9K_SLEEPQ_SENTINEL_ADDR := ks, Q9K_READYQ_SENTINEL_ADDR := Q Q9K_READYQ_SENTINEL_ADDR) = Q"
    using Nil.prems(2) by auto
  then show ?case using Nil.prems by (subst walk_saved.simps) simp
next
  case (Cons x rest)
  let ?S = "Q9K_SLEEPQ_SENTINEL_ADDR" and ?R = "Q9K_READYQ_SENTINEL_ADDR"
  define m1 where "m1 = Q9K_SleepQDecrement_node m x"
  define Q1 where "Q1 = (if expired m x then Q(?S := ks @ rest, ?R := Q ?R @ [x]) else Q)"
  define ks1 where "ks1 = (if expired m x then ks else ks @ [x])"
  note step = decr_step [OF Cons.prems m1_def]
  have P: "procs_ok P" and D: "distinct (ks @ x # rest)" and Q: "set (ks @ x # rest) \<subseteq> P"
    using sched_repD(1) [OF Cons.prems(1)] sched_repD(3,4) [OF Cons.prems(1), of ?S] Cons.prems(2) by simp_all
  have ex: "expired m1 y = expired m y" if "y \<in> set rest" for y
  proof -
    have "y \<in> P" "y \<noteq> x" using that D Q by auto
    then show ?thesis using step(2) by (simp add: expired_def)
  qed
  have f: "filter (expired m1) rest = filter (expired m) rest"
     "filter (\<lambda>x. \<not> expired m1 x) rest = filter (\<lambda>x. \<not> expired m x) rest"
    using ex by (auto intro: filter_cong)
  have "ring m ?S (ks @ x # rest)" using sched_repD(2) [OF Cons.prems(1), of ?S] Cons.prems(2) by simp
  then have n: "nxt m x = hd (rest @ [?S])" by (rule ring_node(2))
  have "?S \<notin> P" by (rule sentinel_not_proc [OF P]) simp
  then have xs: "x \<noteq> ?S" using Q by auto
  have "sched_rep m1 P Q1" "Q1 ?S = ks1 @ rest" using step(1) Cons.prems(2) by (simp_all add: Q1_def ks1_def)
  from Cons.IH [OF this] obtain m' where m':
    "walk_saved Q9K_SleepQDecrement_node ?S m1 (hd (rest @ [?S])) = Some m'"
    "sched_rep m' P (Q1(?S := ks1 @ filter (\<lambda>x. \<not> expired m1 x) rest, ?R := Q1 ?R @ filter (expired m1) rest))"
    "\<forall>y\<in>P. ticks_of m' y = (if y \<in> set rest then countdown (ticks_of m1 y) else ticks_of m1 y) \<and>
      state_of m' y = (if y \<in> set rest \<and> expired m1 y then Q9K_PROCDESC_STATE_ACTIVE else state_of m1 y) \<and>
      prio_of m' y = prio_of m1 y \<and> age_of m' y = (if y \<in> set rest \<and> expired m1 y then ucast (prio_of m1 y) else age_of m1 y)"
    by blast
  have 1: "walk_saved Q9K_SleepQDecrement_node ?S m (hd ((x # rest) @ [?S])) = Some m'"
    using m'(1) xs n by (subst walk_saved.simps) (simp add: m1_def)
  have 2: "Q1(?S := ks1 @ filter (\<lambda>x. \<not> expired m1 x) rest, ?R := Q1 ?R @ filter (expired m1) rest) =
     Q(?S := ks @ filter (\<lambda>x. \<not> expired m x) (x # rest), ?R := Q ?R @ filter (expired m) (x # rest))"
    by (auto simp: Q1_def ks1_def f fun_eq_iff)
  have 3: "\<forall>y\<in>P. ticks_of m' y = (if y \<in> set (x # rest) then countdown (ticks_of m y) else ticks_of m y) \<and>
      state_of m' y = (if y \<in> set (x # rest) \<and> expired m y then Q9K_PROCDESC_STATE_ACTIVE else state_of m y) \<and>
      prio_of m' y = prio_of m y \<and> age_of m' y = (if y \<in> set (x # rest) \<and> expired m y then ucast (prio_of m y) else age_of m y)"
  proof
    fix y assume y: "y \<in> P"
    note yy = bspec [OF m'(3) y] step(2-5) [OF y]
    show "ticks_of m' y = (if y \<in> set (x # rest) then countdown (ticks_of m y) else ticks_of m y) \<and>
      state_of m' y = (if y \<in> set (x # rest) \<and> expired m y then Q9K_PROCDESC_STATE_ACTIVE else state_of m y) \<and>
      prio_of m' y = prio_of m y \<and> age_of m' y = (if y \<in> set (x # rest) \<and> expired m y then ucast (prio_of m y) else age_of m y)"
      using yy ex [of y] D by (cases "y \<in> set rest"; cases "y = x") simp_all
  qed
  show ?case by (rule exI [of _ m'], intro conjI) (fact 1, fact m'(2) [unfolded 2], fact 3)
qed

lemma sched_countdown:
  assumes r: "sched_rep m P Q"
  obtains m' where "Q9K_SleepQDecrementAll m = Some m'"
    "sched_rep m' P (Q(Q9K_SLEEPQ_SENTINEL_ADDR := filter (\<lambda>x. \<not> expired m x) (Q Q9K_SLEEPQ_SENTINEL_ADDR),
      Q9K_READYQ_SENTINEL_ADDR := Q Q9K_READYQ_SENTINEL_ADDR @ filter (expired m) (Q Q9K_SLEEPQ_SENTINEL_ADDR)))"
    "\<And>y. y \<in> set (Q Q9K_SLEEPQ_SENTINEL_ADDR) \<Longrightarrow> ticks_of m' y = countdown (ticks_of m y)"
    "\<And>y. y \<in> P \<Longrightarrow> state_of m' y = (if y \<in> set (Q Q9K_SLEEPQ_SENTINEL_ADDR) \<and> expired m y
       then Q9K_PROCDESC_STATE_ACTIVE else state_of m y)"
    "\<And>y. y \<in> P \<Longrightarrow> prio_of m' y = prio_of m y"
    "\<And>y. y \<in> P \<Longrightarrow> age_of m' y = (if y \<in> set (Q Q9K_SLEEPQ_SENTINEL_ADDR) \<and> expired m y then ucast (prio_of m y) else age_of m y)"
proof -
  have QP: "set (Q Q9K_SLEEPQ_SENTINEL_ADDR) \<subseteq> P" by (rule sched_repD(3) [OF r]) simp
  have n: "nxt m Q9K_SLEEPQ_SENTINEL_ADDR = hd (Q Q9K_SLEEPQ_SENTINEL_ADDR @ [Q9K_SLEEPQ_SENTINEL_ADDR])"
    by (rule sched_walk(3) [OF r]) simp
  from sleep_walk [OF r, of "[]"] obtain m' where m':
    "walk_saved Q9K_SleepQDecrement_node Q9K_SLEEPQ_SENTINEL_ADDR m (hd (Q Q9K_SLEEPQ_SENTINEL_ADDR @ [Q9K_SLEEPQ_SENTINEL_ADDR])) = Some m'"
    "sched_rep m' P (Q(Q9K_SLEEPQ_SENTINEL_ADDR := filter (\<lambda>x. \<not> expired m x) (Q Q9K_SLEEPQ_SENTINEL_ADDR),
      Q9K_READYQ_SENTINEL_ADDR := Q Q9K_READYQ_SENTINEL_ADDR @ filter (expired m) (Q Q9K_SLEEPQ_SENTINEL_ADDR)))"
    "\<forall>y\<in>P. ticks_of m' y = (if y \<in> set (Q Q9K_SLEEPQ_SENTINEL_ADDR) then countdown (ticks_of m y) else ticks_of m y) \<and>
      state_of m' y = (if y \<in> set (Q Q9K_SLEEPQ_SENTINEL_ADDR) \<and> expired m y then Q9K_PROCDESC_STATE_ACTIVE else state_of m y) \<and>
      prio_of m' y = prio_of m y \<and>
      age_of m' y = (if y \<in> set (Q Q9K_SLEEPQ_SENTINEL_ADDR) \<and> expired m y then ucast (prio_of m y) else age_of m y)"
    by auto
  show thesis
    by (rule that [of m']; (unfold Q9K_SleepQDecrementAll_def n)?; (fact m')?) (use m'(3) QP in auto)
qed

text \<open>A reflexive and transitive relation that every countdown of one sleeper respects holds for the
  whole tick.\<close>

lemma sleep_walk_rel:
  assumes "sched_rep m P Q" "Q Q9K_SLEEPQ_SENTINEL_ADDR = ks @ rest"
    and refl: "\<And>m. R m m" and trans: "\<And>a b c. R a b \<Longrightarrow> R b c \<Longrightarrow> R a c"
    and step: "\<And>m Q x. sched_rep m P Q \<Longrightarrow> x \<in> set (Q Q9K_SLEEPQ_SENTINEL_ADDR) \<Longrightarrow> R m (Q9K_SleepQDecrement_node m x)"
    and "walk_saved Q9K_SleepQDecrement_node Q9K_SLEEPQ_SENTINEL_ADDR m (hd (rest @ [Q9K_SLEEPQ_SENTINEL_ADDR])) = Some m'"
  shows "R m m'"
  using assms(1,2,6)
proof (induction rest arbitrary: m Q ks)
  case Nil then show ?case using refl by (subst (asm) walk_saved.simps) simp
next
  case (Cons x rest)
  let ?S = "Q9K_SLEEPQ_SENTINEL_ADDR" and ?R = "Q9K_READYQ_SENTINEL_ADDR"
  let ?m1 = "Q9K_SleepQDecrement_node m x" and ?ks = "if expired m x then ks else ks @ [x]"
  let ?Q = "if expired m x then Q(?S := ks @ rest, ?R := Q ?R @ [x]) else Q"
  have "x \<in> P" using sched_repD(3) [OF Cons.prems(1), of ?S] Cons.prems(2) by auto
  then have xs: "x \<noteq> ?S" using sentinel_not_proc [OF sched_repD(1) [OF Cons.prems(1)], of ?S] by auto
  have "ring m ?S (ks @ x # rest)" using sched_repD(2) [OF Cons.prems(1), of ?S] Cons.prems(2) by simp
  then have n: "nxt m x = hd (rest @ [?S])" by (rule ring_node(2))
  have "walk_saved Q9K_SleepQDecrement_node ?S ?m1 (hd (rest @ [?S])) = Some m'"
    using Cons.prems(3) xs n by (subst (asm) walk_saved.simps) simp
  moreover have "?Q ?S = ?ks @ rest" using Cons.prems(2) by simp
  ultimately have "R ?m1 m'" using Cons.IH [OF decr_step(1) [OF Cons.prems(1,2) HOL.refl]] by blast
  moreover have "R m ?m1" using step [OF Cons.prems(1)] Cons.prems(2) by simp
  ultimately show ?case using trans by blast
qed

section \<open>Descriptor fields outside the links\<close>

text \<open>\<open>same_fields P m m'\<close>: no field of a descriptor in \<open>P\<close> other than its queue links has changed.\<close>

definition same_fields :: "u32 set \<Rightarrow> memory \<Rightarrow> memory \<Rightarrow> bool" where
  "same_fields P m m' \<longleftrightarrow> (\<forall>d\<in>P. \<forall>i. i < 0x400 \<longrightarrow> apart i 1 0x30 8 \<longrightarrow> m' (d + i) = m (d + i))"

lemma same_fields_refl [simp]: "same_fields P m m"
  by (simp add: same_fields_def)

lemma same_fields_trans [trans]: "same_fields P m m1 \<Longrightarrow> same_fields P m1 m2 \<Longrightarrow> same_fields P m m2"
  by (simp add: same_fields_def)

lemma same_fields_get:
  assumes "same_fields P m m'" "d \<in> P"
  shows "apart i 1 0x30 8 \<Longrightarrow> i + 1 \<le> 0x400 \<Longrightarrow> i \<le> i + 1 \<Longrightarrow> Q9K_GetU8 m' (d + i) = Q9K_GetU8 m (d + i)"
    and "apart i 2 0x30 8 \<Longrightarrow> i + 2 \<le> 0x400 \<Longrightarrow> i \<le> i + 2 \<Longrightarrow> Q9K_GetU16 m' (d + i) = Q9K_GetU16 m (d + i)"
    and "apart i 4 0x30 8 \<Longrightarrow> i + 4 \<le> 0x400 \<Longrightarrow> i \<le> i + 4 \<Longrightarrow> Q9K_GetU32 m' (d + i) = Q9K_GetU32 m (d + i)"
proof -
  have *: "m' (d + i + j) = m (d + i + j)" if "apart i n 0x30 8" "i + n \<le> 0x400" "i \<le> i + n" "j < n" for j n
  proof -
    have "i + j < 0x400" using that by (intro word_offset_less)
    moreover have "apart (i + j) 1 0x30 8" using that(1,4) unfolding apart_def by force
    ultimately show ?thesis using assms by (simp add: same_fields_def add.assoc)
  qed
  show "apart i 1 0x30 8 \<Longrightarrow> i + 1 \<le> 0x400 \<Longrightarrow> i \<le> i + 1 \<Longrightarrow> Q9K_GetU8 m' (d + i) = Q9K_GetU8 m (d + i)"
    by (rule c8.get_local) (rule *)
  show "apart i 2 0x30 8 \<Longrightarrow> i + 2 \<le> 0x400 \<Longrightarrow> i \<le> i + 2 \<Longrightarrow> Q9K_GetU16 m' (d + i) = Q9K_GetU16 m (d + i)"
    by (rule c16.get_local) (rule *)
  show "apart i 4 0x30 8 \<Longrightarrow> i + 4 \<le> 0x400 \<Longrightarrow> i \<le> i + 4 \<Longrightarrow> Q9K_GetU32 m' (d + i) = Q9K_GetU32 m (d + i)"
    by (rule c32.get_local) (rule *)
qed

lemma small_offset: "i < 0x400 \<Longrightarrow> i + 1 \<le> 0x400 \<and> i \<le> i + 1 \<and> unat i + 1 \<le> 0x400" for i :: u32
  using unat_step [of i "0x400"] by (simp add: word_le_nat_alt word_less_nat_alt)

lemma only_links_same_fields:
  assumes "procs_ok P" "only_links P m m'" shows "same_fields P m m'"
  unfolding same_fields_def
proof (intro ballI allI impI)
  fix d i assume "d \<in> P" "i < 0x400" "apart i 1 0x30 8"
  then have "off_links P (d + i) 1" using small_offset [of i] assms(1) by (intro off_links_field) auto
  then show "m' (d + i) = m (d + i)" using only_links_bytes [OF assms(2), of "d + i" 1 0] by simp
qed

lemma global_same_fields:
  assumes P: "procs_ok P"
  shows "unat g + 1 \<le> 0x8000 \<Longrightarrow> same_fields P m (Q9K_SetU8 m g v8)"
    and "unat g + 2 \<le> 0x8000 \<Longrightarrow> same_fields P m (Q9K_SetU16 m g v16)"
    and "unat g + 4 \<le> 0x8000 \<Longrightarrow> same_fields P m (Q9K_SetU32 m g v32)"
proof -
  have a: "apart g n (d + i) 1" if "d \<in> P" "i < 0x400" "unat g + unat n \<le> 0x8000" for d i n
    using that small_offset [of i] procs_okD [OF P] by (intro desc_global(2)) auto
  show "unat g + 1 \<le> 0x8000 \<Longrightarrow> same_fields P m (Q9K_SetU8 m g v8)"
    "unat g + 2 \<le> 0x8000 \<Longrightarrow> same_fields P m (Q9K_SetU16 m g v16)"
    "unat g + 4 \<le> 0x8000 \<Longrightarrow> same_fields P m (Q9K_SetU32 m g v32)"
    unfolding same_fields_def
    using c8.put_keeps [OF a, of _ _ 0] c16.put_keeps [OF a, of _ _ 0] c32.put_keeps [OF a, of _ _ 0] by auto
qed

section \<open>First pick, preemption, priority\<close>

lemma sched_global_write:
  assumes "procs_ok P" "g = Q9_D_PROC \<or> g = Q9K_SCHED_MINPTY_ADDR \<or> g = Q9K_SCHED_SLICE_ADDR \<or>
    g = Q9K_SCHED_NOSWITCH_ADDR \<or> g = Q9K_SCHED_MAXAGE_ADDR"
  shows "sched_rep (Q9K_SetU16 m g v16) P Q = sched_rep m P Q" "sched_rep (Q9K_SetU32 m g v32) P Q = sched_rep m P Q"
  by (rule sched_rep_global [OF assms(1)]; use assms(2) in auto)+

lemma sched_first_pick:
  assumes r: "sched_rep m P Q"
  obtains b m' where "Q9K_SchedFirstPick m = Some (b, m')"
    "if Q Q9K_READYQ_SENTINEL_ADDR = [] then b = 0
     else first_max (\<lambda>_. True) (age_of m) (Q Q9K_READYQ_SENTINEL_ADDR) b"
    "sched_rep m' P (Q(Q9K_READYQ_SENTINEL_ADDR := remove1 b (Q Q9K_READYQ_SENTINEL_ADDR)))"
    "Q9K_GetU32 m' Q9_D_PROC = (if b = 0 then Q9K_GetU32 m Q9_D_PROC else b)"
    "Q9K_GetU16 m' Q9K_SCHED_MINPTY_ADDR = 0" "same_fields P m m'"
proof -
  let ?R = "Q9K_READYQ_SENTINEL_ADDR"
  define m1 where "m1 = Q9K_SetU16 m Q9K_SCHED_MINPTY_ADDR 0"
  have P: "procs_ok P" and QP: "set (Q ?R) \<subseteq> P" using sched_repD(1) [OF r] sched_repD(3) [OF r, of ?R] by auto
  have r1: "sched_rep m1 P Q" unfolding m1_def using r sched_global_write [OF P] by simp
  have age: "age_of m1 x = age_of m x" if "x \<in> P" for x
    using that procs_okD [OF P] by (simp add: m1_def desc_global)
  have el: "eligible m1 = (\<lambda>_. True)" by (auto simp: eligible_def m1_def)
  from sched_pick [OF r1] obtain b where b:
    "Q9K_SchedPickHighestAge m1 = Some (b, if b = 0 then m1 else Q9K_ListUnlink m1 b)" "picks m1 (Q ?R) b"
    "sched_rep (if b = 0 then m1 else Q9K_ListUnlink m1 b) P (Q(?R := remove1 b (Q ?R)))"
    "only_links P m1 (if b = 0 then m1 else Q9K_ListUnlink m1 b)" by blast
  define m2 where "m2 = (if b = 0 then m1 else Q9K_ListUnlink m1 b)"
  define m' where "m' = (if b = 0 then m2 else Q9K_SetU16 (Q9K_SetU32 m2 Q9_D_PROC b) Q9K_SCHED_SLICE_ADDR Q9K_SCHED_TSLICE)"
  have e: "Q9K_SchedFirstPick m = Some (b, m')"
    unfolding Q9K_SchedFirstPick_def m1_def [symmetric] b(1) by (simp add: m'_def m2_def)
  have "first_max (\<lambda>_. True) (age_of m1) (Q ?R) b = first_max (\<lambda>_. True) (age_of m) (Q ?R) b"
    unfolding first_max_def using age QP by (intro ex_cong1 conj_cong refl ball_cong) auto
  then have p: "if Q ?R = [] then b = 0 else first_max (\<lambda>_. True) (age_of m) (Q ?R) b"
    using b(2) unfolding picks_def best_by_def el by (auto split: if_splits)
  have r': "sched_rep m' P (Q(?R := remove1 b (Q ?R)))"
    using b(3) by (cases "b = 0") (simp_all add: m'_def m2_def sched_global_write [OF P])
  have g: "Q9K_GetU32 m2 Q9_D_PROC = Q9K_GetU32 m Q9_D_PROC" "Q9K_GetU16 m2 Q9K_SCHED_MINPTY_ADDR = 0"
    using only_links_get(2,3) [OF b(4) [folded m2_def]] by (simp_all add: off_links_global [OF P] m1_def)
  have "same_fields P m m1" unfolding m1_def by (rule global_same_fields(2) [OF P]) simp
  also have "same_fields P m1 m2" using only_links_same_fields [OF P b(4)] by (simp add: m2_def)
  also have "same_fields P m2 m'"
    using same_fields_trans [OF global_same_fields(3) [OF P, of Q9_D_PROC m2 b]
        global_same_fields(2) [OF P, of Q9K_SCHED_SLICE_ADDR]] by (simp add: m'_def)
  finally show thesis using that [OF e p r'] g by (simp add: m'_def)
qed

lemma sched_commit_preempt:
  assumes r: "sched_rep m P Q" and t: "t \<in> set (Q Q9K_READYQ_SENTINEL_ADDR)"
    and c: "Q9K_GetU32 m Q9_D_PROC = c" "c = 0 \<or> c \<in> P \<and> c \<notin> queued Q"
    and m': "m' = snd (Q9K_SchedCommitPreempt m t)"
  shows "fst (Q9K_SchedCommitPreempt m t) = t"
    "sched_rep m' P (Q(Q9K_READYQ_SENTINEL_ADDR :=
       remove1 t (Q Q9K_READYQ_SENTINEL_ADDR) @ (if c = 0 then [] else [c])))"
    "Q9K_GetU32 m' Q9_D_PROC = t"
proof -
  let ?R = "Q9K_READYQ_SENTINEL_ADDR"
  have P: "procs_ok P" and tP: "t \<in> P" using sched_repD(1) [OF r] sched_repD(3) [OF r, of ?R] t by auto
  have nz: "t \<noteq> 0" "t \<noteq> c" using procs_okD [OF P tP] desc_ok_nonzero t c(2) by (auto simp: queued_def)
  define m1 where "m1 = Q9K_ListUnlink m t"
  have r1: "sched_rep m1 P (Q(?R := remove1 t (Q ?R)))" unfolding m1_def by (rule sched_remove(1) [OF r t]) simp
  have e: "Q9K_SchedCommitPreempt m t =
      (t, Q9K_SetU32 (if c = 0 then m1 else Q9K_SchedInsert m1 c) Q9_D_PROC t)"
    using nz c(1) by (simp add: Q9K_SchedCommitPreempt_def Q9K_SchedRemove_def m1_def Let_def)
  have "queued (Q(?R := remove1 t (Q ?R))) \<subseteq> queued Q"
    unfolding queued_def using set_remove1_subset [of t "Q ?R"] sentinels_iff(1)
    by (intro UN_mono subset_refl) simp
  then have "c \<noteq> 0 \<Longrightarrow> sched_rep (Q9K_SchedInsert m1 c) P (Q(?R := remove1 t (Q ?R) @ [c]))"
    using sched_insert(1) [OF r1, of c] c(2) by auto
  then show "sched_rep m' P (Q(?R := remove1 t (Q ?R) @ (if c = 0 then [] else [c])))"
    using r1 by (simp add: m' e sched_global_write [OF P])
  show "fst (Q9K_SchedCommitPreempt m t) = t" "Q9K_GetU32 m' Q9_D_PROC = t" by (simp_all add: e m')
qed

lemma set_priority_walk:
  assumes "links m (xs @ [Q9K_READYQ_SENTINEL_ADDR])" "Q9K_READYQ_SENTINEL_ADDR \<notin> set xs" "d \<noteq> Q9K_READYQ_SENTINEL_ADDR"
  shows "Q9K_SchedSetPriority_loop m d v (hd (xs @ [Q9K_READYQ_SENTINEL_ADDR])) =
    Some (if d \<in> set xs then Q9K_SetU16 m (d + Q9K_PROCDESC_AGE_OFF) (ucast v) else m)"
  using assms
proof (induction xs)
  case Nil then show ?case by (subst Q9K_SchedSetPriority_loop.simps) simp
next
  case (Cons x xs)
  have "nxt m x = hd (xs @ [Q9K_READYQ_SENTINEL_ADDR])" "links m (xs @ [Q9K_READYQ_SENTINEL_ADDR])"
    using Cons.prems(1) by (cases xs; simp)+
  moreover have "x \<noteq> Q9K_READYQ_SENTINEL_ADDR" "Q9K_READYQ_SENTINEL_ADDR \<notin> set xs" using Cons.prems(2) by auto
  ultimately show ?case using Cons.IH Cons.prems(3) by (subst Q9K_SchedSetPriority_loop.simps) auto
qed

lemma set_priority_eq:
  assumes r: "sched_rep m P Q" and d: "d \<in> P"
    and m1: "m1 = Q9K_SetU8 m (d + Q9K_PROCDESC_PRIORITY_OFF) (ucast (prio AND 0xFF))"
  shows "Q9K_SchedSetPriority m d prio = Some (if d \<in> set (Q Q9K_READYQ_SENTINEL_ADDR)
      then Q9K_SetU16 m1 (d + Q9K_PROCDESC_AGE_OFF) (prio AND 0xFF) else m1)"
proof -
  let ?R = "Q9K_READYQ_SENTINEL_ADDR" and ?v = "ucast (prio AND 0xFF) :: u8"
  have P: "procs_ok P" by (rule sched_repD(1) [OF r])
  have r1: "sched_rep m1 P Q" using r d P by (simp add: m1)
  have dR: "d \<noteq> ?R" using sentinel_not_proc [OF P, of ?R] d by auto
  have n: "nxt m1 ?R = hd (Q ?R @ [?R])" by (rule sched_walk(3) [OF r1]) simp
  have "Q9K_SchedSetPriority_loop m1 d ?v (hd (Q ?R @ [?R])) =
     Some (if d \<in> set (Q ?R) then Q9K_SetU16 m1 (d + Q9K_PROCDESC_AGE_OFF) (ucast ?v) else m1)"
    by (rule set_priority_walk) (use dR sched_walk(1,2) [OF r1, of ?R] in simp_all)
  moreover have "ucast ?v = prio AND 0xFF" by (rule ucast_low_byte)
  ultimately show ?thesis unfolding Q9K_SchedSetPriority_def Let_def m1 [symmetric] n by (simp only:)
qed

lemma sched_set_priority:
  assumes r: "sched_rep m P Q" and d: "d \<in> P"
  obtains m' where "Q9K_SchedSetPriority m d prio = Some m'" "sched_rep m' P Q"
    "Q9K_GetU8 m' (d + Q9K_PROCDESC_PRIORITY_OFF) = ucast (prio AND 0xFF)"
    "age_of m' d = (if d \<in> set (Q Q9K_READYQ_SENTINEL_ADDR) then prio AND 0xFF else age_of m d)"
  using that set_priority_eq [OF r d refl, of prio] r d sched_repD(1) [OF r] by (auto split: if_splits)

lemma set_priority_cases:
  assumes r: "sched_rep m P Q" and d: "d \<in> P" and m': "Q9K_SchedSetPriority m d prio = Some m'"
  shows "\<exists>v w. m' = Q9K_SetU8 m (d + Q9K_PROCDESC_PRIORITY_OFF) v \<or>
    m' = Q9K_SetU16 (Q9K_SetU8 m (d + Q9K_PROCDESC_PRIORITY_OFF) v) (d + Q9K_PROCDESC_AGE_OFF) w"
  using set_priority_eq [OF r d refl, of prio] m' by (simp split: if_splits) blast+

section \<open>Properties\<close>

text \<open>On every well-formed set of queues the selection loop ends.  It returns 0 and leaves
  the queues alone exactly when no ready process reaches the minimum priority; otherwise it returns
  the first process of maximal age among the eligible ones (every eligible process before it is
  strictly younger, none behind it is older), takes exactly that one off the ready queue, and
  changes no descriptor field other than queue links.\<close>

theorem sched_pick_spec:
  assumes "sched_rep m P Q"
  shows "\<exists>b m'. Q9K_SchedPickHighestAge m = Some (b, m') \<and>
    (if filter (eligible m) (Q Q9K_READYQ_SENTINEL_ADDR) = [] then b = 0 \<and> m' = m
     else first_max (eligible m) (age_of m) (Q Q9K_READYQ_SENTINEL_ADDR) b) \<and>
    sched_rep m' P (Q(Q9K_READYQ_SENTINEL_ADDR := remove1 b (Q Q9K_READYQ_SENTINEL_ADDR))) \<and>
    same_fields P m m'"
proof -
  obtain b where b: "Q9K_SchedPickHighestAge m = Some (b, if b = 0 then m else Q9K_ListUnlink m b)"
    "picks m (Q Q9K_READYQ_SENTINEL_ADDR) b"
    "sched_rep (if b = 0 then m else Q9K_ListUnlink m b) P
       (Q(Q9K_READYQ_SENTINEL_ADDR := remove1 b (Q Q9K_READYQ_SENTINEL_ADDR)))"
    "only_links P m (if b = 0 then m else Q9K_ListUnlink m b)" by (rule sched_pick [OF assms])
  have "same_fields P m (if b = 0 then m else Q9K_ListUnlink m b)"
    by (rule only_links_same_fields [OF sched_repD(1) [OF assms] b(4)])
  then show ?thesis using b(1,3) b(2) [unfolded picks_def best_by_def] by (auto split: if_splits)
qed

lemma sched_pick_spec_witness:
  "\<exists>m'. Q9K_SchedPickHighestAge ex_mem = Some (ex_ready, m') \<and> sched_rep m' ex_procs (ex_queues(Q9K_READYQ_SENTINEL_ADDR := []))"
proof -
  have el: "eligible ex_mem ex_ready"
    by (simp add: eligible_def ex_mem_def ex_base_def Q9K_SchedInsert_def Q9K_SleepQInsert_def Q9K_ListAppend_def Let_def)
  have "first_max (eligible ex_mem) (age_of ex_mem) [ex_ready] b \<Longrightarrow> b = ex_ready" for b
    using first_max_in by fastforce
  then show ?thesis using sched_pick_spec [OF ex_rep] el by (auto simp: ex_queues_def)
qed

text \<open>Aging ends, keeps the queues, and changes the age of exactly the ready processes: without
  an age limit the age grows by one up to 65535 and never wraps, with a limit it grows by one unless
  the age or the priority of the process has reached the limit.\<close>

theorem sched_age_spec:
  assumes "sched_rep m P Q"
  shows "\<exists>m'. Q9K_SchedAgeAll m = Some m' \<and> sched_rep m' P Q \<and>
    (\<forall>y\<in>P. age_of m' y = (if y \<in> set (Q Q9K_READYQ_SENTINEL_ADDR)
       then aged (Q9K_GetU16 m Q9K_SCHED_MAXAGE_ADDR) (Q9K_GetU8 m (y + Q9K_PROCDESC_PRIORITY_OFF)) (age_of m y)
       else age_of m y)) \<and>
    (\<forall>k p a. aged k p a \<ge> a \<and> unat (aged k p a) \<le> unat a + 1)"
proof -
  have "aged k p a \<ge> a \<and> unat (aged k p a) \<le> unat a + 1" for k p a
  proof (cases "a = 0xFFFF")
    case False
    then have "unat a \<noteq> 0xFFFF" by (simp add: word_unat_eq_iff)
    then have "unat (a + 1) = unat a + 1" using unsigned_less [of a, where 'a = nat] unat_add_lem [of a 1] by simp
    then show ?thesis by (simp add: aged_def word_le_nat_alt)
  next
    case True
    have "k \<le> 0xFFFF" using unsigned_less [of k, where 'a = nat] by (simp add: word_le_nat_alt)
    then show ?thesis by (simp add: aged_def True)
  qed
  then show ?thesis by (metis sched_age [OF assms])
qed

lemma sched_age_spec_witness: "\<exists>m'. Q9K_SchedAgeAll ex_mem = Some m' \<and> age_of m' ex_ready = 21"
proof -
  have "Q9K_GetU16 ex_mem Q9K_SCHED_MAXAGE_ADDR = 0"
    by (simp add: ex_mem_def ex_base_def Q9K_SchedInsert_def Q9K_SleepQInsert_def Q9K_ListAppend_def Let_def)
  then show ?thesis using sched_age_spec [OF ex_rep]
    by (auto simp: ex_queues_def ex_procs_def aged_def)
qed

text \<open>One tick of the sleep queue ends; every sleeper with a finite remaining time counts
  down by one, and exactly those that reach zero move, in their order, to the end of the ready queue
  and become active; the others keep their place and state, and an infinite sleep never expires.\<close>

theorem sched_countdown_spec:
  assumes "sched_rep m P Q"
  shows "\<exists>m'. Q9K_SleepQDecrementAll m = Some m' \<and>
    sched_rep m' P (Q(Q9K_SLEEPQ_SENTINEL_ADDR := filter (\<lambda>x. \<not> expired m x) (Q Q9K_SLEEPQ_SENTINEL_ADDR),
      Q9K_READYQ_SENTINEL_ADDR := Q Q9K_READYQ_SENTINEL_ADDR @ filter (expired m) (Q Q9K_SLEEPQ_SENTINEL_ADDR))) \<and>
    (\<forall>y\<in>set (Q Q9K_SLEEPQ_SENTINEL_ADDR). ticks_of m' y = countdown (ticks_of m y)) \<and>
    (\<forall>y\<in>P. state_of m' y = (if y \<in> set (Q Q9K_SLEEPQ_SENTINEL_ADDR) \<and> expired m y
       then Q9K_PROCDESC_STATE_ACTIVE else state_of m y))"
  by (rule sched_countdown [OF assms]) blast

lemma sched_countdown_spec_witness:
  "\<exists>m'. Q9K_SleepQDecrementAll ex_mem = Some m' \<and> ticks_of m' ex_sleeper = 4 \<and> sched_rep m' ex_procs ex_queues"
proof -
  have "\<not> expired ex_mem ex_sleeper" by (simp add: expired_def)
  moreover have "ex_queues(Q9K_SLEEPQ_SENTINEL_ADDR := [ex_sleeper], Q9K_READYQ_SENTINEL_ADDR := [ex_ready]) = ex_queues"
    by (simp add: ex_queues_def)
  ultimately show ?thesis using sched_countdown_spec [OF ex_rep]
    by (auto simp: ex_queues_def countdown_def)
qed

text \<open>Waking a sleeping process takes it out of the sleep queue wherever it stands, appends it
  to the ready queue with its age reset to its priority, and makes it active; waking a process in
  any other state changes nothing.\<close>

theorem sched_wake_spec:
  assumes "sched_rep m P Q"
    and "state_of m d = Q9K_PROCDESC_STATE_SLEEPING \<Longrightarrow> d \<in> set (Q Q9K_SLEEPQ_SENTINEL_ADDR)"
    and "m' = Q9K_SchedWake m d"
  shows "if state_of m d = Q9K_PROCDESC_STATE_SLEEPING
    then sched_rep m' P (Q(Q9K_SLEEPQ_SENTINEL_ADDR := remove1 d (Q Q9K_SLEEPQ_SENTINEL_ADDR),
           Q9K_READYQ_SENTINEL_ADDR := Q Q9K_READYQ_SENTINEL_ADDR @ [d])) \<and>
         state_of m' d = Q9K_PROCDESC_STATE_ACTIVE \<and>
         age_of m' d = ucast (Q9K_GetU8 m (d + Q9K_PROCDESC_PRIORITY_OFF))
    else m' = m"
  using assms sched_wake sched_wake_age sched_wake_awake by simp

lemma sched_wake_spec_witness:
  "state_of (Q9K_SchedWake ex_mem ex_sleeper) ex_sleeper = Q9K_PROCDESC_STATE_ACTIVE \<and>
   sched_rep (Q9K_SchedWake ex_mem ex_sleeper) ex_procs
     (ex_queues(Q9K_SLEEPQ_SENTINEL_ADDR := [], Q9K_READYQ_SENTINEL_ADDR := [ex_ready, ex_sleeper]))"
  using sched_wake_spec [OF ex_rep _ refl, of ex_sleeper] by (simp add: ex_queues_def)

text \<open>committing a preemption of the running process \<open>c\<close> by a ready process \<open>t\<close> removes
  \<open>t\<close> from the ready queue, appends \<open>c\<close> when there is a running process, and makes \<open>t\<close> the
  current one.\<close>

theorem sched_preempt_spec:
  assumes "sched_rep m P Q" "t \<in> set (Q Q9K_READYQ_SENTINEL_ADDR)"
    and "Q9K_GetU32 m Q9_D_PROC = c" "c = 0 \<or> c \<in> P \<and> c \<notin> queued Q"
  shows "\<exists>m'. Q9K_SchedCommitPreempt m t = (t, m') \<and> Q9K_GetU32 m' Q9_D_PROC = t \<and>
    sched_rep m' P (Q(Q9K_READYQ_SENTINEL_ADDR :=
       remove1 t (Q Q9K_READYQ_SENTINEL_ADDR) @ (if c = 0 then [] else [c])))"
  using sched_commit_preempt [OF assms refl] by (metis prod.collapse)

lemma sched_preempt_spec_witness:
  "\<exists>m'. Q9K_SchedCommitPreempt ex_mem ex_ready = (ex_ready, m') \<and> Q9K_GetU32 m' Q9_D_PROC = ex_ready \<and>
     sched_rep m' ex_procs (ex_queues(Q9K_READYQ_SENTINEL_ADDR := [ex_running]))"
  using sched_preempt_spec [OF ex_rep, of ex_ready ex_running]
  by (simp add: ex_queues_def ex_procs_def queued_def sentinels_def)

text \<open>Setting a priority ends, keeps all queues and their order, stores the low byte of the
  priority, and resets the age exactly when the process is ready.\<close>

theorem sched_priority_spec:
  assumes "sched_rep m P Q" "d \<in> P"
  shows "\<exists>m'. Q9K_SchedSetPriority m d prio = Some m' \<and> sched_rep m' P Q \<and>
    Q9K_GetU8 m' (d + Q9K_PROCDESC_PRIORITY_OFF) = ucast (prio AND 0xFF) \<and>
    age_of m' d = (if d \<in> set (Q Q9K_READYQ_SENTINEL_ADDR) then prio AND 0xFF else age_of m d)"
  by (rule sched_set_priority [OF assms]) blast

lemma sched_priority_spec_witness:
  "\<exists>m'. Q9K_SchedSetPriority ex_mem ex_ready 50 = Some m' \<and> age_of m' ex_ready = 50 AND 0xFF"
  using sched_priority_spec [OF ex_rep, of ex_ready 50] by (auto simp: ex_procs_def ex_queues_def)

text \<open>The pick used whenever the running process gives up the processor ends; it takes
  the first process of maximal age off the ready queue and makes it current, or reports 0 with an
  empty ready queue.  On the way it stores 0 as the system's minimum priority, whatever F$SetSys
  had put there.\<close>

theorem sched_first_pick_spec:
  assumes "sched_rep m P Q"
  shows "\<exists>b m'. Q9K_SchedFirstPick m = Some (b, m') \<and>
    (if Q Q9K_READYQ_SENTINEL_ADDR = [] then b = 0
     else first_max (\<lambda>_. True) (age_of m) (Q Q9K_READYQ_SENTINEL_ADDR) b) \<and>
    sched_rep m' P (Q(Q9K_READYQ_SENTINEL_ADDR := remove1 b (Q Q9K_READYQ_SENTINEL_ADDR))) \<and>
    Q9K_GetU32 m' Q9_D_PROC = (if b = 0 then Q9K_GetU32 m Q9_D_PROC else b) \<and>
    Q9K_SchedGetMinPty m' = 0 \<and> same_fields P m m'"
  by (rule sched_first_pick [OF assms]) (auto simp: Q9K_SchedGetMinPty_def)

lemma sched_first_pick_spec_witness:
  "Q9K_SchedGetMinPty (Q9K_SchedSetMinPty ex_mem 7) = 7 \<and>
   (\<exists>b m'. Q9K_SchedFirstPick (Q9K_SchedSetMinPty ex_mem 7) = Some (b, m') \<and> Q9K_SchedGetMinPty m' = 0)"
proof -
  have "sched_rep (Q9K_SchedSetMinPty ex_mem 7) ex_procs ex_queues"
    unfolding Q9K_SchedSetMinPty_def using ex_rep sched_global_write(1) [OF ex_procs_ok] by simp
  from sched_first_pick_spec [OF this] show ?thesis
    by (auto simp: Q9K_SchedGetMinPty_def Q9K_SchedSetMinPty_def)
qed

end
