(* ===== verification/Q9_ProcApi.thy ===== *)
theory Q9_ProcApi
  imports Q9_Sched_Props
begin

text \<open>
  The process interface of \<^verbatim>\<open>q9kernel_procapi.c\<close>: process IDs and descriptors of the process pool,
  and the service calls F$GProcP, F$ID, F$SPrior, F$SUser, F$CpyMem, F$GPrDsc, F$AProc, F$GPrDBT
  together with their parameterless bridges, which read and write fixed scratch cells.  A call
  that reports an error number through \<^verbatim>\<open>*outError\<close> is a sum: \<^term>\<open>Inl e\<close> is failure with error
  \<open>e\<close>, \<^term>\<open>Inr m\<close> success with the new memory.
\<close>

abbreviation Q9K_PROCPOOL_BASE_ADDR :: u32 where "Q9K_PROCPOOL_BASE_ADDR \<equiv> 0x1204"
abbreviation Q9K_PROCPOOL_COUNT_ADDR :: u32 where "Q9K_PROCPOOL_COUNT_ADDR \<equiv> 0x1220"
abbreviation Q9K_MH_OWNER_OFF :: u32 where "Q9K_MH_OWNER_OFF \<equiv> 0x08"

section \<open>Process IDs\<close>

definition Q9K_ProcIsAllocated :: "memory \<Rightarrow> u32 \<Rightarrow> bool" where
  "Q9K_ProcIsAllocated m desc =
     (let state = Q9K_GetU8 m (desc + Q9K_PROCDESC_STATE_OFF)
      in state = Q9K_PROCDESC_STATE_ACTIVE \<or> state = Q9K_PROCDESC_STATE_WAITING \<or>
         state = Q9K_PROCDESC_STATE_SLEEPING \<or> state = Q9K_PROCDESC_STATE_SEMA \<or>
         state = Q9K_PROCDESC_STATE_ZOMBIE)"

definition Q9K_ProcLookup :: "memory \<Rightarrow> u16 \<Rightarrow> u32" where
  "Q9K_ProcLookup m pid =
     (let base = Q9K_GetU32 m Q9K_PROCPOOL_BASE_ADDR;
          count = Q9K_GetU32 m Q9K_PROCPOOL_COUNT_ADDR
      in if pid = 0 \<or> ucast pid > count \<or> base = 0 then 0
         else let desc = base + push_bit 10 (ucast pid - 1)
              in if Q9K_ProcIsAllocated m desc then desc else 0)"

definition Q9K_ProcIdForDesc :: "memory \<Rightarrow> u32 \<Rightarrow> u16" where
  "Q9K_ProcIdForDesc m desc =
     (let base = Q9K_GetU32 m Q9K_PROCPOOL_BASE_ADDR;
          count = Q9K_GetU32 m Q9K_PROCPOOL_COUNT_ADDR
      in if base = 0 \<or> count = 0 \<or> desc < base then 0
         else let delta = desc - base
              in if delta AND (Q9K_PROCDESC_SIZE - 1) \<noteq> 0 \<or> drop_bit 10 delta \<ge> count \<or>
                    \<not> Q9K_ProcIsAllocated m desc
                 then 0 else ucast (drop_bit 10 delta + 1))"

definition Q9K_SysGProcPImpl :: "memory \<Rightarrow> memory" where
  "Q9K_SysGProcPImpl m =
     (let pid = Q9K_GetU16 m 0x1380; desc = Q9K_ProcLookup m pid in
      if desc = 0 then Q9K_SetU16 (Q9K_SetU16 m 0x1388 Q9K_E_PRCID) 0x138C 0
      else Q9K_SetU16 (Q9K_SetU32 m 0x1384 desc) 0x138C 1)"

definition Q9K_SysIDImpl :: "memory \<Rightarrow> memory" where
  "Q9K_SysIDImpl m =
     (let desc = Q9K_GetU32 m Q9_D_PROC; pid = Q9K_ProcIdForDesc m desc in
      if pid = 0 then Q9K_SetU16 (Q9K_SetU16 m 0x139C Q9K_E_PRCID) 0x13A0 0
      else
        let m1 = Q9K_SetU16 m 0x1390 pid;
            m2 = Q9K_SetU32 m1 0x1394 (Q9K_GetU32 m1 (desc + Q9K_PROCDESC_USER_OFF));
            m3 = Q9K_SetU16 m2 0x1398 (ucast (Q9K_GetU8 m2 (desc + Q9K_PROCDESC_PRIORITY_OFF)))
        in Q9K_SetU16 m3 0x13A0 1)"

section \<open>Priority and user ID\<close>

definition Q9K_ProcSPrior :: "memory \<Rightarrow> u16 \<Rightarrow> u16 \<Rightarrow> (u16 + memory) option" where
  "Q9K_ProcSPrior m pid priority =
     (let desc = Q9K_ProcLookup m pid in
      if desc = 0 then Some (Inl Q9K_E_PRCID)
      else do { m' \<leftarrow> Q9K_SchedSetPriority m desc priority; Some (Inr m') })"

definition Q9K_SysSPriorImpl :: "memory \<Rightarrow> memory option" where
  "Q9K_SysSPriorImpl m = do {
     r \<leftarrow> Q9K_ProcSPrior m (Q9K_GetU16 m 0x18A0) (Q9K_GetU16 m 0x18A4);
     Some (case r of Inr m' \<Rightarrow> Q9K_SetU16 m' 0x18AC 1
           | Inl err \<Rightarrow> Q9K_SetU16 (Q9K_SetU16 m 0x18A8 err) 0x18AC 0)
   }"

definition Q9K_SUserReadBE32 :: "memory \<Rightarrow> u32 \<Rightarrow> u32" where
  "Q9K_SUserReadBE32 m addr =
     push_bit 24 (ucast (Q9K_GetU8 m addr)) OR push_bit 16 (ucast (Q9K_GetU8 m (addr + 1))) OR
     push_bit 8 (ucast (Q9K_GetU8 m (addr + 2))) OR ucast (Q9K_GetU8 m (addr + 3))"

definition Q9K_ProcSUser :: "memory \<Rightarrow> u32 \<Rightarrow> u32 \<Rightarrow> u16 + memory" where
  "Q9K_ProcSUser m desc groupUser =
     (if desc = 0 then Inl Q9K_E_PRCID
      else if Q9K_GetU32 m (desc + Q9K_PROCDESC_USER_OFF) \<noteq> 0 then
        let md = Q9K_GetU32 m (desc + Q9K_PROCDESC_MODHDR_OFF) in
        if md = 0 then Inl Q9K_E_PERMIT
        else
          let owner = Q9K_SUserReadBE32 m (md + Q9K_MH_OWNER_OFF) in
          if owner \<noteq> 0 \<and> owner \<noteq> groupUser then Inl Q9K_E_PERMIT
          else Inr (Q9K_SetU32 m (desc + Q9K_PROCDESC_USER_OFF) groupUser)
      else Inr (Q9K_SetU32 m (desc + Q9K_PROCDESC_USER_OFF) groupUser))"

text \<open>The bridges that report through 32-bit cells all end the same way.\<close>

definition report32 :: "memory \<Rightarrow> u32 \<Rightarrow> u32 \<Rightarrow> u16 + memory \<Rightarrow> memory" where
  "report32 m errCell okCell r =
     (case r of Inr m' \<Rightarrow> Q9K_SetU32 m' okCell 1
      | Inl err \<Rightarrow> Q9K_SetU32 (Q9K_SetU32 m errCell (ucast err)) okCell 0)"

definition Q9K_SysSUserImpl :: "memory \<Rightarrow> memory" where
  "Q9K_SysSUserImpl m =
     report32 m 0x18C8 0x18CC (Q9K_ProcSUser m (Q9K_GetU32 m Q9_D_PROC) (Q9K_GetU32 m 0x18C4))"

section \<open>Copying memory and descriptors\<close>

definition Q9K_ProcCpyMem :: "memory \<Rightarrow> u16 \<Rightarrow> u32 \<Rightarrow> u32 \<Rightarrow> u32 \<Rightarrow> u16 + memory" where
  "Q9K_ProcCpyMem m pid count srcAddr dstAddr =
     (if Q9K_ProcLookup m pid = 0 then Inl Q9K_E_PRCID
      else if count = 0 then Inr m
      else if srcAddr = 0 \<or> dstAddr = 0 then Inl Q9K_E_PRCID
      else Inr (copy_bytes (unat count) m dstAddr srcAddr))"

definition Q9K_SysCpyMemImpl :: "memory \<Rightarrow> memory" where
  "Q9K_SysCpyMemImpl m =
     report32 m 0x18E0 0x18E4
       (Q9K_ProcCpyMem m (ucast (Q9K_GetU32 m 0x18D0)) (Q9K_GetU32 m 0x18D4) (Q9K_GetU32 m 0x18D8)
          (Q9K_GetU32 m 0x18DC))"

definition Q9K_ProcGPrDsc :: "memory \<Rightarrow> u16 \<Rightarrow> u32 \<Rightarrow> u32 \<Rightarrow> u16 + memory" where
  "Q9K_ProcGPrDsc m pid count bufAddr =
     (let desc = Q9K_ProcLookup m pid in
      if desc = 0 then Inl Q9K_E_PRCID
      else if bufAddr = 0 then Inl Q9K_E_PRCID
      else
        let count' = (if count > Q9K_PROCDESC_SIZE then Q9K_PROCDESC_SIZE else count)
        in Inr (copy_bytes (unat count') m bufAddr desc))"

definition Q9K_SysGPrDscImpl :: "memory \<Rightarrow> memory" where
  "Q9K_SysGPrDscImpl m =
     report32 m 0x1924 0x1928
       (Q9K_ProcGPrDsc m (ucast (Q9K_GetU32 m 0x1918)) (Q9K_GetU32 m 0x191C) (Q9K_GetU32 m 0x1920))"

section \<open>Entering a process into the active queue\<close>

definition Q9K_ProcAProc :: "memory \<Rightarrow> u32 \<Rightarrow> u16 + memory" where
  "Q9K_ProcAProc m desc =
     (if desc = 0 \<or> Q9K_ProcIdForDesc m desc = 0 then Inl Q9K_E_PRCID
      else if Q9K_GetU32 m (desc + Q9K_PROCDESC_SAVEDSP_OFF) = 0 then Inl Q9K_E_PRCID
      else Inr (Q9K_SchedInsert m desc))"

definition Q9K_SysAProcImpl :: "memory \<Rightarrow> memory" where
  "Q9K_SysAProcImpl m =
     (let desc = Q9K_GetU32 m 0x1940; m0 = Q9K_SetU32 m 0x196C 0 in
      case Q9K_ProcAProc m0 desc of
        Inr m1 \<Rightarrow>
          let current = Q9K_GetU32 m1 Q9_D_PROC;
              m2 = (if current \<noteq> 0 \<and> current \<noteq> desc \<and>
                       Q9K_GetU8 m1 (desc + Q9K_PROCDESC_PRIORITY_OFF) >
                       Q9K_GetU8 m1 (current + Q9K_PROCDESC_PRIORITY_OFF)
                    then Q9K_SetU32 m1 0x196C 1 else m1)
          in Q9K_SetU32 m2 0x1948 1
      | Inl err \<Rightarrow> Q9K_SetU32 (Q9K_SetU32 m0 0x1944 (ucast err)) 0x1948 0)"

section \<open>The descriptor block table\<close>

text \<open>The four byte stores that write a big-endian longword into a caller's buffer.\<close>

definition put_bytes32 :: "memory \<Rightarrow> u32 \<Rightarrow> u32 \<Rightarrow> memory" where
  "put_bytes32 m a v =
     Q9K_SetU8 (Q9K_SetU8 (Q9K_SetU8 (Q9K_SetU8 m a (ucast (drop_bit 24 v AND 0xFF)))
       (a + 1) (ucast (drop_bit 16 v AND 0xFF))) (a + 2) (ucast (drop_bit 8 v AND 0xFF)))
       (a + 3) (ucast (v AND 0xFF))"

function Q9K_ProcGPrDBT_loop ::
  "u32 \<Rightarrow> u32 \<Rightarrow> u32 \<Rightarrow> u32 \<Rightarrow> memory \<Rightarrow> u32 \<Rightarrow> u32 \<Rightarrow> u32 \<times> memory" where
  "Q9K_ProcGPrDBT_loop base count bufAddr maxBytes m i written =
     (if i < count \<and> written + 4 \<le> maxBytes then
        let desc = base + push_bit 10 i;
            entry = (if Q9K_ProcIsAllocated m desc then desc else 0)
        in Q9K_ProcGPrDBT_loop base count bufAddr maxBytes
             (put_bytes32 m (bufAddr + written) entry) (i + 1) (written + 4)
      else (written, m))"
  by pat_completeness auto
termination
  by (relation "measure (\<lambda>(_, count, _, _, _, i, _). unat count - unat i)")
    (simp_all add: unat_countdown)

declare Q9K_ProcGPrDBT_loop.simps [simp del]

definition Q9K_ProcGPrDBT :: "memory \<Rightarrow> u32 \<Rightarrow> u32 \<Rightarrow> u32 \<times> memory" where
  "Q9K_ProcGPrDBT m bufAddr maxBytes =
     (let base = Q9K_GetU32 m Q9K_PROCPOOL_BASE_ADDR;
          count = Q9K_GetU32 m Q9K_PROCPOOL_COUNT_ADDR
      in if bufAddr = 0 \<or> base = 0 then (0, m)
         else Q9K_ProcGPrDBT_loop base count bufAddr maxBytes m 0 0)"

definition Q9K_SysGPrDBTImpl :: "memory \<Rightarrow> memory" where
  "Q9K_SysGPrDBTImpl m =
     (let (written, m') = Q9K_ProcGPrDBT m (Q9K_GetU32 m 0x194C) (Q9K_GetU32 m 0x1950)
      in Q9K_SetU32 m' 0x1950 written)"

section \<open>IDs and descriptors correspond\<close>

definition pool_ok :: "memory \<Rightarrow> bool" where
  "pool_ok m \<longleftrightarrow> Q9K_GetU32 m Q9K_PROCPOOL_BASE_ADDR \<noteq> 0 \<and> unat (Q9K_GetU32 m Q9K_PROCPOOL_COUNT_ADDR) \<le> 0xFFFF \<and>
     unat (Q9K_GetU32 m Q9K_PROCPOOL_BASE_ADDR) + unat (Q9K_GetU32 m Q9K_PROCPOOL_COUNT_ADDR) * 0x400 \<le> 2 ^ 32"

lemma unat_push10: "unat x * 0x400 < 2 ^ 32 \<Longrightarrow> unat (push_bit 10 x) = unat x * 0x400" for x :: u32
  using unat_mult_lem [of x "0x400"] by (simp add: push_bit_eq_mult)

lemma mask10: "(0x3FF :: u32) = mask 10"
  by (simp add: mask_eq_exp_minus_1)

lemma push10_aligned: "push_bit 10 x AND 0x3FF = 0" for x :: u32
  unfolding mask10 by (rule bit_word_eqI) (auto simp: bit_simps)

lemma aligned_push10:
  fixes x :: u32 assumes "x AND 0x3FF = 0" shows "push_bit 10 (drop_bit 10 x) = x"
proof (rule bit_word_eqI)
  fix n assume "n < LENGTH(32)"
  moreover have "bit (x AND mask 10) n = False" using assms unfolding mask10 by simp
  ultimately show "bit (push_bit 10 (drop_bit 10 x)) n = bit x n" by (auto simp: bit_simps)
qed

lemma drop_push10: "unat x * 0x400 < 2 ^ 32 \<Longrightarrow> drop_bit 10 (push_bit 10 x) = x" for x :: u32
  by (simp add: word_unat_eq_iff drop_bit_eq_div unat_div unat_push10)

lemma ucast16_eq: "unat x \<le> 0xFFFF \<Longrightarrow> ucast (ucast x :: u16) = x" for x :: u32
  by (simp add: word_unat_eq_iff unsigned_ucast_eq unsigned_take_bit_eq take_bit_nat_eq_self)

lemma lookup_id:
  assumes ok: "pool_ok m" and d: "Q9K_ProcLookup m pid = d" "d \<noteq> 0"
  shows "Q9K_ProcIdForDesc m d = pid"
proof -
  let ?b = "Q9K_GetU32 m Q9K_PROCPOOL_BASE_ADDR" and ?c = "Q9K_GetU32 m Q9K_PROCPOOL_COUNT_ADDR"
  define p :: u32 where "p = ucast pid - 1"
  have nz: "pid \<noteq> 0" "ucast pid \<le> ?c" "?b \<noteq> 0" "d = ?b + push_bit 10 p" "Q9K_ProcIsAllocated m d"
    using d by (auto simp: Q9K_ProcLookup_def Let_def p_def split: if_splits)
  have up: "unat p + 1 = unat pid"
  proof -
    have "unat pid \<noteq> 0" using nz(1) by (simp add: unat_eq_0)
    then have "(ucast pid :: u32) \<noteq> 0" using unat_ucast_up(1) [of pid] by (metis unat_0)
    then show ?thesis using \<open>unat pid \<noteq> 0\<close> by (simp add: p_def unat_minus_one)
  qed
  have le: "unat p < unat ?c" using nz(2) up by (simp add: word_le_nat_alt)
  have lt: "unat ?b + unat p * 0x400 < 2 ^ 32" using ok le unfolding pool_ok_def by linarith
  have u: "unat (push_bit 10 p) = unat p * 0x400" using lt by (intro unat_push10) simp
  have "unat d = unat ?b + unat p * 0x400" using lt u unat_offset [of ?b "push_bit 10 p"] nz(4) by simp
  then have "\<not> d < ?b" by (simp add: word_less_nat_alt)
  moreover have "?c \<noteq> 0" "\<not> p \<ge> ?c" using le by (auto simp: word_le_nat_alt)
  moreover have "d - ?b = push_bit 10 p" using nz(4) by simp
  moreover have "drop_bit 10 (push_bit 10 p) = p" using lt by (intro drop_push10) simp
  moreover have "ucast (p + 1) = pid"
    by (simp add: p_def) (rule bit_word_eqI, simp add: bit_simps)
  ultimately show ?thesis using nz by (simp add: Q9K_ProcIdForDesc_def Let_def push10_aligned)
qed

lemma id_lookup:
  assumes ok: "pool_ok m" and p: "Q9K_ProcIdForDesc m d = pid" "pid \<noteq> 0"
  shows "Q9K_ProcLookup m pid = d"
proof -
  let ?b = "Q9K_GetU32 m Q9K_PROCPOOL_BASE_ADDR" and ?c = "Q9K_GetU32 m Q9K_PROCPOOL_COUNT_ADDR"
  define k where "k = drop_bit 10 (d - ?b)"
  have nz: "?b \<noteq> 0" "k < ?c" "(d - ?b) AND 0x3FF = 0" "Q9K_ProcIsAllocated m d" "pid = ucast (k + 1)"
    using p by (auto simp: Q9K_ProcIdForDesc_def Let_def k_def split: if_splits)
  have "unat (k + 1) \<le> 0xFFFF" "k + 1 \<le> ?c" using unat_step [OF nz(2)] nz(2) ok
    by (auto simp: pool_ok_def word_less_nat_alt word_le_nat_alt)
  then have e: "ucast pid = k + 1" using nz(5) ucast16_eq by simp
  have "push_bit 10 k = d - ?b" unfolding k_def using nz(3) by (rule aligned_push10)
  then show ?thesis using nz p(2) e leD [OF \<open>k + 1 \<le> ?c\<close>] by (simp add: Q9K_ProcLookup_def Let_def)
qed

lemma lookup_desc:
  assumes "pool_ok m" "Q9K_ProcLookup m pid \<noteq> 0"
  shows "Q9K_ProcIsAllocated m (Q9K_ProcLookup m pid)"
  using assms by (auto simp: Q9K_ProcLookup_def Let_def split: if_splits)

section \<open>Copies\<close>

lemma put_bytes32_eq: "put_bytes32 m a v = Q9K_SetU32 m a v"
  by (simp add: put_bytes32_def ucast_and_FF bytes_SetU32)

lemma SUserReadBE32_eq: "Q9K_SUserReadBE32 m a = Q9K_GetU32 m a"
  by (simp only: Q9K_SUserReadBE32_def bytes_GetU32)

text \<open>F$GPrDsc copies at most one descriptor and never changes a byte outside the first 1024
  bytes of the buffer.\<close>

lemma GPrDsc_copies:
  assumes d: "Q9K_ProcLookup m pid = d" "d \<noteq> 0" and b: "buf \<noteq> 0" and n: "n = min count 0x400" and a: "apart buf n d n"
  obtains m' where "Q9K_ProcGPrDsc m pid count buf = Inr m'" "\<forall>i<n. m' (buf + i) = m (d + i)"
    "\<forall>x. (\<forall>i<n. x \<noteq> buf + i) \<longrightarrow> m' x = m x"
proof
  have "(if count > 0x400 then 0x400 else count) = n" using n by (auto simp: min_def dest: leD)
  then show "Q9K_ProcGPrDsc m pid count buf = Inr (copy_bytes (unat n) m buf d)"
    using d b by (simp add: Q9K_ProcGPrDsc_def Let_def)
qed (use copy_bytes_word [OF a] in blast)+

text \<open>The descriptor block table: the loop writes the entries \<open>i\<close> to \<open>n\<close>, where \<open>n\<close> is the number of
  whole entries that the pool has and the buffer takes.\<close>

abbreviation dbt_entry :: "u32 \<Rightarrow> memory \<Rightarrow> nat \<Rightarrow> u32" where
  "dbt_entry base m k \<equiv> (let d = base + push_bit 10 (of_nat k) in if Q9K_ProcIsAllocated m d then d else 0)"

abbreviation dbt_put :: "u32 \<Rightarrow> u32 \<Rightarrow> nat \<Rightarrow> memory \<Rightarrow> memory" where
  "dbt_put base buf k m \<equiv> Q9K_SetU32 m (buf + 4 * of_nat k) (dbt_entry base m k)"

lemma GPrDBT_loop:
  assumes "unat i \<le> unat count" "w = 4 * i" "unat count \<le> 0xFFFF" "4 * unat i \<le> unat maxB"
    "n = min (unat count) (unat maxB div 4)"
  shows "Q9K_ProcGPrDBT_loop base count buf maxB m i w = (4 * of_nat n, fold (dbt_put base buf) [unat i..<n] m)"
  using assms
proof (induction base count buf maxB m i w rule: Q9K_ProcGPrDBT_loop.induct)
  case (1 base count buf maxB m i w)
  have "unat (4 * i) = 4 * unat i" using 1(2,4) unat_mult_lem [of 4 i] by simp
  then have w4: "unat (w + 4) = 4 * unat i + 4" using 1(2-4) unat_offset [of w 4] by simp
  show ?case
  proof (cases "i < count \<and> w + 4 \<le> maxB")
    case True
    then have s: "unat (i + 1) = unat i + 1" using unat_step by blast
    moreover have l: "unat i < unat count" "4 * unat i + 4 \<le> unat maxB"
      using True w4 by (simp_all add: word_less_nat_alt word_le_nat_alt)
    moreover have "[unat i..<n] = unat i # [Suc (unat i)..<n]" using l 1(6) by (intro upt_conv_Cons) auto
    ultimately show ?thesis using 1 True
      by (subst Q9K_ProcGPrDBT_loop.simps) (simp add: Let_def put_bytes32_eq algebra_simps)
  next
    case False
    then have "unat count \<le> unat i \<or> unat maxB < 4 * unat i + 4" using w4 by (auto simp: word_less_nat_alt word_le_nat_alt)
    then have "unat i = n" using 1 by auto
    then show ?thesis using False 1(3) Q9K_ProcGPrDBT_loop.simps [of base count buf maxB m i w] by auto
  qed
qed

lemma dbt_slots_apart:
  assumes "j < k" "k < 0x10000" shows "apart (buf + 4 * of_nat j) 4 (buf + 4 * of_nat k) 4"
proof -
  define x y :: u32 where "x = 4 * of_nat j" and "y = 4 * of_nat k"
  have u: "unat x = 4 * j" "unat y = 4 * k"
    using assms unat_of_nat_u32 [of "4 * j"] unat_of_nat_u32 [of "4 * k"] by (simp_all add: x_def y_def)
  have "x + a \<noteq> y + b" if "a < 4" "b < 4" for a b
  proof -
    have "unat a < 4" "unat b < 4" using that by (simp_all add: word_less_nat_alt)
    then have "unat (x + a) = 4 * j + unat a" "unat (y + b) = 4 * k + unat b"
      using unat_offset [of x a] unat_offset [of y b] u assms by simp_all
    then show ?thesis using \<open>unat a < 4\<close> assms by auto
  qed
  then show ?thesis unfolding x_def [symmetric] y_def [symmetric] by (simp add: apart_def add.assoc)
qed

lemma dbt_fold:
  assumes "n \<le> 0x10000" "\<And>j k. j < n \<Longrightarrow> k < N \<Longrightarrow> apart (buf + 4 * of_nat j) 4 (base + push_bit 10 (of_nat k) + 0x1D) 1"
  shows "k < N \<Longrightarrow> dbt_entry base (fold (dbt_put base buf) [0..<n] m) k = dbt_entry base m k"
    and "n \<le> N \<Longrightarrow> k < n \<Longrightarrow> Q9K_GetU32 (fold (dbt_put base buf) [0..<n] m) (buf + 4 * of_nat k) = dbt_entry base m k"
  using assms
proof (induction n arbitrary: k)
  case (Suc n)
  let ?m = "fold (dbt_put base buf) [0..<n] m"
  { case 1
    then show ?case using Suc.IH(1) [of k] by (simp add: Q9K_ProcIsAllocated_def Let_def)
  next
    case 2
    show ?case
    proof (cases "k = n")
      case True then show ?thesis using Suc.IH(1) [of n] 2 by simp
    next
      case False
      have "apart (buf + 4 * of_nat n) 4 (buf + 4 * of_nat k) 4" using False 2 by (intro apart_sym [OF dbt_slots_apart]) auto
      then show ?thesis using Suc.IH(2) [of k] 2 False by simp
    qed }
qed simp_all

section \<open>Properties\<close>

text \<open>Process IDs and allocated descriptors of the pool correspond one to one: looking up an
  ID gives a descriptor exactly when that descriptor has this ID, and only allocated descriptors are
  ever returned.\<close>

theorem pid_desc_roundtrip:
  assumes "pool_ok m" "pid \<noteq> 0" "d \<noteq> 0"
  shows "(Q9K_ProcLookup m pid = d \<longleftrightarrow> Q9K_ProcIdForDesc m d = pid) \<and>
    (Q9K_ProcLookup m pid = d \<longrightarrow> Q9K_ProcIsAllocated m d)"
  using lookup_id [OF assms(1) _ assms(3)] id_lookup [OF assms(1) _ assms(2)] lookup_desc [OF assms(1)] assms(3)
  by blast

lemma pid_desc_roundtrip_witness:
  "Q9K_ProcLookup ex_mem 2 = ex_sleeper \<and> Q9K_ProcIdForDesc ex_mem ex_sleeper = 2"
proof -
  have "pool_ok ex_mem" by (simp add: pool_ok_def)
  moreover have "Q9K_ProcLookup ex_mem 2 = ex_sleeper"
    by (simp add: Q9K_ProcLookup_def Q9K_ProcIsAllocated_def push_bit_eq_mult Let_def)
  ultimately show ?thesis using pid_desc_roundtrip [of ex_mem 2 ex_sleeper] by simp
qed

text \<open>F$GPrDBT stores exactly as many whole entries as the pool has and the buffer takes, reports
  their size in bytes, and entry \<open>k\<close> is the address of descriptor \<open>k\<close>, or 0 when that descriptor is
  free.\<close>

theorem gprdbt_spec:
  assumes "Q9K_GetU32 m Q9K_PROCPOOL_BASE_ADDR = base" "base \<noteq> 0" "buf \<noteq> 0"
    and "Q9K_GetU32 m Q9K_PROCPOOL_COUNT_ADDR = count" "unat count \<le> 0xFFFF"
    and "n = min (unat count) (unat maxBytes div 4)"
    and "\<And>j k. j < n \<Longrightarrow> k < n \<Longrightarrow> apart (buf + 4 * of_nat j) 4 (base + push_bit 10 (of_nat k) + Q9K_PROCDESC_STATE_OFF) 1"
  shows "\<exists>m'. Q9K_ProcGPrDBT m buf maxBytes = (4 * of_nat n, m') \<and>
    (\<forall>k<n. Q9K_GetU32 m' (buf + 4 * of_nat k) =
       (let d = base + push_bit 10 (of_nat k) in if Q9K_ProcIsAllocated m d then d else 0))"
  using assms GPrDBT_loop [of 0 count 0 maxBytes n base buf m] dbt_fold(2) [of n n buf base _ m]
  by (simp add: Q9K_ProcGPrDBT_def)

lemma gprdbt_spec_witness:
  "\<exists>m'. Q9K_ProcGPrDBT ex_mem 0x20000 11 = (8, m') \<and> Q9K_GetU32 m' 0x20004 = ex_sleeper"
proof -
  have n: "k < 2 \<longleftrightarrow> k = 0 \<or> k = 1" for k :: nat by auto
  have "\<exists>m'. Q9K_ProcGPrDBT ex_mem 0x20000 11 = (4 * of_nat 2, m') \<and>
    (\<forall>k<2. Q9K_GetU32 m' (0x20000 + 4 * of_nat k) =
       (let d = ex_ready + push_bit 10 (of_nat k) in if Q9K_ProcIsAllocated ex_mem d then d else 0))"
    by (rule gprdbt_spec [where count = 3]) (auto simp: n push_bit_eq_mult)
  then obtain m' where m': "Q9K_ProcGPrDBT ex_mem 0x20000 11 = (4 * of_nat 2, m')"
     "\<forall>k<2. Q9K_GetU32 m' (0x20000 + 4 * of_nat k) =
       (let d = ex_ready + push_bit 10 (of_nat k) in if Q9K_ProcIsAllocated ex_mem d then d else 0)" by blast
  show ?thesis using m'(1) m'(2) [rule_format, of 1] by (simp add: Q9K_ProcIsAllocated_def Let_def push_bit_eq_mult)
qed

text \<open>F$GPrDsc copies the first \<open>min count 1024\<close> bytes of the descriptor into the caller's buffer
  and changes no other byte of the memory, whatever count the caller passes.\<close>

theorem gprdsc_bounded:
  assumes "Q9K_ProcLookup m pid = d" "d \<noteq> 0" "buf \<noteq> 0" "n = min count 0x400" "apart buf n d n"
  shows "\<exists>m'. Q9K_ProcGPrDsc m pid count buf = Inr m' \<and> (\<forall>i<n. m' (buf + i) = m (d + i)) \<and>
    (\<forall>x. (\<forall>i<n. x \<noteq> buf + i) \<longrightarrow> m' x = m x)"
  by (rule GPrDsc_copies [OF assms]) blast

lemma gprdsc_bounded_witness:
  "\<exists>m'. Q9K_ProcGPrDsc ex_mem 2 0xFFFFFFFF 0x20000 = Inr m' \<and> Q9K_GetU8 m' 0x2001D = Q9K_PROCDESC_STATE_SLEEPING"
proof -
  have l: "Q9K_ProcLookup ex_mem 2 = ex_sleeper"
    by (simp add: Q9K_ProcLookup_def Q9K_ProcIsAllocated_def push_bit_eq_mult Let_def)
  have n: "(0x400 :: u32) = min 0xFFFFFFFF 0x400" by simp
  obtain m' where m': "Q9K_ProcGPrDsc ex_mem 2 0xFFFFFFFF 0x20000 = Inr m'" "\<forall>i<0x400. m' (0x20000 + i) = ex_mem (ex_sleeper + i)"
    using gprdsc_bounded [OF l _ _ n, of "0x20000"] by auto
  have "m' 0x2001D = ex_mem 0x1041D" using m'(2) [rule_format, of "0x1D"] by simp
  then show ?thesis using m'(1) ex_reads(5) by (simp add: Q9K_GetU8_def)
qed

end
