(* ===== verification/Q9_Icpt.thy ===== *)
theory Q9_Icpt
  imports Q9_ProcApi
begin

text \<open>
  Signal intercept frames of \<^verbatim>\<open>q9kernel_icpt.c\<close>: delivering a signal stacks a second process frame
  below the saved one, F$RTE takes it off again, F$SigReset forgets it.  A frame is 60 bytes of
  registers (d0-d7, a0-a6) followed by an 8-byte exception frame (SR, PC, format/vector); the
  register accessors are those of \<^verbatim>\<open>q9kernel_firstproc.c\<close>.
\<close>

abbreviation Q9K_PROCDESC_REGSAVE_SIZE :: u32 where "Q9K_PROCDESC_REGSAVE_SIZE \<equiv> 60"
abbreviation Q9K_EXCFRAME_SR_OFF :: u32 where "Q9K_EXCFRAME_SR_OFF \<equiv> 0"
abbreviation Q9K_EXCFRAME_PC_OFF :: u32 where "Q9K_EXCFRAME_PC_OFF \<equiv> 2"
abbreviation Q9K_EXCFRAME_FMTVEC_OFF :: u32 where "Q9K_EXCFRAME_FMTVEC_OFF \<equiv> 6"
abbreviation Q9K_FAKEFRAME_SIZE :: u32 where "Q9K_FAKEFRAME_SIZE \<equiv> 68"
abbreviation Q9K_INITIAL_SR :: u16 where "Q9K_INITIAL_SR \<equiv> 0x2000"
abbreviation Q9K_FRAMEREG_D1 :: u32 where "Q9K_FRAMEREG_D1 \<equiv> 1"
abbreviation Q9K_FRAMEREG_A6 :: u32 where "Q9K_FRAMEREG_A6 \<equiv> 14"

section \<open>Frame registers\<close>

definition Q9K_SetFrameReg :: "memory \<Rightarrow> u32 \<Rightarrow> u32 \<Rightarrow> u32 \<Rightarrow> memory" where
  "Q9K_SetFrameReg m frameBase regIndex value =
     (let addr = frameBase + regIndex * 4;
          m1 = Q9K_SetU8 m addr (ucast (drop_bit 24 value));
          m2 = Q9K_SetU8 m1 (addr + 1) (ucast (drop_bit 16 value));
          m3 = Q9K_SetU8 m2 (addr + 2) (ucast (drop_bit 8 value))
      in Q9K_SetU8 m3 (addr + 3) (ucast value))"

definition Q9K_GetFrameReg :: "memory \<Rightarrow> u32 \<Rightarrow> u32 \<Rightarrow> u32" where
  "Q9K_GetFrameReg m frameBase regIndex =
     (let addr = frameBase + regIndex * 4
      in push_bit 24 (ucast (Q9K_GetU8 m addr)) OR push_bit 16 (ucast (Q9K_GetU8 m (addr + 1))) OR
         push_bit 8 (ucast (Q9K_GetU8 m (addr + 2))) OR ucast (Q9K_GetU8 m (addr + 3)))"

section \<open>Deliver, pop, reset\<close>

definition frame_copy_regs :: "memory \<Rightarrow> u32 \<Rightarrow> u32 \<Rightarrow> memory" where
  "frame_copy_regs m newFrame oldFrame =
     fold (\<lambda>i m. Q9K_SetFrameReg m newFrame i (Q9K_GetFrameReg m oldFrame i))
       [0, 1, 2, 3, 4, 5, 6, 7, 8, 9, 10, 11, 12, 13, 14] m"

definition Q9K_IcptDeliver :: "memory \<Rightarrow> u32 \<Rightarrow> u16 \<Rightarrow> bool \<times> memory" where
  "Q9K_IcptDeliver m desc signal =
     (if desc = 0 then (False, m)
      else
        let vector = Q9K_GetU32 m (desc + Q9K_PROCDESC_SIGVEC_OFF) in
        if vector = 0 then (False, m)
        else
          let oldFrame = Q9K_GetU32 m (desc + Q9K_PROCDESC_SAVEDSP_OFF) in
          if oldFrame = 0 then (False, m)
          else
            let newFrame = oldFrame - Q9K_FAKEFRAME_SIZE;
                m1 = frame_copy_regs m newFrame oldFrame;
                m2 = Q9K_SetFrameReg m1 newFrame Q9K_FRAMEREG_D1 (ucast signal);
                m3 = Q9K_SetFrameReg m2 newFrame Q9K_FRAMEREG_A6
                       (Q9K_GetU32 m2 (desc + Q9K_PROCDESC_SIGDAT_OFF));
                m4 = Q9K_SetU16 m3 (newFrame + Q9K_PROCDESC_REGSAVE_SIZE + Q9K_EXCFRAME_SR_OFF) Q9K_INITIAL_SR;
                m5 = Q9K_SetU32 m4 (newFrame + Q9K_PROCDESC_REGSAVE_SIZE + Q9K_EXCFRAME_PC_OFF) vector;
                m6 = Q9K_SetU16 m5 (newFrame + Q9K_PROCDESC_REGSAVE_SIZE + Q9K_EXCFRAME_FMTVEC_OFF) 0;
                m7 = Q9K_SetU32 m6 (desc + Q9K_PROCDESC_SAVEDSP_OFF) newFrame;
                m8 = Q9K_SetU32 m7 (desc + Q9K_PROCDESC_ICPTDEPTH_OFF)
                       (Q9K_GetU32 m7 (desc + Q9K_PROCDESC_ICPTDEPTH_OFF) + 1)
            in (True, Q9K_SetU16 m8 (desc + Q9K_PROCDESC_SIGNAL_OFF) 0))"

definition Q9K_IcptPop :: "memory \<Rightarrow> u32 \<Rightarrow> u16 + memory" where
  "Q9K_IcptPop m desc =
     (if desc = 0 then Inl Q9K_E_BPADDR
      else
        let depth = Q9K_GetU32 m (desc + Q9K_PROCDESC_ICPTDEPTH_OFF) in
        if depth = 0 then Inl Q9K_E_BPADDR
        else
          let frame = Q9K_GetU32 m (desc + Q9K_PROCDESC_SAVEDSP_OFF) + Q9K_FAKEFRAME_SIZE;
              m1 = Q9K_SetU32 m (desc + Q9K_PROCDESC_SAVEDSP_OFF) frame
          in Inr (Q9K_SetU32 m1 (desc + Q9K_PROCDESC_ICPTDEPTH_OFF) (depth - 1)))"

definition Q9K_IcptReturn :: "memory \<Rightarrow> u32 \<Rightarrow> u16 + memory" where
  "Q9K_IcptReturn m desc =
     (case Q9K_IcptPop m desc of
        Inl err \<Rightarrow> Inl err
      | Inr m1 \<Rightarrow>
          let pending = Q9K_GetU16 m1 (desc + Q9K_PROCDESC_SIGNAL_OFF)
          in Inr (if pending \<noteq> 0 then snd (Q9K_IcptDeliver m1 desc pending) else m1))"

definition Q9K_IcptReset :: "memory \<Rightarrow> u32 \<Rightarrow> memory" where
  "Q9K_IcptReset m desc =
     (if desc = 0 then m else Q9K_SetU32 m (desc + Q9K_PROCDESC_ICPTDEPTH_OFF) 0)"

section \<open>Bridges\<close>

definition Q9K_SysRTEImpl :: "memory \<Rightarrow> memory" where
  "Q9K_SysRTEImpl m =
     (let desc = Q9K_GetU32 m Q9_D_PROC; m0 = Q9K_SetU32 m 0x1BD0 0 in
      case Q9K_IcptPop m0 desc of
        Inl err \<Rightarrow> Q9K_SetU32 m0 0x1BD4 (ucast err)
      | Inr m1 \<Rightarrow>
          let m2 = Q9K_SetU32 m1 0x1BD8 (Q9K_GetU32 m1 (desc + Q9K_PROCDESC_ICPTDEPTH_OFF))
          in Q9K_SetU32 m2 0x1BD0 1)"

definition Q9K_SysRTERedeliverImpl :: "memory \<Rightarrow> memory" where
  "Q9K_SysRTERedeliverImpl m =
     (let desc = Q9K_GetU32 m Q9_D_PROC;
          pending = Q9K_GetU16 m (desc + Q9K_PROCDESC_SIGNAL_OFF)
      in if pending \<noteq> 0 then snd (Q9K_IcptDeliver m desc pending) else m)"

definition Q9K_SysSigResetImpl :: "memory \<Rightarrow> memory" where
  "Q9K_SysSigResetImpl m =
     (let m1 = Q9K_IcptReset m (Q9K_GetU32 m Q9_D_PROC);
          m2 = Q9K_SetU32 m1 0x1BD8 0
      in Q9K_SetU32 m2 0x1BD0 1)"

section \<open>Frames\<close>

lemma SetFrameReg_eq: "Q9K_SetFrameReg m f i v = Q9K_SetU32 m (f + i * 4) v"
  unfolding Q9K_SetFrameReg_def Let_def by (rule bytes_SetU32)

lemma GetFrameReg_eq: "Q9K_GetFrameReg m f i = Q9K_GetU32 m (f + i * 4)"
  unfolding Q9K_GetFrameReg_def Let_def by (rule bytes_GetU32)

text \<open>\<open>within a n m m'\<close>: from \<open>m\<close> to \<open>m'\<close> only the \<open>n\<close> bytes at \<open>a\<close> may have changed.\<close>

definition within :: "u32 \<Rightarrow> u32 \<Rightarrow> memory \<Rightarrow> memory \<Rightarrow> bool" where
  "within a n m m' \<longleftrightarrow> (\<forall>b. (\<forall>i<n. b \<noteq> a + i) \<longrightarrow> m' b = m b)"

lemma within_trans: "within a n m m1 \<Longrightarrow> within a n m1 m2 \<Longrightarrow> within a n m m2"
  by (simp add: within_def)

lemma within_refl [simp]: "within a n m m"
  by (simp add: within_def)

lemma within_put:
  "j + 4 \<le> n \<Longrightarrow> j \<le> j + 4 \<Longrightarrow> within a n m m' \<Longrightarrow> within a n m (Q9K_SetU32 m' (a + j) v32)"
  "j + 2 \<le> n \<Longrightarrow> j \<le> j + 2 \<Longrightarrow> within a n m m' \<Longrightarrow> within a n m (Q9K_SetU16 m' (a + j) v16)"
proof -
  have 1: "within a n m (Q9K_SetU32 m' (a + j) v32)" if "j + 4 \<le> n" "j \<le> j + 4" "within a n m m'"
    unfolding within_def
  proof (intro allI impI)
    fix b assume b: "\<forall>i<n. b \<noteq> a + i"
    then have "b \<noteq> a + j + i" if "i < 4" for i
      using word_offset_less [OF that \<open>j + 4 \<le> n\<close> \<open>j \<le> j + 4\<close>] by (metis add.assoc)
    then show "Q9K_SetU32 m' (a + j) v32 b = m b"
      using c32.put_local [of b "a + j"] that(3) b by (simp add: within_def)
  qed
  have 2: "within a n m (Q9K_SetU16 m' (a + j) v16)" if "j + 2 \<le> n" "j \<le> j + 2" "within a n m m'"
    unfolding within_def
  proof (intro allI impI)
    fix b assume b: "\<forall>i<n. b \<noteq> a + i"
    then have "b \<noteq> a + j + i" if "i < 2" for i
      using word_offset_less [OF that \<open>j + 2 \<le> n\<close> \<open>j \<le> j + 2\<close>] by (metis add.assoc)
    then show "Q9K_SetU16 m' (a + j) v16 b = m b"
      using c16.put_local [of b "a + j"] that(3) b by (simp add: within_def)
  qed
  show "j + 4 \<le> n \<Longrightarrow> j \<le> j + 4 \<Longrightarrow> within a n m m' \<Longrightarrow> within a n m (Q9K_SetU32 m' (a + j) v32)"
    "j + 2 \<le> n \<Longrightarrow> j \<le> j + 2 \<Longrightarrow> within a n m m' \<Longrightarrow> within a n m (Q9K_SetU16 m' (a + j) v16)"
    using 1 2 by blast+
qed

lemma within_get:
  assumes "within a n m m'"
  shows "apart a n b 1 \<Longrightarrow> Q9K_GetU8 m' b = Q9K_GetU8 m b"
    and "apart a n b 2 \<Longrightarrow> Q9K_GetU16 m' b = Q9K_GetU16 m b"
    and "apart a n b 4 \<Longrightarrow> Q9K_GetU32 m' b = Q9K_GetU32 m b"
proof -
  have *: "m' (b + j) = m (b + j)" if "apart a n b k" "j < k" for j k
    using assms that unfolding within_def apart_def by metis
  show "apart a n b 1 \<Longrightarrow> Q9K_GetU8 m' b = Q9K_GetU8 m b" by (rule c8.get_local) (rule *)
  show "apart a n b 2 \<Longrightarrow> Q9K_GetU16 m' b = Q9K_GetU16 m b" by (rule c16.get_local) (rule *)
  show "apart a n b 4 \<Longrightarrow> Q9K_GetU32 m' b = Q9K_GetU32 m b" by (rule c32.get_local) (rule *)
qed

text \<open>The frame the intercept routine starts from, built below the frame at \<open>f\<close>: everything it
  writes lies in the 68 bytes below \<open>f\<close>.\<close>

definition icpt_frame :: "memory \<Rightarrow> u32 \<Rightarrow> u16 \<Rightarrow> u32 \<Rightarrow> u32 \<Rightarrow> memory" where
  "icpt_frame m f signal dat vector =
     Q9K_SetU16 (Q9K_SetU32 (Q9K_SetU16 (Q9K_SetU32 (Q9K_SetU32 (frame_copy_regs m (f - 68) f)
       (f - 68 + 4) (ucast signal)) (f - 68 + 56) dat) (f - 68 + 60) Q9K_INITIAL_SR)
       (f - 68 + 62) vector) (f - 68 + 66) 0"

abbreviation reg_indices :: "u32 list" where
  "reg_indices \<equiv> [0, 1, 2, 3, 4, 5, 6, 7, 8, 9, 10, 11, 12, 13, 14]"

definition reg_set :: "u32 set" where
  "reg_set = set reg_indices"

lemma copy_regs_within:
  assumes "set is \<subseteq> reg_set"
  shows "within nf 68 m (fold (\<lambda>i m. Q9K_SetFrameReg m nf i (Q9K_GetFrameReg m f i)) is m)"
  using assms
proof (induction "is" arbitrary: m)
  case (Cons i "is")
  have "within nf 68 m (Q9K_SetU32 m (nf + i * 4) v)" for v
    by (rule within_put(1)) (use Cons.prems in \<open>auto simp: reg_set_def\<close>)
  then show ?case using Cons within_trans by (simp add: SetFrameReg_eq) blast
qed simp

lemma icpt_frame_within: "within (f - 68) 68 m (icpt_frame m f signal dat vector)"
  unfolding icpt_frame_def frame_copy_regs_def
  by (intro within_put copy_regs_within) (simp_all add: reg_set_def)

lemma reg_set_le: "i \<in> reg_set \<Longrightarrow> unat i \<le> 14"
  by (auto simp: reg_set_def)

lemma unat_reg: "unat i \<le> 14 \<Longrightarrow> unat x < 4 \<Longrightarrow> unat (i * 4 + x) = unat i * 4 + unat x" for i x :: u32
  using unat_mult_lem [of i 4] unat_offset [of "i * 4" x] by simp

lemma regs_apart:
  assumes "i \<in> reg_set" "j \<in> reg_set"
  shows "i \<noteq> j \<Longrightarrow> apart (nf + i * 4) 4 (nf + j * 4) 4" "apart (f - 68 + i * 4) 4 (f + j * 4) 4"
proof -
  have u: "unat (k * 4 + x) = unat k * 4 + unat x" if "k = i \<or> k = j" "x < 4" for k x
    using that assms reg_set_le by (intro unat_reg) (auto simp: word_less_nat_alt)
  have "i = j" if e: "nf + i * 4 + x = nf + j * 4 + y" "x < 4" "y < 4" for x y
  proof -
    have "unat (i * 4 + x) = unat (j * 4 + y)" using e(1) by (simp add: add.assoc)
    then have "unat i * 4 + unat x = unat j * 4 + unat y" using u [of i x] u [of j y] e by simp
    moreover have "unat x < 4" "unat y < 4" using e by (simp_all add: word_less_nat_alt)
    ultimately show "i = j" by (simp add: word_unat_eq_iff)
  qed
  then show "i \<noteq> j \<Longrightarrow> apart (nf + i * 4) 4 (nf + j * 4) 4" by (auto simp: apart_def)
  have False if e: "f - 68 + i * 4 + x = f + j * 4 + y" "x < 4" "y < 4" for x y
  proof -
    have "i * 4 + x = (j * 4 + y) + 68" using e(1) by (simp add: algebra_simps)
    moreover have "unat ((j * 4 + y) + 68) = unat j * 4 + unat y + 68"
      using u [of j y] e unat_offset [of "j * 4 + y" 68] reg_set_le [OF assms(2)] by (simp add: word_less_nat_alt)
    ultimately show False using u [of i x] e reg_set_le [OF assms(1)] by (simp add: word_less_nat_alt)
  qed
  then show "apart (f - 68 + i * 4) 4 (f + j * 4) 4" by (auto simp: apart_def)
qed
lemma reg_exc_apart:
  assumes "j \<in> reg_set"
  shows "j \<noteq> 1 \<Longrightarrow> apart (f - 64) 4 (f - 68 + j * 4) 4" "j \<noteq> 14 \<Longrightarrow> apart (f - 12) 4 (f - 68 + j * 4) 4"
    "apart (f - 8) 2 (f - 68 + j * 4) 4" "apart (f - 6) 4 (f - 68 + j * 4) 4" "apart (f - 2) 2 (f - 68 + j * 4) 4"
  using assms by (auto simp: reg_set_def)

lemma copy_regs_read:
  assumes "set is \<subseteq> reg_set" "j \<in> reg_set"
  shows "Q9K_GetFrameReg (fold (\<lambda>i m. Q9K_SetFrameReg m (f - 68) i (Q9K_GetFrameReg m f i)) is m) (f - 68) j =
    (if j \<in> set is then Q9K_GetFrameReg m f j else Q9K_GetFrameReg m (f - 68) j)"
  using assms(1)
proof (induction "is" arbitrary: m)
  case (Cons i "is")
  let ?m = "Q9K_SetFrameReg m (f - 68) i (Q9K_GetFrameReg m f i)"
  have i: "i \<in> reg_set" using Cons.prems by simp
  have "Q9K_GetFrameReg ?m f j = Q9K_GetFrameReg m f j"
    using regs_apart(2) [OF i assms(2)] by (simp add: SetFrameReg_eq GetFrameReg_eq)
  moreover have "Q9K_GetFrameReg ?m (f - 68) j = (if j = i then Q9K_GetFrameReg m f i else Q9K_GetFrameReg m (f - 68) j)"
    using regs_apart(1) [OF i assms(2)] by (simp add: SetFrameReg_eq GetFrameReg_eq)
  ultimately show ?case using Cons.IH [of ?m] Cons.prems by (cases "j = i") auto
qed simp

text \<open>The frame holds what the routine is documented to find: the signal in d1, the data pointer in
  a6, the other registers as the main program had them, and the vector as program counter.\<close>

lemma icpt_frame_contents:
  "j \<in> reg_set \<Longrightarrow> j \<noteq> 1 \<Longrightarrow> j \<noteq> 14 \<Longrightarrow>
     Q9K_GetFrameReg (icpt_frame m f signal dat vector) (f - 68) j = Q9K_GetFrameReg m f j"
  "Q9K_GetFrameReg (icpt_frame m f signal dat vector) (f - 68) Q9K_FRAMEREG_D1 = ucast signal"
  "Q9K_GetFrameReg (icpt_frame m f signal dat vector) (f - 68) Q9K_FRAMEREG_A6 = dat"
  "Q9K_GetU32 (icpt_frame m f signal dat vector) (f - 68 + 62) = vector"
proof -
  assume j: "j \<in> reg_set" "j \<noteq> 1" "j \<noteq> 14"
  have "Q9K_GetFrameReg (icpt_frame m f signal dat vector) (f - 68) j =
      Q9K_GetFrameReg (frame_copy_regs m (f - 68) f) (f - 68) j"
    unfolding icpt_frame_def GetFrameReg_eq using j by (simp add: reg_exc_apart)
  then show "Q9K_GetFrameReg (icpt_frame m f signal dat vector) (f - 68) j = Q9K_GetFrameReg m f j"
    using copy_regs_read [OF equalityD1 [OF reg_set_def [symmetric]] j(1), of f m]
    by (simp only: frame_copy_regs_def reg_set_def [symmetric] j(1) if_True)
qed (simp_all add: icpt_frame_def GetFrameReg_eq)

section \<open>Deliver and return\<close>

lemma deliver_eq:
  assumes d: "desc \<noteq> 0" "Q9K_GetU32 m (desc + Q9K_PROCDESC_SIGVEC_OFF) = vector" "vector \<noteq> 0"
    "Q9K_GetU32 m (desc + Q9K_PROCDESC_SAVEDSP_OFF) = f" "f \<noteq> 0"
    and a: "apart (f - 68) 68 desc 0x400"
  shows "Q9K_IcptDeliver m desc signal = (True,
     Q9K_SetU16 (Q9K_SetU32 (Q9K_SetU32
       (icpt_frame m f signal (Q9K_GetU32 m (desc + Q9K_PROCDESC_SIGDAT_OFF)) vector)
       (desc + Q9K_PROCDESC_SAVEDSP_OFF) (f - 68))
       (desc + Q9K_PROCDESC_ICPTDEPTH_OFF) (Q9K_GetU32 m (desc + Q9K_PROCDESC_ICPTDEPTH_OFF) + 1))
       (desc + Q9K_PROCDESC_SIGNAL_OFF) 0)"
proof -
  have ap: "apart (f - 68) 68 (desc + j) 4" if "j + 4 \<le> 0x400" "j \<le> j + 4" for j
    using apart_sub [OF a, of 0 68 j 4] that by simp
  have "within (f - 68) 68 m (Q9K_SetU32 (frame_copy_regs m (f - 68) f) (f - 68 + 4) (ucast signal))"
    unfolding frame_copy_regs_def by (intro within_put copy_regs_within) (simp_all add: reg_set_def)
  then have dat: "Q9K_GetU32 (Q9K_SetU32 (frame_copy_regs m (f - 68) f) (f - 68 + 4) (ucast signal))
      (desc + Q9K_PROCDESC_SIGDAT_OFF) = Q9K_GetU32 m (desc + Q9K_PROCDESC_SIGDAT_OFF)"
    by (rule within_get(3)) (rule ap [of "0x2C"]; simp)
  have dep: "Q9K_GetU32 (icpt_frame m f signal dt vector) (desc + Q9K_PROCDESC_ICPTDEPTH_OFF) =
      Q9K_GetU32 m (desc + Q9K_PROCDESC_ICPTDEPTH_OFF)" for dt
    by (rule within_get(3) [OF icpt_frame_within]) (rule ap [of "0x1CC"]; simp)
  show ?thesis
    using d dat dep unfolding Q9K_IcptDeliver_def icpt_frame_def by (simp add: Let_def SetFrameReg_eq)
qed

text \<open>Delivering and then returning restores the process: the saved stack pointer and the depth are
  the old ones and the frame of the interrupted program is untouched.\<close>

lemma deliver_pop:
  assumes d: "desc \<noteq> 0" "Q9K_GetU32 m (desc + Q9K_PROCDESC_SIGVEC_OFF) \<noteq> 0"
    "Q9K_GetU32 m (desc + Q9K_PROCDESC_SAVEDSP_OFF) = f" "f \<noteq> 0"
    "Q9K_GetU32 m (desc + Q9K_PROCDESC_ICPTDEPTH_OFF) + 1 \<noteq> 0"
    and a: "apart (f - 68) 68 desc 0x400"
  obtains m1 m2 where "Q9K_IcptDeliver m desc signal = (True, m1)" "Q9K_IcptPop m1 desc = Inr m2"
    "Q9K_GetU32 m2 (desc + Q9K_PROCDESC_SAVEDSP_OFF) = f"
    "Q9K_GetU32 m2 (desc + Q9K_PROCDESC_ICPTDEPTH_OFF) = Q9K_GetU32 m (desc + Q9K_PROCDESC_ICPTDEPTH_OFF)"
    "Q9K_GetU16 m2 (desc + Q9K_PROCDESC_SIGNAL_OFF) = 0"
    "\<And>b. (\<forall>i<68. b \<noteq> f - 68 + i) \<Longrightarrow> (\<forall>i<0x400. b \<noteq> desc + i) \<Longrightarrow> m2 b = m b"
proof -
  define dep where "dep = Q9K_GetU32 m (desc + Q9K_PROCDESC_ICPTDEPTH_OFF)"
  define F where "F = icpt_frame m f signal (Q9K_GetU32 m (desc + Q9K_PROCDESC_SIGDAT_OFF))
    (Q9K_GetU32 m (desc + Q9K_PROCDESC_SIGVEC_OFF))"
  define m1 where "m1 = Q9K_SetU16 (Q9K_SetU32 (Q9K_SetU32 F (desc + 8) (f - 68)) (desc + 0x1CC) (dep + 1)) (desc + 0x26) 0"
  define m2 where "m2 = Q9K_SetU32 (Q9K_SetU32 m1 (desc + 8) f) (desc + 0x1CC) dep"
  have e: "Q9K_IcptDeliver m desc signal = (True, m1)"
    unfolding m1_def dep_def F_def by (rule deliver_eq [OF d(1) refl d(2,3,4) a])
  have "dep + 1 \<noteq> 0" using d(5) unfolding dep_def .
  then have p: "Q9K_IcptPop m1 desc = Inr m2"
    using d(1) by (simp add: Q9K_IcptPop_def m2_def Let_def) (simp add: m1_def)
  have "within desc 0x400 F m2" unfolding m2_def m1_def by (intro within_put within_refl) simp_all
  then have "m2 b = m b" if "\<forall>i<68. b \<noteq> f - 68 + i" "\<forall>i<0x400. b \<noteq> desc + i" for b
    using that icpt_frame_within [of f m] unfolding within_def F_def by metis
  then show thesis using that [OF e p] by (simp add: m2_def m1_def dep_def)
qed

text \<open>The descriptor writes that follow do not reach into the new frame.\<close>

lemma frame_desc_apart:
  assumes "apart nf 68 desc 0x400" "i + n \<le> 0x400" "i \<le> i + n" "j + k \<le> 68" "j \<le> j + k"
  shows "apart (desc + i) n (nf + j) k"
  using apart_sub [OF apart_sym [OF assms(1)] assms(2-5)] .

lemma reg_set_bounds: "j \<in> reg_set \<Longrightarrow> j * 4 + 4 \<le> 68 \<and> j * 4 \<le> j * 4 + 4"
  by (auto simp: reg_set_def)

lemma deliver_frame:
  assumes a: "apart nf 68 desc 0x400"
    and m1: "m1 = Q9K_SetU16 (Q9K_SetU32 (Q9K_SetU32 F (desc + Q9K_PROCDESC_SAVEDSP_OFF) x)
       (desc + Q9K_PROCDESC_ICPTDEPTH_OFF) y) (desc + Q9K_PROCDESC_SIGNAL_OFF) 0"
  shows "j \<in> reg_set \<Longrightarrow> Q9K_GetFrameReg m1 nf j = Q9K_GetFrameReg F nf j"
    and "Q9K_GetU32 m1 (nf + 62) = Q9K_GetU32 F (nf + 62)"
proof -
  note ap = frame_desc_apart [OF a]
  show "j \<in> reg_set \<Longrightarrow> Q9K_GetFrameReg m1 nf j = Q9K_GetFrameReg F nf j"
    unfolding m1 GetFrameReg_eq using reg_set_bounds [of j] by (simp add: ap)
  show "Q9K_GetU32 m1 (nf + 62) = Q9K_GetU32 F (nf + 62)" unfolding m1 by (simp add: ap)
qed

section \<open>Properties\<close>

text \<open>Delivering a signal to a process with an intercept routine stacks a complete frame below
  the saved one.  The routine starts with the signal number in d1, the intercept data pointer in a6,
  every other register of the interrupted program and its own address as program counter; the nesting
  depth grows by one, the pending signal is consumed, and outside the new frame and the descriptor no
  byte changes, so the interrupted program's frame is intact.\<close>

theorem icpt_deliver_spec:
  assumes "desc \<noteq> 0" "Q9K_GetU32 m (desc + Q9K_PROCDESC_SIGVEC_OFF) \<noteq> 0"
    and "Q9K_GetU32 m (desc + Q9K_PROCDESC_SAVEDSP_OFF) = f" "f \<noteq> 0" "nf = f - Q9K_FAKEFRAME_SIZE"
    and "apart nf Q9K_FAKEFRAME_SIZE desc Q9K_PROCDESC_SIZE"
  shows "\<exists>m1. Q9K_IcptDeliver m desc signal = (True, m1) \<and>
    Q9K_GetU32 m1 (desc + Q9K_PROCDESC_SAVEDSP_OFF) = nf \<and>
    Q9K_GetU32 m1 (desc + Q9K_PROCDESC_ICPTDEPTH_OFF) = Q9K_GetU32 m (desc + Q9K_PROCDESC_ICPTDEPTH_OFF) + 1 \<and>
    Q9K_GetU16 m1 (desc + Q9K_PROCDESC_SIGNAL_OFF) = 0 \<and>
    Q9K_GetFrameReg m1 nf Q9K_FRAMEREG_D1 = ucast signal \<and>
    Q9K_GetFrameReg m1 nf Q9K_FRAMEREG_A6 = Q9K_GetU32 m (desc + Q9K_PROCDESC_SIGDAT_OFF) \<and>
    (\<forall>j\<in>reg_set - {Q9K_FRAMEREG_D1, Q9K_FRAMEREG_A6}. Q9K_GetFrameReg m1 nf j = Q9K_GetFrameReg m f j) \<and>
    Q9K_GetU32 m1 (nf + 62) = Q9K_GetU32 m (desc + Q9K_PROCDESC_SIGVEC_OFF) \<and>
    (\<forall>b. (\<forall>i<Q9K_FAKEFRAME_SIZE. b \<noteq> nf + i) \<longrightarrow> (\<forall>i<Q9K_PROCDESC_SIZE. b \<noteq> desc + i) \<longrightarrow> m1 b = m b)"
proof -
  have a: "apart (f - 68) 68 desc 0x400" using assms(5,6) by simp
  define F where "F = icpt_frame m f signal (Q9K_GetU32 m (desc + Q9K_PROCDESC_SIGDAT_OFF))
    (Q9K_GetU32 m (desc + Q9K_PROCDESC_SIGVEC_OFF))"
  define m1 where "m1 = Q9K_SetU16 (Q9K_SetU32 (Q9K_SetU32 F (desc + Q9K_PROCDESC_SAVEDSP_OFF) (f - 68))
     (desc + Q9K_PROCDESC_ICPTDEPTH_OFF) (Q9K_GetU32 m (desc + Q9K_PROCDESC_ICPTDEPTH_OFF) + 1))
     (desc + Q9K_PROCDESC_SIGNAL_OFF) 0"
  have e: "Q9K_IcptDeliver m desc signal = (True, m1)"
    unfolding m1_def F_def by (rule deliver_eq [OF assms(1) refl assms(2-4) a])
  have "within desc 0x400 F m1" unfolding m1_def by (intro within_put within_refl) simp_all
  then have out: "m1 b = m b" if "\<forall>i<68. b \<noteq> f - 68 + i" "\<forall>i<0x400. b \<noteq> desc + i" for b
    using that icpt_frame_within [of f m] unfolding within_def F_def by metis
  have D1: "Q9K_FRAMEREG_D1 \<in> reg_set" "Q9K_FRAMEREG_A6 \<in> reg_set" by (simp_all add: reg_set_def)
  have own: "Q9K_GetU32 m1 (desc + Q9K_PROCDESC_SAVEDSP_OFF) = f - 68"
    "Q9K_GetU32 m1 (desc + Q9K_PROCDESC_ICPTDEPTH_OFF) = Q9K_GetU32 m (desc + Q9K_PROCDESC_ICPTDEPTH_OFF) + 1"
    "Q9K_GetU16 m1 (desc + Q9K_PROCDESC_SIGNAL_OFF) = 0" by (simp_all add: m1_def)
  note fr = deliver_frame [OF a m1_def]
  have regs: "Q9K_GetFrameReg m1 (f - 68) j = Q9K_GetFrameReg m f j" if "j \<in> reg_set" "j \<noteq> 1" "j \<noteq> 14" for j
    using fr(1) [OF that(1)] icpt_frame_contents(1) [OF that] by (simp add: F_def)
  show ?thesis unfolding assms(5)
  proof (intro exI conjI ballI allI impI)
    show "Q9K_GetFrameReg m1 (f - 68) Q9K_FRAMEREG_D1 = ucast signal"
      "Q9K_GetFrameReg m1 (f - 68) Q9K_FRAMEREG_A6 = Q9K_GetU32 m (desc + Q9K_PROCDESC_SIGDAT_OFF)"
      "Q9K_GetU32 m1 (f - 68 + 62) = Q9K_GetU32 m (desc + Q9K_PROCDESC_SIGVEC_OFF)"
      unfolding fr(1) [OF D1(1)] fr(1) [OF D1(2)] fr(2) F_def by (rule icpt_frame_contents)+
  qed (use e own regs out in auto)
qed

lemma icpt_deliver_spec_witness:
  "\<exists>m1. Q9K_IcptDeliver ex_mem ex_sleeper 5 = (True, m1) \<and> Q9K_GetFrameReg m1 0x20FBC Q9K_FRAMEREG_D1 = 5 \<and>
     Q9K_GetU32 m1 0x20FFA = 0x30000"
  using icpt_deliver_spec [of ex_sleeper ex_mem "0x21000" "0x20FBC" 5] by auto

text \<open>F$RTE undoes the delivery: after the intercept frame is popped the saved stack pointer and
  the nesting depth are the old ones, no signal is pending, and the memory outside the discarded frame
  and the descriptor is unchanged.  The depth must not wrap, which takes 2^32 nested deliveries.\<close>

theorem icpt_roundtrip:
  assumes "desc \<noteq> 0" "Q9K_GetU32 m (desc + Q9K_PROCDESC_SIGVEC_OFF) \<noteq> 0"
    and "Q9K_GetU32 m (desc + Q9K_PROCDESC_SAVEDSP_OFF) = f" "f \<noteq> 0"
    and "Q9K_GetU32 m (desc + Q9K_PROCDESC_ICPTDEPTH_OFF) + 1 \<noteq> 0"
    and "apart (f - Q9K_FAKEFRAME_SIZE) Q9K_FAKEFRAME_SIZE desc Q9K_PROCDESC_SIZE"
  shows "\<exists>m1 m2. Q9K_IcptDeliver m desc signal = (True, m1) \<and> Q9K_IcptPop m1 desc = Inr m2 \<and>
    Q9K_GetU32 m2 (desc + Q9K_PROCDESC_SAVEDSP_OFF) = f \<and>
    Q9K_GetU32 m2 (desc + Q9K_PROCDESC_ICPTDEPTH_OFF) = Q9K_GetU32 m (desc + Q9K_PROCDESC_ICPTDEPTH_OFF) \<and>
    Q9K_GetU16 m2 (desc + Q9K_PROCDESC_SIGNAL_OFF) = 0 \<and>
    (\<forall>b. (\<forall>i<Q9K_FAKEFRAME_SIZE. b \<noteq> f - Q9K_FAKEFRAME_SIZE + i) \<longrightarrow> (\<forall>i<Q9K_PROCDESC_SIZE. b \<noteq> desc + i) \<longrightarrow> m2 b = m b)"
  by (rule deliver_pop [OF assms, of signal]) blast

lemma icpt_roundtrip_witness:
  "\<exists>m1 m2. Q9K_IcptDeliver ex_mem ex_sleeper 5 = (True, m1) \<and> Q9K_IcptPop m1 ex_sleeper = Inr m2 \<and>
     Q9K_GetU32 m2 0x10408 = 0x21000"
  using icpt_roundtrip [of ex_sleeper ex_mem "0x21000" 5] by auto

end
