(* ===== verification/Q9_ProcSleep.thy ===== *)
theory Q9_ProcSleep
  imports Q9_Icpt
begin

text \<open>
  F$Sleep, F$Send, F$SigMask and F$Icpt of \<^verbatim>\<open>q9kernel_procsleep.c\<close>.  A process that sleeps leaves
  its registers in the frame at P$SavedSP; d0 is cleared there before it is queued.
\<close>

abbreviation Q9K_SIGNAL_KILL :: u16 where "Q9K_SIGNAL_KILL \<equiv> 0"
abbreviation Q9K_SIGNAL_WAKE :: u16 where "Q9K_SIGNAL_WAKE \<equiv> 1"

section \<open>F$Sleep\<close>

text \<open>The conversion of the argument: with the high bit set the low 31 bits are 256ths of a second.\<close>

definition sleep_ticks :: "u32 \<Rightarrow> u32" where
  "sleep_ticks ticksIn =
     (if ticksIn AND 0x80000000 \<noteq> 0 then drop_bit 6 ((ticksIn AND 0x7FFFFFFF) * 25) else ticksIn)"

definition Q9K_ProcSleep :: "memory \<Rightarrow> u32 \<Rightarrow> u32 \<Rightarrow> (u32 \<times> memory) option" where
  "Q9K_ProcSleep m callerDesc ticksIn =
     (let ticks = sleep_ticks ticksIn;
          frameBase = Q9K_GetU32 m (callerDesc + Q9K_PROCDESC_SAVEDSP_OFF);
          m1 = Q9K_SetFrameReg m frameBase 0 0;
          m2 = Q9K_SetU8 m1 (callerDesc + Q9K_PROCDESC_SIGLVL_OFF) 0;
          pending = Q9K_GetU16 m2 (callerDesc + Q9K_PROCDESC_SIGNAL_OFF)
      in if pending \<noteq> 0 then
           let m3 = Q9K_SchedInsert m2 callerDesc;
               m4 = snd (Q9K_IcptDeliver m3 callerDesc pending)
           in Q9K_SchedFirstPick m4
         else if ticks = 0 then
           let m3 = Q9K_SetU8 m2 (callerDesc + Q9K_PROCDESC_STATE_OFF) Q9K_PROCDESC_STATE_SLEEPING;
               m4 = Q9K_SetU32 m3 (callerDesc + Q9K_PROCDESC_SLEEPTICKS_OFF) Q9K_SLEEP_INFINITE
           in Q9K_SchedFirstPick (Q9K_SleepQInsert m4 callerDesc)
         else if ticks = 1 then Q9K_SchedFirstPick (Q9K_SchedInsert m2 callerDesc)
         else
           let m3 = Q9K_SetU8 m2 (callerDesc + Q9K_PROCDESC_STATE_OFF) Q9K_PROCDESC_STATE_SLEEPING;
               m4 = Q9K_SetU32 m3 (callerDesc + Q9K_PROCDESC_SLEEPTICKS_OFF) (ticks - 1)
           in Q9K_SchedFirstPick (Q9K_SleepQInsert m4 callerDesc))"

definition Q9K_SysSleepImpl :: "memory \<Rightarrow> memory option" where
  "Q9K_SysSleepImpl m = do {
     (next, m') \<leftarrow> Q9K_ProcSleep m (Q9K_GetU32 m Q9_D_PROC) (Q9K_GetU32 m 0x1328);
     Some (Q9K_SetU32 m' 0x132C next)
   }"

section \<open>F$Send\<close>

definition Q9K_ProcSend :: "memory \<Rightarrow> u16 \<Rightarrow> u16 \<Rightarrow> u16 + memory" where
  "Q9K_ProcSend m pid signal =
     (let desc = Q9K_ProcLookup m pid in
      if desc = 0 then Inl Q9K_E_PRCID
      else
        let m1 = (if signal \<noteq> Q9K_SIGNAL_WAKE
                  then Q9K_SetU16 m (desc + Q9K_PROCDESC_SIGNAL_OFF) signal else m)
        in if signal \<noteq> Q9K_SIGNAL_KILL \<and> signal \<noteq> Q9K_SIGNAL_WAKE \<and>
              Q9K_GetU8 m1 (desc + Q9K_PROCDESC_SIGLVL_OFF) \<noteq> 0
           then Inr m1
           else
             let m2 = (if signal \<noteq> Q9K_SIGNAL_WAKE \<and> desc \<noteq> Q9K_GetU32 m1 Q9_D_PROC
                       then snd (Q9K_IcptDeliver m1 desc signal) else m1)
             in Inr (Q9K_SchedWake m2 desc))"

section \<open>F$SigMask\<close>

definition Q9K_ProcSigMask :: "memory \<Rightarrow> u32 \<Rightarrow> u16 + memory" where
  "Q9K_ProcSigMask m level =
     (let desc = Q9K_GetU32 m Q9_D_PROC in
      if desc = 0 then Inl Q9K_E_PRCID
      else
        let lvl0 = Q9K_GetU8 m (desc + Q9K_PROCDESC_SIGLVL_OFF);
            lvl = (if level = 0 then 0
                   else if level = 0xFFFFFFFF then (if lvl0 > 0 then lvl0 - 1 else lvl0)
                   else (if lvl0 < 255 then lvl0 + 1 else lvl0));
            m1 = Q9K_SetU8 m (desc + Q9K_PROCDESC_SIGLVL_OFF) lvl
        in Inr (if lvl = 0 \<and> Q9K_GetU16 m1 (desc + Q9K_PROCDESC_SIGNAL_OFF) \<noteq> 0
                then Q9K_SchedWake m1 desc else m1))"

definition Q9K_SysSigMaskImpl :: "memory \<Rightarrow> memory" where
  "Q9K_SysSigMaskImpl m = report32 m 0x198C 0x1990 (Q9K_ProcSigMask m (Q9K_GetU32 m 0x1988))"

definition Q9K_SysSendImpl :: "memory \<Rightarrow> memory" where
  "Q9K_SysSendImpl m =
     (case Q9K_ProcSend m (ucast (Q9K_GetU32 m 0x1608)) (ucast (Q9K_GetU32 m 0x160C)) of
        Inr m1 \<Rightarrow> Q9K_SetU32 (Q9K_SetU32 m1 0x1610 0) 0x1614 1
      | Inl err \<Rightarrow> Q9K_SetU32 (Q9K_SetU32 m 0x1610 (ucast err)) 0x1614 0)"

section \<open>F$Icpt\<close>

definition Q9K_ProcIcpt :: "memory \<Rightarrow> u32 \<Rightarrow> u32 \<Rightarrow> u32 \<times> memory" where
  "Q9K_ProcIcpt m vector dataPtr =
     (let desc = Q9K_GetU32 m Q9_D_PROC in
      if desc = 0 then (0, m)
      else
        let m1 = Q9K_SetU32 m (desc + Q9K_PROCDESC_SIGVEC_OFF) vector;
            m2 = Q9K_SetU32 m1 (desc + Q9K_PROCDESC_SIGDAT_OFF) dataPtr
        in (if Q9K_GetU16 m2 (desc + Q9K_PROCDESC_SIGNAL_OFF) \<noteq> 0 then 1 else 0, m2))"

definition Q9K_SysIcptImpl :: "memory \<Rightarrow> memory" where
  "Q9K_SysIcptImpl m =
     (let (pending, m') = Q9K_ProcIcpt m (Q9K_GetU32 m 0x1998) (Q9K_GetU32 m 0x199C)
      in Q9K_SetU32 m' 0x19A0 pending)"

section \<open>The stack of a process\<close>

text \<open>The bytes a frame occupies lie outside the kernel globals and outside every descriptor.\<close>

definition stack_ok :: "u32 set \<Rightarrow> u32 \<Rightarrow> u32 \<Rightarrow> bool" where
  "stack_ok P f n \<longleftrightarrow> apart f n 0 0x8000 \<and> (\<forall>d\<in>P. apart f n d 0x400)"

lemma stack_global:
  assumes "stack_ok P f n" "g + k \<le> 0x8000" "g \<le> g + k" shows "apart f n g k"
  using apart_sub [of f n 0 "0x8000" 0 n g k] assms by (simp add: stack_ok_def)

lemma stack_desc:
  assumes "stack_ok P f n" "d \<in> P" "i + k \<le> 0x400" "i \<le> i + k" shows "apart f n (d + i) k"
  using apart_sub [of f n d "0x400" 0 n i k] assms by (simp add: stack_ok_def)

lemma within_sched:
  assumes w: "within f n m m'" and st: "stack_ok P f n"
  shows "sched_rep m' P Q = sched_rep m P Q" "same_fields P m m'"
proof -
  have "apart f n (x + 0x30) 4" "apart f n (x + 0x34) 4" if "x \<in> sentinels \<union> P" for x
    using that stack_global [OF st] stack_desc [OF st] by (auto simp: sentinels_def)
  then show "sched_rep m' P Q = sched_rep m P Q"
    by (intro sched_rep_links within_get(3) [OF w])
  show "same_fields P m m'"
    unfolding same_fields_def
  proof (intro ballI allI impI)
    fix d i :: u32 assume "d \<in> P" "i < 0x400"
    then have "apart f n (d + i) 1" using small_offset by (intro stack_desc [OF st]) auto
    then show "m' (d + i) = m (d + i)" using within_get(1) [OF w] by (simp add: Q9K_GetU8_def)
  qed
qed

section \<open>Sleeping\<close>

text \<open>The bookkeeping before the caller is queued keeps the queues and all fields but the mask.\<close>

lemma sleep_prepare:
  assumes r: "sched_rep m P Q" and c: "c \<in> P" and st: "stack_ok P (Q9K_GetU32 m (c + Q9K_PROCDESC_SAVEDSP_OFF)) 4"
    and m2: "m2 = Q9K_SetU8 (Q9K_SetFrameReg m (Q9K_GetU32 m (c + Q9K_PROCDESC_SAVEDSP_OFF)) 0 0)
       (c + Q9K_PROCDESC_SIGLVL_OFF) 0"
  shows "sched_rep m2 P Q" "Q9K_GetU16 m2 (c + Q9K_PROCDESC_SIGNAL_OFF) = Q9K_GetU16 m (c + Q9K_PROCDESC_SIGNAL_OFF)"
proof -
  let ?f = "Q9K_GetU32 m (c + Q9K_PROCDESC_SAVEDSP_OFF)"
  have P: "procs_ok P" by (rule sched_repD(1) [OF r])
  have w: "within ?f 4 m (Q9K_SetU32 m ?f 0)" using within_put(1) [of 0 4 ?f m m 0] by simp
  show "sched_rep m2 P Q"
    using within_sched(1) [OF w st, of Q] r P c by (simp add: m2 SetFrameReg_eq)
  show "Q9K_GetU16 m2 (c + Q9K_PROCDESC_SIGNAL_OFF) = Q9K_GetU16 m (c + Q9K_PROCDESC_SIGNAL_OFF)"
    using same_fields_get(2) [OF within_sched(2) [OF w st] c, of "0x26"] by (simp add: m2 SetFrameReg_eq)
qed

lemma sleep_queue:
  assumes r: "sched_rep m P Q" and c: "c \<in> P" "c \<notin> queued Q"
    and m': "m' = Q9K_SleepQInsert (Q9K_SetU32 (Q9K_SetU8 m (c + Q9K_PROCDESC_STATE_OFF) Q9K_PROCDESC_STATE_SLEEPING)
      (c + Q9K_PROCDESC_SLEEPTICKS_OFF) t) c"
  shows "sched_rep m' P (Q(Q9K_SLEEPQ_SENTINEL_ADDR := Q Q9K_SLEEPQ_SENTINEL_ADDR @ [c]))"
    and "ticks_of m' c = t" "state_of m' c = Q9K_PROCDESC_STATE_SLEEPING"
proof -
  let ?m0 = "Q9K_SetU32 (Q9K_SetU8 m (c + Q9K_PROCDESC_STATE_OFF) Q9K_PROCDESC_STATE_SLEEPING)
      (c + Q9K_PROCDESC_SLEEPTICKS_OFF) t"
  have P: "procs_ok P" by (rule sched_repD(1) [OF r])
  have r0: "sched_rep ?m0 P Q" using r P c by simp
  show "sched_rep m' P (Q(Q9K_SLEEPQ_SENTINEL_ADDR := Q Q9K_SLEEPQ_SENTINEL_ADDR @ [c]))"
    unfolding m' Q9K_SleepQInsert_def by (rule sched_append [OF r0 _ c]) simp
  have "prv ?m0 Q9K_SLEEPQ_SENTINEL_ADDR \<in> sentinels \<union> P" by (rule sched_ends(1) [OF r0]) simp
  then have "only_links P ?m0 m'" unfolding m' Q9K_SleepQInsert_def by (intro only_links_append) (simp_all add: c)
  then have f: "same_fields P ?m0 m'" by (rule only_links_same_fields [OF P])
  show "ticks_of m' c = t" using same_fields_get(3) [OF f c(1), of "0x1C4"] by simp
  show "state_of m' c = Q9K_PROCDESC_STATE_SLEEPING" using same_fields_get(1) [OF f c(1), of "0x1D"] by simp
qed

text \<open>The caller goes to the end of the queue that its argument selects; then the oldest ready
  process is dispatched.\<close>

definition sleep_target :: "u32 \<Rightarrow> u32" where
  "sleep_target ticks = (if ticks = 1 then Q9K_READYQ_SENTINEL_ADDR else Q9K_SLEEPQ_SENTINEL_ADDR)"

lemma sleep_spec:
  assumes r: "sched_rep m P Q" and c: "c \<in> P" "c \<notin> queued Q"
    and st: "stack_ok P (Q9K_GetU32 m (c + Q9K_PROCDESC_SAVEDSP_OFF)) 4"
    and np: "Q9K_GetU16 m (c + Q9K_PROCDESC_SIGNAL_OFF) = 0"
    and t: "sleep_ticks ticksIn = t" and Q': "Q' = Q(sleep_target t := Q (sleep_target t) @ [c])"
  obtains b m' where "Q9K_ProcSleep m c ticksIn = Some (b, m')"
    "sched_rep m' P (Q'(Q9K_READYQ_SENTINEL_ADDR := remove1 b (Q' Q9K_READYQ_SENTINEL_ADDR)))"
    "b = 0 \<longleftrightarrow> Q' Q9K_READYQ_SENTINEL_ADDR = []"
    "t \<noteq> 1 \<Longrightarrow> ticks_of m' c = (if t = 0 then Q9K_SLEEP_INFINITE else t - 1) \<and> state_of m' c = Q9K_PROCDESC_STATE_SLEEPING"
proof -
  define m2 where "m2 = Q9K_SetU8 (Q9K_SetFrameReg m (Q9K_GetU32 m (c + Q9K_PROCDESC_SAVEDSP_OFF)) 0 0)
       (c + Q9K_PROCDESC_SIGLVL_OFF) 0"
  note prep = sleep_prepare [OF r c(1) st m2_def]
  define m3 where "m3 = (if t = 1 then Q9K_SchedInsert m2 c else
     Q9K_SleepQInsert (Q9K_SetU32 (Q9K_SetU8 m2 (c + Q9K_PROCDESC_STATE_OFF) Q9K_PROCDESC_STATE_SLEEPING)
      (c + Q9K_PROCDESC_SLEEPTICKS_OFF) (if t = 0 then Q9K_SLEEP_INFINITE else t - 1)) c)"
  have e: "Q9K_ProcSleep m c ticksIn = Q9K_SchedFirstPick m3"
    unfolding Q9K_ProcSleep_def Let_def t m2_def [symmetric] using prep(2) np by (simp add: m3_def)
  have r3: "sched_rep m3 P Q'"
    unfolding m3_def Q' sleep_target_def using sched_insert(1) [OF prep(1) c] sleep_queue(1) [OF prep(1) c refl]
    by (auto simp del: fun_upd_apply)
  from sched_first_pick [OF r3] obtain b m' where b: "Q9K_SchedFirstPick m3 = Some (b, m')"
    "if Q' Q9K_READYQ_SENTINEL_ADDR = [] then b = 0
     else first_max (\<lambda>_. True) (age_of m3) (Q' Q9K_READYQ_SENTINEL_ADDR) b"
    "sched_rep m' P (Q'(Q9K_READYQ_SENTINEL_ADDR := remove1 b (Q' Q9K_READYQ_SENTINEL_ADDR)))" "same_fields P m3 m'"
    by metis
  have "0 \<notin> set (Q' Q9K_READYQ_SENTINEL_ADDR)"
    using sched_repD(1,3) [OF r3] procs_okD desc_ok_nonzero sentinels_iff(1) by blast
  then have z: "b = 0 \<longleftrightarrow> Q' Q9K_READYQ_SENTINEL_ADDR = []"
    using b(2) first_max_in [of "\<lambda>_. True" "age_of m3" "Q' Q9K_READYQ_SENTINEL_ADDR" b] by (auto split: if_splits)
  have f: "ticks_of m' c = ticks_of m3 c" "state_of m' c = state_of m3 c"
    using same_fields_get(3) [OF b(4) c(1), of "0x1C4"] same_fields_get(1) [OF b(4) c(1), of "0x1D"] by simp_all
  show thesis
    by (rule that [OF _ b(3) z]) (use e b(1) f sleep_queue(2,3) [OF prep(1) c refl] in \<open>auto simp: m3_def\<close>)
qed

text \<open>Below \<open>171798692\<close> units the conversion of 256ths of a second rounds the exact value down.\<close>

lemma high_bit_mask: "(push_bit k 1 OR x) AND mask k = take_bit k x" for x :: u32
  by (rule bit_word_eqI) (auto simp: bit_simps)

lemma high_bit_set: "k < 32 \<Longrightarrow> (push_bit k 1 OR x) AND push_bit k 1 \<noteq> 0" for x :: u32
proof
  assume k: "k < 32" and z: "(push_bit k 1 OR x) AND push_bit k 1 = 0"
  have "bit ((push_bit k 1 OR x) AND push_bit k 1) k" using k by (simp add: bit_simps)
  then show False unfolding z by simp
qed

lemma sleep_ticks_exact:
  assumes "n < 171798692"
  shows "unat (sleep_ticks (0x80000000 OR of_nat n)) = n * 100 div 256"
proof -
  define x where "x = (of_nat n :: u32)"
  have u: "unat x = n" unfolding x_def using assms by (intro unat_of_nat_u32) simp
  have m31: "(0x7FFFFFFF :: u32) = mask 31" "(0x80000000 :: u32) = push_bit 31 1"
    by (simp_all add: mask_eq_exp_minus_1)
  have x: "take_bit 31 x = x" using u assms by (simp add: word_unat_eq_iff unsigned_take_bit_eq take_bit_nat_eq_self)
  have 1: "(0x80000000 OR x) AND 0x7FFFFFFF = x" unfolding m31 high_bit_mask x ..
  have 2: "(0x80000000 OR x) AND 0x80000000 \<noteq> 0" unfolding m31 by (rule high_bit_set) simp
  have "unat (x * 25) = n * 25" using u assms unat_mult_lem [of x 25] by simp
  then show ?thesis using 1 2 unfolding sleep_ticks_def x_def [symmetric]
    by (simp add: unat_drop_bit_eq drop_bit_eq_div unat_div)
qed

section \<open>Signals\<close>

text \<open>Delivery never disturbs the queues or the state of a process.\<close>

lemma deliver_sched:
  assumes P: "procs_ok P" and d: "d \<in> P" and st: "stack_ok P (Q9K_GetU32 m (d + Q9K_PROCDESC_SAVEDSP_OFF) - 68) 68"
    and m': "m' = snd (Q9K_IcptDeliver m d signal)"
  shows "sched_rep m' P Q = sched_rep m P Q" "state_of m' d = state_of m d"
proof -
  let ?f = "Q9K_GetU32 m (d + Q9K_PROCDESC_SAVEDSP_OFF)" and ?v = "Q9K_GetU32 m (d + Q9K_PROCDESC_SIGVEC_OFF)"
  have "(sched_rep m' P Q = sched_rep m P Q) \<and> state_of m' d = state_of m d"
  proof (cases "d = 0 \<or> ?v = 0 \<or> ?f = 0")
    case True then show ?thesis by (auto simp: m' Q9K_IcptDeliver_def Let_def)
  next
    case False
    define F where "F = icpt_frame m ?f signal (Q9K_GetU32 m (d + Q9K_PROCDESC_SIGDAT_OFF)) ?v"
    have a: "apart (?f - 68) 68 d 0x400" using st d by (simp add: stack_ok_def)
    have w: "within (?f - 68) 68 m F" unfolding F_def by (rule icpt_frame_within)
    note e = deliver_eq [OF _ refl _ refl _ a, of signal, folded F_def]
    show ?thesis
      using False e within_sched(1) [OF w st, of Q] same_fields_get(1) [OF within_sched(2) [OF w st] d, of "0x1D"] P d
      by (simp add: m')
  qed
  then show "sched_rep m' P Q = sched_rep m P Q" "state_of m' d = state_of m d" by blast+
qed

text \<open>A signal that is not blocked wakes a sleeping receiver: it moves to the end of the ready queue.\<close>

lemma send_wakes:
  assumes r: "sched_rep m P Q" and d: "Q9K_ProcLookup m pid = d" "d \<in> set (Q Q9K_SLEEPQ_SENTINEL_ADDR)"
    and s: "state_of m d = Q9K_PROCDESC_STATE_SLEEPING"
    and open_mask: "signal = Q9K_SIGNAL_KILL \<or> signal = Q9K_SIGNAL_WAKE \<or> Q9K_GetU8 m (d + Q9K_PROCDESC_SIGLVL_OFF) = 0"
    and st: "stack_ok P (Q9K_GetU32 m (d + Q9K_PROCDESC_SAVEDSP_OFF) - 68) 68"
  obtains m' where "Q9K_ProcSend m pid signal = Inr m'"
    "sched_rep m' P (Q(Q9K_SLEEPQ_SENTINEL_ADDR := remove1 d (Q Q9K_SLEEPQ_SENTINEL_ADDR),
       Q9K_READYQ_SENTINEL_ADDR := Q Q9K_READYQ_SENTINEL_ADDR @ [d]))"
    "state_of m' d = Q9K_PROCDESC_STATE_ACTIVE"
proof -
  have P: "procs_ok P" by (rule sched_repD(1) [OF r])
  have dP: "d \<in> P" using sched_repD(3) [OF r, of Q9K_SLEEPQ_SENTINEL_ADDR] d(2) by auto
  have nz: "d \<noteq> 0" using desc_ok_nonzero procs_okD [OF P dP] by blast
  define m1 where "m1 = (if signal \<noteq> Q9K_SIGNAL_WAKE then Q9K_SetU16 m (d + Q9K_PROCDESC_SIGNAL_OFF) signal else m)"
  define m2 where "m2 = (if signal \<noteq> Q9K_SIGNAL_WAKE \<and> d \<noteq> Q9K_GetU32 m1 Q9_D_PROC
    then snd (Q9K_IcptDeliver m1 d signal) else m1)"
  have r1: "sched_rep m1 P Q" "state_of m1 d = state_of m d" "Q9K_GetU8 m1 (d + 0x210) = Q9K_GetU8 m (d + 0x210)"
    "Q9K_GetU32 m1 (d + 8) = Q9K_GetU32 m (d + 8)"
    unfolding m1_def using r P dP by simp_all
  have r2: "sched_rep m2 P Q" "state_of m2 d = Q9K_PROCDESC_STATE_SLEEPING"
    using deliver_sched(1) [OF P dP _ refl, where m = m1 and signal = signal and Q = Q]
      deliver_sched(2) [OF P dP _ refl, where m = m1 and signal = signal] r1 s st by (simp_all add: m2_def)
  have "Q9K_ProcSend m pid signal = Inr (Q9K_SchedWake m2 d)"
    using nz open_mask r1(3) unfolding Q9K_ProcSend_def Let_def d(1) m1_def [symmetric] m2_def [symmetric] by auto
  then show thesis using that sched_wake [OF r2(1) d(2) r2(2)] by blast
qed

text \<open>A blocked signal is only stored.\<close>

lemma send_blocked:
  assumes d: "Q9K_ProcLookup m pid = d" "d \<noteq> 0"
    and "signal \<noteq> Q9K_SIGNAL_KILL" "signal \<noteq> Q9K_SIGNAL_WAKE" "Q9K_GetU8 m (d + Q9K_PROCDESC_SIGLVL_OFF) \<noteq> 0"
  shows "Q9K_ProcSend m pid signal = Inr (Q9K_SetU16 m (d + Q9K_PROCDESC_SIGNAL_OFF) signal)"
  using assms unfolding Q9K_ProcSend_def Let_def by simp

section \<open>The mask\<close>

definition mask_level :: "u32 \<Rightarrow> u8 \<Rightarrow> u8" where
  "mask_level level lvl = (if level = 0 then 0
     else if level = 0xFFFFFFFF then (if lvl > 0 then lvl - 1 else lvl) else (if lvl < 255 then lvl + 1 else lvl))"

lemma SigMask_level:
  assumes "d \<noteq> 0" "Q9K_GetU32 m Q9_D_PROC = d" "state_of m d \<noteq> Q9K_PROCDESC_STATE_SLEEPING"
  shows "Q9K_ProcSigMask m level = Inr (Q9K_SetU8 m (d + Q9K_PROCDESC_SIGLVL_OFF)
     (mask_level level (Q9K_GetU8 m (d + Q9K_PROCDESC_SIGLVL_OFF))))"
proof -
  have "Q9K_SchedWake (Q9K_SetU8 m (d + 0x210) v) d = Q9K_SetU8 m (d + 0x210) v" for v
    using assms(3) by (intro sched_wake_awake) simp
  then show ?thesis using assms(1,2) by (simp add: Q9K_ProcSigMask_def mask_level_def Let_def)
qed

lemma mask_unmask: "lvl \<noteq> 255 \<Longrightarrow> level \<noteq> 0 \<Longrightarrow> level \<noteq> 0xFFFFFFFF \<Longrightarrow>
    mask_level 0xFFFFFFFF (mask_level level lvl) = lvl"
proof -
  assume "lvl \<noteq> 255" "level \<noteq> 0" "level \<noteq> 0xFFFFFFFF"
  moreover have "unat lvl \<noteq> 255" "unat lvl < 256"
    using \<open>lvl \<noteq> 255\<close> unsigned_less [of lvl] by (simp_all add: word_unat_eq_iff)
  then have "unat (lvl + 1) = unat lvl + 1" "lvl < 255" using unat_add_lem [of lvl 1] by (simp_all add: word_less_nat_alt)
  moreover from this(1) have "lvl + 1 > 0" by (simp add: word_less_nat_alt)
  ultimately show ?thesis by (simp add: mask_level_def)
qed

section \<open>Properties\<close>

text \<open>F$Sleep without a pending signal always returns.  An argument of one tick sends the caller to
  the end of the ready queue; any other argument to the end of the sleep queue in state sleeping, with
  \<open>t - 1\<close> ticks to go, or forever for zero.  Then the oldest ready process is dispatched, and 0 is
  returned exactly when nobody is ready.\<close>

theorem sleep_moves:
  assumes "sched_rep m P Q" "c \<in> P" "c \<notin> queued Q"
    and "stack_ok P (Q9K_GetU32 m (c + Q9K_PROCDESC_SAVEDSP_OFF)) 4"
    and "Q9K_GetU16 m (c + Q9K_PROCDESC_SIGNAL_OFF) = 0"
    and "sleep_ticks ticksIn = t" "Q' = Q(sleep_target t := Q (sleep_target t) @ [c])"
  shows "\<exists>b m'. Q9K_ProcSleep m c ticksIn = Some (b, m') \<and>
    sched_rep m' P (Q'(Q9K_READYQ_SENTINEL_ADDR := remove1 b (Q' Q9K_READYQ_SENTINEL_ADDR))) \<and>
    (b = 0 \<longleftrightarrow> Q' Q9K_READYQ_SENTINEL_ADDR = []) \<and>
    (t \<noteq> 1 \<longrightarrow> ticks_of m' c = (if t = 0 then Q9K_SLEEP_INFINITE else t - 1) \<and>
       state_of m' c = Q9K_PROCDESC_STATE_SLEEPING)"
  by (rule sleep_spec [OF assms]) blast

lemma ex_running_facts:
  "ex_running \<in> ex_procs" "ex_running \<notin> queued ex_queues" "stack_ok ex_procs 0x22000 4"
  by (auto simp: ex_procs_def queued_def sentinels_def ex_queues_def stack_ok_def)

lemma sleep_moves_witness:
  "\<exists>b m'. Q9K_ProcSleep ex_mem ex_running 7 = Some (b, m') \<and> ticks_of m' ex_running = 6 \<and> b \<noteq> 0"
proof -
  have t: "sleep_ticks 7 = 7" by (simp add: sleep_ticks_def)
  show ?thesis using sleep_moves [OF ex_rep ex_running_facts(1,2) _ _ t refl] ex_running_facts(3)
    by (auto simp: sleep_target_def ex_queues_def)
qed

text \<open>An argument with the high bit set is converted from 256ths of a second to the 100 Hz ticks,
  rounding down, for every value below 171798692 (about a week); beyond that the product exceeds 32
  bits.\<close>

theorem sleep_256ths:
  assumes "n < 171798692"
  shows "unat (sleep_ticks (0x80000000 OR of_nat n)) = n * 100 div 256"
  by (rule sleep_ticks_exact [OF assms])

lemma sleep_256ths_witness: "unat (sleep_ticks (0x80000000 OR of_nat 256)) = 100"
  using sleep_256ths [of 256] by simp

text \<open>C36: a request for one or two 256ths of a second is rounded to zero ticks, which means
  sleeping without a time limit: the caller is queued with the infinite tick count.\<close>

theorem sleep_short_forever:
  assumes "sched_rep m P Q" "c \<in> P" "c \<notin> queued Q"
    and "stack_ok P (Q9K_GetU32 m (c + Q9K_PROCDESC_SAVEDSP_OFF)) 4"
    and "Q9K_GetU16 m (c + Q9K_PROCDESC_SIGNAL_OFF) = 0" "n = 1 \<or> n = 2"
  shows "\<exists>b m'. Q9K_ProcSleep m c (0x80000000 OR of_nat n) = Some (b, m') \<and>
    ticks_of m' c = Q9K_SLEEP_INFINITE \<and> state_of m' c = Q9K_PROCDESC_STATE_SLEEPING"
proof -
  have "unat (sleep_ticks (0x80000000 OR of_nat n)) = 0" using sleep_ticks_exact [of n] assms(6) by auto
  then have "sleep_ticks (0x80000000 OR of_nat n) = 0" by (simp add: unat_eq_0)
  from sleep_spec [OF assms(1-5) this refl] show ?thesis by (metis zero_neq_one)
qed

lemma sleep_short_forever_witness:
  "\<exists>b m'. Q9K_ProcSleep ex_mem ex_running 0x80000002 = Some (b, m') \<and> ticks_of m' ex_running = Q9K_SLEEP_INFINITE"
  using sleep_short_forever [OF ex_rep ex_running_facts(1,2), of 2] ex_running_facts(3) by auto

text \<open>A signal to a sleeping process is stored and, unless the receiver blocks it, wakes the receiver:
  it leaves the sleep queue, joins the end of the ready queue and becomes active, with or without an
  intercept routine.  A blocked signal only becomes pending; kill and wake cannot be blocked.\<close>

theorem send_spec:
  assumes "sched_rep m P Q" "Q9K_ProcLookup m pid = d" "d \<in> set (Q Q9K_SLEEPQ_SENTINEL_ADDR)"
    and "state_of m d = Q9K_PROCDESC_STATE_SLEEPING"
    and "stack_ok P (Q9K_GetU32 m (d + Q9K_PROCDESC_SAVEDSP_OFF) - Q9K_FAKEFRAME_SIZE) Q9K_FAKEFRAME_SIZE"
  shows "\<exists>m'. Q9K_ProcSend m pid signal = Inr m' \<and>
    (if signal \<in> {Q9K_SIGNAL_KILL, Q9K_SIGNAL_WAKE} \<or> Q9K_GetU8 m (d + Q9K_PROCDESC_SIGLVL_OFF) = 0
     then sched_rep m' P (Q(Q9K_SLEEPQ_SENTINEL_ADDR := remove1 d (Q Q9K_SLEEPQ_SENTINEL_ADDR),
            Q9K_READYQ_SENTINEL_ADDR := Q Q9K_READYQ_SENTINEL_ADDR @ [d])) \<and>
          state_of m' d = Q9K_PROCDESC_STATE_ACTIVE
     else m' = Q9K_SetU16 m (d + Q9K_PROCDESC_SIGNAL_OFF) signal)"
proof (cases "signal \<in> {Q9K_SIGNAL_KILL, Q9K_SIGNAL_WAKE} \<or> Q9K_GetU8 m (d + Q9K_PROCDESC_SIGLVL_OFF) = 0")
  case True
  then show ?thesis using send_wakes [OF assms(1-4) _ assms(5), of signal] by (auto simp del: fun_upd_apply)
next
  case False
  have "d \<noteq> 0" using assms(3) sched_repD(1,3) [OF assms(1)] procs_okD desc_ok_nonzero sentinels_iff(3) by blast
  then show ?thesis using send_blocked [OF assms(2), of signal] False by auto
qed

lemma send_spec_witness:
  "\<exists>m'. Q9K_ProcSend ex_mem 2 5 = Inr m' \<and> state_of m' ex_sleeper = Q9K_PROCDESC_STATE_ACTIVE"
proof -
  have "Q9K_ProcLookup ex_mem 2 = ex_sleeper"
    by (simp add: Q9K_ProcLookup_def Q9K_ProcIsAllocated_def push_bit_eq_mult Let_def)
  moreover have "stack_ok ex_procs 0x20FBC 68" by (auto simp: stack_ok_def ex_procs_def)
  ultimately show ?thesis using send_spec [OF ex_rep, of 2 ex_sleeper 5] by (auto simp: ex_queues_def)
qed

text \<open>F$SigMask levels nest: raising the level of the running process and lowering it again
  restores the memory exactly, as long as the level was below its maximum.\<close>

theorem mask_nesting:
  assumes "desc_ok d" "Q9K_GetU32 m Q9_D_PROC = d" "state_of m d \<noteq> Q9K_PROCDESC_STATE_SLEEPING"
    and "Q9K_GetU8 m (d + Q9K_PROCDESC_SIGLVL_OFF) \<noteq> 255" "level \<noteq> 0" "level \<noteq> 0xFFFFFFFF"
  shows "\<exists>m1. Q9K_ProcSigMask m level = Inr m1 \<and>
    Q9K_GetU8 m1 (d + Q9K_PROCDESC_SIGLVL_OFF) = Q9K_GetU8 m (d + Q9K_PROCDESC_SIGLVL_OFF) + 1 \<and>
    Q9K_ProcSigMask m1 0xFFFFFFFF = Inr m"
proof -
  define v where "v = Q9K_GetU8 m (d + Q9K_PROCDESC_SIGLVL_OFF)"
  define m1 where "m1 = Q9K_SetU8 m (d + Q9K_PROCDESC_SIGLVL_OFF) (mask_level level v)"
  have nz: "d \<noteq> 0" by (rule desc_ok_nonzero [OF assms(1)])
  have lt: "v < 255" using assms(4) unsigned_less [of v, where 'a = nat]
    by (simp add: v_def [symmetric] word_less_nat_alt word_unat_eq_iff)
  have e1: "Q9K_ProcSigMask m level = Inr m1" unfolding m1_def v_def by (rule SigMask_level [OF nz assms(2,3)])
  have "Q9K_GetU32 m1 Q9_D_PROC = d" "state_of m1 d \<noteq> Q9K_PROCDESC_STATE_SLEEPING"
    using assms(1-3) by (simp_all add: m1_def desc_global)
  from SigMask_level [OF nz this] have "Q9K_ProcSigMask m1 0xFFFFFFFF = Inr (Q9K_SetU8 m (d + Q9K_PROCDESC_SIGLVL_OFF) v)"
    using mask_unmask [of v level] assms(4-6) by (simp add: m1_def v_def)
  moreover have "Q9K_SetU8 m (d + Q9K_PROCDESC_SIGLVL_OFF) v = m" unfolding v_def by (rule c8.put_get)
  ultimately show ?thesis using e1 lt assms(5,6) by (simp add: m1_def mask_level_def v_def)
qed

lemma mask_nesting_witness:
  "\<exists>m1. Q9K_ProcSigMask ex_mem 1 = Inr m1 \<and> Q9K_ProcSigMask m1 0xFFFFFFFF = Inr ex_mem"
proof -
  have "Q9K_GetU8 ex_mem 0x10A10 = 0"
    by (simp add: ex_mem_def ex_base_def Q9K_SchedInsert_def Q9K_SleepQInsert_def Q9K_ListAppend_def Let_def)
  then show ?thesis using mask_nesting [of ex_running ex_mem 1] by (auto simp: desc_ok_def)
qed

end
