(* ===== verification/Q9_Alarm.thy ===== *)
theory Q9_Alarm
  imports Q9_Clock Q9_ProcSleep
begin

text \<open>
  F$Alarm of \<^verbatim>\<open>q9kernel_alarm.c\<close>: a table of eight alarms (ID, owner, signal, remaining ticks, target
  day and second, cycle), the calls that set, reset and delete alarms, the per-tick countdown, and
  the one-shot console signal that the same tick checks.
\<close>

abbreviation Q9K_ALARM_BASE :: u32 where "Q9K_ALARM_BASE \<equiv> 0x1A00"
abbreviation Q9K_ALARM_STRIDE :: u32 where "Q9K_ALARM_STRIDE \<equiv> 28"
abbreviation Q9K_ALARM_ID :: "u32 \<Rightarrow> u32" where "Q9K_ALARM_ID i \<equiv> Q9K_ALARM_BASE + i * Q9K_ALARM_STRIDE"
abbreviation Q9K_ALARM_PID :: "u32 \<Rightarrow> u32" where "Q9K_ALARM_PID i \<equiv> Q9K_ALARM_ID i + 4"
abbreviation Q9K_ALARM_SIGNAL :: "u32 \<Rightarrow> u32" where "Q9K_ALARM_SIGNAL i \<equiv> Q9K_ALARM_ID i + 8"
abbreviation Q9K_ALARM_TICKS :: "u32 \<Rightarrow> u32" where "Q9K_ALARM_TICKS i \<equiv> Q9K_ALARM_ID i + 12"
abbreviation Q9K_ALARM_DAY :: "u32 \<Rightarrow> u32" where "Q9K_ALARM_DAY i \<equiv> Q9K_ALARM_ID i + 16"
abbreviation Q9K_ALARM_SEC :: "u32 \<Rightarrow> u32" where "Q9K_ALARM_SEC i \<equiv> Q9K_ALARM_ID i + 20"
abbreviation Q9K_ALARM_CYCLE :: "u32 \<Rightarrow> u32" where "Q9K_ALARM_CYCLE i \<equiv> Q9K_ALARM_ID i + 24"
abbreviation Q9K_ALARM_NEXTID :: u32 where "Q9K_ALARM_NEXTID \<equiv> 0x1AE0"

text \<open>The indices of the loop \<^verbatim>\<open>for (i = 0; i < Q9K_ALARM_SLOTS; ++i)\<close>.\<close>

abbreviation alarm_slots :: "u32 list" where "alarm_slots \<equiv> [0, 1, 2, 3, 4, 5, 6, 7]"

section \<open>Intervals\<close>

definition Q9K_AlarmIntervalToTicks :: "u32 \<Rightarrow> u32" where
  "Q9K_AlarmIntervalToTicks interval =
     (if interval AND 0x80000000 = 0 then interval
      else
        let n = interval AND 0x7FFFFFFF
        in (n div 256) * Q9K_TICKS_PER_SEC + ((n mod 256) * Q9K_TICKS_PER_SEC + 255) div 256)"

section \<open>Setting alarms\<close>

definition alarm_free_slot :: "memory \<Rightarrow> u32 option" where
  "alarm_free_slot m = List.find (\<lambda>i. Q9K_GetU32 m (Q9K_ALARM_ID i) = 0) alarm_slots"

definition alarm_new_id :: "memory \<Rightarrow> u32" where
  "alarm_new_id m = (let alarmId = Q9K_GetU32 m Q9K_ALARM_NEXTID + 1 in if alarmId = 0 then 1 else alarmId)"

definition Q9K_AlarmSet :: "memory \<Rightarrow> u16 \<Rightarrow> u32 \<Rightarrow> u32 \<Rightarrow> u16 + u32 \<times> memory" where
  "Q9K_AlarmSet m signal ticks0 cycleTicks0 =
     (let desc = Q9K_GetU32 m Q9_D_PROC;
          ticks = Q9K_AlarmIntervalToTicks ticks0;
          cycleTicks = Q9K_AlarmIntervalToTicks cycleTicks0
      in if ticks = 0 then Inl Q9K_E_BPADDR
         else if desc = 0 then Inl Q9K_E_PRCID
         else
           let pid = Q9K_ProcIdForDesc m desc in
           if pid = 0 then Inl Q9K_E_PRCID
           else case alarm_free_slot m of
             None \<Rightarrow> Inl Q9K_E_BPADDR
           | Some i \<Rightarrow>
               let alarmId = alarm_new_id m;
                   m1 = Q9K_SetU32 m Q9K_ALARM_NEXTID alarmId;
                   m2 = Q9K_SetU32 m1 (Q9K_ALARM_ID i) alarmId;
                   m3 = Q9K_SetU32 m2 (Q9K_ALARM_PID i) (ucast pid);
                   m4 = Q9K_SetU32 m3 (Q9K_ALARM_SIGNAL i) (ucast signal);
                   m5 = Q9K_SetU32 m4 (Q9K_ALARM_TICKS i) ticks;
                   m6 = Q9K_SetU32 m5 (Q9K_ALARM_CYCLE i) cycleTicks
               in Inr (alarmId, m6))"

definition Q9K_AlarmReset :: "memory \<Rightarrow> u32 \<Rightarrow> u16 \<Rightarrow> u32 \<Rightarrow> u16 + memory" where
  "Q9K_AlarmReset m alarmId signal ticks0 =
     (let desc = Q9K_GetU32 m Q9_D_PROC;
          ticks = Q9K_AlarmIntervalToTicks ticks0
      in if ticks = 0 then Inl Q9K_E_BPADDR
         else if desc = 0 then Inl Q9K_E_PRCID
         else
           let pid = Q9K_ProcIdForDesc m desc in
           if pid = 0 then Inl Q9K_E_PRCID
           else case List.find (\<lambda>i. Q9K_GetU32 m (Q9K_ALARM_ID i) = alarmId \<and>
                   Q9K_GetU32 m (Q9K_ALARM_PID i) = ucast pid) alarm_slots of
             None \<Rightarrow> Inl Q9K_E_BPADDR
           | Some i \<Rightarrow>
               let m1 = Q9K_SetU32 m (Q9K_ALARM_SIGNAL i) (ucast signal);
                   m2 = Q9K_SetU32 m1 (Q9K_ALARM_TICKS i) ticks;
                   m3 = Q9K_SetU32 m2 (Q9K_ALARM_DAY i) 0
               in Inr (Q9K_SetU32 m3 (Q9K_ALARM_SEC i) 0))"

definition Q9K_AlarmSetAbsolute :: "memory \<Rightarrow> u16 \<Rightarrow> u32 \<Rightarrow> u32 \<Rightarrow> u16 + u32 \<times> memory" where
  "Q9K_AlarmSetAbsolute m signal julianDay seconds =
     (let desc = Q9K_GetU32 m Q9_D_PROC in
      if julianDay = 0 \<or> seconds \<ge> 24 * 3600 then Inl Q9K_E_BPADDR
      else if desc = 0 then Inl Q9K_E_PRCID
      else
        let pid = Q9K_ProcIdForDesc m desc in
        if pid = 0 then Inl Q9K_E_PRCID
        else case alarm_free_slot m of
          None \<Rightarrow> Inl Q9K_E_BPADDR
        | Some i \<Rightarrow>
            let alarmId = alarm_new_id m;
                m1 = Q9K_SetU32 m Q9K_ALARM_NEXTID alarmId;
                m2 = Q9K_SetU32 m1 (Q9K_ALARM_ID i) alarmId;
                m3 = Q9K_SetU32 m2 (Q9K_ALARM_PID i) (ucast pid);
                m4 = Q9K_SetU32 m3 (Q9K_ALARM_SIGNAL i) (ucast signal);
                m5 = Q9K_SetU32 m4 (Q9K_ALARM_TICKS i) 0;
                m6 = Q9K_SetU32 m5 (Q9K_ALARM_DAY i) julianDay;
                m7 = Q9K_SetU32 m6 (Q9K_ALARM_SEC i) seconds;
                m8 = Q9K_SetU32 m7 (Q9K_ALARM_CYCLE i) 0
            in Inr (alarmId, m8))"

section \<open>Deleting alarms\<close>

definition alarm_clear :: "memory \<Rightarrow> u32 \<Rightarrow> memory" where
  "alarm_clear m i =
     (let m1 = Q9K_SetU32 m (Q9K_ALARM_ID i) 0;
          m2 = Q9K_SetU32 m1 (Q9K_ALARM_PID i) 0;
          m3 = Q9K_SetU32 m2 (Q9K_ALARM_SIGNAL i) 0;
          m4 = Q9K_SetU32 m3 (Q9K_ALARM_TICKS i) 0;
          m5 = Q9K_SetU32 m4 (Q9K_ALARM_DAY i) 0;
          m6 = Q9K_SetU32 m5 (Q9K_ALARM_SEC i) 0
      in Q9K_SetU32 m6 (Q9K_ALARM_CYCLE i) 0)"

definition Q9K_AlarmDelete_slot :: "u32 \<Rightarrow> u16 \<Rightarrow> u32 \<Rightarrow> memory \<Rightarrow> memory" where
  "Q9K_AlarmDelete_slot alarmId pid i m =
     (let slotId = Q9K_GetU32 m (Q9K_ALARM_ID i) in
      if slotId = 0 then m
      else if Q9K_GetU32 m (Q9K_ALARM_PID i) \<noteq> ucast pid then m
      else if alarmId \<noteq> 0 \<and> slotId \<noteq> alarmId then m
      else alarm_clear m i)"

definition Q9K_AlarmDelete :: "memory \<Rightarrow> u32 \<Rightarrow> u16 + memory" where
  "Q9K_AlarmDelete m alarmId =
     (let desc = Q9K_GetU32 m Q9_D_PROC in
      if desc = 0 then Inl Q9K_E_PRCID
      else Inr (fold (Q9K_AlarmDelete_slot alarmId (Q9K_ProcIdForDesc m desc)) alarm_slots m))"

definition Q9K_AlarmCleanupProcess :: "memory \<Rightarrow> u32 \<Rightarrow> memory" where
  "Q9K_AlarmCleanupProcess m desc =
     (if desc = 0 then m
      else
        let pid = Q9K_ProcIdForDesc m desc in
        if pid = 0 then m
        else fold (\<lambda>i m. if Q9K_GetU32 m (Q9K_ALARM_ID i) = 0 \<or> Q9K_GetU32 m (Q9K_ALARM_PID i) \<noteq> ucast pid
                          then m else alarm_clear m i) alarm_slots m)"

section \<open>The tick\<close>

text \<open>A failed F$Send leaves the memory as it is and the tick ignores the error.\<close>

definition send_ignore :: "memory \<Rightarrow> u16 \<Rightarrow> u16 \<Rightarrow> memory" where
  "send_ignore m pid signal = (case Q9K_ProcSend m pid signal of Inr m' \<Rightarrow> m' | Inl _ \<Rightarrow> m)"

definition Q9K_ConSSigTick :: "memory \<Rightarrow> u32 \<times> memory" where
  "Q9K_ConSSigTick m =
     (let pid = Q9K_GetU32 m 0x1F14 in
      if pid = 0 then (0, m)
      else if Q9K_GetU8 m 0xFFFFF002 AND 1 = 0 then (0, m)
      else
        let m1 = Q9K_SetU32 m 0x1F14 0
        in (1, send_ignore m1 (ucast pid) (ucast (Q9K_GetU32 m1 0x1F18))))"

text \<open>The loop state: the memory, the number of alarms fired and the clock reading, taken at most
  once per tick.\<close>

record alarm_tick =
  tickMem :: memory
  fired :: u32
  nowRead :: "(u32 \<times> u32) option"

definition alarm_fire :: "u32 \<Rightarrow> alarm_tick \<Rightarrow> alarm_tick" where
  "alarm_fire i s =
     (let m = tickMem s;
          packed = Q9K_GetU32 m (Q9K_ALARM_SIGNAL i);
          signal = ucast (packed AND 0xFFFF);
          cycle = Q9K_GetU32 m (Q9K_ALARM_CYCLE i);
          m1 = send_ignore m (ucast (Q9K_GetU32 m (Q9K_ALARM_PID i))) signal;
          m2 = (if cycle \<noteq> 0 then Q9K_SetU32 m1 (Q9K_ALARM_TICKS i) cycle else alarm_clear m1 i)
      in s\<lparr>tickMem := m2, fired := fired s + 1\<rparr>)"

definition Q9K_AlarmTick_slot :: "u32 \<Rightarrow> alarm_tick \<Rightarrow> alarm_tick" where
  "Q9K_AlarmTick_slot i s =
     (let m = tickMem s in
      if Q9K_GetU32 m (Q9K_ALARM_ID i) = 0 then s
      else
        let ticks = Q9K_GetU32 m (Q9K_ALARM_TICKS i) in
        if ticks = 0 then
          let day = Q9K_GetU32 m (Q9K_ALARM_DAY i);
              s1 = (case nowRead s of
                      Some _ \<Rightarrow> s
                    | None \<Rightarrow> let (now, m') = Q9K_ClockRead m in s\<lparr>tickMem := m', nowRead := Some now\<rparr>);
              (nowDay, nowSec) = the (nowRead s1)
          in if nowDay < day then s1
             else if nowDay = day \<and> nowSec < Q9K_GetU32 (tickMem s1) (Q9K_ALARM_SEC i) then s1
             else alarm_fire i s1
        else if ticks > 1 then s\<lparr>tickMem := Q9K_SetU32 m (Q9K_ALARM_TICKS i) (ticks - 1)\<rparr>
        else alarm_fire i s)"

definition Q9K_AlarmTick :: "memory \<Rightarrow> u32 \<times> memory" where
  "Q9K_AlarmTick m =
     (let m0 = snd (Q9K_ConSSigTick m);
          s = fold Q9K_AlarmTick_slot alarm_slots \<lparr>tickMem = m0, fired = 0, nowRead = None\<rparr>
      in (fired s, tickMem s))"

section \<open>F$Alarm\<close>

definition Q9K_SysAlarmImpl :: "memory \<Rightarrow> memory" where
  "Q9K_SysAlarmImpl m =
     (let func = Q9K_GetU32 m 0x1B00 AND 0xFFFF;
          idIn = Q9K_GetU32 m 0x1B04;
          signal = ucast (Q9K_GetU32 m 0x1B08) :: u16;
          iv = Q9K_GetU32 m 0x1B0C;
          date = Q9K_GetU32 m 0x1B18;
          r = (if func = 0 then map_sum id (Pair 0) (Q9K_AlarmDelete m idIn)
               else if func = 1 then Q9K_AlarmSet m signal iv 0
               else if func = 2 then Q9K_AlarmSet m signal iv iv
               else if func = 4 then Q9K_AlarmSetAbsolute m signal date iv
               else if func = 3 then
                 let jd = Q9K_JulianFromDate (drop_bit 16 date AND 0xFFFF) (drop_bit 8 date AND 0xFF) (date AND 0xFF);
                     hh = drop_bit 16 iv AND 0xFF;
                     mm = drop_bit 8 iv AND 0xFF;
                     ss = iv AND 0xFF
                 in if jd = 0 \<or> hh > 23 \<or> mm > 59 \<or> ss > 59 then Inl Q9K_E_BPADDR
                    else Q9K_AlarmSetAbsolute m signal jd (hh * 3600 + mm * 60 + ss)
               else if func = 5 then map_sum id (Pair idIn) (Q9K_AlarmReset m idIn signal iv)
               else Inl Q9K_E_UNKSVC)
      in case r of
           Inr (alarmId, m') \<Rightarrow> Q9K_SetU32 (Q9K_SetU32 m' 0x1B04 alarmId) 0x1B14 1
         | Inl err \<Rightarrow> Q9K_SetU32 (Q9K_SetU32 m 0x1B10 (ucast err)) 0x1B14 0)"

end
