(* ===== verification/Q9_Kernel.thy ===== *)
theory Q9_Kernel
  imports Q9_Alarm
begin

text \<open>
  The invariant of the process management as a whole: the queues are well formed, a descriptor is
  in state sleeping exactly when it is on the sleep queue, and the process pool consists of known
  descriptors.  Signals, alarms and the clock preserve it; what they can do to the queues is to
  wake sleepers.
\<close>

section \<open>The invariant\<close>

definition pool_in :: "u32 set \<Rightarrow> memory \<Rightarrow> bool" where
  "pool_in P m \<longleftrightarrow> (\<forall>k < Q9K_GetU32 m Q9K_PROCPOOL_COUNT_ADDR.
     Q9K_GetU32 m Q9K_PROCPOOL_BASE_ADDR + push_bit 10 k \<in> P)"

definition kernel_ok :: "u32 set \<Rightarrow> queues \<Rightarrow> memory \<Rightarrow> bool" where
  "kernel_ok P Q m \<longleftrightarrow> sched_rep m P Q \<and> pool_in P m \<and>
     (\<forall>d\<in>P. state_of m d = Q9K_PROCDESC_STATE_SLEEPING \<longleftrightarrow> d \<in> set (Q Q9K_SLEEPQ_SENTINEL_ADDR))"

text \<open>\<open>room P n m\<close>: below every saved stack pointer there is space for \<open>n\<close> more intercept frames.\<close>

definition room :: "u32 set \<Rightarrow> nat \<Rightarrow> memory \<Rightarrow> bool" where
  "room P n m \<longleftrightarrow> (\<forall>d\<in>P. stack_ok P (Q9K_GetU32 m (d + Q9K_PROCDESC_SAVEDSP_OFF) - of_nat (68 * n)) (of_nat (68 * n)))"

definition same_globals :: "memory \<Rightarrow> memory \<Rightarrow> bool" where
  "same_globals m m' \<longleftrightarrow>
     (\<forall>g\<in>{Q9_D_PROC, Q9K_PROCPOOL_BASE_ADDR, Q9K_PROCPOOL_COUNT_ADDR, Q9K_SCHED_NOSWITCH_ADDR}.
        Q9K_GetU32 m' g = Q9K_GetU32 m g) \<and>
     (\<forall>g\<in>{Q9K_SCHED_SLICE_ADDR, Q9K_SCHED_MINPTY_ADDR, Q9K_SCHED_MAXAGE_ADDR}. Q9K_GetU16 m' g = Q9K_GetU16 m g)"

lemma same_globals_refl [simp]: "same_globals m m"
  by (simp add: same_globals_def)

lemma same_globals_trans [trans]: "same_globals m m1 \<Longrightarrow> same_globals m1 m2 \<Longrightarrow> same_globals m m2"
  by (simp add: same_globals_def)

lemma same_globals_get:
  assumes "same_globals m m'"
  shows "Q9K_GetU32 m' Q9_D_PROC = Q9K_GetU32 m Q9_D_PROC"
    "Q9K_GetU32 m' Q9K_SCHED_NOSWITCH_ADDR = Q9K_GetU32 m Q9K_SCHED_NOSWITCH_ADDR"
    "Q9K_GetU16 m' Q9K_SCHED_SLICE_ADDR = Q9K_GetU16 m Q9K_SCHED_SLICE_ADDR"
    "Q9K_GetU16 m' Q9K_SCHED_MINPTY_ADDR = Q9K_GetU16 m Q9K_SCHED_MINPTY_ADDR"
    "Q9K_GetU32 m' Q9K_PROCPOOL_BASE_ADDR = Q9K_GetU32 m Q9K_PROCPOOL_BASE_ADDR"
    "Q9K_GetU32 m' Q9K_PROCPOOL_COUNT_ADDR = Q9K_GetU32 m Q9K_PROCPOOL_COUNT_ADDR"
  using assms by (simp_all add: same_globals_def)

lemma pool_in_same: "same_globals m m' \<Longrightarrow> pool_in P m' = pool_in P m"
  by (simp add: pool_in_def same_globals_get)

lemma lookup_in:
  assumes "pool_in P m" "Q9K_ProcLookup m pid \<noteq> 0" shows "Q9K_ProcLookup m pid \<in> P"
proof -
  let ?k = "ucast pid - 1 :: u32" and ?c = "Q9K_GetU32 m Q9K_PROCPOOL_COUNT_ADDR"
  have l: "pid \<noteq> 0" "ucast pid \<le> ?c"
    "Q9K_ProcLookup m pid = Q9K_GetU32 m Q9K_PROCPOOL_BASE_ADDR + push_bit 10 ?k"
    using assms(2) by (auto simp: Q9K_ProcLookup_def Let_def split: if_splits)
  have u: "unat pid \<noteq> 0" using l(1) by (simp add: unat_eq_0)
  then have "(ucast pid :: u32) \<noteq> 0" using unat_ucast_up(1) [of pid] by (metis unat_0)
  then have "?k < ucast pid" using u by (simp add: word_less_nat_alt unat_minus_one)
  then have "?k < ?c" using l(2) by simp
  then show ?thesis using assms(1) l(3) by (simp add: pool_in_def)
qed

section \<open>Frame lemmas\<close>

lemma pid_frame:
  assumes "Q9K_GetU32 m' Q9K_PROCPOOL_BASE_ADDR = Q9K_GetU32 m Q9K_PROCPOOL_BASE_ADDR"
    "Q9K_GetU32 m' Q9K_PROCPOOL_COUNT_ADDR = Q9K_GetU32 m Q9K_PROCPOOL_COUNT_ADDR"
    "Q9K_GetU8 m' (d + Q9K_PROCDESC_STATE_OFF) = Q9K_GetU8 m (d + Q9K_PROCDESC_STATE_OFF)"
  shows "Q9K_ProcIdForDesc m' d = Q9K_ProcIdForDesc m d"
  using assms by (simp add: Q9K_ProcIdForDesc_def Q9K_ProcIsAllocated_def Let_def)

text \<open>The fields of a descriptor the invariant speaks of.\<close>

definition same_desc :: "memory \<Rightarrow> memory \<Rightarrow> u32 \<Rightarrow> bool" where
  "same_desc m m' d \<longleftrightarrow> state_of m' d = state_of m d \<and>
     Q9K_GetU32 m' (d + Q9K_PROCDESC_SAVEDSP_OFF) = Q9K_GetU32 m (d + Q9K_PROCDESC_SAVEDSP_OFF)"

lemma same_fields_desc: "same_fields P m m' \<Longrightarrow> d \<in> P \<Longrightarrow> same_desc m m' d"
  using same_fields_get(1) [of P m m' d "0x1D"] same_fields_get(3) [of P m m' d "8"] by (simp add: same_desc_def)

text \<open>The fields the scheduler computes with.\<close>

definition same_times :: "memory \<Rightarrow> memory \<Rightarrow> u32 \<Rightarrow> bool" where
  "same_times m m' d \<longleftrightarrow> prio_of m' d = prio_of m d \<and> age_of m' d = age_of m d \<and> ticks_of m' d = ticks_of m d"

lemma same_fields_times: "same_fields P m m' \<Longrightarrow> d \<in> P \<Longrightarrow> same_times m m' d"
  using same_fields_get(1) [of P m m' d "0x19"] same_fields_get(2) [of P m m' d "0x1A"] same_fields_get(3) [of P m m' d "0x1C4"]
  by (simp add: same_times_def)

lemma same_times_trans: "same_times m m1 d \<Longrightarrow> same_times m1 m2 d \<Longrightarrow> same_times m m2 d"
  by (simp add: same_times_def)

lemma only_links_globals: "procs_ok P \<Longrightarrow> only_links P m m' \<Longrightarrow> same_globals m m'"
  unfolding same_globals_def using only_links_get(2,3) [of P m m'] by (simp add: off_links_global)

lemma within_globals: "stack_ok P f n \<Longrightarrow> within f n m m' \<Longrightarrow> same_globals m m'"
  unfolding same_globals_def using within_get(2,3) [of f n m m'] stack_global [of P f n] by simp

lemma field_globals:
  assumes "desc_ok d"
  shows "unat i + 1 \<le> 0x400 \<Longrightarrow> same_globals m (Q9K_SetU8 m (d + i) v8)"
    and "unat i + 2 \<le> 0x400 \<Longrightarrow> same_globals m (Q9K_SetU16 m (d + i) v16)"
    and "unat i + 4 \<le> 0x400 \<Longrightarrow> same_globals m (Q9K_SetU32 m (d + i) v32)"
  unfolding same_globals_def by (simp_all add: desc_global [OF assms])

lemma field_other:
  assumes "procs_ok P" "d \<in> P" "y \<in> P" "y \<noteq> d"
  shows "i + 1 \<le> 0x400 \<Longrightarrow> i \<le> i + 1 \<Longrightarrow> same_desc m (Q9K_SetU8 m (d + i) v8) y"
    and "i + 2 \<le> 0x400 \<Longrightarrow> i \<le> i + 2 \<Longrightarrow> same_desc m (Q9K_SetU16 m (d + i) v16) y"
    and "i + 4 \<le> 0x400 \<Longrightarrow> i \<le> i + 4 \<Longrightarrow> same_desc m (Q9K_SetU32 m (d + i) v32) y"
  unfolding same_desc_def using assms by (simp_all add: desc_fields_apart)

lemma same_desc_trans: "same_desc m m1 d \<Longrightarrow> same_desc m1 m2 d \<Longrightarrow> same_desc m m2 d"
  by (simp add: same_desc_def)

text \<open>The alarm table, the clock and the console cells: kernel globals that no queue uses.\<close>

abbreviation tick_area :: "memory \<Rightarrow> memory \<Rightarrow> bool" where
  "tick_area \<equiv> within 0x1A00 0x600"

lemma tick_area_frame:
  assumes P: "procs_ok P" and w: "tick_area m m'"
  shows "same_globals m m'" "same_fields P m m'" "sched_rep m' P Q = sched_rep m P Q"
proof -
  show "same_globals m m'" unfolding same_globals_def using within_get(2,3) [OF w] by simp
  have a: "apart 0x1A00 0x600 (d + i) k" if "d \<in> P" "unat i + unat k \<le> 0x400" for d i k
    using that procs_okD [OF P] by (intro desc_global(2)) auto
  show "same_fields P m m'" unfolding same_fields_def
  proof (intro ballI allI impI)
    fix d i :: u32 assume "d \<in> P" "i < 0x400"
    then show "m' (d + i) = m (d + i)"
      using within_get(1) [OF w a, of d i] small_offset [of i] by (simp add: Q9K_GetU8_def)
  qed
  have "apart 0x1A00 0x600 (x + 0x30) 4" "apart 0x1A00 0x600 (x + 0x34) 4" if "x \<in> sentinels \<union> P" for x
    using that a by (auto simp: sentinels_def)
  then show "sched_rep m' P Q = sched_rep m P Q" by (intro sched_rep_links within_get(3) [OF w])
qed

text \<open>What the scheduler itself changes is not in this area.\<close>

definition same_area :: "memory \<Rightarrow> memory \<Rightarrow> bool" where
  "same_area m m' \<longleftrightarrow> (\<forall>g. 0x1A00 \<le> unat g \<longrightarrow> unat g \<le> 0x1FFC \<longrightarrow> Q9K_GetU32 m' g = Q9K_GetU32 m g)"

lemma same_area_refl [simp]: "same_area m m"
  by (simp add: same_area_def)

lemma same_area_trans [trans]: "same_area m m1 \<Longrightarrow> same_area m1 m2 \<Longrightarrow> same_area m m2"
  by (simp add: same_area_def)

lemma only_links_area:
  assumes "procs_ok P" "only_links P m m'" shows "same_area m m'"
  unfolding same_area_def
proof (intro allI impI)
  fix g :: u32 assume g: "0x1A00 \<le> unat g" "unat g \<le> 0x1FFC"
  then have "apart g 4 0x1270 8" "apart g 4 0x12D0 8" "apart g 4 0x1320 8" by (auto intro!: apart_ranges)
  then show "Q9K_GetU32 m' g = Q9K_GetU32 m g" using g by (intro only_links_get(3) [OF assms(2)] off_links_global [OF assms(1)]) simp_all
qed

lemma field_area:
  assumes "desc_ok d"
  shows "unat i + 1 \<le> 0x400 \<Longrightarrow> same_area m (Q9K_SetU8 m (d + i) v8)"
    and "unat i + 2 \<le> 0x400 \<Longrightarrow> same_area m (Q9K_SetU16 m (d + i) v16)"
    and "unat i + 4 \<le> 0x400 \<Longrightarrow> same_area m (Q9K_SetU32 m (d + i) v32)"
  unfolding same_area_def by (simp_all add: desc_global [OF assms])

text \<open>A change that keeps queues, globals, states and saved stack pointers keeps the invariant.\<close>

lemma kernel_ok_same:
  assumes "kernel_ok P Q m" "sched_rep m' P Q = sched_rep m P Q" "same_globals m m'" "\<And>d. d \<in> P \<Longrightarrow> state_of m' d = state_of m d"
  shows "kernel_ok P Q m'"
  using assms by (simp add: kernel_ok_def pool_in_same)

lemma room_same:
  assumes "room P n m" "\<And>d. d \<in> P \<Longrightarrow> same_desc m m' d" shows "room P n m'"
  using assms by (simp add: room_def same_desc_def)

section \<open>Stack room\<close>

lemma stack_ok_sub:
  assumes "stack_ok P f N" "i + n \<le> N" "i \<le> i + n" shows "stack_ok P (f + i) n"
  using assms apart_sub [of f N 0 "0x8000" i n 0 "0x8000"] apart_sub [of f N _ "0x400" i n 0 "0x400"]
  by (auto simp: stack_ok_def)

lemma stack_room_Suc:
  assumes "stack_ok P (f - of_nat (68 * Suc n)) (of_nat (68 * Suc n))" "n < 1000"
  shows "stack_ok P (f - 68) 68" "stack_ok P (f - of_nat (68 * n)) (of_nat (68 * n))"
    "stack_ok P (f - 68 - of_nat (68 * n)) (of_nat (68 * n))"
proof -
  define N k :: u32 where "N = of_nat (68 * Suc n)" and "k = of_nat (68 * n)"
  have e: "N = k + 68" by (simp add: N_def k_def)
  have u: "unat k = 68 * n" unfolding k_def using assms(2) by (intro unat_of_nat_u32) simp
  then have "unat (k + 68) = 68 * n + 68" using assms(2) unat_offset [of k 68] by simp
  then have le: "k \<le> k + 68" "68 \<le> k + 68" using u by (simp_all add: word_le_nat_alt)
  have s: "stack_ok P (f - N) N" using assms(1) by (simp only: N_def)
  show "stack_ok P (f - 68) 68" using stack_ok_sub [OF s, of k 68] e le by simp
  show "stack_ok P (f - of_nat (68 * n)) (of_nat (68 * n))"
    using stack_ok_sub [OF s, of 68 k] e le unfolding k_def [symmetric] by (simp add: add.commute [of 68])
  show "stack_ok P (f - 68 - of_nat (68 * n)) (of_nat (68 * n))"
    using stack_ok_sub [OF s, of 0 k] e le unfolding k_def [symmetric] by (simp add: algebra_simps)
qed

lemma room_mono: "room P (Suc n) m \<Longrightarrow> n < 1000 \<Longrightarrow> room P n m"
  unfolding room_def using stack_room_Suc(2) by blast

section \<open>Waking\<close>

text \<open>\<open>wakes Q Q'\<close>: some sleepers have moved to the end of the ready queue.\<close>

definition woken :: "u32 list \<Rightarrow> queues \<Rightarrow> queues" where
  "woken ws Q = Q(Q9K_SLEEPQ_SENTINEL_ADDR := filter (\<lambda>x. x \<notin> set ws) (Q Q9K_SLEEPQ_SENTINEL_ADDR),
     Q9K_READYQ_SENTINEL_ADDR := Q Q9K_READYQ_SENTINEL_ADDR @ ws)"

definition wakes :: "queues \<Rightarrow> queues \<Rightarrow> bool" where
  "wakes Q Q' \<longleftrightarrow> (\<exists>ws. distinct ws \<and> set ws \<subseteq> set (Q Q9K_SLEEPQ_SENTINEL_ADDR) \<and> Q' = woken ws Q)"

lemma wakes_refl [simp]: "wakes Q Q"
  unfolding wakes_def by (rule exI [of _ "[]"]) (simp add: woken_def)

lemma wakes_trans [trans]:
  assumes "wakes Q Q1" "wakes Q1 Q2" shows "wakes Q Q2"
proof -
  obtain ws vs where w: "distinct ws" "set ws \<subseteq> set (Q Q9K_SLEEPQ_SENTINEL_ADDR)" "Q1 = woken ws Q"
    "distinct vs" "set vs \<subseteq> set (Q1 Q9K_SLEEPQ_SENTINEL_ADDR)" "Q2 = woken vs Q1"
    using assms unfolding wakes_def by blast
  have "Q2 = woken (ws @ vs) Q" by (auto simp: w(3,6) woken_def fun_eq_iff conj_commute intro: filter_cong)
  then show ?thesis unfolding wakes_def using w by (intro exI [of _ "ws @ vs"]) (auto simp: woken_def)
qed

lemma wakes_one:
  assumes "d \<in> set (Q Q9K_SLEEPQ_SENTINEL_ADDR)" "distinct (Q Q9K_SLEEPQ_SENTINEL_ADDR)"
  shows "wakes Q (Q(Q9K_SLEEPQ_SENTINEL_ADDR := remove1 d (Q Q9K_SLEEPQ_SENTINEL_ADDR),
    Q9K_READYQ_SENTINEL_ADDR := Q Q9K_READYQ_SENTINEL_ADDR @ [d]))"
  unfolding wakes_def
  by (rule exI [of _ "[d]"])
    (use assms in \<open>simp add: woken_def distinct_remove1_removeAll removeAll_filter_not_eq eq_commute [of d]\<close>)

lemma wakes_queued: "wakes Q Q' \<Longrightarrow> queued Q' = queued Q"
  unfolding wakes_def woken_def queued_def sentinels_def by auto

lemma kernel_okD:
  assumes "kernel_ok P Q m"
  shows "sched_rep m P Q" "pool_in P m" "procs_ok P"
    "d \<in> P \<Longrightarrow> state_of m d = Q9K_PROCDESC_STATE_SLEEPING \<longleftrightarrow> d \<in> set (Q Q9K_SLEEPQ_SENTINEL_ADDR)"
  using assms sched_repD(1) by (auto simp: kernel_ok_def)

lemma insert_frame:
  assumes "sched_rep m P Q" "d \<in> P" "d \<notin> queued Q"
  shows "same_globals m (Q9K_SchedInsert m d)" "y \<in> P \<Longrightarrow> same_desc m (Q9K_SchedInsert m d) y"
proof -
  let ?m = "Q9K_SetU16 m (d + Q9K_PROCDESC_AGE_OFF) (ucast (Q9K_GetU8 m (d + Q9K_PROCDESC_PRIORITY_OFF)))"
  have P: "procs_ok P" by (rule sched_repD(1) [OF assms(1)])
  note o = sched_insert(2) [OF assms]
  have "same_globals m ?m" by (rule field_globals(2) [OF procs_okD [OF P assms(2)]]) simp
  also have "same_globals ?m (Q9K_SchedInsert m d)" by (rule only_links_globals [OF P o])
  finally show "same_globals m (Q9K_SchedInsert m d)" .
  assume y: "y \<in> P"
  have "same_desc m ?m y" using field_other(2) [OF P assms(2) y] by (cases "y = d") (simp_all add: same_desc_def)
  moreover have "same_desc ?m (Q9K_SchedInsert m d) y" by (rule same_fields_desc [OF only_links_same_fields [OF P o] y])
  ultimately show "same_desc m (Q9K_SchedInsert m d) y" by (rule same_desc_trans)
qed

lemma reinsert_frame:
  assumes r: "sched_rep m P Q" and d: "d \<in> set (Q Q9K_SLEEPQ_SENTINEL_ADDR)"
    and m': "m' = Q9K_SchedInsert (Q9K_SetU8 (Q9K_ListUnlink m d) (d + Q9K_PROCDESC_STATE_OFF) Q9K_PROCDESC_STATE_ACTIVE) d"
  shows "same_globals m m'" "y \<in> P \<Longrightarrow> y \<noteq> d \<Longrightarrow> same_desc m m' y"
    "Q9K_GetU32 m' (d + Q9K_PROCDESC_SAVEDSP_OFF) = Q9K_GetU32 m (d + Q9K_PROCDESC_SAVEDSP_OFF)" "same_area m m'"
proof -
  let ?S = "Q9K_SLEEPQ_SENTINEL_ADDR" and ?m1 = "Q9K_ListUnlink m d"
  let ?m2 = "Q9K_SetU8 ?m1 (d + Q9K_PROCDESC_STATE_OFF) Q9K_PROCDESC_STATE_ACTIVE"
  have P: "procs_ok P" and dP: "d \<in> P" using sched_repD(1) [OF r] sched_repD(3) [OF r, of ?S] d by auto
  have r2: "sched_rep ?m2 P (Q(?S := remove1 d (Q ?S)))" using sched_remove(1) [OF r d] P dP by simp
  have nq: "d \<notin> queued (Q(?S := remove1 d (Q ?S)))"
    using d sched_repD(4) [OF r, of ?S] sched_repD(5) [OF r, of ?S _ d] by (auto simp: queued_def sentinels_def)
  have o: "only_links P m ?m1" by (rule sched_remove(2) [OF r d]) simp
  note fi = insert_frame [OF r2 dP nq, folded m']
  have "same_globals m ?m1" by (rule only_links_globals [OF P o])
  also have "same_globals ?m1 ?m2" by (rule field_globals(1) [OF procs_okD [OF P dP]]) simp
  also note fi(1)
  finally show "same_globals m m'" .
  have 1: "y \<in> P \<Longrightarrow> same_desc m ?m1 y" for y by (rule same_fields_desc [OF only_links_same_fields [OF P o]])
  show "y \<in> P \<Longrightarrow> y \<noteq> d \<Longrightarrow> same_desc m m' y"
    using same_desc_trans [OF same_desc_trans [OF 1 field_other(1) [OF P dP]] fi(2)] by simp
  show "Q9K_GetU32 m' (d + Q9K_PROCDESC_SAVEDSP_OFF) = Q9K_GetU32 m (d + Q9K_PROCDESC_SAVEDSP_OFF)"
    using 1 [OF dP] fi(2) [OF dP] by (simp add: same_desc_def)
  have "same_area m ?m1" by (rule only_links_area [OF P o])
  also have "same_area ?m1 ?m2" by (rule field_area(1) [OF procs_okD [OF P dP]]) simp
  also have "same_area ?m2 (Q9K_SetU16 ?m2 (d + Q9K_PROCDESC_AGE_OFF) (ucast (prio_of ?m2 d)))"
    by (rule field_area(2) [OF procs_okD [OF P dP]]) simp
  also have "same_area (Q9K_SetU16 ?m2 (d + Q9K_PROCDESC_AGE_OFF) (ucast (prio_of ?m2 d))) m'"
    unfolding m' by (rule only_links_area [OF P sched_insert(2) [OF r2 dP nq]])
  finally show "same_area m m'" .
qed

text \<open>\<open>evolves P Q m Q' m'\<close>: a step that wakes some sleepers, keeps the invariant, the scheduler's globals
  and the state of every process that was not asleep.\<close>

definition evolves :: "u32 set \<Rightarrow> queues \<Rightarrow> memory \<Rightarrow> queues \<Rightarrow> memory \<Rightarrow> bool" where
  "evolves P Q m Q' m' \<longleftrightarrow> wakes Q Q' \<and> kernel_ok P Q' m' \<and> same_globals m m' \<and>
     (\<forall>y\<in>P. y \<notin> set (Q Q9K_SLEEPQ_SENTINEL_ADDR) \<longrightarrow> state_of m' y = state_of m y)"

lemma evolves_refl: "kernel_ok P Q m \<Longrightarrow> evolves P Q m Q m"
  by (simp add: evolves_def)

lemma wakes_sleepers: "wakes Q Q' \<Longrightarrow> set (Q' Q9K_SLEEPQ_SENTINEL_ADDR) \<subseteq> set (Q Q9K_SLEEPQ_SENTINEL_ADDR)"
  unfolding wakes_def woken_def by auto

lemma evolves_trans:
  assumes "evolves P Q m Q1 m1" "evolves P Q1 m1 Q2 m2" shows "evolves P Q m Q2 m2"
proof -
  have w: "wakes Q Q1" "wakes Q1 Q2" and g: "same_globals m m1" "same_globals m1 m2"
    using assms by (auto simp: evolves_def)
  have "\<forall>y\<in>P. y \<notin> set (Q Q9K_SLEEPQ_SENTINEL_ADDR) \<longrightarrow> state_of m2 y = state_of m y"
    using assms wakes_sleepers [OF w(1)] unfolding evolves_def by auto
  then show ?thesis using wakes_trans [OF w] same_globals_trans [OF g] assms(2) by (simp add: evolves_def)
qed

lemma evolvesD:
  assumes "evolves P Q m Q' m'"
  shows "wakes Q Q'" "kernel_ok P Q' m'" "same_globals m m'"
    "y \<in> P \<Longrightarrow> y \<notin> set (Q Q9K_SLEEPQ_SENTINEL_ADDR) \<Longrightarrow> state_of m' y = state_of m y"
  using assms by (auto simp: evolves_def)

lemma evolves_same:
  assumes "kernel_ok P Q m" "sched_rep m' P Q = sched_rep m P Q" "same_globals m m'" "\<And>d. d \<in> P \<Longrightarrow> state_of m' d = state_of m d"
  shows "evolves P Q m Q m'"
  using assms kernel_ok_same [OF assms] by (simp add: evolves_def)

text \<open>\<open>times_kept P Q m Q' m'\<close>: of priorities, ages and sleep ticks only the ages of the woken sleepers change; they are set to the
  priority.  \<open>rouses\<close> is a step that wakes sleepers in this way.\<close>

definition times_kept :: "u32 set \<Rightarrow> queues \<Rightarrow> memory \<Rightarrow> queues \<Rightarrow> memory \<Rightarrow> bool" where
  "times_kept P Q m Q' m' \<longleftrightarrow> (\<forall>y\<in>P. prio_of m' y = prio_of m y \<and> ticks_of m' y = ticks_of m y \<and>
     age_of m' y = (if y \<in> set (Q Q9K_SLEEPQ_SENTINEL_ADDR) \<and> y \<notin> set (Q' Q9K_SLEEPQ_SENTINEL_ADDR) then ucast (prio_of m y) else age_of m y))"

lemma times_keptD:
  assumes "times_kept P Q m Q' m'" "y \<in> P"
  shows "prio_of m' y = prio_of m y" "ticks_of m' y = ticks_of m y"
    "age_of m' y = (if y \<in> set (Q Q9K_SLEEPQ_SENTINEL_ADDR) \<and> y \<notin> set (Q' Q9K_SLEEPQ_SENTINEL_ADDR) then ucast (prio_of m y) else age_of m y)"
  using assms by (simp_all add: times_kept_def)

definition rouses :: "u32 set \<Rightarrow> queues \<Rightarrow> memory \<Rightarrow> queues \<Rightarrow> memory \<Rightarrow> bool" where
  "rouses P Q m Q' m' \<longleftrightarrow> evolves P Q m Q' m' \<and> times_kept P Q m Q' m'"

lemma rousesD:
  assumes "rouses P Q m Q' m'"
  shows "wakes Q Q'" "kernel_ok P Q' m'" "same_globals m m'"
    "y \<in> P \<Longrightarrow> y \<notin> set (Q Q9K_SLEEPQ_SENTINEL_ADDR) \<Longrightarrow> state_of m' y = state_of m y" "times_kept P Q m Q' m'" "evolves P Q m Q' m'"
  using assms evolvesD [of P Q m Q' m'] by (auto simp: rouses_def)

lemma rouses_refl: "kernel_ok P Q m \<Longrightarrow> rouses P Q m Q m"
  by (simp add: rouses_def evolves_refl times_kept_def)

lemma rouses_trans:
  assumes "rouses P Q m Q1 m1" "rouses P Q1 m1 Q2 m2" shows "rouses P Q m Q2 m2"
proof -
  note a = rousesD [OF assms(1)] and b = rousesD [OF assms(2)]
  have "times_kept P Q m Q2 m2" unfolding times_kept_def
    using times_keptD [OF a(5)] times_keptD [OF b(5)] wakes_sleepers [OF a(1)] wakes_sleepers [OF b(1)] by auto
  then show ?thesis using evolves_trans [OF a(6) b(6)] by (simp add: rouses_def)
qed

lemma rouses_same:
  assumes "kernel_ok P Q m" "sched_rep m' P Q = sched_rep m P Q" "same_globals m m'" "\<And>d. d \<in> P \<Longrightarrow> state_of m' d = state_of m d"
    and "\<And>d. d \<in> P \<Longrightarrow> same_times m m' d"
  shows "rouses P Q m Q m'"
  using evolves_same [OF assms(1-4)] assms(5) by (simp add: rouses_def times_kept_def same_times_def)

lemma tick_area_rouses:
  assumes "kernel_ok P Q m" "tick_area m m'" shows "rouses P Q m Q m'" "room P n m \<Longrightarrow> room P n m'"
proof -
  note fr = tick_area_frame [OF kernel_okD(3) [OF assms(1)] assms(2)]
  have d: "d \<in> P \<Longrightarrow> same_desc m m' d" for d using same_fields_desc [OF fr(2)] .
  show "rouses P Q m Q m'"
    by (rule rouses_same [OF assms(1) fr(3) fr(1)]) (use d same_fields_times [OF fr(2)] in \<open>simp_all add: same_desc_def\<close>)
  show "room P n m \<Longrightarrow> room P n m'" using room_same d by blast
qed

lemma wake_ok:
  assumes k: "kernel_ok P Q m" and d: "d \<in> P" and m': "m' = Q9K_SchedWake m d"
  shows "\<exists>Q'. rouses P Q m Q' m'" "room P n m \<Longrightarrow> room P n m'"
proof -
  let ?S = "Q9K_SLEEPQ_SENTINEL_ADDR"
  note kd = kernel_okD [OF k]
  have "(\<exists>Q'. rouses P Q m Q' m') \<and> (room P n m \<longrightarrow> room P n m')"
  proof (cases "d \<in> set (Q ?S)")
    case False
    then have "m' = m" using kd(4) [OF d] m' by (simp add: sched_wake_awake)
    then show ?thesis using rouses_refl [OF k] by auto
  next
    case True
    let ?Q = "Q(?S := remove1 d (Q ?S), Q9K_READYQ_SENTINEL_ADDR := Q Q9K_READYQ_SENTINEL_ADDR @ [d])"
    have sl: "state_of m d = Q9K_PROCDESC_STATE_SLEEPING" using kd(4) [OF d] True by simp
    have e: "m' = Q9K_SchedInsert (Q9K_SetU8 (Q9K_ListUnlink m d) (d + Q9K_PROCDESC_STATE_OFF) Q9K_PROCDESC_STATE_ACTIVE) d"
      using m' sl desc_ok_nonzero [OF procs_okD [OF kd(3) d]] by (simp add: Q9K_SchedWake_def)
    note fr = reinsert_frame [OF kd(1) True e]
    have D: "distinct (Q ?S)" by (rule sched_repD(4) [OF kd(1)]) simp
    have st: "state_of m' y = Q9K_PROCDESC_STATE_SLEEPING \<longleftrightarrow> y \<in> set (remove1 d (Q ?S))" if "y \<in> P" for y
      using fr(2) [OF that] kd(4) [OF that] sched_wake(2) [OF kd(1) True sl] m' D
      by (cases "y = d") (simp_all add: same_desc_def)
    have "kernel_ok P ?Q m'"
      unfolding kernel_ok_def using sched_wake(1) [OF kd(1) True sl] m' pool_in_same [OF fr(1)] kd(2) st by simp
    moreover have "\<forall>y\<in>P. y \<notin> set (Q ?S) \<longrightarrow> state_of m' y = state_of m y"
      using fr(2) True unfolding same_desc_def by metis
    ultimately have ev: "evolves P Q m ?Q m'" using wakes_one [of d Q] True D fr(1) by (simp add: evolves_def)
    obtain ks rest where "Q ?S = ks @ d # rest" using split_list [OF True] by blast
    note re = sched_reinsert(3,5,6) [OF kd(1) this e]
    have "times_kept P Q m ?Q m'" unfolding times_kept_def using re True D by auto
    with ev have "rouses P Q m ?Q m'" by (simp add: rouses_def)
    moreover have "room P n m \<longrightarrow> room P n m'"
      using fr(2,3) unfolding room_def same_desc_def by metis
    ultimately show ?thesis by blast
  qed
  then show "\<exists>Q'. rouses P Q m Q' m'" "room P n m \<Longrightarrow> room P n m'" by blast+
qed

section \<open>Signals\<close>

lemma deliver_frame_all:
  assumes P: "procs_ok P" and d: "d \<in> P" and st: "stack_ok P (Q9K_GetU32 m (d + Q9K_PROCDESC_SAVEDSP_OFF) - 68) 68"
    and m': "m' = snd (Q9K_IcptDeliver m d signal)"
  shows "same_globals m m'" "y \<in> P \<Longrightarrow> y \<noteq> d \<Longrightarrow> same_desc m m' y"
    "Q9K_GetU32 m' (d + Q9K_PROCDESC_SAVEDSP_OFF) \<in>
       {Q9K_GetU32 m (d + Q9K_PROCDESC_SAVEDSP_OFF), Q9K_GetU32 m (d + Q9K_PROCDESC_SAVEDSP_OFF) - 68}"
    "y \<in> P \<Longrightarrow> same_times m m' y"
proof -
  let ?f = "Q9K_GetU32 m (d + Q9K_PROCDESC_SAVEDSP_OFF)" and ?v = "Q9K_GetU32 m (d + Q9K_PROCDESC_SIGVEC_OFF)"
  have "same_globals m m' \<and> (y \<in> P \<longrightarrow> y \<noteq> d \<longrightarrow> same_desc m m' y) \<and>
      Q9K_GetU32 m' (d + Q9K_PROCDESC_SAVEDSP_OFF) \<in> {?f, ?f - 68} \<and> (y \<in> P \<longrightarrow> same_times m m' y)"
  proof (cases "d = 0 \<or> ?v = 0 \<or> ?f = 0")
    case True then show ?thesis by (auto simp: m' Q9K_IcptDeliver_def Let_def same_desc_def same_times_def)
  next
    case False
    define F where "F = icpt_frame m ?f signal (Q9K_GetU32 m (d + Q9K_PROCDESC_SIGDAT_OFF)) ?v"
    have a: "apart (?f - 68) 68 d 0x400" using st d by (simp add: stack_ok_def)
    have w: "within (?f - 68) 68 m F" unfolding F_def by (rule icpt_frame_within)
    have e: "m' = Q9K_SetU16 (Q9K_SetU32 (Q9K_SetU32 F (d + Q9K_PROCDESC_SAVEDSP_OFF) (?f - 68))
       (d + Q9K_PROCDESC_ICPTDEPTH_OFF) (Q9K_GetU32 m (d + Q9K_PROCDESC_ICPTDEPTH_OFF) + 1))
       (d + Q9K_PROCDESC_SIGNAL_OFF) 0"
      using False deliver_eq [OF _ refl _ refl _ a, of signal, folded F_def] by (simp add: m')
    have D: "desc_ok d" by (rule procs_okD [OF P d])
    note g = field_globals [OF D]
    have "same_globals m m'" unfolding e
      by (rule same_globals_trans [OF same_globals_trans [OF same_globals_trans
            [OF within_globals [OF st w] g(3)] g(3)] g(2)]) simp_all
    moreover have "same_desc m m' y" if y: "y \<in> P" "y \<noteq> d" unfolding e
      by (rule same_desc_trans [OF same_desc_trans [OF same_desc_trans
            [OF same_fields_desc [OF within_sched(2) [OF w st] y(1)] field_other(3) [OF P d y]]
            field_other(3) [OF P d y]] field_other(2) [OF P d y]]) simp_all
    moreover have "Q9K_GetU32 m' (d + Q9K_PROCDESC_SAVEDSP_OFF) = ?f - 68" by (simp add: e)
    moreover have "same_times m m' y" if y: "y \<in> P"
      using same_fields_times [OF within_sched(2) [OF w st] y] unfolding e
      by (cases "y = d") (simp_all add: same_times_def desc_fields_apart [OF P d y])
    ultimately show ?thesis by blast
  qed
  then show "same_globals m m'" "y \<in> P \<Longrightarrow> y \<noteq> d \<Longrightarrow> same_desc m m' y"
    "Q9K_GetU32 m' (d + Q9K_PROCDESC_SAVEDSP_OFF) \<in> {?f, ?f - 68}" "y \<in> P \<Longrightarrow> same_times m m' y" by blast+
qed

lemma deliver_ok:
  assumes k: "kernel_ok P Q m" and d: "d \<in> P" and rm: "room P (Suc n) m" and n: "n < 1000"
    and m': "m' = snd (Q9K_IcptDeliver m d signal)"
  shows "rouses P Q m Q m'" "room P n m'"
proof -
  note kd = kernel_okD [OF k]
  let ?f = "\<lambda>m d. Q9K_GetU32 m (d + Q9K_PROCDESC_SAVEDSP_OFF)"
  have sr: "stack_ok P (?f m y - 68) 68" "stack_ok P (?f m y - of_nat (68 * n)) (of_nat (68 * n))"
    "stack_ok P (?f m y - 68 - of_nat (68 * n)) (of_nat (68 * n))" if "y \<in> P" for y
    using rm that stack_room_Suc [OF _ n, of P "?f m y"] by (auto simp: room_def)
  note fr = deliver_frame_all [OF kd(3) d sr(1) [OF d] m'] and ds = deliver_sched [OF kd(3) d sr(1) [OF d] m']
  have "state_of m' y = state_of m y" if "y \<in> P" for y
    using fr(2) [OF that] ds(2) by (cases "y = d") (auto simp: same_desc_def)
  then show "rouses P Q m Q m'" using fr(4) by (intro rouses_same [OF k ds(1) fr(1)]) simp_all
  have "stack_ok P (?f m' y - of_nat (68 * n)) (of_nat (68 * n))" if y: "y \<in> P" for y
  proof (cases "y = d")
    case False then show ?thesis using fr(2) [OF y] sr(2) [OF y] by (simp add: same_desc_def)
  next
    case True then show ?thesis using fr(3) sr(2,3) [OF d] by auto
  qed
  then show "room P n m'" by (simp add: room_def)
qed

lemma signal_store_ok:
  assumes k: "kernel_ok P Q m" and d: "d \<in> P" and m': "m' = Q9K_SetU16 m (d + Q9K_PROCDESC_SIGNAL_OFF) v"
  shows "rouses P Q m Q m'" "room P n m \<Longrightarrow> room P n m'"
proof -
  note kd = kernel_okD [OF k]
  have sd: "same_desc m m' y" if "y \<in> P" for y
    using field_other(2) [OF kd(3) d that] by (cases "y = d") (simp_all add: m' same_desc_def)
  have g: "same_globals m m'" unfolding m' by (rule field_globals(2) [OF procs_okD [OF kd(3) d]]) simp
  have "sched_rep m' P Q = sched_rep m P Q" using kd(3) d by (simp add: m')
  moreover have "same_times m m' y" if "y \<in> P" for y
    by (cases "y = d") (simp_all add: m' same_times_def desc_fields_apart [OF kd(3) d that])
  ultimately show "rouses P Q m Q m'" by (intro rouses_same [OF k _ g]) (use sd in \<open>simp_all add: same_desc_def\<close>)
  show "room P n m \<Longrightarrow> room P n m'" using room_same sd by blast
qed

lemma send_ok:
  assumes k: "kernel_ok P Q m" and rm: "room P (Suc n) m" and n: "n < 1000"
    and m': "Q9K_ProcSend m pid signal = Inr m'"
  shows "\<exists>Q'. rouses P Q m Q' m'" "room P n m'"
proof -
  define d where "d = Q9K_ProcLookup m pid"
  have d: "d \<in> P" using m' lookup_in [OF kernel_okD(2) [OF k], of pid]
    by (auto simp: d_def Q9K_ProcSend_def Let_def split: if_splits)
  define m1 where "m1 = (if signal \<noteq> Q9K_SIGNAL_WAKE then Q9K_SetU16 m (d + Q9K_PROCDESC_SIGNAL_OFF) signal else m)"
  have 1: "rouses P Q m Q m1" "room P (Suc n) m1"
    using signal_store_ok(1) [OF k d refl, where v = signal] signal_store_ok(2) [OF k d refl rm, where v = signal]
      rouses_refl [OF k] rm by (simp_all add: m1_def)
  note k1 = rousesD(2) [OF 1(1)]
  define m2 where "m2 = (if signal \<noteq> Q9K_SIGNAL_WAKE \<and> d \<noteq> Q9K_GetU32 m1 Q9_D_PROC
    then snd (Q9K_IcptDeliver m1 d signal) else m1)"
  have 2: "rouses P Q m1 Q m2" "room P n m2"
    using deliver_ok [OF k1 d 1(2) n refl, of signal] rouses_refl [OF k1] room_mono [OF 1(2) n] by (simp_all add: m2_def)
  note w = wake_ok(1) [OF rousesD(2) [OF 2(1)] d refl] wake_ok(2) [OF rousesD(2) [OF 2(1)] d refl 2(2)]
  have "m' = m1 \<or> m' = Q9K_SchedWake m2 d"
    using m' unfolding Q9K_ProcSend_def Let_def d_def [symmetric] m1_def [symmetric] m2_def [symmetric]
    by (auto split: if_splits)
  then show "\<exists>Q'. rouses P Q m Q' m'" "room P n m'"
    using w rouses_trans [OF 1(1) rouses_trans [OF 2(1)]] 1 room_mono [OF 1(2) n] by blast+
qed

lemma send_ignore_ok:
  assumes "kernel_ok P Q m" "room P (Suc n) m" "n < 1000" "m' = send_ignore m pid signal"
  shows "\<exists>Q'. rouses P Q m Q' m'" "room P n m'"
  using send_ok [OF assms(1-3), of pid signal] assms(4) rouses_refl [OF assms(1)] room_mono [OF assms(2,3)]
  by (auto simp: send_ignore_def split: sum.splits)

section \<open>The clock and the alarms\<close>

lemma tick_put:
  assumes "0x1A00 \<le> g" "g \<le> 0x1FFC" "tick_area m m'" shows "tick_area m (Q9K_SetU32 m' g v)"
proof -
  have "unat (g - 0x1A00) = unat g - 0x1A00" using assms(1) unat_sub [of "0x1A00" g] by simp
  moreover have "unat g \<le> 0x1FFC" "0x1A00 \<le> unat g" using assms(1,2) by (simp_all add: word_le_nat_alt)
  ultimately have u: "unat (g - 0x1A00) \<le> 0x5FC" by linarith
  then have "unat (g - 0x1A00 + 4) = unat (g - 0x1A00) + 4" using unat_offset [of "g - 0x1A00" 4] by simp
  then have "g - 0x1A00 + 4 \<le> 0x600" "g - 0x1A00 \<le> g - 0x1A00 + 4" using u by (simp_all add: word_le_nat_alt)
  from within_put(1) [OF this assms(3)] show ?thesis by simp
qed

lemma clock_read_area: "tick_area m (snd (Q9K_ClockRead m))"
proof -
  have s: "tick_area m (Q9K_ClockSet m day sec)" for day sec
    unfolding Q9K_ClockSet_def Let_def by (intro tick_put within_refl) simp_all
  show ?thesis using s by (simp add: Q9K_ClockRead_def Let_def split: prod.splits)
qed

lemma clock_tick_area: "tick_area m (snd (Q9K_ClockTick m))"
  unfolding Q9K_ClockTick_def Let_def by (auto intro!: tick_put)

lemma alarm_slot_area:
  assumes "i \<in> set alarm_slots"
  shows "tick_area m (Q9K_SetU32 m (Q9K_ALARM_TICKS i) v)" "tick_area m (alarm_clear m i)"
proof -
  show "tick_area m (Q9K_SetU32 m (Q9K_ALARM_TICKS i) v)" by (rule tick_put) (use assms in auto)
  show "tick_area m (alarm_clear m i)"
    unfolding alarm_clear_def Let_def by (intro tick_put within_refl) (use assms in auto)
qed

text \<open>Each alarm fires at most one signal, so one frame of room per slot is enough.\<close>

lemma alarm_fire_ok:
  assumes "kernel_ok P Q (tickMem s)" "room P (Suc n) (tickMem s)" "n < 1000" "i \<in> set alarm_slots"
    and s': "s' = alarm_fire i s"
  shows "\<exists>Q'. rouses P Q (tickMem s) Q' (tickMem s')" "room P n (tickMem s')"
proof -
  define m1 where "m1 = send_ignore (tickMem s) (ucast (Q9K_GetU32 (tickMem s) (Q9K_ALARM_PID i)))
    (ucast (Q9K_GetU32 (tickMem s) (Q9K_ALARM_SIGNAL i) AND 0xFFFF))"
  note se = send_ignore_ok [OF assms(1-3) m1_def]
  have a: "tick_area m1 (tickMem s')"
    using alarm_slot_area [OF assms(4), of m1] by (simp add: s' alarm_fire_def Let_def m1_def)
  obtain Q' where Q': "rouses P Q (tickMem s) Q' m1" using se(1) by blast
  note ta = tick_area_rouses [OF rousesD(2) [OF Q'] a]
  show "\<exists>Q'. rouses P Q (tickMem s) Q' (tickMem s')" using rouses_trans [OF Q' ta(1)] by blast
  show "room P n (tickMem s')" by (rule ta(2) [OF se(2)])
qed

lemma alarm_slot_ok:
  assumes "kernel_ok P Q (tickMem s)" "room P (Suc n) (tickMem s)" "n < 1000" "i \<in> set alarm_slots"
    and s': "s' = Q9K_AlarmTick_slot i s"
  shows "\<exists>Q'. rouses P Q (tickMem s) Q' (tickMem s')" "room P n (tickMem s')"
proof -
  define s1 where "s1 = (case nowRead s of Some _ \<Rightarrow> s
    | None \<Rightarrow> case Q9K_ClockRead (tickMem s) of (now, m') \<Rightarrow> s\<lparr>tickMem := m', nowRead := Some now\<rparr>)"
  have a1: "tick_area (tickMem s) (tickMem s1)"
    using clock_read_area [of "tickMem s"] by (auto simp: s1_def split: option.splits prod.splits)
  note e1 = tick_area_rouses [OF assms(1) a1]
  have cs: "s' = s \<or> s' = s1 \<or> s' = alarm_fire i s1 \<or> s' = alarm_fire i s \<or>
      (\<exists>v. s' = s\<lparr>tickMem := Q9K_SetU32 (tickMem s) (Q9K_ALARM_TICKS i) v\<rparr>)"
    unfolding s' Q9K_AlarmTick_slot_def Let_def s1_def [symmetric] by (auto split: prod.splits)
  have "(\<exists>Q'. rouses P Q (tickMem s) Q' (tickMem s')) \<and> room P n (tickMem s')"
  proof (cases "s' = alarm_fire i s1 \<or> s' = alarm_fire i s")
    case True
    then show ?thesis
    proof
      assume "s' = alarm_fire i s1"
      note fi = alarm_fire_ok [OF rousesD(2) [OF e1(1)] e1(2) [OF assms(2)] assms(3,4) this]
      show ?thesis using fi rouses_trans [OF e1(1)] by blast
    next
      assume "s' = alarm_fire i s"
      from alarm_fire_ok [OF assms(1-4) this] show ?thesis by blast
    qed
  next
    case False
    then have "tick_area (tickMem s) (tickMem s')" using cs a1 alarm_slot_area(1) [OF assms(4)] by auto
    from tick_area_rouses [OF assms(1) this] show ?thesis using room_mono [OF _ assms(3)] assms(2) by blast
  qed
  then show "\<exists>Q'. rouses P Q (tickMem s) Q' (tickMem s')" "room P n (tickMem s')" by blast+
qed

lemma alarm_slots_ok:
  assumes "kernel_ok P Q (tickMem s)" "room P (length is + n) (tickMem s)" "length is + n < 1000" "set is \<subseteq> set alarm_slots"
  shows "\<exists>Q'. rouses P Q (tickMem s) Q' (tickMem (fold Q9K_AlarmTick_slot is s)) \<and>
    room P n (tickMem (fold Q9K_AlarmTick_slot is s))"
  using assms
proof (induction "is" arbitrary: s Q)
  case Nil then show ?case using rouses_refl by auto
next
  case (Cons i "is")
  have "room P (Suc (length is + n)) (tickMem s)" "length is + n < 1000" "i \<in> set alarm_slots"
    using Cons.prems by simp_all
  note st = alarm_slot_ok [OF Cons.prems(1) this refl]
  obtain Q1 where Q1: "rouses P Q (tickMem s) Q1 (tickMem (Q9K_AlarmTick_slot i s))" using st(1) by blast
  from Cons.IH [OF rousesD(2) [OF Q1] st(2)] Cons.prems show ?case using rouses_trans [OF Q1] by auto
qed

lemma console_tick_ok:
  assumes "kernel_ok P Q m" "room P (Suc n) m" "n < 1000" "m' = snd (Q9K_ConSSigTick m)"
  shows "\<exists>Q'. rouses P Q m Q' m'" "room P n m'"
proof -
  let ?m1 = "Q9K_SetU32 m 0x1F14 0"
  have a: "tick_area m ?m1" by (rule tick_put) simp_all
  note e1 = tick_area_rouses [OF assms(1) a]
  have "m' = m \<or> (\<exists>pid sig. m' = send_ignore ?m1 pid sig)"
    unfolding assms(4) Q9K_ConSSigTick_def Let_def by auto
  then have "(\<exists>Q'. rouses P Q m Q' m') \<and> room P n m'"
  proof
    assume "m' = m" then show ?thesis using rouses_refl [OF assms(1)] room_mono [OF assms(2,3)] by auto
  next
    assume "\<exists>pid sig. m' = send_ignore ?m1 pid sig"
    then obtain pid sig where e: "m' = send_ignore ?m1 pid sig" by blast
    note se = send_ignore_ok [OF rousesD(2) [OF e1(1)] e1(2) [OF assms(2)] assms(3) e]
    show ?thesis using se rouses_trans [OF e1(1)] by blast
  qed
  then show "\<exists>Q'. rouses P Q m Q' m'" "room P n m'" by blast+
qed

lemma alarm_tick_ok:
  assumes "kernel_ok P Q m" "room P 9 m" "m' = snd (Q9K_AlarmTick m)"
  shows "\<exists>Q'. rouses P Q m Q' m'"
proof -
  define m0 where "m0 = snd (Q9K_ConSSigTick m)"
  define s0 where "s0 = \<lparr>tickMem = m0, fired = 0, nowRead = None\<rparr>"
  have "room P (Suc 8) m" using assms(2) by simp
  note c = console_tick_ok [OF assms(1) this _ m0_def]
  obtain Q1 where Q1: "rouses P Q m Q1 (tickMem s0)" using c(1) by (auto simp: s0_def)
  have "length alarm_slots + 0 = 8" by simp
  then have "room P (length alarm_slots + 0) (tickMem s0)" using c(2) by (simp only: s0_def alarm_tick.select_convs)
  from alarm_slots_ok [OF rousesD(2) [OF Q1] this] obtain Q2 where
    "rouses P Q1 (tickMem s0) Q2 (tickMem (fold Q9K_AlarmTick_slot alarm_slots s0))" by auto
  moreover have "m' = tickMem (fold Q9K_AlarmTick_slot alarm_slots s0)"
    unfolding assms(3) Q9K_AlarmTick_def Let_def m0_def [symmetric] s0_def [symmetric] by simp
  ultimately show ?thesis using rouses_trans [OF Q1] by blast
qed

end
