(* ===== verification/Q9_Tick.thy ===== *)
theory Q9_Tick
  imports Q9_Kernel
begin

text \<open>
  The timer entry \<^verbatim>\<open>Q9K_SchedReschedule\<close> of \<^verbatim>\<open>q9kernel_sched.c\<close>: aging, sleep countdown, alarms and
  clock on every tick, then the time slice and the choice of the next process.
\<close>

definition Q9K_SchedReschedule :: "memory \<Rightarrow> (u32 \<times> memory) option" where
  "Q9K_SchedReschedule m = do {
     let current = Q9K_GetU32 m Q9_D_PROC;
     m1 \<leftarrow> Q9K_SchedAgeAll m;
     m2 \<leftarrow> Q9K_SleepQDecrementAll m1;
     let m3 = snd (Q9K_AlarmTick m2);
     let m4 = snd (Q9K_ClockTick m3);
     if Q9K_GetU32 m4 Q9K_SCHED_NOSWITCH_ADDR \<noteq> 0 then Some (0, m4)
     else do {
       let slice = Q9K_GetU16 m4 Q9K_SCHED_SLICE_ADDR;
       if slice > 0 then Some (0, Q9K_SetU16 m4 Q9K_SCHED_SLICE_ADDR (slice - 1))
       else do {
         (next, m5) \<leftarrow> Q9K_SchedPickHighestAge m4;
         let m6 = Q9K_SetU16 m5 Q9K_SCHED_SLICE_ADDR Q9K_SCHED_TSLICE;
         if next = 0 then Some (0, m6)
         else do {
           let m7 = (if current \<noteq> 0 \<and>
                        Q9K_GetU8 m6 (current + Q9K_PROCDESC_STATE_OFF) \<noteq> Q9K_PROCDESC_STATE_ZOMBIE \<and>
                        Q9K_GetU8 m6 (current + Q9K_PROCDESC_STATE_OFF) \<noteq> Q9K_PROCDESC_STATE_IDLE
                     then Q9K_SchedInsert m6 current else m6);
           Some (next, Q9K_SetU32 m7 Q9_D_PROC next)
         }
       }
     }
   }"

section \<open>Aging and countdown keep the invariant\<close>

lemma age_ok:
  assumes k: "kernel_ok P Q m"
  shows "\<exists>m'. Q9K_SchedAgeAll m = Some m' \<and> evolves P Q m Q m' \<and> (room P n m \<longrightarrow> room P n m') \<and> same_area m m' \<and>
    (\<forall>y\<in>P. prio_of m' y = prio_of m y \<and> ticks_of m' y = ticks_of m y \<and>
       age_of m' y = (if y \<in> set (Q Q9K_READYQ_SENTINEL_ADDR) then aged (Q9K_GetU16 m Q9K_SCHED_MAXAGE_ADDR) (prio_of m y) (age_of m y) else age_of m y))"
proof -
  let ?f = "\<lambda>x m'. Q9K_SchedAge_node (Q9K_GetU16 m Q9K_SCHED_MAXAGE_ADDR) m' x"
  note kd = kernel_okD [OF k]
  have QP: "set (Q Q9K_READYQ_SENTINEL_ADDR) \<subseteq> P" "distinct (Q Q9K_READYQ_SENTINEL_ADDR)" using sched_repD [OF kd(1)] by auto
  have fr: "same_globals m0 (fold ?f xs m0) \<and> same_area m0 (fold ?f xs m0) \<and> (\<forall>y\<in>P. same_desc m0 (fold ?f xs m0) y)" if "set xs \<subseteq> P" for xs m0
    using that
  proof (induction xs arbitrary: m0)
    case (Cons x xs)
    have x: "x \<in> P" using Cons.prems by simp
    have "same_globals m0 (?f x m0)" unfolding Age_node_eq by (rule field_globals(2) [OF procs_okD [OF kd(3) x]]) simp
    moreover have "same_area m0 (?f x m0)" unfolding Age_node_eq by (rule field_area(2) [OF procs_okD [OF kd(3) x]]) simp
    moreover have "same_desc m0 (?f x m0) y" if "y \<in> P" for y
      unfolding Age_node_eq using field_other(2) [OF kd(3) x that] by (cases "y = x") (simp_all add: same_desc_def)
    moreover have "same_globals (?f x m0) (fold ?f xs (?f x m0))" "same_area (?f x m0) (fold ?f xs (?f x m0))"
      "y \<in> P \<Longrightarrow> same_desc (?f x m0) (fold ?f xs (?f x m0)) y" for y using Cons.IH [of "?f x m0"] Cons.prems by auto
    ultimately have "same_globals m0 (fold ?f xs (?f x m0))" "same_area m0 (fold ?f xs (?f x m0))"
      "y \<in> P \<Longrightarrow> same_desc m0 (fold ?f xs (?f x m0)) y" for y
      using same_globals_trans same_area_trans same_desc_trans by blast+
    then show ?case by simp
  qed (simp add: same_desc_def)
  let ?m = "fold ?f (Q Q9K_READYQ_SENTINEL_ADDR) m"
  have "evolves P Q m Q ?m"
    by (rule evolves_same [OF k age_fold(1) [OF kd(3) QP]]) (use fr [OF QP(1), of m] in \<open>simp_all add: same_desc_def\<close>)
  moreover have "room P n m \<longrightarrow> room P n ?m" using fr [OF QP(1), of m] room_same by blast
  moreover have "same_area m ?m" using fr [OF QP(1), of m] by blast
  ultimately show ?thesis
    using sched_age_fold [OF kd(1)] age_fold(2,3) [OF kd(3) QP] age_fold_ticks [OF kd(3) QP(1)] by (intro exI [of _ ?m]) simp
qed

lemma decr_frame:
  assumes r: "sched_rep m P Q" and x: "x \<in> set (Q Q9K_SLEEPQ_SENTINEL_ADDR)"
  shows "same_globals m (Q9K_SleepQDecrement_node m x)"
    and "y \<in> P \<Longrightarrow> Q9K_GetU32 (Q9K_SleepQDecrement_node m x) (y + Q9K_PROCDESC_SAVEDSP_OFF) = Q9K_GetU32 m (y + Q9K_PROCDESC_SAVEDSP_OFF)"
    and "same_area m (Q9K_SleepQDecrement_node m x)"
proof -
  have P: "procs_ok P" and xP: "x \<in> P" using sched_repD(1) [OF r] sched_repD(3) [OF r, of Q9K_SLEEPQ_SENTINEL_ADDR] x by auto
  have g: "same_globals m (Q9K_SetU32 m (x + Q9K_PROCDESC_SLEEPTICKS_OFF) v)" for v
    by (rule field_globals(3) [OF procs_okD [OF P xP]]) simp
  have f: "Q9K_GetU32 (Q9K_SetU32 m (x + Q9K_PROCDESC_SLEEPTICKS_OFF) v) (y + Q9K_PROCDESC_SAVEDSP_OFF) =
     Q9K_GetU32 m (y + Q9K_PROCDESC_SAVEDSP_OFF)" if "y \<in> P" for v y
    using field_other(3) [OF P xP that, of "0x1C4" m v] by (cases "y = x") (simp_all add: same_desc_def)
  have r0: "sched_rep (Q9K_SetU32 m (x + Q9K_PROCDESC_SLEEPTICKS_OFF) 0) P Q" using r P xP by simp
  note re = reinsert_frame [OF r0 x refl]
  show "same_globals m (Q9K_SleepQDecrement_node m x)"
    using g same_globals_trans [OF g re(1)] by (cases "expired m x") (simp_all add: decr_waiting decr_expired)
  show "y \<in> P \<Longrightarrow> Q9K_GetU32 (Q9K_SleepQDecrement_node m x) (y + Q9K_PROCDESC_SAVEDSP_OFF) = Q9K_GetU32 m (y + Q9K_PROCDESC_SAVEDSP_OFF)"
    using f [of y] re(2) [of y] re(3) by (cases "expired m x"; cases "y = x") (simp_all add: decr_waiting decr_expired same_desc_def)
  have a: "same_area m (Q9K_SetU32 m (x + Q9K_PROCDESC_SLEEPTICKS_OFF) v)" for v
    by (rule field_area(3) [OF procs_okD [OF P xP]]) simp
  show "same_area m (Q9K_SleepQDecrement_node m x)"
    using a same_area_trans [OF a re(4)] by (cases "expired m x") (simp_all add: decr_waiting decr_expired)
qed

text \<open>The queues after the countdown: the sleepers whose time is over are at the end of the ready queue, in their order.\<close>

definition tick_queues :: "memory \<Rightarrow> queues \<Rightarrow> queues" where
  "tick_queues m Q = Q(Q9K_SLEEPQ_SENTINEL_ADDR := filter (\<lambda>x. \<not> expired m x) (Q Q9K_SLEEPQ_SENTINEL_ADDR),
     Q9K_READYQ_SENTINEL_ADDR := Q Q9K_READYQ_SENTINEL_ADDR @ filter (expired m) (Q Q9K_SLEEPQ_SENTINEL_ADDR))"

lemma countdown_ok:
  assumes k: "kernel_ok P Q m"
  shows "\<exists>m'. Q9K_SleepQDecrementAll m = Some m' \<and> evolves P Q m (tick_queues m Q) m' \<and> (room P n m \<longrightarrow> room P n m') \<and> same_area m m' \<and>
    (\<forall>y\<in>set (Q Q9K_SLEEPQ_SENTINEL_ADDR). ticks_of m' y = countdown (ticks_of m y)) \<and>
    (\<forall>y\<in>P. prio_of m' y = prio_of m y \<and>
       age_of m' y = (if y \<in> set (Q Q9K_SLEEPQ_SENTINEL_ADDR) \<and> expired m y then ucast (prio_of m y) else age_of m y))"
proof -
  let ?S = "Q9K_SLEEPQ_SENTINEL_ADDR" and ?R = "Q9K_READYQ_SENTINEL_ADDR"
  note kd = kernel_okD [OF k]
  let ?Q = "Q(?S := filter (\<lambda>x. \<not> expired m x) (Q ?S), ?R := Q ?R @ filter (expired m) (Q ?S))"
  obtain m' where m': "Q9K_SleepQDecrementAll m = Some m'" "sched_rep m' P ?Q"
    "\<And>y. y \<in> P \<Longrightarrow> state_of m' y = (if y \<in> set (Q ?S) \<and> expired m y then Q9K_PROCDESC_STATE_ACTIVE else state_of m y)"
    "\<And>y. y \<in> set (Q ?S) \<Longrightarrow> ticks_of m' y = countdown (ticks_of m y)" "\<And>y. y \<in> P \<Longrightarrow> prio_of m' y = prio_of m y"
    "\<And>y. y \<in> P \<Longrightarrow> age_of m' y = (if y \<in> set (Q ?S) \<and> expired m y then ucast (prio_of m y) else age_of m y)"
    by (rule sched_countdown [OF kd(1)]) blast
  have w: "walk_saved Q9K_SleepQDecrement_node ?S m (hd (Q ?S @ [?S])) = Some m'"
    using m'(1) sched_walk(3) [OF kd(1), of ?S] by (simp add: Q9K_SleepQDecrementAll_def)
  define F where "F = (\<lambda>m m'. same_globals m m' \<and> same_area m m' \<and>
    (\<forall>y\<in>P. Q9K_GetU32 m' (y + Q9K_PROCDESC_SAVEDSP_OFF) = Q9K_GetU32 m (y + Q9K_PROCDESC_SAVEDSP_OFF)))"
  have "F m m'"
    by (rule sleep_walk_rel [OF kd(1) append_Nil [symmetric] _ _ _ w])
      (use same_globals_trans same_area_trans decr_frame in \<open>auto simp: F_def\<close>)
  then have g: "same_globals m m'" "same_area m m'" and sp: "room P n m \<longrightarrow> room P n m'" by (simp_all add: F_def room_def)
  have "filter (\<lambda>x. x \<notin> set (filter (expired m) (Q ?S))) (Q ?S) = filter (\<lambda>x. \<not> expired m x) (Q ?S)"
    by (rule filter_cong) auto
  then have "?Q = woken (filter (expired m) (Q ?S)) Q" unfolding woken_def by (simp only:)
  then have "wakes Q ?Q" unfolding wakes_def using sched_repD(4) [OF kd(1), of ?S]
    by (intro exI [of _ "filter (expired m) (Q ?S)"]) auto
  moreover have "kernel_ok P ?Q m'"
    unfolding kernel_ok_def pool_in_same [OF g(1)]
    by (intro conjI ballI m'(2) kd(2)) (auto simp: m'(3) kd(4))
  moreover have "\<forall>y\<in>P. y \<notin> set (Q ?S) \<longrightarrow> state_of m' y = state_of m y" using m'(3) by simp
  ultimately have "evolves P Q m (tick_queues m Q) m'" using g by (simp add: evolves_def tick_queues_def)
  then show ?thesis using m'(1,4-6) sp g(2) by (intro exI [of _ m']) simp
qed

text \<open>Without an armed alarm and without a process that waits for console input the alarms change nothing.\<close>

definition quiet :: "memory \<Rightarrow> bool" where
  "quiet m \<longleftrightarrow> Q9K_GetU32 m 0x1F14 = 0 \<and> (\<forall>i\<in>set alarm_slots. Q9K_GetU32 m (Q9K_ALARM_ID i) = 0)"

lemma quiet_alarms: "quiet m \<Longrightarrow> Q9K_AlarmTick m = (0, m)"
proof -
  assume q: "quiet m"
  have s: "Q9K_AlarmTick_slot i s = s" if "i \<in> set alarm_slots" "tickMem s = m" for i s
  proof -
    have "Q9K_GetU32 (tickMem s) (Q9K_ALARM_ID i) = 0" using q that unfolding quiet_def by blast
    then show ?thesis by (simp only: Q9K_AlarmTick_slot_def Let_def simp_thms if_True)
  qed
  have f: "fold Q9K_AlarmTick_slot xs s = s" if "set xs \<subseteq> set alarm_slots" "tickMem s = m" for xs s
    using that by (induction xs) (simp_all add: s)
  have c: "snd (Q9K_ConSSigTick m) = m" using q by (simp add: quiet_def Q9K_ConSSigTick_def)
  show ?thesis unfolding Q9K_AlarmTick_def Let_def c f [OF subset_refl alarm_tick.select_convs(1)] by simp
qed

lemma quiet_same: "same_area m m' \<Longrightarrow> quiet m' = quiet m"
  by (simp add: quiet_def same_area_def)

text \<open>The age a process on the ready queue has when the next process is chosen: one that was ready has aged, one that has just been woken
  starts with its priority.\<close>

definition tick_age :: "memory \<Rightarrow> queues \<Rightarrow> u32 \<Rightarrow> u16" where
  "tick_age m Q y = (if y \<in> set (Q Q9K_READYQ_SENTINEL_ADDR) then aged (Q9K_GetU16 m Q9K_SCHED_MAXAGE_ADDR) (prio_of m y) (age_of m y)
     else ucast (prio_of m y))"

text \<open>\<open>ticked P Q m Q1 m4\<close>: the state \<open>m4\<close> with the queues \<open>Q1\<close> after the work of every tick.\<close>

definition ticked :: "u32 set \<Rightarrow> queues \<Rightarrow> memory \<Rightarrow> queues \<Rightarrow> memory \<Rightarrow> bool" where
  "ticked P Q m Q1 m4 \<longleftrightarrow> evolves P Q m Q1 m4 \<and> wakes (tick_queues m Q) Q1 \<and> (quiet m \<longrightarrow> Q1 = tick_queues m Q) \<and>
     (\<forall>y\<in>P. prio_of m4 y = prio_of m y) \<and> (\<forall>y\<in>set (Q Q9K_SLEEPQ_SENTINEL_ADDR). ticks_of m4 y = countdown (ticks_of m y)) \<and>
     (\<forall>y\<in>set (Q1 Q9K_READYQ_SENTINEL_ADDR). age_of m4 y = tick_age m Q y)"

lemma tickedD:
  assumes "ticked P Q m Q1 m4"
  shows "evolves P Q m Q1 m4" "wakes (tick_queues m Q) Q1" "quiet m \<Longrightarrow> Q1 = tick_queues m Q"
    "y \<in> P \<Longrightarrow> prio_of m4 y = prio_of m y" "y \<in> set (Q Q9K_SLEEPQ_SENTINEL_ADDR) \<Longrightarrow> ticks_of m4 y = countdown (ticks_of m y)"
    "y \<in> set (Q1 Q9K_READYQ_SENTINEL_ADDR) \<Longrightarrow> age_of m4 y = tick_age m Q y"
  using assms by (auto simp: ticked_def)

lemma wakes_ready:
  assumes "wakes Q Q'" "y \<in> set (Q' Q9K_READYQ_SENTINEL_ADDR)"
  shows "y \<in> set (Q Q9K_READYQ_SENTINEL_ADDR) \<or> y \<in> set (Q Q9K_SLEEPQ_SENTINEL_ADDR) \<and> y \<notin> set (Q' Q9K_SLEEPQ_SENTINEL_ADDR)"
  using assms by (auto simp: wakes_def woken_def)

lemma tick_prefix:
  assumes k: "kernel_ok P Q m" and rm: "room P 9 m"
  obtains m1 m2 Q' where "Q9K_SchedAgeAll m = Some m1" "Q9K_SleepQDecrementAll m1 = Some m2"
    "ticked P Q m Q' (snd (Q9K_ClockTick (snd (Q9K_AlarmTick m2))))"
proof -
  let ?S = "Q9K_SLEEPQ_SENTINEL_ADDR" and ?R = "Q9K_READYQ_SENTINEL_ADDR"
  have r: "sched_rep m P Q" by (rule kernel_okD(1) [OF k])
  have SP: "y \<in> set (Q ?S) \<Longrightarrow> y \<in> P" "y \<in> set (Q ?R) \<Longrightarrow> y \<in> P" for y
    using sched_repD(3) [OF r, of ?S] sched_repD(3) [OF r, of ?R] by auto
  have RS: "y \<in> set (Q ?R) \<Longrightarrow> y \<notin> set (Q ?S)" for y using sched_repD(5) [OF r, of ?R ?S y] by auto
  obtain m1 where m1: "Q9K_SchedAgeAll m = Some m1" "evolves P Q m Q m1" "room P 9 m1" "same_area m m1"
    and a1: "\<And>y. y \<in> P \<Longrightarrow> prio_of m1 y = prio_of m y" "\<And>y. y \<in> P \<Longrightarrow> ticks_of m1 y = ticks_of m y"
      "\<And>y. y \<in> P \<Longrightarrow> age_of m1 y = (if y \<in> set (Q ?R) then tick_age m Q y else age_of m y)"
    using age_ok [OF k, of 9] rm by (auto simp: tick_age_def)
  have ex: "expired m1 y = expired m y" if "y \<in> set (Q ?S)" for y using a1(2) [OF SP(1) [OF that]] by (simp add: expired_def)
  then have q: "tick_queues m1 Q = tick_queues m Q" unfolding tick_queues_def by (simp cong: filter_cong)
  obtain m2 where m2: "Q9K_SleepQDecrementAll m1 = Some m2" "evolves P Q m1 (tick_queues m Q) m2" "room P 9 m2" "same_area m1 m2"
    and b2: "\<And>y. y \<in> set (Q ?S) \<Longrightarrow> ticks_of m2 y = countdown (ticks_of m1 y)" "\<And>y. y \<in> P \<Longrightarrow> prio_of m2 y = prio_of m1 y"
      "\<And>y. y \<in> P \<Longrightarrow> age_of m2 y = (if y \<in> set (Q ?S) \<and> expired m1 y then ucast (prio_of m1 y) else age_of m1 y)"
    using countdown_ok [OF evolvesD(2) [OF m1(2)], of 9] m1(3) unfolding q by blast
  have a2: "y \<in> set (Q ?S) \<Longrightarrow> ticks_of m2 y = countdown (ticks_of m y)" "y \<in> P \<Longrightarrow> prio_of m2 y = prio_of m y"
      "y \<in> P \<Longrightarrow> age_of m2 y = (if y \<in> set (Q ?S) \<and> expired m y then ucast (prio_of m y) else age_of m1 y)" for y
    using b2 [of y] a1(1,2) [of y] SP(1) [of y] ex [of y] by (auto split: if_splits)
  define m3 where "m3 = snd (Q9K_AlarmTick m2)"
  have qt: "quiet m \<Longrightarrow> m3 = m2" using quiet_same [OF same_area_trans [OF m1(4) m2(4)]] quiet_alarms by (simp add: m3_def)
  obtain Q3 where Q3: "rouses P (tick_queues m Q) m2 Q3 m3" "quiet m \<Longrightarrow> Q3 = tick_queues m Q"
    using alarm_tick_ok [OF evolvesD(2) [OF m2(2)] m2(3) m3_def] rouses_refl [OF evolvesD(2) [OF m2(2)]] qt by (cases "quiet m") auto
  define m4 where "m4 = snd (Q9K_ClockTick m3)"
  have R: "rouses P (tick_queues m Q) m2 Q3 m4"
    using rouses_trans [OF Q3(1) tick_area_rouses(1) [OF rousesD(2) [OF Q3(1)] clock_tick_area]] by (simp add: m4_def)
  note ro = rousesD [OF R] and tk = times_keptD [OF rousesD(5) [OF R]]
  have ev: "evolves P Q m Q3 m4" by (rule evolves_trans [OF m1(2) evolves_trans [OF m2(2) ro(6)]])
  have "age_of m4 y = tick_age m Q y" if y: "y \<in> set (Q3 ?R)" for y
  proof -
    have yP: "y \<in> P" using sched_repD(3) [OF kernel_okD(1) [OF ro(2)], of ?R] y by auto
    have "y \<in> set (Q ?R) \<or> y \<in> set (Q ?S)" using wakes_ready [OF evolvesD(1) [OF ev] y] by blast
    then show ?thesis
      using wakes_ready [OF ro(1) y] tk(3) [OF yP] a2(2,3) [OF yP] a1(3) [OF yP] RS [of y]
      by (auto simp: tick_queues_def tick_age_def)
  qed
  then have "ticked P Q m Q3 m4" unfolding ticked_def using ev ro(1) Q3(2) tk(1,2) a2(1,2) SP(1) by auto
  then show thesis using that [OF m1(1) m2(1)] by (simp add: m4_def m3_def)
qed

section \<open>The choice of the next process\<close>

lemma switch_cells_ok:
  assumes k: "kernel_ok P Q m"
  shows "kernel_ok P Q (Q9K_SetU16 m Q9K_SCHED_SLICE_ADDR v)" "kernel_ok P Q (Q9K_SetU32 m Q9_D_PROC w)"
    "d \<in> P \<Longrightarrow> state_of (Q9K_SetU16 m Q9K_SCHED_SLICE_ADDR v) d = state_of m d"
    "d \<in> P \<Longrightarrow> state_of (Q9K_SetU32 m Q9_D_PROC w) d = state_of m d"
    "d \<in> P \<Longrightarrow> same_times m (Q9K_SetU16 m Q9K_SCHED_SLICE_ADDR v) d" "d \<in> P \<Longrightarrow> same_times m (Q9K_SetU32 m Q9_D_PROC w) d"
proof -
  note kd = kernel_okD [OF k]
  show st: "d \<in> P \<Longrightarrow> state_of (Q9K_SetU16 m Q9K_SCHED_SLICE_ADDR v) d = state_of m d"
    "d \<in> P \<Longrightarrow> state_of (Q9K_SetU32 m Q9_D_PROC w) d = state_of m d" for d
    using procs_okD [OF kd(3), of d] by (simp_all add: desc_global)
  show "kernel_ok P Q (Q9K_SetU16 m Q9K_SCHED_SLICE_ADDR v)" "kernel_ok P Q (Q9K_SetU32 m Q9_D_PROC w)"
    using kd(1,2,4) st sched_global_write [OF kd(3)] by (simp_all add: kernel_ok_def pool_in_def)
  show "d \<in> P \<Longrightarrow> same_times m (Q9K_SetU16 m Q9K_SCHED_SLICE_ADDR v) d" "d \<in> P \<Longrightarrow> same_times m (Q9K_SetU32 m Q9_D_PROC w) d"
    using procs_okD [OF kd(3), of d] by (simp_all add: same_times_def desc_global)
qed

lemma pick_ok:
  assumes k: "kernel_ok P Q m"
  obtains b m' where "Q9K_SchedPickHighestAge m = Some (b, m')" "b = 0 \<or> b \<in> set (Q Q9K_READYQ_SENTINEL_ADDR)"
    "kernel_ok P (Q(Q9K_READYQ_SENTINEL_ADDR := remove1 b (Q Q9K_READYQ_SENTINEL_ADDR))) m'"
    "same_globals m m'" "\<And>d. d \<in> P \<Longrightarrow> state_of m' d = state_of m d" "\<And>d. d \<in> P \<Longrightarrow> same_times m m' d"
    "best_by (eligible m) (age_of m) (Q Q9K_READYQ_SENTINEL_ADDR) b"
proof -
  note kd = kernel_okD [OF k]
  obtain b m' where b: "Q9K_SchedPickHighestAge m = Some (b, m')" "picks m (Q Q9K_READYQ_SENTINEL_ADDR) b"
    "sched_rep m' P (Q(Q9K_READYQ_SENTINEL_ADDR := remove1 b (Q Q9K_READYQ_SENTINEL_ADDR)))" "only_links P m m'"
    by (rule sched_pick [OF kd(1)]) blast
  have g: "same_globals m m'" by (rule only_links_globals [OF kd(3) b(4)])
  have s: "d \<in> P \<Longrightarrow> state_of m' d = state_of m d" for d
    using same_fields_desc [OF only_links_same_fields [OF kd(3) b(4)]] by (simp add: same_desc_def)
  have "b = 0 \<or> b \<in> set (Q Q9K_READYQ_SENTINEL_ADDR)"
    using b(2) first_max_in [of "eligible m"] unfolding picks_def best_by_def by (fastforce split: if_splits)
  moreover have "kernel_ok P (Q(Q9K_READYQ_SENTINEL_ADDR := remove1 b (Q Q9K_READYQ_SENTINEL_ADDR))) m'"
    using b(3) kd(2,4) s pool_in_same [OF g] by (simp add: kernel_ok_def)
  moreover have "d \<in> P \<Longrightarrow> same_times m m' d" for d using same_fields_times [OF only_links_same_fields [OF kd(3) b(4)]] .
  ultimately show thesis using that b(1) g s b(2) [unfolded picks_def] by blast
qed

lemma insert_ok:
  assumes k: "kernel_ok P Q m" and d: "d \<in> P" "d \<notin> queued Q"
  shows "kernel_ok P (Q(Q9K_READYQ_SENTINEL_ADDR := Q Q9K_READYQ_SENTINEL_ADDR @ [d])) (Q9K_SchedInsert m d)"
    "y \<in> P \<Longrightarrow> state_of (Q9K_SchedInsert m d) y = state_of m y" "same_globals m (Q9K_SchedInsert m d)"
proof -
  note kd = kernel_okD [OF k] and fr = insert_frame [OF kernel_okD(1) [OF k] d]
  show s: "y \<in> P \<Longrightarrow> state_of (Q9K_SchedInsert m d) y = state_of m y" for y using fr(2) by (simp add: same_desc_def)
  show "same_globals m (Q9K_SchedInsert m d)" by (rule fr(1))
  show "kernel_ok P (Q(Q9K_READYQ_SENTINEL_ADDR := Q Q9K_READYQ_SENTINEL_ADDR @ [d])) (Q9K_SchedInsert m d)"
    using sched_insert(1) [OF kd(1) d] kd(2,4) pool_in_same [OF fr(1)] s by (simp add: kernel_ok_def)
qed

text \<open>\<open>switched P c r m m'\<close>: of priorities, ages and sleep ticks only the age of \<open>c\<close> changes, and only when \<open>r\<close> holds; it is set to the
  priority.\<close>

definition switched :: "u32 set \<Rightarrow> u32 \<Rightarrow> bool \<Rightarrow> memory \<Rightarrow> memory \<Rightarrow> bool" where
  "switched P c r m m' \<longleftrightarrow> (\<forall>y\<in>P. prio_of m' y = prio_of m y \<and> ticks_of m' y = ticks_of m y \<and>
     age_of m' y = (if r \<and> y = c then ucast (prio_of m y) else age_of m y))"

lemma switched_same: "(\<And>y. y \<in> P \<Longrightarrow> same_times m m' y) \<Longrightarrow> switched P c False m m'"
  by (simp add: switched_def same_times_def)

lemma switched_insert:
  assumes k: "kernel_ok P Q m" and d: "d \<in> P" "d \<notin> queued Q"
  shows "switched P d True m (Q9K_SchedInsert m d)"
proof -
  have P: "procs_ok P" by (rule kernel_okD(3) [OF k])
  let ?m = "Q9K_SetU16 m (d + Q9K_PROCDESC_AGE_OFF) (ucast (prio_of m d))"
  note t = same_fields_times [OF only_links_same_fields [OF P sched_insert(2) [OF kernel_okD(1) [OF k] d]]]
  have "prio_of ?m y = prio_of m y" "ticks_of ?m y = ticks_of m y" "age_of ?m y = (if y = d then ucast (prio_of m y) else age_of m y)" if "y \<in> P" for y
    by (cases "y = d"; simp add: desc_fields_apart [OF P d(1) that])+
  then show ?thesis using t unfolding switched_def same_times_def by simp
qed

definition requeued :: "memory \<Rightarrow> u32 \<Rightarrow> u32 list" where
  "requeued m c = (if state_of m c = Q9K_PROCDESC_STATE_ZOMBIE \<or> state_of m c = Q9K_PROCDESC_STATE_IDLE then [] else [c])"

lemma switch_ok:
  assumes k: "kernel_ok P Q m" and c: "c \<in> P" "c \<notin> queued Q"
    and m7: "m7 = (if state_of m c \<noteq> Q9K_PROCDESC_STATE_ZOMBIE \<and> state_of m c \<noteq> Q9K_PROCDESC_STATE_IDLE
                   then Q9K_SchedInsert m c else m)"
  shows "kernel_ok P (Q(Q9K_READYQ_SENTINEL_ADDR := Q Q9K_READYQ_SENTINEL_ADDR @ requeued m c)) (Q9K_SetU32 m7 Q9_D_PROC n)"
    "y \<in> P \<Longrightarrow> state_of (Q9K_SetU32 m7 Q9_D_PROC n) y = state_of m y"
    "switched P c (requeued m c \<noteq> []) m (Q9K_SetU32 m7 Q9_D_PROC n)" "same_globals m m7"
proof -
  show g: "same_globals m m7" using insert_ok(3) [OF k c] by (simp add: m7)
  have 7: "kernel_ok P (Q(Q9K_READYQ_SENTINEL_ADDR := Q Q9K_READYQ_SENTINEL_ADDR @ requeued m c)) m7"
    "\<And>y. y \<in> P \<Longrightarrow> state_of m7 y = state_of m y"
    using insert_ok [OF k c] k by (simp_all add: m7 requeued_def)
  show "kernel_ok P (Q(Q9K_READYQ_SENTINEL_ADDR := Q Q9K_READYQ_SENTINEL_ADDR @ requeued m c)) (Q9K_SetU32 m7 Q9_D_PROC n)"
    by (rule switch_cells_ok(2) [OF 7(1)])
  show "y \<in> P \<Longrightarrow> state_of (Q9K_SetU32 m7 Q9_D_PROC n) y = state_of m y"
    using switch_cells_ok(4) [OF 7(1)] 7(2) by simp
  have "switched P c (requeued m c \<noteq> []) m m7"
    using switched_insert [OF k c] switched_same [of P m m c] by (auto simp: m7 requeued_def same_times_def)
  then show "switched P c (requeued m c \<noteq> []) m (Q9K_SetU32 m7 Q9_D_PROC n)"
    using switch_cells_ok(6) [OF 7(1)] by (simp add: switched_def same_times_def)
qed

text \<open>What a tick does, besides the queues: \<open>n\<close> is the process switched to, or 0.\<close>

definition tick_effect :: "u32 set \<Rightarrow> queues \<Rightarrow> memory \<Rightarrow> u32 \<Rightarrow> u32 \<Rightarrow> memory \<Rightarrow> queues \<Rightarrow> bool" where
  "tick_effect P Q m c n m' Q1 \<longleftrightarrow>
     wakes (tick_queues m Q) Q1 \<and> (quiet m \<longrightarrow> Q1 = tick_queues m Q) \<and>
     (if Q9K_GetU32 m Q9K_SCHED_NOSWITCH_ADDR \<noteq> 0 \<or> Q9K_GetU16 m Q9K_SCHED_SLICE_ADDR > 0 then n = 0
      else best_by (eligible m) (tick_age m Q) (Q1 Q9K_READYQ_SENTINEL_ADDR) n) \<and>
     Q9K_GetU16 m' Q9K_SCHED_SLICE_ADDR =
       (if Q9K_GetU32 m Q9K_SCHED_NOSWITCH_ADDR \<noteq> 0 then Q9K_GetU16 m Q9K_SCHED_SLICE_ADDR
        else if Q9K_GetU16 m Q9K_SCHED_SLICE_ADDR > 0 then Q9K_GetU16 m Q9K_SCHED_SLICE_ADDR - 1 else Q9K_SCHED_TSLICE) \<and>
     (\<forall>y\<in>set (Q1 Q9K_READYQ_SENTINEL_ADDR). age_of m' y = tick_age m Q y) \<and>
     (n \<noteq> 0 \<longrightarrow> requeued m c \<noteq> [] \<longrightarrow> age_of m' c = ucast (prio_of m c)) \<and>
     (\<forall>y\<in>set (Q Q9K_SLEEPQ_SENTINEL_ADDR). ticks_of m' y = countdown (ticks_of m y)) \<and>
     (\<forall>y\<in>P. prio_of m' y = prio_of m y)"

lemma best_by_cong:
  assumes "\<And>x. x \<in> set xs \<Longrightarrow> el x = el' x" "\<And>x. x \<in> set xs \<Longrightarrow> ag x = ag' x"
  shows "best_by el ag xs b = best_by el' ag' xs b"
proof -
  have "first_max el ag xs b = first_max el' ag' xs b" unfolding first_max_def using assms by (intro ex_cong1) auto
  moreover have "filter el xs = filter el' xs" using assms(1) by (rule filter_cong [OF refl])
  ultimately show ?thesis by (simp add: best_by_def)
qed

lemma tick_effectI:
  assumes k: "kernel_ok P Q m" and t: "ticked P Q m Q1 m4" and c: "c \<in> P" "c \<notin> queued Q"
    and n: "if Q9K_GetU32 m Q9K_SCHED_NOSWITCH_ADDR \<noteq> 0 \<or> Q9K_GetU16 m Q9K_SCHED_SLICE_ADDR > 0 then n = 0
      else best_by (eligible m4) (age_of m4) (Q1 Q9K_READYQ_SENTINEL_ADDR) n"
    and sl: "Q9K_GetU16 m' Q9K_SCHED_SLICE_ADDR =
       (if Q9K_GetU32 m Q9K_SCHED_NOSWITCH_ADDR \<noteq> 0 then Q9K_GetU16 m Q9K_SCHED_SLICE_ADDR
        else if Q9K_GetU16 m Q9K_SCHED_SLICE_ADDR > 0 then Q9K_GetU16 m Q9K_SCHED_SLICE_ADDR - 1 else Q9K_SCHED_TSLICE)"
    and sw: "switched P c (n \<noteq> 0 \<and> requeued m c \<noteq> []) m4 m'"
  shows "tick_effect P Q m c n m' Q1"
proof -
  let ?S = "Q9K_SLEEPQ_SENTINEL_ADDR" and ?R = "Q9K_READYQ_SENTINEL_ADDR"
  note td = tickedD [OF t] and ev = evolvesD [OF tickedD(1) [OF t]]
  have RP: "y \<in> set (Q1 ?R) \<Longrightarrow> y \<in> P \<and> y \<noteq> c" for y
    using sched_repD(3) [OF kernel_okD(1) [OF ev(2)], of ?R] wakes_queued [OF ev(1)] c(2) by (auto simp: queued_def sentinels_def)
  have SP: "y \<in> set (Q ?S) \<Longrightarrow> y \<in> P" for y using sched_repD(3) [OF kernel_okD(1) [OF k], of ?S] by auto
  have "best_by (eligible m4) (age_of m4) (Q1 ?R) n = best_by (eligible m) (tick_age m Q) (Q1 ?R) n"
    using td(4,6) RP same_globals_get(4) [OF ev(3)] by (intro best_by_cong) (auto simp: eligible_def)
  then show ?thesis unfolding tick_effect_def using td n sl sw RP SP c(1) unfolding switched_def by (auto split: if_splits)
qed

lemma queued_remove1: "queued (Q(Q9K_READYQ_SENTINEL_ADDR := remove1 b (Q Q9K_READYQ_SENTINEL_ADDR))) \<subseteq> queued Q"
  unfolding queued_def using set_remove1_subset [of b "Q Q9K_READYQ_SENTINEL_ADDR"] sentinels_iff(1)
  by (intro UN_mono subset_refl) simp

lemma tick_result:
  assumes k: "kernel_ok P Q m" and rm: "room P 9 m"
    and c: "Q9K_GetU32 m Q9_D_PROC = c" "c \<in> P" "c \<notin> queued Q"
  obtains n m' Q1 where "Q9K_SchedReschedule m = Some (n, m')" "wakes Q Q1"
    "if n = 0 then kernel_ok P Q1 m' \<and> Q9K_GetU32 m' Q9_D_PROC = c
     else n \<in> set (Q1 Q9K_READYQ_SENTINEL_ADDR) \<and> Q9K_GetU32 m' Q9_D_PROC = n \<and>
       Q9K_GetU32 m Q9K_SCHED_NOSWITCH_ADDR = 0 \<and> Q9K_GetU16 m Q9K_SCHED_SLICE_ADDR = 0 \<and>
       kernel_ok P (Q1(Q9K_READYQ_SENTINEL_ADDR := remove1 n (Q1 Q9K_READYQ_SENTINEL_ADDR) @ requeued m c)) m'"
    "\<And>y. y \<in> P \<Longrightarrow> y \<notin> set (Q Q9K_SLEEPQ_SENTINEL_ADDR) \<Longrightarrow> state_of m' y = state_of m y"
    "tick_effect P Q m c n m' Q1"
proof -
  let ?R = "Q9K_READYQ_SENTINEL_ADDR"
  obtain m1 m2 Q1 where pre: "Q9K_SchedAgeAll m = Some m1" "Q9K_SleepQDecrementAll m1 = Some m2"
    "ticked P Q m Q1 (snd (Q9K_ClockTick (snd (Q9K_AlarmTick m2))))" by (rule tick_prefix [OF k rm])
  define m4 where "m4 = snd (Q9K_ClockTick (snd (Q9K_AlarmTick m2)))"
  note t4 = pre(3) [folded m4_def]
  note ev = evolvesD [OF tickedD(1) [OF t4]] and ef = tick_effectI [OF k t4 c(2,3)]
  note gl = same_globals_get [OF ev(3)]
  obtain b m5 where b: "Q9K_SchedPickHighestAge m4 = Some (b, m5)" "b = 0 \<or> b \<in> set (Q1 ?R)"
    "kernel_ok P (Q1(?R := remove1 b (Q1 ?R))) m5" "same_globals m4 m5" "\<And>d. d \<in> P \<Longrightarrow> state_of m5 d = state_of m4 d"
    "\<And>d. d \<in> P \<Longrightarrow> same_times m4 m5 d" "best_by (eligible m4) (age_of m4) (Q1 ?R) b"
    using pick_ok [OF ev(2)] by blast
  define m6 where "m6 = Q9K_SetU16 m5 Q9K_SCHED_SLICE_ADDR Q9K_SCHED_TSLICE"
  have k6: "kernel_ok P (Q1(?R := remove1 b (Q1 ?R))) m6" unfolding m6_def by (rule switch_cells_ok(1) [OF b(3)])
  have s6: "\<And>d. d \<in> P \<Longrightarrow> state_of m6 d = state_of m4 d" using switch_cells_ok(3) [OF b(3)] b(5) by (simp add: m6_def)
  define m7 where "m7 = (if state_of m6 c \<noteq> Q9K_PROCDESC_STATE_ZOMBIE \<and> state_of m6 c \<noteq> Q9K_PROCDESC_STATE_IDLE
                   then Q9K_SchedInsert m6 c else m6)"
  have t6: "same_times m4 m6 d" if "d \<in> P" for d using same_times_trans [OF b(6) switch_cells_ok(5) [OF b(3)]] that by (simp add: m6_def)
  have nz: "c \<noteq> 0" using desc_ok_nonzero [OF procs_okD [OF kernel_okD(3) [OF k] c(2)]] .
  have cq: "c \<notin> queued (Q1(?R := remove1 b (Q1 ?R)))" using queued_remove1 [of Q1 b] wakes_queued [OF ev(1)] c(3) by auto
  have cs: "c \<notin> set (Q Q9K_SLEEPQ_SENTINEL_ADDR)" using c(3) by (auto simp: queued_def)
  have rq: "requeued m6 c = requeued m c" using s6 [OF c(2)] ev(4) [OF c(2) cs] by (simp add: requeued_def)
  note sw = switch_ok [OF k6 c(2) cq m7_def, unfolded rq]
  have Dz: "Q9K_GetU32 m6 Q9_D_PROC = c"
    using same_globals_get(1) [OF b(4)] gl(1) c(1) by (simp add: m6_def)
  have e: "Q9K_SchedReschedule m = (if Q9K_GetU32 m Q9K_SCHED_NOSWITCH_ADDR \<noteq> 0 then Some (0, m4)
     else if Q9K_GetU16 m Q9K_SCHED_SLICE_ADDR > 0
     then Some (0, Q9K_SetU16 m4 Q9K_SCHED_SLICE_ADDR (Q9K_GetU16 m Q9K_SCHED_SLICE_ADDR - 1))
     else if b = 0 then Some (0, m6) else Some (b, Q9K_SetU32 m7 Q9_D_PROC b))"
    unfolding Q9K_SchedReschedule_def pre(1)
    using gl(2,3) b(1) nz by (simp add: Let_def c(1) pre(2) m4_def [symmetric] m6_def [symmetric] m7_def)
  have st4: "y \<in> P \<Longrightarrow> y \<notin> set (Q Q9K_SLEEPQ_SENTINEL_ADDR) \<Longrightarrow> state_of m4 y = state_of m y" for y by (rule ev(4))
  consider (still) "Q9K_GetU32 m Q9K_SCHED_NOSWITCH_ADDR \<noteq> 0"
    | (slice) "Q9K_GetU32 m Q9K_SCHED_NOSWITCH_ADDR = 0" "Q9K_GetU16 m Q9K_SCHED_SLICE_ADDR > 0"
    | (none) "Q9K_GetU32 m Q9K_SCHED_NOSWITCH_ADDR = 0" "\<not> Q9K_GetU16 m Q9K_SCHED_SLICE_ADDR > 0" "b = 0"
    | (some) "Q9K_GetU32 m Q9K_SCHED_NOSWITCH_ADDR = 0" "\<not> Q9K_GetU16 m Q9K_SCHED_SLICE_ADDR > 0" "b \<noteq> 0"
    by blast
  then show thesis
  proof cases
    case still
    have "tick_effect P Q m c 0 m4 Q1" by (rule ef) (use still gl(3) in \<open>auto simp: switched_def\<close>)
    then show thesis using that [of 0 m4 Q1] e ev(1,2) gl(1) c(1) st4 still by simp
  next
    case slice
    let ?m = "Q9K_SetU16 m4 Q9K_SCHED_SLICE_ADDR (Q9K_GetU16 m Q9K_SCHED_SLICE_ADDR - 1)"
    have "tick_effect P Q m c 0 ?m Q1"
      by (rule ef) (use slice switched_same [OF switch_cells_ok(5) [OF ev(2)]] in simp_all)
    then show thesis
      using that [of 0 ?m Q1] e ev(1) switch_cells_ok(1,3) [OF ev(2)] gl(1) c(1) st4 slice by simp
  next
    case none
    have "0 \<notin> set (Q1 ?R)"
      using sched_repD(3) [OF kernel_okD(1) [OF ev(2)], of ?R] procs_okD [OF kernel_okD(3) [OF k]] desc_ok_nonzero by auto
    then have q: "Q1(?R := remove1 b (Q1 ?R)) = Q1" using none by (simp add: remove1_idem)
    have "tick_effect P Q m c 0 m6 Q1"
      by (rule ef) (use none b(7) switched_same [of P m4 m6 c] t6 in \<open>simp_all add: m6_def\<close>)
    then show thesis using that [of 0 m6 Q1] e ev(1) none k6 Dz s6 st4 q by simp
  next
    case some
    have z: "Q9K_GetU16 m Q9K_SCHED_SLICE_ADDR = 0" using some(2) by (metis word_gt_0)
    have "switched P c (requeued m c \<noteq> []) m4 (Q9K_SetU32 m7 Q9_D_PROC b)"
      using sw(3) t6 by (simp add: switched_def same_times_def)
    then have "tick_effect P Q m c b (Q9K_SetU32 m7 Q9_D_PROC b) Q1"
      by (intro ef) (use some b(7) same_globals_get(3) [OF sw(4)] in \<open>simp_all add: m6_def\<close>)
    then show thesis using that [of b _ Q1] e ev(1) some b(2) sw s6 st4 z by simp
  qed
qed

section \<open>Reachable states\<close>

text \<open>What runs between two kernel entries (user programs and the register save of the assembly entry
  code) leaves the kernel globals alone and, of the descriptors, writes at most the saved stack
  pointers.\<close>

definition user_change :: "u32 set \<Rightarrow> memory \<Rightarrow> memory \<Rightarrow> bool" where
  "user_change P m m' \<longleftrightarrow> (\<forall>a. unat a < 0x8000 \<longrightarrow> m' a = m a) \<and>
     (\<forall>d\<in>P. \<forall>i<0x400. \<not> (8 \<le> i \<and> i < 12) \<longrightarrow> m' (d + i) = m (d + i))"

text \<open>One step of the machine.  A tick needs stack room for the nine signals it can deliver, a signal
  for one.  When nobody is ready after F$Sleep the entry code switches to the idle process
  (\<^verbatim>\<open>Q9K_IdleFallback\<close> in \<^verbatim>\<open>q9kernel_entry.a\<close>), which itself never calls the kernel.\<close>

inductive kstep :: "u32 set \<Rightarrow> u32 \<Rightarrow> memory \<Rightarrow> memory \<Rightarrow> bool" for P idle where
  tick: "room P 9 m \<Longrightarrow> Q9K_SchedReschedule m = Some (n, m') \<Longrightarrow> kstep P idle m m'"
| sleep: "Q9K_GetU32 m Q9_D_PROC = c \<Longrightarrow> c \<noteq> idle \<Longrightarrow> room P 1 m \<Longrightarrow>
    stack_ok P (Q9K_GetU32 m (c + Q9K_PROCDESC_SAVEDSP_OFF)) 4 \<Longrightarrow>
    Q9K_ProcSleep m c ticks = Some (b, m') \<Longrightarrow> kstep P idle m (if b = 0 then Q9K_SetU32 m' Q9_D_PROC idle else m')"
| send: "room P 1 m \<Longrightarrow> Q9K_ProcSend m pid signal = Inr m' \<Longrightarrow> kstep P idle m m'"
| prior: "Q9K_ProcSPrior m pid prio = Some (Inr m') \<Longrightarrow> kstep P idle m m'"
| user: "user_change P m m' \<Longrightarrow> kstep P idle m m'"

inductive_cases kstepE: "kstep P idle m m'"

text \<open>The invariant of the running system.\<close>

definition running_ok :: "u32 set \<Rightarrow> u32 \<Rightarrow> queues \<Rightarrow> memory \<Rightarrow> bool" where
  "running_ok P idle Q m \<longleftrightarrow> kernel_ok P Q m \<and> Q9K_GetU32 m Q9_D_PROC \<in> P \<and> Q9K_GetU32 m Q9_D_PROC \<notin> queued Q \<and>
     idle \<in> P \<and> idle \<notin> queued Q \<and> state_of m idle = Q9K_PROCDESC_STATE_IDLE"

lemma running_okD:
  assumes "running_ok P idle Q m"
  shows "kernel_ok P Q m" "Q9K_GetU32 m Q9_D_PROC \<in> P" "Q9K_GetU32 m Q9_D_PROC \<notin> queued Q" "idle \<in> P"
    "idle \<notin> queued Q" "state_of m idle = Q9K_PROCDESC_STATE_IDLE" "idle \<notin> set (Q Q9K_SLEEPQ_SENTINEL_ADDR)"
  using assms by (auto simp: running_ok_def queued_def)

lemma queued_upd_ready: "queued (Q(Q9K_READYQ_SENTINEL_ADDR := xs)) =
    set xs \<union> set (Q Q9K_WAITQ_SENTINEL_ADDR) \<union> set (Q Q9K_SLEEPQ_SENTINEL_ADDR)"
  by (auto simp: queued_def sentinels_def)

lemma queued_eq: "queued Q = set (Q Q9K_READYQ_SENTINEL_ADDR) \<union> set (Q Q9K_WAITQ_SENTINEL_ADDR) \<union>
    set (Q Q9K_SLEEPQ_SENTINEL_ADDR)"
  by (auto simp: queued_def sentinels_def)

lemma remove1_set: "kernel_ok P Q m \<Longrightarrow> set (remove1 b (Q Q9K_READYQ_SENTINEL_ADDR)) = set (Q Q9K_READYQ_SENTINEL_ADDR) - {b}"
  using sched_repD(4) [OF kernel_okD(1), of P Q m Q9K_READYQ_SENTINEL_ADDR] by simp

lemma ready_only:
  assumes "kernel_ok P Q m" "b \<in> set (Q Q9K_READYQ_SENTINEL_ADDR)"
  shows "b \<notin> set (Q Q9K_WAITQ_SENTINEL_ADDR)" "b \<notin> set (Q Q9K_SLEEPQ_SENTINEL_ADDR)"
  using sched_repD(5) [OF kernel_okD(1) [OF assms(1)] sentinels_iff(1) _ _ assms(2)] by (auto simp: sentinels_def)

lemma requeued_idle: "state_of m c = Q9K_PROCDESC_STATE_IDLE \<Longrightarrow> requeued m c = []"
  by (simp add: requeued_def)

lemma set_requeued: "set (requeued m c) \<subseteq> {c}"
  by (simp add: requeued_def)

lemma wakes_disjoint:
  assumes r: "sched_rep m P Q" and w: "wakes Q Q'" and n: "n \<in> set (Q' Q9K_READYQ_SENTINEL_ADDR)"
  shows "n \<notin> set (Q' Q9K_WAITQ_SENTINEL_ADDR)" "n \<notin> set (Q' Q9K_SLEEPQ_SENTINEL_ADDR)" "n \<in> P"
    "distinct (Q' Q9K_READYQ_SENTINEL_ADDR)"
proof -
  obtain ws where ws: "distinct ws" "set ws \<subseteq> set (Q Q9K_SLEEPQ_SENTINEL_ADDR)" "Q' = woken ws Q"
    using w unfolding wakes_def by blast
  note d = sched_repD(5) [OF r] and p = sched_repD(3,4) [OF r]
  show "n \<notin> set (Q' Q9K_WAITQ_SENTINEL_ADDR)" "n \<notin> set (Q' Q9K_SLEEPQ_SENTINEL_ADDR)"
    using n ws(2) d [of Q9K_READYQ_SENTINEL_ADDR Q9K_WAITQ_SENTINEL_ADDR n] d [of Q9K_SLEEPQ_SENTINEL_ADDR Q9K_WAITQ_SENTINEL_ADDR n]
      d [of Q9K_READYQ_SENTINEL_ADDR Q9K_SLEEPQ_SENTINEL_ADDR n] by (auto simp: ws(3) woken_def)
  show "n \<in> P" using n ws(2) p(1) [of Q9K_READYQ_SENTINEL_ADDR] p(1) [of Q9K_SLEEPQ_SENTINEL_ADDR]
    by (auto simp: ws(3) woken_def)
  show "distinct (Q' Q9K_READYQ_SENTINEL_ADDR)"
    using ws p(2) [of Q9K_READYQ_SENTINEL_ADDR] d [of Q9K_SLEEPQ_SENTINEL_ADDR Q9K_READYQ_SENTINEL_ADDR]
    by (auto simp: woken_def)
qed

lemma tick_keeps:
  assumes r: "running_ok P idle Q m" and rm: "room P 9 m"
  obtains n m' Q' where "Q9K_SchedReschedule m = Some (n, m')" "running_ok P idle Q' m'"
proof -
  note rk = running_okD [OF r]
  define c where "c = Q9K_GetU32 m Q9_D_PROC"
  obtain n m' Q1 where t: "Q9K_SchedReschedule m = Some (n, m')" "wakes Q Q1"
    "if n = 0 then kernel_ok P Q1 m' \<and> Q9K_GetU32 m' Q9_D_PROC = c
     else n \<in> set (Q1 Q9K_READYQ_SENTINEL_ADDR) \<and> Q9K_GetU32 m' Q9_D_PROC = n \<and>
       Q9K_GetU32 m Q9K_SCHED_NOSWITCH_ADDR = 0 \<and> Q9K_GetU16 m Q9K_SCHED_SLICE_ADDR = 0 \<and>
       kernel_ok P (Q1(Q9K_READYQ_SENTINEL_ADDR := remove1 n (Q1 Q9K_READYQ_SENTINEL_ADDR) @ requeued m c)) m'"
    "\<And>y. y \<in> P \<Longrightarrow> y \<notin> set (Q Q9K_SLEEPQ_SENTINEL_ADDR) \<Longrightarrow> state_of m' y = state_of m y"
    by (rule tick_result [OF rk(1) rm c_def [symmetric]]) (use rk(2,3) in \<open>simp_all add: c_def\<close>)
  have q: "queued Q1 = queued Q" by (rule wakes_queued [OF t(2)])
  have si: "state_of m' idle = Q9K_PROCDESC_STATE_IDLE" using t(4) [OF rk(4,7)] rk(6) by simp
  show thesis
  proof (cases "n = 0")
    case True
    then have "running_ok P idle Q1 m'" using t(3) rk q si by (simp add: running_ok_def c_def)
    then show thesis using that t(1) by blast
  next
    case False
    let ?Q = "Q1(Q9K_READYQ_SENTINEL_ADDR := remove1 n (Q1 Q9K_READYQ_SENTINEL_ADDR) @ requeued m c)"
    have n: "n \<in> set (Q1 Q9K_READYQ_SENTINEL_ADDR)" "Q9K_GetU32 m' Q9_D_PROC = n" "kernel_ok P ?Q m'" using t(3) False by auto
    have D: "distinct (remove1 n (Q1 Q9K_READYQ_SENTINEL_ADDR) @ requeued m c)"
      using sched_repD(4) [OF kernel_okD(1) [OF n(3)], of Q9K_READYQ_SENTINEL_ADDR] by simp
    have nq: "n \<in> queued Q1" "n \<noteq> c" using n(1) rk(3) q by (auto simp: queued_eq c_def)
    have dj: "n \<notin> set (Q1 Q9K_WAITQ_SENTINEL_ADDR)" "n \<notin> set (Q1 Q9K_SLEEPQ_SENTINEL_ADDR)" "n \<in> P"
      "distinct (Q1 Q9K_READYQ_SENTINEL_ADDR)"
      using wakes_disjoint [OF kernel_okD(1) [OF rk(1)] t(2) n(1)] by auto
    have "n \<notin> queued ?Q" using dj nq(2) set_requeued [of m c] by (auto simp: queued_upd_ready)
    moreover have "idle \<notin> queued ?Q"
      using rk(5,6) q requeued_idle [of m c] set_requeued [of m c] set_remove1_subset [of n "Q1 Q9K_READYQ_SENTINEL_ADDR"]
      by (cases "c = idle") (auto simp: queued_upd_ready queued_eq)
    ultimately have "running_ok P idle ?Q m'" using n dj rk si by (simp add: running_ok_def)
    then show thesis using that t(1) by blast
  qed
qed

section \<open>Sleeping keeps the invariant\<close>

lemma minpty_ok:
  assumes k: "kernel_ok P Q m"
  shows "kernel_ok P Q (Q9K_SetU16 m Q9K_SCHED_MINPTY_ADDR v)"
    "d \<in> P \<Longrightarrow> state_of (Q9K_SetU16 m Q9K_SCHED_MINPTY_ADDR v) d = state_of m d"
proof -
  note kd = kernel_okD [OF k]
  show st: "d \<in> P \<Longrightarrow> state_of (Q9K_SetU16 m Q9K_SCHED_MINPTY_ADDR v) d = state_of m d" for d
    using procs_okD [OF kd(3), of d] by (simp add: desc_global)
  show "kernel_ok P Q (Q9K_SetU16 m Q9K_SCHED_MINPTY_ADDR v)"
    using kd(1,2,4) st sched_global_write [OF kd(3)] by (simp add: kernel_ok_def pool_in_def)
qed

lemma first_pick_ok:
  assumes k: "kernel_ok P Q m"
  obtains b m' where "Q9K_SchedFirstPick m = Some (b, m')" "b = 0 \<or> b \<in> set (Q Q9K_READYQ_SENTINEL_ADDR)"
    "kernel_ok P (Q(Q9K_READYQ_SENTINEL_ADDR := remove1 b (Q Q9K_READYQ_SENTINEL_ADDR))) m'"
    "b \<noteq> 0 \<Longrightarrow> Q9K_GetU32 m' Q9_D_PROC = b" "\<And>d. d \<in> P \<Longrightarrow> state_of m' d = state_of m d"
proof -
  let ?m1 = "Q9K_SetU16 m Q9K_SCHED_MINPTY_ADDR 0" and ?R = "Q9K_READYQ_SENTINEL_ADDR"
  obtain b m2 where b: "Q9K_SchedPickHighestAge ?m1 = Some (b, m2)" "b = 0 \<or> b \<in> set (Q ?R)"
    "kernel_ok P (Q(?R := remove1 b (Q ?R))) m2" "\<And>d. d \<in> P \<Longrightarrow> state_of m2 d = state_of ?m1 d"
    by (rule pick_ok [OF minpty_ok(1) [OF k, of 0]], rule that) assumption+
  define m' where "m' = (if b \<noteq> 0 then Q9K_SetU16 (Q9K_SetU32 m2 Q9_D_PROC b) Q9K_SCHED_SLICE_ADDR Q9K_SCHED_TSLICE else m2)"
  have e: "Q9K_SchedFirstPick m = Some (b, m')" by (simp add: Q9K_SchedFirstPick_def b(1) m'_def)
  note w = switch_cells_ok(2,4) [OF b(3), where w = b]
  have "kernel_ok P (Q(?R := remove1 b (Q ?R))) m'" 
    unfolding m'_def using b(3) switch_cells_ok(1) [OF w(1)] by (simp only: split: if_splits) simp
  moreover have "d \<in> P \<Longrightarrow> state_of m' d = state_of m d" for d
    using b(4) w(2) switch_cells_ok(3) [OF w(1)] minpty_ok(2) [OF k] by (simp add: m'_def)
  moreover have "b \<noteq> 0 \<Longrightarrow> Q9K_GetU32 m' Q9_D_PROC = b" by (simp add: m'_def)
  ultimately show thesis using that [OF e b(2)] by blast
qed

lemma sleep_prepare_ok:
  assumes k: "kernel_ok P Q m" and c: "c \<in> P" and st: "stack_ok P (Q9K_GetU32 m (c + Q9K_PROCDESC_SAVEDSP_OFF)) 4"
    and m2: "m2 = Q9K_SetU8 (Q9K_SetFrameReg m (Q9K_GetU32 m (c + Q9K_PROCDESC_SAVEDSP_OFF)) 0 0)
       (c + Q9K_PROCDESC_SIGLVL_OFF) 0"
  shows "evolves P Q m Q m2" "room P n m \<Longrightarrow> room P n m2"
proof -
  let ?f = "Q9K_GetU32 m (c + Q9K_PROCDESC_SAVEDSP_OFF)" and ?m1 = "Q9K_SetU32 m (Q9K_GetU32 m (c + Q9K_PROCDESC_SAVEDSP_OFF)) 0"
  note kd = kernel_okD [OF k]
  have w: "within ?f 4 m ?m1" using within_put(1) [of 0 4 ?f m m 0] by simp
  have e: "m2 = Q9K_SetU8 ?m1 (c + Q9K_PROCDESC_SIGLVL_OFF) 0" by (simp add: m2 SetFrameReg_eq)
  have sd: "same_desc m m2 y" if "y \<in> P" for y
    using same_fields_desc [OF within_sched(2) [OF w st] that] field_other(1) [OF kd(3) c that, of "0x210" ?m1 0]
    by (cases "y = c") (auto simp: e same_desc_def)
  have g: "same_globals m m2" unfolding e
    by (rule same_globals_trans [OF within_globals [OF st w] field_globals(1) [OF procs_okD [OF kd(3) c]]]) simp
  show "evolves P Q m Q m2"
    by (rule evolves_same [OF k _ g]) (use sleep_prepare(1) [OF _ c st m2] kd(1) sd in \<open>auto simp: same_desc_def\<close>)
  show "room P n m \<Longrightarrow> room P n m2" using room_same sd by blast
qed

lemma sleep_queue_ok:
  assumes k: "kernel_ok P Q m" and c: "c \<in> P" "c \<notin> queued Q"
    and m': "m' = Q9K_SleepQInsert (Q9K_SetU32 (Q9K_SetU8 m (c + Q9K_PROCDESC_STATE_OFF) Q9K_PROCDESC_STATE_SLEEPING)
      (c + Q9K_PROCDESC_SLEEPTICKS_OFF) t) c"
  shows "kernel_ok P (Q(Q9K_SLEEPQ_SENTINEL_ADDR := Q Q9K_SLEEPQ_SENTINEL_ADDR @ [c])) m'"
    "y \<in> P \<Longrightarrow> y \<noteq> c \<Longrightarrow> state_of m' y = state_of m y"
proof -
  let ?m0 = "Q9K_SetU32 (Q9K_SetU8 m (c + Q9K_PROCDESC_STATE_OFF) Q9K_PROCDESC_STATE_SLEEPING)
      (c + Q9K_PROCDESC_SLEEPTICKS_OFF) t"
  note kd = kernel_okD [OF k]
  note D = procs_okD [OF kd(3) c(1)]
  have r0: "sched_rep ?m0 P Q" using kd(1,3) c by simp
  have "prv ?m0 Q9K_SLEEPQ_SENTINEL_ADDR \<in> sentinels \<union> P" by (rule sched_ends(1) [OF r0]) simp
  then have o: "only_links P ?m0 m'" unfolding m' Q9K_SleepQInsert_def by (intro only_links_append) (simp_all add: c)
  have g: "same_globals m m'"
    by (rule same_globals_trans [OF same_globals_trans [OF field_globals(1) [OF D] field_globals(3) [OF D]]
          only_links_globals [OF kd(3) o]]) simp_all
  have sd: "same_desc m m' y" if y: "y \<in> P" "y \<noteq> c" for y
    by (rule same_desc_trans [OF same_desc_trans [OF field_other(1) [OF kd(3) c(1) y] field_other(3) [OF kd(3) c(1) y]]
          same_fields_desc [OF only_links_same_fields [OF kd(3) o] y(1)]]) simp_all
  then show "y \<in> P \<Longrightarrow> y \<noteq> c \<Longrightarrow> state_of m' y = state_of m y" by (simp add: same_desc_def)
  have "state_of m' y = Q9K_PROCDESC_STATE_SLEEPING \<longleftrightarrow> y \<in> set (Q Q9K_SLEEPQ_SENTINEL_ADDR @ [c])" if "y \<in> P" for y
    using sleep_queue(3) [OF kd(1) c m'] sd [OF that] kd(4) [OF that] by (cases "y = c") (simp_all add: same_desc_def)
  then show "kernel_ok P (Q(Q9K_SLEEPQ_SENTINEL_ADDR := Q Q9K_SLEEPQ_SENTINEL_ADDR @ [c])) m'"
    using sleep_queue(1) [OF kd(1) c m'] pool_in_same [OF g] kd(2) by (simp add: kernel_ok_def)
qed

text \<open>F$Sleep queues the caller and picks; what follows depends only on the queue it joined.\<close>

lemma sleep_kernel:
  assumes k: "kernel_ok P Q m" and c: "c \<in> P" "c \<notin> queued Q" and rm: "room P 1 m"
    and st: "stack_ok P (Q9K_GetU32 m (c + Q9K_PROCDESC_SAVEDSP_OFF)) 4"
  obtains s m3 where "Q9K_ProcSleep m c ticks = Q9K_SchedFirstPick m3"
    "s = Q9K_READYQ_SENTINEL_ADDR \<or> s = Q9K_SLEEPQ_SENTINEL_ADDR" "kernel_ok P (Q(s := Q s @ [c])) m3"
    "\<And>y. y \<in> P \<Longrightarrow> y \<noteq> c \<Longrightarrow> y \<notin> set (Q Q9K_SLEEPQ_SENTINEL_ADDR) \<Longrightarrow> state_of m3 y = state_of m y"
proof -
  define m2 where "m2 = Q9K_SetU8 (Q9K_SetFrameReg m (Q9K_GetU32 m (c + Q9K_PROCDESC_SAVEDSP_OFF)) 0 0)
       (c + Q9K_PROCDESC_SIGLVL_OFF) 0"
  note pr = sleep_prepare_ok [OF k c(1) st m2_def]
  note k2 = evolvesD(2) [OF pr(1)] and s2 = evolvesD(4) [OF pr(1)]
  define t where "t = sleep_ticks ticks"
  define pending where "pending = Q9K_GetU16 m2 (c + Q9K_PROCDESC_SIGNAL_OFF)"
  note ins = insert_ok [OF k2 c]
  consider "pending \<noteq> 0" | "pending = 0" "t = 1" | "pending = 0" "t \<noteq> 1" by blast
  then show thesis
  proof cases
    case 1
    have "room P 1 (Q9K_SchedInsert m2 c)"
      using pr(2) [OF rm] insert_frame(2) [OF kernel_okD(1) [OF k2] c] room_same by blast
    then have "room P (Suc 0) (Q9K_SchedInsert m2 c)" by simp
    note de = deliver_ok(1) [OF ins(1) c(1) this _ refl, where signal = pending]
    have "y \<notin> set (Q Q9K_SLEEPQ_SENTINEL_ADDR) \<Longrightarrow> y \<in> P \<Longrightarrow>
        state_of (snd (Q9K_IcptDeliver (Q9K_SchedInsert m2 c) c pending)) y = state_of m y" for y
      using rousesD(4) [OF de, of y] ins(2) [of y] s2 [of y] by simp
    moreover have "Q9K_ProcSleep m c ticks = Q9K_SchedFirstPick (snd (Q9K_IcptDeliver (Q9K_SchedInsert m2 c) c pending))"
      using 1 unfolding Q9K_ProcSleep_def Let_def m2_def [symmetric] pending_def [symmetric] by simp
    ultimately show thesis by (intro that [OF _ _ rousesD(2) [OF de]]) simp_all
  next
    case 2
    then have "Q9K_ProcSleep m c ticks = Q9K_SchedFirstPick (Q9K_SchedInsert m2 c)"
      unfolding Q9K_ProcSleep_def Let_def m2_def [symmetric] pending_def [symmetric] t_def [symmetric] by simp
    then show thesis using that [OF _ _ ins(1)] ins(2) s2 by simp
  next
    case 3
    define m3 where "m3 = Q9K_SleepQInsert (Q9K_SetU32 (Q9K_SetU8 m2 (c + Q9K_PROCDESC_STATE_OFF) Q9K_PROCDESC_STATE_SLEEPING)
      (c + Q9K_PROCDESC_SLEEPTICKS_OFF) (if t = 0 then Q9K_SLEEP_INFINITE else t - 1)) c"
    note sq = sleep_queue_ok [OF k2 c m3_def]
    have "Q9K_ProcSleep m c ticks = Q9K_SchedFirstPick m3"
      using 3 unfolding Q9K_ProcSleep_def Let_def m2_def [symmetric] pending_def [symmetric] t_def [symmetric]
      by (simp add: m3_def)
    then show thesis using that [OF _ _ sq(1)] sq(2) s2 by simp
  qed
qed

lemma sleep_keeps:
  assumes r: "running_ok P idle Q m" and c: "Q9K_GetU32 m Q9_D_PROC = c" "c \<noteq> idle" and rm: "room P 1 m"
    and st: "stack_ok P (Q9K_GetU32 m (c + Q9K_PROCDESC_SAVEDSP_OFF)) 4"
  obtains b m' Q' where "Q9K_ProcSleep m c ticks = Some (b, m')"
    "running_ok P idle Q' (if b = 0 then Q9K_SetU32 m' Q9_D_PROC idle else m')"
proof -
  note rk = running_okD [OF r]
  let ?R = "Q9K_READYQ_SENTINEL_ADDR"
  have cP: "c \<in> P" "c \<notin> queued Q" using rk(2,3) c(1) by simp_all
  obtain s m3 where s: "Q9K_ProcSleep m c ticks = Q9K_SchedFirstPick m3" "s = ?R \<or> s = Q9K_SLEEPQ_SENTINEL_ADDR"
    "kernel_ok P (Q(s := Q s @ [c])) m3"
    "\<And>y. y \<in> P \<Longrightarrow> y \<noteq> c \<Longrightarrow> y \<notin> set (Q Q9K_SLEEPQ_SENTINEL_ADDR) \<Longrightarrow> state_of m3 y = state_of m y"
    using sleep_kernel [OF rk(1) cP rm st] by blast
  define Q2 where "Q2 = Q(s := Q s @ [c])"
  obtain b m' where b: "Q9K_SchedFirstPick m3 = Some (b, m')" "b = 0 \<or> b \<in> set (Q2 ?R)"
    "kernel_ok P (Q2(?R := remove1 b (Q2 ?R))) m'" "b \<noteq> 0 \<Longrightarrow> Q9K_GetU32 m' Q9_D_PROC = b"
    "\<And>d. d \<in> P \<Longrightarrow> state_of m' d = state_of m3 d" using first_pick_ok [OF s(3) [folded Q2_def]] by blast
  define Q3 where "Q3 = Q2(?R := remove1 b (Q2 ?R))"
  have iq: "idle \<notin> queued Q2" using rk(5) c(2) s(2) by (auto simp: Q2_def queued_eq)
  then have i3: "idle \<notin> queued Q3" using queued_remove1 [of Q2 b] by (auto simp: Q3_def)
  have si: "state_of m' idle = Q9K_PROCDESC_STATE_IDLE" using b(5) [OF rk(4)] s(4) [OF rk(4) _ rk(7)] rk(6) c(2) by auto
  have "running_ok P idle Q3 (if b = 0 then Q9K_SetU32 m' Q9_D_PROC idle else m')"
  proof (cases "b = 0")
    case True
    then show ?thesis
      using switch_cells_ok(2) [OF b(3), of idle] switch_cells_ok(4) [OF b(3) rk(4), of idle] rk(4) i3 si
      by (simp add: running_ok_def Q3_def)
  next
    case False
    then have bR: "b \<in> set (Q2 ?R)" using b(2) by simp
    note k2 = s(3) [folded Q2_def]
    have "b \<in> P" using sched_repD(3) [OF kernel_okD(1) [OF k2], of ?R] bR by auto
    moreover have "b \<notin> queued Q3" using ready_only [OF k2 bR] remove1_set [OF k2] by (simp add: Q3_def queued_upd_ready)
    ultimately show ?thesis using False b(3,4) rk(4) i3 si by (simp add: running_ok_def Q3_def)
  qed
  then show thesis using that s(1) b(1) by simp
qed

section \<open>The other steps\<close>

lemma send_keeps:
  assumes r: "running_ok P idle Q m" and rm: "room P 1 m" and m': "Q9K_ProcSend m pid signal = Inr m'"
  shows "\<exists>Q'. running_ok P idle Q' m'"
proof -
  note rk = running_okD [OF r]
  have "room P (Suc 0) m" using rm by simp
  then obtain Q' where e: "rouses P Q m Q' m'" using send_ok(1) [OF rk(1) _ _ m', of 0] by auto
  have "running_ok P idle Q' m'"
    using rk rousesD(2) [OF e] same_globals_get(1) [OF rousesD(3) [OF e]] wakes_queued [OF rousesD(1) [OF e]]
      rousesD(4) [OF e rk(4,7)] by (simp add: running_ok_def)
  then show ?thesis by blast
qed

lemma prior_keeps:
  assumes r: "running_ok P idle Q m" and m': "Q9K_ProcSPrior m pid prio = Some (Inr m')"
  shows "running_ok P idle Q m'"
proof -
  note rk = running_okD [OF r] and kd = kernel_okD [OF running_okD(1) [OF r]]
  define d where "d = Q9K_ProcLookup m pid"
  have s: "d \<noteq> 0" "Q9K_SchedSetPriority m d prio = Some m'"
    using m' by (auto simp: Q9K_ProcSPrior_def Let_def d_def split: if_splits bind_splits)
  then have dP: "d \<in> P" using lookup_in [OF kd(2), of pid] by (simp add: d_def)
  obtain v w where e: "m' = Q9K_SetU8 m (d + Q9K_PROCDESC_PRIORITY_OFF) v \<or>
      m' = Q9K_SetU16 (Q9K_SetU8 m (d + Q9K_PROCDESC_PRIORITY_OFF) v) (d + Q9K_PROCDESC_AGE_OFF) w"
    using set_priority_cases [OF kd(1) dP s(2)] by blast
  note D = procs_okD [OF kd(3) dP]
  have g: "same_globals m m'"
    using e same_globals_trans [OF field_globals(1) [OF D, of "0x19"] field_globals(2) [OF D, of "0x1A"]]
      field_globals(1) [OF D, of "0x19"] by auto
  have sd: "same_desc m m' y" if "y \<in> P" for y
    using e field_other(1) [OF kd(3) dP that, of "0x19" m v]
      field_other(2) [OF kd(3) dP that, of "0x1A" "Q9K_SetU8 m (d + Q9K_PROCDESC_PRIORITY_OFF) v" w]
    by (cases "y = d") (auto simp: same_desc_def)
  have "sched_rep m' P Q = sched_rep m P Q" using e kd(3) dP by auto
  then have ev: "evolves P Q m Q m'" by (rule evolves_same [OF rk(1) _ g]) (use sd in \<open>simp add: same_desc_def\<close>)
  show ?thesis
    using rk evolvesD(2) [OF ev] evolvesD(4) [OF ev rk(4,7)] same_globals_get(1) [OF g] by (simp add: running_ok_def)
qed

lemma user_keeps:
  assumes r: "running_ok P idle Q m" and u: "user_change P m m'"
  shows "running_ok P idle Q m'"
proof -
  note rk = running_okD [OF r] and kd = kernel_okD [OF running_okD(1) [OF r]]
  have lo: "m' (g + i) = m (g + i)" if "g + n \<le> 0x8000" "g \<le> g + n" "i < n" for g i n :: u32
    using u word_offset_less [OF that(3,1,2)] by (simp add: user_change_def word_less_nat_alt)
  have low: "g + 4 \<le> 0x8000 \<Longrightarrow> g \<le> g + 4 \<Longrightarrow> Q9K_GetU32 m' g = Q9K_GetU32 m g"
    "g + 2 \<le> 0x8000 \<Longrightarrow> g \<le> g + 2 \<Longrightarrow> Q9K_GetU16 m' g = Q9K_GetU16 m g" for g
    by (rule c32.get_local c16.get_local, rule lo; assumption)+
  have g: "same_globals m m'" by (simp add: same_globals_def low)
  have f1: "Q9K_GetU8 m' (d + i) = Q9K_GetU8 m (d + i)" if "d \<in> P" "i < 0x400" "12 \<le> i" for d i
    using u that by (auto simp: user_change_def Q9K_GetU8_def dest: leD)
  have f4: "Q9K_GetU32 m' (d + i) = Q9K_GetU32 m (d + i)" if "d \<in> P" "i = 0x30 \<or> i = 0x34" for d i
  proof (rule c32.get_local)
    fix j :: u32 assume "j < 4"
    then have "j = 0 \<or> j = 1 \<or> j = 2 \<or> j = 3" by (rule less_4_cases)
    then show "m' (d + i + j) = m (d + i + j)" using that f1 [OF that(1), of "i + j"]
      by (auto simp: Q9K_GetU8_def add.assoc)
  qed
  have "nxt m' x = nxt m x" "prv m' x = prv m x" if "x \<in> sentinels \<union> P" for x
    using that f4 [of x] low by (auto simp: sentinels_def)
  then have "sched_rep m' P Q = sched_rep m P Q" by (rule sched_rep_links)
  then have "evolves P Q m Q m'" by (rule evolves_same [OF rk(1) _ g]) (rule f1; simp)
  then show ?thesis using rk same_globals_get(1) [OF g] f1 [OF rk(4), of "0x1D"] by (simp add: running_ok_def evolves_def)
qed

lemma kstep_keeps:
  assumes "kstep P idle m m'" "running_ok P idle Q m" shows "\<exists>Q'. running_ok P idle Q' m'"
  using assms(1)
proof cases
  case (tick n)
  obtain n' m1 Q' where "Q9K_SchedReschedule m = Some (n', m1)" "running_ok P idle Q' m1"
    by (rule tick_keeps [OF assms(2) tick(1)])
  then show ?thesis using tick(2) by auto
next
  case (sleep c ticks b m1)
  obtain b' m2 Q' where "Q9K_ProcSleep m c ticks = Some (b', m2)"
    "running_ok P idle Q' (if b' = 0 then Q9K_SetU32 m2 Q9_D_PROC idle else m2)"
    by (rule sleep_keeps [OF assms(2) sleep(2-5)])
  then show ?thesis using sleep(1,6) by auto
next
  case (send pid signal)
  then show ?thesis using send_keeps [OF assms(2)] by blast
next
  case (prior pid prio)
  then show ?thesis using prior_keeps [OF assms(2)] by blast
next
  case user
  then show ?thesis using user_keeps [OF assms(2)] by blast
qed

lemma reachable_ok:
  assumes "(kstep P idle)\<^sup>*\<^sup>* m m'" "running_ok P idle Q m" shows "\<exists>Q'. running_ok P idle Q' m'"
  using assms by (induction rule: rtranclp_induct) (use kstep_keeps in blast)+

section \<open>Properties\<close>

text \<open>C2: one timer tick returns on every well-formed system.  Every ready process ages by one, up to the limit set; every
  sleeper is counted down, and those whose time is over go to the end of the ready queue with their priority as age.  Alarms and console
  signals can wake further sleepers (\<open>Q1\<close>), none when no alarm is armed and nobody waits for the console.  While task switching is off or
  the time slice is not used up, the process keeps running and the slice is counted down.  Otherwise the slice starts anew and the tick
  switches to the first of the oldest eligible processes of the ready queue, if there is one; the process that ran goes to the end of the
  ready queue, with its priority as age, unless it is a zombie or the idle process.  All queues stay well formed, no priority changes
  and no process that was awake changes its state.\<close>

theorem tick_spec:
  assumes "kernel_ok P Q m" "room P 9 m" "Q9K_GetU32 m Q9_D_PROC = c" "c \<in> P" "c \<notin> queued Q"
  shows "\<exists>n m' Q1. Q9K_SchedReschedule m = Some (n, m') \<and>
    wakes (tick_queues m Q) Q1 \<and> (quiet m \<longrightarrow> Q1 = tick_queues m Q) \<and>
    (if Q9K_GetU32 m Q9K_SCHED_NOSWITCH_ADDR \<noteq> 0 \<or> Q9K_GetU16 m Q9K_SCHED_SLICE_ADDR > 0 then n = 0
     else best_by (eligible m) (tick_age m Q) (Q1 Q9K_READYQ_SENTINEL_ADDR) n) \<and>
    Q9K_GetU16 m' Q9K_SCHED_SLICE_ADDR =
      (if Q9K_GetU32 m Q9K_SCHED_NOSWITCH_ADDR \<noteq> 0 then Q9K_GetU16 m Q9K_SCHED_SLICE_ADDR
       else if Q9K_GetU16 m Q9K_SCHED_SLICE_ADDR > 0 then Q9K_GetU16 m Q9K_SCHED_SLICE_ADDR - 1 else Q9K_SCHED_TSLICE) \<and>
    (if n = 0 then kernel_ok P Q1 m' \<and> Q9K_GetU32 m' Q9_D_PROC = c
     else n \<in> set (Q1 Q9K_READYQ_SENTINEL_ADDR) \<and> Q9K_GetU32 m' Q9_D_PROC = n \<and>
       kernel_ok P (Q1(Q9K_READYQ_SENTINEL_ADDR := remove1 n (Q1 Q9K_READYQ_SENTINEL_ADDR) @ requeued m c)) m') \<and>
    (\<forall>y\<in>set (Q1 Q9K_READYQ_SENTINEL_ADDR). age_of m' y = tick_age m Q y) \<and>
    (n \<noteq> 0 \<longrightarrow> requeued m c \<noteq> [] \<longrightarrow> age_of m' c = ucast (prio_of m c)) \<and>
    (\<forall>y\<in>set (Q Q9K_SLEEPQ_SENTINEL_ADDR). ticks_of m' y = countdown (ticks_of m y)) \<and>
    (\<forall>y\<in>P. prio_of m' y = prio_of m y) \<and>
    (\<forall>y\<in>P. y \<notin> set (Q Q9K_SLEEPQ_SENTINEL_ADDR) \<longrightarrow> state_of m' y = state_of m y)"
proof -
  obtain n m' Q1 where t: "Q9K_SchedReschedule m = Some (n, m')" "tick_effect P Q m c n m' Q1"
    "if n = 0 then kernel_ok P Q1 m' \<and> Q9K_GetU32 m' Q9_D_PROC = c
     else n \<in> set (Q1 Q9K_READYQ_SENTINEL_ADDR) \<and> Q9K_GetU32 m' Q9_D_PROC = n \<and>
       Q9K_GetU32 m Q9K_SCHED_NOSWITCH_ADDR = 0 \<and> Q9K_GetU16 m Q9K_SCHED_SLICE_ADDR = 0 \<and>
       kernel_ok P (Q1(Q9K_READYQ_SENTINEL_ADDR := remove1 n (Q1 Q9K_READYQ_SENTINEL_ADDR) @ requeued m c)) m'"
    "\<And>y. y \<in> P \<Longrightarrow> y \<notin> set (Q Q9K_SLEEPQ_SENTINEL_ADDR) \<Longrightarrow> state_of m' y = state_of m y"
    by (rule tick_result [OF assms]) blast
  have s: "if n = 0 then kernel_ok P Q1 m' \<and> Q9K_GetU32 m' Q9_D_PROC = c
     else n \<in> set (Q1 Q9K_READYQ_SENTINEL_ADDR) \<and> Q9K_GetU32 m' Q9_D_PROC = n \<and>
       kernel_ok P (Q1(Q9K_READYQ_SENTINEL_ADDR := remove1 n (Q1 Q9K_READYQ_SENTINEL_ADDR) @ requeued m c)) m'" using t(3) by presburger
  have st: "\<forall>y\<in>P. y \<notin> set (Q Q9K_SLEEPQ_SENTINEL_ADDR) \<longrightarrow> state_of m' y = state_of m y" using t(4) by blast
  note e = t(2) [unfolded tick_effect_def]
  show ?thesis by (rule exI [of _ n], rule exI [of _ m'], rule exI [of _ Q1]) (intro conjI t(1) s st; use e in blast)
qed

lemma ex_kernel_ok: "kernel_ok ex_procs ex_queues ex_mem"
proof -
  have k: "k = 0 \<or> k = 1 \<or> k = 2" if "k < 3" for k :: u32 using that by unat_arith
  have "pool_in ex_procs ex_mem" unfolding pool_in_def by (auto simp: ex_procs_def push_bit_eq_mult dest!: k)
  moreover have "state_of ex_mem d = Q9K_PROCDESC_STATE_SLEEPING \<longleftrightarrow> d \<in> set (ex_queues Q9K_SLEEPQ_SENTINEL_ADDR)"
    if "d \<in> ex_procs" for d using that by (auto simp: ex_procs_def ex_queues_def)
  ultimately show ?thesis by (simp add: kernel_ok_def ex_rep)
qed

lemma ex_room: "room ex_procs 9 ex_mem"
  by (auto simp: room_def ex_procs_def stack_ok_def)

lemma ex_running_ok: "running_ok ex_procs ex_idle ex_queues ex_mem"
  using ex_kernel_ok by (simp add: running_ok_def ex_procs_def queued_def sentinels_def ex_queues_def)

lemma ex_tick:
  "quiet ex_mem" "tick_queues ex_mem ex_queues = ex_queues" "requeued ex_mem ex_running = [ex_running]"
  "tick_age ex_mem ex_queues ex_ready = 21" "prio_of ex_mem ex_running = 10" "eligible ex_mem ex_ready"
  "Q9K_GetU32 ex_mem Q9K_SCHED_NOSWITCH_ADDR = 0" "Q9K_GetU16 ex_mem Q9K_SCHED_SLICE_ADDR = 0" "countdown (ticks_of ex_mem ex_sleeper) = 4"
proof -
  note ex = ex_mem_def ex_base_def Q9K_SchedInsert_def Q9K_SleepQInsert_def Q9K_ListAppend_def Let_def
  show "quiet ex_mem" by (simp add: quiet_def ex)
  have "Q9K_GetU16 ex_mem Q9K_SCHED_MAXAGE_ADDR = 0" by (simp add: ex)
  then show "tick_age ex_mem ex_queues ex_ready = 21" by (simp add: tick_age_def ex_queues_def aged_def)
  show "prio_of ex_mem ex_running = 10" "eligible ex_mem ex_ready" by (simp_all add: eligible_def ex)
qed (simp_all add: tick_queues_def ex_queues_def expired_def requeued_def countdown_def fun_upd_twist)

text \<open>On the example the tick switches from the running process to the only ready one, whose age has grown from 20 to 21; the running
  process is queued with its priority 10 as age and the sleeper has four of its five ticks left.\<close>

lemma tick_spec_witness:
  "\<exists>m'. Q9K_SchedReschedule ex_mem = Some (ex_ready, m') \<and> Q9K_GetU32 m' Q9_D_PROC = ex_ready \<and>
     kernel_ok ex_procs (ex_queues(Q9K_READYQ_SENTINEL_ADDR := [ex_running])) m' \<and>
     age_of m' ex_ready = 21 \<and> age_of m' ex_running = 10 \<and> ticks_of m' ex_sleeper = 4"
proof -
  note x = ex_tick
  let ?R = "Q9K_READYQ_SENTINEL_ADDR" and ?S = "Q9K_SLEEPQ_SENTINEL_ADDR"
  have c: "ex_running \<in> ex_procs" "ex_running \<notin> queued ex_queues" "Q9K_GetU32 ex_mem Q9_D_PROC = ex_running"
    using running_okD(2,3) [OF ex_running_ok] by simp_all
  have q: "ex_queues ?R = [ex_ready]" "ex_queues ?S = [ex_sleeper]" by (simp_all add: ex_queues_def)
  obtain n m' Q1 where t: "Q9K_SchedReschedule ex_mem = Some (n, m')" "quiet ex_mem \<longrightarrow> Q1 = tick_queues ex_mem ex_queues"
    "if Q9K_GetU32 ex_mem Q9K_SCHED_NOSWITCH_ADDR \<noteq> 0 \<or> Q9K_GetU16 ex_mem Q9K_SCHED_SLICE_ADDR > 0 then n = 0
     else best_by (eligible ex_mem) (tick_age ex_mem ex_queues) (Q1 ?R) n"
    "if n = 0 then kernel_ok ex_procs Q1 m' \<and> Q9K_GetU32 m' Q9_D_PROC = ex_running
     else n \<in> set (Q1 ?R) \<and> Q9K_GetU32 m' Q9_D_PROC = n \<and> kernel_ok ex_procs (Q1(?R := remove1 n (Q1 ?R) @ requeued ex_mem ex_running)) m'"
    "\<forall>y\<in>set (Q1 ?R). age_of m' y = tick_age ex_mem ex_queues y"
    "n \<noteq> 0 \<longrightarrow> requeued ex_mem ex_running \<noteq> [] \<longrightarrow> age_of m' ex_running = ucast (prio_of ex_mem ex_running)"
    "\<forall>y\<in>set (ex_queues ?S). ticks_of m' y = countdown (ticks_of ex_mem y)"
    using tick_spec [OF ex_kernel_ok ex_room c(3,1,2)] by blast
  have Q1: "Q1 = ex_queues" using t(2) x(1,2) by simp
  have "best_by (eligible ex_mem) (tick_age ex_mem ex_queues) [ex_ready] n" using t(3) x(7,8) Q1 q by simp
  then have n: "n = ex_ready" using x(6) first_max_in [of _ _ "[ex_ready]" n] by (auto simp: best_by_def)
  have "age_of m' ex_ready = tick_age ex_mem ex_queues ex_ready" using t(5) Q1 q(1) by (simp only: list.set insertI1)
  moreover have "ticks_of m' ex_sleeper = countdown (ticks_of ex_mem ex_sleeper)" using t(7) q(2) by (simp only: list.set insertI1)
  moreover have "age_of m' ex_running = 10" using t(6) n x(3,5) by simp
  ultimately show ?thesis using t(1,4) n Q1 q(1) x(3,4,9) by (intro exI [of _ m']) simp
qed

text \<open>C1: the invariant of process management holds in every state the kernel can reach by ticks,
  F$Sleep, F$Send, F$SPrior and arbitrary user activity in between: the three queues are well-formed
  rings without duplicates, a process is on the sleep queue exactly when it is in state sleeping, the
  running process is a known descriptor on no queue, and the idle process is never queued.\<close>

theorem reachable_invariant:
  assumes "(kstep P idle)\<^sup>*\<^sup>* m m'" "running_ok P idle Q m"
  shows "\<exists>Q'. running_ok P idle Q' m'"
  by (rule reachable_ok [OF assms])

lemma reachable_invariant_witness:
  "\<exists>n m'. Q9K_SchedReschedule ex_mem = Some (n, m') \<and> (\<exists>Q'. running_ok ex_procs ex_idle Q' m')"
proof -
  obtain n m' where t: "Q9K_SchedReschedule ex_mem = Some (n, m')" using tick_keeps [OF ex_running_ok ex_room] by blast
  then have "(kstep ex_procs ex_idle)\<^sup>*\<^sup>* ex_mem m'" by (intro r_into_rtranclp kstep.tick ex_room)
  from reachable_invariant [OF this ex_running_ok] t show ?thesis by blast
qed

text \<open>C3: in every reachable state the timer tick and F$Sleep return: no traversal of a queue runs
  forever, and the process they leave as the current one is a known descriptor.\<close>

theorem tick_never_stuck:
  assumes "(kstep P idle)\<^sup>*\<^sup>* m m'" "running_ok P idle Q m" "room P 9 m'"
  shows "(\<exists>n m''. Q9K_SchedReschedule m' = Some (n, m'') \<and> Q9K_GetU32 m'' Q9_D_PROC \<in> P) \<and>
    (\<forall>c ticks. Q9K_GetU32 m' Q9_D_PROC = c \<longrightarrow> c \<noteq> idle \<longrightarrow> stack_ok P (Q9K_GetU32 m' (c + Q9K_PROCDESC_SAVEDSP_OFF)) 4 \<longrightarrow>
       (\<exists>b m''. Q9K_ProcSleep m' c ticks = Some (b, m'')))"
proof -
  obtain Q' where r: "running_ok P idle Q' m'" using reachable_ok [OF assms(1,2)] by blast
  have "room P (Suc 0) m'" using assms(3) room_mono [of P _ m'] by (simp add: numeral_eq_Suc)
  then have "room P 1 m'" by simp
  then show ?thesis using tick_keeps [OF r assms(3)] sleep_keeps [OF r] running_okD(2) by metis
qed

lemma tick_never_stuck_witness: "\<exists>n m''. Q9K_SchedReschedule ex_mem = Some (n, m'') \<and> Q9K_GetU32 m'' Q9_D_PROC \<in> ex_procs"
  using tick_never_stuck [OF rtranclp.rtrancl_refl ex_running_ok ex_room] by blast

text \<open>C4: a tick neither loses nor duplicates a process: when the running process is neither a zombie
  nor the idle process, the processes that are queued or running after the tick are those before it, and
  the one that runs is on no queue.\<close>

theorem tick_conserves:
  assumes "running_ok P idle Q m" "room P 9 m" "Q9K_GetU32 m Q9_D_PROC = c"
    and "state_of m c \<noteq> Q9K_PROCDESC_STATE_ZOMBIE" "state_of m c \<noteq> Q9K_PROCDESC_STATE_IDLE"
  shows "\<exists>n m' Q'. Q9K_SchedReschedule m = Some (n, m') \<and> kernel_ok P Q' m' \<and>
    Q9K_GetU32 m' Q9_D_PROC \<notin> queued Q' \<and> insert (Q9K_GetU32 m' Q9_D_PROC) (queued Q') = insert c (queued Q)"
proof -
  note rk = running_okD [OF assms(1)]
  let ?R = "Q9K_READYQ_SENTINEL_ADDR"
  have c: "c \<in> P" "c \<notin> queued Q" and rq: "requeued m c = [c]" using rk assms(3-5) by (simp_all add: requeued_def)
  obtain n m' Q1 where t: "Q9K_SchedReschedule m = Some (n, m')" "wakes Q Q1"
    "if n = 0 then kernel_ok P Q1 m' \<and> Q9K_GetU32 m' Q9_D_PROC = c
     else n \<in> set (Q1 ?R) \<and> Q9K_GetU32 m' Q9_D_PROC = n \<and>
       Q9K_GetU32 m Q9K_SCHED_NOSWITCH_ADDR = 0 \<and> Q9K_GetU16 m Q9K_SCHED_SLICE_ADDR = 0 \<and>
       kernel_ok P (Q1(?R := remove1 n (Q1 ?R) @ requeued m c)) m'"
    by (rule tick_result [OF rk(1) assms(2,3) c]) blast
  have q: "queued Q1 = queued Q" by (rule wakes_queued [OF t(2)])
  show ?thesis
  proof (cases "n = 0")
    case True then show ?thesis using t(1,3) q c(2) by (intro exI [of _ n] exI [of _ m'] exI [of _ Q1]) simp
  next
    case False
    then have n: "n \<in> set (Q1 ?R)" and D: "Q9K_GetU32 m' Q9_D_PROC = n"
      and k: "kernel_ok P (Q1(?R := remove1 n (Q1 ?R) @ [c])) m'" using t(3) rq by simp_all
    note dj = wakes_disjoint [OF kernel_okD(1) [OF rk(1)] t(2) n]
    have "n \<noteq> c" using n q c(2) by (auto simp: queued_eq)
    then have "n \<notin> queued (Q1(?R := remove1 n (Q1 ?R) @ [c]))"
      "insert n (queued (Q1(?R := remove1 n (Q1 ?R) @ [c]))) = insert c (queued Q)"
      using dj n q by (auto simp: queued_upd_ready queued_eq [of Q1] simp flip: q)
    then show ?thesis using t(1) k D by blast
  qed
qed

lemma tick_conserves_witness:
  "\<exists>n m' Q'. Q9K_SchedReschedule ex_mem = Some (n, m') \<and>
     insert (Q9K_GetU32 m' Q9_D_PROC) (queued Q') = insert ex_running (queued ex_queues)"
  using tick_conserves [OF ex_running_ok ex_room, of ex_running] by auto

end
