(* ===== verification/Q9_Sema.thy ===== *)
theory Q9_Sema
  imports Q9_Icpt
begin

text \<open>
  F$Sema of \<^verbatim>\<open>q9kernel_sema.c\<close>: the wait queue inside a semaphore structure (head, tail, length),
  linked through the same descriptor field as the ready queue, and the two halves of P and V.
\<close>

abbreviation Q9K_SEMA_OFF_QNEXT :: u32 where "Q9K_SEMA_OFF_QNEXT \<equiv> 8"
abbreviation Q9K_SEMA_OFF_QPREV :: u32 where "Q9K_SEMA_OFF_QPREV \<equiv> 12"
abbreviation Q9K_SEMA_OFF_LENGTH :: u32 where "Q9K_SEMA_OFF_LENGTH \<equiv> 16"
abbreviation Q9K_SEMA_P :: u32 where "Q9K_SEMA_P \<equiv> 1"
abbreviation Q9K_SEMA_V :: u32 where "Q9K_SEMA_V \<equiv> 2"

section \<open>The wait queue\<close>

definition Q9K_SemaEnqueue :: "memory \<Rightarrow> u32 \<Rightarrow> u32 \<Rightarrow> memory" where
  "Q9K_SemaEnqueue m sema desc =
     (let tail = Q9K_GetU32 m (sema + Q9K_SEMA_OFF_QPREV);
          m1 = Q9K_SetU32 m (desc + Q9K_READYQ_NEXT_OFF) 0;
          m2 = (if tail = 0 then Q9K_SetU32 m1 (sema + Q9K_SEMA_OFF_QNEXT) desc
                else Q9K_SetU32 m1 (tail + Q9K_READYQ_NEXT_OFF) desc);
          m3 = Q9K_SetU32 m2 (sema + Q9K_SEMA_OFF_QPREV) desc
      in Q9K_SetU32 m3 (sema + Q9K_SEMA_OFF_LENGTH) (Q9K_GetU32 m3 (sema + Q9K_SEMA_OFF_LENGTH) + 1))"

definition Q9K_SemaDequeue :: "memory \<Rightarrow> u32 \<Rightarrow> u32 \<times> memory" where
  "Q9K_SemaDequeue m sema =
     (let head = Q9K_GetU32 m (sema + Q9K_SEMA_OFF_QNEXT) in
      if head = 0 then (0, m)
      else
        let next = Q9K_GetU32 m (head + Q9K_READYQ_NEXT_OFF);
            m1 = Q9K_SetU32 m (sema + Q9K_SEMA_OFF_QNEXT) next;
            m2 = (if next = 0 then Q9K_SetU32 m1 (sema + Q9K_SEMA_OFF_QPREV) 0 else m1);
            m3 = Q9K_SetU32 m2 (head + Q9K_READYQ_NEXT_OFF) 0;
            len = Q9K_GetU32 m3 (sema + Q9K_SEMA_OFF_LENGTH)
        in (head, Q9K_SetU32 m3 (sema + Q9K_SEMA_OFF_LENGTH) (if len \<noteq> 0 then len - 1 else 0)))"

section \<open>F$Sema\<close>

definition Q9K_SysSemaImpl :: "memory \<Rightarrow> memory" where
  "Q9K_SysSemaImpl m =
     (let sema = Q9K_GetU32 m 0x1B80;
          op = Q9K_GetU32 m 0x1B84;
          self = Q9K_GetU32 m Q9_D_PROC;
          m0 = Q9K_SetU32 (Q9K_SetU32 m 0x1B8C 0) 0x1B90 0
      in if sema = 0 then Q9K_SetU32 m0 0x1B88 (ucast Q9K_E_BPADDR)
         else if op = Q9K_SEMA_P then
           (if self = 0 then Q9K_SetU32 m0 0x1B88 (ucast Q9K_E_BPADDR)
            else Q9K_SetU32 (Q9K_SetU32 m0 0x1B90 1) 0x1B8C 1)
         else if op = Q9K_SEMA_V then
           (let (waiter, m1) = Q9K_SemaDequeue m0 sema in
            if waiter \<noteq> 0 then
              case Q9K_ProcAProc m1 waiter of
                Inl err \<Rightarrow> Q9K_SetU32 m1 0x1B88 (ucast err)
              | Inr m2 \<Rightarrow> Q9K_SetU32 m2 0x1B8C 1
            else Q9K_SetU32 m1 0x1B8C 1)
         else Q9K_SetU32 m0 0x1B88 (ucast Q9K_E_UNKSVC))"

definition Q9K_SysSemaWaitImpl :: "memory \<Rightarrow> memory option" where
  "Q9K_SysSemaWaitImpl m =
     (let sema = Q9K_GetU32 m 0x1B80;
          self = Q9K_GetU32 m Q9_D_PROC;
          m1 = Q9K_SemaEnqueue m sema self;
          m2 = Q9K_SetU8 m1 (self + Q9K_PROCDESC_STATE_OFF) Q9K_PROCDESC_STATE_SEMA
      in do {
        (next, m3) \<leftarrow> Q9K_SchedFirstPick m2;
        Some (Q9K_SetU32 m3 0x1B94 next)
      })"

end
