(* ===== verification/Q9_WaitQ.thy ===== *)
theory Q9_WaitQ
  imports Q9_Sched_Props
begin

text \<open>
  The wait queues of semaphores and events: null-terminated lists of process descriptors, linked through
  the next field, with a head and a tail cell in the object waited on.  The interface
  \<^verbatim>\<open>wait_queue\<close> states what the two users promise; the order in which waiters are served follows from it.
\<close>

section \<open>Chains\<close>

fun chain :: "memory \<Rightarrow> u32 \<Rightarrow> u32 list \<Rightarrow> u32 \<Rightarrow> bool" where
  "chain m p [] q \<longleftrightarrow> p = q"
| "chain m p (x # xs) q \<longleftrightarrow> p = x \<and> chain m (nxt m x) xs q"

lemma chain_append: "chain m p (xs @ ys) q \<longleftrightarrow> (\<exists>r. chain m p xs r \<and> chain m r ys q)"
  by (induction xs arbitrary: p) auto

lemma chain_cong: "(\<And>x. x \<in> set xs \<Longrightarrow> nxt m' x = nxt m x) \<Longrightarrow> chain m' p xs q = chain m p xs q"
  by (induction xs arbitrary: p) auto

lemma chain_end: "chain m p (xs @ [x]) q \<Longrightarrow> nxt m x = q"
  by (auto simp: chain_append)

definition wait_cells :: "u32 set \<Rightarrow> u32 \<Rightarrow> u32 \<Rightarrow> bool" where
  "wait_cells P h t \<longleftrightarrow> procs_ok P \<and> apart h 4 t 4 \<and> (\<forall>d\<in>P. apart h 4 d 0x400 \<and> apart t 4 d 0x400)"

definition wait_list :: "u32 set \<Rightarrow> u32 \<Rightarrow> u32 \<Rightarrow> memory \<Rightarrow> u32 list \<Rightarrow> bool" where
  "wait_list P h t m xs \<longleftrightarrow> wait_cells P h t \<and> distinct xs \<and> set xs \<subseteq> P \<and>
     chain m (Q9K_GetU32 m h) xs 0 \<and> Q9K_GetU32 m t = (if xs = [] then 0 else last xs)"

lemma wait_cells_apart:
  assumes "wait_cells P h t" "d \<in> P"
  shows "apart h 4 t 4" "apart t 4 h 4" "apart h 4 (d + 0x30) 4" "apart t 4 (d + 0x30) 4" "apart (d + 0x30) 4 h 4"
    "apart (d + 0x30) 4 t 4" "d \<noteq> 0"
    "e \<in> P \<Longrightarrow> e \<noteq> d \<Longrightarrow> apart (d + 0x30) 4 (e + 0x30) 4"
proof -
  have a: "apart h 4 t 4" "apart h 4 d 0x400" "apart t 4 d 0x400" "procs_ok P" using assms by (auto simp: wait_cells_def)
  show "apart h 4 t 4" "apart t 4 h 4" using a(1) apart_sym by blast+
  show b: "apart h 4 (d + 0x30) 4" "apart t 4 (d + 0x30) 4"
    using apart_sub [OF a(2), of 0 4 "0x30" 4] apart_sub [OF a(3), of 0 4 "0x30" 4] by simp_all
  show "apart (d + 0x30) 4 h 4" "apart (d + 0x30) 4 t 4" using b apart_sym by blast+
  show "d \<noteq> 0" using procs_okD [OF a(4) assms(2)] by (rule desc_ok_nonzero)
  show "apart (d + 0x30) 4 (e + 0x30) 4" if "e \<in> P" "e \<noteq> d"
    using procs_ok_apart [OF a(4) assms(2) that(1)] that(2) by (intro desc_desc(1)) auto
qed

lemma wait_listD:
  assumes "wait_list P h t m xs"
  shows "wait_cells P h t" "distinct xs" "set xs \<subseteq> P" "chain m (Q9K_GetU32 m h) xs 0"
    "Q9K_GetU32 m t = (if xs = [] then 0 else last xs)" "0 \<notin> set xs" "Q9K_GetU32 m h = (if xs = [] then 0 else hd xs)"
proof -
  show w: "wait_cells P h t" "distinct xs" "set xs \<subseteq> P" "chain m (Q9K_GetU32 m h) xs 0"
    "Q9K_GetU32 m t = (if xs = [] then 0 else last xs)" using assms by (simp_all add: wait_list_def)
  show "0 \<notin> set xs" using wait_cells_apart(7) [OF w(1)] w(3) by auto
  show "Q9K_GetU32 m h = (if xs = [] then 0 else hd xs)" using w(4) by (cases xs) auto
qed

text \<open>Writes elsewhere.\<close>

lemma wait_list_cong:
  assumes "Q9K_GetU32 m' h = Q9K_GetU32 m h" "Q9K_GetU32 m' t = Q9K_GetU32 m t" "\<And>x. x \<in> set xs \<Longrightarrow> nxt m' x = nxt m x"
  shows "wait_list P h t m' xs = wait_list P h t m xs"
  unfolding wait_list_def using assms chain_cong [of xs m' m] by simp

section \<open>Append and unlink\<close>

definition wait_append :: "memory \<Rightarrow> u32 \<Rightarrow> u32 \<Rightarrow> u32 \<Rightarrow> memory" where
  "wait_append m h t desc =
     (let tail = Q9K_GetU32 m t;
          m1 = Q9K_SetU32 m (desc + Q9K_READYQ_NEXT_OFF) 0;
          m2 = (if tail = 0 then Q9K_SetU32 m1 h desc else Q9K_SetU32 m1 (tail + Q9K_READYQ_NEXT_OFF) desc)
      in Q9K_SetU32 m2 t desc)"

definition wait_unlink :: "memory \<Rightarrow> u32 \<Rightarrow> u32 \<Rightarrow> u32 \<Rightarrow> u32 \<Rightarrow> memory" where
  "wait_unlink m h t prev node =
     (let next = nxt m node;
          m1 = (if prev = 0 then Q9K_SetU32 m h next else Q9K_SetU32 m (prev + Q9K_READYQ_NEXT_OFF) next);
          m2 = (if next = 0 then Q9K_SetU32 m1 t prev else m1)
      in Q9K_SetU32 m2 (node + Q9K_READYQ_NEXT_OFF) 0)"

lemma wait_append_list:
  assumes w: "wait_list P h t m xs" and d: "d \<in> P" "d \<notin> set xs"
  shows "wait_list P h t (wait_append m h t d) (xs @ [d])"
proof -
  note wd = wait_listD [OF w]
  note ad = wait_cells_apart [OF wd(1) d(1)]
  define m' where "m' = wait_append m h t d"
  show ?thesis
  proof (cases xs rule: rev_cases)
    case Nil
    then have "Q9K_GetU32 m t = 0" using wd(5) by simp
    then have "Q9K_GetU32 m' h = d" "nxt m' d = 0" "Q9K_GetU32 m' t = d"
      using ad by (simp_all add: m'_def wait_append_def Let_def)
    then show ?thesis using wd(1) d Nil by (simp add: wait_list_def m'_def)
  next
    case (snoc ys y)
    have y: "y \<in> P" "y \<noteq> d" "y \<notin> set ys" using wd(2,3) d snoc by auto
    note ay = wait_cells_apart [OF wd(1) y(1)]
    have "Q9K_GetU32 m t = y" using wd(5) snoc by simp
    then have m': "m' = Q9K_SetU32 (Q9K_SetU32 (Q9K_SetU32 m (d + 0x30) 0) (y + 0x30) d) t d"
      using ay(7) by (simp add: m'_def wait_append_def Let_def)
    have n: "nxt m' d = 0" "nxt m' y = d" "Q9K_GetU32 m' t = d" "Q9K_GetU32 m' h = Q9K_GetU32 m h"
      using ad ay y d by (simp_all add: m')
    have o: "nxt m' x = nxt m x" if "x \<in> set ys" for x
    proof -
      have x: "x \<in> P" "x \<noteq> y" "x \<noteq> d" using that y d wd(2,3) snoc by auto
      show ?thesis using x wait_cells_apart(4,8) [OF wd(1) x(1)] ad(8) [of x] ay(8) [of x] by (simp add: m')
    qed
    have "chain m (Q9K_GetU32 m h) ys y" using wd(4) snoc by (auto simp: chain_append)
    then have "chain m' (Q9K_GetU32 m' h) (ys @ [y, d]) 0" using chain_cong [of ys m' m] o n by (auto simp: chain_append)
    then show ?thesis using wd(1-3) d snoc n y(2) by (simp add: wait_list_def m'_def [symmetric])
  qed
qed

lemma wait_unlink_list:
  assumes w: "wait_list P h t m (as @ x # bs)"
  shows "wait_list P h t (wait_unlink m h t (if as = [] then 0 else last as) x) (as @ bs)"
proof -
  note wd = wait_listD [OF w]
  have x: "x \<in> P" "x \<notin> set as" "x \<notin> set bs" using wd(2,3) by auto
  note ax = wait_cells_apart [OF wd(1) x(1)]
  define p where "p = (if as = [] then 0 else last as)"
  define m' where "m' = wait_unlink m h t p x"
  have ch: "chain m (Q9K_GetU32 m h) as x" "chain m (nxt m x) bs 0" using wd(4) by (auto simp: chain_append)
  have nx: "nxt m x = (if bs = [] then 0 else hd bs)" using ch(2) by (cases bs) auto
  have nz: "bs \<noteq> [] \<Longrightarrow> hd bs \<noteq> 0" using wd(6) by (cases bs) auto
  have tl: "Q9K_GetU32 m t = (if bs = [] then x else last bs)" using wd(5) by simp
  have t': "Q9K_GetU32 m' t = (if as @ bs = [] then 0 else last (as @ bs))"
    and h': "Q9K_GetU32 m' h = (if as = [] then nxt m x else Q9K_GetU32 m h)"
    and l': "as \<noteq> [] \<Longrightarrow> nxt m' (last as) = nxt m x"
    and o': "\<And>y. y \<in> set (as @ bs) \<Longrightarrow> (as \<noteq> [] \<Longrightarrow> y \<noteq> last as) \<Longrightarrow> nxt m' y = nxt m y"
  proof -
    have las: "as \<noteq> [] \<Longrightarrow> last as \<in> P \<and> last as \<noteq> x \<and> last as \<noteq> 0"
      using wd(3,6) x(2) last_in_set [of as] by (metis Un_iff set_append subsetD)
    note al = wait_cells_apart [OF wd(1), of "last as"]
    show "Q9K_GetU32 m' t = (if as @ bs = [] then 0 else last (as @ bs))"
      using nx nz tl las al ax by (auto simp: m'_def p_def wait_unlink_def Let_def)
    show "Q9K_GetU32 m' h = (if as = [] then nxt m x else Q9K_GetU32 m h)"
      using las al ax by (auto simp: m'_def p_def wait_unlink_def Let_def)
    show "as \<noteq> [] \<Longrightarrow> nxt m' (last as) = nxt m x"
      using las al ax by (auto simp: m'_def p_def wait_unlink_def Let_def)
    fix y assume y: "y \<in> set (as @ bs)" "as \<noteq> [] \<Longrightarrow> y \<noteq> last as"
    then have yP: "y \<in> P" "y \<noteq> x" using wd(2,3) by auto
    note ay = wait_cells_apart [OF wd(1) yP(1)]
    show "nxt m' y = nxt m y"
      using las al(8) [of y] ax(8) [of y] ay y(2) yP by (auto simp: m'_def p_def wait_unlink_def Let_def)
  qed
  have "nxt m' y = nxt m y" if "y \<in> set bs" for y
  proof (rule o')
    show "as \<noteq> [] \<Longrightarrow> y \<noteq> last as" using that wd(2) last_in_set [of as] by (auto simp del: last_in_set)
  qed (use that in simp)
  then have "chain m' (nxt m x) bs 0" using ch(2) chain_cong [of bs m' m "nxt m x" 0] by simp
  moreover have "chain m' (Q9K_GetU32 m' h) as (nxt m x)"
  proof (cases as rule: rev_cases)
    case (snoc cs c)
    have "chain m (Q9K_GetU32 m h) cs c" using ch(1) snoc by (auto simp: chain_append)
    moreover have "\<And>y. y \<in> set cs \<Longrightarrow> nxt m' y = nxt m y" using o' snoc wd(2) by fastforce
    ultimately have "chain m' (Q9K_GetU32 m h) cs c" using chain_cong [of cs m' m] by simp
    then show ?thesis using l' h' snoc by (auto simp: chain_append)
  qed (use h' in simp)
  ultimately have "chain m' (Q9K_GetU32 m' h) (as @ bs) 0" by (auto simp: chain_append)
  then show ?thesis using wd(1-3) t' by (simp add: wait_list_def m'_def p_def)
qed

section \<open>The interface\<close>

text \<open>Serving a queue: repeated removal.\<close>

fun serve :: "(memory \<Rightarrow> (u32 \<times> memory) option) \<Rightarrow> nat \<Rightarrow> memory \<Rightarrow> (u32 list \<times> memory) option" where
  "serve deq 0 m = Some ([], m)"
| "serve deq (Suc n) m = do {
     (x, m1) \<leftarrow> deq m;
     (ys, m2) \<leftarrow> serve deq n m1;
     Some (x # ys, m2)
   }"

text \<open>A queue of processes: \<open>enq\<close> puts one at the end, \<open>deq\<close> removes the first one that is willing to go on,
  and neither changes who is willing.\<close>

locale wait_queue =
  fixes queue :: "memory \<Rightarrow> u32 list \<Rightarrow> bool"
    and nodes :: "u32 set"
    and enq :: "memory \<Rightarrow> u32 \<Rightarrow> memory"
    and deq :: "memory \<Rightarrow> (u32 \<times> memory) option"
    and willing :: "memory \<Rightarrow> u32 \<Rightarrow> bool"
  assumes enq_queue: "queue m xs \<Longrightarrow> d \<in> nodes \<Longrightarrow> d \<notin> set xs \<Longrightarrow> queue (enq m d) (xs @ [d])"
    and deq_none: "queue m xs \<Longrightarrow> \<forall>x\<in>set xs. \<not> willing m x \<Longrightarrow> deq m = Some (0, m)"
    and deq_first: "queue m (as @ x # bs) \<Longrightarrow> \<forall>a\<in>set as. \<not> willing m a \<Longrightarrow> willing m x \<Longrightarrow>
      \<exists>m'. deq m = Some (x, m') \<and> queue m' (as @ bs)"
    and enq_willing: "queue m xs \<Longrightarrow> d \<in> nodes \<Longrightarrow> y \<in> nodes \<Longrightarrow> willing (enq m d) y = willing m y"
    and deq_willing: "queue m xs \<Longrightarrow> deq m = Some (x, m') \<Longrightarrow> y \<in> nodes \<Longrightarrow> willing m' y = willing m y"
    and queue_nodes: "queue m xs \<Longrightarrow> set xs \<subseteq> nodes \<and> distinct xs"
begin

lemma enq_all:
  assumes "queue m xs" "set ds \<subseteq> nodes" "distinct ds" "set ds \<inter> set xs = {}"
  shows "queue (fold (\<lambda>d m. enq m d) ds m) (xs @ ds) \<and> (\<forall>y\<in>nodes. willing (fold (\<lambda>d m. enq m d) ds m) y = willing m y)"
  using assms
proof (induction ds arbitrary: m xs)
  case (Cons d ds)
  have "queue (enq m d) (xs @ [d])" using Cons.prems by (intro enq_queue) auto
  then show ?case using Cons.IH [of "enq m d" "xs @ [d]"] Cons.prems enq_willing [of m xs d] by simp
qed simp

text \<open>Willing waiters are served in the order in which they stand in the queue.\<close>

lemma serve_order:
  assumes "queue m (xs @ ys)" "\<forall>x\<in>set xs. willing m x"
  shows "\<exists>m'. serve deq (length xs) m = Some (xs, m') \<and> queue m' ys"
  using assms
proof (induction xs arbitrary: m)
  case (Cons x xs)
  obtain m1 where d: "deq m = Some (x, m1)" and q: "queue m1 (xs @ ys)"
    using deq_first [of m "[]" x "xs @ ys"] Cons.prems by auto
  have "willing m1 y" if "y \<in> set xs" for y
    using that deq_willing [OF Cons.prems(1) d] Cons.prems(2) queue_nodes [OF Cons.prems(1)] by auto
  then show ?case using Cons.IH [OF q] d by auto
qed simp

lemma fifo:
  assumes "queue m []" "set ds \<subseteq> nodes" "distinct ds" "\<forall>d\<in>set ds. willing m d"
  shows "\<exists>m'. serve deq (length ds) (fold (\<lambda>d m. enq m d) ds m) = Some (ds, m') \<and> queue m' []"
  using serve_order [of "fold (\<lambda>d m. enq m d) ds m" ds "[]"] enq_all [of m "[]" ds] assms by auto

end

section \<open>The scheduler leaves waiting processes alone\<close>

text \<open>The queues of the scheduler do not depend on which unqueued descriptors exist.\<close>

lemma sched_rep_iff:
  "sched_rep m P Q \<longleftrightarrow> procs_ok P \<and> queued Q \<subseteq> P \<and> (\<forall>s\<in>sentinels. ring m s (Q s) \<and> distinct (Q s)) \<and>
     (\<forall>s\<in>sentinels. \<forall>t\<in>sentinels. s \<noteq> t \<longrightarrow> set (Q s) \<inter> set (Q t) = {})"
  by (simp add: sched_rep_def queued_def ball_conj_distrib UN_subset_iff conj_ac)

lemma sched_rep_sub:
  assumes "sched_rep m P Q" "P' \<subseteq> P" "queued Q \<subseteq> P'" shows "sched_rep m P' Q"
proof -
  have "procs_ok P'" using assms(2) sched_repD(1) [OF assms(1)] by (simp add: procs_ok_def subset_iff)
  then show ?thesis using assms(1,3) by (simp add: sched_rep_iff)
qed

lemma sched_rep_super: "sched_rep m P' Q \<Longrightarrow> P' \<subseteq> P \<Longrightarrow> procs_ok P \<Longrightarrow> sched_rep m P Q"
  by (auto simp: sched_rep_iff)

lemma sched_rep_queued: "sched_rep m P Q \<Longrightarrow> queued Q \<subseteq> P"
  by (simp add: sched_rep_iff)

text \<open>A range above the kernel globals that touches no link field of \<open>P\<close>.\<close>

definition clear_of :: "u32 set \<Rightarrow> u32 \<Rightarrow> u32 \<Rightarrow> bool" where
  "clear_of P a n \<longleftrightarrow> 0x8000 \<le> unat a \<and> unat a + unat n \<le> 2 ^ 32 \<and> (\<forall>x\<in>P. apart a n (x + 0x30) 8)"

lemma clear_off_links: "clear_of P a n \<Longrightarrow> off_links P a n"
  using apart_high_low [of "0x8000" a 0 n] by (auto simp: clear_of_def off_links_def sentinels_def)

lemma clear_low: "clear_of P a n \<Longrightarrow> unat g + unat k \<le> 0x8000 \<Longrightarrow> apart g k a n"
  using apart_high_low [of "0x8000" a 0 n g k] by (auto simp: clear_of_def intro: apart_sym)

lemma clear_of_link:
  assumes "procs_ok P" "P' \<subseteq> P" "w \<in> P - P'" shows "clear_of P' (w + 0x30) 4"
proof -
  have w: "desc_ok w" using procs_okD [OF assms(1)] assms(3) by blast
  then have "unat (w + 0x30) = unat w + 0x30" using unat_offset [of w "0x30"] by (simp add: desc_ok_def)
  moreover have "apart (w + 0x30) 4 (x + 0x30) 8" if "x \<in> P'" for x
    using that assms procs_ok_apart [OF assms(1), of w x] by (intro desc_desc(1)) auto
  ultimately show ?thesis using w by (simp add: clear_of_def desc_ok_def)
qed

text \<open>A write that touches no link field of \<open>P\<close> keeps the queues over \<open>P\<close>.\<close>

lemma off_links_rep:
  assumes "off_links P a 4" shows "sched_rep (Q9K_SetU32 m a v) P Q = sched_rep m P Q"
proof (rule sched_rep_links)
  have c: "apart a 4 (x + 0x30) 8" if "x \<in> sentinels \<union> P" for x using assms that by (simp add: off_links_def)
  show "nxt (Q9K_SetU32 m a v) x = nxt m x" "prv (Q9K_SetU32 m a v) x = prv m x" if "x \<in> sentinels \<union> P" for x
    using apart_links_halves [OF c [OF that]] by simp_all
qed

lemmas wait_link_rep = off_links_rep [OF clear_off_links [OF clear_of_link]]

lemma first_pick_frame:
  assumes r: "sched_rep m P Q" and e: "Q9K_SchedFirstPick m = Some (b, m')" and a: "clear_of P a 4"
  shows "Q9K_GetU32 m' a = Q9K_GetU32 m a"
proof -
  define m1 where "m1 = Q9K_SetU16 m Q9K_SCHED_MINPTY_ADDR 0"
  have r1: "sched_rep m1 P Q" unfolding m1_def using r sched_global_write [OF sched_repD(1) [OF r]] by simp
  from sched_pick [OF r1] obtain c where c:
    "Q9K_SchedPickHighestAge m1 = Some (c, if c = 0 then m1 else Q9K_ListUnlink m1 c)"
    "only_links P m1 (if c = 0 then m1 else Q9K_ListUnlink m1 c)" by blast
  have "m' = (let m2 = if c = 0 then m1 else Q9K_ListUnlink m1 c in
      if c \<noteq> 0 then Q9K_SetU16 (Q9K_SetU32 m2 Q9_D_PROC c) Q9K_SCHED_SLICE_ADDR Q9K_SCHED_TSLICE else m2)"
    using e by (auto simp: Q9K_SchedFirstPick_def m1_def [symmetric] c(1) Let_def split: if_splits)
  moreover have "Q9K_GetU32 (if c = 0 then m1 else Q9K_ListUnlink m1 c) a = Q9K_GetU32 m a"
    using only_links_get(3) [OF c(2) clear_off_links [OF a]] clear_low [OF a] by (simp add: m1_def)
  ultimately show ?thesis using clear_low [OF a] by (cases "c = 0") (simp_all add: Let_def)
qed

lemma insert_frame_off:
  assumes r: "sched_rep m P Q" and d: "d \<in> P" "d \<notin> queued Q" and a: "off_links P a 4" "apart (d + Q9K_PROCDESC_AGE_OFF) 2 a 4"
  shows "Q9K_GetU32 (Q9K_SchedInsert m d) a = Q9K_GetU32 m a"
  using only_links_get(3) [OF sched_insert(2) [OF r d] a(1)] a(2) by simp

lemmas insert_frame_clear = insert_frame_off [OF _ _ _ clear_off_links]

end
