(* ===== verification/Q9_Sema_Props.thy ===== *)
theory Q9_Sema_Props
  imports Q9_Sema Q9_WaitQ Q9_Kernel
begin

text \<open>
  Semaphores: the queue is first-in first-out, V moves the longest waiting process to the end of the
  ready queue, and the blocking half of P queues the caller and gives up the processor.
\<close>

section \<open>The queue of a semaphore\<close>

text \<open>Where a semaphore structure may lie: above the kernel globals, outside every descriptor.\<close>

definition sema_at :: "u32 set \<Rightarrow> u32 \<Rightarrow> bool" where
  "sema_at P s \<longleftrightarrow> procs_ok P \<and> 0x8000 \<le> unat s \<and> unat s + 20 \<le> 2 ^ 32 \<and> (\<forall>d\<in>P. apart s 20 d 0x400)"

definition sema_queue :: "u32 set \<Rightarrow> u32 \<Rightarrow> memory \<Rightarrow> u32 list \<Rightarrow> bool" where
  "sema_queue P s m xs \<longleftrightarrow> sema_at P s \<and> wait_list P (s + 8) (s + 12) m xs \<and> Q9K_GetU32 m (s + 16) = of_nat (length xs)"

lemma sema_apart:
  assumes "sema_at P s" "i \<in> {8, 12, 16}"
  shows "d \<in> P \<Longrightarrow> apart (s + i) 4 d 0x400" "unat g + unat k \<le> 0x8000 \<Longrightarrow> apart (s + i) 4 g k"
    "unat g + unat k \<le> 0x8000 \<Longrightarrow> apart g k (s + i) 4"
proof -
  show "apart (s + i) 4 d 0x400" if "d \<in> P"
    using assms that apart_sub [of s 20 d "0x400" i 4 0 "0x400"] by (auto simp: sema_at_def)
  show "apart (s + i) 4 g k" if "unat g + unat k \<le> 0x8000"
    using assms that by (intro apart_high_low [where L = "0x8000"]) (auto simp: sema_at_def)
  then show "apart g k (s + i) 4" if "unat g + unat k \<le> 0x8000" using that apart_sym by blast
qed

lemma sema_field:
  assumes "sema_at P s" "i \<in> {8, 12, 16}" "d \<in> P" "j + k \<le> 0x400" "j \<le> j + k"
  shows "apart (s + i) 4 (d + j) k" "apart (d + j) k (s + i) 4"
  using apart_sub [OF sema_apart(1) [OF assms(1-3)], of 0 4 j k] assms(4,5) apart_sym by simp_all

lemma sema_enqueue_eq:
  "Q9K_SemaEnqueue m s d = (let m1 = wait_append m (s + 8) (s + 12) d in Q9K_SetU32 m1 (s + 16) (Q9K_GetU32 m1 (s + 16) + 1))"
  by (simp add: Q9K_SemaEnqueue_def wait_append_def Let_def)

lemma sema_dequeue_eq:
  "Q9K_GetU32 m (s + 8) = x \<Longrightarrow> x \<noteq> 0 \<Longrightarrow> Q9K_SemaDequeue m s =
     (x, let m1 = wait_unlink m (s + 8) (s + 12) 0 x; n = Q9K_GetU32 m1 (s + 16)
         in Q9K_SetU32 m1 (s + 16) (if n \<noteq> 0 then n - 1 else 0))"
  by (simp add: Q9K_SemaDequeue_def wait_unlink_def Let_def)

lemma sema_len_write:
  assumes "sema_at P s" "set xs \<subseteq> P"
  shows "wait_list P (s + 8) (s + 12) (Q9K_SetU32 m (s + 16) v) xs = wait_list P (s + 8) (s + 12) m xs"
  using assms sema_field [OF assms(1), of 16] by (intro wait_list_cong) auto

lemma sema_len_keep:
  assumes "sema_at P s" "d \<in> P"
  shows "Q9K_GetU32 m (s + 12) \<in> insert 0 P \<Longrightarrow> Q9K_GetU32 (wait_append m (s + 8) (s + 12) d) (s + 16) = Q9K_GetU32 m (s + 16)"
    and "Q9K_GetU32 (wait_unlink m (s + 8) (s + 12) 0 d) (s + 16) = Q9K_GetU32 m (s + 16)"
  using assms sema_field(2) [OF assms(1), of 16] by (auto simp: wait_append_def wait_unlink_def Let_def)

lemma sema_enqueue_queue:
  assumes q: "sema_queue P s m xs" and d: "d \<in> P" "d \<notin> set xs"
  shows "sema_queue P s (Q9K_SemaEnqueue m s d) (xs @ [d])"
proof -
  have s: "sema_at P s" and w: "wait_list P (s + 8) (s + 12) m xs" and n: "Q9K_GetU32 m (s + 16) = of_nat (length xs)"
    using q by (simp_all add: sema_queue_def)
  have "Q9K_GetU32 m (s + 12) \<in> insert 0 P" using wait_listD(3,5) [OF w] by (auto dest: subsetD [OF _ last_in_set])
  from sema_len_keep(1) [OF s d(1) this] n
  show ?thesis using s wait_append_list [OF w d] wait_listD(3) [OF w] d
    by (simp add: sema_queue_def sema_enqueue_eq sema_len_write Let_def)
qed

text \<open>There are fewer processes than addresses, so the length never wraps.\<close>

lemma wait_length: "distinct xs \<Longrightarrow> 0 \<notin> set xs \<Longrightarrow> length xs < 2 ^ 32" for xs :: "u32 list"
proof -
  assume "distinct xs" "0 \<notin> set xs"
  then have "length xs = card (set xs)" "set xs \<subset> UNIV" by (auto simp: distinct_card)
  then have "length xs < card (UNIV :: u32 set)" using psubset_card_mono [of "UNIV :: u32 set" "set xs"] by simp
  then show ?thesis by (simp add: card_word)
qed

lemma sema_dequeue_queue:
  assumes q: "sema_queue P s m (x # xs)"
  shows "\<exists>m'. Q9K_SemaDequeue m s = (x, m') \<and> sema_queue P s m' xs"
proof -
  have s: "sema_at P s" and w: "wait_list P (s + 8) (s + 12) m (x # xs)" and n: "Q9K_GetU32 m (s + 16) = 1 + of_nat (length xs)"
    using q by (simp_all add: sema_queue_def)
  note wd = wait_listD [OF w]
  have x: "x \<in> P" "x \<noteq> 0" "Q9K_GetU32 m (s + 8) = x" using wd(3,6,7) by auto
  define m1 where "m1 = wait_unlink m (s + 8) (s + 12) 0 x"
  have w1: "wait_list P (s + 8) (s + 12) m1 xs" using wait_unlink_list [of P "s + 8" "s + 12" m "[]" x xs] w by (simp add: m1_def)
  have n1: "Q9K_GetU32 m1 (s + 16) = 1 + of_nat (length xs)" using sema_len_keep(2) [OF s x(1)] n by (simp add: m1_def)
  have "(1 + of_nat (length xs) :: u32) \<noteq> 0"
    using wait_length [of "x # xs"] wd(2,6) by (intro of_nat_Suc_neq_0 [of _ "length (x # xs)"]) auto
  then show ?thesis using sema_dequeue_eq [OF x(3,2)] n1 w1 wd(3) s
    by (simp add: sema_queue_def sema_len_write m1_def [symmetric] Let_def)
qed

interpretation sq: wait_queue "sema_queue P s" P "\<lambda>m d. Q9K_SemaEnqueue m s d" "\<lambda>m. Some (Q9K_SemaDequeue m s)" "\<lambda>m x. True" for P s
proof
  fix m xs assume q: "sema_queue P s m xs"
  show "\<forall>x\<in>set xs. \<not> True \<Longrightarrow> Some (Q9K_SemaDequeue m s) = Some (0, m)"
    using q wait_listD(7) [of P "s + 8" "s + 12" m xs] by (cases xs) (auto simp: sema_queue_def Q9K_SemaDequeue_def)
  show "set xs \<subseteq> P \<and> distinct xs" using q wait_listD(2,3) [of P "s + 8" "s + 12" m xs] by (simp add: sema_queue_def)
next
  fix m as x bs assume "sema_queue P s m (as @ x # bs)" "\<forall>a\<in>set as. \<not> True"
  then show "\<exists>m'. Some (Q9K_SemaDequeue m s) = Some (x, m') \<and> sema_queue P s m' (as @ bs)"
    using sema_dequeue_queue [of P s m x bs] by (cases as) auto
qed (simp_all add: sema_enqueue_queue)

section \<open>Properties\<close>

text \<open>C19: processes that queue up on a semaphore are taken off it in exactly the order in which
  they came, and its length cell counts them.\<close>

theorem sema_fifo:
  assumes "sema_queue P s m []" "set ds \<subseteq> P" "distinct ds"
  shows "\<exists>m'. serve (\<lambda>m. Some (Q9K_SemaDequeue m s)) (length ds) (fold (\<lambda>d m. Q9K_SemaEnqueue m s d) ds m) = Some (ds, m') \<and>
    sema_queue P s m' [] \<and> Q9K_GetU32 (fold (\<lambda>d m. Q9K_SemaEnqueue m s d) ds m) (s + Q9K_SEMA_OFF_LENGTH) = of_nat (length ds)"
  using sq.fifo [OF assms] sq.enq_all [of P s m "[]" ds] assms by (auto simp: sema_queue_def)

lemma ex_sema: "sema_queue ex_procs 0x50000 ex_mem []"
proof -
  have z: "Q9K_GetU32 ex_mem 0x50008 = 0" "Q9K_GetU32 ex_mem 0x5000C = 0" "Q9K_GetU32 ex_mem 0x50010 = 0"
    by (simp_all add: ex_mem_def ex_base_def Q9K_SchedInsert_def Q9K_SleepQInsert_def Q9K_ListAppend_def Let_def)
  show ?thesis
    using ex_procs_ok z by (auto simp: sema_queue_def sema_at_def wait_list_def wait_cells_def ex_procs_def)
qed

lemma sema_fifo_witness:
  "\<exists>m'. serve (\<lambda>m. Some (Q9K_SemaDequeue m 0x50000)) (length [ex_running, ex_ready])
     (fold (\<lambda>d m. Q9K_SemaEnqueue m 0x50000 d) [ex_running, ex_ready] ex_mem) = Some ([ex_running, ex_ready], m')"
proof -
  have "set [ex_running, ex_ready] \<subseteq> ex_procs" "distinct [ex_running, ex_ready]" by (simp_all add: ex_procs_def)
  from sema_fifo [OF ex_sema this] show ?thesis by blast
qed

section \<open>V\<close>

lemma sema_clear:
  assumes "sema_at P s" "i \<in> {8, 12, 16}" "P' \<subseteq> P" shows "clear_of P' (s + i) 4"
proof -
  have "unat (s + i) = unat s + unat i" using assms by (intro unat_offset) (auto simp: sema_at_def)
  moreover have "apart (s + i) 4 (x + 0x30) 8" if "x \<in> P'" for x using sema_field(1) [OF assms(1,2), of x "0x30" 8] assms(3) that by auto
  ultimately show ?thesis using assms by (auto simp: clear_of_def sema_at_def)
qed

text \<open>The queue survives whatever keeps its three cells and the links of its members.\<close>

lemma sema_queue_cong:
  assumes "sema_queue P s m xs" "\<And>i. i \<in> {8, 12, 16} \<Longrightarrow> Q9K_GetU32 m' (s + i) = Q9K_GetU32 m (s + i)"
    "\<And>x. x \<in> set xs \<Longrightarrow> nxt m' x = nxt m x"
  shows "sema_queue P s m' xs"
  using assms wait_list_cong [of m' "s + 8" m "s + 12" xs P] by (simp add: sema_queue_def)

lemma sema_queue_global:
  assumes "sema_queue P s m xs" "unat g + 4 \<le> 0x8000"
  shows "sema_queue P s (Q9K_SetU32 m g v) xs"
proof (rule sema_queue_cong [OF assms(1)])
  have s: "sema_at P s" and xs: "set xs \<subseteq> P" using assms(1) wait_listD(3) [of P "s + 8" "s + 12" m xs] by (simp_all add: sema_queue_def)
  show "Q9K_GetU32 (Q9K_SetU32 m g v) (s + i) = Q9K_GetU32 m (s + i)" if "i \<in> {8, 12, 16}" for i
    using sema_apart(3) [OF s that, of g 4] assms(2) by simp
  have "procs_ok P" using s by (simp add: sema_at_def)
  then show "nxt (Q9K_SetU32 m g v) x = nxt m x" if "x \<in> set xs" for x
    using that xs assms(2) procs_okD [of P x] desc_global(2) [of x "0x30" 4 g 4] by auto
qed

lemmas sema_cells_rep = off_links_rep [OF clear_off_links [OF sema_clear]]

lemma sema_dequeue_rep:
  assumes q: "sema_queue P s m (x # xs)" and P': "P' \<subseteq> P" "x \<notin> P'"
  shows "sched_rep (snd (Q9K_SemaDequeue m s)) P' Q = sched_rep m P' Q"
proof -
  have s: "sema_at P s" and w: "wait_list P (s + 8) (s + 12) m (x # xs)" using q by (simp_all add: sema_queue_def)
  note wd = wait_listD [OF w]
  have "procs_ok P" "x \<in> P - P'" using s wd(3) P' by (auto simp: sema_at_def)
  note wr = wait_link_rep [OF this(1) P'(1) this(2)]
  show ?thesis using sema_dequeue_eq [of m s x] wd(6,7) wr sema_cells_rep [OF s _ P'(1)] by (simp add: wait_unlink_def Let_def)
qed

text \<open>What V leaves untouched of the first waiter and of the process pool.\<close>

lemma sema_dequeue_frame:
  assumes q: "sema_queue P s m (x # xs)" and m': "m' = snd (Q9K_SemaDequeue m s)"
  shows "unat g + 4 \<le> 0x8000 \<Longrightarrow> Q9K_GetU32 m' g = Q9K_GetU32 m g"
    and "Q9K_GetU8 m' (x + Q9K_PROCDESC_STATE_OFF) = Q9K_GetU8 m (x + Q9K_PROCDESC_STATE_OFF)"
    and "Q9K_GetU32 m' (x + Q9K_PROCDESC_SAVEDSP_OFF) = Q9K_GetU32 m (x + Q9K_PROCDESC_SAVEDSP_OFF)"
proof -
  have s: "sema_at P s" and w: "wait_list P (s + 8) (s + 12) m (x # xs)" using q by (simp_all add: sema_queue_def)
  note wd = wait_listD [OF w]
  have x: "x \<in> P" "x \<noteq> 0" "Q9K_GetU32 m (s + 8) = x" using wd(3,6,7) by auto
  have ok: "desc_ok x" using s x(1) procs_okD by (auto simp: sema_at_def)
  note e = sema_dequeue_eq [OF x(3,2)]
  show "unat g + 4 \<le> 0x8000 \<Longrightarrow> Q9K_GetU32 m' g = Q9K_GetU32 m g"
    using sema_apart(2) [OF s, of _ g 4] desc_global(1) [OF ok, of "0x30" 4 g 4] by (simp add: m' e wait_unlink_def Let_def)
  show "Q9K_GetU8 m' (x + Q9K_PROCDESC_STATE_OFF) = Q9K_GetU8 m (x + Q9K_PROCDESC_STATE_OFF)"
    "Q9K_GetU32 m' (x + Q9K_PROCDESC_SAVEDSP_OFF) = Q9K_GetU32 m (x + Q9K_PROCDESC_SAVEDSP_OFF)"
    using sema_field(1) [OF s _ x(1)] by (simp_all add: m' e wait_unlink_def Let_def)
qed

text \<open>The longest waiter goes to the end of the ready queue.\<close>

lemma sema_release:
  assumes r: "sched_rep m P Q" and q: "sema_queue P s m (x # xs)" and nq: "set (x # xs) \<inter> queued Q = {}"
    and m1: "m1 = snd (Q9K_SemaDequeue m s)"
  shows "sched_rep (Q9K_SchedInsert m1 x) P (Q(Q9K_READYQ_SENTINEL_ADDR := Q Q9K_READYQ_SENTINEL_ADDR @ [x]))"
    and "sema_queue P s (Q9K_SchedInsert m1 x) xs"
proof -
  have s: "sema_at P s" and w: "wait_list P (s + 8) (s + 12) m (x # xs)" using q by (simp_all add: sema_queue_def)
  note wd = wait_listD [OF w]
  have P: "procs_ok P" using s by (simp add: sema_at_def)
  define P1 where "P1 = P - set xs"
  have q1: "sema_queue P s m1 xs" using sema_dequeue_queue [OF q] by (auto simp: m1)
  have "sched_rep m (P - set (x # xs)) Q"
    using sched_rep_queued [OF r] nq by (intro sched_rep_sub [OF r]) auto
  then have "sched_rep m1 (P - set (x # xs)) Q" unfolding m1 by (subst sema_dequeue_rep [OF q]) auto
  then have r1: "sched_rep m1 P1 Q" unfolding P1_def by (rule sched_rep_super) (use P in \<open>auto simp: procs_ok_def\<close>)
  have x: "x \<in> P1" "x \<notin> queued Q" using wd(2,3) nq by (auto simp: P1_def)
  show "sched_rep (Q9K_SchedInsert m1 x) P (Q(Q9K_READYQ_SENTINEL_ADDR := Q Q9K_READYQ_SENTINEL_ADDR @ [x]))"
    by (rule sched_rep_super [OF sched_insert(1) [OF r1 x]]) (auto simp: P1_def P)
  show "sema_queue P s (Q9K_SchedInsert m1 x) xs"
  proof (rule sema_queue_cong [OF q1])
    show "Q9K_GetU32 (Q9K_SchedInsert m1 x) (s + i) = Q9K_GetU32 m1 (s + i)" if "i \<in> {8, 12, 16}" for i
      using that x(1) by (intro insert_frame_clear [OF r1 x] sema_clear [OF s] sema_field(2) [OF s]) (auto simp: P1_def)
    show "nxt (Q9K_SchedInsert m1 x) y = nxt m1 y" if "y \<in> set xs" for y
    proof (rule insert_frame_clear [OF r1 x])
      have y: "y \<in> P" "y \<noteq> x" using that wd(2,3) by auto
      show "clear_of P1 (y + Q9K_READYQ_NEXT_OFF) 4" using that y by (intro clear_of_link [OF P]) (auto simp: P1_def)
      show "apart (x + Q9K_PROCDESC_AGE_OFF) 2 (y + Q9K_READYQ_NEXT_OFF) 4"
        using y x(1) procs_ok_apart [OF P, of x y] by (intro desc_desc(1)) (auto simp: P1_def)
    qed
  qed
qed

text \<open>V on a semaphore with waiting processes makes the one that has waited longest ready, at the
  end of the ready queue, keeps the others waiting in their order and reports success.\<close>

theorem sema_v_spec:
  assumes r: "sched_rep m P Q" and q: "sema_queue P s m (x # xs)" and nq: "set (x # xs) \<inter> queued Q = {}"
    and call: "Q9K_GetU32 m 0x1B80 = s" "Q9K_GetU32 m 0x1B84 = Q9K_SEMA_V"
    and x: "Q9K_ProcIdForDesc m x \<noteq> 0" "Q9K_GetU32 m (x + Q9K_PROCDESC_SAVEDSP_OFF) \<noteq> 0"
  shows "sched_rep (Q9K_SysSemaImpl m) P (Q(Q9K_READYQ_SENTINEL_ADDR := Q Q9K_READYQ_SENTINEL_ADDR @ [x])) \<and>
    sema_queue P s (Q9K_SysSemaImpl m) xs \<and> Q9K_GetU32 (Q9K_SysSemaImpl m) 0x1B8C = 1"
proof -
  define m0 where "m0 = Q9K_SetU32 (Q9K_SetU32 m 0x1B8C 0) 0x1B90 0"
  define m1 where "m1 = snd (Q9K_SemaDequeue m0 s)"
  have P: "procs_ok P" by (rule sched_repD(1) [OF r])
  have q0: "sema_queue P s m0 (x # xs)" unfolding m0_def by (intro sema_queue_global q) simp_all
  have r0: "sched_rep m0 P Q" unfolding m0_def using r by (simp add: sched_rep_global [OF P])
  have s: "sema_at P s" "s \<noteq> 0" "x \<in> P" "x \<noteq> 0"
    using q wait_listD(3,6) [of P "s + 8" "s + 12" m "x # xs"] by (auto simp: sema_queue_def sema_at_def)
  have ok: "desc_ok x" using procs_okD [OF P s(3)] .
  have d: "Q9K_SemaDequeue m0 s = (x, m1)" using sema_dequeue_queue [OF q0] by (auto simp: m1_def)
  note fr = sema_dequeue_frame [OF q0 m1_def]
  have "Q9K_ProcIdForDesc m1 x = Q9K_ProcIdForDesc m x"
    by (rule pid_frame) (use fr ok in \<open>simp_all add: m0_def desc_global\<close>)
  then have "Q9K_ProcAProc m1 x = Inr (Q9K_SchedInsert m1 x)"
    using x fr(3) ok s(4) by (simp add: Q9K_ProcAProc_def m0_def desc_global)
  then have e: "Q9K_SysSemaImpl m = Q9K_SetU32 (Q9K_SchedInsert m1 x) 0x1B8C 1"
    using d call s by (simp add: Q9K_SysSemaImpl_def Let_def m0_def [symmetric])
  note rel = sema_release [OF r0 q0 nq m1_def]
  show ?thesis using rel sema_queue_global [OF rel(2), of "0x1B8C" 1] by (simp add: e sched_rep_global [OF P])
qed

section \<open>Waiting\<close>

lemma sema_enqueue_rep:
  assumes q: "sema_queue P s m xs" and d: "d \<in> P" and P': "P' \<subseteq> P - set (d # xs)"
  shows "sched_rep (Q9K_SemaEnqueue m s d) P' Q = sched_rep m P' Q"
proof -
  have s: "sema_at P s" and w: "wait_list P (s + 8) (s + 12) m xs" using q by (simp_all add: sema_queue_def)
  note wd = wait_listD [OF w]
  have P: "procs_ok P" "P' \<subseteq> P" using s P' by (auto simp: sema_at_def)
  have t: "Q9K_GetU32 m (s + 12) = 0 \<or> Q9K_GetU32 m (s + 12) \<in> P - P'"
    using wd(3,5) P' last_in_set [of xs] by (auto simp del: last_in_set)
  have "d \<in> P - P'" using d P' by auto
  then show ?thesis using wait_link_rep [OF P] t sema_cells_rep [OF s _ P(2)]
    by (cases "Q9K_GetU32 m (s + 12) = 0") (simp_all add: sema_enqueue_eq wait_append_def Let_def)
qed

lemma sema_enqueue_frame:
  assumes q: "sema_queue P s m xs" and d: "d \<in> P" and y: "y \<in> P" and g: "unat g + 4 \<le> 0x8000"
  shows "age_of (Q9K_SemaEnqueue m s d) y = age_of m y" "Q9K_GetU32 (Q9K_SemaEnqueue m s d) g = Q9K_GetU32 m g"
proof -
  have s: "sema_at P s" and w: "wait_list P (s + 8) (s + 12) m xs" using q by (simp_all add: sema_queue_def)
  note wd = wait_listD [OF w]
  have P: "procs_ok P" using s by (simp add: sema_at_def)
  have t: "Q9K_GetU32 m (s + 12) = 0 \<or> Q9K_GetU32 m (s + 12) \<in> P"
    using wd(3,5) last_in_set [of xs] by (auto simp del: last_in_set)
  have lk: "apart (z + 0x30) 4 (y + 0x1A) 2 \<and> apart (z + 0x30) 4 g 4" if "z \<in> P" for z
    using that y P g desc_global(1) [OF procs_okD [OF P that], of "0x30" 4 g 4] procs_ok_apart [OF P that y]
      desc_desc(1) [of z y "0x30" 4 "0x1A" 2] by (cases "z = y") auto
  note ap = sema_field(1) [OF s _ y, of _ "0x1A" 2] sema_apart(2) [OF s, of _ g 4]
  show "age_of (Q9K_SemaEnqueue m s d) y = age_of m y" "Q9K_GetU32 (Q9K_SemaEnqueue m s d) g = Q9K_GetU32 m g"
    using lk [OF d] lk [of "Q9K_GetU32 m (s + 12)"] ap t g
    by (cases "Q9K_GetU32 m (s + 12) = 0"; simp add: sema_enqueue_eq wait_append_def Let_def)+
qed

text \<open>the blocking half of P returns: the caller is in state 'p' at the end of the
  semaphore's queue, and the oldest ready process, if any, is taken off the ready queue and dispatched.\<close>

theorem sema_wait_spec:
  assumes r: "sched_rep m P Q" and q: "sema_queue P s m xs" and nq: "set xs \<inter> queued Q = {}"
    and self: "Q9K_GetU32 m Q9_D_PROC = d" "d \<in> P" "d \<notin> set xs" "d \<notin> queued Q" and call: "Q9K_GetU32 m 0x1B80 = s"
  shows "\<exists>m' b. Q9K_SysSemaWaitImpl m = Some m' \<and> Q9K_GetU32 m' 0x1B94 = b \<and>
    (if Q Q9K_READYQ_SENTINEL_ADDR = [] then b = 0
     else first_max (\<lambda>_. True) (age_of m) (Q Q9K_READYQ_SENTINEL_ADDR) b) \<and>
    sched_rep m' P (Q(Q9K_READYQ_SENTINEL_ADDR := remove1 b (Q Q9K_READYQ_SENTINEL_ADDR))) \<and>
    sema_queue P s m' (xs @ [d]) \<and> state_of m' d = Q9K_PROCDESC_STATE_SEMA"
proof -
  let ?R = "Q9K_READYQ_SENTINEL_ADDR"
  define P1 where "P1 = P - set (xs @ [d])"
  define m1 where "m1 = Q9K_SemaEnqueue m s d"
  define m2 where "m2 = Q9K_SetU8 m1 (d + Q9K_PROCDESC_STATE_OFF) Q9K_PROCDESC_STATE_SEMA"
  have s: "sema_at P s" and w: "set xs \<subseteq> P" using q wait_listD(3) [of P "s + 8" "s + 12" m xs] by (simp_all add: sema_queue_def)
  have P: "procs_ok P" and QP: "queued Q \<subseteq> P1" using sched_repD(1) [OF r] sched_rep_queued [OF r] nq self by (auto simp: P1_def)
  have ok: "desc_ok d" using procs_okD [OF P self(2)] .
  have lk: "apart (d + 0x1D) 1 (y + 0x30) 4" if "y \<in> P" for y
    using that procs_ok_apart [OF P self(2) that] desc_desc(1) [of d y "0x1D" 1 "0x30" 4] by (cases "d = y") auto
  have q1: "sema_queue P s m1 (xs @ [d])" unfolding m1_def by (rule sema_enqueue_queue [OF q self(2,3)])
  have q2: "sema_queue P s m2 (xs @ [d])" unfolding m2_def
    using sema_field(2) [OF s _ self(2), of _ "0x1D" 1] lk w self(2) by (intro sema_queue_cong [OF q1]) auto
  have "sched_rep m P1 Q" by (rule sched_rep_sub [OF r _ QP]) (auto simp: P1_def)
  then have "sched_rep m1 P1 Q" unfolding m1_def by (subst sema_enqueue_rep [OF q self(2)]) (auto simp: P1_def)
  then have "sched_rep m1 P Q" by (rule sched_rep_super) (auto simp: P1_def P)
  then have rP: "sched_rep m2 P Q" unfolding m2_def using P self(2) by simp
  then have r2: "sched_rep m2 P1 Q" by (rule sched_rep_sub [OF _ _ QP]) (auto simp: P1_def)
  obtain b m3 where b: "Q9K_SchedFirstPick m2 = Some (b, m3)"
    "if Q ?R = [] then b = 0 else first_max (\<lambda>_. True) (age_of m2) (Q ?R) b"
    "sched_rep m3 P1 (Q(?R := remove1 b (Q ?R)))" using sched_first_pick [OF r2] by metis
  have ag: "age_of m2 y = age_of m y" if "y \<in> set (Q ?R)" for y
  proof -
    have y: "y \<in> P" "y \<noteq> d" using that sched_repD(3) [OF r, of ?R] self(4) by (auto simp: queued_def sentinels_def)
    then show ?thesis using sema_enqueue_frame(1) [OF q self(2), of y 0] desc_desc(1) [OF procs_ok_apart [OF P self(2)], of y "0x1D" 1 "0x1A" 2]
      by (auto simp: m2_def m1_def)
  qed
  have fm: "first_max (\<lambda>_. True) (age_of m2) (Q ?R) b = first_max (\<lambda>_. True) (age_of m) (Q ?R) b"
    unfolding first_max_def using ag by (intro ex_cong1 conj_cong refl ball_cong) auto
  have fr: "Q9K_GetU32 m3 a = Q9K_GetU32 m2 a" if "clear_of P1 a 4" for a by (rule first_pick_frame [OF r2 b(1) that])
  have q3: "sema_queue P s m3 (xs @ [d])"
    using s w self(2) by (intro sema_queue_cong [OF q2] fr sema_clear [OF s] clear_of_link [OF P]) (auto simp: P1_def)
  define m' where "m' = Q9K_SetU32 m3 0x1B94 b"
  have "Q9K_GetU32 m Q9_D_PROC = d" "Q9K_GetU32 m 0x1B80 = s" using self(1) call by auto
  then have e: "Q9K_SysSemaWaitImpl m = Some m'"
    using b(1) by (simp add: Q9K_SysSemaWaitImpl_def m1_def [symmetric] m2_def [symmetric] m'_def Let_def)
  have "same_fields P m2 m3" using sched_first_pick [OF rP] b(1) by (metis option.inject prod.inject)
  then have "state_of m3 d = state_of m2 d" using same_fields_get(1) [of P m2 m3 d "0x1D"] self(2) by simp
  then have st: "state_of m' d = Q9K_PROCDESC_STATE_SEMA" using ok by (simp add: m'_def m2_def desc_global)
  have "sched_rep m3 P (Q(?R := remove1 b (Q ?R)))" by (rule sched_rep_super [OF b(3)]) (auto simp: P1_def P)
  then have "sched_rep m' P (Q(?R := remove1 b (Q ?R)))" by (simp add: m'_def sched_rep_global [OF P])
  then show ?thesis using e b(2) [unfolded fm] st sema_queue_global [OF q3, of "0x1B94" b]
    by (intro exI [of _ m'] exI [of _ b]) (simp add: m'_def)
qed

text \<open>The running process of the example waits, and is released again.\<close>

definition ex_wait :: memory where
  "ex_wait = Q9K_SetU32 (Q9K_SemaEnqueue ex_mem 0x50000 ex_running) 0x1B80 0x50000"

lemma sema_wait_spec_witness:
  "\<exists>m'. Q9K_SysSemaWaitImpl (Q9K_SetU32 ex_mem 0x1B80 0x50000) = Some m' \<and> state_of m' ex_running = Q9K_PROCDESC_STATE_SEMA"
proof -
  let ?m = "Q9K_SetU32 ex_mem 0x1B80 0x50000"
  have r: "sched_rep ?m ex_procs ex_queues" using ex_rep by (simp add: sched_rep_global [OF ex_procs_ok])
  have q: "sema_queue ex_procs 0x50000 ?m []" by (intro sema_queue_global ex_sema) simp
  have "ex_running \<in> ex_procs" "ex_running \<notin> queued ex_queues"
    by (simp_all add: ex_procs_def ex_queues_def queued_def sentinels_def)
  with sema_wait_spec [OF r q, of ex_running] show ?thesis by auto
qed

lemma sema_v_spec_witness:
  "\<exists>m. sched_rep (Q9K_SysSemaImpl m) ex_procs (ex_queues(Q9K_READYQ_SENTINEL_ADDR := [ex_ready, ex_running])) \<and>
     sema_queue ex_procs 0x50000 (Q9K_SysSemaImpl m) []"
proof -
  let ?m = "Q9K_SetU32 ex_wait 0x1B84 Q9K_SEMA_V"
  have run: "ex_running \<in> ex_procs" "ex_running \<notin> queued ex_queues"
    by (simp_all add: ex_procs_def ex_queues_def queued_def sentinels_def)
  have q: "sema_queue ex_procs 0x50000 ?m [ex_running]"
    unfolding ex_wait_def using sema_enqueue_queue [OF ex_sema run(1)] by (intro sema_queue_global) simp_all
  let ?P = "ex_procs - {ex_running}"
  have "sched_rep ex_mem ?P ex_queues"
    by (rule sched_rep_sub [OF ex_rep]) (auto simp: ex_procs_def ex_queues_def queued_def sentinels_def)
  then have "sched_rep (Q9K_SemaEnqueue ex_mem 0x50000 ex_running) ?P ex_queues"
    by (subst sema_enqueue_rep [OF ex_sema run(1)]) auto
  then have "sched_rep (Q9K_SemaEnqueue ex_mem 0x50000 ex_running) ex_procs ex_queues"
    by (rule sched_rep_super) (auto simp: ex_procs_ok)
  then have r: "sched_rep ?m ex_procs ex_queues" by (simp add: ex_wait_def sched_rep_global [OF ex_procs_ok])
  have z: "Q9K_GetU32 ex_mem 0x5000C = 0" "Q9K_GetU8 ex_mem 0x1081D = Q9K_PROCDESC_STATE_ACTIVE" "Q9K_GetU32 ex_mem 0x10808 = 0x22000"
    using ex_sema by (simp_all add: sema_queue_def wait_list_def)
  have "Q9K_ProcIdForDesc ?m ex_running \<noteq> 0"
    using z by (simp add: Q9K_ProcIdForDesc_def Q9K_ProcIsAllocated_def ex_wait_def sema_enqueue_eq wait_append_def Let_def drop_bit_eq_div)
  moreover have "Q9K_GetU32 ?m (ex_running + Q9K_PROCDESC_SAVEDSP_OFF) \<noteq> 0" "Q9K_GetU32 ?m 0x1B80 = 0x50000"
    using z by (simp_all add: ex_wait_def sema_enqueue_eq wait_append_def Let_def)
  ultimately show ?thesis using sema_v_spec [OF r q] run(2) by (intro exI [of _ ?m]) (simp add: ex_queues_def)
qed

end
