(* ===== verification/Q9_Event.thy ===== *)
theory Q9_Event
  imports Q9_Icpt
begin

text \<open>
  F$Event of \<^verbatim>\<open>q9kernel_event.c\<close>: a table of 16 named events with a signed 32-bit value, the
  saturating arithmetic on it, a FIFO of waiting processes per event where each waiter names a
  value range, and the twelve functions of the call.  \<^verbatim>\<open>long\<close> is the 32-bit two's complement
  integer of the target: its arithmetic is written as \<^typ>\<open>int\<close> with the wrap-around \<open>long32\<close>.
\<close>

abbreviation Q9K_E_EVNTID :: u16 where "Q9K_E_EVNTID \<equiv> 0xBD"
abbreviation Q9K_E_EVNF :: u16 where "Q9K_E_EVNF \<equiv> 0xBE"
abbreviation Q9K_E_EVBUSY :: u16 where "Q9K_E_EVBUSY \<equiv> 0xBF"
abbreviation Q9K_E_BNAM :: u16 where "Q9K_E_BNAM \<equiv> 0xEB"
abbreviation Q9K_E_EVFULL :: u16 where "Q9K_E_EVFULL \<equiv> 0xF8"
abbreviation Q9K_EVENT_BASE :: u32 where "Q9K_EVENT_BASE \<equiv> 0x1C10"
abbreviation Q9K_EVENT_SLOTS :: u32 where "Q9K_EVENT_SLOTS \<equiv> 16"
abbreviation Q9K_EVENT_STRIDE :: u32 where "Q9K_EVENT_STRIDE \<equiv> 32"
abbreviation Q9K_EVENT_OFF_ID :: u32 where "Q9K_EVENT_OFF_ID \<equiv> 0"
abbreviation Q9K_EVENT_OFF_NAME :: u32 where "Q9K_EVENT_OFF_NAME \<equiv> 2"
abbreviation Q9K_EVENT_OFF_VALUE :: u32 where "Q9K_EVENT_OFF_VALUE \<equiv> 14"
abbreviation Q9K_EVENT_OFF_INCW :: u32 where "Q9K_EVENT_OFF_INCW \<equiv> 18"
abbreviation Q9K_EVENT_OFF_INCS :: u32 where "Q9K_EVENT_OFF_INCS \<equiv> 20"
abbreviation Q9K_EVENT_OFF_LINK :: u32 where "Q9K_EVENT_OFF_LINK \<equiv> 22"
abbreviation Q9K_EVENT_OFF_QNEXT :: u32 where "Q9K_EVENT_OFF_QNEXT \<equiv> 24"
abbreviation Q9K_EVENT_OFF_QPREV :: u32 where "Q9K_EVENT_OFF_QPREV \<equiv> 28"
abbreviation Q9K_EVENT_NAME_MAX :: u32 where "Q9K_EVENT_NAME_MAX \<equiv> 11"
abbreviation Q9K_EVENT_NEXTID :: u32 where "Q9K_EVENT_NEXTID \<equiv> 0x1E10"
abbreviation Q9K_EVENT_SLOT :: "u32 \<Rightarrow> u32" where
  "Q9K_EVENT_SLOT i \<equiv> Q9K_EVENT_BASE + i * Q9K_EVENT_STRIDE"

abbreviation event_slots :: "u32 list" where
  "event_slots \<equiv> [0, 1, 2, 3, 4, 5, 6, 7, 8, 9, 10, 11, 12, 13, 14, 15]"

section \<open>Names and IDs\<close>

definition Q9K_EventSlotFree :: "memory \<Rightarrow> u32 \<Rightarrow> bool" where
  "Q9K_EventSlotFree m slot = (Q9K_GetU16 m (Q9K_EVENT_SLOT slot + Q9K_EVENT_OFF_ID) = 0)"

definition Q9K_EventNameChar :: "u8 \<Rightarrow> bool" where
  "Q9K_EventNameChar c = (c > 0x20 \<and> c < 0x7F)"

fun Q9K_EventNameMatches_from :: "memory \<Rightarrow> u32 \<Rightarrow> u32 \<Rightarrow> u32 list \<Rightarrow> bool" where
  "Q9K_EventNameMatches_from m entry nameAddr [] = True"
| "Q9K_EventNameMatches_from m entry nameAddr (i # is) =
     (let want = Q9K_GetU8 m (entry + i); have' = Q9K_GetU8 m (nameAddr + i) in
      if want = 0 then \<not> Q9K_EventNameChar have'
      else if \<not> Q9K_EventNameChar have' \<or> have' \<noteq> want then False
      else Q9K_EventNameMatches_from m entry nameAddr is)"

definition Q9K_EventNameMatches :: "memory \<Rightarrow> u32 \<Rightarrow> u32 \<Rightarrow> bool" where
  "Q9K_EventNameMatches m slot nameAddr =
     Q9K_EventNameMatches_from m (Q9K_EVENT_SLOT slot + Q9K_EVENT_OFF_NAME) nameAddr
       [0, 1, 2, 3, 4, 5, 6, 7, 8, 9, 10]"

definition Q9K_EventNameLength :: "memory \<Rightarrow> u32 \<Rightarrow> u32" where
  "Q9K_EventNameLength m nameAddr =
     (if nameAddr = 0 then 0
      else
        let i = of_nat (length (takeWhile (\<lambda>i. Q9K_EventNameChar (Q9K_GetU8 m (nameAddr + i)))
                  [0, 1, 2, 3, 4, 5, 6, 7, 8, 9, 10, 11]))
        in if i = 0 \<or> i > Q9K_EVENT_NAME_MAX then 0 else i)"

definition Q9K_EventFindByName :: "memory \<Rightarrow> u32 \<Rightarrow> u32 option" where
  "Q9K_EventFindByName m nameAddr =
     List.find (\<lambda>i. \<not> Q9K_EventSlotFree m i \<and> Q9K_EventNameMatches m i nameAddr) event_slots"

definition Q9K_EventFindById :: "memory \<Rightarrow> u32 \<Rightarrow> u32 option" where
  "Q9K_EventFindById m evId =
     (let slot = evId AND 0xFFFF in
      if slot \<ge> Q9K_EVENT_SLOTS then None
      else if Q9K_EventSlotFree m slot then None
      else if Q9K_GetU16 m (Q9K_EVENT_SLOT slot + Q9K_EVENT_OFF_ID) \<noteq> ucast (drop_bit 16 evId AND 0xFFFF) then None
      else Some slot)"

section \<open>Create, delete, link\<close>

definition event_put_name :: "memory \<Rightarrow> u32 \<Rightarrow> u32 \<Rightarrow> u32 \<Rightarrow> memory" where
  "event_put_name m entry nameAddr len =
     fold (\<lambda>i m. Q9K_SetU8 m (entry + Q9K_EVENT_OFF_NAME + i)
                   (if i < len then Q9K_GetU8 m (nameAddr + i) else 0))
       [0, 1, 2, 3, 4, 5, 6, 7, 8, 9, 10, 11] m"

definition Q9K_EventCreate :: "memory \<Rightarrow> u32 \<Rightarrow> u32 \<Rightarrow> u16 \<Rightarrow> u16 \<Rightarrow> u16 + u32 \<times> memory" where
  "Q9K_EventCreate m nameAddr initialValue waitInc signalInc =
     (let len = Q9K_EventNameLength m nameAddr in
      if len = 0 then Inl Q9K_E_BNAM
      else if Q9K_EventFindByName m nameAddr \<noteq> None then Inl Q9K_E_EVBUSY
      else case List.find (Q9K_EventSlotFree m) event_slots of
        None \<Rightarrow> Inl Q9K_E_EVFULL
      | Some slot \<Rightarrow>
          let serial0 = Q9K_GetU32 m Q9K_EVENT_NEXTID + 1;
              serial = (if serial0 = 0 \<or> serial0 > 0xFFFF then 1 else serial0);
              entry = Q9K_EVENT_SLOT slot;
              m1 = Q9K_SetU32 m Q9K_EVENT_NEXTID serial;
              m2 = Q9K_SetU16 m1 (entry + Q9K_EVENT_OFF_ID) (ucast serial);
              m3 = event_put_name m2 entry nameAddr len;
              m4 = Q9K_SetU32 m3 (entry + Q9K_EVENT_OFF_VALUE) initialValue;
              m5 = Q9K_SetU16 m4 (entry + Q9K_EVENT_OFF_INCW) waitInc;
              m6 = Q9K_SetU16 m5 (entry + Q9K_EVENT_OFF_INCS) signalInc;
              m7 = Q9K_SetU16 m6 (entry + Q9K_EVENT_OFF_LINK) 1;
              m8 = Q9K_SetU32 m7 (entry + Q9K_EVENT_OFF_QNEXT) 0;
              m9 = Q9K_SetU32 m8 (entry + Q9K_EVENT_OFF_QPREV) 0
          in Inr (push_bit 16 serial OR slot, m9))"

definition Q9K_EventDelete :: "memory \<Rightarrow> u32 \<Rightarrow> u16 + memory" where
  "Q9K_EventDelete m nameAddr =
     (if Q9K_EventNameLength m nameAddr = 0 then Inl Q9K_E_BNAM
      else case Q9K_EventFindByName m nameAddr of
        None \<Rightarrow> Inl Q9K_E_EVNF
      | Some slot \<Rightarrow>
          if Q9K_GetU16 m (Q9K_EVENT_SLOT slot + Q9K_EVENT_OFF_LINK) \<noteq> 0 then Inl Q9K_E_EVBUSY
          else Inr (Q9K_SetU16 m (Q9K_EVENT_SLOT slot + Q9K_EVENT_OFF_ID) 0))"

definition Q9K_EventLink :: "memory \<Rightarrow> u32 \<Rightarrow> u16 + u32 \<times> memory" where
  "Q9K_EventLink m nameAddr =
     (if Q9K_EventNameLength m nameAddr = 0 then Inl Q9K_E_BNAM
      else case Q9K_EventFindByName m nameAddr of
        None \<Rightarrow> Inl Q9K_E_EVNF
      | Some slot \<Rightarrow>
          let entry = Q9K_EVENT_SLOT slot;
              m1 = Q9K_SetU16 m (entry + Q9K_EVENT_OFF_LINK) (Q9K_GetU16 m (entry + Q9K_EVENT_OFF_LINK) + 1)
          in Inr (push_bit 16 (ucast (Q9K_GetU16 m1 (entry + Q9K_EVENT_OFF_ID))) OR slot, m1))"

definition Q9K_EventUnlink :: "memory \<Rightarrow> u32 \<Rightarrow> u16 + memory" where
  "Q9K_EventUnlink m evId =
     (case Q9K_EventFindById m evId of
        None \<Rightarrow> Inl Q9K_E_EVNTID
      | Some slot \<Rightarrow>
          let entry = Q9K_EVENT_SLOT slot;
              count = Q9K_GetU16 m (entry + Q9K_EVENT_OFF_LINK)
          in Inr (if count \<noteq> 0 then Q9K_SetU16 m (entry + Q9K_EVENT_OFF_LINK) (count - 1) else m))"

definition Q9K_EventRead :: "memory \<Rightarrow> u32 \<Rightarrow> u16 + u32" where
  "Q9K_EventRead m evId =
     (case Q9K_EventFindById m evId of
        None \<Rightarrow> Inl Q9K_E_EVNTID
      | Some slot \<Rightarrow> Inr (Q9K_GetU32 m (Q9K_EVENT_SLOT slot + Q9K_EVENT_OFF_VALUE)))"

section \<open>Value arithmetic\<close>

definition long32 :: "int \<Rightarrow> int" where
  "long32 x = (x + 0x80000000) mod 0x100000000 - 0x80000000"

definition signed_of_bits :: "u32 \<Rightarrow> int" where
  "signed_of_bits value =
     (let v = uint (value AND 0x7FFFFFFF)
      in if value AND 0x80000000 \<noteq> 0 then long32 (v - long32 (0x40000000 + 0x40000000)) else v)"

definition Q9K_EventAddSaturating :: "u32 \<Rightarrow> int \<Rightarrow> u32" where
  "Q9K_EventAddSaturating value delta =
     (let v = signed_of_bits value;
          r = long32 (v + delta)
      in if r > 0x7FFFFFFF \<or> (delta > 0 \<and> r < v) then 0x7FFFFFFF
         else if r < - 0x80000000 \<or> (delta < 0 \<and> r > v) then 0x80000000
         else word_of_int r AND 0xFFFFFFFF)"

definition Q9K_EventValueInRange :: "u32 \<Rightarrow> u32 \<Rightarrow> u32 \<Rightarrow> bool" where
  "Q9K_EventValueInRange value minValue maxValue =
     (let v = signed_of_bits value; lo = signed_of_bits minValue; hi = signed_of_bits maxValue
      in v \<ge> lo \<and> v \<le> hi)"

section \<open>The wait queue\<close>

definition Q9K_EventEnqueue :: "memory \<Rightarrow> u32 \<Rightarrow> u32 \<Rightarrow> memory" where
  "Q9K_EventEnqueue m entry desc =
     (let tail = Q9K_GetU32 m (entry + Q9K_EVENT_OFF_QPREV);
          m1 = Q9K_SetU32 m (desc + Q9K_READYQ_NEXT_OFF) 0;
          m2 = (if tail = 0 then Q9K_SetU32 m1 (entry + Q9K_EVENT_OFF_QNEXT) desc
                else Q9K_SetU32 m1 (tail + Q9K_READYQ_NEXT_OFF) desc)
      in Q9K_SetU32 m2 (entry + Q9K_EVENT_OFF_QPREV) desc)"

partial_function (option) Q9K_EventDequeue_loop ::
  "memory \<Rightarrow> u32 \<Rightarrow> u32 \<Rightarrow> u32 \<Rightarrow> u32 \<Rightarrow> (u32 \<times> memory) option" where
  "Q9K_EventDequeue_loop m entry value prev node =
     (if node = 0 then Some (0, m)
      else
        let next = Q9K_GetU32 m (node + Q9K_READYQ_NEXT_OFF) in
        if Q9K_EventValueInRange value (Q9K_GetU32 m (node + Q9K_PROCDESC_EVMIN_OFF))
             (Q9K_GetU32 m (node + Q9K_PROCDESC_EVMAX_OFF))
        then
          let m1 = (if prev = 0 then Q9K_SetU32 m (entry + Q9K_EVENT_OFF_QNEXT) next
                    else Q9K_SetU32 m (prev + Q9K_READYQ_NEXT_OFF) next);
              m2 = (if next = 0 then Q9K_SetU32 m1 (entry + Q9K_EVENT_OFF_QPREV) prev else m1);
              m3 = Q9K_SetU32 m2 (node + Q9K_READYQ_NEXT_OFF) 0
          in Some (node, m3)
        else Q9K_EventDequeue_loop m entry value node next)"

definition Q9K_EventDequeueInRange :: "memory \<Rightarrow> u32 \<Rightarrow> u32 \<Rightarrow> (u32 \<times> memory) option" where
  "Q9K_EventDequeueInRange m entry value =
     Q9K_EventDequeue_loop m entry value 0 (Q9K_GetU32 m (entry + Q9K_EVENT_OFF_QNEXT))"

section \<open>Signal, set, pulse\<close>

definition event_wake_one :: "memory \<Rightarrow> u32 \<Rightarrow> u32 \<Rightarrow> memory" where
  "event_wake_one m waiter entryValue =
     (let m1 = Q9K_SetFrameReg m (Q9K_GetU32 m (waiter + Q9K_PROCDESC_SAVEDSP_OFF)) Q9K_FRAMEREG_D1 entryValue
      in case Q9K_ProcAProc m1 waiter of Inr m2 \<Rightarrow> m2 | Inl _ \<Rightarrow> m1)"

partial_function (option) event_wake_loop ::
  "u32 \<Rightarrow> u16 \<Rightarrow> bool \<Rightarrow> memory \<Rightarrow> u32 \<Rightarrow> nat \<Rightarrow> memory option" where
  "event_wake_loop entry waitInc wakeAll m entryValue rounds = do {
     (waiter, m1) \<leftarrow> Q9K_EventDequeueInRange m entry entryValue;
     if waiter = 0 then Some m1
     else do {
       let m2 = event_wake_one m1 waiter entryValue;
       let entryValue' = Q9K_EventAddSaturating entryValue (sint waitInc);
       let m3 = Q9K_SetU32 m2 (entry + Q9K_EVENT_OFF_VALUE) entryValue';
       if \<not> wakeAll then Some m3
       else if rounds + 1 > 16 * 4 then Some m3
       else event_wake_loop entry waitInc wakeAll m3 entryValue' (rounds + 1)
     }
   }"

definition Q9K_EventSignalCommon ::
  "memory \<Rightarrow> u32 \<Rightarrow> u32 \<Rightarrow> bool \<Rightarrow> bool \<Rightarrow> (u16 + u32 \<times> memory) option" where
  "Q9K_EventSignalCommon m evId newValue restore wakeAll =
     (case Q9K_EventFindById m evId of
        None \<Rightarrow> Some (Inl Q9K_E_EVNTID)
      | Some slot \<Rightarrow> do {
          let entry = Q9K_EVENT_SLOT slot;
          let previous = Q9K_GetU32 m (entry + Q9K_EVENT_OFF_VALUE);
          let m1 = Q9K_SetU32 m (entry + Q9K_EVENT_OFF_VALUE) newValue;
          m2 \<leftarrow> (if \<not> restore
                 then event_wake_loop entry (Q9K_GetU16 m1 (entry + Q9K_EVENT_OFF_INCW)) wakeAll m1 newValue 0
                 else Some m1);
          let m3 = (if restore then Q9K_SetU32 m2 (entry + Q9K_EVENT_OFF_VALUE) previous else m2);
          Some (Inr (previous, m3))
        })"

definition Q9K_EventSignal :: "memory \<Rightarrow> u32 \<Rightarrow> bool \<Rightarrow> (u16 + u32 \<times> memory) option" where
  "Q9K_EventSignal m evId wakeAll =
     (case Q9K_EventFindById m evId of
        None \<Rightarrow> Some (Inl Q9K_E_EVNTID)
      | Some slot \<Rightarrow>
          let entry = Q9K_EVENT_SLOT slot;
              value = Q9K_EventAddSaturating (Q9K_GetU32 m (entry + Q9K_EVENT_OFF_VALUE))
                        (sint (Q9K_GetU16 m (entry + Q9K_EVENT_OFF_INCS)))
          in Q9K_EventSignalCommon m evId value False wakeAll)"

definition Q9K_EventSet :: "memory \<Rightarrow> u32 \<Rightarrow> u32 \<Rightarrow> bool \<Rightarrow> (u16 + u32 \<times> memory) option" where
  "Q9K_EventSet m evId newValue wakeAll = Q9K_EventSignalCommon m evId newValue False wakeAll"

definition Q9K_EventSetRelative :: "memory \<Rightarrow> u32 \<Rightarrow> int \<Rightarrow> bool \<Rightarrow> (u16 + u32 \<times> memory) option" where
  "Q9K_EventSetRelative m evId delta wakeAll =
     (case Q9K_EventFindById m evId of
        None \<Rightarrow> Some (Inl Q9K_E_EVNTID)
      | Some slot \<Rightarrow>
          let value = Q9K_EventAddSaturating (Q9K_GetU32 m (Q9K_EVENT_SLOT slot + Q9K_EVENT_OFF_VALUE)) delta
          in Q9K_EventSignalCommon m evId value False wakeAll)"

definition Q9K_EventPulse :: "memory \<Rightarrow> u32 \<Rightarrow> u32 \<Rightarrow> bool \<Rightarrow> (u16 + u32 \<times> memory) option" where
  "Q9K_EventPulse m evId pulseValue wakeAll = Q9K_EventSignalCommon m evId pulseValue True wakeAll"

definition Q9K_EventInfo :: "memory \<Rightarrow> u32 \<Rightarrow> u32 \<Rightarrow> u16 + u32 \<times> memory" where
  "Q9K_EventInfo m startIndex bufAddr =
     (if bufAddr = 0 then Inl Q9K_E_EVNTID
      else case List.find (\<lambda>i. i \<ge> startIndex AND 0xFFFF \<and> \<not> Q9K_EventSlotFree m i) event_slots of
        None \<Rightarrow> Inl Q9K_E_EVNTID
      | Some i \<Rightarrow> Inr (i, copy_bytes 32 m bufAddr (Q9K_EVENT_SLOT i)))"

section \<open>Waiting\<close>

text \<open>The check has three outcomes: an error, the value when the caller continues at once, or the
  value when it has to wait.\<close>

datatype wait_check = WaitError u16 | WaitPass u32 memory | WaitBlock u32

definition Q9K_EventWaitCheck :: "memory \<Rightarrow> u32 \<Rightarrow> u32 \<Rightarrow> u32 \<Rightarrow> wait_check" where
  "Q9K_EventWaitCheck m evId minValue maxValue =
     (case Q9K_EventFindById m evId of
        None \<Rightarrow> WaitError Q9K_E_EVNTID
      | Some slot \<Rightarrow>
          let entry = Q9K_EVENT_SLOT slot;
              value = Q9K_GetU32 m (entry + Q9K_EVENT_OFF_VALUE)
          in if \<not> Q9K_EventValueInRange value minValue maxValue then WaitBlock value
             else WaitPass value (Q9K_SetU32 m (entry + Q9K_EVENT_OFF_VALUE)
                    (Q9K_EventAddSaturating value (sint (Q9K_GetU16 m (entry + Q9K_EVENT_OFF_INCW))))))"

definition Q9K_EventWaitEnqueue :: "memory \<Rightarrow> u32 \<Rightarrow> u32 \<Rightarrow> u32 \<Rightarrow> (u32 \<times> memory) option" where
  "Q9K_EventWaitEnqueue m evId minValue maxValue =
     (let self = Q9K_GetU32 m Q9_D_PROC in
      case Q9K_EventFindById m evId of
        None \<Rightarrow> Some (0, m)
      | Some slot \<Rightarrow>
          if self = 0 then Some (0, m)
          else
            let m1 = Q9K_SetU32 m (self + Q9K_PROCDESC_EVMIN_OFF) minValue;
                m2 = Q9K_SetU32 m1 (self + Q9K_PROCDESC_EVMAX_OFF) maxValue;
                m3 = Q9K_EventEnqueue m2 (Q9K_EVENT_SLOT slot) self
            in Q9K_SchedFirstPick m3)"

section \<open>F$Event\<close>

definition event_out :: "u32 \<Rightarrow> u16 + u32 \<times> memory \<Rightarrow> u16 + memory" where
  "event_out target r = (case r of Inl e \<Rightarrow> Inl e | Inr (v, m) \<Rightarrow> Inr (Q9K_SetU32 m target v))"

definition event_finish :: "memory \<Rightarrow> u16 + memory \<Rightarrow> memory" where
  "event_finish m r =
     (case r of Inl err \<Rightarrow> Q9K_SetU32 m 0x1E38 (ucast err) | Inr m' \<Rightarrow> Q9K_SetU32 m' 0x1E3C 1)"

definition event_wait_call :: "memory \<Rightarrow> u32 \<Rightarrow> u32 \<Rightarrow> u32 \<Rightarrow> memory" where
  "event_wait_call m d0 lo hi =
     (case Q9K_EventWaitCheck m d0 lo hi of
        WaitError err \<Rightarrow> event_finish (Q9K_SetU32 m 0x1E28 0) (Inl err)
      | WaitPass v m1 \<Rightarrow> event_finish m (Inr (Q9K_SetU32 m1 0x1E28 v))
      | WaitBlock v \<Rightarrow>
          Q9K_SetU32 (Q9K_SetU32 (Q9K_SetU32 (Q9K_SetU32 (Q9K_SetU32 m 0x1E28 v) 0x1E44 1) 0x1E2C lo) 0x1E30 hi)
            0x1E3C 1)"

definition Q9K_SysEventImpl :: "memory \<Rightarrow> memory option" where
  "Q9K_SysEventImpl m =
     (let rawFunc = Q9K_GetU32 m 0x1E20;
          func = rawFunc AND 0x7FFF;
          wakeAll = (rawFunc AND 0x8000 \<noteq> 0);
          d0 = Q9K_GetU32 m 0x1E24;
          d2 = Q9K_GetU32 m 0x1E2C;
          a0 = Q9K_GetU32 m 0x1E34;
          mm = Q9K_SetU32 (Q9K_SetU32 m 0x1E3C 0) 0x1E44 0;
          hi = Q9K_GetU32 mm 0x1E30
      in if func = 2 then
           Some (event_finish mm (event_out 0x1E24
             (Q9K_EventCreate mm a0 d0 (ucast (Q9K_GetU32 mm 0x1E2C)) (ucast hi))))
         else if func = 3 then Some (event_finish mm (Q9K_EventDelete mm a0))
         else if func = 0 then Some (event_finish mm (event_out 0x1E24 (Q9K_EventLink mm a0)))
         else if func = 1 then Some (event_finish mm (Q9K_EventUnlink mm d0))
         else if func = 6 then
           Some (event_finish mm (map_sum id (Q9K_SetU32 mm 0x1E28) (Q9K_EventRead mm d0)))
         else if func = 8 then
           map_option (\<lambda>r. event_finish mm (map_sum id snd r)) (Q9K_EventSignal mm d0 wakeAll)
         else if func = 9 then
           map_option (\<lambda>r. event_finish mm (map_sum id snd r)) (Q9K_EventPulse mm d0 d2 wakeAll)
         else if func = 10 then
           map_option (\<lambda>r. event_finish mm (event_out 0x1E28 r)) (Q9K_EventSet mm d0 d2 wakeAll)
         else if func = 11 then
           map_option (\<lambda>r. event_finish mm (event_out 0x1E28 r)) (Q9K_EventSetRelative mm d0 (sint d2) wakeAll)
         else if func = 7 then Some (event_finish mm (event_out 0x1E24 (Q9K_EventInfo mm d0 a0)))
         else if func = 4 then Some (event_wait_call mm d0 d2 hi)
         else if func = 5 then
           (case Q9K_EventRead mm d0 of
              Inl rerr \<Rightarrow> Some (event_finish mm (Inl rerr))
            | Inr now \<Rightarrow>
                let lo' = Q9K_EventAddSaturating now (sint d2);
                    hi' = Q9K_EventAddSaturating now (sint hi);
                    m1 = Q9K_SetU32 (Q9K_SetU32 mm 0x1E2C lo') 0x1E30 hi'
                in Some (event_wait_call m1 d0 lo' hi'))
         else Some (event_finish mm (Inl Q9K_E_UNKSVC)))"

definition Q9K_SysEventWaitImpl :: "memory \<Rightarrow> memory option" where
  "Q9K_SysEventWaitImpl m = do {
     (next, m') \<leftarrow> Q9K_EventWaitEnqueue m (Q9K_GetU32 m 0x1E24) (Q9K_GetU32 m 0x1E2C) (Q9K_GetU32 m 0x1E30);
     Some (Q9K_SetU32 m' 0x1E48 next)
   }"

end
