(* ===== verification/Q9_Event_Props.thy ===== *)
theory Q9_Event_Props
  imports Q9_Event Q9_WaitQ Q9_Kernel
begin

text \<open>
  Events: the value arithmetic is addition clamped to the signed 32-bit range, a signal serves the waiting
  processes as the abstract plan on the list of waiters says, and a pulse serves nobody.
\<close>

section \<open>Value arithmetic\<close>

lemma long32_id: "- 0x80000000 \<le> x \<Longrightarrow> x < 0x80000000 \<Longrightarrow> long32 x = x"
  by (simp add: long32_def)

lemma sint_bounds: "- 0x80000000 \<le> sint (v :: u32)" "sint (v :: u32) < 0x80000000"
  using sint_ge [of v] sint_lt [of v] by simp_all

lemma mod_window: "- k \<le> y \<Longrightarrow> y < 2 * k \<Longrightarrow> y mod k = (if y < 0 then y + k else if k \<le> y then y - k else y)" for y k :: int
  using mod_pos_pos_trivial [of "y + k" k] mod_pos_pos_trivial [of "y - k" k] by (auto simp: mod_pos_pos_trivial)

lemma signed_of_bits_sint: "signed_of_bits v = sint v"
proof -
  have "(0x7FFFFFFF :: u32) = mask 31" by (simp add: mask_eq_exp_minus_1)
  then have lo: "uint (v AND 0x7FFFFFFF) = take_bit 31 (uint v)"
    by (simp only: take_bit_eq_mask [symmetric] unsigned_take_bit_eq)
  have hi: "v AND 0x80000000 \<noteq> 0 \<longleftrightarrow> bit v 31"
  proof -
    show ?thesis using and_exp_eq_0_iff_not_bit [of v 31] by simp
  qed
  have s: "sint v = signed_take_bit 31 (uint v)" by (simp add: sint_uint)
  have b: "bit v 31 = bit (uint v) 31" by (simp add: bit_uint_iff)
  have t: "take_bit 31 (uint v) < 0x80000000" "0 \<le> take_bit 31 (uint v)" using take_bit_int_less_exp [of 31 "uint v"] by simp_all
  have "long32 (take_bit 31 (uint v) - long32 0x80000000) = take_bit 31 (uint v) - 0x80000000"
    using t by (simp add: long32_def)
  moreover have "take_bit 31 (uint v) AND NOT (mask 31) = 0" by (rule bit_eqI) (auto simp: bit_simps)
  then have "take_bit 31 (uint v) OR NOT (mask 31) = take_bit 31 (uint v) + - (2 ^ 31)"
    unfolding minus_exp_eq_not_mask by (rule disjunctive_add_eq_or [symmetric])
  then have "take_bit 31 (uint v) OR NOT (mask 31) = take_bit 31 (uint v) - 0x80000000" by simp
  ultimately show ?thesis
    unfolding signed_of_bits_def Let_def lo hi s b by (simp add: signed_take_bit_eq_if_positive signed_take_bit_eq_if_negative)
qed

text \<open>The value arithmetic of events is addition clamped to the 32-bit signed
  range, for every value and every 32-bit increment; the intermediate wrap-around of the target's
  \<^verbatim>\<open>long\<close> never shows.\<close>

theorem event_add_clamps:
  assumes "- 0x80000000 \<le> delta" "delta < 0x80000000"
  shows "sint (Q9K_EventAddSaturating v delta) = max (- 0x80000000) (min 0x7FFFFFFF (sint v + delta))"
proof -
  define s where "s = sint v"
  have s: "- 0x80000000 \<le> s" "s < 0x80000000" using sint_bounds [of v] by (simp_all add: s_def)
  have l: "long32 (s + delta) = (if s + delta < - 0x80000000 then s + delta + 0x100000000
      else if s + delta \<ge> 0x80000000 then s + delta - 0x100000000 else s + delta)"
    using s assms mod_window [of "0x100000000" "s + delta + 0x80000000"] unfolding long32_def by simp
  have w: "sint (word_of_int x :: u32) = x" if "- 0x80000000 \<le> x" "x < 0x80000000" for x
    using that by (simp add: signed_take_bit_int_eq_self sint_sbintrunc')
  have c: "sint (0x7FFFFFFF :: u32) = 0x7FFFFFFF" "sint (0x80000000 :: u32) = - 0x80000000" by simp_all
  have m: "x AND 0xFFFFFFFF = x" for x :: u32
  proof -
    have "(0xFFFFFFFF :: u32) = - 1" by simp
    then show ?thesis by (simp only: bit.conj_one_right)
  qed
  show ?thesis
    unfolding Q9K_EventAddSaturating_def signed_of_bits_sint s_def [symmetric] Let_def l m
    using s assms w [of "s + delta"] c by (auto simp: max_def min_def)
qed

lemma event_add_clamps_witness:
  "sint (Q9K_EventAddSaturating 0x7FFFFFF0 100) = 0x7FFFFFFF \<and> sint (Q9K_EventAddSaturating 0x80000010 (- 100)) = - 0x80000000"
  using event_add_clamps [of 100 "0x7FFFFFF0"] event_add_clamps [of "- 100" "0x80000010"] by simp

section \<open>The queue of an event\<close>

definition event_at :: "u32 \<Rightarrow> bool" where
  "event_at e \<longleftrightarrow> 0x1C10 \<le> unat e \<and> unat e + 32 \<le> 0x1E10"

definition event_queue :: "u32 set \<Rightarrow> u32 \<Rightarrow> memory \<Rightarrow> u32 list \<Rightarrow> bool" where
  "event_queue P e m xs \<longleftrightarrow> event_at e \<and> wait_list P (e + 24) (e + 28) m xs"

lemma event_apart:
  assumes "event_at e" "unat i + unat n \<le> 32"
    and "unat g + unat k \<le> 0x1C10 \<or> 0x1E10 \<le> unat g \<and> unat g + unat k \<le> 2 ^ 32"
  shows "apart (e + i) n g k" "apart g k (e + i) n"
proof -
  have u: "unat (e + i) = unat e + unat i" using assms(1,2) by (intro unat_offset) (simp add: event_at_def)
  show "apart (e + i) n g k" by (rule apart_ranges) (use u assms in \<open>auto simp: event_at_def\<close>)
  then show "apart g k (e + i) n" by (rule apart_sym)
qed

lemma event_desc:
  assumes "event_at e" "unat i + unat n \<le> 32" "desc_ok d"
  shows "unat j + unat k \<le> 0x400 \<Longrightarrow> apart (e + i) n (d + j) k" "unat j + unat k \<le> 0x400 \<Longrightarrow> apart (d + j) k (e + i) n"
proof -
  have u: "unat (e + i) + unat n \<le> 0x8000"
    using assms(1,2) unat_offset [of e i] by (simp add: event_at_def)
  show "unat j + unat k \<le> 0x400 \<Longrightarrow> apart (e + i) n (d + j) k" "unat j + unat k \<le> 0x400 \<Longrightarrow> apart (d + j) k (e + i) n"
    using desc_global [OF assms(3) _ u, of j k] by simp_all
qed

lemma event_off_links:
  assumes "procs_ok P" "event_at e" "unat i + unat n \<le> 32" shows "off_links P (e + i) n"
  using assms event_apart(1) [OF assms(2,3)] event_desc(1) [OF assms(2,3)] procs_okD [OF assms(1)]
  by (auto simp: off_links_def sentinels_def)

lemma event_wait_cells: "procs_ok P \<Longrightarrow> event_at e \<Longrightarrow> wait_cells P (e + 24) (e + 28)"
  using event_desc(1) [of e _ 4 _ 0 "0x400"] procs_okD [of P] by (auto simp: wait_cells_def)

abbreviation in_range :: "u32 \<Rightarrow> memory \<Rightarrow> u32 \<Rightarrow> bool" where
  "in_range v m x \<equiv> Q9K_EventValueInRange v (Q9K_GetU32 m (x + Q9K_PROCDESC_EVMIN_OFF)) (Q9K_GetU32 m (x + Q9K_PROCDESC_EVMAX_OFF))"

lemma event_enqueue_eq: "Q9K_EventEnqueue m e d = wait_append m (e + 24) (e + 28) d"
  by (simp add: Q9K_EventEnqueue_def wait_append_def Let_def)

definition last0 :: "u32 list \<Rightarrow> u32" where
  "last0 xs = (if xs = [] then 0 else last xs)"

lemma last0_simps [simp]: "last0 [] = 0" "last0 (xs @ [x]) = x"
  by (simp_all add: last0_def)

lemma dequeue_loop:
  assumes "wait_list P (e + 24) (e + 28) m (as @ cs)" "chain m p cs 0"
  shows "Q9K_EventDequeue_loop m e v (last0 as) p = (case dropWhile (\<lambda>x. \<not> in_range v m x) cs of
     [] \<Rightarrow> Some (0, m)
   | x # _ \<Rightarrow> Some (x, wait_unlink m (e + 24) (e + 28) (last0 (as @ takeWhile (\<lambda>x. \<not> in_range v m x) cs)) x))"
  using assms
proof (induction cs arbitrary: as p)
  case Nil
  then show ?case by (subst Q9K_EventDequeue_loop.simps) simp
next
  case (Cons c cs)
  have c: "p = c" "c \<noteq> 0" "chain m (nxt m c) cs 0" using Cons.prems wait_listD(6) [OF Cons.prems(1)] by auto
  show ?case
  proof (cases "in_range v m c")
    case True
    then show ?thesis using c by (subst Q9K_EventDequeue_loop.simps) (simp add: wait_unlink_def Let_def)
  next
    case False
    then have "Q9K_EventDequeue_loop m e v (last0 as) p = Q9K_EventDequeue_loop m e v (last0 (as @ [c])) (nxt m c)"
      using c by (subst Q9K_EventDequeue_loop.simps) (simp add: Let_def)
    then show ?thesis using Cons.IH [of "as @ [c]", OF _ c(3)] Cons.prems(1) False by (simp cong: list.case_cong)
  qed
qed

lemma event_dequeue:
  assumes q: "event_queue P e m xs"
  shows "Q9K_EventDequeueInRange m e v = (case dropWhile (\<lambda>x. \<not> in_range v m x) xs of
     [] \<Rightarrow> Some (0, m)
   | x # _ \<Rightarrow> Some (x, wait_unlink m (e + 24) (e + 28) (last0 (takeWhile (\<lambda>x. \<not> in_range v m x) xs)) x))"
proof -
  have w: "wait_list P (e + 24) (e + 28) m xs" using q by (simp add: event_queue_def)
  show ?thesis using dequeue_loop [of P e m "[]" xs _ v] w wait_listD(4) [OF w] by (simp add: Q9K_EventDequeueInRange_def cong: list.case_cong)
qed

lemma event_dequeue_first:
  assumes q: "event_queue P e m (as @ x # bs)" and as: "\<forall>a\<in>set as. \<not> in_range v m a" and x: "in_range v m x"
  shows "Q9K_EventDequeueInRange m e v = Some (x, wait_unlink m (e + 24) (e + 28) (last0 as) x)"
    "event_queue P e (wait_unlink m (e + 24) (e + 28) (last0 as) x) (as @ bs)"
proof -
  have "dropWhile (\<lambda>x. \<not> in_range v m x) (as @ x # bs) = x # bs" "takeWhile (\<lambda>x. \<not> in_range v m x) (as @ x # bs) = as"
    using as x by (simp_all add: dropWhile_append takeWhile_append)
  then show "Q9K_EventDequeueInRange m e v = Some (x, wait_unlink m (e + 24) (e + 28) (last0 as) x)"
    using event_dequeue [OF q, of v] by simp
  show "event_queue P e (wait_unlink m (e + 24) (e + 28) (last0 as) x) (as @ bs)"
    using q wait_unlink_list by (simp add: event_queue_def last0_def)
qed

text \<open>What an unlink keeps of a descriptor: every field but its next link.\<close>

lemma unlink_field:
  assumes q: "event_queue P e m (as @ x # bs)" and y: "y \<in> P" and i: "i \<in> {0x08, 0x1D0, 0x1D4}"
  shows "Q9K_GetU32 (wait_unlink m (e + 24) (e + 28) (last0 as) x) (y + i) = Q9K_GetU32 m (y + i)"
    and "state_of (wait_unlink m (e + 24) (e + 28) (last0 as) x) y = state_of m y"
proof -
  have e: "event_at e" and w: "wait_list P (e + 24) (e + 28) m (as @ x # bs)" using q by (simp_all add: event_queue_def)
  have P: "procs_ok P" using wait_listD(1) [OF w] by (simp add: wait_cells_def)
  have lk: "apart (z + 0x30) 4 (y + i) 4 \<and> apart (z + 0x30) 4 (y + 0x1D) 1" if "z \<in> P" for z
    using that y i desc_fields_apart [OF P that y, of "0x30" 4] by (cases "z = y") auto
  have ev: "apart (e + j) 4 (y + i) 4 \<and> apart (e + j) 4 (y + 0x1D) 1" if "j = 24 \<or> j = 28" for j
    using that i procs_okD [OF P y] by (auto intro!: event_desc(1) [OF e])
  have m: "x \<in> P" "as \<noteq> [] \<Longrightarrow> last as \<in> P" using wait_listD(3) [OF w] last_in_set [of as] by (auto simp del: last_in_set)
  show "Q9K_GetU32 (wait_unlink m (e + 24) (e + 28) (last0 as) x) (y + i) = Q9K_GetU32 m (y + i)"
    "state_of (wait_unlink m (e + 24) (e + 28) (last0 as) x) y = state_of m y"
    using lk [OF m(1)] lk [OF m(2)] ev [of 24] ev [of 28] by (auto simp: wait_unlink_def Let_def last0_def)
qed

lemma append_field:
  assumes q: "event_queue P e m xs" and d: "d \<in> P" and y: "y \<in> P" and i: "i \<in> {0x1D0, 0x1D4}"
  shows "Q9K_GetU32 (wait_append m (e + 24) (e + 28) d) (y + i) = Q9K_GetU32 m (y + i)"
proof -
  have e: "event_at e" and w: "wait_list P (e + 24) (e + 28) m xs" using q by (simp_all add: event_queue_def)
  have P: "procs_ok P" using wait_listD(1) [OF w] by (simp add: wait_cells_def)
  have lk: "apart (z + 0x30) 4 (y + i) 4" if "z \<in> P" for z
    using that y i desc_fields_apart [OF P that y, of "0x30" 4] by (cases "z = y") auto
  have ev: "apart (e + j) 4 (y + i) 4" if "j = 24 \<or> j = 28" for j
    using that i procs_okD [OF P y] by (auto intro!: event_desc(1) [OF e])
  have "Q9K_GetU32 m (e + 28) = 0 \<or> Q9K_GetU32 m (e + 28) \<in> P"
    using wait_listD(3,5) [OF w] last_in_set [of xs] by (auto simp del: last_in_set)
  then show ?thesis using lk [OF d] lk [of "Q9K_GetU32 m (e + 28)"] ev [of 24] ev [of 28]
    by (auto simp: wait_append_def Let_def)
qed

interpretation evq: wait_queue "event_queue P e" P "\<lambda>m d. Q9K_EventEnqueue m e d" "\<lambda>m. Q9K_EventDequeueInRange m e v" "in_range v" for P e v
proof
  fix m xs d assume "event_queue P e m xs" "d \<in> P" "d \<notin> set xs"
  then show "event_queue P e (Q9K_EventEnqueue m e d) (xs @ [d])"
    by (simp add: event_queue_def event_enqueue_eq wait_append_list)
next
  fix m xs assume q: "event_queue P e m xs"
  show "set xs \<subseteq> P \<and> distinct xs" using q wait_listD(2,3) [of P "e + 24" "e + 28" m xs] by (simp add: event_queue_def)
  assume "\<forall>x\<in>set xs. \<not> in_range v m x"
  then have "dropWhile (\<lambda>x. \<not> in_range v m x) xs = []" by simp
  then show "Q9K_EventDequeueInRange m e v = Some (0, m)" using event_dequeue [OF q, of v] by (simp only: list.case)
next
  fix m as x bs assume "event_queue P e m (as @ x # bs)" "\<forall>a\<in>set as. \<not> in_range v m a" "in_range v m x"
  then show "\<exists>m'. Q9K_EventDequeueInRange m e v = Some (x, m') \<and> event_queue P e m' (as @ bs)"
    using event_dequeue_first by blast
next
  fix m xs d y assume "event_queue P e m xs" "d \<in> P" "y \<in> P"
  then show "in_range v (Q9K_EventEnqueue m e d) y = in_range v m y"
    using append_field [of P e m xs d y] by (simp add: event_enqueue_eq)
next
  fix m xs x m' y assume q: "event_queue P e m xs" and d: "Q9K_EventDequeueInRange m e v = Some (x, m')" and y: "y \<in> P"
  show "in_range v m' y = in_range v m y"
  proof (cases "dropWhile (\<lambda>x. \<not> in_range v m x) xs")
    case Nil
    then show ?thesis using event_dequeue [OF q, of v] d by (simp only: list.case option.inject prod.inject)
  next
    case (Cons z bs)
    let ?as = "takeWhile (\<lambda>x. \<not> in_range v m x) xs"
    have "xs = ?as @ z # bs" using takeWhile_dropWhile_id [of "\<lambda>x. \<not> in_range v m x" xs] Cons by simp
    then have q': "event_queue P e m (?as @ z # bs)" using q by metis
    have "m' = wait_unlink m (e + 24) (e + 28) (last0 ?as) z"
      using event_dequeue [OF q, of v] d Cons by (simp only: list.case option.inject prod.inject)
    then show ?thesis using unlink_field(1) [OF q' y] by simp
  qed
qed

section \<open>Serving the waiters\<close>

abbreviation saved_sp :: "memory \<Rightarrow> u32 \<Rightarrow> u32" where
  "saved_sp m x \<equiv> Q9K_GetU32 m (x + Q9K_PROCDESC_SAVEDSP_OFF)"

text \<open>The state around an event with the waiters \<open>xs\<close>: they are on no scheduler queue, can be made ready, and
  their saved frames lie outside the kernel and apart from each other.\<close>

definition event_ok :: "u32 set \<Rightarrow> queues \<Rightarrow> u32 \<Rightarrow> u32 list \<Rightarrow> memory \<Rightarrow> bool" where
  "event_ok P Q e xs m \<longleftrightarrow> sched_rep m P Q \<and> event_queue P e m xs \<and> set xs \<inter> queued Q = {} \<and>
     (\<forall>x\<in>set xs. Q9K_ProcIdForDesc m x \<noteq> 0 \<and> saved_sp m x \<noteq> 0 \<and> stack_ok P (saved_sp m x) 68) \<and>
     (\<forall>x\<in>set xs. \<forall>y\<in>set xs. x \<noteq> y \<longrightarrow> apart (saved_sp m x) 68 (saved_sp m y) 68)"

text \<open>What a step that serves \<open>x\<close> may change: the event entry, links, ages and the frame of \<open>x\<close>.\<close>

definition serves :: "u32 set \<Rightarrow> u32 \<Rightarrow> u32 \<Rightarrow> memory \<Rightarrow> memory \<Rightarrow> bool" where
  "serves P e f m m' \<longleftrightarrow> (\<forall>a. apart a 1 e 32 \<longrightarrow> apart a 1 (f + 4) 4 \<longrightarrow> off_links P a 1 \<longrightarrow>
     (\<forall>x\<in>P. apart a 1 (x + 0x1A) 2) \<longrightarrow> m' a = m a)"

lemma serves_get:
  assumes s: "serves P e f m m'"
    and a: "apart a n e 32" "apart a n (f + 4) 4" "off_links P a n" "\<And>x. x \<in> P \<Longrightarrow> apart a n (x + 0x1A) 2"
  shows "n = 4 \<Longrightarrow> Q9K_GetU32 m' a = Q9K_GetU32 m a" "n = 1 \<Longrightarrow> Q9K_GetU8 m' a = Q9K_GetU8 m a"
proof -
  have sub: "apart (a + i) 1 b k" if "apart a n b k" "i < n" for i b k
    using that unfolding apart_def by (metis add.assoc add.right_neutral less_one word_less_1)
  have "m' (a + i) = m (a + i)" if "i < n" for i
    using s sub [OF a(1) that] sub [OF a(2) that] sub [OF _ that] a(3,4) that unfolding serves_def off_links_def by blast
  then show "n = 4 \<Longrightarrow> Q9K_GetU32 m' a = Q9K_GetU32 m a" "n = 1 \<Longrightarrow> Q9K_GetU8 m' a = Q9K_GetU8 m a"
    using c32.get_local [of m' a m] c8.get_local [of m' a m] by simp_all
qed

lemma serves_put:
  assumes "serves P e f m m'"
  shows "unat i + 4 \<le> 32 \<Longrightarrow> serves P e f m (Q9K_SetU32 m' (e + i) v)" "serves P e f m (Q9K_SetU32 m' (f + 4) v)"
    "x \<in> P \<Longrightarrow> serves P e f m (Q9K_SetU32 m' (x + 0x30) v)"
proof -
  have put: "serves P e f m (Q9K_SetU32 m' b v)"
    if "\<And>a. apart a 1 e 32 \<Longrightarrow> apart a 1 (f + 4) 4 \<Longrightarrow> off_links P a 1 \<Longrightarrow> apart a 1 b 4" for b
    unfolding serves_def
  proof (intro allI impI)
    fix a assume a: "apart a 1 e 32" "apart a 1 (f + 4) 4" "off_links P a 1" "\<forall>x\<in>P. apart a 1 (x + 0x1A) 2"
    from that [OF a(1-3)] have "apart b 4 a 1" by (rule apart_sym)
    then show "Q9K_SetU32 m' b v a = m a"
      using assms a c32.put_keeps [of b a 1 0 m' v] by (simp add: serves_def)
  qed
  show "serves P e f m (Q9K_SetU32 m' (e + i) v)" if "unat i + 4 \<le> 32"
  proof (rule put)
    fix a :: u32 assume "apart a 1 e 32"
    then show "apart a 1 (e + i) 4"
      using apart_sub [of a 1 e 32 0 1 i 4] that unat_offset [of i 4] by (simp add: word_le_nat_alt)
  qed
  show "serves P e f m (Q9K_SetU32 m' (f + 4) v)" by (rule put)
  show "serves P e f m (Q9K_SetU32 m' (x + 0x30) v)" if "x \<in> P"
    by (rule put) (use that in \<open>auto simp: off_links_def dest: apart_links_halves\<close>)
qed

lemma serves_insert:
  assumes r: "sched_rep m' P Q" and x: "x \<in> P" "x \<notin> queued Q" and s: "serves P e f m m'"
  shows "serves P e f m (Q9K_SchedInsert m' x)"
  unfolding serves_def
proof (intro allI impI)
  fix a assume a: "apart a 1 e 32" "apart a 1 (f + 4) 4" "off_links P a 1" "\<forall>x\<in>P. apart a 1 (x + 0x1A) 2"
  have "Q9K_GetU8 (Q9K_SchedInsert m' x) a = Q9K_GetU8 m' a"
    using only_links_get(1) [OF sched_insert(2) [OF r x] a(3)] a(4) x(1) apart_sym by simp
  then show "Q9K_SchedInsert m' x a = m a" using s a by (simp add: serves_def Q9K_GetU8_def)
qed

lemma stack_frame:
  assumes "stack_ok P f 68"
  shows "y \<in> P \<Longrightarrow> i + k \<le> 0x400 \<Longrightarrow> i \<le> i + k \<Longrightarrow> apart (f + 4) 4 (y + i) k \<and> apart (y + i) k (f + 4) 4"
    and "g + k \<le> 0x8000 \<Longrightarrow> g \<le> g + k \<Longrightarrow> apart (f + 4) 4 g k \<and> apart g k (f + 4) 4"
proof -
  have s: "stack_ok P (f + 4) 4" by (rule stack_ok_sub [OF assms]) simp_all
  show "y \<in> P \<Longrightarrow> i + k \<le> 0x400 \<Longrightarrow> i \<le> i + k \<Longrightarrow> apart (f + 4) 4 (y + i) k \<and> apart (y + i) k (f + 4) 4"
    using stack_desc [OF s] apart_sym by blast
  show "g + k \<le> 0x8000 \<Longrightarrow> g \<le> g + k \<Longrightarrow> apart (f + 4) 4 g k \<and> apart g k (f + 4) 4"
    using stack_global [OF s] apart_sym by blast
qed

lemma stack_event:
  assumes "stack_ok P f n" "event_at e" "unat i + unat k \<le> 32" shows "apart f n (e + i) k" "apart (e + i) k f n"
proof -
  have "unat (e + i) + unat k \<le> 0x8000" using assms(2,3) unat_offset [of e i] by (simp add: event_at_def)
  then have "e + i + k \<le> 0x8000" "e + i \<le> e + i + k" using unat_offset [of "e + i" k] by (simp_all add: word_le_nat_alt)
  then show "apart f n (e + i) k" by (rule stack_global [OF assms(1)])
  then show "apart (e + i) k f n" by (rule apart_sym)
qed

lemma stack_off_links: "stack_ok P f n \<Longrightarrow> off_links P f n"
  using stack_desc [of P f n _ "0x30" 8] stack_global [of P f n] by (auto simp: off_links_def sentinels_def)

lemma serves_desc:
  assumes s: "serves P e f m m'" and e: "event_at e" and P: "procs_ok P" and f: "stack_ok P f 68" and y: "y \<in> P"
  shows "state_of m' y = state_of m y" and "i \<in> {0x08, 0x1D0, 0x1D4} \<Longrightarrow> Q9K_GetU32 m' (y + i) = Q9K_GetU32 m (y + i)"
    and "g \<in> {Q9K_PROCPOOL_BASE_ADDR, Q9K_PROCPOOL_COUNT_ADDR} \<Longrightarrow> Q9K_GetU32 m' g = Q9K_GetU32 m g"
proof -
  have ag: "apart (y + i) k (x + 0x1A) 2" if "x \<in> P" "apart i k 0x1A 2" "i + k \<le> 0x400" "i \<le> i + k" for i k x
    using that desc_fields_apart [OF P y, of x i k "0x1A" 2] by (cases "x = y") (auto simp: apart_shift)
  have ev: "apart (y + i) k e 32" if "unat i + unat k \<le> 0x400" for i k
    using event_desc(2) [OF e, of 0 32 y i k] procs_okD [OF P y] that by simp
  show "state_of m' y = state_of m y"
    by (rule serves_get(2) [OF s]) (use y ev ag stack_frame(1) [OF f y] in \<open>auto simp: off_links_field [OF P]\<close>)
  show "Q9K_GetU32 m' (y + i) = Q9K_GetU32 m (y + i)" if "i \<in> {0x08, 0x1D0, 0x1D4}"
    by (rule serves_get(1) [OF s]) (use that y ev ag stack_frame(1) [OF f y] in \<open>auto simp: off_links_field [OF P]\<close>)
  show "Q9K_GetU32 m' g = Q9K_GetU32 m g" if g: "g \<in> {Q9K_PROCPOOL_BASE_ADDR, Q9K_PROCPOOL_COUNT_ADDR}"
  proof (rule serves_get(1) [OF s])
    show "apart g 4 e 32" using event_apart(2) [OF e, of 0 32 g 4] g by auto
    show "apart g 4 (f + 4) 4" using stack_frame(2) [OF f, of g 4] g by auto
    show "off_links P g 4" using g by (auto simp: off_links_global [OF P])
    show "apart g 4 (x + 0x1A) 2" if "x \<in> P" for x using desc_global(2) [OF procs_okD [OF P that], of "0x1A" 2 g 4] g by auto
  qed simp
qed

text \<open>A frame cell of another process is kept.\<close>

lemma serves_stack:
  assumes s: "serves P e f m m'" and e: "event_at e" and P: "procs_ok P" and a: "stack_ok P a 4" "apart a 4 (f + 4) 4"
  shows "Q9K_GetU32 m' a = Q9K_GetU32 m a"
  using stack_event [OF a(1) e, of 0 32] stack_off_links [OF a(1)] stack_desc [OF a(1), of _ "0x1A" 2] a(2)
  by (intro serves_get(1) [OF s]) auto

lemma unlink_serves:
  assumes q: "event_queue P e m (as @ x # bs)"
  shows "serves P e f m (wait_unlink m (e + 24) (e + 28) (last0 as) x)"
proof -
  have w: "wait_list P (e + 24) (e + 28) m (as @ x # bs)" using q by (simp add: event_queue_def)
  have mem: "x \<in> P" "as \<noteq> [] \<Longrightarrow> last as \<in> P \<and> last as \<noteq> 0"
    using wait_listD(3,6) [OF w] last_in_set [of as] by (auto simp del: last_in_set)
  have s0: "serves P e f m m" by (simp add: serves_def)
  show ?thesis using mem
    by (auto simp: wait_unlink_def Let_def last0_def intro!: serves_put [OF s0] serves_put [OF serves_put(1) [OF s0]]
        serves_put [OF serves_put(3) [OF s0]] serves_put [OF serves_put(1) [OF serves_put(1) [OF s0]]]
        serves_put [OF serves_put(1) [OF serves_put(3) [OF s0]]])
qed

lemma unlink_rep:
  assumes q: "event_queue P e m (as @ x # bs)" and P': "P' \<subseteq> P - set (as @ x # bs)"
  shows "sched_rep (wait_unlink m (e + 24) (e + 28) (last0 as) x) P' Q = sched_rep m P' Q"
proof -
  have e: "event_at e" and w: "wait_list P (e + 24) (e + 28) m (as @ x # bs)" using q by (simp_all add: event_queue_def)
  have P: "procs_ok P" using wait_listD(1) [OF w] by (simp add: wait_cells_def)
  then have P1: "procs_ok P'" using P' by (auto simp: procs_ok_def)
  have mem: "x \<in> P - P'" "as \<noteq> [] \<Longrightarrow> last as \<in> P - P'"
    using wait_listD(3) [OF w] P' last_in_set [of as] by (auto simp del: last_in_set)
  have sub: "P' \<subseteq> P" using P' by auto
  show ?thesis
    using wait_link_rep [OF P sub mem(1)] wait_link_rep [OF P sub mem(2)] off_links_rep [OF event_off_links [OF P1 e]]
    by (cases "as = []"; cases "nxt m x = 0") (simp_all add: wait_unlink_def Let_def last0_def)
qed

lemma wake_one:
  assumes ok: "event_ok P Q e (as @ x # bs) m" and m1: "m1 = wait_unlink m (e + 24) (e + 28) (last0 as) x"
  shows "event_wake_one m1 x v = Q9K_SchedInsert (Q9K_SetU32 m1 (saved_sp m x + 4) v) x"
    and "sched_rep (Q9K_SetU32 m1 (saved_sp m x + 4) v) (P - set (as @ bs)) Q"
    and "serves P e (saved_sp m x) m (Q9K_SetU32 m1 (saved_sp m x + 4) v)"
proof -
  let ?f = "saved_sp m x" and ?m = "Q9K_SetU32 m1 (saved_sp m x + 4) v"
  have r: "sched_rep m P Q" and q: "event_queue P e m (as @ x # bs)" and nq: "set (as @ x # bs) \<inter> queued Q = {}"
    and wx: "Q9K_ProcIdForDesc m x \<noteq> 0" "?f \<noteq> 0" "stack_ok P ?f 68" using ok by (auto simp: event_ok_def)
  have e: "event_at e" and P: "procs_ok P" and xP: "x \<in> P"
    using q sched_repD(1) [OF r] wait_listD(3) [of P "e + 24" "e + 28" m "as @ x # bs"] by (auto simp: event_queue_def)
  have "serves P e ?f m m1" unfolding m1 by (rule unlink_serves [OF q])
  then show s: "serves P e ?f m ?m" by (rule serves_put(2))
  note sd = serves_desc [OF s e P wx(3) xP]
  have "Q9K_ProcIdForDesc ?m x = Q9K_ProcIdForDesc m x" by (rule pid_frame) (use sd in auto)
  moreover have "saved_sp ?m x = ?f" using sd(2) [of 8] by simp
  moreover have "saved_sp m1 x = ?f" using unlink_field(1) [OF q xP, of 8] by (simp add: m1)
  ultimately show "event_wake_one m1 x v = Q9K_SchedInsert ?m x"
    using wx desc_ok_nonzero [OF procs_okD [OF P xP]] by (simp add: event_wake_one_def SetFrameReg_eq Q9K_ProcAProc_def Let_def)
  have "sched_rep m (P - set (as @ x # bs)) Q" using sched_rep_queued [OF r] nq by (intro sched_rep_sub [OF r]) auto
  then have "sched_rep m1 (P - set (as @ x # bs)) Q" unfolding m1 by (subst unlink_rep [OF q]) auto
  then have r1: "sched_rep m1 (P - set (as @ bs)) Q"
    by (rule sched_rep_super) (use P in \<open>auto simp: procs_ok_def\<close>)
  have "stack_ok P (?f + 4) 4" by (rule stack_ok_sub [OF wx(3)]) simp_all
  then have "off_links (P - set (as @ bs)) (?f + 4) 4" using stack_off_links by (auto simp: off_links_def)
  then show "sched_rep ?m (P - set (as @ bs)) Q" using r1 by (simp add: off_links_rep)
qed

lemma wake_queue:
  assumes ok: "event_ok P Q e (as @ x # bs) m" and m1: "m1 = wait_unlink m (e + 24) (e + 28) (last0 as) x"
  shows "event_queue P e (Q9K_SetU32 (event_wake_one m1 x v) (e + 14) v') (as @ bs)"
proof -
  let ?f = "saved_sp m x" and ?m = "Q9K_SetU32 m1 (saved_sp m x + 4) v" and ?P = "P - set (as @ bs)"
  have r: "sched_rep m P Q" and q: "event_queue P e m (as @ x # bs)" and nq: "set (as @ x # bs) \<inter> queued Q = {}"
    and st: "stack_ok P ?f 68" using ok by (auto simp: event_ok_def)
  note w1 = wake_one [OF ok m1, of v]
  have w: "wait_list P (e + 24) (e + 28) m (as @ x # bs)" and e: "event_at e" using q by (simp_all add: event_queue_def)
  have P: "procs_ok P" and x: "x \<in> ?P" "x \<notin> queued Q" "x \<in> P"
    using sched_repD(1) [OF r] wait_listD(2,3) [OF w] nq by auto
  have P': "procs_ok ?P" using P by (auto simp: procs_ok_def)
  have q1: "wait_list P (e + 24) (e + 28) m1 (as @ bs)" unfolding m1 using wait_unlink_list [OF w] by (simp add: last0_def)
  have "wait_list P (e + 24) (e + 28) ?m (as @ bs) = wait_list P (e + 24) (e + 28) m1 (as @ bs)"
    using stack_event(1) [OF stack_ok_sub [OF st, of 4 4] e] stack_frame(1) [OF st] wait_listD(3) [OF q1]
    by (intro wait_list_cong) auto
  moreover have "wait_list P (e + 24) (e + 28) (Q9K_SchedInsert ?m x) (as @ bs) = wait_list P (e + 24) (e + 28) ?m (as @ bs)"
  proof (rule wait_list_cong)
    have ev: "Q9K_GetU32 (Q9K_SchedInsert ?m x) (e + i) = Q9K_GetU32 ?m (e + i)" if "unat i + 4 \<le> 32" for i
      using that by (intro insert_frame_off [OF w1(2) x(1,2)] event_off_links [OF P' e] event_desc(2) [OF e] procs_okD [OF P x(3)]) simp_all
    show "Q9K_GetU32 (Q9K_SchedInsert ?m x) (e + 24) = Q9K_GetU32 ?m (e + 24)"
      "Q9K_GetU32 (Q9K_SchedInsert ?m x) (e + 28) = Q9K_GetU32 ?m (e + 28)" using ev by simp_all
    show "nxt (Q9K_SchedInsert ?m x) y = nxt ?m y" if "y \<in> set (as @ bs)" for y
    proof (rule insert_frame_clear [OF w1(2) x(1,2)])
      have y: "y \<in> P" "y \<noteq> x" using that wait_listD(2,3) [OF w] by auto
      show "clear_of ?P (y + Q9K_READYQ_NEXT_OFF) 4" using that y by (intro clear_of_link [OF P]) auto
      show "apart (x + Q9K_PROCDESC_AGE_OFF) 2 (y + Q9K_READYQ_NEXT_OFF) 4" using desc_fields_apart [OF P x(3) y(1)] y(2) by simp
    qed
  qed
  moreover have "wait_list P (e + 24) (e + 28) (Q9K_SetU32 m2 (e + 14) v') (as @ bs) = wait_list P (e + 24) (e + 28) m2 (as @ bs)" for m2
    using event_desc(1) [OF e, of 14 4 _ "0x30" 4] procs_okD [OF P] wait_listD(3) [OF q1] by (intro wait_list_cong) auto
  ultimately show ?thesis using q1 e by (simp add: event_queue_def w1(1))
qed

text \<open>One step of the wake loop.\<close>

lemma wake_step:
  assumes ok: "event_ok P Q e (as @ x # bs) m" and m1: "m1 = wait_unlink m (e + 24) (e + 28) (last0 as) x"
    and m3: "m3 = Q9K_SetU32 (event_wake_one m1 x v) (e + 14) v'"
  shows "serves P e (saved_sp m x) m m3" "Q9K_GetU32 m3 (e + 14) = v'" "Q9K_GetU32 m3 (saved_sp m x + 4) = v"
    and "event_ok P (Q(Q9K_READYQ_SENTINEL_ADDR := Q Q9K_READYQ_SENTINEL_ADDR @ [x])) e (as @ bs) m3"
proof -
  let ?f = "saved_sp m x" and ?m = "Q9K_SetU32 m1 (saved_sp m x + 4) v" and ?P = "P - set (as @ bs)" and ?R = Q9K_READYQ_SENTINEL_ADDR
  have r: "sched_rep m P Q" and q: "event_queue P e m (as @ x # bs)" and nq: "set (as @ x # bs) \<inter> queued Q = {}"
    and wy: "\<And>y. y \<in> set (as @ x # bs) \<Longrightarrow> Q9K_ProcIdForDesc m y \<noteq> 0 \<and> saved_sp m y \<noteq> 0 \<and> stack_ok P (saved_sp m y) 68"
    and dj: "\<And>y z. y \<in> set (as @ x # bs) \<Longrightarrow> z \<in> set (as @ x # bs) \<Longrightarrow> y \<noteq> z \<Longrightarrow> apart (saved_sp m y) 68 (saved_sp m z) 68"
    using ok unfolding event_ok_def by blast+
  have st: "stack_ok P ?f 68" using wy by simp
  note w1 = wake_one [OF ok m1, of v]
  have w: "wait_list P (e + 24) (e + 28) m (as @ x # bs)" and e: "event_at e" using q by (simp_all add: event_queue_def)
  have P: "procs_ok P" and x: "x \<in> ?P" "x \<notin> queued Q" "x \<in> P" and sub: "set (as @ bs) \<subseteq> P" and xn: "x \<notin> set (as @ bs)"
    using sched_repD(1) [OF r] wait_listD(2,3) [OF w] nq by auto
  have P': "procs_ok ?P" using P by (auto simp: procs_ok_def)
  have rP: "sched_rep ?m P Q" by (rule sched_rep_super [OF w1(2)]) (auto simp: P)
  have m3': "m3 = Q9K_SetU32 (Q9K_SchedInsert ?m x) (e + 14) v'" by (simp add: m3 w1(1))
  show s: "serves P e ?f m m3" unfolding m3' by (intro serves_put(1) serves_insert [OF rP x(3,2) w1(3)]) simp
  show "Q9K_GetU32 m3 (e + 14) = v'" by (simp add: m3')
  have "stack_ok P (?f + 4) 4" by (rule stack_ok_sub [OF st]) simp_all
  then show "Q9K_GetU32 m3 (?f + 4) = v"
    using insert_frame_off [OF rP x(3,2) stack_off_links] stack_event(2) [of P "?f + 4" 4 e 14 4] e stack_frame(1) [OF st x(3), of "0x1A" 2]
    by (simp add: m3')
  have "sched_rep (Q9K_SchedInsert ?m x) P (Q(?R := Q ?R @ [x]))" by (rule sched_insert(1) [OF rP x(3,2)])
  then have r3: "sched_rep m3 P (Q(?R := Q ?R @ [x]))" by (simp add: m3' off_links_rep [OF event_off_links [OF P e]])
  have q3: "event_queue P e m3 (as @ bs)" unfolding m3 by (rule wake_queue [OF ok m1])
  have sp: "saved_sp m3 y = saved_sp m y" "Q9K_ProcIdForDesc m3 y = Q9K_ProcIdForDesc m y" if "y \<in> set (as @ bs)" for y
  proof -
    note sd = serves_desc [OF s e P st, of y]
    show "saved_sp m3 y = saved_sp m y" using sd(2) [of 8] sub that by auto
    show "Q9K_ProcIdForDesc m3 y = Q9K_ProcIdForDesc m y" by (rule pid_frame) (use sd sub that in auto)
  qed
  have "set (as @ bs) \<inter> queued (Q(?R := Q ?R @ [x])) = {}" using nq xn by (auto simp: queued_def sentinels_def)
  then show "event_ok P (Q(?R := Q ?R @ [x])) e (as @ bs) m3"
    unfolding event_ok_def using r3 q3 wy dj sp by auto
qed

section \<open>The plan\<close>

text \<open>What a signal does to the list of waiters \<open>xs\<close> and the value \<open>v\<close>: the first waiter whose range contains the
  value leaves the list with that value, then the value moves on by the wait increment; one round, or, with
  \<open>wakeAll\<close>, up to \<open>n\<close> further ones.  The result lists who is served with which value, the final value and
  the remaining waiters.\<close>

fun wake_plan :: "(u32 \<Rightarrow> u32 \<Rightarrow> bool) \<Rightarrow> int \<Rightarrow> bool \<Rightarrow> nat \<Rightarrow> u32 \<Rightarrow> u32 list \<Rightarrow> (u32 \<times> u32) list \<times> u32 \<times> u32 list" where
  "wake_plan fits inc wakeAll n v xs =
     (case List.find (fits v) xs of
        None \<Rightarrow> ([], v, xs)
      | Some x \<Rightarrow>
          let v' = Q9K_EventAddSaturating v inc; ys = remove1 x xs in
          if \<not> wakeAll then ([(x, v)], v', ys)
          else case n of
            0 \<Rightarrow> ([(x, v)], v', ys)
          | Suc k \<Rightarrow> let (w, u, zs) = wake_plan fits inc wakeAll k v' ys in ((x, v) # w, u, zs))"

declare wake_plan.simps [simp del]

lemma plan_none: "List.find (fits v) xs = None \<Longrightarrow> wake_plan fits inc wakeAll n v xs = ([], v, xs)"
  by (simp add: wake_plan.simps)

lemma plan_one: "List.find (fits v) xs = Some x \<Longrightarrow> \<not> wakeAll \<or> n = 0 \<Longrightarrow>
    wake_plan fits inc wakeAll n v xs = ([(x, v)], Q9K_EventAddSaturating v inc, remove1 x xs)"
  by (subst wake_plan.simps) (auto simp: Let_def)

lemma plan_more: "List.find (fits v) xs = Some x \<Longrightarrow> wakeAll \<Longrightarrow>
    wake_plan fits inc wakeAll (Suc n) v xs =
      (let (w, u, zs) = wake_plan fits inc wakeAll n (Q9K_EventAddSaturating v inc) (remove1 x xs) in ((x, v) # w, u, zs))"
  by (subst wake_plan.simps) (simp add: Let_def)

lemma wake_plan_cong:
  "(\<And>v x. x \<in> set xs \<Longrightarrow> fits v x = fits' v x) \<Longrightarrow> wake_plan fits inc wakeAll n v xs = wake_plan fits' inc wakeAll n v xs"
proof (induction n arbitrary: v xs)
  case (0 v xs)
  then have f: "List.find (fits v) xs = List.find (fits' v) xs" by (induction xs) auto
  then show ?case by (cases "List.find (fits' v) xs") (simp_all add: plan_none plan_one)
next
  case (Suc n v xs)
  have f: "List.find (fits v) xs = List.find (fits' v) xs" using Suc.prems by (induction xs) auto
  have "wake_plan fits inc wakeAll n u (remove1 x xs) = wake_plan fits' inc wakeAll n u (remove1 x xs)" for u x
    using Suc.prems set_remove1_subset [of x xs] by (intro Suc.IH) blast
  then show ?case using f by (cases "List.find (fits' v) xs"; cases wakeAll) (simp_all add: plan_none plan_one plan_more)
qed

lemma find_split:
  assumes "List.find p xs = Some x" "distinct xs"
  obtains as bs where "xs = as @ x # bs" "\<forall>a\<in>set as. \<not> p a" "p x" "remove1 x xs = as @ bs"
proof -
  from assms(1) obtain i where i: "i < length xs" "p (xs ! i)" "x = xs ! i" "\<forall>j<i. \<not> p (xs ! j)" by (auto simp: find_Some_iff)
  have s: "xs = take i xs @ x # drop (Suc i) xs" using i id_take_nth_drop by simp
  moreover have "\<forall>a\<in>set (take i xs). \<not> p a" using i(1,4) by (auto simp: in_set_conv_nth)
  moreover have "x \<notin> set (take i xs)" using assms(2) s by (metis distinct_append disjoint_iff list.set_intros(1))
  then have "remove1 x xs = take i xs @ drop (Suc i) xs" by (subst s) (simp add: remove1_append)
  ultimately show thesis using i(2,3) that by blast
qed

definition wake_result :: "u32 set \<Rightarrow> queues \<Rightarrow> u32 \<Rightarrow> u32 list \<Rightarrow> memory \<Rightarrow> u32 \<Rightarrow> (u32 \<times> u32) list \<times> u32 \<times> u32 list \<Rightarrow> memory \<Rightarrow> bool" where
  "wake_result P Q e xs m v plan m' \<longleftrightarrow> (case plan of (w, u, ys) \<Rightarrow>
     event_ok P (Q(Q9K_READYQ_SENTINEL_ADDR := Q Q9K_READYQ_SENTINEL_ADDR @ map fst w)) e ys m' \<and>
     (if w = [] then m' = m \<and> u = v else Q9K_GetU32 m' (e + 14) = u) \<and>
     (\<forall>(x, d1)\<in>set w. x \<in> set xs \<and> Q9K_GetU32 m' (saved_sp m x + 4) = d1) \<and>
     (\<forall>a. stack_ok P a 4 \<longrightarrow> (\<forall>y\<in>set xs. apart a 4 (saved_sp m y + 4) 4) \<longrightarrow> Q9K_GetU32 m' a = Q9K_GetU32 m a))"

lemma wake_result_none: "event_ok P Q e xs m \<Longrightarrow> wake_result P Q e xs m v ([], v, xs) m"
  by (simp add: wake_result_def)

lemma wake_step_result:
  assumes ok: "event_ok P Q e (as @ x # bs) m" and m1: "m1 = wait_unlink m (e + 24) (e + 28) (last0 as) x"
    and m3: "m3 = Q9K_SetU32 (event_wake_one m1 x v) (e + 14) v'"
    and rest: "wake_result P (Q(Q9K_READYQ_SENTINEL_ADDR := Q Q9K_READYQ_SENTINEL_ADDR @ [x])) e (as @ bs) m3 v' (w, u, ys) m'"
  shows "wake_result P Q e (as @ x # bs) m v ((x, v) # w, u, ys) m'"
proof -
  note st = wake_step [OF ok m1 m3]
  have P: "procs_ok P" and e: "event_at e" and sub: "set (as @ bs) \<subseteq> P" and xn: "x \<notin> set (as @ bs)"
    and fr: "\<And>y. y \<in> set (as @ x # bs) \<Longrightarrow> stack_ok P (saved_sp m y) 68"
    using ok wait_listD(2,3) [of P "e + 24" "e + 28" m "as @ x # bs"] sched_repD(1) [of m P Q]
    unfolding event_ok_def event_queue_def by auto
  have dj: "apart (saved_sp m x) 68 (saved_sp m y) 68" if "y \<in> set (as @ bs)" for y
  proof -
    have "y \<noteq> x" "y \<in> set (as @ x # bs)" using that xn by auto
    then show ?thesis using ok unfolding event_ok_def by simp
  qed
  have fx: "stack_ok P (saved_sp m x) 68" using fr by simp
  have sp: "saved_sp m3 y = saved_sp m y" if "y \<in> set (as @ bs)" for y
    using serves_desc(2) [OF st(1) e P fx, of y 8] sub that by auto
  have d1: "stack_ok P (saved_sp m y + 4) 4" if "y \<in> set (as @ x # bs)" for y
    by (rule stack_ok_sub [OF fr [OF that]]) simp_all
  have xy: "apart (saved_sp m x + 4) 4 (saved_sp m3 y + 4) 4" if "y \<in> set (as @ bs)" for y
    using apart_sub [OF dj [OF that], of 4 4 4 4] sp [OF that] by simp
  have keep: "Q9K_GetU32 m' a = Q9K_GetU32 m a"
    if a: "stack_ok P a 4" "\<forall>y\<in>set (as @ x # bs). apart a 4 (saved_sp m y + 4) 4" for a
  proof -
    have "Q9K_GetU32 m' a = Q9K_GetU32 m3 a" using rest a sp unfolding wake_result_def by auto
    also have "\<dots> = Q9K_GetU32 m a" using serves_stack [OF st(1) e P a(1)] a(2) by simp
    finally show ?thesis .
  qed
  have "Q9K_GetU32 m' (saved_sp m x + 4) = Q9K_GetU32 m3 (saved_sp m x + 4)"
    using rest d1 [of x] xy unfolding wake_result_def by auto
  then have dx: "Q9K_GetU32 m' (saved_sp m x + 4) = v" using st(3) by simp
  have dw: "\<forall>(y, d)\<in>set w. y \<in> set (as @ bs) \<and> Q9K_GetU32 m' (saved_sp m y + 4) = d"
    using rest sp unfolding wake_result_def by fastforce
  have "Q9K_GetU32 m' (e + 14) = u" using rest st(2) unfolding wake_result_def by (auto split: if_splits)
  then show ?thesis using rest dx dw keep unfolding wake_result_def by auto
qed

lemma event_ok_nonzero: "event_ok P Q e (as @ x # bs) m \<Longrightarrow> x \<noteq> 0"
  using wait_listD(6) [of P "e + 24" "e + 28" m "as @ x # bs"] by (auto simp: event_ok_def event_queue_def)

lemma wake_loop:
  assumes "event_ok P Q e xs m" "rounds + n = 64"
  shows "\<exists>m'. event_wake_loop e inc wakeAll m v rounds = Some m' \<and>
    wake_result P Q e xs m v (wake_plan (\<lambda>v x. in_range v m x) (sint inc) wakeAll n v xs) m'"
  using assms
proof (induction n arbitrary: Q xs m v rounds rule: nat_less_induct)
  case (1 n Q xs m v rounds)
  let ?fits = "\<lambda>v x. in_range v m x"
  have q: "event_queue P e m xs" using 1(2) by (simp add: event_ok_def)
  have d: "distinct xs" "set xs \<subseteq> P" using q wait_listD(2,3) [of P "e + 24" "e + 28" m xs] by (auto simp: event_queue_def)
  show ?case
  proof (cases "List.find (?fits v) xs")
    case None
    then have "\<forall>x\<in>set xs. \<not> in_range v m x" by (auto simp: find_None_iff)
    then have "Q9K_EventDequeueInRange m e v = Some (0, m)" by (rule evq.deq_none [OF q])
    then show ?thesis using wake_result_none [OF 1(2)] None by (subst event_wake_loop.simps) (simp add: plan_none)
  next
    case (Some x)
    then obtain as bs where xs: "xs = as @ x # bs" "\<forall>a\<in>set as. \<not> in_range v m a" "in_range v m x" "remove1 x xs = as @ bs"
      using find_split [OF Some d(1)] by blast
    have ok: "event_ok P Q e (as @ x # bs) m" using 1(2) xs(1) by simp
    define m1 where "m1 = wait_unlink m (e + 24) (e + 28) (last0 as) x"
    define v' where "v' = Q9K_EventAddSaturating v (sint inc)"
    define m3 where "m3 = Q9K_SetU32 (event_wake_one m1 x v) (e + 14) v'"
    have dq: "Q9K_EventDequeueInRange m e v = Some (x, m1)" unfolding m1_def by (rule event_dequeue_first(1) [OF q [unfolded xs(1)] xs(2,3)])
    have lp: "event_wake_loop e inc wakeAll m v rounds =
        (if \<not> wakeAll \<or> rounds + 1 > 64 then Some m3 else event_wake_loop e inc wakeAll m3 v' (rounds + 1))"
      using dq event_ok_nonzero [OF ok] by (subst event_wake_loop.simps) (simp add: m3_def v'_def Let_def)
    note st = wake_step [OF ok m1_def m3_def]
    note res = wake_step_result [OF ok m1_def m3_def]
    show ?thesis
    proof (cases "\<not> wakeAll \<or> n = 0")
      case True
      then have "event_wake_loop e inc wakeAll m v rounds = Some m3" using lp 1(3) by auto
      moreover have "wake_plan ?fits (sint inc) wakeAll n v xs = ([(x, v)], v', as @ bs)"
        using plan_one [of ?fits v xs x wakeAll n] Some True xs(4) by (simp add: v'_def)
      ultimately show ?thesis using res [OF wake_result_none [OF st(4)]] xs(1) by simp
    next
      case False
      then obtain k where k: "n = Suc k" "wakeAll" by (cases n) auto
      have "k < n" "rounds + 1 + k = 64" using k 1(3) by simp_all
      from 1(1) [rule_format, OF this(1) st(4) this(2)] obtain m' where
        m': "event_wake_loop e inc wakeAll m3 v' (rounds + 1) = Some m'"
        "wake_result P (Q(Q9K_READYQ_SENTINEL_ADDR := Q Q9K_READYQ_SENTINEL_ADDR @ [x])) e (as @ bs) m3 v'
           (wake_plan (\<lambda>v x. in_range v m3 x) (sint inc) wakeAll k v' (as @ bs)) m'" by blast
      have "sched_rep m P Q" "event_queue P e m xs" "stack_ok P (saved_sp m x) 68" using 1(2) xs(1) by (simp_all add: event_ok_def)
      then have P: "procs_ok P" "event_at e" "stack_ok P (saved_sp m x) 68"
        using sched_repD(1) [of m P Q] by (simp_all add: event_queue_def)
      have "in_range u m3 y = in_range u m y" if "y \<in> set (as @ bs)" for u y
        using serves_desc(2) [OF st(1) P(2,1,3), of y] that d(2) xs(1) by auto
      then have pl: "wake_plan (\<lambda>v x. in_range v m3 x) (sint inc) wakeAll k v' (as @ bs) = wake_plan ?fits (sint inc) wakeAll k v' (as @ bs)"
        by (rule wake_plan_cong)
      obtain w u ys where wu: "wake_plan ?fits (sint inc) wakeAll k v' (as @ bs) = (w, u, ys)" by (rule prod_cases3)
      have "wake_plan ?fits (sint inc) wakeAll n v xs = ((x, v) # w, u, ys)"
        using plan_more [of ?fits v xs x wakeAll "sint inc" k] Some wu k xs(4) by (simp add: v'_def)
      moreover have "event_wake_loop e inc wakeAll m v rounds = Some m'" using lp m'(1) k 1(3) by simp
      ultimately show ?thesis using res [OF m'(2) [unfolded pl wu]] xs(1) by simp
    qed
  qed
qed

section \<open>Properties\<close>

text \<open>Storing the value keeps the rest.\<close>

lemma event_ok_value:
  assumes "event_ok P Q e xs m" shows "event_ok P Q e xs (Q9K_SetU32 m (e + 14) v)"
    and "\<And>x i. x \<in> P \<Longrightarrow> i \<in> {0x08, 0x1D0, 0x1D4} \<Longrightarrow> Q9K_GetU32 (Q9K_SetU32 m (e + 14) v) (x + i) = Q9K_GetU32 m (x + i)"
proof -
  let ?m = "Q9K_SetU32 m (e + 14) v"
  have r: "sched_rep m P Q" and q: "event_queue P e m xs" using assms by (auto simp: event_ok_def)
  have P: "procs_ok P" and e: "event_at e" and xs: "set xs \<subseteq> P"
    using sched_repD(1) [OF r] q wait_listD(3) [of P "e + 24" "e + 28" m xs] by (auto simp: event_queue_def)
  show fld: "Q9K_GetU32 ?m (x + i) = Q9K_GetU32 m (x + i)" if "x \<in> P" "i \<in> {0x08, 0x1D0, 0x1D4}" for x i
    using that event_desc(1) [OF e, of 14 4 x i 4] procs_okD [OF P] by auto
  have "state_of ?m x = state_of m x" if "x \<in> P" for x
    using that event_desc(1) [OF e, of 14 4 x "0x1D" 1] procs_okD [OF P] by auto
  then have pid: "Q9K_ProcIdForDesc ?m x = Q9K_ProcIdForDesc m x" if "x \<in> P" for x
    using that event_apart(1) [OF e, of 14 4] by (intro pid_frame) simp_all
  have "wait_list P (e + 24) (e + 28) ?m xs = wait_list P (e + 24) (e + 28) m xs"
    using event_desc(1) [OF e, of 14 4 _ "0x30" 4] procs_okD [OF P] xs by (intro wait_list_cong) auto
  then have q': "event_queue P e ?m xs" using q by (simp add: event_queue_def)
  have r': "sched_rep ?m P Q" using r by (simp add: off_links_rep [OF event_off_links [OF P e]])
  have sp: "saved_sp ?m x = saved_sp m x" "Q9K_ProcIdForDesc ?m x = Q9K_ProcIdForDesc m x" if "x \<in> set xs" for x
    using fld [of x 8] pid [of x] xs that by auto
  show "event_ok P Q e xs ?m" using assms r' q' sp unfolding event_ok_def by simp
qed

text \<open>C20: signalling an event always returns; it serves exactly the waiters the plan names, in
  that order: they leave the queue and join the end of the ready queue, each with the value it was served
  at in register d1 of its saved frame; the event keeps the plan's final value and the other waiters.\<close>

theorem event_signal_spec:
  assumes ok: "event_ok P Q (Q9K_EVENT_SLOT slot) xs m" and f: "Q9K_EventFindById m evId = Some slot"
    and v: "v = Q9K_EventAddSaturating (Q9K_GetU32 m (Q9K_EVENT_SLOT slot + Q9K_EVENT_OFF_VALUE))
               (sint (Q9K_GetU16 m (Q9K_EVENT_SLOT slot + Q9K_EVENT_OFF_INCS)))"
    and plan: "wake_plan (\<lambda>v x. in_range v m x) (sint (Q9K_GetU16 m (Q9K_EVENT_SLOT slot + Q9K_EVENT_OFF_INCW))) wakeAll 64 v xs = (w, u, ys)"
  shows "\<exists>m'. Q9K_EventSignal m evId wakeAll = Some (Inr (Q9K_GetU32 m (Q9K_EVENT_SLOT slot + Q9K_EVENT_OFF_VALUE), m')) \<and>
    event_ok P (Q(Q9K_READYQ_SENTINEL_ADDR := Q Q9K_READYQ_SENTINEL_ADDR @ map fst w)) (Q9K_EVENT_SLOT slot) ys m' \<and>
    Q9K_GetU32 m' (Q9K_EVENT_SLOT slot + Q9K_EVENT_OFF_VALUE) = u \<and>
    (\<forall>(x, d1)\<in>set w. Q9K_GetFrameReg m' (saved_sp m x) Q9K_FRAMEREG_D1 = d1)"
proof -
  define e where "e = Q9K_EVENT_SLOT slot"
  define m1 where "m1 = Q9K_SetU32 m (e + 14) v"
  have ok1: "event_ok P Q e xs m1" unfolding m1_def e_def by (rule event_ok_value(1) [OF ok])
  have e: "event_at e" and xs: "set xs \<subseteq> P"
    using ok wait_listD(3) [of P "e + 24" "e + 28" m xs] by (auto simp: event_ok_def event_queue_def e_def)
  have fld: "Q9K_GetU32 m1 (x + i) = Q9K_GetU32 m (x + i)" if "x \<in> P" "i \<in> {0x08, 0x1D0, 0x1D4}" for x i
    unfolding m1_def e_def by (rule event_ok_value(2) [OF ok that])
  have inc: "Q9K_GetU16 m1 (e + 18) = Q9K_GetU16 m (e + 18)" by (simp add: m1_def)
  have "in_range u m1 x = in_range u m x" if "x \<in> set xs" for u x using fld [of x] xs that by auto
  then have pl: "wake_plan (\<lambda>v x. in_range v m1 x) (sint (Q9K_GetU16 m1 (e + 18))) wakeAll 64 v xs = (w, u, ys)"
    using plan wake_plan_cong [of xs "\<lambda>v x. in_range v m1 x" "\<lambda>v x. in_range v m x"] inc by (simp add: e_def)
  obtain m' where m': "event_wake_loop e (Q9K_GetU16 m1 (e + 18)) wakeAll m1 v 0 = Some m'" "wake_result P Q e xs m1 v (w, u, ys) m'"
    using wake_loop [OF ok1, of 0 64 "Q9K_GetU16 m1 (e + 18)" wakeAll v] pl by auto
  have "Q9K_EventSignal m evId wakeAll = Some (Inr (Q9K_GetU32 m (e + 14), m'))"
    using f m'(1) unfolding Q9K_EventSignal_def Q9K_EventSignalCommon_def by (simp add: e_def v m1_def Let_def)
  moreover have "Q9K_GetU32 m' (e + 14) = u" using m'(2) by (auto simp: wake_result_def m1_def split: if_splits)
  moreover have "\<forall>(x, d1)\<in>set w. Q9K_GetFrameReg m' (saved_sp m x) 1 = d1"
    using m'(2) fld [of _ 8] xs by (fastforce simp: wake_result_def GetFrameReg_eq)
  ultimately show ?thesis using m'(2) unfolding wake_result_def e_def by auto
qed

text \<open>A pulse on an existing event returns its value and leaves the whole memory as it
  was, whatever processes wait and whatever value is pulsed: nobody is woken.\<close>

theorem event_pulse_no_wake:
  assumes "Q9K_EventFindById m evId = Some slot"
  shows "Q9K_EventPulse m evId pulseValue wakeAll = Some (Inr (Q9K_GetU32 m (Q9K_EVENT_SLOT slot + Q9K_EVENT_OFF_VALUE), m))"
  using assms c32.put_get [of m "Q9K_EVENT_SLOT slot + Q9K_EVENT_OFF_VALUE"]
  by (simp add: Q9K_EventPulse_def Q9K_EventSignalCommon_def Let_def)

text \<open>Event identifiers carry the slot and a serial number; one is accepted exactly when its
  slot is in the table and holds a live event with that serial number, so the identifier of a deleted or
  replaced event is refused.\<close>

theorem event_id_spec:
  "Q9K_EventFindById m evId = Some slot \<longleftrightarrow>
     slot = evId AND 0xFFFF \<and> slot < 16 \<and> Q9K_GetU16 m (Q9K_EVENT_SLOT slot) \<noteq> 0 \<and>
     Q9K_GetU16 m (Q9K_EVENT_SLOT slot) = ucast (drop_bit 16 evId)"
proof -
  have "(ucast (drop_bit 16 evId AND 0xFFFF) :: u16) = ucast (drop_bit 16 evId)"
  proof -
    have m: "(0xFFFF :: u32) = mask 16" by (simp add: mask_eq_exp_minus_1)
    show ?thesis unfolding m by (rule bit_word_eqI) (auto simp: bit_simps)
  qed
  then show ?thesis by (auto simp: Q9K_EventFindById_def Q9K_EventSlotFree_def Let_def not_le)
qed

section \<open>Example\<close>

text \<open>Event 0 of the table with value 0, signal increment 1 and wait increment -1; the running process of the
  example waits for a value between 1 and 5.\<close>

definition ex_event0 :: memory where
  "ex_event0 = Q9K_SetU32 (Q9K_SetU32 (Q9K_SetU16 (Q9K_SetU16 (Q9K_SetU16 ex_mem 0x1C10 7) 0x1C22 (- 1)) 0x1C24 1)
     (ex_running + Q9K_PROCDESC_EVMIN_OFF) 1) (ex_running + Q9K_PROCDESC_EVMAX_OFF) 5"

definition ex_event :: memory where
  "ex_event = Q9K_EventEnqueue ex_event0 0x1C10 ex_running"

lemma ex_event_cells:
  "Q9K_GetU16 ex_event 0x1C10 = 7" "Q9K_GetU16 ex_event 0x1C22 = - 1" "Q9K_GetU16 ex_event 0x1C24 = 1" "Q9K_GetU32 ex_event 0x1C1E = 0"
  "Q9K_GetU32 ex_event 0x109D0 = 1" "Q9K_GetU32 ex_event 0x109D4 = 5" "Q9K_GetU32 ex_event 0x10808 = 0x22000"
  "Q9K_ProcIdForDesc ex_event ex_running \<noteq> 0"
proof -
  have z: "Q9K_GetU32 ex_mem 0x1C1E = 0" "Q9K_GetU32 ex_mem 0x1C2C = 0"
    by (simp_all add: ex_mem_def ex_base_def Q9K_SchedInsert_def Q9K_SleepQInsert_def Q9K_ListAppend_def Let_def)
  note d = ex_event_def ex_event0_def event_enqueue_eq wait_append_def Let_def
  show "Q9K_GetU16 ex_event 0x1C10 = 7" "Q9K_GetU16 ex_event 0x1C22 = - 1" "Q9K_GetU16 ex_event 0x1C24 = 1" "Q9K_GetU32 ex_event 0x1C1E = 0"
    "Q9K_GetU32 ex_event 0x109D0 = 1" "Q9K_GetU32 ex_event 0x109D4 = 5" "Q9K_GetU32 ex_event 0x10808 = 0x22000"
    using z by (simp_all add: d)
  have "Q9K_GetU32 ex_event 0x1204 = ex_ready" "Q9K_GetU32 ex_event 0x1220 = 3" "Q9K_GetU8 ex_event 0x1081D = Q9K_PROCDESC_STATE_ACTIVE"
    using z by (simp_all add: d)
  then show "Q9K_ProcIdForDesc ex_event ex_running \<noteq> 0"
    by (simp add: Q9K_ProcIdForDesc_def Q9K_ProcIsAllocated_def drop_bit_eq_div Let_def)
qed

lemma ex_event_ok: "event_ok ex_procs ex_queues 0x1C10 [ex_running] ex_event"
proof -
  have run: "ex_running \<in> ex_procs" "ex_running \<notin> queued ex_queues"
    by (simp_all add: ex_procs_def ex_queues_def queued_def sentinels_def)
  have e: "event_at 0x1C10" by (simp add: event_at_def)
  have z: "Q9K_GetU32 ex_mem 0x1C28 = 0" "Q9K_GetU32 ex_mem 0x1C2C = 0"
    by (simp_all add: ex_mem_def ex_base_def Q9K_SchedInsert_def Q9K_SleepQInsert_def Q9K_ListAppend_def Let_def)
  then have q0: "event_queue ex_procs 0x1C10 ex_event0 []"
    using event_wait_cells [OF ex_procs_ok e] e by (simp add: event_queue_def wait_list_def ex_event0_def)
  have q: "event_queue ex_procs 0x1C10 ex_event [ex_running]"
    using evq.enq_queue [OF q0 run(1)] by (simp add: ex_event_def)
  have "sched_rep ex_event0 ex_procs ex_queues"
    using ex_rep sched_rep_field(3) [OF ex_procs_ok run(1), of "0x1D0"] sched_rep_field(3) [OF ex_procs_ok run(1), of "0x1D4"]
    by (simp add: ex_event0_def sched_rep_global [OF ex_procs_ok])
  then have "sched_rep ex_event0 (ex_procs - {ex_running}) ex_queues"
    by (rule sched_rep_sub) (auto simp: ex_procs_def ex_queues_def queued_def sentinels_def)
  moreover have "sched_rep ex_event (ex_procs - {ex_running}) ex_queues = sched_rep ex_event0 (ex_procs - {ex_running}) ex_queues"
    using wait_link_rep [OF ex_procs_ok, of "ex_procs - {ex_running}" ex_running] run(1) z
      sched_rep_global(3) [of "ex_procs - {ex_running}" "0x1C28"] sched_rep_global(3) [of "ex_procs - {ex_running}" "0x1C2C"] ex_procs_ok
    by (simp add: ex_event_def event_enqueue_eq wait_append_def ex_event0_def procs_ok_def Let_def)
  ultimately have "sched_rep ex_event ex_procs ex_queues" using sched_rep_super [OF _ _ ex_procs_ok] by blast
  moreover have "stack_ok ex_procs 0x22000 68" by (auto simp: stack_ok_def ex_procs_def)
  ultimately show ?thesis using q run(2) ex_event_cells(7,8) by (simp add: event_ok_def)
qed

lemma ex_event_find: "Q9K_EventFindById ex_event 0x70000 = Some 0"
  using ex_event_cells(1) by (simp add: Q9K_EventFindById_def Q9K_EventSlotFree_def drop_bit_eq_div Let_def)

lemma event_signal_spec_witness:
  "\<exists>m'. Q9K_EventSignal ex_event 0x70000 True = Some (Inr (0, m')) \<and>
     event_ok ex_procs (ex_queues(Q9K_READYQ_SENTINEL_ADDR := [ex_ready, ex_running])) 0x1C10 [] m' \<and>
     Q9K_GetU32 m' 0x1C1E = 0 \<and> Q9K_GetFrameReg m' 0x22000 Q9K_FRAMEREG_D1 = 1"
proof -
  have a: "Q9K_EventAddSaturating 0 1 = 1" "Q9K_EventAddSaturating 1 (- 1) = 0" "in_range 1 ex_event ex_running"
    using ex_event_cells by (simp_all add: Q9K_EventAddSaturating_def Q9K_EventValueInRange_def signed_of_bits_sint long32_def)
  have "wake_plan (\<lambda>v x. in_range v ex_event x) (- 1) True 64 1 [ex_running] = ([(ex_running, 1)], 0, [])"
    using plan_more [of "\<lambda>v x. in_range v ex_event x" 1 "[ex_running]" ex_running True "- 1" 63] a
      plan_none [of "\<lambda>v x. in_range v ex_event x" 0 "[]" "- 1" True 63] by simp
  then show ?thesis
    using event_signal_spec [of ex_procs ex_queues 0 "[ex_running]" ex_event "0x70000" 1 True] ex_event_ok ex_event_find ex_event_cells a
    by (simp add: ex_queues_def)
qed

lemma event_pulse_no_wake_witness: "Q9K_EventPulse ex_event 0x70000 3 True = Some (Inr (0, ex_event))"
  using event_pulse_no_wake [OF ex_event_find, of 3 True] ex_event_cells by simp

end
