(* ===== verification/Q9_Arena.thy ===== *)
theory Q9_Arena
  imports Q9_Memory
begin

text \<open>
  The free-list allocator of \<^verbatim>\<open>q9kernel_arena.c\<close> in its standard configuration: a singly linked list
  of free blocks whose first two longwords hold the next block and the size, first-fit
  allocation in units of 16 bytes, allocation of the largest block, and release to the front.
  The interrupt lock around each function makes its body atomic and leaves the memory alone; the
  memory trace is compiled out.
\<close>

abbreviation Q9K_ARENA_HEAD :: u32 where "Q9K_ARENA_HEAD \<equiv> 0x404"
abbreviation Q9K_ARENA_TAIL :: u32 where "Q9K_ARENA_TAIL \<equiv> 0x408"
abbreviation Q9K_MIN_SPLIT_REMAINDER :: u32 where "Q9K_MIN_SPLIT_REMAINDER \<equiv> 16"

section \<open>Operations\<close>

definition Q9K_RoundUp16 :: "u32 \<Rightarrow> u32" where
  "Q9K_RoundUp16 n = (n + 15) AND NOT 15"

definition Q9K_ArenaInit :: "memory \<Rightarrow> u32 \<Rightarrow> u32 \<Rightarrow> memory" where
  "Q9K_ArenaInit m freeBase freeSize =
     (if freeSize < Q9K_MIN_SPLIT_REMAINDER then m
      else
        let m1 = Q9K_SetU32 m freeBase 0;
            m2 = Q9K_SetU32 m1 (freeBase + 4) freeSize;
            m3 = Q9K_SetU32 m2 Q9K_ARENA_HEAD freeBase
        in Q9K_SetU32 m3 Q9K_ARENA_TAIL freeBase)"

text \<open>Takes the block at \<open>cur\<close> out of the list, leaving its rest behind when that is large enough.\<close>

definition arena_take :: "memory \<Rightarrow> u32 \<Rightarrow> u32 \<Rightarrow> u32 \<Rightarrow> memory" where
  "arena_take m needed prevAddr curAddr =
     (let curSize = Q9K_GetU32 m (curAddr + 4);
          curNext = Q9K_GetU32 m curAddr;
          remainder = curSize - needed
      in if remainder \<ge> Q9K_MIN_SPLIT_REMAINDER then
           let newFreeAddr = curAddr + needed;
               m1 = Q9K_SetU32 m newFreeAddr curNext;
               m2 = Q9K_SetU32 m1 (newFreeAddr + 4) remainder;
               m3 = (if prevAddr = 0 then Q9K_SetU32 m2 Q9K_ARENA_HEAD newFreeAddr
                     else Q9K_SetU32 m2 prevAddr newFreeAddr)
           in if curNext = 0 then Q9K_SetU32 m3 Q9K_ARENA_TAIL newFreeAddr else m3
         else
           let m1 = (if prevAddr = 0 then Q9K_SetU32 m Q9K_ARENA_HEAD curNext
                     else Q9K_SetU32 m prevAddr curNext)
           in if curNext = 0 then Q9K_SetU32 m1 Q9K_ARENA_TAIL prevAddr else m1)"

partial_function (option) Q9K_AllocMem_loop ::
  "memory \<Rightarrow> u32 \<Rightarrow> u32 \<Rightarrow> u32 \<Rightarrow> (u32 \<times> memory) option" where
  "Q9K_AllocMem_loop m needed prevAddr curAddr =
     (if curAddr = 0 then Some (0, m)
      else if Q9K_GetU32 m (curAddr + 4) \<ge> needed then Some (curAddr, arena_take m needed prevAddr curAddr)
      else Q9K_AllocMem_loop m needed curAddr (Q9K_GetU32 m curAddr))"

definition Q9K_AllocMem :: "memory \<Rightarrow> u32 \<Rightarrow> (u32 \<times> memory) option" where
  "Q9K_AllocMem m requestedSize =
     Q9K_AllocMem_loop m (Q9K_RoundUp16 requestedSize) 0 (Q9K_GetU32 m Q9K_ARENA_HEAD)"

record best_block =
  bestAddr :: u32
  bestSize :: u32
  bestPrev :: u32
  bestNext :: u32

partial_function (option) Q9K_AllocLargest_loop ::
  "memory \<Rightarrow> best_block \<Rightarrow> u32 \<Rightarrow> u32 \<Rightarrow> best_block option" where
  "Q9K_AllocLargest_loop m best prevAddr curAddr =
     (if curAddr = 0 then Some best
      else
        let curSize = Q9K_GetU32 m (curAddr + 4);
            curNext = Q9K_GetU32 m curAddr;
            best' = (if curSize > bestSize best
                     then \<lparr>bestAddr = curAddr, bestSize = curSize, bestPrev = prevAddr, bestNext = curNext\<rparr>
                     else best)
        in Q9K_AllocLargest_loop m best' curAddr curNext)"

definition Q9K_AllocLargest :: "memory \<Rightarrow> (u32 \<times> u32 \<times> memory) option" where
  "Q9K_AllocLargest m = do {
     best \<leftarrow> Q9K_AllocLargest_loop m \<lparr>bestAddr = 0, bestSize = 0, bestPrev = 0, bestNext = 0\<rparr> 0
              (Q9K_GetU32 m Q9K_ARENA_HEAD);
     let m' = (if bestAddr best \<noteq> 0 then
                 let m1 = (if bestPrev best = 0 then Q9K_SetU32 m Q9K_ARENA_HEAD (bestNext best)
                           else Q9K_SetU32 m (bestPrev best) (bestNext best))
                 in if bestNext best = 0 then Q9K_SetU32 m1 Q9K_ARENA_TAIL (bestPrev best) else m1
               else m);
     Some (bestAddr best, bestSize best, m')
   }"

definition Q9K_FreeMem :: "memory \<Rightarrow> u32 \<Rightarrow> u32 \<Rightarrow> memory" where
  "Q9K_FreeMem m addr size0 =
     (let size' = Q9K_RoundUp16 size0 in
      if size' < Q9K_MIN_SPLIT_REMAINDER then m
      else
        let oldHead = Q9K_GetU32 m Q9K_ARENA_HEAD;
            m1 = Q9K_SetU32 m addr oldHead;
            m2 = Q9K_SetU32 m1 (addr + 4) size';
            m3 = Q9K_SetU32 m2 Q9K_ARENA_HEAD addr
        in if oldHead = 0 then Q9K_SetU32 m3 Q9K_ARENA_TAIL addr else m3)"

end
