(* ===== verification/Q9_SysMem.thy ===== *)
theory Q9_SysMem
  imports Q9_Arena Q9_ProcApi
begin

text \<open>
  F$SRqMem, F$SRtMem and F$Trans of \<^verbatim>\<open>q9kernel_sysmem.c\<close> with the table that records which process
  owns which block (32 entries: owner, address, size), and F$Mem of \<^verbatim>\<open>q9kernel_mem.c\<close>.
\<close>

abbreviation Q9K_MEMOWNER_BASE :: u32 where "Q9K_MEMOWNER_BASE \<equiv> 0x1710"
abbreviation Q9K_MEMOWNER_STRIDE :: u32 where "Q9K_MEMOWNER_STRIDE \<equiv> 12"
abbreviation Q9K_MEMOWNER_MAGIC :: u32 where "Q9K_MEMOWNER_MAGIC \<equiv> 0x1890"
abbreviation Q9K_MEMOWNER_OWNER :: "u32 \<Rightarrow> u32" where
  "Q9K_MEMOWNER_OWNER i \<equiv> Q9K_MEMOWNER_BASE + i * Q9K_MEMOWNER_STRIDE"
abbreviation Q9K_MEMOWNER_ADDR :: "u32 \<Rightarrow> u32" where "Q9K_MEMOWNER_ADDR i \<equiv> Q9K_MEMOWNER_OWNER i + 4"
abbreviation Q9K_MEMOWNER_SIZE :: "u32 \<Rightarrow> u32" where "Q9K_MEMOWNER_SIZE i \<equiv> Q9K_MEMOWNER_OWNER i + 8"
abbreviation memowner_magic :: u32 where "memowner_magic \<equiv> 0x514D454D"

text \<open>The indices of \<^verbatim>\<open>for (i = 0; i < Q9K_MEMOWNER_SLOTS; ++i)\<close>.\<close>

definition memowner_slots :: "u32 list" where
  "memowner_slots = map of_nat [0..<32]"

section \<open>The owner table\<close>

definition memowner_put :: "memory \<Rightarrow> u32 \<Rightarrow> u32 \<Rightarrow> u32 \<Rightarrow> u32 \<Rightarrow> memory" where
  "memowner_put m i owner addr size' =
     (let m1 = Q9K_SetU32 m (Q9K_MEMOWNER_OWNER i) owner;
          m2 = Q9K_SetU32 m1 (Q9K_MEMOWNER_ADDR i) addr
      in Q9K_SetU32 m2 (Q9K_MEMOWNER_SIZE i) size')"

definition Q9K_ProcMemTrackInit :: "memory \<Rightarrow> memory" where
  "Q9K_ProcMemTrackInit m =
     Q9K_SetU32 (fold (\<lambda>i m. memowner_put m i 0 0 0) memowner_slots m) Q9K_MEMOWNER_MAGIC memowner_magic"

definition Q9K_ProcMemTrackEnsure :: "memory \<Rightarrow> memory" where
  "Q9K_ProcMemTrackEnsure m =
     (if Q9K_GetU32 m Q9K_MEMOWNER_MAGIC \<noteq> memowner_magic then Q9K_ProcMemTrackInit m else m)"

definition Q9K_ProcMemTrackAdd :: "memory \<Rightarrow> u32 \<Rightarrow> u32 \<Rightarrow> u32 \<Rightarrow> memory" where
  "Q9K_ProcMemTrackAdd m owner addr size' =
     (if owner = 0 \<or> addr = 0 \<or> size' = 0 then m
      else case List.find (\<lambda>i. Q9K_GetU32 m (Q9K_MEMOWNER_OWNER i) = 0) memowner_slots of
        None \<Rightarrow> m
      | Some i \<Rightarrow> memowner_put m i owner addr size')"

definition Q9K_ProcMemTrackRemove :: "memory \<Rightarrow> u32 \<Rightarrow> u32 \<Rightarrow> memory" where
  "Q9K_ProcMemTrackRemove m addr size' =
     (case List.find (\<lambda>i. Q9K_GetU32 m (Q9K_MEMOWNER_ADDR i) = addr \<and>
             Q9K_GetU32 m (Q9K_MEMOWNER_SIZE i) = size') memowner_slots of
        None \<Rightarrow> m
      | Some i \<Rightarrow> memowner_put m i 0 0 0)"

definition Q9K_ProcMemRelease_slot :: "u32 \<Rightarrow> u32 \<Rightarrow> memory \<Rightarrow> memory" where
  "Q9K_ProcMemRelease_slot owner i m =
     (if Q9K_GetU32 m (Q9K_MEMOWNER_OWNER i) \<noteq> owner then m
      else
        let addr = Q9K_GetU32 m (Q9K_MEMOWNER_ADDR i);
            size' = Q9K_GetU32 m (Q9K_MEMOWNER_SIZE i);
            m1 = memowner_put m i 0 0 0
        in if addr \<noteq> 0 \<and> size' \<noteq> 0 then Q9K_FreeMem m1 addr size' else m1)"

definition Q9K_ProcMemReleaseAll :: "memory \<Rightarrow> u32 \<Rightarrow> memory" where
  "Q9K_ProcMemReleaseAll m owner =
     (if owner = 0 then m
      else fold (Q9K_ProcMemRelease_slot owner) memowner_slots (Q9K_ProcMemTrackEnsure m))"

section \<open>F$SRqMem and F$SRtMem\<close>

text \<open>Success is \<^term>\<open>Inr (addr, size, m)\<close>; a failed request may still have initialised the owner
  table, so failure carries the memory as well.\<close>

definition Q9K_ProcSRqMem :: "memory \<Rightarrow> u32 \<Rightarrow> ((u16 \<times> memory) + (u32 \<times> u32 \<times> memory)) option" where
  "Q9K_ProcSRqMem m0 requestedSize = do {
     let m = Q9K_ProcMemTrackEnsure m0;
     (if requestedSize = 0xFFFFFFFF then do {
        (addr, size', m1) \<leftarrow> Q9K_AllocLargest m;
        Some (if addr = 0 then Inl (Q9K_E_NORAM, m1)
              else Inr (addr, size', Q9K_ProcMemTrackAdd m1 (Q9K_GetU32 m1 Q9_D_PROC) addr size'))
      } else do {
        (addr, m1) \<leftarrow> Q9K_AllocMem m requestedSize;
        let size' = Q9K_RoundUp16 requestedSize;
        Some (if addr = 0 then Inl (Q9K_E_MEMFUL, m1)
              else Inr (addr, size', Q9K_ProcMemTrackAdd m1 (Q9K_GetU32 m1 Q9_D_PROC) addr size'))
      })
   }"

definition Q9K_ProcSRtMem :: "memory \<Rightarrow> u32 \<Rightarrow> u32 \<Rightarrow> memory" where
  "Q9K_ProcSRtMem m addr size0 =
     (let roundedSize = Q9K_RoundUp16 size0 in
      if addr = 0 \<and> size0 = 0 then Q9K_ProcMemReleaseAll m (Q9K_GetU32 m Q9_D_PROC)
      else Q9K_FreeMem (Q9K_ProcMemTrackRemove m addr roundedSize) addr roundedSize)"

definition Q9K_SysSRqMemImpl :: "memory \<Rightarrow> memory option" where
  "Q9K_SysSRqMemImpl m = do {
     r \<leftarrow> Q9K_ProcSRqMem m (Q9K_GetU32 m 0x1330);
     Some (case r of
       Inr (addr, size', m1) \<Rightarrow> Q9K_SetU16 (Q9K_SetU32 (Q9K_SetU32 m1 0x1334 addr) 0x1338 size') 0x1340 1
     | Inl (err, m1) \<Rightarrow> Q9K_SetU16 (Q9K_SetU16 m1 0x133C err) 0x1340 0)
   }"

definition Q9K_SysSRtMemImpl :: "memory \<Rightarrow> memory" where
  "Q9K_SysSRtMemImpl m = Q9K_ProcSRtMem m (Q9K_GetU32 m 0x1344) (Q9K_GetU32 m 0x1348)"

section \<open>F$Trans and F$Mem\<close>

definition Q9K_ProcTrans :: "u32 \<Rightarrow> u32 \<Rightarrow> u32 \<Rightarrow> u16 + u32 \<times> u32" where
  "Q9K_ProcTrans mode ioSize ioAddr = (if mode > 1 then Inl 0xD2 else Inr (ioSize, ioAddr))"

definition Q9K_SysTransImpl :: "memory \<Rightarrow> memory" where
  "Q9K_SysTransImpl m =
     (case Q9K_ProcTrans (Q9K_GetU32 m 0x19AC) (Q9K_GetU32 m 0x19A8) (Q9K_GetU32 m 0x19B0) of
        Inr (size', addr) \<Rightarrow> Q9K_SetU32 (Q9K_SetU32 (Q9K_SetU32 m 0x19A8 size') 0x19B0 addr) 0x19AC 1
      | Inl err \<Rightarrow> Q9K_SetU32 (Q9K_SetU32 m 0x19A8 (ucast err)) 0x19AC 0)"

definition Q9K_ProcMem :: "memory \<Rightarrow> u32 \<Rightarrow> u32 \<Rightarrow> u32 + u32 \<times> u32" where
  "Q9K_ProcMem m desc requested =
     (if desc = 0 then Inl 0xE0
      else if requested \<noteq> 0 then Inl 0xED
      else
        let base = Q9K_GetU32 m (desc + Q9K_PROCDESC_ALLOCBASE_OFF);
            size' = Q9K_GetU32 m (desc + Q9K_PROCDESC_ALLOCSIZE_OFF)
        in Inr (size', base + size'))"

definition Q9K_SysFMemImpl :: "memory \<Rightarrow> memory" where
  "Q9K_SysFMemImpl m =
     (let r = Q9K_ProcMem m (Q9K_GetU32 m Q9_D_PROC) (Q9K_GetU32 m 0x1E74);
          (size', upper, err, ok) = (case r of Inr (s, u) \<Rightarrow> (s, u, 0, 1) | Inl e \<Rightarrow> (0, 0, e, 0))
      in Q9K_SetU32 (Q9K_SetU32 (Q9K_SetU32 (Q9K_SetU32 m 0x1E78 size') 0x1E7C upper) 0x1E80 err) 0x1E84 ok)"

end
