(* ===== verification/Q9_Arena_Props.thy ===== *)
theory Q9_Arena_Props
  imports Q9_Arena
begin

text \<open>
  The arena as a set of free bytes: the free list is a chain of disjoint blocks above the kernel
  globals, and the operations act on the bytes it covers.  The interface is a locale that the
  system memory calls rely on.
\<close>

section \<open>Rounding\<close>

lemma and_not_15: "x AND NOT 15 = push_bit 4 (drop_bit 4 x)" for x :: u32
proof -
  have m: "(15 :: u32) = mask 4" by (simp add: mask_eq_exp_minus_1)
  show ?thesis unfolding m by (rule bit_word_eqI) (auto simp: bit_simps)
qed

lemma round_up_div: "unat n \<le> 0xFFFFFFF0 \<Longrightarrow> unat (Q9K_RoundUp16 n) = (unat n + 15) div 16 * 16"
proof -
  assume n: "unat n \<le> 0xFFFFFFF0"
  have "unat (n + 15) = unat n + 15" using n unat_offset [of n 15] by simp
  have "unat (Q9K_RoundUp16 n) = unat (push_bit 4 (drop_bit 4 (n + 15)))" unfolding Q9K_RoundUp16_def and_not_15 by simp
  also have "\<dots> = (unat n + 15) div 16 * 16"
  proof -
    have d: "unat (drop_bit 4 (n + 15)) = (unat n + 15) div 16"
      using \<open>unat (n + 15) = unat n + 15\<close> by (simp add: unat_drop_bit_eq drop_bit_eq_div unat_div)
    have "(unat n + 15) div 16 * 16 < 2 ^ 32" using n by simp
    then show ?thesis using d unat_mult_lem [of "drop_bit 4 (n + 15)" 16] by (simp add: push_bit_eq_mult mult.commute)
  qed
  finally show ?thesis .
qed

section \<open>The free list\<close>

type_synonym block = "u32 \<times> u32"

definition rng :: "block \<Rightarrow> nat set" where
  "rng b = {unat (fst b) ..< unat (fst b) + unat (snd b)}"

definition covered :: "block list \<Rightarrow> nat set" where
  "covered xs = (\<Union>b\<in>set xs. rng b)"

definition block_ok :: "block \<Rightarrow> bool" where
  "block_ok b \<longleftrightarrow> 0x8000 \<le> unat (fst b) \<and> 16 \<le> unat (snd b) \<and> 16 dvd unat (snd b) \<and>
     unat (fst b) + unat (snd b) \<le> 2 ^ 32"

definition blocks_ok :: "block list \<Rightarrow> bool" where
  "blocks_ok xs \<longleftrightarrow> (\<forall>b\<in>set xs. block_ok b) \<and> sorted_wrt (\<lambda>b c. rng b \<inter> rng c = {}) xs"

text \<open>\<open>lseg m p xs q\<close>: following the links from \<open>p\<close> through the blocks \<open>xs\<close> leads to \<open>q\<close>.\<close>

fun lseg :: "memory \<Rightarrow> u32 \<Rightarrow> block list \<Rightarrow> u32 \<Rightarrow> bool" where
  "lseg m p [] q \<longleftrightarrow> p = q"
| "lseg m p (b # xs) q \<longleftrightarrow> p = fst b \<and> Q9K_GetU32 m (p + 4) = snd b \<and> lseg m (Q9K_GetU32 m p) xs q"

definition arena :: "memory \<Rightarrow> block list \<Rightarrow> bool" where
  "arena m xs \<longleftrightarrow> lseg m (Q9K_GetU32 m Q9K_ARENA_HEAD) xs 0 \<and> blocks_ok xs \<and>
     Q9K_GetU32 m Q9K_ARENA_TAIL = (if xs = [] then 0 else fst (last xs))"

lemma lseg_append: "lseg m p (xs @ ys) q \<longleftrightarrow> (\<exists>r. lseg m p xs r \<and> lseg m r ys q)"
  by (induction xs arbitrary: p) auto

lemma block_okD:
  assumes "block_ok b" shows "0x8000 \<le> unat (fst b)" "16 \<le> unat (snd b)" "unat (fst b) + unat (snd b) \<le> 2 ^ 32" "fst b \<noteq> 0"
    "unat (fst b + 4) = unat (fst b) + 4"
proof -
  show "0x8000 \<le> unat (fst b)" "16 \<le> unat (snd b)" "unat (fst b) + unat (snd b) \<le> 2 ^ 32" using assms by (auto simp: block_ok_def)
  then show "fst b \<noteq> 0" "unat (fst b + 4) = unat (fst b) + 4" using unat_offset [of "fst b" 4] by auto
qed

text \<open>The header of a block: its first eight bytes.\<close>

lemma header_apart:
  assumes b: "block_ok b" and c: "unat c + 4 \<le> 2 ^ 32" "rng b \<inter> {unat c ..< unat c + 4} = {}"
  shows "apart c 4 (fst b) 4" "apart c 4 (fst b + 4) 4" "apart (fst b) 4 c 4" "apart (fst b + 4) 4 c 4"
proof -
  note bd = block_okD [OF b]
  have r: "{unat (fst b) ..< unat (fst b) + 4} \<subseteq> rng b" "{unat (fst b) + 4 ..< unat (fst b) + 8} \<subseteq> rng b"
    using bd(2) by (auto simp: rng_def)
  have i: "{unat (fst b) ..< unat (fst b) + 4} \<inter> {unat c ..< unat c + 4} = {}"
    "{unat (fst b) + 4 ..< unat (fst b) + 8} \<inter> {unat c ..< unat c + 4} = {}" using r c(2) by blast+
  show 1: "apart (fst b) 4 c 4" by (rule apart_ranges) (use bd(2,3) c(1) i(1) in simp_all)
  show 2: "apart (fst b + 4) 4 c 4" by (rule apart_ranges) (use bd(2,3,5) c(1) i(2) in simp_all)
  show "apart c 4 (fst b) 4" "apart c 4 (fst b + 4) 4" using 1 2 apart_sym by blast+
qed

lemma lseg_write:
  assumes "\<forall>b\<in>set xs. block_ok b \<and> rng b \<inter> {unat c ..< unat c + 4} = {}" "unat c + 4 \<le> 2 ^ 32"
  shows "lseg (Q9K_SetU32 m c v) p xs q \<longleftrightarrow> lseg m p xs q"
  using assms(1)
proof (induction xs arbitrary: p)
  case (Cons b xs)
  then show ?case using header_apart [of b c] assms(2) by auto
qed simp

lemma blocks_ok_append:
  "blocks_ok (xs @ ys) \<longleftrightarrow> blocks_ok xs \<and> blocks_ok ys \<and> (\<forall>b\<in>set xs. \<forall>c\<in>set ys. rng b \<inter> rng c = {})"
  by (auto simp: blocks_ok_def sorted_wrt_append)

lemma blocks_ok_Cons: "blocks_ok (b # xs) \<longleftrightarrow> block_ok b \<and> blocks_ok xs \<and> (\<forall>c\<in>set xs. rng b \<inter> rng c = {})"
  by (auto simp: blocks_ok_def)

lemma blocks_okD: "blocks_ok xs \<Longrightarrow> b \<in> set xs \<Longrightarrow> block_ok b"
  by (simp add: blocks_ok_def)

text \<open>The cell that points at what follows a prefix of the list.\<close>

definition link_cell :: "block list \<Rightarrow> u32" where
  "link_cell xs = (if xs = [] then Q9K_ARENA_HEAD else fst (last xs))"

lemma low_cell: "block_ok b \<Longrightarrow> unat c + 4 \<le> 0x8000 \<Longrightarrow> rng b \<inter> {unat c ..< unat c + 4} = {}"
  using block_okD(1) [of b] by (auto simp: rng_def)

lemma block_cell: "block_ok b \<Longrightarrow> {unat (fst b) ..< unat (fst b) + 4} \<subseteq> rng b"
  using block_okD(2) [of b] by (auto simp: rng_def)

text \<open>Redirecting the link behind a prefix.\<close>

lemma relink:
  assumes l: "lseg m (Q9K_GetU32 m Q9K_ARENA_HEAD) xs q" and ok: "blocks_ok xs"
    and m': "m' = Q9K_SetU32 m (link_cell xs) q'"
  shows "lseg m' (Q9K_GetU32 m' Q9K_ARENA_HEAD) xs q'"
    and "Q9K_GetU32 m' Q9K_ARENA_TAIL = Q9K_GetU32 m Q9K_ARENA_TAIL"
    and "blocks_ok (xs @ ys) \<Longrightarrow> lseg m' p ys r \<longleftrightarrow> lseg m p ys r"
proof -
  have "lseg m' (Q9K_GetU32 m' Q9K_ARENA_HEAD) xs q' \<and> Q9K_GetU32 m' Q9K_ARENA_TAIL = Q9K_GetU32 m Q9K_ARENA_TAIL \<and>
    (blocks_ok (xs @ ys) \<longrightarrow> lseg m' p ys r = lseg m p ys r)"
  proof (cases xs rule: rev_cases)
    case Nil
    have "blocks_ok ys \<Longrightarrow> lseg m' p ys r = lseg m p ys r"
      unfolding m' using low_cell [of _ Q9K_ARENA_HEAD] blocks_okD
      by (intro lseg_write ballI conjI) (simp_all add: Nil link_cell_def)
    then show ?thesis using Nil by (simp add: m' link_cell_def)
  next
    case (snoc as b)
    have b: "block_ok b" and dj: "\<forall>c\<in>set as. rng c \<inter> rng b = {}" and as: "blocks_ok as"
      using ok snoc by (auto simp: blocks_ok_append blocks_ok_Cons)
    note bd = block_okD [OF b]
    have lk: "link_cell xs = fst b" using snoc by (simp add: link_cell_def)
    have c4: "unat (fst b) + 4 \<le> 2 ^ 32" using bd by simp
    have fr: "lseg m' p' zs r' = lseg m p' zs r'" if "\<forall>c\<in>set zs. block_ok c \<and> rng c \<inter> rng b = {}" for p' zs r'
      unfolding m' lk using that block_cell [OF b] c4 by (intro lseg_write) blast+
    have h: "apart (fst b) 4 Q9K_ARENA_HEAD 4" "apart (fst b) 4 Q9K_ARENA_TAIL 4"
      by (rule header_apart(3) [OF b _ low_cell [OF b]]; simp)+
    obtain r0 where r0: "lseg m (Q9K_GetU32 m Q9K_ARENA_HEAD) as r0" "r0 = fst b" "Q9K_GetU32 m (r0 + 4) = snd b"
      using l snoc by (auto simp: lseg_append)
    have "lseg m' (Q9K_GetU32 m' Q9K_ARENA_HEAD) as r0"
      using r0(1) fr [of as] dj as h by (simp add: m' lk blocks_ok_def)
    moreover have "lseg m' r0 [b] q'" using r0(2,3) by (simp add: m' lk)
    moreover have "blocks_ok (xs @ ys) \<Longrightarrow> lseg m' p ys r = lseg m p ys r"
      using snoc by (intro fr) (auto simp: blocks_ok_append blocks_ok_Cons Int_commute dest: blocks_okD)
    moreover have "Q9K_GetU32 m' Q9K_ARENA_TAIL = Q9K_GetU32 m Q9K_ARENA_TAIL" using h by (simp add: m' lk)
    ultimately show ?thesis using snoc by (auto simp: lseg_append)
  qed
  then show "lseg m' (Q9K_GetU32 m' Q9K_ARENA_HEAD) xs q'" "Q9K_GetU32 m' Q9K_ARENA_TAIL = Q9K_GetU32 m Q9K_ARENA_TAIL"
    "blocks_ok (xs @ ys) \<Longrightarrow> lseg m' p ys r \<longleftrightarrow> lseg m p ys r" by blast+
qed

section \<open>Allocation\<close>

definition split_rest :: "u32 \<Rightarrow> block \<Rightarrow> block list" where
  "split_rest needed b = (if unat (snd b) = unat needed then [] else [(fst b + needed, snd b - needed)])"

lemma split_rest_ok:
  assumes b: "block_ok b" and n: "16 dvd unat needed" "0 < unat needed" "unat needed \<le> unat (snd b)"
  shows "blocks_ok (split_rest needed b)" "\<forall>c\<in>set (split_rest needed b). rng c = rng b - rng (fst b, needed)"
    "covered (split_rest needed b) = rng b - rng (fst b, needed)" "snd b - needed \<ge> 16 \<longleftrightarrow> split_rest needed b \<noteq> []"
proof -
  note bd = block_okD [OF b]
  have u: "unat (snd b - needed) = unat (snd b) - unat needed" using n(3) unat_sub [of needed "snd b"] by (simp add: word_le_nat_alt)
  have a: "unat needed < unat (snd b) \<Longrightarrow> unat (fst b + needed) = unat (fst b) + unat needed"
    using bd(3) unat_offset [of "fst b" needed] by simp
  have d: "16 dvd unat (snd b) - unat needed" using b n(1) by (auto simp: block_ok_def)
  have ge: "unat needed < unat (snd b) \<Longrightarrow> 16 \<le> unat (snd b) - unat needed" using d by (auto intro: dvd_imp_le)
  show ok: "blocks_ok (split_rest needed b)"
    using bd n a u d ge by (auto simp: split_rest_def blocks_ok_def block_ok_def)
  show r: "\<forall>c\<in>set (split_rest needed b). rng c = rng b - rng (fst b, needed)"
    using n a u by (auto simp: split_rest_def rng_def)
  show "covered (split_rest needed b) = rng b - rng (fst b, needed)"
    using n a u by (auto simp: split_rest_def rng_def covered_def)
  show "snd b - needed \<ge> 16 \<longleftrightarrow> split_rest needed b \<noteq> []"
    using u n ge by (auto simp: split_rest_def word_le_nat_alt)
qed

text \<open>Taking a block out of the list, or leaving its rest behind.\<close>

lemma take_ok:
  assumes A: "arena m (pre @ b # post)" and n: "16 dvd unat needed" "0 < unat needed" "unat needed \<le> unat (snd b)"
    and prev: "prev = (if pre = [] then 0 else fst (last pre))"
    and m': "m' = arena_take m needed prev (fst b)"
  shows "arena m' (pre @ split_rest needed b @ post)"
proof -
  have ok: "blocks_ok (pre @ b # post)" and l: "lseg m (Q9K_GetU32 m Q9K_ARENA_HEAD) (pre @ b # post) 0"
    and tl: "Q9K_GetU32 m Q9K_ARENA_TAIL = fst (last (b # post))" using A by (simp_all add: arena_def)
  have b: "block_ok b" and pre: "blocks_ok pre" and post: "blocks_ok post"
    and dj: "\<forall>c\<in>set pre. rng c \<inter> rng b = {}" "\<forall>c\<in>set post. rng b \<inter> rng c = {}"
    and pp: "\<forall>c\<in>set pre. \<forall>d\<in>set post. rng c \<inter> rng d = {}"
    using ok by (auto simp: blocks_ok_append blocks_ok_Cons)
  note sr = split_rest_ok [OF b n] and bd = block_okD [OF b]
  have l1: "lseg m (Q9K_GetU32 m Q9K_ARENA_HEAD) pre (fst b)" and sz: "Q9K_GetU32 m (fst b + 4) = snd b"
    and l2: "lseg m (Q9K_GetU32 m (fst b)) post 0" using l by (auto simp: lseg_append)
  define q where "q = Q9K_GetU32 m (fst b)"
  have qz: "q = 0 \<longleftrightarrow> post = []" using l2 blocks_okD [OF post] block_okD(4) by (cases post) (auto simp: q_def)
  have link: "(if prev = 0 then Q9K_SetU32 m1 Q9K_ARENA_HEAD v else Q9K_SetU32 m1 prev v) = Q9K_SetU32 m1 (link_cell pre) v" for m1 v
    using pre block_okD(4) by (auto simp: prev link_cell_def blocks_ok_def)
  have new: "blocks_ok (pre @ split_rest needed b @ post)"
  proof -
    have sub: "rng c \<subseteq> rng b" if "c \<in> set (split_rest needed b)" for c using sr(2) that by blast
    have "\<forall>c\<in>set pre. \<forall>d\<in>set (split_rest needed b). rng c \<inter> rng d = {}"
      "\<forall>c\<in>set (split_rest needed b). \<forall>d\<in>set post. rng c \<inter> rng d = {}" using sub dj by blast+
    then show ?thesis using pre post sr(1) pp by (simp add: blocks_ok_append ball_Un)
  qed
  have tailw: "arena (if q = 0 then Q9K_SetU32 m1 Q9K_ARENA_TAIL t else m1) (pre @ zs @ post)"
    if lz: "lseg m1 (Q9K_GetU32 m1 Q9K_ARENA_HEAD) (pre @ zs @ post) 0" and okz: "blocks_ok (pre @ zs @ post)"
      and t: "t = (if pre @ zs = [] then 0 else fst (last (pre @ zs)))"
      and ts: "Q9K_GetU32 m1 Q9K_ARENA_TAIL = fst (last (b # post))" for m1 zs t
  proof (cases "q = 0")
    case True
    have "lseg (Q9K_SetU32 m1 Q9K_ARENA_TAIL t) p (pre @ zs @ post) 0 = lseg m1 p (pre @ zs @ post) 0" for p
      using okz blocks_okD [OF okz] low_cell [of _ Q9K_ARENA_TAIL] by (intro lseg_write ballI conjI) simp_all
    then show ?thesis using True qz lz okz t by (simp add: arena_def)
  next
    case False then show ?thesis using qz lz okz ts by (simp add: arena_def)
  qed
  show ?thesis
  proof (cases "split_rest needed b = []")
    case True
    define m1 where "m1 = Q9K_SetU32 m (link_cell pre) q"
    have e: "m' = (if q = 0 then Q9K_SetU32 m1 Q9K_ARENA_TAIL prev else m1)"
      using True sr(4) sz unfolding m' arena_take_def Let_def link q_def [symmetric] m1_def by auto
    note re = relink [OF l1 pre m1_def]
    have "lseg m1 q post 0" using re(3) [of post] l2 pre post pp by (simp add: q_def blocks_ok_append)
    then have "lseg m1 (Q9K_GetU32 m1 Q9K_ARENA_HEAD) (pre @ [] @ post) 0" using re(1) by (auto simp: lseg_append)
    then show ?thesis using tailw [of m1 "[]" prev] new re(2) tl True e prev by simp
  next
    case False
    define a where "a = fst b + needed"
    have z: "split_rest needed b = [(a, snd b - needed)]" using False by (simp add: split_rest_def a_def split: if_splits)
    have za: "block_ok (a, snd b - needed)" "rng (a, snd b - needed) \<subseteq> rng b" using sr(1,2) z by (auto simp: blocks_ok_def)
    note ad = block_okD [OF za(1), simplified]
    define m1 where "m1 = Q9K_SetU32 (Q9K_SetU32 m a q) (a + 4) (snd b - needed)"
    define m2 where "m2 = Q9K_SetU32 m1 (link_cell pre) a"
    have e: "m' = (if q = 0 then Q9K_SetU32 m2 Q9K_ARENA_TAIL a else m2)"
      using False sr(4) sz unfolding m' arena_take_def Let_def link q_def [symmetric] m2_def m1_def a_def by auto
    have in_b: "{unat a ..< unat a + 8} \<subseteq> rng b" using za(2) ad(2) by (auto simp: rng_def)
    have fr: "lseg m1 p zs r = lseg m p zs r" if "blocks_ok zs" "\<forall>c\<in>set zs. rng c \<inter> rng b = {}" for p zs r
    proof -
      have c: "block_ok c \<and> rng c \<inter> {unat a ..< unat a + 8} = {}" if "c \<in> set zs" for c
        using that \<open>blocks_ok zs\<close> \<open>\<forall>c\<in>set zs. rng c \<inter> rng b = {}\<close> in_b by (auto simp: blocks_ok_def)
      then have "\<forall>c\<in>set zs. block_ok c \<and> rng c \<inter> {unat a ..< unat a + 4} = {}"
        "\<forall>c\<in>set zs. block_ok c \<and> rng c \<inter> {unat (a + 4) ..< unat (a + 4) + 4} = {}" using ad(5) by fastforce+
      then show ?thesis unfolding m1_def using lseg_write [of zs "a + 4"] lseg_write [of zs a] ad(2,3,5) by simp
    qed
    have glob: "Q9K_GetU32 m1 Q9K_ARENA_HEAD = Q9K_GetU32 m Q9K_ARENA_HEAD" "Q9K_GetU32 m1 Q9K_ARENA_TAIL = Q9K_GetU32 m Q9K_ARENA_TAIL"
      using header_apart(3,4) [OF za(1) _ low_cell [OF za(1)], of Q9K_ARENA_HEAD]
        header_apart(3,4) [OF za(1) _ low_cell [OF za(1)], of Q9K_ARENA_TAIL] by (simp_all add: m1_def)
    have "lseg m1 (Q9K_GetU32 m1 Q9K_ARENA_HEAD) pre (fst b)" using l1 fr [OF pre dj(1)] glob(1) by simp
    note re = relink [OF this pre m2_def]
    have "lseg m1 a ((a, snd b - needed) # post) 0"
      using l2 fr [OF post] dj(2) by (simp add: m1_def q_def Int_commute)
    moreover have "blocks_ok (pre @ (a, snd b - needed) # post)" using new z by simp
    ultimately have "lseg m2 a ((a, snd b - needed) # post) 0" using re(3) [of "(a, snd b - needed) # post" a 0] by blast
    then have "lseg m2 (Q9K_GetU32 m2 Q9K_ARENA_HEAD) (pre @ [(a, snd b - needed)] @ post) 0" using re(1) by (auto simp: lseg_append)
    then show ?thesis using tailw [of m2 "[(a, snd b - needed)]" a] new re(2) glob(2) tl z e by simp
  qed
qed

text \<open>The search visits the blocks in order and stops at the first that is large enough.\<close>

definition fits :: "u32 \<Rightarrow> block \<Rightarrow> bool" where
  "fits needed b \<longleftrightarrow> needed \<le> snd b"

lemma alloc_loop:
  assumes "lseg m cur rest 0" "\<forall>b\<in>set rest. block_ok b"
  shows "Q9K_AllocMem_loop m needed prev cur =
    (case dropWhile (\<lambda>b. \<not> fits needed b) rest of
       [] \<Rightarrow> Some (0, m)
     | b # post \<Rightarrow> Some (fst b, arena_take m needed
         (let pre = takeWhile (\<lambda>b. \<not> fits needed b) rest in if pre = [] then prev else fst (last pre)) (fst b)))"
  using assms
proof (induction rest arbitrary: cur prev)
  case Nil
  then show ?case by (subst Q9K_AllocMem_loop.simps) simp
next
  case (Cons b rest)
  have b: "block_ok b" "cur = fst b" "Q9K_GetU32 m (cur + 4) = snd b" "lseg m (Q9K_GetU32 m cur) rest 0"
    using Cons.prems by auto
  have nz: "cur \<noteq> 0" using block_okD(4) [OF b(1)] b(2) by simp
  show ?case
  proof (cases "fits needed b")
    case True
    then show ?thesis using nz b(2,3) by (subst Q9K_AllocMem_loop.simps) (simp add: fits_def Let_def)
  next
    case False
    then have "Q9K_AllocMem_loop m needed prev cur = Q9K_AllocMem_loop m needed cur (Q9K_GetU32 m cur)"
      using nz b(3) by (subst Q9K_AllocMem_loop.simps) (simp add: fits_def)
    then show ?thesis using Cons.IH [OF b(4), of cur] Cons.prems(2) b(2) False
      by (cases "dropWhile (\<lambda>b. \<not> fits needed b) rest"; cases "takeWhile (\<lambda>b. \<not> fits needed b) rest = []")
        (simp_all add: Let_def del: dropWhile_eq_Nil_conv)
  qed
qed

lemma covered_append [simp]: "covered (xs @ ys) = covered xs \<union> covered ys"
  by (auto simp: covered_def)

lemma covered_Cons [simp]: "covered (b # xs) = rng b \<union> covered xs"
  by (auto simp: covered_def)

lemma alloc_arena:
  assumes A: "arena m xs" and n: "16 dvd unat (Q9K_RoundUp16 sz)" "Q9K_RoundUp16 sz \<noteq> 0"
  shows "if \<exists>b\<in>set xs. fits (Q9K_RoundUp16 sz) b
    then \<exists>a m' ys. Q9K_AllocMem m sz = Some (a, m') \<and> a \<noteq> 0 \<and> arena m' ys \<and> 0x8000 \<le> unat a \<and>
      rng (a, Q9K_RoundUp16 sz) \<subseteq> covered xs \<and> covered ys = covered xs - rng (a, Q9K_RoundUp16 sz)
    else Q9K_AllocMem m sz = Some (0, m)"
proof -
  let ?n = "Q9K_RoundUp16 sz" and ?P = "\<lambda>b. \<not> fits (Q9K_RoundUp16 sz) b"
  have l: "lseg m (Q9K_GetU32 m Q9K_ARENA_HEAD) xs 0" and ok: "blocks_ok xs" using A by (simp_all add: arena_def)
  note lp = alloc_loop [OF l, of ?n 0, folded Q9K_AllocMem_def]
  have all: "\<forall>b\<in>set xs. block_ok b" using ok by (simp add: blocks_ok_def)
  show ?thesis
  proof (cases "dropWhile ?P xs")
    case Nil
    then have "\<not> (\<exists>b\<in>set xs. fits ?n b)" by (simp add: dropWhile_eq_Nil_conv)
    then show ?thesis using lp [OF all] Nil by simp
  next
    case (Cons b post)
    define pre where "pre = takeWhile ?P xs"
    have xs: "xs = pre @ b # post" using takeWhile_dropWhile_id [of ?P xs] Cons by (simp add: pre_def)
    have ft: "fits ?n b" using hd_dropWhile [of ?P xs] Cons by auto
    then have le: "unat ?n \<le> unat (snd b)" by (simp add: fits_def word_le_nat_alt)
    have pos: "0 < unat ?n" using n(2) by (simp add: unat_gt_0)
    have b: "block_ok b" using all xs by simp
    have e: "Q9K_AllocMem m sz = Some (fst b, arena_take m ?n (if pre = [] then 0 else fst (last pre)) (fst b))"
      using lp [OF all] Cons by (simp add: pre_def Let_def)
    have A': "arena (arena_take m ?n (if pre = [] then 0 else fst (last pre)) (fst b)) (pre @ split_rest ?n b @ post)"
      by (rule take_ok [OF A [unfolded xs] n(1) pos le refl refl])
    have sub: "rng (fst b, ?n) \<subseteq> rng b" using le by (auto simp: rng_def)
    have "rng b \<inter> covered pre = {}" "rng b \<inter> covered post = {}"
      using ok xs by (auto simp: blocks_ok_append blocks_ok_Cons covered_def)
    then have "covered (pre @ split_rest ?n b @ post) = covered xs - rng (fst b, ?n)"
      using split_rest_ok(3) [OF b n(1) pos le] sub by (simp add: xs) blast
    moreover have "\<exists>b\<in>set xs. fits ?n b" using xs ft by auto
    moreover have "rng (fst b, ?n) \<subseteq> covered xs" using sub by (auto simp: xs)
    ultimately show ?thesis using e A' block_okD(1,4) [OF b] by (simp only: if_True) blast
  qed
qed

section \<open>Release\<close>

lemma free_arena:
  assumes A: "arena m xs" and b: "block_ok (a, Q9K_RoundUp16 sz)" and d: "rng (a, Q9K_RoundUp16 sz) \<inter> covered xs = {}"
  shows "arena (Q9K_FreeMem m a sz) ((a, Q9K_RoundUp16 sz) # xs)"
proof -
  let ?n = "Q9K_RoundUp16 sz" and ?h = "Q9K_GetU32 m Q9K_ARENA_HEAD"
  note bd = block_okD [OF b, simplified]
  have l: "lseg m ?h xs 0" and ok: "blocks_ok xs" and tl: "Q9K_GetU32 m Q9K_ARENA_TAIL = (if xs = [] then 0 else fst (last xs))"
    using A by (simp_all add: arena_def)
  have hz: "?h = 0 \<longleftrightarrow> xs = []" using l blocks_okD [OF ok] block_okD(4) by (cases xs) auto
  define m2 where "m2 = Q9K_SetU32 (Q9K_SetU32 m a ?h) (a + 4) ?n"
  define m3 where "m3 = Q9K_SetU32 m2 Q9K_ARENA_HEAD a"
  have big: "\<not> ?n < 16" using bd(2) by (simp add: word_less_nat_alt)
  have e: "Q9K_FreeMem m a sz = (if ?h = 0 then Q9K_SetU32 m3 Q9K_ARENA_TAIL a else m3)"
    using big by (simp add: Q9K_FreeMem_def Let_def m3_def m2_def)
  have in_a: "{unat a ..< unat a + 8} \<subseteq> rng (a, ?n)" using bd(2) by (auto simp: rng_def)
  have cs: "block_ok c \<and> rng c \<inter> {unat a ..< unat a + 8} = {}" if "c \<in> set xs" for c
    using that blocks_okD [OF ok that] d in_a by (auto simp: covered_def)
  then have "\<forall>c\<in>set xs. block_ok c \<and> rng c \<inter> {unat a ..< unat a + 4} = {}"
    "\<forall>c\<in>set xs. block_ok c \<and> rng c \<inter> {unat (a + 4) ..< unat (a + 4) + 4} = {}" using bd(5) by fastforce+
  then have f2: "lseg m2 p xs 0 = lseg m p xs 0" for p
    unfolding m2_def using lseg_write [of xs "a + 4"] lseg_write [of xs a] bd(2,3,5) by simp
  have f3: "lseg (Q9K_SetU32 mm g v) p xs 0 = lseg mm p xs 0" if "unat g + 4 \<le> 0x8000" for mm g v p
    using that low_cell [of _ g] blocks_okD [OF ok] by (intro lseg_write ballI conjI) simp_all
  note ap = header_apart [OF b _ low_cell [OF b], simplified]
  have cells: "Q9K_GetU32 m3 Q9K_ARENA_HEAD = a" "Q9K_GetU32 m3 (a + 4) = ?n" "Q9K_GetU32 m3 a = ?h"
    "Q9K_GetU32 m3 Q9K_ARENA_TAIL = Q9K_GetU32 m Q9K_ARENA_TAIL"
    using ap [of Q9K_ARENA_HEAD] ap [of Q9K_ARENA_TAIL] by (simp_all add: m3_def m2_def)
  have l3: "lseg m3 a ((a, ?n) # xs) 0" using cells f3 [of Q9K_ARENA_HEAD m2] f2 l by (simp add: m3_def)
  have ok': "blocks_ok ((a, ?n) # xs)" using ok b d by (auto simp: blocks_ok_Cons covered_def)
  show ?thesis
  proof (cases "xs = []")
    case True
    then show ?thesis using e hz cells ok' ap [of Q9K_ARENA_TAIL] l3 by (simp add: arena_def)
  next
    case False
    then show ?thesis using e hz cells ok' l3 tl by (simp add: arena_def)
  qed
qed

section \<open>The largest block\<close>

definition prev_addr :: "block list \<Rightarrow> u32" where
  "prev_addr pre = (if pre = [] then 0 else fst (last pre))"

text \<open>What the search for the largest block has found after the blocks \<open>xs\<close>.\<close>

definition best_of :: "memory \<Rightarrow> block list \<Rightarrow> best_block \<Rightarrow> bool" where
  "best_of m xs r \<longleftrightarrow> (if xs = [] then r = \<lparr>bestAddr = 0, bestSize = 0, bestPrev = 0, bestNext = 0\<rparr>
     else \<exists>as b bs. xs = as @ b # bs \<and> (\<forall>c\<in>set xs. snd c \<le> snd b) \<and>
       r = \<lparr>bestAddr = fst b, bestSize = snd b, bestPrev = prev_addr as, bestNext = Q9K_GetU32 m (fst b)\<rparr>)"

lemma best_snoc:
  assumes "best_of m xs r" "block_ok c"
  shows "best_of m (xs @ [c]) (if snd c > bestSize r
    then \<lparr>bestAddr = fst c, bestSize = snd c, bestPrev = prev_addr xs, bestNext = Q9K_GetU32 m (fst c)\<rparr> else r)"
proof (cases "xs = []")
  case True
  have "snd c > 0" using block_okD(2) [OF assms(2)] by (simp add: word_less_nat_alt)
  then show ?thesis using True assms(1) by (auto simp: best_of_def intro!: exI [of _ "[]"])
next
  case False
  then obtain as b bs where b: "xs = as @ b # bs" "\<forall>c\<in>set xs. snd c \<le> snd b"
    "r = \<lparr>bestAddr = fst b, bestSize = snd b, bestPrev = prev_addr as, bestNext = Q9K_GetU32 m (fst b)\<rparr>"
    using assms(1) by (simp only: best_of_def False if_False) blast
  show ?thesis
  proof (cases "snd c > bestSize r")
    case True
    have "\<forall>d\<in>set (xs @ [c]). snd d \<le> snd c" using True b(2,3) by (auto intro: order.trans order.strict_implies_order)
    then show ?thesis using True by (simp add: best_of_def) (intro exI [of _ xs] exI [of _ c] exI [of _ "[]"], simp)
  next
    case F: False
    have "\<forall>d\<in>set (xs @ [c]). snd d \<le> snd b" using F b(2,3) by auto
    then show ?thesis using F b(1,3) unfolding best_of_def
      by (simp, intro exI [of _ as] exI [of _ b] exI [of _ "bs @ [c]"], simp)
  qed
qed

lemma largest_loop:
  assumes "lseg m cur rest 0" "\<forall>b\<in>set rest. block_ok b" "prev = prev_addr pre" "best_of m pre r"
  shows "\<exists>r'. Q9K_AllocLargest_loop m r prev cur = Some r' \<and> best_of m (pre @ rest) r'"
  using assms
proof (induction rest arbitrary: cur prev pre r)
  case Nil
  then show ?case by (subst Q9K_AllocLargest_loop.simps) simp
next
  case (Cons b rest)
  have b: "block_ok b" "cur = fst b" "Q9K_GetU32 m (cur + 4) = snd b" "lseg m (Q9K_GetU32 m cur) rest 0"
    using Cons.prems by auto
  have nz: "cur \<noteq> 0" using block_okD(4) [OF b(1)] b(2) by simp
  have "cur = prev_addr (pre @ [b])" using b(2) by (simp add: prev_addr_def)
  from Cons.IH [OF b(4) _ this best_snoc [OF Cons.prems(4) b(1)]] show ?case
    using Cons.prems(2,3) nz b(2,3) by (subst Q9K_AllocLargest_loop.simps) (cases "bestSize r < snd b"; simp add: Let_def)
qed

lemma largest_arena:
  assumes A: "arena m xs"
  shows "if xs = [] then Q9K_AllocLargest m = Some (0, 0, m)
    else \<exists>a s m' ys. Q9K_AllocLargest m = Some (a, s, m') \<and> block_ok (a, s) \<and> (\<forall>c\<in>set xs. snd c \<le> s) \<and> arena m' ys \<and>
      rng (a, s) \<subseteq> covered xs \<and> covered ys = covered xs - rng (a, s)"
proof -
  have l: "lseg m (Q9K_GetU32 m Q9K_ARENA_HEAD) xs 0" and ok: "blocks_ok xs" using A by (simp_all add: arena_def)
  have all: "\<forall>b\<in>set xs. block_ok b" using ok by (simp add: blocks_ok_def)
  obtain r where r: "Q9K_AllocLargest_loop m \<lparr>bestAddr = 0, bestSize = 0, bestPrev = 0, bestNext = 0\<rparr> 0
      (Q9K_GetU32 m Q9K_ARENA_HEAD) = Some r" "best_of m xs r"
    using largest_loop [OF l all, of 0 "[]"] by (auto simp: prev_addr_def best_of_def)
  show ?thesis
  proof (cases "xs = []")
    case True then show ?thesis using r by (simp add: Q9K_AllocLargest_def best_of_def)
  next
    case False
    then obtain as b bs where b: "xs = as @ b # bs" "\<forall>c\<in>set xs. snd c \<le> snd b"
      "r = \<lparr>bestAddr = fst b, bestSize = snd b, bestPrev = prev_addr as, bestNext = Q9K_GetU32 m (fst b)\<rparr>"
      using r(2) by (simp only: best_of_def False if_False) blast
    have bk: "block_ok b" using all b(1) by simp
    note bd = block_okD [OF bk]
    have d: "16 dvd unat (snd b)" "0 < unat (snd b)" using bk bd(2) by (auto simp: block_ok_def)
    have sz: "Q9K_GetU32 m (fst b + 4) = snd b" using l b(1) by (auto simp: lseg_append)
    define m' where "m' = arena_take m (snd b) (prev_addr as) (fst b)"
    have e: "Q9K_AllocLargest m = Some (fst b, snd b, m')"
      unfolding Q9K_AllocLargest_def r(1) using bd(4) sz by (simp add: b(3) Let_def m'_def arena_take_def)
    have "arena m' (as @ split_rest (snd b) b @ bs)"
      by (rule take_ok [OF A [unfolded b(1)] d order.refl _ m'_def]) (simp add: prev_addr_def)
    then have "arena m' (as @ bs)" by (simp add: split_rest_def)
    moreover have "rng b \<inter> covered as = {}" "rng b \<inter> covered bs = {}"
      using ok b(1) by (auto simp: blocks_ok_append blocks_ok_Cons covered_def)
    then have "covered (as @ bs) = covered xs - rng b" by (auto simp: b(1))
    moreover have "rng b \<subseteq> covered xs" by (auto simp: b(1))
    ultimately show ?thesis using False e bk b(2) by (metis prod.collapse)
  qed
qed

section \<open>The interface of the arena\<close>

text \<open>What clients rely on: a state that owns a set of free bytes, allocation takes a block out of it, release
  gives it back.  The byte addresses are natural numbers, so that a block never wraps.\<close>

locale block_store =
  fixes owns :: "memory \<Rightarrow> nat set \<Rightarrow> bool"
    and take_block :: "memory \<Rightarrow> u32 \<Rightarrow> (u32 \<times> memory) option"
    and give_block :: "memory \<Rightarrow> u32 \<Rightarrow> u32 \<Rightarrow> memory"
    and len :: "u32 \<Rightarrow> nat"
  assumes take_total: "owns m F \<Longrightarrow> 0 < len n \<Longrightarrow> \<exists>a m'. take_block m n = Some (a, m')"
    and take_fail: "owns m F \<Longrightarrow> 0 < len n \<Longrightarrow> take_block m n = Some (0, m') \<Longrightarrow> m' = m"
    and take_some: "owns m F \<Longrightarrow> 0 < len n \<Longrightarrow> take_block m n = Some (a, m') \<Longrightarrow> a \<noteq> 0 \<Longrightarrow>
      {unat a ..< unat a + len n} \<subseteq> F \<and> owns m' (F - {unat a ..< unat a + len n})"
    and give: "owns m F \<Longrightarrow> 0 < len n \<Longrightarrow> 0x8000 \<le> unat a \<Longrightarrow> unat a + len n \<le> 2 ^ 32 \<Longrightarrow>
      {unat a ..< unat a + len n} \<inter> F = {} \<Longrightarrow> owns (give_block m a n) (F \<union> {unat a ..< unat a + len n})"
    and owned: "owns m F \<Longrightarrow> x \<in> F \<Longrightarrow> 0x8000 \<le> x \<and> x < 2 ^ 32"
begin

text \<open>Giving a block back restores the free bytes.\<close>

lemma take_give:
  assumes "owns m F" "0 < len n" "take_block m n = Some (a, m1)" "a \<noteq> 0"
  shows "owns (give_block m1 a n) F"
proof -
  let ?B = "{unat a ..< unat a + len n}"
  have t: "?B \<subseteq> F" "owns m1 (F - ?B)" using take_some [OF assms] by auto
  have "unat a \<in> F" "unat a + len n - 1 \<in> F" using t(1) assms(2) by auto
  then have "0x8000 \<le> unat a" "unat a + len n \<le> 2 ^ 32" using owned [OF assms(1)] assms(2) by fastforce+
  from give [OF t(2) assms(2) this] t(1) show ?thesis by (simp add: Un_absorb2 Diff_partition sup_commute)
qed

end

text \<open>The arena provides it.\<close>

definition arena_owns :: "memory \<Rightarrow> nat set \<Rightarrow> bool" where
  "arena_owns m F \<longleftrightarrow> (\<exists>xs. arena m xs \<and> covered xs = F)"

definition rounded :: "u32 \<Rightarrow> nat" where
  "rounded n = unat (Q9K_RoundUp16 n)"

lemma rounded_dvd: "16 dvd unat (Q9K_RoundUp16 n)"
proof -
  have m: "(15 :: u32) = mask 4" by (simp add: mask_eq_exp_minus_1)
  have "take_bit 4 (Q9K_RoundUp16 n) = 0" unfolding Q9K_RoundUp16_def m by (rule bit_word_eqI) (auto simp: bit_simps)
  then have "take_bit 4 (unat (Q9K_RoundUp16 n)) = 0" unfolding unsigned_take_bit_eq [symmetric] by simp
  then have "unat (Q9K_RoundUp16 n) mod 16 = 0" by (simp add: take_bit_eq_mod)
  then show ?thesis by (simp add: dvd_eq_mod_eq_0)
qed

interpretation ar: block_store arena_owns Q9K_AllocMem Q9K_FreeMem rounded
proof
  fix m F n a m'
  assume o: "arena_owns m F" and n: "0 < rounded n"
  then obtain xs where A: "arena m xs" and F: "covered xs = F" by (auto simp: arena_owns_def)
  have nz: "Q9K_RoundUp16 n \<noteq> 0" using n by (simp add: rounded_def unat_gt_0)
  note al = alloc_arena [OF A rounded_dvd nz]
  show "\<exists>a m'. Q9K_AllocMem m n = Some (a, m')" using al by (auto split: if_splits)
  show "Q9K_AllocMem m n = Some (0, m') \<Longrightarrow> m' = m" using al by (auto split: if_splits)
  show "Q9K_AllocMem m n = Some (a, m') \<Longrightarrow> a \<noteq> 0 \<Longrightarrow>
      {unat a ..< unat a + rounded n} \<subseteq> F \<and> arena_owns m' (F - {unat a ..< unat a + rounded n})"
    using al F by (fastforce simp: rng_def rounded_def arena_owns_def split: if_splits)
  assume "0x8000 \<le> unat a" "unat a + rounded n \<le> 2 ^ 32" and d: "{unat a ..< unat a + rounded n} \<inter> F = {}"
  moreover have "16 \<le> unat (Q9K_RoundUp16 n)" using n rounded_dvd [of n] by (auto simp: rounded_def intro: dvd_imp_le)
  ultimately have "block_ok (a, Q9K_RoundUp16 n)" using rounded_dvd by (simp add: block_ok_def rounded_def)
  from free_arena [OF A this] d F show "arena_owns (Q9K_FreeMem m a n) (F \<union> {unat a ..< unat a + rounded n})"
    unfolding arena_owns_def by (intro exI [of _ "(a, Q9K_RoundUp16 n) # xs"]) (auto simp: rng_def rounded_def)
next
  fix m F x assume "arena_owns m F" "x \<in> F"
  then obtain xs b where "arena m xs" "b \<in> set xs" "x \<in> rng b" by (auto simp: arena_owns_def covered_def)
  then show "0x8000 \<le> x \<and> x < 2 ^ 32" using block_okD(1,3) [of b] by (fastforce simp: arena_def blocks_ok_def rng_def)
qed

lemma init_arena:
  assumes "block_ok (base, sz)"
  shows "arena (Q9K_ArenaInit m base sz) [(base, sz)]"
proof -
  note bd = block_okD [OF assms, simplified]
  have big: "\<not> sz < 16" using bd(2) by (simp add: word_less_nat_alt)
  note ap = header_apart [OF assms _ low_cell [OF assms], simplified]
  show ?thesis using assms big bd(4) ap [of Q9K_ARENA_HEAD] ap [of Q9K_ARENA_TAIL]
    by (simp add: arena_def Q9K_ArenaInit_def Let_def blocks_ok_def)
qed

section \<open>Properties\<close>

text \<open>C6: on a well-formed arena that owns the free bytes \<open>F\<close>, an allocation of a size that does
  not round to zero returns.  It fails, changing nothing, exactly when no single free block is large
  enough; otherwise the block it returns, rounded up to 16 bytes, lay entirely in free memory and is
  free no longer, while every other free byte stays free.\<close>

theorem arena_alloc_spec:
  assumes "arena m xs" "Q9K_RoundUp16 n \<noteq> 0"
  shows "\<exists>a m'. Q9K_AllocMem m n = Some (a, m') \<and> (a = 0 \<longleftrightarrow> (\<forall>b\<in>set xs. snd b < Q9K_RoundUp16 n)) \<and>
    (if a = 0 then m' = m
     else rng (a, Q9K_RoundUp16 n) \<subseteq> covered xs \<and> arena_owns m' (covered xs - rng (a, Q9K_RoundUp16 n)))"
proof (cases "\<exists>b\<in>set xs. fits (Q9K_RoundUp16 n) b")
  case True
  then have "\<not> (\<forall>b\<in>set xs. snd b < Q9K_RoundUp16 n)" by (auto simp: fits_def dest: leD)
  moreover obtain a m' ys where "Q9K_AllocMem m n = Some (a, m')" "a \<noteq> 0" "arena m' ys"
    "rng (a, Q9K_RoundUp16 n) \<subseteq> covered xs" "covered ys = covered xs - rng (a, Q9K_RoundUp16 n)"
    using alloc_arena [OF assms(1) rounded_dvd assms(2)] True by auto
  ultimately show ?thesis unfolding arena_owns_def by (intro exI [of _ a] exI [of _ m']) auto
next
  case False
  then have "\<forall>b\<in>set xs. snd b < Q9K_RoundUp16 n" by (simp add: fits_def not_le)
  then show ?thesis using alloc_arena [OF assms(1) rounded_dvd assms(2)] False by simp
qed

definition ex_arena :: memory where
  "ex_arena = Q9K_ArenaInit (\<lambda>_. 0) 0x40000 0x1000"

lemma ex_arena_ok: "arena ex_arena [(0x40000, 0x1000)]"
  unfolding ex_arena_def by (rule init_arena) (simp add: block_ok_def)

lemma arena_alloc_spec_witness:
  "\<exists>a m'. Q9K_AllocMem ex_arena 100 = Some (a, m') \<and> a \<noteq> 0 \<and> rng (a, 112) \<subseteq> covered [(0x40000, 0x1000)]"
proof -
  have "Q9K_RoundUp16 100 = 112" by (simp add: Q9K_RoundUp16_def)
  then show ?thesis using arena_alloc_spec [OF ex_arena_ok, of 100] by auto
qed

text \<open>Whatever is written outside the free blocks and the two list cells leaves the arena as it is.\<close>

definition list_cells :: "u32 set" where
  "list_cells = {x. x - Q9K_ARENA_HEAD < 8}"

lemma block_header_cong:
  assumes "block_ok b" "\<And>x. unat x \<in> rng b \<Longrightarrow> m' x = m x"
  shows "Q9K_GetU32 m' (fst b) = Q9K_GetU32 m (fst b)" "Q9K_GetU32 m' (fst b + 4) = Q9K_GetU32 m (fst b + 4)"
proof -
  note bd = block_okD [OF assms(1)]
  have "unat (fst b + j) \<in> rng b" if "unat j < 8" for j using that bd(2,3) unat_offset [of "fst b" j] by (simp add: rng_def)
  then have k: "m' (fst b + j) = m (fst b + j)" if "unat j < 8" for j using assms(2) that by blast
  have "m' (fst b + i) = m (fst b + i)" "m' (fst b + 4 + i) = m (fst b + 4 + i)" if "i < 4" for i
    using less_4_cases [OF that] k [of i] k [of "4 + i"] by (auto simp: add.assoc)
  then show "Q9K_GetU32 m' (fst b) = Q9K_GetU32 m (fst b)" "Q9K_GetU32 m' (fst b + 4) = Q9K_GetU32 m (fst b + 4)"
    by (auto intro!: c32.get_local)
qed

lemma lseg_cong:
  assumes "\<forall>b\<in>set xs. block_ok b" "\<And>x. unat x \<in> covered xs \<Longrightarrow> m' x = m x"
  shows "lseg m' p xs q \<longleftrightarrow> lseg m p xs q"
  using assms
proof (induction xs arbitrary: p)
  case (Cons b xs)
  then show ?case using block_header_cong [of b m' m] by auto
qed simp

lemma arena_cong:
  assumes A: "arena m xs" and e: "\<And>x. unat x \<in> covered xs \<or> x \<in> list_cells \<Longrightarrow> m' x = m x"
  shows "arena m' xs"
proof -
  have "Q9K_ARENA_HEAD + i \<in> list_cells" "Q9K_ARENA_TAIL + i \<in> list_cells" if "i < 4" for i
    using less_4_cases [OF that] by (auto simp: list_cells_def)
  then have "Q9K_GetU32 m' Q9K_ARENA_HEAD = Q9K_GetU32 m Q9K_ARENA_HEAD" "Q9K_GetU32 m' Q9K_ARENA_TAIL = Q9K_GetU32 m Q9K_ARENA_TAIL"
    using e by (auto intro!: c32.get_local)
  moreover have "lseg m' p xs q = lseg m p xs q" for p q
    using A e by (intro lseg_cong) (auto simp: arena_def blocks_ok_def)
  ultimately show ?thesis using A by (simp add: arena_def)
qed

text \<open>The life of an arena that owned the bytes \<open>F\<close>, with the blocks that are held: allocations that succeed or fail, in any order and of
  any size that does not round to zero, releases of held blocks in any order, with any size that rounds to the size of the block, and
  writes by the holders and by the rest of the system, anywhere but in free memory and the list cells.\<close>

inductive arena_run :: "memory \<Rightarrow> nat set \<Rightarrow> memory \<Rightarrow> block list \<Rightarrow> bool" for m0 F where
  run_start: "arena_run m0 F m0 []"
| run_alloc: "arena_run m0 F m hs \<Longrightarrow> Q9K_RoundUp16 n \<noteq> 0 \<Longrightarrow> Q9K_AllocMem m n = Some (a, m') \<Longrightarrow> a \<noteq> 0 \<Longrightarrow>
    arena_run m0 F m' ((a, Q9K_RoundUp16 n) # hs)"
| run_fail: "arena_run m0 F m hs \<Longrightarrow> Q9K_RoundUp16 n \<noteq> 0 \<Longrightarrow> Q9K_AllocMem m n = Some (0, m') \<Longrightarrow> arena_run m0 F m' hs"
| run_largest: "arena_run m0 F m hs \<Longrightarrow> Q9K_AllocLargest m = Some (a, s, m') \<Longrightarrow> arena_run m0 F m' (if a = 0 then hs else (a, s) # hs)"
| run_free: "arena_run m0 F m (as @ (a, Q9K_RoundUp16 n) # bs) \<Longrightarrow> arena_run m0 F (Q9K_FreeMem m a n) (as @ bs)"
| run_write: "arena_run m0 F m hs \<Longrightarrow> (\<And>x. m' x \<noteq> m x \<Longrightarrow> x \<notin> list_cells \<and> unat x \<notin> F - covered hs) \<Longrightarrow> arena_run m0 F m' hs"

definition held_blocks_ok :: "nat set \<Rightarrow> memory \<Rightarrow> block list \<Rightarrow> bool" where
  "held_blocks_ok F m hs \<longleftrightarrow> blocks_ok hs \<and> covered hs \<subseteq> F \<and> arena_owns m (F - covered hs)"

lemma held_take:
  assumes "held_blocks_ok F m hs" "block_ok h" "rng h \<subseteq> F - covered hs" "arena_owns m' (F - covered hs - rng h)"
  shows "held_blocks_ok F m' (h # hs)"
proof -
  have "F - covered (h # hs) = F - covered hs - rng h" by auto
  moreover have "blocks_ok (h # hs)" using assms(1-3) by (auto simp: held_blocks_ok_def blocks_ok_Cons covered_def)
  ultimately show ?thesis using assms by (auto simp: held_blocks_ok_def)
qed

lemma held_alloc:
  assumes "held_blocks_ok F m hs" "Q9K_RoundUp16 n \<noteq> 0" "Q9K_AllocMem m n = Some (a, m')" "a \<noteq> 0"
  shows "held_blocks_ok F m' ((a, Q9K_RoundUp16 n) # hs)"
proof -
  obtain xs where A: "arena m xs" "covered xs = F - covered hs" using assms(1) by (auto simp: held_blocks_ok_def arena_owns_def)
  obtain ys where y: "arena m' ys" "0x8000 \<le> unat a" "rng (a, Q9K_RoundUp16 n) \<subseteq> covered xs" "covered ys = covered xs - rng (a, Q9K_RoundUp16 n)"
    using alloc_arena [OF A(1) rounded_dvd assms(2)] assms(3,4) by (auto split: if_splits)
  have p: "16 \<le> unat (Q9K_RoundUp16 n)" using assms(2) rounded_dvd [of n] by (auto intro: dvd_imp_le simp: unat_gt_0)
  then have "unat a + unat (Q9K_RoundUp16 n) - 1 \<in> covered xs" using y(3) by (auto simp: rng_def)
  then have "unat a + unat (Q9K_RoundUp16 n) - 1 < 2 ^ 32" using ar.owned [of m "covered xs"] A(1) by (auto simp: arena_owns_def)
  then have "block_ok (a, Q9K_RoundUp16 n)" using y(2) p rounded_dvd by (simp add: block_ok_def)
  then show ?thesis using y A(2) by (intro held_take [OF assms(1)]) (auto simp: arena_owns_def)
qed

lemma held_free:
  assumes "held_blocks_ok F m (as @ (a, Q9K_RoundUp16 n) # bs)"
  shows "held_blocks_ok F (Q9K_FreeMem m a n) (as @ bs)"
proof -
  let ?B = "{unat a ..< unat a + rounded n}"
  have o: "arena_owns m (F - covered (as @ (a, Q9K_RoundUp16 n) # bs))" and b: "block_ok (a, Q9K_RoundUp16 n)"
    and k: "blocks_ok (as @ bs)" "?B \<inter> covered (as @ bs) = {}" "?B \<subseteq> F" "covered (as @ bs) \<subseteq> F"
    using assms by (auto simp: held_blocks_ok_def blocks_ok_append blocks_ok_Cons covered_def rng_def rounded_def)
  have "F - covered (as @ (a, Q9K_RoundUp16 n) # bs) \<union> ?B = F - covered (as @ bs)" "?B \<inter> (F - covered (as @ (a, Q9K_RoundUp16 n) # bs)) = {}"
    using k by (auto simp: rng_def rounded_def)
  then show ?thesis using ar.give [OF o, of n a] block_okD [OF b] k by (auto simp: held_blocks_ok_def rounded_def)
qed

lemma held_write:
  assumes "held_blocks_ok F m hs" "\<And>x. m' x \<noteq> m x \<Longrightarrow> x \<notin> list_cells \<and> unat x \<notin> F - covered hs"
  shows "held_blocks_ok F m' hs"
proof -
  obtain xs where A: "arena m xs" "covered xs = F - covered hs" using assms(1) by (auto simp: held_blocks_ok_def arena_owns_def)
  have "arena m' xs" by (rule arena_cong [OF A(1)]) (use A(2) assms(2) in blast)
  then show ?thesis using assms(1) A(2) by (auto simp: held_blocks_ok_def arena_owns_def)
qed

lemma held_largest:
  assumes "held_blocks_ok F m hs" "Q9K_AllocLargest m = Some (a, s, m')"
  shows "held_blocks_ok F m' (if a = 0 then hs else (a, s) # hs)"
proof -
  obtain xs where A: "arena m xs" "covered xs = F - covered hs" using assms(1) by (auto simp: held_blocks_ok_def arena_owns_def)
  show ?thesis
  proof (cases "xs = []")
    case True
    then show ?thesis using largest_arena [OF A(1)] assms by simp
  next
    case False
    then obtain ys where y: "block_ok (a, s)" "arena m' ys" "rng (a, s) \<subseteq> covered xs" "covered ys = covered xs - rng (a, s)"
      using largest_arena [OF A(1)] assms(2) by auto
    then have "held_blocks_ok F m' ((a, s) # hs)" using A(2) by (intro held_take [OF assms(1)]) (auto simp: arena_owns_def)
    then show ?thesis using block_okD(4) [OF y(1)] by simp
  qed
qed

lemma run_held: "arena_run m0 F m hs \<Longrightarrow> arena_owns m0 F \<Longrightarrow> held_blocks_ok F m hs"
proof (induction rule: arena_run.induct)
  case run_start
  then show ?case by (simp add: held_blocks_ok_def blocks_ok_def covered_def)
next
  case (run_fail m hs n m')
  then have "arena_owns m (F - covered hs)" "0 < rounded n" by (auto simp: held_blocks_ok_def rounded_def unat_gt_0)
  then show ?case using ar.take_fail [OF _ _ run_fail(3)] run_fail by simp
next
  case (run_alloc m hs n a m')
  then show ?case using held_alloc by simp
next
  case (run_largest m hs a s m')
  then show ?case using held_largest by simp
next
  case (run_free m as a n bs)
  then show ?case using held_free by simp
next
  case (run_write m hs m')
  then show ?case using held_write [of F m hs m'] by simp
qed

text \<open>C5: however allocations, requests for the largest block, releases and writes to held memory follow each other on
  an arena that owned the bytes \<open>F\<close>, the blocks held at the same time never share a byte, lie in \<open>F\<close>, and the bytes the arena has free
  are exactly the others of \<open>F\<close>: no byte is handed out twice and none is lost.\<close>

theorem arena_blocks_disjoint:
  assumes "arena_owns m0 F" "arena_run m0 F m hs"
  shows "(\<forall>i<length hs. \<forall>j<length hs. i \<noteq> j \<longrightarrow> rng (hs ! i) \<inter> rng (hs ! j) = {}) \<and>
    (\<forall>h\<in>set hs. rng h \<subseteq> F) \<and> arena_owns m (F - (\<Union>h\<in>set hs. rng h))"
proof -
  have h: "blocks_ok hs" "covered hs \<subseteq> F" "arena_owns m (F - covered hs)" using run_held [OF assms(2,1)] by (auto simp: held_blocks_ok_def)
  have "rng (hs ! i) \<inter> rng (hs ! j) = {}" if "i < length hs" "j < length hs" "i \<noteq> j" for i j
    using h(1) sorted_wrt_nth_less [of _ hs i j] sorted_wrt_nth_less [of _ hs j i] that
    by (cases i j rule: linorder_cases) (auto simp: blocks_ok_def)
  then show ?thesis using h(2,3) by (auto simp: covered_def)
qed

lemma ex_alloc: "Q9K_AllocMem ex_arena 16 = Some (0x40000, arena_take ex_arena 16 0 0x40000)"
proof -
  have h: "Q9K_GetU32 ex_arena Q9K_ARENA_HEAD = 0x40000" using ex_arena_ok by (simp add: arena_def)
  then have "lseg ex_arena 0x40000 [(0x40000, 0x1000)] 0" using ex_arena_ok by (auto simp: arena_def)
  from alloc_loop [OF this, of 16 0] h show ?thesis
    by (simp add: Q9K_AllocMem_def Q9K_RoundUp16_def fits_def block_ok_def)
qed

lemma alloc_head:
  assumes "arena m (b # xs)" "Q9K_RoundUp16 n \<noteq> 0" "fits (Q9K_RoundUp16 n) b"
  obtains m' where "Q9K_AllocMem m n = Some (fst b, m')" "arena m' (split_rest (Q9K_RoundUp16 n) b @ xs)"
proof -
  let ?m = "arena_take m (Q9K_RoundUp16 n) 0 (fst b)"
  have h: "lseg m (Q9K_GetU32 m Q9K_ARENA_HEAD) (b # xs) 0" "\<forall>b\<in>set (b # xs). block_ok b" using assms(1) by (auto simp: arena_def blocks_ok_def)
  then have "Q9K_AllocMem m n = Some (fst b, ?m)" using alloc_loop [OF h, of "Q9K_RoundUp16 n" 0] assms(3) by (simp add: Q9K_AllocMem_def Let_def)
  moreover have "arena ?m ([] @ split_rest (Q9K_RoundUp16 n) b @ xs)"
    using assms rounded_dvd by (intro take_ok) (auto simp: fits_def word_le_nat_alt unat_gt_0)
  ultimately show thesis using that by simp
qed

text \<open>Two blocks are taken, the first is given back and taken again for a smaller request; both are held at the end.\<close>

lemma arena_blocks_disjoint_witness:
  "\<exists>m. arena_run ex_arena (covered [(0x40000, 0x1000)]) m [(0x40000, 16), (0x40010, 32)] \<and>
     rng (0x40000, 16) \<inter> rng (0x40010, 32) = {} \<and> arena_owns m (covered [(0x40000, 0x1000)] - (rng (0x40000, 16) \<union> rng (0x40010, 32)))"
proof -
  let ?F = "covered [(0x40000, 0x1000)]"
  have r: "Q9K_RoundUp16 16 = 16" "Q9K_RoundUp16 32 = 32" "Q9K_RoundUp16 8 = 16" by (simp_all add: Q9K_RoundUp16_def)
  obtain m1 where a1: "Q9K_AllocMem ex_arena 16 = Some (0x40000, m1)" "arena m1 [(0x40010, 0xFF0)]"
    by (rule alloc_head [OF ex_arena_ok, of 16]) (simp_all add: r fits_def split_rest_def)
  have r1: "arena_run ex_arena ?F m1 [(0x40000, 16)]" using run_alloc [OF run_start _ a1(1)] r by simp
  obtain m2 where a2: "Q9K_AllocMem m1 32 = Some (0x40010, m2)" "arena m2 [(0x40030, 0xFD0)]"
    by (rule alloc_head [OF a1(2), of 32]) (simp_all add: r fits_def split_rest_def)
  have r2: "arena_run ex_arena ?F m2 [(0x40010, 32), (0x40000, 16)]" using run_alloc [OF r1 _ a2(1)] r by simp
  have a3: "arena (Q9K_FreeMem m2 0x40000 16) [(0x40000, 16), (0x40030, 0xFD0)]"
    using free_arena [OF a2(2), of "0x40000" 16] by (simp add: r block_ok_def rng_def covered_def)
  have r3: "arena_run ex_arena ?F (Q9K_FreeMem m2 0x40000 16) [(0x40010, 32)]"
    using run_free [where as = "[(0x40010, 32)]" and a = "0x40000" and n = 16 and bs = "[]"] r2 by (simp add: r)
  obtain m4 where a4: "Q9K_AllocMem (Q9K_FreeMem m2 0x40000 16) 8 = Some (0x40000, m4)"
    by (rule alloc_head [OF a3, of 8]) (simp_all add: r fits_def)
  have r4: "arena_run ex_arena ?F m4 [(0x40000, 16), (0x40010, 32)]" using run_alloc [OF r3 _ a4] r by simp
  have "arena_owns ex_arena ?F" using ex_arena_ok by (auto simp: arena_owns_def)
  note d = arena_blocks_disjoint [OF this r4]
  then have "rng (0x40000, 16) \<inter> rng (0x40010, 32) = {}" by (auto simp: less_Suc_eq)
  then show ?thesis using d r4 by (intro exI [of _ m4]) simp
qed

text \<open>C30: releasing a block makes exactly the bytes free again that its allocation took.\<close>

theorem arena_roundtrip:
  assumes "arena_owns m F" "Q9K_RoundUp16 n \<noteq> 0" "Q9K_AllocMem m n = Some (a, m1)" "a \<noteq> 0"
  shows "arena_owns (Q9K_FreeMem m1 a n) F"
  using ar.take_give [of m F n a m1] assms by (simp add: rounded_def unat_gt_0)

lemma arena_roundtrip_witness:
  "arena_owns (Q9K_FreeMem (arena_take ex_arena 16 0 0x40000) 0x40000 16) (covered [(0x40000, 0x1000)])"
proof -
  have o: "arena_owns ex_arena (covered [(0x40000, 0x1000)])" using ex_arena_ok by (auto simp: arena_owns_def)
  show ?thesis by (rule arena_roundtrip [OF o _ ex_alloc]) (simp_all add: Q9K_RoundUp16_def)
qed

text \<open>the largest-block request takes a block that no free block exceeds, or reports failure
  exactly on an empty free list.\<close>

theorem arena_largest_spec:
  assumes "arena m xs"
  shows "if xs = [] then Q9K_AllocLargest m = Some (0, 0, m)
    else \<exists>a s m'. Q9K_AllocLargest m = Some (a, s, m') \<and> a \<noteq> 0 \<and> (\<forall>b\<in>set xs. snd b \<le> s) \<and>
      rng (a, s) \<subseteq> covered xs \<and> arena_owns m' (covered xs - rng (a, s))"
  proof (cases "xs = []")
  case False
  then obtain a s m' ys where l: "Q9K_AllocLargest m = Some (a, s, m')" "block_ok (a, s)" "\<forall>c\<in>set xs. snd c \<le> s"
    "arena m' ys" "rng (a, s) \<subseteq> covered xs" "covered ys = covered xs - rng (a, s)"
    using largest_arena [OF assms] by auto
  then have "arena_owns m' (covered xs - rng (a, s))" by (auto simp: arena_owns_def)
  then show ?thesis using False l block_okD(4) [OF l(2)] by (simp add: Ball_def)
qed (use largest_arena [OF assms] in simp)

lemma arena_largest_spec_witness: "\<exists>a s m'. Q9K_AllocLargest ex_arena = Some (a, s, m') \<and> a \<noteq> 0 \<and> 0x1000 \<le> s"
  using arena_largest_spec [OF ex_arena_ok] by auto

text \<open>C34: a request of size zero, and one of \<open>0xFFFFFFF1\<close> to \<open>0xFFFFFFFF\<close> bytes, rounds to zero
  bytes and is granted on any non-empty arena: the address returned is that of the first free block,
  which stays in the free list, so the next allocation can hand out the same memory.\<close>

theorem arena_zero_aliases:
  assumes "arena m (b # xs)" "n = 0 \<or> n \<ge> 0xFFFFFFF1"
  shows "Q9K_RoundUp16 n = 0 \<and> Q9K_AllocMem m n = Some (fst b, m) \<and> fst b \<noteq> 0"
proof -
  have z: "Q9K_RoundUp16 n = 0"
  proof (cases "n = 0")
    case False
    then have l: "0xFFFFFFF1 \<le> unat n" using assms(2) by (simp add: word_le_nat_alt)
    have "unat (n + 15) = unat n + 15 - 2 ^ 32" using l unat_u32_less [of n] by (simp add: unat_word_ariths mod_if)
    then have "unat (n + 15) < 16" using unat_u32_less [of n] by simp
    then have "drop_bit 4 (n + 15) = 0" by (simp add: word_unat_eq_iff unat_drop_bit_eq drop_bit_eq_div unat_div)
    then show ?thesis unfolding Q9K_RoundUp16_def and_not_15 by simp
  qed (simp add: Q9K_RoundUp16_def)
  have b: "block_ok b" and h: "Q9K_GetU32 m Q9K_ARENA_HEAD = fst b" "Q9K_GetU32 m (fst b + 4) = snd b"
    and l: "lseg m (Q9K_GetU32 m (fst b)) xs 0" and ok: "blocks_ok xs"
    and t: "Q9K_GetU32 m Q9K_ARENA_TAIL = fst (last (b # xs))"
    using assms(1) by (auto simp: arena_def blocks_ok_Cons)
  note bd = block_okD [OF b]
  have "Q9K_GetU32 m (fst b) = 0 \<Longrightarrow> Q9K_GetU32 m Q9K_ARENA_TAIL = fst b"
    using l t ok block_okD(4) by (cases xs) (auto simp: blocks_ok_Cons)
  moreover have "snd b \<ge> 16" using bd(2) by (simp add: word_le_nat_alt)
  ultimately have "arena_take m 0 0 (fst b) = m"
    using h c32.put_get [of m "fst b"] c32.put_get [of m "fst b + 4"] c32.put_get [of m Q9K_ARENA_HEAD]
      c32.put_get [of m Q9K_ARENA_TAIL]
    by (cases "Q9K_GetU32 m (fst b) = 0") (simp_all add: arena_take_def Let_def)
  then show ?thesis using z h(1) bd(4) unfolding Q9K_AllocMem_def by (subst Q9K_AllocMem_loop.simps) simp
qed

lemma arena_zero_aliases_witness: "Q9K_AllocMem ex_arena 0 = Some (0x40000, ex_arena) \<and> Q9K_AllocMem ex_arena 0xFFFFFFF8 = Some (0x40000, ex_arena)"
  using arena_zero_aliases [OF ex_arena_ok, of 0] arena_zero_aliases [OF ex_arena_ok, of "0xFFFFFFF8"] by simp

end
