(* ===== verification/Q9_SysMem_Props.thy ===== *)
theory Q9_SysMem_Props
  imports Q9_SysMem Q9_Arena_Props
begin

text \<open>
  Ownership of system memory: every block in the owner table is allocated, no two of them overlap,
  and releasing all blocks of a process returns exactly these bytes to the arena.  The proofs use
  the arena through its interface \<^verbatim>\<open>block_store\<close> and the frame lemmas below.
\<close>

section \<open>The owner table\<close>

lemma slot_index: "i \<in> set memowner_slots \<Longrightarrow> unat i < 32"
  by (auto simp: memowner_slots_def unat_of_nat_u32)

lemma slot_unat:
  assumes "unat i < 32" "unat x \<le> 8" shows "unat (Q9K_MEMOWNER_OWNER i + x) = 0x1710 + unat i * 12 + unat x"
proof -
  have "unat (i * 12) = unat i * 12" using assms(1) unat_mult_lem [of i 12] by simp
  then have "unat (Q9K_MEMOWNER_OWNER i) = 0x1710 + unat i * 12" using assms(1) unat_offset [of "0x1710" "i * 12"] by simp
  then show ?thesis using assms unat_offset [of "Q9K_MEMOWNER_OWNER i" x] by simp
qed

lemma slot_unats:
  assumes "unat i < 32"
  shows "unat (Q9K_MEMOWNER_OWNER i) = 0x1710 + unat i * 12" "unat (Q9K_MEMOWNER_ADDR i) = 0x1714 + unat i * 12"
    "unat (Q9K_MEMOWNER_SIZE i) = 0x1718 + unat i * 12"
  using slot_unat [OF assms, of 0] slot_unat [OF assms, of 4] slot_unat [OF assms, of 8] by simp_all

lemma slot_cell:
  assumes "unat i < 32" "x \<in> {Q9K_MEMOWNER_OWNER i, Q9K_MEMOWNER_ADDR i, Q9K_MEMOWNER_SIZE i}"
  shows "\<exists>p\<le>8. unat x = 0x1710 + unat i * 12 + p"
  using assms(2) unfolding insert_iff empty_iff
proof (elim disjE FalseE)
  assume "x = Q9K_MEMOWNER_OWNER i" then show ?thesis using slot_unats(1) [OF assms(1)] by (intro exI [of _ 0]) simp
next
  assume "x = Q9K_MEMOWNER_ADDR i" then show ?thesis using slot_unats(2) [OF assms(1)] by (intro exI [of _ 4]) simp
next
  assume "x = Q9K_MEMOWNER_SIZE i" then show ?thesis using slot_unats(3) [OF assms(1)] by (intro exI [of _ 8]) simp
qed

text \<open>A cell of the table and any cell with a disjoint interval of addresses.\<close>

lemma cells_apart:
  "unat a + 4 \<le> unat b \<Longrightarrow> unat b + 4 \<le> 2 ^ 32 \<Longrightarrow> apart a 4 b 4 \<and> apart b 4 a 4" for a b :: u32
  using apart_ranges [of a 4 b 4] apart_ranges [of b 4 a 4] by (auto simp: disjoint_iff)

definition entry :: "memory \<Rightarrow> u32 \<Rightarrow> u32 \<times> u32 \<times> u32" where
  "entry m i = (Q9K_GetU32 m (Q9K_MEMOWNER_OWNER i), Q9K_GetU32 m (Q9K_MEMOWNER_ADDR i), Q9K_GetU32 m (Q9K_MEMOWNER_SIZE i))"

abbreviation owner_of :: "memory \<Rightarrow> u32 \<Rightarrow> u32" where "owner_of m i \<equiv> fst (entry m i)"
abbreviation block_of :: "memory \<Rightarrow> u32 \<Rightarrow> block" where "block_of m i \<equiv> snd (entry m i)"

lemma entry_put:
  assumes "unat i < 32" "unat j < 32"
  shows "entry (memowner_put m i w a s) j = (if j = i then (w, a, s) else entry m j)"
proof (cases "j = i")
  case True
  note u = slot_unats [OF assms(1)]
  have "apart (Q9K_MEMOWNER_ADDR i) 4 (Q9K_MEMOWNER_OWNER i) 4" "apart (Q9K_MEMOWNER_SIZE i) 4 (Q9K_MEMOWNER_OWNER i) 4"
    "apart (Q9K_MEMOWNER_SIZE i) 4 (Q9K_MEMOWNER_ADDR i) 4"
    by (intro cells_apart [THEN conjunct2]; use u assms(1) in simp)+
  then show ?thesis using True by (simp add: entry_def memowner_put_def Let_def)
next
  case False
  have "unat i \<noteq> unat j" using False by (metis word_unat_eq_iff)
  then have ne: "unat i < unat j \<or> unat j < unat i" by (rule nat_neq_iff [THEN iffD1])
  note u = slot_unats [OF assms(1)] slot_unats [OF assms(2)]
  have ap: "apart x 4 y 4"
    if "x \<in> {Q9K_MEMOWNER_OWNER i, Q9K_MEMOWNER_ADDR i, Q9K_MEMOWNER_SIZE i}"
       "y \<in> {Q9K_MEMOWNER_OWNER j, Q9K_MEMOWNER_ADDR j, Q9K_MEMOWNER_SIZE j}" for x y
  proof -
    note xy = slot_cell [OF assms(1) that(1)] slot_cell [OF assms(2) that(2)]
    obtain p q where "unat x = 0x1710 + unat i * 12 + p" "p \<le> 8" "unat y = 0x1710 + unat j * 12 + q" "q \<le> 8"
      using xy by blast
    then have "unat x + 4 \<le> unat y \<or> unat y + 4 \<le> unat x" "unat x + 4 \<le> 0x2000" "unat y + 4 \<le> 0x2000"
      using ne assms by linarith+
    then have "unat x + 4 \<le> unat y \<or> unat y + 4 \<le> unat x" "unat x + 4 \<le> 2 ^ 32" "unat y + 4 \<le> 2 ^ 32" by simp_all
    then show ?thesis using cells_apart by blast
  qed
  show ?thesis using False by (simp add: entry_def memowner_put_def Let_def ap)
qed

section \<open>The arena and the table do not interfere\<close>

text \<open>Cells below the heap other than the two list heads.\<close>

definition low_cell_ok :: "u32 \<Rightarrow> bool" where
  "low_cell_ok g \<longleftrightarrow> unat g + 4 \<le> 0x8000 \<and> (unat g + 4 \<le> 0x404 \<or> 0x40C \<le> unat g)"

lemma table_low: "unat i < 32 \<Longrightarrow> low_cell_ok (Q9K_MEMOWNER_OWNER i)" "unat i < 32 \<Longrightarrow> low_cell_ok (Q9K_MEMOWNER_ADDR i)"
  "unat i < 32 \<Longrightarrow> low_cell_ok (Q9K_MEMOWNER_SIZE i)" "low_cell_ok Q9K_MEMOWNER_MAGIC" "low_cell_ok Q9_D_PROC"
  using slot_unats [of i] by (auto simp: low_cell_ok_def)

lemma low_heads: "low_cell_ok g \<Longrightarrow> apart g 4 Q9K_ARENA_HEAD 4 \<and> apart Q9K_ARENA_HEAD 4 g 4 \<and>
    apart g 4 Q9K_ARENA_TAIL 4 \<and> apart Q9K_ARENA_TAIL 4 g 4"
proof -
  assume g: "low_cell_ok g"
  then have "unat g + 4 \<le> unat Q9K_ARENA_HEAD \<or> unat Q9K_ARENA_HEAD + 4 \<le> unat g"
    "unat g + 4 \<le> unat Q9K_ARENA_TAIL \<or> unat Q9K_ARENA_TAIL + 4 \<le> unat g" "unat g + 4 \<le> 2 ^ 32"
    by (auto simp: low_cell_ok_def)
  moreover have "unat Q9K_ARENA_HEAD + 4 \<le> 2 ^ 32" "unat Q9K_ARENA_TAIL + 4 \<le> 2 ^ 32" by simp_all
  ultimately show ?thesis using cells_apart by blast
qed

lemma arena_low_write:
  assumes "low_cell_ok g" shows "arena (Q9K_SetU32 m g v) xs \<longleftrightarrow> arena m xs"
proof -
  have "lseg (Q9K_SetU32 m g v) p xs 0 = lseg m p xs 0" if "blocks_ok xs" for p
    using that assms low_cell [of _ g] blocks_okD [OF that] by (intro lseg_write ballI conjI) (simp_all add: low_cell_ok_def)
  then show ?thesis using low_heads [OF assms] by (auto simp: arena_def)
qed

lemma owns_low_write: "low_cell_ok g \<Longrightarrow> arena_owns (Q9K_SetU32 m g v) F \<longleftrightarrow> arena_owns m F"
  by (simp add: arena_owns_def arena_low_write)

lemma owns_put: "unat i < 32 \<Longrightarrow> arena_owns (memowner_put m i w a s) F \<longleftrightarrow> arena_owns m F"
  unfolding memowner_put_def Let_def by (simp only: owns_low_write table_low)

lemma free_low:
  assumes "block_ok (a, Q9K_RoundUp16 n)" "low_cell_ok g"
  shows "Q9K_GetU32 (Q9K_FreeMem m a n) g = Q9K_GetU32 m g"
proof -
  have g: "unat g + 4 \<le> 2 ^ 32" "unat g + 4 \<le> 0x8000" using assms(2) by (auto simp: low_cell_ok_def)
  note ap = header_apart [OF assms(1) g(1) low_cell [OF assms(1) g(2)], simplified] low_heads [OF assms(2)]
  show ?thesis using ap by (simp add: Q9K_FreeMem_def Let_def)
qed

lemma entry_free: "block_ok (a, Q9K_RoundUp16 n) \<Longrightarrow> unat i < 32 \<Longrightarrow> entry (Q9K_FreeMem m a n) i = entry m i"
  unfolding entry_def by (simp only: free_low table_low)

lemma round_fixed: "block_ok (a, s) \<Longrightarrow> Q9K_RoundUp16 s = s"
proof -
  assume b: "block_ok (a, s)"
  then have d: "16 dvd unat s" "unat a + unat s \<le> 2 ^ 32" "0x8000 \<le> unat a" by (auto simp: block_ok_def)
  then have "unat (Q9K_RoundUp16 s) = (unat s + 15) div 16 * 16" by (intro round_up_div) simp
  also have "\<dots> = unat s" using d(1) by (auto elim!: dvdE)
  finally show ?thesis by (simp add: word_unat_eq_iff)
qed

section \<open>The invariant\<close>

definition mem_ok :: "memory \<Rightarrow> nat set \<Rightarrow> bool" where
  "mem_ok m F \<longleftrightarrow> arena_owns m F \<and>
     (\<forall>i. unat i < 32 \<longrightarrow> owner_of m i \<noteq> 0 \<longrightarrow> block_ok (block_of m i) \<and> rng (block_of m i) \<inter> F = {}) \<and>
     (\<forall>i j. unat i < 32 \<longrightarrow> unat j < 32 \<longrightarrow> i \<noteq> j \<longrightarrow> owner_of m i \<noteq> 0 \<longrightarrow> owner_of m j \<noteq> 0 \<longrightarrow>
        rng (block_of m i) \<inter> rng (block_of m j) = {})"

text \<open>Releasing one slot of the given owner.\<close>

lemma release_slot:
  assumes k: "mem_ok m F" and i: "unat i < 32" and w: "w \<noteq> 0" and m': "m' = Q9K_ProcMemRelease_slot w i m"
  shows "mem_ok m' (if owner_of m i = w then F \<union> rng (block_of m i) else F)"
    and "\<And>j. unat j < 32 \<Longrightarrow> entry m' j = (if j = i \<and> owner_of m i = w then (0, 0, 0) else entry m j)"
    and "Q9K_GetU32 m' Q9K_MEMOWNER_MAGIC = Q9K_GetU32 m Q9K_MEMOWNER_MAGIC"
proof -
  have "mem_ok m' (if owner_of m i = w then F \<union> rng (block_of m i) else F) \<and>
    (\<forall>j. unat j < 32 \<longrightarrow> entry m' j = (if j = i \<and> owner_of m i = w then (0, 0, 0) else entry m j)) \<and>
    Q9K_GetU32 m' Q9K_MEMOWNER_MAGIC = Q9K_GetU32 m Q9K_MEMOWNER_MAGIC"
  proof (cases "owner_of m i = w")
    case False
    then have "m' = m" by (simp add: m' Q9K_ProcMemRelease_slot_def entry_def)
    then show ?thesis using k False by simp
  next
    case True
    obtain a s where as: "block_of m i = (a, s)" by fastforce
    have b: "block_ok (a, s)" and dF: "rng (a, s) \<inter> F = {}" using k i w True as unfolding mem_ok_def by metis+
    have fx: "Q9K_RoundUp16 s = s" by (rule round_fixed [OF b])
    have nz: "a \<noteq> 0" "s \<noteq> 0" using block_okD(2,4) [OF b] by auto
    define m1 where "m1 = memowner_put m i 0 0 0"
    have e: "m' = Q9K_FreeMem m1 a s"
      using True as nz by (simp add: m' Q9K_ProcMemRelease_slot_def entry_def Let_def m1_def)
    have o1: "arena_owns m1 F" using k i by (simp add: m1_def owns_put mem_ok_def)
    have o: "arena_owns m' (F \<union> rng (a, s))"
      using ar.give [OF o1, of s a] block_okD(1,2,3) [OF b] dF by (simp add: e rounded_def fx rng_def)
    have en: "entry m' j = (if j = i then (0, 0, 0) else entry m j)" if "unat j < 32" for j
      using that entry_free [of a s j m1] b fx entry_put [OF i that, of m 0 0 0] by (simp add: e m1_def)
    have mg: "Q9K_GetU32 m' Q9K_MEMOWNER_MAGIC = Q9K_GetU32 m Q9K_MEMOWNER_MAGIC"
      using free_low [OF _ table_low(4), of a s m1] b fx slot_unats [OF i] i
        cells_apart [of "Q9K_MEMOWNER_OWNER i" Q9K_MEMOWNER_MAGIC] cells_apart [of "Q9K_MEMOWNER_ADDR i" Q9K_MEMOWNER_MAGIC]
        cells_apart [of "Q9K_MEMOWNER_SIZE i" Q9K_MEMOWNER_MAGIC] by (simp add: e m1_def memowner_put_def Let_def)
    have "mem_ok m' (F \<union> rng (a, s))"
      unfolding mem_ok_def
    proof (intro conjI o allI impI)
      fix j assume j: "unat j < 32" "owner_of m' j \<noteq> 0"
      then have ji: "j \<noteq> i" "entry m' j = entry m j" using en [of j] by auto
      have "block_ok (block_of m j)" "rng (block_of m j) \<inter> F = {}" using k j ji unfolding mem_ok_def by metis+
      moreover have "rng (block_of m j) \<inter> rng (block_of m i) = {}" using k j ji i w True unfolding mem_ok_def by metis
      ultimately show "block_ok (block_of m' j)" "rng (block_of m' j) \<inter> (F \<union> rng (a, s)) = {}"
        using ji as by (auto simp: Int_Un_distrib)
    next
      fix j l assume j: "unat j < 32" "unat l < 32" "j \<noteq> l" "owner_of m' j \<noteq> 0" "owner_of m' l \<noteq> 0"
      then have "entry m' j = entry m j" "entry m' l = entry m l" using en by auto
      then show "rng (block_of m' j) \<inter> rng (block_of m' l) = {}" using k j unfolding mem_ok_def by metis
    qed
    then show ?thesis using True as en mg by simp
  qed
  then show "mem_ok m' (if owner_of m i = w then F \<union> rng (block_of m i) else F)"
    "\<And>j. unat j < 32 \<Longrightarrow> entry m' j = (if j = i \<and> owner_of m i = w then (0, 0, 0) else entry m j)"
    "Q9K_GetU32 m' Q9K_MEMOWNER_MAGIC = Q9K_GetU32 m Q9K_MEMOWNER_MAGIC" by blast+
qed

lemma release_slots:
  assumes "mem_ok m F" "\<forall>i\<in>set is. unat i < 32" "distinct is" "w \<noteq> 0"
  shows "mem_ok (fold (Q9K_ProcMemRelease_slot w) is m) (F \<union> (\<Union>i\<in>{i\<in>set is. owner_of m i = w}. rng (block_of m i))) \<and>
    (\<forall>j. unat j < 32 \<longrightarrow> entry (fold (Q9K_ProcMemRelease_slot w) is m) j =
       (if j \<in> set is \<and> owner_of m j = w then (0, 0, 0) else entry m j))"
  using assms(1-3)
proof (induction "is" arbitrary: m F)
  case (Cons i "is")
  define m1 where "m1 = Q9K_ProcMemRelease_slot w i m"
  note st = release_slot [OF Cons.prems(1) _ assms(4) m1_def]
  have i: "unat i < 32" using Cons.prems by simp
  define F1 where "F1 = (if owner_of m i = w then F \<union> rng (block_of m i) else F)"
  have same: "entry m1 j = entry m j" if "j \<in> set is" for j
    using that Cons.prems(2,3) st(2) [OF i, of j] by auto
  have IH: "mem_ok (fold (Q9K_ProcMemRelease_slot w) is m1) (F1 \<union> (\<Union>i\<in>{i\<in>set is. owner_of m1 i = w}. rng (block_of m1 i))) \<and>
    (\<forall>j. unat j < 32 \<longrightarrow> entry (fold (Q9K_ProcMemRelease_slot w) is m1) j =
       (if j \<in> set is \<and> owner_of m1 j = w then (0, 0, 0) else entry m1 j))"
    using Cons.IH [OF st(1) [OF i, folded F1_def]] Cons.prems by simp
  have "F1 \<union> (\<Union>i\<in>{i\<in>set is. owner_of m1 i = w}. rng (block_of m1 i)) =
      F \<union> (\<Union>i\<in>{j\<in>set (i # is). owner_of m j = w}. rng (block_of m i))"
    using same by (auto simp: F1_def)
  moreover have "(if j \<in> set is \<and> owner_of m1 j = w then (0, 0, 0) else entry m1 j) =
      (if j \<in> set (i # is) \<and> owner_of m j = w then (0, 0, 0) else entry m j)" if "unat j < 32" for j
    using st(2) [OF i that] same [of j] assms(4) by auto
  ultimately show ?case using IH by (simp add: m1_def [symmetric])
qed simp

section \<open>Releasing all memory of a process\<close>

lemma slots_all: "set memowner_slots = {i. unat i < 32}" "distinct memowner_slots"
proof -
  have "i \<in> set memowner_slots" if "unat i < 32" for i :: u32
    using that unfolding memowner_slots_def set_map by (intro image_eqI [of _ _ "unat i"]) simp_all
  then show "set memowner_slots = {i. unat i < 32}" using slot_index by auto
  show "distinct memowner_slots"
    unfolding memowner_slots_def distinct_map by (auto intro!: inj_onI simp: word_unat_eq_iff unat_of_nat_u32)
qed

text \<open>The blocks a process owns.\<close>

definition owned :: "memory \<Rightarrow> u32 \<Rightarrow> nat set" where
  "owned m w = (\<Union>i\<in>{i. unat i < 32 \<and> owner_of m i = w}. rng (block_of m i))"

text \<open>
  C31: with an initialised owner table, \<^verbatim>\<open>Q9K_ProcMemReleaseAll\<close> returns exactly the
  blocks owned by the given process to the free list, clears their entries, keeps the entries of
  every other process, and keeps the invariant that owned blocks are allocated and disjoint.
\<close>

theorem release_all_spec:
  assumes "mem_ok m F" "w \<noteq> 0" "Q9K_GetU32 m Q9K_MEMOWNER_MAGIC = memowner_magic"
  shows "mem_ok (Q9K_ProcMemReleaseAll m w) (F \<union> owned m w) \<and> F \<inter> owned m w = {} \<and>
    (\<forall>i. unat i < 32 \<longrightarrow> entry (Q9K_ProcMemReleaseAll m w) i = (if owner_of m i = w then (0, 0, 0) else entry m i))"
proof -
  have "F \<inter> owned m w = {}" using assms(1,2) unfolding mem_ok_def owned_def by blast
  moreover have "Q9K_ProcMemReleaseAll m w = fold (Q9K_ProcMemRelease_slot w) memowner_slots m"
    using assms by (simp add: Q9K_ProcMemReleaseAll_def Q9K_ProcMemTrackEnsure_def)
  ultimately show ?thesis
    using release_slots [OF assms(1) _ slots_all(2) assms(2)] by (simp add: slots_all(1) owned_def)
qed

section \<open>Requests\<close>

lemma take_low:
  assumes A: "arena m (pre @ b # post)" and n: "16 dvd unat needed" "0 < unat needed" "unat needed \<le> unat (snd b)"
    and g: "low_cell_ok g"
  shows "Q9K_GetU32 (arena_take m needed (if pre = [] then 0 else fst (last pre)) (fst b)) g = Q9K_GetU32 m g"
proof -
  have ok: "blocks_ok (pre @ b # post)" and sz: "Q9K_GetU32 m (fst b + 4) = snd b"
    using A by (auto simp: arena_def lseg_append)
  then have b: "block_ok b" by (simp add: blocks_ok_append blocks_ok_Cons)
  have g': "unat g + 4 \<le> 2 ^ 32" "unat g + 4 \<le> 0x8000" using g by (auto simp: low_cell_ok_def)
  have ap: "apart (fst c) 4 g 4 \<and> apart (fst c + 4) 4 g 4" if "block_ok c" for c
    using header_apart(3,4) [OF that g'(1) low_cell [OF that g'(2)]] by simp
  have pr: "pre \<noteq> [] \<Longrightarrow> apart (fst (last pre)) 4 g 4" using ok blocks_okD [of pre "last pre"] ap [of "last pre"] by (simp add: blocks_ok_append)
  show ?thesis
  proof (cases "snd b - needed \<ge> 16")
    case True
    then have "split_rest needed b = [(fst b + needed, snd b - needed)]"
      using split_rest_ok(4) [OF b n] by (auto simp: split_rest_def split: if_splits)
    then have "block_ok (fst b + needed, snd b - needed)" using split_rest_ok(1) [OF b n] by (simp add: blocks_ok_Cons)
    from ap [OF this] True show ?thesis using pr low_heads [OF g] sz by (simp add: arena_take_def Let_def)
  next
    case False
    then show ?thesis using pr low_heads [OF g] sz by (simp add: arena_take_def Let_def)
  qed
qed

lemma alloc_low:
  assumes A: "arena_owns m F" and n: "Q9K_RoundUp16 sz \<noteq> 0" and e: "Q9K_AllocMem m sz = Some (a, m')" and g: "low_cell_ok g"
  shows "Q9K_GetU32 m' g = Q9K_GetU32 m g"
proof -
  let ?P = "\<lambda>b. \<not> fits (Q9K_RoundUp16 sz) b"
  obtain xs where A: "arena m xs" using A by (auto simp: arena_owns_def)
  then have "lseg m (Q9K_GetU32 m Q9K_ARENA_HEAD) xs 0" "\<forall>b\<in>set xs. block_ok b" by (simp_all add: arena_def blocks_ok_def)
  note lp = alloc_loop [OF this, of "Q9K_RoundUp16 sz" 0, folded Q9K_AllocMem_def]
  show ?thesis
  proof (cases "dropWhile ?P xs")
    case Nil
    then show ?thesis using lp e by (simp only: list.case option.inject prod.inject)
  next
    case (Cons b post)
    then have xs: "xs = takeWhile ?P xs @ b # post" using takeWhile_dropWhile_id [of ?P xs] by simp
    have "fits (Q9K_RoundUp16 sz) b" using hd_dropWhile [of ?P xs] Cons by auto
    then have "unat (Q9K_RoundUp16 sz) \<le> unat (snd b)" by (simp add: fits_def word_le_nat_alt)
    then show ?thesis
      using take_low [of m "takeWhile ?P xs" b post "Q9K_RoundUp16 sz" g] A n g rounded_dvd lp e Cons xs
      by (simp add: Let_def unat_gt_0)
  qed
qed

lemma alloc_block_ok:
  assumes "arena_owns m F" "Q9K_RoundUp16 n \<noteq> 0" "Q9K_AllocMem m n = Some (a, m')" "a \<noteq> 0"
  shows "block_ok (a, Q9K_RoundUp16 n)" "rng (a, Q9K_RoundUp16 n) \<subseteq> F" "arena_owns m' (F - rng (a, Q9K_RoundUp16 n))"
proof -
  have pos: "0 < rounded n" using assms(2) by (simp add: rounded_def unat_gt_0)
  from ar.take_some [OF assms(1) pos assms(3,4)]
  show sub: "rng (a, Q9K_RoundUp16 n) \<subseteq> F" and "arena_owns m' (F - rng (a, Q9K_RoundUp16 n))" by (auto simp: rng_def rounded_def)
  have ge: "16 \<le> unat (Q9K_RoundUp16 n)" using pos rounded_dvd [of n] by (auto simp: rounded_def intro: dvd_imp_le)
  then have "unat a \<in> F" "unat a + unat (Q9K_RoundUp16 n) - 1 \<in> F" using sub by (auto simp: rng_def)
  from ar.owned [OF assms(1) this(1)] ar.owned [OF assms(1) this(2)] ge
  show "block_ok (a, Q9K_RoundUp16 n)" using rounded_dvd by (auto simp: block_ok_def)
qed

text \<open>Recording a block that was just taken out of the free bytes.\<close>

lemma track_ok:
  assumes k: "mem_ok m F" and o: "arena_owns m' (F - rng (a, s))" and b: "block_ok (a, s)" "rng (a, s) \<subseteq> F"
    and en: "\<And>j. unat j < 32 \<Longrightarrow> entry m' j = entry m j" and i: "unat i < 32" "owner_of m i = 0"
  shows "mem_ok (memowner_put m' i w a s) (F - rng (a, s))"
proof -
  have e: "entry (memowner_put m' i w a s) j = (if j = i then (w, a, s) else entry m j)" if "unat j < 32" for j
    using entry_put [OF i(1) that] en [OF that] by simp
  have old: "block_ok (block_of m j)" "rng (block_of m j) \<inter> F = {}" if "unat j < 32" "owner_of m j \<noteq> 0" for j
    using k that unfolding mem_ok_def by metis+
  have dj: "rng (block_of m j) \<inter> rng (block_of m l) = {}"
    if "unat j < 32" "unat l < 32" "j \<noteq> l" "owner_of m j \<noteq> 0" "owner_of m l \<noteq> 0" for j l
    using k that unfolding mem_ok_def by metis
  show ?thesis
    unfolding mem_ok_def
  proof (intro conjI allI impI)
    show "arena_owns (memowner_put m' i w a s) (F - rng (a, s))" using o owns_put [OF i(1)] by simp
  next
    fix j assume j: "unat j < 32" "owner_of (memowner_put m' i w a s) j \<noteq> 0"
    show "block_ok (block_of (memowner_put m' i w a s) j)" "rng (block_of (memowner_put m' i w a s) j) \<inter> (F - rng (a, s)) = {}"
      using j e [OF j(1)] b(1) old [OF j(1)] by (cases "j = i"; auto)+
  next
    fix j l assume j: "unat j < 32" "unat l < 32" "j \<noteq> l" "owner_of (memowner_put m' i w a s) j \<noteq> 0"
      "owner_of (memowner_put m' i w a s) l \<noteq> 0"
    show "rng (block_of (memowner_put m' i w a s) j) \<inter> rng (block_of (memowner_put m' i w a s) l) = {}"
      using j e [OF j(1)] e [OF j(2)] old(2) [OF j(1)] old(2) [OF j(2)] dj [OF j(1-3)] b(2)
      by (cases "j = i"; cases "l = i"; simp; blast)
  qed
qed

text \<open>
  A request of a size that does not round to zero, made by a process while the owner
  table has a free entry, always returns.  It fails with E$MemFul and changes nothing, or it takes the
  rounded block out of the free bytes, enters it for the process in exactly one free entry and keeps
  the invariant.
\<close>

theorem srqmem_spec:
  assumes k: "mem_ok m F" and mg: "Q9K_GetU32 m Q9K_MEMOWNER_MAGIC = memowner_magic"
    and n: "Q9K_RoundUp16 n \<noteq> 0" and p: "Q9K_GetU32 m Q9_D_PROC \<noteq> 0" and free: "unat i0 < 32" "owner_of m i0 = 0"
  shows "\<exists>r. Q9K_ProcSRqMem m n = Some r \<and> (case r of
     Inl (e, m') \<Rightarrow> e = Q9K_E_MEMFUL \<and> m' = m
   | Inr (a, s, m') \<Rightarrow> s = Q9K_RoundUp16 n \<and> rng (a, s) \<subseteq> F \<and> mem_ok m' (F - rng (a, s)) \<and>
       (\<exists>i. unat i < 32 \<and> owner_of m i = 0 \<and> entry m' i = (Q9K_GetU32 m Q9_D_PROC, a, s) \<and>
         (\<forall>j. unat j < 32 \<longrightarrow> j \<noteq> i \<longrightarrow> entry m' j = entry m j)))"
proof -
  have o: "arena_owns m F" using k by (simp add: mem_ok_def)
  have nn: "n \<noteq> 0xFFFFFFFF" using n by (auto simp: Q9K_RoundUp16_def)
  have en: "Q9K_ProcMemTrackEnsure m = m" using mg by (simp add: Q9K_ProcMemTrackEnsure_def)
  have "0 < rounded n" using n by (simp add: rounded_def unat_gt_0)
  from ar.take_total [OF o this] ar.take_fail [OF o this]
  obtain a m' where al: "Q9K_AllocMem m n = Some (a, m')" and z: "a = 0 \<Longrightarrow> m' = m" by blast
  show ?thesis
  proof (cases "a = 0")
    case True
    then show ?thesis using z al nn by (simp add: Q9K_ProcSRqMem_def en)
  next
    case False
    note ab = alloc_block_ok [OF o n al False]
    have low: "Q9K_GetU32 m' g = Q9K_GetU32 m g" if "low_cell_ok g" for g by (rule alloc_low [OF o n al that])
    have same: "entry m' j = entry m j" if "unat j < 32" for j
      unfolding entry_def using that by (simp only: low table_low)
    have "i0 \<in> set memowner_slots" using free slots_all(1) by simp
    then obtain i where f: "List.find (\<lambda>i. Q9K_GetU32 m' (Q9K_MEMOWNER_OWNER i) = 0) memowner_slots = Some i"
      using free same [OF free(1)] by (cases "List.find (\<lambda>i. Q9K_GetU32 m' (Q9K_MEMOWNER_OWNER i) = 0) memowner_slots")
        (auto simp: find_None_iff entry_def)
    then have "i \<in> set memowner_slots \<and> Q9K_GetU32 m' (Q9K_MEMOWNER_OWNER i) = 0" by (auto simp: find_Some_iff)
    then have i: "unat i < 32" "owner_of m i = 0" using slots_all(1) same [of i] by (auto simp: entry_def)
    have e: "Q9K_ProcSRqMem m n = Some (Inr (a, Q9K_RoundUp16 n, memowner_put m' i (Q9K_GetU32 m Q9_D_PROC) a (Q9K_RoundUp16 n)))"
      using al nn False n p f low [OF table_low(5)] by (simp add: Q9K_ProcSRqMem_def en Q9K_ProcMemTrackAdd_def Let_def)
    have "mem_ok (memowner_put m' i (Q9K_GetU32 m Q9_D_PROC) a (Q9K_RoundUp16 n)) (F - rng (a, Q9K_RoundUp16 n))"
      by (rule track_ok [OF k ab(3,1,2) same i])
    then show ?thesis unfolding e using ab(2) i entry_put [OF i(1)] same
      by (intro exI [of _ "Inr (a, Q9K_RoundUp16 n, memowner_put m' i (Q9K_GetU32 m Q9_D_PROC) a (Q9K_RoundUp16 n))"] conjI refl)
        (simp, intro exI [of _ i], simp)
  qed
qed

section \<open>Example\<close>

text \<open>One block of 16 bytes, held by the process whose descriptor is at \<open>0x3000\<close>.\<close>

definition ex_owned :: memory where
  "ex_owned = memowner_put (Q9K_SetU32 (Q9K_SetU32 (arena_take ex_arena 16 0 0x40000) Q9K_MEMOWNER_MAGIC memowner_magic)
     Q9_D_PROC 0x3000) 0 0x3000 0x40000 16"

definition ex_free :: "nat set" where
  "ex_free = covered [(0x40000, 0x1000)] - rng (0x40000, 16)"

lemma ex_owned_cells:
  "unat j < 32 \<Longrightarrow> entry ex_owned j = (if j = 0 then (0x3000, 0x40000, 16) else (0, 0, 0))"
  "Q9K_GetU32 ex_owned Q9K_MEMOWNER_MAGIC = memowner_magic" "Q9K_GetU32 ex_owned Q9_D_PROC = 0x3000"
proof -
  let ?m = "arena_take ex_arena 16 0 0x40000"
  have t: "Q9K_GetU32 ?m g = Q9K_GetU32 ex_arena g" if "low_cell_ok g" for g
    using alloc_low [OF _ _ ex_alloc that] ex_arena_ok by (auto simp: arena_owns_def Q9K_RoundUp16_def)
  have zero: "Q9K_GetU32 ex_arena g = 0" if "low_cell_ok g" for g
  proof -
    have g: "unat g + 4 \<le> 2 ^ 32" "unat g + 4 \<le> 0x8000" using that by (auto simp: low_cell_ok_def)
    have b: "block_ok (0x40000, 0x1000)" by (simp add: block_ok_def)
    note ap = header_apart [OF b g(1) low_cell [OF b g(2)], simplified]
    have "Q9K_GetU32 (\<lambda>_. 0) g = 0" by (simp add: Q9K_GetU32_def)
    then show ?thesis using ap low_heads [OF that] by (simp add: ex_arena_def Q9K_ArenaInit_def Let_def)
  qed
  have ap: "apart Q9K_MEMOWNER_MAGIC 4 g 4" "apart Q9_D_PROC 4 g 4"
    if j: "unat j < 32" and g: "g \<in> {Q9K_MEMOWNER_OWNER j, Q9K_MEMOWNER_ADDR j, Q9K_MEMOWNER_SIZE j}" for j g
  proof -
    obtain q where "unat g = 0x1710 + unat j * 12 + q" "q \<le> 8" using slot_cell [OF j g] by blast
    then have "unat g + 4 \<le> unat Q9K_MEMOWNER_MAGIC" "unat Q9_D_PROC + 4 \<le> unat g" using j by simp_all
    then show "apart Q9K_MEMOWNER_MAGIC 4 g 4" "apart Q9_D_PROC 4 g 4"
      using cells_apart [of g Q9K_MEMOWNER_MAGIC] cells_apart [of Q9_D_PROC g] by simp_all
  qed
  show "entry ex_owned j = (if j = 0 then (0x3000, 0x40000, 16) else (0, 0, 0))" if j: "unat j < 32"
  proof (cases "j = 0")
    case False
    then have "entry ex_owned j = entry ?m j"
      using ap [OF j] entry_put [of 0 j] j by (simp add: ex_owned_def entry_def)
    also have "\<dots> = (0, 0, 0)" unfolding entry_def using j by (simp only: t zero table_low)
    finally show ?thesis using False by simp
  qed (use entry_put [of 0 0] in \<open>simp add: ex_owned_def\<close>)
  show "Q9K_GetU32 ex_owned Q9K_MEMOWNER_MAGIC = memowner_magic" "Q9K_GetU32 ex_owned Q9_D_PROC = 0x3000"
    by (simp_all add: ex_owned_def memowner_put_def Let_def)
qed

lemma ex_owned_ok: "mem_ok ex_owned ex_free"
proof -
  have b: "block_ok (0x40000, 16)" by (simp add: block_ok_def)
  have r: "Q9K_RoundUp16 16 = 16" by (simp add: Q9K_RoundUp16_def)
  have "arena_owns ex_arena (covered [(0x40000, 0x1000)])" using ex_arena_ok by (auto simp: arena_owns_def)
  from alloc_block_ok(3) [OF this _ ex_alloc] r
  have "arena_owns (arena_take ex_arena 16 0 0x40000) ex_free" by (simp add: ex_free_def)
  then have "arena_owns ex_owned ex_free"
    unfolding ex_owned_def by (simp only: owns_put unat_0 zero_less_numeral owns_low_write table_low)
  then show ?thesis using ex_owned_cells(1) b by (auto simp: mem_ok_def ex_free_def)
qed

lemma release_all_spec_witness:
  "mem_ok (Q9K_ProcMemReleaseAll ex_owned 0x3000) (ex_free \<union> owned ex_owned 0x3000) \<and>
   entry (Q9K_ProcMemReleaseAll ex_owned 0x3000) 0 = (0, 0, 0)"
  using release_all_spec [OF ex_owned_ok _ ex_owned_cells(2), of "0x3000"] ex_owned_cells(1) [of 0] by simp

lemma srqmem_spec_witness: "\<exists>r. Q9K_ProcSRqMem ex_owned 100 = Some r"
  using srqmem_spec [OF ex_owned_ok ex_owned_cells(2), of 100 1] ex_owned_cells(1) [of 1] ex_owned_cells(3)
  by (auto simp: Q9K_RoundUp16_def)

end
