(* ===== verification/Q9_Bitmap.thy ===== *)
theory Q9_Bitmap
  imports Q9_Memory
begin

text \<open>
  The allocation bitmaps of \<^verbatim>\<open>q9kernel_bitmap.c\<close> (F$SchBit, F$AllBit, F$DelBit): the most significant
  bit of a byte is its first bit, a set bit is allocated.
\<close>

section \<open>Bits\<close>

definition Q9K_BitGetByte :: "memory \<Rightarrow> u32 \<Rightarrow> u32 \<Rightarrow> u8" where
  "Q9K_BitGetByte m base index = Q9K_GetU8 m (base + index)"

definition Q9K_BitSetByte :: "memory \<Rightarrow> u32 \<Rightarrow> u32 \<Rightarrow> u8 \<Rightarrow> memory" where
  "Q9K_BitSetByte m base index value = Q9K_SetU8 m (base + index) value"

definition Q9K_BitMask :: "u32 \<Rightarrow> u8" where
  "Q9K_BitMask bit' = drop_bit (unat (bit' AND 7)) 0x80"

definition Q9K_BitmapTest :: "memory \<Rightarrow> u32 \<Rightarrow> u32 \<Rightarrow> bool" where
  "Q9K_BitmapTest m base bit' = (Q9K_BitGetByte m base (drop_bit 3 bit') AND Q9K_BitMask bit' \<noteq> 0)"

section \<open>Allocation and release\<close>

text \<open>The loop \<^verbatim>\<open>for (bit = firstBit; bit < firstBit + count; bit++)\<close>; the limit is a 32-bit sum.\<close>

function bit_range :: "u32 \<Rightarrow> u32 \<Rightarrow> u32 list" where
  "bit_range b limit = (if b < limit then b # bit_range (b + 1) limit else [])"
  by pat_completeness auto
termination
  by (relation "measure (\<lambda>(b, limit). unat limit - unat b)") (simp_all add: unat_countdown)

declare bit_range.simps [simp del]

definition Q9K_BitmapAllocate :: "memory \<Rightarrow> u32 \<Rightarrow> u32 \<Rightarrow> u32 \<Rightarrow> memory" where
  "Q9K_BitmapAllocate m base firstBit count =
     fold (\<lambda>b m. Q9K_BitSetByte m base (drop_bit 3 b) (Q9K_BitGetByte m base (drop_bit 3 b) OR Q9K_BitMask b))
       (bit_range firstBit (firstBit + count)) m"

definition Q9K_BitmapDeallocate :: "memory \<Rightarrow> u32 \<Rightarrow> u32 \<Rightarrow> u32 \<Rightarrow> memory" where
  "Q9K_BitmapDeallocate m base firstBit count =
     fold (\<lambda>b m. Q9K_BitSetByte m base (drop_bit 3 b) (Q9K_BitGetByte m base (drop_bit 3 b) AND NOT (Q9K_BitMask b)))
       (bit_range firstBit (firstBit + count)) m"

section \<open>Search\<close>

record bit_search =
  runStart :: u32
  runLength :: u32
  bestStart :: u32
  bestLength :: u32

fun Q9K_BitmapSearch_loop :: "memory \<Rightarrow> u32 \<Rightarrow> u32 \<Rightarrow> u32 list \<Rightarrow> bit_search \<Rightarrow> bool \<times> u32 \<times> u32" where
  "Q9K_BitmapSearch_loop m base count [] s = (False, bestStart s, bestLength s)"
| "Q9K_BitmapSearch_loop m base count (b # bs) s =
     (if Q9K_BitmapTest m base b then Q9K_BitmapSearch_loop m base count bs (s\<lparr>runLength := 0\<rparr>)
      else
        let start = (if runLength s = 0 then b else runStart s);
            len = runLength s + 1;
            s1 = s\<lparr>runStart := start, runLength := len\<rparr>;
            s2 = (if len > bestLength s then s1\<lparr>bestStart := start, bestLength := len\<rparr> else s1)
        in if count \<noteq> 0 \<and> len \<ge> count then (True, start, count)
           else Q9K_BitmapSearch_loop m base count bs s2)"

definition Q9K_BitmapSearch :: "memory \<Rightarrow> u32 \<Rightarrow> u32 \<Rightarrow> u32 \<Rightarrow> u32 \<Rightarrow> bool \<times> u32 \<times> u32" where
  "Q9K_BitmapSearch m base endExclusive firstBit count =
     (if base = 0 \<or> endExclusive \<le> base then (False, 0, 0)
      else
        let totalBits = (endExclusive - base) * 8 in
        if firstBit \<ge> totalBits then (False, 0, 0)
        else Q9K_BitmapSearch_loop m base count (bit_range firstBit totalBits)
               \<lparr>runStart = 0, runLength = 0, bestStart = 0, bestLength = 0\<rparr>)"

section \<open>The calls\<close>

definition Q9K_SysSchBitImpl :: "memory \<Rightarrow> memory" where
  "Q9K_SysSchBitImpl m =
     (let (ok, start, found) = Q9K_BitmapSearch m (Q9K_GetU32 m 0x1B48) (Q9K_GetU32 m 0x1B4C)
                                 (Q9K_GetU32 m 0x1B40) (Q9K_GetU32 m 0x1B44)
      in Q9K_SetU32 (Q9K_SetU32 (Q9K_SetU32 m 0x1B40 start) 0x1B44 found) 0x1B54 (if ok then 1 else 0))"

definition Q9K_SysAllBitImpl :: "memory \<Rightarrow> memory" where
  "Q9K_SysAllBitImpl m =
     (let base = Q9K_GetU32 m 0x1B48 in
      if base = 0 then Q9K_SetU32 (Q9K_SetU32 m 0x1B50 0xD2) 0x1B54 0
      else Q9K_SetU32 (Q9K_BitmapAllocate m base (Q9K_GetU32 m 0x1B40) (Q9K_GetU32 m 0x1B44)) 0x1B54 1)"

definition Q9K_SysDelBitImpl :: "memory \<Rightarrow> memory" where
  "Q9K_SysDelBitImpl m =
     (let base = Q9K_GetU32 m 0x1B48 in
      if base = 0 then Q9K_SetU32 (Q9K_SetU32 m 0x1B50 0xD2) 0x1B54 0
      else Q9K_SetU32 (Q9K_BitmapDeallocate m base (Q9K_GetU32 m 0x1B40) (Q9K_GetU32 m 0x1B44)) 0x1B54 1)"

end
