(* ===== verification/Q9_RingBuf.thy ===== *)
theory Q9_RingBuf
  imports Q9_Prelude
begin

text \<open>
  The record-oriented ring buffer of \<^verbatim>\<open>q9ringbuf.c\<close> (trace buffer).  The descriptor block is a record;
  its data area, which in the source is a pointer to caller memory that nothing else touches, is
  the byte list \<open>data\<close> of length \<open>size\<close>.  The formatter of the loss marker is a function from the
  number of lost records to the bytes it writes.
\<close>

abbreviation Q9RB_MODE_OVERWRITE :: u8 where "Q9RB_MODE_OVERWRITE \<equiv> 0"
abbreviation Q9RB_MODE_HALT :: u8 where "Q9RB_MODE_HALT \<equiv> 1"
abbreviation Q9RINGBUF_LENOFF :: u32 where "Q9RINGBUF_LENOFF \<equiv> 1"

record Q9RingBuf =
  rbData :: "u8 list"
  rbSize :: u32
  writeOff :: u32
  readOff :: u32
  used :: u32
  writtenCount :: u32
  lostCount :: u32
  lostFmt :: "(u32 \<Rightarrow> u8 list) option"
  rbMode :: u8
  rbId :: u8
  rbName :: string

section \<open>Operations\<close>

definition Q9RingBufInit :: "u8 list \<Rightarrow> u32 \<Rightarrow> u8 \<Rightarrow> string \<Rightarrow> u8 \<Rightarrow> Q9RingBuf" where
  "Q9RingBufInit dat sz ident nam md =
     \<lparr>rbData = dat, rbSize = sz, writeOff = 0, readOff = 0, used = 0, writtenCount = 0, lostCount = 0,
      lostFmt = None, rbMode = md, rbId = ident, rbName = take 15 nam\<rparr>"

definition Q9RingBufSetLostFormatter :: "Q9RingBuf \<Rightarrow> (u32 \<Rightarrow> u8 list) option \<Rightarrow> Q9RingBuf" where
  "Q9RingBufSetLostFormatter rb fmt = rb\<lparr>lostFmt := fmt\<rparr>"

definition RecLenAt :: "Q9RingBuf \<Rightarrow> u32 \<Rightarrow> u32" where
  "RecLenAt rb off =
     (let lenOff0 = off + Q9RINGBUF_LENOFF;
          lenOff = (if lenOff0 \<ge> rbSize rb then lenOff0 - rbSize rb else lenOff0)
      in ucast (rbData rb ! unat lenOff))"

text \<open>The loop \<^verbatim>\<open>for (i = 0; i < len; i++)\<close> over the source bytes: the target index of byte \<open>i\<close> is
  \<open>off + i\<close>, reduced once by the size.\<close>

fun CopyIn :: "u8 list \<Rightarrow> u32 \<Rightarrow> u32 \<Rightarrow> u8 list \<Rightarrow> u8 list" where
  "CopyIn dat sz at [] = dat"
| "CopyIn dat sz at (b # bs) =
     CopyIn (dat[unat (if at \<ge> sz then at - sz else at) := b]) sz (at + 1) bs"

text \<open>The loop that sacrifices old records; the result is the buffer, the free bytes and the number
  of records lost.  It ends because \<open>used\<close> shrinks in every round.\<close>

function rb_sacrifice :: "u32 \<Rightarrow> Q9RingBuf \<Rightarrow> u32 \<Rightarrow> u32 \<Rightarrow> Q9RingBuf \<times> u32 \<times> u32" where
  "rb_sacrifice need rb free lostThisOp =
     (if need > free then
        let oldLen = RecLenAt rb (readOff rb) in
        if oldLen = 0 \<or> oldLen > used rb
        then (rb\<lparr>readOff := writeOff rb, used := 0\<rparr>, rbSize rb, lostThisOp)
        else
          let r0 = readOff rb + oldLen;
              r1 = (if r0 \<ge> rbSize rb then r0 - rbSize rb else r0)
          in rb_sacrifice need
               (rb\<lparr>readOff := r1, used := used rb - oldLen, lostCount := lostCount rb + 1\<rparr>)
               (free + oldLen) (lostThisOp + 1)
      else (rb, free, lostThisOp))"
  by pat_completeness auto
termination
proof (relation "measure (\<lambda>(_, rb, _, _). unat (used rb))")
  fix need free lostThisOp :: u32 and rb :: Q9RingBuf and oldLen r0 r1 :: u32
  assume "oldLen = RecLenAt rb (readOff rb)" "\<not> (oldLen = 0 \<or> oldLen > used rb)"
  then have "unat (used rb - oldLen) < unat (used rb)"
    by (intro unat_sub_less)
  then show "((need, rb\<lparr>readOff := r1, used := used rb - oldLen, lostCount := lostCount rb + 1\<rparr>, free + oldLen,
      lostThisOp + 1), need, rb, free, lostThisOp) \<in> measure (\<lambda>(_, rb, _, _). unat (used rb))" by simp
qed simp

declare rb_sacrifice.simps [simp del]

text \<open>The loss marker is placed directly in front of the new read position.\<close>

definition rb_marker :: "(u32 \<Rightarrow> u8 list) \<Rightarrow> u32 \<Rightarrow> u32 \<Rightarrow> Q9RingBuf \<Rightarrow> Q9RingBuf" where
  "rb_marker fmt markerLen lostThisOp rb =
     (let bytes = fmt lostThisOp;
          p0 = readOff rb + rbSize rb - markerLen;
          markerPos = (if p0 \<ge> rbSize rb then p0 - rbSize rb else p0)
      in rb\<lparr>rbData := CopyIn (rbData rb) (rbSize rb) markerPos bytes, readOff := markerPos,
            used := used rb + of_nat (length bytes)\<rparr>)"

definition rb_make_room :: "Q9RingBuf \<Rightarrow> u32 \<Rightarrow> u32 \<Rightarrow> Q9RingBuf" where
  "rb_make_room rb recLen free =
     (let markerLen0 = (case lostFmt rb of Some fmt \<Rightarrow> of_nat (length (fmt 0)) | None \<Rightarrow> 0);
          markerLen = (if markerLen0 > rbSize rb then 0 else markerLen0);
          (rb1, free1, lostThisOp) = rb_sacrifice (recLen + markerLen) rb free 0
      in case lostFmt rb1 of
           Some fmt \<Rightarrow> if lostThisOp > 0 \<and> markerLen > 0 then rb_marker fmt markerLen lostThisOp rb1 else rb1
         | None \<Rightarrow> rb1)"

definition Q9RingBufWrite :: "Q9RingBuf \<Rightarrow> u8 list \<Rightarrow> bool \<times> Q9RingBuf" where
  "Q9RingBufWrite rb rec =
     (let recLen = of_nat (length rec) in
      if recLen = 0 \<or> recLen > rbSize rb then (False, rb)
      else
        let free = rbSize rb - used rb in
        if recLen > free \<and> rbMode rb = Q9RB_MODE_HALT then (False, rb\<lparr>lostCount := lostCount rb + 1\<rparr>)
        else
          let rb1 = (if recLen > free then rb_make_room rb recLen free else rb);
              w0 = writeOff rb1 + recLen;
              w1 = (if w0 \<ge> rbSize rb1 then w0 - rbSize rb1 else w0)
          in (True, rb1\<lparr>rbData := CopyIn (rbData rb1) (rbSize rb1) (writeOff rb1) rec, writeOff := w1,
                       used := used rb1 + recLen, writtenCount := writtenCount rb1 + 1\<rparr>))"

text \<open>One record's bytes: the inner copy loop of the reader.\<close>

definition rb_bytes :: "Q9RingBuf \<Rightarrow> u32 \<Rightarrow> nat \<Rightarrow> u8 list" where
  "rb_bytes rb off n =
     map (\<lambda>i. let src = off + of_nat i
              in rbData rb ! unat (if src \<ge> rbSize rb then src - rbSize rb else src)) [0..<n]"

function rb_read_loop :: "Q9RingBuf \<Rightarrow> u32 \<Rightarrow> u32 \<Rightarrow> u32 \<Rightarrow> u8 list \<Rightarrow> u8 list \<times> u32 \<times> u32" where
  "rb_read_loop rb maxBytes off remaining dst =
     (if remaining > 0 then
        let recLen = RecLenAt rb off in
        if recLen = 0 \<or> recLen > remaining then (dst, off, remaining)
        else if of_nat (length dst) + recLen > maxBytes then (dst, off, remaining)
        else
          let o0 = off + recLen;
              o1 = (if o0 \<ge> rbSize rb then o0 - rbSize rb else o0)
          in rb_read_loop rb maxBytes o1 (remaining - recLen) (dst @ rb_bytes rb off (unat recLen))
      else (dst, off, remaining))"
  by pat_completeness auto
termination
proof (relation "measure (\<lambda>(_, _, _, remaining, _). unat remaining)")
  fix rb :: Q9RingBuf and maxBytes off remaining recLen o0 o1 :: u32 and dst
  assume "\<not> (recLen = 0 \<or> recLen > remaining)"
  then have "unat (remaining - recLen) < unat remaining"
    by (intro unat_sub_less)
  then show "((rb, maxBytes, o1, remaining - recLen, dst @ rb_bytes rb off (unat recLen)), rb, maxBytes, off, remaining, dst)
      \<in> measure (\<lambda>(_, _, _, remaining, _). unat remaining)" by simp
qed simp

declare rb_read_loop.simps [simp del]

definition Q9RingBufRead :: "Q9RingBuf \<Rightarrow> u32 \<Rightarrow> (u8 list \<times> u32) \<times> Q9RingBuf" where
  "Q9RingBufRead rb maxBytes =
     (let (dst, off, remaining) = rb_read_loop rb maxBytes (readOff rb) (used rb) []
      in ((dst, lostCount rb), rb\<lparr>readOff := off, used := remaining\<rparr>))"

definition Q9RingBufClear :: "Q9RingBuf \<Rightarrow> Q9RingBuf" where
  "Q9RingBufClear rb = rb\<lparr>writeOff := 0, readOff := 0, used := 0\<rparr>"

end
