(* ===== verification/Q9_RingBuf_Props.thy ===== *)
theory Q9_RingBuf_Props
  imports Q9_RingBuf
begin

text \<open>
  The ring buffer refines a queue of records: writing appends a record, dropping the oldest ones and
  putting a loss marker in front when the space does not suffice, and reading takes whole records from the front.
\<close>

section \<open>Circular positions\<close>

definition wrap :: "u32 \<Rightarrow> u32 \<Rightarrow> u32" where
  "wrap sz at = (if at \<ge> sz then at - sz else at)"

lemma unat_add_nat: "unat off + i < 2 ^ 32 \<Longrightarrow> unat (off + of_nat i) = unat off + i" for off :: u32
  using unat_offset [of off "of_nat i"] by (simp add: unat_of_nat_u32)

lemma wrap_pos:
  assumes "unat off < unat sz" "i \<le> unat sz" "unat sz \<le> 2 ^ 31"
  shows "unat (wrap sz (off + of_nat i)) = (unat off + i) mod unat sz"
proof -
  have u: "unat (off + of_nat i) = unat off + i" using assms by (intro unat_add_nat) simp
  show ?thesis
  proof (cases "sz \<le> off + of_nat i")
    case True
    then have "unat sz \<le> unat off + i" using u by (simp add: word_le_nat_alt)
    then show ?thesis using True u assms by (simp add: wrap_def unat_sub mod_if)
  next
    case False
    then have "unat off + i < unat sz" using u by (simp add: word_le_nat_alt)
    then show ?thesis using False u by (simp add: wrap_def)
  qed
qed

lemma mod_inj: "(off + i) mod s = (off + j) mod s \<Longrightarrow> i < s \<Longrightarrow> j < s \<Longrightarrow> i = j" for s :: nat
proof (induction i j rule: linorder_wlog)
  case (le i j)
  then have "s dvd (off + j) - (off + i)" using mod_eq_dvd_iff_nat [of "off + i" "off + j" s] by simp
  then have "s dvd j - i" by simp
  then show "i = j" using le nat_dvd_not_less [of "j - i" s] by (cases "i < j") auto
qed simp

text \<open>Writing \<open>bs\<close> from position \<open>j\<close> behind \<open>off\<close>, as seen from \<open>off\<close>.\<close>

lemma CopyIn_all:
  assumes "length dat = unat sz" "unat off < unat sz" "j + length bs \<le> unat sz" "unat sz \<le> 2 ^ 31"
  shows "length (CopyIn dat sz (off + of_nat j) bs) = unat sz \<and>
    (\<forall>i<unat sz. CopyIn dat sz (off + of_nat j) bs ! ((unat off + i) mod unat sz) =
      (if j \<le> i \<and> i < j + length bs then bs ! (i - j) else dat ! ((unat off + i) mod unat sz)))"
  using assms
proof (induction bs arbitrary: dat j)
  case (Cons b bs)
  define dat' where "dat' = dat[(unat off + j) mod unat sz := b]"
  have e: "CopyIn dat sz (off + of_nat j) (b # bs) = CopyIn dat' sz (off + of_nat (Suc j)) bs"
    using wrap_pos [of off sz j] Cons.prems by (simp add: dat'_def wrap_def ac_simps)
  have l: "length dat' = unat sz" "Suc j + length bs \<le> unat sz" "j < unat sz" using Cons.prems by (simp_all add: dat'_def)
  have "dat' ! ((unat off + i) mod unat sz) = (if i = j then b else dat ! ((unat off + i) mod unat sz))" if "i < unat sz" for i
    using mod_inj [of "unat off" i "unat sz" j] Cons.prems(1) l that by (auto simp: dat'_def nth_list_update)
  then show ?case unfolding e using Cons.IH [OF l(1) Cons.prems(2) l(2) Cons.prems(4)] l by (auto simp: nth_Cons')
qed auto

lemma CopyIn_pos:
  assumes "length dat = unat sz" "unat off < unat sz" "length bs \<le> unat sz" "unat sz \<le> 2 ^ 31"
  shows "length (CopyIn dat sz off bs) = unat sz"
    and "i < unat sz \<Longrightarrow> CopyIn dat sz off bs ! ((unat off + i) mod unat sz) =
      (if i < length bs then bs ! i else dat ! ((unat off + i) mod unat sz))"
  using CopyIn_all [of dat sz off 0 bs] assms by simp_all

section \<open>The abstraction\<close>

definition rec_ok :: "u8 list \<Rightarrow> bool" where
  "rec_ok r \<longleftrightarrow> 2 \<le> length r \<and> length r \<le> 255 \<and> r ! 1 = of_nat (length r)"

abbreviation stored :: "Q9RingBuf \<Rightarrow> nat \<Rightarrow> u8" where
  "stored rb i \<equiv> rbData rb ! ((unat (readOff rb) + i) mod unat (rbSize rb))"

text \<open>The buffer holds the records \<open>rs\<close>, oldest first.\<close>

definition holds :: "Q9RingBuf \<Rightarrow> u8 list list \<Rightarrow> bool" where
  "holds rb rs \<longleftrightarrow> 0 < unat (rbSize rb) \<and> unat (rbSize rb) \<le> 2 ^ 31 \<and> length (rbData rb) = unat (rbSize rb) \<and>
     (\<forall>r\<in>set rs. rec_ok r) \<and> unat (readOff rb) < unat (rbSize rb) \<and> unat (used rb) = length (concat rs) \<and>
     length (concat rs) \<le> unat (rbSize rb) \<and> unat (writeOff rb) = (unat (readOff rb) + length (concat rs)) mod unat (rbSize rb) \<and>
     (\<forall>i<length (concat rs). stored rb i = concat rs ! i)"

lemma holdsD:
  assumes "holds rb rs"
  shows "0 < unat (rbSize rb)" "unat (rbSize rb) \<le> 2 ^ 31" "length (rbData rb) = unat (rbSize rb)" "\<forall>r\<in>set rs. rec_ok r"
    "unat (readOff rb) < unat (rbSize rb)" "unat (used rb) = length (concat rs)" "length (concat rs) \<le> unat (rbSize rb)"
    "unat (writeOff rb) = (unat (readOff rb) + length (concat rs)) mod unat (rbSize rb)"
    "i < length (concat rs) \<Longrightarrow> stored rb i = concat rs ! i" "unat (writeOff rb) < unat (rbSize rb)"
  using assms by (auto simp: holds_def)

lemma holds_init:
  "0 < unat sz \<Longrightarrow> unat sz \<le> 2 ^ 31 \<Longrightarrow> length dat = unat sz \<Longrightarrow> holds (Q9RingBufInit dat sz ident nam md) []"
  by (simp add: holds_def Q9RingBufInit_def)

text \<open>Appending bytes that fit.\<close>

lemma append_holds:
  assumes h: "holds rb rs" and r: "rec_ok rec" "length (concat rs) + length rec \<le> unat (rbSize rb)"
  shows "holds (rb\<lparr>rbData := CopyIn (rbData rb) (rbSize rb) (writeOff rb) rec,
      writeOff := wrap (rbSize rb) (writeOff rb + of_nat (length rec)), used := used rb + of_nat (length rec),
      writtenCount := wc\<rparr>) (rs @ [rec])"
proof -
  note hd = holdsD [OF h]
  define S u where "S = unat (rbSize rb)" and "u = length (concat rs)"
  define n where "n = length rec"
  have Su: "u + n \<le> S" "0 < S" "S \<le> 2 ^ 31" using r(2) hd(1,2) by (simp_all add: S_def u_def n_def)
  have w: "unat (writeOff rb) = (unat (readOff rb) + u) mod S" "unat (writeOff rb) < S" using hd(8,10) by (simp_all add: S_def u_def)
  note cp = CopyIn_pos [OF hd(3) hd(10) _ hd(2), of rec, folded S_def n_def]
  have len: "length (CopyIn (rbData rb) (rbSize rb) (writeOff rb) rec) = S" using cp(1) Su by simp
  have pos: "(unat (readOff rb) + u + i) mod S = (unat (writeOff rb) + i) mod S" for i
    unfolding w(1) by (simp add: mod_add_left_eq)
  have old: "CopyIn (rbData rb) (rbSize rb) (writeOff rb) rec ! ((unat (readOff rb) + i) mod S) = concat rs ! i" if "i < u" for i
  proof -
    have "(unat (writeOff rb) + (S - u + i)) mod S = (unat (readOff rb) + u + (S - u + i)) mod S" by (rule pos [symmetric])
    also have "unat (readOff rb) + u + (S - u + i) = unat (readOff rb) + i + S" using Su by simp
    finally have p: "(unat (writeOff rb) + (S - u + i)) mod S = (unat (readOff rb) + i) mod S" by simp
    have "S - u + i < S" "\<not> S - u + i < n" using that Su by simp_all
    then show ?thesis using cp(2) [of "S - u + i"] Su p hd(9) [of i] that by (simp add: S_def u_def)
  qed
  have new: "CopyIn (rbData rb) (rbSize rb) (writeOff rb) rec ! ((unat (readOff rb) + u + k) mod S) = rec ! k" if "k < n" for k
    unfolding pos using cp(2) [of k] that Su by simp
  have "unat (wrap (rbSize rb) (writeOff rb + of_nat n)) = (unat (writeOff rb) + n) mod S"
    using wrap_pos [of "writeOff rb" "rbSize rb" n] hd(10,2) Su by (simp add: S_def)
  also have "\<dots> = (unat (readOff rb) + (u + n)) mod S" using pos [of n] by (simp add: add.assoc)
  finally have wo: "unat (wrap (rbSize rb) (writeOff rb + of_nat n)) = (unat (readOff rb) + (u + n)) mod S" .
  have us: "unat (used rb + of_nat n) = u + n" using hd(6) Su by (subst unat_add_nat) (simp_all add: u_def)
  have "(CopyIn (rbData rb) (rbSize rb) (writeOff rb) rec) ! ((unat (readOff rb) + i) mod S) = concat (rs @ [rec]) ! i" if "i < u + n" for i
    using that old [of i] new [of "i - u"] by (cases "i < u") (simp_all add: nth_append u_def)
  then show ?thesis
    using hd(4,5) r(1) Su len wo us unfolding holds_def by (simp add: S_def [symmetric] u_def [symmetric] n_def [symmetric])
qed

section \<open>Losing old records\<close>

lemma rec_len:
  assumes h: "holds rb (r # rs)" shows "RecLenAt rb (readOff rb) = of_nat (length r)" "unat (RecLenAt rb (readOff rb)) = length r"
proof -
  note hd = holdsD [OF h]
  have r: "rec_ok r" using hd(4) by simp
  then have two: "2 \<le> length r" "length r \<le> 255" "r ! 1 = of_nat (length r)" by (simp_all add: rec_ok_def)
  have "unat (wrap (rbSize rb) (readOff rb + of_nat 1)) = (unat (readOff rb) + 1) mod unat (rbSize rb)"
    using two hd by (intro wrap_pos) simp_all
  then have "RecLenAt rb (readOff rb) = ucast (stored rb 1)" by (simp add: RecLenAt_def wrap_def Let_def)
  also have "stored rb 1 = r ! 1" using hd(9) [of 1] two(1) by (simp add: nth_append)
  finally have e: "RecLenAt rb (readOff rb) = ucast (of_nat (length r) :: u8)" using two(3) by simp
  have "unat (of_nat (length r) :: u8) = length r" using two(2) by (simp add: unat_of_nat take_bit_nat_eq_self)
  then show "unat (RecLenAt rb (readOff rb)) = length r" unfolding e by simp
  then show "RecLenAt rb (readOff rb) = of_nat (length r)" using two(2) by (simp add: word_unat_eq_iff [of "RecLenAt rb (readOff rb)"] unat_of_nat_u32)
qed

lemma drop_holds:
  assumes h: "holds rb (r # rs)"
  shows "holds (rb\<lparr>readOff := wrap (rbSize rb) (readOff rb + of_nat (length r)), used := used rb - of_nat (length r), lostCount := lc\<rparr>) rs"
proof -
  note hd = holdsD [OF h]
  define S where "S = unat (rbSize rb)"
  have n: "length r \<le> S" "length r + length (concat rs) \<le> S" using hd(7) by (simp_all add: S_def)
  have ro: "unat (wrap (rbSize rb) (readOff rb + of_nat (length r))) = (unat (readOff rb) + length r) mod S"
    using wrap_pos [OF hd(5) _ hd(2)] n(1) by (simp add: S_def)
  have us: "unat (used rb - of_nat (length r)) = length (concat rs)"
  proof -
    have "unat (of_nat (length r) :: u32) = length r" using n(1) hd(2) by (intro unat_of_nat_u32) (simp add: S_def)
    then show ?thesis using hd(6) by (subst unat_sub) (simp_all add: word_le_nat_alt)
  qed
  have pos: "((unat (readOff rb) + length r) mod S + i) mod S = (unat (readOff rb) + (length r + i)) mod S" for i
    by (simp add: mod_add_left_eq add.assoc)
  have "rbData rb ! (((unat (readOff rb) + length r) mod S + i) mod S) = concat rs ! i" if "i < length (concat rs)" for i
    unfolding pos using hd(9) [of "length r + i"] that by (simp add: S_def nth_append)
  then show ?thesis
    using hd ro us pos n unfolding holds_def by (simp add: S_def [symmetric] add.assoc)
qed

text \<open>How many of the oldest records must go until \<open>need\<close> bytes are free.\<close>

fun drop_for :: "nat \<Rightarrow> nat \<Rightarrow> u8 list list \<Rightarrow> nat" where
  "drop_for need free [] = 0"
| "drop_for need free (r # rs) = (if need \<le> free then 0 else Suc (drop_for need (free + length r) rs))"

lemma drop_for_le: "drop_for need free rs \<le> length rs"
  by (induction rs arbitrary: free) (auto simp: le_SucI)

lemma drop_for_room:
  "need \<le> free + length (concat rs) \<Longrightarrow> need \<le> free + length (concat (take (drop_for need free rs) rs))"
proof (induction rs arbitrary: free)
  case (Cons r rs)
  then show ?case using Cons.IH [of "free + length r"] by (simp add: add.assoc)
qed simp

lemma sacrifice_holds:
  assumes "holds rb rs" "unat free = unat (rbSize rb) - length (concat rs)" "unat need \<le> unat (rbSize rb)"
  shows "\<exists>rb' free'. rb_sacrifice need rb free lost = (rb', free', lost + of_nat (drop_for (unat need) (unat free) rs)) \<and>
    holds rb' (drop (drop_for (unat need) (unat free) rs) rs) \<and> rbSize rb' = rbSize rb \<and> rbMode rb' = rbMode rb \<and> lostFmt rb' = lostFmt rb \<and>
    writtenCount rb' = writtenCount rb \<and> lostCount rb' = lostCount rb + of_nat (drop_for (unat need) (unat free) rs)"
  using assms
proof (induction rs arbitrary: rb free lost)
  case Nil
  then have "\<not> need > free" by (simp add: word_less_nat_alt)
  then show ?case using Nil by (subst rb_sacrifice.simps) simp
next
  case (Cons r rs)
  note hd = holdsD [OF Cons.prems(1)]
  note rl = rec_len [OF Cons.prems(1)]
  show ?case
  proof (cases "need > free")
    case False
    then have "unat need \<le> unat free" by (simp add: word_less_nat_alt)
    then show ?thesis using False Cons.prems by (subst rb_sacrifice.simps) simp
  next
    case True
    have two: "2 \<le> length r" using hd(4) by (simp add: rec_ok_def)
    define rb1 where "rb1 = rb\<lparr>readOff := wrap (rbSize rb) (readOff rb + of_nat (length r)), used := used rb - of_nat (length r), lostCount := lostCount rb + 1\<rparr>"
    have h1: "holds rb1 rs" unfolding rb1_def by (rule drop_holds [OF Cons.prems(1)])
    have bad: "\<not> (RecLenAt rb (readOff rb) = 0 \<or> RecLenAt rb (readOff rb) > used rb)"
      using rl(2) two hd(6) by (auto simp: word_less_nat_alt)
    have step: "rb_sacrifice need rb free lost = rb_sacrifice need rb1 (free + of_nat (length r)) (lost + 1)"
      using True bad unfolding rl(1) by (subst rb_sacrifice.simps) (simp add: rl(1) rb1_def wrap_def Let_def)
    have fr: "unat (free + of_nat (length r)) = unat free + length r"
      using Cons.prems(2) hd(2,7) by (intro unat_add_nat) simp
    have "unat (free + of_nat (length r)) = unat (rbSize rb1) - length (concat rs)" "rbSize rb1 = rbSize rb"
      using fr Cons.prems(2) hd(7) by (simp_all add: rb1_def)
    from Cons.IH [OF h1 this(1), of "lost + 1"] Cons.prems(3) this(2) True show ?thesis
      unfolding step by (auto simp: fr word_less_nat_alt rb1_def add.assoc)
  qed
qed

section \<open>The loss marker\<close>

lemma marker_holds:
  assumes h: "holds rb rs" and b: "rec_ok (fmt n)" "length (fmt n) = L" "length (concat rs) + L \<le> unat (rbSize rb)"
  shows "holds (rb_marker fmt (of_nat L) n rb) (fmt n # rs)"
    "rbSize (rb_marker fmt (of_nat L) n rb) = rbSize rb" "rbMode (rb_marker fmt (of_nat L) n rb) = rbMode rb"
    "writtenCount (rb_marker fmt (of_nat L) n rb) = writtenCount rb" "lostCount (rb_marker fmt (of_nat L) n rb) = lostCount rb"
    "writeOff (rb_marker fmt (of_nat L) n rb) = writeOff rb"
proof -
  note hd = holdsD [OF h]
  define S u r where "S = unat (rbSize rb)" and "u = length (concat rs)" and "r = unat (readOff rb)"
  have SL: "u + L \<le> S" "0 < S" "S \<le> 2 ^ 31" "r < S" using b(3) hd(1,2,5) by (simp_all add: S_def u_def r_def)
  define p where "p = wrap (rbSize rb) (readOff rb + rbSize rb - of_nat L)"
  have e: "rb_marker fmt (of_nat L) n rb = rb\<lparr>rbData := CopyIn (rbData rb) (rbSize rb) p (fmt n), readOff := p, used := used rb + of_nat L\<rparr>"
    by (simp add: rb_marker_def p_def wrap_def b(2) Let_def)
  show "rbSize (rb_marker fmt (of_nat L) n rb) = rbSize rb" "rbMode (rb_marker fmt (of_nat L) n rb) = rbMode rb"
    "writtenCount (rb_marker fmt (of_nat L) n rb) = writtenCount rb" "lostCount (rb_marker fmt (of_nat L) n rb) = lostCount rb"
    "writeOff (rb_marker fmt (of_nat L) n rb) = writeOff rb" by (simp_all add: e)
  have "rbSize rb = of_nat S" by (simp add: S_def)
  then have e2: "readOff rb + rbSize rb - of_nat L = readOff rb + of_nat (S - L)" using SL(1) by (simp add: of_nat_diff)
  have p: "unat p = (r + (S - L)) mod S" unfolding p_def e2 S_def r_def
    by (rule wrap_pos) (use hd(2,5) in \<open>simp_all add: S_def\<close>)
  then have pS: "unat p < unat (rbSize rb)" using SL(2) by (simp add: S_def)
  have "L \<le> unat (rbSize rb)" using SL(1) by (simp add: S_def)
  note cp = CopyIn_pos [OF hd(3) pS _ hd(2), of "fmt n", unfolded b(2), OF this]
  have pos: "(unat p + (L + i)) mod S = (r + i) mod S" for i
  proof -
    have "(unat p + (L + i)) mod S = (r + (S - L) + (L + i)) mod S" unfolding p by (simp add: mod_add_left_eq)
    also have "r + (S - L) + (L + i) = r + i + S" using SL(1) by simp
    finally show ?thesis by simp
  qed
  have us: "unat (used rb + of_nat L) = L + u" using hd(6) SL by (subst unat_add_nat) (simp_all add: u_def)
  have "CopyIn (rbData rb) (rbSize rb) p (fmt n) ! ((unat p + i) mod S) = concat (fmt n # rs) ! i" if "i < L + u" for i
  proof (cases "i < L")
    case True
    then show ?thesis using cp(2) [of i] SL b(2) by (simp add: S_def [symmetric] nth_append)
  next
    case False
    then have "CopyIn (rbData rb) (rbSize rb) p (fmt n) ! ((unat p + i) mod S) = rbData rb ! ((r + (i - L)) mod S)"
      using cp(2) [of i] pos [of "i - L"] that SL by (simp add: S_def [symmetric])
    then show ?thesis using hd(9) [of "i - L"] False that b(2) by (simp add: S_def r_def u_def nth_append)
  qed
  moreover have "unat (writeOff rb) = (unat p + (L + u)) mod S" using hd(8) pos [of u] by (simp add: S_def r_def u_def)
  ultimately show "holds (rb_marker fmt (of_nat L) n rb) (fmt n # rs)"
    using hd(1-4) b cp(1) pS us SL unfolding holds_def e by (simp add: S_def [symmetric] u_def [symmetric])
qed

section \<open>Reading\<close>

lemma holds_bytes:
  assumes h: "holds rb (r # rs)" shows "rb_bytes rb (readOff rb) (length r) = r"
proof (rule nth_equalityI)
  fix i assume "i < length (rb_bytes rb (readOff rb) (length r))"
  then have i: "i < length r" by (simp add: rb_bytes_def)
  note hd = holdsD [OF h]
  have "i \<le> unat (rbSize rb)" using i hd(7) by simp
  then have "unat (wrap (rbSize rb) (readOff rb + of_nat i)) = (unat (readOff rb) + i) mod unat (rbSize rb)"
    using wrap_pos [OF hd(5) _ hd(2)] by simp
  then show "rb_bytes rb (readOff rb) (length r) ! i = r ! i"
    using hd(9) [of i] i by (simp add: rb_bytes_def wrap_def [symmetric] Let_def nth_append)
qed (simp add: rb_bytes_def)

lemma read_loop_holds:
  assumes "holds (rb\<lparr>readOff := off, used := rest\<rparr>) rs" "length dst + length (concat rs) < 2 ^ 32"
  shows "\<exists>k off' rest'. rb_read_loop rb m off rest dst = (dst @ concat (take k rs), off', rest') \<and>
    holds (rb\<lparr>readOff := off', used := rest'\<rparr>) (drop k rs) \<and>
    (length dst \<le> unat m \<longrightarrow> length dst + length (concat (take k rs)) \<le> unat m) \<and>
    (k < length rs \<longrightarrow> unat m < length dst + length (concat (take (Suc k) rs)))"
  using assms
proof (induction rs arbitrary: off rest dst)
  case Nil
  then have "rest = 0" using holdsD(6) [OF Nil.prems(1)] by (simp add: unat_eq_0)
  then show ?case using Nil.prems by (subst rb_read_loop.simps) simp
next
  case (Cons r rs)
  note hd = holdsD [OF Cons.prems(1)]
  have rl: "RecLenAt rb off = of_nat (length r)" "unat (RecLenAt rb off) = length r"
    using rec_len [OF Cons.prems(1)] by (simp_all add: RecLenAt_def Let_def cong: if_cong)
  have two: "2 \<le> length r" using hd(4) by (simp add: rec_ok_def)
  have used: "unat rest = length r + length (concat rs)" using hd(6) by simp
  have go: "rest > 0" "\<not> (RecLenAt rb off = 0 \<or> RecLenAt rb off > rest)"
    using used two rl(2) by (auto simp: word_less_nat_alt)
  have len: "unat (of_nat (length dst) + RecLenAt rb off) = length dst + length r"
    using Cons.prems(2) rl(1) unat_of_nat_u32 [of "length dst + length r"] by simp
  show ?case
  proof (cases "of_nat (length dst) + RecLenAt rb off > m")
    case True
    then have "unat m < length dst + length r" using len by (simp add: word_less_nat_alt)
    then show ?thesis using True go Cons.prems(1) by (intro exI [of _ 0] exI [of _ off] exI [of _ rest]) (subst rb_read_loop.simps, simp)
  next
    case False
    define off1 where "off1 = wrap (rbSize rb) (off + of_nat (length r))"
    have by1: "rb_bytes rb off (length r) = r" using holds_bytes [OF Cons.prems(1)] by (simp add: rb_bytes_def Let_def cong: if_cong)
    have step: "rb_read_loop rb m off rest dst = rb_read_loop rb m off1 (rest - of_nat (length r)) (dst @ r)"
      using False go rl(2) by1 by (subst rb_read_loop.simps) (simp add: off1_def wrap_def Let_def rl(1))
    have h1: "holds (rb\<lparr>readOff := off1, used := rest - of_nat (length r)\<rparr>) rs"
      using drop_holds [OF Cons.prems(1), of "lostCount rb"] by (simp add: off1_def)
    have le: "length (dst @ r) + length (concat rs) < 2 ^ 32" "length (dst @ r) \<le> unat m"
      using Cons.prems(2) False len by (simp_all add: word_less_nat_alt)
    from Cons.IH [OF h1 le(1)] obtain k off' rest' where
      "rb_read_loop rb m off1 (rest - of_nat (length r)) (dst @ r) = ((dst @ r) @ concat (take k rs), off', rest')"
      "holds (rb\<lparr>readOff := off', used := rest'\<rparr>) (drop k rs)" "length (dst @ r) + length (concat (take k rs)) \<le> unat m"
      "k < length rs \<longrightarrow> unat m < length (dst @ r) + length (concat (take (Suc k) rs))" using le(2) by auto
    then show ?thesis unfolding step by (intro exI [of _ "Suc k"] exI [of _ off'] exI [of _ rest']) (simp add: add.assoc)
  qed
qed

section \<open>Running out of records\<close>

lemma sacrifice_all:
  assumes "holds rb rs" "unat free = unat (rbSize rb) - length (concat rs)" "unat (rbSize rb) < unat need"
  shows "\<exists>rb'. rb_sacrifice need rb free lost = (rb', rbSize rb, lost + of_nat (length rs)) \<and>
    used rb' = 0 \<and> rbSize rb' = rbSize rb \<and> lostFmt rb' = lostFmt rb"
  using assms
proof (induction rs arbitrary: rb free lost)
  case Nil
  then have "need > free" "used rb = 0" using holdsD(6) [OF Nil(1)] by (simp_all add: word_less_nat_alt unat_eq_0)
  then show ?case by (subst rb_sacrifice.simps) (simp add: Let_def word_neq_0_conv)
next
  case (Cons r rs)
  note hd = holdsD [OF Cons.prems(1)]
  note rl = rec_len [OF Cons.prems(1)]
  have two: "2 \<le> length r" using hd(4) by (simp add: rec_ok_def)
  define rb1 where "rb1 = rb\<lparr>readOff := wrap (rbSize rb) (readOff rb + of_nat (length r)), used := used rb - of_nat (length r), lostCount := lostCount rb + 1\<rparr>"
  have bad: "\<not> (RecLenAt rb (readOff rb) = 0 \<or> RecLenAt rb (readOff rb) > used rb)" "need > free"
    using rl(2) two hd(6) Cons.prems(2,3) by (auto simp: word_less_nat_alt)
  have step: "rb_sacrifice need rb free lost = rb_sacrifice need rb1 (free + of_nat (length r)) (lost + 1)"
    using bad unfolding rl(1) by (subst rb_sacrifice.simps) (simp add: rl(1) rb1_def wrap_def Let_def)
  have "unat (free + of_nat (length r)) = unat (rbSize rb1) - length (concat rs)"
    using Cons.prems(2) hd(2,7) by (subst unat_add_nat) (simp_all add: rb1_def)
  moreover have "holds rb1 rs" unfolding rb1_def by (rule drop_holds [OF Cons.prems(1)])
  ultimately show ?case unfolding step using Cons.IH [of rb1 "free + of_nat (length r)" "lost + 1"] Cons.prems(3)
    by (auto simp: rb1_def)
qed

section \<open>Properties\<close>

text \<open>A buffer of 8 bytes with two records in it.\<close>

definition ex_ring :: Q9RingBuf where
  "ex_ring = Q9RingBufInit [7, 3, 9, 8, 4, 5, 6, 0] 8 1 ''trace'' Q9RB_MODE_OVERWRITE\<lparr>used := 7, writeOff := 7, lostFmt := Some (\<lambda>n. [1, 2])\<rparr>"

lemma ex_ring_holds: "holds ex_ring [[7, 3, 9], [8, 4, 5, 6]]"
proof -
  have "stored ex_ring i = concat [[7, 3, 9], [8, 4, 5, 6]] ! i" if "i < 7" for i
  proof -
    have "stored ex_ring i = ([7, 3, 9, 8, 4, 5, 6] @ [0]) ! i" using that by (simp add: ex_ring_def Q9RingBufInit_def)
    also have "\<dots> = [7, 3, 9, 8, 4, 5, 6] ! i" using that unfolding nth_append by simp
    finally show ?thesis by simp
  qed
  then show ?thesis by (simp add: holds_def ex_ring_def Q9RingBufInit_def rec_ok_def del: nth_Cons_numeral)
qed

text \<open>The contract of the loss formatter: records of one fixed length; no formatter counts as length 0.\<close>

definition marker_ok :: "Q9RingBuf \<Rightarrow> nat \<Rightarrow> bool" where
  "marker_ok rb L \<longleftrightarrow> (case lostFmt rb of None \<Rightarrow> L = 0 | Some fmt \<Rightarrow> \<forall>n. rec_ok (fmt n) \<and> length (fmt n) = L)"

definition lost_marker :: "Q9RingBuf \<Rightarrow> nat \<Rightarrow> u8 list list" where
  "lost_marker rb k = (case lostFmt rb of None \<Rightarrow> [] | Some fmt \<Rightarrow> if k = 0 then [] else [fmt (of_nat k)])"

lemma make_room:
  assumes h: "holds rb rs" and mk: "marker_ok rb L" and n: "n + L \<le> unat (rbSize rb)"
    and big: "unat (rbSize rb) - length (concat rs) < n" and k: "k = drop_for (n + L) (unat (rbSize rb) - length (concat rs)) rs"
  shows "\<exists>rb'. rb_make_room rb (of_nat n) (rbSize rb - used rb) = rb' \<and> holds rb' (lost_marker rb k @ drop k rs) \<and>
    length (concat (lost_marker rb k @ drop k rs)) + n \<le> unat (rbSize rb) \<and> rbSize rb' = rbSize rb \<and>
    writtenCount rb' = writtenCount rb \<and> lostCount rb' = lostCount rb + of_nat k"
proof -
  note hd = holdsD [OF h]
  define S where "S = unat (rbSize rb)"
  have fr: "unat (rbSize rb - used rb) = S - length (concat rs)" using hd(6,7) by (subst unat_sub) (simp_all add: word_le_nat_alt S_def)
  have L0: "(case lostFmt rb of Some fmt \<Rightarrow> of_nat (length (fmt 0)) | None \<Rightarrow> 0) = (of_nat L :: u32)"
    using mk by (simp add: marker_ok_def split: option.splits)
  have b: "L < 2 ^ 32" "n + L < 2 ^ 32" using n hd(2) by simp_all
  have nl: "\<not> (of_nat L :: u32) > rbSize rb" using n b(1) by (simp add: word_less_nat_alt unat_of_nat_u32)
  have need: "unat (of_nat n + of_nat L :: u32) = n + L" using b(2) unat_of_nat_u32 [of "n + L"] by simp
  obtain rb1 f1 where r1: "rb_sacrifice (of_nat n + of_nat L) rb (rbSize rb - used rb) 0 = (rb1, f1, of_nat k)"
    "holds rb1 (drop k rs)" "rbSize rb1 = rbSize rb" "lostFmt rb1 = lostFmt rb" "writtenCount rb1 = writtenCount rb" "lostCount rb1 = lostCount rb + of_nat k"
    using sacrifice_holds [OF h, of "rbSize rb - used rb" "of_nat n + of_nat L" 0] fr need n k by (auto simp: S_def)
  have room: "length (concat (drop k rs)) + (n + L) \<le> S"
  proof -
    have "n + L \<le> S - length (concat rs) + length (concat (take k rs))" unfolding k S_def
      using n hd(7) by (intro drop_for_room) simp
    moreover have "length (concat rs) = length (concat (take k rs)) + length (concat (drop k rs))"
      by (metis append_take_drop_id concat_append length_append)
    ultimately show ?thesis using hd(7) by (simp add: S_def)
  qed
  have kl: "k \<le> length rs" unfolding k by (rule drop_for_le)
  have "length rs \<le> length (concat rs)" using hd(4) by (induction rs) (auto simp: rec_ok_def)
  then have k32: "k < 2 ^ 32" using kl hd(2,7) by simp
  then have kz: "(of_nat k :: u32) > 0 \<longleftrightarrow> k \<noteq> 0" by (simp add: word_less_nat_alt unat_of_nat_u32)
  have e: "rb_make_room rb (of_nat n) (rbSize rb - used rb) = (case lostFmt rb of
      Some fmt \<Rightarrow> if k \<noteq> 0 \<and> (of_nat L :: u32) > 0 then rb_marker fmt (of_nat L) (of_nat k) rb1 else rb1 | None \<Rightarrow> rb1)"
    unfolding rb_make_room_def L0 Let_def using nl r1(1,4) kz by (simp split: option.splits)
  show ?thesis
  proof (cases "lostFmt rb")
    case None
    then show ?thesis using e r1 room by (simp add: lost_marker_def S_def)
  next
    case (Some fmt)
    have fm: "rec_ok (fmt (of_nat k))" "length (fmt (of_nat k)) = L" using mk Some by (simp_all add: marker_ok_def)
    then have "2 \<le> L" by (simp add: rec_ok_def)
    then have Lp: "(of_nat L :: u32) > 0" using b(1) by (simp add: word_less_nat_alt unat_of_nat_u32)
    show ?thesis
    proof (cases "k = 0")
      case True
      then show ?thesis using e Some r1 room by (simp add: lost_marker_def S_def)
    next
      case False
      have "length (concat (drop k rs)) + L \<le> unat (rbSize rb1)" using room r1(3) by (simp add: S_def)
      note m = marker_holds [of rb1 "drop k rs" fmt "of_nat k" L, OF r1(2) fm this]
      show ?thesis unfolding e using m False Some Lp r1(3,5,6) room fm(2) by (simp add: lost_marker_def S_def)
    qed
  qed
qed

text \<open>C18: writing a record that fits beside a loss marker refines the queue of
  records: in halt mode a record without space is refused and counted, otherwise the fewest oldest
  records that make room are dropped and counted, a marker carrying their number comes to the front, and
  the record is appended; every surviving record keeps its bytes.\<close>

theorem ringbuf_write_refines:
  assumes h: "holds rb rs" and r: "rec_ok rec" and mk: "marker_ok rb L" and fit: "length rec + L \<le> unat (rbSize rb)"
    and k: "k = (if length rec \<le> unat (rbSize rb) - length (concat rs) then 0 else drop_for (length rec + L) (unat (rbSize rb) - length (concat rs)) rs)"
  shows "if rbMode rb = Q9RB_MODE_HALT \<and> unat (rbSize rb) - length (concat rs) < length rec
    then Q9RingBufWrite rb rec = (False, rb\<lparr>lostCount := lostCount rb + 1\<rparr>)
    else \<exists>rb'. Q9RingBufWrite rb rec = (True, rb') \<and> holds rb' (lost_marker rb k @ drop k rs @ [rec]) \<and>
      writtenCount rb' = writtenCount rb + 1 \<and> lostCount rb' = lostCount rb + of_nat k"
proof -
  note hd = holdsD [OF h]
  define S n where "S = unat (rbSize rb)" and "n = length rec"
  have "2 \<le> n" "n \<le> S" "S \<le> 2 ^ 31" using r fit hd(2) by (simp_all add: rec_ok_def n_def S_def)
  then have n: "0 < n" "n < 2 ^ 32" "n \<le> S" by simp_all
  have un: "unat (of_nat n :: u32) = n" using n(2) by (rule unat_of_nat_u32)
  have fr: "unat (rbSize rb - used rb) = S - length (concat rs)" using hd(6,7) by (subst unat_sub) (simp_all add: word_le_nat_alt S_def)
  have g: "\<not> ((of_nat n :: u32) = 0 \<or> of_nat n > rbSize rb)" using un n by (auto simp: word_less_nat_alt S_def dest: arg_cong [of _ 0 unat])
  have bg: "(of_nat n :: u32) > rbSize rb - used rb \<longleftrightarrow> S - length (concat rs) < n" by (simp add: word_less_nat_alt un fr)
  define wr where "wr rb1 = (rb1\<lparr>rbData := CopyIn (rbData rb1) (rbSize rb1) (writeOff rb1) rec,
      writeOff := wrap (rbSize rb1) (writeOff rb1 + of_nat n), used := used rb1 + of_nat n, writtenCount := writtenCount rb1 + 1\<rparr>)" for rb1 :: Q9RingBuf
  have e: "Q9RingBufWrite rb rec = (if S - length (concat rs) < n \<and> rbMode rb = Q9RB_MODE_HALT then (False, rb\<lparr>lostCount := lostCount rb + 1\<rparr>)
      else (True, wr (if S - length (concat rs) < n then rb_make_room rb (of_nat n) (rbSize rb - used rb) else rb)))"
    unfolding Q9RingBufWrite_def Let_def n_def [symmetric] using g bg by (simp add: wr_def wrap_def)
  show ?thesis
  proof (cases "S - length (concat rs) < n")
    case False
    then have k0: "k = 0" using k by (simp add: S_def n_def)
    have "length (concat rs) + length rec \<le> unat (rbSize rb)" using False hd(7) by (simp add: S_def n_def)
    from append_holds [OF h r this] False show ?thesis
      unfolding e using k0 by (simp add: wr_def n_def S_def lost_marker_def split: option.split)
  next
    case True
    then have k': "k = drop_for (n + L) (unat (rbSize rb) - length (concat rs)) rs" using k by (simp add: S_def n_def)
    obtain rb1 where r1: "rb_make_room rb (of_nat n) (rbSize rb - used rb) = rb1" "holds rb1 (lost_marker rb k @ drop k rs)"
      "length (concat (lost_marker rb k @ drop k rs)) + n \<le> unat (rbSize rb1)" "writtenCount rb1 = writtenCount rb" "lostCount rb1 = lostCount rb + of_nat k"
      using make_room [OF h mk _ _ k'] fit True by (auto simp: n_def S_def)
    from append_holds [OF r1(2) r] r1(3) have "holds (wr rb1) (lost_marker rb k @ drop k rs @ [rec])" by (simp add: wr_def n_def)
    then show ?thesis unfolding e using True r1 by (simp add: wr_def S_def n_def)
  qed
qed

theorem ringbuf_write_refines_witness:
  "\<exists>rb'. Q9RingBufWrite ex_ring [2, 3, 4] = (True, rb') \<and> holds rb' [[1, 2], [2, 3, 4]] \<and> lostCount rb' = 2"
  using ringbuf_write_refines [OF ex_ring_holds, of "[2, 3, 4]" 2 2]
  by (auto simp: rec_ok_def marker_ok_def lost_marker_def ex_ring_def Q9RingBufInit_def)

text \<open>Reading returns the bytes of as many whole records from the front as fit into
  \<open>maxBytes\<close>, never splits a record, reports the loss counter, and leaves exactly the other records.\<close>

theorem ringbuf_read_refines:
  assumes h: "holds rb rs"
  shows "\<exists>k rb'. Q9RingBufRead rb maxBytes = ((concat (take k rs), lostCount rb), rb') \<and> holds rb' (drop k rs) \<and>
    length (concat (take k rs)) \<le> unat maxBytes \<and> (k < length rs \<longrightarrow> unat maxBytes < length (concat (take (Suc k) rs))) \<and>
    lostCount rb' = lostCount rb \<and> writtenCount rb' = writtenCount rb"
proof -
  have "length ([] :: u8 list) + length (concat rs) < 2 ^ 32" using holdsD(2,7) [OF h] by simp
  with read_loop_holds [where rb = rb and off = "readOff rb" and rest = "used rb" and rs = rs and dst = "[]" and m = maxBytes] h
  obtain k off' rest' where k: "rb_read_loop rb maxBytes (readOff rb) (used rb) [] = (concat (take k rs), off', rest')"
    "holds (rb\<lparr>readOff := off', used := rest'\<rparr>) (drop k rs)" "length (concat (take k rs)) \<le> unat maxBytes"
    "k < length rs \<longrightarrow> unat maxBytes < length (concat (take (Suc k) rs))" by auto
  then show ?thesis by (intro exI [of _ k] exI [of _ "rb\<lparr>readOff := off', used := rest'\<rparr>"]) (simp add: Q9RingBufRead_def)
qed

theorem ringbuf_read_refines_witness:
  "\<exists>k rb'. Q9RingBufRead ex_ring 5 = ((concat (take k [[7, 3, 9], [8, 4, 5, 6]]), 0), rb') \<and> holds rb' (drop k [[7, 3, 9], [8, 4, 5, 6]])"
  using ringbuf_read_refines [OF ex_ring_holds, of 5] by (auto simp: ex_ring_def Q9RingBufInit_def)

text \<open>C35: a record that fits alone but not beside its loss marker drives the fill
  count past the buffer: every old record is lost, and the marker is written on top of the space the record needs.\<close>

theorem ringbuf_marker_overflow:
  assumes h: "holds rb rs" and r: "rec_ok rec" and fm: "lostFmt rb = Some fmt" "\<And>n. length (fmt n) = L"
    and md: "rbMode rb = Q9RB_MODE_OVERWRITE" and L: "0 < L" "L \<le> unat (rbSize rb)"
    and n: "length rec \<le> unat (rbSize rb)" "unat (rbSize rb) < length rec + L" and full: "unat (rbSize rb) - length (concat rs) < length rec"
  shows "\<exists>rb'. Q9RingBufWrite rb rec = (True, rb') \<and> rbSize rb' = rbSize rb \<and> unat (used rb') = length rec + L \<and> used rb' > rbSize rb'"
proof -
  note hd = holdsD [OF h]
  define S m where "S = unat (rbSize rb)" and "m = length rec"
  have b: "S \<le> 2 ^ 31" "m \<le> S" "L \<le> S" "2 \<le> m" "m \<le> 255" "S < m + L" "S - length (concat rs) < m"
    using hd(2) n L full r by (simp_all add: S_def m_def rec_ok_def)
  have un: "unat (of_nat m :: u32) = m" "unat (of_nat L :: u32) = L" "unat (of_nat m + of_nat L :: u32) = m + L"
    using b unat_of_nat_u32 [of m] unat_of_nat_u32 [of L] unat_of_nat_u32 [of "m + L"] by simp_all
  have fr: "unat (rbSize rb - used rb) = S - length (concat rs)" using hd(6,7) by (subst unat_sub) (simp_all add: word_le_nat_alt S_def)
  have g: "\<not> ((of_nat m :: u32) = 0 \<or> of_nat m > rbSize rb)" "\<not> (of_nat L :: u32) > rbSize rb" "(of_nat L :: u32) > 0" "(of_nat m :: u32) > rbSize rb - used rb"
    using un b L fr by (auto simp: word_less_nat_alt S_def dest: arg_cong [of _ 0 unat])
  obtain rb1 where r1: "rb_sacrifice (of_nat m + of_nat L) rb (rbSize rb - used rb) 0 = (rb1, rbSize rb, of_nat (length rs))"
    "used rb1 = 0" "rbSize rb1 = rbSize rb" "lostFmt rb1 = lostFmt rb"
    using sacrifice_all [OF h, of "rbSize rb - used rb" "of_nat m + of_nat L" 0] fr un(3) b by (auto simp: S_def)
  have "length rs \<le> length (concat rs)" using hd(4) by (induction rs) (auto simp: rec_ok_def)
  then have lr: "length rs < 2 ^ 32" "rs \<noteq> []" using hd(2,7) full n(1) by auto
  then have lz: "(of_nat (length rs) :: u32) > 0" by (simp add: word_less_nat_alt unat_of_nat_u32)
  have mr: "rb_make_room rb (of_nat m) (rbSize rb - used rb) = rb_marker fmt (of_nat L) (of_nat (length rs)) rb1"
    unfolding rb_make_room_def using g(2,3) r1(1,4) fm lz by (simp add: Let_def)
  have "used (snd (Q9RingBufWrite rb rec)) = of_nat L + of_nat m" "fst (Q9RingBufWrite rb rec)" "rbSize (snd (Q9RingBufWrite rb rec)) = rbSize rb"
    unfolding Q9RingBufWrite_def m_def [symmetric] Let_def using g(1,4) md mr r1(2,3) fm(2) by (simp_all add: rb_marker_def Let_def)
  then show ?thesis using un(3) b
    by (intro exI [of _ "snd (Q9RingBufWrite rb rec)"]) (simp add: prod_eq_iff word_less_nat_alt add.commute S_def m_def)
qed

theorem ringbuf_marker_overflow_witness:
  "\<exists>rb'. Q9RingBufWrite ex_ring [0, 7, 1, 2, 3, 4, 5] = (True, rb') \<and> unat (used rb') = 9 \<and> rbSize rb' = 8"
  using ringbuf_marker_overflow [OF ex_ring_holds, of "[0, 7, 1, 2, 3, 4, 5]" "\<lambda>n. [1, 2]" 2]
  by (auto simp: rec_ok_def ex_ring_def Q9RingBufInit_def)

end
