(* ===== verification/Q9_Date_Props.thy ===== *)
theory Q9_Date_Props
  imports Q9_Date
begin

text \<open>
  F$Julian and F$Gregor are inverse to each other on all valid calendar dates.  The arithmetic is done
  on natural numbers first: years start in March, a day number splits into century, year of the
  century and day of the year, and every division of the source recovers one of them exactly.
\<close>

section \<open>Days of the year\<close>

text \<open>The day of a year that starts on 1 March, from the month (March is 0) and the day of the month.\<close>

definition doy :: "nat \<Rightarrow> nat \<Rightarrow> nat" where
  "doy mm d = (153 * mm + 2) div 5 + d"

lemma month_cases: "mm \<le> 11 \<Longrightarrow> mm = 0 \<or> mm = 1 \<or> mm = 2 \<or> mm = 3 \<or> mm = 4 \<or> mm = 5 \<or> mm = 6 \<or> mm = 7 \<or> mm = 8 \<or> mm = 9 \<or> mm = 10 \<or> mm = 11" for mm :: nat
  by presburger

lemma doy_month:
  assumes "mm \<le> 11" "1 \<le> d" "d \<le> (if mm = 11 then 29 else if mm \<in> {1, 3, 6, 8} then 30 else 31)"
  shows "80 * (doy mm d + 30) div 2447 = mm + 1" "doy mm d + 30 - 2447 * (mm + 1) div 80 = d" "1 \<le> doy mm d" "doy mm d \<le> 366"
    "doy mm d = 366 \<Longrightarrow> mm = 11 \<and> d = 29"
  using month_cases [OF assms(1)] assms(2,3) by (elim disjE; simp add: doy_def)+

section \<open>Gregorian day numbers\<close>

text \<open>Days before the March year \<open>100 q + r\<close>.\<close>

definition greg :: "nat \<Rightarrow> nat \<Rightarrow> nat" where
  "greg q r = 36524 * q + q div 4 + 365 * r + r div 4"

lemma greg_year: "r < 100 \<Longrightarrow> y = 100 * q + r \<Longrightarrow> 365 * y + y div 4 + y div 400 = greg q r + y div 100"
proof -
  assume "r < 100" "y = 100 * q + r"
  then have "y div 100 = q" "y = 4 * (25 * q) + r" by simp_all
  moreover have "y div 4 = 25 * q + r div 4" unfolding \<open>y = 4 * (25 * q) + r\<close> by simp
  moreover have "y div 400 = y div 100 div 4" by (simp add: div_mult2_eq [symmetric])
  ultimately have "y div 100 = q" "y div 4 = 25 * q + r div 4" "y div 400 = q div 4" by simp_all
  then show ?thesis using \<open>y = 100 * q + r\<close> by (simp add: greg_def)
qed

text \<open>A year is a leap year of the proleptic rules when its last day of February exists.\<close>

lemma div_eqI: "n * q \<le> k \<Longrightarrow> k < n * (q + 1) \<Longrightarrow> k div n = q" for n :: nat
  by (metis Suc_eq_plus1 div_nat_eqI mult.commute)

lemma greg_back:
  assumes r: "r < 100" and t: "1 \<le> t" "t \<le> 365 \<or> t = 366 \<and> r mod 4 = 3 \<and> (r = 99 \<longrightarrow> q mod 4 = 3)"
    and l1: "l1 = greg q r + t + 36524" and l2: "l2 = l1 - (146097 * (q + 1) + 3) div 4"
  shows "4 * l1 div 146097 = q + 1" "4000 * (l2 + 1) div 1461001 = r" "l2 - 1461 * r div 4 + 31 = t + 30" "l2 + 1 = 365 * r + r div 4 + t"
    "(146097 * (q + 1) + 3) div 4 \<le> l1" "1461 * r div 4 \<le> l2"
proof -
  define c k where "c = q div 4" and "k = q mod 4"
  define a b where "a = r div 4" and "b = r mod 4"
  have q: "q = 4 * c + k" "k < 4" and r': "r = 4 * a + b" "b < 4" by (simp_all add: c_def k_def a_def b_def)
  have qd: "q div 4 = c" "r div 4 = a" by (simp_all add: c_def a_def)
  have a24: "a \<le> 24" using r r' by simp
  show "4 * l1 div 146097 = q + 1"
  proof (rule div_eqI)
    show "146097 * (q + 1) \<le> 4 * l1" unfolding l1 greg_def qd using q t(1) by simp
    show "4 * l1 < 146097 * (q + 1 + 1)"
    proof (cases "t \<le> 365")
      case True
      then show ?thesis unfolding l1 greg_def qd using q r' a24 by simp
    next
      case False
      then have "t = 366" "b = 3" "r = 99 \<Longrightarrow> k = 3" using t(2) by (auto simp: b_def k_def)
      then show ?thesis unfolding l1 greg_def qd using q r r' by (cases "r = 99"; simp)
    qed
  qed
  have d: "(146097 * (q + 1) + 3) div 4 = 36524 * (q + 1) + c + 1"
    by (rule div_eqI) (use q in simp)+
  then show le: "(146097 * (q + 1) + 3) div 4 \<le> l1" using l1 t(1) by (simp add: greg_def qd)
  show l2': "l2 + 1 = 365 * r + r div 4 + t" using l1 l2 d t(1) by (simp add: greg_def qd)
  have e: "1461 * r div 4 = 365 * r + a" by (rule div_eqI) (use r' in simp)+
  show "1461 * r div 4 \<le> l2" "l2 - 1461 * r div 4 + 31 = t + 30" using e l2' t(1) by (simp_all add: qd)
  show "4000 * (l2 + 1) div 1461001 = r"
  proof (rule div_eqI)
    show "1461001 * r \<le> 4000 * (l2 + 1)" unfolding l2' qd using r r' t(1) by simp
    show "4000 * (l2 + 1) < 1461001 * (r + 1)"
    proof (cases "t \<le> 365")
      case True
      then show ?thesis unfolding l2' qd using r' by simp
    next
      case False
      then have "t = 366" "b = 3" using t(2) by (auto simp: b_def)
      then show ?thesis unfolding l2' qd using r' by simp
    qed
  qed
qed

section \<open>Julian day numbers\<close>

lemma jul_back:
  fixes t r j k l :: nat
  assumes t: "1 \<le> t" "t \<le> 365 \<or> t = 366 \<and> r = 3" and r: "r < 4" and j: "j = 1461 * k + 365 * r + t" and l: "l = j - 1461 * k"
  shows "(j - 1) div 1461 = k" "l = 365 * r + t" "(l - 1) div 365 - l div 1461 = r" "l - 365 * r + 30 = t + 30" "l div 1461 \<le> (l - 1) div 365"
proof -
  have "365 * r + t \<le> 1461" using t(2) r by (elim disjE conjE) simp_all
  then show "(j - 1) div 1461 = k" using t(1) j by (intro div_eqI) simp_all
  show l': "l = 365 * r + t" using l j by simp
  then show "l - 365 * r + 30 = t + 30" by simp
  show "(l - 1) div 365 - l div 1461 = r" "l div 1461 \<le> (l - 1) div 365"
  proof (atomize (full), cases "t \<le> 365")
    case True
    have "(l - 1) div 365 = r" by (rule div_eqI) (use True l' t in simp)+
    moreover have "l div 1461 = 0" using True l' r by simp
    ultimately show "(l - 1) div 365 - l div 1461 = r \<and> l div 1461 \<le> (l - 1) div 365" by simp
  next
    case False
    then show "(l - 1) div 365 - l div 1461 = r \<and> l div 1461 \<le> (l - 1) div 365" using t(2) l' by auto
  qed
qed

section \<open>From words to natural numbers\<close>

lemma wdiv: "a < 2 ^ 32 \<Longrightarrow> b < 2 ^ 32 \<Longrightarrow> (of_nat a :: u32) div of_nat b = of_nat (a div b)"
proof (rule word_unat_eq_iff [THEN iffD2])
  assume "a < 2 ^ 32" "b < 2 ^ 32"
  moreover have "a div b \<le> a" by simp
  ultimately show "unat ((of_nat a :: u32) div of_nat b) = unat (of_nat (a div b) :: u32)"
    using order.strict_trans1 [of "a div b" a "2 ^ 32"] by (simp only: unat_div unat_of_nat_u32)
qed

lemma wsub: "b \<le> a \<Longrightarrow> (of_nat a :: u32) - of_nat b = of_nat (a - b)"
  by (simp add: of_nat_diff)

lemma wle: "a < 2 ^ 32 \<Longrightarrow> b < 2 ^ 32 \<Longrightarrow> (of_nat a :: u32) \<le> of_nat b \<longleftrightarrow> a \<le> b"
  by (simp add: word_le_nat_alt unat_of_nat_u32)

text \<open>The tail both conversions share: month and day from the day of the year.\<close>

lemma tail_words:
  assumes mm: "mm \<le> 11" "1 \<le> d" "d \<le> (if mm = 11 then 29 else if mm \<in> {1, 3, 6, 8} then 30 else 31)"
    and l3: "l3 = (of_nat (doy mm d + 30) :: u32)"
  shows "80 * l3 div 2447 = (of_nat (mm + 1) :: u32)" "l3 - 2447 * of_nat (mm + 1) div 80 = of_nat d"
    "(of_nat (mm + 1) :: u32) div 11 = of_nat ((mm + 1) div 11)"
    "(of_nat (mm + 1) :: u32) + 2 - 12 * of_nat ((mm + 1) div 11) = of_nat (mm + 3 - 12 * ((mm + 1) div 11))"
proof -
  note t = doy_month [OF mm]
  have "80 * l3 = of_nat (80 * (doy mm d + 30))" "2447 * of_nat (mm + 1) = (of_nat (2447 * (mm + 1)) :: u32)" by (simp_all add: l3 algebra_simps)
  moreover have "(of_nat (80 * (doy mm d + 30)) :: u32) div 2447 = of_nat (mm + 1)"
    using wdiv [of "80 * (doy mm d + 30)" 2447] t(1,4) by (simp del: of_nat_add of_nat_mult)
  moreover have m80: "(of_nat (2447 * (mm + 1)) :: u32) div 80 = of_nat (2447 * (mm + 1) div 80)"
    using wdiv [of "2447 * (mm + 1)" 80] mm(1) by (simp del: of_nat_add of_nat_mult)
  moreover have "2447 * (mm + 1) div 80 \<le> doy mm d + 30" using t(2) mm(2) by simp
  ultimately show "80 * l3 div 2447 = (of_nat (mm + 1) :: u32)" "l3 - 2447 * of_nat (mm + 1) div 80 = of_nat d"
    using t(2) wsub [of "2447 * (mm + 1) div 80" "doy mm d + 30"] by (simp_all add: l3 del: of_nat_add of_nat_mult)
  show "(of_nat (mm + 1) :: u32) div 11 = of_nat ((mm + 1) div 11)"
    using wdiv [of "mm + 1" 11] mm(1) by (simp del: of_nat_add)
  have le: "12 * ((mm + 1) div 11) \<le> mm + 3" using month_cases [OF mm(1)] by (elim disjE; simp)
  show "(of_nat (mm + 1) :: u32) + 2 - 12 * of_nat ((mm + 1) div 11) = of_nat (mm + 3 - 12 * ((mm + 1) div 11))"
    using wsub [OF le] by (simp add: add.commute)
qed

lemma from_gregorian:
  assumes mm: "mm \<le> 11" "1 \<le> d" "d \<le> (if mm = 11 then 29 else if mm \<in> {1, 3, 6, 8} then 30 else 31)"
    and q: "r < 100" "48 \<le> q" "q \<le> 1000" and leap: "doy mm d = 366 \<Longrightarrow> r mod 4 = 3 \<and> (r = 99 \<longrightarrow> q mod 4 = 3)"
    and j: "j + 32046 = greg q r + doy mm d" "2299160 \<le> j"
  shows "Q9K_DateFromJulian (of_nat j) =
    (of_nat (100 * (q - 48) + r + (mm + 1) div 11), of_nat (mm + 3 - 12 * ((mm + 1) div 11)), of_nat d)"
proof -
  note t = doy_month [OF mm]
  define l1 where "l1 = greg q r + doy mm d + 36524"
  define l2 where "l2 = l1 - (146097 * (q + 1) + 3) div 4"
  define n where "n = q + 1"
  have tt: "doy mm d \<le> 365 \<or> doy mm d = 366 \<and> r mod 4 = 3 \<and> (r = 99 \<longrightarrow> q mod 4 = 3)" using t(4) leap by fastforce
  note gb = greg_back [OF q(1) t(3) tt l1_def l2_def]
  have big: "l1 < 40000000" using q t(4) by (simp add: l1_def greg_def)
  have l2b: "l2 < 40000" using gb(4) q(1) t(4) by simp
  have g: "(2299160 :: u32) + 1 \<le> of_nat j + 1"
    using wle [of 2299161 "j + 1"] j big by (simp add: l1_def add.commute)
  have e1: "of_nat j + 1 + 68569 = (of_nat l1 :: u32)"
  proof -
    have "l1 = j + 1 + 68569" using j by (simp add: l1_def)
    then show ?thesis by simp
  qed
  have e2: "4 * of_nat l1 div 146097 = (of_nat n :: u32)"
    using wdiv [of "4 * l1" 146097] gb(1) big by (simp add: n_def)
  have "(146097 * of_nat n + 3) div 4 = (of_nat ((146097 * n + 3) div 4) :: u32)"
    using wdiv [of "146097 * n + 3" 4] q(3) by (simp add: n_def)
  then have e3: "of_nat l1 - (146097 * of_nat n + 3) div 4 = (of_nat l2 :: u32)"
    using wsub [OF gb(5)] by (simp add: l2_def n_def)
  have e4: "4000 * (of_nat l2 + 1) div 1461001 = (of_nat r :: u32)"
    using wdiv [of "4000 * (l2 + 1)" 1461001] gb(2) l2b by (simp add: add.commute)
  have "1461 * of_nat r div 4 = (of_nat (1461 * r div 4) :: u32)" using wdiv [of "1461 * r" 4] q(1) by simp
  then have e5: "of_nat l2 - 1461 * of_nat r div 4 + 31 = (of_nat (doy mm d + 30) :: u32)"
    using wsub [OF gb(6)] gb(3) by (metis of_nat_add of_nat_numeral)
  note tl = tail_words [OF mm refl]
  have e6: "100 * (of_nat n - 49) + of_nat r + of_nat ((mm + 1) div 11) = (of_nat (100 * (q - 48) + r + (mm + 1) div 11) :: u32)"
    using wsub [of 49 n] q(2) by (simp add: n_def)
  show ?thesis unfolding Q9K_DateFromJulian_def Let_def
    by (simp only: g if_True e1 e2 e3 e4 e5 tl e6)
qed

lemma from_julian:
  assumes mm: "mm \<le> 11" "1 \<le> d" "d \<le> (if mm = 11 then 29 else if mm \<in> {1, 3, 6, 8} then 30 else 31)"
    and k: "r < 4" "4716 \<le> 4 * k + r + (mm + 1) div 11" and leap: "doy mm d = 366 \<Longrightarrow> r = 3"
    and j: "j + 1403 = 1461 * k + 365 * r + doy mm d" "j < 2299160"
  shows "Q9K_DateFromJulian (of_nat j) =
    (of_nat (4 * k + r + (mm + 1) div 11 - 4716), of_nat (mm + 3 - 12 * ((mm + 1) div 11)), of_nat d)"
proof -
  note t = doy_month [OF mm]
  define j1 where "j1 = 1461 * k + 365 * r + doy mm d"
  define l where "l = j1 - 1461 * k"
  have tt: "doy mm d \<le> 365 \<or> doy mm d = 366 \<and> r = 3" using t(4) leap by fastforce
  note jb = jul_back [OF t(3) tt k(1) j1_def l_def]
  have big: "j1 < 3000000" using j by (simp add: j1_def)
  have g: "\<not> (2299160 :: u32) + 1 \<le> of_nat j + 1"
    using wle [of 2299161 "j + 1"] j(2) by (simp add: add.commute)
  have e1: "of_nat j + 1 + 1402 = (of_nat j1 :: u32)"
  proof -
    have "j1 = j + 1 + 1402" using j by (simp add: j1_def)
    then show ?thesis by simp
  qed
  have le: "1 \<le> j1" "1461 * k \<le> j1" using t(3) by (simp_all add: j1_def)
  have e2: "(of_nat j1 - 1) div 1461 = (of_nat k :: u32)"
    using wdiv [of "j1 - 1" 1461] jb(1) wsub [OF le(1)] big by simp
  have e3: "of_nat j1 - 1461 * of_nat k = (of_nat l :: u32)" using wsub [OF le(2)] by (simp add: l_def)
  have lb: "1 \<le> l" "l < 2000" using jb(2) k(1) t(3,4) by simp_all
  have "(of_nat l - 1) div 365 = (of_nat ((l - 1) div 365) :: u32)" "of_nat l div 1461 = (of_nat (l div 1461) :: u32)"
    using wdiv [of "l - 1" 365] wdiv [of l 1461] wsub [OF lb(1)] lb(2) by simp_all
  then have e4: "(of_nat l - 1) div 365 - of_nat l div 1461 = (of_nat r :: u32)" by (simp only: wsub [OF jb(5)] jb(3))
  have "365 * r \<le> l" using jb(2) by simp
  then have e5: "of_nat l - 365 * of_nat r + 30 = (of_nat (doy mm d + 30) :: u32)"
    using wsub [of "365 * r" l] jb(4) by (metis of_nat_add of_nat_mult of_nat_numeral)
  note tl = tail_words [OF mm refl]
  have e6: "4 * of_nat k + of_nat r + of_nat ((mm + 1) div 11) - 4716 = (of_nat (4 * k + r + (mm + 1) div 11 - 4716) :: u32)"
    using wsub [of 4716 "4 * k + r + (mm + 1) div 11"] k(2) by simp
  show ?thesis unfolding Q9K_DateFromJulian_def Let_def
    by (simp only: g if_False e1 e2 e3 e4 e5 tl e6)
qed

section \<open>The day number of a date\<close>

text \<open>The month of the March year and the March year itself, shifted by 4800.\<close>

definition mar_month :: "nat \<Rightarrow> nat" where "mar_month M = (if M \<le> 2 then M + 9 else M - 3)"
definition mar_year :: "nat \<Rightarrow> nat \<Rightarrow> nat" where "mar_year Y M = (if M \<le> 2 then Y + 4799 else Y + 4800)"

definition gregorian :: "nat \<Rightarrow> nat \<Rightarrow> nat \<Rightarrow> bool" where
  "gregorian Y M D \<longleftrightarrow> Y > 1582 \<or> Y = 1582 \<and> (M > 10 \<or> M = 10 \<and> D \<ge> 15)"

definition leap_year :: "nat \<Rightarrow> bool" where
  "leap_year Y \<longleftrightarrow> Y mod 4 = 0 \<and> (Y > 1582 \<longrightarrow> Y mod 100 = 0 \<longrightarrow> Y mod 400 = 0)"

definition month_days :: "nat \<Rightarrow> nat \<Rightarrow> nat" where
  "month_days Y M = (if M = 2 then (if leap_year Y then 29 else 28) else if M \<in> {4, 6, 9, 11} then 30 else 31)"

text \<open>The dates of the civil calendar: 4 October 1582 is followed by 15 October 1582.\<close>

definition valid_date :: "nat \<Rightarrow> nat \<Rightarrow> nat \<Rightarrow> bool" where
  "valid_date Y M D \<longleftrightarrow> Y \<le> 65535 \<and> 1 \<le> M \<and> M \<le> 12 \<and> 1 \<le> D \<and> D \<le> month_days Y M \<and>
     \<not> (Y = 1582 \<and> M = 10 \<and> 5 \<le> D \<and> D \<le> 14)"

definition day_number :: "nat \<Rightarrow> nat \<Rightarrow> nat \<Rightarrow> nat" where
  "day_number Y M D =
     (let y = mar_year Y M; t = doy (mar_month M) D in
      if gregorian Y M D then 365 * y + y div 4 + y div 400 + t - y div 100 - 32046 else 365 * y + y div 4 + t - 32084)"

lemma valid_bounds: "valid_date Y M D \<Longrightarrow> Y \<le> 65535 \<and> 1 \<le> M \<and> M \<le> 12 \<and> 1 \<le> D \<and> D \<le> 31"
  by (auto simp: valid_date_def month_days_def split: if_splits)

lemma gregorian_word:
  assumes "valid_date Y M D"
  shows "Q9K_DateIsGregorian (of_nat Y) (of_nat M) (of_nat D) = gregorian Y M D"
proof -
  have b: "Y < 2 ^ 32" "M < 2 ^ 32" "D < 2 ^ 32" using valid_bounds [OF assms] by simp_all
  have "(of_nat Y = (1582 :: u32)) = (Y = 1582)" "(of_nat M = (10 :: u32)) = (M = 10)"
    using b by (simp_all add: word_unat_eq_iff unat_of_nat_u32)
  moreover have "((1582 :: u32) < of_nat Y) = (1582 < Y)" "((10 :: u32) < of_nat M) = (10 < M)" "((15 :: u32) \<le> of_nat D) = (15 \<le> D)"
    using b by (simp_all add: word_less_nat_alt word_le_nat_alt unat_of_nat_u32)
  ultimately show ?thesis by (auto simp: Q9K_DateIsGregorian_def gregorian_def)
qed

lemma mar_words:
  assumes "1 \<le> M" "M \<le> 12" "Y \<le> 65535"
  shows "(14 - of_nat M) div 12 = (of_nat (if M \<le> 2 then 1 else 0) :: u32)"
    "of_nat Y + 4800 - of_nat (if M \<le> 2 then 1 else 0) = (of_nat (mar_year Y M) :: u32)"
    "of_nat M + 12 * of_nat (if M \<le> 2 then 1 else 0) - 3 = (of_nat (mar_month M) :: u32)"
proof -
  have "14 - of_nat M = (of_nat (14 - M) :: u32)" using wsub [of M 14] assms by simp
  moreover have "(14 - M) div 12 = (if M \<le> 2 then 1 else 0)" using assms by (auto intro: div_eqI)
  ultimately show "(14 - of_nat M) div 12 = (of_nat (if M \<le> 2 then 1 else 0) :: u32)"
    using wdiv [of "14 - M" 12] by (simp del: of_nat_diff)
  show "of_nat Y + 4800 - of_nat (if M \<le> 2 then 1 else 0) = (of_nat (mar_year Y M) :: u32)" by (simp add: mar_year_def)
  show "of_nat M + 12 * of_nat (if M \<le> 2 then 1 else 0) - 3 = (of_nat (mar_month M) :: u32)"
    using wsub [of 3 M] by (simp add: mar_month_def)
qed

lemma to_day_number:
  assumes v: "valid_date Y M D"
  shows "Q9K_JulianFromDate (of_nat Y) (of_nat M) (of_nat D) = of_nat (day_number Y M D)"
proof -
  note vb = valid_bounds [OF v]
  define y mm t where "y = mar_year Y M" and "mm = mar_month M" and "t = (153 * mm + 2) div 5"
  have b: "y \<le> 70335" "4799 \<le> y" "mm \<le> 11" using vb by (auto simp: y_def mm_def mar_year_def mar_month_def)
  have ok: "\<not> ((of_nat M :: u32) < 1 \<or> 12 < (of_nat M :: u32) \<or> (of_nat D :: u32) < 1 \<or> 31 < (of_nat D :: u32))"
    using vb by (simp add: word_less_nat_alt unat_of_nat_u32)
  have e: "(153 * of_nat mm + 2) div 5 = (of_nat t :: u32)" using wdiv [of "153 * mm + 2" 5] b(3) by (simp add: t_def add.commute)
  have d: "of_nat y div 4 = (of_nat (y div 4) :: u32)" "of_nat y div 100 = (of_nat (y div 100) :: u32)" "of_nat y div 400 = (of_nat (y div 400) :: u32)"
    using wdiv [of y 4] wdiv [of y 100] wdiv [of y 400] b(1) by simp_all
  note mw = mar_words [of M Y, folded y_def mm_def]
  show ?thesis
  proof (cases "gregorian Y M D")
    case True
    have "y div 100 \<le> y div 4" by (rule div_le_mono2) simp_all
    moreover have "32046 \<le> 365 * y" using b(2) by simp
    ultimately have "D + t + 365 * y + y div 4 + y div 400 = day_number Y M D + y div 100 + 32046"
      using True by (simp add: day_number_def Let_def y_def [symmetric] mm_def [symmetric] doy_def t_def)
    then have "(of_nat (D + t + 365 * y + y div 4 + y div 400) :: u32) = of_nat (day_number Y M D + y div 100 + 32046)" by (rule arg_cong)
    then have "(of_nat D + of_nat t + 365 * of_nat y + of_nat (y div 4) - of_nat (y div 100) + of_nat (y div 400) - 32045 - 1 :: u32) = of_nat (day_number Y M D)"
      by (simp add: algebra_simps)
    then show ?thesis unfolding Q9K_JulianFromDate_def Let_def
      using vb True by (simp only: ok if_False mw gregorian_word [OF v] if_True e d)
  next
    case False
    have "32084 \<le> 365 * y" using b(2) by simp
    then have "D + t + 365 * y + y div 4 = day_number Y M D + 32084"
      using False by (simp add: day_number_def Let_def y_def [symmetric] mm_def [symmetric] doy_def t_def)
    then have "(of_nat (D + t + 365 * y + y div 4) :: u32) = of_nat (day_number Y M D + 32084)" by (rule arg_cong)
    then have "(of_nat D + of_nat t + 365 * of_nat y + of_nat (y div 4) - 32083 - 1 :: u32) = of_nat (day_number Y M D)"
      by (simp add: algebra_simps)
    then show ?thesis unfolding Q9K_JulianFromDate_def Let_def
      using vb False by (simp only: ok if_False mw gregorian_word [OF v] e d)
  qed
qed

section \<open>The round trip\<close>

lemma valid_month:
  assumes v: "valid_date Y M D" and mm: "mm = mar_month M"
  shows "mm \<le> 11" "1 \<le> D" "D \<le> (if mm = 11 then 29 else if mm \<in> {1, 3, 6, 8} then 30 else 31)"
    "mm + 3 - 12 * ((mm + 1) div 11) = M" "(mm + 1) div 11 = (if M \<le> 2 then 1 else 0)" "doy mm D = 366 \<Longrightarrow> M = 2 \<and> leap_year Y"
proof -
  have "1 \<le> M" "M \<le> 12" using valid_bounds [OF v] by simp_all
  then have c: "M = 1 \<or> M = 2 \<or> M = 3 \<or> M = 4 \<or> M = 5 \<or> M = 6 \<or> M = 7 \<or> M = 8 \<or> M = 9 \<or> M = 10 \<or> M = 11 \<or> M = 12" by presburger
  have D: "1 \<le> D" "D \<le> month_days Y M" using v by (simp_all add: valid_date_def)
  have m11: "mm \<le> 11" using c by (elim disjE; simp add: mm mar_month_def)
  have "D \<le> (if mm = 11 then 29 else if mm \<in> {1, 3, 6, 8} then 30 else 31)"
    using c D(2) by (elim disjE; simp add: mm mar_month_def month_days_def split: if_splits)
  with m11 D(1) show m: "mm \<le> 11" "1 \<le> D" "D \<le> (if mm = 11 then 29 else if mm \<in> {1, 3, 6, 8} then 30 else 31)" by simp_all
  show "mm + 3 - 12 * ((mm + 1) div 11) = M" "(mm + 1) div 11 = (if M \<le> 2 then 1 else 0)"
    using c by (elim disjE; simp add: mm mar_month_def)+
  assume "doy mm D = 366"
  then have "mm = 11" "D = 29" using doy_month(5) [OF m] by auto
  then have "M = 2" using c by (auto simp: mm mar_month_def split: if_splits)
  then show "M = 2 \<and> leap_year Y" using v \<open>D = 29\<close> by (auto simp: valid_date_def month_days_def split: if_splits)
qed

lemma gregorian_start:
  assumes v: "valid_date Y M D" and g: "gregorian Y M D" and r: "r < 100" "mar_year Y M = 100 * q + r"
  shows "2331206 \<le> greg q r + doy (mar_month M) D" "63 \<le> q"
proof -
  note vb = valid_bounds [OF v]
  have y: "6382 \<le> mar_year Y M" using g vb by (auto simp: gregorian_def mar_year_def)
  then show q: "63 \<le> q" using r by simp
  show "2331206 \<le> greg q r + doy (mar_month M) D"
  proof (cases "q = 63 \<and> r = 82")
    case True
    then have "mar_year Y M = 6382" using r(2) by simp
    then have "Y = 1583 \<and> M \<le> 2 \<or> Y = 1582 \<and> 3 \<le> M" by (auto simp: mar_year_def split: if_splits)
    then have "229 \<le> doy (mar_month M) D"
    proof
      assume "Y = 1583 \<and> M \<le> 2"
      then have "10 \<le> mar_month M" using vb by (simp add: mar_month_def)
      then have "(153 * 10 + 2) div 5 \<le> (153 * mar_month M + 2) div 5" by (intro div_le_mono) simp
      then show ?thesis by (simp add: doy_def)
    next
      assume a: "Y = 1582 \<and> 3 \<le> M"
      then consider "M = 10" "15 \<le> D" | "8 \<le> mar_month M" using g by (auto simp: gregorian_def mar_month_def)
      then show ?thesis
      proof cases
        case 2
        then have "(153 * 8 + 2) div 5 \<le> (153 * mar_month M + 2) div 5" by (intro div_le_mono) simp
        then show ?thesis by (simp add: doy_def)
      qed (simp add: doy_def mar_month_def)
    qed
    then show ?thesis using True by (simp add: greg_def)
  next
    case False
    show ?thesis
    proof (cases "q = 63")
      case True
      then have "83 \<le> r" using False y r by simp
      then have "83 div 4 \<le> r div 4" "365 * 83 \<le> 365 * r" by (intro div_le_mono mult_le_mono2; simp)+
      then show ?thesis using True by (simp add: greg_def)
    next
      case False
      then have "64 \<le> q" using q by simp
      then show ?thesis by (simp add: greg_def)
    qed
  qed
qed

lemma julian_end:
  assumes v: "valid_date Y M D" and g: "\<not> gregorian Y M D" and t: "t = doy (mar_month M) D" "t \<le> 366" and y: "y = mar_year Y M"
  shows "365 * y + y div 4 + t < 2331244"
proof -
  note vb = valid_bounds [OF v]
  have "y \<le> 6381 \<or> y = 6382 \<and> t \<le> 218"
  proof (cases "Y = 1582 \<and> 3 \<le> M")
    case True
    then have "M \<le> 9 \<or> M = 10 \<and> D \<le> 4" using g v by (auto simp: gregorian_def valid_date_def)
    then have "t \<le> 218"
    proof
      assume "M \<le> 9"
      then have "mar_month M \<le> 6" using True by (simp add: mar_month_def)
      then have "(153 * mar_month M + 2) div 5 \<le> (153 * 6 + 2) div 5" by (intro div_le_mono) simp
      then show ?thesis using vb by (simp add: t doy_def)
    qed (simp add: t doy_def mar_month_def)
    then show ?thesis using True by (simp add: y mar_year_def)
  next
    case False
    then have "y \<le> 6381" using g by (auto simp: y mar_year_def gregorian_def)
    then show ?thesis by simp
  qed
  then show ?thesis
  proof
    assume "y \<le> 6381"
    then have "y div 4 \<le> 6381 div 4" "365 * y \<le> 365 * 6381" by (intro div_le_mono mult_le_mono2; simp)+
    then show ?thesis using t(2) by simp
  qed simp
qed

lemma date_roundtrip:
  assumes v: "valid_date Y M D"
  shows "Q9K_DateFromJulian (of_nat (day_number Y M D)) = (of_nat Y, of_nat M, of_nat D)"
proof -
  define y mm where "y = mar_year Y M" and "mm = mar_month M"
  note vb = valid_bounds [OF v] and vm = valid_month [OF v mm_def]
  note t = doy_month [OF vm(1-3)]
  have yb: "y \<le> 70335" "4799 \<le> y" using vb by (auto simp: y_def mar_year_def)
  have Y: "Y + 4800 = y + (mm + 1) div 11" unfolding vm(5) by (auto simp: y_def mar_year_def)
  show ?thesis
  proof (cases "gregorian Y M D")
    case True
    define q r where "q = y div 100" and "r = y mod 100"
    have qr: "r < 100" "y = 100 * q + r" by (simp_all add: q_def r_def)
    note gs = gregorian_start [OF v True qr(1) qr(2) [unfolded y_def], folded mm_def]
    have j: "day_number Y M D + 32046 = greg q r + doy mm D"
      using greg_year [OF qr] gs(1) True by (simp add: day_number_def Let_def y_def [symmetric] mm_def [symmetric])
    have lp: "r mod 4 = 3 \<and> (r = 99 \<longrightarrow> q mod 4 = 3)" if "doy mm D = 366"
    proof -
      have M: "M = 2" "leap_year Y" using vm(6) [OF that] by auto
      then have "Y > 1582" using True by (auto simp: gregorian_def)
      then have l: "Y mod 4 = 0" "Y mod 100 = 0 \<longrightarrow> Y mod 400 = 0" using M(2) by (auto simp: leap_year_def)
      have e: "Y + 4800 = 100 * q + (r + 1)" using Y M(1) qr(2) vm(5) by simp
      have "(r + 1) mod 4 = (4 * (25 * q) + (r + 1)) mod 4" by (rule mod_mult_self4 [symmetric])
      also have "4 * (25 * q) + (r + 1) = Y + 4 * 1200" using e by simp
      also have "(Y + 4 * 1200) mod 4 = Y mod 4" by (rule mod_mult_self2)
      finally have "(r + 1) mod 4 = 0" using l(1) by simp
      then have "r mod 4 = 3" by presburger
      moreover have "q mod 4 = 3" if "r = 99"
      proof -
        have Yq: "Y + 4800 = 100 * (q + 1)" using e that by simp
        have "Y mod 100 = (Y + 100 * 48) mod 100" by (rule mod_mult_self2 [symmetric])
        also have "Y + 100 * 48 = 100 * (q + 1)" using Yq by simp
        finally have "Y mod 100 = 0" by (simp only: mod_mult_self1_is_0)
        then have "Y mod 400 = 0" using l(2) by simp
        then have "(Y + 400 * 12) mod 400 = 0" by (simp only: mod_mult_self2)
        moreover have y4: "Y + 400 * 12 = 100 * (q + 1)" using Yq by simp
        moreover have n4: "400 = 100 * (4 :: nat)" by simp
        ultimately have "100 * (q + 1) mod (100 * 4) = 0" unfolding y4 by (simp only: n4)
        then have "(q + 1) mod 4 = 0" by (simp only: mult_mod_right [symmetric] mult_eq_0_iff) simp
        then show ?thesis by presburger
      qed
      ultimately show ?thesis by simp
    qed
    have q: "48 \<le> q" "q \<le> 1000" using gs(2) yb(1) qr by simp_all
    have "2299160 \<le> day_number Y M D" using j gs(1) by simp
    note fg = from_gregorian [OF vm(1-3) qr(1) q lp j this]
    have "100 * (q - 48) + r + (mm + 1) div 11 = Y" using Y qr(2) q(1) by simp
    then show ?thesis using fg vm(4) by simp
  next
    case False
    define k r where "k = (y - 84) div 4" and "r = (y - 84) mod 4"
    have kr: "r < 4" "y = 84 + 4 * k + r" using yb(2) by (simp_all add: k_def r_def)
    have "y div 4 = 21 + k" using kr by (intro div_eqI) simp_all
    moreover have "32084 \<le> 365 * y" using yb(2) by simp
    ultimately have j: "day_number Y M D + 1403 = 1461 * k + 365 * r + doy mm D"
      using False kr(2) by (simp add: day_number_def Let_def y_def [symmetric] mm_def [symmetric])
    have "day_number Y M D < 2299160"
      using julian_end [OF v False mm_def [THEN arg_cong, of "\<lambda>m. doy m D"] t(4) y_def] False
      by (simp add: day_number_def Let_def y_def [symmetric] mm_def [symmetric])
    moreover have "r = 3" if "doy mm D = 366"
    proof -
      have M: "M = 2" "leap_year Y" using vm(6) [OF that] by auto
      then have "Y mod 4 = 0" by (simp add: leap_year_def)
      moreover have "Y + 4800 = 84 + 4 * k + r + 1" using Y M(1) kr(2) vm(5) by simp
      ultimately show ?thesis using kr(1) by presburger
    qed
    moreover have "4716 \<le> 4 * k + r + (mm + 1) div 11" using kr(2) Y by simp
    ultimately have fj: "Q9K_DateFromJulian (of_nat (day_number Y M D)) =
        (of_nat (4 * k + r + (mm + 1) div 11 - 4716), of_nat (mm + 3 - 12 * ((mm + 1) div 11)), of_nat D)"
      using from_julian [OF vm(1-3) kr(1) _ _ j] by simp
    have "4 * k + r + (mm + 1) div 11 - 4716 = Y" using Y kr(2) yb(2) by simp
    then show ?thesis using fj vm(4) by simp
  qed
qed

section \<open>F$Julian and F$Gregor\<close>

definition packed :: "nat \<Rightarrow> nat \<Rightarrow> nat \<Rightarrow> u32" where
  "packed a b c = push_bit 16 (of_nat a) OR push_bit 8 (of_nat b) OR of_nat c"

lemma unpack:
  fixes A B C :: u32
  shows "drop_bit 16 (push_bit 16 (take_bit 16 A) OR push_bit 8 (take_bit 8 B) OR take_bit 8 C) AND 0xFFFF = take_bit 16 A"
    "drop_bit 8 (push_bit 16 (take_bit 16 A) OR push_bit 8 (take_bit 8 B) OR take_bit 8 C) AND 0xFF = take_bit 8 B"
    "(push_bit 16 (take_bit 16 A) OR push_bit 8 (take_bit 8 B) OR take_bit 8 C) AND 0xFF = take_bit 8 C"
    "drop_bit 16 (push_bit 16 (take_bit 16 A) OR push_bit 8 (take_bit 8 B) OR take_bit 8 C) AND 0xFF = take_bit 8 A"
proof -
  have m: "(0xFFFF :: u32) = mask 16" "(0xFF :: u32) = mask 8" by (simp_all add: mask_eq_exp_minus_1)
  show "drop_bit 16 (push_bit 16 (take_bit 16 A) OR push_bit 8 (take_bit 8 B) OR take_bit 8 C) AND 0xFFFF = take_bit 16 A"
    "drop_bit 8 (push_bit 16 (take_bit 16 A) OR push_bit 8 (take_bit 8 B) OR take_bit 8 C) AND 0xFF = take_bit 8 B"
    "(push_bit 16 (take_bit 16 A) OR push_bit 8 (take_bit 8 B) OR take_bit 8 C) AND 0xFF = take_bit 8 C"
    "drop_bit 16 (push_bit 16 (take_bit 16 A) OR push_bit 8 (take_bit 8 B) OR take_bit 8 C) AND 0xFF = take_bit 8 A"
    unfolding m by (rule bit_word_eqI; auto simp: bit_simps)+
qed

lemma take_small: "x < 2 ^ n \<Longrightarrow> n \<le> 32 \<Longrightarrow> take_bit n (of_nat x :: u32) = of_nat x"
  by (simp add: take_bit_of_nat take_bit_nat_eq_self)

lemma packed_fields:
  assumes "a < 2 ^ 16" "b < 2 ^ 8" "c < 2 ^ 8"
  shows "drop_bit 16 (packed a b c) AND 0xFFFF = of_nat a" "drop_bit 8 (packed a b c) AND 0xFF = of_nat b" "packed a b c AND 0xFF = of_nat c"
    "a < 2 ^ 8 \<Longrightarrow> drop_bit 16 (packed a b c) AND 0xFF = of_nat a"
proof -
  note u = unpack [of "of_nat a" "of_nat b" "of_nat c"]
  have t: "take_bit 16 (of_nat a :: u32) = of_nat a" "take_bit 8 (of_nat b :: u32) = of_nat b" "take_bit 8 (of_nat c :: u32) = of_nat c"
    by (rule take_small; use assms in simp)+
  show "drop_bit 16 (packed a b c) AND 0xFFFF = of_nat a" "drop_bit 8 (packed a b c) AND 0xFF = of_nat b" "packed a b c AND 0xFF = of_nat c"
    using u(1-3) unfolding t packed_def by blast+
  show "drop_bit 16 (packed a b c) AND 0xFF = of_nat a" if "a < 2 ^ 8"
    using u(4) take_small [OF that] unfolding t packed_def by simp
qed

lemma day_number_range:
  assumes v: "valid_date Y M D" shows "day_number Y M D < 2 ^ 32" "0 < day_number Y M D"
proof -
  note vb = valid_bounds [OF v] and t = doy_month(3,4) [OF valid_month(1-3) [OF v refl]]
  define y where "y = mar_year Y M"
  have y: "y \<le> 70335" "4799 \<le> y" using vb by (auto simp: y_def mar_year_def)
  have d: "y div 100 \<le> y div 4" by (simp add: div_le_mono2)
  have e: "y div 4 \<le> 70335" "y div 400 \<le> 70335" using y(1) div_le_dividend order_trans by blast+
  have "day_number Y M D \<le> 365 * y + y div 4 + y div 400 + doy (mar_month M) D"
    unfolding day_number_def Let_def y_def [symmetric] by (auto intro: le_trans [OF diff_le_self])
  then show "day_number Y M D < 2 ^ 32" using y(1) e t(2) by simp
  show "0 < day_number Y M D" using y d t by (simp add: day_number_def Let_def y_def [symmetric])
qed

text \<open>C33: for every valid civil date up to the year 65535 and every time of day, F$Julian
  yields a day number and the seconds since midnight, from which F$Gregor gives back exactly the packed date
  and time; the switch from the Julian to the Gregorian calendar in October 1582 is included.\<close>

theorem julian_gregor_roundtrip:
  assumes "valid_date Y M D" "h < 24" "mn < 60" "sc < 60"
  shows "\<exists>s j. Q9K_ProcJulian (packed h mn sc) (packed Y M D) = Inr (s, j) \<and> Q9K_ProcGregor s j = Inr (packed h mn sc, packed Y M D)"
proof -
  note vb = valid_bounds [OF assms(1)]
  define s where "s = h * 3600 + mn * 60 + sc"
  have s: "s < 86400" using assms(2-4) by (simp add: s_def)
  note pf = packed_fields [of Y M D] packed_fields [of h mn sc]
  have f: "drop_bit 16 (packed Y M D) AND 0xFFFF = of_nat Y" "drop_bit 8 (packed Y M D) AND 0xFF = of_nat M" "packed Y M D AND 0xFF = of_nat D"
    "drop_bit 16 (packed h mn sc) AND 0xFF = of_nat h" "drop_bit 8 (packed h mn sc) AND 0xFF = of_nat mn" "packed h mn sc AND 0xFF = of_nat sc"
    using pf vb assms(2-4) by simp_all
  have g: "\<not> ((23 :: u32) < of_nat h \<or> (59 :: u32) < of_nat mn \<or> (59 :: u32) < of_nat sc)"
    using assms(2-4) by (simp add: word_less_nat_alt unat_of_nat_u32)
  note jb = day_number_range [OF assms(1)]
  have nz: "(of_nat (day_number Y M D) :: u32) \<noteq> 0" using jb by (simp add: word_unat_eq_iff unat_of_nat_u32)
  have "Q9K_ProcJulian (packed h mn sc) (packed Y M D) = Inr (of_nat s, of_nat (day_number Y M D))"
    unfolding Q9K_ProcJulian_def Let_def f to_day_number [OF assms(1)] using g nz by (simp add: s_def)
  moreover have "Q9K_ProcGregor (of_nat s) (of_nat (day_number Y M D)) = Inr (packed h mn sc, packed Y M D)"
  proof -
    have "\<not> (24 * 3600 :: u32) \<le> of_nat s" using wle [of 86400 s] s by simp
    moreover have e: "s = 60 * (60 * h + mn) + sc" by (simp add: s_def)
    have "s div 60 = 60 * h + mn" unfolding e using assms(4) by simp
    moreover have "s mod 60 = sc" unfolding e mod_mult_self4 using assms(4) by simp
    moreover have "s div 3600 = s div 60 div 60" by (simp add: div_mult2_eq [symmetric])
    ultimately have "\<not> (24 * 3600 :: u32) \<le> of_nat s" "s div 3600 = h" "s div 60 mod 60 = mn" "s mod 60 = sc" using assms(3) by simp_all
    moreover have "(of_nat s :: u32) div 3600 = of_nat (s div 3600)" "(of_nat s :: u32) div 60 = of_nat (s div 60)"
      using wdiv [of s 3600] wdiv [of s 60] s by simp_all
    moreover have "(of_nat (s div 60) :: u32) mod 60 = of_nat (s div 60 mod 60)" "(of_nat s :: u32) mod 60 = of_nat (s mod 60)"
      using s by (simp_all add: word_unat_eq_iff unat_mod unat_of_nat_u32)
    ultimately show ?thesis using nz unfolding Q9K_ProcGregor_def date_roundtrip [OF assms(1)] by (simp add: packed_def)
  qed
  ultimately show ?thesis by blast
qed

lemma julian_gregor_roundtrip_witness:
  "\<exists>s j. Q9K_ProcJulian (packed 23 59 58) (packed 2024 2 29) = Inr (s, j) \<and> Q9K_ProcGregor s j = Inr (packed 23 59 58, packed 2024 2 29)"
  by (rule julian_gregor_roundtrip) (simp_all add: valid_date_def month_days_def leap_year_def)

end
