(* ===== verification/Q9_ModCheck.thy ===== *)
theory Q9_ModCheck
  imports Q9_Memory
begin

text \<open>
  Recognising modules in memory (\<^verbatim>\<open>q9kernel_modcheck.c\<close>) and finding one by name in the boot
  regions (\<^verbatim>\<open>q9kernel_modsearch.c\<close>).  The scan of a region jumps by the size a module claims, so
  it may not end: it returns \<^const>\<open>None\<close> then.
\<close>

abbreviation Q9_SYNC_68K :: u16 where "Q9_SYNC_68K \<equiv> 0x4AFC"
abbreviation Q9_HDRLEN_68K :: u32 where "Q9_HDRLEN_68K \<equiv> 0x30"
abbreviation Q9K_MH_SIZE :: u32 where "Q9K_MH_SIZE \<equiv> 0x04"
abbreviation Q9K_MH_NAME :: u32 where "Q9K_MH_NAME \<equiv> 0x0C"
abbreviation Q9K_MH_REVS :: u32 where "Q9K_MH_REVS \<equiv> 0x15"
abbreviation Q9K_SCAN_STEP :: u32 where "Q9K_SCAN_STEP \<equiv> 2"

section \<open>Module headers\<close>

definition Q9K_ReadU16BE :: "memory \<Rightarrow> u32 \<Rightarrow> u16" where
  "Q9K_ReadU16BE m addr = push_bit 8 (ucast (m addr)) OR ucast (m (addr + 1))"

definition Q9K_CheckSyncWord :: "memory \<Rightarrow> u32 \<Rightarrow> u32 \<Rightarrow> bool" where
  "Q9K_CheckSyncWord m addr availableLen =
     (if addr = 0 \<or> availableLen < 2 then False else Q9K_ReadU16BE m addr = Q9_SYNC_68K)"

text \<open>The XOR of the first \<open>n\<close> words: the loops \<^verbatim>\<open>for (i = 0; i < 2 * n; i += 2)\<close>.\<close>

fun header_xor :: "nat \<Rightarrow> memory \<Rightarrow> u32 \<Rightarrow> u16 \<Rightarrow> u16" where
  "header_xor 0 m addr checksum = checksum"
| "header_xor (Suc n) m addr checksum = header_xor n m (addr + 2) (checksum XOR Q9K_ReadU16BE m addr)"

definition Q9K_ValidModuleHeader :: "memory \<Rightarrow> u32 \<Rightarrow> u32 \<Rightarrow> bool" where
  "Q9K_ValidModuleHeader m addr availableLen =
     (if availableLen < Q9_HDRLEN_68K then False
      else if \<not> Q9K_CheckSyncWord m addr availableLen then False
      else header_xor 24 m addr 0 = 0xFFFF)"

section \<open>Searching the boot regions\<close>

definition Q9K_ReadU32BE :: "memory \<Rightarrow> u32 \<Rightarrow> u32" where
  "Q9K_ReadU32BE m p =
     push_bit 24 (ucast (m p)) OR push_bit 16 (ucast (m (p + 1))) OR
     push_bit 8 (ucast (m (p + 2))) OR ucast (m (p + 3))"

definition name_lower :: "u8 \<Rightarrow> u8" where
  "name_lower a = (if a \<ge> 0x41 \<and> a \<le> 0x5A then a + 0x20 else a)"

fun Q9K_NamesMatch_from :: "nat \<Rightarrow> memory \<Rightarrow> u32 \<Rightarrow> u32 \<Rightarrow> bool" where
  "Q9K_NamesMatch_from 0 m moduleName targetName = False"
| "Q9K_NamesMatch_from (Suc n) m moduleName targetName =
     (let a = m moduleName; b = m targetName in
      if name_lower a \<noteq> name_lower b then False
      else if a = 0 then True
      else Q9K_NamesMatch_from n m (moduleName + 1) (targetName + 1))"

definition Q9K_NamesMatch :: "memory \<Rightarrow> u32 \<Rightarrow> u32 \<Rightarrow> u32 \<Rightarrow> bool" where
  "Q9K_NamesMatch m moduleName nameMaxLen targetName =
     Q9K_NamesMatch_from (unat nameMaxLen) m moduleName targetName"

record best_module =
  bestMatch :: u32
  bestRevision :: u32
  bestAvailableLen :: u32

definition take_better :: "memory \<Rightarrow> u32 \<Rightarrow> u32 \<Rightarrow> best_module \<Rightarrow> best_module" where
  "take_better m candidate remaining best =
     (let revision = ucast (m (candidate + Q9K_MH_REVS)) in
      if bestMatch best = 0 \<or> revision > bestRevision best
      then \<lparr>bestMatch = candidate, bestRevision = revision, bestAvailableLen = remaining\<rparr>
      else best)"

partial_function (option) Q9K_FindModule_region ::
  "memory \<Rightarrow> u32 \<Rightarrow> u32 \<Rightarrow> u32 \<Rightarrow> best_module \<Rightarrow> u32 \<Rightarrow> best_module option" where
  "Q9K_FindModule_region m targetName regionBase regionLen best offset =
     (if offset + 0x30 \<le> regionLen then
        let candidate = regionBase + offset;
            remaining = regionLen - offset
        in if \<not> Q9K_CheckSyncWord m candidate remaining
           then Q9K_FindModule_region m targetName regionBase regionLen best (offset + Q9K_SCAN_STEP)
           else if \<not> Q9K_ValidModuleHeader m candidate remaining
           then Q9K_FindModule_region m targetName regionBase regionLen best (offset + Q9K_SCAN_STEP)
           else
             let moduleSize = Q9K_ReadU32BE m (candidate + Q9K_MH_SIZE);
                 nameOffset = Q9K_ReadU32BE m (candidate + Q9K_MH_NAME)
             in if moduleSize = 0 \<or> nameOffset \<ge> remaining
                then Q9K_FindModule_region m targetName regionBase regionLen best (offset + Q9K_SCAN_STEP)
                else Q9K_FindModule_region m targetName regionBase regionLen
                       (if Q9K_NamesMatch m (candidate + nameOffset) (remaining - nameOffset) targetName
                        then take_better m candidate remaining best else best)
                       (offset + moduleSize)
      else Some best)"

text \<open>The list of regions ends at a zero base, after 64 entries at the latest.\<close>

fun Q9K_FindModule_regions :: "nat \<Rightarrow> memory \<Rightarrow> u32 \<Rightarrow> u32 \<Rightarrow> best_module \<Rightarrow> best_module option" where
  "Q9K_FindModule_regions 0 m entry targetName best = Some best"
| "Q9K_FindModule_regions (Suc n) m entry targetName best =
     (let regionBase = Q9K_ReadU32BE m entry;
          regionLen = Q9K_ReadU32BE m (entry + 4)
      in if regionBase = 0 then Some best
         else do {
           best' \<leftarrow> Q9K_FindModule_region m targetName regionBase regionLen best 0;
           Q9K_FindModule_regions n m (entry + 8) targetName best'
         })"

definition Q9K_FindModuleByName :: "memory \<Rightarrow> u32 \<Rightarrow> u32 \<Rightarrow> (u32 \<times> u32) option" where
  "Q9K_FindModuleByName m regionList targetName =
     (if regionList = 0 \<or> targetName = 0 then Some (0, 0)
      else do {
        best \<leftarrow> Q9K_FindModule_regions 64 m regionList targetName
                  \<lparr>bestMatch = 0, bestRevision = 0, bestAvailableLen = 0\<rparr>;
        Some (bestMatch best, bestAvailableLen best)
      })"

end
