(* ===== verification/Q9_Pool.thy ===== *)
theory Q9_Pool
  imports Q9_Layout
begin

text \<open>
  Pools of equal slots.  The kernel keeps the free process descriptors, path descriptors and module
  directory entries on singly linked lists: a cell holds the address of the first free slot, the first longword
  of every free slot the address of the next.  The contract of such a pool is a locale; the three pools
  interpret it in the theories that define their operations.
\<close>

section \<open>The contract\<close>

text \<open>The results of \<open>n\<close> allocations in a row.\<close>

fun allocs :: "(memory \<Rightarrow> u32 \<times> memory) \<Rightarrow> nat \<Rightarrow> memory \<Rightarrow> u32 list" where
  "allocs alloc 0 m = []"
| "allocs alloc (Suc n) m = fst (alloc m) # allocs alloc n (snd (alloc m))"

locale lifo_pool =
  fixes free_slots :: "memory \<Rightarrow> u32 list \<Rightarrow> bool" and slots :: "u32 set"
    and alloc :: "memory \<Rightarrow> u32 \<times> memory" and release :: "memory \<Rightarrow> u32 \<Rightarrow> memory"
  assumes slots_of: "free_slots m xs \<Longrightarrow> distinct xs \<and> set xs \<subseteq> slots \<and> 0 \<notin> slots"
    and alloc_empty: "free_slots m [] \<Longrightarrow> alloc m = (0, m)"
    and alloc_first: "free_slots m (x # xs) \<Longrightarrow> fst (alloc m) = x \<and> free_slots (snd (alloc m)) xs"
    and release_first: "free_slots m xs \<Longrightarrow> x \<in> slots \<Longrightarrow> x \<notin> set xs \<Longrightarrow> free_slots (release m x) (x # xs)"
begin

lemma alloc_fails_iff: "free_slots m xs \<Longrightarrow> fst (alloc m) = 0 \<longleftrightarrow> xs = []"
  using slots_of [of m xs] alloc_empty [of m] alloc_first [of m] by (cases xs) auto

lemma alloc_release: "free_slots m xs \<Longrightarrow> x \<in> slots \<Longrightarrow> x \<notin> set xs \<Longrightarrow>
    fst (alloc (release m x)) = x \<and> free_slots (snd (alloc (release m x))) xs"
  by (rule alloc_first) (rule release_first)

text \<open>Allocating over and over hands out every free slot once, in the order of the list, and then fails.\<close>

lemma allocs_free: "free_slots m xs \<Longrightarrow> allocs alloc (length xs + k) m = xs @ replicate k 0"
proof (induction xs arbitrary: m)
  case Nil
  then have "allocs alloc k m = replicate k 0" by (induction k) (simp_all add: alloc_empty)
  then show ?case by simp
next
  case (Cons x xs)
  then show ?case using alloc_first [of m x xs] by simp
qed

end

section \<open>Linked free lists\<close>

text \<open>\<open>free_list head S m xs\<close>: the cell \<open>head\<close> leads through the first longwords to exactly the
  slots \<open>xs\<close> of the pool \<open>S\<close>, whose first longwords overlap neither each other nor the cell.\<close>

definition pool_cells :: "u32 \<Rightarrow> u32 set \<Rightarrow> bool" where
  "pool_cells head S \<longleftrightarrow> (\<forall>s\<in>S. s \<noteq> 0 \<and> apart s 4 head 4) \<and>
     (\<forall>s\<in>S. \<forall>t\<in>S. s \<noteq> t \<longrightarrow> apart s 4 t 4)"

definition free_list :: "u32 \<Rightarrow> u32 set \<Rightarrow> memory \<Rightarrow> u32 list \<Rightarrow> bool" where
  "free_list head S m xs \<longleftrightarrow> pool_cells head S \<and> distinct xs \<and> set xs \<subseteq> S \<and>
     path (\<lambda>x. Q9K_GetU32 m x) (Q9K_GetU32 m head) xs 0"

definition pool_pop :: "u32 \<Rightarrow> memory \<Rightarrow> u32 \<times> memory" where
  "pool_pop head m =
     (let x = Q9K_GetU32 m head in
      if x = 0 then (0, m) else (x, Q9K_SetU32 m head (Q9K_GetU32 m x)))"

definition pool_push :: "u32 \<Rightarrow> memory \<Rightarrow> u32 \<Rightarrow> memory" where
  "pool_push head m x = Q9K_SetU32 (Q9K_SetU32 m x (Q9K_GetU32 m head)) head x"

lemma free_listD:
  assumes "free_list head S m xs"
  shows "distinct xs" "set xs \<subseteq> S" "0 \<notin> S" "s \<in> S \<Longrightarrow> apart s 4 head 4"
    "s \<in> S \<Longrightarrow> t \<in> S \<Longrightarrow> s \<noteq> t \<Longrightarrow> apart s 4 t 4"
    "path (\<lambda>x. Q9K_GetU32 m x) (Q9K_GetU32 m head) xs 0"
  using assms by (auto simp: free_list_def pool_cells_def)

lemma free_list_cong:
  assumes "free_list head S m xs" "Q9K_GetU32 m' head = Q9K_GetU32 m head"
    and "\<And>x. x \<in> set xs \<Longrightarrow> Q9K_GetU32 m' x = Q9K_GetU32 m x"
  shows "free_list head S m' xs"
  using assms path_cong [of xs "\<lambda>x. Q9K_GetU32 m' x" "\<lambda>x. Q9K_GetU32 m x"]
  by (simp add: free_list_def)

lemma pool_pop_empty: "free_list head S m [] \<Longrightarrow> pool_pop head m = (0, m)"
  by (simp add: free_list_def pool_pop_def)

lemma pool_pop_first:
  assumes "free_list head S m (x # xs)"
  shows "pool_pop head m = (x, Q9K_SetU32 m head (Q9K_GetU32 m x))"
    and "free_list head S (Q9K_SetU32 m head (Q9K_GetU32 m x)) xs"
proof -
  note f = free_listD [OF assms]
  have x: "Q9K_GetU32 m head = x" "x \<noteq> 0" using f by auto
  then show "pool_pop head m = (x, Q9K_SetU32 m head (Q9K_GetU32 m x))"
    by (simp add: pool_pop_def)
  have "path (\<lambda>y. Q9K_GetU32 (Q9K_SetU32 m head v) y) p xs 0 = path (\<lambda>y. Q9K_GetU32 m y) p xs 0" for v p
    using f(2) by (intro path_cong) (auto intro!: c32_32.frame apart_sym [OF f(4)])
  then show "free_list head S (Q9K_SetU32 m head (Q9K_GetU32 m x)) xs"
    using assms by (simp add: free_list_def)
qed

lemma pool_push_first:
  assumes "free_list head S m xs" "x \<in> S" "x \<notin> set xs"
  shows "free_list head S (pool_push head m x) (x # xs)"
proof -
  note f = free_listD [OF assms(1)]
  let ?m = "pool_push head m x"
  have h: "Q9K_GetU32 ?m head = x" "Q9K_GetU32 ?m x = Q9K_GetU32 m head"
    using f(4) [OF assms(2)] by (simp_all add: pool_push_def apart_sym)
  have "Q9K_GetU32 ?m y = Q9K_GetU32 m y" if "y \<in> set xs" for y
  proof -
    have y: "y \<in> S" "y \<noteq> x" using that f(2) assms(3) by auto
    then show ?thesis using f(4) [OF y(1)] f(5) [OF assms(2) y(1)] by (simp add: pool_push_def apart_sym)
  qed
  then have "path (\<lambda>y. Q9K_GetU32 ?m y) p xs 0 = path (\<lambda>y. Q9K_GetU32 m y) p xs 0" for p
    by (intro path_cong)
  then show ?thesis using assms h by (auto simp: free_list_def)
qed

text \<open>What a pool owes its contract, for operations that are these two.\<close>

lemma lifo_poolI:
  assumes "\<And>m. alloc m = pool_pop head m" "\<And>m x. release m x = pool_push head m x"
  shows "lifo_pool (free_list head S) S alloc release"
proof
  show "free_list head S m xs \<Longrightarrow> distinct xs \<and> set xs \<subseteq> S \<and> 0 \<notin> S" for m xs using free_listD by blast
  show "free_list head S m [] \<Longrightarrow> alloc m = (0, m)" for m by (simp add: assms pool_pop_empty)
  show "free_list head S m (x # xs) \<Longrightarrow> fst (alloc m) = x \<and> free_list head S (snd (alloc m)) xs" for m x xs
    using pool_pop_first [of head S m x xs] by (simp add: assms)
  show "free_list head S m xs \<Longrightarrow> x \<in> S \<Longrightarrow> x \<notin> set xs \<Longrightarrow> free_list head S (release m x) (x # xs)" for m xs x
    by (simp add: assms pool_push_first)
qed

section \<open>Slots of a table\<close>

definition slot_at :: "u32 \<Rightarrow> u32 \<Rightarrow> nat \<Rightarrow> u32" where
  "slot_at base slotSize i = base + of_nat i * slotSize"

definition all_slots :: "u32 \<Rightarrow> u32 \<Rightarrow> nat \<Rightarrow> u32 list" where
  "all_slots base slotSize n = map (slot_at base slotSize) [0..<n]"

text \<open>A table of \<open>n\<close> slots above the kernel globals that does not wrap.\<close>

definition table_ok :: "u32 \<Rightarrow> u32 \<Rightarrow> nat \<Rightarrow> bool" where
  "table_ok base slotSize n \<longleftrightarrow> 0x8000 \<le> unat base \<and> 4 \<le> unat slotSize \<and> unat base + n * unat slotSize \<le> 2 ^ 32"

lemma unat_slot:
  assumes "table_ok base z n" "i < n"
  shows "unat (slot_at base z i) = unat base + i * unat z"
proof -
  have t: "unat base + n * unat z \<le> 2 ^ 32" "4 \<le> unat z" using assms(1) by (auto simp: table_ok_def)
  have "(i + 1) * unat z \<le> n * unat z" using assms(2) by (intro mult_le_mono1) simp
  then have le: "unat base + i * unat z < 2 ^ 32" using t by simp
  have "i \<le> i * unat z" using t(2) by simp
  then have i: "i < 2 ^ 32" using le by linarith
  have "i * unat z < 2 ^ 32" using le by linarith
  then have "unat (of_nat i * z) = i * unat z"
    using unat_mult_lem [of "of_nat i" z] unat_of_nat_u32 [OF i] by simp
  then show ?thesis unfolding slot_at_def using unat_offset [of base "of_nat i * z"] le by simp
qed

lemma slot_span:
  assumes "table_ok base z n" "i < n"
  shows "unat base \<le> unat (slot_at base z i)" "unat (slot_at base z i) + unat z \<le> unat base + n * unat z"
proof -
  have "(i + 1) * unat z \<le> n * unat z" using assms(2) by (intro mult_le_mono1) simp
  then show "unat base \<le> unat (slot_at base z i)" "unat (slot_at base z i) + unat z \<le> unat base + n * unat z"
    using unat_slot [OF assms(1), of i] assms(2) by simp_all
qed

lemma slots_apart_all:
  assumes "table_ok base z n" "i < n" "j < n" "i \<noteq> j"
  shows "apart (slot_at base z i) z (slot_at base z j) z"
proof -
  have u: "unat (slot_at base z i) = unat base + i * unat z" "unat (slot_at base z j) = unat base + j * unat z"
    using unat_slot [OF assms(1)] assms by simp_all
  have w: "unat base + n * unat z \<le> 2 ^ 32" using assms(1) by (auto simp: table_ok_def)
  have s: "p * unat z + unat z \<le> q * unat z" if "p < q" for p q
  proof -
    have "(p + 1) * unat z \<le> q * unat z" using that by (intro mult_le_mono1) simp
    then show ?thesis by simp
  qed
  have "i * unat z + unat z \<le> j * unat z \<or> j * unat z + unat z \<le> i * unat z" using s assms(4) by (cases "i < j") auto
  then show ?thesis using s [OF assms(2)] s [OF assms(3)] w by (intro apart_ranges) (auto simp: u)
qed

lemma slots_apart:
  assumes "table_ok base z n" "i < n" "j < n" "i \<noteq> j"
  shows "apart (slot_at base z i) 4 (slot_at base z j) 4"
proof -
  have "4 \<le> z" using assms(1) by (simp add: table_ok_def word_le_nat_alt)
  then show ?thesis using apart_sub [OF slots_apart_all [OF assms], of 0 4 0 4] by simp
qed

lemma slot_inj: "table_ok base z n \<Longrightarrow> i < n \<Longrightarrow> j < n \<Longrightarrow> slot_at base z i = slot_at base z j \<Longrightarrow> i = j"
proof -
  assume t: "table_ok base z n" "i < n" "j < n" "slot_at base z i = slot_at base z j"
  then have "unat base + i * unat z = unat base + j * unat z" using unat_slot [OF t(1)] by metis
  moreover have "0 < unat z" using t(1) by (simp add: table_ok_def)
  ultimately show "i = j" by simp
qed

lemma slot_low:
  assumes "table_ok base z n" "i < n" "unat g + 4 \<le> 0x8000"
  shows "apart (slot_at base z i) 4 g 4"
  using assms slot_span [OF assms(1,2)] apart_high_low [of "0x8000" "slot_at base z i" 0 4 g 4]
  by (auto simp: table_ok_def)

lemma table_cells: "table_ok base z n \<Longrightarrow> unat g + 4 \<le> 0x8000 \<Longrightarrow> pool_cells g (set (all_slots base z n))"
  using slot_low slots_apart slot_span(1) unfolding pool_cells_def all_slots_def
  by (fastforce simp: table_ok_def)

end
