(* ===== verification/Q9_ModDir.thy ===== *)
theory Q9_ModDir
  imports Q9_ModCheck Q9_Arena Q9_Pool
begin

text \<open>
  The module directory of \<^verbatim>\<open>q9kernel_moddir.c\<close>: a pool of 16-byte entries, each on the free list or on
  the directory list (both linked through the first longword), linking and unlinking by name and by
  header, validation of new modules by header parity and CRC, and the calls F$FModul, F$VModul,
  F$UnLoad, F$CRC, F$SetCRC, F$GModDr and F$DatMod.  The memory trace of the development build, which only
  prints, is compiled out.  A traversal of the directory list that would not end is \<^const>\<open>None\<close>.
\<close>

abbreviation Q9K_MH_TYLANG :: u32 where "Q9K_MH_TYLANG \<equiv> 0x12"
abbreviation Q9K_MODDIR_NEXT_OFF :: u32 where "Q9K_MODDIR_NEXT_OFF \<equiv> 0x00"
abbreviation Q9K_MODDIR_HDRPTR_OFF :: u32 where "Q9K_MODDIR_HDRPTR_OFF \<equiv> 0x04"
abbreviation Q9K_MODDIR_TYLANG_OFF :: u32 where "Q9K_MODDIR_TYLANG_OFF \<equiv> 0x08"
abbreviation Q9K_MODDIR_ATTREV_OFF :: u32 where "Q9K_MODDIR_ATTREV_OFF \<equiv> 0x0A"
abbreviation Q9K_MODDIR_LINKCNT_OFF :: u32 where "Q9K_MODDIR_LINKCNT_OFF \<equiv> 0x0C"
abbreviation Q9K_MODDIR_FLAGS_OFF :: u32 where "Q9K_MODDIR_FLAGS_OFF \<equiv> 0x0E"
abbreviation Q9K_MODDIR_FLAG_PERM :: u16 where "Q9K_MODDIR_FLAG_PERM \<equiv> 1"
abbreviation Q9K_MODDIR_FREE_ADDR :: u32 where "Q9K_MODDIR_FREE_ADDR \<equiv> 0x1234"
abbreviation Q9K_MODDIR_HEAD_ADDR :: u32 where "Q9K_MODDIR_HEAD_ADDR \<equiv> 0x1238"
abbreviation Q9K_VMODUL_RETBUF :: u32 where "Q9K_VMODUL_RETBUF \<equiv> 0x1650"
abbreviation Q9K_E_MNF :: u16 where "Q9K_E_MNF \<equiv> 0xDD"
abbreviation Q9K_E_BMID :: u16 where "Q9K_E_BMID \<equiv> 0xCD"
abbreviation Q9K_E_BMHP :: u16 where "Q9K_E_BMHP \<equiv> 0xEC"
abbreviation Q9K_E_BMCRC :: u16 where "Q9K_E_BMCRC \<equiv> 0xE8"
abbreviation Q9K_E_BNAM :: u16 where "Q9K_E_BNAM \<equiv> 0xCE"
abbreviation Q9_D_TOTRAM :: u32 where "Q9_D_TOTRAM \<equiv> 0x6C"
abbreviation Q9K_FLINK_DIAG_ITER :: u32 where "Q9K_FLINK_DIAG_ITER \<equiv> 0x154180"
abbreviation Q9K_FLINK_DIAG_SLOT :: u32 where "Q9K_FLINK_DIAG_SLOT \<equiv> 0x154184"
abbreviation Q9K_FLINK_DIAG_HEADER :: u32 where "Q9K_FLINK_DIAG_HEADER \<equiv> 0x154188"
abbreviation Q9K_FLINK_DIAG_GUARD :: u32 where "Q9K_FLINK_DIAG_GUARD \<equiv> 0x15418C"
abbreviation Q9K_MH_HEADER_SIZE :: u32 where "Q9K_MH_HEADER_SIZE \<equiv> 0x30"
abbreviation Q9K_MH_PARITY :: u32 where "Q9K_MH_PARITY \<equiv> 0x2E"
abbreviation Q9K_MH_CRC_SIZE :: u32 where "Q9K_MH_CRC_SIZE \<equiv> 3"
abbreviation Q9K_MODDIR_ENTRY_BYTES :: u32 where "Q9K_MODDIR_ENTRY_BYTES \<equiv> 16"
abbreviation Q9K_MT_DATA :: u16 where "Q9K_MT_DATA \<equiv> 4"

section \<open>Names\<close>

definition Q9K_GetU16BE :: "memory \<Rightarrow> u32 \<Rightarrow> u16" where
  "Q9K_GetU16BE m addr = push_bit 8 (ucast (m addr)) OR ucast (m (addr + 1))"

definition Q9K_ModDirIsNameChar :: "u8 \<Rightarrow> bool" where
  "Q9K_ModDirIsNameChar c \<longleftrightarrow>
     (c \<ge> 0x30 \<and> c \<le> 0x39) \<or> (c \<ge> 0x41 \<and> c \<le> 0x5A) \<or> (c \<ge> 0x61 \<and> c \<le> 0x7A) \<or>
     c = 0x5F \<or> c = 0x2E \<or> c = 0x24"

fun Q9K_ModDirNamesMatch_from :: "nat \<Rightarrow> memory \<Rightarrow> u32 \<Rightarrow> u32 \<Rightarrow> bool" where
  "Q9K_ModDirNamesMatch_from 0 m moduleName targetName = False"
| "Q9K_ModDirNamesMatch_from (Suc n) m moduleName targetName =
     (let a = m moduleName; b = m targetName; aEnd = a AND 0x80 in
      if a = 0 then \<not> Q9K_ModDirIsNameChar b
      else if name_lower (a AND 0x7F) \<noteq> name_lower (b AND 0x7F) then False
      else if aEnd \<noteq> 0 then
        let b2 = m (targetName + 1) in b2 = 0 \<or> \<not> Q9K_ModDirIsNameChar (b2 AND 0x7F)
      else Q9K_ModDirNamesMatch_from n m (moduleName + 1) (targetName + 1))"

definition Q9K_ModDirNamesMatch :: "memory \<Rightarrow> u32 \<Rightarrow> u32 \<Rightarrow> u32 \<Rightarrow> bool" where
  "Q9K_ModDirNamesMatch m moduleName nameMaxLen targetName =
     Q9K_ModDirNamesMatch_from (unat nameMaxLen) m moduleName targetName"

section \<open>The entry pool and the directory list\<close>

definition Q9K_ModDirPoolAlloc :: "memory \<Rightarrow> u32 \<times> memory" where
  "Q9K_ModDirPoolAlloc m =
     (let head = Q9K_GetU32 m Q9K_MODDIR_FREE_ADDR in
      if head = 0 then (0, m)
      else (head, Q9K_SetU32 m Q9K_MODDIR_FREE_ADDR (Q9K_GetU32 m (head + Q9K_MODDIR_NEXT_OFF))))"

definition Q9K_ModDirPoolFree :: "memory \<Rightarrow> u32 \<Rightarrow> memory" where
  "Q9K_ModDirPoolFree m slot =
     Q9K_SetU32 (Q9K_SetU32 m (slot + Q9K_MODDIR_NEXT_OFF) (Q9K_GetU32 m Q9K_MODDIR_FREE_ADDR))
       Q9K_MODDIR_FREE_ADDR slot"

interpretation modp: lifo_pool "free_list Q9K_MODDIR_FREE_ADDR S" S Q9K_ModDirPoolAlloc Q9K_ModDirPoolFree for S
  by (rule lifo_poolI) (simp_all add: Q9K_ModDirPoolAlloc_def Q9K_ModDirPoolFree_def pool_pop_def pool_push_def Let_def)

definition Q9K_ModDirListPush :: "memory \<Rightarrow> u32 \<Rightarrow> memory" where
  "Q9K_ModDirListPush m slot =
     Q9K_SetU32 (Q9K_SetU32 m (slot + Q9K_MODDIR_NEXT_OFF) (Q9K_GetU32 m Q9K_MODDIR_HEAD_ADDR))
       Q9K_MODDIR_HEAD_ADDR slot"

definition Q9K_ModDirAdd :: "memory \<Rightarrow> u32 \<Rightarrow> u32 \<times> memory" where
  "Q9K_ModDirAdd m hdrAddr =
     (let (slot, m0) = Q9K_ModDirPoolAlloc m in
      if slot = 0 then (0, m0)
      else
        let m1 = Q9K_SetU32 m0 (slot + Q9K_MODDIR_HDRPTR_OFF) hdrAddr;
            m2 = Q9K_SetU16 m1 (slot + Q9K_MODDIR_TYLANG_OFF) (Q9K_GetU16BE m1 (hdrAddr + Q9K_MH_TYLANG));
            m3 = Q9K_SetU16 m2 (slot + Q9K_MODDIR_ATTREV_OFF) (Q9K_GetU16BE m2 (hdrAddr + Q9K_MH_TYLANG + 2));
            m4 = Q9K_SetU16 m3 (slot + Q9K_MODDIR_LINKCNT_OFF) 0;
            m5 = Q9K_SetU16 m4 (slot + Q9K_MODDIR_FLAGS_OFF) 0
        in (slot, Q9K_ModDirListPush m5 slot))"

definition Q9K_ModDirMarkPermanent :: "memory \<Rightarrow> u32 \<Rightarrow> memory" where
  "Q9K_ModDirMarkPermanent m slot =
     Q9K_SetU16 m (slot + Q9K_MODDIR_FLAGS_OFF)
       (Q9K_GetU16 m (slot + Q9K_MODDIR_FLAGS_OFF) OR Q9K_MODDIR_FLAG_PERM)"

section \<open>Modules of the boot file\<close>

partial_function (option) Q9K_ModDirPopulate_region ::
  "u32 \<Rightarrow> u32 \<Rightarrow> memory \<Rightarrow> u32 \<Rightarrow> u32 \<Rightarrow> (u32 \<times> memory) option" where
  "Q9K_ModDirPopulate_region regionBase regionLen m added offset =
     (if offset + 0x30 \<le> regionLen then
        let candidate = regionBase + offset;
            remaining = regionLen - offset
        in if \<not> Q9K_CheckSyncWord m candidate remaining
           then Q9K_ModDirPopulate_region regionBase regionLen m added (offset + 2)
           else if \<not> Q9K_ValidModuleHeader m candidate remaining
           then Q9K_ModDirPopulate_region regionBase regionLen m added (offset + 2)
           else
             let moduleSize = Q9K_ReadU32BE m (candidate + Q9K_MH_SIZE) in
             if moduleSize = 0
             then Q9K_ModDirPopulate_region regionBase regionLen m added (offset + 2)
             else
               let newSlot = fst (Q9K_ModDirAdd m candidate);
                   m1 = snd (Q9K_ModDirAdd m candidate)
               in if newSlot \<noteq> 0
                  then Q9K_ModDirPopulate_region regionBase regionLen (Q9K_ModDirMarkPermanent m1 newSlot)
                         (added + 1) (offset + moduleSize)
                  else Q9K_ModDirPopulate_region regionBase regionLen m1 added (offset + moduleSize)
      else Some (added, m))"

fun Q9K_ModDirPopulate_regions :: "nat \<Rightarrow> u32 \<Rightarrow> memory \<Rightarrow> u32 \<Rightarrow> u32 \<Rightarrow> (u32 \<times> memory) option" where
  "Q9K_ModDirPopulate_regions 0 totalRam m entry added = Some (added, m)"
| "Q9K_ModDirPopulate_regions (Suc n) totalRam m entry added =
     (let regionBase = Q9K_ReadU32BE m entry;
          regionLen = Q9K_ReadU32BE m (entry + 4)
      in if regionBase = 0 then Some (added, m)
         else if totalRam \<noteq> 0 \<and> regionBase \<ge> totalRam
         then Q9K_ModDirPopulate_regions n totalRam m (entry + 8) added
         else do {
           (added', m') \<leftarrow> Q9K_ModDirPopulate_region regionBase regionLen m added 0;
           Q9K_ModDirPopulate_regions n totalRam m' (entry + 8) added'
         })"

definition Q9K_ModDirPopulateFromBootList :: "memory \<Rightarrow> u32 \<Rightarrow> (u32 \<times> memory) option" where
  "Q9K_ModDirPopulateFromBootList m bootList =
     (if bootList = 0 then Some (0, m)
      else Q9K_ModDirPopulate_regions 64 (Q9K_GetU32 m Q9_D_TOTRAM) m bootList 0)"

section \<open>Searching the directory\<close>

text \<open>Type and language are filtered separately, 0 meaning any.\<close>

definition tylang_matches :: "u16 \<Rightarrow> u16 \<Rightarrow> bool" where
  "tylang_matches desiredTyLang tyLang =
     (let wantType = drop_bit 8 desiredTyLang AND 0xFF;
          wantLang = desiredTyLang AND 0xFF;
          haveType = drop_bit 8 tyLang AND 0xFF;
          haveLang = tyLang AND 0xFF
      in (wantType = 0 \<or> wantType = haveType) \<and> (wantLang = 0 \<or> wantLang = haveLang))"

text \<open>The search loop; \<open>n\<close> is the number of rounds left before the guard against a cyclic list stops it,
  \<open>iterations\<close> the counter of the source.\<close>

fun Q9K_ModDirFind_loop ::
  "nat \<Rightarrow> u16 \<Rightarrow> u32 \<Rightarrow> bool \<Rightarrow> memory \<Rightarrow> u32 \<Rightarrow> u32 \<Rightarrow> u32 \<Rightarrow> u32 \<Rightarrow> u32 \<times> memory" where
  "Q9K_ModDirFind_loop 0 desiredTyLang name highestRevision m iterations slot bestSlot bestRev =
     (if slot = 0 then (bestSlot, Q9K_SetU32 m Q9K_FLINK_DIAG_ITER iterations)
      else (0, Q9K_SetU32 (Q9K_SetU32 m Q9K_FLINK_DIAG_ITER (iterations + 1)) Q9K_FLINK_DIAG_GUARD 1))"
| "Q9K_ModDirFind_loop (Suc n) desiredTyLang name highestRevision m iterations slot bestSlot bestRev =
     (if slot = 0 then (bestSlot, Q9K_SetU32 m Q9K_FLINK_DIAG_ITER iterations)
      else
        let hdrAddr = Q9K_GetU32 m (slot + Q9K_MODDIR_HDRPTR_OFF);
            m1 = Q9K_SetU32 m Q9K_FLINK_DIAG_ITER (iterations + 1);
            m2 = Q9K_SetU32 m1 Q9K_FLINK_DIAG_SLOT slot;
            m3 = Q9K_SetU32 m2 Q9K_FLINK_DIAG_HEADER hdrAddr;
            tyLang = Q9K_GetU16 m (slot + Q9K_MODDIR_TYLANG_OFF);
            nameOffset = Q9K_ReadU32BE m3 (hdrAddr + Q9K_MH_NAME);
            moduleSize = Q9K_ReadU32BE m3 (hdrAddr + Q9K_MH_SIZE);
            next = Q9K_GetU32 m3 (slot + Q9K_MODDIR_NEXT_OFF)
        in if tylang_matches desiredTyLang tyLang \<and> nameOffset < moduleSize \<and>
              Q9K_ModDirNamesMatch m3 (hdrAddr + nameOffset) (moduleSize - nameOffset) name
           then
             let revision = ucast (m3 (hdrAddr + Q9K_MH_REVS)) in
             if \<not> highestRevision then (slot, m3)
             else if bestSlot = 0 \<or> revision > bestRev
             then Q9K_ModDirFind_loop n desiredTyLang name highestRevision m3 (iterations + 1) next slot revision
             else Q9K_ModDirFind_loop n desiredTyLang name highestRevision m3 (iterations + 1) next bestSlot bestRev
           else Q9K_ModDirFind_loop n desiredTyLang name highestRevision m3 (iterations + 1) next bestSlot bestRev)"

definition diag_clear :: "memory \<Rightarrow> memory" where
  "diag_clear m =
     Q9K_SetU32 (Q9K_SetU32 (Q9K_SetU32 (Q9K_SetU32 m Q9K_FLINK_DIAG_ITER 0) Q9K_FLINK_DIAG_SLOT 0)
       Q9K_FLINK_DIAG_HEADER 0) Q9K_FLINK_DIAG_GUARD 0"

definition Q9K_ModDirFindSlotByName :: "memory \<Rightarrow> u16 \<Rightarrow> u32 \<Rightarrow> bool \<Rightarrow> u32 \<times> memory" where
  "Q9K_ModDirFindSlotByName m desiredTyLang name highestRevision =
     Q9K_ModDirFind_loop 256 desiredTyLang name highestRevision (diag_clear m) 0
       (Q9K_GetU32 m Q9K_MODDIR_HEAD_ADDR) 0 0"

definition Q9K_ModDirLinkByName :: "memory \<Rightarrow> u16 \<Rightarrow> u32 \<Rightarrow> u32 \<times> memory" where
  "Q9K_ModDirLinkByName m desiredTyLang name =
     (let (bestSlot, m1) = Q9K_ModDirFindSlotByName m desiredTyLang name True in
      if bestSlot = 0 then (0, m1)
      else
        let m2 = Q9K_SetU16 m1 (bestSlot + Q9K_MODDIR_LINKCNT_OFF)
                   (Q9K_GetU16 m1 (bestSlot + Q9K_MODDIR_LINKCNT_OFF) + 1)
        in (Q9K_GetU32 m2 (bestSlot + Q9K_MODDIR_HDRPTR_OFF), m2))"

definition Q9K_SysFModulImpl :: "memory \<Rightarrow> memory" where
  "Q9K_SysFModulImpl m =
     (let desired = ucast (Q9K_GetU32 m 0x2418);
          nameAddr = Q9K_GetU32 m 0x241C;
          (slot, m1) = Q9K_ModDirFindSlotByName m desired nameAddr False;
          m2 = Q9K_SetU32 (Q9K_SetU32 (Q9K_SetU32 m1 0x15415C (ucast desired)) 0x154160 nameAddr) 0x154164 slot;
          m3 = Q9K_SetU32 m2 0x2430 0
      in if slot = 0 then
           Q9K_SetU32 (Q9K_SetU32 (Q9K_SetU32 m3 0x242C (ucast Q9K_E_MNF)) 0x154168 (ucast Q9K_E_MNF)) 0x15416C 0
         else
           let m4 = Q9K_SetU32 m3 0x2420 (ucast (Q9K_GetU16 m3 (slot + Q9K_MODDIR_TYLANG_OFF)));
               m5 = Q9K_SetU32 m4 0x2424 (ucast (Q9K_GetU16 m4 (slot + Q9K_MODDIR_ATTREV_OFF)));
               m6 = Q9K_SetU32 m5 0x2428 slot;
               m7 = Q9K_SetU32 m6 0x2430 1
           in Q9K_SetU32 (Q9K_SetU32 m7 0x154168 0) 0x15416C 1)"

definition Q9K_SysFLinkSearchImpl :: "memory \<Rightarrow> u32 \<times> memory" where
  "Q9K_SysFLinkSearchImpl m =
     (let desired = ucast (Q9K_GetU32 m 0x154170);
          nameAddr = Q9K_GetU32 m 0x154174;
          (slot, m1) = Q9K_ModDirFindSlotByName m desired nameAddr True
      in (slot, Q9K_SetU32 m1 0x154178 slot))"

section \<open>Unlinking\<close>

partial_function (option) Q9K_ModDirUnlink_loop ::
  "u32 \<Rightarrow> memory \<Rightarrow> u32 \<Rightarrow> u32 \<Rightarrow> (u32 \<times> memory) option" where
  "Q9K_ModDirUnlink_loop hdrAddr m prev slot =
     (if slot = 0 then Some (1, m)
      else if Q9K_GetU32 m (slot + Q9K_MODDIR_HDRPTR_OFF) = hdrAddr then
        let linkCnt0 = Q9K_GetU16 m (slot + Q9K_MODDIR_LINKCNT_OFF);
            linkCnt = (if linkCnt0 > 0 then linkCnt0 - 1 else linkCnt0);
            m1 = Q9K_SetU16 m (slot + Q9K_MODDIR_LINKCNT_OFF) linkCnt
        in if linkCnt = 0 \<and> Q9K_GetU16 m1 (slot + Q9K_MODDIR_FLAGS_OFF) AND Q9K_MODDIR_FLAG_PERM = 0 then
             let next = Q9K_GetU32 m1 (slot + Q9K_MODDIR_NEXT_OFF);
                 m2 = (if prev = 0 then Q9K_SetU32 m1 Q9K_MODDIR_HEAD_ADDR next
                       else Q9K_SetU32 m1 (prev + Q9K_MODDIR_NEXT_OFF) next)
             in Some (0, Q9K_ModDirPoolFree m2 slot)
           else Some (0, m1)
      else Q9K_ModDirUnlink_loop hdrAddr m slot (Q9K_GetU32 m (slot + Q9K_MODDIR_NEXT_OFF)))"

definition Q9K_ModDirUnlinkByHeader :: "memory \<Rightarrow> u32 \<Rightarrow> (u32 \<times> memory) option" where
  "Q9K_ModDirUnlinkByHeader m hdrAddr =
     Q9K_ModDirUnlink_loop hdrAddr m 0 (Q9K_GetU32 m Q9K_MODDIR_HEAD_ADDR)"

definition Q9K_ModDirUnloadByName :: "memory \<Rightarrow> u16 \<Rightarrow> u32 \<Rightarrow> (u16 option \<times> memory) option" where
  "Q9K_ModDirUnloadByName m desiredTyLang name =
     (if name = 0 then Some (Some Q9K_E_MNF, m)
      else
        let (slot, m1) = Q9K_ModDirFindSlotByName m desiredTyLang name True in
        if slot = 0 then Some (Some Q9K_E_MNF, m1)
        else do {
          (rc, m2) \<leftarrow> Q9K_ModDirUnlinkByHeader m1 (Q9K_GetU32 m1 (slot + Q9K_MODDIR_HDRPTR_OFF));
          Some (if rc \<noteq> 0 then Some Q9K_E_MNF else None, m2)
        })"

definition Q9K_SysUnloadImpl :: "memory \<Rightarrow> memory option" where
  "Q9K_SysUnloadImpl m = do {
     (err, m1) \<leftarrow> Q9K_ModDirUnloadByName m (ucast (Q9K_GetU32 m 0x18E8)) (Q9K_GetU32 m 0x18EC);
     Some (case err of
       None \<Rightarrow> Q9K_SetU32 m1 0x18F4 1
     | Some e \<Rightarrow> Q9K_SetU32 (Q9K_SetU32 m1 0x18F0 (ucast e)) 0x18F4 0)
   }"

section \<open>Module CRC\<close>

text \<open>The bitwise CRC of the validation loop.\<close>

definition vcrc_bit :: "u32 \<Rightarrow> u32" where
  "vcrc_bit crc =
     (if crc AND 0x800000 \<noteq> 0 then (push_bit 1 crc XOR 0x800063) AND 0xFFFFFF else push_bit 1 crc AND 0xFFFFFF)"

definition vcrc_byte :: "u8 \<Rightarrow> u32 \<Rightarrow> u32" where
  "vcrc_byte b crc = (vcrc_bit ^^ 8) ((crc XOR push_bit 16 (ucast b)) AND 0xFFFFFF)"

fun vcrc_bytes :: "nat \<Rightarrow> memory \<Rightarrow> u32 \<Rightarrow> u32 \<Rightarrow> u32" where
  "vcrc_bytes 0 m addr crc = crc"
| "vcrc_bytes (Suc n) m addr crc = vcrc_bytes n m (addr + 1) (vcrc_byte (m addr) crc)"

text \<open>The bytewise CRC of F$CRC.\<close>

definition crc_step :: "u8 \<Rightarrow> u32 \<times> u32 \<times> u32 \<Rightarrow> u32 \<times> u32 \<times> u32" where
  "crc_step b c =
     (let (c0, c1, c2) = c;
          a = (ucast b XOR c0) AND 0xFF;
          c0 = c1;
          c1 = c2;
          c1 = c1 XOR (drop_bit 7 a AND 0xFF);
          c2 = push_bit 1 a AND 0xFF;
          c1 = c1 XOR (drop_bit 2 a AND 0xFF);
          c2 = c2 XOR (push_bit 6 a AND 0xFF);
          a = a XOR (push_bit 1 a AND 0xFF);
          a = a XOR (push_bit 2 a AND 0xFF);
          a = a XOR (push_bit 4 a AND 0xFF);
          a = a AND 0xFF
      in if a AND 0x80 \<noteq> 0 then (c0 XOR 0x80, c1, c2 XOR 0x21) else (c0, c1, c2))"

fun crc_steps :: "nat \<Rightarrow> memory \<Rightarrow> u32 \<Rightarrow> u32 \<times> u32 \<times> u32 \<Rightarrow> u32 \<times> u32 \<times> u32" where
  "crc_steps 0 m addr c = c"
| "crc_steps (Suc n) m addr c = crc_steps n m (addr + 1) (crc_step (m addr) c)"

definition Q9K_CrcAccumulate :: "memory \<Rightarrow> u32 \<Rightarrow> u32 \<Rightarrow> u32 \<Rightarrow> u32" where
  "Q9K_CrcAccumulate m accum addr count =
     (let (c0, c1, c2) = crc_steps (unat count) m addr
            (drop_bit 16 accum AND 0xFF, drop_bit 8 accum AND 0xFF, accum AND 0xFF)
      in push_bit 16 c0 OR push_bit 8 c1 OR c2)"

definition Q9K_SysCrcImpl :: "memory \<Rightarrow> memory" where
  "Q9K_SysCrcImpl m =
     Q9K_SetU32 m 0x18FC (Q9K_CrcAccumulate m (Q9K_GetU32 m 0x18FC) (Q9K_GetU32 m 0x1900) (Q9K_GetU32 m 0x18F8))"

section \<open>Validating and entering a module\<close>

definition Q9K_ModDirValidateAndAdd :: "memory \<Rightarrow> u32 \<Rightarrow> u32 \<Rightarrow> u16 + u32 \<times> memory" where
  "Q9K_ModDirValidateAndAdd m hdr modSize =
     (if hdr = 0 \<or> modSize < 0x30 then Inl Q9K_E_BMID
      else if \<not> Q9K_CheckSyncWord m hdr modSize then Inl Q9K_E_BMID
      else if \<not> Q9K_ValidModuleHeader m hdr modSize then Inl Q9K_E_BMHP
      else
        let realSize = Q9K_ReadU32BE m (hdr + Q9K_MH_SIZE) in
        if realSize < 0x30 \<or> realSize > modSize then Inl Q9K_E_BMCRC
        else
          let tyLang = Q9K_GetU16BE m (hdr + Q9K_MH_TYLANG);
              crc = vcrc_bytes (unat realSize) m hdr 0xFFFFFF
          in if crc \<noteq> 0x800FE3 then Inl Q9K_E_BMCRC
             else
               let (directorySlot, m1) = Q9K_ModDirAdd m hdr in
               if directorySlot = 0 then Inl Q9K_E_MEMFUL
               else
                 let m2 = Q9K_SetU32 m1 Q9K_VMODUL_RETBUF hdr;
                     m3 = Q9K_SetU16 m2 (Q9K_VMODUL_RETBUF + 0x0C) 0;
                     m4 = Q9K_SetU16 m3 (Q9K_VMODUL_RETBUF + 0x12) tyLang
                 in Inr (Q9K_VMODUL_RETBUF, m4))"

definition Q9K_SysVModulImpl :: "memory \<Rightarrow> memory" where
  "Q9K_SysVModulImpl m =
     (case Q9K_ModDirValidateAndAdd m (Q9K_GetU32 m 0x162C) (Q9K_GetU32 m 0x1630) of
        Inr (entry, m1) \<Rightarrow> Q9K_SetU32 (Q9K_SetU32 m1 0x1634 entry) 0x163C 1
      | Inl err \<Rightarrow> Q9K_SetU32 (Q9K_SetU32 m 0x1638 (ucast err)) 0x163C 0)"

text \<open>Header parity and CRC of a module of \<open>tot\<close> bytes, as F$SetCRC and F$DatMod store them.\<close>

definition put_parity :: "memory \<Rightarrow> u32 \<Rightarrow> memory" where
  "put_parity m modAddr =
     (let parity = NOT (header_xor 23 m modAddr 0) in
      Q9K_SetU8 (Q9K_SetU8 m (modAddr + Q9K_MH_PARITY) (ucast (drop_bit 8 parity)))
        (modAddr + Q9K_MH_PARITY + 1) (ucast parity))"

definition put_crc :: "memory \<Rightarrow> u32 \<Rightarrow> u32 \<Rightarrow> memory" where
  "put_crc m modAddr tot =
     (let crc = Q9K_CrcAccumulate m 0xFFFFFFFF modAddr (tot - Q9K_MH_CRC_SIZE);
          m1 = Q9K_SetU8 m (modAddr + (tot - 3)) (ucast ((drop_bit 16 crc AND 0xFF) XOR 0xFF));
          m2 = Q9K_SetU8 m1 (modAddr + (tot - 2)) (ucast ((drop_bit 8 crc AND 0xFF) XOR 0xFF))
      in Q9K_SetU8 m2 (modAddr + (tot - 1)) (ucast ((crc AND 0xFF) XOR 0xFF)))"

definition Q9K_ModSetCRC :: "memory \<Rightarrow> u32 \<Rightarrow> u16 + memory" where
  "Q9K_ModSetCRC m modAddr =
     (if modAddr = 0 \<or> modAddr AND 1 \<noteq> 0 then Inl Q9K_E_BMID
      else if m modAddr \<noteq> 0x4A \<or> m (modAddr + 1) \<noteq> 0xFC then Inl Q9K_E_BMID
      else
        let modSize = Q9K_ReadU32BE m (modAddr + Q9K_MH_SIZE) in
        if modSize < Q9K_MH_HEADER_SIZE + Q9K_MH_CRC_SIZE then Inl Q9K_E_BMID
        else Inr (put_crc (put_parity m modAddr) modAddr modSize))"

definition Q9K_SysSetCRCImpl :: "memory \<Rightarrow> memory" where
  "Q9K_SysSetCRCImpl m =
     (case Q9K_ModSetCRC m (Q9K_GetU32 m 0x1904) of
        Inr m1 \<Rightarrow> Q9K_SetU32 m1 0x190C 1
      | Inl err \<Rightarrow> Q9K_SetU32 (Q9K_SetU32 m 0x1908 (ucast err)) 0x190C 0)"

section \<open>Copying out the directory\<close>

partial_function (option) Q9K_ModDirCopyOut_loop ::
  "u32 \<Rightarrow> u32 \<Rightarrow> memory \<Rightarrow> u32 \<Rightarrow> u32 \<Rightarrow> (u32 \<times> memory) option" where
  "Q9K_ModDirCopyOut_loop bufAddr maxBytes m slot written =
     (if slot \<noteq> 0 \<and> written + Q9K_MODDIR_ENTRY_BYTES \<le> maxBytes then
        let m1 = copy_bytes 16 m (bufAddr + written) slot in
        Q9K_ModDirCopyOut_loop bufAddr maxBytes m1 (Q9K_GetU32 m1 (slot + Q9K_MODDIR_NEXT_OFF))
          (written + Q9K_MODDIR_ENTRY_BYTES)
      else Some (written, m))"

definition Q9K_ModDirCopyOut :: "memory \<Rightarrow> u32 \<Rightarrow> u32 \<Rightarrow> (u32 \<times> memory) option" where
  "Q9K_ModDirCopyOut m bufAddr maxBytes =
     (if bufAddr = 0 then Some (0, m)
      else Q9K_ModDirCopyOut_loop bufAddr maxBytes m (Q9K_GetU32 m Q9K_MODDIR_HEAD_ADDR) 0)"

definition Q9K_SysGModDrImpl :: "memory \<Rightarrow> memory option" where
  "Q9K_SysGModDrImpl m = do {
     (written, m1) \<leftarrow> Q9K_ModDirCopyOut m (Q9K_GetU32 m 0x1910) (Q9K_GetU32 m 0x1914);
     Some (Q9K_SetU32 m1 0x1914 written)
   }"

section \<open>Data modules\<close>

fun name_length :: "nat \<Rightarrow> memory \<Rightarrow> u32 \<Rightarrow> nat" where
  "name_length 0 m name = 0"
| "name_length (Suc n) m name = (if Q9K_ModDirIsNameChar (m name) then Suc (name_length n m (name + 1)) else 0)"

fun zero_bytes :: "nat \<Rightarrow> memory \<Rightarrow> u32 \<Rightarrow> memory" where
  "zero_bytes 0 m a = m"
| "zero_bytes (Suc n) m a = zero_bytes n (Q9K_SetU8 m a 0) (a + 1)"

definition put16 :: "memory \<Rightarrow> u32 \<Rightarrow> u16 \<Rightarrow> memory" where
  "put16 m a v = Q9K_SetU8 (Q9K_SetU8 m a (ucast (drop_bit 8 v AND 0xFF))) (a + 1) (ucast (v AND 0xFF))"

definition put32 :: "memory \<Rightarrow> u32 \<Rightarrow> u32 \<Rightarrow> memory" where
  "put32 m a v =
     Q9K_SetU8 (Q9K_SetU8 (Q9K_SetU8 (Q9K_SetU8 m a (ucast (drop_bit 24 v AND 0xFF)))
       (a + 1) (ucast (drop_bit 16 v AND 0xFF))) (a + 2) (ucast (drop_bit 8 v AND 0xFF))) (a + 3) (ucast (v AND 0xFF))"

definition data_header :: "memory \<Rightarrow> u32 \<Rightarrow> u32 \<Rightarrow> u32 \<Rightarrow> u16 \<Rightarrow> u16 \<Rightarrow> u16 \<Rightarrow> memory" where
  "data_header m hdr tot nameOff access tyLang attrRev =
     (let m1 = Q9K_SetU8 (Q9K_SetU8 m hdr 0x4A) (hdr + 1) 0xFC;
          m2 = put32 m1 (hdr + Q9K_MH_SIZE) tot;
          m3 = put32 m2 (hdr + Q9K_MH_NAME) nameOff;
          m4 = put16 m3 (hdr + 0x10) access;
          m5 = put16 m4 (hdr + 0x12) tyLang
      in put16 m5 (hdr + 0x14) attrRev)"

text \<open>On success header, data and the address behind the name; on failure the error number.  The memory
  is part of the result in both cases.\<close>

definition Q9K_ModCreateData ::
  "memory \<Rightarrow> u32 \<Rightarrow> u16 \<Rightarrow> u16 \<Rightarrow> u16 \<Rightarrow> u32 \<Rightarrow> ((u16 + u32 \<times> u32 \<times> u32) \<times> memory) option" where
  "Q9K_ModCreateData m dataSize attrRev access tyLang namePtr =
     (if namePtr = 0 then Some (Inl Q9K_E_BNAM, m)
      else
        let nameLen = name_length 64 m namePtr in
        if nameLen = 0 then Some (Inl Q9K_E_BNAM, m)
        else
          let nameOff = Q9K_MH_HEADER_SIZE + dataSize;
              tot = (nameOff + of_nat nameLen + Q9K_MH_CRC_SIZE + 15) AND NOT 15
          in do {
            (hdr, m1) \<leftarrow> Q9K_AllocMem m tot;
            if hdr = 0 then Some (Inl Q9K_E_MEMFUL, m1)
            else
              let m2 = zero_bytes (unat tot) m1 hdr;
                  m3 = data_header m2 hdr tot nameOff access tyLang attrRev;
                  m4 = copy_bytes nameLen m3 (hdr + nameOff) namePtr;
                  m5 = put_crc (put_parity m4 hdr) hdr tot
              in case Q9K_ModDirValidateAndAdd m5 hdr tot of
                   Inl err \<Rightarrow> Some (Inl err, Q9K_FreeMem m5 hdr tot)
                 | Inr (_, m6) \<Rightarrow> Some (Inr (hdr, hdr + Q9K_MH_HEADER_SIZE, namePtr + of_nat nameLen), m6)
          })"

definition Q9K_SysDatModImpl :: "memory \<Rightarrow> memory option" where
  "Q9K_SysDatModImpl m =
     (let ty0 = ucast (Q9K_GetU32 m 0x19C4);
          tyLang = (if ty0 = 0 then push_bit 8 Q9K_MT_DATA else ty0)
      in do {
        (r, m1) \<leftarrow> Q9K_ModCreateData m (Q9K_GetU32 m 0x19B8) (ucast (Q9K_GetU32 m 0x19BC))
                    (ucast (Q9K_GetU32 m 0x19C0)) tyLang (Q9K_GetU32 m 0x19C8);
        Some (case r of
          Inr (hdr, data, past) \<Rightarrow>
            Q9K_SetU32 (Q9K_SetU32 (Q9K_SetU32 (Q9K_SetU32 (Q9K_SetU32 m1 0x19B8 (ucast tyLang)) 0x19C8 past)
              0x19CC data) 0x19D0 hdr) 0x19D8 1
        | Inl err \<Rightarrow> Q9K_SetU32 (Q9K_SetU32 m1 0x19D4 (ucast err)) 0x19D8 0)
      })"

end
