(* ===== verification/Q9_ModDir_Props.thy ===== *)
theory Q9_ModDir_Props
  imports Q9_ModDir
begin

text \<open>
  The module directory as two lists: every entry of the pool is on the directory list or on the free list.
  Entering and unlinking a module move an entry between them; the search finds the entry with
  the highest revision.
\<close>

section \<open>The representation\<close>

abbreviation link_of :: "memory \<Rightarrow> u32 \<Rightarrow> u32" where "link_of m s \<equiv> Q9K_GetU32 m s"
abbreviation hdr_of :: "memory \<Rightarrow> u32 \<Rightarrow> u32" where "hdr_of m s \<equiv> Q9K_GetU32 m (s + Q9K_MODDIR_HDRPTR_OFF)"
abbreviation cnt_of :: "memory \<Rightarrow> u32 \<Rightarrow> u16" where "cnt_of m s \<equiv> Q9K_GetU16 m (s + Q9K_MODDIR_LINKCNT_OFF)"
abbreviation permanent :: "memory \<Rightarrow> u32 \<Rightarrow> bool" where
  "permanent m s \<equiv> Q9K_GetU16 m (s + Q9K_MODDIR_FLAGS_OFF) AND Q9K_MODDIR_FLAG_PERM \<noteq> 0"

text \<open>The entries lie above the kernel globals, do not overlap each other or the diagnosis cells.\<close>

definition slots_ok :: "u32 set \<Rightarrow> bool" where
  "slots_ok S \<longleftrightarrow> (\<forall>s\<in>S. 0x8000 \<le> unat s \<and> unat s + 16 \<le> 2 ^ 32 \<and> apart s 16 0x154180 16) \<and>
     (\<forall>s\<in>S. \<forall>t\<in>S. s \<noteq> t \<longrightarrow> apart s 16 t 16)"

definition dir_rep :: "u32 set \<Rightarrow> memory \<Rightarrow> u32 list \<Rightarrow> u32 list \<Rightarrow> bool" where
  "dir_rep S m ds fs \<longleftrightarrow> slots_ok S \<and> set (ds @ fs) \<subseteq> S \<and> distinct (ds @ fs) \<and>
     path (link_of m) (Q9K_GetU32 m Q9K_MODDIR_HEAD_ADDR) ds 0 \<and>
     path (link_of m) (Q9K_GetU32 m Q9K_MODDIR_FREE_ADDR) fs 0"

lemma dir_repD:
  assumes "dir_rep S m ds fs"
  shows "slots_ok S" "set ds \<subseteq> S" "set fs \<subseteq> S" "distinct ds" "distinct fs" "set ds \<inter> set fs = {}"
    "path (link_of m) (Q9K_GetU32 m Q9K_MODDIR_HEAD_ADDR) ds 0" "path (link_of m) (Q9K_GetU32 m Q9K_MODDIR_FREE_ADDR) fs 0"
  using assms by (auto simp: dir_rep_def)

lemma slot_global:
  assumes "slots_ok S" "s \<in> S" "unat g + unat k \<le> 0x8000" "unat i + unat n \<le> 16"
  shows "apart (s + i) n g k" "apart g k (s + i) n"
proof -
  show "apart (s + i) n g k" using assms by (intro apart_high_low [of "0x8000"]) (auto simp: slots_ok_def)
  then show "apart g k (s + i) n" by (rule apart_sym)
qed

lemma slot_slot:
  assumes "slots_ok S" "s \<in> S" "t \<in> S" "s \<noteq> t" "i + n \<le> 16" "i \<le> i + n" "j + k \<le> 16" "j \<le> j + k"
  shows "apart (s + i) n (t + j) k"
  using assms by (intro apart_sub [of s 16 t 16]) (auto simp: slots_ok_def)

lemma slot_nonzero: "slots_ok S \<Longrightarrow> 0 \<notin> S"
  by (auto simp: slots_ok_def)

text \<open>A write to another field of an entry or to another global keeps the lists.\<close>

lemma dir_rep_cong:
  assumes "Q9K_GetU32 m' Q9K_MODDIR_HEAD_ADDR = Q9K_GetU32 m Q9K_MODDIR_HEAD_ADDR"
    "Q9K_GetU32 m' Q9K_MODDIR_FREE_ADDR = Q9K_GetU32 m Q9K_MODDIR_FREE_ADDR"
    "\<And>s. s \<in> S \<Longrightarrow> link_of m' s = link_of m s"
  shows "dir_rep S m' ds fs = dir_rep S m ds fs"
proof -
  have "path (link_of m') p xs q = path (link_of m) p xs q" if "set xs \<subseteq> S" for p xs q
    using assms(3) that by (intro path_cong) auto
  then show ?thesis using assms(1,2) unfolding dir_rep_def by auto
qed

lemma slot_field16:
  assumes "slots_ok S" "s \<in> S" "t \<in> S" "i \<in> {0x08, 0x0A, 0x0C, 0x0E}"
  shows "link_of (Q9K_SetU16 m (s + i) v) t = link_of m t" "hdr_of (Q9K_SetU16 m (s + i) v) t = hdr_of m t"
    "unat g + 4 \<le> 0x8000 \<Longrightarrow> Q9K_GetU32 (Q9K_SetU16 m (s + i) v) g = Q9K_GetU32 m g"
proof -
  have i: "i + 2 \<le> 16" "i \<le> i + 2" "unat i + unat (2 :: u32) \<le> 16" using assms(4) by auto
  have "apart (s + i) 2 (t + 0) 4 \<and> apart (s + i) 2 (t + 4) 4"
    using slot_slot [OF assms(1-3) _ i(1,2), of 0 4] slot_slot [OF assms(1-3) _ i(1,2), of 4 4] assms(4) by (cases "s = t") auto
  then show "link_of (Q9K_SetU16 m (s + i) v) t = link_of m t" "hdr_of (Q9K_SetU16 m (s + i) v) t = hdr_of m t" by simp_all
  show "Q9K_GetU32 (Q9K_SetU16 m (s + i) v) g = Q9K_GetU32 m g" if "unat g + 4 \<le> 0x8000"
    using slot_global(1) [OF assms(1,2) _ i(3), of g 4] that by simp
qed

section \<open>Unlinking\<close>

lemma unlink_walk:
  assumes "path (link_of m) p (as @ bs) 0" "0 \<notin> set as" "\<And>x. x \<in> set as \<Longrightarrow> hdr_of m x \<noteq> h"
  shows "Q9K_ModDirUnlink_loop h m prev p = Q9K_ModDirUnlink_loop h m (last (prev # as)) (if bs = [] then 0 else hd bs)"
  using assms
proof (induction as arbitrary: p prev)
  case Nil
  then have "p = (if bs = [] then 0 else hd bs)" by (cases bs) auto
  then show ?case by simp
next
  case (Cons a as)
  have a: "p = a" "a \<noteq> 0" "hdr_of m a \<noteq> h" using Cons.prems by auto
  have "Q9K_ModDirUnlink_loop h m prev p = Q9K_ModDirUnlink_loop h m a (link_of m a)"
    using a by (subst Q9K_ModDirUnlink_loop.simps) simp
  also have "\<dots> = Q9K_ModDirUnlink_loop h m (last (a # as)) (if bs = [] then 0 else hd bs)"
    using Cons.prems by (intro Cons.IH) auto
  finally show ?case by simp
qed

lemma unlink_missing:
  assumes "dir_rep S m ds fs" "\<And>x. x \<in> set ds \<Longrightarrow> hdr_of m x \<noteq> h"
  shows "Q9K_ModDirUnlinkByHeader m h = Some (1, m)"
proof -
  have "0 \<notin> set ds" using dir_repD(2) [OF assms(1)] slot_nonzero [OF dir_repD(1) [OF assms(1)]] by blast
  then have "Q9K_ModDirUnlinkByHeader m h = Q9K_ModDirUnlink_loop h m (last (0 # ds)) 0"
    unfolding Q9K_ModDirUnlinkByHeader_def using unlink_walk [of m _ ds "[]" h 0] dir_repD(7) [OF assms(1)] assms(2) by simp
  then show ?thesis by (simp add: Q9K_ModDirUnlink_loop.simps)
qed

text \<open>Moving an entry from the directory to the free list.\<close>

lemma move_to_free:
  assumes r: "dir_rep S m (as @ s # bs) fs" and p: "prev = (if as = [] then 0 else last as)"
  shows "dir_rep S (Q9K_ModDirPoolFree (if prev = 0 then Q9K_SetU32 m Q9K_MODDIR_HEAD_ADDR (link_of m s)
      else Q9K_SetU32 m prev (link_of m s)) s) (as @ bs) (s # fs)" (is "dir_rep S ?m _ _")
proof -
  note rd = dir_repD [OF r]
  have S: "s \<in> S" "s \<notin> set as" "s \<notin> set bs" "s \<notin> set fs" using rd by auto
  have las: "as \<noteq> [] \<Longrightarrow> last as \<in> S \<and> last as \<noteq> s \<and> last as \<noteq> 0 \<and> last as \<notin> set fs"
  proof -
    assume "as \<noteq> []"
    then have "last as \<in> set as" by simp
    then show ?thesis using rd(2,6) S(2) slot_nonzero [OF rd(1)] by auto
  qed
  have ap: "apart x 4 y 4" if "x \<in> S" "y \<in> S" "x \<noteq> y" for x y using slot_slot [OF rd(1) that, of 0 4 0 4] by simp
  have gl: "apart x 4 g 4" "apart g 4 x 4" if "x \<in> S" "unat g + 4 \<le> 0x8000" for x g
    using slot_global [OF rd(1) that(1), of g 4 0 4] that by simp_all
  define m1 where "m1 = (if prev = 0 then Q9K_SetU32 m Q9K_MODDIR_HEAD_ADDR (link_of m s) else Q9K_SetU32 m prev (link_of m s))"
  define m' where "m' = ?m"
  have m: "m' = Q9K_SetU32 (Q9K_SetU32 m1 s (Q9K_GetU32 m1 Q9K_MODDIR_FREE_ADDR)) Q9K_MODDIR_FREE_ADDR s"
    by (simp add: Q9K_ModDirPoolFree_def m1_def m'_def)
  have f1: "Q9K_GetU32 m1 Q9K_MODDIR_FREE_ADDR = Q9K_GetU32 m Q9K_MODDIR_FREE_ADDR"
    "Q9K_GetU32 m1 Q9K_MODDIR_HEAD_ADDR = (if as = [] then link_of m s else Q9K_GetU32 m Q9K_MODDIR_HEAD_ADDR)"
    "\<And>x. x \<in> S \<Longrightarrow> link_of m1 x = (if as \<noteq> [] \<and> x = last as then link_of m s else link_of m x)"
    using las gl ap by (auto simp: m1_def p)
  have f2: "Q9K_GetU32 m' Q9K_MODDIR_FREE_ADDR = s" "Q9K_GetU32 m' Q9K_MODDIR_HEAD_ADDR = Q9K_GetU32 m1 Q9K_MODDIR_HEAD_ADDR"
    "\<And>x. x \<in> S \<Longrightarrow> link_of m' x = (if x = s then Q9K_GetU32 m Q9K_MODDIR_FREE_ADDR else link_of m1 x)"
    unfolding m using gl S ap f1(1) by auto
  have "path (link_of m') (Q9K_GetU32 m' Q9K_MODDIR_HEAD_ADDR) (as @ bs) 0"
  proof (rule path_skip [OF rd(7)])
    show "link_of m' (last as) = link_of m s" if "as \<noteq> []" using las [OF that] f1(3) f2(3) that by simp
    show "link_of m' x = link_of m x" if "x \<in> set (as @ bs)" "as \<noteq> [] \<Longrightarrow> x \<noteq> last as" for x
    proof -
      have "x \<in> S" "x \<noteq> s" using that(1) S rd(2) by auto
      then show ?thesis using f1(3) f2(3) that(2) by (cases "as = []") simp_all
    qed
  qed (use rd(4) f1(2) f2(2) in auto)
  moreover have "path (link_of m') s (s # fs) 0"
  proof -
    have "link_of m' x = link_of m x" if "x \<in> set fs" for x
    proof -
      have "x \<in> S" "x \<noteq> s" "as \<noteq> [] \<Longrightarrow> x \<noteq> last as" using that S rd(3) las by auto
      then show ?thesis using f1(3) f2(3) by (cases "as = []") simp_all
    qed
    then have "path (link_of m') q fs 0 = path (link_of m) q fs 0" for q by (rule path_cong)
    then show ?thesis using f2(3) [OF S(1)] rd(8) by simp
  qed
  ultimately show ?thesis using rd S f2(1) unfolding dir_rep_def m'_def [symmetric] by auto
qed

lemma unlink_found:
  assumes r: "dir_rep S m (as @ s # bs) fs" and h: "hdr_of m s = h" "\<And>x. x \<in> set as \<Longrightarrow> hdr_of m x \<noteq> h"
    and c: "c = cnt_of m s - (if cnt_of m s = 0 then 0 else 1)"
  shows "\<exists>m'. Q9K_ModDirUnlinkByHeader m h = Some (0, m') \<and>
    (if c = 0 \<and> \<not> permanent m s then dir_rep S m' (as @ bs) (s # fs) else dir_rep S m' (as @ s # bs) fs \<and> cnt_of m' s = c)"
proof -
  note rd = dir_repD [OF r]
  have S: "s \<in> S" "set as \<subseteq> S" using rd(2) by auto
  have nz: "0 \<notin> set as" "s \<noteq> 0" using S slot_nonzero [OF rd(1)] by auto
  define prev where "prev = (if as = [] then 0 else last as)"
  define m1 where "m1 = Q9K_SetU16 m (s + Q9K_MODDIR_LINKCNT_OFF) c"
  have c': "(if cnt_of m s > 0 then cnt_of m s - 1 else cnt_of m s) = c" using c by (auto simp: word_neq_0_conv)
  have r1: "dir_rep S m1 (as @ s # bs) fs" unfolding m1_def
    using slot_field16(1) [OF rd(1) S(1)] slot_field16(3) [OF rd(1) S(1) S(1)] r by (subst dir_rep_cong) simp_all
  have lk: "link_of m1 s = link_of m s" unfolding m1_def using slot_field16(1) [OF rd(1) S(1) S(1)] by simp
  have fl: "Q9K_GetU16 m1 (s + Q9K_MODDIR_FLAGS_OFF) = Q9K_GetU16 m (s + Q9K_MODDIR_FLAGS_OFF)" by (simp add: m1_def)
  have "Q9K_ModDirUnlinkByHeader m h = Q9K_ModDirUnlink_loop h m prev s"
    unfolding Q9K_ModDirUnlinkByHeader_def using unlink_walk [OF rd(7) nz(1) h(2), of 0] by (auto simp: prev_def)
  also have "\<dots> = Some (0, if c = 0 \<and> \<not> permanent m s then Q9K_ModDirPoolFree (if prev = 0 then Q9K_SetU32 m1 Q9K_MODDIR_HEAD_ADDR (link_of m1 s)
      else Q9K_SetU32 m1 prev (link_of m1 s)) s else m1)"
    by (subst Q9K_ModDirUnlink_loop.simps, unfold Let_def c' h(1), fold m1_def) (use nz(2) fl in simp)
  finally show ?thesis using move_to_free [OF r1 prev_def] r1 by (auto simp: m1_def)
qed

section \<open>Entering a module\<close>

lemma move_to_dir:
  assumes r: "dir_rep S m ds (s # fs)" and m0: "m0 = Q9K_SetU32 m Q9K_MODDIR_FREE_ADDR (link_of m s)"
  shows "Q9K_ModDirPoolAlloc m = (s, m0)"
    "\<And>m1. (\<And>g. unat g + 4 \<le> 0x8000 \<Longrightarrow> Q9K_GetU32 m1 g = Q9K_GetU32 m0 g) \<Longrightarrow> (\<And>t. t \<in> S \<Longrightarrow> link_of m1 t = link_of m0 t) \<Longrightarrow>
      dir_rep S (Q9K_ModDirListPush m1 s) (s # ds) fs"
proof -
  note rd = dir_repD [OF r]
  have S: "s \<in> S" "s \<notin> set ds" "s \<notin> set fs" "s \<noteq> 0" using rd slot_nonzero [OF rd(1)] by auto
  have hd: "Q9K_GetU32 m Q9K_MODDIR_FREE_ADDR = s" using rd(8) by simp
  then show "Q9K_ModDirPoolAlloc m = (s, m0)" using S(4) by (simp add: Q9K_ModDirPoolAlloc_def m0)
  fix m1 assume g: "\<And>g. unat g + 4 \<le> 0x8000 \<Longrightarrow> Q9K_GetU32 m1 g = Q9K_GetU32 m0 g" and l: "\<And>t. t \<in> S \<Longrightarrow> link_of m1 t = link_of m0 t"
  have ap: "apart x 4 y 4" if "x \<in> S" "y \<in> S" "x \<noteq> y" for x y using slot_slot [OF rd(1) that, of 0 4 0 4] by simp
  have gl: "apart x 4 g 4" "apart g 4 x 4" if "x \<in> S" "unat g + 4 \<le> 0x8000" for x g
    using slot_global [OF rd(1) that(1), of g 4 0 4] that by simp_all
  define m' where "m' = Q9K_ModDirListPush m1 s"
  have m': "m' = Q9K_SetU32 (Q9K_SetU32 m1 s (Q9K_GetU32 m Q9K_MODDIR_HEAD_ADDR)) Q9K_MODDIR_HEAD_ADDR s"
    using g [of Q9K_MODDIR_HEAD_ADDR] by (simp add: m'_def Q9K_ModDirListPush_def m0)
  have f: "Q9K_GetU32 m' Q9K_MODDIR_HEAD_ADDR = s" "Q9K_GetU32 m' Q9K_MODDIR_FREE_ADDR = link_of m s"
    using g [of Q9K_MODDIR_FREE_ADDR] gl [OF S(1)] by (simp_all add: m' m0)
  have k: "link_of m' t = (if t = s then Q9K_GetU32 m Q9K_MODDIR_HEAD_ADDR else link_of m t)" if "t \<in> S" for t
    using l [OF that] gl [OF that] gl [OF S(1)] ap [OF S(1) that] that by (auto simp: m' m0)
  have "path (link_of m') q xs 0 = path (link_of m) q xs 0" if "set xs \<subseteq> S" "s \<notin> set xs" for q xs
    using k that by (intro path_cong) auto
  then have "path (link_of m') s (s # ds) 0" "path (link_of m') (link_of m s) fs 0"
    using k [OF S(1)] S rd by auto
  then show "dir_rep S (Q9K_ModDirListPush m1 s) (s # ds) fs"
    using rd S f unfolding dir_rep_def m'_def by auto
qed

lemma GetU16BE_cell: "Q9K_GetU16BE m a = Q9K_GetU16 m a"
  by (simp add: Q9K_GetU16BE_def Q9K_GetU16_def)

lemma add_entry:
  assumes r: "dir_rep S m ds (s # fs)"
  shows "\<exists>m'. Q9K_ModDirAdd m h = (s, m') \<and> dir_rep S m' (s # ds) fs \<and> hdr_of m' s = h \<and> cnt_of m' s = 0 \<and> \<not> permanent m' s \<and>
    (\<forall>t\<in>S - {s}. hdr_of m' t = hdr_of m t \<and> cnt_of m' t = cnt_of m t) \<and>
    (0x8000 \<le> unat h \<longrightarrow> unat h + 0x14 \<le> 2 ^ 32 \<longrightarrow> apart s 16 (h + 0x12) 2 \<longrightarrow> Q9K_GetU16 m' (s + Q9K_MODDIR_TYLANG_OFF) = Q9K_GetU16 m (h + 0x12))"
proof -
  note rd = dir_repD [OF r]
  have S: "s \<in> S" "s \<noteq> 0" using rd slot_nonzero [OF rd(1)] by auto
  define m0 where "m0 = Q9K_SetU32 m Q9K_MODDIR_FREE_ADDR (link_of m s)"
  define m1 where "m1 = Q9K_SetU32 m0 (s + 4) h"
  define m2 where "m2 = Q9K_SetU16 m1 (s + 8) (Q9K_GetU16BE m1 (h + 0x12))"
  define m3 where "m3 = Q9K_SetU16 m2 (s + 0xA) (Q9K_GetU16BE m2 (h + 0x12 + 2))"
  define m5 where "m5 = Q9K_SetU16 (Q9K_SetU16 m3 (s + 0xC) 0) (s + 0xE) 0"
  have e: "Q9K_ModDirAdd m h = (s, Q9K_ModDirListPush m5 s)"
    using move_to_dir(1) [OF r m0_def] S(2) by (simp add: Q9K_ModDirAdd_def Let_def m0_def m1_def m2_def m3_def m5_def)
  have g: "Q9K_GetU32 m5 g = Q9K_GetU32 m0 g" if "unat g + 4 \<le> 0x8000" for g
    using slot_field16(3) [OF rd(1) S(1) S(1)] slot_global(1) [OF rd(1) S(1), of g 4 4 4] that
    by (simp add: m5_def m3_def m2_def m1_def)
  have l: "link_of m5 t = link_of m0 t" if "t \<in> S" for t
    using slot_field16(1) [OF rd(1) S(1) that] slot_slot [OF rd(1) S(1) that, of 4 4 0 4]
    by (cases "t = s") (simp_all add: m5_def m3_def m2_def m1_def)
  have d: "dir_rep S (Q9K_ModDirListPush m5 s) (s # ds) fs" using move_to_dir(2) [OF r m0_def g l] by blast
  have "hdr_of m5 s = h" "cnt_of m5 s = 0" "Q9K_GetU16 m5 (s + 0xE) = 0"
    by (simp_all add: m5_def m3_def m2_def m1_def)
  moreover have gl: "apart g 4 (t + i) k" if "t \<in> S" "unat i + unat k \<le> 16" "unat g + 4 \<le> 0x8000" for g t i k
    using slot_global(2) [OF rd(1) that(1) _ that(2), of g 4] that(3) by simp
  moreover have "hdr_of (Q9K_ModDirListPush m5 s) t = hdr_of m t" "cnt_of (Q9K_ModDirListPush m5 s) t = cnt_of m t" if "t \<in> S - {s}" for t
  proof -
    have ap: "apart (s + i) n (t + j) k" if "i + n \<le> 16" "i \<le> i + n" "j + k \<le> 16" "j \<le> j + k" for i n j k
      using slot_slot [OF rd(1) S(1), of t i n j k] that \<open>t \<in> S - {s}\<close> by auto
    show "hdr_of (Q9K_ModDirListPush m5 s) t = hdr_of m t" "cnt_of (Q9K_ModDirListPush m5 s) t = cnt_of m t"
      using ap [of 0 4 4 4] ap [of 0 4 "0xC" 2] gl [of t] that
      by (simp_all add: Q9K_ModDirListPush_def m5_def m3_def m2_def m1_def m0_def ap)
  qed
  moreover have "Q9K_GetU16 (Q9K_ModDirListPush m5 s) (s + 8) = Q9K_GetU16 m (h + 0x12)"
    if h: "0x8000 \<le> unat h" "unat h + 0x14 \<le> 2 ^ 32" "apart s 16 (h + 0x12) 2"
  proof -
    have "apart (s + 4) 4 (h + 0x12 + 0) 2" using apart_sub [OF h(3), of 4 4 0 2] by simp
    moreover have "apart Q9K_MODDIR_FREE_ADDR 4 (h + 0x12) 2" using apart_high_low [of "0x8000" h "0x12" 2 Q9K_MODDIR_FREE_ADDR 4] h by (simp add: apart_sym)
    ultimately have "Q9K_GetU16BE m1 (h + 0x12) = Q9K_GetU16 m (h + 0x12)"
      using c16_32.frame by (simp add: m1_def m0_def GetU16BE_cell)
    then show ?thesis using gl [OF S(1)] by (simp add: Q9K_ModDirListPush_def m5_def m3_def m2_def)
  qed
  ultimately show ?thesis using e d S(1) by (simp add: Q9K_ModDirListPush_def)
qed

section \<open>Searching\<close>

text \<open>What the search tests of an entry, and the modules and names it may read: none of their bytes is a
  diagnosis cell.\<close>

definition slot_matches :: "memory \<Rightarrow> u16 \<Rightarrow> u32 \<Rightarrow> u32 \<Rightarrow> bool" where
  "slot_matches m desiredTyLang name s =
     (let hdrAddr = hdr_of m s;
          nameOffset = Q9K_ReadU32BE m (hdrAddr + Q9K_MH_NAME);
          moduleSize = Q9K_ReadU32BE m (hdrAddr + Q9K_MH_SIZE)
      in tylang_matches desiredTyLang (Q9K_GetU16 m (s + Q9K_MODDIR_TYLANG_OFF)) \<and>
         nameOffset < moduleSize \<and> Q9K_ModDirNamesMatch m (hdrAddr + nameOffset) (moduleSize - nameOffset) name)"

definition revision_of :: "memory \<Rightarrow> u32 \<Rightarrow> u32" where
  "revision_of m s = ucast (m (hdr_of m s + Q9K_MH_REVS))"

abbreviation diag_cells :: "u32 set" where "diag_cells \<equiv> {a. a - 0x154180 < 16}"

definition readable :: "memory \<Rightarrow> u32 \<Rightarrow> u32 \<Rightarrow> bool" where
  "readable m name s \<longleftrightarrow>
     (let h = hdr_of m s; n = unat (Q9K_ReadU32BE m (h + Q9K_MH_SIZE)) in
      (\<forall>i<0x30. h + of_nat i \<notin> diag_cells) \<and> (\<forall>i<n. h + of_nat i \<notin> diag_cells) \<and> (\<forall>i\<le>n. name + of_nat i \<notin> diag_cells))"

text \<open>Two memories that agree outside the diagnosis cells.\<close>

definition diag_eq :: "memory \<Rightarrow> memory \<Rightarrow> bool" where
  "diag_eq m m' \<longleftrightarrow> (\<forall>a. a \<notin> diag_cells \<longrightarrow> m' a = m a)"

lemma diag_eq_set: "g \<in> {Q9K_FLINK_DIAG_ITER, Q9K_FLINK_DIAG_SLOT, Q9K_FLINK_DIAG_HEADER, Q9K_FLINK_DIAG_GUARD} \<Longrightarrow> diag_eq m m' \<Longrightarrow> diag_eq m (Q9K_SetU32 m' g v)"
  unfolding diag_eq_def Q9K_SetU32_def by auto

lemma diag_eq_apart:
  assumes "diag_eq m m'"
  shows "apart a 4 0x154180 16 \<Longrightarrow> Q9K_GetU32 m' a = Q9K_GetU32 m a" "apart a 2 0x154180 16 \<Longrightarrow> Q9K_GetU16 m' a = Q9K_GetU16 m a"
proof -
  have "m' (a + i) = m (a + i)" if "apart a k 0x154180 16" "i < k" for i k
  proof -
    have "a + i \<noteq> 0x154180 + j" if "j < 16" for j using apartD [OF \<open>apart a k 0x154180 16\<close> \<open>i < k\<close> that] .
    from this [of "a + i - 0x154180"] have "\<not> a + i - 0x154180 < 16" by auto
    then show ?thesis using assms by (simp add: diag_eq_def)
  qed
  then show "apart a 4 0x154180 16 \<Longrightarrow> Q9K_GetU32 m' a = Q9K_GetU32 m a" "apart a 2 0x154180 16 \<Longrightarrow> Q9K_GetU16 m' a = Q9K_GetU16 m a"
    by (blast intro: c32.get_local c16.get_local)+
qed

lemma names_cong:
  assumes "\<And>i. i < n \<Longrightarrow> m' (a + of_nat i) = m (a + of_nat i)" "\<And>i. i \<le> n \<Longrightarrow> m' (b + of_nat i) = m (b + of_nat i)"
  shows "Q9K_ModDirNamesMatch_from n m' a b = Q9K_ModDirNamesMatch_from n m a b"
  using assms
proof (induction n arbitrary: a b)
  case (Suc n)
  have "m' (a + 1 + of_nat i) = m (a + 1 + of_nat i)" if "i < n" for i using Suc.prems(1) [of "Suc i"] that by (simp add: ac_simps)
  moreover have "m' (b + 1 + of_nat i) = m (b + 1 + of_nat i)" if "i \<le> n" for i using Suc.prems(2) [of "Suc i"] that by (simp add: ac_simps)
  ultimately show ?case using Suc.IH [of "a + 1" "b + 1"] Suc.prems(1) [of 0] Suc.prems(2) [of 0] Suc.prems(2) [of 1] by (simp add: Let_def)
qed simp

lemma slot_diag:
  assumes "slots_ok S" "s \<in> S" "diag_eq m m'"
  shows "link_of m' s = link_of m s" "hdr_of m' s = hdr_of m s" "Q9K_GetU16 m' (s + 8) = Q9K_GetU16 m (s + 8)" "cnt_of m' s = cnt_of m s"
proof -
  have a: "apart s 16 0x154180 16" using assms(1,2) by (auto simp: slots_ok_def)
  have "apart (s + 0) 4 0x154180 16" "apart (s + 4) 4 0x154180 16" "apart (s + 8) 2 0x154180 16" "apart (s + 0xC) 2 0x154180 16"
    using apart_sub [OF a, of 0 4 0 16] apart_sub [OF a, of 4 4 0 16] apart_sub [OF a, of 8 2 0 16] apart_sub [OF a, of 12 2 0 16] by simp_all
  then show "link_of m' s = link_of m s" "hdr_of m' s = hdr_of m s" "Q9K_GetU16 m' (s + 8) = Q9K_GetU16 m (s + 8)" "cnt_of m' s = cnt_of m s"
    using diag_eq_apart [OF assms(3)] by simp_all
qed

lemma module_diag:
  assumes "readable m name s" "diag_eq m m'" "h = hdr_of m s"
  shows "Q9K_ReadU32BE m' (h + Q9K_MH_NAME) = Q9K_ReadU32BE m (h + Q9K_MH_NAME)"
    "Q9K_ReadU32BE m' (h + Q9K_MH_SIZE) = Q9K_ReadU32BE m (h + Q9K_MH_SIZE)"
    "m' (h + Q9K_MH_REVS) = m (h + Q9K_MH_REVS)"
    "off < Q9K_ReadU32BE m (h + Q9K_MH_SIZE) \<Longrightarrow> Q9K_ModDirNamesMatch m' (h + off) (Q9K_ReadU32BE m (h + Q9K_MH_SIZE) - off) name =
       Q9K_ModDirNamesMatch m (h + off) (Q9K_ReadU32BE m (h + Q9K_MH_SIZE) - off) name"
proof -
  define n where "n = Q9K_ReadU32BE m (h + Q9K_MH_SIZE)"
  have r: "i < 0x30 \<Longrightarrow> h + of_nat i \<notin> diag_cells" "i < unat n \<Longrightarrow> h + of_nat i \<notin> diag_cells" "i \<le> unat n \<Longrightarrow> name + of_nat i \<notin> diag_cells" for i
    using assms(1) unfolding readable_def Let_def assms(3) [symmetric] n_def [symmetric] by blast+
  have e: "i < 0x30 \<Longrightarrow> m' (h + of_nat i) = m (h + of_nat i)" "i < unat n \<Longrightarrow> m' (h + of_nat i) = m (h + of_nat i)"
    "i \<le> unat n \<Longrightarrow> m' (name + of_nat i) = m (name + of_nat i)" for i
    using r [of i] assms(2) unfolding diag_eq_def by blast+
  show "Q9K_ReadU32BE m' (h + Q9K_MH_NAME) = Q9K_ReadU32BE m (h + Q9K_MH_NAME)"
    "Q9K_ReadU32BE m' (h + Q9K_MH_SIZE) = Q9K_ReadU32BE m (h + Q9K_MH_SIZE)" "m' (h + Q9K_MH_REVS) = m (h + Q9K_MH_REVS)"
    using e(1) [of 12] e(1) [of 13] e(1) [of 14] e(1) [of 15] e(1) [of 4] e(1) [of 5] e(1) [of 6] e(1) [of 7] e(1) [of "0x15"]
    by (simp_all add: Q9K_ReadU32BE_def add.assoc)
  assume "off < Q9K_ReadU32BE m (h + Q9K_MH_SIZE)"
  then have o: "unat (n - off) = unat n - unat off" "unat off \<le> unat n" by (simp_all add: n_def unat_sub word_less_nat_alt order_less_imp_le)
  show "Q9K_ModDirNamesMatch m' (h + off) (Q9K_ReadU32BE m (h + Q9K_MH_SIZE) - off) name =
       Q9K_ModDirNamesMatch m (h + off) (Q9K_ReadU32BE m (h + Q9K_MH_SIZE) - off) name"
    unfolding Q9K_ModDirNamesMatch_def n_def [symmetric] o(1)
  proof (rule names_cong)
    fix i assume "i < unat n - unat off"
    then show "m' (h + off + of_nat i) = m (h + off + of_nat i)" using e(2) [of "unat off + i"] by (simp add: add.assoc)
  next
    fix i assume "i \<le> unat n - unat off"
    then show "m' (name + of_nat i) = m (name + of_nat i)" using e(3) [of i] by simp
  qed
qed

lemma find_loop:
  assumes "slots_ok S" "set (pre @ rest) \<subseteq> S" "path (link_of m) slot rest 0" "\<And>s. s \<in> set rest \<Longrightarrow> readable m name s"
    "diag_eq m mm" "length rest \<le> n" "best_by (slot_matches m ty name) (revision_of m) pre best" "rvb = (if best = 0 then 0 else revision_of m best)"
  shows "\<exists>b m'. Q9K_ModDirFind_loop n ty name True mm it slot best rvb = (b, m') \<and> diag_eq m m' \<and>
    best_by (slot_matches m ty name) (revision_of m) (pre @ rest) b"
  using assms
proof (induction rest arbitrary: n mm it slot best rvb pre)
  case Nil
  then show ?case by (cases n) (simp_all add: diag_eq_set)
next
  case (Cons s rest)
  have s: "slot = s" "s \<in> S" "s \<noteq> 0" "0 \<notin> set (pre @ [s])" using Cons.prems(2,3) slot_nonzero [OF Cons.prems(1)] by auto
  obtain k where n: "n = Suc k" using Cons.prems(6) by (cases n) auto
  define h where "h = hdr_of m s"
  define mm3 where "mm3 = Q9K_SetU32 (Q9K_SetU32 (Q9K_SetU32 mm Q9K_FLINK_DIAG_ITER (it + 1)) Q9K_FLINK_DIAG_SLOT s) Q9K_FLINK_DIAG_HEADER h"
  have eq: "diag_eq m mm3" unfolding mm3_def by (intro diag_eq_set Cons.prems(5)) simp_all
  note sd = slot_diag [OF Cons.prems(1) s(2) Cons.prems(5)] slot_diag(1) [OF Cons.prems(1) s(2) eq]
  note md = module_diag [OF Cons.prems(4) eq h_def]
  define mt where "mt = slot_matches m ty name s"
  define best' where "best' = (if mt \<and> (best = 0 \<or> revision_of m s > revision_of m best) then s else best)"
  define rvb' where "rvb' = (if best' = 0 then 0 else revision_of m best')"
  have test: "(tylang_matches ty (Q9K_GetU16 mm (s + 8)) \<and> Q9K_ReadU32BE mm3 (h + Q9K_MH_NAME) < Q9K_ReadU32BE mm3 (h + Q9K_MH_SIZE) \<and>
      Q9K_ModDirNamesMatch mm3 (h + Q9K_ReadU32BE mm3 (h + Q9K_MH_NAME)) (Q9K_ReadU32BE mm3 (h + Q9K_MH_SIZE) - Q9K_ReadU32BE mm3 (h + Q9K_MH_NAME)) name) = mt"
    unfolding mt_def slot_matches_def Let_def h_def [symmetric] using sd md by auto
  have rv: "ucast (mm3 (h + Q9K_MH_REVS)) = revision_of m s" using md(3) by (simp add: revision_of_def h_def)
  have "Q9K_ModDirFind_loop n ty name True mm it slot best rvb = Q9K_ModDirFind_loop k ty name True mm3 (it + 1) (link_of m s) best' rvb'"
    unfolding n s(1) Q9K_ModDirFind_loop.simps Let_def sd(2) h_def [symmetric] mm3_def [symmetric] test rv
    using s(3) sd(5) Cons.prems(8) by (auto simp: best'_def rvb'_def)
  moreover have "best_by (slot_matches m ty name) (revision_of m) (pre @ [s]) best'"
    using best_by_snoc [OF Cons.prems(7) s(4)] by (simp add: best'_def mt_def)
  ultimately show ?case
    using Cons.IH [of "pre @ [s]" "link_of m s" mm3 k best' rvb' "it + 1"] Cons.prems(1,2,3,4,6) eq rvb'_def n by auto
qed

lemma dir_rep_diag:
  assumes "slots_ok S" "diag_eq m m'" shows "dir_rep S m' ds fs = dir_rep S m ds fs"
  using slot_diag(1) [OF assms(1) _ assms(2)] diag_eq_apart(1) [OF assms(2)] by (intro dir_rep_cong) simp_all

lemma find_slot:
  assumes r: "dir_rep S m ds fs" and b: "length ds \<le> 256" "\<And>s. s \<in> set ds \<Longrightarrow> readable m name s"
  shows "\<exists>s m'. Q9K_ModDirFindSlotByName m ty name True = (s, m') \<and> diag_eq m m' \<and> best_by (slot_matches m ty name) (revision_of m) ds s"
proof -
  note rd = dir_repD [OF r]
  have "diag_eq m (diag_clear m)" unfolding diag_clear_def by (intro diag_eq_set) (simp_all add: diag_eq_def)
  then show ?thesis unfolding Q9K_ModDirFindSlotByName_def
    using find_loop [where S = S and pre = "[]" and rest = ds and n = 256 and best = 0 and rvb = 0] rd(1,2,7) b
    by (simp add: best_by_def)
qed

section \<open>An example\<close>

lemma below_diag: "unat a < 0x154180 \<Longrightarrow> a \<notin> diag_cells"
proof
  assume a: "unat a < 0x154180" "a \<in> diag_cells"
  then have "unat (a - 0x154180) < 16" by (simp add: word_less_nat_alt)
  then have "unat (a - 0x154180 + 0x154180) = unat (a - 0x154180) + 0x154180" by (subst unat_offset) simp_all
  then show False using a(1) by simp
qed

lemma readableI:
  assumes "unat (hdr_of m s) + 0x30 \<le> 0x154180" "Q9K_ReadU32BE m (hdr_of m s + Q9K_MH_SIZE) = of_nat n" "n < 2 ^ 31"
    "unat (hdr_of m s) + n \<le> 0x154180" "unat name + n < 0x154180"
  shows "readable m name s"
proof -
  have u: "unat (a + of_nat i) = unat a + i" if "unat a + i < 2 ^ 32" for a :: u32 and i
    using that unat_offset [of a "of_nat i"] unat_of_nat_u32 [of i] by simp
  have "unat (of_nat n :: u32) = n" using assms(3) by (intro unat_of_nat_u32) simp
  then show ?thesis unfolding readable_def Let_def assms(2)
    using assms by (auto simp del: mem_Collect_eq intro!: below_diag simp: u)
qed

definition ex_dir :: memory where
  "ex_dir = Q9K_SetU32 (Q9K_SetU32 (Q9K_SetU32 (\<lambda>_. 0) Q9K_MODDIR_HEAD_ADDR 0x9000) Q9K_MODDIR_FREE_ADDR 0x9010) 0x9004 0x50000"

lemma ex_dir_rep: "dir_rep {0x9000, 0x9010} ex_dir [0x9000] [0x9010]" "hdr_of ex_dir 0x9000 = 0x50000" "readable ex_dir 0x60000 0x9000"
proof -
  have z: "Q9K_GetU32 (\<lambda>_. 0) a = 0" for a by (simp add: Q9K_GetU32_def)
  have g: "Q9K_GetU32 ex_dir Q9K_MODDIR_HEAD_ADDR = 0x9000" "Q9K_GetU32 ex_dir Q9K_MODDIR_FREE_ADDR = 0x9010"
    "Q9K_GetU32 ex_dir 0x9000 = 0" "Q9K_GetU32 ex_dir 0x9010 = 0" "Q9K_GetU32 ex_dir 0x9004 = 0x50000" by (simp_all add: ex_dir_def z)
  then show h: "hdr_of ex_dir 0x9000 = 0x50000" by simp
  show "dir_rep {0x9000, 0x9010} ex_dir [0x9000] [0x9010]" using g by (simp add: dir_rep_def slots_ok_def)
  have "Q9K_ReadU32BE ex_dir (0x50000 + Q9K_MH_SIZE) = 0" by (simp add: Q9K_ReadU32BE_def ex_dir_def Q9K_SetU32_def)
  then show "readable ex_dir 0x60000 0x9000" using h by (intro readableI [where n = 0]) simp_all
qed

section \<open>Properties\<close>

text \<open>C27: F$Link searches a well-formed directory of at most 256 entries completely and returns: it
  selects the first entry of the highest revision among those whose type, language and name fit, increments its
  link count and no other, and returns its module; without a fitting entry it returns 0 and changes no entry.\<close>

theorem module_link_spec:
  assumes r: "dir_rep S m ds fs" and b: "length ds \<le> 256" "\<And>s. s \<in> set ds \<Longrightarrow> readable m name s"
  shows "\<exists>s m'. best_by (slot_matches m ty name) (revision_of m) ds s \<and>
    Q9K_ModDirLinkByName m ty name = (if s = 0 then 0 else hdr_of m s, m') \<and> dir_rep S m' ds fs \<and>
    (\<forall>t\<in>set ds. hdr_of m' t = hdr_of m t \<and> cnt_of m' t = cnt_of m t + (if t = s then 1 else 0))"
proof -
  note rd = dir_repD [OF r]
  obtain s m1 where f: "Q9K_ModDirFindSlotByName m ty name True = (s, m1)" "diag_eq m m1" "best_by (slot_matches m ty name) (revision_of m) ds s"
    using find_slot [OF r b] by blast
  have r1: "dir_rep S m1 ds fs" using r dir_rep_diag [OF rd(1) f(2)] by simp
  have e1: "hdr_of m1 t = hdr_of m t" "cnt_of m1 t = cnt_of m t" if "t \<in> set ds" for t
    using slot_diag(2,4) [OF rd(1) _ f(2), of t] that rd(2) by auto
  show ?thesis
  proof (cases "s = 0")
    case True
    have "0 \<notin> set ds" using rd(2) slot_nonzero [OF rd(1)] by blast
    then show ?thesis using True f r1 e1 by (intro exI [of _ s] exI [of _ m1]) (auto simp: Q9K_ModDirLinkByName_def)
  next
    case False
    have s: "s \<in> set ds" "s \<in> S" using f(3) False first_max_in [of _ _ ds s] rd(2) by (auto simp: best_by_def split: if_splits)
    define m2 where "m2 = Q9K_SetU16 m1 (s + Q9K_MODDIR_LINKCNT_OFF) (cnt_of m1 s + 1)"
    have r2: "dir_rep S m2 ds fs" unfolding m2_def
      using slot_field16(1) [OF rd(1) s(2)] slot_field16(3) [OF rd(1) s(2) s(2)] r1 by (subst dir_rep_cong) simp_all
    have h2: "hdr_of m2 t = hdr_of m t" if "t \<in> set ds" for t
      unfolding m2_def using slot_field16(2) [OF rd(1) s(2), of t] e1(1) that rd(2) by auto
    have c2: "cnt_of m2 t = cnt_of m t + (if t = s then 1 else 0)" if "t \<in> set ds" for t
      using slot_slot [OF rd(1) s(2), of t "0xC" 2 "0xC" 2] e1(2) that rd(2) s(1) by (auto simp: m2_def)
    have "Q9K_ModDirLinkByName m ty name = (hdr_of m s, m2)"
      using False h2 [OF s(1)] by (simp add: Q9K_ModDirLinkByName_def f(1) Let_def m2_def)
    then show ?thesis using False f(3) r2 h2 c2 by (intro exI [of _ s] exI [of _ m2]) simp
  qed
qed

theorem module_link_spec_witness:
  "\<exists>s m'. Q9K_ModDirLinkByName ex_dir 0 0x60000 = (if s = 0 then 0 else hdr_of ex_dir s, m') \<and> dir_rep {0x9000, 0x9010} m' [0x9000] [0x9010]"
  using module_link_spec [OF ex_dir_rep(1), of "0x60000" 0] ex_dir_rep(3) by auto

text \<open>C28: F$UnLink of a module lowers the link count of its first entry; exactly when the count is
  then 0 and the module is not permanent the entry leaves the directory for the free list, where every entry of the pool
  stays on exactly one list; a module without an entry is reported and nothing changes.\<close>

theorem module_unlink_spec:
  assumes r: "dir_rep S m ds fs"
  shows "if h \<notin> hdr_of m ` set ds then Q9K_ModDirUnlinkByHeader m h = Some (1, m)
    else \<exists>as s bs m'. ds = as @ s # bs \<and> hdr_of m s = h \<and> h \<notin> hdr_of m ` set as \<and> Q9K_ModDirUnlinkByHeader m h = Some (0, m') \<and>
      (if cnt_of m s \<le> 1 \<and> \<not> permanent m s then dir_rep S m' (as @ bs) (s # fs)
       else dir_rep S m' ds fs \<and> cnt_of m' s = (if cnt_of m s = 0 then 0 else cnt_of m s - 1))"
proof (cases "h \<in> hdr_of m ` set ds")
  case False
  then show ?thesis using unlink_missing [OF r, of h] by auto
next
  case True
  then obtain x where "x \<in> set ds" "hdr_of m x = h" by auto
  then obtain as s bs where d: "ds = as @ s # bs" "hdr_of m s = h" "\<forall>y\<in>set as. hdr_of m y \<noteq> h"
    using split_list_first_prop [of ds "\<lambda>x. hdr_of m x = h"] by blast
  have "x \<le> 1 \<longleftrightarrow> x = 0 \<or> x = 1" for x :: u16 by unat_arith
  then have c: "cnt_of m s - (if cnt_of m s = 0 then 0 else 1) = 0 \<longleftrightarrow> cnt_of m s \<le> 1" by auto
  have "h \<notin> hdr_of m ` set as" using d(3) by auto
  moreover obtain m' where "Q9K_ModDirUnlinkByHeader m h = Some (0, m')"
    "if cnt_of m s \<le> 1 \<and> \<not> permanent m s then dir_rep S m' (as @ bs) (s # fs)
     else dir_rep S m' ds fs \<and> cnt_of m' s = cnt_of m s - (if cnt_of m s = 0 then 0 else 1)"
    using unlink_found [OF r [unfolded d(1)] d(2) _ refl] d(3) unfolding c d(1) by blast
  ultimately have "\<exists>as s bs m'. ds = as @ s # bs \<and> hdr_of m s = h \<and> h \<notin> hdr_of m ` set as \<and> Q9K_ModDirUnlinkByHeader m h = Some (0, m') \<and>
      (if cnt_of m s \<le> 1 \<and> \<not> permanent m s then dir_rep S m' (as @ bs) (s # fs)
       else dir_rep S m' ds fs \<and> cnt_of m' s = (if cnt_of m s = 0 then 0 else cnt_of m s - 1))"
    using d(1,2) by - (rule exI [of _ as], rule exI [of _ s], rule exI [of _ bs], rule exI [of _ m'], auto split: if_splits)
  then show ?thesis using True by simp
qed

theorem module_unlink_spec_witness:
  "\<exists>s m'. hdr_of ex_dir s = 0x50000 \<and> Q9K_ModDirUnlinkByHeader ex_dir 0x50000 = Some (0, m')"
  using module_unlink_spec [OF ex_dir_rep(1), of "0x50000"] ex_dir_rep(2) by auto

end
