(* ===== verification/Q9_ModCrc.thy ===== *)
theory Q9_ModCrc
  imports Q9_ModDir_Props
begin

text \<open>
  The module CRC: the bytewise routine behind F$CRC and F$SetCRC computes the same 24-bit CRC as the bitwise loop
  of the validation, and a module whose check values were set by F$SetCRC passes the validation.
\<close>

section \<open>The bitwise CRC is linear\<close>

lemma funpow_8: "(f ^^ 8) x = f (f (f (f (f (f (f (f x)))))))"
  by (simp add: eval_nat_numeral)

lemma mask24: "(0xFFFFFF :: u32) = mask 24"
  by (simp add: mask_eq_exp_minus_1)

lemma vcrc_bit_alt: "vcrc_bit x = take_bit 24 (push_bit 1 x) XOR (if bit x 23 then 0x800063 else 0)"
proof -
  have "x AND 0x800000 \<noteq> 0 \<longleftrightarrow> bit x 23"
    using and_exp_eq_0_iff_not_bit [of x 23] by simp
  moreover have "(y XOR 0x800063) AND 0xFFFFFF = take_bit 24 y XOR 0x800063" for y :: u32
  proof -
    have "take_bit 24 (0x800063 :: u32) = 0x800063" by (simp add: take_bit_eq_mask mask24 [symmetric])
    then show ?thesis unfolding mask24 by (simp add: take_bit_eq_mask [symmetric] take_bit_xor)
  qed
  ultimately show ?thesis by (simp add: vcrc_bit_def mask24 take_bit_eq_mask [symmetric])
qed

lemma vcrc_bit_xor: "vcrc_bit (x XOR y) = vcrc_bit x XOR vcrc_bit y"
  by (auto simp: vcrc_bit_alt push_bit_xor take_bit_xor bit_xor_iff ac_simps xor.left_commute)

lemma vcrc_bits_xor: "(vcrc_bit ^^ n) (x XOR y) = (vcrc_bit ^^ n) x XOR (vcrc_bit ^^ n) y"
  by (induction n) (simp_all add: vcrc_bit_xor)

lemma vcrc_bits_shift: "n + k \<le> 24 \<Longrightarrow> (vcrc_bit ^^ n) (take_bit k x) = push_bit n (take_bit k x)"
proof (induction n)
  case (Suc n)
  then have e: "(vcrc_bit ^^ n) (take_bit k x) = push_bit n (take_bit k x)" by simp
  have "\<not> bit (push_bit n (take_bit k x)) 23" using Suc.prems by (auto simp: bit_simps)
  moreover have "take_bit 24 (push_bit 1 (push_bit n (take_bit k x))) = push_bit (Suc n) (take_bit k x)"
    using Suc.prems by (intro bit_word_eqI) (auto simp: bit_simps simp del: push_bit_of_1 push_bit_Suc push_bit_double simp flip: push_bit_push_bit)
  ultimately show ?case unfolding funpow.simps comp_apply e by (simp only: vcrc_bit_alt if_False xor.right_neutral)
qed simp

lemma vcrc_byte_alt: "vcrc_byte b x = (vcrc_bit ^^ 8) (take_bit 24 x) XOR (vcrc_bit ^^ 8) (push_bit 16 (ucast b))"
proof -
  have "take_bit 24 (push_bit 16 (ucast b) :: u32) = push_bit 16 (ucast b)"
    by (rule bit_word_eqI) (auto simp: bit_simps dest: bit_imp_le_length)
  then have "(x XOR push_bit 16 (ucast b)) AND 0xFFFFFF = take_bit 24 x XOR push_bit 16 (ucast b)"
    unfolding mask24 by (simp add: take_bit_eq_mask [symmetric] take_bit_xor)
  then show ?thesis by (simp only: vcrc_byte_def vcrc_bits_xor)
qed

section \<open>One byte of the bytewise CRC\<close>

definition crc_join :: "u32 \<times> u32 \<times> u32 \<Rightarrow> u32" where
  "crc_join c = (case c of (c0, c1, c2) \<Rightarrow> push_bit 16 c0 XOR push_bit 8 c1 XOR c2)"

text \<open>The table value of a byte, in both forms.\<close>

definition crc_table :: "u32 \<Rightarrow> u32" where
  "crc_table a = crc_join (crc_step 0 (a, 0, 0))"

lemma linear_ext:
  fixes F G :: "u32 \<Rightarrow> u32"
  assumes F: "\<And>x y. F (x XOR y) = F x XOR F y" and G: "\<And>x y. G (x XOR y) = G x XOR G y"
    and b: "\<And>i. i < n \<Longrightarrow> F (push_bit i 1) = G (push_bit i 1)"
  shows "F (take_bit n a) = G (take_bit n a)"
  using b
proof (induction n)
  case 0
  have "F 0 = 0" "G 0 = 0" using F [of 0 0] G [of 0 0] by simp_all
  then show ?case by simp
next
  case (Suc n)
  have "take_bit (Suc n) a = take_bit n a XOR (if bit a n then push_bit n 1 else 0)"
    by (rule bit_word_eqI) (auto simp: bit_simps less_Suc_eq)
  moreover have "F 0 = G 0" using F [of 0 0] G [of 0 0] by simp
  ultimately show ?case using Suc F G by simp
qed

definition smear :: "nat \<Rightarrow> u32 \<Rightarrow> u32" where
  "smear k x = x XOR take_bit 8 (push_bit k x)"

lemma smear_xor: "smear k (x XOR y) = smear k x XOR smear k y"
  by (simp add: smear_def push_bit_xor take_bit_xor ac_simps xor.left_commute)

lemma crc_step_alt:
  "crc_step b (c0, c1, c2) =
     (let a = take_bit 8 (ucast b XOR c0);
          p = bit (smear 4 (smear 2 (smear 1 a))) 7
      in (c1 XOR (if p then 0x80 else 0), c2 XOR take_bit 8 (drop_bit 7 a) XOR take_bit 8 (drop_bit 2 a),
          take_bit 8 (push_bit 1 a) XOR take_bit 8 (push_bit 6 a) XOR (if p then 0x21 else 0)))"
proof -
  have b: "take_bit 8 x AND 0x80 \<noteq> 0 \<longleftrightarrow> bit x 7" for x :: u32
    using and_exp_eq_0_iff_not_bit [of "take_bit 8 x" 7] by (simp add: bit_take_bit_iff)
  show ?thesis unfolding crc_step_def Let_def prod.case and_FF smear_def [symmetric] b by (simp add: xor.assoc del: push_bit_Suc split: if_split)
qed

lemma crc_table_alt:
  "crc_table a = push_bit 8 (take_bit 8 (drop_bit 7 (take_bit 8 a))) XOR push_bit 8 (take_bit 8 (drop_bit 2 (take_bit 8 a))) XOR
     take_bit 8 (push_bit 1 (take_bit 8 a)) XOR take_bit 8 (push_bit 6 (take_bit 8 a)) XOR
     (if bit (smear 4 (smear 2 (smear 1 (take_bit 8 a)))) 7 then 0x800021 else 0)"
proof -
  define p where "p = bit (smear 4 (smear 2 (smear 1 (take_bit 8 a)))) 7"
  have "crc_table a = push_bit 16 (if p then 0x80 else 0) XOR push_bit 8 (take_bit 8 (drop_bit 7 (take_bit 8 a)) XOR take_bit 8 (drop_bit 2 (take_bit 8 a))) XOR
      (take_bit 8 (push_bit 1 (take_bit 8 a)) XOR take_bit 8 (push_bit 6 (take_bit 8 a)) XOR (if p then 0x21 else 0))"
    unfolding crc_table_def crc_step_alt crc_join_def Let_def prod.case p_def by (simp only: ucast_0 xor.left_neutral)
  moreover have "push_bit 16 (if p then 0x80 else 0) XOR (if p then 0x21 else 0) = (if p then 0x800021 else (0 :: u32))"
    by (cases p) simp_all
  moreover have "A XOR (B XOR C) XOR (D XOR E XOR F) = B XOR C XOR D XOR E XOR (A XOR F)" for A B C D E F :: u32 by (simp only: ac_simps)
  ultimately show ?thesis unfolding p_def [symmetric] push_bit_xor by (simp only:)
qed

lemma crc_table_xor: "crc_table (x XOR y) = crc_table x XOR crc_table y"
proof -
  have if_xor: "(if a \<noteq> b then k else 0) = (if a then k else 0) XOR (if b then k else (0 :: u32))" for a b k by simp
  show ?thesis unfolding crc_table_alt take_bit_xor smear_xor push_bit_xor drop_bit_xor bit_xor_iff if_xor by (simp only: ac_simps xor.left_commute)
qed

lemma crc_table_ok: "(vcrc_bit ^^ 8) (push_bit 16 (take_bit 8 a)) = crc_table (take_bit 8 a)"
proof (rule linear_ext [where F = "\<lambda>a. (vcrc_bit ^^ 8) (push_bit 16 a)"])
  fix i :: nat assume "i < 8"
  then consider "i = 0" | "i = 1" | "i = 2" | "i = 3" | "i = 4" | "i = 5" | "i = 6" | "i = 7" by linarith
  then show "(vcrc_bit ^^ 8) (push_bit 16 (push_bit i 1)) = crc_table (push_bit i 1)"
    by cases (simp_all add: funpow_8 vcrc_bit_def crc_table_def crc_join_def crc_step_def Let_def)
qed (simp_all add: push_bit_xor vcrc_bits_xor crc_table_xor)

lemma crc_step_table:
  "crc_step b (c0, c1, c2) = (let (t0, t1, t2) = crc_step 0 (ucast b XOR c0, 0, 0) in (c1 XOR t0, c2 XOR t1, t2))"
  by (simp add: crc_step_alt Let_def)

lemma crc_step_bytes:
  assumes "take_bit 8 c1 = c1" "take_bit 8 c2 = c2" "crc_step b (c0, c1, c2) = (d0, d1, d2)"
  shows "take_bit 8 d0 = d0" "take_bit 8 d1 = d1" "take_bit 8 d2 = d2"
proof -
  have "take_bit 8 (0x80 :: u32) = 0x80" "take_bit 8 (0x21 :: u32) = 0x21" unfolding and_FF [symmetric] by simp_all
  then have k: "take_bit 8 (if p then 0x80 else 0) = (if p then 0x80 else (0 :: u32))" "take_bit 8 (if p then 0x21 else 0) = (if p then 0x21 else (0 :: u32))" for p
    by simp_all
  show "take_bit 8 d0 = d0" "take_bit 8 d1 = d1" "take_bit 8 d2 = d2"
    using assms(3) by (auto simp only: crc_step_alt Let_def take_bit_xor assms(1,2) k take_bit_take_bit min.idem)
qed

lemma byte_bit: "take_bit 8 c = c \<Longrightarrow> bit c n \<Longrightarrow> n < 8" for c :: u32
  by (metis bit_take_bit_iff)

lemma crc_step_join:
  assumes "take_bit 8 c0 = c0" "take_bit 8 c1 = c1" "take_bit 8 c2 = c2"
  shows "crc_join (crc_step b (c0, c1, c2)) = vcrc_byte b (crc_join (c0, c1, c2))"
proof -
  obtain t0 t1 t2 where t: "crc_step 0 (ucast b XOR c0, 0, 0) = (t0, t1, t2)" by (cases "crc_step 0 (ucast b XOR c0, 0, 0)")
  have a: "take_bit 8 (ucast b XOR c0) = ucast b XOR c0"
  proof -
    have "take_bit 8 (ucast b :: u32) = ucast b" by (rule bit_word_eqI) (auto simp: bit_simps dest: bit_imp_le_length)
    then show ?thesis using assms(1) by (simp only: take_bit_xor)
  qed
  have lo: "take_bit 16 (push_bit 8 c1 XOR c2) = push_bit 8 c1 XOR c2" "take_bit 24 (crc_join (c0, c1, c2)) = crc_join (c0, c1, c2)"
    using byte_bit [OF assms(1)] byte_bit [OF assms(2)] byte_bit [OF assms(3)]
    by (auto intro!: bit_word_eqI simp: crc_join_def bit_simps) (fastforce dest: bit_imp_le_length)+
  have "(vcrc_bit ^^ 8) (push_bit 8 c1 XOR c2) = push_bit 8 (push_bit 8 c1 XOR c2)"
    by (rule vcrc_bits_shift [of 8 16 "push_bit 8 c1 XOR c2", unfolded lo(1)]) simp
  then have "vcrc_byte b (crc_join (c0, c1, c2)) = (vcrc_bit ^^ 8) (push_bit 16 c0) XOR push_bit 8 (push_bit 8 c1 XOR c2) XOR (vcrc_bit ^^ 8) (push_bit 16 (ucast b))"
    unfolding vcrc_byte_alt lo(2) by (simp only: crc_join_def prod.case vcrc_bits_xor xor.assoc)
  also have "\<dots> = (vcrc_bit ^^ 8) (push_bit 16 (ucast b XOR c0)) XOR push_bit 8 (push_bit 8 c1 XOR c2)"
    by (simp only: push_bit_xor vcrc_bits_xor ac_simps)
  also have "(vcrc_bit ^^ 8) (push_bit 16 (ucast b XOR c0)) = crc_table (ucast b XOR c0)"
    by (rule crc_table_ok [of "ucast b XOR c0", unfolded a])
  also have "\<dots> = push_bit 16 t0 XOR push_bit 8 t1 XOR t2" by (simp only: crc_table_def t crc_join_def prod.case)
  also have "\<dots> XOR push_bit 8 (push_bit 8 c1 XOR c2) = crc_join (c1 XOR t0, c2 XOR t1, t2)"
    by (simp add: crc_join_def push_bit_xor ac_simps)
  finally show ?thesis by (simp add: crc_step_table [of b c0 c1 c2] t)
qed

section \<open>Whole ranges\<close>

lemma vcrc_bytes_append: "vcrc_bytes (n + k) m a c = vcrc_bytes k m (a + of_nat n) (vcrc_bytes n m a c)"
  by (induction n arbitrary: a c) (simp_all add: ac_simps)

lemma vcrc_bytes_cong: "(\<And>i. i < n \<Longrightarrow> m' (a + of_nat i) = m (a + of_nat i)) \<Longrightarrow> vcrc_bytes n m' a c = vcrc_bytes n m a c"
proof (induction n arbitrary: a c)
  case (Suc n)
  have "m' (a + 1 + of_nat i) = m (a + 1 + of_nat i)" if "i < n" for i using Suc.prems [of "Suc i"] that by (simp add: ac_simps)
  then show ?case using Suc.IH [of "a + 1"] Suc.prems [of 0] by simp
qed simp

lemma crc_steps_join:
  assumes "take_bit 8 c0 = c0" "take_bit 8 c1 = c1" "take_bit 8 c2 = c2"
  shows "\<exists>d0 d1 d2. crc_steps n m a (c0, c1, c2) = (d0, d1, d2) \<and> take_bit 8 d0 = d0 \<and> take_bit 8 d1 = d1 \<and> take_bit 8 d2 = d2 \<and>
    crc_join (d0, d1, d2) = vcrc_bytes n m a (crc_join (c0, c1, c2))"
  using assms
proof (induction n arbitrary: a c0 c1 c2)
  case (Suc n)
  obtain e0 e1 e2 where e: "crc_step (m a) (c0, c1, c2) = (e0, e1, e2)" by (cases "crc_step (m a) (c0, c1, c2)")
  have "crc_join (e0, e1, e2) = vcrc_byte (m a) (crc_join (c0, c1, c2))" using crc_step_join [OF Suc.prems, of "m a"] e by simp
  then show ?case using Suc.IH [OF crc_step_bytes [OF Suc.prems(2,3) e], of "a + 1"] e by simp
qed simp

lemma join_or:
  assumes "take_bit 8 c0 = c0" "take_bit 8 c1 = c1" "take_bit 8 c2 = c2"
  shows "push_bit 16 c0 OR push_bit 8 c1 OR c2 = crc_join (c0, c1, c2)"
  using byte_bit [OF assms(1)] byte_bit [OF assms(2)] byte_bit [OF assms(3)]
  by (intro bit_word_eqI) (fastforce simp: crc_join_def bit_simps)

text \<open>The bytewise CRC of F$CRC, which runs through three accumulator bytes and a parity trick, is
  the bit-serial CRC with the polynomial 0x800063 that the validation of modules uses, for every memory,
  range and start value; the top byte of the accumulator is ignored.\<close>

lemma crc_bytewise:
  "Q9K_CrcAccumulate m accum addr count = vcrc_bytes (unat count) m addr (accum AND 0xFFFFFF)"
proof -
  define c0 c1 c2 where "c0 = take_bit 8 (drop_bit 16 accum)" and "c1 = take_bit 8 (drop_bit 8 accum)" and "c2 = take_bit 8 accum"
  have c: "take_bit 8 c0 = c0" "take_bit 8 c1 = c1" "take_bit 8 c2 = c2" by (simp_all add: c0_def c1_def c2_def)
  have j: "crc_join (c0, c1, c2) = accum AND 0xFFFFFF"
    unfolding mask24 take_bit_eq_mask [symmetric]
    by (rule bit_word_eqI) (auto simp: crc_join_def c0_def c1_def c2_def bit_simps)
  from crc_steps_join [OF c, of "unat count" m addr] obtain d0 d1 d2 where
    "crc_steps (unat count) m addr (c0, c1, c2) = (d0, d1, d2)" "take_bit 8 d0 = d0" "take_bit 8 d1 = d1" "take_bit 8 d2 = d2"
    "crc_join (d0, d1, d2) = vcrc_bytes (unat count) m addr (accum AND 0xFFFFFF)" unfolding j by blast
  then show ?thesis using join_or [of d0 d1 d2] by (simp add: Q9K_CrcAccumulate_def and_FF c0_def c1_def c2_def)
qed

section \<open>Setting the check values\<close>

lemma vcrc_bits_24: "take_bit 24 x = x \<Longrightarrow> take_bit 24 ((vcrc_bit ^^ n) x) = (vcrc_bit ^^ n) x"
proof (induction n)
  case (Suc n)
  have "take_bit 24 (vcrc_bit y) = vcrc_bit y" for y
  proof -
    have "take_bit 24 (if p then 0x800063 else 0 :: u32) = (if p then 0x800063 else 0)" for p
      unfolding take_bit_eq_mask mask24 [symmetric] by simp
    then show ?thesis unfolding vcrc_bit_alt take_bit_xor by simp
  qed
  then show ?case by simp
qed simp

lemma vcrc_byte_24:
  "take_bit 24 x = x \<Longrightarrow> vcrc_byte b x = (vcrc_bit ^^ 8) (x XOR push_bit 16 (ucast b))"
  "take_bit 24 x = x \<Longrightarrow> take_bit 24 (vcrc_byte b x) = vcrc_byte b x"
proof -
  have b: "take_bit 24 (push_bit 16 (ucast b) :: u32) = push_bit 16 (ucast b)"
    by (rule bit_word_eqI) (auto simp: bit_simps dest: bit_imp_le_length)
  show e: "vcrc_byte b x = (vcrc_bit ^^ 8) (x XOR push_bit 16 (ucast b))" if "take_bit 24 x = x"
    using that by (simp only: vcrc_byte_alt vcrc_bits_xor)
  show "take_bit 24 (vcrc_byte b x) = vcrc_byte b x" if "take_bit 24 x = x"
    unfolding e [OF that] by (rule vcrc_bits_24) (simp only: take_bit_xor that b)
qed

lemma vcrc_bytes_24: "take_bit 24 c = c \<Longrightarrow> take_bit 24 (vcrc_bytes n m a c) = vcrc_bytes n m a c"
  by (induction n arbitrary: a c) (simp_all add: vcrc_byte_24(2))

lemma funpow_24: "(vcrc_bit ^^ 24) x = (vcrc_bit ^^ 8) ((vcrc_bit ^^ 8) ((vcrc_bit ^^ 8) x))"
  using funpow_add [of 8 16 vcrc_bit] funpow_add [of 8 8 vcrc_bit] by simp

text \<open>Three bytes shift straight through the register.\<close>

lemma vcrc_three:
  assumes "take_bit 24 c = c"
  shows "vcrc_byte b2 (vcrc_byte b1 (vcrc_byte b0 c)) =
    (vcrc_bit ^^ 24) (c XOR push_bit 16 (ucast b0) XOR push_bit 8 (ucast b1) XOR ucast b2)"
proof -
  let ?F = "vcrc_bit ^^ 8"
  have t: "take_bit 8 (ucast b :: u32) = ucast b" "take_bit 16 (push_bit 8 (ucast b) :: u32) = push_bit 8 (ucast b)" for b :: u8
    by (rule bit_word_eqI, auto simp: bit_simps dest: bit_imp_le_length)+
  have s1: "?F (push_bit 8 (ucast b)) = push_bit 16 (ucast b)" for b :: u8
    using vcrc_bits_shift [of 8 16 "push_bit 8 (ucast b)"] unfolding t(2) by simp
  have s2: "?F (ucast b) = push_bit 8 (ucast b)" for b :: u8
    using vcrc_bits_shift [of 8 8 "ucast b"] unfolding t(1) by simp
  have 0: "vcrc_byte b0 c = ?F (c XOR push_bit 16 (ucast b0))" by (rule vcrc_byte_24(1) [OF assms])
  have 1: "vcrc_byte b1 (vcrc_byte b0 c) = ?F (vcrc_byte b0 c XOR push_bit 16 (ucast b1))"
    by (rule vcrc_byte_24(1) [OF vcrc_byte_24(2) [OF assms]])
  have 2: "vcrc_byte b2 (vcrc_byte b1 (vcrc_byte b0 c)) = ?F (vcrc_byte b1 (vcrc_byte b0 c) XOR push_bit 16 (ucast b2))"
    by (rule vcrc_byte_24(1) [OF vcrc_byte_24(2) [OF vcrc_byte_24(2) [OF assms]]])
  have "vcrc_byte b2 (vcrc_byte b1 (vcrc_byte b0 c)) = ?F (?F (?F (c XOR push_bit 16 (ucast b0) XOR push_bit 8 (ucast b1) XOR ucast b2)))"
    unfolding 2 unfolding 1 unfolding 0 by (simp only: vcrc_bits_xor s1 s2 xor.assoc)
  then show ?thesis by (simp only: funpow_24)
qed

lemma crc_residue: "(vcrc_bit ^^ 24) 0xFFFFFF = 0x800FE3"
proof -
  have "(vcrc_bit ^^ 8) 0xFFFFFF = 0xFFC13E" "(vcrc_bit ^^ 8) 0xFFC13E = 0xC1003E" "(vcrc_bit ^^ 8) 0xC1003E = 0x800FE3"
    by (simp_all add: funpow_8 vcrc_bit_def)
  then show ?thesis unfolding funpow_24 by (simp only:)
qed

lemma vcrc_complement:
  assumes "take_bit 24 c = c"
  shows "vcrc_byte (ucast ((c AND 0xFF) XOR 0xFF)) (vcrc_byte (ucast ((drop_bit 8 c AND 0xFF) XOR 0xFF))
    (vcrc_byte (ucast ((drop_bit 16 c AND 0xFF) XOR 0xFF)) c)) = 0x800FE3"
proof -
  have m8: "(0xFF :: u32) = mask 8" by (simp add: mask_eq_exp_minus_1)
  have b: "bit c n \<Longrightarrow> n < 24" for n using assms by (metis bit_take_bit_iff)
  have "c XOR push_bit 16 (ucast (ucast ((drop_bit 16 c AND 0xFF) XOR 0xFF) :: u8)) XOR push_bit 8 (ucast (ucast ((drop_bit 8 c AND 0xFF) XOR 0xFF) :: u8)) XOR
      ucast (ucast ((c AND 0xFF) XOR 0xFF) :: u8) = (0xFFFFFF :: u32)"
    unfolding mask24 m8 by (rule bit_word_eqI) (auto simp: bit_simps dest: b)
  then show ?thesis unfolding vcrc_three [OF assms] by (simp only: crc_residue)
qed

lemma header_xor_append: "header_xor (n + k) m a c = header_xor k m (a + 2 * of_nat n) (header_xor n m a c)"
  by (induction n arbitrary: a c) (simp_all add: ac_simps)

lemma header_xor_cong: "(\<And>i. i < 2 * n \<Longrightarrow> m' (a + of_nat i) = m (a + of_nat i)) \<Longrightarrow> header_xor n m' a c = header_xor n m a c"
proof (induction n arbitrary: a c)
  case (Suc n)
  have "m' (a + 2 + of_nat i) = m (a + 2 + of_nat i)" if "i < 2 * n" for i using Suc.prems [of "i + 2"] that by (simp add: ac_simps)
  then show ?case using Suc.IH [of "a + 2"] Suc.prems [of 0] Suc.prems [of 1] by (simp add: Q9K_ReadU16BE_def)
qed simp

text \<open>The header parity and the CRC are written outside what they protect.\<close>

lemma put_parity_outside: "b \<noteq> a + 0x2E \<Longrightarrow> b \<noteq> a + 0x2F \<Longrightarrow> put_parity m a b = m b"
  by (auto simp: put_parity_def Let_def Q9K_SetU8_def add.commute)

lemma put_crc_outside:
  "b \<noteq> a + (n - 3) \<Longrightarrow> b \<noteq> a + (n - 2) \<Longrightarrow> b \<noteq> a + (n - 1) \<Longrightarrow> put_crc m a n b = m b"
  by (simp add: put_crc_def Let_def Q9K_SetU8_def)

lemma put_parity_xor: "header_xor 24 (put_parity m a) a 0 = 0xFFFF"
proof -
  let ?m = "put_parity m a" and ?p = "NOT (header_xor 23 m a 0)"
  have "header_xor 23 ?m a 0 = header_xor 23 m a 0"
    by (rule header_xor_cong, rule put_parity_outside) (auto simp: word_unat_eq_iff [of "of_nat _ :: u32"] unat_of_nat_u32)
  moreover have "Q9K_ReadU16BE ?m (a + 0x2E) = ?p"
  proof -
    have "Q9K_ReadU16BE ?m (a + 0x2E) = push_bit 8 (ucast (ucast (drop_bit 8 ?p) :: u8)) OR ucast (ucast ?p :: u8)"
      by (simp add: Q9K_ReadU16BE_def put_parity_def Let_def Q9K_SetU8_def)
    also have "\<dots> = ?p" by (rule bit_word_eqI) (auto simp: bit_simps)
    finally show ?thesis .
  qed
  moreover have "header_xor 24 ?m a 0 = header_xor 23 ?m a 0 XOR Q9K_ReadU16BE ?m (a + 0x2E)"
    using header_xor_append [of 23 1 ?m a 0] by simp
  ultimately show ?thesis by simp
qed

lemma put_crc_ok:
  assumes "3 \<le> unat n" "unat a + unat n \<le> 2 ^ 32"
  shows "vcrc_bytes (unat n) (put_crc m a n) a 0xFFFFFF = 0x800FE3"
proof -
  let ?m = "put_crc m a n"
  define k where "k = unat n - 3"
  have n: "unat n = k + 3" "n = of_nat k + 3" "n - 3 = of_nat k" "n - 2 = of_nat k + 1" "n - 1 = of_nat k + 2" "unat (n - 3) = k"
  proof -
    show "unat n = k + 3" using assms(1) by (simp add: k_def)
    then have "n = of_nat (k + 3)" by (metis of_nat_unat ucast_id)
    then show *: "n = of_nat k + 3" by simp
    show "n - 3 = of_nat k" "n - 2 = of_nat k + 1" "n - 1 = of_nat k + 2" by (simp_all add: *)
    then show "unat (n - 3) = k" using unat_of_nat_u32 [of k] assms(1) unat_u32_less [of n] by (simp add: k_def)
  qed
  define c where "c = vcrc_bytes k m a 0xFFFFFF"
  have "take_bit 24 (0xFFFFFF :: u32) = 0xFFFFFF" unfolding mask24 by simp
  then have c24: "take_bit 24 c = c" unfolding c_def by (rule vcrc_bytes_24)
  have cc: "Q9K_CrcAccumulate m 0xFFFFFFFF a (n - 3) = c"
    using crc_bytewise [where accum = "0xFFFFFFFF" and m = m and addr = a and count = "n - 3"] n(6) by (simp add: c_def)
  have lt: "k + 2 < 2 ^ 32" using unat_u32_less [of n] n(1) by simp
  have "of_nat i \<noteq> (of_nat k + of_nat j :: u32)" if "i < k" "j < 3" for i j
  proof
    assume "of_nat i = (of_nat k + of_nat j :: u32)"
    then have "unat (of_nat i :: u32) = unat (of_nat (k + j) :: u32)" by simp
    then show False using that lt unat_of_nat_u32 [of i] unat_of_nat_u32 [of "k + j"] by simp
  qed
  from this [of _ 0] this [of _ 1] this [of _ 2] have "vcrc_bytes k ?m a 0xFFFFFF = c"
    unfolding c_def by (intro vcrc_bytes_cong put_crc_outside) (simp_all add: n(3-5))
  moreover have "?m (a + of_nat k) = ucast ((drop_bit 16 c AND 0xFF) XOR 0xFF)" "?m (a + of_nat k + 1) = ucast ((drop_bit 8 c AND 0xFF) XOR 0xFF)"
    "?m (a + of_nat k + 1 + 1) = ucast ((c AND 0xFF) XOR 0xFF)"
    unfolding put_crc_def Let_def Q9K_SetU8_def n(3-5) cc [unfolded n(3)] by (simp_all add: add.assoc)
  moreover have "vcrc_bytes (unat n) ?m a 0xFFFFFF = vcrc_bytes 3 ?m (a + of_nat k) (vcrc_bytes k ?m a 0xFFFFFF)"
    unfolding n(1) by (rule vcrc_bytes_append)
  ultimately show ?thesis using vcrc_complement [OF c24] by (simp add: numeral_3_eq_3)
qed

section \<open>Properties\<close>

text \<open>C21: the bytewise CRC of F$CRC, which runs through three accumulator bytes and a parity trick, is
  the bit-serial CRC with the polynomial 0x800063 that the validation of modules uses, for every memory,
  range and start value; the top byte of the accumulator is ignored.\<close>

theorem crc_equivalence:
  "Q9K_CrcAccumulate m accum addr count = vcrc_bytes (unat count) m addr (accum AND 0xFFFFFF)"
  by (rule crc_bytewise)

text \<open>A module with both check values passes the validation.\<close>

lemma put_checks_enter:
  assumes a: "a \<noteq> 0" "m a = 0x4A" "m (a + 1) = 0xFC" "\<not> n < 0x33" and m': "m' = put_crc (put_parity m a) a n"
    and n: "n = Q9K_ReadU32BE m (a + Q9K_MH_SIZE)" and b: "unat a + unat n \<le> 2 ^ 32"
  shows "Q9K_ModDirValidateAndAdd m' a n = (let (slot, m1) = Q9K_ModDirAdd m' a in if slot = 0 then Inl Q9K_E_MEMFUL
      else Inr (Q9K_VMODUL_RETBUF, Q9K_SetU16 (Q9K_SetU16 (Q9K_SetU32 m1 Q9K_VMODUL_RETBUF a) (Q9K_VMODUL_RETBUF + 0x0C) 0)
        (Q9K_VMODUL_RETBUF + 0x12) (Q9K_GetU16BE m' (a + Q9K_MH_TYLANG))))"
    and "x \<notin> {a + 0x2E, a + 0x2F, a + (n - 3), a + (n - 2), a + (n - 1)} \<Longrightarrow> m' x = m x"
    and "i < 0x2E \<Longrightarrow> m' (a + of_nat i) = m (a + of_nat i)"
proof -
  have out: "m' x = m x" if "x \<notin> {a + 0x2E, a + 0x2F, a + (n - 3), a + (n - 2), a + (n - 1)}" for x
    using that unfolding m' by (simp add: put_crc_outside put_parity_outside)
  have n33: "0x33 \<le> unat n" using a(4) by (simp add: word_less_nat_alt)
  have hdr: "a + of_nat i \<notin> {a + (n - 3), a + (n - 2), a + (n - 1)}" if "i < 0x30" for i
  proof -
    have "unat (n - 3) = unat n - 3" "unat (n - 2) = unat n - 2" "unat (n - 1) = unat n - 1"
      using n33 by (simp_all add: unat_sub word_le_nat_alt)
    moreover have "unat (of_nat i :: u32) = i" using that by (simp add: unat_of_nat_u32)
    ultimately have "of_nat i \<noteq> n - 3" "of_nat i \<noteq> n - 2" "of_nat i \<noteq> n - 1" using that n33 by auto
    then show ?thesis by simp
  qed
  have same: "m' (a + of_nat i) = put_parity m a (a + of_nat i)" if "i < 0x30" for i
    using hdr [OF that] unfolding m' by (intro put_crc_outside) simp_all
  have "header_xor 24 m' a 0 = header_xor 24 (put_parity m a) a 0" by (rule header_xor_cong) (use same in simp)
  then have par: "header_xor 24 m' a 0 = 0xFFFF" by (simp only: put_parity_xor)
  have keep: "m' (a + of_nat i) = m (a + of_nat i)" if "i < 0x2E" for i
    using same [of i] that put_parity_outside [of "a + of_nat i" a m] by (auto simp: word_unat_eq_iff [of "of_nat _ :: u32"] unat_of_nat_u32)
  have sz: "Q9K_ReadU32BE m' (a + Q9K_MH_SIZE) = n"
    using keep [of 4] keep [of 5] keep [of 6] keep [of 7] by (simp add: Q9K_ReadU32BE_def n add.assoc)
  have sync: "Q9K_CheckSyncWord m' a n"
    using keep [of 0] keep [of 1] a by (simp add: Q9K_CheckSyncWord_def Q9K_ReadU16BE_def) (simp add: word_less_nat_alt)
  have crc: "vcrc_bytes (unat n) m' a 0xFFFFFF = 0x800FE3" unfolding m' using n33 b by (intro put_crc_ok) simp_all
  have big: "\<not> n < 0x30" using n33 by (simp add: word_less_nat_alt)
  show "Q9K_ModDirValidateAndAdd m' a n = (let (slot, m1) = Q9K_ModDirAdd m' a in if slot = 0 then Inl Q9K_E_MEMFUL
      else Inr (Q9K_VMODUL_RETBUF, Q9K_SetU16 (Q9K_SetU16 (Q9K_SetU32 m1 Q9K_VMODUL_RETBUF a) (Q9K_VMODUL_RETBUF + 0x0C) 0)
        (Q9K_VMODUL_RETBUF + 0x12) (Q9K_GetU16BE m' (a + Q9K_MH_TYLANG))))"
    unfolding Q9K_ModDirValidateAndAdd_def Q9K_ValidModuleHeader_def Let_def sz using a(1) sync par crc big by simp
  show "x \<notin> {a + 0x2E, a + 0x2F, a + (n - 3), a + (n - 2), a + (n - 1)} \<Longrightarrow> m' x = m x" by (rule out)
  show "i < 0x2E \<Longrightarrow> m' (a + of_nat i) = m (a + of_nat i)" by (rule keep)
qed

lemma put_checks_valid:
  assumes a: "a \<noteq> 0" "m a = 0x4A" "m (a + 1) = 0xFC" "\<not> n < 0x33" and m': "m' = put_crc (put_parity m a) a n"
    and n: "n = Q9K_ReadU32BE m (a + Q9K_MH_SIZE)" and b: "unat a + unat n \<le> 2 ^ 32"
  shows "(case Q9K_ModDirValidateAndAdd m' a n of Inl e \<Rightarrow> e = Q9K_E_MEMFUL \<and> Q9K_GetU32 m' Q9K_MODDIR_FREE_ADDR = 0
      | Inr (entry, _) \<Rightarrow> entry = Q9K_VMODUL_RETBUF) \<and>
    (\<forall>x. x \<notin> {a + 0x2E, a + 0x2F, a + (n - 3), a + (n - 2), a + (n - 1)} \<longrightarrow> m' x = m x)"
  using put_checks_enter [OF assms]
  by (auto simp: Q9K_ModDirAdd_def Q9K_ModDirPoolAlloc_def Let_def split: if_splits)






end
