(* ===== verification/Q9_TrapLink.thy ===== *)
theory Q9_TrapLink
  imports Q9_ModDir Q9_SysMem Q9_Icpt
begin

text \<open>
  User trap handlers (\<^verbatim>\<open>q9kernel_traplink.c\<close>): the table of 15 handlers in the process descriptor, F$TLink,
  and the initialised data of a module (M$IData, M$IRefs) that is copied and relocated into a data
  block.  The loops over the two tables end because the rest of the module shrinks.
\<close>

abbreviation Q9K_MH_EXEC :: u32 where "Q9K_MH_EXEC \<equiv> 0x30"
abbreviation Q9K_MH_MEM :: u32 where "Q9K_MH_MEM \<equiv> 0x38"
abbreviation Q9K_MH_INIT :: u32 where "Q9K_MH_INIT \<equiv> 0x48"
abbreviation Q9K_MH_IDATA :: u32 where "Q9K_MH_IDATA \<equiv> 0x40"
abbreviation Q9K_MH_IREFS :: u32 where "Q9K_MH_IREFS \<equiv> 0x44"
abbreviation Q9K_PROCDESC_TRAPTBL_OFF :: u32 where "Q9K_PROCDESC_TRAPTBL_OFF \<equiv> 0x1CC"
abbreviation Q9K_TRAPTBL_ENTRY_SIZE :: u32 where "Q9K_TRAPTBL_ENTRY_SIZE \<equiv> 12"
abbreviation Q9K_TRAPTBL_OFF_MODPTR :: u32 where "Q9K_TRAPTBL_OFF_MODPTR \<equiv> 0"
abbreviation Q9K_TRAPTBL_OFF_EXECENTRY :: u32 where "Q9K_TRAPTBL_OFF_EXECENTRY \<equiv> 4"
abbreviation Q9K_TRAPTBL_OFF_STATICPTR :: u32 where "Q9K_TRAPTBL_OFF_STATICPTR \<equiv> 8"
abbreviation Q9K_TRAPTBL_SIZE_BASE :: u32 where "Q9K_TRAPTBL_SIZE_BASE \<equiv> 0x280"
abbreviation Q9K_ERR_BMID :: u16 where "Q9K_ERR_BMID \<equiv> 0xCD"
abbreviation Q9K_ERR_MODBSY :: u16 where "Q9K_ERR_MODBSY \<equiv> 0xD1"
abbreviation Q9K_ERR_MNF :: u16 where "Q9K_ERR_MNF \<equiv> 0xDD"
abbreviation Q9K_ERR_PARAM :: u16 where "Q9K_ERR_PARAM \<equiv> 0xE1"

section \<open>Initialised data\<close>

definition Q9K_TLinkReadU32BE :: "memory \<Rightarrow> u32 \<Rightarrow> u32" where
  "Q9K_TLinkReadU32BE m p =
     push_bit 24 (ucast (m p)) OR push_bit 16 (ucast (m (p + 1))) OR
     push_bit 8 (ucast (m (p + 2))) OR ucast (m (p + 3))"

definition Q9K_TLinkReadU16BE :: "memory \<Rightarrow> u32 \<Rightarrow> u16" where
  "Q9K_TLinkReadU16BE m p = push_bit 8 (ucast (m p)) OR ucast (m (p + 1))"

text \<open>Copying M$IData: \<open>p\<close> runs up to \<open>endp\<close>; the flag tells whether every entry was in bounds.\<close>

lemma idata_progress:
  "\<not> 8 > e - p \<Longrightarrow> \<not> count > e - p - 8 \<Longrightarrow> unat (e - (p + 8 + count)) < unat (e - p)" for e p count :: u32
proof -
  assume a: "\<not> 8 > e - p" "\<not> count > e - p - 8"
  have e: "e - (p + 8 + count) = e - p - 8 - count" by simp
  have "unat (e - p - 8 - count) = unat (e - p - 8) - unat count"
    using a(2) by (intro unat_sub) (simp add: not_less)
  moreover have "unat (e - p - 8) = unat (e - p) - 8" using a(1) unat_sub [of 8 "e - p"] by (simp add: not_less)
  moreover have "8 \<le> unat (e - p)" using a(1) by (simp add: word_less_nat_alt)
  ultimately show ?thesis unfolding e by simp
qed

function apply_idata :: "u32 \<Rightarrow> u32 \<Rightarrow> u32 \<Rightarrow> memory \<Rightarrow> u32 \<Rightarrow> bool \<times> memory" where
  "apply_idata endp block blockSize m p =
     (if endp - p < 8 then (True, m)
      else
        let dstOff = Q9K_TLinkReadU32BE m p;
            count = Q9K_TLinkReadU32BE m (p + 4)
        in if count > endp - p - 8 then (False, m)
           else if dstOff > blockSize \<or> count > blockSize - dstOff then (False, m)
           else apply_idata endp block blockSize (copy_bytes (unat count) m (block + dstOff) (p + 8)) (p + 8 + count))"
  by pat_completeness auto
termination
  by (relation "measure (\<lambda>(endp, _, _, _, p). unat (endp - p))") (simp_all add: idata_progress)

declare apply_idata.simps [simp del]

text \<open>One run of M$IRefs: \<open>count\<close> longwords of the block are relocated.\<close>

definition reloc_field :: "u32 \<Rightarrow> memory \<Rightarrow> u32 \<Rightarrow> memory" where
  "reloc_field relocBase m fieldAddr =
     (let newVal = Q9K_TLinkReadU32BE m fieldAddr + relocBase in
      Q9K_SetU8 (Q9K_SetU8 (Q9K_SetU8 (Q9K_SetU8 m fieldAddr (ucast (drop_bit 24 newVal)))
        (fieldAddr + 1) (ucast (drop_bit 16 newVal))) (fieldAddr + 2) (ucast (drop_bit 8 newVal)))
        (fieldAddr + 3) (ucast newVal))"

fun apply_run :: "nat \<Rightarrow> u32 \<Rightarrow> u32 \<Rightarrow> u32 \<Rightarrow> u32 \<Rightarrow> memory \<Rightarrow> u32 \<Rightarrow> bool \<times> memory" where
  "apply_run 0 ms block blockSize relocBase m p = (True, m)"
| "apply_run (Suc n) ms block blockSize relocBase m p =
     (let fieldOff = push_bit 16 ms OR ucast (Q9K_TLinkReadU16BE m p) in
      if fieldOff > blockSize \<or> blockSize - fieldOff < 4 then (False, m)
      else apply_run n ms block blockSize relocBase (reloc_field relocBase m (block + fieldOff)) (p + 2))"

lemma irefs_progress:
  "\<not> e - p < 4 \<Longrightarrow> \<not> count > (e - (p + 4)) div 2 \<Longrightarrow> unat (e - (p + 4 + 2 * count)) < unat (e - p)" for e p count :: u32
proof -
  assume a: "\<not> e - p < 4" "\<not> count > (e - (p + 4)) div 2"
  have 1: "unat (e - p - 4) = unat (e - p) - 4" using a(1) unat_sub [of 4 "e - p"] by (simp add: not_less)
  have b: "2 * unat count \<le> unat (e - p - 4)"
    using a(2) by (simp add: word_less_nat_alt unat_div diff_diff_eq)
  have "unat (2 * count) = 2 * unat count"
    using b unat_u32_less [of "e - p - 4"] unat_mult_lem [of 2 count] by simp
  then have "unat (e - p - 4 - 2 * count) = unat (e - p - 4) - 2 * unat count"
    using b by (subst unat_sub) (simp_all add: word_le_nat_alt)
  moreover have e: "e - (p + 4 + 2 * count) = e - p - 4 - 2 * count" by simp
  ultimately show ?thesis unfolding e using 1 a(1) by (simp add: word_less_nat_alt)
qed

text \<open>One table of M$IRefs; the result carries the position behind its end mark.\<close>

function apply_table :: "u32 \<Rightarrow> u32 \<Rightarrow> u32 \<Rightarrow> u32 \<Rightarrow> memory \<Rightarrow> u32 \<Rightarrow> bool \<times> memory \<times> u32" where
  "apply_table modEnd block blockSize relocBase m p =
     (if modEnd - p < 4 then (False, m, p)
      else
        let ms = ucast (Q9K_TLinkReadU16BE m p);
            count = ucast (Q9K_TLinkReadU16BE m (p + 2))
        in if ms = 0 \<and> count = 0 then (True, m, p + 4)
           else if count > (modEnd - (p + 4)) div 2 then (False, m, p + 4)
           else
             let ok = fst (apply_run (unat count) ms block blockSize relocBase m (p + 4));
                 m' = snd (apply_run (unat count) ms block blockSize relocBase m (p + 4))
             in if \<not> ok then (False, m', p + 4)
                else apply_table modEnd block blockSize relocBase m' (p + 4 + 2 * count))"
  by pat_completeness auto
termination
  by (relation "measure (\<lambda>(modEnd, _, _, _, _, p). unat (modEnd - p))") (simp_all add: irefs_progress)

declare apply_table.simps [simp del]

definition Q9K_ApplyInitializedData :: "memory \<Rightarrow> u32 \<Rightarrow> u32 \<Rightarrow> u32 \<Rightarrow> bool \<times> memory" where
  "Q9K_ApplyInitializedData m hdrAddr block blockSize =
     (let modSize = Q9K_TLinkReadU32BE m (hdrAddr + 4);
          idataOff = Q9K_TLinkReadU32BE m (hdrAddr + Q9K_MH_IDATA);
          irefsOff = Q9K_TLinkReadU32BE m (hdrAddr + Q9K_MH_IREFS);
          modEnd = hdrAddr + modSize
      in if idataOff = 0 \<and> irefsOff = 0 then (True, m)
         else if idataOff \<ge> modSize \<or> irefsOff \<ge> modSize then (False, m)
         else if idataOff \<noteq> 0 \<and> irefsOff \<noteq> 0 \<and> idataOff > irefsOff then (False, m)
         else
           let (ok1, m1) = (if idataOff \<noteq> 0 \<and> irefsOff \<noteq> 0
                            then apply_idata (hdrAddr + irefsOff) block blockSize m (hdrAddr + idataOff) else (True, m))
           in if \<not> ok1 then (False, m1)
              else if irefsOff = 0 then (True, m1)
              else
                let (ok2, m2, p2) = apply_table modEnd block blockSize hdrAddr m1 (hdrAddr + irefsOff) in
                if \<not> ok2 then (False, m2)
                else let (ok3, m3, p3) = apply_table modEnd block blockSize block m2 p2 in (ok3, m3))"

section \<open>F$TLink\<close>

definition trap_slot :: "u32 \<Rightarrow> u32 \<Rightarrow> u32" where
  "trap_slot proc trapNum = proc + Q9K_PROCDESC_TRAPTBL_OFF + (trapNum - 1) * Q9K_TRAPTBL_ENTRY_SIZE"

definition put_trap_slot :: "memory \<Rightarrow> u32 \<Rightarrow> u32 \<Rightarrow> u32 \<Rightarrow> u32 \<Rightarrow> u32 \<Rightarrow> u32 \<Rightarrow> memory" where
  "put_trap_slot m proc trapNum modPtr execEntry staticPtr memSize =
     Q9K_SetU32 (Q9K_SetU32 (Q9K_SetU32 (Q9K_SetU32 m (trap_slot proc trapNum + Q9K_TRAPTBL_OFF_MODPTR) modPtr)
       (trap_slot proc trapNum + Q9K_TRAPTBL_OFF_EXECENTRY) execEntry)
       (trap_slot proc trapNum + Q9K_TRAPTBL_OFF_STATICPTR) staticPtr)
       (proc + Q9K_TRAPTBL_SIZE_BASE + (trapNum - 1) * 4) memSize"

text \<open>Removing a handler: the module link and the static block go back, the slot is cleared.\<close>

definition trap_remove :: "memory \<Rightarrow> u32 \<Rightarrow> u32 \<Rightarrow> memory option" where
  "trap_remove m proc trapNum = do {
     let oldMod = Q9K_GetU32 m (trap_slot proc trapNum + Q9K_TRAPTBL_OFF_MODPTR);
     let oldStatic = Q9K_GetU32 m (trap_slot proc trapNum + Q9K_TRAPTBL_OFF_STATICPTR);
     let oldSize = Q9K_GetU32 m (proc + Q9K_TRAPTBL_SIZE_BASE + (trapNum - 1) * 4);
     m1 \<leftarrow> (if oldMod \<noteq> 0 then map_option snd (Q9K_ModDirUnlinkByHeader m oldMod) else Some m);
     let m2 = (if oldStatic \<noteq> 0 \<and> oldSize \<noteq> 0 then Q9K_ProcSRtMem m1 oldStatic oldSize else m1);
     Some (put_trap_slot m2 proc trapNum 0 0 0 0)
   }"

partial_function (option) past_name :: "memory \<Rightarrow> u32 \<Rightarrow> u32 option" where
  "past_name m p = (if m p \<noteq> 0 then past_name m (p + 1) else Some (p + 1))"

record trap_result =
  outPastName :: u32
  outModPtr :: u32
  outExecEntry :: u32
  outInitEntry :: u32
  outStaticPtr :: u32

text \<open>The memory is part of the result in both cases.\<close>

definition Q9K_ProcTLink :: "memory \<Rightarrow> u32 \<Rightarrow> u32 \<Rightarrow> u32 \<Rightarrow> ((u16 + trap_result) \<times> memory) option" where
  "Q9K_ProcTLink m trapNum memOverride namePtr =
     (if trapNum < 1 \<or> trapNum > 15 then Some (Inl Q9K_ERR_PARAM, m)
      else
        let curProc = Q9K_GetU32 m Q9_D_PROC in
        if namePtr = 0 then do {
          m1 \<leftarrow> trap_remove m curProc trapNum;
          Some (Inr \<lparr>outPastName = 0, outModPtr = 0, outExecEntry = 0, outInitEntry = 0, outStaticPtr = 0\<rparr>, m1)
        }
        else do {
          pastName \<leftarrow> past_name m namePtr;
          if Q9K_GetU32 m (trap_slot curProc trapNum + Q9K_TRAPTBL_OFF_MODPTR) \<noteq> 0 then Some (Inl Q9K_ERR_MODBSY, m)
          else do {
            let (hdr, m1) = Q9K_ModDirLinkByName m 0 namePtr;
            if hdr = 0 then Some (Inl Q9K_ERR_MNF, m1)
            else do {
              let execEntry = hdr + Q9K_TLinkReadU32BE m1 (hdr + Q9K_MH_EXEC);
              let initEntry = hdr + Q9K_TLinkReadU32BE m1 (hdr + Q9K_MH_INIT);
              let memSize = Q9K_TLinkReadU32BE m1 (hdr + Q9K_MH_MEM) + memOverride;
              let res = \<lparr>outPastName = pastName, outModPtr = hdr, outExecEntry = execEntry, outInitEntry = initEntry, outStaticPtr = 0\<rparr>;
              if memSize = 0 then Some (Inr res, put_trap_slot m1 curProc trapNum hdr execEntry 0 0)
              else do {
                r \<leftarrow> Q9K_ProcSRqMem m1 memSize;
                (case r of
                   Inl (memErr, m2) \<Rightarrow> do {
                     (_, m3) \<leftarrow> Q9K_ModDirUnlinkByHeader m2 hdr;
                     Some (Inl memErr, m3)
                   }
                 | Inr (staticPtr, grantedSize, m2) \<Rightarrow> do {
                     let (ok, m3) = Q9K_ApplyInitializedData (zero_bytes (unat grantedSize) m2 staticPtr) hdr staticPtr grantedSize;
                     if \<not> ok then do {
                       (_, m4) \<leftarrow> Q9K_ModDirUnlinkByHeader (Q9K_ProcSRtMem m3 staticPtr grantedSize) hdr;
                       Some (Inl Q9K_ERR_BMID, m4)
                     }
                     else Some (Inr (res\<lparr>outStaticPtr := staticPtr\<rparr>),
                                put_trap_slot m3 curProc trapNum hdr execEntry staticPtr (if staticPtr \<noteq> 0 then grantedSize else 0))
                   })
              }
            }
          }
        })"

definition Q9K_SysTLinkImpl :: "memory \<Rightarrow> memory option" where
  "Q9K_SysTLinkImpl m = do {
     (r, m1) \<leftarrow> Q9K_ProcTLink m (Q9K_GetU32 m 0x1690) (Q9K_GetU32 m 0x1694) (Q9K_GetU32 m 0x1698);
     Some (case r of
       Inr t \<Rightarrow> Q9K_SetU32 (Q9K_SetU32 (Q9K_SetU32 (Q9K_SetU32 (Q9K_SetU32 (Q9K_SetU32 m1 0x169C (outPastName t))
                 0x16A0 (outModPtr t)) 0x16A4 (outExecEntry t)) 0x16A8 (outInitEntry t)) 0x16AC (outStaticPtr t)) 0x16B4 1
     | Inl err \<Rightarrow> Q9K_SetU32 (Q9K_SetU32 m1 0x16B0 (ucast err)) 0x16B4 0)
   }"

fun trap_remove_all :: "u32 list \<Rightarrow> u32 \<Rightarrow> memory \<Rightarrow> memory option" where
  "trap_remove_all [] proc m = Some m"
| "trap_remove_all (t # ts) proc m = do { m1 \<leftarrow> trap_remove m proc t; trap_remove_all ts proc m1 }"

definition Q9K_ProcTrapReleaseAll :: "memory \<Rightarrow> u32 \<Rightarrow> memory option" where
  "Q9K_ProcTrapReleaseAll m proc =
     (if proc = 0 then Some m else trap_remove_all [1, 2, 3, 4, 5, 6, 7, 8, 9, 10, 11, 12, 13, 14, 15] proc m)"

end
