(* ===== verification/Q9_TrapLink_Props.thy ===== *)
theory Q9_TrapLink_Props
  imports Q9_TrapLink
begin

text \<open>
  The initialised data of a module is written into its data block only, whatever the module contains;
  and the handler table of a process shares its first cell with the intercept depth.
\<close>

section \<open>Writes stay in the block\<close>

lemma block_offset: "off \<le> n \<Longrightarrow> k \<le> n - off \<Longrightarrow> i < unat k \<Longrightarrow> off + of_nat i < n" for off n k :: u32
proof -
  assume a: "off \<le> n" "k \<le> n - off" "i < unat k"
  have "unat (n - off) = unat n - unat off" using a(1) by (rule unat_sub)
  then have "unat off + i < unat n" using a by (simp add: word_le_nat_alt)
  moreover have "unat (of_nat i :: u32) = i" using a(3) unat_u32_less [of k] by (intro unat_of_nat_u32) simp
  ultimately show ?thesis using unat_offset [of off "of_nat i"] unat_u32_less [of n] by (simp add: word_less_nat_alt)
qed

lemma copy_in_block:
  assumes "\<And>i. i < n \<Longrightarrow> a \<noteq> block + i" "off \<le> n" "count \<le> n - off"
  shows "copy_bytes (unat count) m (block + off) src a = m a"
proof (rule copy_bytes_outside, intro allI impI)
  fix i assume "i < unat count"
  then have "off + of_nat i < n" using block_offset assms(2,3) by blast
  then show "a \<noteq> block + off + of_nat i" using assms(1) [of "off + of_nat i"] by (simp add: add.assoc)
qed

lemma reloc_in_block:
  assumes "\<And>i. i < n \<Longrightarrow> a \<noteq> block + i" "off \<le> n" "4 \<le> n - off"
  shows "reloc_field b m (block + off) a = m a"
proof -
  have "a \<noteq> block + off + of_nat i" if "i < 4" for i
    using block_offset [OF assms(2,3), of i] that assms(1) [of "off + of_nat i"] by (simp add: add.assoc)
  from this [of 0] this [of 1] this [of 2] this [of 3] show ?thesis
    by (simp add: reloc_field_def Let_def Q9K_SetU8_def)
qed

lemma idata_in_block:
  "(\<And>i. i < n \<Longrightarrow> a \<noteq> block + i) \<Longrightarrow> snd (apply_idata e block n m p) a = m a"
proof (induction e block n m p rule: apply_idata.induct)
  case (1 e block n m p)
  define off count where "off = Q9K_TLinkReadU32BE m p" and "count = Q9K_TLinkReadU32BE m (p + 4)"
  show ?case
  proof (cases "e - p < 8 \<or> count > e - p - 8 \<or> off > n \<or> count > n - off")
    case True
    then show ?thesis by (subst apply_idata.simps) (auto simp: off_def count_def Let_def)
  next
    case False
    then have "snd (apply_idata e block n m p) = snd (apply_idata e block n (copy_bytes (unat count) m (block + off) (p + 8)) (p + 8 + count))"
      by (subst apply_idata.simps) (simp add: off_def count_def Let_def)
    moreover have "copy_bytes (unat count) m (block + off) (p + 8) a = m a"
      using False by (intro copy_in_block 1(2)) (auto simp: not_less)
    ultimately show ?thesis using 1(1) [OF _ off_def count_def] False 1(2) by simp
  qed
qed

lemma run_in_block:
  "(\<And>i. i < n \<Longrightarrow> a \<noteq> block + i) \<Longrightarrow> snd (apply_run k ms block n b m p) a = m a"
proof (induction k arbitrary: m p)
  case (Suc k)
  then show ?case using reloc_in_block [OF Suc.prems, where off = "push_bit 16 ms OR ucast (Q9K_TLinkReadU16BE m p)" and b = b and m = m]
    by (auto simp: Let_def not_less)
qed simp

lemma table_in_block:
  "(\<And>i. i < n \<Longrightarrow> a \<noteq> block + i) \<Longrightarrow> fst (snd (apply_table e block n b m p)) a = m a"
proof (induction e block n b m p rule: apply_table.induct)
  case (1 e block n b m p)
  define ms count :: u32 where "ms = ucast (Q9K_TLinkReadU16BE m p)" and "count = ucast (Q9K_TLinkReadU16BE m (p + 2))"
  define ok m' where "ok = fst (apply_run (unat count) ms block n b m (p + 4))" and "m' = snd (apply_run (unat count) ms block n b m (p + 4))"
  have r: "m' a = m a" unfolding m'_def by (rule run_in_block [OF 1(2)])
  show ?case
  proof (cases "e - p < 4 \<or> (ms = 0 \<and> count = 0) \<or> count > (e - (p + 4)) div 2 \<or> \<not> ok")
    case True
    then show ?thesis using r by (subst apply_table.simps) (auto simp: Let_def ms_def [symmetric] count_def [symmetric] ok_def [symmetric] m'_def [symmetric])
  next
    case False
    then have "apply_table e block n b m p = apply_table e block n b m' (p + 4 + 2 * count)"
      by (subst apply_table.simps) (auto simp: Let_def ms_def [symmetric] count_def [symmetric] ok_def [symmetric] m'_def [symmetric])
    then show ?thesis using 1(1) [OF _ ms_def count_def _ _ ok_def m'_def] False 1(2) r by auto
  qed
qed

text \<open>C29: applying the initialised data of a module changes no byte outside the given data block,
  whatever offsets, counts and relocation runs the module contains and whether or not it is refused.\<close>

theorem initdata_in_block:
  assumes out: "\<And>i. i < blockSize \<Longrightarrow> a \<noteq> block + i"
  shows "snd (Q9K_ApplyInitializedData m hdrAddr block blockSize) a = m a"
proof -
  have i': "apply_idata e block blockSize m p = (ok, m') \<Longrightarrow> m' a = m a" for e p ok m m'
    using idata_in_block [where a = a and block = block and n = blockSize and e = e and m = m and p = p] out by simp
  have t': "apply_table e block blockSize b m p = (ok, m', p') \<Longrightarrow> m' a = m a" for e b m p ok m' p'
    using table_in_block [where a = a and block = block and n = blockSize and e = e and b = b and m = m and p = p] out by simp
  show ?thesis unfolding Q9K_ApplyInitializedData_def Let_def
    by (auto split: prod.split if_splits dest!: i' t')
qed

theorem initdata_in_block_witness: "snd (Q9K_ApplyInitializedData (\<lambda>_. 0) 0x50000 0x60000 0x100) 0x70000 = 0"
proof (rule initdata_in_block)
  fix i :: u32 assume "i < 0x100"
  then show "0x70000 \<noteq> 0x60000 + i" by unat_arith
qed

section \<open>The handler table overlaps the intercept depth\<close>

text \<open>C40: the slot of trap 1 and the intercept nesting depth are the same longword of the process
  descriptor (offset 0x1CC).  A process with no handler for trap 1 that is inside its intercept routine cannot install
  one: F$TLink of trap 1 is refused as already in use, although the slot was empty before the signal was delivered.\<close>

theorem traptbl_icpt_collision:
  assumes desc: "desc \<noteq> 0" "Q9K_GetU32 m (desc + Q9K_PROCDESC_SIGVEC_OFF) \<noteq> 0"
      "Q9K_GetU32 m (desc + Q9K_PROCDESC_SAVEDSP_OFF) = f" "f \<noteq> 0"
      "apart (f - Q9K_FAKEFRAME_SIZE) Q9K_FAKEFRAME_SIZE desc Q9K_PROCDESC_SIZE"
    and free: "Q9K_GetU32 m (trap_slot desc 1 + Q9K_TRAPTBL_OFF_MODPTR) = 0"
    and m1: "m1 = snd (Q9K_IcptDeliver m desc signal)"
    and cur: "Q9K_GetU32 m1 Q9_D_PROC = desc" and name: "namePtr \<noteq> 0" "past_name m1 namePtr = Some q"
  shows "Q9K_ProcTLink m1 1 memOverride namePtr = Some (Inl Q9K_ERR_MODBSY, m1)"
proof -
  have "Q9K_GetU32 m1 (trap_slot desc 1) = Q9K_GetU32 m (trap_slot desc 1) + 1"
    unfolding m1 deliver_eq [OF desc(1) refl desc(2-5)] trap_slot_def by simp
  then show ?thesis using cur name free by (simp add: Q9K_ProcTLink_def Let_def)
qed

text \<open>A delivery to the sleeping process of the example, made the current process; the name is the empty string.\<close>

definition ex_sig :: memory where
  "ex_sig = Q9K_SetU8 (Q9K_SetU32 ex_mem Q9_D_PROC ex_sleeper) 0x40000 0"

lemma ex_sig_deliver:
  "Q9K_GetU32 (snd (Q9K_IcptDeliver ex_sig ex_sleeper 5)) Q9_D_PROC = ex_sleeper"
  "snd (Q9K_IcptDeliver ex_sig ex_sleeper 5) 0x40000 = 0"
proof -
  define F where "F = icpt_frame ex_sig 0x21000 5 (Q9K_GetU32 ex_sig (ex_sleeper + Q9K_PROCDESC_SIGDAT_OFF)) 0x30000"
  have e: "snd (Q9K_IcptDeliver ex_sig ex_sleeper 5) = Q9K_SetU16 (Q9K_SetU32 (Q9K_SetU32 F
       (ex_sleeper + Q9K_PROCDESC_SAVEDSP_OFF) 0x20FBC) (ex_sleeper + Q9K_PROCDESC_ICPTDEPTH_OFF)
       (Q9K_GetU32 ex_sig (ex_sleeper + Q9K_PROCDESC_ICPTDEPTH_OFF) + 1)) (ex_sleeper + Q9K_PROCDESC_SIGNAL_OFF) 0"
    unfolding F_def by (subst deliver_eq [where f = "0x21000" and vector = "0x30000"]) (simp_all add: ex_sig_def)
  have w: "within 0x20FBC 68 ex_sig F" using icpt_frame_within [of "0x21000" ex_sig] unfolding F_def by simp
  have "Q9K_GetU32 F Q9_D_PROC = ex_sleeper" using within_get(3) [OF w, of Q9_D_PROC] by (simp add: ex_sig_def)
  then show "Q9K_GetU32 (snd (Q9K_IcptDeliver ex_sig ex_sleeper 5)) Q9_D_PROC = ex_sleeper" unfolding e by simp
  have "Q9K_GetU8 F 0x40000 = 0" using within_get(1) [OF w, of "0x40000"] by (simp add: ex_sig_def)
  then have "Q9K_GetU8 (snd (Q9K_IcptDeliver ex_sig ex_sleeper 5)) 0x40000 = 0" unfolding e by simp
  then show "snd (Q9K_IcptDeliver ex_sig ex_sleeper 5) 0x40000 = 0" by (simp add: Q9K_GetU8_def)
qed

theorem traptbl_icpt_collision_witness:
  "\<exists>m1. Q9K_GetU32 ex_sig (trap_slot ex_sleeper 1) = 0 \<and> Q9K_IcptDeliver ex_sig ex_sleeper 5 = (True, m1) \<and>
     Q9K_ProcTLink m1 1 0 0x40000 = Some (Inl Q9K_ERR_MODBSY, m1)"
proof -
  have free: "Q9K_GetU32 ex_sig (trap_slot ex_sleeper 1 + Q9K_TRAPTBL_OFF_MODPTR) = 0" by (simp add: ex_sig_def trap_slot_def)
  have "past_name (snd (Q9K_IcptDeliver ex_sig ex_sleeper 5)) 0x40000 = Some 0x40001"
    by (subst past_name.simps) (simp add: ex_sig_deliver)
  then have "Q9K_ProcTLink (snd (Q9K_IcptDeliver ex_sig ex_sleeper 5)) 1 0 0x40000
      = Some (Inl Q9K_ERR_MODBSY, snd (Q9K_IcptDeliver ex_sig ex_sleeper 5))"
    by (intro traptbl_icpt_collision [where desc = ex_sleeper and m = ex_sig and f = "0x21000" and signal = 5])
      (simp_all add: ex_sig_deliver free, simp_all add: ex_sig_def trap_slot_def)
  moreover have "fst (Q9K_IcptDeliver ex_sig ex_sleeper 5)"
    by (subst deliver_eq [where f = "0x21000" and vector = "0x30000"]) (simp_all add: ex_sig_def)
  ultimately show ?thesis using free by (intro exI [of _ "snd (Q9K_IcptDeliver ex_sig ex_sleeper 5)"]) (simp add: prod_eq_iff)
qed

end
