(* ===== verification/Q9_IoPath.thy ===== *)
theory Q9_IoPath
  imports Q9_ModDir Q9_Pool
begin

text \<open>
  Paths (\<^verbatim>\<open>q9kernel_iopath.c\<close>): the pool of path descriptors, the descriptor block table of F$AllPD,
  F$RetPD and F$FindPD, pathname parsing and comparison (F$PrsNam, F$CmpNam), and the native paths of a
  process: open, look up, access checks, close and the small read-only file.  A loop over bytes of the
  caller that has no bound of its own is an option; \<^term>\<open>None\<close> stands for a loop that does not end.
\<close>

abbreviation Q9K_PATHPOOL_BASE_ADDR :: u32 where "Q9K_PATHPOOL_BASE_ADDR \<equiv> 0x1214"
abbreviation Q9K_PATHPOOL_FREE_ADDR :: u32 where "Q9K_PATHPOOL_FREE_ADDR \<equiv> 0x121C"
abbreviation Q9K_PATHDESC_SIZE :: u32 where "Q9K_PATHDESC_SIZE \<equiv> 256"
abbreviation Q9K_PATHDESC_NUM_OFF :: u32 where "Q9K_PATHDESC_NUM_OFF \<equiv> 0"
abbreviation Q9K_PATHDESC_MODE_OFF :: u32 where "Q9K_PATHDESC_MODE_OFF \<equiv> 2"
abbreviation Q9K_PATHDESC_REF_OFF :: u32 where "Q9K_PATHDESC_REF_OFF \<equiv> 4"
abbreviation Q9K_PATHDESC_KIND_OFF :: u32 where "Q9K_PATHDESC_KIND_OFF \<equiv> 6"
abbreviation Q9K_PATHDESC_POS_OFF :: u32 where "Q9K_PATHDESC_POS_OFF \<equiv> 8"
abbreviation Q9K_PATHDESC_OBJECT_OFF :: u32 where "Q9K_PATHDESC_OBJECT_OFF \<equiv> 12"
abbreviation Q9K_PROCDESC_PATH_OFF :: u32 where "Q9K_PROCDESC_PATH_OFF \<equiv> 0x168"
abbreviation Q9K_PROCDESC_PATH_COUNT :: u32 where "Q9K_PROCDESC_PATH_COUNT \<equiv> 32"

abbreviation Q9K_PATH_KIND_CONSOLE :: u16 where "Q9K_PATH_KIND_CONSOLE \<equiv> 1"
abbreviation Q9K_PATH_KIND_FILESYSTEM :: u16 where "Q9K_PATH_KIND_FILESYSTEM \<equiv> 2"
abbreviation Q9K_PATH_KIND_DIRECTORY :: u16 where "Q9K_PATH_KIND_DIRECTORY \<equiv> 3"
abbreviation Q9K_NATIVE_OBJECT_TERM :: u16 where "Q9K_NATIVE_OBJECT_TERM \<equiv> 1"
abbreviation Q9K_NATIVE_OBJECT_DD :: u16 where "Q9K_NATIVE_OBJECT_DD \<equiv> 2"
abbreviation Q9K_NATIVE_OBJECT_SYS :: u16 where "Q9K_NATIVE_OBJECT_SYS \<equiv> 3"
abbreviation Q9K_NATIVE_OBJECT_MOTD :: u16 where "Q9K_NATIVE_OBJECT_MOTD \<equiv> 4"
abbreviation Q9K_NATIVE_OP_READ :: u8 where "Q9K_NATIVE_OP_READ \<equiv> 1"
abbreviation Q9K_NATIVE_OP_SEEK :: u8 where "Q9K_NATIVE_OP_SEEK \<equiv> 7"
abbreviation Q9K_NATIVE_OP_CLOSE :: u8 where "Q9K_NATIVE_OP_CLOSE \<equiv> 8"

abbreviation Q9K_E_DIFFER :: u16 where "Q9K_E_DIFFER \<equiv> 0xA5"
abbreviation Q9K_E_PTHFUL :: u16 where "Q9K_E_PTHFUL \<equiv> 0xC8"
abbreviation Q9K_E_BPNUM :: u16 where "Q9K_E_BPNUM \<equiv> 0xC9"
abbreviation Q9K_E_BMODE :: u16 where "Q9K_E_BMODE \<equiv> 0xCB"
abbreviation Q9K_E_BPNAM :: u16 where "Q9K_E_BPNAM \<equiv> 0xD7"

section \<open>The pool\<close>

definition Q9K_PathPoolAlloc :: "memory \<Rightarrow> u32 \<times> memory" where
  "Q9K_PathPoolAlloc m =
     (let head = Q9K_GetU32 m Q9K_PATHPOOL_FREE_ADDR in
      if head = 0 then (0, m) else (head, Q9K_SetU32 m Q9K_PATHPOOL_FREE_ADDR (Q9K_GetU32 m head)))"

definition Q9K_PathPoolFree :: "memory \<Rightarrow> u32 \<Rightarrow> memory" where
  "Q9K_PathPoolFree m desc =
     Q9K_SetU32 (Q9K_SetU32 m desc (Q9K_GetU32 m Q9K_PATHPOOL_FREE_ADDR)) Q9K_PATHPOOL_FREE_ADDR desc"

interpretation pathp: lifo_pool "free_list Q9K_PATHPOOL_FREE_ADDR S" S Q9K_PathPoolAlloc Q9K_PathPoolFree for S
  by (rule lifo_poolI) (simp_all add: Q9K_PathPoolAlloc_def Q9K_PathPoolFree_def pool_pop_def pool_push_def Let_def)

definition Q9K_WriteU16BE :: "memory \<Rightarrow> u32 \<Rightarrow> u16 \<Rightarrow> memory" where
  "Q9K_WriteU16BE m addr value =
     m(addr := ucast (drop_bit 8 value AND 0xFF), addr + 1 := ucast (value AND 0xFF))"

definition Q9K_ReadU32BE_At :: "memory \<Rightarrow> u32 \<Rightarrow> u32" where
  "Q9K_ReadU32BE_At m addr =
     push_bit 24 (ucast (m addr)) OR push_bit 16 (ucast (m (addr + 1))) OR
     push_bit 8 (ucast (m (addr + 2))) OR ucast (m (addr + 3))"

definition Q9K_WriteU32BE_At :: "memory \<Rightarrow> u32 \<Rightarrow> u32 \<Rightarrow> memory" where
  "Q9K_WriteU32BE_At m addr value =
     m(addr := ucast (drop_bit 24 value AND 0xFF), addr + 1 := ucast (drop_bit 16 value AND 0xFF),
       addr + 2 := ucast (drop_bit 8 value AND 0xFF), addr + 3 := ucast (value AND 0xFF))"

section \<open>The descriptor block table\<close>

definition Q9K_ProcAllPD :: "memory \<Rightarrow> u32 \<Rightarrow> (u16 \<times> memory) + (u32 \<times> u16 \<times> memory)" where
  "Q9K_ProcAllPD m dbtAddr =
     (if dbtAddr = 0 then Inl (Q9K_E_BPADDR, m)
      else
        let maxIndex = Q9K_ReadU16BE m dbtAddr in
        case List.find (\<lambda>i. Q9K_ReadU32BE_At m (dbtAddr + of_nat i * 4) = 0) [1..<Suc (unat maxIndex)] of
          None \<Rightarrow> Inl (Q9K_E_PTHFUL, m)
        | Some i \<Rightarrow>
            let (desc, m1) = Q9K_PathPoolAlloc m in
            if desc = 0 then Inl (Q9K_E_PTHFUL, m1)
            else
              let m2 = zero_bytes (unat Q9K_PATHDESC_SIZE) m1 desc;
                  m3 = Q9K_WriteU16BE m2 desc (of_nat i);
                  m4 = Q9K_WriteU32BE_At m3 (dbtAddr + of_nat i * 4) desc
              in Inr (desc, of_nat i, m4))"

definition Q9K_ProcRetPD :: "memory \<Rightarrow> u32 \<Rightarrow> u16 \<Rightarrow> u16 + memory" where
  "Q9K_ProcRetPD m dbtAddr num =
     (if dbtAddr = 0 then Inl Q9K_E_BPADDR
      else
        let maxIndex = Q9K_ReadU16BE m dbtAddr in
        if num = 0 \<or> num > maxIndex then Inl Q9K_E_BPNUM
        else
          let desc = Q9K_ReadU32BE_At m (dbtAddr + ucast num * 4) in
          if desc = 0 then Inl Q9K_E_BPNUM
          else if Q9K_ReadU16BE m (desc + Q9K_PATHDESC_NUM_OFF) \<noteq> num then Inl Q9K_E_BPNUM
          else Inr (Q9K_PathPoolFree (Q9K_WriteU32BE_At m (dbtAddr + ucast num * 4) 0) desc))"

definition Q9K_ProcFindPD :: "memory \<Rightarrow> u32 \<Rightarrow> u16 \<Rightarrow> u16 + u32" where
  "Q9K_ProcFindPD m dbtAddr num =
     (if dbtAddr = 0 then Inl Q9K_E_BPADDR
      else
        let maxIndex = Q9K_ReadU16BE m dbtAddr in
        if num = 0 \<or> num > maxIndex then Inl Q9K_E_BPNUM
        else
          let desc = Q9K_ReadU32BE_At m (dbtAddr + ucast num * 4) in
          if desc = 0 then Inl Q9K_E_BPNUM else Inr desc)"

definition Q9K_SysAllPDImpl :: "memory \<Rightarrow> memory" where
  "Q9K_SysAllPDImpl m =
     (case Q9K_ProcAllPD m (Q9K_GetU32 m 0x13AC) of
        Inr (desc, num, m1) \<Rightarrow> Q9K_SetU32 (Q9K_SetU32 (Q9K_SetU32 m1 0x13B0 desc) 0x13B4 (ucast num)) 0x13BC 1
      | Inl (err, m1) \<Rightarrow> Q9K_SetU32 (Q9K_SetU32 m1 0x13B8 (ucast err)) 0x13BC 0)"

definition Q9K_SysRetPDImpl :: "memory \<Rightarrow> memory" where
  "Q9K_SysRetPDImpl m =
     (case Q9K_ProcRetPD m (Q9K_GetU32 m 0x161C) (ucast (Q9K_GetU32 m 0x1620)) of
        Inr m1 \<Rightarrow> Q9K_SetU32 (Q9K_SetU32 m1 0x1628 1) 0x1624 0
      | Inl err \<Rightarrow> Q9K_SetU32 (Q9K_SetU32 m 0x1628 0) 0x1624 (ucast err))"

definition Q9K_SysFindPDImpl :: "memory \<Rightarrow> memory" where
  "Q9K_SysFindPDImpl m =
     (case Q9K_ProcFindPD m (Q9K_GetU32 m 0x1974) (ucast (Q9K_GetU32 m 0x1970)) of
        Inr desc \<Rightarrow> Q9K_SetU32 (Q9K_SetU32 m 0x1978 desc) 0x1980 1
      | Inl err \<Rightarrow> Q9K_SetU32 (Q9K_SetU32 m 0x197C (ucast err)) 0x1980 0)"

section \<open>Names\<close>

definition Q9K_PrsNamIsNameChar :: "u8 \<Rightarrow> bool" where
  "Q9K_PrsNamIsNameChar c \<longleftrightarrow>
     (0x41 \<le> c \<and> c \<le> 0x5A) \<or> (0x61 \<le> c \<and> c \<le> 0x7A) \<or> (0x30 \<le> c \<and> c \<le> 0x39) \<or>
     c = 0x5F \<or> c = 0x2E \<or> c = 0x24"

text \<open>The two loops of F$PrsNam: leading slashes, then the characters of the name up to and including
  one whose bit 7 is set.\<close>

partial_function (option) skip_slashes :: "memory \<Rightarrow> u32 \<Rightarrow> u32 \<Rightarrow> u32 option" where
  "skip_slashes m p i = (if m (p + i) = 0x2F then skip_slashes m p (i + 1) else Some i)"

partial_function (option) name_end :: "memory \<Rightarrow> u32 \<Rightarrow> u32 \<Rightarrow> u32 option" where
  "name_end m p i =
     (if Q9K_PrsNamIsNameChar (m (p + i) AND 0x7F)
      then if m (p + i) AND 0x80 \<noteq> 0 then Some (i + 1) else name_end m p (i + 1)
      else Some i)"

record parsed_name =
  outNameStart :: u32
  outNamePast :: u32
  outLen :: u16
  outDelim :: u16

definition Q9K_ProcPrsNam :: "memory \<Rightarrow> u32 \<Rightarrow> (u16 + parsed_name) option" where
  "Q9K_ProcPrsNam m pathPtr =
     (if pathPtr = 0 then Some (Inl Q9K_E_BPNAM)
      else do {
        start \<leftarrow> skip_slashes m pathPtr 0;
        i \<leftarrow> name_end m pathPtr start;
        Some (if i = start then Inl Q9K_E_BPNAM
              else Inr \<lparr>outNameStart = pathPtr + i, outNamePast = pathPtr + start, outLen = ucast (i - start),
                        outDelim = (if m (pathPtr + (i - 1)) AND 0x80 \<noteq> 0 then 0 else ucast (m (pathPtr + i)))\<rparr>)
      })"

definition Q9K_SysPrsNamImpl :: "memory \<Rightarrow> memory option" where
  "Q9K_SysPrsNamImpl m = do {
     r \<leftarrow> Q9K_ProcPrsNam m (Q9K_GetU32 m 0x13EC);
     Some (case r of
       Inr n \<Rightarrow> Q9K_SetU32 (Q9K_SetU32 (Q9K_SetU32 (Q9K_SetU32 (Q9K_SetU32 m 0x13F0 (outNameStart n)) 0x13F4 (outNamePast n))
                 0x13F8 (ucast (outLen n))) 0x13FC (ucast (outDelim n))) 0x1604 1
     | Inl err \<Rightarrow> Q9K_SetU32 (Q9K_SetU32 m 0x1600 (ucast err)) 0x1604 0)
   }"

definition Q9K_CmpNamFold :: "u8 \<Rightarrow> u8" where
  "Q9K_CmpNamFold c = (if 0x41 \<le> c \<and> c \<le> 0x5A then c - 0x41 + 0x61 else c)"

text \<open>The comparison loop of F$CmpNam: \<open>pi\<close> and \<open>ti\<close> index pattern and target, \<open>star\<close> is the fallback point
  (the last \<^verbatim>\<open>*\<close> and the target position it has consumed up to).  The result is the pattern index at
  the end of the target, or \<^term>\<open>None\<close> inside for a difference.\<close>

partial_function (option) cmpnam_loop :: "memory \<Rightarrow> u32 \<Rightarrow> u32 \<Rightarrow> u32 \<Rightarrow> u32 \<Rightarrow> u32 \<Rightarrow> (u32 \<times> u32) option \<Rightarrow> u32 option option" where
  "cmpnam_loop m pat patternLen tgt pi ti star =
     (if m (tgt + ti) = 0 then Some (Some pi)
      else if pi < patternLen \<and> m (pat + pi) = 0x2A
      then cmpnam_loop m pat patternLen tgt (pi + 1) ti (Some (pi, ti))
      else if pi < patternLen \<and> (m (pat + pi) = 0x3F \<or> Q9K_CmpNamFold (m (pat + pi)) = Q9K_CmpNamFold (m (tgt + ti)))
      then cmpnam_loop m pat patternLen tgt (pi + 1) (ti + 1) star
      else case star of
        Some (starPat, starTgt) \<Rightarrow>
          cmpnam_loop m pat patternLen tgt (starPat + 1) (starTgt + 1) (Some (starPat, starTgt + 1))
      | None \<Rightarrow> Some None)"

function skip_stars :: "memory \<Rightarrow> u32 \<Rightarrow> u32 \<Rightarrow> u32 \<Rightarrow> u32" where
  "skip_stars m pat patternLen pi =
     (if pi < patternLen \<and> m (pat + pi) = 0x2A then skip_stars m pat patternLen (pi + 1) else pi)"
  by pat_completeness auto
termination
proof (relation "measure (\<lambda>(m, pat, patternLen, pi). unat (patternLen - pi))")
  fix m :: memory and pat patternLen pi :: u32
  assume "pi < patternLen \<and> m (pat + pi) = 0x2A"
  then have "unat (patternLen - (pi + 1)) < unat (patternLen - pi)" by unat_arith
  then show "((m, pat, patternLen, pi + 1), m, pat, patternLen, pi) \<in> measure (\<lambda>(m, pat, patternLen, pi). unat (patternLen - pi))"
    by simp
qed simp

declare skip_stars.simps [simp del]

definition Q9K_ProcCmpNam :: "memory \<Rightarrow> u32 \<Rightarrow> u16 \<Rightarrow> u32 \<Rightarrow> u16 option option" where
  "Q9K_ProcCmpNam m patternPtr patternLen targetPtr =
     (if patternPtr = 0 \<or> targetPtr = 0 then Some (Some Q9K_E_DIFFER)
      else do {
        r \<leftarrow> cmpnam_loop m patternPtr (ucast patternLen) targetPtr 0 0 None;
        Some (case r of
          None \<Rightarrow> Some Q9K_E_DIFFER
        | Some pi \<Rightarrow> if skip_stars m patternPtr (ucast patternLen) pi \<noteq> ucast patternLen then Some Q9K_E_DIFFER else None)
      })"

definition Q9K_SysCmpNamImpl :: "memory \<Rightarrow> memory option" where
  "Q9K_SysCmpNamImpl m = do {
     r \<leftarrow> Q9K_ProcCmpNam m (Q9K_GetU32 m 0x18B0) (ucast (Q9K_GetU32 m 0x18B8)) (Q9K_GetU32 m 0x18B4);
     Some (case r of
       None \<Rightarrow> Q9K_SetU32 m 0x18C0 1
     | Some err \<Rightarrow> Q9K_SetU32 (Q9K_SetU32 m 0x18BC (ucast err)) 0x18C0 0)
   }"

end
