(* ===== verification/Q9_NativePath.thy ===== *)
theory Q9_NativePath
  imports Q9_IoPath
begin

text \<open>
  The native paths of a process (second half of \<^verbatim>\<open>q9kernel_iopath.c\<close>): pathname validation and
  classification, I$Open, the lookup of a process-local path number, access checks, I$Close and the
  read-only file.  A path number indexes the table of 32 words in the process descriptor; the word is the
  global number of a pool descriptor.
\<close>

section \<open>Pathnames\<close>

text \<open>\<open>fuel\<close> is the number of bytes that may still be read, \<open>i\<close> the index of the next byte.\<close>

fun validate_from :: "nat \<Rightarrow> memory \<Rightarrow> u32 \<Rightarrow> u32 \<Rightarrow> bool \<Rightarrow> u32 \<Rightarrow> u16 + u32" where
  "validate_from 0 m p i sawName componentLen = Inl Q9K_E_BPNAM"
| "validate_from (Suc n) m p i sawName componentLen =
     (let c = m (p + i) in
      if c = 0 then if componentLen = 0 \<or> \<not> sawName then Inl Q9K_E_BPNAM else Inr (p + (i + 1))
      else if c = 0x2F then
        if componentLen = 0
        then if i + 1 = 1 \<and> \<not> sawName then validate_from n m p (i + 1) sawName componentLen else Inl Q9K_E_BPNAM
        else validate_from n m p (i + 1) sawName 0
      else if \<not> Q9K_PrsNamIsNameChar (c AND 0x7F) then Inl Q9K_E_BPNAM
      else validate_from n m p (i + 1) True (componentLen + 1))"

definition Q9K_NativeValidatePathname :: "memory \<Rightarrow> u32 \<Rightarrow> u16 + u32" where
  "Q9K_NativeValidatePathname m pathnamePtr =
     (if pathnamePtr = 0 then Inl Q9K_E_BPNAM else validate_from 256 m pathnamePtr 0 False 0)"

fun path_equals_from :: "memory \<Rightarrow> u32 \<Rightarrow> u8 list \<Rightarrow> bool" where
  "path_equals_from m p [] = (m p = 0)"
| "path_equals_from m p (c # cs) = (m p = c \<and> path_equals_from m (p + 1) cs)"

definition Q9K_NativePathEquals :: "memory \<Rightarrow> u32 \<Rightarrow> u8 list \<Rightarrow> bool" where
  "Q9K_NativePathEquals m pathnamePtr expected \<longleftrightarrow> pathnamePtr \<noteq> 0 \<and> path_equals_from m pathnamePtr expected"

abbreviation str_term :: "u8 list" where "str_term \<equiv> [0x2F, 0x74, 0x65, 0x72, 0x6D]"
abbreviation str_dd :: "u8 list" where "str_dd \<equiv> [0x2F, 0x64, 0x64]"
abbreviation str_dd_sys :: "u8 list" where "str_dd_sys \<equiv> [0x2F, 0x64, 0x64, 0x2F, 0x53, 0x59, 0x53]"
abbreviation str_motd :: "u8 list" where
  "str_motd \<equiv> [0x2F, 0x64, 0x64, 0x2F, 0x53, 0x59, 0x53, 0x2F, 0x6D, 0x6F, 0x74, 0x64]"

text \<open>The first component is copied to a local buffer that nothing reads afterwards; of that part only the
  loop over leading slashes, which may not end, is visible.  The result pairs the error or the kind and object
  with the updated name pointer.\<close>

definition Q9K_NativeClassifyPathname :: "memory \<Rightarrow> u32 \<Rightarrow> u32 \<Rightarrow> ((u16 + u16 \<times> u16) \<times> u32) option" where
  "Q9K_NativeClassifyPathname m pathnamePtr mode =
     (if pathnamePtr = 0 then Some (Inl Q9K_E_BPNAM, pathnamePtr)
      else do {
        _ \<leftarrow> skip_slashes m pathnamePtr 0;
        Some (case Q9K_NativeValidatePathname m pathnamePtr of
          Inl err \<Rightarrow> (Inl err, pathnamePtr)
        | Inr pastName \<Rightarrow>
            (if mode AND 0x80 \<noteq> 0 then
               if Q9K_NativePathEquals m pathnamePtr str_dd then Inr (Q9K_PATH_KIND_DIRECTORY, Q9K_NATIVE_OBJECT_DD)
               else if Q9K_NativePathEquals m pathnamePtr str_dd_sys then Inr (Q9K_PATH_KIND_DIRECTORY, Q9K_NATIVE_OBJECT_SYS)
               else Inl Q9K_E_MNF
             else if Q9K_NativePathEquals m pathnamePtr str_term then Inr (Q9K_PATH_KIND_CONSOLE, Q9K_NATIVE_OBJECT_TERM)
             else if Q9K_NativePathEquals m pathnamePtr str_motd then Inr (Q9K_PATH_KIND_FILESYSTEM, Q9K_NATIVE_OBJECT_MOTD)
             else Inl Q9K_E_MNF, pastName))
      })"

section \<open>I$Open\<close>

definition path_entry :: "u32 \<Rightarrow> u32 \<Rightarrow> u32" where
  "path_entry procDesc pathNum = procDesc + Q9K_PROCDESC_PATH_OFF + pathNum * 2"

text \<open>The first free local path number from 3 on; 0 if there is none.\<close>

definition free_path_num :: "memory \<Rightarrow> u32 \<Rightarrow> u32" where
  "free_path_num m procDesc =
     (case List.find (\<lambda>i. Q9K_ReadU16BE m (path_entry procDesc i) = 0) (map of_nat [3..<32]) of
        None \<Rightarrow> 0 | Some i \<Rightarrow> i)"

definition init_path :: "memory \<Rightarrow> u32 \<Rightarrow> u16 \<Rightarrow> u16 \<Rightarrow> u16 \<Rightarrow> memory" where
  "init_path m slot descriptorNum pathKind pathObject =
     (let m1 = Q9K_WriteU16BE m (slot + Q9K_PATHDESC_NUM_OFF) descriptorNum;
          m2 = Q9K_WriteU16BE m1 (slot + Q9K_PATHDESC_KIND_OFF) pathKind;
          m3 = Q9K_WriteU16BE m2 (slot + Q9K_PATHDESC_OBJECT_OFF) pathObject;
          m4 = Q9K_WriteU16BE m3 (slot + Q9K_PATHDESC_REF_OFF) 1
      in Q9K_WriteU32BE_At m4 (slot + Q9K_PATHDESC_POS_OFF) 0)"

text \<open>Allocating and entering a descriptor for a classified path; \<^term>\<open>Inl e\<close> is failure.\<close>

definition open_path :: "memory \<Rightarrow> u32 \<Rightarrow> u16 \<Rightarrow> u16 \<Rightarrow> (u16 + u32) \<times> memory" where
  "open_path m mode pathKind pathObject =
     (let (slot, m1) = Q9K_PathPoolAlloc m in
      if slot = 0 then (Inl Q9K_E_PTHFUL, m1)
      else
        let descriptorNum = (slot - Q9K_GetU32 m1 Q9K_PATHPOOL_BASE_ADDR) div Q9K_PATHDESC_SIZE + 3;
            procDesc = Q9K_GetU32 m1 Q9_D_PROC;
            pathNum = (if procDesc \<noteq> 0 then free_path_num m1 procDesc else descriptorNum)
        in if procDesc \<noteq> 0 \<and> pathNum = 0 then (Inl Q9K_E_PTHFUL, Q9K_PathPoolFree m1 slot)
           else
             let m2 = init_path m1 slot (ucast descriptorNum) pathKind pathObject;
                 m3 = (if procDesc \<noteq> 0 then Q9K_WriteU16BE m2 (path_entry procDesc pathNum) (ucast descriptorNum) else m2);
                 mo = ucast (mode AND 0xFF) :: u8
             in (Inr pathNum, Q9K_SetU8 m3 (slot + Q9K_PATHDESC_MODE_OFF) (if mo = 0 then 3 else mo)))"

definition Q9K_ProcIOpen :: "memory \<Rightarrow> u32 \<Rightarrow> u32 \<Rightarrow> ((u16 + u32) \<times> u32 \<times> memory) option" where
  "Q9K_ProcIOpen m mode pathnamePtr =
     (if mode AND NOT 0xD7 \<noteq> 0 then Some (Inl Q9K_E_BMODE, pathnamePtr, m)
      else do {
        (c, pastName) \<leftarrow> Q9K_NativeClassifyPathname m pathnamePtr mode;
        (case c of
           Inl err \<Rightarrow> Some (Inl err, pastName, m)
         | Inr (pathKind, pathObject) \<Rightarrow>
             (let (r, m1) = open_path m mode pathKind pathObject in Some (r, pastName, m1)))
      })"

section \<open>Looking a path up\<close>

definition Q9K_ProcPathDesc :: "memory \<Rightarrow> u16 \<Rightarrow> u16 + u32" where
  "Q9K_ProcPathDesc m pathNum =
     (if pathNum < 3 \<or> ucast pathNum \<ge> Q9K_PROCDESC_PATH_COUNT then Inl Q9K_E_BPNUM
      else
        let procDesc = Q9K_GetU32 m Q9_D_PROC in
        if procDesc = 0 then Inl Q9K_E_BPNUM
        else
          let descriptorNum = Q9K_ReadU16BE m (path_entry procDesc (ucast pathNum)) in
          if descriptorNum < 3 then Inl Q9K_E_BPNUM
          else
            let poolBase = Q9K_GetU32 m Q9K_PATHPOOL_BASE_ADDR in
            if poolBase = 0 then Inl Q9K_E_BPNUM
            else
              let pathDesc = poolBase + (ucast descriptorNum - 3) * Q9K_PATHDESC_SIZE in
              if Q9K_ReadU16BE m (pathDesc + Q9K_PATHDESC_NUM_OFF) \<noteq> descriptorNum then Inl Q9K_E_BPNUM
              else Inr pathDesc)"

text \<open>The callers take a descriptor address of 0 for failure, with whatever error number was reported.\<close>

definition path_desc :: "memory \<Rightarrow> u16 \<Rightarrow> u16 + u32" where
  "path_desc m pathNum =
     (case Q9K_ProcPathDesc m pathNum of Inl err \<Rightarrow> Inl err | Inr pathDesc \<Rightarrow> if pathDesc = 0 then Inl 0 else Inr pathDesc)"

record path_state =
  pathKind :: u16
  pathMode :: u8
  pathRefs :: u16
  pathPosition :: u32

definition Q9K_ProcPathState :: "memory \<Rightarrow> u16 \<Rightarrow> u16 + path_state" where
  "Q9K_ProcPathState m pathNum =
     (case path_desc m pathNum of
        Inl err \<Rightarrow> Inl err
      | Inr pathDesc \<Rightarrow> Inr \<lparr>pathKind = Q9K_ReadU16BE m (pathDesc + Q9K_PATHDESC_KIND_OFF),
          pathMode = m (pathDesc + Q9K_PATHDESC_MODE_OFF), pathRefs = Q9K_ReadU16BE m (pathDesc + Q9K_PATHDESC_REF_OFF),
          pathPosition = Q9K_ReadU32BE_At m (pathDesc + Q9K_PATHDESC_POS_OFF)\<rparr>)"

text \<open>The checks answer \<^term>\<open>None\<close> for success.\<close>

definition Q9K_ProcPathCheckAccess :: "memory \<Rightarrow> u16 \<Rightarrow> u8 \<Rightarrow> u16 option" where
  "Q9K_ProcPathCheckAccess m pathNum requestedMode =
     (case path_desc m pathNum of
        Inl err \<Rightarrow> Some err
      | Inr pathDesc \<Rightarrow>
          (let grantedMode = m (pathDesc + Q9K_PATHDESC_MODE_OFF) in
           if requestedMode AND 3 \<noteq> 0 \<and> grantedMode AND (requestedMode AND 3) \<noteq> requestedMode AND 3
           then Some Q9K_E_BMODE else None))"

definition Q9K_ProcPathSupports :: "memory \<Rightarrow> u16 \<Rightarrow> u8 \<Rightarrow> u16 option" where
  "Q9K_ProcPathSupports m pathNum operation =
     (case path_desc m pathNum of
        Inl err \<Rightarrow> Some err
      | Inr pathDesc \<Rightarrow>
          (let kind = Q9K_ReadU16BE m (pathDesc + Q9K_PATHDESC_KIND_OFF);
               object = Q9K_ReadU16BE m (pathDesc + Q9K_PATHDESC_OBJECT_OFF)
           in if operation = Q9K_NATIVE_OP_CLOSE \<or>
                 (kind = Q9K_PATH_KIND_CONSOLE \<and> operation \<ge> Q9K_NATIVE_OP_READ \<and> operation \<le> Q9K_NATIVE_OP_SEEK) \<or>
                 (kind = Q9K_PATH_KIND_FILESYSTEM \<and> object = Q9K_NATIVE_OBJECT_MOTD \<and> operation = Q9K_NATIVE_OP_READ)
              then None else Some Q9K_E_UNKSVC))"

section \<open>I$Close and I$Read\<close>

definition Q9K_ProcNativeClose :: "memory \<Rightarrow> u16 \<Rightarrow> u16 + memory" where
  "Q9K_ProcNativeClose m pathNum =
     (case path_desc m pathNum of
        Inl err \<Rightarrow> Inl err
      | Inr pathDesc \<Rightarrow>
          (let procDesc = Q9K_GetU32 m Q9_D_PROC;
               descriptorNum = Q9K_ReadU16BE m (pathDesc + Q9K_PATHDESC_NUM_OFF);
               refs = Q9K_ReadU16BE m (pathDesc + Q9K_PATHDESC_REF_OFF)
           in if procDesc = 0 then Inl Q9K_E_BPNUM
              else if descriptorNum < 3 \<or> refs = 0 then Inl Q9K_E_BPNUM
              else
                let m1 = Q9K_WriteU16BE m (path_entry procDesc (ucast pathNum)) 0;
                    refs' = refs - 1;
                    m2 = Q9K_WriteU16BE m1 (pathDesc + Q9K_PATHDESC_REF_OFF) refs'
                in Inr (if refs' = 0
                        then Q9K_SetU32 (Q9K_SetU32 m2 pathDesc (Q9K_GetU32 m2 Q9K_PATHPOOL_FREE_ADDR)) Q9K_PATHPOOL_FREE_ADDR pathDesc
                        else m2)))"

abbreviation motd :: "u8 list" where
  "motd \<equiv> [0x51, 0x39, 0x20, 0x6E, 0x61, 0x74, 0x69, 0x76, 0x65, 0x20, 0x49, 0x2F, 0x4F, 0x0D, 0x0A]"

text \<open>\<open>for (i = 0; i < amount; i++) buffer[i] = motd[position + i]\<close>.\<close>

fun put_bytes :: "memory \<Rightarrow> u32 \<Rightarrow> u8 list \<Rightarrow> memory" where
  "put_bytes m a [] = m"
| "put_bytes m a (b # bs) = put_bytes (Q9K_SetU8 m a b) (a + 1) bs"

definition Q9K_ProcNativeRead :: "memory \<Rightarrow> u16 \<Rightarrow> u32 \<Rightarrow> u32 \<Rightarrow> u16 + u32 \<times> memory" where
  "Q9K_ProcNativeRead m pathNum bufferPtr count =
     (case path_desc m pathNum of
        Inl err \<Rightarrow> Inl err
      | Inr pathDesc \<Rightarrow>
          (let kind = Q9K_ReadU16BE m (pathDesc + Q9K_PATHDESC_KIND_OFF);
               object = Q9K_ReadU16BE m (pathDesc + Q9K_PATHDESC_OBJECT_OFF);
               mode = m (pathDesc + Q9K_PATHDESC_MODE_OFF);
               position = Q9K_ReadU32BE_At m (pathDesc + Q9K_PATHDESC_POS_OFF)
           in if mode AND 1 = 0 then Inl Q9K_E_BMODE
              else if kind \<noteq> Q9K_PATH_KIND_FILESYSTEM \<or> object \<noteq> Q9K_NATIVE_OBJECT_MOTD then Inl Q9K_E_UNKSVC
              else if bufferPtr = 0 \<and> count \<noteq> 0 then Inl Q9K_E_BPADDR
              else if position \<ge> 15 then Inr (0, m)
              else
                let available = 15 - position;
                    amount = (if count < available then count else available);
                    m1 = put_bytes m bufferPtr (take (unat amount) (drop (unat position) motd))
                in Inr (amount, Q9K_WriteU32BE_At m1 (pathDesc + Q9K_PATHDESC_POS_OFF) (position + amount))))"

definition Q9K_SysNativeReadImpl :: "memory \<Rightarrow> memory" where
  "Q9K_SysNativeReadImpl m =
     (case Q9K_ProcNativeRead m (ucast (Q9K_GetU32 m 0x1F38)) (Q9K_GetU32 m 0x1F3C) (Q9K_GetU32 m 0x1F40) of
        Inr (done, m1) \<Rightarrow> Q9K_SetU32 (Q9K_SetU32 (Q9K_SetU32 m1 0x1F44 done) 0x1F48 0) 0x1F4C 1
      | Inl err \<Rightarrow> Q9K_SetU32 (Q9K_SetU32 (Q9K_SetU32 m 0x1F44 0) 0x1F48 (ucast err)) 0x1F4C 0)"

definition Q9K_SysIOpenImpl :: "memory \<Rightarrow> memory option" where
  "Q9K_SysIOpenImpl m = do {
     (r, pastName, m1) \<leftarrow> Q9K_ProcIOpen m (Q9K_GetU32 m 0x1360) (Q9K_GetU32 m 0x1364);
     let (pathNum, err) = (case r of
         Inl e \<Rightarrow> (0, e)
       | Inr n \<Rightarrow> if n = 0 then (0, 0)
                  else (case path_desc m1 (ucast n) of Inl e \<Rightarrow> (0, e) | Inr _ \<Rightarrow> (n, 0)));
     Some (Q9K_SetU32 (Q9K_SetU32 (Q9K_SetU32 m1 0x1368 pastName) 0x136C pathNum) 0x1374 (ucast err))
   }"

end
