(* ===== verification/Q9_CmpNam.thy ===== *)
theory Q9_CmpNam
  imports Q9_IoPath
begin

text \<open>
  F$CmpNam compares with one fallback point instead of a stack.  It always returns for a terminated
  target, and its answer is that of the recursive definition of pattern matching.
\<close>

section \<open>Pattern matching\<close>

abbreviation char_matches :: "u8 \<Rightarrow> u8 \<Rightarrow> bool" where
  "char_matches p t \<equiv> p = 0x3F \<or> Q9K_CmpNamFold p = Q9K_CmpNamFold t"

fun glob :: "u8 list \<Rightarrow> u8 list \<Rightarrow> bool" where
  "glob [] ts = (ts = [])"
| "glob (p # ps) [] = (p = 0x2A \<and> glob ps [])"
| "glob (p # ps) (t # ts) =
     (if p = 0x2A then glob ps (t # ts) \<or> glob (p # ps) ts else char_matches p t \<and> glob ps ts)"

lemma glob_star: "glob (0x2A # ps) ts \<longleftrightarrow> (\<exists>k\<le>length ts. glob ps (drop k ts))"
proof (induction ts)
  case (Cons t ts)
  have "(\<exists>k\<le>Suc n. Q k) \<longleftrightarrow> Q 0 \<or> (\<exists>k\<le>n. Q (Suc k))" for n and Q :: "nat \<Rightarrow> bool"
    by (metis Suc_le_mono le0 not0_implies_Suc)
  from this [of "length ts" "\<lambda>k. glob ps (drop k (t # ts))"] show ?case using Cons by simp
qed simp

lemma glob_star_drop: "glob (0x2A # ps) (drop j ts) \<Longrightarrow> glob (0x2A # ps) ts"
proof (cases "j \<le> length ts")
  case True
  assume "glob (0x2A # ps) (drop j ts)"
  then obtain k where "k \<le> length ts - j" "glob ps (drop (k + j) ts)" unfolding glob_star by auto
  then show ?thesis unfolding glob_star using True by (intro exI [of _ "k + j"]) auto
next
  case False
  assume "glob (0x2A # ps) (drop j ts)"
  then have "glob ps (drop (length ts) ts)" using False by simp
  then show ?thesis unfolding glob_star by blast
qed

lemma glob_nil: "glob ps [] \<longleftrightarrow> (\<forall>p\<in>set ps. p = 0x2A)"
  by (induction ps) auto

text \<open>A star-free prefix consumes exactly its length.\<close>

lemma glob_prefix: "0x2A \<notin> set q \<Longrightarrow> glob (q @ ps) ts \<Longrightarrow> length q \<le> length ts \<and> glob ps (drop (length q) ts)"
proof (induction q arbitrary: ts)
  case (Cons c q)
  then show ?case by (cases ts) auto
qed simp

text \<open>So once a later star is reached, no other choice for an earlier one can help.\<close>

lemma later_star:
  assumes "0x2A \<notin> set q" "glob (0x2A # q @ 0x2A # ps) sts"
  shows "glob (0x2A # ps) (drop (length q) sts)"
proof -
  obtain k where k: "k \<le> length sts" "glob (q @ 0x2A # ps) (drop k sts)" using assms(2) unfolding glob_star by blast
  then have "glob (0x2A # ps) (drop k (drop (length q) sts))"
    using glob_prefix [OF assms(1) k(2)] by (metis add.commute drop_drop)
  then show ?thesis by (rule glob_star_drop)
qed

section \<open>The loop\<close>

text \<open>The strings in memory: the pattern \<open>P\<close> with its length, the target \<open>T\<close> with its terminator.\<close>

definition strings_at :: "memory \<Rightarrow> u32 \<Rightarrow> u8 list \<Rightarrow> u32 \<Rightarrow> u8 list \<Rightarrow> bool" where
  "strings_at m pat P tgt T \<longleftrightarrow>
     length P < 2 ^ 16 \<and> (\<forall>i<length P. m (pat + of_nat i) = P ! i) \<and>
     length T < 2 ^ 32 \<and> (\<forall>i<length T. m (tgt + of_nat i) = T ! i \<and> T ! i \<noteq> 0) \<and> m (tgt + of_nat (length T)) = 0"

text \<open>The fallback point of the loop as positions in the two strings: everything between it and the
  current position is star-free.\<close>

definition star_ok :: "u8 list \<Rightarrow> u8 list \<Rightarrow> nat \<Rightarrow> nat \<Rightarrow> (nat \<times> nat) option \<Rightarrow> bool" where
  "star_ok P T i j star \<longleftrightarrow> (case star of None \<Rightarrow> True | Some (a, b) \<Rightarrow>
     \<exists>n. i = Suc a + n \<and> j = b + n \<and> P ! a = 0x2A \<and> 0x2A \<notin> set (take n (drop (Suc a) P)))"

definition word_star :: "(nat \<times> nat) option \<Rightarrow> (u32 \<times> u32) option" where
  "word_star = map_option (\<lambda>(a, b). (of_nat a, of_nat b))"

text \<open>What the loop decides from a position: a match from here, or one after the fallback point has moved on.\<close>

definition loop_match :: "u8 list \<Rightarrow> u8 list \<Rightarrow> nat \<Rightarrow> nat \<Rightarrow> (nat \<times> nat) option \<Rightarrow> bool" where
  "loop_match P T i j star \<longleftrightarrow> glob (drop i P) (drop j T) \<or>
     (case star of None \<Rightarrow> False | Some (a, b) \<Rightarrow> b < length T \<and> glob (0x2A # drop (Suc a) P) (drop (Suc b) T))"

lemma star_split:
  assumes "star_ok P T i j (Some (a, b))" "i \<le> length P"
  obtains q where "drop (Suc a) P = q @ drop i P" "0x2A \<notin> set q" "j = b + length q"
proof -
  obtain n where n: "i = Suc a + n" "j = b + n" "0x2A \<notin> set (take n (drop (Suc a) P))"
    using assms(1) by (auto simp: star_ok_def)
  have "drop (Suc a) P = take n (drop (Suc a) P) @ drop i P"
    by (subst append_take_drop_id [of n, symmetric]) (simp add: n(1) add.commute)
  moreover have "length (take n (drop (Suc a) P)) = n" using assms(2) n(1) by simp
  ultimately show thesis using that [of "take n (drop (Suc a) P)"] n by simp
qed

text \<open>The four cases of an iteration.\<close>

lemma match_end:
  assumes "star_ok P T i (length T) star" "i \<le> length P"
  shows "loop_match P T i (length T) star \<longleftrightarrow> (\<forall>p\<in>set (drop i P). p = 0x2A)"
proof (cases star)
  case (Some ab)
  obtain a b where ab: "star = Some (a, b)" using Some by (cases ab) auto
  from star_split [OF assms(1) [unfolded ab] assms(2)] obtain q where
    q: "drop (Suc a) P = q @ drop i P" "0x2A \<notin> set q" "length T = b + length q" by blast
  have "\<not> glob (0x2A # drop (Suc a) P) (drop (Suc b) T)" if "b < length T"
  proof
    assume "glob (0x2A # drop (Suc a) P) (drop (Suc b) T)"
    then obtain k where "glob (q @ drop i P) (drop k (drop (Suc b) T))" unfolding glob_star q(1) by blast
    from glob_prefix [OF q(2) this] have "length q \<le> length q - Suc k" using q(3) by simp
    moreover have "0 < length q" using q(3) that by simp
    ultimately show False by linarith
  qed
  then show ?thesis unfolding loop_match_def ab by (auto simp: glob_nil)
qed (simp add: loop_match_def glob_nil)

lemma match_star:
  assumes "star_ok P T i j star" "i < length P" "P ! i = 0x2A" "j < length T"
  shows "loop_match P T i j star \<longleftrightarrow> loop_match P T (Suc i) j (Some (i, j))" "star_ok P T (Suc i) j (Some (i, j))"
proof -
  have d: "drop i P = 0x2A # drop (Suc i) P" "drop j T = T ! j # drop (Suc j) T"
    using assms(2-4) by (metis Cons_nth_drop_Suc)+
  have old: "glob (drop i P) (drop j T)" if "star = Some (a, b)" "glob (0x2A # drop (Suc a) P) (drop (Suc b) T)" for a b
  proof -
    have "i \<le> length P" using assms(2) by simp
    from star_split [OF assms(1) [unfolded that(1)] this] obtain q where
      q: "drop (Suc a) P = q @ drop i P" "0x2A \<notin> set q" "j = b + length q" by blast
    have "glob (0x2A # drop (Suc i) P) (drop (Suc j) T)"
      using later_star [OF q(2), of "drop (Suc i) P" "drop (Suc b) T"] that(2) d(1) by (simp add: q(1,3) add.commute)
    then show ?thesis unfolding d by simp
  qed
  show "loop_match P T i j star \<longleftrightarrow> loop_match P T (Suc i) j (Some (i, j))"
    using old assms(4) unfolding loop_match_def d by (auto split: option.splits prod.splits simp: d)
  show "star_ok P T (Suc i) j (Some (i, j))" using assms(3) by (simp add: star_ok_def)
qed

lemma match_char:
  assumes "star_ok P T i j star" "i < length P" "P ! i \<noteq> 0x2A" "j < length T" "char_matches (P ! i) (T ! j)"
  shows "loop_match P T i j star \<longleftrightarrow> loop_match P T (Suc i) (Suc j) star" "star_ok P T (Suc i) (Suc j) star"
proof -
  have d: "drop i P = P ! i # drop (Suc i) P" "drop j T = T ! j # drop (Suc j) T"
    using assms(2,4) by (metis Cons_nth_drop_Suc)+
  show "loop_match P T i j star \<longleftrightarrow> loop_match P T (Suc i) (Suc j) star"
    unfolding loop_match_def d using assms(3,5) by simp
  show "star_ok P T (Suc i) (Suc j) star"
  proof (cases star)
    case (Some ab)
    then obtain a b n where ab: "star = Some (a, b)" and n: "i = Suc a + n" "j = b + n" "P ! a = 0x2A" "0x2A \<notin> set (take n (drop (Suc a) P))"
      using assms(1) by (cases ab) (auto simp: star_ok_def)
    then show ?thesis unfolding ab star_ok_def using assms(2,3)
      by (simp add: take_Suc_conv_app_nth)
  qed (simp add: star_ok_def)
qed

lemma match_fallback:
  assumes "star_ok P T i j (Some (a, b))" "j < length T"
    and no: "\<not> (i < length P \<and> P ! i = 0x2A)" "\<not> (i < length P \<and> char_matches (P ! i) (T ! j))"
  shows "loop_match P T i j (Some (a, b)) \<longleftrightarrow> loop_match P T (Suc a) (Suc b) (Some (a, Suc b))"
    "star_ok P T (Suc a) (Suc b) (Some (a, Suc b))" "b < length T"
proof -
  show b: "b < length T" using assms(1,2) by (auto simp: star_ok_def)
  show "star_ok P T (Suc a) (Suc b) (Some (a, Suc b))" using assms(1) by (auto simp: star_ok_def)
  have n: "\<not> glob (drop i P) (drop j T)"
    using no assms(2) Cons_nth_drop_Suc [of i P, symmetric] Cons_nth_drop_Suc [of j T, symmetric] by (cases "i < length P") auto
  have "glob (0x2A # ps) ts \<longleftrightarrow> glob ps ts \<or> (ts \<noteq> [] \<and> glob (0x2A # ps) (tl ts))" for ps ts by (cases ts) auto
  from this [of "drop (Suc a) P" "drop (Suc b) T"] show "loop_match P T i j (Some (a, b)) \<longleftrightarrow> loop_match P T (Suc a) (Suc b) (Some (a, Suc b))"
    using n b unfolding loop_match_def by (auto simp: drop_Suc tl_drop simp del: glob.simps)
qed

lemma match_fail:
  assumes "j < length T" "\<not> (i < length P \<and> P ! i = 0x2A)" "\<not> (i < length P \<and> char_matches (P ! i) (T ! j))"
  shows "\<not> loop_match P T i j None"
  using assms Cons_nth_drop_Suc [of i P, symmetric] Cons_nth_drop_Suc [of j T, symmetric]
  by (cases "i < length P") (auto simp: loop_match_def)

text \<open>The order in which the loop makes progress: the fallback point moves on, or the pattern position does.\<close>

abbreviation progress :: "u8 list \<Rightarrow> u8 list \<Rightarrow> ((nat \<times> nat \<times> (nat \<times> nat) option) \<times> (nat \<times> nat \<times> (nat \<times> nat) option)) set" where
  "progress P T \<equiv> measures [\<lambda>(i, j, star). case star of None \<Rightarrow> Suc (length T) | Some (a, b) \<Rightarrow> length T - b, \<lambda>(i, j, star). length P - i]"

lemma strings_atD:
  assumes "strings_at m pat P tgt T"
  shows "i < length P \<Longrightarrow> m (pat + of_nat i) = P ! i" "j < length T \<Longrightarrow> m (tgt + of_nat j) = T ! j \<and> T ! j \<noteq> 0"
    "j \<le> length T \<Longrightarrow> m (tgt + of_nat j) = 0 \<longleftrightarrow> j = length T"
    "i \<le> length P \<Longrightarrow> (of_nat i :: u32) < of_nat (length P) \<longleftrightarrow> i < length P"
proof -
  show "i < length P \<Longrightarrow> m (pat + of_nat i) = P ! i" "j < length T \<Longrightarrow> m (tgt + of_nat j) = T ! j \<and> T ! j \<noteq> 0"
    using assms by (auto simp: strings_at_def)
  show "j \<le> length T \<Longrightarrow> m (tgt + of_nat j) = 0 \<longleftrightarrow> j = length T"
    using assms unfolding strings_at_def by (metis nat_less_le)
  show "i \<le> length P \<Longrightarrow> (of_nat i :: u32) < of_nat (length P) \<longleftrightarrow> i < length P"
    using assms by (simp add: strings_at_def word_less_nat_alt unat_of_nat_u32)
qed

lemma cmpnam_loop_match:
  assumes s: "strings_at m pat P tgt T"
  shows "i \<le> length P \<Longrightarrow> j \<le> length T \<Longrightarrow> star_ok P T i j star \<Longrightarrow>
    \<exists>r. cmpnam_loop m pat (of_nat (length P)) tgt (of_nat i) (of_nat j) (word_star star) = Some (map_option of_nat r) \<and>
      (\<forall>k. r = Some k \<longrightarrow> k \<le> length P) \<and> (loop_match P T i j star \<longleftrightarrow> (\<exists>k. r = Some k \<and> (\<forall>p\<in>set (drop k P). p = 0x2A)))"
proof (induction "(i, j, star)" arbitrary: i j star rule: wf_induct_rule [OF wf_measures, of "[\<lambda>(i, j, star). case star of None \<Rightarrow> Suc (length T) | Some (a, b) \<Rightarrow> length T - b, \<lambda>(i, j, star). length P - i]"])
  case (1 i j star)
  note IH = 1(1) and b = 1(2,3) and ok = 1(4) and sd = strings_atD [OF s]
  let ?L = "cmpnam_loop m pat (of_nat (length P)) tgt"
  show ?case
  proof (cases "j = length T")
    case True
    then have "?L (of_nat i) (of_nat j) (word_star star) = Some (map_option of_nat (Some i))"
      by (subst cmpnam_loop.simps) (simp add: sd(3))
    then show ?thesis using match_end [OF ok [unfolded True] b(1)] b True by (intro exI [of _ "Some i"]) simp
  next
    case False
    then have j: "j < length T" using b by simp
    consider (star) "i < length P" "P ! i = 0x2A" | (char) "i < length P" "P ! i \<noteq> 0x2A" "char_matches (P ! i) (T ! j)"
      | (other) "\<not> (i < length P \<and> P ! i = 0x2A)" "\<not> (i < length P \<and> char_matches (P ! i) (T ! j))" by blast
    then show ?thesis
    proof cases
      case star
      have "?L (of_nat i) (of_nat j) (word_star star) = ?L (of_nat (Suc i)) (of_nat j) (word_star (Some (i, j)))"
        using star j b by (subst cmpnam_loop.simps) (simp add: sd word_star_def add.commute)
      moreover note match_star [OF ok star j]
      moreover have "((Suc i, j, Some (i, j)), (i, j, star)) \<in> progress P T"
        using star j ok by (auto simp: star_ok_def split: option.splits)
      ultimately show ?thesis using IH [of "Suc i" j "Some (i, j)"] star(1) j by auto
    next
      case char
      have "?L (of_nat i) (of_nat j) (word_star star) = ?L (of_nat (Suc i)) (of_nat (Suc j)) (word_star star)"
        using char j b by (subst cmpnam_loop.simps) (auto simp: sd add.commute)
      moreover note match_char [OF ok char(1,2) j char(3)]
      moreover have "((Suc i, Suc j, star), (i, j, star)) \<in> progress P T" using char by auto
      ultimately show ?thesis using IH [of "Suc i" "Suc j" star] char(1) j by auto
    next
      case other
      show ?thesis
      proof (cases star)
        case None
        have "?L (of_nat i) (of_nat j) (word_star star) = Some None"
          using other j b None by (subst cmpnam_loop.simps) (auto simp: sd word_star_def)
        then show ?thesis using match_fail [OF j other] None by auto
      next
        case (Some ab)
        then obtain a c where ab: "star = Some (a, c)" by (cases ab) auto
        note f = match_fallback [OF ok [unfolded ab] j other]
        have "?L (of_nat i) (of_nat j) (word_star star) = ?L (of_nat (Suc a)) (of_nat (Suc c)) (word_star (Some (a, Suc c)))"
          using other j b ab by (subst cmpnam_loop.simps) (auto simp: sd word_star_def add.commute)
        moreover have "((Suc a, Suc c, Some (a, Suc c)), (i, j, star)) \<in> progress P T" using f(3) ab by auto
        moreover have "Suc a \<le> length P" using ok ab b(1) by (auto simp: star_ok_def)
        ultimately show ?thesis using IH [of "Suc a" "Suc c" "Some (a, Suc c)"] f ab by auto
      qed
    qed
  qed
qed

lemma skip_stars_eq:
  assumes s: "strings_at m pat P tgt T"
  shows "i \<le> length P \<Longrightarrow> skip_stars m pat (of_nat (length P)) (of_nat i) = of_nat (length P) \<longleftrightarrow> (\<forall>p\<in>set (drop i P). p = 0x2A)"
proof (induction "length P - i" arbitrary: i)
  case 0
  then show ?case by (subst skip_stars.simps) simp
next
  case (Suc n)
  note sd = strings_atD [OF s]
  have i: "i < length P" "n = length P - Suc i" using Suc(2) by auto
  have d: "drop i P = P ! i # drop (Suc i) P" using i(1) by (metis Cons_nth_drop_Suc)
  have ne: "(of_nat i :: u32) \<noteq> of_nat (length P)" using sd(4) [of i] i(1) by auto
  show ?case
  proof (cases "P ! i = 0x2A")
    case True
    then have "skip_stars m pat (of_nat (length P)) (of_nat i) = skip_stars m pat (of_nat (length P)) (of_nat (Suc i))"
      using i by (subst skip_stars.simps) (simp add: sd add.commute)
    then show ?thesis using Suc(1) [OF i(2)] i(1) True unfolding d by simp
  next
    case False
    then have "skip_stars m pat (of_nat (length P)) (of_nat i) = of_nat i"
      using i by (subst skip_stars.simps) (simp add: sd)
    then show ?thesis using False ne unfolding d by simp
  qed
qed

section \<open>Property\<close>

text \<open>C26: F$CmpNam returns for every pattern and every terminated name and reports a match exactly when the
  pattern matches in the recursive sense, where a question mark stands for one character, an asterisk for any
  number of them and letters are compared without case.  Its single fallback point is therefore as good as a stack of them.\<close>

theorem cmpnam_glob:
  assumes "strings_at m pat P tgt T" "pat \<noteq> 0" "tgt \<noteq> 0"
  shows "Q9K_ProcCmpNam m pat (of_nat (length P)) tgt = Some (if glob P T then None else Some Q9K_E_DIFFER)"
proof -
  have u: "ucast (of_nat (length P) :: u16) = (of_nat (length P) :: u32)"
    using assms(1) by (simp add: strings_at_def word_unat_eq_iff unsigned_ucast_eq unsigned_of_nat take_bit_nat_eq_self)
  obtain r where r: "cmpnam_loop m pat (of_nat (length P)) tgt 0 0 None = Some (map_option of_nat r)"
    "\<And>k. r = Some k \<Longrightarrow> k \<le> length P" "glob P T \<longleftrightarrow> (\<exists>k. r = Some k \<and> (\<forall>p\<in>set (drop k P). p = 0x2A))"
    using cmpnam_loop_match [OF assms(1), of 0 0 None] by (auto simp: star_ok_def word_star_def loop_match_def)
  show ?thesis
  proof (cases r)
    case None
    then show ?thesis using r assms(2,3) by (simp add: Q9K_ProcCmpNam_def u)
  next
    case (Some k)
    then show ?thesis using r assms(2,3) skip_stars_eq [OF assms(1), of k] by (auto simp: Q9K_ProcCmpNam_def u)
  qed
qed

text \<open>The pattern \<^verbatim>\<open>*A?\<close> against the name \<^verbatim>\<open>xaab\<close>.\<close>

theorem cmpnam_glob_witness:
  "Q9K_ProcCmpNam ((\<lambda>_. 0)(0x100 := 0x2A, 0x101 := 0x41, 0x102 := 0x3F, 0x200 := 0x78, 0x201 := 0x61, 0x202 := 0x61, 0x203 := 0x62))
     0x100 3 0x200 = Some None"
proof -
  let ?m = "(\<lambda>_. 0 :: u8)(0x100 := 0x2A, 0x101 := 0x41, 0x102 := 0x3F, 0x200 := 0x78, 0x201 := 0x61, 0x202 := 0x61, 0x203 := 0x62)"
  have "strings_at ?m 0x100 [0x2A, 0x41, 0x3F] 0x200 [0x78, 0x61, 0x61, 0x62]"
    by (simp add: strings_at_def All_less_Suc2)
  from cmpnam_glob [OF this] show ?thesis by (simp add: Q9K_CmpNamFold_def)
qed

end
