(* ===== verification/Q9_ProcEnd.thy ===== *)
theory Q9_ProcEnd
  imports Q9_TrapLink Q9_Alarm Q9_IoPath
begin

text \<open>
  The end of a process (\<^verbatim>\<open>q9kernel_procend.c\<close>): F$Exit, F$Wait, F$DExit, and the release of everything
  a process owns: its paths, its trap handlers, its memory and its alarms.  Unlinking a module and
  picking the next process walk linked lists, so the operations that contain them return an option
  whose \<^term>\<open>None\<close> stands for a walk that does not end.
\<close>

abbreviation Q9K_PROCDESC_PARENT_OFF :: u32 where "Q9K_PROCDESC_PARENT_OFF \<equiv> 0x1B8"
abbreviation Q9K_PROCDESC_EXITSTATUS_OFF :: u32 where "Q9K_PROCDESC_EXITSTATUS_OFF \<equiv> 0x1C0"
abbreviation Q9K_PROCDESC_DBGPAR_OFF :: u32 where "Q9K_PROCDESC_DBGPAR_OFF \<equiv> 0x2C4"
abbreviation Q9K_PROCDESC_DBGINSTR_OFF :: u32 where "Q9K_PROCDESC_DBGINSTR_OFF \<equiv> 0x2C8"
abbreviation Q9K_PROCDESC_DBGTOTAL_OFF :: u32 where "Q9K_PROCDESC_DBGTOTAL_OFF \<equiv> 0x2CC"
abbreviation Q9K_MGRREF_ADDR :: u32 where "Q9K_MGRREF_ADDR \<equiv> 0x2500"
abbreviation Q9K_PROCPOOL_FREE_ADDR :: u32 where "Q9K_PROCPOOL_FREE_ADDR \<equiv> 0x120C"
abbreviation Q9K_E_PRCABT :: u32 where "Q9K_E_PRCABT \<equiv> 0xE4"
abbreviation Q9K_E_NOCHLD :: u16 where "Q9K_E_NOCHLD \<equiv> 0xE2"

section \<open>Releasing paths, handlers and memory\<close>

definition path_slots :: "u32 list" where
  "path_slots = map of_nat [0..<32]"

definition release_path :: "u32 \<Rightarrow> u32 \<Rightarrow> memory \<Rightarrow> memory" where
  "release_path desc i m =
     (let pathNum = Q9K_GetU16 m (desc + Q9K_PROCDESC_PATH_OFF + i * 2) in
      if pathNum = 0 then m
      else
        let m1 = Q9K_SetU16 m (desc + Q9K_PROCDESC_PATH_OFF + i * 2) 0 in
        if pathNum < 3 then m1
        else if pathNum AND 0x8000 \<noteq> 0 then
          let mgr = Q9K_MGRREF_ADDR + ucast (pathNum AND 0x3F);
              r = Q9K_GetU8 m1 mgr
          in if r > 0 then Q9K_SetU8 m1 mgr (r - 1) else m1
        else
          let pathDesc = Q9K_GetU32 m1 Q9K_PATHPOOL_BASE_ADDR + (ucast pathNum - 3) * Q9K_PATHDESC_SIZE;
              refs = Q9K_GetU16 m1 (pathDesc + Q9K_PATHDESC_REF_OFF);
              refs' = (if refs > 0 then refs - 1 else refs);
              m2 = Q9K_SetU16 m1 (pathDesc + Q9K_PATHDESC_REF_OFF) refs'
          in if refs' = 0
             then Q9K_SetU32 (Q9K_SetU32 m2 pathDesc (Q9K_GetU32 m2 Q9K_PATHPOOL_FREE_ADDR)) Q9K_PATHPOOL_FREE_ADDR pathDesc
             else m2)"

definition Q9K_ProcReleasePaths :: "memory \<Rightarrow> u32 \<Rightarrow> memory" where
  "Q9K_ProcReleasePaths m desc = fold (release_path desc) path_slots m"

fun release_traps :: "u32 list \<Rightarrow> u32 \<Rightarrow> memory \<Rightarrow> memory option" where
  "release_traps [] desc m = Some m"
| "release_traps (t # ts) desc m = do {
     let modPtr = Q9K_GetU32 m (trap_slot desc t + Q9K_TRAPTBL_OFF_MODPTR);
     m1 \<leftarrow> (if modPtr \<noteq> 0 then map_option snd (Q9K_ModDirUnlinkByHeader m modPtr) else Some m);
     release_traps ts desc (put_trap_slot m1 desc t 0 0 0 0)
   }"

text \<open>The C loop counts from 0; \<^const>\<open>trap_slot\<close> takes the trap number, which is one more.\<close>

abbreviation trap_numbers :: "u32 list" where "trap_numbers \<equiv> [1, 2, 3, 4, 5, 6, 7, 8, 9, 10, 11, 12, 13, 14, 15]"

definition Q9K_ProcReleaseTrapLinks :: "memory \<Rightarrow> u32 \<Rightarrow> memory option" where
  "Q9K_ProcReleaseTrapLinks m desc = release_traps trap_numbers desc m"

definition Q9K_ProcReleaseMemory :: "memory \<Rightarrow> u32 \<Rightarrow> memory" where
  "Q9K_ProcReleaseMemory m desc =
     (let base = Q9K_GetU32 m (desc + Q9K_PROCDESC_ALLOCBASE_OFF);
          blockSize = Q9K_GetU32 m (desc + Q9K_PROCDESC_ALLOCSIZE_OFF);
          m1 = Q9K_SetU32 m (desc + Q9K_PROCDESC_ALLOCBASE_OFF) 0;
          m2 = Q9K_SetU32 m1 (desc + Q9K_PROCDESC_ALLOCSIZE_OFF) 0;
          m3 = (if base \<noteq> 0 \<and> blockSize \<noteq> 0 then Q9K_FreeMem m2 base blockSize else m2)
      in Q9K_ProcMemReleaseAll m3 desc)"

definition pool_put :: "memory \<Rightarrow> u32 \<Rightarrow> memory" where
  "pool_put m desc =
     (let m1 = Q9K_SetU32 m (desc + Q9K_PROCDESC_PARENT_OFF) 0;
          m2 = Q9K_SetU32 m1 (desc + Q9K_PROCDESC_MODHDR_OFF) 0;
          m3 = Q9K_SetU16 m2 (desc + Q9K_PROCDESC_EXITSTATUS_OFF) 0;
          m4 = Q9K_SetU32 m3 (desc + Q9K_PROCDESC_DBGPAR_OFF) 0;
          m5 = Q9K_SetU32 m4 (desc + Q9K_PROCDESC_DBGINSTR_OFF) 0;
          m6 = Q9K_SetU32 m5 (desc + Q9K_PROCDESC_DBGTOTAL_OFF) 0;
          m7 = Q9K_SetU32 m6 desc (Q9K_GetU32 m6 Q9K_PROCPOOL_FREE_ADDR)
      in Q9K_SetU32 m7 Q9K_PROCPOOL_FREE_ADDR desc)"

definition Q9K_ProcPoolFree :: "memory \<Rightarrow> u32 \<Rightarrow> memory option" where
  "Q9K_ProcPoolFree m desc = do {
     m1 \<leftarrow> Q9K_ProcReleaseTrapLinks (Q9K_AlarmCleanupProcess m desc) desc;
     Some (pool_put (Q9K_ProcReleaseMemory (Q9K_ProcReleasePaths m1 desc) desc) desc)
   }"

section \<open>F$Exit\<close>

definition zombie_child :: "memory \<Rightarrow> u32 \<Rightarrow> u32 \<Rightarrow> bool" where
  "zombie_child m callerDesc slot \<longleftrightarrow>
     Q9K_GetU32 m (slot + Q9K_PROCDESC_PARENT_OFF) = callerDesc \<and>
     Q9K_GetU8 m (slot + Q9K_PROCDESC_STATE_OFF) = Q9K_PROCDESC_STATE_ZOMBIE"

fun free_dead :: "nat \<Rightarrow> u32 \<Rightarrow> u32 \<Rightarrow> memory \<Rightarrow> memory option" where
  "free_dead 0 callerDesc slot m = Some m"
| "free_dead (Suc n) callerDesc slot m = do {
     m1 \<leftarrow> (if zombie_child m callerDesc slot then Q9K_ProcPoolFree m slot else Some m);
     free_dead n callerDesc (slot + Q9K_PROCDESC_SIZE) m1
   }"

definition Q9K_ProcExitFreeDeadChildren :: "memory \<Rightarrow> u32 \<Rightarrow> memory option" where
  "Q9K_ProcExitFreeDeadChildren m callerDesc =
     free_dead (unat (Q9K_GetU32 m Q9K_PROCPOOL_COUNT_ADDR)) callerDesc (Q9K_GetU32 m Q9K_PROCPOOL_BASE_ADDR) m"

definition Q9K_ProcDebugChildExit :: "memory \<Rightarrow> u32 \<Rightarrow> u32 \<Rightarrow> u16 \<Rightarrow> (u32 \<times> memory) option" where
  "Q9K_ProcDebugChildExit m child owner exitStatus =
     (let ownerSP = Q9K_GetU32 m (owner + Q9K_PROCDESC_SAVEDSP_OFF);
          m1 = Q9K_SetU16 m (child + Q9K_PROCDESC_EXITSTATUS_OFF) exitStatus;
          m2 = Q9K_SetU8 m1 (child + Q9K_PROCDESC_STATE_OFF) Q9K_PROCDESC_STATE_WAITING;
          m3 = Q9K_SetU32 m2 (child + Q9K_PROCDESC_DBGINSTR_OFF) 0
      in if owner = 0 \<or> Q9K_GetU8 m3 (owner + Q9K_PROCDESC_STATE_OFF) \<noteq> Q9K_PROCDESC_STATE_WAITING
         then Q9K_SchedFirstPick m3
         else
           let m4 = Q9K_SetFrameReg m3 ownerSP 0 (Q9K_GetU32 m3 (child + Q9K_PROCDESC_DBGTOTAL_OFF));
               m5 = Q9K_SetFrameReg m4 ownerSP 1 Q9K_E_PRCABT;
               m6 = Q9K_SetFrameReg m5 ownerSP 2 0;
               m7 = Q9K_SetU16 m6 (ownerSP + 60) (Q9K_GetU16 m6 (ownerSP + 60) OR 1);
               m8 = Q9K_WaitQRemove m7 owner;
               m9 = Q9K_SetU8 m8 (owner + Q9K_PROCDESC_STATE_OFF) Q9K_PROCDESC_STATE_ACTIVE
           in Q9K_SchedFirstPick (Q9K_SchedInsert m9 owner))"

text \<open>Waking a parent that waits: the child's process ID and exit status go into its saved d0 and d1.\<close>

definition wake_parent :: "memory \<Rightarrow> u32 \<Rightarrow> u32 \<Rightarrow> u16 \<Rightarrow> memory" where
  "wake_parent m callerDesc parentDesc exitStatus =
     (let childPid = (callerDesc - Q9K_GetU32 m Q9K_PROCPOOL_BASE_ADDR) div Q9K_PROCDESC_SIZE + 1;
          parentSP = Q9K_GetU32 m (parentDesc + Q9K_PROCDESC_SAVEDSP_OFF);
          m1 = Q9K_WaitQRemove m parentDesc;
          m2 = Q9K_SetFrameReg m1 parentSP 0 childPid;
          m3 = Q9K_SetFrameReg m2 parentSP 1 (ucast exitStatus);
          m4 = Q9K_SetU8 m3 (parentDesc + Q9K_PROCDESC_STATE_OFF) Q9K_PROCDESC_STATE_ACTIVE
      in Q9K_SchedInsert m4 parentDesc)"

text \<open>The main module of a process goes back to the directory.\<close>

definition release_module :: "memory \<Rightarrow> u32 \<Rightarrow> u32 \<Rightarrow> memory option" where
  "release_module m desc modHdr =
     (if modHdr \<noteq> 0
      then map_option (\<lambda>(_, m1). Q9K_SetU32 m1 (desc + Q9K_PROCDESC_MODHDR_OFF) 0) (Q9K_ModDirUnlinkByHeader m modHdr)
      else Some m)"

definition Q9K_ProcExit :: "memory \<Rightarrow> u32 \<Rightarrow> u16 \<Rightarrow> (u32 \<times> memory) option" where
  "Q9K_ProcExit m callerDesc exitStatus =
     (let modHdr = Q9K_GetU32 m (callerDesc + Q9K_PROCDESC_MODHDR_OFF);
          parentDesc = Q9K_GetU32 m (callerDesc + Q9K_PROCDESC_PARENT_OFF)
      in if Q9K_GetU32 m (callerDesc + Q9K_PROCDESC_DBGPAR_OFF) \<noteq> 0
         then Q9K_ProcDebugChildExit m callerDesc (Q9K_GetU32 m (callerDesc + Q9K_PROCDESC_DBGPAR_OFF)) exitStatus
         else do {
           m1 \<leftarrow> release_module m callerDesc modHdr;
           m2 \<leftarrow> Q9K_ProcReleaseTrapLinks m1 callerDesc;
           m3 \<leftarrow> Q9K_ProcExitFreeDeadChildren (Q9K_ProcReleaseMemory (Q9K_ProcReleasePaths m2 callerDesc) callerDesc) callerDesc;
           m4 \<leftarrow> (if parentDesc \<noteq> 0 \<and> Q9K_GetU8 m3 (parentDesc + Q9K_PROCDESC_STATE_OFF) = Q9K_PROCDESC_STATE_WAITING
                  then Q9K_ProcPoolFree (wake_parent m3 callerDesc parentDesc exitStatus) callerDesc
                  else Some (Q9K_SetU16 (Q9K_SetU8 m3 (callerDesc + Q9K_PROCDESC_STATE_OFF) Q9K_PROCDESC_STATE_ZOMBIE)
                              (callerDesc + Q9K_PROCDESC_EXITSTATUS_OFF) exitStatus));
           Q9K_SchedFirstPick m4
         })"

definition Q9K_SysExitImpl :: "memory \<Rightarrow> memory option" where
  "Q9K_SysExitImpl m = do {
     (next, m1) \<leftarrow> Q9K_ProcExit m (Q9K_GetU32 m Q9_D_PROC) (Q9K_GetU16 m 0x12E8);
     Some (Q9K_SetU32 m1 0x12EC next)
   }"

section \<open>F$Wait\<close>

text \<open>What a scan of the pool for children finds.\<close>

datatype reap = Reaped (reap_pid: u32) (reap_status: u16) memory | NoChild | MustBlock

text \<open>The scan from slot \<open>i\<close> on; the flag tells whether a living child was seen.\<close>

fun reap_scan :: "nat \<Rightarrow> u32 \<Rightarrow> u32 \<Rightarrow> u32 \<Rightarrow> bool \<Rightarrow> memory \<Rightarrow> reap option" where
  "reap_scan 0 base callerDesc slot hasAnyChild m = Some (if hasAnyChild then MustBlock else NoChild)"
| "reap_scan (Suc n) base callerDesc slot hasAnyChild m =
     (if Q9K_GetU32 m (slot + Q9K_PROCDESC_PARENT_OFF) \<noteq> callerDesc
      then reap_scan n base callerDesc (slot + Q9K_PROCDESC_SIZE) hasAnyChild m
      else if Q9K_GetU8 m (slot + Q9K_PROCDESC_STATE_OFF) = Q9K_PROCDESC_STATE_ZOMBIE
      then map_option (Reaped ((slot - base) div Q9K_PROCDESC_SIZE + 1) (Q9K_GetU16 m (slot + Q9K_PROCDESC_EXITSTATUS_OFF)))
             (Q9K_ProcPoolFree m slot)
      else reap_scan n base callerDesc (slot + Q9K_PROCDESC_SIZE) True m)"

definition Q9K_ProcWaitTryReap :: "memory \<Rightarrow> u32 \<Rightarrow> reap option" where
  "Q9K_ProcWaitTryReap m callerDesc =
     (let base = Q9K_GetU32 m Q9K_PROCPOOL_BASE_ADDR;
          count = Q9K_GetU32 m Q9K_PROCPOOL_COUNT_ADDR
      in reap_scan (unat count) base callerDesc base False m)"

definition Q9K_WaitSignalPending :: "memory \<Rightarrow> u32 \<Rightarrow> bool \<times> memory" where
  "Q9K_WaitSignalPending m desc =
     (if desc = 0 then (False, m)
      else
        let m1 = Q9K_SetU8 m (desc + Q9K_PROCDESC_SIGLVL_OFF) 0 in
        (Q9K_GetU8 m1 (desc + Q9K_PROCDESC_SIGNAL_OFF) OR Q9K_GetU8 m1 (desc + Q9K_PROCDESC_SIGNAL_OFF + 1) \<noteq> 0, m1))"

definition Q9K_SysWaitImpl :: "memory \<Rightarrow> memory option" where
  "Q9K_SysWaitImpl m = do {
     let callerDesc = Q9K_GetU32 m Q9_D_PROC;
     r \<leftarrow> Q9K_ProcWaitTryReap m callerDesc;
     Some (case r of
       Reaped childPid exitStatus m1 \<Rightarrow>
         Q9K_SetU16 (Q9K_SetU16 (Q9K_SetU16 m1 0x12D8 (ucast childPid)) 0x12DC exitStatus) 0x12E4 1
     | NoChild \<Rightarrow> Q9K_SetU16 (Q9K_SetU16 m 0x12E0 Q9K_E_NOCHLD) 0x12E4 2
     | MustBlock \<Rightarrow>
         (let (pending, m1) = Q9K_WaitSignalPending m callerDesc in
          if pending
          then if Q9K_GetU32 m1 (callerDesc + Q9K_PROCDESC_SIGVEC_OFF) \<noteq> 0 then Q9K_SetU16 m1 0x12E4 3
               else Q9K_SetU16 (Q9K_SetU16 (Q9K_SetU16 m1 0x12D8 0) 0x12DC 0) 0x12E4 1
          else Q9K_SetU16 m1 0x12E4 0))
   }"

definition Q9K_ProcWaitDeliver :: "memory \<Rightarrow> (u32 \<times> memory) option" where
  "Q9K_ProcWaitDeliver m =
     (let desc = Q9K_GetU32 m Q9_D_PROC;
          pending = Q9K_GetU16 m (desc + Q9K_PROCDESC_SIGNAL_OFF);
          m1 = Q9K_SchedInsert m desc
      in Q9K_SchedFirstPick (if pending \<noteq> 0 then snd (Q9K_IcptDeliver m1 desc pending) else m1))"

section \<open>F$DExit\<close>

definition Q9K_ProcDebugExit :: "memory \<Rightarrow> u16 \<Rightarrow> (u16 + memory) option" where
  "Q9K_ProcDebugExit m childPid =
     (let base = Q9K_GetU32 m Q9K_PROCPOOL_BASE_ADDR;
          count = Q9K_GetU32 m Q9K_PROCPOOL_COUNT_ADDR;
          desc = base + (ucast childPid - 1) * Q9K_PROCDESC_SIZE;
          owner = Q9K_GetU32 m (desc + Q9K_PROCDESC_DBGPAR_OFF)
      in if childPid = 0 \<or> ucast childPid > count then Some (Inl Q9K_E_PRCID)
         else if Q9K_GetU8 m (desc + Q9K_PROCDESC_STATE_OFF) \<noteq> Q9K_PROCDESC_STATE_WAITING then Some (Inl Q9K_E_PRCID)
         else if owner = 0 \<or> owner \<noteq> Q9K_GetU32 m Q9_D_PROC then Some (Inl Q9K_E_PRCID)
         else do {
           m1 \<leftarrow> release_module m desc (Q9K_GetU32 m (desc + Q9K_PROCDESC_MODHDR_OFF));
           m2 \<leftarrow> Q9K_ProcPoolFree m1 desc;
           Some (Inr m2)
         })"

definition Q9K_SysDExitImpl :: "memory \<Rightarrow> memory option" where
  "Q9K_SysDExitImpl m = do {
     r \<leftarrow> Q9K_ProcDebugExit m (Q9K_GetU16 m 0x1EEC);
     Some (case r of
       Inl err \<Rightarrow> Q9K_SetU16 (Q9K_SetU16 m 0x1EF0 err) 0x1EF4 0
     | Inr m1 \<Rightarrow> Q9K_SetU16 (Q9K_SetU16 m1 0x1EF0 0) 0x1EF4 1)
   }"

end
