(* ===== verification/Q9_ProcEnd_Props.thy ===== *)
theory Q9_ProcEnd_Props
  imports Q9_ProcEnd Q9_SysMem_Props
begin

text \<open>
  F$Wait: what a scan of the process pool finds, and that collecting a child that has already
  released its resources only returns its descriptor to the pool.
\<close>

section \<open>A released process\<close>

text \<open>What F$Exit leaves of a process that becomes a zombie: no handler, no path, no memory.\<close>

definition released :: "memory \<Rightarrow> u32 \<Rightarrow> bool" where
  "released m d \<longleftrightarrow>
     (\<forall>t\<in>set trap_numbers. Q9K_GetU32 m (trap_slot d t) = 0 \<and> Q9K_GetU32 m (trap_slot d t + 4) = 0 \<and>
        Q9K_GetU32 m (trap_slot d t + 8) = 0 \<and> Q9K_GetU32 m (d + Q9K_TRAPTBL_SIZE_BASE + (t - 1) * 4) = 0) \<and>
     (\<forall>i<32. Q9K_GetU16 m (d + Q9K_PROCDESC_PATH_OFF + i * 2) = 0) \<and>
     Q9K_GetU32 m (d + Q9K_PROCDESC_ALLOCBASE_OFF) = 0 \<and> Q9K_GetU32 m (d + Q9K_PROCDESC_ALLOCSIZE_OFF) = 0 \<and>
     Q9K_GetU32 m Q9K_MEMOWNER_MAGIC = memowner_magic \<and>
     (\<forall>i<32. Q9K_GetU32 m (Q9K_MEMOWNER_OWNER i) \<noteq> d)"

lemma zero_write: "Q9K_GetU32 m a = 0 \<Longrightarrow> Q9K_SetU32 m a 0 = m"
  using SetU32_GetU32 [of m a] by simp

lemma fold_id: "(\<And>x. x \<in> set xs \<Longrightarrow> f x s = s) \<Longrightarrow> fold f xs s = s"
  by (induction xs) auto

lemma slots32: "i \<in> set (map of_nat [0..<32]) \<Longrightarrow> i < 32" for i :: u32
  by (auto simp: word_less_nat_alt unat_of_nat_u32)

lemma release_traps_id:
  "(\<And>t. t \<in> set ts \<Longrightarrow> Q9K_GetU32 m (trap_slot d t) = 0 \<and> Q9K_GetU32 m (trap_slot d t + 4) = 0 \<and>
      Q9K_GetU32 m (trap_slot d t + 8) = 0 \<and> Q9K_GetU32 m (d + Q9K_TRAPTBL_SIZE_BASE + (t - 1) * 4) = 0) \<Longrightarrow>
   release_traps ts d m = Some m"
  by (induction ts) (simp_all add: put_trap_slot_def zero_write)

lemma released_traps: "released m d \<Longrightarrow> Q9K_ProcReleaseTrapLinks m d = Some m"
  unfolding Q9K_ProcReleaseTrapLinks_def released_def by (blast intro: release_traps_id)

lemma released_paths: "released m d \<Longrightarrow> Q9K_ProcReleasePaths m d = m"
  unfolding Q9K_ProcReleasePaths_def path_slots_def
  by (rule fold_id) (drule slots32, simp add: release_path_def released_def)

lemma released_memory: "released m d \<Longrightarrow> Q9K_ProcReleaseMemory m d = m"
proof -
  assume r: "released m d"
  have "fold (Q9K_ProcMemRelease_slot d) memowner_slots m = m"
    unfolding memowner_slots_def by (rule fold_id) (drule slots32, use r in \<open>simp add: Q9K_ProcMemRelease_slot_def released_def\<close>)
  then show ?thesis using r
    by (simp add: Q9K_ProcReleaseMemory_def Q9K_ProcMemReleaseAll_def Q9K_ProcMemTrackEnsure_def zero_write released_def)
qed

section \<open>Alarms\<close>

lemma alarm_clear_within:
  assumes "i \<in> set alarm_slots" shows "within Q9K_ALARM_BASE 0xE0 m (alarm_clear m i)"
proof -
  have p: "within Q9K_ALARM_BASE 0xE0 m (Q9K_SetU32 m' (Q9K_ALARM_ID i + j) v)"
    if "within Q9K_ALARM_BASE 0xE0 m m'" "j \<in> {0, 4, 8, 12, 16, 20, 24}" for m' j v
    using within_put(1) [of "i * 28 + j" "0xE0" Q9K_ALARM_BASE m m' v] assms that by (auto simp: add.assoc)
  from p [of _ 0] show ?thesis unfolding alarm_clear_def Let_def by (intro p) simp_all
qed

lemma fold_within: "(\<And>x s. x \<in> set xs \<Longrightarrow> within a n s (f x s)) \<Longrightarrow> within a n m (fold f xs m)"
  by (induction xs arbitrary: m) (auto intro: within_trans)

lemma cleanup_within: "within Q9K_ALARM_BASE 0xE0 m (Q9K_AlarmCleanupProcess m d)"
  unfolding Q9K_AlarmCleanupProcess_def Let_def
  by (auto intro!: fold_within alarm_clear_within simp del: fold.simps)

lemma released_alarm:
  assumes "released m d" "desc_ok d" "within Q9K_ALARM_BASE 0xE0 m m'"
  shows "released m' d"
proof -
  note g = within_get [OF assms(3)] and dg = desc_global(2) [OF assms(2)]
  have k4: "Q9K_GetU32 m' (d + j) = Q9K_GetU32 m (d + j)" if "unat j + 4 \<le> 0x400" for j
    using that by (intro g(3) dg) simp_all
  have k2: "Q9K_GetU16 m' (d + j) = Q9K_GetU16 m (d + j)" if "unat j + 2 \<le> 0x400" for j
    using that by (intro g(2) dg) simp_all
  have tr: "Q9K_GetU32 m' (trap_slot d t + j) = Q9K_GetU32 m (trap_slot d t + j) \<and>
      Q9K_GetU32 m' (d + Q9K_TRAPTBL_SIZE_BASE + (t - 1) * 4) = Q9K_GetU32 m (d + Q9K_TRAPTBL_SIZE_BASE + (t - 1) * 4)"
    if "t \<in> set trap_numbers" "j \<in> {0, 4, 8}" for t j
    using that by (auto simp: trap_slot_def add.assoc k4)
  have "unat (Q9K_PROCDESC_PATH_OFF + i * 2) + 2 \<le> 0x400" if "i < 32" for i :: u32
  proof -
    have "unat (i * 2) = unat i * 2" using that unat_mult_lem [of i 2] by (simp add: word_less_nat_alt)
    then show ?thesis using that unat_offset [of Q9K_PROCDESC_PATH_OFF "i * 2"] by (simp add: word_less_nat_alt)
  qed
  then have p: "Q9K_GetU16 m' (d + Q9K_PROCDESC_PATH_OFF + i * 2) = Q9K_GetU16 m (d + Q9K_PROCDESC_PATH_OFF + i * 2)"
    if "i < 32" for i using that k2 by (simp add: add.assoc)
  have w: "Q9K_GetU32 m' x = Q9K_GetU32 m x" if "unat x + 4 \<le> 0x1A00" for x
    using that by (intro g(3) apart_ranges) (auto simp: disjoint_iff)
  have "unat (Q9K_MEMOWNER_OWNER i) + 4 \<le> 0x1A00" if "i < 32" for i :: u32
    using slot_unats(1) [of i] that by (simp add: word_less_nat_alt)
  then show ?thesis using assms(1) tr [of _ 0] tr [of _ 4] tr [of _ 8] p w k4
    unfolding released_def by simp
qed

section \<open>The scan\<close>

definition pool_slot :: "memory \<Rightarrow> nat \<Rightarrow> u32" where
  "pool_slot m i = Q9K_GetU32 m Q9K_PROCPOOL_BASE_ADDR + of_nat i * Q9K_PROCDESC_SIZE"

lemma slot_step: "pool_slot m i + Q9K_PROCDESC_SIZE = pool_slot m (Suc i)"
  by (simp add: pool_slot_def algebra_simps)

lemma reap_scan_find:
  "reap_scan n base c (pool_slot m i) h m =
     (case List.find (\<lambda>j. zombie_child m c (pool_slot m j)) [i..<i + n] of
        Some j \<Rightarrow> map_option (Reaped ((pool_slot m j - base) div Q9K_PROCDESC_SIZE + 1)
                     (Q9K_GetU16 m (pool_slot m j + Q9K_PROCDESC_EXITSTATUS_OFF))) (Q9K_ProcPoolFree m (pool_slot m j))
      | None \<Rightarrow> Some (if h \<or> (\<exists>j\<in>{i..<i + n}. Q9K_GetU32 m (pool_slot m j + Q9K_PROCDESC_PARENT_OFF) = c) then MustBlock else NoChild))"
proof (induction n arbitrary: i h)
  case (Suc n)
  have u: "[i..<i + Suc n] = i # [Suc i..<Suc i + n]" by (simp add: upt_rec)
  have e: "{i..<i + Suc n} = insert i {Suc i..<Suc i + n}" by auto
  show ?case unfolding u e by (simp only: reap_scan.simps slot_step Suc.IH) (auto simp: zombie_child_def)
qed simp

section \<open>Collecting a child\<close>

lemma slot_nat:
  assumes "unat (Q9K_GetU32 m Q9K_PROCPOOL_BASE_ADDR) + n * 0x400 \<le> 0xFFFF0000" "i < n"
  shows "unat (pool_slot m i) = unat (Q9K_GetU32 m Q9K_PROCPOOL_BASE_ADDR) + i * 0x400"
    "(pool_slot m i - Q9K_GetU32 m Q9K_PROCPOOL_BASE_ADDR) div Q9K_PROCDESC_SIZE = of_nat i"
proof -
  have i: "unat (of_nat i * Q9K_PROCDESC_SIZE :: u32) = i * 0x400"
    using assms unat_mult_lem [of "of_nat i :: u32" Q9K_PROCDESC_SIZE] unat_of_nat_u32 [of i] by simp
  then show "unat (pool_slot m i) = unat (Q9K_GetU32 m Q9K_PROCPOOL_BASE_ADDR) + i * 0x400"
    using assms unat_offset [of "Q9K_GetU32 m Q9K_PROCPOOL_BASE_ADDR" "of_nat i * Q9K_PROCDESC_SIZE"] by (simp add: pool_slot_def)
  have "unat ((pool_slot m i - Q9K_GetU32 m Q9K_PROCPOOL_BASE_ADDR) div Q9K_PROCDESC_SIZE) = i"
    using i by (simp add: pool_slot_def unat_div)
  then show "(pool_slot m i - Q9K_GetU32 m Q9K_PROCPOOL_BASE_ADDR) div Q9K_PROCDESC_SIZE = of_nat i"
    by (metis of_nat_unat ucast_id)
qed

lemma pool_put_spec:
  assumes "desc_ok d"
  shows "Q9K_GetU32 (pool_put m d) (d + Q9K_PROCDESC_PARENT_OFF) = 0" "Q9K_GetU32 (pool_put m d) d = Q9K_GetU32 m Q9K_PROCPOOL_FREE_ADDR"
    "Q9K_GetU32 (pool_put m d) Q9K_PROCPOOL_FREE_ADDR = d"
    "(\<forall>i<0x400. b \<noteq> d + i) \<Longrightarrow> (\<forall>i<4. b \<noteq> Q9K_PROCPOOL_FREE_ADDR + i) \<Longrightarrow> pool_put m d b = m b"
proof -
  note dg = desc_global [OF assms] desc_global [OF assms, of 0, simplified]
  show "Q9K_GetU32 (pool_put m d) (d + Q9K_PROCDESC_PARENT_OFF) = 0" "Q9K_GetU32 (pool_put m d) d = Q9K_GetU32 m Q9K_PROCPOOL_FREE_ADDR"
    "Q9K_GetU32 (pool_put m d) Q9K_PROCPOOL_FREE_ADDR = d"
    by (simp_all add: pool_put_def Let_def dg)
  define x where "x = Q9K_GetU32 m Q9K_PROCPOOL_FREE_ADDR"
  have e: "pool_put m d = Q9K_SetU32 (Q9K_SetU32 (Q9K_SetU32 (Q9K_SetU32 (Q9K_SetU32 (Q9K_SetU16 (Q9K_SetU32 (Q9K_SetU32 m
      (d + Q9K_PROCDESC_PARENT_OFF) 0) (d + Q9K_PROCDESC_MODHDR_OFF) 0) (d + Q9K_PROCDESC_EXITSTATUS_OFF) 0)
      (d + Q9K_PROCDESC_DBGPAR_OFF) 0) (d + Q9K_PROCDESC_DBGINSTR_OFF) 0) (d + Q9K_PROCDESC_DBGTOTAL_OFF) 0) (d + 0) x) Q9K_PROCPOOL_FREE_ADDR d"
    unfolding pool_put_def Let_def x_def by (simp add: dg)
  have "within d 0x400 m (Q9K_SetU32 (Q9K_SetU32 (Q9K_SetU32 (Q9K_SetU32 (Q9K_SetU16 (Q9K_SetU32 (Q9K_SetU32 m
      (d + Q9K_PROCDESC_PARENT_OFF) 0) (d + Q9K_PROCDESC_MODHDR_OFF) 0) (d + Q9K_PROCDESC_EXITSTATUS_OFF) 0)
      (d + Q9K_PROCDESC_DBGPAR_OFF) 0) (d + Q9K_PROCDESC_DBGINSTR_OFF) 0) (d + Q9K_PROCDESC_DBGTOTAL_OFF) 0) (d + 0) x)"
    by (intro within_put within_refl) simp_all
  then show "(\<forall>i<0x400. b \<noteq> d + i) \<Longrightarrow> (\<forall>i<4. b \<noteq> Q9K_PROCPOOL_FREE_ADDR + i) \<Longrightarrow> pool_put m d b = m b"
    unfolding e by (subst c32.put_local) (auto simp: within_def)
qed

lemma pool_free_released:
  assumes "released m d" "desc_ok d"
  shows "Q9K_ProcPoolFree m d = Some (pool_put (Q9K_AlarmCleanupProcess m d) d)"
  using released_alarm [OF assms cleanup_within]
  by (simp add: Q9K_ProcPoolFree_def released_traps released_paths released_memory)

text \<open>C25: F$Wait always comes to a decision.  It collects the first zombie child of the pool, reporting the
  process ID that belongs to its slot and the exit status the child left; the descriptor becomes the head of the free
  list with its parent cleared, and besides it, the head of the list and the alarm table no byte changes.  Without a zombie
  it blocks if there is a living child and otherwise reports that there is none.  A zombie has released its resources, as
  F$Exit does before it leaves one.\<close>

theorem wait_reap_spec:
  assumes base: "0x8000 \<le> unat (Q9K_GetU32 m Q9K_PROCPOOL_BASE_ADDR)"
    and n: "n = unat (Q9K_GetU32 m Q9K_PROCPOOL_COUNT_ADDR)"
    and top: "unat (Q9K_GetU32 m Q9K_PROCPOOL_BASE_ADDR) + n * 0x400 \<le> 0xFFFF0000"
    and rel: "\<And>i. i < n \<Longrightarrow> zombie_child m c (pool_slot m i) \<Longrightarrow> released m (pool_slot m i)"
  shows "case List.find (\<lambda>i. zombie_child m c (pool_slot m i)) [0..<n] of
      Some i \<Rightarrow> \<exists>m'. Q9K_ProcWaitTryReap m c = Some (Reaped (of_nat i + 1) (Q9K_GetU16 m (pool_slot m i + Q9K_PROCDESC_EXITSTATUS_OFF)) m') \<and>
        Q9K_GetU32 m' (pool_slot m i + Q9K_PROCDESC_PARENT_OFF) = 0 \<and> Q9K_GetU32 m' Q9K_PROCPOOL_FREE_ADDR = pool_slot m i \<and>
        Q9K_GetU32 m' (pool_slot m i) = Q9K_GetU32 m Q9K_PROCPOOL_FREE_ADDR \<and>
        (\<forall>b. (\<forall>k<0x400. b \<noteq> pool_slot m i + k) \<longrightarrow> (\<forall>k<4. b \<noteq> Q9K_PROCPOOL_FREE_ADDR + k) \<longrightarrow>
          (\<forall>k<0xE0. b \<noteq> Q9K_ALARM_BASE + k) \<longrightarrow> m' b = m b)
    | None \<Rightarrow> Q9K_ProcWaitTryReap m c =
        Some (if \<exists>i<n. Q9K_GetU32 m (pool_slot m i + Q9K_PROCDESC_PARENT_OFF) = c then MustBlock else NoChild)"
proof -
  have e: "Q9K_ProcWaitTryReap m c = reap_scan n (Q9K_GetU32 m Q9K_PROCPOOL_BASE_ADDR) c (pool_slot m 0) False m"
    by (simp add: Q9K_ProcWaitTryReap_def n pool_slot_def Let_def)
  show ?thesis
  proof (cases "List.find (\<lambda>i. zombie_child m c (pool_slot m i)) [0..<n]")
    case None
    then show ?thesis unfolding e reap_scan_find by (auto simp: Bex_def)
  next
    case (Some i)
    then have i: "i < n" "zombie_child m c (pool_slot m i)" by (auto simp: find_Some_iff)
    have d: "desc_ok (pool_slot m i)" using slot_nat(1) [OF top i(1)] base top i(1) by (simp add: desc_ok_def)
    define m1 where "m1 = Q9K_AlarmCleanupProcess m (pool_slot m i)"
    have w: "within Q9K_ALARM_BASE 0xE0 m m1" unfolding m1_def by (rule cleanup_within)
    have f: "Q9K_GetU32 m1 Q9K_PROCPOOL_FREE_ADDR = Q9K_GetU32 m Q9K_PROCPOOL_FREE_ADDR"
      by (rule within_get(3) [OF w]) simp
    have "Q9K_ProcWaitTryReap m c = Some (Reaped (of_nat i + 1) (Q9K_GetU16 m (pool_slot m i + Q9K_PROCDESC_EXITSTATUS_OFF))
        (pool_put m1 (pool_slot m i)))"
      unfolding e reap_scan_find using Some slot_nat(2) [OF top i(1)] pool_free_released [OF rel [OF i] d] by (simp add: m1_def)
    then show ?thesis using Some pool_put_spec [OF d, where m = m1] f w unfolding within_def by auto
  qed
qed

text \<open>A pool of two descriptors at \<^verbatim>\<open>0x10000\<close>; the second is a zombie child of the first with exit status 7.\<close>

definition ex_family :: memory where
  "ex_family = Q9K_SetU16 (Q9K_SetU8 (fold (\<lambda>(a, v) m. Q9K_SetU32 m a v)
     [(Q9K_PROCPOOL_BASE_ADDR, 0x10000), (Q9K_PROCPOOL_COUNT_ADDR, 2), (Q9K_MEMOWNER_MAGIC, memowner_magic),
      (0x10400 + Q9K_PROCDESC_PARENT_OFF, 0x10000)] (\<lambda>_. 0))
     (0x10400 + Q9K_PROCDESC_STATE_OFF) Q9K_PROCDESC_STATE_ZOMBIE) (0x10400 + Q9K_PROCDESC_EXITSTATUS_OFF) 7"

lemma ball_32: "(\<forall>i\<in>set (map of_nat [0..<32]). P i) \<Longrightarrow> (\<forall>i<32. P i)" for P :: "u32 \<Rightarrow> bool"
proof (intro allI impI)
  fix i :: u32 assume a: "\<forall>i\<in>set (map of_nat [0..<32]). P i" "i < 32"
  then have "unat i < 32" by (simp add: word_less_nat_alt)
  then have "i \<in> of_nat ` {0..<32}" by (intro image_eqI [of i _ "unat i"]) simp_all
  then show "P i" using a(1) by auto
qed

lemma ex_family_released: "released ex_family 0x10400"
proof -
  have "\<forall>i<32. Q9K_GetU16 ex_family (0x10400 + Q9K_PROCDESC_PATH_OFF + i * 2) = 0"
    by (rule ball_32) (simp add: upt_rec ex_family_def)
  moreover have "\<forall>i<32. Q9K_GetU32 ex_family (Q9K_MEMOWNER_OWNER i) \<noteq> 0x10400"
    by (rule ball_32) (simp add: upt_rec ex_family_def)
  ultimately show ?thesis unfolding released_def by (simp add: trap_slot_def) (simp add: ex_family_def)
qed

lemma ex_family_facts:
  "pool_slot ex_family 0 = 0x10000" "pool_slot ex_family 1 = 0x10400"
  "Q9K_GetU32 ex_family Q9K_PROCPOOL_BASE_ADDR = 0x10000" "Q9K_GetU32 ex_family Q9K_PROCPOOL_COUNT_ADDR = 2"
  "List.find (\<lambda>i. zombie_child ex_family 0x10000 (pool_slot ex_family i)) [0..<2] = Some 1"
  "Q9K_GetU16 ex_family (0x10400 + Q9K_PROCDESC_EXITSTATUS_OFF) = 7"
proof -
  show s: "pool_slot ex_family 0 = 0x10000" "pool_slot ex_family 1 = 0x10400" by (simp_all add: pool_slot_def ex_family_def)
  have z: "\<not> zombie_child ex_family 0x10000 0x10000" "zombie_child ex_family 0x10000 0x10400"
    by (simp_all add: zombie_child_def ex_family_def)
  have u: "[0..<2] = [0, 1 :: nat]" by (simp add: upt_rec)
  show "List.find (\<lambda>i. zombie_child ex_family 0x10000 (pool_slot ex_family i)) [0..<2] = Some 1" using s z by (simp add: u)
qed (simp_all add: ex_family_def)

lemma ex_family_zombies: "i < 2 \<Longrightarrow> zombie_child ex_family 0x10000 (pool_slot ex_family i) \<Longrightarrow> released ex_family (pool_slot ex_family i)"
  using ex_family_facts(1,2) ex_family_released by (auto simp: less_2_cases_iff zombie_child_def ex_family_def)

lemma ex_family_unats: "unat (Q9K_GetU32 ex_family Q9K_PROCPOOL_BASE_ADDR) = 0x10000" "unat (Q9K_GetU32 ex_family Q9K_PROCPOOL_COUNT_ADDR) = 2"
  unfolding ex_family_facts by simp_all

theorem wait_reap_spec_witness:
  "\<exists>m'. Q9K_ProcWaitTryReap ex_family 0x10000 = Some (Reaped 2 7 m') \<and> Q9K_GetU32 m' Q9K_PROCPOOL_FREE_ADDR = 0x10400"
proof -
  note x = ex_family_facts
  have "\<exists>m'. Q9K_ProcWaitTryReap ex_family 0x10000 = Some (Reaped (of_nat 1 + 1) (Q9K_GetU16 ex_family (0x10400 + Q9K_PROCDESC_EXITSTATUS_OFF)) m') \<and>
      Q9K_GetU32 m' Q9K_PROCPOOL_FREE_ADDR = 0x10400"
    using ex_family_unats wait_reap_spec [where m = ex_family and n = 2 and c = "0x10000", OF _ _ _ ex_family_zombies]
    unfolding x(5) option.case x(2) by auto
  then show ?thesis unfolding x by simp
qed

end
