(* ===== verification/Q9_Tables.thy ===== *)
theory Q9_Tables
  imports Q9_ProcEnd
begin

text \<open>
  The system tables built at boot (\<^verbatim>\<open>q9kernel_tables.c\<close>): one block of the arena is divided into the two
  dispatch tables, the module directory, the process pool and the path pool, and the three pools become
  free lists.
\<close>

abbreviation Q9_D_SYSDIS :: u32 where "Q9_D_SYSDIS \<equiv> 0x3A4"
abbreviation Q9_D_USRDIS :: u32 where "Q9_D_USRDIS \<equiv> 0x3A8"
abbreviation Q9_D_MODDIR :: u32 where "Q9_D_MODDIR \<equiv> 0x03C"
abbreviation Q9_D_MODDIR_END :: u32 where "Q9_D_MODDIR_END \<equiv> 0x040"
abbreviation Q9K_SYSDIS_SIZE :: u32 where "Q9K_SYSDIS_SIZE \<equiv> 0x800"
abbreviation Q9K_USRDIS_SIZE :: u32 where "Q9K_USRDIS_SIZE \<equiv> 0x800"
abbreviation Q9K_MODDIR_ENTRY_SIZE :: u32 where "Q9K_MODDIR_ENTRY_SIZE \<equiv> 16"
abbreviation Q9K_INIT_OFF_PROCS :: u32 where "Q9K_INIT_OFF_PROCS \<equiv> 0x38"
abbreviation Q9K_INIT_OFF_PATHS :: u32 where "Q9K_INIT_OFF_PATHS \<equiv> 0x3A"
abbreviation Q9K_INIT_OFF_MDIRSZ :: u32 where "Q9K_INIT_OFF_MDIRSZ \<equiv> 0x62"

text \<open>The loop that links \<open>n\<close> slots, each to the one behind it; the result is the address of the last.\<close>

fun chain_slots :: "nat \<Rightarrow> u32 \<Rightarrow> memory \<Rightarrow> u32 \<Rightarrow> memory \<times> u32" where
  "chain_slots 0 slotSize m a = (m, a)"
| "chain_slots (Suc n) slotSize m a = chain_slots n slotSize (Q9K_SetU32 m a (a + slotSize)) (a + slotSize)"

definition Q9K_BuildFreeList :: "memory \<Rightarrow> u32 \<Rightarrow> u32 \<Rightarrow> u32 \<Rightarrow> u32 \<Rightarrow> memory" where
  "Q9K_BuildFreeList m base slotSize count freeHeadAddr =
     (if count = 0 then Q9K_SetU32 m freeHeadAddr 0
      else
        let (m1, last) = chain_slots (unat (count - 1)) slotSize m base
        in Q9K_SetU32 (Q9K_SetU32 m1 last 0) freeHeadAddr base)"

text \<open>\<open>for (i = 0; i < n; i += 4) Q9K_SetU32(cursor + i, 0)\<close> for \<open>n\<close> a multiple of 4.\<close>

fun zero_cells :: "nat \<Rightarrow> memory \<Rightarrow> u32 \<Rightarrow> memory" where
  "zero_cells 0 m a = m"
| "zero_cells (Suc n) m a = zero_cells n (Q9K_SetU32 m a 0) (a + 4)"

definition Q9K_SetupTables :: "memory \<Rightarrow> u32 \<Rightarrow> (u32 \<times> memory) option" where
  "Q9K_SetupTables m initAddr = do {
     let procs = Q9K_GetU16 m (initAddr + Q9K_INIT_OFF_PROCS);
     let paths = Q9K_GetU16 m (initAddr + Q9K_INIT_OFF_PATHS);
     let mdirSz = Q9K_GetU16 m (initAddr + Q9K_INIT_OFF_MDIRSZ);
     let moddirSize = ucast mdirSz * Q9K_MODDIR_ENTRY_SIZE;
     let procPoolSize = ucast procs * Q9K_PROCDESC_SIZE;
     let pathPoolSize = ucast paths * Q9K_PATHDESC_SIZE;
     let totalSize = Q9K_SYSDIS_SIZE + Q9K_USRDIS_SIZE + moddirSize + procPoolSize + pathPoolSize;
     (block, m1) \<leftarrow> Q9K_AllocMem m totalSize;
     Some (if block = 0 then (1, m1)
       else
         let m2 = zero_cells 0x400 m1 block;
             m3 = Q9K_SetU32 m2 Q9_D_SYSDIS block;
             usrdis = block + Q9K_SYSDIS_SIZE;
             m4 = Q9K_SetU32 m3 Q9_D_USRDIS usrdis;
             moddir = usrdis + Q9K_USRDIS_SIZE;
             m5 = Q9K_SetU32 m4 Q9_D_MODDIR moddir;
             m6 = Q9K_SetU32 m5 Q9_D_MODDIR_END (moddir + moddirSize);
             m7 = Q9K_BuildFreeList m6 moddir Q9K_MODDIR_ENTRY_SIZE (ucast mdirSz) Q9K_MODDIR_FREE_ADDR;
             m8 = Q9K_SetU32 m7 Q9K_MODDIR_HEAD_ADDR 0;
             procpool = moddir + moddirSize;
             m9 = Q9K_SetU32 m8 Q9K_PROCPOOL_BASE_ADDR procpool;
             m10 = zero_cells (unat procs * 0x100) m9 procpool;
             m11 = Q9K_BuildFreeList m10 procpool Q9K_PROCDESC_SIZE (ucast procs) Q9K_PROCPOOL_FREE_ADDR;
             m12 = Q9K_SetU32 m11 Q9K_PROCPOOL_COUNT_ADDR (ucast procs);
             pathpool = procpool + procPoolSize;
             m13 = Q9K_SetU32 m12 Q9K_PATHPOOL_BASE_ADDR pathpool
         in (0, Q9K_BuildFreeList m13 pathpool Q9K_PATHDESC_SIZE (ucast paths) Q9K_PATHPOOL_FREE_ADDR))
   }"

end
