(* ===== verification/Q9_SetSys.thy ===== *)
theory Q9_SetSys
  imports Q9_Sched
begin

text \<open>
  F$SetSys (\<^verbatim>\<open>q9kernel_setsys.c\<close>): reading and changing system variables.  Three of them live in static C
  variables, which are a record here; the minimum priority and the maximum age belong to the scheduler;
  the others are read from kernel globals and cannot be changed.
\<close>

record setsys =
  Q9K_SetSysMallocIncrement :: u32
  Q9K_SetSysTickSeconds :: u32
  Q9K_SetSysTimeSlice :: u32

abbreviation Q9K_SETSYS_GETFLAG :: u32 where "Q9K_SETSYS_GETFLAG \<equiv> 0x80000000"
abbreviation Q9K_SETSYS_VAR_MINPTY :: u32 where "Q9K_SETSYS_VAR_MINPTY \<equiv> 0x55E"
abbreviation Q9K_SETSYS_VAR_MAXAGE :: u32 where "Q9K_SETSYS_VAR_MAXAGE \<equiv> 0x560"
abbreviation Q9K_SETSYS_VAR_PROCSZ :: u32 where "Q9K_SETSYS_VAR_PROCSZ \<equiv> 0x3E2"
abbreviation Q9K_SETSYS_VAR_TSLICE_HDR :: u32 where "Q9K_SETSYS_VAR_TSLICE_HDR \<equiv> 0x42E"
abbreviation Q9K_SETSYS_VAR_CSL_MALLOC_INCR :: u32 where "Q9K_SETSYS_VAR_CSL_MALLOC_INCR \<equiv> 0x7C"
abbreviation Q9K_SETSYS_VAR_TCKSEC :: u32 where "Q9K_SETSYS_VAR_TCKSEC \<equiv> 0x28"
abbreviation Q9K_SETSYS_VAR_TSLICE :: u32 where "Q9K_SETSYS_VAR_TSLICE \<equiv> 0x76"
abbreviation Q9K_SETSYS_VAR_TICKS :: u32 where "Q9K_SETSYS_VAR_TICKS \<equiv> 0x54"
abbreviation Q9K_SETSYS_TICKCOUNT_ADDR :: u32 where "Q9K_SETSYS_TICKCOUNT_ADDR \<equiv> 0x1BE0"
abbreviation Q9K_ERR_PERMIT :: u32 where "Q9K_ERR_PERMIT \<equiv> 0xA4"
abbreviation Q9K_ERR_UNKSVC :: u32 where "Q9K_ERR_UNKSVC \<equiv> 0xD0"
abbreviation Q9K_ERR_SETSYS_PARAM :: u32 where "Q9K_ERR_SETSYS_PARAM \<equiv> 0xE1"

text \<open>The read-only variables whose number is their address.\<close>

definition readonly_globals :: "u32 list" where
  "readonly_globals = [0x20, 0x2E, 0x38, 0x3C, 0x4C, 0x50, 0x58, 0x64, 0x68, 0x6C, 0x3A4, 0x3A8, 0x3E0]"

definition Q9K_ReadSetSysReadonly :: "memory \<Rightarrow> u32 \<Rightarrow> u32 option" where
  "Q9K_ReadSetSysReadonly m varCode =
     (if varCode = Q9K_SETSYS_VAR_TICKS then Some (Q9K_GetU32 m Q9K_SETSYS_TICKCOUNT_ADDR)
      else if varCode \<in> set readonly_globals then Some (Q9K_GetU32 m varCode)
      else None)"

definition Q9K_GetSetSysMallocIncrement :: "setsys \<Rightarrow> u32 \<times> setsys" where
  "Q9K_GetSetSysMallocIncrement s =
     (let s' = (if Q9K_SetSysMallocIncrement s = 0 then s\<lparr>Q9K_SetSysMallocIncrement := 4096\<rparr> else s)
      in (Q9K_SetSysMallocIncrement s', s'))"

definition Q9K_GetSetSysTickSeconds :: "setsys \<Rightarrow> u32 \<times> setsys" where
  "Q9K_GetSetSysTickSeconds s =
     (let s' = (if Q9K_SetSysTickSeconds s = 0 then s\<lparr>Q9K_SetSysTickSeconds := 100\<rparr> else s)
      in (Q9K_SetSysTickSeconds s', s'))"

definition Q9K_GetSetSysTimeSlice :: "setsys \<Rightarrow> u32 \<times> setsys" where
  "Q9K_GetSetSysTimeSlice s =
     (let s' = (if Q9K_SetSysTimeSlice s = 0 then s\<lparr>Q9K_SetSysTimeSlice := 2\<rparr> else s)
      in (Q9K_SetSysTimeSlice s', s'))"

definition Q9K_SetSysTruncate :: "u32 \<Rightarrow> u32 \<Rightarrow> u32" where
  "Q9K_SetSysTruncate value width =
     (if width = 1 then value AND 0xFF else if width = 2 then value AND 0xFFFF else value AND 0xFFFFFFFF)"

definition Q9K_SetSysCallerIsSuper :: "memory \<Rightarrow> bool" where
  "Q9K_SetSysCallerIsSuper m =
     (let desc = Q9K_GetU32 m Q9_D_PROC in
      desc = 0 \<or> Q9K_GetU32 m (desc + Q9K_PROCDESC_USER_OFF) AND 0xFFFF0000 = 0)"

text \<open>The current value of a variable, whether it may be changed, and the statics, whose readers fill in
  their defaults; \<^term>\<open>None\<close> for an unknown variable.\<close>

definition setsys_lookup :: "memory \<Rightarrow> setsys \<Rightarrow> u32 \<Rightarrow> (u32 \<times> bool \<times> setsys) option" where
  "setsys_lookup m s varCode =
     (if varCode = Q9K_SETSYS_VAR_CSL_MALLOC_INCR then
        let (old, s') = Q9K_GetSetSysMallocIncrement s in Some (old, True, s')
      else if varCode = Q9K_SETSYS_VAR_TCKSEC then
        let (old, s') = Q9K_GetSetSysTickSeconds s in Some (old, True, s')
      else if varCode = Q9K_SETSYS_VAR_TSLICE \<or> varCode = Q9K_SETSYS_VAR_TSLICE_HDR then
        let (old, s') = Q9K_GetSetSysTimeSlice s in Some (old, True, s')
      else if varCode = Q9K_SETSYS_VAR_MINPTY then Some (Q9K_SchedGetMinPty m, True, s)
      else if varCode = Q9K_SETSYS_VAR_MAXAGE then Some (Q9K_SchedGetMaxAge m, True, s)
      else if varCode = Q9K_SETSYS_VAR_PROCSZ then Some (0x400, False, s)
      else map_option (\<lambda>v. (v, False, s)) (Q9K_ReadSetSysReadonly m varCode))"

definition setsys_store :: "memory \<Rightarrow> setsys \<Rightarrow> u32 \<Rightarrow> u32 \<Rightarrow> setsys \<times> memory" where
  "setsys_store m s varCode v =
     (if varCode = Q9K_SETSYS_VAR_CSL_MALLOC_INCR then (s\<lparr>Q9K_SetSysMallocIncrement := v\<rparr>, m)
      else if varCode = Q9K_SETSYS_VAR_TCKSEC then (s\<lparr>Q9K_SetSysTickSeconds := v\<rparr>, m)
      else if varCode = Q9K_SETSYS_VAR_TSLICE \<or> varCode = Q9K_SETSYS_VAR_TSLICE_HDR then (s\<lparr>Q9K_SetSysTimeSlice := v\<rparr>, m)
      else if varCode = Q9K_SETSYS_VAR_MINPTY then (s, Q9K_SchedSetMinPty m v)
      else if varCode = Q9K_SETSYS_VAR_MAXAGE then (s, Q9K_SchedSetMaxAge m v)
      else (s, m))"

text \<open>\<^term>\<open>Inl e\<close> is failure with error \<open>e\<close>, \<^term>\<open>Inr v\<close> success with the value reported.\<close>

definition Q9K_ProcSetSys :: "memory \<Rightarrow> setsys \<Rightarrow> u32 \<Rightarrow> u32 \<Rightarrow> u32 \<Rightarrow> (u32 + u32) \<times> setsys \<times> memory" where
  "Q9K_ProcSetSys m s varCode flags valueIn =
     (let width = (if flags AND 0xFFFF = 0 then 4 else flags AND 0xFFFF) in
      if width \<noteq> 1 \<and> width \<noteq> 2 \<and> width \<noteq> 4 then (Inl Q9K_ERR_SETSYS_PARAM, s, m)
      else case setsys_lookup m s varCode of
        None \<Rightarrow> (Inl Q9K_ERR_UNKSVC, s, m)
      | Some (old, writable, s1) \<Rightarrow>
          if flags AND Q9K_SETSYS_GETFLAG \<noteq> 0 then (Inr (Q9K_SetSysTruncate old width), s1, m)
          else if \<not> Q9K_SetSysCallerIsSuper m then (Inl Q9K_ERR_PERMIT, s1, m)
          else if \<not> writable then (Inl Q9K_ERR_SETSYS_PARAM, s1, m)
          else
            let v = Q9K_SetSysTruncate valueIn width in
            if varCode \<in> {Q9K_SETSYS_VAR_CSL_MALLOC_INCR, Q9K_SETSYS_VAR_TCKSEC, Q9K_SETSYS_VAR_TSLICE, Q9K_SETSYS_VAR_TSLICE_HDR} \<and> v = 0
            then (Inl Q9K_ERR_UNKSVC, s1, m)
            else let (s2, m2) = setsys_store m s1 varCode v in (Inr (Q9K_SetSysTruncate old width), s2, m2))"

definition Q9K_SysSetSysImpl :: "memory \<Rightarrow> setsys \<Rightarrow> setsys \<times> memory" where
  "Q9K_SysSetSysImpl m s =
     (let (r, s1, m1) = Q9K_ProcSetSys m s (Q9K_GetU32 m 0x1644) (Q9K_GetU32 m 0x1648) (Q9K_GetU32 m 0x164C);
          (result, error, ok) = (case r of Inr v \<Rightarrow> (v, 0, 1) | Inl e \<Rightarrow> (0, e, 0))
      in (s1, Q9K_SetU32 (Q9K_SetU32 (Q9K_SetU32 m1 0x164C result) 0x1664 error) 0x1668 ok))"

end
