(* ===== verification/Q9_Services.thy ===== *)
theory Q9_Services
  imports Q9_ModDir
begin

text \<open>
  Installing handlers: F$SSvc (\<^verbatim>\<open>q9kernel_ssvc.c\<close>), which enters the services of a system module in the
  dispatch tables, and F$STrap (\<^verbatim>\<open>q9kernel_strap.c\<close>), which enters exception handlers in the process
  descriptor.  Both read a table of word pairs: a code and an offset relative to the pair.
\<close>

section \<open>F$SSvc\<close>

abbreviation Q9K_SSVC_EXTERNAL_BASE :: u32 where "Q9K_SSVC_EXTERNAL_BASE \<equiv> 0x1400"
abbreviation Q9K_SSVC_IOPEN_ROUTINE_ADDR :: u32 where "Q9K_SSVC_IOPEN_ROUTINE_ADDR \<equiv> 0x1F74"
abbreviation Q9K_SSVC_IREAD_ROUTINE_ADDR :: u32 where "Q9K_SSVC_IREAD_ROUTINE_ADDR \<equiv> 0x1F78"
abbreviation Q9K_SSVC_ICLOSE_ROUTINE_ADDR :: u32 where "Q9K_SSVC_ICLOSE_ROUTINE_ADDR \<equiv> 0x1F7C"
abbreviation Q9K_SSVC_MGR_TABLE_ADDR :: u32 where "Q9K_SSVC_MGR_TABLE_ADDR \<equiv> 0x1F94"

definition Q9K_ReadHdrU16BE :: "memory \<Rightarrow> u32 \<Rightarrow> u16" where
  "Q9K_ReadHdrU16BE m addr = push_bit 8 (ucast (m addr)) OR ucast (m (addr + 1))"

definition Q9K_IsKernelService :: "u32 \<Rightarrow> bool" where
  "Q9K_IsKernelService code \<longleftrightarrow> code \<in> set
     [0x00, 0x02, 0x03, 0x04, 0x06, 0x08, 0x0A, 0x0C, 0x10, 0x15, 0x21, 0x27, 0x28, 0x29, 0x2A, 0x2E,
      0x30, 0x31, 0x32, 0x37, 0x38, 0x58, 0x5A, 0x5C,
      0x82, 0x84, 0x88, 0x89, 0x8A, 0x8B, 0x8C, 0x8D, 0x8E, 0x8F, 0x92]"

definition sign_extend16 :: "u16 \<Rightarrow> u32" where
  "sign_extend16 raw = (if raw AND 0x8000 \<noteq> 0 then 0xFFFF0000 OR ucast raw else ucast raw)"

text \<open>A code owned by the kernel: only the user-state entry is kept, as the manager's routine.\<close>

definition ssvc_shadow :: "memory \<Rightarrow> u32 \<Rightarrow> u32 \<Rightarrow> u32 \<Rightarrow> u32 \<Rightarrow> memory" where
  "ssvc_shadow m usrdisBase realCode routineAddr dataPtr =
     (let m1 = (if realCode \<ge> 0x80 \<and> realCode \<le> 0x92
                then Q9K_SetU32 m (Q9K_SSVC_MGR_TABLE_ADDR + (realCode - 0x80) * 4) routineAddr else m);
          keep = (\<lambda>code a m. if realCode = code
             then Q9K_SetU32 (Q9K_SetU32 m a routineAddr) (usrdisBase + 0x400 + realCode * 4) dataPtr else m)
      in keep 0x8F Q9K_SSVC_ICLOSE_ROUTINE_ADDR (keep 0x89 Q9K_SSVC_IREAD_ROUTINE_ADDR (keep 0x84 Q9K_SSVC_IOPEN_ROUTINE_ADDR m1)))"

definition ssvc_register :: "memory \<Rightarrow> u32 \<Rightarrow> u32 \<Rightarrow> u32 \<Rightarrow> u32 \<Rightarrow> u32 \<Rightarrow> bool \<Rightarrow> memory" where
  "ssvc_register m sysdisBase usrdisBase realCode routineAddr dataPtr sysTrapOnly =
     (let m1 = Q9K_SetU8 m (Q9K_SSVC_EXTERNAL_BASE + realCode) 1;
          m2 = Q9K_SetU32 m1 (sysdisBase + realCode * 4) routineAddr;
          m3 = Q9K_SetU32 m2 (sysdisBase + 0x400 + realCode * 4) dataPtr
      in if sysTrapOnly then m3
         else Q9K_SetU32 (Q9K_SetU32 m3 (usrdisBase + realCode * 4) routineAddr) (usrdisBase + 0x400 + realCode * 4) dataPtr)"

definition ssvc_entry :: "memory \<Rightarrow> u32 \<Rightarrow> u32 \<Rightarrow> u32 \<Rightarrow> u32 \<Rightarrow> u16 \<Rightarrow> memory" where
  "ssvc_entry m sysdisBase usrdisBase dataPtr entryAddr codeword =
     (let signExtOffset = sign_extend16 (Q9K_ReadHdrU16BE m (entryAddr + 2));
          realCode = ucast (codeword AND 0xFF);
          sysTrapOnly = (codeword AND 0x8000 \<noteq> 0);
          routineAddr = entryAddr + signExtOffset + 4
      in if Q9K_IsKernelService realCode
         then if sysTrapOnly then m else ssvc_shadow m usrdisBase realCode routineAddr dataPtr
         else ssvc_register m sysdisBase usrdisBase realCode routineAddr dataPtr sysTrapOnly)"

partial_function (option) ssvc_loop :: "memory \<Rightarrow> u32 \<Rightarrow> u32 \<Rightarrow> u32 \<Rightarrow> u32 \<Rightarrow> memory option" where
  "ssvc_loop m sysdisBase usrdisBase dataPtr entryAddr =
     (let codeword = Q9K_ReadHdrU16BE m entryAddr in
      if codeword = 0xFFFF then Some m
      else ssvc_loop (ssvc_entry m sysdisBase usrdisBase dataPtr entryAddr codeword) sysdisBase usrdisBase dataPtr (entryAddr + 4))"

definition Q9K_ProcSSvc :: "memory \<Rightarrow> u32 \<Rightarrow> u32 \<Rightarrow> memory option" where
  "Q9K_ProcSSvc m tablePtr dataPtr = ssvc_loop m (Q9K_GetU32 m 0x3A4) (Q9K_GetU32 m 0x3A8) dataPtr tablePtr"

definition Q9K_SysSSvcImpl :: "memory \<Rightarrow> memory option" where
  "Q9K_SysSSvcImpl m = Q9K_ProcSSvc m (Q9K_GetU32 m 0x134C) (Q9K_GetU32 m 0x1350)"

section \<open>F$STrap\<close>

abbreviation Q9K_PROCDESC_EXCEPT_OFF :: u32 where "Q9K_PROCDESC_EXCEPT_OFF \<equiv> 0x3C"
abbreviation Q9K_PROCDESC_EXSTK_OFF :: u32 where "Q9K_PROCDESC_EXSTK_OFF \<equiv> 0x64"
abbreviation Q9K_EXCEPT_STRIDE :: u32 where "Q9K_EXCEPT_STRIDE \<equiv> 4"
abbreviation Q9K_EXCEPT_FIRST_VECTOR :: u32 where "Q9K_EXCEPT_FIRST_VECTOR \<equiv> 2"
abbreviation Q9K_EXCEPT_LAST_VECTOR :: u32 where "Q9K_EXCEPT_LAST_VECTOR \<equiv> 11"

text \<open>The loop over at most 40 pairs; the result is the number installed, or \<^term>\<open>None\<close> for a bad entry, which
  leaves the handlers of the entries before it in place.\<close>

fun strap_loop :: "nat \<Rightarrow> memory \<Rightarrow> u32 \<Rightarrow> u32 \<Rightarrow> u32 \<Rightarrow> u32 \<Rightarrow> u32 option \<times> memory" where
  "strap_loop 0 m desc stackAddr entry installed = (Some installed, m)"
| "strap_loop (Suc n) m desc stackAddr entry installed =
     (let code = Q9K_GetU16 m entry;
          rel = Q9K_GetU16 m (entry + 2);
          vector = ucast code div 4;
          slot = vector - Q9K_EXCEPT_FIRST_VECTOR;
          handler = entry + 4 + scast rel
      in if code = 0xFFFF then (Some installed, m)
         else if code AND 3 \<noteq> 0 then (None, m)
         else if vector < Q9K_EXCEPT_FIRST_VECTOR \<or> vector > Q9K_EXCEPT_LAST_VECTOR then (None, m)
         else strap_loop n
           (Q9K_SetU32 (Q9K_SetU32 m (desc + Q9K_PROCDESC_EXCEPT_OFF + slot * Q9K_EXCEPT_STRIDE) handler)
             (desc + Q9K_PROCDESC_EXSTK_OFF + slot * Q9K_EXCEPT_STRIDE) stackAddr)
           desc stackAddr (entry + 4) (installed + 1))"

definition Q9K_StrapInstall :: "memory \<Rightarrow> u32 \<Rightarrow> u32 \<Rightarrow> u32 \<Rightarrow> u32 option \<times> memory" where
  "Q9K_StrapInstall m desc tableAddr stackAddr =
     (if desc = 0 \<or> tableAddr = 0 then (None, m) else strap_loop 40 m desc stackAddr tableAddr 0)"

definition Q9K_StrapHandlerFor :: "memory \<Rightarrow> u32 \<Rightarrow> u32 \<Rightarrow> u32" where
  "Q9K_StrapHandlerFor m desc vector =
     (if desc = 0 then 0
      else if vector < Q9K_EXCEPT_FIRST_VECTOR \<or> vector > Q9K_EXCEPT_LAST_VECTOR then 0
      else Q9K_GetU32 m (desc + Q9K_PROCDESC_EXCEPT_OFF + (vector - Q9K_EXCEPT_FIRST_VECTOR) * Q9K_EXCEPT_STRIDE))"

definition Q9K_SysSTrapImpl :: "memory \<Rightarrow> memory" where
  "Q9K_SysSTrapImpl m =
     (let (n, m1) = Q9K_StrapInstall m (Q9K_GetU32 m Q9_D_PROC) (Q9K_GetU32 m 0x1BE8) (Q9K_GetU32 m 0x1BE4) in
      case n of
        None \<Rightarrow> Q9K_SetU32 (Q9K_SetU32 m1 0x1BEC (ucast Q9K_E_BPADDR)) 0x1BF0 0
      | Some k \<Rightarrow> Q9K_SetU32 (Q9K_SetU32 m1 0x1BF4 k) 0x1BF0 1)"

definition Q9K_SysExcDispatchImpl :: "memory \<Rightarrow> memory" where
  "Q9K_SysExcDispatchImpl m =
     Q9K_SetU32 m 0x1BFC (Q9K_StrapHandlerFor m (Q9K_GetU32 m Q9_D_PROC) (Q9K_GetU32 m 0x1BF8))"

end
