(* ===== verification/Q9_BlkMap.thy ===== *)
theory Q9_BlkMap
  imports Q9_Arena_Props
begin

text \<open>
  F$GBlkMp (\<^verbatim>\<open>q9kernel_blkmap.c\<close>): the report of the free blocks of the arena as a list of address and size
  pairs in a buffer of the caller, closed by a pair of zeros.
\<close>

abbreviation Q9K_BLKMP_E_BPADDR :: u16 where "Q9K_BLKMP_E_BPADDR \<equiv> 0xD2"

record blkmap =
  outFrags :: u32
  outFree :: u32
  written :: u32

text \<open>The walk over the free list; \<^term>\<open>None\<close> stands for a list that does not end.\<close>

partial_function (option) blkmp_loop :: "u32 \<Rightarrow> u32 \<Rightarrow> u32 \<Rightarrow> memory \<Rightarrow> blkmap \<Rightarrow> u32 \<Rightarrow> (blkmap \<times> memory) option" where
  "blkmp_loop buf capacity beginAt m b block =
     (if block = 0 then Some (b, m)
      else
        let blockSize = Q9K_GetU32 m (block + 4);
            store = block \<ge> beginAt \<and> written b < capacity;
            m' = (if store then Q9K_SetU32 (Q9K_SetU32 m (buf + written b * 8) block) (buf + written b * 8 + 4) blockSize else m);
            b' = (if block \<ge> beginAt
                  then \<lparr>outFrags = outFrags b + 1, outFree = outFree b + blockSize, written = (if store then written b + 1 else written b)\<rparr>
                  else b)
        in blkmp_loop buf capacity beginAt m' b' (Q9K_GetU32 m' block))"

definition Q9K_BlkMpCollect :: "memory \<Rightarrow> u32 \<Rightarrow> u32 \<Rightarrow> u32 \<Rightarrow> (u16 + u32 \<times> u32 \<times> memory) option" where
  "Q9K_BlkMpCollect m buf bufSize beginAt =
     (if buf = 0 then Some (Inl Q9K_BLKMP_E_BPADDR)
      else if bufSize < 8 then Some (Inl Q9K_BLKMP_E_BPADDR)
      else do {
        let capacity = bufSize div 8 - 1;
        (b, m1) \<leftarrow> blkmp_loop buf capacity beginAt m \<lparr>outFrags = 0, outFree = 0, written = 0\<rparr> (Q9K_GetU32 m Q9K_ARENA_HEAD);
        Some (Inr (outFrags b, outFree b,
          Q9K_SetU32 (Q9K_SetU32 m1 (buf + written b * 8) 0) (buf + written b * 8 + 4) 0))
      })"

definition Q9K_SysGBlkMpImpl :: "memory \<Rightarrow> memory option" where
  "Q9K_SysGBlkMpImpl m0 = do {
     let m1 = Q9K_SetU32 m0 0x1B7C 0;
     let m2 = Q9K_SetU32 m1 0x1B68 16;
     let m = Q9K_SetU32 m2 0x1B70 (Q9K_GetU32 m2 0x1B58);
     r \<leftarrow> Q9K_BlkMpCollect m (Q9K_GetU32 m 0x1B64) (Q9K_GetU32 m 0x1B60) (Q9K_GetU32 m 0x1B5C);
     Some (case r of
       Inl err \<Rightarrow> Q9K_SetU32 m 0x1B78 (ucast err)
     | Inr (frags, freeRam, m3) \<Rightarrow> Q9K_SetU32 (Q9K_SetU32 (Q9K_SetU32 m3 0x1B6C frags) 0x1B74 freeRam) 0x1B7C 1)
   }"

end
