(* ===== verification/Q9_Fork.thy ===== *)
theory Q9_Fork
  imports Q9_ProcEnd Q9_Services Q9_Pool
begin

text \<open>
  Creating processes (\<^verbatim>\<open>q9kernel_firstproc.c\<close>): the process pool, the processes started at boot and
  the idle process, F$Fork with the memory image and the start frame of the child, F$AllPrc and
  F$DelPrc.  \<^verbatim>\<open>Q9K_GetA6\<close>, an assembly routine that reads a register, is the parameter \<open>a6\<close>.  The store
  of the trace depth in \<^verbatim>\<open>Q9K_ProcPoolAlloc\<close> belongs to the debug build and is left out.
\<close>

abbreviation Q9K_PROC_STACK_SIZE :: u32 where "Q9K_PROC_STACK_SIZE \<equiv> 32768"
abbreviation Q9K_REGSAVE_A6_OFF :: u32 where "Q9K_REGSAVE_A6_OFF \<equiv> 0x38"
abbreviation Q9K_MH_STACK :: u32 where "Q9K_MH_STACK \<equiv> 0x3C"
abbreviation Q9K_PROCDESC_ID_OFF :: u32 where "Q9K_PROCDESC_ID_OFF \<equiv> 0"
abbreviation Q9K_PROCDESC_ENTRYPC_OFF :: u32 where "Q9K_PROCDESC_ENTRYPC_OFF \<equiv> 0x1C8"
abbreviation Q9K_PROCDESC_DIO_OFF :: u32 where "Q9K_PROCDESC_DIO_OFF \<equiv> 0x148"
abbreviation Q9K_IDLEPROCDESC_ADDR :: u32 where "Q9K_IDLEPROCDESC_ADDR \<equiv> 0x1F8C"
abbreviation Q9K_FORK_SCRATCH_NUMPATHS :: u32 where "Q9K_FORK_SCRATCH_NUMPATHS \<equiv> 0x1284"
abbreviation Q9K_E_BMID :: u16 where "Q9K_E_BMID \<equiv> 0xCD"
abbreviation Q9K_E_PRCFUL :: u16 where "Q9K_E_PRCFUL \<equiv> 0xE5"

section \<open>The process pool\<close>

definition Q9K_ReadHdrU32BE :: "memory \<Rightarrow> u32 \<Rightarrow> u32" where
  "Q9K_ReadHdrU32BE m addr =
     push_bit 24 (ucast (m addr)) OR push_bit 16 (ucast (m (addr + 1))) OR
     push_bit 8 (ucast (m (addr + 2))) OR ucast (m (addr + 3))"

definition Q9K_ProcPoolAlloc :: "memory \<Rightarrow> u32 \<times> memory" where
  "Q9K_ProcPoolAlloc m =
     (let head = Q9K_GetU32 m Q9K_PROCPOOL_FREE_ADDR in
      if head = 0 then (0, m) else (head, Q9K_SetU32 m Q9K_PROCPOOL_FREE_ADDR (Q9K_GetU32 m head)))"

definition Q9K_ProcPoolAbortAlloc :: "memory \<Rightarrow> u32 \<Rightarrow> memory" where
  "Q9K_ProcPoolAbortAlloc m desc =
     Q9K_SetU32 (Q9K_SetU32 m desc (Q9K_GetU32 m Q9K_PROCPOOL_FREE_ADDR)) Q9K_PROCPOOL_FREE_ADDR desc"

interpretation procp: lifo_pool "free_list Q9K_PROCPOOL_FREE_ADDR S" S Q9K_ProcPoolAlloc Q9K_ProcPoolAbortAlloc for S
  by (rule lifo_poolI) (simp_all add: Q9K_ProcPoolAlloc_def Q9K_ProcPoolAbortAlloc_def pool_pop_def pool_push_def Let_def)

section \<open>Processes started at boot\<close>

text \<open>The frame from which a new process resumes: zeroed registers but for a6, the status register, the
  entry point and a format word of 0.\<close>

definition boot_frame :: "memory \<Rightarrow> u32 \<Rightarrow> u32 \<Rightarrow> u32 \<Rightarrow> memory" where
  "boot_frame m frameBase a6 entryPC =
     (let m1 = fold (\<lambda>i m. Q9K_SetU32 m (frameBase + i) 0)
                 [0, 4, 8, 12, 16, 20, 24, 28, 32, 36, 40, 44, 48, 52, 56] m;
          m2 = Q9K_SetU32 m1 (frameBase + Q9K_REGSAVE_A6_OFF) a6;
          m3 = Q9K_SetU16 m2 (frameBase + Q9K_PROCDESC_REGSAVE_SIZE + Q9K_EXCFRAME_SR_OFF) Q9K_INITIAL_SR;
          m4 = Q9K_SetU32 m3 (frameBase + Q9K_PROCDESC_REGSAVE_SIZE + Q9K_EXCFRAME_PC_OFF) entryPC
      in Q9K_SetU16 m4 (frameBase + Q9K_PROCDESC_REGSAVE_SIZE + Q9K_EXCFRAME_FMTVEC_OFF) 0)"

definition boot_desc :: "memory \<Rightarrow> u32 \<Rightarrow> u8 \<Rightarrow> u8 \<Rightarrow> u32 \<Rightarrow> u32 \<Rightarrow> u32 \<Rightarrow> memory" where
  "boot_desc m desc state priority stackBase frameBase entryPC =
     (let m1 = Q9K_SetU8 m (desc + Q9K_PROCDESC_STATE_OFF) state;
          m2 = Q9K_SetU16 m1 (desc + Q9K_PROCDESC_ID_OFF) (Q9K_ProcIdForDesc m1 desc);
          m3 = Q9K_SetU8 m2 (desc + Q9K_PROCDESC_PRIORITY_OFF) priority;
          m4 = Q9K_SetU32 m3 (desc + Q9K_PROCDESC_PARENT_OFF) 0;
          m5 = Q9K_SetU32 m4 (desc + Q9K_PROCDESC_USER_OFF) 0;
          m6 = Q9K_SetU32 m5 (desc + Q9K_PROCDESC_MODHDR_OFF) 0;
          m7 = Q9K_SetU32 m6 (desc + Q9K_PROCDESC_ALLOCBASE_OFF) stackBase;
          m8 = Q9K_SetU32 m7 (desc + Q9K_PROCDESC_ALLOCSIZE_OFF) Q9K_PROC_STACK_SIZE;
          m9 = Q9K_SetU32 m8 (desc + Q9K_PROCDESC_SAVEDSP_OFF) frameBase
      in Q9K_SetU32 m9 (desc + Q9K_PROCDESC_ENTRYPC_OFF) entryPC)"

definition boot_process :: "memory \<Rightarrow> u32 \<Rightarrow> u32 \<Rightarrow> u8 \<Rightarrow> u8 \<Rightarrow> (u32 \<times> memory) option" where
  "boot_process m a6 entryPC state priority =
     (let (desc, m1) = Q9K_ProcPoolAlloc m in
      if desc = 0 then Some (0, m1)
      else do {
        (stackBase, m2) \<leftarrow> Q9K_AllocMem m1 Q9K_PROC_STACK_SIZE;
        Some (if stackBase = 0 then (0, Q9K_ProcPoolAbortAlloc m2 desc)
              else
                let frameBase = stackBase + Q9K_PROC_STACK_SIZE - Q9K_FAKEFRAME_SIZE
                in (desc, boot_desc (boot_frame m2 frameBase a6 entryPC) desc state priority stackBase frameBase entryPC))
      })"

definition Q9K_ProcCreate :: "memory \<Rightarrow> u32 \<Rightarrow> u32 \<Rightarrow> u8 \<Rightarrow> (u32 \<times> memory) option" where
  "Q9K_ProcCreate m a6 entryPC priority = do {
     (desc, m1) \<leftarrow> boot_process m a6 entryPC Q9K_PROCDESC_STATE_ACTIVE priority;
     Some (if desc = 0 then (0, m1) else (desc, Q9K_SchedInsert m1 desc))
   }"

definition Q9K_ProcCreateIdle :: "memory \<Rightarrow> u32 \<Rightarrow> u32 \<Rightarrow> (u32 \<times> memory) option" where
  "Q9K_ProcCreateIdle m a6 entryPC = do {
     (desc, m1) \<leftarrow> boot_process m a6 entryPC Q9K_PROCDESC_STATE_IDLE 0;
     Some (if desc = 0 then (0, m1) else (desc, Q9K_SetU32 m1 Q9K_IDLEPROCDESC_ADDR desc))
   }"

section \<open>The memory image of a program\<close>

record program =
  hdrAddr :: u32
  block :: u32
  totalSize :: u32
  entryPC :: u32

text \<open>Linking the module, allocating and filling its block; every failure undoes what was done.\<close>

definition load_program :: "memory \<Rightarrow> u16 \<Rightarrow> u32 \<Rightarrow> u32 \<Rightarrow> u32 \<Rightarrow> ((u16 + program) \<times> memory) option" where
  "load_program m typeLang addMem paramSize namePtr =
     (let (hdr, m1) = Q9K_ModDirLinkByName m typeLang namePtr in
      if hdr = 0 then Some (Inl Q9K_E_MNF, m1)
      else do {
        let dataSize = Q9K_ReadHdrU32BE m1 (hdr + Q9K_MH_MEM);
        let stackSize = Q9K_ReadHdrU32BE m1 (hdr + Q9K_MH_STACK);
        let execOff = Q9K_ReadHdrU32BE m1 (hdr + Q9K_MH_EXEC);
        let total = dataSize + stackSize + addMem + paramSize;
        (blk, m2) \<leftarrow> Q9K_AllocMem m1 total;
        if blk = 0 then do {
          (_, m3) \<leftarrow> Q9K_ModDirUnlinkByHeader m2 hdr;
          Some (Inl Q9K_E_MEMFUL, m3)
        }
        else do {
          let (ok, m3) = Q9K_ApplyInitializedData (zero_bytes (unat total) m2 blk) hdr blk total;
          if \<not> ok then do {
            (_, m4) \<leftarrow> Q9K_ModDirUnlinkByHeader (Q9K_FreeMem m3 blk total) hdr;
            Some (Inl Q9K_E_BMID, m4)
          }
          else Some (Inr \<lparr>hdrAddr = hdr, block = blk, totalSize = total, entryPC = hdr + execOff\<rparr>, m3)
        }
      })"

text \<open>The parameters are copied to the top of the block.  The start frame lies below them.\<close>

abbreviation sp_boundary :: "program \<Rightarrow> u32 \<Rightarrow> u32" where
  "sp_boundary p paramSize \<equiv> block p + totalSize p - paramSize"

abbreviation start_frame :: "program \<Rightarrow> u32 \<Rightarrow> u32" where
  "start_frame p paramSize \<equiv> sp_boundary p paramSize - Q9K_FAKEFRAME_SIZE"

definition put_start_frame :: "memory \<Rightarrow> program \<Rightarrow> u32 \<Rightarrow> u32 \<Rightarrow> u16 \<Rightarrow> u16 \<Rightarrow> memory" where
  "put_start_frame m p paramSize pid priority numPaths =
     (let frameBase = start_frame p paramSize;
          m1 = fold (\<lambda>(r, v) m. Q9K_SetFrameReg m frameBase r v)
            [(0, pid), (1, 0), (2, ucast priority), (3, ucast numPaths), (4, 0), (5, paramSize), (6, totalSize p), (7, 0),
             (8, 0), (9, block p + totalSize p), (10, 0), (11, hdrAddr p), (12, 0), (13, sp_boundary p paramSize),
             (14, block p + 0x8000)] m;
          m2 = Q9K_SetU16 m1 (frameBase + Q9K_PROCDESC_REGSAVE_SIZE + Q9K_EXCFRAME_SR_OFF) Q9K_INITIAL_SR;
          m3 = Q9K_SetU32 m2 (frameBase + Q9K_PROCDESC_REGSAVE_SIZE + Q9K_EXCFRAME_PC_OFF) (entryPC p)
      in Q9K_SetU16 m3 (frameBase + Q9K_PROCDESC_REGSAVE_SIZE + Q9K_EXCFRAME_FMTVEC_OFF) 0)"

section \<open>F$Fork\<close>

text \<open>One entry of the path table: copied if it is one of the first \<open>inherit\<close>, with its descriptor counted once
  more, or its manager's surplus counter if bit 15 marks it as a path of the I/O manager.\<close>

definition inherit_path :: "u32 \<Rightarrow> u32 \<Rightarrow> u32 \<Rightarrow> u32 \<Rightarrow> memory \<Rightarrow> memory" where
  "inherit_path parentDesc desc inherit i m =
     (let v = (if i < inherit then Q9K_GetU16 m (parentDesc + Q9K_PROCDESC_PATH_OFF + i * 2) else 0);
          m1 = Q9K_SetU16 m (desc + Q9K_PROCDESC_PATH_OFF + i * 2) v
      in if v \<ge> 3 \<and> v AND 0x8000 = 0 then
           let pd = Q9K_GetU32 m1 Q9K_PATHPOOL_BASE_ADDR + (ucast v - 3) * Q9K_PATHDESC_SIZE
           in Q9K_SetU16 m1 (pd + Q9K_PATHDESC_REF_OFF) (Q9K_GetU16 m1 (pd + Q9K_PATHDESC_REF_OFF) + 1)
         else if v \<noteq> 0 \<and> v AND 0x8000 \<noteq> 0 then
           let mgr = Q9K_MGRREF_ADDR + ucast (v AND 0x3F);
               r = Q9K_GetU8 m1 mgr
           in if r < 255 then Q9K_SetU8 m1 mgr (r + 1) else m1
         else m1)"

definition inherit_paths :: "memory \<Rightarrow> u32 \<Rightarrow> u32 \<Rightarrow> memory" where
  "inherit_paths m parentDesc desc =
     (if parentDesc \<noteq> 0 then
        let n = ucast (Q9K_GetU16 m Q9K_FORK_SCRATCH_NUMPATHS) :: u32;
            inherit = (if n > Q9K_PROCDESC_PATH_COUNT then Q9K_PROCDESC_PATH_COUNT else n)
        in copy_bytes 32 (fold (inherit_path parentDesc desc inherit) path_slots m)
             (desc + Q9K_PROCDESC_DIO_OFF) (parentDesc + Q9K_PROCDESC_DIO_OFF)
      else zero_bytes 32 (fold (\<lambda>i m. Q9K_SetU16 m (desc + Q9K_PROCDESC_PATH_OFF + i * 2) 0) path_slots m)
             (desc + Q9K_PROCDESC_DIO_OFF))"

definition fork_priority :: "memory \<Rightarrow> u16 \<Rightarrow> u16" where
  "fork_priority m priorityIn =
     (if priorityIn \<noteq> 0 then priorityIn
      else if Q9K_GetU32 m Q9_D_PROC \<noteq> 0 then ucast (Q9K_GetU8 m (Q9K_GetU32 m Q9_D_PROC + Q9K_PROCDESC_PRIORITY_OFF))
      else 1)"

text \<open>The child's descriptor, up to its insertion in the ready queue.\<close>

definition fork_desc :: "memory \<Rightarrow> u32 \<Rightarrow> u32 \<Rightarrow> program \<Rightarrow> u16 \<Rightarrow> u32 \<Rightarrow> memory" where
  "fork_desc m desc parentDesc p priority frameBase =
     (let m1 = Q9K_SetU8 m (desc + Q9K_PROCDESC_STATE_OFF) Q9K_PROCDESC_STATE_ACTIVE;
          m2 = Q9K_SetU16 m1 (desc + Q9K_PROCDESC_ID_OFF) (Q9K_ProcIdForDesc m1 desc);
          m3 = Q9K_SetU8 m2 (desc + Q9K_PROCDESC_PRIORITY_OFF) (ucast priority);
          m4 = Q9K_SetU32 m3 (desc + Q9K_PROCDESC_PARENT_OFF) parentDesc;
          m5 = Q9K_SetU32 m4 (desc + Q9K_PROCDESC_USER_OFF)
                 (if parentDesc \<noteq> 0 then Q9K_GetU32 m4 (parentDesc + Q9K_PROCDESC_USER_OFF) else 0);
          m6 = inherit_paths m5 parentDesc desc;
          m7 = Q9K_SetU32 m6 (desc + Q9K_PROCDESC_MODHDR_OFF) (hdrAddr p);
          m8 = Q9K_SetU32 m7 (desc + Q9K_PROCDESC_ALLOCBASE_OFF) (block p);
          m9 = Q9K_SetU32 m8 (desc + Q9K_PROCDESC_ALLOCSIZE_OFF) (totalSize p);
          m10 = Q9K_SetU32 m9 (desc + Q9K_PROCDESC_SAVEDSP_OFF) frameBase
      in Q9K_SetU32 m10 (desc + Q9K_PROCDESC_ENTRYPC_OFF) (entryPC p))"

definition Q9K_ProcFork :: "memory \<Rightarrow> u16 \<Rightarrow> u32 \<Rightarrow> u32 \<Rightarrow> u32 \<Rightarrow> u32 \<Rightarrow> u16 \<Rightarrow> ((u16 + u32) \<times> memory) option" where
  "Q9K_ProcFork m typeLang addMem paramSize namePtr paramPtr priorityIn = do {
     let parentDesc = Q9K_GetU32 m Q9_D_PROC;
     (r, m1) \<leftarrow> load_program m typeLang addMem paramSize namePtr;
     (case r of
        Inl err \<Rightarrow> Some (Inl err, m1)
      | Inr p \<Rightarrow>
          (let (desc, m2) = Q9K_ProcPoolAlloc m1 in
           if desc = 0 then do {
             (_, m3) \<leftarrow> Q9K_ModDirUnlinkByHeader (Q9K_FreeMem m2 (block p) (totalSize p)) (hdrAddr p);
             Some (Inl Q9K_E_PRCFUL, m3)
           }
           else
             let m3 = copy_bytes (unat paramSize) m2 (sp_boundary p paramSize) paramPtr;
                 priority = fork_priority m3 priorityIn;
                 pid = (desc - Q9K_GetU32 m3 Q9K_PROCPOOL_BASE_ADDR) div Q9K_PROCDESC_SIZE + 1;
                 m4 = put_start_frame m3 p paramSize pid priority (Q9K_GetU16 m3 Q9K_FORK_SCRATCH_NUMPATHS);
                 m5 = fork_desc m4 desc parentDesc p priority (start_frame p paramSize)
             in Some (Inr pid, Q9K_SchedInsert m5 desc)))
   }"

definition Q9K_SysForkImpl :: "memory \<Rightarrow> memory option" where
  "Q9K_SysForkImpl m = do {
     (r, m1) \<leftarrow> Q9K_ProcFork m (Q9K_GetU16 m 0x1278) (Q9K_GetU32 m 0x127C) (Q9K_GetU32 m 0x1280) (Q9K_GetU32 m 0x128C)
       (Q9K_GetU32 m 0x1290) (Q9K_GetU16 m 0x1288);
     Some (case r of
       Inl err \<Rightarrow> Q9K_SetU16 (Q9K_SetU16 m1 0x1298 err) 0x129C 0
     | Inr pid \<Rightarrow> Q9K_SetU16 (Q9K_SetU16 m1 0x1294 (ucast pid)) 0x129C 1)
   }"

section \<open>F$AllPrc and F$DelPrc\<close>

definition Q9K_ProcAllPrc :: "memory \<Rightarrow> u16 + u32 \<times> memory" where
  "Q9K_ProcAllPrc m =
     (let (desc, m1) = Q9K_ProcPoolAlloc m in
      if desc = 0 then Inl Q9K_E_PRCFUL
      else
        let m2 = Q9K_SetU8 (zero_bytes (unat Q9K_PROCDESC_SIZE) m1 desc) (desc + Q9K_PROCDESC_STATE_OFF) Q9K_PROCDESC_STATE_WAITING
        in Inr (desc, Q9K_SetU16 m2 (desc + Q9K_PROCDESC_ID_OFF) (Q9K_ProcIdForDesc m2 desc)))"

definition Q9K_ProcDelPrc :: "memory \<Rightarrow> u16 \<Rightarrow> u16 + memory" where
  "Q9K_ProcDelPrc m pid =
     (let desc = Q9K_ProcLookup m pid in
      if desc = 0 then Inl Q9K_E_PRCID
      else
        let m1 = Q9K_SetU32 m (desc + Q9K_PROCDESC_PARENT_OFF) 0;
            m2 = Q9K_SetU32 m1 (desc + Q9K_PROCDESC_MODHDR_OFF) 0;
            m3 = Q9K_SetU8 m2 (desc + Q9K_PROCDESC_STATE_OFF) 0
        in Inr (Q9K_ProcPoolAbortAlloc m3 desc))"

definition Q9K_SysAllPrcImpl :: "memory \<Rightarrow> memory" where
  "Q9K_SysAllPrcImpl m =
     (case Q9K_ProcAllPrc m of
        Inr (desc, m1) \<Rightarrow> Q9K_SetU32 (Q9K_SetU32 m1 0x1954 desc) 0x195C 1
      | Inl err \<Rightarrow> Q9K_SetU32 (Q9K_SetU32 m 0x1958 (ucast err)) 0x195C 0)"

definition Q9K_SysDelPrcImpl :: "memory \<Rightarrow> memory" where
  "Q9K_SysDelPrcImpl m =
     (case Q9K_ProcDelPrc m (ucast (Q9K_GetU32 m 0x1960)) of
        Inr m1 \<Rightarrow> Q9K_SetU32 m1 0x1968 1
      | Inl err \<Rightarrow> Q9K_SetU32 (Q9K_SetU32 m 0x1964 (ucast err)) 0x1968 0)"

end
