(* ===== verification/Q9_Debug.thy ===== *)
theory Q9_Debug
  imports Q9_Fork
begin

text \<open>
  Debugged processes and the replacement of a program.  F$DFork, F$DExec and the trace event
  (\<^verbatim>\<open>q9kernel_firstproc.c\<close>) run a child under the control of its debugger; F$Chain (\<^verbatim>\<open>q9kernel_chain.c\<close>)
  replaces the program of the running process in two halves; F$NProc (\<^verbatim>\<open>q9kernel_nproc.c\<close>) gives the
  processor away.
\<close>

abbreviation Q9K_PROCDESC_DBGREG_OFF :: u32 where "Q9K_PROCDESC_DBGREG_OFF \<equiv> 0x2C0"
abbreviation Q9K_PROCDESC_DBGBPS_OFF :: u32 where "Q9K_PROCDESC_DBGBPS_OFF \<equiv> 0x2D0"
abbreviation Q9K_PROCDESC_DBGBPN_OFF :: u32 where "Q9K_PROCDESC_DBGBPN_OFF \<equiv> 0x2D4"

section \<open>F$DFork\<close>

text \<open>The external register image: d0 to a6, a7, then status register, PC and format word.\<close>

definition publish_regs :: "memory \<Rightarrow> u32 \<Rightarrow> u32 \<Rightarrow> memory" where
  "publish_regs m registerBuffer frame =
     copy_bytes 8 (Q9K_SetFrameReg (copy_bytes 60 m registerBuffer frame) registerBuffer 15 (frame + 68))
       (registerBuffer + 64) (frame + 60)"

definition Q9K_ProcDebugFork ::
  "memory \<Rightarrow> u16 \<Rightarrow> u32 \<Rightarrow> u32 \<Rightarrow> u32 \<Rightarrow> u32 \<Rightarrow> u16 \<Rightarrow> u32 \<Rightarrow> ((u16 + u32) \<times> memory) option" where
  "Q9K_ProcDebugFork m typeLang addMem paramSize namePtr paramPtr priority registerBuffer =
     (if registerBuffer = 0 then Some (Inl Q9K_E_BPADDR, m)
      else do {
        (r, m1) \<leftarrow> Q9K_ProcFork m typeLang addMem paramSize namePtr paramPtr priority;
        Some (case r of
          Inl err \<Rightarrow> (Inl err, m1)
        | Inr pid \<Rightarrow>
            (let desc = Q9K_ProcLookup m1 (ucast pid);
                 frame = Q9K_GetU32 m1 (desc + Q9K_PROCDESC_SAVEDSP_OFF)
             in if desc = 0 then (Inl Q9K_E_BPADDR, m1)
                else if frame = 0 then (Inl Q9K_E_BPADDR, m1)
                else
                  let m2 = publish_regs m1 registerBuffer frame;
                      m3 = Q9K_SetU32 m2 (desc + Q9K_PROCDESC_DBGREG_OFF) registerBuffer;
                      m4 = Q9K_SetU32 m3 (desc + Q9K_PROCDESC_DBGPAR_OFF) (Q9K_GetU32 m3 Q9_D_PROC);
                      m5 = Q9K_SetU32 m4 (desc + Q9K_PROCDESC_DBGINSTR_OFF) 0;
                      m6 = Q9K_SchedRemove m5 desc
                  in (Inr pid, Q9K_SetU8 m6 (desc + Q9K_PROCDESC_STATE_OFF) Q9K_PROCDESC_STATE_WAITING)))
      })"

definition Q9K_SysDForkImpl :: "memory \<Rightarrow> memory option" where
  "Q9K_SysDForkImpl m = do {
     (r, m1) \<leftarrow> Q9K_ProcDebugFork m (Q9K_GetU16 m 0x1EBC) (Q9K_GetU32 m 0x1EC0) (Q9K_GetU32 m 0x1EC4) (Q9K_GetU32 m 0x1ED0)
       (Q9K_GetU32 m 0x1ED4) (Q9K_GetU16 m 0x1ECC) (Q9K_GetU32 m 0x1ED8);
     Some (case r of
       Inl err \<Rightarrow> Q9K_SetU16 (Q9K_SetU16 m1 0x1EE0 err) 0x1EE4 0
     | Inr pid \<Rightarrow> Q9K_SetU16 (Q9K_SetU16 m1 0x1EDC (ucast pid)) 0x1EE4 1)
   }"

section \<open>F$DExec and the trace event\<close>

text \<open>The first component is the process to run next (0 for failure or when none is ready), the second the error.\<close>

definition Q9K_ProcDebugExec :: "memory \<Rightarrow> u16 \<Rightarrow> u32 \<Rightarrow> u32 \<Rightarrow> u32 \<Rightarrow> (u32 \<times> u32 \<times> memory) option" where
  "Q9K_ProcDebugExec m childPid instructionCount bpCount bpList =
     (let desc = Q9K_ProcLookup m childPid;
          parent = Q9K_GetU32 m Q9_D_PROC;
          frame = Q9K_GetU32 m (desc + Q9K_PROCDESC_SAVEDSP_OFF);
          regbuf = Q9K_GetU32 m (desc + Q9K_PROCDESC_DBGREG_OFF)
      in if desc = 0 \<or> parent = 0 \<or> Q9K_GetU8 m (desc + Q9K_PROCDESC_STATE_OFF) \<noteq> Q9K_PROCDESC_STATE_WAITING \<or>
            Q9K_GetU32 m (desc + Q9K_PROCDESC_DBGPAR_OFF) \<noteq> parent
         then Some (0, 0xE0, m)
         else if frame = 0 \<or> regbuf = 0 then Some (0, 0xD2, m)
         else do {
           let count = (if instructionCount = 0xFFFFFFFF then 0 else instructionCount);
           let bps = (if bpList = 0 \<or> bpCount > 255 then if bpList = 0 then 0 else 255 else bpCount);
           let m1 = copy_bytes 60 m frame regbuf;
           let m2 = copy_bytes 8 m1 (frame + 60) (regbuf + 64);
           let sr = Q9K_GetU16 m2 (frame + 60);
           let m3 = Q9K_SetU16 m2 (frame + 60) (if count \<noteq> 0 \<or> bps \<noteq> 0 then sr OR 0x8000 else sr AND 0x7FFF);
           let m4 = Q9K_SetU32 m3 (desc + Q9K_PROCDESC_DBGINSTR_OFF) count;
           let m5 = Q9K_SetU32 m4 (desc + Q9K_PROCDESC_DBGBPS_OFF) bpList;
           let m6 = Q9K_SetU32 m5 (desc + Q9K_PROCDESC_DBGBPN_OFF) bps;
           let m7 = Q9K_WaitQInsert (Q9K_SetU8 m6 (parent + Q9K_PROCDESC_STATE_OFF) Q9K_PROCDESC_STATE_WAITING) parent;
           let m8 = Q9K_SchedInsert (Q9K_SetU8 m7 (desc + Q9K_PROCDESC_STATE_OFF) Q9K_PROCDESC_STATE_ACTIVE) desc;
           (next, m9) \<leftarrow> Q9K_SchedFirstPick m8;
           Some (next, 0, m9)
         })"

definition Q9K_SysDExecImpl :: "memory \<Rightarrow> memory option" where
  "Q9K_SysDExecImpl m = do {
     (next, error, m1) \<leftarrow> Q9K_ProcDebugExec m (Q9K_GetU16 m 0x1F00) (Q9K_GetU32 m 0x1F04) (Q9K_GetU32 m 0x2544) (Q9K_GetU32 m 0x2548);
     Some (Q9K_SetU16 (Q9K_SetU32 (Q9K_SetU32 m1 0x1F08 next) 0x1F0C error) 0x1F10 (if next \<noteq> 0 then 1 else 0))
   }"

definition Q9K_DebugHwFrameSize :: "u16 \<Rightarrow> u32" where
  "Q9K_DebugHwFrameSize formatWord =
     (let f = drop_bit 12 formatWord AND 0xF in
      if f = 0x2 then 12 else if f = 0x9 then 20 else if f = 0xA then 32 else if f = 0xB then 92 else 8)"

definition Q9K_DebugSaveRegs :: "memory \<Rightarrow> u32 \<Rightarrow> u32 \<Rightarrow> memory" where
  "Q9K_DebugSaveRegs m child frameSP =
     (let regbuf = Q9K_GetU32 m (child + Q9K_PROCDESC_DBGREG_OFF) in
      if regbuf = 0 then m
      else
        let m1 = copy_bytes 60 m regbuf frameSP;
            m2 = copy_bytes 8 m1 (regbuf + 64) (frameSP + 60);
            m3 = Q9K_SetU16 m2 (regbuf + 64) (Q9K_GetU16 m2 (regbuf + 64) AND 0x7FFF)
        in Q9K_SetFrameReg m3 regbuf 15 (frameSP + 60 + Q9K_DebugHwFrameSize (Q9K_ReadHdrU16BE m3 (frameSP + 66))))"

definition breakpoint_hit :: "memory \<Rightarrow> u32 \<Rightarrow> u32 \<Rightarrow> bool" where
  "breakpoint_hit m child pc =
     (let n = Q9K_GetU32 m (child + Q9K_PROCDESC_DBGBPN_OFF);
          bps = Q9K_GetU32 m (child + Q9K_PROCDESC_DBGBPS_OFF)
      in bps \<noteq> 0 \<and> list_ex (\<lambda>i. Q9K_ReadHdrU32BE m (bps + 4 * of_nat i) = pc) [0..<unat n])"

text \<open>Stopping the child and resuming its debugger.\<close>

definition debug_stop :: "memory \<Rightarrow> u32 \<Rightarrow> u32 \<Rightarrow> u32 \<Rightarrow> u32 \<Rightarrow> u32 \<times> memory" where
  "debug_stop m child frameSP executed notRun =
     (let m1 = Q9K_SetU32 m (child + Q9K_PROCDESC_DBGINSTR_OFF) 0;
          m2 = Q9K_SetU16 m1 (frameSP + 60) (Q9K_GetU16 m1 (frameSP + 60) AND 0x7FFF);
          parent = Q9K_GetU32 m2 (child + Q9K_PROCDESC_DBGPAR_OFF)
      in if parent = 0 \<or> Q9K_GetU8 m2 (parent + Q9K_PROCDESC_STATE_OFF) \<noteq> Q9K_PROCDESC_STATE_WAITING then (0, m2)
         else
           let m3 = Q9K_DebugSaveRegs m2 child frameSP;
               m4 = Q9K_SetU8 m3 (child + Q9K_PROCDESC_STATE_OFF) Q9K_PROCDESC_STATE_WAITING;
               m5 = Q9K_WaitQRemove m4 parent;
               m6 = Q9K_SetU8 m5 (parent + Q9K_PROCDESC_STATE_OFF) Q9K_PROCDESC_STATE_ACTIVE;
               parentSP = Q9K_GetU32 m6 (parent + Q9K_PROCDESC_SAVEDSP_OFF);
               m7 = Q9K_SetFrameReg m6 parentSP 0 executed;
               m8 = Q9K_SetFrameReg m7 parentSP 1 notRun;
               m9 = Q9K_SetFrameReg m8 parentSP 2 0
           in (parent, Q9K_SetU32 m9 Q9_D_PROC parent))"

definition Q9K_ProcDebugTrace :: "memory \<Rightarrow> u32 \<Rightarrow> u32 \<times> memory" where
  "Q9K_ProcDebugTrace m frameSP =
     (let child = Q9K_GetU32 m Q9_D_PROC in
      if child = 0 \<or> Q9K_GetU8 m (child + Q9K_PROCDESC_STATE_OFF) \<noteq> Q9K_PROCDESC_STATE_ACTIVE then (0, m)
      else
        let executed = Q9K_GetU32 m (child + Q9K_PROCDESC_DBGTOTAL_OFF) + 1;
            m1 = Q9K_SetU32 m (child + Q9K_PROCDESC_DBGTOTAL_OFF) executed;
            remaining = Q9K_GetU32 m1 (child + Q9K_PROCDESC_DBGINSTR_OFF);
            hitBp = breakpoint_hit m1 child (Q9K_ReadHdrU32BE m1 (frameSP + 62))
        in if \<not> hitBp then
             if remaining = 0 then (0, m1)
             else if remaining > 1 then (0, Q9K_SetU32 m1 (child + Q9K_PROCDESC_DBGINSTR_OFF) (remaining - 1))
             else debug_stop m1 child frameSP executed 0
           else debug_stop m1 child frameSP executed (if remaining > 0 then remaining - 1 else 0))"

section \<open>F$Chain\<close>

text \<open>The offset this file gives the priority byte; every other file has it one byte further on.\<close>

abbreviation Q9K_CHAIN_PRIORITY_OFF :: u32 where "Q9K_CHAIN_PRIORITY_OFF \<equiv> 0x18"
abbreviation Q9K_CHAIN_SCRATCH_OLDBLOCK :: u32 where "Q9K_CHAIN_SCRATCH_OLDBLOCK \<equiv> 0x1BC4"
abbreviation Q9K_CHAIN_SCRATCH_OLDSIZE :: u32 where "Q9K_CHAIN_SCRATCH_OLDSIZE \<equiv> 0x1BC8"
abbreviation Q9K_CHAIN_SCRATCH_OLDMOD :: u32 where "Q9K_CHAIN_SCRATCH_OLDMOD \<equiv> 0x1BCC"

text \<open>Steps 2 and 3: the old block and module are noted, the descriptor is turned to the new program.\<close>

definition chain_desc :: "memory \<Rightarrow> u32 \<Rightarrow> program \<Rightarrow> u16 \<Rightarrow> u32 \<Rightarrow> memory" where
  "chain_desc m desc p priority frameBase =
     (let m1 = Q9K_SetU32 m Q9K_CHAIN_SCRATCH_OLDBLOCK (Q9K_GetU32 m (desc + Q9K_PROCDESC_ALLOCBASE_OFF));
          m2 = Q9K_SetU32 m1 Q9K_CHAIN_SCRATCH_OLDSIZE (Q9K_GetU32 m1 (desc + Q9K_PROCDESC_ALLOCSIZE_OFF));
          m3 = Q9K_SetU32 m2 Q9K_CHAIN_SCRATCH_OLDMOD (Q9K_GetU32 m2 (desc + Q9K_PROCDESC_MODHDR_OFF));
          m4 = Q9K_SetU32 m3 (desc + Q9K_PROCDESC_MODHDR_OFF) (hdrAddr p);
          m5 = Q9K_SetU32 m4 (desc + Q9K_PROCDESC_ALLOCBASE_OFF) (block p);
          m6 = Q9K_SetU32 m5 (desc + Q9K_PROCDESC_ALLOCSIZE_OFF) (totalSize p);
          m7 = Q9K_SetU32 m6 (desc + Q9K_PROCDESC_SAVEDSP_OFF) frameBase;
          m8 = Q9K_SetU32 m7 (desc + Q9K_PROCDESC_ENTRYPC_OFF) (entryPC p);
          m9 = Q9K_SetU8 m8 (desc + Q9K_CHAIN_PRIORITY_OFF) (ucast priority);
          m10 = Q9K_SetU16 m9 (desc + Q9K_PROCDESC_SIGNAL_OFF) 0;
          m11 = Q9K_SetU32 m10 (desc + Q9K_PROCDESC_SIGVEC_OFF) 0
      in Q9K_SetU32 m11 (desc + Q9K_PROCDESC_SIGDAT_OFF) 0)"

definition Q9K_ProcChain :: "memory \<Rightarrow> u16 \<Rightarrow> u32 \<Rightarrow> u32 \<Rightarrow> u32 \<Rightarrow> u32 \<Rightarrow> u16 \<Rightarrow> u16 \<Rightarrow> (u16 option \<times> memory) option" where
  "Q9K_ProcChain m typeLang addMem paramSize namePtr paramPtr priorityIn numPaths =
     (let desc = Q9K_GetU32 m Q9_D_PROC in
      if desc = 0 then Some (Some Q9K_E_BPADDR, m)
      else do {
        (r, m1) \<leftarrow> load_program m typeLang addMem paramSize namePtr;
        Some (case r of
          Inl err \<Rightarrow> (Some err, m1)
        | Inr p \<Rightarrow>
            (let m2 = copy_bytes (unat paramSize) m1 (sp_boundary p paramSize) paramPtr;
                 priority = (if priorityIn \<noteq> 0 then priorityIn else ucast (Q9K_GetU8 m2 (desc + Q9K_CHAIN_PRIORITY_OFF)));
                 m3 = put_start_frame m2 p paramSize (ucast (Q9K_ProcIdForDesc m2 desc)) priority numPaths
             in (None, chain_desc m3 desc p priority (start_frame p paramSize))))
      })"

definition Q9K_SysChainImpl :: "memory \<Rightarrow> memory option" where
  "Q9K_SysChainImpl m0 = do {
     let m = Q9K_SetU32 m0 0x1BC0 0;
     (r, m1) \<leftarrow> Q9K_ProcChain m (ucast (Q9K_GetU32 m 0x1BA0)) (Q9K_GetU32 m 0x1BA4) (Q9K_GetU32 m 0x1BA8) (Q9K_GetU32 m 0x1BB4)
       (Q9K_GetU32 m 0x1BB8) (ucast (Q9K_GetU32 m 0x1BB0)) (ucast (Q9K_GetU32 m 0x1BAC));
     Some (case r of
       Some err \<Rightarrow> Q9K_SetU32 m1 0x1BBC (ucast err)
     | None \<Rightarrow> Q9K_SetU32 m1 0x1BC0 1)
   }"

definition Q9K_SysChainReleaseImpl :: "memory \<Rightarrow> memory option" where
  "Q9K_SysChainReleaseImpl m = do {
     let oldBlock = Q9K_GetU32 m Q9K_CHAIN_SCRATCH_OLDBLOCK;
     let oldSize = Q9K_GetU32 m Q9K_CHAIN_SCRATCH_OLDSIZE;
     let oldMod = Q9K_GetU32 m Q9K_CHAIN_SCRATCH_OLDMOD;
     let m1 = Q9K_AlarmCleanupProcess m (Q9K_GetU32 m Q9_D_PROC);
     m2 \<leftarrow> Q9K_ProcTrapReleaseAll m1 (Q9K_GetU32 m1 Q9_D_PROC);
     m3 \<leftarrow> (if oldMod \<noteq> 0 then map_option snd (Q9K_ModDirUnlinkByHeader m2 oldMod) else Some m2);
     let m4 = (if oldBlock \<noteq> 0 \<and> oldSize \<noteq> 0 then Q9K_FreeMem m3 oldBlock oldSize else m3);
     Some (Q9K_SetU32 (Q9K_SetU32 (Q9K_SetU32 m4 Q9K_CHAIN_SCRATCH_OLDBLOCK 0) Q9K_CHAIN_SCRATCH_OLDSIZE 0) Q9K_CHAIN_SCRATCH_OLDMOD 0)
   }"

section \<open>F$NProc\<close>

definition Q9K_SysNProcImpl :: "memory \<Rightarrow> memory option" where
  "Q9K_SysNProcImpl m = do { (next, m1) \<leftarrow> Q9K_SchedFirstPick m; Some (Q9K_SetU32 m1 0x1E50 next) }"

end
