(* ===== verification/Q9_Tables_Props.thy ===== *)
theory Q9_Tables_Props
  imports Q9_Tables Q9_Fork Q9_Arena_Props
begin

text \<open>
  The tables built at boot: dividing a block into slots makes a free list of all of them, so after
  start-up the three pools hand out every slot exactly once.
\<close>

section \<open>The free list\<close>

text \<open>A longword outside the table does not meet its links.\<close>

definition off_table :: "u32 \<Rightarrow> u32 \<Rightarrow> nat \<Rightarrow> u32 \<Rightarrow> bool" where
  "off_table base z n a \<longleftrightarrow> unat a + 4 \<le> 2 ^ 32 \<and> (unat a + 4 \<le> unat base \<or> unat base + n * unat z \<le> unat a)"

lemma off_table_slot: "table_ok base z n \<Longrightarrow> i < n \<Longrightarrow> off_table base z n a \<Longrightarrow> apart (slot_at base z i) 4 a 4"
  using slot_span [of base z n i] by (intro apart_ranges) (auto simp: off_table_def table_ok_def)

lemma slot_at_Suc: "slot_at base z (Suc i) = slot_at base z i + z"
  by (simp add: slot_at_def algebra_simps)

lemma chain_slots_spec:
  assumes "table_ok base z n" "i + k < n"
  shows "\<exists>m'. chain_slots k z m (slot_at base z i) = (m', slot_at base z (i + k)) \<and>
    (\<forall>j. i \<le> j \<and> j < i + k \<longrightarrow> Q9K_GetU32 m' (slot_at base z j) = slot_at base z (Suc j)) \<and>
    (\<forall>a. (\<forall>j. i \<le> j \<and> j < i + k \<longrightarrow> apart (slot_at base z j) 4 a 4) \<longrightarrow> Q9K_GetU32 m' a = Q9K_GetU32 m a)"
  using assms(2)
proof (induction k arbitrary: m i)
  case (Suc k)
  let ?m = "Q9K_SetU32 m (slot_at base z i) (slot_at base z (Suc i))"
  obtain m' where m': "chain_slots k z ?m (slot_at base z (Suc i)) = (m', slot_at base z (Suc i + k))"
    "\<And>j. Suc i \<le> j \<Longrightarrow> j < Suc i + k \<Longrightarrow> Q9K_GetU32 m' (slot_at base z j) = slot_at base z (Suc j)"
    "\<And>a. (\<And>j. Suc i \<le> j \<Longrightarrow> j < Suc i + k \<Longrightarrow> apart (slot_at base z j) 4 a 4) \<Longrightarrow> Q9K_GetU32 m' a = Q9K_GetU32 ?m a"
    using Suc.IH [of "Suc i" ?m] Suc.prems by auto
  have i: "Q9K_GetU32 m' (slot_at base z i) = slot_at base z (Suc i)"
    using Suc.prems by (subst m'(3)) (auto intro!: slots_apart [OF assms(1)])
  have o: "Q9K_GetU32 m' a = Q9K_GetU32 m a" if "\<And>j. i \<le> j \<Longrightarrow> j < i + Suc k \<Longrightarrow> apart (slot_at base z j) 4 a 4" for a
    using that by (subst m'(3)) auto
  have l: "Q9K_GetU32 m' (slot_at base z j) = slot_at base z (Suc j)" if "i \<le> j" "j < i + Suc k" for j
    using that i m'(2) [of j] by (cases "j = i") auto
  show ?case using m'(1) l o by (intro exI [of _ m']) (simp add: slot_at_Suc)
qed auto

lemma path_slots_upto:
  assumes "\<And>j. j < n \<Longrightarrow> Q9K_GetU32 m (slot_at base z j) = (if Suc j < n then slot_at base z (Suc j) else 0)"
  shows "i < n \<Longrightarrow> path (Q9K_GetU32 m) (slot_at base z i) (map (slot_at base z) [i..<n]) 0"
proof (induction "n - i" arbitrary: i)
  case (Suc k)
  then have "[i..<n] = i # [Suc i..<n]" by (simp add: upt_rec)
  then show ?case using Suc assms [of i] by (cases "Suc i < n") auto
qed simp

lemma build_free_list:
  assumes "table_ok base z n" "unat g + 4 \<le> 0x8000" "n < 2 ^ 32"
  shows "free_list g (set (all_slots base z n)) (Q9K_BuildFreeList m base z (of_nat n) g) (all_slots base z n)"
    and "(\<And>i. i < n \<Longrightarrow> apart (slot_at base z i) 4 a 4) \<Longrightarrow> apart g 4 a 4 \<Longrightarrow>
      Q9K_GetU32 (Q9K_BuildFreeList m base z (of_nat n) g) a = Q9K_GetU32 m a"
proof -
  have d: "distinct (all_slots base z n)"
    using slot_inj [OF assms(1)] by (auto simp: all_slots_def distinct_map inj_on_def)
  note pc = table_cells [OF assms(1,2)]
  have "free_list g (set (all_slots base z n)) (Q9K_BuildFreeList m base z (of_nat n) g) (all_slots base z n) \<and>
    ((\<forall>i<n. apart (slot_at base z i) 4 a 4) \<longrightarrow> apart g 4 a 4 \<longrightarrow> Q9K_GetU32 (Q9K_BuildFreeList m base z (of_nat n) g) a = Q9K_GetU32 m a)"
  proof (cases n)
    case 0
    then show ?thesis using pc by (auto simp: Q9K_BuildFreeList_def free_list_def all_slots_def)
  next
    case (Suc k)
    have c: "of_nat n \<noteq> (0 :: u32)" "unat (of_nat n - 1 :: u32) = k"
      using assms(3) Suc unat_of_nat_u32 [of n] unat_of_nat_u32 [of k] by (auto simp: word_unat_eq_iff)
    obtain m1 where m1: "chain_slots k z m base = (m1, slot_at base z k)"
      "\<And>j. j < k \<Longrightarrow> Q9K_GetU32 m1 (slot_at base z j) = slot_at base z (Suc j)"
      "\<And>a. (\<And>j. j < k \<Longrightarrow> apart (slot_at base z j) 4 a 4) \<Longrightarrow> Q9K_GetU32 m1 a = Q9K_GetU32 m a"
      using chain_slots_spec [OF assms(1), of 0 k m] Suc by (auto simp: slot_at_def [of base z 0])
    let ?m = "Q9K_SetU32 (Q9K_SetU32 m1 (slot_at base z k) 0) g base"
    have e: "Q9K_BuildFreeList m base z (of_nat n) g = ?m" using c m1(1) by (simp add: Q9K_BuildFreeList_def)
    have g: "apart (slot_at base z j) 4 g 4" "apart g 4 (slot_at base z j) 4" if "j < n" for j
      using slot_low [OF assms(1) that assms(2)] apart_sym by blast+
    have lk: "Q9K_GetU32 ?m (slot_at base z j) = (if Suc j < n then slot_at base z (Suc j) else 0)" if "j < n" for j
      using that m1(2) [of j] g [of j] slots_apart [OF assms(1), of k j] Suc by (cases "j = k") auto
    have "path (Q9K_GetU32 ?m) (slot_at base z 0) (map (slot_at base z) [0..<n]) 0"
      by (rule path_slots_upto [OF lk]) (use Suc in auto)
    then have 1: "free_list g (set (all_slots base z n)) ?m (all_slots base z n)"
      using pc d by (simp add: free_list_def all_slots_def slot_at_def [of base z 0])
    have 2: "Q9K_GetU32 ?m a = Q9K_GetU32 m a" if "\<forall>i<n. apart (slot_at base z i) 4 a 4" "apart g 4 a 4"
      using that m1(3) [of a] Suc by simp
    show ?thesis unfolding e using 1 2 by simp
  qed
  then show "free_list g (set (all_slots base z n)) (Q9K_BuildFreeList m base z (of_nat n) g) (all_slots base z n)"
    "(\<And>i. i < n \<Longrightarrow> apart (slot_at base z i) 4 a 4) \<Longrightarrow> apart g 4 a 4 \<Longrightarrow>
      Q9K_GetU32 (Q9K_BuildFreeList m base z (of_nat n) g) a = Q9K_GetU32 m a"
    by auto
qed

text \<open>Clearing a table word by word.\<close>

lemma zero_cells_spec:
  assumes "table_ok base 4 n" "i + k \<le> n"
  shows "i \<le> j \<Longrightarrow> j < i + k \<Longrightarrow> Q9K_GetU32 (zero_cells k m (slot_at base 4 i)) (slot_at base 4 j) = 0"
    and "(\<And>j. i \<le> j \<Longrightarrow> j < i + k \<Longrightarrow> apart (slot_at base 4 j) 4 a 4) \<Longrightarrow>
      Q9K_GetU32 (zero_cells k m (slot_at base 4 i)) a = Q9K_GetU32 m a"
proof -
  have fr: "(\<forall>j. i \<le> j \<and> j < i + k \<longrightarrow> apart (slot_at base 4 j) 4 a 4) \<longrightarrow>
      Q9K_GetU32 (zero_cells k m (slot_at base 4 i)) a = Q9K_GetU32 m a" for i k a m
    by (induction k arbitrary: m i) (auto simp: slot_at_Suc [symmetric])
  then show "(\<And>j. i \<le> j \<Longrightarrow> j < i + k \<Longrightarrow> apart (slot_at base 4 j) 4 a 4) \<Longrightarrow>
      Q9K_GetU32 (zero_cells k m (slot_at base 4 i)) a = Q9K_GetU32 m a" by blast
  show "i \<le> j \<Longrightarrow> j < i + k \<Longrightarrow> Q9K_GetU32 (zero_cells k m (slot_at base 4 i)) (slot_at base 4 j) = 0"
    using assms(2)
  proof (induction k arbitrary: m i)
    case (Suc k)
    let ?m = "Q9K_SetU32 m (slot_at base 4 i) 0"
    have "Q9K_GetU32 (zero_cells k ?m (slot_at base 4 (Suc i))) (slot_at base 4 j) = 0"
    proof (cases "j = i")
      case True
      have "Q9K_GetU32 (zero_cells k ?m (slot_at base 4 (Suc i))) (slot_at base 4 i) = Q9K_GetU32 ?m (slot_at base 4 i)"
        using fr [of "Suc i" k "slot_at base 4 i" ?m] Suc.prems slots_apart [OF assms(1)] by auto
      then show ?thesis using True by simp
    qed (use Suc in auto)
    then show ?case by (simp add: slot_at_Suc [symmetric])
  qed simp
qed

section \<open>Start-up\<close>

text \<open>The three tables behind the two dispatch tables at \<open>b\<close>.\<close>

definition module_table :: "u32 \<Rightarrow> u32" where
  "module_table b = b + 0x1000"

definition process_table :: "u32 \<Rightarrow> nat \<Rightarrow> u32" where
  "process_table b mods = module_table b + of_nat mods * 16"

definition path_table :: "u32 \<Rightarrow> nat \<Rightarrow> nat \<Rightarrow> u32" where
  "path_table b mods procs = process_table b mods + of_nat procs * 0x400"

definition tables_size :: "nat \<Rightarrow> nat \<Rightarrow> nat \<Rightarrow> nat" where
  "tables_size mods procs paths = 0x1000 + mods * 16 + procs * 0x400 + paths * 0x100"

lemma unat_scale: "i < 0x10000 \<Longrightarrow> unat c \<le> 0x400 \<Longrightarrow> unat (of_nat i * c :: u32) = i * unat c"
proof -
  assume i: "i < 0x10000" "unat c \<le> 0x400"
  then have "i * unat c \<le> 0x10000 * 0x400" by (intro mult_le_mono) simp_all
  then show ?thesis using i unat_mult_lem [of "of_nat i" c] unat_of_nat_u32 [of i] by simp
qed

lemma tables_layout:
  assumes "0x8000 \<le> unat b" "unat b + tables_size mods procs paths < 2 ^ 32" "mods < 0x10000" "procs < 0x10000"
  shows "unat (module_table b) = unat b + 0x1000" "unat (process_table b mods) = unat b + 0x1000 + mods * 16"
    "unat (path_table b mods procs) = unat b + 0x1000 + mods * 16 + procs * 0x400"
    "table_ok b 4 0x400" "table_ok (module_table b) 16 mods" "table_ok (process_table b mods) 0x400 procs"
    "table_ok (process_table b mods) 4 (procs * 0x100)" "table_ok (path_table b mods procs) 0x100 paths"
proof -
  show m: "unat (module_table b) = unat b + 0x1000"
    using assms(2) unat_offset [of b "0x1000"] by (simp add: module_table_def tables_size_def)
  show p: "unat (process_table b mods) = unat b + 0x1000 + mods * 16"
    using assms m unat_offset [of "module_table b" "of_nat mods * 16"] unat_scale [of mods 16]
    by (simp add: process_table_def tables_size_def)
  show q: "unat (path_table b mods procs) = unat b + 0x1000 + mods * 16 + procs * 0x400"
    using assms p unat_offset [of "process_table b mods" "of_nat procs * 0x400"] unat_scale [of procs "0x400"]
    by (simp add: path_table_def tables_size_def)
  show "table_ok b 4 0x400" "table_ok (module_table b) 16 mods" "table_ok (process_table b mods) 0x400 procs"
    "table_ok (process_table b mods) 4 (procs * 0x100)" "table_ok (path_table b mods procs) 0x100 paths"
    using assms m p q by (simp_all add: table_ok_def tables_size_def)
qed

text \<open>A longword below the tables, or of a table that lies before another, is outside the other.\<close>

lemma off_low: "0x8000 \<le> unat base \<Longrightarrow> unat a + 4 \<le> 0x8000 \<Longrightarrow> off_table base z n a"
  by (simp add: off_table_def)

lemma build_low:
  assumes "table_ok base z n" "unat g + 4 \<le> 0x8000" "n < 2 ^ 32" "off_table base z n a" "apart g 4 a 4"
  shows "Q9K_GetU32 (Q9K_BuildFreeList m base z (of_nat n) g) a = Q9K_GetU32 m a"
  by (rule build_free_list(2) [OF assms(1-3)]) (use off_table_slot [OF assms(1) _ assms(4)] assms(5) in auto)

lemma zero_low:
  assumes "table_ok base 4 n" "off_table base 4 n a"
  shows "Q9K_GetU32 (zero_cells n m base) a = Q9K_GetU32 m a"
  using zero_cells_spec(2) [OF assms(1), of 0 n a m] off_table_slot [OF assms(1) _ assms(2)]
  by (simp add: slot_at_def [of base 4 0])

lemma setup_modules:
  assumes "table_ok b 4 0x400" "table_ok (module_table b) 16 mods" "mods < 0x10000" "unat (module_table b) = unat b + 0x1000"
    and m': "m' = Q9K_SetU32 (Q9K_BuildFreeList (Q9K_SetU32 (Q9K_SetU32 (Q9K_SetU32 (Q9K_SetU32 (zero_cells 0x400 m b)
      Q9_D_SYSDIS b) Q9_D_USRDIS u) Q9_D_MODDIR v) Q9_D_MODDIR_END w) (module_table b) 16 (of_nat mods) Q9K_MODDIR_FREE_ADDR)
      Q9K_MODDIR_HEAD_ADDR 0"
  shows "free_list Q9K_MODDIR_FREE_ADDR (set (all_slots (module_table b) 16 mods)) m' (all_slots (module_table b) 16 mods)"
    "Q9K_GetU32 m' Q9K_MODDIR_HEAD_ADDR = 0" "j < 0x400 \<Longrightarrow> Q9K_GetU32 m' (slot_at b 4 j) = 0"
proof -
  let ?m = "Q9K_SetU32 (Q9K_SetU32 (Q9K_SetU32 (Q9K_SetU32 (zero_cells 0x400 m b)
      Q9_D_SYSDIS b) Q9_D_USRDIS u) Q9_D_MODDIR v) Q9_D_MODDIR_END w"
  have n: "mods < 2 ^ 32" using assms(3) by simp
  note bf = build_free_list [OF assms(2) _ n, of Q9K_MODDIR_FREE_ADDR, where m = ?m, simplified]
  have hd: "apart Q9K_MODDIR_HEAD_ADDR 4 x 4" if "x \<in> set (all_slots (module_table b) 16 mods)" for x
    using that slot_low [OF assms(2), of _ Q9K_MODDIR_HEAD_ADDR] by (auto simp: all_slots_def intro: apart_sym)
  show "free_list Q9K_MODDIR_FREE_ADDR (set (all_slots (module_table b) 16 mods)) m' (all_slots (module_table b) 16 mods)"
    unfolding m' by (rule free_list_cong [OF bf(1)]) (simp_all add: hd)
  show "Q9K_GetU32 m' Q9K_MODDIR_HEAD_ADDR = 0" by (simp add: m')
  assume j: "j < 0x400"
  note sl = slot_low [OF assms(1) j]
  have "off_table (module_table b) 16 mods (slot_at b 4 j)"
    using slot_span [OF assms(1) j] assms(1,4) by (auto simp: off_table_def table_ok_def)
  then have "Q9K_GetU32 m' (slot_at b 4 j) = Q9K_GetU32 ?m (slot_at b 4 j)"
    unfolding m' using sl by (simp add: apart_sym build_low [OF assms(2) _ n])
  also have "\<dots> = 0" using sl zero_cells_spec(1) [OF assms(1), of 0 "0x400" j m] j
    by (simp add: apart_sym slot_at_def [of b 4 0])
  finally show "Q9K_GetU32 m' (slot_at b 4 j) = 0" .
qed

lemma setup_processes:
  assumes "table_ok pp 0x400 procs" "table_ok pp 4 (procs * 0x100)" "procs < 0x10000"
    and m': "m' = Q9K_SetU32 (Q9K_BuildFreeList (zero_cells (procs * 0x100) (Q9K_SetU32 m Q9K_PROCPOOL_BASE_ADDR pp) pp)
      pp 0x400 (of_nat procs) Q9K_PROCPOOL_FREE_ADDR) Q9K_PROCPOOL_COUNT_ADDR (of_nat procs)"
  shows "free_list Q9K_PROCPOOL_FREE_ADDR (set (all_slots pp 0x400 procs)) m' (all_slots pp 0x400 procs)"
    "Q9K_GetU32 m' Q9K_PROCPOOL_BASE_ADDR = pp" "Q9K_GetU32 m' Q9K_PROCPOOL_COUNT_ADDR = of_nat procs"
    "i < procs \<Longrightarrow> Q9K_GetU32 m' (slot_at pp 0x400 i + 0x1C) = 0"
    "off_table pp 0x400 procs a \<Longrightarrow> apart Q9K_PROCPOOL_BASE_ADDR 4 a 4 \<Longrightarrow> apart Q9K_PROCPOOL_FREE_ADDR 4 a 4 \<Longrightarrow>
      apart Q9K_PROCPOOL_COUNT_ADDR 4 a 4 \<Longrightarrow> Q9K_GetU32 m' a = Q9K_GetU32 m a"
proof -
  let ?m = "zero_cells (procs * 0x100) (Q9K_SetU32 m Q9K_PROCPOOL_BASE_ADDR pp) pp"
  have n: "procs < 2 ^ 32" using assms(3) by simp
  note bf = build_free_list [OF assms(1) _ n, of Q9K_PROCPOOL_FREE_ADDR, where m = ?m, simplified]
  have low: "off_table pp z n a" if "unat a + 4 \<le> 0x8000" for z n a using that assms(1) by (auto simp: table_ok_def intro: off_low)
  have cnt: "apart Q9K_PROCPOOL_COUNT_ADDR 4 (slot_at pp 0x400 i + k) 4" if "i < procs" "unat k \<le> 0x1C" for i k
    using that slot_span [OF assms(1), of i] assms(1)
    by (intro apart_sym [OF apart_high_low [where L = "0x8000"]]) (auto simp: table_ok_def)
  show "free_list Q9K_PROCPOOL_FREE_ADDR (set (all_slots pp 0x400 procs)) m' (all_slots pp 0x400 procs)"
    unfolding m' by (rule free_list_cong [OF bf(1)]) (use cnt [of _ 0] in \<open>auto simp: all_slots_def\<close>)
  have off: "off_table pp 0x400 procs a \<Longrightarrow> off_table pp 4 (procs * 0x100) a" for a by (auto simp: off_table_def)
  show "Q9K_GetU32 m' Q9K_PROCPOOL_BASE_ADDR = pp"
    unfolding m' by (simp add: build_low [OF assms(1) _ n] low zero_low [OF assms(2)])
  show "Q9K_GetU32 m' Q9K_PROCPOOL_COUNT_ADDR = of_nat procs" unfolding m' by simp
  show "off_table pp 0x400 procs a \<Longrightarrow> apart Q9K_PROCPOOL_BASE_ADDR 4 a 4 \<Longrightarrow> apart Q9K_PROCPOOL_FREE_ADDR 4 a 4 \<Longrightarrow>
      apart Q9K_PROCPOOL_COUNT_ADDR 4 a 4 \<Longrightarrow> Q9K_GetU32 m' a = Q9K_GetU32 m a"
    using off [of a] unfolding m' by (simp add: build_low [OF assms(1) _ n] zero_low [OF assms(2)])
  assume i: "i < procs"
  have e: "slot_at pp 0x400 i + 0x1C = slot_at pp 4 (i * 0x100 + 7)" by (simp add: slot_at_def algebra_simps)
  have u: "unat (slot_at pp 0x400 i + 0x1C) = unat pp + i * 0x400 + 0x1C"
    using slot_span [OF assms(1) i] unat_slot [OF assms(1) i] assms(1) unat_offset [of "slot_at pp 0x400 i" "0x1C"]
    by (auto simp: table_ok_def)
  have k: "k * 0x400 \<le> i * 0x400 \<or> i * 0x400 + 0x400 \<le> k * 0x400" for k :: nat by (cases "k \<le> i") auto
  have sl: "apart (slot_at pp 0x400 k) 4 (slot_at pp 0x400 i + 0x1C) 4" if "k < procs" for k
    using k [of k] slot_span [OF assms(1) that] unat_slot [OF assms(1) that] slot_span(2) [OF assms(1) i] unat_slot [OF assms(1) i] assms(1) u
    by (intro apart_ranges) (auto simp: table_ok_def)
  have fr: "apart Q9K_PROCPOOL_FREE_ADDR 4 (slot_at pp 0x400 i + 0x1C) 4"
    using i slot_span [OF assms(1), of i] assms(1)
    by (intro apart_sym [OF apart_high_low [where L = "0x8000"]]) (auto simp: table_ok_def)
  have "Q9K_GetU32 m' (slot_at pp 0x400 i + 0x1C) = Q9K_GetU32 ?m (slot_at pp 0x400 i + 0x1C)"
    unfolding m' using cnt [of i "0x1C"] i sl fr bf(2) by simp
  also have "\<dots> = 0" unfolding e using i zero_cells_spec(1) [OF assms(2), of 0 "procs * 0x100" "i * 0x100 + 7"]
    by (simp add: slot_at_def [of pp 4 0])
  finally show "Q9K_GetU32 m' (slot_at pp 0x400 i + 0x1C) = 0" .
qed

lemma setup_paths:
  assumes "table_ok qp 0x100 paths" "paths < 0x10000"
    and m': "m' = Q9K_BuildFreeList (Q9K_SetU32 m Q9K_PATHPOOL_BASE_ADDR qp) qp 0x100 (of_nat paths) Q9K_PATHPOOL_FREE_ADDR"
  shows "free_list Q9K_PATHPOOL_FREE_ADDR (set (all_slots qp 0x100 paths)) m' (all_slots qp 0x100 paths)"
    "Q9K_GetU32 m' Q9K_PATHPOOL_BASE_ADDR = qp"
    "off_table qp 0x100 paths a \<Longrightarrow> apart Q9K_PATHPOOL_BASE_ADDR 4 a 4 \<Longrightarrow> apart Q9K_PATHPOOL_FREE_ADDR 4 a 4 \<Longrightarrow>
      Q9K_GetU32 m' a = Q9K_GetU32 m a"
proof -
  have n: "paths < 2 ^ 32" using assms(2) by simp
  have low: "off_table qp 0x100 paths a" if "unat a + 4 \<le> 0x8000" for a using that assms(1) by (auto simp: table_ok_def intro: off_low)
  show "free_list Q9K_PATHPOOL_FREE_ADDR (set (all_slots qp 0x100 paths)) m' (all_slots qp 0x100 paths)"
    unfolding m' by (rule build_free_list(1) [OF assms(1) _ n]) simp
  show "Q9K_GetU32 m' Q9K_PATHPOOL_BASE_ADDR = qp"
    unfolding m' by (simp add: build_low [OF assms(1) _ n] low)
  show "off_table qp 0x100 paths a \<Longrightarrow> apart Q9K_PATHPOOL_BASE_ADDR 4 a 4 \<Longrightarrow> apart Q9K_PATHPOOL_FREE_ADDR 4 a 4 \<Longrightarrow>
      Q9K_GetU32 m' a = Q9K_GetU32 m a"
    unfolding m' by (simp add: build_low [OF assms(1) _ n])
qed

text \<open>A state longword of 0 means that no process lives in the slot.\<close>

lemma state_byte: "Q9K_GetU32 m (d + 0x1C) = 0 \<Longrightarrow> \<not> Q9K_ProcIsAllocated m d"
proof -
  assume z: "Q9K_GetU32 m (d + 0x1C) = 0"
  have "m (d + 0x1D) = Q9K_SetU32 m (d + 0x1C) 0 (d + 0x1D)" using SetU32_GetU32 [of m "d + 0x1C"] z by simp
  also have "\<dots> = 0" by (simp add: Q9K_SetU32_def)
  finally have "m (d + 0x1D) = 0" .
  then show ?thesis by (simp add: Q9K_ProcIsAllocated_def Q9K_GetU8_def)
qed

lemma no_process:
  assumes "Q9K_GetU32 m Q9K_PROCPOOL_BASE_ADDR = pp" "Q9K_GetU32 m Q9K_PROCPOOL_COUNT_ADDR = of_nat procs" "procs < 0x10000"
    and z: "\<And>i. i < procs \<Longrightarrow> Q9K_GetU32 m (slot_at pp 0x400 i + 0x1C) = 0"
  shows "Q9K_ProcLookup m pid = 0"
proof (cases "pid = 0 \<or> ucast pid > (of_nat procs :: u32) \<or> pp = 0")
  case False
  then have p: "0 < unat pid" "unat pid \<le> procs"
    using assms(3) unat_of_nat_u32 [of procs] by (simp_all add: word_less_nat_alt unat_gt_0)
  have "pp + push_bit 10 (ucast pid - 1) = slot_at pp 0x400 (unat pid - 1)"
    using p(1) by (simp add: slot_at_def push_bit_eq_mult mult.commute of_nat_diff)
  then show ?thesis using False assms(1,2) state_byte [OF z [of "unat pid - 1"]] p by (simp add: Q9K_ProcLookup_def)
qed (use assms in \<open>auto simp: Q9K_ProcLookup_def\<close>)

text \<open>The memory after the three steps.\<close>

lemma tables_built:
  assumes lay: "0x8000 \<le> unat b" "unat b + tables_size mods procs paths < 2 ^ 32"
    and lt: "mods < 0x10000" "procs < 0x10000" "paths < 0x10000"
    and A: "A = Q9K_SetU32 (Q9K_BuildFreeList (Q9K_SetU32 (Q9K_SetU32 (Q9K_SetU32 (Q9K_SetU32 (zero_cells 0x400 m1 b)
      Q9_D_SYSDIS b) Q9_D_USRDIS (b + Q9K_SYSDIS_SIZE)) Q9_D_MODDIR (module_table b)) Q9_D_MODDIR_END (process_table b mods))
      (module_table b) 16 (of_nat mods) Q9K_MODDIR_FREE_ADDR) Q9K_MODDIR_HEAD_ADDR 0"
    and B: "B = Q9K_SetU32 (Q9K_BuildFreeList (zero_cells (procs * 0x100) (Q9K_SetU32 A Q9K_PROCPOOL_BASE_ADDR (process_table b mods))
      (process_table b mods)) (process_table b mods) 0x400 (of_nat procs) Q9K_PROCPOOL_FREE_ADDR) Q9K_PROCPOOL_COUNT_ADDR (of_nat procs)"
    and C: "C = Q9K_BuildFreeList (Q9K_SetU32 B Q9K_PATHPOOL_BASE_ADDR (path_table b mods procs)) (path_table b mods procs) 0x100
      (of_nat paths) Q9K_PATHPOOL_FREE_ADDR"
  shows "free_list Q9K_MODDIR_FREE_ADDR (set (all_slots (module_table b) 16 mods)) C (all_slots (module_table b) 16 mods)"
    "free_list Q9K_PROCPOOL_FREE_ADDR (set (all_slots (process_table b mods) 0x400 procs)) C (all_slots (process_table b mods) 0x400 procs)"
    "free_list Q9K_PATHPOOL_FREE_ADDR (set (all_slots (path_table b mods procs) 0x100 paths)) C (all_slots (path_table b mods procs) 0x100 paths)"
    "Q9K_ProcLookup C pid = 0" "j < 0x400 \<Longrightarrow> Q9K_GetU32 C (b + of_nat j * 4) = 0" "Q9K_GetU32 C Q9K_MODDIR_HEAD_ADDR = 0"
proof -
  note L = tables_layout [OF lay lt(1,2)]
  note a = setup_modules [OF L(4,5) lt(1) L(1) A]
  note b = setup_processes [OF L(6,7) lt(2) B]
  note c = setup_paths [OF L(8) lt(3) C]
  have below: "Q9K_GetU32 C a = Q9K_GetU32 A a" if "unat a + 4 \<le> unat (process_table b mods)"
    "\<forall>g\<in>{Q9K_PROCPOOL_BASE_ADDR, Q9K_PROCPOOL_FREE_ADDR, Q9K_PROCPOOL_COUNT_ADDR, Q9K_PATHPOOL_BASE_ADDR, Q9K_PATHPOOL_FREE_ADDR}. apart g 4 a 4" for a
    using that b(5) [of a] c(3) [of a] L(2,3) unat_u32_less [of "process_table b mods"] by (simp add: off_table_def)
  have high: "\<forall>g\<in>{Q9K_PROCPOOL_BASE_ADDR, Q9K_PROCPOOL_FREE_ADDR, Q9K_PROCPOOL_COUNT_ADDR, Q9K_PATHPOOL_BASE_ADDR, Q9K_PATHPOOL_FREE_ADDR}.
    apart g 4 a 4" if "0x8000 \<le> unat a" "unat a + 4 \<le> 2 ^ 32" for a
    using that apart_sym [OF apart_high_low [of "0x8000" a 0 4 _ 4]] by simp
  have procs_keep: "Q9K_GetU32 C a = Q9K_GetU32 B a" if "unat a + 4 \<le> unat (path_table b mods procs)"
    "apart Q9K_PATHPOOL_BASE_ADDR 4 a 4" "apart Q9K_PATHPOOL_FREE_ADDR 4 a 4" for a
    using that c(3) [of a] unat_u32_less [of "path_table b mods procs"] by (simp add: off_table_def)
  have mod_in: "0x8000 \<le> unat x \<and> unat x + 4 \<le> unat (process_table b mods)" if "x \<in> set (all_slots (module_table b) 16 mods)" for x
    using that slot_span [OF L(5)] L(1,2) lay(1) by (fastforce simp: all_slots_def)
  have proc_in: "0x8000 \<le> unat x \<and> unat x + 0x20 \<le> unat (path_table b mods procs)" if "x \<in> set (all_slots (process_table b mods) 0x400 procs)" for x
    using that slot_span [OF L(6)] L(2,3) lay(1) by (fastforce simp: all_slots_def)
  show "free_list Q9K_MODDIR_FREE_ADDR (set (all_slots (module_table b) 16 mods)) C (all_slots (module_table b) 16 mods)"
    by (rule free_list_cong [OF a(1)]) (use below high mod_in L(2) lay(1) unat_u32_less [of "process_table b mods"] in fastforce)+
  show "free_list Q9K_PROCPOOL_FREE_ADDR (set (all_slots (process_table b mods) 0x400 procs)) C (all_slots (process_table b mods) 0x400 procs)"
    by (rule free_list_cong [OF b(1)]) (use procs_keep high proc_in L(3) lay(1) unat_u32_less [of "path_table b mods procs"] in fastforce)+
  have z: "Q9K_GetU32 C (slot_at (process_table b mods) 0x400 i + 0x1C) = 0" if "i < procs" for i
  proof -
    have x: "slot_at (process_table b mods) 0x400 i \<in> set (all_slots (process_table b mods) 0x400 procs)" using that by (simp add: all_slots_def)
    have u: "unat (slot_at (process_table b mods) 0x400 i + 0x1C) = unat (slot_at (process_table b mods) 0x400 i) + 0x1C"
      using proc_in [OF x] unat_u32_less [of "path_table b mods procs"] by (subst unat_offset) simp_all
    have "Q9K_GetU32 C (slot_at (process_table b mods) 0x400 i + 0x1C) = Q9K_GetU32 B (slot_at (process_table b mods) 0x400 i + 0x1C)"
      by (rule procs_keep) (use u proc_in [OF x] high unat_u32_less [of "path_table b mods procs"] in auto)
    then show ?thesis using b(4) [OF that] by simp
  qed
  show "free_list Q9K_PATHPOOL_FREE_ADDR (set (all_slots (path_table b mods procs) 0x100 paths)) C (all_slots (path_table b mods procs) 0x100 paths)"
    by (rule c(1))
  show "Q9K_ProcLookup C pid = 0"
    by (rule no_process [OF _ _ lt(2) z]) (use procs_keep b(2,3) L(3) lay(1) in simp_all)
  show "Q9K_GetU32 C (b + of_nat j * 4) = 0" if "j < 0x400"
    using below [of "slot_at b 4 j"] high [of "slot_at b 4 j"] a(3) [OF that] slot_span [OF L(4) that] L(2) lay
    by (auto simp: slot_at_def tables_size_def)
  show "Q9K_GetU32 C Q9K_MODDIR_HEAD_ADDR = 0" using below [of Q9K_MODDIR_HEAD_ADDR] a(2) L(2) lay(1) by simp
qed

text \<open>C8: start-up divides one block of the arena.  If there is none large enough it reports 1 and changes
  nothing.  Otherwise the block lay in free memory, the dispatch tables in it are cleared, the module directory is empty, no
  process ID is valid, and each of the three pools hands out each of its slots exactly once, in ascending order, before it
  reports that it is exhausted.  The numbers of slots are those of the Init module.\<close>

theorem boot_tables_spec:
  assumes ar: "arena m xs" "\<forall>x\<in>covered xs. x < 0xFFFF0000"
    and n: "mods = unat (Q9K_GetU16 m (ini + Q9K_INIT_OFF_MDIRSZ))" "procs = unat (Q9K_GetU16 m (ini + Q9K_INIT_OFF_PROCS))"
      "paths = unat (Q9K_GetU16 m (ini + Q9K_INIT_OFF_PATHS))"
  shows "Q9K_SetupTables m ini = Some (1, m) \<and> (\<forall>f\<in>set xs. unat (snd f) < tables_size mods procs paths) \<or>
    (\<exists>b m'. Q9K_SetupTables m ini = Some (0, m') \<and> {unat b ..< unat b + tables_size mods procs paths} \<subseteq> covered xs \<and>
      (\<forall>j<0x400. Q9K_GetU32 m' (b + of_nat j * 4) = 0) \<and> Q9K_GetU32 m' Q9K_MODDIR_HEAD_ADDR = 0 \<and>
      (\<forall>pid. Q9K_ProcLookup m' pid = 0) \<and>
      allocs Q9K_ModDirPoolAlloc (mods + k) m' = all_slots (module_table b) 16 mods @ replicate k 0 \<and>
      allocs Q9K_ProcPoolAlloc (procs + k) m' = all_slots (process_table b mods) 0x400 procs @ replicate k 0 \<and>
      allocs Q9K_PathPoolAlloc (paths + k) m' = all_slots (path_table b mods procs) 0x100 paths @ replicate k 0)"
proof -
  have lt: "mods < 0x10000" "procs < 0x10000" "paths < 0x10000"
    using n unsigned_less [of "Q9K_GetU16 m (ini + Q9K_INIT_OFF_MDIRSZ)"] unsigned_less [of "Q9K_GetU16 m (ini + Q9K_INIT_OFF_PROCS)"]
      unsigned_less [of "Q9K_GetU16 m (ini + Q9K_INIT_OFF_PATHS)"] by simp_all
  have uc: "ucast (Q9K_GetU16 m (ini + Q9K_INIT_OFF_MDIRSZ)) = (of_nat mods :: u32)" "ucast (Q9K_GetU16 m (ini + Q9K_INIT_OFF_PROCS)) = (of_nat procs :: u32)"
    "ucast (Q9K_GetU16 m (ini + Q9K_INIT_OFF_PATHS)) = (of_nat paths :: u32)" unfolding n by (simp_all only: of_nat_unat)
  define tot :: u32 where "tot = Q9K_SYSDIS_SIZE + Q9K_USRDIS_SIZE + of_nat mods * 16 + of_nat procs * 0x400 + of_nat paths * 0x100"
  have ut: "unat tot = tables_size mods procs paths"
    using lt unat_scale [of mods 16] unat_scale [of procs "0x400"] unat_scale [of paths "0x100"]
    by (simp add: tot_def tables_size_def unat_word_ariths)
  have "tables_size mods procs paths = 16 * (0x100 + mods + procs * 0x40 + paths * 0x10)" by (simp add: tables_size_def)
  then obtain q where q: "tables_size mods procs paths = 16 * q" ..
  have "tables_size mods procs paths \<le> 0xFFFFFFF0" using lt by (simp add: tables_size_def)
  then have r: "unat (Q9K_RoundUp16 tot) = tables_size mods procs paths" using ut q round_up_div [of tot] by simp
  then have "Q9K_RoundUp16 tot \<noteq> 0" by (auto simp: tables_size_def)
  from arena_alloc_spec [OF ar(1) this] obtain b m1 where a: "Q9K_AllocMem m tot = Some (b, m1)"
    "b = 0 \<longleftrightarrow> (\<forall>f\<in>set xs. snd f < Q9K_RoundUp16 tot)" "b = 0 \<Longrightarrow> m1 = m" "b \<noteq> 0 \<Longrightarrow> rng (b, Q9K_RoundUp16 tot) \<subseteq> covered xs"
    by (auto split: if_splits)
  define A where "A = Q9K_SetU32 (Q9K_BuildFreeList (Q9K_SetU32 (Q9K_SetU32 (Q9K_SetU32 (Q9K_SetU32 (zero_cells 0x400 m1 b)
      Q9_D_SYSDIS b) Q9_D_USRDIS (b + Q9K_SYSDIS_SIZE)) Q9_D_MODDIR (module_table b)) Q9_D_MODDIR_END (process_table b mods))
      (module_table b) 16 (of_nat mods) Q9K_MODDIR_FREE_ADDR) Q9K_MODDIR_HEAD_ADDR 0"
  define B where "B = Q9K_SetU32 (Q9K_BuildFreeList (zero_cells (procs * 0x100) (Q9K_SetU32 A Q9K_PROCPOOL_BASE_ADDR (process_table b mods))
      (process_table b mods)) (process_table b mods) 0x400 (of_nat procs) Q9K_PROCPOOL_FREE_ADDR) Q9K_PROCPOOL_COUNT_ADDR (of_nat procs)"
  define C where "C = Q9K_BuildFreeList (Q9K_SetU32 B Q9K_PATHPOOL_BASE_ADDR (path_table b mods procs)) (path_table b mods procs) 0x100
      (of_nat paths) Q9K_PATHPOOL_FREE_ADDR"
  have two: "b + Q9K_SYSDIS_SIZE + Q9K_USRDIS_SIZE = module_table b" by (simp add: module_table_def)
  have e: "Q9K_SetupTables m ini = Some (if b = 0 then (1, m1) else (0, C))"
    unfolding C_def B_def A_def Q9K_SetupTables_def Let_def uc n(2) [symmetric] tot_def [symmetric] a(1) Option.bind.simps prod.case
      two process_table_def [symmetric] path_table_def [symmetric] ..
  show ?thesis
  proof (cases "b = 0")
    case True
    then show ?thesis using e a(2,3) r by (simp add: word_less_nat_alt)
  next
    case False
    then have F: "{unat b ..< unat b + tables_size mods procs paths} \<subseteq> covered xs" using a(4) r by (simp add: rng_def)
    have "unat b \<in> covered xs" "unat b + tables_size mods procs paths - 1 \<in> covered xs" using F by (auto simp: tables_size_def)
    then have lay: "0x8000 \<le> unat b" "unat b + tables_size mods procs paths < 2 ^ 32"
      using ar.owned [of m "covered xs"] ar by (fastforce simp: arena_owns_def)+
    note T = tables_built [OF lay lt A_def B_def C_def]
    show ?thesis
      using e False F T(4-6) modp.allocs_free [OF T(1), of k] procp.allocs_free [OF T(2), of k] pathp.allocs_free [OF T(3), of k]
      by (intro disjI2 exI [of _ b] exI [of _ C]) (simp add: all_slots_def)
  qed
qed

text \<open>A machine with one free block and an Init module that asks for three modules, two processes and two paths.\<close>

definition ex_boot :: memory where
  "ex_boot = Q9K_ArenaInit (Q9K_SetU16 (Q9K_SetU16 (Q9K_SetU16 (\<lambda>_. 0) (0x20000 + Q9K_INIT_OFF_PROCS) 2)
     (0x20000 + Q9K_INIT_OFF_PATHS) 2) (0x20000 + Q9K_INIT_OFF_MDIRSZ) 3) 0x40000 0x4000"

lemma ex_boot_arena: "arena ex_boot [(0x40000, 0x4000)]"
  unfolding ex_boot_def by (rule init_arena) (simp add: block_ok_def)

lemma boot_tables_spec_witness:
  "\<exists>b m'. Q9K_SetupTables ex_boot 0x20000 = Some (0, m') \<and>
     allocs Q9K_ProcPoolAlloc 3 m' = [process_table b 3, process_table b 3 + 0x400, 0]"
proof -
  have n: "3 = unat (Q9K_GetU16 ex_boot (0x20000 + Q9K_INIT_OFF_MDIRSZ))" "2 = unat (Q9K_GetU16 ex_boot (0x20000 + Q9K_INIT_OFF_PROCS))"
    "2 = unat (Q9K_GetU16 ex_boot (0x20000 + Q9K_INIT_OFF_PATHS))"
    by (simp_all add: ex_boot_def Q9K_ArenaInit_def Let_def)
  have F: "\<forall>x\<in>covered [(0x40000, 0x4000)]. x < 0xFFFF0000" by (simp add: covered_def rng_def)
  have "[0..<2] = [0, 1 :: nat]" by (simp add: upt_rec)
  then show ?thesis using boot_tables_spec [OF ex_boot_arena F n, of 1]
    by (auto simp: all_slots_def slot_at_def tables_size_def)
qed

end
