(* ===== verification/Q9_Fork_Props.thy ===== *)
theory Q9_Fork_Props
  imports Q9_Debug Q9_ProcEnd_Props
begin

text \<open>
  The life of a process descriptor across F$Fork, F$Chain, F$Wait and F$DelPrc.
\<close>

section \<open>A collected child\<close>

lemma ucast_pid: "i < 0xFFFF \<Longrightarrow> ucast (of_nat i + 1 :: u32) = (of_nat (Suc i) :: u16)"
proof -
  assume "i < 0xFFFF"
  moreover have "of_nat i + 1 = (of_nat (Suc i) :: u32)" by simp
  ultimately show ?thesis
    by (simp only:) (simp add: word_unat_eq_iff unsigned_ucast_eq unsigned_of_nat take_bit_nat_eq_self del: of_nat_Suc)
qed

text \<open>F$Wait leaves the state byte of the descriptor it returns to the pool, so its ID still resolves.\<close>

lemma lookup_slot:
  assumes "Q9K_GetU32 m Q9K_PROCPOOL_COUNT_ADDR = of_nat n" "i < n" "n < 0x10000" "Q9K_GetU32 m Q9K_PROCPOOL_BASE_ADDR \<noteq> 0"
    "Q9K_ProcIsAllocated m (pool_slot m i)"
  shows "Q9K_ProcLookup m (of_nat (Suc i)) = pool_slot m i"
proof -
  have u: "unat (of_nat (Suc i) :: u16) = Suc i" using assms(2,3) by (simp add: unsigned_of_nat take_bit_nat_eq_self del: of_nat_Suc)
  have p: "of_nat (Suc i) \<noteq> (0 :: u16)" using u by (metis unsigned_0 nat.distinct(1))
  have c: "ucast (of_nat (Suc i) :: u16) = (of_nat (Suc i) :: u32)" by (metis u of_nat_unat)
  have le: "\<not> (of_nat n :: u32) < of_nat (Suc i)"
    using assms(2,3) unat_of_nat_u32 [of n] unat_of_nat_u32 [of "Suc i"] by (simp add: word_less_nat_alt del: of_nat_Suc)
  show ?thesis using assms p le
    by (simp add: Q9K_ProcLookup_def c pool_slot_def push_bit_eq_mult mult.commute del: of_nat_Suc) (simp add: algebra_simps)
qed

text \<open>Returning a slot that is already the first free one makes the free list lead back to it.\<close>

lemma double_free_alloc:
  assumes "Q9K_GetU32 m Q9K_PROCPOOL_FREE_ADDR = d" "desc_ok d"
  shows "allocs Q9K_ProcPoolAlloc n (Q9K_ProcPoolAbortAlloc m d) = replicate n d"
proof -
  let ?m = "Q9K_ProcPoolAbortAlloc m d"
  have d: "d \<noteq> 0" "apart d 4 Q9K_PROCPOOL_FREE_ADDR 4" "apart Q9K_PROCPOOL_FREE_ADDR 4 d 4"
    using desc_ok_nonzero desc_global [OF assms(2), of 0 4 Q9K_PROCPOOL_FREE_ADDR 4] assms(2) by simp_all
  have h: "Q9K_GetU32 ?m Q9K_PROCPOOL_FREE_ADDR = d" "Q9K_GetU32 ?m d = d"
    using d assms(1) by (simp_all add: Q9K_ProcPoolAbortAlloc_def)
  then have "Q9K_ProcPoolAlloc ?m = (d, ?m)"
    using d(1) SetU32_GetU32 [of ?m Q9K_PROCPOOL_FREE_ADDR] by (simp add: Q9K_ProcPoolAlloc_def Let_def)
  then show ?thesis by (induction n) simp_all
qed

text \<open>C37: after F$Wait has collected a child its process ID still names the descriptor, because
  returning the descriptor to the pool leaves the state byte as it was.  F$DelPrc of that ID therefore succeeds and
  returns the slot a second time, and from then on the pool hands out one and the same descriptor for every new process.\<close>

theorem collected_child_shared:
  assumes base: "0x8000 \<le> unat (Q9K_GetU32 m Q9K_PROCPOOL_BASE_ADDR)"
    and n: "n = unat (Q9K_GetU32 m Q9K_PROCPOOL_COUNT_ADDR)" "n < 0x10000"
    and top: "unat (Q9K_GetU32 m Q9K_PROCPOOL_BASE_ADDR) + n * 0x400 \<le> 0xFFFF0000"
    and z: "List.find (\<lambda>i. zombie_child m c (pool_slot m i)) [0..<n] = Some i" and rel: "released m (pool_slot m i)"
  shows "\<exists>pid st m1 m2. Q9K_ProcWaitTryReap m c = Some (Reaped pid st m1) \<and>
    Q9K_ProcLookup m1 (ucast pid) = pool_slot m i \<and> Q9K_ProcDelPrc m1 (ucast pid) = Inr m2 \<and>
    allocs Q9K_ProcPoolAlloc k m2 = replicate k (pool_slot m i)"
proof -
  let ?d = "pool_slot m i"
  have i: "i < n" "zombie_child m c ?d" using z by (auto simp: find_Some_iff)
  have d: "desc_ok ?d" using slot_nat(1) [OF top i(1)] base top i(1) by (simp add: desc_ok_def)
  note dg = desc_global [OF d] desc_global [OF d, of 0, simplified]
  define m0 where "m0 = Q9K_AlarmCleanupProcess m ?d"
  have w: "within Q9K_ALARM_BASE 0xE0 m m0" unfolding m0_def by (rule cleanup_within)
  let ?m1 = "pool_put m0 ?d"
  have e: "Q9K_ProcWaitTryReap m c = reap_scan n (Q9K_GetU32 m Q9K_PROCPOOL_BASE_ADDR) c (pool_slot m 0) False m"
    by (simp add: Q9K_ProcWaitTryReap_def n pool_slot_def Let_def)
  have r: "Q9K_ProcWaitTryReap m c = Some (Reaped (of_nat i + 1) (Q9K_GetU16 m (?d + Q9K_PROCDESC_EXITSTATUS_OFF)) ?m1)"
    unfolding e reap_scan_find using z slot_nat(2) [OF top i(1)] pool_free_released [OF rel d] by (simp add: m0_def)
  have g: "Q9K_GetU32 ?m1 Q9K_PROCPOOL_BASE_ADDR = Q9K_GetU32 m Q9K_PROCPOOL_BASE_ADDR"
    "Q9K_GetU32 ?m1 Q9K_PROCPOOL_COUNT_ADDR = Q9K_GetU32 m Q9K_PROCPOOL_COUNT_ADDR"
    using within_get(3) [OF w] by (simp_all add: pool_put_def Let_def dg)
  have "Q9K_GetU8 ?m1 (?d + Q9K_PROCDESC_STATE_OFF) = Q9K_GetU8 m0 (?d + Q9K_PROCDESC_STATE_OFF)"
    by (simp add: pool_put_def Let_def dg)
  also have "\<dots> = Q9K_PROCDESC_STATE_ZOMBIE" using i(2) within_get(1) [OF w] by (simp add: dg zombie_child_def)
  finally have a: "Q9K_ProcIsAllocated ?m1 ?d" by (simp add: Q9K_ProcIsAllocated_def)
  have s: "pool_slot ?m1 i = ?d" unfolding pool_slot_def [of ?m1] g(1) by (simp add: pool_slot_def)
  have cnt: "Q9K_GetU32 ?m1 Q9K_PROCPOOL_COUNT_ADDR = of_nat n" unfolding g n by simp
  have bs: "Q9K_GetU32 ?m1 Q9K_PROCPOOL_BASE_ADDR \<noteq> 0" unfolding g using base by auto
  have pid: "ucast (of_nat i + 1 :: u32) = (of_nat (Suc i) :: u16)" using i(1) n(2) by (intro ucast_pid) simp
  have l: "Q9K_ProcLookup ?m1 (of_nat (Suc i)) = ?d" using lookup_slot [OF cnt i(1) n(2) bs] a s by simp
  let ?x = "Q9K_SetU8 (Q9K_SetU32 (Q9K_SetU32 ?m1 (?d + Q9K_PROCDESC_PARENT_OFF) 0) (?d + Q9K_PROCDESC_MODHDR_OFF) 0) (?d + Q9K_PROCDESC_STATE_OFF) 0"
  have "Q9K_GetU32 ?x Q9K_PROCPOOL_FREE_ADDR = ?d" using pool_put_spec(3) [OF d] by (simp add: dg)
  from double_free_alloc [OF this d, of k] show ?thesis
    using r l pid desc_ok_nonzero [OF d] by (auto simp: Q9K_ProcDelPrc_def Let_def simp del: of_nat_Suc)
qed

theorem collected_child_shared_witness:
  "\<exists>pid st m1 m2. Q9K_ProcWaitTryReap ex_family 0x10000 = Some (Reaped pid st m1) \<and> Q9K_ProcDelPrc m1 (ucast pid) = Inr m2 \<and>
     allocs Q9K_ProcPoolAlloc 2 m2 = [0x10400, 0x10400]"
proof -
  note x = ex_family_facts
  have "\<exists>pid st m1 m2. Q9K_ProcWaitTryReap ex_family 0x10000 = Some (Reaped pid st m1) \<and>
      Q9K_ProcLookup m1 (ucast pid) = 0x10400 \<and> Q9K_ProcDelPrc m1 (ucast pid) = Inr m2 \<and>
      allocs Q9K_ProcPoolAlloc 2 m2 = replicate 2 0x10400"
    using ex_family_unats ex_family_released
      collected_child_shared [where m = ex_family and n = 2 and i = 1 and k = 2, OF _ _ _ _ x(5)]
    unfolding x(2) by simp
  then show ?thesis by (auto simp: numeral_2_eq_2)
qed

end
