(* ===== verification/Q9_PathRefs.thy ===== *)
theory Q9_PathRefs
  imports Q9_NativePath Q9_Fork
begin

text \<open>
  The path tables of all processes and the reference counts of the path descriptors.  The abstract state
  holds, for every process, its table of 32 path numbers, for every descriptor of the pool its reference
  count, and the free descriptors; opening, closing, inheriting and releasing paths refine operations
  on it, and every descriptor some process holds is in use and counts its holders.
\<close>

section \<open>The abstract state\<close>

record paths =
  tab :: "u32 \<Rightarrow> nat \<Rightarrow> u16"
  refs :: "nat \<Rightarrow> u16"
  free :: "nat list"

abbreviation put_tab :: "u32 \<Rightarrow> nat \<Rightarrow> u16 \<Rightarrow> paths \<Rightarrow> paths" where
  "put_tab d i v S \<equiv> S\<lparr>tab := (tab S)(d := (tab S d)(i := v))\<rparr>"

abbreviation put_refs :: "nat \<Rightarrow> u16 \<Rightarrow> paths \<Rightarrow> paths" where
  "put_refs k r S \<equiv> S\<lparr>refs := (refs S)(k := r)\<rparr>"

text \<open>A path number of the native pool: not a placeholder below 3, not a path of the I/O manager.  Descriptor \<open>k\<close> has
  number \<open>k + 3\<close>.\<close>

definition native :: "u16 \<Rightarrow> bool" where
  "native v \<longleftrightarrow> 3 \<le> v \<and> v AND 0x8000 = 0"

lemma not_native: "v < 3 \<Longrightarrow> \<not> native v" "v AND 0x8000 \<noteq> 0 \<Longrightarrow> \<not> native v" "\<not> native 0"
  by (auto simp: native_def dest: leD)

abbreviation desc_of :: "u16 \<Rightarrow> nat" where
  "desc_of v \<equiv> unat v - 3"

definition holders :: "u32 set \<Rightarrow> paths \<Rightarrow> u16 \<Rightarrow> (u32 \<times> nat) set" where
  "holders D S v = {(d, i). d \<in> D \<and> i < 32 \<and> tab S d i = v}"

text \<open>The invariant: a descriptor that a table names exists, is not free and counts the entries that name it.\<close>

definition counts_ok :: "u32 set \<Rightarrow> nat \<Rightarrow> paths \<Rightarrow> bool" where
  "counts_ok D N S \<longleftrightarrow> (\<forall>d\<in>D. \<forall>i<32. native (tab S d i) \<longrightarrow>
     desc_of (tab S d i) < N \<and> desc_of (tab S d i) \<notin> set (free S) \<and>
     unat (refs S (desc_of (tab S d i))) = card (holders D S (tab S d i)))"

section \<open>Where it lies in memory\<close>

definition ent :: "u32 \<Rightarrow> nat \<Rightarrow> u32" where
  "ent d i = d + Q9K_PROCDESC_PATH_OFF + of_nat i * 2"

abbreviation pd :: "u32 \<Rightarrow> nat \<Rightarrow> u32" where
  "pd B k \<equiv> slot_at B 0x100 k"

definition path_layout :: "u32 \<Rightarrow> nat \<Rightarrow> u32 set \<Rightarrow> bool" where
  "path_layout B N D \<longleftrightarrow> table_ok B 0x100 N \<and> N + 3 \<le> 0x8000 \<and> procs_ok D \<and> finite D \<and> card D * 32 < 0x10000 \<and>
     (\<forall>d\<in>D. \<forall>k<N. apart d 0x400 (pd B k) 0x100)"

definition path_rep :: "u32 \<Rightarrow> nat \<Rightarrow> u32 set \<Rightarrow> memory \<Rightarrow> paths \<Rightarrow> bool" where
  "path_rep B N D m S \<longleftrightarrow> path_layout B N D \<and> Q9K_GetU32 m Q9K_PATHPOOL_BASE_ADDR = B \<and>
     (\<forall>d\<in>D. \<forall>i<32. Q9K_GetU16 m (ent d i) = tab S d i) \<and>
     (\<forall>k<N. Q9K_GetU16 m (pd B k + Q9K_PATHDESC_REF_OFF) = refs S k) \<and>
     set (free S) \<subseteq> {..<N} \<and>
     free_list Q9K_PATHPOOL_FREE_ADDR (set (all_slots B 0x100 N)) m (map (pd B) (free S))"

lemma path_layoutD:
  assumes "path_layout B N D"
  shows "table_ok B 0x100 N" "N + 3 \<le> 0x8000" "procs_ok D" "finite D" "card D * 32 < 0x10000"
    "d \<in> D \<Longrightarrow> k < N \<Longrightarrow> apart d 0x400 (pd B k) 0x100"
  using assms by (auto simp: path_layout_def)

lemma path_repD:
  assumes "path_rep B N D m S"
  shows "path_layout B N D" "Q9K_GetU32 m Q9K_PATHPOOL_BASE_ADDR = B"
    "d \<in> D \<Longrightarrow> i < 32 \<Longrightarrow> Q9K_GetU16 m (ent d i) = tab S d i"
    "k < N \<Longrightarrow> Q9K_GetU16 m (pd B k + Q9K_PATHDESC_REF_OFF) = refs S k"
    "set (free S) \<subseteq> {..<N}" "free_list Q9K_PATHPOOL_FREE_ADDR (set (all_slots B 0x100 N)) m (map (pd B) (free S))"
  using assms by (auto simp: path_rep_def)

subsection \<open>Disjointness\<close>

lemma ent_off:
  assumes "i < 32"
  shows "ent d i = d + (Q9K_PROCDESC_PATH_OFF + of_nat i * 2)" "unat (Q9K_PROCDESC_PATH_OFF + of_nat i * 2 :: u32) = 0x168 + i * 2"
proof -
  show "ent d i = d + (Q9K_PROCDESC_PATH_OFF + of_nat i * 2)" by (simp add: ent_def)
  have "unat (of_nat i * 2 :: u32) = i * 2" using assms unat_mult_lem [of "of_nat i :: u32" 2] unat_of_nat_u32 [of i] by simp
  then show "unat (Q9K_PROCDESC_PATH_OFF + of_nat i * 2 :: u32) = 0x168 + i * 2"
    using assms unat_offset [of Q9K_PROCDESC_PATH_OFF "of_nat i * 2"] by simp
qed

lemma ent_le:
  assumes "i < 32"
  shows "Q9K_PROCDESC_PATH_OFF + of_nat i * 2 + 2 \<le> (0x400 :: u32)"
    "Q9K_PROCDESC_PATH_OFF + of_nat i * 2 \<le> (Q9K_PROCDESC_PATH_OFF + of_nat i * 2 + 2 :: u32)"
proof -
  have "unat (Q9K_PROCDESC_PATH_OFF + of_nat i * 2 + 2 :: u32) = 0x16A + i * 2"
    using ent_off(2) [OF assms] unat_offset [of "Q9K_PROCDESC_PATH_OFF + of_nat i * 2" 2] assms by simp
  then show "Q9K_PROCDESC_PATH_OFF + of_nat i * 2 + 2 \<le> (0x400 :: u32)"
    "Q9K_PROCDESC_PATH_OFF + of_nat i * 2 \<le> (Q9K_PROCDESC_PATH_OFF + of_nat i * 2 + 2 :: u32)"
    using assms ent_off(2) [OF assms] by (simp_all add: word_le_nat_alt)
qed

lemma ent_ent:
  assumes "procs_ok D" "d \<in> D" "e \<in> D" "i < 32" "j < 32" "(d, i) \<noteq> (e, j)"
  shows "apart (ent d i) 2 (ent e j) 2"
proof (cases "d = e")
  case False
  then show ?thesis unfolding ent_off(1) [OF assms(4)] ent_off(1) [OF assms(5)]
    by (intro desc_desc(1) [OF procs_ok_apart [OF assms(1-3)]] ent_le assms)
next
  case True
  have d: "desc_ok d" using procs_okD [OF assms(1,2)] .
  have u: "unat (ent d k) = unat d + 0x168 + k * 2" if "k < 32" for k
    using d that ent_off(1) [OF that, of d] ent_off(2) [OF that] unat_offset [of d "Q9K_PROCDESC_PATH_OFF + of_nat k * 2"] by (simp add: desc_ok_def)
  have "i \<noteq> j" using True assms(6) by simp
  then have "i * 2 + 2 \<le> j * 2 \<or> j * 2 + 2 \<le> i * 2" by linarith
  then show ?thesis using d True u [OF assms(4)] u [OF assms(5)] assms(4,5) by (intro apart_ranges) (auto simp: desc_ok_def)
qed

lemma ent_low:
  assumes "procs_ok D" "d \<in> D" "i < 32" "unat g + unat w \<le> 0x8000"
  shows "apart (ent d i) 2 g w" "apart g w (ent d i) 2"
  unfolding ent_off(1) [OF assms(3)]
  using desc_global [OF procs_okD [OF assms(1,2)], of "Q9K_PROCDESC_PATH_OFF + of_nat i * 2" 2 g w] ent_off(2) [OF assms(3)] assms(3,4)
  by simp_all

lemma ent_pd:
  assumes "path_layout B N D" "d \<in> D" "i < 32" "k < N" "x + w \<le> 0x100" "x \<le> x + w"
  shows "apart (ent d i) 2 (pd B k + x) w" "apart (pd B k + x) w (ent d i) 2"
proof -
  show "apart (ent d i) 2 (pd B k + x) w"
    unfolding ent_off(1) [OF assms(3)] by (rule apart_sub [OF path_layoutD(6) [OF assms(1,2,4)]]) (use ent_le [OF assms(3)] assms in auto)
  then show "apart (pd B k + x) w (ent d i) 2" by (rule apart_sym)
qed

lemma pd_pd:
  assumes "path_layout B N D" "k < N" "l < N" "k \<noteq> l" "x + w \<le> 0x100" "x \<le> x + w" "y + v \<le> 0x100" "y \<le> y + v"
  shows "apart (pd B k + x) w (pd B l + y) v"
  by (rule apart_sub [OF slots_apart_all [OF path_layoutD(1) [OF assms(1)] assms(2-4)] assms(5-8)])

lemma pd_low:
  assumes "path_layout B N D" "k < N" "unat x + unat w \<le> 0x100" "unat g + unat v \<le> 0x8000"
  shows "apart (pd B k + x) w g v" "apart g v (pd B k + x) w"
proof -
  have "0x8000 \<le> unat (pd B k)" "unat (pd B k) + 0x100 \<le> 2 ^ 32"
    using slot_span [OF path_layoutD(1) [OF assms(1)] assms(2)] path_layoutD(1) [OF assms(1)] by (auto simp: table_ok_def)
  then show "apart (pd B k + x) w g v" using assms(3,4) by (intro apart_high_low [of "0x8000"]) auto
  then show "apart g v (pd B k + x) w" by (rule apart_sym)
qed

subsection \<open>Single writes\<close>

lemma rep_put_tab:
  assumes "path_rep B N D m S" "d \<in> D" "i < 32"
  shows "path_rep B N D (Q9K_SetU16 m (ent d i) v) (put_tab d i v S)"
proof -
  note r = path_repD [OF assms(1)]
  note P = path_layoutD(3) [OF r(1)]
  have "free_list Q9K_PATHPOOL_FREE_ADDR (set (all_slots B 0x100 N)) (Q9K_SetU16 m (ent d i) v) (map (pd B) (free S))"
    by (rule free_list_cong [OF r(6)]) (use r(5) ent_low(1) [OF P assms(2,3)] ent_pd(1) [OF r(1) assms(2,3), of _ 0 4] in auto)
  moreover have "Q9K_GetU16 (Q9K_SetU16 m (ent d i) v) (ent e j) = ((tab S)(d := (tab S d)(i := v))) e j" if "e \<in> D" "j < 32" for e j
    using that r(3) ent_ent [OF P assms(2) that(1) assms(3) that(2)] by (cases "(d, i) = (e, j)") auto
  ultimately show ?thesis unfolding path_rep_def
    using r(1,2,4,5) ent_low(1) [OF P assms(2,3)] ent_pd(1) [OF r(1) assms(2,3), of _ Q9K_PATHDESC_REF_OFF 2] by simp
qed

lemma rep_put_refs:
  assumes "path_rep B N D m S" "k < N"
  shows "path_rep B N D (Q9K_SetU16 m (pd B k + Q9K_PATHDESC_REF_OFF) v) (put_refs k v S)"
proof -
  note r = path_repD [OF assms(1)]
  have l: "apart (pd B k + Q9K_PATHDESC_REF_OFF) 2 (pd B j) 4" if "j < N" for j
    using pd_pd [OF r(1) assms(2) that, of Q9K_PATHDESC_REF_OFF 2 0 4] by (cases "k = j") auto
  have "free_list Q9K_PATHPOOL_FREE_ADDR (set (all_slots B 0x100 N)) (Q9K_SetU16 m (pd B k + Q9K_PATHDESC_REF_OFF) v) (map (pd B) (free S))"
    by (rule free_list_cong [OF r(6)]) (use r(5) l pd_low(1) [OF r(1) assms(2)] in auto)
  moreover have "Q9K_GetU16 (Q9K_SetU16 m (pd B k + Q9K_PATHDESC_REF_OFF) v) (pd B j + Q9K_PATHDESC_REF_OFF) = ((refs S)(k := v)) j" if "j < N" for j
    using that r(4) pd_pd [OF r(1) assms(2) that, of Q9K_PATHDESC_REF_OFF 2 Q9K_PATHDESC_REF_OFF 2] by (cases "k = j") auto
  ultimately show ?thesis unfolding path_rep_def
    using r(1,2,3,5) pd_low(1) [OF r(1) assms(2)] ent_pd(2) [OF r(1) _ _ assms(2), of _ _ Q9K_PATHDESC_REF_OFF 2] by simp
qed

text \<open>Writes that touch neither tables nor counts nor the links of free descriptors.\<close>

lemma rep_cong:
  assumes "path_rep B N D m S" "Q9K_GetU32 m' Q9K_PATHPOOL_BASE_ADDR = Q9K_GetU32 m Q9K_PATHPOOL_BASE_ADDR"
    and "Q9K_GetU32 m' Q9K_PATHPOOL_FREE_ADDR = Q9K_GetU32 m Q9K_PATHPOOL_FREE_ADDR"
    and "\<And>d i. d \<in> D \<Longrightarrow> i < 32 \<Longrightarrow> Q9K_GetU16 m' (ent d i) = Q9K_GetU16 m (ent d i)"
    and "\<And>k. k < N \<Longrightarrow> Q9K_GetU16 m' (pd B k + Q9K_PATHDESC_REF_OFF) = Q9K_GetU16 m (pd B k + Q9K_PATHDESC_REF_OFF)"
    and "\<And>k. k \<in> set (free S) \<Longrightarrow> Q9K_GetU32 m' (pd B k) = Q9K_GetU32 m (pd B k)"
  shows "path_rep B N D m' S"
  using assms free_list_cong [OF path_repD(6) [OF assms(1)], of m'] unfolding path_rep_def by auto

lemma rep_low8:
  assumes "path_rep B N D m S" "0x1220 \<le> unat g" "unat g < 0x8000"
  shows "path_rep B N D (Q9K_SetU8 m g v) S"
proof -
  note r = path_repD [OF assms(1)]
  note P = path_layoutD(3) [OF r(1)]
  have g: "apart g 1 c 4" if "unat c + 4 \<le> 0x1220" for c using assms(2,3) that by (intro apart_ranges) auto
  show ?thesis
    by (rule rep_cong [OF assms(1)]) (use g r(5) assms(3) ent_low(2) [OF P] pd_low(2) [OF r(1), of _ Q9K_PATHDESC_REF_OFF 2]
      pd_low(2) [OF r(1), of _ 0 4] in auto)
qed

lemma rep_push:
  assumes "path_rep B N D m S" "k < N" "k \<notin> set (free S)"
  shows "path_rep B N D (pool_push Q9K_PATHPOOL_FREE_ADDR m (pd B k)) (S\<lparr>free := k # free S\<rparr>)"
proof -
  note r = path_repD [OF assms(1)]
  note P = path_layoutD(3) [OF r(1)]
  have "pd B k \<notin> set (map (pd B) (free S))"
    using assms(2,3) r(5) slot_inj [OF path_layoutD(1) [OF r(1)] assms(2)] by auto
  then have f: "free_list Q9K_PATHPOOL_FREE_ADDR (set (all_slots B 0x100 N)) (pool_push Q9K_PATHPOOL_FREE_ADDR m (pd B k)) (map (pd B) (k # free S))"
    using pool_push_first [OF r(6), of "pd B k"] assms(2) by (auto simp: all_slots_def)
  have l: "apart (pd B k) 4 (pd B j + Q9K_PATHDESC_REF_OFF) 2" if "j < N" for j
    using pd_pd [OF r(1) assms(2) that, of 0 4 Q9K_PATHDESC_REF_OFF 2] by (cases "k = j") auto
  show ?thesis unfolding path_rep_def pool_push_def
    using r(1-5) f l assms(2) pd_low [OF r(1) assms(2), of 0 4] ent_low(2) [OF P] ent_pd(2) [OF r(1) _ _ assms(2), of _ _ 0 4]
      pd_low(2) [OF r(1), of _ Q9K_PATHDESC_REF_OFF 2]
    by (simp add: pool_push_def)
qed

lemma rep_pop:
  assumes "path_rep B N D m S" "free S = k # ks"
  shows "Q9K_PathPoolAlloc m = (pd B k, Q9K_SetU32 m Q9K_PATHPOOL_FREE_ADDR (Q9K_GetU32 m (pd B k)))"
    "path_rep B N D (Q9K_SetU32 m Q9K_PATHPOOL_FREE_ADDR (Q9K_GetU32 m (pd B k))) (S\<lparr>free := ks\<rparr>)"
    "k < N" "k \<notin> set ks" "pd B k \<noteq> 0"
proof -
  note r = path_repD [OF assms(1)]
  note P = path_layoutD(3) [OF r(1)]
  have f: "free_list Q9K_PATHPOOL_FREE_ADDR (set (all_slots B 0x100 N)) m (pd B k # map (pd B) ks)" using r(6) assms(2) by simp
  show "Q9K_PathPoolAlloc m = (pd B k, Q9K_SetU32 m Q9K_PATHPOOL_FREE_ADDR (Q9K_GetU32 m (pd B k)))"
    using pool_pop_first(1) [OF f] by (simp add: Q9K_PathPoolAlloc_def pool_pop_def Let_def)
  show "k < N" "k \<notin> set ks" using r(5) assms(2) free_listD(1) [OF f] by auto
  show "pd B k \<noteq> 0" using free_listD(2,3) [OF f] by auto
  show "path_rep B N D (Q9K_SetU32 m Q9K_PATHPOOL_FREE_ADDR (Q9K_GetU32 m (pd B k))) (S\<lparr>free := ks\<rparr>)"
    unfolding path_rep_def using r(1-5) pool_pop_first(2) [OF f] assms(2) ent_low(2) [OF P] pd_low(2) [OF r(1), of _ Q9K_PATHDESC_REF_OFF 2]
    by simp
qed

lemma rep_slot_write:
  assumes "path_rep B N D m S" "k < N" "k \<notin> set (free S)"
  shows "x \<in> {0, 2, 6, 12} \<Longrightarrow> path_rep B N D (Q9K_SetU16 m (pd B k + x) v16) S"
    "path_rep B N D (Q9K_SetU32 m (pd B k + Q9K_PATHDESC_POS_OFF) v32) S"
    "path_rep B N D (Q9K_SetU8 m (pd B k + Q9K_PATHDESC_MODE_OFF) v8) S"
proof -
  note r = path_repD [OF assms(1)]
  note P = path_layoutD(3) [OF r(1)]
  have o: "apart (pd B k + x) w (pd B j + Q9K_PATHDESC_REF_OFF) 2" "j \<in> set (free S) \<Longrightarrow> apart (pd B k + x) w (pd B j) 4"
    if "x \<in> {0, 2, 6, 12} \<and> w = 2 \<or> x = 8 \<and> w = 4 \<or> x = 2 \<and> w = 1" "j < N" for j x w
    using that assms(3) pd_pd [OF r(1) assms(2) that(2), of x w Q9K_PATHDESC_REF_OFF 2] pd_pd [OF r(1) assms(2) that(2), of x w 0 4]
    by (cases "k = j"; auto)+
  note e = ent_pd(2) [OF r(1) _ _ assms(2)] pd_low(1) [OF r(1) assms(2)]
  show "x \<in> {0, 2, 6, 12} \<Longrightarrow> path_rep B N D (Q9K_SetU16 m (pd B k + x) v16) S"
    by (rule rep_cong [OF assms(1)]) (use o [of x 2] e [of _ _ x 2] e(2) [of x 2] r(5) in auto)
  show "path_rep B N D (Q9K_SetU32 m (pd B k + Q9K_PATHDESC_POS_OFF) v32) S"
    by (rule rep_cong [OF assms(1)]) (use o [of 8 4] e r(5) in auto)
  show "path_rep B N D (Q9K_SetU8 m (pd B k + Q9K_PATHDESC_MODE_OFF) v8) S"
    by (rule rep_cong [OF assms(1)]) (use o [of 2 1] e r(5) in auto)
qed

section \<open>The operations refine\<close>

lemma path_bytes:
  "Q9K_ReadU16BE m a = Q9K_GetU16 m a" "Q9K_WriteU16BE m a v = Q9K_SetU16 m a v" "Q9K_WriteU32BE_At m a w = Q9K_SetU32 m a w"
proof -
  have b: "(ucast (y AND 0xFF) :: u8) = ucast y" for y :: u16
    unfolding and_FF_16 by (rule bit_word_eqI) (auto simp: bit_simps)
  show "Q9K_ReadU16BE m a = Q9K_GetU16 m a" by (simp add: Q9K_ReadU16BE_def Q9K_GetU16_def)
  show "Q9K_WriteU16BE m a v = Q9K_SetU16 m a v" by (simp add: Q9K_WriteU16BE_def Q9K_SetU16_def b)
  show "Q9K_WriteU32BE_At m a w = Q9K_SetU32 m a w" by (simp add: Q9K_WriteU32BE_At_def Q9K_SetU32_def ucast_and_FF)
qed

lemma path_addr: "3 \<le> v \<Longrightarrow> B + (ucast v - 3) * Q9K_PATHDESC_SIZE = pd B (desc_of v)" for v :: u16
proof -
  assume "3 \<le> v"
  then have "3 \<le> unat v" by (simp add: word_le_nat_alt)
  then have "of_nat (unat v - 3) = (ucast v - 3 :: u32)" by (simp add: of_nat_diff)
  then show ?thesis by (simp add: slot_at_def)
qed

lemma ent_word: "d + Q9K_PROCDESC_PATH_OFF + of_nat i * 2 = ent d i"
  by (simp add: ent_def)

lemma mgr_cell: "unat (Q9K_MGRREF_ADDR + ucast (v AND 0x3F)) = 0x2500 + unat (v AND 0x3F)" "unat (v AND 0x3F) < 0x40" for v :: u16
proof -
  have m: "(0x3F :: u16) = mask 6" by (simp add: mask_eq_exp_minus_1)
  show l: "unat (v AND 0x3F) < 0x40" unfolding m take_bit_eq_mask [symmetric] unsigned_take_bit_eq by (simp add: take_bit_eq_mod)
  then show "unat (Q9K_MGRREF_ADDR + ucast (v AND 0x3F)) = 0x2500 + unat (v AND 0x3F)"
    using unat_offset [of Q9K_MGRREF_ADDR "ucast (v AND 0x3F)"] by simp
qed

text \<open>One entry of a terminating process, and of one that closes it.\<close>

definition release_abs :: "u32 \<Rightarrow> nat \<Rightarrow> paths \<Rightarrow> paths" where
  "release_abs d i S =
     (let v = tab S d i; S1 = put_tab d i 0 S in
      if \<not> native v then S1
      else
        let k = desc_of v;
            r = (if refs S k > 0 then refs S k - 1 else refs S k);
            S2 = put_refs k r S1
        in if r = 0 then S2\<lparr>free := k # free S2\<rparr> else S2)"

definition held_ok :: "nat \<Rightarrow> paths \<Rightarrow> u16 \<Rightarrow> bool" where
  "held_ok N S v \<longleftrightarrow> (native v \<longrightarrow> desc_of v < N \<and> desc_of v \<notin> set (free S))"

lemma release_path_refines:
  assumes "path_rep B N D m S" "d \<in> D" "i < 32" "held_ok N S (tab S d i)"
  shows "path_rep B N D (release_path d (of_nat i) m) (release_abs d i S)"
proof -
  note r = path_repD [OF assms(1)]
  let ?v = "tab S d i" and ?k = "desc_of (tab S d i)"
  let ?m1 = "Q9K_SetU16 m (ent d i) 0" and ?S1 = "put_tab d i 0 S"
  have g: "Q9K_GetU16 m (ent d i) = ?v" using r(3) assms(2,3) by simp
  have r1: "path_rep B N D ?m1 ?S1" by (rule rep_put_tab [OF assms(1-3)])
  note s = path_repD [OF r1]
  consider "?v = 0" | "?v \<noteq> 0" "?v < 3" | "3 \<le> ?v" "?v AND 0x8000 \<noteq> 0" | "native ?v"
    unfolding native_def using not_less [of ?v 3] by blast
  then show ?thesis
  proof cases
    case 1
    then have "?S1 = S" by (auto simp: fun_eq_iff)
    then show ?thesis using 1 g assms(1) by (simp add: release_path_def release_abs_def ent_word native_def)
  next
    case 2
    then have "release_abs d i S = ?S1" by (simp add: release_abs_def not_native)
    then show ?thesis using 2 g r1 by (simp add: release_path_def ent_word)
  next
    case 3
    then have "release_abs d i S = ?S1" "?v \<noteq> 0" "\<not> ?v < 3" by (auto simp: release_abs_def native_def)
    then show ?thesis using 3 g r1 mgr_cell [of ?v] by (auto simp: release_path_def ent_word Let_def intro!: rep_low8)
  next
    case 4
    then have v: "3 \<le> ?v" "?v AND 0x8000 = 0" "?v \<noteq> 0" "\<not> ?v < 3" and k: "?k < N" "?k \<notin> set (free ?S1)"
      using assms(4) by (auto simp: native_def held_ok_def)
    define q where "q = (if refs S ?k > 0 then refs S ?k - 1 else refs S ?k)"
    have r2: "path_rep B N D (Q9K_SetU16 ?m1 (pd B ?k + Q9K_PATHDESC_REF_OFF) q) (put_refs ?k q ?S1)"
      by (rule rep_put_refs [OF r1 k(1)])
    have e: "release_path d (of_nat i) m = (if q = 0 then pool_push Q9K_PATHPOOL_FREE_ADDR (Q9K_SetU16 ?m1 (pd B ?k + Q9K_PATHDESC_REF_OFF) q) (pd B ?k)
        else Q9K_SetU16 ?m1 (pd B ?k + Q9K_PATHDESC_REF_OFF) q)"
      unfolding release_path_def ent_word g Let_def s(2) path_addr [OF v(1)] s(4) [OF k(1)] pool_push_def q_def using v by simp
    have a: "release_abs d i S = (if q = 0 then (put_refs ?k q ?S1)\<lparr>free := ?k # free (put_refs ?k q ?S1)\<rparr> else put_refs ?k q ?S1)"
      using 4 by (simp add: release_abs_def Let_def q_def)
    show ?thesis unfolding e a using r2 rep_push [OF r2 k(1)] k(2) by (cases "q = 0") simp_all
  qed
qed

text \<open>One entry of the table of a forked child.\<close>

definition inherit_abs :: "u32 \<Rightarrow> u32 \<Rightarrow> u32 \<Rightarrow> nat \<Rightarrow> paths \<Rightarrow> paths" where
  "inherit_abs p c n i S =
     (let v = (if of_nat i < n then tab S p i else 0); S1 = put_tab c i v S in
      if native v then put_refs (desc_of v) (refs S (desc_of v) + 1) S1 else S1)"

lemma inherit_path_refines:
  assumes "path_rep B N D m S" "p \<in> D" "c \<in> D" "i < 32" "held_ok N S (tab S p i)"
  shows "path_rep B N D (inherit_path p c n (of_nat i) m) (inherit_abs p c n i S)"
proof -
  note r = path_repD [OF assms(1)]
  define v where "v = (if of_nat i < n then tab S p i else 0)"
  have g: "(if of_nat i < n then Q9K_GetU16 m (ent p i) else 0) = v" using r(3) assms(2,4) by (simp add: v_def)
  have r1: "path_rep B N D (Q9K_SetU16 m (ent c i) v) (put_tab c i v S)" by (rule rep_put_tab [OF assms(1,3,4)])
  note s = path_repD [OF r1]
  consider "v \<noteq> 0" "v AND 0x8000 \<noteq> 0" | "native v" | "v < 3" "v AND 0x8000 = 0"
    using not_less [of v 3] native_def [of v] by fastforce
  then show ?thesis
  proof cases
    case 1
    then have "inherit_abs p c n i S = put_tab c i v S" by (simp add: inherit_abs_def not_native flip: v_def)
    then show ?thesis using 1 r1 g mgr_cell [of v]
      by (auto simp: inherit_path_def ent_word Let_def intro!: rep_low8)
  next
    case 2
    then have "of_nat i < n" by (auto simp: v_def native_def split: if_splits)
    then have v: "3 \<le> v" "v AND 0x8000 = 0" and k: "desc_of v < N"
      using 2 assms(5) by (auto simp: native_def held_ok_def v_def)
    have "inherit_path p c n (of_nat i) m = Q9K_SetU16 (Q9K_SetU16 m (ent c i) v) (pd B (desc_of v) + Q9K_PATHDESC_REF_OFF) (refs S (desc_of v) + 1)"
      unfolding inherit_path_def ent_word g Let_def s(2) path_addr [OF v(1)] s(4) [OF k] using v by simp
    moreover have "inherit_abs p c n i S = put_refs (desc_of v) (refs S (desc_of v) + 1) (put_tab c i v S)"
      using 2 by (simp add: inherit_abs_def flip: v_def)
    ultimately show ?thesis using rep_put_refs [OF r1 k] by simp
  next
    case 3
    then have "inherit_abs p c n i S = put_tab c i v S" by (simp add: inherit_abs_def not_native flip: v_def)
    then show ?thesis using 3 r1 g by (auto simp: inherit_path_def ent_word Let_def dest: leD)
  qed
qed

section \<open>Counting holders\<close>

lemma holders_finite: "finite D \<Longrightarrow> finite (holders D S v)" "finite D \<Longrightarrow> card (holders D S v) \<le> card D * 32"
proof -
  assume f: "finite D"
  have s: "holders D S v \<subseteq> D \<times> {..<32}" by (auto simp: holders_def)
  then show "finite (holders D S v)" using f finite_subset by blast
  show "card (holders D S v) \<le> card D * 32" using card_mono [OF _ s] f by (simp add: card_cartesian_product)
qed

lemma holders_put:
  "d \<in> D \<Longrightarrow> i < 32 \<Longrightarrow> holders D (put_tab d i v S) w = (if w = v then insert (d, i) (holders D S w) else holders D S w - {(d, i)})"
  by (auto simp: holders_def split: if_splits)

lemma holders_put_other:
  assumes "d \<in> D" "i < 32" "\<not> native (tab S d i)" "native w" "w \<noteq> v"
  shows "holders D (put_tab d i v S) w = holders D S w"
proof -
  have "tab S d i \<noteq> w" using assms(3,4) by blast
  then have "(d, i) \<notin> holders D S w" by (simp add: holders_def)
  then show ?thesis using holders_put [OF assms(1,2), where v = v and S = S and w = w] assms(5) by simp
qed

lemma holders_refs [simp]: "holders D (put_refs k r S) w = holders D S w" "holders D (S\<lparr>free := fs\<rparr>) w = holders D S w"
  by (simp_all add: holders_def)

lemma desc_of_inj: "native v \<Longrightarrow> native w \<Longrightarrow> desc_of v = desc_of w \<Longrightarrow> v = w"
  by (auto simp: native_def word_le_nat_alt word_unat_eq_iff)

lemma counts_okD:
  assumes "counts_ok D N S" "d \<in> D" "i < 32" "native (tab S d i)"
  shows "desc_of (tab S d i) < N" "desc_of (tab S d i) \<notin> set (free S)"
    "unat (refs S (desc_of (tab S d i))) = card (holders D S (tab S d i))"
  using assms by (auto simp: counts_ok_def)

lemma counts_held: "counts_ok D N S \<Longrightarrow> d \<in> D \<Longrightarrow> i < 32 \<Longrightarrow> held_ok N S (tab S d i)"
  by (simp add: counts_ok_def held_ok_def)

lemma counts_release:
  assumes "counts_ok D N S" "d \<in> D" "i < 32" "finite D"
  shows "counts_ok D N (release_abs d i S)"
proof -
  let ?v = "tab S d i" and ?k = "desc_of (tab S d i)" and ?S = "release_abs d i S"
  define q where "q = (if refs S ?k > 0 then refs S ?k - 1 else refs S ?k)"
  have t: "tab ?S = (tab S)(d := (tab S d)(i := 0))" by (simp add: release_abs_def Let_def)
  have h: "holders D ?S w = holders D S w - {(d, i)}" if "native w" for w
    using holders_put [OF assms(2,3), where v = 0 and S = S and w = w] that not_native by (auto simp: holders_def t)
  have fr: "set (free ?S) \<subseteq> insert ?k (set (free S))" "\<not> native ?v \<Longrightarrow> free ?S = free S \<and> refs ?S = refs S"
    "native ?v \<Longrightarrow> refs ?S = (refs S)(?k := q)" "native ?v \<Longrightarrow> q \<noteq> 0 \<Longrightarrow> free ?S = free S"
    by (simp_all add: release_abs_def Let_def flip: q_def) blast
  have hd: "(d, i) \<in> holders D S ?v" using assms(2,3) by (simp add: holders_def)
  show ?thesis unfolding counts_ok_def
  proof (intro ballI allI impI)
    fix e j assume e: "e \<in> D" "j < 32" and nv: "native (tab ?S e j)"
    let ?w = "tab ?S e j"
    have ne: "(e, j) \<noteq> (d, i)" and w: "?w = tab S e j" using nv not_native by (auto simp: t split: if_splits)
    note o = counts_okD [OF assms(1) e, folded w, OF nv]
    show "desc_of ?w < N \<and> desc_of ?w \<notin> set (free ?S) \<and> unat (refs ?S (desc_of ?w)) = card (holders D ?S ?w)"
    proof (cases "native ?v \<and> ?w = ?v")
      case True
      then have r: "unat (refs S ?k) = card (holders D S ?v)" using o(3) by simp
      have "(e, j) \<in> holders D S ?v - {(d, i)}" using e ne w True by (auto simp: holders_def)
      then have "0 < card (holders D S ?v - {(d, i)})" using holders_finite(1) [OF assms(4), of S ?v] by (auto simp: card_gt_0_iff)
      moreover have c: "card (holders D S ?v - {(d, i)}) = card (holders D S ?v) - 1"
        using hd holders_finite(1) [OF assms(4)] by (simp add: card_Diff_singleton)
      ultimately have l: "1 < unat (refs S ?k)" using r by simp
      then have "unat q = unat (refs S ?k) - 1"
        using unat_sub [of 1 "refs S ?k"] by (simp add: q_def word_less_nat_alt word_le_nat_alt)
      moreover have "q \<noteq> 0" using calculation l by (metis diff_is_0_eq not_le unsigned_0)
      ultimately show ?thesis using True o(1,2) fr(3,4) h [OF nv] r c by simp
    next
      case False
      have k: "native ?v \<Longrightarrow> desc_of ?w \<noteq> ?k" using False desc_of_inj [OF nv] by blast
      have "(d, i) \<notin> holders D S ?w" using False nv by (auto simp: holders_def)
      then have "card (holders D ?S ?w) = card (holders D S ?w)" using h [OF nv] by simp
      moreover have "desc_of ?w \<notin> set (free ?S)" using k fr(1,2) o(2) by (cases "native ?v") auto
      moreover have "refs ?S (desc_of ?w) = refs S (desc_of ?w)" using k fr(2,3) by (cases "native ?v") auto
      ultimately show ?thesis using o by simp
    qed
  qed
qed

text \<open>A new entry \<open>v\<close> where there was none, with the count of its descriptor set to the number of holders.\<close>

lemma counts_add:
  assumes "counts_ok D N S" "d \<in> D" "i < 32" "\<not> native (tab S d i)" "native v" "desc_of v < N" "desc_of v \<notin> set fs" "set fs \<subseteq> set (free S)"
    and "unat r = card (holders D (put_tab d i v S) v)"
  shows "counts_ok D N (put_refs (desc_of v) r (put_tab d i v (S\<lparr>free := fs\<rparr>)))"
  unfolding counts_ok_def
proof (intro ballI allI impI)
  let ?S = "put_refs (desc_of v) r (put_tab d i v (S\<lparr>free := fs\<rparr>))"
  fix e j assume e: "e \<in> D" "j < 32" and nv: "native (tab ?S e j)"
  let ?w = "tab ?S e j"
  have h: "holders D ?S ?w = holders D (put_tab d i v S) ?w" by (simp add: holders_def)
  show "desc_of ?w < N \<and> desc_of ?w \<notin> set (free ?S) \<and> unat (refs ?S (desc_of ?w)) = card (holders D ?S ?w)"
  proof (cases "?w = v")
    case True
    then show ?thesis unfolding h using assms(6-9) by simp
  next
    case False
    then have w: "?w = tab S e j" by (auto split: if_splits)
    note o = counts_okD [OF assms(1) e, folded w, OF nv]
    have "desc_of ?w \<noteq> desc_of v" using False desc_of_inj [OF nv assms(5)] by blast
    moreover have "holders D (put_tab d i v S) ?w = holders D S ?w"
      by (rule holders_put_other [OF assms(2-4) nv False])
    moreover have "desc_of ?w \<notin> set fs" using o(2) assms(8) by blast
    ultimately show ?thesis unfolding h using o(1,3) by (simp del: fun_upd_apply add: fun_upd_other)
  qed
qed

lemma counts_put_other:
  assumes "counts_ok D N S" "d \<in> D" "i < 32" "\<not> native (tab S d i)" "\<not> native v"
  shows "counts_ok D N (put_tab d i v S)"
  unfolding counts_ok_def
proof (intro ballI allI impI)
  let ?S = "put_tab d i v S"
  fix e j assume e: "e \<in> D" "j < 32" and nv: "native (tab ?S e j)"
  then have w: "tab ?S e j = tab S e j" using assms(5) by (auto split: if_splits)
  have n: "native (tab S e j)" using nv w by simp
  then have "tab S e j \<noteq> v" using assms(5) by blast
  then have "holders D ?S (tab S e j) = holders D S (tab S e j)"
    by (rule holders_put_other [OF assms(2-4) n])
  then show "desc_of (tab ?S e j) < N \<and> desc_of (tab ?S e j) \<notin> set (free ?S) \<and>
      unat (refs ?S (desc_of (tab ?S e j))) = card (holders D ?S (tab ?S e j))"
    unfolding w using counts_okD [OF assms(1) e n] by simp
qed

lemma counts_inherit:
  assumes "counts_ok D N S" "p \<in> D" "c \<in> D" "i < 32" "\<not> native (tab S c i)" "finite D" "card D * 32 < 0x10000"
  shows "counts_ok D N (inherit_abs p c n i S)"
proof -
  define v where "v = (if of_nat i < n then tab S p i else 0)"
  show ?thesis
  proof (cases "native v")
    case False
    then show ?thesis using counts_put_other [OF assms(1,3,4,5) False] by (simp add: inherit_abs_def flip: v_def)
  next
    case True
    then have v: "v = tab S p i" using not_native(3) by (auto simp: v_def split: if_splits)
    note o = counts_okD [OF assms(1,2,4), folded v, OF True]
    have "holders D (put_tab c i v S) v = insert (c, i) (holders D S v)" using holders_put [OF assms(3,4)] by simp
    moreover have "(c, i) \<notin> holders D S v" using True assms(5) by (auto simp: holders_def)
    ultimately have c: "card (holders D (put_tab c i v S) v) = Suc (card (holders D S v))"
      using holders_finite(1) [OF assms(6)] by simp
    then have "unat (refs S (desc_of v)) + 1 < 0x10000" using o(3) holders_finite(2) [OF assms(6), of "put_tab c i v S" v] assms(7) by simp
    then have "unat (refs S (desc_of v) + 1) = card (holders D (put_tab c i v S) v)"
      using c o(3) by (simp add: unat_word_ariths)
    from counts_add [OF assms(1,3,4,5) True o(1,2) subset_refl this] show ?thesis
      using True by (simp add: inherit_abs_def flip: v_def)
  qed
qed

end
