(* ===== verification/Q9_PathRefs_Props.thy ===== *)
theory Q9_PathRefs_Props
  imports Q9_PathRefs
begin

text \<open>
  I$Open, I$Close, the inheritance of F$Fork and the release of F$Exit over whole path tables, the states
  they reach, and the invariant of the reference counts.
\<close>

section \<open>Whole tables\<close>

definition path_inv :: "u32 \<Rightarrow> nat \<Rightarrow> u32 set \<Rightarrow> memory \<Rightarrow> bool" where
  "path_inv B N D m \<longleftrightarrow> (\<exists>S. path_rep B N D m S \<and> counts_ok D N S)"

lemma path_invI: "path_rep B N D m S \<Longrightarrow> counts_ok D N S \<Longrightarrow> path_inv B N D m"
  unfolding path_inv_def by blast

lemma release_paths_inv:
  assumes "path_rep B N D m S" "counts_ok D N S" "d \<in> D" "set js \<subseteq> {..<32}"
  shows "\<exists>S'. path_rep B N D (fold (release_path d) (map of_nat js) m) S' \<and> counts_ok D N S'"
  using assms
proof (induction js arbitrary: m S)
  case Nil
  then show ?case by auto
next
  case (Cons j js)
  note j = Cons.prems(4) [simplified]
  have "path_rep B N D (release_path d (of_nat j) m) (release_abs d j S)"
    using release_path_refines [OF Cons.prems(1,3) _ counts_held [OF Cons.prems(2,3)]] j by blast
  moreover have "counts_ok D N (release_abs d j S)"
    using counts_release [OF Cons.prems(2,3) _ path_layoutD(4) [OF path_repD(1) [OF Cons.prems(1)]]] j by blast
  ultimately show ?case using Cons.IH [OF _ _ Cons.prems(3)] j by simp
qed

lemma inherit_paths_inv:
  assumes "path_rep B N D m S" "counts_ok D N S" "p \<in> D" "c \<in> D" "set js \<subseteq> {..<32}" "distinct js" "\<And>i. i \<in> set js \<Longrightarrow> \<not> native (tab S c i)"
  shows "\<exists>S'. path_rep B N D (fold (inherit_path p c n) (map of_nat js) m) S' \<and> counts_ok D N S'"
  using assms
proof (induction js arbitrary: m S)
  case Nil
  then show ?case by auto
next
  case (Cons j js)
  have j: "j < 32" "set js \<subseteq> {..<32}" "j \<notin> set js" "distinct js" using Cons.prems(5,6) by auto
  note L = path_repD(1) [OF Cons.prems(1)]
  have r: "path_rep B N D (inherit_path p c n (of_nat j) m) (inherit_abs p c n j S)"
    using inherit_path_refines [OF Cons.prems(1,3,4) j(1) counts_held [OF Cons.prems(2,3) j(1)]] .
  have o: "counts_ok D N (inherit_abs p c n j S)"
    using counts_inherit [OF Cons.prems(2,3,4) j(1) Cons.prems(7) path_layoutD(4,5) [OF L]] by simp
  have "\<not> native (tab (inherit_abs p c n j S) c i)" if "i \<in> set js" for i
  proof -
    have "tab (inherit_abs p c n j S) c i = tab S c i" using that j(3) by (auto simp: inherit_abs_def Let_def)
    then show ?thesis using Cons.prems(7) that by simp
  qed
  then show ?case using Cons.IH [OF r o Cons.prems(3,4) j(2,4)] by simp
qed

section \<open>I$Open\<close>

lemma desc_number:
  assumes "path_layout B N D" "k < N"
  shows "(pd B k - B) div Q9K_PATHDESC_SIZE + 3 = of_nat (k + 3)" "ucast (of_nat (k + 3) :: u32) = (of_nat (k + 3) :: u16)"
    "native (of_nat (k + 3))" "desc_of (of_nat (k + 3)) = k"
proof -
  have k: "k + 3 < 0x8000" using path_layoutD(2) [OF assms(1)] assms(2) by simp
  then have "unat (of_nat k * 0x100 :: u32) = k * 0x100" using unat_mult_lem [of "of_nat k :: u32" "0x100"] unat_of_nat_u32 [of k] by simp
  then have "unat (of_nat k * 0x100 div 0x100 :: u32) = k" by (simp add: unat_div)
  then have "of_nat k * 0x100 div 0x100 = (of_nat k :: u32)" using k unat_of_nat_u32 [of k] by (simp add: word_unat_eq_iff)
  then show "(pd B k - B) div Q9K_PATHDESC_SIZE + 3 = of_nat (k + 3)" by (simp add: slot_at_def)
  have w: "unat (of_nat (k + 3) :: u32) = k + 3" using k by (intro unat_of_nat_u32) simp
  have u: "unat (of_nat (k + 3) :: u16) = k + 3" using k by (simp add: unsigned_of_nat take_bit_nat_eq_self del: of_nat_add)
  then show "desc_of (of_nat (k + 3)) = k" by simp
  show "ucast (of_nat (k + 3) :: u32) = (of_nat (k + 3) :: u16)"
    using k u w by (simp add: word_unat_eq_iff unsigned_ucast_eq take_bit_nat_eq_self del: of_nat_add)
  have "\<not> bit (unat (of_nat (k + 3) :: u16)) 15" using k unfolding u by (simp add: bit_iff_odd)
  then have "\<not> bit (of_nat (k + 3) :: u16) 15" unfolding bit_unsigned_iff by simp
  then have "(of_nat (k + 3) :: u16) AND 2 ^ 15 = 0" unfolding and_exp_eq_0_iff_not_bit .
  then have "(of_nat (k + 3) :: u16) AND 0x8000 = 0" by (simp del: of_nat_add)
  then show "native (of_nat (k + 3))" using u by (simp add: native_def word_le_nat_alt del: of_nat_add)
qed

lemma find_in_list: "List.find P xs = Some x \<Longrightarrow> P x \<and> x \<in> set xs"
  by (auto simp: find_Some_iff)

lemma free_path_num_found:
  assumes "free_path_num m d \<noteq> 0"
  obtains i where "3 \<le> i" "i < 32" "free_path_num m d = of_nat i" "Q9K_GetU16 m (ent d i) = 0"
proof -
  let ?P = "\<lambda>i. Q9K_ReadU16BE m (path_entry d i) = 0"
  define f where "f = List.find ?P (map of_nat [3..<32])"
  have c: "free_path_num m d = (case f of None \<Rightarrow> 0 | Some i \<Rightarrow> i)" unfolding free_path_num_def f_def ..
  obtain x where f: "f = Some x" and x: "free_path_num m d = x" using assms unfolding c by (cases f) auto
  have p: "?P x" "x \<in> of_nat ` set [3..<32]" using find_in_list [OF f [unfolded f_def]] unfolding set_map by blast+
  obtain i where i: "i \<in> {3..<32}" "x = of_nat i" using p(2) unfolding set_upt by blast
  show thesis by (rule that [of i]) (use i p(1) x in \<open>simp_all add: path_bytes path_entry_def ent_def\<close>)
qed

lemma put_commute: "put_tab d i v (put_refs k r S) = put_refs k r (put_tab d i v S)"
  by (rule paths.equality) simp_all

lemma counts_open:
  assumes "counts_ok D N S" "d \<in> D" "i < 32" "tab S d i = 0" "free S = k # ks" "path_layout B N D" "k < N" "k \<notin> set ks"
  shows "counts_ok D N (put_tab d i (of_nat (k + 3)) (put_refs k 1 (S\<lparr>free := ks\<rparr>)))"
proof -
  let ?v = "of_nat (k + 3) :: u16"
  note v = desc_number(3,4) [OF assms(6,7)]
  have n: "tab S e j \<noteq> ?v" if "e \<in> D" "j < 32" for e j
    using counts_okD(2) [OF assms(1) that] v assms(5) by (metis list.set_intros(1))
  have "holders D S ?v = {}" unfolding holders_def using n by blast
  then have "holders D (put_tab d i ?v S) ?v = {(d, i)}" using holders_put [OF assms(2,3), where v = ?v and w = ?v] by simp
  then have c: "unat (1 :: u16) = card (holders D (put_tab d i ?v S) ?v)" by simp
  have "counts_ok D N (put_refs (desc_of ?v) 1 (put_tab d i ?v (S\<lparr>free := ks\<rparr>)))"
    by (rule counts_add [OF assms(1-3) _ v(1) _ _ _ c]) (use assms(4,5,7,8) not_native(3) in \<open>simp_all only: v(2), auto\<close>)
  then show ?thesis unfolding v(2) put_commute .
qed

lemma init_path_rep:
  assumes "path_rep B N D m S" "k < N" "k \<notin> set (free S)"
  shows "path_rep B N D (init_path m (pd B k) n kind object) (put_refs k 1 S)"
  unfolding init_path_def path_bytes Let_def
  by (intro rep_slot_write(2) rep_put_refs rep_slot_write(1) assms) (use assms in auto)

text \<open>An open takes the first free descriptor and the first free entry from 3 on.\<close>

lemma open_path_refines:
  assumes "path_rep B N D m S" "Q9K_GetU32 m Q9_D_PROC = d" "d \<in> D" "free S = k # ks"
    and "free_path_num (snd (Q9K_PathPoolAlloc m)) d = of_nat i" "0 < i" "i < 32" "open_path m mode kind object = (r, m')"
  shows "path_rep B N D m' (put_tab d i (of_nat (k + 3)) (put_refs k 1 (S\<lparr>free := ks\<rparr>)))" "r = Inr (of_nat i)"
proof -
  note q = rep_pop [OF assms(1,4)]
  let ?m1 = "Q9K_SetU32 m Q9K_PATHPOOL_FREE_ADDR (Q9K_GetU32 m (pd B k))"
  note L = path_repD(1) [OF assms(1)]
  have d: "Q9K_GetU32 ?m1 Q9_D_PROC = d" "d \<noteq> 0" and b: "Q9K_GetU32 ?m1 Q9K_PATHPOOL_BASE_ADDR = B"
    using assms(2) path_repD(2) [OF assms(1)] procs_okD [OF path_layoutD(3) [OF L] assms(3)] by (auto simp: desc_ok_def)
  have i: "(of_nat i :: u32) \<noteq> 0" "free_path_num ?m1 d = of_nat i"
    using assms(5-7) unat_of_nat_u32 [of i] unfolding q(1) by (auto simp: word_unat_eq_iff)
  note o = assms(8) [unfolded open_path_def q(1) Let_def prod.case if_not_P [OF q(5)] d(1) b desc_number(1,2) [OF L q(3)] i(2)]
  show "r = Inr (of_nat i)" using o i(1) d(2) by auto
  obtain mo where m': "m' = Q9K_SetU8 (Q9K_SetU16 (init_path ?m1 (pd B k) (of_nat (k + 3)) kind object) (ent d i) (of_nat (k + 3)))
      (pd B k + Q9K_PATHDESC_MODE_OFF) mo"
    using o i(1) d(2) by (auto simp: path_entry_def path_bytes ent_def simp del: of_nat_add)
  have f: "k \<notin> set (free (S\<lparr>free := ks\<rparr>))" using q(4) by simp
  show "path_rep B N D m' (put_tab d i (of_nat (k + 3)) (put_refs k 1 (S\<lparr>free := ks\<rparr>)))"
    unfolding m' using rep_slot_write(3) [OF rep_put_tab [OF init_path_rep [OF q(2,3) f] assms(3,7)] q(3)] q(4) by simp
qed

lemma open_path_full:
  assumes "path_rep B N D m S" "Q9K_GetU32 m Q9_D_PROC = d" "d \<in> D" "open_path m mode kind object = (r, m')"
    and "free S = [] \<or> free_path_num (snd (Q9K_PathPoolAlloc m)) d = 0"
  shows "path_rep B N D m' S"
proof (cases "free S")
  case Nil
  then have "Q9K_PathPoolAlloc m = (0, m)" using pathp.alloc_empty path_repD(6) [OF assms(1)] by simp
  then show ?thesis using assms by (auto simp: open_path_def)
next
  case (Cons k ks)
  note q = rep_pop [OF assms(1) Cons]
  let ?m1 = "Q9K_SetU32 m Q9K_PATHPOOL_FREE_ADDR (Q9K_GetU32 m (pd B k))"
  have e: "S\<lparr>free := k # ks\<rparr> = S" using Cons by (intro paths.equality) simp_all
  have d: "Q9K_GetU32 ?m1 Q9_D_PROC = d" "d \<noteq> 0"
    using assms(2) procs_okD [OF path_layoutD(3) [OF path_repD(1) [OF assms(1)]] assms(3)] by (auto simp: desc_ok_def)
  have "free_path_num ?m1 d = 0" using assms(5) Cons unfolding q(1) by simp
  then have "m' = pool_push Q9K_PATHPOOL_FREE_ADDR ?m1 (pd B k)"
    using assms(4) d unfolding open_path_def q(1) Let_def prod.case if_not_P [OF q(5)] d(1) by (simp add: Q9K_PathPoolFree_def pool_push_def)
  then show ?thesis using rep_push [OF q(2,3)] q(4) by (simp add: e)
qed

lemma open_path_inv:
  assumes "path_rep B N D m S" "counts_ok D N S" "Q9K_GetU32 m Q9_D_PROC = d" "d \<in> D" "open_path m mode kind object = (r, m')"
  shows "path_inv B N D m'"
proof (cases "free S = [] \<or> free_path_num (snd (Q9K_PathPoolAlloc m)) d = 0")
  case True
  then show ?thesis using open_path_full [OF assms(1,3-5)] assms(2) by (blast intro: path_invI)
next
  case False
  then obtain k ks where f: "free S = k # ks" and n: "free_path_num (snd (Q9K_PathPoolAlloc m)) d \<noteq> 0" by (cases "free S") auto
  note q = rep_pop [OF assms(1) f]
  obtain i where i: "3 \<le> i" "i < 32" "free_path_num (snd (Q9K_PathPoolAlloc m)) d = of_nat i"
      "Q9K_GetU16 (snd (Q9K_PathPoolAlloc m)) (ent d i) = 0" using n by (rule free_path_num_found)
  have t: "tab S d i = 0" using path_repD(3) [OF q(2) assms(4) i(2)] i(4) unfolding q(1) by simp
  have "0 < i" using i(1) by simp
  from open_path_refines(1) [OF assms(1,3,4) f i(3) this i(2) assms(5)] show ?thesis
    using counts_open [OF assms(2,4) i(2) t f path_repD(1) [OF assms(1)] q(3,4)] by (rule path_invI)
qed

section \<open>I$Close\<close>

lemma path_desc_found:
  assumes "path_rep B N D m S" "Q9K_GetU32 m Q9_D_PROC = d" "d \<in> D" "Q9K_GetU16 m (path_entry d (ucast n)) AND 0x8000 = 0" "path_desc m n = Inr a"
  shows "unat n < 32" "path_entry d (ucast n) = ent d (unat n)" "native (tab S d (unat n))" "a = pd B (desc_of (tab S d (unat n)))"
    "Q9K_ReadU16BE m (a + Q9K_PATHDESC_NUM_OFF) = tab S d (unat n)"
proof -
  have e: "path_entry d (ucast n) = ent d (unat n)" by (simp add: path_entry_def ent_def)
  have q: "Q9K_ProcPathDesc m n = Inr a" using assms(5) by (auto simp: path_desc_def split: sum.splits if_splits)
  then have n: "\<not> Q9K_PROCDESC_PATH_COUNT \<le> ucast n" by (auto simp: Q9K_ProcPathDesc_def split: if_splits)
  then show l: "unat n < 32" by (simp add: not_le word_less_nat_alt)
  note t = path_repD(3) [OF assms(1,3) l]
  let ?v = "tab S d (unat n)"
  have v: "\<not> ?v < 3" and a: "a = B + (ucast ?v - 3) * Q9K_PATHDESC_SIZE" and k: "Q9K_ReadU16BE m (a + Q9K_PATHDESC_NUM_OFF) = ?v"
    using q unfolding Q9K_ProcPathDesc_def Let_def assms(2) e path_bytes t path_repD(2) [OF assms(1)] by (auto split: if_splits)
  show "path_entry d (ucast n) = ent d (unat n)" "Q9K_ReadU16BE m (a + Q9K_PATHDESC_NUM_OFF) = ?v" by (fact e k)+
  show "native ?v" using v assms(4) e t by (simp add: native_def not_less)
  show "a = pd B (desc_of ?v)" unfolding a using v by (intro path_addr) (simp add: not_less)
qed

lemma close_path_inv:
  assumes "path_rep B N D m S" "counts_ok D N S" "Q9K_GetU32 m Q9_D_PROC = d" "d \<in> D"
    and "Q9K_GetU16 m (path_entry d (ucast n)) AND 0x8000 = 0" "Q9K_ProcNativeClose m n = Inr m'"
  shows "path_inv B N D m'"
proof -
  obtain a where a: "path_desc m n = Inr a" using assms(6) by (auto simp: Q9K_ProcNativeClose_def split: sum.splits)
  note p = path_desc_found [OF assms(1,3-5) a]
  let ?i = "unat n" and ?v = "tab S d (unat n)"
  let ?k = "desc_of ?v" and ?m1 = "Q9K_SetU16 m (ent d ?i) 0"
  note L = path_repD(1) [OF assms(1)]
  have k: "?k < N" by (rule counts_okD(1) [OF assms(2,4) p(1,3)])
  have r: "Q9K_GetU16 m (a + Q9K_PATHDESC_REF_OFF) = refs S ?k" unfolding p(4) by (rule path_repD(4) [OF assms(1) k])
  note r1 = rep_put_tab [OF assms(1,4) p(1), of 0]
  have r': "Q9K_GetU16 ?m1 (pd B ?k + Q9K_PATHDESC_REF_OFF) = refs S ?k" and b: "Q9K_GetU32 ?m1 Q9K_PATHPOOL_BASE_ADDR = B"
    using path_repD(4) [OF r1 k] path_repD(2) [OF r1] by simp_all
  have v: "?v \<noteq> 0" "\<not> ?v < 3" "?v AND 0x8000 = 0" "3 \<le> ?v" using p(3) by (auto simp: native_def)
  have nz: "refs S ?k \<noteq> 0"
    using assms(6) unfolding Q9K_ProcNativeClose_def a sum.case Let_def path_bytes r by (auto split: if_splits)
  have "m' = release_path d (of_nat ?i) m"
    using assms(6) nz v(2)
    unfolding Q9K_ProcNativeClose_def a sum.case Let_def assms(3) p(2,5) path_bytes r release_path_def ent_word
      path_repD(3) [OF assms(1,4) p(1)] b path_addr [OF v(4)] p(4) [symmetric]
    by (simp add: v(1,3) word_gt_0 r' [folded p(4)] split: if_splits)
  then show ?thesis
    using release_path_refines [OF assms(1,4) p(1) counts_held [OF assms(2,4) p(1)]] counts_release [OF assms(2,4) p(1) path_layoutD(4) [OF L]]
    by (auto intro: path_invI)
qed

section \<open>F$Fork\<close>

lemma copy_bytes_get:
  "apart dst 32 a 2 \<Longrightarrow> Q9K_GetU16 (copy_bytes 32 m dst src) a = Q9K_GetU16 m a"
  "apart dst 32 a 4 \<Longrightarrow> Q9K_GetU32 (copy_bytes 32 m dst src) a = Q9K_GetU32 m a"
proof -
  have o: "copy_bytes 32 m dst src (a + j) = m (a + j)" if "apart dst 32 a w" "j < w" for j w
  proof (rule copy_bytes_outside, intro allI impI)
    fix i :: nat assume "i < 32"
    then have "of_nat i < (32 :: u32)" using unat_of_nat_u32 [of i] by (simp add: word_less_nat_alt)
    then show "a + j \<noteq> dst + of_nat i" using that unfolding apart_def by metis
  qed
  show "apart dst 32 a 2 \<Longrightarrow> Q9K_GetU16 (copy_bytes 32 m dst src) a = Q9K_GetU16 m a"
    using o [of 2 0] o [of 2 1] by (simp add: Q9K_GetU16_def)
  show "apart dst 32 a 4 \<Longrightarrow> Q9K_GetU32 (copy_bytes 32 m dst src) a = Q9K_GetU32 m a"
    using o [of 4 0] o [of 4 1] o [of 4 2] o [of 4 3] by (simp add: Q9K_GetU32_def)
qed

lemma rep_dio:
  assumes "path_rep B N D m S" "c \<in> D"
  shows "path_rep B N D (copy_bytes 32 m (c + Q9K_PROCDESC_DIO_OFF) src) S"
proof -
  note r = path_repD [OF assms(1)]
  note P = path_layoutD(3) [OF r(1)]
  note C = procs_okD [OF P assms(2)]
  have e: "apart (c + Q9K_PROCDESC_DIO_OFF) 32 (ent d i) 2" if "d \<in> D" "i < 32" for d i
  proof (cases "c = d")
    case True
    have u: "unat (ent c i) = unat c + 0x168 + i * 2" "unat (c + Q9K_PROCDESC_DIO_OFF) = unat c + 0x148"
      using C that(2) ent_off(1) [OF that(2), of c] ent_off(2) [OF that(2)] unat_offset [of c "Q9K_PROCDESC_PATH_OFF + of_nat i * 2"]
        unat_offset [of c Q9K_PROCDESC_DIO_OFF] by (simp_all add: desc_ok_def)
    then show ?thesis using True C that(2) by (intro apart_ranges) (auto simp: desc_ok_def)
  next
    case False
    then show ?thesis unfolding ent_off(1) [OF that(2)]
      by (intro desc_desc(1) [OF procs_ok_apart [OF P assms(2) that(1)]] ent_le that) simp_all
  qed
  have p: "apart (c + Q9K_PROCDESC_DIO_OFF) 32 (pd B k + x) w" if "k < N" "x + w \<le> 0x100" "x \<le> x + w" for k x w
    by (rule apart_sub [OF path_layoutD(6) [OF r(1) assms(2) that(1)]]) (use that in auto)
  show ?thesis
    by (rule rep_cong [OF assms(1)]; (rule copy_bytes_get)?)
      (use e p [of _ 0 4] p [of _ Q9K_PATHDESC_REF_OFF 2] r(5) desc_global(1) [OF C, of Q9K_PROCDESC_DIO_OFF 32 _ 4] in auto)
qed

section \<open>Reachable states\<close>

text \<open>The paths of the processes \<open>D\<close>, from empty tables on: the current process opens a path or closes one
  that is not a path of the I/O manager (those never reach \<^const>\<open>Q9K_ProcNativeClose\<close>), a process
  hands its paths to a child whose table is empty, a process releases its paths, another process becomes current.\<close>

inductive path_reach :: "u32 \<Rightarrow> nat \<Rightarrow> u32 set \<Rightarrow> memory \<Rightarrow> bool" for B N D where
  reach_start: "path_rep B N D m S \<Longrightarrow> \<forall>d\<in>D. \<forall>i<32. tab S d i = 0 \<Longrightarrow> path_reach B N D m"
| reach_open: "path_reach B N D m \<Longrightarrow> Q9K_GetU32 m Q9_D_PROC \<in> D \<Longrightarrow>
    Q9K_ProcIOpen m mode namePtr = Some (r, pastName, m') \<Longrightarrow> path_reach B N D m'"
| reach_close: "path_reach B N D m \<Longrightarrow> Q9K_GetU32 m Q9_D_PROC \<in> D \<Longrightarrow>
    Q9K_GetU16 m (path_entry (Q9K_GetU32 m Q9_D_PROC) (ucast n)) AND 0x8000 = 0 \<Longrightarrow>
    Q9K_ProcNativeClose m n = Inr m' \<Longrightarrow> path_reach B N D m'"
| reach_fork: "path_reach B N D m \<Longrightarrow> p \<in> D \<Longrightarrow> c \<in> D \<Longrightarrow> \<forall>i<32. Q9K_GetU16 m (ent c i) = 0 \<Longrightarrow>
    path_reach B N D (inherit_paths m p c)"
| reach_exit: "path_reach B N D m \<Longrightarrow> d \<in> D \<Longrightarrow> path_reach B N D (Q9K_ProcReleasePaths m d)"
| reach_switch: "path_reach B N D m \<Longrightarrow> d \<in> D \<Longrightarrow> path_reach B N D (Q9K_SetU32 m Q9_D_PROC d)"

lemma rep_switch:
  assumes "path_rep B N D m S"
  shows "path_rep B N D (Q9K_SetU32 m Q9_D_PROC d) S"
proof -
  note r = path_repD [OF assms]
  show ?thesis
    by (rule rep_cong [OF assms]) (use r(5) ent_low(2) [OF path_layoutD(3) [OF r(1)]] pd_low(2) [OF r(1), of _ Q9K_PATHDESC_REF_OFF 2]
      pd_low(2) [OF r(1), of _ 0 4] in auto)
qed

lemma path_reach_inv: "path_reach B N D m \<Longrightarrow> path_inv B N D m"
proof (induction rule: path_reach.induct)
  case (reach_start m S)
  then have "counts_ok D N S" by (auto simp: counts_ok_def not_native)
  then show ?case using reach_start(1) by (blast intro: path_invI)
next
  case (reach_open m mode namePtr r pastName m')
  then obtain S where S: "path_rep B N D m S" "counts_ok D N S" by (auto simp: path_inv_def)
  have "m' = m \<or> (\<exists>k ob. open_path m mode k ob = (r, m'))"
    using reach_open(3) by (auto simp: Q9K_ProcIOpen_def split: if_splits bind_splits sum.splits prod.splits)
  then show ?case using S open_path_inv [OF S refl reach_open(2)] path_invI by blast
next
  case (reach_close m n m')
  then show ?case unfolding path_inv_def using close_path_inv [OF _ _ refl] path_inv_def by blast
next
  case (reach_fork m p c)
  then obtain S where S: "path_rep B N D m S" "counts_ok D N S" by (auto simp: path_inv_def)
  have p: "p \<noteq> 0" using procs_okD [OF path_layoutD(3) [OF path_repD(1) [OF S(1)]] reach_fork(2)] by (auto simp: desc_ok_def)
  define n :: u32 where "n = (let k = ucast (Q9K_GetU16 m Q9K_FORK_SCRATCH_NUMPATHS) in if k > Q9K_PROCDESC_PATH_COUNT then Q9K_PROCDESC_PATH_COUNT else k)"
  have "\<not> native (tab S c i)" if "i \<in> set [0..<32]" for i
    using that reach_fork(4) path_repD(3) [OF S(1) reach_fork(3), of i] not_native(3) by auto
  moreover have "set [0..<32] \<subseteq> {..<32 :: nat}" by auto
  ultimately obtain S' where "path_rep B N D (fold (inherit_path p c n) path_slots m) S'" "counts_ok D N S'"
    using inherit_paths_inv [OF S reach_fork(2,3), of "[0..<32]" n] unfolding path_slots_def by auto
  moreover have "inherit_paths m p c = copy_bytes 32 (fold (inherit_path p c n) path_slots m) (c + Q9K_PROCDESC_DIO_OFF) (p + Q9K_PROCDESC_DIO_OFF)"
    using p unfolding inherit_paths_def n_def Let_def by simp
  ultimately show ?case using rep_dio [OF _ reach_fork(3)] path_invI by metis
next
  case (reach_exit m d)
  then obtain S where S: "path_rep B N D m S" "counts_ok D N S" by (auto simp: path_inv_def)
  have "set [0..<32] \<subseteq> {..<32 :: nat}" by auto
  from release_paths_inv [OF S reach_exit(2) this] show ?case
    unfolding path_inv_def Q9K_ProcReleasePaths_def path_slots_def .
next
  case (reach_switch m d)
  then show ?case unfolding path_inv_def using rep_switch by blast
qed

section \<open>The invariant\<close>

text \<open>C7: in every state that opens, closes, inheritance and exits reach, a native path number that
  some process table holds names a descriptor whose reference count is the number of table entries, over all processes, that
  hold it, and the pool does not hand that descriptor out: no path is freed while it is in use.\<close>

theorem path_counts_invariant:
  assumes "path_reach B N D m" "d \<in> D" "i < 32" "Q9K_GetU16 m (path_entry d (of_nat i)) = v" "3 \<le> v" "v AND 0x8000 = 0"
  shows "unat (Q9K_GetU16 m (B + (ucast v - 3) * Q9K_PATHDESC_SIZE + Q9K_PATHDESC_REF_OFF))
      = card {(e, j). e \<in> D \<and> j < 32 \<and> Q9K_GetU16 m (path_entry e (of_nat j)) = v} \<and>
    fst (Q9K_PathPoolAlloc m) \<noteq> B + (ucast v - 3) * Q9K_PATHDESC_SIZE"
proof (intro conjI)
  obtain S where S: "path_rep B N D m S" "counts_ok D N S" using path_reach_inv [OF assms(1)] by (auto simp: path_inv_def)
  note r = path_repD [OF S(1)]
  have t: "Q9K_GetU16 m (path_entry e (of_nat j)) = tab S e j" if "e \<in> D" "j < 32" for e j
    using r(3) [OF that] by (simp add: path_entry_def ent_def)
  have v: "tab S d i = v" "native v" using t [OF assms(2,3)] assms(4-6) by (auto simp: native_def)
  note o = counts_okD [OF S(2) assms(2,3), unfolded v(1), OF v(2)]
  have "{(e, j). e \<in> D \<and> j < 32 \<and> Q9K_GetU16 m (path_entry e (of_nat j)) = v} = holders D S v"
    unfolding holders_def using t by auto
  then show "unat (Q9K_GetU16 m (B + (ucast v - 3) * Q9K_PATHDESC_SIZE + Q9K_PATHDESC_REF_OFF))
      = card {(e, j). e \<in> D \<and> j < 32 \<and> Q9K_GetU16 m (path_entry e (of_nat j)) = v}"
    unfolding path_addr [OF assms(5)] r(4) [OF o(1)] using o(3) by simp
  show "fst (Q9K_PathPoolAlloc m) \<noteq> B + (ucast v - 3) * Q9K_PATHDESC_SIZE"
  proof (cases "free S")
    case Nil
    then have "fst (Q9K_PathPoolAlloc m) = 0" using pathp.alloc_empty r(6) by simp
    then show ?thesis unfolding path_addr [OF assms(5)]
      using slot_span(1) [OF path_layoutD(1) [OF r(1)] o(1)] path_layoutD(1) [OF r(1)] by (auto simp: table_ok_def)
  next
    case (Cons k ks)
    note q = rep_pop [OF S(1) Cons]
    have "k \<noteq> desc_of v" using o(2) Cons by auto
    then have "pd B k \<noteq> pd B (desc_of v)" using slot_inj [OF path_layoutD(1) [OF r(1)] q(3) o(1)] by blast
    then show ?thesis unfolding path_addr [OF assms(5)] q(1) by simp
  qed
qed

text \<open>Two processes, a pool of two descriptors and a name \<^verbatim>\<open>/term\<close>, which the first process opens.\<close>

definition ex_paths :: memory where
  "ex_paths = put_bytes (fold (\<lambda>(a, v) m. Q9K_SetU32 m a v)
     [(Q9_D_PROC, 0x10000), (Q9K_PATHPOOL_BASE_ADDR, 0x20000), (Q9K_PATHPOOL_FREE_ADDR, 0x20000), (0x20000, 0x20100)] (\<lambda>_. 0)) 0x30000 str_term"

definition ex_tables :: paths where
  "ex_tables = \<lparr>tab = \<lambda>_ _. 0, refs = \<lambda>_. 0, free = [0, 1]\<rparr>"

lemma ex_paths_entries: "d \<in> {0x10000, 0x10400} \<Longrightarrow> i < 32 \<Longrightarrow> Q9K_GetU16 ex_paths (ent d i) = 0"
proof -
  have "\<forall>d\<in>{0x10000, 0x10400}. \<forall>x\<in>of_nat ` set [0..<32]. Q9K_GetU16 ex_paths (d + Q9K_PROCDESC_PATH_OFF + x * 2) = 0"
    by (simp add: upt_rec ex_paths_def)
  then show "d \<in> {0x10000, 0x10400} \<Longrightarrow> i < 32 \<Longrightarrow> Q9K_GetU16 ex_paths (ent d i) = 0"
    unfolding ent_def set_upt by (metis atLeastLessThan_iff imageI zero_le)
qed

lemma ex_paths_rep: "path_rep 0x20000 2 {0x10000, 0x10400} ex_paths ex_tables"
proof -
  have s: "pd 0x20000 0 = 0x20000" "pd 0x20000 1 = 0x20100" by (simp_all add: slot_at_def)
  then have a: "set (all_slots 0x20000 0x100 2) = {0x20000, 0x20100}" by (simp add: all_slots_def upt_rec)
  have "path_layout 0x20000 2 {0x10000, 0x10400}"
    using s by (auto simp: path_layout_def table_ok_def procs_ok_def desc_ok_def less_2_cases_iff)
  moreover have "pool_cells Q9K_PATHPOOL_FREE_ADDR {0x20000, 0x20100}" by (auto simp: pool_cells_def)
  ultimately show ?thesis using s ex_paths_entries unfolding path_rep_def free_list_def a
    by (simp add: ex_tables_def less_2_cases_iff) (simp add: ex_paths_def)
qed

lemma ex_paths_open: "Q9K_ProcIOpen ex_paths 3 0x30000 =
    (let (r, m) = open_path ex_paths 3 Q9K_PATH_KIND_CONSOLE Q9K_NATIVE_OBJECT_TERM in Some (r, 0x30006, m))"
proof -
  have n: "ex_paths 0x30000 = 0x2F" "ex_paths 0x30001 = 0x74" "ex_paths 0x30002 = 0x65" "ex_paths 0x30003 = 0x72" "ex_paths 0x30004 = 0x6D" "ex_paths 0x30005 = 0"
    by (simp_all add: ex_paths_def Q9K_SetU8_def Q9K_SetU32_def)
  have f: "skip_slashes ex_paths 0x30000 0 = Some 1" by (subst skip_slashes.simps, subst skip_slashes.simps) (simp add: n)
  have "validate_from (Suc (Suc (Suc (Suc (Suc (Suc k)))))) ex_paths 0x30000 0 False 0 = Inr 0x30006" for k
    by (simp add: n Q9K_PrsNamIsNameChar_def)
  from this [of 250] have v: "Q9K_NativeValidatePathname ex_paths 0x30000 = Inr 0x30006"
    by (simp add: Q9K_NativeValidatePathname_def)
  have e: "Q9K_NativePathEquals ex_paths 0x30000 str_term" by (simp add: Q9K_NativePathEquals_def n)
  have "Q9K_NativeClassifyPathname ex_paths 0x30000 3 = Some (Inr (Q9K_PATH_KIND_CONSOLE, Q9K_NATIVE_OBJECT_TERM), 0x30006)"
    by (simp add: Q9K_NativeClassifyPathname_def f v e)
  then show ?thesis by (simp add: Q9K_ProcIOpen_def)
qed

lemma path_counts_invariant_witness:
  "\<exists>m. path_reach 0x20000 2 {0x10000, 0x10400} m \<and> Q9K_GetU16 m (path_entry 0x10000 3) = 3 \<and>
     unat (Q9K_GetU16 m (0x20000 + Q9K_PATHDESC_REF_OFF))
       = card {(e, j). e \<in> {0x10000, 0x10400} \<and> j < 32 \<and> Q9K_GetU16 m (path_entry e (of_nat j)) = 3} \<and>
     fst (Q9K_PathPoolAlloc m) \<noteq> 0x20000"
proof -
  obtain r m where o: "open_path ex_paths 3 Q9K_PATH_KIND_CONSOLE Q9K_NATIVE_OBJECT_TERM = (r, m)" by (rule prod.exhaust)
  have d: "Q9K_GetU32 ex_paths Q9_D_PROC = 0x10000" by (simp add: ex_paths_def)
  have "path_reach 0x20000 2 {0x10000, 0x10400} ex_paths"
    using ex_paths_rep by (rule reach_start) (simp add: ex_tables_def)
  then have r: "path_reach 0x20000 2 {0x10000, 0x10400} m"
    by (rule reach_open) (use d ex_paths_open o in auto)
  have f: "free ex_tables = [0, 1]" by (simp add: ex_tables_def)
  note q = rep_pop [OF ex_paths_rep f]
  have "Q9K_ReadU16BE (snd (Q9K_PathPoolAlloc ex_paths)) (path_entry 0x10000 3) = 0"
    using path_repD(3) [OF q(2), of "0x10000" 3] unfolding q(1) by (simp add: path_bytes path_entry_def ent_def ex_tables_def)
  moreover have "[3..<32] = 3 # [4..<32 :: nat]" by (simp only: upt_conv_Cons) simp
  ultimately have n: "free_path_num (snd (Q9K_PathPoolAlloc ex_paths)) 0x10000 = of_nat 3" by (simp add: free_path_num_def del: upt_rec_numeral)
  have "path_rep 0x20000 2 {0x10000, 0x10400} m (put_tab 0x10000 3 (of_nat (0 + 3)) (put_refs 0 1 (ex_tables\<lparr>free := [1]\<rparr>)))"
    by (rule open_path_refines(1) [OF ex_paths_rep d _ f n _ _ o]) simp_all
  from path_repD(3) [OF this, of "0x10000" 3] have t: "Q9K_GetU16 m (path_entry 0x10000 (of_nat 3)) = 3"
    by (simp add: path_entry_def ent_def)
  from path_counts_invariant [OF r _ _ t] t r show ?thesis by auto
qed

end
