(* ===== verification/Q9_Mmu.thy ===== *)
theory Q9_Mmu
  imports Q9_Prelude
begin

text \<open>
  The region table of the memory protection (\<^verbatim>\<open>q9kernel_mmu.c\<close>): up to 128 page-aligned regions with an
  owner and access rights.  F$Permit enters a region, F$Protect removes one, the check decides whether a process may
  access a range.  The abstract view of the table is the right each process has at each address.
\<close>

section \<open>The table\<close>

abbreviation Q9K_MMU_PAGE_MASK :: u32 where "Q9K_MMU_PAGE_MASK \<equiv> 0xFFF"
abbreviation Q9K_MMU_MAX_REGIONS :: nat where "Q9K_MMU_MAX_REGIONS \<equiv> 128"

record Q9K_MmuRegion =
  rbase :: u32
  rsize :: u32
  rpid :: u16
  rrights :: u8
  rused :: u8

definition Q9K_MmuReset :: "Q9K_MmuRegion list \<Rightarrow> Q9K_MmuRegion list" where
  "Q9K_MmuReset rs = map (\<lambda>r. r\<lparr>rused := 0\<rparr>) rs"

text \<open>A byte range as base and size of the pages it touches.\<close>

definition Q9K_MmuRoundRange :: "u32 \<Rightarrow> u32 \<Rightarrow> (u32 \<times> u32) option" where
  "Q9K_MmuRoundRange address len =
     (if len = 0 \<or> address > 0xFFFFFFFF - len then None
      else
        let rangeEnd = address + len;
            roundedEnd = (rangeEnd + Q9K_MMU_PAGE_MASK) AND NOT Q9K_MMU_PAGE_MASK
        in if roundedEnd < rangeEnd \<or> roundedEnd < address then None
           else
             let base = address AND NOT Q9K_MMU_PAGE_MASK;
                 roundedSize = roundedEnd - base
             in if roundedSize \<noteq> 0 then Some (base, roundedSize) else None)"

definition Q9K_MmuOverlap :: "u32 \<Rightarrow> u32 \<Rightarrow> u32 \<Rightarrow> u32 \<Rightarrow> bool" where
  "Q9K_MmuOverlap a asize b bsize \<longleftrightarrow> a < b + bsize \<and> b < a + asize"

text \<open>The scan of F$Permit: \<^term>\<open>None\<close> on an overlap with a region of the process, otherwise the first free slot.\<close>

fun permit_scan :: "u16 \<Rightarrow> u32 \<Rightarrow> u32 \<Rightarrow> Q9K_MmuRegion list \<Rightarrow> nat \<Rightarrow> nat option \<Rightarrow> nat option option" where
  "permit_scan pid base roundedSize [] i freeSlot = Some freeSlot"
| "permit_scan pid base roundedSize (r # rs) i freeSlot =
     (if rused r = 0 then permit_scan pid base roundedSize rs (i + 1) (if freeSlot = None then Some i else freeSlot)
      else if rpid r = pid \<and> Q9K_MmuOverlap base roundedSize (rbase r) (rsize r) then None
      else permit_scan pid base roundedSize rs (i + 1) freeSlot)"

definition Q9K_MmuPermit :: "Q9K_MmuRegion list \<Rightarrow> u16 \<Rightarrow> u32 \<Rightarrow> u32 \<Rightarrow> u8 \<Rightarrow> nat \<times> Q9K_MmuRegion list" where
  "Q9K_MmuPermit rs pid address len rights =
     (if pid = 0 \<or> rights AND 7 = 0 then (1, rs)
      else case Q9K_MmuRoundRange address len of
        None \<Rightarrow> (1, rs)
      | Some (base, roundedSize) \<Rightarrow>
          (case permit_scan pid base roundedSize rs 0 None of
             None \<Rightarrow> (2, rs)
           | Some None \<Rightarrow> (3, rs)
           | Some (Some freeSlot) \<Rightarrow>
               (0, rs[freeSlot := \<lparr>rbase = base, rsize = roundedSize, rpid = pid, rrights = rights AND 7, rused = 1\<rparr>])))"

fun protect_scan :: "u16 \<Rightarrow> u32 \<Rightarrow> u32 \<Rightarrow> Q9K_MmuRegion list \<Rightarrow> Q9K_MmuRegion list option" where
  "protect_scan pid base roundedSize [] = None"
| "protect_scan pid base roundedSize (r # rs) =
     (if rused r \<noteq> 0 \<and> rpid r = pid \<and> rbase r = base \<and> rsize r = roundedSize then Some (r\<lparr>rused := 0\<rparr> # rs)
      else map_option ((#) r) (protect_scan pid base roundedSize rs))"

definition Q9K_MmuProtect :: "Q9K_MmuRegion list \<Rightarrow> u16 \<Rightarrow> u32 \<Rightarrow> u32 \<Rightarrow> nat \<times> Q9K_MmuRegion list" where
  "Q9K_MmuProtect rs pid address len =
     (if pid = 0 then (1, rs)
      else case Q9K_MmuRoundRange address len of
        None \<Rightarrow> (1, rs)
      | Some (base, roundedSize) \<Rightarrow>
          (case protect_scan pid base roundedSize rs of None \<Rightarrow> (2, rs) | Some rs' \<Rightarrow> (0, rs')))"

definition Q9K_MmuCheck :: "Q9K_MmuRegion list \<Rightarrow> u16 \<Rightarrow> u32 \<Rightarrow> u32 \<Rightarrow> u8 \<Rightarrow> bool" where
  "Q9K_MmuCheck rs pid address len rights \<longleftrightarrow> pid \<noteq> 0 \<and>
     (case Q9K_MmuRoundRange address len of
        None \<Rightarrow> False
      | Some (base, roundedSize) \<Rightarrow>
          \<exists>r\<in>set rs. rused r \<noteq> 0 \<and> rpid r = pid \<and> base \<ge> rbase r \<and> roundedSize \<le> rsize r \<and> rights AND rrights r = rights)"

text \<open>The build defines either the flat mode, which succeeds, or the hardware mode, which refuses to start.\<close>

definition Q9K_MmuInit :: "bool \<Rightarrow> Q9K_MmuRegion list \<Rightarrow> nat \<times> Q9K_MmuRegion list" where
  "Q9K_MmuInit flat rs = (if flat then 0 else 1, Q9K_MmuReset rs)"

section \<open>Page arithmetic\<close>

lemma and_not_page: "x AND NOT 0xFFF = push_bit 12 (drop_bit 12 x)" for x :: u32
proof -
  have m: "(0xFFF :: u32) = mask 12" by (simp add: mask_eq_exp_minus_1)
  show ?thesis unfolding m by (rule bit_word_eqI) (auto simp: bit_simps)
qed

lemma unat_page: "unat (x AND NOT 0xFFF) = unat x div 4096 * 4096" for x :: u32
proof -
  have d: "unat (drop_bit 12 x) = unat x div 4096" by (simp add: unat_drop_bit_eq drop_bit_eq_div unat_div)
  have "unat x div 4096 * 4096 < 2 ^ 32" using unat_u32_less [of x] by simp
  then show ?thesis unfolding and_not_page using d unat_mult_lem [of "drop_bit 12 x" 4096] by (simp add: push_bit_eq_mult mult.commute)
qed

text \<open>A range that is accepted is the least union of pages that contains it, and it ends below the top of the
  address space.\<close>

lemma round_range:
  assumes "Q9K_MmuRoundRange a n = Some (b, s)"
  shows "unat b = unat a div 4096 * 4096" "unat b + unat s = (unat a + unat n + 4095) div 4096 * 4096" "unat b + unat s < 2 ^ 32" "0 < unat s"
    "4096 dvd unat b" "4096 dvd unat s" "unat b \<le> unat a" "unat a + unat n \<le> unat b + unat s"
proof -
  let ?e = "a + n" and ?r = "(a + n + 0xFFF) AND NOT (0xFFF :: u32)"
  have c: "n \<noteq> 0" "\<not> a > 0xFFFFFFFF - n" "\<not> ?r < ?e" "b = a AND NOT 0xFFF" "s = ?r - b" "s \<noteq> 0"
    using assms by (auto simp: Q9K_MmuRoundRange_def Let_def split: if_splits)
  have m: "unat (0xFFFFFFFF - n) = 0xFFFFFFFF - unat n" using unat_sub [of n "0xFFFFFFFF"] unat_u32_less [of n] by (simp add: word_le_nat_alt)
  have "unat a + unat n \<le> 0xFFFFFFFF" using c(2) unat_u32_less [of n] unfolding not_less word_le_nat_alt m by simp
  then have e: "unat ?e = unat a + unat n" using unat_offset [of a n] by simp
  have "unat (?e + 0xFFF) = unat ?e + 0xFFF"
  proof (rule ccontr)
    assume w: "unat (?e + 0xFFF) \<noteq> unat ?e + 0xFFF"
    then have "\<not> unat ?e + 0xFFF < 2 ^ 32" using unat_offset [of ?e "0xFFF"] by auto
    then have g: "2 ^ 32 \<le> unat ?e + 0xFFF" by simp
    have "unat (?e + 0xFFF) = (unat ?e + 0xFFF) mod 2 ^ 32" unfolding unat_word_ariths(1) by simp
    also have "\<dots> = unat ?e + 0xFFF - 2 ^ 32" unfolding le_mod_geq [OF g] using unat_u32_less [of ?e] by (intro mod_less) simp
    finally have "unat (?e + 0xFFF) < unat ?e" using g by simp
    then have "unat ?r < unat ?e" unfolding unat_page using div_times_less_eq_dividend [of "unat (?e + 0xFFF)" 4096] by linarith
    then show False using c(3) by (simp add: word_less_nat_alt)
  qed
  then have r: "unat ?r = (unat a + unat n + 4095) div 4096 * 4096" unfolding unat_page using e by simp
  show b: "unat b = unat a div 4096 * 4096" unfolding c(4) unat_page ..
  have le: "unat b \<le> unat ?r" unfolding b r using div_le_mono [of "unat a" "unat a + unat n + 4095" 4096] by simp
  then have s: "unat s = unat ?r - unat b" unfolding c(5) using unat_sub [of b ?r] by (simp add: word_le_nat_alt)
  show t: "unat b + unat s = (unat a + unat n + 4095) div 4096 * 4096" using s le r by simp
  show "unat b + unat s < 2 ^ 32" using s le unat_u32_less [of ?r] by simp
  show "0 < unat s" using c(6) by (simp add: word_neq_0_conv word_less_nat_alt)
  show "4096 dvd unat b" unfolding b by simp
  show "4096 dvd unat s" unfolding s r b by (simp add: dvd_diff_nat)
  show "unat b \<le> unat a" unfolding b by simp
  show "unat a + unat n \<le> unat b + unat s" unfolding t by simp
qed

section \<open>Rights as the table gives them\<close>

definition covers :: "Q9K_MmuRegion \<Rightarrow> u16 \<Rightarrow> nat \<Rightarrow> bool" where
  "covers r p a \<longleftrightarrow> rused r \<noteq> 0 \<and> rpid r = p \<and> unat (rbase r) \<le> a \<and> a < unat (rbase r) + unat (rsize r)"

text \<open>The right process \<open>p\<close> has at address \<open>a\<close>; no right is the empty set of bits.\<close>

definition rights_at :: "Q9K_MmuRegion list \<Rightarrow> u16 \<Rightarrow> nat \<Rightarrow> u8" where
  "rights_at rs p a = (case List.find (\<lambda>r. covers r p a) rs of None \<Rightarrow> 0 | Some r \<Rightarrow> rrights r)"

definition region_ok :: "Q9K_MmuRegion \<Rightarrow> bool" where
  "region_ok r \<longleftrightarrow> rused r \<noteq> 0 \<longrightarrow> rpid r \<noteq> 0 \<and> rrights r \<noteq> 0 \<and> rrights r AND 7 = rrights r \<and> 0 < unat (rsize r) \<and>
     4096 dvd unat (rbase r) \<and> 4096 dvd unat (rsize r) \<and> unat (rbase r) + unat (rsize r) < 2 ^ 32"

text \<open>The invariant: regions are whole pages inside the address space, and no address belongs to two regions of
  one process.\<close>

definition mmu_ok :: "Q9K_MmuRegion list \<Rightarrow> bool" where
  "mmu_ok rs \<longleftrightarrow> length rs = Q9K_MMU_MAX_REGIONS \<and> (\<forall>r\<in>set rs. region_ok r) \<and>
     (\<forall>i<length rs. \<forall>j<length rs. \<forall>p a. covers (rs ! i) p a \<longrightarrow> covers (rs ! j) p a \<longrightarrow> i = j)"

lemma mmu_okD:
  assumes "mmu_ok rs"
  shows "length rs = Q9K_MMU_MAX_REGIONS" "i < length rs \<Longrightarrow> region_ok (rs ! i)"
    "i < length rs \<Longrightarrow> j < length rs \<Longrightarrow> covers (rs ! i) p a \<Longrightarrow> covers (rs ! j) p a \<Longrightarrow> i = j"
  using assms by (auto simp: mmu_ok_def)

lemma rights_at_slot:
  assumes "mmu_ok rs" "i < length rs" "covers (rs ! i) p a"
  shows "rights_at rs p a = rrights (rs ! i)"
proof -
  have "List.find (\<lambda>r. covers r p a) rs = Some (rs ! i)"
    unfolding find_Some_iff using assms mmu_okD(3) [OF assms(1)] by (intro exI [of _ i]) (metis order.strict_trans nless_le)
  then show ?thesis by (simp add: rights_at_def)
qed

lemma rights_at_none: "(\<And>i. i < length rs \<Longrightarrow> \<not> covers (rs ! i) p a) \<Longrightarrow> rights_at rs p a = 0"
  by (auto simp: rights_at_def in_set_conv_nth find_Some_iff split: option.splits)

lemma rights_at_iff:
  assumes "mmu_ok rs"
  shows "rights_at rs p a \<noteq> 0 \<longleftrightarrow> (\<exists>i<length rs. covers (rs ! i) p a)"
proof
  show "rights_at rs p a \<noteq> 0 \<Longrightarrow> \<exists>i<length rs. covers (rs ! i) p a" using rights_at_none by blast
  assume "\<exists>i<length rs. covers (rs ! i) p a"
  then obtain i where i: "i < length rs" "covers (rs ! i) p a" by blast
  then have "rrights (rs ! i) \<noteq> 0" using mmu_okD(2) [OF assms i(1)] by (simp add: region_ok_def covers_def)
  then show "rights_at rs p a \<noteq> 0" using rights_at_slot [OF assms i] by simp
qed

section \<open>F$Permit\<close>

lemma permit_scan_None:
  "permit_scan p b s rs k fr = None \<longleftrightarrow> (\<exists>r\<in>set rs. rused r \<noteq> 0 \<and> rpid r = p \<and> Q9K_MmuOverlap b s (rbase r) (rsize r))"
  by (induction rs arbitrary: k fr) auto

lemma permit_scan_given: "permit_scan p b s rs k (Some i) = Some x \<Longrightarrow> x = Some i"
  by (induction rs arbitrary: k) (auto split: if_splits)

lemma permit_scan_free:
  "permit_scan p b s rs k None = Some x \<Longrightarrow> (case x of None \<Rightarrow> \<forall>r\<in>set rs. rused r \<noteq> 0
     | Some i \<Rightarrow> k \<le> i \<and> i - k < length rs \<and> rused (rs ! (i - k)) = 0)"
proof (induction rs arbitrary: k)
  case (Cons r rs)
  show ?case
  proof (cases "rused r = 0")
    case True
    then show ?thesis using Cons.prems permit_scan_given by fastforce
  next
    case False
    then have "permit_scan p b s rs (k + 1) None = Some x" using Cons.prems by (auto split: if_splits)
    from Cons.IH [OF this] show ?thesis using False by (cases x) (auto simp: nth_Cons' Suc_le_eq)
  qed
qed simp

text \<open>Overlap of two ranges that end below the top of the address space.\<close>

lemma overlap_iff:
  assumes "unat a + unat n < 2 ^ 32" "unat b + unat k < 2 ^ 32" "0 < unat n" "0 < unat k"
  shows "Q9K_MmuOverlap a n b k \<longleftrightarrow> (\<exists>x. unat a \<le> x \<and> x < unat a + unat n \<and> unat b \<le> x \<and> x < unat b + unat k)"
proof -
  have "Q9K_MmuOverlap a n b k \<longleftrightarrow> unat a < unat b + unat k \<and> unat b < unat a + unat n"
    using assms unat_offset [of a n] unat_offset [of b k] by (simp add: Q9K_MmuOverlap_def word_less_nat_alt)
  also have "\<dots> \<longleftrightarrow> (\<exists>x. unat a \<le> x \<and> x < unat a + unat n \<and> unat b \<le> x \<and> x < unat b + unat k)"
    using assms(3,4) by (auto intro!: exI [of _ "max (unat a) (unat b)"])
  finally show ?thesis .
qed

lemma scan_overlap:
  assumes "mmu_ok rs" "Q9K_MmuRoundRange addr n = Some (b, s)"
  shows "permit_scan p b s rs k fr = None \<longleftrightarrow> (\<exists>a. unat b \<le> a \<and> a < unat b + unat s \<and> rights_at rs p a \<noteq> 0)"
proof -
  note R = round_range [OF assms(2)]
  have "Q9K_MmuOverlap b s (rbase r) (rsize r) \<longleftrightarrow> (\<exists>a. unat b \<le> a \<and> a < unat b + unat s \<and> covers r p a)"
    if "r \<in> set rs" "rused r \<noteq> 0" "rpid r = p" for r
  proof -
    have "region_ok r" using assms(1) that(1) by (simp add: mmu_ok_def)
    then show ?thesis using that overlap_iff [OF R(3) _ R(4), of "rbase r" "rsize r"] by (auto simp: region_ok_def covers_def)
  qed
  moreover have "rused r \<noteq> 0" "rpid r = p" if "covers r p a" for r a using that by (auto simp: covers_def)
  moreover have "rights_at rs p a \<noteq> 0 \<longleftrightarrow> (\<exists>r\<in>set rs. covers r p a)" for a
    unfolding rights_at_iff [OF assms(1)] by (metis in_set_conv_nth)
  ultimately show ?thesis unfolding permit_scan_None by blast
qed

lemma covers_update:
  assumes "i < length rs"
  shows "covers (rs[i := r] ! j) p a \<longleftrightarrow> (if j = i then covers r p a else covers (rs ! j) p a)"
  using assms by simp

lemma mmu_ok_free:
  assumes "mmu_ok rs" "i < length rs" "rused (rs ! i) = 0" "region_ok r" "rused r \<noteq> 0"
    and "\<And>a. covers r (rpid r) a \<Longrightarrow> rights_at rs (rpid r) a = 0"
  shows "mmu_ok (rs[i := r])"
    "rights_at (rs[i := r]) p a = (if covers r p a then rrights r else rights_at rs p a)"
proof -
  have n: "\<not> covers (rs ! i) q x" for q x using assms(3) by (simp add: covers_def)
  have d: "\<not> (covers r q x \<and> j < length rs \<and> covers (rs ! j) q x)" for q x j
    using assms(6) rights_at_iff [OF assms(1), of q x] by (auto simp: covers_def)
  show ok: "mmu_ok (rs[i := r])" unfolding mmu_ok_def
  proof (intro conjI allI impI ballI)
    show "length (rs[i := r]) = Q9K_MMU_MAX_REGIONS" using mmu_okD(1) [OF assms(1)] by simp
    show "region_ok x" if "x \<in> set (rs[i := r])" for x
      using that set_update_subset_insert [of rs i r] assms(1,4) by (auto simp: mmu_ok_def)
    show "j = k" if "j < length (rs[i := r])" "k < length (rs[i := r])" "covers (rs[i := r] ! j) q x" "covers (rs[i := r] ! k) q x" for j k q x
      using that mmu_okD(3) [OF assms(1), of j k q x] d [of q x j] d [of q x k] unfolding covers_update [OF assms(2)] by (auto split: if_splits)
  qed
  show "rights_at (rs[i := r]) p a = (if covers r p a then rrights r else rights_at rs p a)"
  proof (cases "\<exists>j<length rs. covers (rs[i := r] ! j) p a")
    case True
    then obtain j where j: "j < length rs" "covers (rs[i := r] ! j) p a" by blast
    then have "rights_at (rs[i := r]) p a = rrights (rs[i := r] ! j)" using rights_at_slot [OF ok, of j] by simp
    then show ?thesis using j d [of p a j] rights_at_slot [OF assms(1) j(1)] assms(2) unfolding covers_update [OF assms(2)]
      by (auto split: if_splits)
  next
    case False
    then have "\<not> covers r p a" using assms(2) by auto
    moreover have "\<not> covers (rs ! j) p a" if "j < length rs" for j using False n that covers_update [OF assms(2), of r j p a] by (cases "j = i") auto
    ultimately show ?thesis using False rights_at_none [of rs p a] rights_at_none [of "rs[i := r]" p a] by auto
  qed
qed

abbreviation new_region :: "u32 \<Rightarrow> u32 \<Rightarrow> u16 \<Rightarrow> u8 \<Rightarrow> Q9K_MmuRegion" where
  "new_region b s p rights \<equiv> \<lparr>rbase = b, rsize = s, rpid = p, rrights = rights AND 7, rused = 1\<rparr>"

lemma permit_entered:
  assumes "mmu_ok rs" "Q9K_MmuRoundRange addr n = Some (b, s)" "permit_scan p b s rs 0 None = Some (Some i)" "p \<noteq> 0" "rights AND 7 \<noteq> 0"
  shows "i < length rs" "rused (rs ! i) = 0" "mmu_ok (rs[i := new_region b s p rights])"
    "rights_at (rs[i := new_region b s p rights]) q a =
       (if q = p \<and> unat addr div 4096 * 4096 \<le> a \<and> a < (unat addr + unat n + 4095) div 4096 * 4096 then rights AND 7 else rights_at rs q a)"
proof -
  let ?r = "new_region b s p rights"
  note R = round_range [OF assms(2)]
  show i: "i < length rs" "rused (rs ! i) = 0" using permit_scan_free [OF assms(3)] by auto
  have "region_ok ?r" using R assms(4,5) by (simp add: region_ok_def and.assoc)
  moreover have "rights_at rs (rpid ?r) x = 0" if "covers ?r (rpid ?r) x" for x
    using that scan_overlap [OF assms(1,2), of p 0 None] assms(3) by (auto simp: covers_def)
  ultimately have u: "mmu_ok (rs[i := ?r])" "rights_at (rs[i := ?r]) q a = (if covers ?r q a then rrights ?r else rights_at rs q a)"
    using mmu_ok_free [OF assms(1) i, of ?r] by auto
  have "covers ?r q a \<longleftrightarrow> q = p \<and> unat addr div 4096 * 4096 \<le> a \<and> a < (unat addr + unat n + 4095) div 4096 * 4096"
    using R(1,2) by (auto simp: covers_def)
  then show "mmu_ok (rs[i := ?r])" "rights_at (rs[i := ?r]) q a =
       (if q = p \<and> unat addr div 4096 * 4096 \<le> a \<and> a < (unat addr + unat n + 4095) div 4096 * 4096 then rights AND 7 else rights_at rs q a)"
    using u by simp_all
qed

text \<open>C16: F$Permit on a well-formed table changes the rights as specified: it refuses invalid
  requests with 1, requests that touch a page the process already has a region on with 2, and a full table with 3, all without any effect;
  otherwise it gives the process the requested rights at exactly the bytes of the pages that the range touches,
  changes nothing else, and the table stays well formed.\<close>

theorem mmu_permit_refines:
  assumes "mmu_ok rs"
  shows "case Q9K_MmuPermit rs p addr n rights of (r, rs') \<Rightarrow> mmu_ok rs' \<and>
     (case Q9K_MmuRoundRange addr n of
        None \<Rightarrow> r = 1 \<and> rs' = rs
      | Some (b, s) \<Rightarrow>
          if p = 0 \<or> rights AND 7 = 0 then r = 1 \<and> rs' = rs
          else if \<exists>a. unat b \<le> a \<and> a < unat b + unat s \<and> rights_at rs p a \<noteq> 0 then r = 2 \<and> rs' = rs
          else if \<forall>x\<in>set rs. rused x \<noteq> 0 then r = 3 \<and> rs' = rs
          else r = 0 \<and> (\<forall>q a. rights_at rs' q a =
            (if q = p \<and> unat addr div 4096 * 4096 \<le> a \<and> a < (unat addr + unat n + 4095) div 4096 * 4096 then rights AND 7 else rights_at rs q a)))"
proof (cases "Q9K_MmuRoundRange addr n")
  case None
  then show ?thesis using assms by (simp add: Q9K_MmuPermit_def)
next
  case (Some bs)
  obtain b s where bs: "bs = (b, s)" by (cases bs)
  note V = scan_overlap [OF assms Some [unfolded bs], of p 0 None]
  show ?thesis
  proof (cases "permit_scan p b s rs 0 None")
    case None
    then show ?thesis using assms V Some bs by (auto simp: Q9K_MmuPermit_def)
  next
    case (Some x)
    have free: "rights_at rs p a = 0" if "unat b \<le> a" "a < unat b + unat s" for a using V Some that by auto
    note F = permit_scan_free [OF Some]
    show ?thesis
    proof (cases "p = 0 \<or> rights AND 7 = 0")
      case True
      then show ?thesis using assms \<open>Q9K_MmuRoundRange addr n = Some bs\<close> bs by (auto simp: Q9K_MmuPermit_def)
    next
      case ok: False
      show ?thesis
      proof (cases x)
        case None
        then have "Q9K_MmuPermit rs p addr n rights = (3, rs)" using ok Some \<open>Q9K_MmuRoundRange addr n = Some bs\<close> bs by (simp add: Q9K_MmuPermit_def)
        then show ?thesis using assms ok free F None \<open>Q9K_MmuRoundRange addr n = Some bs\<close> bs by auto
      next
        case (Some i)
        have e: "Q9K_MmuPermit rs p addr n rights = (0, rs[i := new_region b s p rights])"
          using ok Some \<open>permit_scan p b s rs 0 None = Some x\<close> \<open>Q9K_MmuRoundRange addr n = Some bs\<close> bs by (simp add: Q9K_MmuPermit_def)
        have "permit_scan p b s rs 0 None = Some (Some i)" using Some \<open>permit_scan p b s rs 0 None = Some x\<close> by simp
        note u = permit_entered [OF assms \<open>Q9K_MmuRoundRange addr n = Some bs\<close> [unfolded bs] this, of rights]
        have "\<not> (\<forall>x\<in>set rs. rused x \<noteq> 0)" using u(1,2) ok nth_mem by blast
        then show ?thesis using e u(3,4) ok free \<open>Q9K_MmuRoundRange addr n = Some bs\<close> bs by auto
      qed
    qed
  qed
qed

lemma mmu_permit_refines_witness:
  "mmu_ok (replicate 128 \<lparr>rbase = 0, rsize = 0, rpid = 0, rrights = 0, rused = 0\<rparr>) \<and>
   fst (Q9K_MmuPermit (replicate 128 \<lparr>rbase = 0, rsize = 0, rpid = 0, rrights = 0, rused = 0\<rparr>) 1 0x10010 0x20 1) = 0"
proof -
  let ?e = "\<lparr>rbase = 0, rsize = 0, rpid = 0, rrights = 0, rused = 0\<rparr> :: Q9K_MmuRegion"
  have ok: "mmu_ok (replicate 128 ?e)" by (auto simp: mmu_ok_def region_ok_def covers_def)
  have r: "Q9K_MmuRoundRange 0x10010 0x20 = Some (0x10000, 0x1000)" by (simp add: Q9K_MmuRoundRange_def)
  have n: "rights_at (replicate 128 ?e) 1 a = 0" for a by (rule rights_at_none) (simp add: covers_def)
  show ?thesis using mmu_permit_refines [OF ok, where p = 1 and addr = "0x10010" and n = "0x20" and rights = 1] ok unfolding r by (auto simp: n split: prod.splits)
qed

section \<open>F$Protect and reset\<close>

lemma protect_scan_Some:
  "protect_scan p b s rs = Some rs' \<Longrightarrow> \<exists>i<length rs. rused (rs ! i) \<noteq> 0 \<and> rpid (rs ! i) = p \<and> rbase (rs ! i) = b \<and>
     rsize (rs ! i) = s \<and> rs' = rs[i := (rs ! i)\<lparr>rused := 0\<rparr>]"
proof (induction rs arbitrary: rs')
  case (Cons r rs)
  show ?case
  proof (cases "rused r \<noteq> 0 \<and> rpid r = p \<and> rbase r = b \<and> rsize r = s")
    case True
    then show ?thesis using Cons.prems by (intro exI [of _ 0]) auto
  next
    case False
    then obtain q where q: "protect_scan p b s rs = Some q" "rs' = r # q" using Cons.prems by auto
    from Cons.IH [OF q(1)] obtain i where "i < length rs" "rused (rs ! i) \<noteq> 0 \<and> rpid (rs ! i) = p \<and> rbase (rs ! i) = b \<and>
       rsize (rs ! i) = s \<and> q = rs[i := (rs ! i)\<lparr>rused := 0\<rparr>]" by blast
    then show ?thesis using q(2) by (intro exI [of _ "Suc i"]) auto
  qed
qed simp

lemma mmu_ok_clear:
  assumes "mmu_ok rs" "i < length rs"
  shows "mmu_ok (rs[i := (rs ! i)\<lparr>rused := 0\<rparr>])"
    "rights_at (rs[i := (rs ! i)\<lparr>rused := 0\<rparr>]) p a = (if covers (rs ! i) p a then 0 else rights_at rs p a)"
proof -
  let ?r = "(rs ! i)\<lparr>rused := 0\<rparr>"
  have n: "\<not> covers ?r q x" for q x by (simp add: covers_def)
  have c: "covers (rs[i := ?r] ! j) q x \<longleftrightarrow> j \<noteq> i \<and> covers (rs ! j) q x" for j q x using covers_update [OF assms(2), of ?r j q x] n by auto
  show ok: "mmu_ok (rs[i := ?r])" unfolding mmu_ok_def
  proof (intro conjI allI impI ballI)
    show "length (rs[i := ?r]) = Q9K_MMU_MAX_REGIONS" using mmu_okD(1) [OF assms(1)] by simp
    show "region_ok x" if "x \<in> set (rs[i := ?r])" for x
      using that set_update_subset_insert [of rs i ?r] assms(1) by (auto simp: mmu_ok_def region_ok_def)
    show "j = k" if "j < length (rs[i := ?r])" "k < length (rs[i := ?r])" "covers (rs[i := ?r] ! j) q x" "covers (rs[i := ?r] ! k) q x" for j k q x
      using that mmu_okD(3) [OF assms(1), of j k q x] c by auto
  qed
  show "rights_at (rs[i := ?r]) p a = (if covers (rs ! i) p a then 0 else rights_at rs p a)"
  proof (cases "\<exists>j<length rs. j \<noteq> i \<and> covers (rs ! j) p a")
    case True
    then obtain j where j: "j < length rs" "j \<noteq> i" "covers (rs ! j) p a" by blast
    then have "rights_at (rs[i := ?r]) p a = rrights (rs ! j)" using rights_at_slot [OF ok, of j] c by simp
    moreover have "\<not> covers (rs ! i) p a" using mmu_okD(3) [OF assms(1) j(1) assms(2) j(3)] j(2) by blast
    ultimately show ?thesis using rights_at_slot [OF assms(1) j(1,3)] by simp
  next
    case False
    then have "rights_at (rs[i := ?r]) p a = 0" using c by (intro rights_at_none) auto
    moreover have "\<not> covers (rs ! i) p a \<Longrightarrow> rights_at rs p a = 0" using False by (intro rights_at_none) blast
    ultimately show ?thesis by simp
  qed
qed

text \<open>F$Protect takes the rights away from exactly the bytes of one region, or changes nothing.\<close>

lemma mmu_protect_spec:
  assumes "mmu_ok rs" "Q9K_MmuProtect rs p addr n = (r, rs')"
  shows "mmu_ok rs'" "r \<noteq> 0 \<Longrightarrow> rs' = rs"
    "r = 0 \<Longrightarrow> rights_at rs' q a =
       (if q = p \<and> unat addr div 4096 * 4096 \<le> a \<and> a < (unat addr + unat n + 4095) div 4096 * 4096 then 0 else rights_at rs q a)"
proof -
  have "r \<noteq> 0 \<and> rs' = rs \<or> (\<exists>b s. r = 0 \<and> Q9K_MmuRoundRange addr n = Some (b, s) \<and> protect_scan p b s rs = Some rs')"
    using assms(2) by (auto simp: Q9K_MmuProtect_def split: if_splits option.splits prod.splits)
  then consider "r \<noteq> 0" "rs' = rs" | b s where "r = 0" "Q9K_MmuRoundRange addr n = Some (b, s)" "protect_scan p b s rs = Some rs'" by blast
  then have "mmu_ok rs' \<and> (r \<noteq> 0 \<longrightarrow> rs' = rs) \<and> (r = 0 \<longrightarrow> rights_at rs' q a =
       (if q = p \<and> unat addr div 4096 * 4096 \<le> a \<and> a < (unat addr + unat n + 4095) div 4096 * 4096 then 0 else rights_at rs q a))"
  proof cases
    case 1
    then show ?thesis using assms(1) by simp
  next
    case (2 b s)
    obtain i where i: "i < length rs" "rused (rs ! i) \<noteq> 0" "rpid (rs ! i) = p" "rbase (rs ! i) = b" "rsize (rs ! i) = s"
        "rs' = rs[i := (rs ! i)\<lparr>rused := 0\<rparr>]" using protect_scan_Some [OF 2(3)] by blast
    have "covers (rs ! i) q a \<longleftrightarrow> q = p \<and> unat addr div 4096 * 4096 \<le> a \<and> a < (unat addr + unat n + 4095) div 4096 * 4096"
      using i(2-5) round_range(1,2) [OF 2(2)] by (auto simp: covers_def)
    then show ?thesis using mmu_ok_clear [OF assms(1) i(1)] 2(1) i(6) by simp
  qed
  then show "mmu_ok rs'" "r \<noteq> 0 \<Longrightarrow> rs' = rs" "r = 0 \<Longrightarrow> rights_at rs' q a =
       (if q = p \<and> unat addr div 4096 * 4096 \<le> a \<and> a < (unat addr + unat n + 4095) div 4096 * 4096 then 0 else rights_at rs q a)"
    by auto
qed

lemma mmu_reset_spec: "length rs = Q9K_MMU_MAX_REGIONS \<Longrightarrow> mmu_ok (Q9K_MmuReset rs)" "rights_at (Q9K_MmuReset rs) p a = 0"
proof -
  have n: "\<not> covers (Q9K_MmuReset rs ! i) q x" if "i < length rs" for i q x using that by (simp add: Q9K_MmuReset_def covers_def)
  have l: "length (Q9K_MmuReset rs) = length rs" by (simp add: Q9K_MmuReset_def)
  have "\<forall>r\<in>set (Q9K_MmuReset rs). region_ok r" by (auto simp: Q9K_MmuReset_def region_ok_def)
  then show "length rs = Q9K_MMU_MAX_REGIONS \<Longrightarrow> mmu_ok (Q9K_MmuReset rs)" using n l by (simp add: mmu_ok_def)
  show "rights_at (Q9K_MmuReset rs) p a = 0" using n l by (intro rights_at_none) auto
qed

section \<open>The check\<close>

lemma round_one:
  assumes "x < 0xFFFFF000"
  shows "Q9K_MmuRoundRange x 1 = Some (x AND NOT 0xFFF, 0x1000)"
proof -
  have x: "unat x < 0xFFFFF000" using assms by (simp add: word_less_nat_alt)
  have e: "unat (x + 1) = unat x + 1" "unat (x + 1 + 0xFFF) = unat x + 4096"
    using x unat_offset [of x 1] unat_offset [of x 4096] by (simp_all add: add.assoc)
  let ?r = "(x + 1 + 0xFFF) AND NOT (0xFFF :: u32)"
  have r: "unat ?r = unat x div 4096 * 4096 + 4096" unfolding unat_page e(2) using div_add_self2 [of 4096 "unat x"] by (simp add: distrib_right)
  have l: "unat x < unat x div 4096 * 4096 + 4096" using div_mult_mod_eq [of "unat x" 4096] mod_less_divisor [of 4096 "unat x"] by linarith
  have "unat (?r - (x AND NOT 0xFFF)) = 4096" using r unat_page [of x] unat_sub [of "x AND NOT 0xFFF" ?r] by (simp add: word_le_nat_alt)
  then have "?r - (x AND NOT 0xFFF) = 0x1000" by (simp add: word_unat_eq_iff)
  moreover have "\<not> ?r < x + 1" "\<not> ?r < x" using r l e(1) by (simp_all add: word_less_nat_alt)
  moreover have "\<not> (0xFFFFFFFF - 1 :: u32) < x" using x by (simp add: word_less_nat_alt)
  ultimately show ?thesis by (simp only: Q9K_MmuRoundRange_def Let_def) simp
qed

text \<open>C38: the check compares only the start of the range and its size with a region, never its end.  After the
  first F$Permit of a process every page above the permitted ones passes the check with the same rights, although the table gives the
  process no right there.\<close>

theorem mmu_check_unbounded:
  assumes ok: "mmu_ok rs" and fresh: "\<And>a. rights_at rs p a = 0" and permit: "Q9K_MmuPermit rs p addr n rights = (0, rs')"
    and bits: "rights AND 7 = rights" and x: "(unat addr + unat n + 4095) div 4096 * 4096 \<le> unat x" "x < 0xFFFFF000"
  shows "Q9K_MmuCheck rs' p x 1 rights \<and> rights_at rs' p (unat x) = 0"
proof (intro conjI)
  obtain b s i where p: "p \<noteq> 0" "Q9K_MmuRoundRange addr n = Some (b, s)" "permit_scan p b s rs 0 None = Some (Some i)"
      "rs' = rs[i := new_region b s p rights]" "rights AND 7 \<noteq> 0"
    using permit by (auto simp: Q9K_MmuPermit_def split: if_splits option.splits prod.splits)
  note R = round_range [OF p(2)]
  have r: "new_region b s p rights \<in> set rs'"
    unfolding p(4) by (rule set_update_memI) (rule permit_entered(1) [OF ok p(2,3,1,5)])
  have "0x1000 \<le> s" using R(4,6) by (auto simp: word_le_nat_alt dest: dvd_imp_le)
  moreover have "b \<le> x AND NOT 0xFFF"
    unfolding word_le_nat_alt unat_page R(1) using x(1) div_le_mono [of "unat addr" "unat x" 4096] R(7,8) R(2) by simp
  ultimately show "Q9K_MmuCheck rs' p x 1 rights"
    unfolding Q9K_MmuCheck_def round_one [OF x(2)] using p(1) r bits by (auto intro!: bexI [OF _ r])
  show "rights_at rs' p (unat x) = 0"
    unfolding p(4) using permit_entered(4) [OF ok p(2,3,1,5), of p "unat x"] fresh x(1) by simp
qed

lemma mmu_check_unbounded_witness:
  "\<exists>rs. Q9K_MmuCheck rs 1 0x50000 1 1 \<and> rights_at rs 1 0x50000 = 0"
proof -
  let ?e = "replicate 128 \<lparr>rbase = 0, rsize = 0, rpid = 0, rrights = 0, rused = 0\<rparr> :: Q9K_MmuRegion list"
  have ok: "mmu_ok ?e" by (auto simp: mmu_ok_def region_ok_def covers_def)
  have n: "rights_at ?e 1 a = 0" for a by (rule rights_at_none) (simp add: covers_def)
  have "Q9K_MmuRoundRange 0x10010 0x20 = Some (0x10000, 0x1000)" by (simp add: Q9K_MmuRoundRange_def)
  moreover have "\<exists>i. permit_scan 1 0x10000 0x1000 ?e 0 None = Some (Some i)"
    using permit_scan_free [of 1 "0x10000" "0x1000" ?e 0] permit_scan_None [of 1 "0x10000" "0x1000" ?e 0 None]
    by (cases "permit_scan 1 0x10000 0x1000 ?e 0 None") (auto split: option.splits)
  ultimately obtain rs where "Q9K_MmuPermit ?e 1 0x10010 0x20 1 = (0, rs)" by (auto simp: Q9K_MmuPermit_def)
  from mmu_check_unbounded [OF ok n this, of "0x50000"] show ?thesis by (intro exI [of _ rs]) simp
qed

end
