(* ===== verification/Q9_Trace.thy ===== *)
theory Q9_Trace
  imports Q9_Memory Q9_RingBuf_Props
begin

text \<open>
  Trace records (\<^verbatim>\<open>q9trace.c\<close>): the filter that decides which events are logged, the records with their header of
  twelve bytes, and the formatter that the ring buffer calls for the records it has lost.  An output buffer is
  the list of the bytes written to it; the code of an event is a byte, as in the event record.
\<close>

section \<open>The filter\<close>

abbreviation Q9TRACE_HDR_LEN :: nat where "Q9TRACE_HDR_LEN \<equiv> 12"
abbreviation Q9TRACE_MAX_REC :: nat where "Q9TRACE_MAX_REC \<equiv> 64"
abbreviation Q9TRACE_MASK_BYTES :: nat where "Q9TRACE_MASK_BYTES \<equiv> 32"
abbreviation Q9TRACE_REC_ENTRY :: u8 where "Q9TRACE_REC_ENTRY \<equiv> 1"
abbreviation Q9TRACE_REC_RETURN :: u8 where "Q9TRACE_REC_RETURN \<equiv> 2"
abbreviation Q9TRACE_REC_INTERN_ENTRY :: u8 where "Q9TRACE_REC_INTERN_ENTRY \<equiv> 3"
abbreviation Q9TRACE_REC_INTERN_RETURN :: u8 where "Q9TRACE_REC_INTERN_RETURN \<equiv> 4"
abbreviation Q9TRACE_REC_LOST :: u8 where "Q9TRACE_REC_LOST \<equiv> 5"
abbreviation Q9TRACE_REC_PROCINFO :: u8 where "Q9TRACE_REC_PROCINFO \<equiv> 6"
abbreviation Q9TRACE_REC_TIMEBASE :: u8 where "Q9TRACE_REC_TIMEBASE \<equiv> 7"

record Q9TraceFilter =
  syscallMask :: "u8 list"
  internalMask :: "u8 list"
  fPid :: u16
  fUser :: u16
  fPath :: u16
  fFileId :: u32
  errorOnly :: u8
  detail :: u8

record Q9TraceEvent =
  evType :: u8
  evCode :: u8
  evPid :: u16
  evUser :: u16
  evPath :: u16
  evFileId :: u32
  isReturn :: bool
  carrySet :: bool

definition Q9TraceFilterInit :: Q9TraceFilter where
  "Q9TraceFilterInit = \<lparr>syscallMask = replicate Q9TRACE_MASK_BYTES 0xFF, internalMask = replicate Q9TRACE_MASK_BYTES 0, fPid = 0,
     fUser = 0, fPath = 0xFFFF, fFileId = 0, errorOnly = 0, detail = 1\<rparr>"

definition Q9TraceMaskSet :: "u8 list \<Rightarrow> nat \<Rightarrow> u8 list" where
  "Q9TraceMaskSet ms code = ms[code div 8 := ms ! (code div 8) OR push_bit (code mod 8) 1]"

definition Q9TraceMaskClear :: "u8 list \<Rightarrow> nat \<Rightarrow> u8 list" where
  "Q9TraceMaskClear ms code = ms[code div 8 := ms ! (code div 8) AND NOT (push_bit (code mod 8) 1)]"

definition Q9TraceMaskTest :: "u8 list \<Rightarrow> nat \<Rightarrow> bool" where
  "Q9TraceMaskTest ms code \<longleftrightarrow> ms ! (code div 8) AND push_bit (code mod 8) 1 \<noteq> 0"

definition Q9TraceShouldLog :: "Q9TraceFilter \<Rightarrow> Q9TraceEvent \<Rightarrow> bool" where
  "Q9TraceShouldLog f ev =
     (let isIntern = evType ev = Q9TRACE_REC_INTERN_ENTRY \<or> evType ev = Q9TRACE_REC_INTERN_RETURN in
      if isIntern \<and> detail f < 3 then False
      else if isIntern \<and> \<not> Q9TraceMaskTest (internalMask f) (unat (evCode ev)) then False
      else if \<not> isIntern \<and> \<not> Q9TraceMaskTest (syscallMask f) (unat (evCode ev)) then False
      else if fPid f \<noteq> 0 \<and> fPid f \<noteq> evPid ev then False
      else if fUser f \<noteq> 0 \<and> fUser f \<noteq> evUser ev then False
      else if fPath f \<noteq> 0xFFFF \<and> evPath ev \<noteq> 0xFFFF \<and> fPath f \<noteq> evPath ev then False
      else if fFileId f \<noteq> 0 \<and> evFileId ev \<noteq> 0 \<and> fFileId f \<noteq> evFileId ev then False
      else if errorOnly f \<noteq> 0 \<and> (evType ev = Q9TRACE_REC_RETURN \<or> evType ev = Q9TRACE_REC_INTERN_RETURN) \<and> \<not> carrySet ev then False
      else True)"

section \<open>Records\<close>

definition PutHeader :: "u8 \<Rightarrow> u8 \<Rightarrow> u8 \<Rightarrow> u8 \<Rightarrow> u16 \<Rightarrow> u32 \<Rightarrow> u16 \<Rightarrow> u8 list" where
  "PutHeader recType recLen code flags pid tick fineTime =
     [recType, recLen, code, flags, ucast (drop_bit 8 pid), ucast (pid AND 0xFF),
      ucast (drop_bit 24 tick), ucast (drop_bit 16 tick), ucast (drop_bit 8 tick), ucast (tick AND 0xFF),
      ucast (drop_bit 8 fineTime), ucast (fineTime AND 0xFF)]"

text \<open>The empty list stands for the return value 0 with nothing written.\<close>

definition Q9TraceBuildRecord :: "u8 \<Rightarrow> u8 \<Rightarrow> u32 \<Rightarrow> bool \<Rightarrow> u16 \<Rightarrow> u32 \<Rightarrow> u16 \<Rightarrow> u8 list \<Rightarrow> u8 list" where
  "Q9TraceBuildRecord recType code depth carry pid tick fineTime payload =
     (if recType \<noteq> Q9TRACE_REC_ENTRY \<and> recType \<noteq> Q9TRACE_REC_RETURN \<and> recType \<noteq> Q9TRACE_REC_INTERN_ENTRY \<and>
         recType \<noteq> Q9TRACE_REC_INTERN_RETURN then []
      else
        let flags0 = ucast (depth AND 0x0F) :: u8;
            flags1 = (if carry then flags0 OR 0x10 else flags0);
            maxPayload = Q9TRACE_MAX_REC - Q9TRACE_HDR_LEN;
            (payloadLen, flags) = (if length payload > maxPayload then (maxPayload, flags1 OR 0x20) else (length payload, flags1))
        in PutHeader recType (of_nat (Q9TRACE_HDR_LEN + payloadLen)) code flags pid tick fineTime @ take payloadLen payload)"

abbreviation bytes32 :: "u32 \<Rightarrow> u8 list" where
  "bytes32 v \<equiv> [ucast (drop_bit 24 v), ucast (drop_bit 16 v), ucast (drop_bit 8 v), ucast (v AND 0xFF)]"

definition Q9TraceBuildLostRecord :: "u16 \<Rightarrow> u32 \<Rightarrow> u16 \<Rightarrow> u32 \<Rightarrow> u8 list" where
  "Q9TraceBuildLostRecord pid tick fineTime lost =
     PutHeader Q9TRACE_REC_LOST (of_nat (Q9TRACE_HDR_LEN + 4)) 0 0 pid tick fineTime @ bytes32 lost"

definition Q9TraceBuildProcInfoRecord :: "u16 \<Rightarrow> u32 \<Rightarrow> u16 \<Rightarrow> u16 \<Rightarrow> u8 list" where
  "Q9TraceBuildProcInfoRecord pid tick fineTime user =
     PutHeader Q9TRACE_REC_PROCINFO (of_nat (Q9TRACE_HDR_LEN + 2)) 0 0 pid tick fineTime @ [ucast (drop_bit 8 user), ucast (user AND 0xFF)]"

definition Q9TraceBuildTimeBaseRecord :: "u32 \<Rightarrow> u16 \<Rightarrow> u32 \<Rightarrow> u8 list" where
  "Q9TraceBuildTimeBaseRecord tick fineTime timeRaw =
     PutHeader Q9TRACE_REC_TIMEBASE (of_nat (Q9TRACE_HDR_LEN + 4)) 0 0 0 tick fineTime @ bytes32 timeRaw"

record Q9TraceRecHdr =
  hType :: u8
  hLen :: u8
  hCode :: u8
  hFlags :: u8
  hPid :: u16
  hTick :: u32
  hFineTime :: u16

definition Q9TraceDecodeHeader :: "u8 list \<Rightarrow> Q9TraceRecHdr" where
  "Q9TraceDecodeHeader rec =
     \<lparr>hType = rec ! 0, hLen = rec ! 1, hCode = rec ! 2, hFlags = rec ! 3,
      hPid = push_bit 8 (ucast (rec ! 4)) OR ucast (rec ! 5),
      hTick = push_bit 24 (ucast (rec ! 6)) OR push_bit 16 (ucast (rec ! 7)) OR push_bit 8 (ucast (rec ! 8)) OR ucast (rec ! 9),
      hFineTime = push_bit 8 (ucast (rec ! 10)) OR ucast (rec ! 11)\<rparr>"

definition Q9TraceLostRecordFormatter :: "u32 \<Rightarrow> u8 list" where
  "Q9TraceLostRecordFormatter lost = Q9TraceBuildLostRecord 0 0 0 lost"

section \<open>Properties\<close>

lemma join16: "push_bit 8 (ucast (ucast (drop_bit 8 v) :: u8)) OR ucast (ucast (v AND 0xFF) :: u8) = v" for v :: u16
  unfolding and_FF_16 by (rule bit_word_eqI) (auto simp: bit_simps)

lemma join32: "push_bit 24 (ucast (ucast (drop_bit 24 v) :: u8)) OR push_bit 16 (ucast (ucast (drop_bit 16 v) :: u8)) OR
    push_bit 8 (ucast (ucast (drop_bit 8 v) :: u8)) OR ucast (ucast (v AND 0xFF) :: u8) = v" for v :: u32
proof -
  have e: "ucast (v AND 0xFF) = (ucast v :: u8)" unfolding and_FF by (rule bit_word_eqI) (auto simp: bit_simps)
  have "Q9K_GetU32 (Q9K_SetU32 (\<lambda>_. 0) 0 v) 0 = v" by (rule GetU32_SetU32)
  then show ?thesis unfolding e by (simp add: Q9K_GetU32_def Q9K_SetU32_def)
qed

lemma decode_header:
  "Q9TraceDecodeHeader (PutHeader t l c fl pid tick fine @ rest) =
     \<lparr>hType = t, hLen = l, hCode = c, hFlags = fl, hPid = pid, hTick = tick, hFineTime = fine\<rparr>"
  by (simp add: Q9TraceDecodeHeader_def PutHeader_def join16 join32)

text \<open>Every record carries its own length, which is what the ring buffer relies on.\<close>

lemma header_rec_ok: "n + 12 < 256 \<Longrightarrow> length rest = n \<Longrightarrow> rec_ok (PutHeader t (of_nat (12 + n)) c fl pid tick fine @ rest)"
  by (simp add: rec_ok_def PutHeader_def)

lemma lost_formatter: "rec_ok (Q9TraceLostRecordFormatter n)" "length (Q9TraceLostRecordFormatter n) = 16"
  unfolding Q9TraceLostRecordFormatter_def Q9TraceBuildLostRecord_def by (rule header_rec_ok) (simp_all add: PutHeader_def)

text \<open>C32: a trace record of a call or an internal function is at most 64 bytes long, carries its own length, and
  decoding its header gives back the type, code, process, tick and fine time it was built from, the depth modulo 16, the carry and
  whether the payload was cut; its payload is the given one up to 52 bytes.  The formatter of lost records meets the contract
  of the ring buffer with records of 16 bytes.\<close>

theorem trace_roundtrip:
  assumes "recType \<in> {Q9TRACE_REC_ENTRY, Q9TRACE_REC_RETURN, Q9TRACE_REC_INTERN_ENTRY, Q9TRACE_REC_INTERN_RETURN}"
    and "rec = Q9TraceBuildRecord recType code depth carry pid tick fineTime payload"
  shows "rec_ok rec \<and> length rec \<le> Q9TRACE_MAX_REC \<and> drop Q9TRACE_HDR_LEN rec = take 52 payload \<and>
    Q9TraceDecodeHeader rec = \<lparr>hType = recType, hLen = of_nat (length rec), hCode = code,
       hFlags = ucast (depth AND 0x0F) OR (if carry then 0x10 else 0) OR (if length payload > 52 then 0x20 else 0),
       hPid = pid, hTick = tick, hFineTime = fineTime\<rparr> \<and>
    marker_ok (rb\<lparr>lostFmt := Some Q9TraceLostRecordFormatter\<rparr>) 16"
proof (intro conjI)
  define k where "k = min 52 (length payload)"
  define fl where "fl = ucast (depth AND 0x0F) OR (if carry then 0x10 else 0) OR (if length payload > 52 then 0x20 else (0 :: u8))"
  have t: "take k payload = take 52 payload" "length (take k payload) = k" "k + 12 < 256" by (auto simp: k_def min_def)
  have r: "rec = PutHeader recType (of_nat (12 + k)) code fl pid tick fineTime @ take k payload"
    using assms by (auto simp: Q9TraceBuildRecord_def Let_def k_def fl_def or.assoc)
  have l: "length rec = 12 + k" unfolding r using t(2) by (simp add: PutHeader_def)
  show "rec_ok rec" unfolding r by (rule header_rec_ok [OF t(3,2)])
  show "length rec \<le> Q9TRACE_MAX_REC" unfolding l by (simp add: k_def)
  show "drop Q9TRACE_HDR_LEN rec = take 52 payload" unfolding r using t(1) by (simp add: PutHeader_def)
  show "Q9TraceDecodeHeader rec = \<lparr>hType = recType, hLen = of_nat (length rec), hCode = code,
       hFlags = ucast (depth AND 0x0F) OR (if carry then 0x10 else 0) OR (if length payload > 52 then 0x20 else 0),
       hPid = pid, hTick = tick, hFineTime = fineTime\<rparr>" unfolding l unfolding r decode_header fl_def ..
  show "marker_ok (rb\<lparr>lostFmt := Some Q9TraceLostRecordFormatter\<rparr>) 16" using lost_formatter by (simp add: marker_ok_def)
qed

lemma trace_roundtrip_witness: "hTick (Q9TraceDecodeHeader (Q9TraceBuildRecord 1 0x10 17 True 2 0x12345678 9 [1, 2, 3])) = 0x12345678"
  using trace_roundtrip [of 1 _ "0x10" 17 True 2 "0x12345678" 9 "[1, 2, 3]"] by simp

text \<open>Mask bits: setting and clearing one code changes the answer for that code only.\<close>

lemma bit_test: "w AND push_bit n 1 \<noteq> 0 \<longleftrightarrow> bit w n" if "n < 8" for w :: u8
  using that and_exp_eq_0_iff_not_bit [of w n] by (simp add: push_bit_eq_mult)

lemma code_split: "a < 256 \<Longrightarrow> a div 8 < (32 :: nat)" by simp

lemma mask_test:
  assumes "length ms = Q9TRACE_MASK_BYTES" "a < 256" "b < 256"
  shows "Q9TraceMaskTest (Q9TraceMaskSet ms a) b \<longleftrightarrow> b = a \<or> Q9TraceMaskTest ms b"
    "Q9TraceMaskTest (Q9TraceMaskClear ms a) b \<longleftrightarrow> b \<noteq> a \<and> Q9TraceMaskTest ms b"
proof -
  have l: "a div 8 < length ms" "b div 8 < length ms" using assms by simp_all
  have m: "a mod 8 < 8" "b mod 8 < 8" by simp_all
  have e: "a = b \<longleftrightarrow> a div 8 = b div 8 \<and> a mod 8 = b mod 8" by (metis div_mult_mod_eq)
  show "Q9TraceMaskTest (Q9TraceMaskSet ms a) b \<longleftrightarrow> b = a \<or> Q9TraceMaskTest ms b"
    unfolding Q9TraceMaskTest_def Q9TraceMaskSet_def bit_test [OF m(2)] using l m e
    by (cases "a div 8 = b div 8") (auto simp: bit_simps)
  show "Q9TraceMaskTest (Q9TraceMaskClear ms a) b \<longleftrightarrow> b \<noteq> a \<and> Q9TraceMaskTest ms b"
    unfolding Q9TraceMaskTest_def Q9TraceMaskClear_def bit_test [OF m(2)] using l m e
    by (cases "a div 8 = b div 8") (auto simp: bit_simps)
qed

end
