(* ===== verification/Q9_ExcTable.thy ===== *)
theory Q9_ExcTable
  imports Q9_Pool
begin

text \<open>
  Exception vectors and the interrupt polling table (\<^verbatim>\<open>q9kernel_exctable.c\<close>): the table of 256 handler addresses is
  built at start-up; F$IRQ enters and removes polled devices, F$FIRQ the single fast handler of a vector.  The handlers are
  routines of \<^verbatim>\<open>q9kernel_entry.a\<close>; their addresses are a parameter of the definitions.
\<close>

section \<open>Handlers and tables\<close>

record exc_handlers =
  Q9K_ExcTrap :: u32
  Q9K_TrapDispatch :: u32
  Q9K_TCallDispatch :: u32
  Q9K_TimerIRQHandler :: u32
  Q9K_IRQDispatch :: u32
  Q9K_TraceHandler :: u32

text \<open>The two arrays of F$FIRQ, indexed by vector.\<close>

record firq_tables =
  Q9K_FIRQHandlers :: "u32 list"
  Q9K_FIRQStatics :: "u32 list"

abbreviation Q9_D_EXCJMP :: u32 where "Q9_D_EXCJMP \<equiv> 0x068"
abbreviation Q9K_EXCTABLE_TOTAL :: u32 where "Q9K_EXCTABLE_TOTAL \<equiv> 256"
abbreviation Q9K_EXCTABLE_RESERVED :: u32 where "Q9K_EXCTABLE_RESERVED \<equiv> 2"
abbreviation Q9K_IRQTAB_BASE :: u32 where "Q9K_IRQTAB_BASE \<equiv> 0x1500"
abbreviation Q9K_IRQTAB_SLOTS :: nat where "Q9K_IRQTAB_SLOTS \<equiv> 12"
abbreviation Q9K_IRQTAB_ENTSZ :: u32 where "Q9K_IRQTAB_ENTSZ \<equiv> 20"
abbreviation Q9K_IRQ_OFF_VECTOR :: u32 where "Q9K_IRQ_OFF_VECTOR \<equiv> 0"
abbreviation Q9K_IRQ_OFF_PRIO :: u32 where "Q9K_IRQ_OFF_PRIO \<equiv> 4"
abbreviation Q9K_IRQ_OFF_ISR :: u32 where "Q9K_IRQ_OFF_ISR \<equiv> 8"
abbreviation Q9K_IRQ_OFF_STATIC :: u32 where "Q9K_IRQ_OFF_STATIC \<equiv> 12"
abbreviation Q9K_IRQ_OFF_PORT :: u32 where "Q9K_IRQ_OFF_PORT \<equiv> 16"
abbreviation Q9K_E_PARAM :: u16 where "Q9K_E_PARAM \<equiv> 0xE1"
abbreviation Q9K_E_POLL :: u16 where "Q9K_E_POLL \<equiv> 0xCA"

definition Q9K_ExcGroupCounts :: "nat list" where
  "Q9K_ExcGroupCounts = [2, 5, 1, 5, 1, 8, 1, 7, 1, 15, 7, 2, 7, 192]"

definition irq_slot :: "nat \<Rightarrow> u32" where
  "irq_slot i = Q9K_IRQTAB_BASE + of_nat i * Q9K_IRQTAB_ENTSZ"

definition put_vector :: "u32 \<Rightarrow> u32 \<Rightarrow> u32 \<Rightarrow> memory \<Rightarrow> memory" where
  "put_vector tableBase handler vector m = Q9K_SetU32 m (tableBase + vector * 4) handler"

section \<open>Start-up\<close>

text \<open>The two nested loops; \<^term>\<open>Inl m\<close> is the early return when the groups name more than 256 vectors.\<close>

fun fill_group :: "u32 \<Rightarrow> u32 \<Rightarrow> nat \<Rightarrow> u32 \<times> memory \<Rightarrow> memory + u32 \<times> memory" where
  "fill_group tableBase handler 0 (v, m) = Inr (v, m)"
| "fill_group tableBase handler (Suc n) (v, m) =
     (if v \<ge> Q9K_EXCTABLE_TOTAL then Inl m else fill_group tableBase handler n (v + 1, put_vector tableBase handler v m))"

fun fill_groups :: "u32 \<Rightarrow> u32 \<Rightarrow> nat list \<Rightarrow> u32 \<times> memory \<Rightarrow> memory + u32 \<times> memory" where
  "fill_groups tableBase handler [] vm = Inr vm"
| "fill_groups tableBase handler (n # ns) vm =
     (case fill_group tableBase handler n vm of Inl m \<Rightarrow> Inl m | Inr vm' \<Rightarrow> fill_groups tableBase handler ns vm')"

text \<open>The result is the return code, the memory and the value given to the vector base register, if any.\<close>

definition Q9K_BuildExcTable :: "exc_handlers \<Rightarrow> memory \<Rightarrow> u32 \<times> memory \<times> u32 option" where
  "Q9K_BuildExcTable H m =
     (let tableBase = Q9K_GetU32 m Q9_D_EXCJMP in
      case fill_groups tableBase (Q9K_ExcTrap H) Q9K_ExcGroupCounts (Q9K_EXCTABLE_RESERVED, m) of
        Inl m1 \<Rightarrow> (1, m1, None)
      | Inr (vectorIndex, m1) \<Rightarrow>
          if vectorIndex \<noteq> Q9K_EXCTABLE_TOTAL then (1, m1, None)
          else
            let m2 = put_vector tableBase (Q9K_TrapDispatch H) 32 m1;
                m3 = put_vector tableBase (Q9K_TraceHandler H) 9 m2;
                m4 = fold (put_vector tableBase (Q9K_TCallDispatch H)) (map of_nat [33..<48]) m3;
                m5 = put_vector tableBase (Q9K_TimerIRQHandler H) 30 m4
            in (0, m5, Some tableBase))"

section \<open>F$IRQ\<close>

definition Q9K_IRQHasVector :: "memory \<Rightarrow> u32 \<Rightarrow> bool" where
  "Q9K_IRQHasVector m vector \<longleftrightarrow> list_ex (\<lambda>i. Q9K_GetU32 m (irq_slot i + Q9K_IRQ_OFF_VECTOR) = vector) [0..<Q9K_IRQTAB_SLOTS]"

definition irq_any :: "memory \<Rightarrow> bool" where
  "irq_any m \<longleftrightarrow> list_ex (\<lambda>i. Q9K_GetU32 m (irq_slot i + Q9K_IRQ_OFF_VECTOR) \<noteq> 0) [0..<Q9K_IRQTAB_SLOTS]"

definition autovectors :: "u32 list" where
  "autovectors = [25, 26, 27, 28, 29, 31]"

definition irq_matches :: "memory \<Rightarrow> u32 \<Rightarrow> u32 \<Rightarrow> nat \<Rightarrow> bool" where
  "irq_matches m vector statics i \<longleftrightarrow> Q9K_GetU32 m (irq_slot i + Q9K_IRQ_OFF_VECTOR) = vector \<and>
     Q9K_GetU32 m (irq_slot i + Q9K_IRQ_OFF_STATIC) = statics"

definition irq_clear :: "memory \<Rightarrow> u32 \<Rightarrow> memory" where
  "irq_clear m slot =
     (let m1 = Q9K_SetU32 m (slot + Q9K_IRQ_OFF_VECTOR) 0;
          m2 = Q9K_SetU32 m1 (slot + Q9K_IRQ_OFF_ISR) 0;
          m3 = Q9K_SetU32 m2 (slot + Q9K_IRQ_OFF_PRIO) 0;
          m4 = Q9K_SetU32 m3 (slot + Q9K_IRQ_OFF_STATIC) 0
      in Q9K_SetU32 m4 (slot + Q9K_IRQ_OFF_PORT) 0)"

definition irq_remove :: "exc_handlers \<Rightarrow> memory \<Rightarrow> u32 \<Rightarrow> u32 \<Rightarrow> u16 option \<times> memory" where
  "irq_remove H m vector statics =
     (case List.find (irq_matches m vector statics) [0..<Q9K_IRQTAB_SLOTS] of
        None \<Rightarrow> (Some Q9K_E_PARAM, m)
      | Some i \<Rightarrow>
          (let m1 = irq_clear m (irq_slot i);
               tableBase = Q9K_GetU32 m1 Q9_D_EXCJMP;
               sameVector = Q9K_IRQHasVector m1 vector;
               m2 = (if \<not> sameVector \<and> tableBase \<noteq> 0 \<and> vector < Q9K_EXCTABLE_TOTAL
                     then put_vector tableBase (Q9K_ExcTrap H) vector m1 else m1);
               m3 = (if \<not> sameVector \<and> vector \<ge> 25 \<and> vector \<le> 31 \<and> \<not> irq_any m2 \<and> tableBase \<noteq> 0
                     then fold (put_vector tableBase (Q9K_ExcTrap H)) autovectors m2 else m2)
           in (None, m3)))"

text \<open>The slot a registration goes to: the first free one, unless an entry of the same vector and device is met.\<close>

fun irq_find_slot :: "memory \<Rightarrow> u32 \<Rightarrow> u32 \<Rightarrow> nat list \<Rightarrow> nat option \<Rightarrow> nat option" where
  "irq_find_slot m vector statics [] freeSlot = freeSlot"
| "irq_find_slot m vector statics (i # is) freeSlot =
     (if Q9K_GetU32 m (irq_slot i + Q9K_IRQ_OFF_VECTOR) = 0
      then irq_find_slot m vector statics is (if freeSlot = None then Some i else freeSlot)
      else if irq_matches m vector statics i then Some i
      else irq_find_slot m vector statics is freeSlot)"

definition irq_enter :: "memory \<Rightarrow> u32 \<Rightarrow> u32 \<Rightarrow> u32 \<Rightarrow> u32 \<Rightarrow> u32 \<Rightarrow> u32 \<Rightarrow> memory" where
  "irq_enter m slot vector prio isr statics port =
     (let m1 = Q9K_SetU32 m (slot + Q9K_IRQ_OFF_PRIO) prio;
          m2 = Q9K_SetU32 m1 (slot + Q9K_IRQ_OFF_ISR) isr;
          m3 = Q9K_SetU32 m2 (slot + Q9K_IRQ_OFF_STATIC) statics;
          m4 = Q9K_SetU32 m3 (slot + Q9K_IRQ_OFF_PORT) port
      in Q9K_SetU32 m4 (slot + Q9K_IRQ_OFF_VECTOR) vector)"

text \<open>\<^term>\<open>Some e\<close> is failure with error \<open>e\<close>.\<close>

definition Q9K_ProcIRQ :: "exc_handlers \<Rightarrow> memory \<Rightarrow> u32 \<Rightarrow> u32 \<Rightarrow> u32 \<Rightarrow> u32 \<Rightarrow> u32 \<Rightarrow> u16 option \<times> memory" where
  "Q9K_ProcIRQ H m vector prio isr statics port =
     (if isr = 0 then irq_remove H m vector statics
      else if vector < Q9K_EXCTABLE_RESERVED \<or> vector \<ge> Q9K_EXCTABLE_TOTAL \<or> vector = 30 then (Some Q9K_E_PARAM, m)
      else case irq_find_slot m vector statics [0..<Q9K_IRQTAB_SLOTS] None of
        None \<Rightarrow> (Some Q9K_E_POLL, m)
      | Some i \<Rightarrow>
          (let m1 = irq_enter m (irq_slot i) vector prio isr statics port;
               tableBase = Q9K_GetU32 m1 Q9_D_EXCJMP
           in (None, if tableBase \<noteq> 0
                     then fold (put_vector tableBase (Q9K_IRQDispatch H)) autovectors (put_vector tableBase (Q9K_IRQDispatch H) vector m1)
                     else m1)))"

definition Q9K_SysIRQImpl :: "exc_handlers \<Rightarrow> memory \<Rightarrow> memory" where
  "Q9K_SysIRQImpl H m =
     (let (r, m1) = Q9K_ProcIRQ H m (Q9K_GetU32 m 0x13C8) (Q9K_GetU32 m 0x13CC) (Q9K_GetU32 m 0x13D0) (Q9K_GetU32 m 0x13D4) (Q9K_GetU32 m 0x13D8)
      in Q9K_SetU32 (Q9K_SetU32 m1 0x13DC (case r of None \<Rightarrow> 0 | Some err \<Rightarrow> ucast err)) 0x13E0 (if r = None then 1 else 0))"

section \<open>F$FIRQ\<close>

definition Q9K_ProcFIRQ :: "exc_handlers \<Rightarrow> memory \<Rightarrow> firq_tables \<Rightarrow> u32 \<Rightarrow> u32 \<Rightarrow> u32 \<Rightarrow> u32 \<Rightarrow> u16 option \<times> memory \<times> firq_tables" where
  "Q9K_ProcFIRQ H m F vector reservedD1 isr statics =
     (if reservedD1 AND 0xFF \<noteq> 0 \<or> ((vector < 25 \<or> vector > 31) \<and> vector < 64) \<or> vector \<ge> Q9K_EXCTABLE_TOTAL \<or> vector = 30
      then (Some Q9K_E_PARAM, m, F)
      else
        let tableBase = Q9K_GetU32 m Q9_D_EXCJMP; v = unat vector in
        if isr = 0 then
          if Q9K_FIRQHandlers F ! v = 0 \<or> Q9K_FIRQStatics F ! v \<noteq> statics then (Some Q9K_E_PARAM, m, F)
          else
            (None,
             if tableBase \<noteq> 0
             then put_vector tableBase (if Q9K_IRQHasVector m vector then Q9K_IRQDispatch H else Q9K_ExcTrap H) vector m else m,
             F\<lparr>Q9K_FIRQHandlers := (Q9K_FIRQHandlers F)[v := 0], Q9K_FIRQStatics := (Q9K_FIRQStatics F)[v := 0]\<rparr>)
        else if Q9K_FIRQHandlers F ! v \<noteq> 0 then (Some 0xD4, m, F)
        else
          (None,
           if tableBase \<noteq> 0 then put_vector tableBase (Q9K_IRQDispatch H) vector m else m,
           F\<lparr>Q9K_FIRQHandlers := (Q9K_FIRQHandlers F)[v := isr], Q9K_FIRQStatics := (Q9K_FIRQStatics F)[v := statics]\<rparr>))"

definition Q9K_SysFFIRQImpl :: "exc_handlers \<Rightarrow> memory \<Rightarrow> firq_tables \<Rightarrow> memory \<times> firq_tables" where
  "Q9K_SysFFIRQImpl H m F =
     (let (r, m1, F1) = Q9K_ProcFIRQ H m F (Q9K_GetU32 m 0x1F20) (Q9K_GetU32 m 0x1F24) (Q9K_GetU32 m 0x1F28) (Q9K_GetU32 m 0x1F2C)
      in (Q9K_SetU32 (Q9K_SetU32 m1 0x1F30 (case r of None \<Rightarrow> 0 | Some err \<Rightarrow> ucast err)) 0x1F34 (if r = None then 1 else 0), F1))"

end
