(* ===== verification/Q9_ExcTable_Props.thy ===== *)
theory Q9_ExcTable_Props
  imports Q9_ExcTable
begin

text \<open>
  The vector table after start-up, the invariant that F$IRQ and F$FIRQ keep (the vector each polled device is
  registered on leads to the dispatcher, and so do the shared autovectors while a device is polled, except those given up by a removal
  since the last registration; the timer keeps its vector), and two removals that leave a registered handler unreachable.
\<close>

section \<open>Cells\<close>

text \<open>The vector table lies above the kernel globals.\<close>

abbreviation table_at :: "u32 \<Rightarrow> bool" where
  "table_at tb \<equiv> table_ok tb 4 256"

abbreviation vec :: "memory \<Rightarrow> nat \<Rightarrow> u32" where
  "vec m i \<equiv> Q9K_GetU32 m (irq_slot i)"

definition handler :: "memory \<Rightarrow> u32 \<Rightarrow> u32 \<Rightarrow> u32" where
  "handler m tb v = Q9K_GetU32 m (tb + v * 4)"

lemma vector_slot: "v < 256 \<Longrightarrow> tb + v * 4 = slot_at tb 4 (unat v) \<and> unat v < 256"
  by (simp add: slot_at_def word_less_nat_alt)

lemma vector_low:
  assumes "table_at tb" "v < 256" "unat g + unat w \<le> 0x8000"
  shows "apart (tb + v * 4) 4 g w" "apart g w (tb + v * 4) 4"
proof -
  note s = vector_slot [OF assms(2), of tb]
  have "0x8000 \<le> unat (tb + v * 4)" "unat (tb + v * 4) + 4 \<le> 2 ^ 32"
    using s slot_span [OF assms(1), of "unat v"] assms(1) by (auto simp: table_ok_def)
  then show "apart (tb + v * 4) 4 g w" using assms(3) by (intro apart_ranges) (auto simp: table_ok_def)
  then show "apart g w (tb + v * 4) 4" by (rule apart_sym)
qed

lemma vector_vector:
  assumes "table_at tb" "v < 256" "w < 256" "v \<noteq> w"
  shows "apart (tb + v * 4) 4 (tb + w * 4) 4"
proof -
  have "unat v \<noteq> unat w" using assms(4) by (simp add: word_unat_eq_iff)
  then show ?thesis using slots_apart_all [OF assms(1)] vector_slot [OF assms(2), of tb] vector_slot [OF assms(3), of tb] by metis
qed

lemma irq_cell:
  assumes "i < 12" "f \<le> 16"
  shows "unat (irq_slot i + f) = 0x1500 + i * 20 + unat f" "unat f \<le> 16"
proof -
  have "unat (of_nat i * 20 :: u32) = i * 20" using assms(1) unat_mult_lem [of "of_nat i :: u32" 20] unat_of_nat_u32 [of i] by simp
  then have "unat (irq_slot i) = 0x1500 + i * 20" using assms(1) unat_offset [of "0x1500" "of_nat i * 20"] by (simp add: irq_slot_def)
  moreover show "unat f \<le> 16" using assms(2) by (simp add: word_le_nat_alt)
  ultimately show "unat (irq_slot i + f) = 0x1500 + i * 20 + unat f" using assms(1) unat_offset [of "irq_slot i" f] by simp
qed

lemma irq_irq:
  assumes "i < 12" "j < 12" "i \<noteq> j" "f \<le> 16" "g \<le> 16"
  shows "apart (irq_slot i + f) 4 (irq_slot j + g) 4"
proof -
  have "i * 20 + 20 \<le> j * 20 \<or> j * 20 + 20 \<le> i * 20" using assms(3) by linarith
  then show ?thesis using irq_cell [OF assms(1,4)] irq_cell [OF assms(2,5)] assms(1,2) by (intro apart_ranges) auto
qed

lemma irq_excjmp: "i < 12 \<Longrightarrow> f \<le> 16 \<Longrightarrow> apart (irq_slot i + f) 4 Q9_D_EXCJMP 4"
  using irq_cell [of i f] by (intro apart_ranges) auto

lemma irq_vector:
  assumes "table_at tb" "v < 256" "i < 12" "f \<le> 16"
  shows "apart (irq_slot i + f) 4 (tb + v * 4) 4" "apart (tb + v * 4) 4 (irq_slot i + f) 4"
  using vector_low [OF assms(1,2), of "irq_slot i + f" 4] irq_cell [OF assms(3,4)] assms(3) by simp_all

section \<open>Effects of the single writes\<close>

lemma put_vector_reads:
  assumes "table_at tb" "v < 256"
  shows "w < 256 \<Longrightarrow> handler (put_vector tb h v m) tb w = (if w = v then h else handler m tb w)"
    "i < 12 \<Longrightarrow> vec (put_vector tb h v m) i = vec m i"
    "Q9K_GetU32 (put_vector tb h v m) Q9_D_EXCJMP = Q9K_GetU32 m Q9_D_EXCJMP"
proof -
  show "w < 256 \<Longrightarrow> handler (put_vector tb h v m) tb w = (if w = v then h else handler m tb w)"
    using vector_vector [OF assms, of w] by (auto simp: put_vector_def handler_def)
  show "i < 12 \<Longrightarrow> vec (put_vector tb h v m) i = vec m i"
    using irq_vector(2) [OF assms, of i 0] by (simp add: put_vector_def)
  show "Q9K_GetU32 (put_vector tb h v m) Q9_D_EXCJMP = Q9K_GetU32 m Q9_D_EXCJMP"
    using vector_low(1) [OF assms, of Q9_D_EXCJMP 4] by (simp add: put_vector_def)
qed

lemma put_vectors_reads:
  assumes "table_at tb" "\<forall>v\<in>set vs. v < 256"
  shows "w < 256 \<Longrightarrow> handler (fold (put_vector tb h) vs m) tb w = (if w \<in> set vs then h else handler m tb w)"
    "i < 12 \<Longrightarrow> vec (fold (put_vector tb h) vs m) i = vec m i"
    "Q9K_GetU32 (fold (put_vector tb h) vs m) Q9_D_EXCJMP = Q9K_GetU32 m Q9_D_EXCJMP"
proof -
  show "w < 256 \<Longrightarrow> handler (fold (put_vector tb h) vs m) tb w = (if w \<in> set vs then h else handler m tb w)"
    using assms(2) by (induction vs arbitrary: m) (auto simp: put_vector_reads [OF assms(1)])
  show "i < 12 \<Longrightarrow> vec (fold (put_vector tb h) vs m) i = vec m i"
    using assms(2) by (induction vs arbitrary: m) (auto simp: put_vector_reads [OF assms(1)])
  show "Q9K_GetU32 (fold (put_vector tb h) vs m) Q9_D_EXCJMP = Q9K_GetU32 m Q9_D_EXCJMP"
    using assms(2) by (induction vs arbitrary: m) (auto simp: put_vector_reads [OF assms(1)])
qed

lemma autovectors_ok: "\<forall>v\<in>set autovectors. v < 256" "30 \<notin> set autovectors" "0 \<notin> set autovectors"
  by (simp_all add: autovectors_def)

lemma irq_clear_reads:
  assumes "i < 12"
  shows "table_at tb \<Longrightarrow> w < 256 \<Longrightarrow> handler (irq_clear m (irq_slot i)) tb w = handler m tb w"
    "j < 12 \<Longrightarrow> vec (irq_clear m (irq_slot i)) j = (if j = i then 0 else vec m j)"
    "Q9K_GetU32 (irq_clear m (irq_slot i)) Q9_D_EXCJMP = Q9K_GetU32 m Q9_D_EXCJMP"
proof -
  show "table_at tb \<Longrightarrow> w < 256 \<Longrightarrow> handler (irq_clear m (irq_slot i)) tb w = handler m tb w"
    using irq_vector(1) [OF _ _ assms] irq_vector(1) [OF _ _ assms, of _ _ 0] by (simp add: irq_clear_def handler_def)
  show "j < 12 \<Longrightarrow> vec (irq_clear m (irq_slot i)) j = (if j = i then 0 else vec m j)"
    using irq_irq [OF assms, of j _ 0] irq_irq [OF assms, of j 0 0] by (auto simp: irq_clear_def)
  show "Q9K_GetU32 (irq_clear m (irq_slot i)) Q9_D_EXCJMP = Q9K_GetU32 m Q9_D_EXCJMP"
    using irq_excjmp [OF assms] irq_excjmp [OF assms, of 0] by (simp add: irq_clear_def)
qed

lemma irq_enter_reads:
  assumes "i < 12"
  shows "table_at tb \<Longrightarrow> w < 256 \<Longrightarrow> handler (irq_enter m (irq_slot i) v p r s t) tb w = handler m tb w"
    "j < 12 \<Longrightarrow> vec (irq_enter m (irq_slot i) v p r s t) j = (if j = i then v else vec m j)"
    "Q9K_GetU32 (irq_enter m (irq_slot i) v p r s t) Q9_D_EXCJMP = Q9K_GetU32 m Q9_D_EXCJMP"
proof -
  show "table_at tb \<Longrightarrow> w < 256 \<Longrightarrow> handler (irq_enter m (irq_slot i) v p r s t) tb w = handler m tb w"
    using irq_vector(1) [OF _ _ assms] irq_vector(1) [OF _ _ assms, of _ _ 0] by (simp add: irq_enter_def handler_def)
  show "j < 12 \<Longrightarrow> vec (irq_enter m (irq_slot i) v p r s t) j = (if j = i then v else vec m j)"
    using irq_irq [OF assms, of j _ 0] irq_irq [OF assms, of j 0 0] by (auto simp: irq_enter_def)
  show "Q9K_GetU32 (irq_enter m (irq_slot i) v p r s t) Q9_D_EXCJMP = Q9K_GetU32 m Q9_D_EXCJMP"
    using irq_excjmp [OF assms] irq_excjmp [OF assms, of 0] by (simp add: irq_enter_def)
qed

section \<open>Start-up\<close>

lemma fill_group_spec:
  assumes "table_at tb" "unat v + n \<le> 256"
  shows "fill_group tb h n (v, m) = Inr (v + of_nat n, fold (put_vector tb h) (map (\<lambda>k. v + of_nat k) [0..<n]) m)"
  using assms(2)
proof (induction n arbitrary: v m)
  case (Suc n)
  have v: "\<not> v \<ge> Q9K_EXCTABLE_TOTAL" "unat (v + 1) = unat v + 1"
    using Suc.prems unat_offset [of v 1] by (simp_all add: not_le word_less_nat_alt)
  have "map (\<lambda>k. v + of_nat k) [0..<Suc n] = v # map (\<lambda>k. v + 1 + of_nat k) [0..<n]"
    by (simp add: upt_conv_Cons map_Suc_upt [symmetric] comp_def add.assoc del: upt_Suc map_Suc_upt)
  then show ?case using v Suc.IH [of "v + 1"] Suc.prems by (simp add: add.assoc del: upt_Suc)
qed simp

lemma fill_group_effect:
  assumes "table_at tb" "unat v + n \<le> 256"
  obtains m' where "fill_group tb h n (v, m) = Inr (v + of_nat n, m')"
    "\<And>w. w < 256 \<Longrightarrow> handler m' tb w = (if unat v \<le> unat w \<and> unat w < unat v + n then h else handler m tb w)"
    "\<And>i. i < 12 \<Longrightarrow> vec m' i = vec m i" "Q9K_GetU32 m' Q9_D_EXCJMP = Q9K_GetU32 m Q9_D_EXCJMP"
proof -
  let ?vs = "map (\<lambda>k. v + of_nat k) [0..<n]"
  have u: "unat (v + of_nat k) = unat v + k" if "k < n" for k
    using that assms(2) unat_of_nat_u32 [of k] unat_offset [of v "of_nat k"] by simp
  have l: "\<forall>x\<in>set ?vs. x < 256" using u assms(2) by (auto simp: word_less_nat_alt)
  have "w \<in> set ?vs \<longleftrightarrow> unat v \<le> unat w \<and> unat w < unat v + n" for w
  proof
    show "w \<in> set ?vs \<Longrightarrow> unat v \<le> unat w \<and> unat w < unat v + n" using u by auto
    assume w: "unat v \<le> unat w \<and> unat w < unat v + n"
    then have "w = v + of_nat (unat w - unat v)" using u [of "unat w - unat v"] by (simp add: word_unat_eq_iff)
    then show "w \<in> set ?vs" using w by (auto intro!: image_eqI [of _ _ "unat w - unat v"])
  qed
  then show thesis using that [OF fill_group_spec [OF assms]] put_vectors_reads [OF assms(1) l] by simp
qed

lemma fill_groups_effect:
  assumes "table_at tb" "unat v + sum_list ns \<le> 256"
  shows "\<exists>m'. fill_groups tb h ns (v, m) = Inr (v + of_nat (sum_list ns), m') \<and>
    (\<forall>w<256. handler m' tb w = (if unat v \<le> unat w \<and> unat w < unat v + sum_list ns then h else handler m tb w)) \<and>
    (\<forall>i<12. vec m' i = vec m i) \<and> Q9K_GetU32 m' Q9_D_EXCJMP = Q9K_GetU32 m Q9_D_EXCJMP"
  using assms(2)
proof (induction ns arbitrary: v m)
  case (Cons n ns)
  have le: "unat v + n \<le> 256" using Cons.prems by simp
  obtain m1 where m1: "fill_group tb h n (v, m) = Inr (v + of_nat n, m1)"
      "\<And>w. w < 256 \<Longrightarrow> handler m1 tb w = (if unat v \<le> unat w \<and> unat w < unat v + n then h else handler m tb w)"
      "\<And>i. i < 12 \<Longrightarrow> vec m1 i = vec m i" "Q9K_GetU32 m1 Q9_D_EXCJMP = Q9K_GetU32 m Q9_D_EXCJMP"
    by (rule fill_group_effect [OF assms(1) le, of h m]) blast
  have u: "unat (v + of_nat n) = unat v + n" using Cons.prems unat_of_nat_u32 [of n] unat_offset [of v "of_nat n"] by simp
  obtain m2 where m2: "fill_groups tb h ns (v + of_nat n, m1) = Inr (v + of_nat n + of_nat (sum_list ns), m2)"
      "\<forall>w<256. handler m2 tb w = (if unat (v + of_nat n) \<le> unat w \<and> unat w < unat (v + of_nat n) + sum_list ns then h else handler m1 tb w)"
      "\<forall>i<12. vec m2 i = vec m1 i" "Q9K_GetU32 m2 Q9_D_EXCJMP = Q9K_GetU32 m1 Q9_D_EXCJMP"
    using Cons.IH [of "v + of_nat n" m1] Cons.prems u by auto
  show ?case using m1 m2 u by (auto simp: add.assoc)
qed (auto dest: leD)

lemma build_effect:
  assumes "Q9K_GetU32 m Q9_D_EXCJMP = tb" "table_at tb"
  shows "\<exists>m'. Q9K_BuildExcTable H m = (0, m', Some tb) \<and> (\<forall>v<256. handler m' tb v =
     (if v < 2 then handler m tb v
      else if v = 9 then Q9K_TraceHandler H
      else if v = 30 then Q9K_TimerIRQHandler H
      else if v = 32 then Q9K_TrapDispatch H
      else if 33 \<le> v \<and> v \<le> 47 then Q9K_TCallDispatch H
      else Q9K_ExcTrap H)) \<and> (\<forall>i<12. vec m' i = vec m i) \<and> Q9K_GetU32 m' Q9_D_EXCJMP = tb"
proof -
  have s: "sum_list Q9K_ExcGroupCounts = 254" by (simp add: Q9K_ExcGroupCounts_def)
  obtain m1 where m1: "fill_groups tb (Q9K_ExcTrap H) Q9K_ExcGroupCounts (2, m) = Inr (256, m1)"
      "\<forall>w<256. handler m1 tb w = (if 2 \<le> unat w \<and> unat w < 256 then Q9K_ExcTrap H else handler m tb w)"
      "\<forall>i<12. vec m1 i = vec m i" "Q9K_GetU32 m1 Q9_D_EXCJMP = Q9K_GetU32 m Q9_D_EXCJMP"
    using fill_groups_effect [OF assms(2), of 2 Q9K_ExcGroupCounts "Q9K_ExcTrap H" m] unfolding s by auto
  define vs where "vs = (map of_nat [33..<48] :: u32 list)"
  let ?m3 = "put_vector tb (Q9K_TraceHandler H) 9 (put_vector tb (Q9K_TrapDispatch H) 32 m1)"
  define m' where "m' = put_vector tb (Q9K_TimerIRQHandler H) 30 (fold (put_vector tb (Q9K_TCallDispatch H)) vs ?m3)"
  have e: "Q9K_BuildExcTable H m = (0, m', Some tb)" unfolding Q9K_BuildExcTable_def assms(1) Let_def m1(1) m'_def vs_def by simp
  have u: "unat (of_nat k :: u32) = k" if "k < 48" for k using that by (intro unat_of_nat_u32) simp
  have l: "\<forall>v\<in>set vs. v < 256" unfolding vs_def using u by (auto simp: word_less_nat_alt)
  have t: "v \<in> set vs \<longleftrightarrow> 33 \<le> v \<and> v \<le> 47" for v
  proof
    show "v \<in> set vs \<Longrightarrow> 33 \<le> v \<and> v \<le> 47" unfolding vs_def using u by (auto simp: word_le_nat_alt)
    assume "33 \<le> v \<and> v \<le> 47"
    then have "33 \<le> unat v" "unat v < 48" by (simp_all add: word_le_nat_alt)
    then show "v \<in> set vs" unfolding vs_def set_map set_upt by (intro image_eqI [of _ _ "unat v"]) simp_all
  qed
  have n: "(30 :: u32) < 256" "(9 :: u32) < 256" "(32 :: u32) < 256" by simp_all
  have h: "handler m' tb v = (if v = 30 then Q9K_TimerIRQHandler H else if 33 \<le> v \<and> v \<le> 47 then Q9K_TCallDispatch H
      else if v = 9 then Q9K_TraceHandler H else if v = 32 then Q9K_TrapDispatch H else handler m1 tb v)" if "v < 256" for v
    unfolding m'_def put_vector_reads(1) [OF assms(2) n(1) that] put_vectors_reads(1) [OF assms(2) l that]
      put_vector_reads(1) [OF assms(2) n(2) that] put_vector_reads(1) [OF assms(2) n(3) that] t ..
  have "handler m' tb v = (if v < 2 then handler m tb v else if v = 9 then Q9K_TraceHandler H else if v = 30 then Q9K_TimerIRQHandler H
      else if v = 32 then Q9K_TrapDispatch H else if 33 \<le> v \<and> v \<le> 47 then Q9K_TCallDispatch H else Q9K_ExcTrap H)" if "v < 256" for v
  proof -
    have "v < 2 \<longleftrightarrow> \<not> 2 \<le> unat v" "unat v < 256" using that by (auto simp: word_less_nat_alt)
    then have k: "handler m1 tb v = (if v < 2 then handler m tb v else Q9K_ExcTrap H)" using m1(2) that by simp
    have "v < 2 \<Longrightarrow> v \<noteq> 9 \<and> v \<noteq> 30 \<and> v \<noteq> 32 \<and> \<not> 33 \<le> v" by unat_arith
    then show ?thesis unfolding h [OF that] k by auto
  qed
  moreover have "vec m' i = vec m i" if "i < 12" for i
    unfolding m'_def using m1(3) that put_vector_reads(2) [OF assms(2) n(1) that] put_vectors_reads(2) [OF assms(2) l that]
      put_vector_reads(2) [OF assms(2) n(2) that] put_vector_reads(2) [OF assms(2) n(3) that] by simp
  moreover have "Q9K_GetU32 m' Q9_D_EXCJMP = tb"
    unfolding m'_def using m1(4) assms(1) put_vector_reads(3) [OF assms(2) n(1)] put_vectors_reads(3) [OF assms(2) l]
      put_vector_reads(3) [OF assms(2) n(2)] put_vector_reads(3) [OF assms(2) n(3)] by simp
  ultimately show ?thesis using e by blast
qed

text \<open>Building the vector table succeeds and gives its address to the vector base register; the two
  reset vectors keep their contents, trace, timer, service calls and the fifteen trap libraries have their own handlers and every
  other vector has the common one.\<close>

theorem exc_table_built:
  assumes "Q9K_GetU32 m Q9_D_EXCJMP = tb" "table_at tb"
  shows "\<exists>m'. Q9K_BuildExcTable H m = (0, m', Some tb) \<and> (\<forall>v<256. handler m' tb v =
     (if v < 2 then handler m tb v
      else if v = 9 then Q9K_TraceHandler H
      else if v = 30 then Q9K_TimerIRQHandler H
      else if v = 32 then Q9K_TrapDispatch H
      else if 33 \<le> v \<and> v \<le> 47 then Q9K_TCallDispatch H
      else Q9K_ExcTrap H))"
  using build_effect [OF assms] by blast

lemma exc_table_built_witness:
  "\<exists>m'. Q9K_BuildExcTable \<lparr>Q9K_ExcTrap = 1, Q9K_TrapDispatch = 2, Q9K_TCallDispatch = 3, Q9K_TimerIRQHandler = 4, Q9K_IRQDispatch = 5,
     Q9K_TraceHandler = 6\<rparr> (Q9K_SetU32 (\<lambda>_. 0) Q9_D_EXCJMP 0x10000) = (0, m', Some 0x10000) \<and> handler m' 0x10000 32 = 2"
proof -
  have "table_at 0x10000" by (simp add: table_ok_def)
  note b = exc_table_built [OF GetU32_SetU32 this, where H = "\<lparr>Q9K_ExcTrap = 1, Q9K_TrapDispatch = 2, Q9K_TCallDispatch = 3,
      Q9K_TimerIRQHandler = 4, Q9K_IRQDispatch = 5, Q9K_TraceHandler = 6\<rparr>" and m1 = "\<lambda>_. 0"]
  have "(32 :: u32) < 256" by simp
  then show ?thesis using b by fastforce
qed


section \<open>The invariant of F$IRQ and F$FIRQ\<close>

definition irq_ok :: "exc_handlers \<Rightarrow> u32 \<Rightarrow> memory \<Rightarrow> bool" where
  "irq_ok H tb m \<longleftrightarrow> table_at tb \<and> Q9K_GetU32 m Q9_D_EXCJMP = tb \<and> handler m tb 30 = Q9K_TimerIRQHandler H \<and>
     (\<forall>i<12. vec m i \<noteq> 0 \<longrightarrow> vec m i < 256 \<and> vec m i \<noteq> 30 \<and> handler m tb (vec m i) = Q9K_IRQDispatch H)"

lemma irq_okD:
  assumes "irq_ok H tb m"
  shows "table_at tb" "Q9K_GetU32 m Q9_D_EXCJMP = tb" "handler m tb 30 = Q9K_TimerIRQHandler H" "tb \<noteq> 0"
    "i < 12 \<Longrightarrow> vec m i \<noteq> 0 \<Longrightarrow> vec m i < 256 \<and> vec m i \<noteq> 30 \<and> handler m tb (vec m i) = Q9K_IRQDispatch H"
  using assms by (auto simp: irq_ok_def table_ok_def)

lemma has_vector_iff: "Q9K_IRQHasVector m v \<longleftrightarrow> (\<exists>i<12. vec m i = v)" "irq_any m \<longleftrightarrow> (\<exists>i<12. vec m i \<noteq> 0)"
  by (auto simp: Q9K_IRQHasVector_def irq_any_def list_ex_iff)

text \<open>Dispatching more vectors, or taking the dispatcher away from vectors that no device uses, keeps the invariant.\<close>

lemma irq_ok_put:
  assumes "irq_ok H tb m" "v < 256" "v \<noteq> 30" "h = Q9K_IRQDispatch H \<or> \<not> (\<exists>i<12. vec m i = v) \<or> v = 0"
  shows "irq_ok H tb (put_vector tb h v m)"
proof -
  note o = irq_okD [OF assms(1)]
  note r = put_vector_reads [OF o(1) assms(2)]
  have "handler (put_vector tb h v m) tb (vec m i) = Q9K_IRQDispatch H" if "i < 12" "vec m i \<noteq> 0" for i
    using o(5) [OF that] assms(4) r(1) [of "vec m i"] that by auto
  then show ?thesis unfolding irq_ok_def using o r assms(2,3) by auto
qed

lemma irq_ok_puts:
  assumes "irq_ok H tb m" "\<forall>v\<in>set vs. v < 256" "30 \<notin> set vs" "h = Q9K_IRQDispatch H \<or> (\<forall>v\<in>set vs. \<not> (\<exists>i<12. vec m i = v))"
  shows "irq_ok H tb (fold (put_vector tb h) vs m)"
  using assms
proof (induction vs arbitrary: m)
  case (Cons v vs)
  then have v: "v < 256" "v \<noteq> 30" by auto
  have "irq_ok H tb (put_vector tb h v m)" using Cons.prems v by (intro irq_ok_put) auto
  moreover have "vec (put_vector tb h v m) i = vec m i" if "i < 12" for i
    using put_vector_reads(2) [OF irq_okD(1) [OF Cons.prems(1)] v(1) that] .
  ultimately show ?case using Cons.IH [of "put_vector tb h v m"] Cons.prems by auto
qed simp

lemma irq_ok_clear:
  assumes "irq_ok H tb m" "i < 12"
  shows "irq_ok H tb (irq_clear m (irq_slot i))"
proof -
  note o = irq_okD [OF assms(1)]
  note r = irq_clear_reads [OF assms(2)]
  show ?thesis unfolding irq_ok_def using o r(3) r(1) [OF o(1)] r(2) by auto
qed

lemma irq_find_slot_in: "irq_find_slot m v s is fr = Some i \<Longrightarrow> i \<in> set is \<or> fr = Some i"
  by (induction "is" arbitrary: fr) (auto split: if_splits)

lemma irq_remove_ok:
  assumes "irq_ok H tb m" "irq_remove H m v s = (r, m')"
  shows "irq_ok H tb m'"
proof (cases "List.find (irq_matches m v s) [0..<Q9K_IRQTAB_SLOTS]")
  case None
  then show ?thesis using assms by (simp add: irq_remove_def)
next
  case (Some i)
  have i: "i < 12" "vec m i = v" using Some by (auto simp: find_Some_iff irq_matches_def)
  note o = irq_okD [OF assms(1)]
  let ?m1 = "irq_clear m (irq_slot i)"
  have k: "irq_ok H tb ?m1" by (rule irq_ok_clear [OF assms(1) i(1)])
  define m2 where "m2 = (if \<not> Q9K_IRQHasVector ?m1 v \<and> v < 256 then put_vector tb (Q9K_ExcTrap H) v ?m1 else ?m1)"
  have v30: "v \<noteq> 30" using o(5) [OF i(1)] i(2) by auto
  have k2: "irq_ok H tb m2" unfolding m2_def has_vector_iff using irq_ok_put [OF k _ v30] k by auto
  have e: "m' = (if \<not> Q9K_IRQHasVector ?m1 v \<and> v \<ge> 25 \<and> v \<le> 31 \<and> \<not> irq_any m2 then fold (put_vector tb (Q9K_ExcTrap H)) autovectors m2 else m2)"
    using assms(2) irq_okD(2) [OF k] o(4) unfolding irq_remove_def Some option.case Let_def m2_def by (auto split: if_splits)
  show ?thesis
  proof (cases "irq_any m2")
    case True
    then show ?thesis using e k2 by auto
  next
    case False
    then have "\<forall>v\<in>set autovectors. \<not> (\<exists>j<12. vec m2 j = v)" unfolding has_vector_iff using autovectors_ok(3) by force
    then show ?thesis using e k2 irq_ok_puts [OF k2 autovectors_ok(1,2)] by auto
  qed
qed

lemma irq_proc_ok:
  assumes "irq_ok H tb m" "Q9K_ProcIRQ H m v p isr s t = (r, m')"
  shows "irq_ok H tb m'"
proof (cases "isr = 0 \<or> v < 2 \<or> v \<ge> 256 \<or> v = 30")
  case True
  then show ?thesis using assms irq_remove_ok [OF assms(1)] by (auto simp: Q9K_ProcIRQ_def split: if_splits)
next
  case False
  then have v: "v < 256" "v \<noteq> 30" by auto
  show ?thesis
  proof (cases "irq_find_slot m v s [0..<Q9K_IRQTAB_SLOTS] None")
    case None
    then show ?thesis using assms False by (simp add: Q9K_ProcIRQ_def)
  next
    case (Some i)
    have i: "i < 12" using irq_find_slot_in [OF Some] by auto
    note o = irq_okD [OF assms(1)]
    let ?m1 = "irq_enter m (irq_slot i) v p isr s t"
    note r = irq_enter_reads [OF i]
    let ?m2 = "put_vector tb (Q9K_IRQDispatch H) v ?m1"
    note w = put_vector_reads [OF o(1) v(1)]
    have h: "handler ?m2 tb x = (if x = v then Q9K_IRQDispatch H else handler m tb x)" if "x < 256" for x
      using w(1) [OF that, of "Q9K_IRQDispatch H" ?m1] r(1) [OF o(1) that] by simp
    have q: "vec ?m2 j = (if j = i then v else vec m j)" if "j < 12" for j using w(2) [OF that] r(2) [OF that] by simp
    have "irq_ok H tb ?m2" unfolding irq_ok_def using o h q w(3) r(3) v by auto
    then have "irq_ok H tb (fold (put_vector tb (Q9K_IRQDispatch H)) autovectors ?m2)" by (rule irq_ok_puts [OF _ autovectors_ok(1,2)]) simp
    then show ?thesis using assms(2) False Some o(2,4) r(3) by (auto simp: Q9K_ProcIRQ_def Let_def split: if_splits)
  qed
qed

lemma firq_proc_ok:
  assumes "irq_ok H tb m" "Q9K_ProcFIRQ H m F v d isr s = (r, m', F')"
  shows "irq_ok H tb m'"
proof (cases "m' = m")
  case False
  then have v: "v < 256" "v \<noteq> 30" using assms(2) by (auto simp: Q9K_ProcFIRQ_def Let_def not_le split: if_splits)
  have "m' = put_vector tb (Q9K_IRQDispatch H) v m \<or> m' = put_vector tb (if Q9K_IRQHasVector m v then Q9K_IRQDispatch H else Q9K_ExcTrap H) v m"
    using False assms(2) irq_okD(2) [OF assms(1)] by (auto simp: Q9K_ProcFIRQ_def Let_def split: if_splits)
  then show ?thesis using irq_ok_put [OF assms(1) v] has_vector_iff(1) [of m v] by (auto split: if_splits)
qed (use assms in simp)

text \<open>Interrupts of a device also arrive on the shared autovectors, for which the dispatcher polls the whole table.  While a device
  is polled, each autovector leads to the dispatcher unless it is in \<open>A\<close>.\<close>

definition auto_ok :: "exc_handlers \<Rightarrow> u32 \<Rightarrow> memory \<Rightarrow> u32 set \<Rightarrow> bool" where
  "auto_ok H tb m A \<longleftrightarrow> irq_any m \<longrightarrow> (\<forall>a\<in>set autovectors. a \<notin> A \<longrightarrow> handler m tb a = Q9K_IRQDispatch H)"

lemma auto_ok_mono:
  assumes "auto_ok H tb m A" "irq_any m' \<Longrightarrow> irq_any m" "A \<subseteq> B"
    and "\<And>a. irq_any m' \<Longrightarrow> a \<in> set autovectors \<Longrightarrow> a \<notin> B \<Longrightarrow> handler m' tb a = handler m tb a \<or> handler m' tb a = Q9K_IRQDispatch H"
  shows "auto_ok H tb m' B"
  using assms unfolding auto_ok_def by (metis subsetD)

lemma irq_remove_auto:
  assumes "irq_ok H tb m" "auto_ok H tb m A" "irq_remove H m v s = (None, m')"
  shows "auto_ok H tb m' (insert v A)"
proof -
  obtain i where f: "List.find (irq_matches m v s) [0..<Q9K_IRQTAB_SLOTS] = Some i"
    using assms(3) by (cases "List.find (irq_matches m v s) [0..<Q9K_IRQTAB_SLOTS]") (auto simp: irq_remove_def)
  then have i: "i < 12" by (auto simp: find_Some_iff)
  note o = irq_okD [OF assms(1)]
  note c = irq_clear_reads [OF i]
  let ?m1 = "irq_clear m (irq_slot i)"
  define m2 where "m2 = (if \<not> Q9K_IRQHasVector ?m1 v \<and> v < 256 then put_vector tb (Q9K_ExcTrap H) v ?m1 else ?m1)"
  have e: "m' = m2 \<or> m' = fold (put_vector tb (Q9K_ExcTrap H)) autovectors m2 \<and> \<not> irq_any m2"
    using assms(3) c(3) o(2,4) unfolding irq_remove_def f option.case Let_def m2_def by (auto split: if_splits)
  note p = put_vector_reads [OF o(1)]
  note q = put_vectors_reads [OF o(1) autovectors_ok(1)]
  have v2: "vec m2 j = (if j = i then 0 else vec m j)" if "j < 12" for j using p(2) [of v j] c(2) [OF that] that by (cases "j = i") (auto simp: m2_def)
  have h2: "handler m2 tb a = handler m tb a" if "a < 256" "a \<noteq> v" for a using p(1) [of v a] c(1) [OF o(1)] that by (simp add: m2_def)
  have "irq_any m' \<longleftrightarrow> irq_any m2" using e q(2) unfolding has_vector_iff by auto
  then have "irq_any m' \<Longrightarrow> m' = m2 \<and> irq_any m" using e v2 unfolding has_vector_iff by (auto split: if_splits)
  then show ?thesis using auto_ok_mono [OF assms(2), of m' "insert v A"] h2 autovectors_ok(1) by blast
qed

lemma irq_register_auto:
  assumes "irq_ok H tb m" "Q9K_ProcIRQ H m v p isr s t = (None, m')" "isr \<noteq> 0"
  shows "auto_ok H tb m' {}"
proof -
  obtain i where i: "irq_find_slot m v s [0..<Q9K_IRQTAB_SLOTS] None = Some i" using assms(2,3) by (auto simp: Q9K_ProcIRQ_def split: if_splits option.splits)
  note o = irq_okD [OF assms(1)]
  have "i < 12" using irq_find_slot_in [OF i] by auto
  then have "Q9K_GetU32 (irq_enter m (irq_slot i) v p isr s t) Q9_D_EXCJMP = tb" using irq_enter_reads(3) o(2) by simp
  then have "m' = fold (put_vector tb (Q9K_IRQDispatch H)) autovectors (put_vector tb (Q9K_IRQDispatch H) v (irq_enter m (irq_slot i) v p isr s t))"
    using assms(2,3) i o(4) by (auto simp: Q9K_ProcIRQ_def Let_def split: if_splits)
  then show ?thesis using put_vectors_reads(1) [OF o(1) autovectors_ok(1)] autovectors_ok(1) by (simp add: auto_ok_def)
qed

lemma firq_auto:
  assumes "irq_ok H tb m" "auto_ok H tb m A" "Q9K_ProcFIRQ H m F v d isr s = (None, m', F')"
  shows "auto_ok H tb m' (if isr = 0 then insert v A else A - {v})"
proof -
  note o = irq_okD [OF assms(1)]
  have v: "v < 256" and e: "\<exists>h. m' = put_vector tb h v m \<and> (isr \<noteq> 0 \<longrightarrow> h = Q9K_IRQDispatch H)"
    using assms(3) o(2,4) by (auto simp: Q9K_ProcFIRQ_def Let_def not_le split: if_splits)
  then obtain h where h: "m' = put_vector tb h v m" "isr \<noteq> 0 \<longrightarrow> h = Q9K_IRQDispatch H" by blast
  note p = put_vector_reads [OF o(1) v]
  have "irq_any m' \<longleftrightarrow> irq_any m" using p(2) h(1) unfolding has_vector_iff by auto
  moreover have "handler m' tb a = (if a = v then h else handler m tb a)" if "a \<in> set autovectors" for a
    using p(1) [of a h m] h(1) that autovectors_ok(1) by simp
  ultimately show ?thesis using assms(2) h(2) by (auto simp: auto_ok_def)
qed

text \<open>The states after start-up with an empty polling table, under any sequence of registrations and removals.  The last component is
  the set of vectors that a polled device or a fast handler was removed from since the last registration of a polled device.\<close>

inductive irq_reach :: "exc_handlers \<Rightarrow> u32 \<Rightarrow> memory \<Rightarrow> firq_tables \<Rightarrow> u32 set \<Rightarrow> bool" for H tb where
  irq_start: "table_at tb \<Longrightarrow> Q9K_GetU32 m Q9_D_EXCJMP = tb \<Longrightarrow> \<forall>i<12. vec m i = 0 \<Longrightarrow> Q9K_BuildExcTable H m = (0, m', x) \<Longrightarrow> irq_reach H tb m' F {}"
| irq_register: "irq_reach H tb m F A \<Longrightarrow> isr \<noteq> 0 \<Longrightarrow> Q9K_ProcIRQ H m v p isr s t = (None, m') \<Longrightarrow> irq_reach H tb m' F {}"
| irq_removal: "irq_reach H tb m F A \<Longrightarrow> Q9K_ProcIRQ H m v p 0 s t = (None, m') \<Longrightarrow> irq_reach H tb m' F (insert v A)"
| irq_refused: "irq_reach H tb m F A \<Longrightarrow> Q9K_ProcIRQ H m v p isr s t = (Some e, m') \<Longrightarrow> irq_reach H tb m' F A"
| firq_register: "irq_reach H tb m F A \<Longrightarrow> isr \<noteq> 0 \<Longrightarrow> Q9K_ProcFIRQ H m F v d isr s = (None, m', F') \<Longrightarrow> irq_reach H tb m' F' (A - {v})"
| firq_removal: "irq_reach H tb m F A \<Longrightarrow> Q9K_ProcFIRQ H m F v d 0 s = (None, m', F') \<Longrightarrow> irq_reach H tb m' F' (insert v A)"
| firq_refused: "irq_reach H tb m F A \<Longrightarrow> Q9K_ProcFIRQ H m F v d isr s = (Some e, m', F') \<Longrightarrow> irq_reach H tb m' F' A"

lemma refused_same:
  "Q9K_ProcIRQ H m v p isr s t = (Some e, m') \<Longrightarrow> m' = m" "Q9K_ProcFIRQ H m F v d isr s = (Some e, m', F') \<Longrightarrow> m' = m"
  by (auto simp: Q9K_ProcIRQ_def Q9K_ProcFIRQ_def irq_remove_def Let_def split: if_splits option.splits)

lemma irq_start_ok:
  assumes "table_at tb" "Q9K_GetU32 m Q9_D_EXCJMP = tb" "\<forall>i<12. vec m i = 0" "Q9K_BuildExcTable H m = (0, m', x)"
  shows "irq_ok H tb m' \<and> auto_ok H tb m' {}"
proof -
  obtain n where n: "Q9K_BuildExcTable H m = (0, n, Some tb)" "\<forall>v<256. handler n tb v =
     (if v < 2 then handler m tb v else if v = 9 then Q9K_TraceHandler H else if v = 30 then Q9K_TimerIRQHandler H
      else if v = 32 then Q9K_TrapDispatch H else if 33 \<le> v \<and> v \<le> 47 then Q9K_TCallDispatch H else Q9K_ExcTrap H)"
      "\<forall>i<12. vec n i = vec m i" "Q9K_GetU32 n Q9_D_EXCJMP = tb" using build_effect [OF assms(2,1)] by blast
  have "(30 :: u32) < 256" by simp
  then have "handler n tb 30 = Q9K_TimerIRQHandler H" using n(2) by fastforce
  then show ?thesis using n assms by (auto simp: irq_ok_def auto_ok_def has_vector_iff)
qed

lemma irq_reach_ok: "irq_reach H tb m F A \<Longrightarrow> irq_ok H tb m \<and> auto_ok H tb m A"
proof (induction rule: irq_reach.induct)
  case (irq_removal m F A v p s t m')
  moreover from this have "irq_remove H m v s = (None, m')" by (simp add: Q9K_ProcIRQ_def)
  ultimately show ?case using irq_proc_ok irq_remove_auto by blast
next
  case (firq_register m F A isr v d s m' F')
  then show ?case using firq_proc_ok [of H tb m F v d isr s] firq_auto [of H tb m A F v d isr s] by auto
next
  case (firq_removal m F A v d s m' F')
  then show ?case using firq_proc_ok [of H tb m F v d 0 s] firq_auto [of H tb m A F v d 0 s] by auto
qed (use irq_start_ok irq_proc_ok irq_register_auto in \<open>auto dest: refused_same\<close>)

text \<open>C17: whatever devices and fast handlers are registered and removed, in any order, the vector under which each
  device of the polling table is registered leads to the dispatcher, and the timer keeps its vector.  As long as any device is polled,
  the shared autovectors 25 to 29 and 31 lead to the dispatcher too, except those of which a device or a fast handler was removed since
  the last registration of a polled device.\<close>

theorem irq_dispatch_invariant:
  assumes "irq_reach H tb m F A"
  shows "(\<forall>i<Q9K_IRQTAB_SLOTS. \<forall>v. Q9K_GetU32 m (irq_slot i + Q9K_IRQ_OFF_VECTOR) = v \<longrightarrow> v \<noteq> 0 \<longrightarrow> v < 256 \<and> v \<noteq> 30 \<and> handler m tb v = Q9K_IRQDispatch H) \<and>
    handler m tb 30 = Q9K_TimerIRQHandler H \<and>
    ((\<exists>i<Q9K_IRQTAB_SLOTS. Q9K_GetU32 m (irq_slot i + Q9K_IRQ_OFF_VECTOR) \<noteq> 0) \<longrightarrow>
     (\<forall>a\<in>{25, 26, 27, 28, 29, 31} - A. handler m tb a = Q9K_IRQDispatch H))"
proof -
  have k: "irq_ok H tb m" "auto_ok H tb m A" using irq_reach_ok [OF assms] by auto
  have "(\<exists>i<12. vec m i \<noteq> 0) \<longrightarrow> (\<forall>a\<in>{25, 26, 27, 28, 29, 31} - A. handler m tb a = Q9K_IRQDispatch H)"
    using k(2) unfolding auto_ok_def has_vector_iff autovectors_def by auto
  then show ?thesis using irq_okD(3,5) [OF k(1)] by simp
qed

section \<open>Removing the last device of a vector\<close>

lemma remove_last:
  assumes "table_at tb" "Q9K_GetU32 m Q9_D_EXCJMP = tb" "i < 12" "\<And>j. j < 12 \<Longrightarrow> vec m j = v \<longleftrightarrow> j = i" "v \<noteq> 0" "v < 256"
    and "Q9K_GetU32 m (irq_slot i + Q9K_IRQ_OFF_STATIC) = s"
  obtains m' where "irq_remove H m v s = (None, m')" "handler m' tb v = Q9K_ExcTrap H" "\<And>j. j < 12 \<Longrightarrow> j \<noteq> i \<Longrightarrow> vec m' j = vec m j"
proof -
  have "List.find (irq_matches m v s) [0..<Q9K_IRQTAB_SLOTS] = Some i"
    unfolding find_Some_iff using assms(3,4,7) by (intro exI [of _ i]) (auto simp: irq_matches_def)
  note f = this
  let ?m1 = "irq_clear m (irq_slot i)"
  note c = irq_clear_reads [OF assms(3)]
  have b: "Q9K_GetU32 ?m1 Q9_D_EXCJMP = tb" "tb \<noteq> 0" using c(3) assms(1,2) by (auto simp: table_ok_def)
  have n: "\<not> Q9K_IRQHasVector ?m1 v" unfolding has_vector_iff using c(2) assms(4,5) by auto
  let ?m2 = "put_vector tb (Q9K_ExcTrap H) v ?m1"
  note r = put_vector_reads [OF assms(1,6)]
  define m' where "m' = (if v \<ge> 25 \<and> v \<le> 31 \<and> \<not> irq_any ?m2 then fold (put_vector tb (Q9K_ExcTrap H)) autovectors ?m2 else ?m2)"
  have e: "irq_remove H m v s = (None, m')" using b n assms(6) f by (simp add: irq_remove_def m'_def Let_def)
  have h: "handler m' tb v = Q9K_ExcTrap H"
    using r(1) [OF assms(6)] put_vectors_reads(1) [OF assms(1) autovectors_ok(1) assms(6)] by (simp add: m'_def)
  have "vec m' j = vec m j" if "j < 12" "j \<noteq> i" for j
    using that r(2) [OF that(1)] put_vectors_reads(2) [OF assms(1) autovectors_ok(1) that(1)] c(2) [OF that(1)] by (simp add: m'_def)
  then show thesis using that [OF e h] by blast
qed

text \<open>C39: a fast handler is registered on a vector that one polled device uses.  The vector leads to the dispatcher and
  the fast handler is in its table; but when the device is removed, the vector is given back to the common exception handler, and the
  fast handler, still in its table, is never reached again.  The other polled devices stay registered, also those that the removed vector
  delivered for because it is an autovector.\<close>

theorem irq_removal_unhooks:
  assumes "table_at tb" "Q9K_GetU32 m Q9_D_EXCJMP = tb" "i < 12" "\<And>j. j < 12 \<Longrightarrow> vec m j = v \<longleftrightarrow> j = i"
    and "Q9K_GetU32 m (irq_slot i + Q9K_IRQ_OFF_STATIC) = s" "length (Q9K_FIRQHandlers F) = 256"
    and "Q9K_ProcFIRQ H m F v d fast s' = (None, m1, F1)" "fast \<noteq> 0"
  shows "handler m1 tb v = Q9K_IRQDispatch H \<and> Q9K_FIRQHandlers F1 ! unat v = fast \<and>
    (\<exists>m'. Q9K_ProcIRQ H m1 v p 0 s t = (None, m') \<and> handler m' tb v = Q9K_ExcTrap H \<and> (\<forall>j<12. j \<noteq> i \<longrightarrow> vec m' j = vec m j))"
proof (intro conjI)
  have v: "v < 256" "v \<noteq> 0" and m1: "m1 = put_vector tb (Q9K_IRQDispatch H) v m" "F1 = F\<lparr>Q9K_FIRQHandlers := (Q9K_FIRQHandlers F)[unat v := fast], Q9K_FIRQStatics := (Q9K_FIRQStatics F)[unat v := s']\<rparr>"
    using assms(1,2,7,8) by (auto simp: Q9K_ProcFIRQ_def Let_def table_ok_def split: if_splits)
  have u: "unat v < 256" using v(1) by (simp add: word_less_nat_alt)
  note r = put_vector_reads [OF assms(1) v(1)]
  show "handler m1 tb v = Q9K_IRQDispatch H" using r(1) [OF v(1)] m1 by simp
  show "Q9K_FIRQHandlers F1 ! unat v = fast" using m1 u assms(6) by simp
  have q: "vec m1 j = vec m j" if "j < 12" for j using r(2) [OF that] m1 by simp
  have "Q9K_GetU32 m1 (irq_slot i + Q9K_IRQ_OFF_STATIC) = s"
    using irq_vector(2) [OF assms(1) v(1) assms(3), of Q9K_IRQ_OFF_STATIC] assms(5) m1 by (simp add: put_vector_def)
  then obtain m' where "irq_remove H m1 v s = (None, m')" "handler m' tb v = Q9K_ExcTrap H" "\<And>j. j < 12 \<Longrightarrow> j \<noteq> i \<Longrightarrow> vec m' j = vec m1 j"
    using remove_last [OF assms(1) _ assms(3) _ v(2,1), of m1 s H] r(3) m1 assms(2,4) q by auto
  then show "\<exists>m'. Q9K_ProcIRQ H m1 v p 0 s t = (None, m') \<and> handler m' tb v = Q9K_ExcTrap H \<and> (\<forall>j<12. j \<noteq> i \<longrightarrow> vec m' j = vec m j)"
    using q by (auto simp: Q9K_ProcIRQ_def)
qed

definition ex_irq :: memory where
  "ex_irq = Q9K_SetU32 (Q9K_SetU32 (Q9K_SetU32 (\<lambda>_. 0) Q9_D_EXCJMP 0x10000) 0x1500 64) 0x150C 7"

abbreviation ex_handlers :: exc_handlers where
  "ex_handlers \<equiv> \<lparr>Q9K_ExcTrap = 1, Q9K_TrapDispatch = 2, Q9K_TCallDispatch = 3, Q9K_TimerIRQHandler = 4, Q9K_IRQDispatch = 5, Q9K_TraceHandler = 6\<rparr>"

lemma zero_cell32: "Q9K_GetU32 (\<lambda>_. 0) a = 0"
  by (simp add: Q9K_GetU32_def)

lemma irq_removal_unhooks_witness:
  "\<exists>m1 F1 m'. Q9K_ProcFIRQ ex_handlers ex_irq \<lparr>Q9K_FIRQHandlers = replicate 256 0, Q9K_FIRQStatics = replicate 256 0\<rparr> 64 0 9 9 = (None, m1, F1) \<and>
     Q9K_FIRQHandlers F1 ! 64 = 9 \<and> handler m1 0x10000 64 = 5 \<and> Q9K_ProcIRQ ex_handlers m1 64 0 0 7 0 = (None, m') \<and> handler m' 0x10000 64 = 1"
proof -
  let ?F = "\<lparr>Q9K_FIRQHandlers = replicate 256 0, Q9K_FIRQStatics = replicate 256 0\<rparr>"
  have t: "table_at 0x10000" by (simp add: table_ok_def)
  have c: "Q9K_GetU32 ex_irq Q9_D_EXCJMP = 0x10000" "Q9K_GetU32 ex_irq (irq_slot 0 + Q9K_IRQ_OFF_STATIC) = 7" by (simp_all add: ex_irq_def irq_slot_def)
  have "\<forall>j\<in>set [0..<12]. vec ex_irq j = 64 \<longleftrightarrow> j = 0" by (simp add: upt_rec ex_irq_def irq_slot_def zero_cell32)
  then have d: "vec ex_irq j = 64 \<longleftrightarrow> j = 0" if "j < 12" for j using that by simp
  obtain m1 F1 where f: "Q9K_ProcFIRQ ex_handlers ex_irq ?F 64 0 9 9 = (None, m1, F1)" by (simp add: Q9K_ProcFIRQ_def c)
  have l: "length (Q9K_FIRQHandlers ?F) = 256" by simp
  have z: "(0 :: nat) < 12" "(9 :: u32) \<noteq> 0" by simp_all
  obtain m' where "Q9K_ProcIRQ ex_handlers m1 64 0 0 7 0 = (None, m')" "handler m' 0x10000 64 = 1"
    using irq_removal_unhooks [OF t c(1) z(1) d c(2) l f z(2), where p = 0 and t = 0] by auto
  then show ?thesis using f irq_removal_unhooks [OF t c(1) z(1) d c(2) l f z(2)] by auto
qed

text \<open>Start-up, a device on vector 64, and a fast handler on the autovector 27, which is removed again.\<close>

lemma irq_dispatch_invariant_witness:
  "\<exists>m F. irq_reach ex_handlers 0x10000 m F {27} \<and> vec m 0 = 64 \<and> handler m 0x10000 64 = 5 \<and> handler m 0x10000 25 = 5 \<and> handler m 0x10000 30 = 4"
proof -
  let ?m = "Q9K_SetU32 (\<lambda>_. 0) Q9_D_EXCJMP 0x10000"
  let ?F = "\<lparr>Q9K_FIRQHandlers = replicate 256 0, Q9K_FIRQStatics = replicate 256 0\<rparr>"
  have t: "table_at 0x10000" by (simp add: table_ok_def)
  obtain m0 x where b: "Q9K_BuildExcTable ex_handlers ?m = (0, m0, x)" "\<forall>i<12. vec m0 i = vec ?m i"
    using build_effect [OF GetU32_SetU32 t, where H = ex_handlers and m1 = "\<lambda>_. 0"] by blast
  have "apart Q9_D_EXCJMP 4 (irq_slot i) 4" if "i < 12" for i using irq_excjmp [OF that, of 0] by (simp add: apart_sym)
  then have z: "\<forall>i<12. vec ?m i = 0" by (simp add: zero_cell32)
  have r0: "irq_reach ex_handlers 0x10000 m0 ?F {}" using irq_start [OF t GetU32_SetU32 z b(1)] .
  have "\<forall>i\<in>set [0..<12]. vec m0 i = 0" using z b(2) by simp
  then have "irq_find_slot m0 64 7 [0..<12] None = Some 0" by (simp add: upt_rec)
  moreover have l: "(0 :: nat) < 12" "(64 :: u32) < 256" "(27 :: u32) < 256" by simp_all
  ultimately obtain m1 where p: "Q9K_ProcIRQ ex_handlers m0 64 1 0x9000 7 0 = (None, m1)" "vec m1 0 = 64"
    using irq_okD(2) [OF conjunct1 [OF irq_reach_ok [OF r0]]] irq_enter_reads [OF l(1)] put_vector_reads(2) [OF t l(2,1)]
      put_vectors_reads(2) [OF t autovectors_ok(1) l(1)] by (simp add: Q9K_ProcIRQ_def Let_def)
  have r1: "irq_reach ex_handlers 0x10000 m1 ?F {}" using irq_register [OF r0 _ p(1)] by simp
  note e1 = irq_okD(2) [OF conjunct1 [OF irq_reach_ok [OF r1]]]
  let ?F2 = "\<lparr>Q9K_FIRQHandlers = (replicate 256 0)[27 := 9], Q9K_FIRQStatics = (replicate 256 0)[27 := 9]\<rparr>"
  obtain m2 where q: "Q9K_ProcFIRQ ex_handlers m1 ?F 27 0 9 9 = (None, m2, ?F2)" "vec m2 0 = 64"
    using e1 put_vector_reads(2) [OF t l(3,1)] p(2) by (simp add: Q9K_ProcFIRQ_def)
  have r2: "irq_reach ex_handlers 0x10000 m2 ?F2 ({} - {27})" using firq_register [OF r1 _ q(1)] by simp
  note e2 = irq_okD(2) [OF conjunct1 [OF irq_reach_ok [OF r2]]]
  obtain m3 F3 where s: "Q9K_ProcFIRQ ex_handlers m2 ?F2 27 0 0 9 = (None, m3, F3)" "vec m3 0 = 64"
    using e2 put_vector_reads(2) [OF t l(3,1)] q(2) by (simp add: Q9K_ProcFIRQ_def)
  have r3: "irq_reach ex_handlers 0x10000 m3 F3 {27}" using firq_removal [OF r2 s(1)] by simp
  note d = irq_dispatch_invariant [OF r3]
  have "handler m3 0x10000 64 = 5" using d s(2) l(1) by force
  with d r3 s(2) l(1) show ?thesis by (intro exI [of _ m3] exI [of _ F3]) auto
qed

end
