(* ===== verification/Q9_Ioman.thy ===== *)
theory Q9_Ioman
  imports Q9_Prelude
begin

text \<open>
  The I/O manager (\<^verbatim>\<open>qioman.c\<close>): a table of paths and a registry of backends by name prefix.  Every call into a backend
  may call the manager again before it returns, so a backend operation is a function on the manager and the
  state \<open>'w\<close> of the backends.  The backend tables are reached through pointers; \<open>deref\<close> gives the table
  a pointer leads to, \<^term>\<open>None\<close> for the null pointer.

  Pointers to the manager, to strings and to result cells are not null here: the functions refuse a null pointer before they do
  anything.  A manager without a path table has the empty list of paths.  Strings are lists of characters without their
  terminating zero.
\<close>

section \<open>Data\<close>

datatype Q9IOMAN_Status =
    Q9IOMAN_OK
  | Q9IOMAN_E_INVALID_ARGUMENT
  | Q9IOMAN_E_INVALID_PATH
  | Q9IOMAN_E_NO_PATH_SLOTS
  | Q9IOMAN_E_UNSUPPORTED_OPERATION
  | Q9IOMAN_E_NOT_FOUND
  | Q9IOMAN_E_REGISTRY_FULL
  | Q9IOMAN_E_BUSY
  | Q9IOMAN_E_WRONG_MODE

datatype Q9IOMAN_Operation =
    Q9IOMAN_OP_READ
  | Q9IOMAN_OP_WRITE
  | Q9IOMAN_OP_READ_LINE
  | Q9IOMAN_OP_WRITE_LINE
  | Q9IOMAN_OP_SEEK
  | Q9IOMAN_OP_GET_STATUS
  | Q9IOMAN_OP_SET_STATUS
  | Q9IOMAN_OP_MAKE_DIR
  | Q9IOMAN_OP_DELETE

datatype Q9IOMAN_PathState = Q9IOMAN_PATH_FREE | Q9IOMAN_PATH_OPEN | Q9IOMAN_PATH_OPENING | Q9IOMAN_PATH_CLOSING

record Q9IOMAN_Result =
  result_value :: u32
  transferred :: u32

record Q9IOMAN_Path =
  io_state :: Q9IOMAN_PathState
  backend_path :: u16
  access_mode :: u16
  active_operations :: u16
  path_backend :: u32
  backend_context :: u32
  route_prefix :: "string option"

text \<open>A registry entry is free or holds prefix, backend and context.\<close>

record Q9IOMAN_BackendRegistration =
  reg_prefix :: string
  reg_backend :: u32
  reg_context :: u32

record Q9IOMAN_Manager =
  io_paths :: "Q9IOMAN_Path list"
  backends :: "Q9IOMAN_BackendRegistration option list"

abbreviation Q9IOMAN_BACKEND_CAPACITY :: nat where "Q9IOMAN_BACKEND_CAPACITY \<equiv> 8"
abbreviation Q9IOMAN_ACCESS_READ :: u16 where "Q9IOMAN_ACCESS_READ \<equiv> 1"
abbreviation Q9IOMAN_ACCESS_WRITE :: u16 where "Q9IOMAN_ACCESS_WRITE \<equiv> 2"
abbreviation Q9IOMAN_ACCESS_MASK :: u16 where "Q9IOMAN_ACCESS_MASK \<equiv> 3"

type_synonym 'w ioman = "Q9IOMAN_Manager \<times> 'w"

record 'w Q9IOMAN_BackendOps =
  op_open :: "(u32 \<Rightarrow> string \<Rightarrow> u16 \<Rightarrow> 'w ioman \<Rightarrow> Q9IOMAN_Status \<times> u16 \<times> 'w ioman) option"
  op_operate :: "(u32 \<Rightarrow> u16 \<Rightarrow> Q9IOMAN_Operation \<Rightarrow> u32 \<Rightarrow> u32 \<Rightarrow> u32 \<Rightarrow> 'w ioman \<Rightarrow> Q9IOMAN_Status \<times> Q9IOMAN_Result \<times> 'w ioman) option"
  op_close :: "(u32 \<Rightarrow> u16 \<Rightarrow> 'w ioman \<Rightarrow> Q9IOMAN_Status \<times> 'w ioman) option"
  op_create :: "(u32 \<Rightarrow> string \<Rightarrow> u16 \<Rightarrow> 'w ioman \<Rightarrow> Q9IOMAN_Status \<times> u16 \<times> 'w ioman) option"
  op_name :: "(u32 \<Rightarrow> Q9IOMAN_Operation \<Rightarrow> string \<Rightarrow> 'w ioman \<Rightarrow> Q9IOMAN_Status \<times> Q9IOMAN_Result \<times> 'w ioman) option"

type_synonym 'w backend_table = "u32 \<Rightarrow> 'w Q9IOMAN_BackendOps option"

section \<open>Text\<close>

text \<open>Lengths saturate at 65535.\<close>

definition q9ioman_prefix_length :: "string \<Rightarrow> nat" where
  "q9ioman_prefix_length text0 = min (length text0) 65535"

text \<open>\<open>for (pos = 0; pos < n && a[pos] == b[pos]; ++pos)\<close> on strings of at least \<open>n\<close> characters.\<close>

fun common_length :: "string \<Rightarrow> string \<Rightarrow> nat" where
  "common_length (a # as) (b # bs) = (if a = b then Suc (common_length as bs) else 0)"
| "common_length _ _ = 0"

text \<open>The \<open>u16\<close> index of the comparison does not wrap: the strings have at most 65535 characters.\<close>

fun text_equal_from :: "string \<Rightarrow> string \<Rightarrow> bool" where
  "text_equal_from (l # ls) (r # rs) = (if l \<noteq> r then False else text_equal_from ls rs)"
| "text_equal_from ls rs = (ls = [] \<and> rs = [])"

definition q9ioman_text_equal :: "string option \<Rightarrow> string option \<Rightarrow> bool" where
  "q9ioman_text_equal left right =
     (case (left, right) of (Some l, Some r) \<Rightarrow> text_equal_from l r | _ \<Rightarrow> False)"

definition char_at :: "string \<Rightarrow> nat \<Rightarrow> char" where
  "char_at s n = (if n < length s then s ! n else CHR 0x00)"

section \<open>Registry\<close>

text \<open>The entry with the longest prefix that ends at a component of the name, and its length so far.\<close>

definition find_step :: "string \<Rightarrow> Q9IOMAN_BackendRegistration option \<Rightarrow> Q9IOMAN_BackendRegistration option \<times> nat \<Rightarrow> Q9IOMAN_BackendRegistration option \<times> nat" where
  "find_step name entry acc =
     (case entry of
        None \<Rightarrow> acc
      | Some e \<Rightarrow>
          (let n = q9ioman_prefix_length (reg_prefix e);
               path_length = q9ioman_prefix_length name;
               pos = common_length (take n (reg_prefix e)) (take path_length name)
           in if pos = n \<and> n \<le> path_length \<and> (char_at name n = CHR 0x00 \<or> char_at name n = CHR ''/'') \<and> n > snd acc
              then (Some e, n) else acc))"

definition q9ioman_find_backend :: "Q9IOMAN_Manager \<Rightarrow> string \<Rightarrow> Q9IOMAN_BackendRegistration option" where
  "q9ioman_find_backend M name =
     (if io_paths M = [] then None else fst (fold (find_step name) (backends M) (None, 0)))"

definition same_prefix :: "string \<Rightarrow> string \<Rightarrow> bool" where
  "same_prefix a b \<longleftrightarrow> q9ioman_prefix_length a = q9ioman_prefix_length b \<and>
     common_length (take (q9ioman_prefix_length b) a) (take (q9ioman_prefix_length b) b) = q9ioman_prefix_length b"

definition q9ioman_register_backend :: "'w backend_table \<Rightarrow> Q9IOMAN_Manager \<Rightarrow> string \<Rightarrow> u32 \<Rightarrow> u32 \<Rightarrow> Q9IOMAN_Status \<times> Q9IOMAN_Manager" where
  "q9ioman_register_backend deref M prefix backend context0 =
     (if io_paths M = [] \<or> q9ioman_prefix_length prefix = 0 then (Q9IOMAN_E_INVALID_ARGUMENT, M)
      else case deref backend of
        None \<Rightarrow> (Q9IOMAN_E_INVALID_ARGUMENT, M)
      | Some ops \<Rightarrow>
          if op_open ops = None \<or> op_close ops = None then (Q9IOMAN_E_INVALID_ARGUMENT, M)
          else if list_ex (\<lambda>e. case e of None \<Rightarrow> False | Some r \<Rightarrow> same_prefix (reg_prefix r) prefix) (backends M)
          then (Q9IOMAN_E_INVALID_ARGUMENT, M)
          else (case List.find (\<lambda>i. backends M ! i = None) [0..<length (backends M)] of
              None \<Rightarrow> (Q9IOMAN_E_REGISTRY_FULL, M)
            | Some i \<Rightarrow> (Q9IOMAN_OK, M\<lparr>backends := (backends M)[i := Some \<lparr>reg_prefix = prefix, reg_backend = backend, reg_context = context0\<rparr>]\<rparr>)))"

definition q9ioman_unregister_backend :: "Q9IOMAN_Manager \<Rightarrow> string \<Rightarrow> Q9IOMAN_Status \<times> Q9IOMAN_Manager" where
  "q9ioman_unregister_backend M prefix =
     (if io_paths M = [] \<or> q9ioman_prefix_length prefix = 0 then (Q9IOMAN_E_INVALID_ARGUMENT, M)
      else case List.find (\<lambda>i. case backends M ! i of None \<Rightarrow> False | Some r \<Rightarrow> same_prefix (reg_prefix r) prefix) [0..<length (backends M)] of
        None \<Rightarrow> (Q9IOMAN_E_NOT_FOUND, M)
      | Some i \<Rightarrow>
          if list_ex (\<lambda>p. io_state p \<noteq> Q9IOMAN_PATH_FREE \<and> q9ioman_text_equal (route_prefix p) (Some (reg_prefix (the (backends M ! i))))) (io_paths M)
          then (Q9IOMAN_E_BUSY, M)
          else (Q9IOMAN_OK, M\<lparr>backends := (backends M)[i := None]\<rparr>))"

definition free_path :: Q9IOMAN_Path where
  "free_path = \<lparr>io_state = Q9IOMAN_PATH_FREE, backend_path = 0, access_mode = 0, active_operations = 0, path_backend = 0,
     backend_context = 0, route_prefix = None\<rparr>"

definition q9ioman_init :: "u16 \<Rightarrow> Q9IOMAN_Manager \<Rightarrow> Q9IOMAN_Status \<times> Q9IOMAN_Manager" where
  "q9ioman_init capacity M =
     (if capacity = 0 then (Q9IOMAN_E_INVALID_ARGUMENT, M)
      else (Q9IOMAN_OK, \<lparr>io_paths = replicate (unat capacity) free_path, backends = replicate Q9IOMAN_BACKEND_CAPACITY None\<rparr>))"

section \<open>Paths\<close>

abbreviation put_path :: "nat \<Rightarrow> Q9IOMAN_Path \<Rightarrow> Q9IOMAN_Manager \<Rightarrow> Q9IOMAN_Manager" where
  "put_path i p M \<equiv> M\<lparr>io_paths := (io_paths M)[i := p]\<rparr>"

text \<open>The index of an open path.\<close>

definition q9ioman_find_path :: "Q9IOMAN_Manager \<Rightarrow> u16 \<Rightarrow> nat option" where
  "q9ioman_find_path M local_path =
     (if io_paths M = [] \<or> local_path = 0 then None
      else if unat local_path > length (io_paths M) then None
      else if io_state (io_paths M ! (unat local_path - 1)) \<noteq> Q9IOMAN_PATH_OPEN then None
      else Some (unat local_path - 1))"

text \<open>The path reserved before the backend is called, and what becomes of it when the call returns.\<close>

definition open_mode :: "u16 \<Rightarrow> u16" where
  "open_mode mode = (if mode = 0 then Q9IOMAN_ACCESS_READ OR Q9IOMAN_ACCESS_WRITE else mode AND Q9IOMAN_ACCESS_MASK)"

definition reserve_path :: "u32 \<Rightarrow> u32 \<Rightarrow> string option \<Rightarrow> u16 \<Rightarrow> nat \<Rightarrow> Q9IOMAN_Manager \<Rightarrow> Q9IOMAN_Manager" where
  "reserve_path backend context0 route mode i M =
     put_path i ((io_paths M ! i)\<lparr>io_state := Q9IOMAN_PATH_OPENING, access_mode := open_mode mode, active_operations := 0,
       path_backend := backend, backend_context := context0, route_prefix := route\<rparr>) M"

definition opened_path :: "u16 \<Rightarrow> nat \<Rightarrow> Q9IOMAN_Manager \<Rightarrow> Q9IOMAN_Manager" where
  "opened_path bp i M = put_path i ((io_paths M ! i)\<lparr>backend_path := bp, io_state := Q9IOMAN_PATH_OPEN\<rparr>) M"

definition clear_path :: "nat \<Rightarrow> Q9IOMAN_Manager \<Rightarrow> Q9IOMAN_Manager" where
  "clear_path i M = put_path i free_path M"

definition q9ioman_open_backend ::
  "'w backend_table \<Rightarrow> u32 \<Rightarrow> u32 \<Rightarrow> string \<Rightarrow> string option \<Rightarrow> u16 \<Rightarrow> bool \<Rightarrow> 'w ioman \<Rightarrow> Q9IOMAN_Status \<times> u16 \<times> 'w ioman" where
  "q9ioman_open_backend deref backend context0 name route mode create s =
     (let M = fst s in
      case deref backend of
        None \<Rightarrow> (Q9IOMAN_E_INVALID_ARGUMENT, 0, s)
      | Some ops \<Rightarrow>
          (case (if create then op_create ops else op_open ops) of
             None \<Rightarrow> (Q9IOMAN_E_INVALID_ARGUMENT, 0, s)
           | Some call \<Rightarrow>
               if io_paths M = [] \<or> op_close ops = None then (Q9IOMAN_E_INVALID_ARGUMENT, 0, s)
               else case List.find (\<lambda>i. io_state (io_paths M ! i) = Q9IOMAN_PATH_FREE) [0..<length (io_paths M)] of
                 None \<Rightarrow> (Q9IOMAN_E_NO_PATH_SLOTS, 0, s)
               | Some i \<Rightarrow>
                   (let (status, bp, M2, w2) = call context0 name mode (reserve_path backend context0 route mode i M, snd s)
                    in if status \<noteq> Q9IOMAN_OK then (status, 0, clear_path i M2, w2)
                       else (Q9IOMAN_OK, of_nat (i + 1), opened_path bp i M2, w2))))"

definition q9ioman_open :: "'w backend_table \<Rightarrow> u32 \<Rightarrow> u32 \<Rightarrow> string \<Rightarrow> u16 \<Rightarrow> 'w ioman \<Rightarrow> Q9IOMAN_Status \<times> u16 \<times> 'w ioman" where
  "q9ioman_open deref backend context0 name mode s = q9ioman_open_backend deref backend context0 name None mode False s"

definition q9ioman_open_resolved :: "'w backend_table \<Rightarrow> string \<Rightarrow> u16 \<Rightarrow> 'w ioman \<Rightarrow> Q9IOMAN_Status \<times> u16 \<times> 'w ioman" where
  "q9ioman_open_resolved deref name mode s =
     (case q9ioman_find_backend (fst s) name of
        None \<Rightarrow> (Q9IOMAN_E_NOT_FOUND, 0, s)
      | Some e \<Rightarrow> q9ioman_open_backend deref (reg_backend e) (reg_context e) name (Some (reg_prefix e)) mode False s)"

definition q9ioman_create_resolved :: "'w backend_table \<Rightarrow> string \<Rightarrow> u16 \<Rightarrow> 'w ioman \<Rightarrow> Q9IOMAN_Status \<times> u16 \<times> 'w ioman" where
  "q9ioman_create_resolved deref name mode s =
     (case q9ioman_find_backend (fst s) name of
        None \<Rightarrow> (Q9IOMAN_E_NOT_FOUND, 0, s)
      | Some e \<Rightarrow>
          (case deref (reg_backend e) of
             None \<Rightarrow> (Q9IOMAN_E_UNSUPPORTED_OPERATION, 0, s)
           | Some ops \<Rightarrow>
               if op_create ops = None then (Q9IOMAN_E_UNSUPPORTED_OPERATION, 0, s)
               else q9ioman_open_backend deref (reg_backend e) (reg_context e) name (Some (reg_prefix e)) mode True s))"

abbreviation no_result :: Q9IOMAN_Result where
  "no_result \<equiv> \<lparr>result_value = 0, transferred = 0\<rparr>"

definition q9ioman_name_operation :: "'w backend_table \<Rightarrow> string \<Rightarrow> Q9IOMAN_Operation \<Rightarrow> Q9IOMAN_Result \<Rightarrow> 'w ioman \<Rightarrow> Q9IOMAN_Status \<times> Q9IOMAN_Result \<times> 'w ioman" where
  "q9ioman_name_operation deref name operation result s =
     (if operation \<noteq> Q9IOMAN_OP_MAKE_DIR \<and> operation \<noteq> Q9IOMAN_OP_DELETE then (Q9IOMAN_E_UNSUPPORTED_OPERATION, result, s)
      else case q9ioman_find_backend (fst s) name of
        None \<Rightarrow> (Q9IOMAN_E_NOT_FOUND, no_result, s)
      | Some e \<Rightarrow>
          (case deref (reg_backend e) of
             None \<Rightarrow> (Q9IOMAN_E_UNSUPPORTED_OPERATION, no_result, s)
           | Some ops \<Rightarrow>
               (case op_name ops of
                  None \<Rightarrow> (Q9IOMAN_E_UNSUPPORTED_OPERATION, no_result, s)
                | Some call \<Rightarrow> call (reg_context e) operation name s)))"

text \<open>The count of active operations around a backend call.\<close>

definition count_active :: "u16 \<Rightarrow> nat \<Rightarrow> Q9IOMAN_Manager \<Rightarrow> Q9IOMAN_Manager" where
  "count_active d i M = put_path i ((io_paths M ! i)\<lparr>active_operations := active_operations (io_paths M ! i) + d\<rparr>) M"

definition q9ioman_operate ::
  "'w backend_table \<Rightarrow> u16 \<Rightarrow> Q9IOMAN_Operation \<Rightarrow> u32 \<Rightarrow> u32 \<Rightarrow> u32 \<Rightarrow> 'w ioman \<Rightarrow> Q9IOMAN_Status \<times> Q9IOMAN_Result \<times> 'w ioman" where
  "q9ioman_operate deref local_path operation arg0 arg1 arg2 s =
     (let M = fst s in
      if operation = Q9IOMAN_OP_MAKE_DIR \<or> operation = Q9IOMAN_OP_DELETE then (Q9IOMAN_E_UNSUPPORTED_OPERATION, no_result, s)
      else case q9ioman_find_path M local_path of
        None \<Rightarrow> (Q9IOMAN_E_INVALID_PATH, no_result, s)
      | Some i \<Rightarrow>
          (let p = io_paths M ! i in
           case Option.bind (deref (path_backend p)) op_operate of
             None \<Rightarrow> (Q9IOMAN_E_UNSUPPORTED_OPERATION, no_result, s)
           | Some call \<Rightarrow>
               if (operation = Q9IOMAN_OP_READ \<or> operation = Q9IOMAN_OP_READ_LINE) \<and> access_mode p AND Q9IOMAN_ACCESS_READ = 0
               then (Q9IOMAN_E_WRONG_MODE, no_result, s)
               else if (operation = Q9IOMAN_OP_WRITE \<or> operation = Q9IOMAN_OP_WRITE_LINE) \<and> access_mode p AND Q9IOMAN_ACCESS_WRITE = 0
               then (Q9IOMAN_E_WRONG_MODE, no_result, s)
               else if active_operations p = 65535 then (Q9IOMAN_E_BUSY, no_result, s)
               else
                 let (status, result, M2, w2) = call (backend_context p) (backend_path p) operation arg0 arg1 arg2 (count_active 1 i M, snd s)
                 in (status, result, count_active (- 1) i M2, w2)))"

definition set_state :: "Q9IOMAN_PathState \<Rightarrow> nat \<Rightarrow> Q9IOMAN_Manager \<Rightarrow> Q9IOMAN_Manager" where
  "set_state st i M = put_path i ((io_paths M ! i)\<lparr>io_state := st\<rparr>) M"

definition q9ioman_close :: "'w backend_table \<Rightarrow> u16 \<Rightarrow> 'w ioman \<Rightarrow> Q9IOMAN_Status \<times> 'w ioman" where
  "q9ioman_close deref local_path s =
     (let M = fst s in
      case q9ioman_find_path M local_path of
        None \<Rightarrow> (Q9IOMAN_E_INVALID_PATH, s)
      | Some i \<Rightarrow>
          (let p = io_paths M ! i in
           case Option.bind (deref (path_backend p)) op_close of
             None \<Rightarrow> (Q9IOMAN_E_UNSUPPORTED_OPERATION, s)
           | Some call \<Rightarrow>
               if active_operations p \<noteq> 0 then (Q9IOMAN_E_BUSY, s)
               else
                 let (status, M2, w2) = call (backend_context p) (backend_path p) (set_state Q9IOMAN_PATH_CLOSING i M, snd s)
                 in if status \<noteq> Q9IOMAN_OK then (status, set_state Q9IOMAN_PATH_OPEN i M2, w2)
                    else (Q9IOMAN_OK, clear_path i M2, w2)))"

end
