(* ===== verification/Q9_Ioman_Props.thy ===== *)
theory Q9_Ioman_Props
  imports Q9_Ioman "HOL-Library.Sublist"
begin

text \<open>
  What the I/O manager keeps while backends call it again.  \<open>served M M'\<close> relates the manager before and after any
  sequence of completed calls, each with the calls its backend made in between.  A path that is being opened, being closed or
  operated on is \<open>pinned\<close>: no completed call changes it.  From this follow the routes invariant and the contracts of
  opening, operating and closing for every backend that changes the manager by calls only.
\<close>

section \<open>Completed calls\<close>

inductive served :: "Q9IOMAN_Manager \<Rightarrow> Q9IOMAN_Manager \<Rightarrow> bool" where
  served_none: "served M M"
| served_register: "served M M1 \<Longrightarrow> i < length (backends M1) \<Longrightarrow> backends M1 ! i = None \<Longrightarrow> reg_prefix e \<noteq> [] \<Longrightarrow>
    served M (M1\<lparr>backends := (backends M1)[i := Some e]\<rparr>)"
| served_unregister: "served M M1 \<Longrightarrow> served M (snd (q9ioman_unregister_backend M1 pfx))"
| served_open: "served M M1 \<Longrightarrow> i < length (io_paths M1) \<Longrightarrow> io_state (io_paths M1 ! i) = Q9IOMAN_PATH_FREE \<Longrightarrow>
    (\<And>r. route = Some r \<Longrightarrow> Some \<lparr>reg_prefix = r, reg_backend = b, reg_context = c\<rparr> \<in> set (backends M1)) \<Longrightarrow>
    served (reserve_path b c route mode i M1) M2 \<Longrightarrow>
    M3 = opened_path bp i M2 \<or> M3 = clear_path i M2 \<Longrightarrow> served M M3"
| served_operate: "served M M1 \<Longrightarrow> q9ioman_find_path M1 lp = Some i \<Longrightarrow>
    active_operations (io_paths M1 ! i) \<noteq> 65535 \<Longrightarrow> served (count_active 1 i M1) M2 \<Longrightarrow>
    served M (count_active (- 1) i M2)"
| served_close: "served M M1 \<Longrightarrow> q9ioman_find_path M1 lp = Some i \<Longrightarrow> active_operations (io_paths M1 ! i) = 0 \<Longrightarrow>
    served (set_state Q9IOMAN_PATH_CLOSING i M1) M2 \<Longrightarrow>
    M3 = set_state Q9IOMAN_PATH_OPEN i M2 \<or> M3 = clear_path i M2 \<Longrightarrow> served M M3"

definition pinned :: "Q9IOMAN_Path \<Rightarrow> bool" where
  "pinned p \<longleftrightarrow> io_state p = Q9IOMAN_PATH_OPENING \<or> io_state p = Q9IOMAN_PATH_CLOSING \<or>
     io_state p = Q9IOMAN_PATH_OPEN \<and> active_operations p \<noteq> 0"

lemma find_path_Some:
  assumes "q9ioman_find_path M lp = Some i"
  shows "i < length (io_paths M)" "io_state (io_paths M ! i) = Q9IOMAN_PATH_OPEN" "i = unat lp - 1"
proof -
  have f: "lp \<noteq> 0" "\<not> length (io_paths M) < unat lp" and i: "io_state (io_paths M ! i) = Q9IOMAN_PATH_OPEN" "i = unat lp - 1"
    using assms by (auto simp: q9ioman_find_path_def split: if_splits)
  show "io_state (io_paths M ! i) = Q9IOMAN_PATH_OPEN" "i = unat lp - 1" using i .
  have "0 < unat lp" using f(1) by (simp add: unat_gt_0)
  with f(2) i(2) show "i < length (io_paths M)" by linarith
qed

lemma count_no_wrap: "a \<noteq> 65535 \<Longrightarrow> a + 1 \<noteq> 0" for a :: u16
proof
  assume "a \<noteq> 65535" "a + 1 = 0"
  have "a = (a + 1) - 1" by simp
  also have "\<dots> = 65535" unfolding \<open>a + 1 = 0\<close> by simp
  finally show False using \<open>a \<noteq> 65535\<close> by simp
qed

lemmas slot_updates = reserve_path_def opened_path_def clear_path_def count_active_def set_state_def

lemma slot_updates_length [simp]:
  "length (io_paths (reserve_path b c r m i M)) = length (io_paths M)"
  "length (io_paths (opened_path bp i M)) = length (io_paths M)"
  "length (io_paths (clear_path i M)) = length (io_paths M)"
  "length (io_paths (count_active d i M)) = length (io_paths M)"
  "length (io_paths (set_state st i M)) = length (io_paths M)"
  by (simp_all add: slot_updates)

lemma slot_updates_backends [simp]:
  "backends (reserve_path b c r m i M) = backends M"
  "backends (opened_path bp i M) = backends M"
  "backends (clear_path i M) = backends M"
  "backends (count_active d i M) = backends M"
  "backends (set_state st i M) = backends M"
  by (simp_all add: slot_updates)

lemma registry_calls_paths [simp]:
  "io_paths (snd (q9ioman_register_backend deref M pfx b c)) = io_paths M"
  "io_paths (snd (q9ioman_unregister_backend M pfx)) = io_paths M"
  by (simp_all add: q9ioman_register_backend_def q9ioman_unregister_backend_def split: option.splits)

lemma served_length: "served M M' \<Longrightarrow> length (io_paths M') = length (io_paths M)"
  by (induction rule: served.induct) auto

text \<open>No completed call changes a pinned path.\<close>

lemma served_pinned:
  assumes "served M M'" "j < length (io_paths M)" "pinned (io_paths M ! j)"
  shows "io_paths M' ! j = io_paths M ! j"
  using assms
proof (induction arbitrary: j rule: served.induct)
  case (served_open M M1 i route b c mode M2 M3 bp)
  then have "i \<noteq> j" by (auto simp: pinned_def)
  have "io_paths M2 ! j = io_paths (reserve_path b c route mode i M1) ! j"
    using served_open \<open>i \<noteq> j\<close> served_length [OF \<open>served M M1\<close>] by (auto simp: slot_updates)
  with served_open \<open>i \<noteq> j\<close> show ?case by (auto simp: slot_updates)
next
  case (served_operate M M1 lp i M2)
  note i = find_path_Some [OF \<open>q9ioman_find_path M1 lp = Some i\<close>]
  have 1: "io_paths M1 ! j = io_paths M ! j" "j < length (io_paths M1)"
    using served_operate served_length [OF \<open>served M M1\<close>] by auto
  show ?case
  proof (cases "i = j")
    case False
    then have "io_paths M2 ! j = io_paths M1 ! j"
      using served_operate 1 by (auto simp: slot_updates)
    with False 1 show ?thesis by (simp add: slot_updates)
  next
    case True
    have "active_operations (io_paths M1 ! j) + 1 \<noteq> 0"
      using \<open>active_operations (io_paths M1 ! i) \<noteq> 65535\<close> True by (auto dest: count_no_wrap)
    then have "pinned (io_paths (count_active 1 i M1) ! j)"
      using True i 1 by (simp add: slot_updates pinned_def)
    then have "io_paths M2 ! j = io_paths (count_active 1 i M1) ! j"
      using served_operate 1 by simp
    moreover have "length (io_paths M2) = length (io_paths M1)"
      using served_length [OF \<open>served (count_active 1 i M1) M2\<close>] by simp
    ultimately show ?thesis using True 1 by (simp add: slot_updates)
  qed
next
  case (served_close M M1 lp i M2 M3)
  note i = find_path_Some [OF \<open>q9ioman_find_path M1 lp = Some i\<close>]
  have 1: "io_paths M1 ! j = io_paths M ! j" "j < length (io_paths M1)"
    using served_close served_length [OF \<open>served M M1\<close>] by auto
  have "i \<noteq> j" using i 1 served_close by (auto simp: pinned_def)
  then have "io_paths M2 ! j = io_paths M1 ! j"
    using served_close 1 by (auto simp: slot_updates)
  with served_close \<open>i \<noteq> j\<close> 1 show ?case by (auto simp: slot_updates)
qed auto

text \<open>A routed path that is not free has its registration, and registered prefixes are not empty.\<close>

definition route_ok :: "Q9IOMAN_BackendRegistration option list \<Rightarrow> Q9IOMAN_Path \<Rightarrow> bool" where
  "route_ok bs p \<longleftrightarrow> (\<forall>r. io_state p \<noteq> Q9IOMAN_PATH_FREE \<longrightarrow> route_prefix p = Some r \<longrightarrow>
     Some \<lparr>reg_prefix = r, reg_backend = path_backend p, reg_context = backend_context p\<rparr> \<in> set bs)"

definition routes_ok :: "Q9IOMAN_Manager \<Rightarrow> bool" where
  "routes_ok M \<longleftrightarrow> (\<forall>p\<in>set (io_paths M). route_ok (backends M) p) \<and>
     (\<forall>e. Some e \<in> set (backends M) \<longrightarrow> reg_prefix e \<noteq> [])"

lemma text_equal_from_iff: "text_equal_from a b \<longleftrightarrow> a = b"
  by (induction a b rule: text_equal_from.induct) auto

lemma routes_ok_put:
  assumes "routes_ok M"
    and "route_ok (backends M) p"
  shows "routes_ok (put_path i p M)"
  using assms set_update_subset_insert [of "io_paths M" i p] by (auto simp: routes_ok_def)

text \<open>A change of a path that is not free and keeps backend, context and route.\<close>

lemma routes_ok_put_same:
  assumes "routes_ok M" "i < length (io_paths M)" "io_state (io_paths M ! i) \<noteq> Q9IOMAN_PATH_FREE"
    and "route_prefix p = route_prefix (io_paths M ! i)" "path_backend p = path_backend (io_paths M ! i)"
      "backend_context p = backend_context (io_paths M ! i)"
  shows "routes_ok (put_path i p M)"
  by (rule routes_ok_put [OF assms(1)]) (use assms nth_mem [OF assms(2)] in \<open>auto simp: routes_ok_def route_ok_def\<close>)

lemma routes_ok_clear: "routes_ok M \<Longrightarrow> routes_ok (clear_path i M)"
  unfolding clear_path_def by (rule routes_ok_put) (simp_all add: free_path_def route_ok_def)

lemma routes_ok_register:
  assumes "routes_ok M" "i < length (backends M)" "backends M ! i = None" "reg_prefix e \<noteq> []"
  shows "routes_ok (M\<lparr>backends := (backends M)[i := Some e]\<rparr>)"
proof -
  have k: "Some x \<in> set (backends M) \<Longrightarrow> Some x \<in> set ((backends M)[i := Some e])" for x
    using assms(3) by (metis in_set_conv_nth length_list_update nth_list_update_neq option.distinct(1))
  have "Some x \<in> set ((backends M)[i := Some e]) \<Longrightarrow> Some x \<in> set (backends M) \<or> x = e" for x
    using set_update_subset_insert [of "backends M" i "Some e"] by auto
  with k assms(1,4) show ?thesis by (fastforce simp: routes_ok_def route_ok_def)
qed

lemma routes_ok_unregister:
  assumes "routes_ok M"
  shows "routes_ok (snd (q9ioman_unregister_backend M pfx))"
proof (cases "snd (q9ioman_unregister_backend M pfx) = M")
  case False
  then obtain i e where i: "i < length (backends M)" "backends M ! i = Some e"
      "snd (q9ioman_unregister_backend M pfx) = M\<lparr>backends := (backends M)[i := None]\<rparr>"
    and p: "\<And>p. p \<in> set (io_paths M) \<Longrightarrow> io_state p \<noteq> Q9IOMAN_PATH_FREE \<Longrightarrow> route_prefix p \<noteq> Some (reg_prefix e)"
    by (auto simp: q9ioman_unregister_backend_def find_Some_iff list_ex_iff q9ioman_text_equal_def text_equal_from_iff
      split: if_splits option.splits)
  have k: "Some x \<in> set (backends M) \<Longrightarrow> reg_prefix x \<noteq> reg_prefix e \<Longrightarrow> Some x \<in> set ((backends M)[i := None])" for x
    using i(2) by (metis in_set_conv_nth length_list_update nth_list_update_neq option.inject)
  have "Some x \<in> set ((backends M)[i := None]) \<Longrightarrow> Some x \<in> set (backends M)" for x
    using set_update_subset_insert [of "backends M" i None] by auto
  with k p assms show ?thesis unfolding i(3) by (fastforce simp: routes_ok_def route_ok_def)
qed (use assms in simp)

lemma served_routes: "served M M' \<Longrightarrow> routes_ok M \<Longrightarrow> routes_ok M'"
proof (induction rule: served.induct)
  case (served_open M M1 i route b c mode M2 M3 bp)
  let ?R = "reserve_path b c route mode i M1"
  have R: "routes_ok ?R" unfolding reserve_path_def
    by (rule routes_ok_put) (use served_open in \<open>auto simp: route_ok_def\<close>)
  have l: "i < length (io_paths ?R)" "length (io_paths M2) = length (io_paths ?R)"
    using served_open.hyps served_length [OF \<open>served ?R M2\<close>] by auto
  have "io_paths M2 ! i = io_paths ?R ! i"
    by (rule served_pinned [OF \<open>served ?R M2\<close> l(1)]) (use served_open.hyps in \<open>simp add: reserve_path_def pinned_def\<close>)
  then have s: "io_state (io_paths M2 ! i) = Q9IOMAN_PATH_OPENING" using served_open.hyps by (simp add: reserve_path_def)
  have "routes_ok M2" using served_open.IH(2) R .
  then have "routes_ok (opened_path bp i M2)" "routes_ok (clear_path i M2)"
    using l s routes_ok_clear by (auto simp: opened_path_def intro!: routes_ok_put_same)
  with served_open.hyps show ?case by auto
next
  case (served_operate M M1 lp i M2)
  note i = find_path_Some [OF \<open>q9ioman_find_path M1 lp = Some i\<close>]
  let ?R = "count_active 1 i M1"
  have R: "routes_ok ?R" unfolding count_active_def
    by (rule routes_ok_put_same) (use served_operate i in auto)
  have l: "i < length (io_paths ?R)" "length (io_paths M2) = length (io_paths ?R)"
    using i served_length [OF \<open>served ?R M2\<close>] by auto
  have "active_operations (io_paths M1 ! i) + 1 \<noteq> 0"
    using served_operate.hyps by (auto dest: count_no_wrap)
  then have "io_paths M2 ! i = io_paths ?R ! i"
    by (intro served_pinned [OF \<open>served ?R M2\<close> l(1)]) (use i in \<open>simp add: count_active_def pinned_def\<close>)
  then have "io_state (io_paths M2 ! i) = Q9IOMAN_PATH_OPEN" using i by (simp add: count_active_def)
  with l served_operate.IH(2) [OF R] show ?case unfolding count_active_def [of "- 1"]
    by (intro routes_ok_put_same) auto
next
  case (served_close M M1 lp i M2 M3)
  note i = find_path_Some [OF \<open>q9ioman_find_path M1 lp = Some i\<close>]
  let ?R = "set_state Q9IOMAN_PATH_CLOSING i M1"
  have R: "routes_ok ?R" unfolding set_state_def
    by (rule routes_ok_put_same) (use served_close i in auto)
  have l: "i < length (io_paths ?R)" "length (io_paths M2) = length (io_paths ?R)"
    using i served_length [OF \<open>served ?R M2\<close>] by auto
  have "io_paths M2 ! i = io_paths ?R ! i"
    by (rule served_pinned [OF \<open>served ?R M2\<close> l(1)]) (use i in \<open>simp add: set_state_def pinned_def\<close>)
  then have s: "io_state (io_paths M2 ! i) = Q9IOMAN_PATH_CLOSING" using i by (simp add: set_state_def)
  have "routes_ok M2" using served_close.IH(2) R .
  then have "routes_ok (set_state Q9IOMAN_PATH_OPEN i M2)" "routes_ok (clear_path i M2)"
    using l s routes_ok_clear by (auto simp: set_state_def intro!: routes_ok_put_same)
  with served_close.hyps show ?case by auto
qed (auto intro: routes_ok_register routes_ok_unregister)

section \<open>The calls\<close>

text \<open>A backend table that changes the manager by completed calls only.\<close>

definition calls_only :: "'w backend_table \<Rightarrow> bool" where
  "calls_only deref \<longleftrightarrow> (\<forall>b ops. deref b = Some ops \<longrightarrow>
     (\<forall>f c n m s. op_open ops = Some f \<or> op_create ops = Some f \<longrightarrow> served (fst s) (fst (snd (snd (f c n m s))))) \<and>
     (\<forall>f c p oper x y z s. op_operate ops = Some f \<longrightarrow> served (fst s) (fst (snd (snd (f c p oper x y z s))))) \<and>
     (\<forall>f c p s. op_close ops = Some f \<longrightarrow> served (fst s) (fst (snd (f c p s)))) \<and>
     (\<forall>f c oper n s. op_name ops = Some f \<longrightarrow> served (fst s) (fst (snd (snd (f c oper n s))))))"

lemma calls_onlyD:
  assumes "calls_only deref" "deref b = Some ops"
  shows "op_open ops = Some f \<Longrightarrow> f c n m s = (st, bp, M', w') \<Longrightarrow> served (fst s) M'"
    and "op_create ops = Some f \<Longrightarrow> f c n m s = (st, bp, M', w') \<Longrightarrow> served (fst s) M'"
    and "op_operate ops = Some g \<Longrightarrow> g c p oper x y z s = (st, res, M', w') \<Longrightarrow> served (fst s) M'"
    and "op_close ops = Some h \<Longrightarrow> h c p s = (st, M', w') \<Longrightarrow> served (fst s) M'"
    and "op_name ops = Some k \<Longrightarrow> k c oper n s = (st, res, M', w') \<Longrightarrow> served (fst s) M'"
  using assms unfolding calls_only_def by (metis fst_conv snd_conv)+

lemma find_free:
  "List.find (\<lambda>i. io_state (io_paths M ! i) = Q9IOMAN_PATH_FREE) [0..<length (io_paths M)] = Some i \<Longrightarrow>
     i < length (io_paths M) \<and> io_state (io_paths M ! i) = Q9IOMAN_PATH_FREE"
  by (auto simp: find_Some_iff)

text \<open>Opening: the backend call, bracketed by the reservation and its end.\<close>

lemma open_backend_cases:
  assumes "q9ioman_open_backend deref b c n route mode create (M, w) = (st, lp, M', w')"
  obtains "M' = M" "st \<noteq> Q9IOMAN_OK"
  | i ops call bp M2 where "i < length (io_paths M)" "io_state (io_paths M ! i) = Q9IOMAN_PATH_FREE" "deref b = Some ops"
      "(if create then op_create ops else op_open ops) = Some call"
      "call c n mode (reserve_path b c route mode i M, w) = (st, bp, M2, w')"
      "M' = (if st = Q9IOMAN_OK then opened_path bp i M2 else clear_path i M2)"
      "st = Q9IOMAN_OK \<Longrightarrow> lp = of_nat (i + 1)"
  using assms unfolding q9ioman_open_backend_def
  by (auto simp: Let_def split: option.splits if_splits prod.splits dest!: find_free)

lemma open_backend_served:
  assumes "calls_only deref" "q9ioman_open_backend deref b c n route mode create (M, w) = (st, lp, M', w')"
    and "\<And>r. route = Some r \<Longrightarrow> Some \<lparr>reg_prefix = r, reg_backend = b, reg_context = c\<rparr> \<in> set (backends M)"
  shows "served M M'"
  using assms(2)
proof (cases rule: open_backend_cases)
  case (2 i ops call bp M2)
  have "served (reserve_path b c route mode i M) M2"
    using calls_onlyD(1,2) [OF assms(1) 2(3)] 2(4,5) by (auto split: if_splits)
  moreover have "M' = opened_path bp i M2 \<or> M' = clear_path i M2" using 2(6) by simp
  ultimately show ?thesis using served.served_open [OF served_none 2(1,2)] assms(3) by blast
qed (simp add: served_none)

lemma operate_cases:
  assumes "q9ioman_operate deref lp oper x y z (M, w) = (st, res, M', w')"
  obtains "M' = M" "st \<noteq> Q9IOMAN_OK"
  | i ops call M2 where "q9ioman_find_path M lp = Some i" "deref (path_backend (io_paths M ! i)) = Some ops" "op_operate ops = Some call"
      "active_operations (io_paths M ! i) \<noteq> 65535"
      "call (backend_context (io_paths M ! i)) (backend_path (io_paths M ! i)) oper x y z (count_active 1 i M, w) = (st, res, M2, w')"
      "M' = count_active (- 1) i M2"
  using assms unfolding q9ioman_operate_def
  by (auto simp: Let_def bind_eq_Some_conv split: option.splits if_splits prod.splits)

lemma operate_served:
  assumes "calls_only deref" "q9ioman_operate deref lp oper x y z (M, w) = (st, res, M', w')"
  shows "served M M'"
  using assms(2)
proof (cases rule: operate_cases)
  case (2 i ops call M2)
  have "served (count_active 1 i M) M2" using calls_onlyD(3) [OF assms(1) 2(2,3,5)] by simp
  then show ?thesis unfolding 2(6) by (rule served.served_operate [OF served_none 2(1,4)])
qed (simp add: served_none)

lemma close_cases:
  assumes "q9ioman_close deref lp (M, w) = (st, M', w')"
  obtains "M' = M" "st \<noteq> Q9IOMAN_OK"
  | i ops call M2 where "q9ioman_find_path M lp = Some i" "deref (path_backend (io_paths M ! i)) = Some ops" "op_close ops = Some call"
      "active_operations (io_paths M ! i) = 0"
      "call (backend_context (io_paths M ! i)) (backend_path (io_paths M ! i)) (set_state Q9IOMAN_PATH_CLOSING i M, w) = (st, M2, w')"
      "M' = (if st = Q9IOMAN_OK then clear_path i M2 else set_state Q9IOMAN_PATH_OPEN i M2)"
  using assms unfolding q9ioman_close_def
  by (auto simp: Let_def bind_eq_Some_conv split: option.splits if_splits prod.splits)

lemma close_served:
  assumes "calls_only deref" "q9ioman_close deref lp (M, w) = (st, M', w')"
  shows "served M M'"
  using assms(2)
proof (cases rule: close_cases)
  case (2 i ops call M2)
  have "served (set_state Q9IOMAN_PATH_CLOSING i M) M2" using calls_onlyD(4) [OF assms(1) 2(2,3,5)] by simp
  then show ?thesis using served.served_close [OF served_none 2(1,4)] 2(6) by (auto split: if_splits)
qed (simp add: served_none)

lemma name_operation_served:
  assumes "calls_only deref" "q9ioman_name_operation deref n oper r (M, w) = (st, res, M', w')"
  shows "served M M'"
  using assms(2) calls_onlyD(5) [OF assms(1)] unfolding q9ioman_name_operation_def
  by (auto split: if_splits option.splits intro: served_none)

lemma register_served: "served M (snd (q9ioman_register_backend deref M pfx b c))"
  by (auto simp: q9ioman_register_backend_def q9ioman_prefix_length_def find_Some_iff split: option.splits intro!: served_none
    served.served_register [OF served_none])

text \<open>The registry entry a name resolves to is in the registry.\<close>

lemma find_fold_mem: "fst (fold (find_step n) bs acc) = Some e \<Longrightarrow> fst acc = Some e \<or> Some e \<in> set bs"
proof (induction bs arbitrary: acc)
  case (Cons b bs)
  have "fst (find_step n b acc) = Some e \<Longrightarrow> fst acc = Some e \<or> b = Some e"
    by (simp add: find_step_def Let_def split: option.splits if_splits)
  with Cons.IH [of "find_step n b acc"] Cons.prems show ?case by auto
qed simp

lemma find_backend_mem: "q9ioman_find_backend M n = Some e \<Longrightarrow> Some e \<in> set (backends M)"
  by (auto simp: q9ioman_find_backend_def dest!: find_fold_mem split: if_splits)

lemma open_resolved_cases:
  assumes "q9ioman_open_resolved deref n mode (M, w) = (st, lp, M', w')"
  obtains "M' = M" "st \<noteq> Q9IOMAN_OK"
  | e where "q9ioman_find_backend M n = Some e" "Some e \<in> set (backends M)"
      "q9ioman_open_backend deref (reg_backend e) (reg_context e) n (Some (reg_prefix e)) mode False (M, w) = (st, lp, M', w')"
  using assms find_backend_mem unfolding q9ioman_open_resolved_def by (fastforce split: option.splits)

lemma create_resolved_cases:
  assumes "q9ioman_create_resolved deref n mode (M, w) = (st, lp, M', w')"
  obtains "M' = M" "st \<noteq> Q9IOMAN_OK"
  | e where "q9ioman_find_backend M n = Some e" "Some e \<in> set (backends M)"
      "q9ioman_open_backend deref (reg_backend e) (reg_context e) n (Some (reg_prefix e)) mode True (M, w) = (st, lp, M', w')"
  using assms find_backend_mem unfolding q9ioman_create_resolved_def by (fastforce split: option.splits if_splits)

lemma open_entry_served:
  assumes "calls_only deref" "Some e \<in> set (backends M)"
    and "q9ioman_open_backend deref (reg_backend e) (reg_context e) n (Some (reg_prefix e)) mode create (M, w) = (st, lp, M', w')"
  shows "served M M'"
  by (rule open_backend_served [OF assms(1,3)]) (use assms(2) in \<open>cases e, simp\<close>)

lemma resolved_served:
  assumes "calls_only deref"
  shows "q9ioman_open_resolved deref n mode (M, w) = (st, lp, M', w') \<Longrightarrow> served M M'"
    and "q9ioman_create_resolved deref n mode (M, w) = (st, lp, M', w') \<Longrightarrow> served M M'"
  by (auto elim!: open_resolved_cases create_resolved_cases intro: served_none elim: open_entry_served [OF assms])

text \<open>The states of a manager and its backends that calls reach from initialisation.\<close>

inductive ioman_reach :: "'w backend_table \<Rightarrow> Q9IOMAN_Manager \<Rightarrow> 'w \<Rightarrow> bool" for deref where
  reach_init: "q9ioman_init capacity M = (Q9IOMAN_OK, M') \<Longrightarrow> ioman_reach deref M' w"
| reach_register: "ioman_reach deref M w \<Longrightarrow> ioman_reach deref (snd (q9ioman_register_backend deref M pfx b c)) w"
| reach_unregister: "ioman_reach deref M w \<Longrightarrow> ioman_reach deref (snd (q9ioman_unregister_backend M pfx)) w"
| reach_open: "ioman_reach deref M w \<Longrightarrow> q9ioman_open deref b c n mode (M, w) = (st, lp, M', w') \<Longrightarrow> ioman_reach deref M' w'"
| reach_open_resolved: "ioman_reach deref M w \<Longrightarrow> q9ioman_open_resolved deref n mode (M, w) = (st, lp, M', w') \<Longrightarrow> ioman_reach deref M' w'"
| reach_create_resolved: "ioman_reach deref M w \<Longrightarrow> q9ioman_create_resolved deref n mode (M, w) = (st, lp, M', w') \<Longrightarrow> ioman_reach deref M' w'"
| reach_name: "ioman_reach deref M w \<Longrightarrow> q9ioman_name_operation deref n oper r (M, w) = (st, res, M', w') \<Longrightarrow> ioman_reach deref M' w'"
| reach_operate: "ioman_reach deref M w \<Longrightarrow> q9ioman_operate deref lp oper x y z (M, w) = (st, res, M', w') \<Longrightarrow> ioman_reach deref M' w'"
| reach_close: "ioman_reach deref M w \<Longrightarrow> q9ioman_close deref lp (M, w) = (st, M', w') \<Longrightarrow> ioman_reach deref M' w'"

lemma init_routes: "q9ioman_init capacity M = (Q9IOMAN_OK, M') \<Longrightarrow> routes_ok M'"
  by (auto simp: q9ioman_init_def routes_ok_def route_ok_def free_path_def split: if_splits)

lemma reach_routes:
  assumes "calls_only deref"
  shows "ioman_reach deref M w \<Longrightarrow> routes_ok M"
proof (induction rule: ioman_reach.induct)
  case (reach_open M w b c n mode st lp M' w')
  then have "served M M'" by (auto simp: q9ioman_open_def intro: open_backend_served [OF assms])
  with reach_open show ?case by (auto intro: served_routes)
qed (blast intro: init_routes routes_ok_unregister served_routes [OF register_served] served_routes
  resolved_served [OF assms] operate_served [OF assms] close_served [OF assms] name_operation_served [OF assms])+

section \<open>Resolving names\<close>

text \<open>A prefix covers a name when the name is the prefix or continues it with a slash.\<close>

definition covers_name :: "string \<Rightarrow> string \<Rightarrow> bool" where
  "covers_name p n \<longleftrightarrow> n = p \<or> prefix (p @ ''/'') n"

lemma common_length_eq: "common_length a b = length a \<longleftrightarrow> prefix a b"
  by (induction a b rule: common_length.induct) auto

lemma step_covers:
  assumes "length p < 65536" "length n < 65536" "CHR 0x00 \<notin> set n"
  shows "(let k = q9ioman_prefix_length p; l = q9ioman_prefix_length n; pos = common_length (take k p) (take l n)
     in pos = k \<and> k \<le> l \<and> (char_at n k = CHR 0x00 \<or> char_at n k = CHR ''/'')) \<longleftrightarrow> covers_name p n"
proof -
  have k: "q9ioman_prefix_length p = length p" "q9ioman_prefix_length n = length n" using assms by (simp_all add: q9ioman_prefix_length_def)
  have "prefix p n \<and> (char_at n (length p) = CHR 0x00 \<or> char_at n (length p) = CHR ''/'') \<longleftrightarrow> covers_name p n"
  proof (cases "prefix p n")
    case True
    then obtain t where t: "n = p @ t" by (auto simp: prefix_def)
    with assms(3) show ?thesis by (cases t) (auto simp: covers_name_def char_at_def)
  qed (auto simp: covers_name_def prefix_def)
  moreover have "prefix p n \<Longrightarrow> length p \<le> length n" by (rule prefix_length_le)
  ultimately show ?thesis by (auto simp: Let_def k common_length_eq)
qed

definition longest :: "string \<Rightarrow> Q9IOMAN_BackendRegistration option list \<Rightarrow> Q9IOMAN_BackendRegistration option \<times> nat \<Rightarrow> bool" where
  "longest n bs acc \<longleftrightarrow> (case fst acc of
       None \<Rightarrow> snd acc = 0 \<and> (\<forall>e. Some e \<in> set bs \<longrightarrow> \<not> covers_name (reg_prefix e) n)
     | Some e \<Rightarrow> snd acc = length (reg_prefix e) \<and> Some e \<in> set bs \<and> covers_name (reg_prefix e) n \<and>
         (\<forall>d. Some d \<in> set bs \<longrightarrow> covers_name (reg_prefix d) n \<longrightarrow> length (reg_prefix d) \<le> length (reg_prefix e)))"

lemma find_step_longest:
  assumes "longest n bs acc" "length n < 65536" "CHR 0x00 \<notin> set n"
    and "\<And>e. b = Some e \<Longrightarrow> reg_prefix e \<noteq> [] \<and> length (reg_prefix e) < 65536"
  shows "longest n (bs @ [b]) (find_step n b acc)"
proof (cases b)
  case None
  with assms(1) show ?thesis by (auto simp: find_step_def longest_def split: option.splits)
next
  case (Some e)
  have e: "reg_prefix e \<noteq> []" "length (reg_prefix e) < 65536" using assms(4) [OF Some] by auto
  have k: "q9ioman_prefix_length (reg_prefix e) = length (reg_prefix e)" using e by (simp add: q9ioman_prefix_length_def)
  have "find_step n b acc = (if covers_name (reg_prefix e) n \<and> length (reg_prefix e) > snd acc then (Some e, length (reg_prefix e)) else acc)"
    using step_covers [OF e(2) assms(2,3)] by (auto simp: find_step_def Some Let_def k)
  with assms(1) e(1) Some show ?thesis by (auto simp: longest_def split: option.splits)
qed

lemma find_fold_longest:
  assumes "length n < 65536" "CHR 0x00 \<notin> set n"
    and "\<And>e. Some e \<in> set bs \<Longrightarrow> reg_prefix e \<noteq> [] \<and> length (reg_prefix e) < 65536"
  shows "longest n bs (fold (find_step n) bs (None, 0))"
  using assms(3)
proof (induction bs rule: rev_induct)
  case (snoc b bs)
  then have "longest n (bs @ [b]) (find_step n b (fold (find_step n) bs (None, 0)))"
    by (intro find_step_longest [OF _ assms(1,2)]) auto
  then show ?case by simp
qed (simp add: longest_def)

text \<open>C13: a name goes to the registered backend whose prefix covers it, and to the longest such prefix
  (\<open>/dd/x\<close> before \<open>/dd\<close>, never \<open>/d\<close>); it is not found exactly when no prefix covers it.\<close>

theorem find_backend_longest:
  assumes "io_paths M \<noteq> []" "length n < 65536" "CHR 0x00 \<notin> set n"
    and "\<And>e. Some e \<in> set (backends M) \<Longrightarrow> reg_prefix e \<noteq> [] \<and> length (reg_prefix e) < 65536"
  shows "case q9ioman_find_backend M n of
       None \<Rightarrow> \<forall>e. Some e \<in> set (backends M) \<longrightarrow> \<not> covers_name (reg_prefix e) n
     | Some e \<Rightarrow> Some e \<in> set (backends M) \<and> covers_name (reg_prefix e) n \<and>
         (\<forall>d. Some d \<in> set (backends M) \<longrightarrow> covers_name (reg_prefix d) n \<longrightarrow> length (reg_prefix d) \<le> length (reg_prefix e))"
  using find_fold_longest [OF assms(2,3), of "backends M"] assms(1,4)
  by (auto simp: q9ioman_find_backend_def longest_def split: option.splits)

section \<open>Contracts under re-entrance\<close>

lemma open_slot:
  assumes "calls_only deref" "q9ioman_open_backend deref b c n route mode create (M, w) = (Q9IOMAN_OK, lp, M', w')"
    and "length (io_paths M) < 65536"
  obtains i bp where "q9ioman_find_path M' lp = Some i" "io_state (io_paths M ! i) = Q9IOMAN_PATH_FREE"
    "io_paths M' ! i = \<lparr>io_state = Q9IOMAN_PATH_OPEN, backend_path = bp, access_mode = open_mode mode, active_operations = 0,
       path_backend = b, backend_context = c, route_prefix = route\<rparr>"
  using assms(2)
proof (cases rule: open_backend_cases)
  case (2 i ops call bp M2)
  let ?R = "reserve_path b c route mode i M"
  have s: "served ?R M2" using calls_onlyD(1,2) [OF assms(1) 2(3)] 2(4,5) by (auto split: if_splits)
  have l: "i < length (io_paths ?R)" "length (io_paths M2) = length (io_paths M)" using 2(1) served_length [OF s] by auto
  have "io_paths M2 ! i = io_paths ?R ! i"
    by (rule served_pinned [OF s l(1)]) (use 2(1) in \<open>simp add: reserve_path_def pinned_def\<close>)
  then have p: "io_paths M' ! i = \<lparr>io_state = Q9IOMAN_PATH_OPEN, backend_path = bp, access_mode = open_mode mode, active_operations = 0,
       path_backend = b, backend_context = c, route_prefix = route\<rparr>" "length (io_paths M') = length (io_paths M)"
    using 2(1,6) l(2) by (auto simp: opened_path_def reserve_path_def)
  have "Suc i < 65536" using 2(1) assms(3) by simp
  then have u: "unat (of_nat (i + 1) :: u16) = i + 1" by (simp add: unat_of_nat take_bit_nat_eq_self del: of_nat_add of_nat_Suc)
  then have "(of_nat (i + 1) :: u16) \<noteq> 0" by (metis add_is_0 one_neq_zero unat_0)
  moreover have "io_paths M' \<noteq> []" using p(2) 2(1) by auto
  ultimately have "q9ioman_find_path M' lp = Some i" using p u 2(1,7) by (simp add: q9ioman_find_path_def del: of_nat_add of_nat_Suc)
  then show thesis using that 2(2) p(1) by blast
qed simp

text \<open>When opening a name succeeds, the returned number is an open path, on a slot that was free, with the backend, context
  and prefix the name resolves to, whatever calls the backend made meanwhile; those did not change any path that was being opened, closed or operated on.\<close>

theorem ioman_open_spec:
  assumes "calls_only deref" "length (io_paths M) < 65536" "q9ioman_open_resolved deref n mode (M, w) = (Q9IOMAN_OK, lp, M', w')"
  shows "(\<exists>e i bp. q9ioman_find_backend M n = Some e \<and> q9ioman_find_path M' lp = Some i \<and> io_state (io_paths M ! i) = Q9IOMAN_PATH_FREE \<and>
      io_paths M' ! i = \<lparr>io_state = Q9IOMAN_PATH_OPEN, backend_path = bp, access_mode = open_mode mode, active_operations = 0,
        path_backend = reg_backend e, backend_context = reg_context e, route_prefix = Some (reg_prefix e)\<rparr>) \<and>
    (\<forall>j<length (io_paths M). pinned (io_paths M ! j) \<longrightarrow> io_paths M' ! j = io_paths M ! j)"
proof
  show "\<forall>j<length (io_paths M). pinned (io_paths M ! j) \<longrightarrow> io_paths M' ! j = io_paths M ! j"
    using served_pinned [OF resolved_served(1) [OF assms(1,3)]] by blast
  obtain e where "q9ioman_find_backend M n = Some e"
    "q9ioman_open_backend deref (reg_backend e) (reg_context e) n (Some (reg_prefix e)) mode False (M, w) = (Q9IOMAN_OK, lp, M', w')"
    using assms(3) by (auto elim: open_resolved_cases)
  with open_slot [OF assms(1) this(2) assms(2)] show "\<exists>e i bp. q9ioman_find_backend M n = Some e \<and> q9ioman_find_path M' lp = Some i \<and>
      io_state (io_paths M ! i) = Q9IOMAN_PATH_FREE \<and>
      io_paths M' ! i = \<lparr>io_state = Q9IOMAN_PATH_OPEN, backend_path = bp, access_mode = open_mode mode, active_operations = 0,
        path_backend = reg_backend e, backend_context = reg_context e, route_prefix = Some (reg_prefix e)\<rparr>" by metis
qed

text \<open>C12: an operation leaves its path as it was, count of active operations included; a close frees its path or, when the backend
  refuses, leaves it as it was, although the backend may have made any calls of the manager meanwhile.\<close>

theorem ioman_reentrant:
  assumes "calls_only deref" "q9ioman_find_path M lp = Some i"
  shows "(\<forall>oper x y z st res M' w'. q9ioman_operate deref lp oper x y z (M, w) = (st, res, M', w') \<longrightarrow> io_paths M' ! i = io_paths M ! i) \<and>
    (\<forall>st M' w'. q9ioman_close deref lp (M, w) = (st, M', w') \<longrightarrow> io_paths M' ! i = (if st = Q9IOMAN_OK then free_path else io_paths M ! i))"
proof (intro conjI allI impI)
  note i = find_path_Some [OF assms(2)]
  show "io_paths M' ! i = io_paths M ! i" if "q9ioman_operate deref lp oper x y z (M, w) = (st, res, M', w')" for oper x y z st res M' w'
    using that
  proof (cases rule: operate_cases)
    case (2 j ops call M2)
    then have s: "served (count_active 1 i M) M2" "j = i" using calls_onlyD(3) [OF assms(1) 2(2,3,5)] assms(2) by auto
    have "active_operations (io_paths M ! i) + 1 \<noteq> 0" using 2(4) s(2) count_no_wrap by blast
    then have "io_paths M2 ! i = io_paths (count_active 1 i M) ! i"
      by (intro served_pinned [OF s(1)]) (use i in \<open>simp_all add: count_active_def pinned_def\<close>)
    then show ?thesis using 2(6) s(2) i served_length [OF s(1)] by (simp add: count_active_def)
  qed simp
  show "io_paths M' ! i = (if st = Q9IOMAN_OK then free_path else io_paths M ! i)" if "q9ioman_close deref lp (M, w) = (st, M', w')" for st M' w'
    using that
  proof (cases rule: close_cases)
    case (2 j ops call M2)
    then have s: "served (set_state Q9IOMAN_PATH_CLOSING i M) M2" "j = i" using calls_onlyD(4) [OF assms(1) 2(2,3,5)] assms(2) by auto
    have "io_paths M2 ! i = io_paths (set_state Q9IOMAN_PATH_CLOSING i M) ! i"
      by (rule served_pinned [OF s(1)]) (use i in \<open>simp_all add: set_state_def pinned_def\<close>)
    then show ?thesis using 2(6) s(2) i served_length [OF s(1)] by (simp add: set_state_def clear_path_def)
  qed simp
qed

lemma same_prefix_eq:
  assumes "length r < 65535"
  shows "same_prefix a r \<longleftrightarrow> a = r"
proof (cases "length a = length r")
  case True
  have "prefix a r \<longleftrightarrow> a = r" using True not_equal_is_parallel [of a r] by (auto simp: parallel_def)
  with True assms common_length_eq [of a r] show ?thesis by (simp add: same_prefix_def q9ioman_prefix_length_def)
next
  case False
  with assms show ?thesis by (auto simp: same_prefix_def q9ioman_prefix_length_def min_def)
qed

text \<open>C11: in every state calls reach, a path opened through a registered prefix has its registration,
  with the backend and context it uses, and the prefix cannot be unregistered: the manager answers busy.\<close>

theorem ioman_routes_invariant:
  assumes "calls_only deref" "ioman_reach deref M w" "p \<in> set (io_paths M)" "io_state p \<noteq> Q9IOMAN_PATH_FREE"
    and "route_prefix p = Some r" "length r < 65535"
  shows "Some \<lparr>reg_prefix = r, reg_backend = path_backend p, reg_context = backend_context p\<rparr> \<in> set (backends M) \<and>
    q9ioman_unregister_backend M r = (Q9IOMAN_E_BUSY, M)"
proof
  let ?e = "\<lparr>reg_prefix = r, reg_backend = path_backend p, reg_context = backend_context p\<rparr>"
  define same where "same x = (case x of None \<Rightarrow> False | Some e \<Rightarrow> same_prefix (reg_prefix e) r)" for x :: "Q9IOMAN_BackendRegistration option"
  have o: "routes_ok M" by (rule reach_routes [OF assms(1,2)])
  then show e: "Some ?e \<in> set (backends M)" using assms(3-5) by (auto simp: routes_ok_def route_ok_def)
  then have "r \<noteq> []" using o by (force simp: routes_ok_def)
  have "same (Some ?e)" using same_prefix_eq [OF assms(6), of r] by (simp add: same_def)
  then have "\<exists>i<length (backends M). same (backends M ! i)" using e unfolding in_set_conv_nth by metis
  then obtain i where i: "List.find (\<lambda>i. same (backends M ! i)) [0..<length (backends M)] = Some i"
    by (cases "List.find (\<lambda>i. same (backends M ! i)) [0..<length (backends M)]") (auto simp: find_None_iff)
  then have "reg_prefix (the (backends M ! i)) = r"
    using same_prefix_eq [OF assms(6)] by (auto simp: find_Some_iff same_def split: option.splits)
  then show "q9ioman_unregister_backend M r = (Q9IOMAN_E_BUSY, M)"
    using i assms(3-5) \<open>r \<noteq> []\<close>
    by (auto simp: q9ioman_unregister_backend_def q9ioman_prefix_length_def same_def [abs_def] q9ioman_text_equal_def text_equal_from_iff list_ex_iff)
qed

section \<open>A backend that calls the manager\<close>

text \<open>A plain device, and a filter that opens, operates and closes a path of the device through the manager that calls it.\<close>

definition ex_device :: "unit backend_table" where
  "ex_device b = (if b = 2 then Some \<lparr>op_open = Some (\<lambda>c n m s. (Q9IOMAN_OK, 5, s)),
     op_operate = Some (\<lambda>c p oper x y z s. (Q9IOMAN_OK, \<lparr>result_value = 0, transferred = z\<rparr>, s)),
     op_close = Some (\<lambda>c p s. (Q9IOMAN_OK, s)), op_create = None, op_name = None\<rparr> else None)"

definition ex_filter :: "unit backend_table" where
  "ex_filter b = (if b = 1 then Some \<lparr>op_open = Some (\<lambda>c n m s. q9ioman_open ex_device 2 0 n m s),
     op_operate = Some (\<lambda>c p oper x y z s. q9ioman_operate ex_device p oper x y z s),
     op_close = Some (\<lambda>c p s. q9ioman_close ex_device p s), op_create = None, op_name = None\<rparr> else ex_device b)"

lemma ex_device_calls: "calls_only ex_device"
  by (auto simp: calls_only_def ex_device_def intro: served_none)

lemma ex_filter_calls: "calls_only ex_filter"
proof -
  have o: "served (fst s) (fst (snd (snd (q9ioman_open ex_device b c n m s))))" for b c n m s
    by (cases s; cases "q9ioman_open ex_device b c n m s")
      (auto simp: q9ioman_open_def intro: open_backend_served [OF ex_device_calls])
  have p: "served (fst s) (fst (snd (snd (q9ioman_operate ex_device p oper x y z s))))" for p oper x y z s
    by (cases s; cases "q9ioman_operate ex_device p oper x y z s") (auto intro: operate_served [OF ex_device_calls])
  have c: "served (fst s) (fst (snd (q9ioman_close ex_device p s)))" for p s
    by (cases s; cases "q9ioman_close ex_device p s") (auto intro: close_served [OF ex_device_calls])
  show ?thesis using o p c ex_device_calls by (auto simp: calls_only_def ex_filter_def)
qed

definition ex_manager :: Q9IOMAN_Manager where
  "ex_manager = snd (q9ioman_register_backend ex_filter (snd (q9ioman_register_backend ex_filter
     (snd (q9ioman_init 4 \<lparr>io_paths = [], backends = []\<rparr>)) ''/f'' 1 0)) ''/f/x'' 2 0)"

lemma ex_lists: "replicate 4 x = [x, x, x, x]" "replicate 8 x = [x, x, x, x, x, x, x, x]"
  by (simp_all add: eval_nat_numeral)

lemma ex_manager: "ex_manager = \<lparr>io_paths = [free_path, free_path, free_path, free_path],
   backends = [Some \<lparr>reg_prefix = ''/f'', reg_backend = 1, reg_context = 0\<rparr>, Some \<lparr>reg_prefix = ''/f/x'', reg_backend = 2, reg_context = 0\<rparr>,
     None, None, None, None, None, None]\<rparr>"
  by (simp add: ex_manager_def q9ioman_init_def q9ioman_register_backend_def ex_filter_def ex_device_def q9ioman_prefix_length_def
    same_prefix_def ex_lists)

lemma ex_find: "q9ioman_find_backend ex_manager ''/f'' = Some \<lparr>reg_prefix = ''/f'', reg_backend = 1, reg_context = 0\<rparr>"
    "q9ioman_find_backend ex_manager ''/f/x/y'' = Some \<lparr>reg_prefix = ''/f/x'', reg_backend = 2, reg_context = 0\<rparr>"
  by (simp_all add: q9ioman_find_backend_def ex_manager find_step_def q9ioman_prefix_length_def char_at_def)

definition ex_opened :: "Q9IOMAN_Status \<times> u16 \<times> unit ioman" where
  "ex_opened = q9ioman_open_resolved ex_filter ''/f'' 3 (ex_manager, ())"

lemma ex_opened: "ex_opened = (Q9IOMAN_OK, 1,
   ex_manager\<lparr>io_paths := [
     \<lparr>io_state = Q9IOMAN_PATH_OPEN, backend_path = 2, access_mode = 3, active_operations = 0, path_backend = 1, backend_context = 0, route_prefix = Some ''/f''\<rparr>,
     \<lparr>io_state = Q9IOMAN_PATH_OPEN, backend_path = 5, access_mode = 3, active_operations = 0, path_backend = 2, backend_context = 0, route_prefix = None\<rparr>,
     free_path, free_path]\<rparr>, ())"
  unfolding ex_opened_def q9ioman_open_resolved_def fst_conv ex_find option.case
  by (simp add: q9ioman_open_backend_def q9ioman_open_def ex_filter_def ex_device_def
    ex_manager slot_updates free_path_def open_mode_def)

lemma ioman_open_spec_witness:
  "\<exists>i bp. q9ioman_find_path (fst (snd (snd ex_opened))) 1 = Some i \<and>
     io_paths (fst (snd (snd ex_opened))) ! i = \<lparr>io_state = Q9IOMAN_PATH_OPEN, backend_path = bp, access_mode = open_mode 3, active_operations = 0,
        path_backend = 1, backend_context = 0, route_prefix = Some ''/f''\<rparr>"
proof -
  obtain M' w' where o: "q9ioman_open_resolved ex_filter ''/f'' 3 (ex_manager, ()) = (Q9IOMAN_OK, 1, M', w')"
    using ex_opened by (auto simp: ex_opened_def)
  have l: "length (io_paths ex_manager) < 65536" by (simp add: ex_manager)
  show ?thesis using ioman_open_spec [OF ex_filter_calls l o] o by (auto simp: ex_opened_def ex_find)
qed

lemma ioman_reentrant_witness:
  "io_paths (fst (snd (snd (q9ioman_operate ex_filter 1 Q9IOMAN_OP_READ 0x1000 0 16 (snd (snd ex_opened)))))) ! 0
     = io_paths (fst (snd (snd ex_opened))) ! 0 \<and>
   io_paths (fst (snd (q9ioman_close ex_filter 1 (snd (snd ex_opened))))) ! 0 = free_path"
proof -
  obtain M w where s: "snd (snd ex_opened) = (M, w)" by (cases "snd (snd ex_opened)")
  have f: "q9ioman_find_path M 1 = Some 0" using s by (auto simp: ex_opened q9ioman_find_path_def)
  have "fst (q9ioman_close ex_filter 1 (M, w)) = Q9IOMAN_OK" unfolding s [symmetric]
    by (simp add: ex_opened q9ioman_close_def q9ioman_find_path_def ex_filter_def ex_device_def slot_updates)
  then show ?thesis unfolding s using ioman_reentrant [OF ex_filter_calls f, of w]
    by (cases "q9ioman_operate ex_filter 1 Q9IOMAN_OP_READ 0x1000 0 16 (M, w)"; cases "q9ioman_close ex_filter 1 (M, w)") auto
qed

lemma ioman_routes_invariant_witness:
  "q9ioman_unregister_backend (fst (snd (snd ex_opened))) ''/f'' = (Q9IOMAN_E_BUSY, fst (snd (snd ex_opened)))"
proof -
  obtain st lp M w where s: "ex_opened = (st, lp, M, w)" by (cases ex_opened) auto
  then have m: "fst (snd (snd ex_opened)) = M" by (simp only: s fst_conv snd_conv)
  have "q9ioman_init 4 \<lparr>io_paths = [], backends = []\<rparr> = (Q9IOMAN_OK, snd (q9ioman_init 4 \<lparr>io_paths = [], backends = []\<rparr>))" by (simp add: q9ioman_init_def)
  then have "ioman_reach ex_filter ex_manager ()" unfolding ex_manager_def by (intro reach_register reach_init)
  then have r: "ioman_reach ex_filter M w" by (rule reach_open_resolved [OF _ s [unfolded ex_opened_def]])
  have "0 < length (io_paths M)" "io_state (io_paths M ! 0) = Q9IOMAN_PATH_OPEN" "route_prefix (io_paths M ! 0) = Some ''/f''"
    unfolding m [symmetric] by (simp_all add: ex_opened)
  with ioman_routes_invariant [OF ex_filter_calls r, of "io_paths M ! 0" "''/f''"] show ?thesis unfolding m by simp
qed

lemma find_backend_longest_witness:
  "case q9ioman_find_backend ex_manager ''/f/x/y'' of None \<Rightarrow> False | Some e \<Rightarrow>
     covers_name (reg_prefix e) ''/f/x/y'' \<and> (\<forall>d. Some d \<in> set (backends ex_manager) \<longrightarrow> covers_name (reg_prefix d) ''/f/x/y'' \<longrightarrow>
       length (reg_prefix d) \<le> length (reg_prefix e))"
proof -
  have p: "reg_prefix e \<noteq> [] \<and> length (reg_prefix e) < 65536" if "Some e \<in> set (backends ex_manager)" for e
    using that by (auto simp: ex_manager)
  have "io_paths ex_manager \<noteq> []" "length ''/f/x/y'' < 65536" "CHR 0x00 \<notin> set ''/f/x/y''" by (simp_all add: ex_manager)
  with find_backend_longest [of ex_manager "''/f/x/y''", OF _ _ _ p] show ?thesis by (simp add: ex_find(2))
qed

end
