(* ===== verification/Q9_IomanKernel.thy ===== *)
theory Q9_IomanKernel
  imports Q9_Ioman_Props Q9_Memory
begin

text \<open>
  The kernel adapter of the I/O manager (\<^verbatim>\<open>qioman_kernel.c\<close>) and its resident instance (\<^verbatim>\<open>qioman_system.c\<close>).  The trap register frame is a byte
  array of its own, big-endian, addressed by offset; no backend writes to it.  The bridge that maps a name of the caller is a
  parameter: \<^term>\<open>None\<close> for the null pointer, else it gives a status, the name (or no name) and the bytes it takes with its
  terminating zero.
\<close>

section \<open>The frame\<close>

abbreviation Q9IOMAN_R_D0 :: u16 where "Q9IOMAN_R_D0 \<equiv> 0x00"
abbreviation Q9IOMAN_R_D1 :: u16 where "Q9IOMAN_R_D1 \<equiv> 0x04"
abbreviation Q9IOMAN_R_A0 :: u16 where "Q9IOMAN_R_A0 \<equiv> 0x20"
abbreviation Q9IOMAN_R_SR :: u16 where "Q9IOMAN_R_SR \<equiv> 0x40"

definition q9ioman_frame_read32 :: "memory \<Rightarrow> u16 \<Rightarrow> u32" where
  "q9ioman_frame_read32 frame off =
     (let byte = \<lambda>i. frame (ucast off + i) in
      push_bit 24 (ucast (byte 0)) OR push_bit 16 (ucast (byte 1)) OR push_bit 8 (ucast (byte 2)) OR ucast (byte 3))"

definition q9ioman_frame_write32 :: "memory \<Rightarrow> u16 \<Rightarrow> u32 \<Rightarrow> memory" where
  "q9ioman_frame_write32 frame off v =
     frame(ucast off := ucast (drop_bit 24 v AND 0xFF), ucast off + 1 := ucast (drop_bit 16 v AND 0xFF),
       ucast off + 2 := ucast (drop_bit 8 v AND 0xFF), ucast off + 3 := ucast (v AND 0xFF))"

definition q9ioman_frame_read16 :: "memory \<Rightarrow> u16 \<Rightarrow> u16" where
  "q9ioman_frame_read16 frame off = push_bit 8 (ucast (frame (ucast off))) OR ucast (frame (ucast off + 1))"

definition q9ioman_frame_write16 :: "memory \<Rightarrow> u16 \<Rightarrow> u16 \<Rightarrow> memory" where
  "q9ioman_frame_write16 frame off v =
     frame(ucast off := ucast (drop_bit 8 v AND 0xFF), ucast off + 1 := ucast (v AND 0xFF))"

fun q9ioman_status_to_os9_error :: "Q9IOMAN_Status \<Rightarrow> u16" where
  "q9ioman_status_to_os9_error Q9IOMAN_OK = 0"
| "q9ioman_status_to_os9_error Q9IOMAN_E_INVALID_ARGUMENT = 0xE1"
| "q9ioman_status_to_os9_error Q9IOMAN_E_INVALID_PATH = 0xC9"
| "q9ioman_status_to_os9_error Q9IOMAN_E_WRONG_MODE = 0xCB"
| "q9ioman_status_to_os9_error Q9IOMAN_E_NO_PATH_SLOTS = 0xC8"
| "q9ioman_status_to_os9_error Q9IOMAN_E_REGISTRY_FULL = 0xC8"
| "q9ioman_status_to_os9_error Q9IOMAN_E_NOT_FOUND = 0xDD"
| "q9ioman_status_to_os9_error _ = 0xD0"

section \<open>Requests\<close>

datatype Q9IOMAN_KernelRequestType =
    Q9IOMAN_KERNEL_NONE
  | Q9IOMAN_KERNEL_CREATE
  | Q9IOMAN_KERNEL_OPEN
  | Q9IOMAN_KERNEL_MAKDIR
  | Q9IOMAN_KERNEL_CHGDIR
  | Q9IOMAN_KERNEL_DELETE
  | Q9IOMAN_KERNEL_SEEK
  | Q9IOMAN_KERNEL_READ
  | Q9IOMAN_KERNEL_WRITE
  | Q9IOMAN_KERNEL_READ_LINE
  | Q9IOMAN_KERNEL_WRITE_LINE
  | Q9IOMAN_KERNEL_GET_STATUS
  | Q9IOMAN_KERNEL_SET_STATUS
  | Q9IOMAN_KERNEL_CLOSE

record Q9IOMAN_KernelRequest =
  req_type :: Q9IOMAN_KernelRequestType
  req_path :: u16
  req_mode :: u16
  req_selector :: u16
  req_status_code :: u16
  req_buffer :: u32
  req_length :: u32
  req_position :: u32

abbreviation no_request :: Q9IOMAN_KernelRequest where
  "no_request \<equiv> \<lparr>req_type = Q9IOMAN_KERNEL_NONE, req_path = 0, req_mode = 0, req_selector = 0, req_status_code = 0, req_buffer = 0,
     req_length = 0, req_position = 0\<rparr>"

definition q9ioman_decode_kernel_request :: "u16 \<Rightarrow> memory \<Rightarrow> Q9IOMAN_Status \<times> Q9IOMAN_KernelRequest" where
  "q9ioman_decode_kernel_request callcode frame =
     (let mode = ucast (q9ioman_frame_read32 frame Q9IOMAN_R_D0 AND 0xFF);
          buffer = q9ioman_frame_read32 frame Q9IOMAN_R_A0;
          low = q9ioman_frame_read16 frame (Q9IOMAN_R_D0 + 2);
          d1 = q9ioman_frame_read32 frame Q9IOMAN_R_D1;
          code = q9ioman_frame_read16 frame (Q9IOMAN_R_D1 + 2)
      in if callcode = 0x83 then (Q9IOMAN_OK, no_request\<lparr>req_type := Q9IOMAN_KERNEL_CREATE, req_mode := mode, req_buffer := buffer\<rparr>)
      else if callcode = 0x84 then (Q9IOMAN_OK, no_request\<lparr>req_type := Q9IOMAN_KERNEL_OPEN, req_mode := mode, req_buffer := buffer\<rparr>)
      else if callcode = 0x85 then (Q9IOMAN_OK, no_request\<lparr>req_type := Q9IOMAN_KERNEL_MAKDIR, req_buffer := buffer\<rparr>)
      else if callcode = 0x86 then (Q9IOMAN_OK, no_request\<lparr>req_type := Q9IOMAN_KERNEL_CHGDIR, req_selector := low, req_buffer := buffer\<rparr>)
      else if callcode = 0x87 then (Q9IOMAN_OK, no_request\<lparr>req_type := Q9IOMAN_KERNEL_DELETE, req_buffer := buffer\<rparr>)
      else if callcode = 0x88 then (Q9IOMAN_OK, no_request\<lparr>req_type := Q9IOMAN_KERNEL_SEEK, req_path := low, req_position := d1\<rparr>)
      else if callcode = 0x89 then (Q9IOMAN_OK, no_request\<lparr>req_type := Q9IOMAN_KERNEL_READ, req_path := low, req_length := d1, req_buffer := buffer\<rparr>)
      else if callcode = 0x8A \<or> callcode = 0x8B \<or> callcode = 0x8C then
        (Q9IOMAN_OK, no_request\<lparr>req_type := (if callcode = 0x8A then Q9IOMAN_KERNEL_WRITE
             else if callcode = 0x8B then Q9IOMAN_KERNEL_READ_LINE else Q9IOMAN_KERNEL_WRITE_LINE),
           req_path := low, req_length := d1, req_buffer := buffer\<rparr>)
      else if callcode = 0x8D \<or> callcode = 0x8E then
        (Q9IOMAN_OK, no_request\<lparr>req_type := (if callcode = 0x8D then Q9IOMAN_KERNEL_GET_STATUS else Q9IOMAN_KERNEL_SET_STATUS),
           req_path := low, req_status_code := code, req_buffer := buffer\<rparr>)
      else if callcode = 0x8F then (Q9IOMAN_OK, no_request\<lparr>req_type := Q9IOMAN_KERNEL_CLOSE, req_path := low\<rparr>)
      else (Q9IOMAN_E_UNSUPPORTED_OPERATION, no_request))"

definition q9ioman_set_carry :: "memory \<Rightarrow> bool \<Rightarrow> memory" where
  "q9ioman_set_carry frame on =
     (let status = q9ioman_frame_read16 frame Q9IOMAN_R_SR
      in q9ioman_frame_write16 frame Q9IOMAN_R_SR (if on then status OR 1 else status AND 0xFFFE))"

section \<open>Dispatch\<close>

type_synonym name_bridge = "(u32 \<Rightarrow> Q9IOMAN_Status \<times> string option \<times> u32) option"

text \<open>The name of a request and its size in bytes, or the status that refuses it.\<close>

definition resolve_name :: "name_bridge \<Rightarrow> u32 \<Rightarrow> Q9IOMAN_Status + string \<times> u32" where
  "resolve_name resolve_path buffer =
     (case resolve_path of
        None \<Rightarrow> Inl Q9IOMAN_E_INVALID_ARGUMENT
      | Some f \<Rightarrow>
          (let (status, name, name_bytes) = f buffer in
           if status \<noteq> Q9IOMAN_OK then Inl status
           else case name of
             None \<Rightarrow> Inl Q9IOMAN_E_INVALID_ARGUMENT
           | Some n \<Rightarrow>
               if name_bytes = 0 \<or> buffer > 0xFFFFFFFF - name_bytes then Inl Q9IOMAN_E_INVALID_ARGUMENT
               else Inr (n, name_bytes)))"

text \<open>The branches of the dispatcher: the frame on success, the status on failure, and the new state.\<close>

definition kernel_open :: "'w backend_table \<Rightarrow> name_bridge \<Rightarrow> Q9IOMAN_KernelRequest \<Rightarrow> memory \<Rightarrow> 'w ioman \<Rightarrow> (Q9IOMAN_Status + memory) \<times> 'w ioman" where
  "kernel_open deref resolve_path request frame s =
     (case resolve_name resolve_path (req_buffer request) of
        Inl status \<Rightarrow> (Inl status, s)
      | Inr (name, name_bytes) \<Rightarrow>
          (let (status, lp, s2) = (if req_type request = Q9IOMAN_KERNEL_CREATE then q9ioman_create_resolved deref name (req_mode request) s
                                   else q9ioman_open_resolved deref name (req_mode request) s)
           in if status \<noteq> Q9IOMAN_OK then (Inl status, s2)
              else (Inr (q9ioman_frame_write32 (q9ioman_frame_write32 frame Q9IOMAN_R_D0 (ucast lp)) Q9IOMAN_R_A0 (req_buffer request + name_bytes)), s2)))"

definition kernel_name :: "'w backend_table \<Rightarrow> name_bridge \<Rightarrow> Q9IOMAN_KernelRequest \<Rightarrow> memory \<Rightarrow> 'w ioman \<Rightarrow> (Q9IOMAN_Status + memory) \<times> 'w ioman" where
  "kernel_name deref resolve_path request frame s =
     (case resolve_name resolve_path (req_buffer request) of
        Inl status \<Rightarrow> (Inl status, s)
      | Inr (name, name_bytes) \<Rightarrow>
          (let (status, result, s2) = q9ioman_name_operation deref name
                 (if req_type request = Q9IOMAN_KERNEL_MAKDIR then Q9IOMAN_OP_MAKE_DIR else Q9IOMAN_OP_DELETE) no_result s
           in if status \<noteq> Q9IOMAN_OK then (Inl status, s2) else (Inr frame, s2)))"

definition kernel_transfer :: "'w backend_table \<Rightarrow> Q9IOMAN_KernelRequest \<Rightarrow> memory \<Rightarrow> 'w ioman \<Rightarrow> (Q9IOMAN_Status + memory) \<times> 'w ioman" where
  "kernel_transfer deref request frame s =
     (let operation = (if req_type request = Q9IOMAN_KERNEL_WRITE then Q9IOMAN_OP_WRITE
            else if req_type request = Q9IOMAN_KERNEL_READ_LINE then Q9IOMAN_OP_READ_LINE
            else if req_type request = Q9IOMAN_KERNEL_WRITE_LINE then Q9IOMAN_OP_WRITE_LINE else Q9IOMAN_OP_READ)
      in if req_length request \<noteq> 0 \<and> (req_buffer request = 0 \<or> req_buffer request > 0xFFFFFFFF - (req_length request - 1))
         then (Inl Q9IOMAN_E_INVALID_ARGUMENT, s)
         else let (status, result, s2) = q9ioman_operate deref (req_path request) operation (req_buffer request) 0 (req_length request) s
              in if status \<noteq> Q9IOMAN_OK then (Inl status, s2)
                 else if transferred result > req_length request then (Inl Q9IOMAN_E_INVALID_ARGUMENT, s2)
                 else (Inr (q9ioman_frame_write32 frame Q9IOMAN_R_D1 (transferred result)), s2))"

definition kernel_operate ::
  "'w backend_table \<Rightarrow> Q9IOMAN_Operation \<Rightarrow> u32 \<Rightarrow> u32 \<Rightarrow> Q9IOMAN_KernelRequest \<Rightarrow> memory \<Rightarrow> 'w ioman \<Rightarrow> (Q9IOMAN_Status + memory) \<times> 'w ioman" where
  "kernel_operate deref operation arg0 arg1 request frame s =
     (let (status, result, s2) = q9ioman_operate deref (req_path request) operation arg0 arg1 0 s
      in if status \<noteq> Q9IOMAN_OK then (Inl status, s2) else (Inr frame, s2))"

definition kernel_close :: "'w backend_table \<Rightarrow> Q9IOMAN_KernelRequest \<Rightarrow> memory \<Rightarrow> 'w ioman \<Rightarrow> (Q9IOMAN_Status + memory) \<times> 'w ioman" where
  "kernel_close deref request frame s =
     (let (status, s2) = q9ioman_close deref (req_path request) s
      in if status \<noteq> Q9IOMAN_OK then (Inl status, s2) else (Inr frame, s2))"

definition kernel_request :: "'w backend_table \<Rightarrow> name_bridge \<Rightarrow> Q9IOMAN_KernelRequest \<Rightarrow> memory \<Rightarrow> 'w ioman \<Rightarrow> (Q9IOMAN_Status + memory) \<times> 'w ioman" where
  "kernel_request deref resolve_path request frame s =
     (case req_type request of
        Q9IOMAN_KERNEL_OPEN \<Rightarrow> kernel_open deref resolve_path request frame s
      | Q9IOMAN_KERNEL_CREATE \<Rightarrow> kernel_open deref resolve_path request frame s
      | Q9IOMAN_KERNEL_MAKDIR \<Rightarrow> kernel_name deref resolve_path request frame s
      | Q9IOMAN_KERNEL_DELETE \<Rightarrow> kernel_name deref resolve_path request frame s
      | Q9IOMAN_KERNEL_READ \<Rightarrow> kernel_transfer deref request frame s
      | Q9IOMAN_KERNEL_WRITE \<Rightarrow> kernel_transfer deref request frame s
      | Q9IOMAN_KERNEL_READ_LINE \<Rightarrow> kernel_transfer deref request frame s
      | Q9IOMAN_KERNEL_WRITE_LINE \<Rightarrow> kernel_transfer deref request frame s
      | Q9IOMAN_KERNEL_SEEK \<Rightarrow> kernel_operate deref Q9IOMAN_OP_SEEK (req_position request) 0 request frame s
      | Q9IOMAN_KERNEL_GET_STATUS \<Rightarrow> kernel_operate deref Q9IOMAN_OP_GET_STATUS (ucast (req_status_code request)) (req_buffer request) request frame s
      | Q9IOMAN_KERNEL_SET_STATUS \<Rightarrow> kernel_operate deref Q9IOMAN_OP_SET_STATUS (ucast (req_status_code request)) (req_buffer request) request frame s
      | Q9IOMAN_KERNEL_CLOSE \<Rightarrow> kernel_close deref request frame s
      | _ \<Rightarrow> (Inl Q9IOMAN_E_UNSUPPORTED_OPERATION, s))"

text \<open>The label \<open>failed\<close>: the error number in the low word of \<open>D1\<close> and the carry.\<close>

definition kernel_failed :: "Q9IOMAN_Status \<Rightarrow> memory \<Rightarrow> memory" where
  "kernel_failed status frame =
     q9ioman_set_carry (q9ioman_frame_write16 frame (Q9IOMAN_R_D1 + 2) (q9ioman_status_to_os9_error status)) True"

definition q9ioman_dispatch_kernel_request ::
  "'w backend_table \<Rightarrow> name_bridge \<Rightarrow> u16 \<Rightarrow> bool \<Rightarrow> memory \<Rightarrow> 'w ioman \<Rightarrow> Q9IOMAN_Status \<times> memory \<times> 'w ioman" where
  "q9ioman_dispatch_kernel_request deref resolve_path callcode manager frame s =
     (if \<not> manager then (Q9IOMAN_E_INVALID_ARGUMENT, kernel_failed Q9IOMAN_E_INVALID_ARGUMENT frame, s)
      else let (status, request) = q9ioman_decode_kernel_request callcode frame in
        if status \<noteq> Q9IOMAN_OK then (status, kernel_failed status frame, s)
        else case kernel_request deref resolve_path request frame s of
            (Inl st, s2) \<Rightarrow> (st, kernel_failed st frame, s2)
          | (Inr frame2, s2) \<Rightarrow> (Q9IOMAN_OK, q9ioman_set_carry frame2 False, s2))"

section \<open>The resident manager\<close>

record q9ioman_system =
  q9ioman_system_state :: Q9IOMAN_Manager
  q9ioman_system_initialized :: u16

definition q9ioman_system_init :: "q9ioman_system \<Rightarrow> Q9IOMAN_Status \<times> q9ioman_system" where
  "q9ioman_system_init y =
     (if q9ioman_system_initialized y \<noteq> 0 then (Q9IOMAN_OK, y)
      else let (status, M) = q9ioman_init 32 (q9ioman_system_state y)
           in (status, (if status = Q9IOMAN_OK then y\<lparr>q9ioman_system_state := M, q9ioman_system_initialized := 1\<rparr>
                        else y\<lparr>q9ioman_system_state := M\<rparr>)))"

definition q9ioman_system_manager :: "q9ioman_system \<Rightarrow> Q9IOMAN_Manager option" where
  "q9ioman_system_manager y = (if q9ioman_system_initialized y = 0 then None else Some (q9ioman_system_state y))"

section \<open>What the caller sees\<close>

lemma frame_cells:
  "q9ioman_frame_read32 f p = Q9K_GetU32 f (ucast p)" "q9ioman_frame_read16 f p = Q9K_GetU16 f (ucast p)"
  "q9ioman_frame_write32 f p v = Q9K_SetU32 f (ucast p) v" "q9ioman_frame_write16 f p x = Q9K_SetU16 f (ucast p) x"
proof -
  have u: "ucast (v AND 0xFF) = (ucast v :: u8)" "ucast (x AND 0xFF) = (ucast x :: u8)" for v :: u32 and x :: u16
    by (rule bit_word_eqI; auto simp: bit_simps and_FF and_FF_16)+
  show "q9ioman_frame_read32 f p = Q9K_GetU32 f (ucast p)" "q9ioman_frame_read16 f p = Q9K_GetU16 f (ucast p)"
    by (simp_all add: q9ioman_frame_read32_def q9ioman_frame_read16_def Q9K_GetU32_def Q9K_GetU16_def)
  show "q9ioman_frame_write32 f p v = Q9K_SetU32 f (ucast p) v" "q9ioman_frame_write16 f p x = Q9K_SetU16 f (ucast p) x"
    by (simp_all only: q9ioman_frame_write32_def q9ioman_frame_write16_def Q9K_SetU32_def Q9K_SetU16_def u)
qed

lemma carry_frame:
  "q9ioman_frame_read16 (q9ioman_set_carry f on) Q9IOMAN_R_SR =
     (if on then q9ioman_frame_read16 f Q9IOMAN_R_SR OR 1 else q9ioman_frame_read16 f Q9IOMAN_R_SR AND 0xFFFE)"
  "a \<notin> {0x40, 0x41} \<Longrightarrow> q9ioman_set_carry f on a = f a"
proof -
  show "q9ioman_frame_read16 (q9ioman_set_carry f on) Q9IOMAN_R_SR =
      (if on then q9ioman_frame_read16 f Q9IOMAN_R_SR OR 1 else q9ioman_frame_read16 f Q9IOMAN_R_SR AND 0xFFFE)"
    by (simp add: q9ioman_set_carry_def frame_cells GetU16_SetU16 Let_def)
  show "a \<notin> {0x40, 0x41} \<Longrightarrow> q9ioman_set_carry f on a = f a"
    by (simp add: q9ioman_set_carry_def frame_cells Q9K_SetU16_def Let_def)
qed

lemma carry_reads [simp]:
  "Q9K_GetU32 (q9ioman_set_carry f on) 4 = Q9K_GetU32 f 4" "Q9K_GetU32 (q9ioman_set_carry f on) 0x20 = Q9K_GetU32 f 0x20"
  "Q9K_GetU16 (q9ioman_set_carry f on) 2 = Q9K_GetU16 f 2" "Q9K_GetU16 (q9ioman_set_carry f on) 6 = Q9K_GetU16 f 6"
  by (simp_all add: Q9K_GetU32_def Q9K_GetU16_def carry_frame(2))

lemma failed_frame:
  "q9ioman_frame_read16 (kernel_failed st f) (Q9IOMAN_R_D1 + 2) = q9ioman_status_to_os9_error st"
  "q9ioman_frame_read16 (kernel_failed st f) Q9IOMAN_R_SR = q9ioman_frame_read16 f Q9IOMAN_R_SR OR 1"
  "a \<notin> {6, 7, 0x40, 0x41} \<Longrightarrow> kernel_failed st f a = f a"
proof -
  note c = carry_frame [where f = "q9ioman_frame_write16 f (Q9IOMAN_R_D1 + 2) (q9ioman_status_to_os9_error st)" and on = True]
  show "q9ioman_frame_read16 (kernel_failed st f) (Q9IOMAN_R_D1 + 2) = q9ioman_status_to_os9_error st"
    "q9ioman_frame_read16 (kernel_failed st f) Q9IOMAN_R_SR = q9ioman_frame_read16 f Q9IOMAN_R_SR OR 1"
    using c(1) by (simp_all add: kernel_failed_def frame_cells)
  show "a \<notin> {6, 7, 0x40, 0x41} \<Longrightarrow> kernel_failed st f a = f a"
    using c(2) [of a] by (simp add: kernel_failed_def frame_cells Q9K_SetU16_def)
qed

lemma error_nonzero: "q9ioman_status_to_os9_error st = 0 \<longleftrightarrow> st = Q9IOMAN_OK"
  by (cases st) simp_all

lemma transfer_bound:
  "kernel_transfer deref request f s = (Inr f', s') \<Longrightarrow> q9ioman_frame_read32 f' Q9IOMAN_R_D1 \<le> req_length request"
  by (auto simp: kernel_transfer_def frame_cells GetU32_SetU32 Let_def not_less split: if_splits prod.splits)

lemma kernel_request_status: "kernel_request deref rp request f s = (Inl st, s') \<Longrightarrow> st \<noteq> Q9IOMAN_OK"
  by (auto simp: kernel_request_def kernel_open_def kernel_name_def kernel_transfer_def kernel_operate_def kernel_close_def
    resolve_name_def Let_def split: Q9IOMAN_KernelRequestType.splits sum.splits if_splits prod.splits option.splits)

lemma dispatch_ok:
  assumes "q9ioman_dispatch_kernel_request deref resolve_path callcode manager frame s = (Q9IOMAN_OK, frame', s')"
  obtains request f where "q9ioman_decode_kernel_request callcode frame = (Q9IOMAN_OK, request)"
      "kernel_request deref resolve_path request frame s = (Inr f, s')" "frame' = q9ioman_set_carry f False"
  using assms by (auto simp: q9ioman_dispatch_kernel_request_def dest: kernel_request_status split: if_splits prod.splits sum.splits)

text \<open>The bytes of the frame in which a successful request returns its results: \<open>D0\<close> and \<open>A0\<close> for an open or a create, \<open>D1\<close> for a
  transfer, none for the other requests.\<close>

definition result_bytes :: "u16 \<Rightarrow> u32 set" where
  "result_bytes callcode =
     (if callcode \<in> {0x83, 0x84} then {0, 1, 2, 3, 0x20, 0x21, 0x22, 0x23}
      else if callcode \<in> {0x89, 0x8A, 0x8B, 0x8C} then {4, 5, 6, 7} else {})"

lemma request_frame:
  assumes "q9ioman_decode_kernel_request callcode frame = (Q9IOMAN_OK, request)"
    and "kernel_request deref resolve_path request frame s = (Inr f, s')" "a \<notin> result_bytes callcode"
  shows "f a = frame a"
  using assms by (auto simp: q9ioman_decode_kernel_request_def result_bytes_def kernel_request_def kernel_open_def kernel_name_def
    kernel_transfer_def kernel_operate_def kernel_close_def frame_cells Q9K_SetU32_def Let_def
    split: if_splits sum.splits prod.splits)

text \<open>C14: a kernel request that succeeds clears the carry in the status register and changes, besides it, only the
  registers its results are returned in: \<open>D0\<close> and \<open>A0\<close> for an open or a create, \<open>D1\<close> for a transfer, which reports there at most the length
  asked for.  One that fails sets the carry and leaves the error number, never zero, in the low word of \<open>D1\<close>; no other byte of the frame
  changes.  In both cases the other fifteen bits of the status register are as before.\<close>

theorem kernel_dispatch_frame:
  assumes "q9ioman_dispatch_kernel_request deref resolve_path callcode manager frame s = (st, frame', s')"
  shows "if st = Q9IOMAN_OK
     then q9ioman_frame_read16 frame' Q9IOMAN_R_SR = q9ioman_frame_read16 frame Q9IOMAN_R_SR AND 0xFFFE \<and>
       (callcode \<in> {0x89, 0x8A, 0x8B, 0x8C} \<longrightarrow> q9ioman_frame_read32 frame' Q9IOMAN_R_D1 \<le> q9ioman_frame_read32 frame Q9IOMAN_R_D1) \<and>
       (\<forall>a. a \<notin> result_bytes callcode \<union> {0x40, 0x41} \<longrightarrow> frame' a = frame a)
     else q9ioman_frame_read16 frame' Q9IOMAN_R_SR = q9ioman_frame_read16 frame Q9IOMAN_R_SR OR 1 \<and>
       q9ioman_frame_read16 frame' (Q9IOMAN_R_D1 + 2) = q9ioman_status_to_os9_error st \<and>
       q9ioman_status_to_os9_error st \<noteq> 0 \<and> (\<forall>a. a \<notin> {6, 7, 0x40, 0x41} \<longrightarrow> frame' a = frame a)"
proof (cases "st = Q9IOMAN_OK")
  case False
  with assms have "frame' = kernel_failed st frame"
    by (auto simp: q9ioman_dispatch_kernel_request_def Let_def split: if_splits prod.splits sum.splits)
  with False show ?thesis using failed_frame [where st = st and f = frame] error_nonzero [of st] by simp
next
  case True
  then obtain request f where f: "q9ioman_decode_kernel_request callcode frame = (Q9IOMAN_OK, request)"
      "kernel_request deref resolve_path request frame s = (Inr f, s')" "frame' = q9ioman_set_carry f False"
    using assms by (auto elim: dispatch_ok)
  note k = request_frame [OF f(1,2)]
  have "0x40 \<notin> result_bytes callcode" "0x41 \<notin> result_bytes callcode" by (simp_all add: result_bytes_def)
  then have "q9ioman_frame_read16 f Q9IOMAN_R_SR = q9ioman_frame_read16 frame Q9IOMAN_R_SR"
    using k [of "0x40"] k [of "0x41"] by (simp add: q9ioman_frame_read16_def)
  moreover have "q9ioman_frame_read32 f Q9IOMAN_R_D1 \<le> q9ioman_frame_read32 frame Q9IOMAN_R_D1" if "callcode \<in> {0x89, 0x8A, 0x8B, 0x8C}"
    using that f(1,2) transfer_bound [of deref request frame s f s']
    by (auto simp: q9ioman_decode_kernel_request_def kernel_request_def)
  ultimately show ?thesis using True f(3) k carry_frame [where f = f and on = False] by (simp add: frame_cells)
qed

text \<open>The path number in the low word of \<open>D0\<close> after an open is an open path.\<close>

lemma GetU16_SetU32_low: "Q9K_GetU16 (Q9K_SetU32 f a (ucast v)) (a + 2) = v" for v :: u16
proof (rule bit_word_eqI)
  fix n assume "n < LENGTH(16)"
  then consider "n < 8" | "8 \<le> n" "n < 16" by force
  then show "bit (Q9K_GetU16 (Q9K_SetU32 f a (ucast v)) (a + 2)) n = bit v n"
    by cases (auto simp add: Q9K_GetU16_def Q9K_SetU32_def bit_simps)
qed

text \<open>C15: when the open request succeeds, the low word of \<open>D0\<close> is the number of an open path, with which the following requests
  find the backend the name resolves to, and \<open>A0\<close> is past the name, without wrap-around.\<close>

theorem kernel_open_spec:
  assumes "calls_only deref" "length (io_paths M) < 65536"
    and "q9ioman_dispatch_kernel_request deref (Some bridge) 0x84 manager frame (M, w) = (Q9IOMAN_OK, frame', M', w')"
  shows "\<exists>name n e i. bridge (q9ioman_frame_read32 frame Q9IOMAN_R_A0) = (Q9IOMAN_OK, Some name, n) \<and> q9ioman_find_backend M name = Some e \<and>
     q9ioman_find_path M' (q9ioman_frame_read16 frame' (Q9IOMAN_R_D0 + 2)) = Some i \<and> path_backend (io_paths M' ! i) = reg_backend e \<and>
     unat (q9ioman_frame_read32 frame' Q9IOMAN_R_A0) = unat (q9ioman_frame_read32 frame Q9IOMAN_R_A0) + unat n"
proof -
  let ?a = "q9ioman_frame_read32 frame Q9IOMAN_R_A0"
  let ?mode = "ucast (q9ioman_frame_read32 frame Q9IOMAN_R_D0 AND 0xFF)"
  obtain f where f: "kernel_open deref (Some bridge) (no_request\<lparr>req_type := Q9IOMAN_KERNEL_OPEN, req_mode := ?mode, req_buffer := ?a\<rparr>) frame (M, w)
      = (Inr f, M', w')" "frame' = q9ioman_set_carry f False"
    using assms(3) by (elim dispatch_ok) (auto simp: q9ioman_decode_kernel_request_def kernel_request_def)
  then obtain name n where r: "resolve_name (Some bridge) ?a = Inr (name, n)" by (auto simp: kernel_open_def split: sum.splits)
  with f(1) obtain lp where o: "q9ioman_open_resolved deref name ?mode (M, w) = (Q9IOMAN_OK, lp, M', w')"
      "f = q9ioman_frame_write32 (q9ioman_frame_write32 frame Q9IOMAN_R_D0 (ucast lp)) Q9IOMAN_R_A0 (?a + n)"
    by (auto simp: kernel_open_def Let_def split: if_splits prod.splits)
  have b: "bridge ?a = (Q9IOMAN_OK, Some name, n)" "\<not> ?a > 0xFFFFFFFF - n"
    using r by (auto simp: resolve_name_def Let_def split: prod.splits if_splits option.splits)
  obtain e where e: "q9ioman_find_backend M name = Some e"
    "q9ioman_open_backend deref (reg_backend e) (reg_context e) name (Some (reg_prefix e)) ?mode False (M, w) = (Q9IOMAN_OK, lp, M', w')"
    using o(1) by (auto elim: open_resolved_cases)
  obtain i where i: "q9ioman_find_path M' lp = Some i" "path_backend (io_paths M' ! i) = reg_backend e"
    using open_slot [OF assms(1) e(2) assms(2)] by (metis Q9IOMAN_Path.select_convs(5))
  have "n \<le> 0xFFFFFFFF" using unat_u32_less [of n] by (simp add: word_le_nat_alt)
  then have "unat (0xFFFFFFFF - n) = 0xFFFFFFFF - unat n" by (simp add: unat_sub)
  moreover have "unat ?a \<le> unat (0xFFFFFFFF - n)" using b(2) by (simp add: not_less word_le_nat_alt)
  ultimately have "unat ?a + unat n < 2 ^ 32" using unat_u32_less [of n] by simp
  then have "unat (?a + n) = unat ?a + unat n" by (rule unat_offset)
  moreover have "q9ioman_frame_read16 frame' (Q9IOMAN_R_D0 + 2) = lp" "q9ioman_frame_read32 frame' Q9IOMAN_R_A0 = ?a + n"
    using GetU16_SetU32_low [of frame 0 lp] unfolding f(2) o(2) by (simp_all add: frame_cells GetU32_SetU32 c16_32.frame)
  ultimately show ?thesis using b(1) e(1) i by auto
qed

definition ex_frame :: memory where
  "ex_frame = Q9K_SetU16 (Q9K_SetU32 (Q9K_SetU32 (\<lambda>_. 0) 0 3) 0x20 0x1000) 0x40 0x2701"

abbreviation ex_bridge :: "u32 \<Rightarrow> Q9IOMAN_Status \<times> string option \<times> u32" where
  "ex_bridge \<equiv> \<lambda>a. (Q9IOMAN_OK, Some ''/f'', 3)"

lemma ex_dispatch:
  "\<exists>f w. q9ioman_dispatch_kernel_request ex_filter (Some ex_bridge) 0x84 True ex_frame (ex_manager, ()) = (Q9IOMAN_OK, f, fst (snd (snd ex_opened)), w)"
proof -
  have "q9ioman_frame_read32 ex_frame Q9IOMAN_R_A0 = 0x1000" "q9ioman_frame_read32 ex_frame Q9IOMAN_R_D0 = 3"
    by (simp_all add: frame_cells ex_frame_def)
  moreover have "q9ioman_open_resolved ex_filter ''/f'' 3 (ex_manager, ()) = (Q9IOMAN_OK, 1, fst (snd (snd ex_opened)), ())"
    using ex_opened unfolding ex_opened_def by simp
  ultimately show ?thesis
    by (simp add: q9ioman_dispatch_kernel_request_def q9ioman_decode_kernel_request_def kernel_request_def kernel_open_def resolve_name_def)
qed

lemma kernel_open_spec_witness:
  "\<exists>f w i. q9ioman_dispatch_kernel_request ex_filter (Some ex_bridge) 0x84 True ex_frame (ex_manager, ()) = (Q9IOMAN_OK, f, fst (snd (snd ex_opened)), w) \<and>
     q9ioman_find_path (fst (snd (snd ex_opened))) (q9ioman_frame_read16 f (Q9IOMAN_R_D0 + 2)) = Some i \<and>
     unat (q9ioman_frame_read32 f Q9IOMAN_R_A0) = unat (q9ioman_frame_read32 ex_frame Q9IOMAN_R_A0) + 3"
proof -
  obtain f w where d: "q9ioman_dispatch_kernel_request ex_filter (Some ex_bridge) 0x84 True ex_frame (ex_manager, ()) = (Q9IOMAN_OK, f, fst (snd (snd ex_opened)), w)"
    using ex_dispatch by blast
  have "length (io_paths ex_manager) < 65536" by (simp add: ex_manager)
  from kernel_open_spec [OF ex_filter_calls this d] d show ?thesis by auto
qed

lemma kernel_dispatch_frame_witness:
  "\<exists>f s g w. q9ioman_dispatch_kernel_request ex_filter None 0x8F True ex_frame (ex_manager, ()) = (Q9IOMAN_E_INVALID_PATH, f, s) \<and>
     q9ioman_frame_read16 f (Q9IOMAN_R_D1 + 2) = 0xC9 \<and> q9ioman_frame_read16 f Q9IOMAN_R_SR = 0x2701 \<and> f 0x20 = ex_frame 0x20 \<and>
     q9ioman_dispatch_kernel_request ex_filter (Some ex_bridge) 0x84 True ex_frame (ex_manager, ()) = (Q9IOMAN_OK, g, fst (snd (snd ex_opened)), w) \<and>
     q9ioman_frame_read16 g Q9IOMAN_R_SR = 0x2700 \<and> g 4 = ex_frame 4"
proof -
  have r: "q9ioman_frame_read16 ex_frame Q9IOMAN_R_SR = 0x2701" by (simp add: frame_cells ex_frame_def GetU16_SetU16)
  have "q9ioman_find_path ex_manager (q9ioman_frame_read16 ex_frame 2) = None"
    by (auto simp: q9ioman_find_path_def ex_manager free_path_def nth_Cons' dest: gr_implies_not0)
  then obtain f s where d: "q9ioman_dispatch_kernel_request ex_filter None 0x8F True ex_frame (ex_manager, ()) = (Q9IOMAN_E_INVALID_PATH, f, s)"
    by (simp add: q9ioman_dispatch_kernel_request_def q9ioman_decode_kernel_request_def kernel_request_def kernel_close_def q9ioman_close_def)
  obtain g w where o: "q9ioman_dispatch_kernel_request ex_filter (Some ex_bridge) 0x84 True ex_frame (ex_manager, ()) =
      (Q9IOMAN_OK, g, fst (snd (snd ex_opened)), w)" using ex_dispatch by blast
  from kernel_dispatch_frame [OF d] kernel_dispatch_frame [OF o] d o r show ?thesis
    by (intro exI [of _ f] exI [of _ s] exI [of _ g] exI [of _ w]) (simp add: result_bytes_def)
qed

end
