(* ===== verification/Q9_HostTools.thy ===== *)
theory Q9_HostTools
  imports Q9_ModCrc
begin

text \<open>
  The module side of the tools under \<^verbatim>\<open>common\<close>: the descriptor generator of \<^verbatim>\<open>mbr.c\<close> with its own CRC and parity, its recognition of boot
  sectors, and the header format detection, checksum and parity of \<^verbatim>\<open>q9moduleheader.c\<close>.  The static module buffer is the memory from address
  \<open>mb\<close> on, a sector or a raw module the memory from \<open>b\<close> on; \<open>unsigned long\<close> has 32 bits, as on the target.  Reading and writing
  the files and printing are not modelled.
\<close>

section \<open>Byte order\<close>

definition u16le :: "memory \<Rightarrow> u32 \<Rightarrow> u32" where
  "u16le m p = ucast (m p) OR push_bit 8 (ucast (m (p + 1)))"

definition u32le :: "memory \<Rightarrow> u32 \<Rightarrow> u32" where
  "u32le m p = ucast (m p) OR push_bit 8 (ucast (m (p + 1))) OR push_bit 16 (ucast (m (p + 2))) OR push_bit 24 (ucast (m (p + 3)))"

definition u24be :: "memory \<Rightarrow> u32 \<Rightarrow> u32" where
  "u24be m p = push_bit 16 (ucast (m p)) OR push_bit 8 (ucast (m (p + 1))) OR ucast (m (p + 2))"

definition u16be :: "memory \<Rightarrow> u32 \<Rightarrow> u32" where
  "u16be m p = push_bit 8 (ucast (m p)) OR ucast (m (p + 1))"

definition u32be :: "memory \<Rightarrow> u32 \<Rightarrow> u32" where
  "u32be m p = push_bit 24 (ucast (m p)) OR push_bit 16 (ucast (m (p + 1))) OR push_bit 8 (ucast (m (p + 2))) OR ucast (m (p + 3))"

definition put16be :: "memory \<Rightarrow> u32 \<Rightarrow> u32 \<Rightarrow> memory" where
  "put16be m p v = m(p := ucast (drop_bit 8 v), p + 1 := ucast v)"

definition put32be :: "memory \<Rightarrow> u32 \<Rightarrow> u32 \<Rightarrow> memory" where
  "put32be m p v = m(p := ucast (drop_bit 24 v), p + 1 := ucast (drop_bit 16 v), p + 2 := ucast (drop_bit 8 v), p + 3 := ucast v)"

abbreviation MODULE_MAX :: u32 where "MODULE_MAX \<equiv> 256"

section \<open>The check values of a module\<close>

text \<open>One byte of the CRC; the value \<open>a\<close> is not cut to a byte between the shifts.\<close>

definition os9_crc_step :: "u8 \<Rightarrow> u8 \<times> u8 \<times> u8 \<Rightarrow> u8 \<times> u8 \<times> u8" where
  "os9_crc_step b crc =
     (let (crc0, crc1, crc2) = crc;
          a = ucast (b XOR crc0) :: u32;
          crc0 = crc1;
          crc1 = crc2;
          crc1 = crc1 XOR ucast (drop_bit 7 a);
          crc2 = ucast (push_bit 1 a);
          crc1 = crc1 XOR ucast (drop_bit 2 a);
          crc2 = crc2 XOR ucast (push_bit 6 a);
          a = a XOR push_bit 1 a;
          a = a XOR push_bit 2 a;
          a = a XOR push_bit 4 a;
          a = a AND 0xFF
      in if a AND 0x80 \<noteq> 0 then (crc0 XOR 0x80, crc1, crc2 XOR 0x21) else (crc0, crc1, crc2))"

fun os9_crc_loop :: "nat \<Rightarrow> memory \<Rightarrow> u32 \<Rightarrow> u8 \<times> u8 \<times> u8 \<Rightarrow> u8 \<times> u8 \<times> u8" where
  "os9_crc_loop 0 m p crc = crc"
| "os9_crc_loop (Suc n) m p crc = os9_crc_loop n m (p + 1) (os9_crc_step (m p) crc)"

definition os9_crc :: "memory \<Rightarrow> u32 \<Rightarrow> u32 \<Rightarrow> u8 \<times> u8 \<times> u8" where
  "os9_crc m data len =
     (let (crc0, crc1, crc2) = os9_crc_loop (unat len) m data (0xFF, 0xFF, 0xFF)
      in (crc0 XOR 0xFF, crc1 XOR 0xFF, crc2 XOR 0xFF))"

fun parity_loop :: "nat \<Rightarrow> memory \<Rightarrow> u32 \<Rightarrow> u32 \<Rightarrow> u32" where
  "parity_loop 0 m p parity = parity"
| "parity_loop (Suc n) m p parity = parity_loop n m (p + 2) (parity XOR (push_bit 8 (ucast (m p)) OR ucast (m (p + 1))))"

definition repair_module :: "memory \<Rightarrow> u32 \<Rightarrow> memory" where
  "repair_module m mb =
     (let n = u32be m (mb + 4);
          parity = parity_loop 23 m mb 0;
          m1 = put16be m (mb + 0x2E) (0xFFFF XOR parity);
          (c0, c1, c2) = os9_crc m1 mb (n - 3)
      in m1(mb + (n - 3) := c0, mb + (n - 2) := c1, mb + (n - 1) := c2))"

section \<open>The descriptor generator\<close>

fun module_chars :: "nat \<Rightarrow> memory \<Rightarrow> u32 \<Rightarrow> u32 \<Rightarrow> u8 list \<times> u32" where
  "module_chars 0 m mb off = ([], off)"
| "module_chars (Suc k) m mb off =
     (if off < MODULE_MAX \<and> m (mb + off) \<noteq> 0
      then let (cs, e) = module_chars k m mb (off + 1) in ((m (mb + off) AND 0x7F) # cs, e)
      else ([], off))"

definition module_string :: "memory \<Rightarrow> u32 \<Rightarrow> u32 \<Rightarrow> nat \<Rightarrow> u8 list option" where
  "module_string m mb off maxlen =
     (if off \<ge> MODULE_MAX \<or> maxlen = 0 then None
      else let (cs, e) = module_chars (maxlen - 1) m mb off
           in if e < MODULE_MAX \<and> m (mb + e) = 0 then Some cs else None)"

definition load_ok :: "memory \<Rightarrow> u32 \<Rightarrow> u32 \<Rightarrow> bool" where
  "load_ok m mb n \<longleftrightarrow> \<not> (n < 51 \<or> n > MODULE_MAX) \<and> m mb = 0x4A \<and> m (mb + 1) = 0xFC \<and> u32be m (mb + 4) = n"

fun strcpy :: "memory \<Rightarrow> u32 \<Rightarrow> u8 list \<Rightarrow> memory" where
  "strcpy m p [] = m(p := 0)"
| "strcpy m p (c # cs) = strcpy (m(p := c)) (p + 1) cs"

text \<open>The geometry fields; \<open>None\<close> when the partition has too many cylinders.\<close>

definition put_geometry :: "memory \<Rightarrow> u32 \<Rightarrow> bool \<Rightarrow> u32 \<Rightarrow> (u32 \<times> memory) option" where
  "put_geometry m mb want_pcf sectors =
     (if want_pcf then
        let m1 = put16be (m(mb + 0x4B := 0x80, mb + 0x4C := 0)) (mb + 0x4E) 0;
            m2 = put16be (m1(mb + 0x50 := 0)) (mb + 0x52) 0
        in Some (0, put16be m2 (mb + 0x54) 0)
      else
        let c = (sectors + 255 * 63 - 1) div (255 * 63);
            cylinders = (if c = 0 then 1 else c)
        in if cylinders > 65535 then None
           else let m1 = put16be m (mb + 0x4E) cylinders;
                    m2 = put16be (m1(mb + 0x50 := 255)) (mb + 0x52) 63
                in Some (cylinders, put16be m2 (mb + 0x54) 63))"

text \<open>The descriptor in the module buffer when the template of \<open>n\<close> bytes has been loaded into it; \<open>None\<close> for the early returns.\<close>

definition make_descriptor :: "memory \<Rightarrow> u32 \<Rightarrow> u32 \<Rightarrow> u8 list \<Rightarrow> bool \<Rightarrow> u32 \<Rightarrow> u32 \<Rightarrow> u32 \<Rightarrow> memory option" where
  "make_descriptor m mb n nm want_pcf lsn sectors sector_size =
     (if \<not> load_ok m mb n then None
      else case module_string m mb (u16be m (mb + 0x38)) 16 of
        None \<Rightarrow> None
      | Some fm \<Rightarrow>
          if want_pcf \<and> takeWhile (\<lambda>c. c \<noteq> 0) fm \<noteq> [0x70, 0x63, 0x66] \<or> \<not> want_pcf \<and> takeWhile (\<lambda>c. c \<noteq> 0) fm \<noteq> [0x72, 0x62, 0x66] then None
          else
            let name_off = u16be m (mb + 0x0E) in
            if name_off \<ge> n \<or> length nm > 31 then None
            else case put_geometry (strcpy m (mb + name_off) nm) mb want_pcf sectors of
                None \<Rightarrow> None
              | Some (cylinders, m1) \<Rightarrow>
                  if sector_size > 65535 then None
                  else
                    let m2 = put16be m1 (mb + 0x5C) sector_size;
                        m3 = put16be m2 (mb + 0x6C) (if want_pcf then 0 else cylinders);
                        m4 = put32be m3 (mb + 0x68) lsn;
                        c1 = u16be m4 (mb + 0x5E) OR 3;
                        control = (if want_pcf then c1 OR 8 else c1)
                    in Some (repair_module (put16be m4 (mb + 0x5E) control) mb))"

section \<open>Boot sectors\<close>

definition known_partition_type :: "u8 \<Rightarrow> bool" where
  "known_partition_type t \<longleftrightarrow> t \<in> set [0x01, 0x04, 0x05, 0x06, 0x0B, 0x0C, 0x0E, 0x0F, 0x11, 0x14, 0x16, 0x1B, 0x1C, 0x1E,
     0x82, 0x83, 0x85, 0x8E, 0xA5, 0xEE, 0xEF]"

definition looks_like_mbr :: "memory \<Rightarrow> u32 \<Rightarrow> bool" where
  "looks_like_mbr m b \<longleftrightarrow> \<not> (m (b + 510) \<noteq> 0x55 \<or> m (b + 511) \<noteq> 0xAA) \<and>
     list_ex (\<lambda>i. let p = b + 446 + of_nat i * 16
                  in known_partition_type (m (p + 4)) \<and> u32le m (p + 8) \<noteq> 0 \<and> u32le m (p + 12) \<noteq> 0) [0..<4]"

definition looks_like_fat :: "memory \<Rightarrow> u32 \<Rightarrow> bool" where
  "looks_like_fat m b =
     (let bytes = u16le m (b + 11);
          spc = ucast (m (b + 13)) :: u32;
          total0 = u16le m (b + 19);
          fatsz = u16le m (b + 22);
          root = u16le m (b + 17);
          fats = ucast (m (b + 16)) :: u32
      in if m (b + 510) \<noteq> 0x55 \<or> m (b + 511) \<noteq> 0xAA \<or> bytes \<noteq> 512 \<or> spc = 0 \<or> spc > 128 \<or> spc AND (spc - 1) \<noteq> 0 \<or>
           fats = 0 \<or> root = 0 \<or> fatsz = 0 then False
         else
           let total1 = (if total0 = 0 then u32le m (b + 32) else total0);
               root_sectors = (root * 32 + bytes - 1) div bytes
           in if total1 \<le> 1 + fats * fatsz + root_sectors then False
              else let clusters = (total1 - 1 - fats * fatsz - root_sectors) div spc
                   in clusters \<ge> 4085 \<and> clusters < 65525)"

definition looks_like_rbf :: "memory \<Rightarrow> u32 \<Rightarrow> bool" where
  "looks_like_rbf m b =
     (let total0 = u24be m b;
          track_sectors = m (b + 3);
          map_bytes = u16be m (b + 4);
          sectors_bit = u16be m (b + 6);
          root_fd = u24be m (b + 8);
          spt = u16be m (b + 17);
          lsn_size = u16be m (b + 104)
      in \<not> (total0 = 0 \<or> track_sectors = 0 \<or> map_bytes = 0 \<or> sectors_bit = 0 \<or> root_fd = 0 \<or> root_fd \<ge> total0 \<or>
           spt = 0 \<or> spt > 1024 \<or> (lsn_size \<noteq> 256 \<and> lsn_size \<noteq> 512)))"

section \<open>Module header formats\<close>

datatype Q9_ModHeadFormat =
    Q9_MHFMT_UNKNOWN
  | Q9_MHFMT_6809
  | Q9_MHFMT_68K
  | Q9_MHFMT_OS9000_BE
  | Q9_MHFMT_OS9000_LE
  | Q9_MHFMT_Q9OWN

definition readU16 :: "memory \<Rightarrow> u32 \<Rightarrow> bool \<Rightarrow> u16" where
  "readU16 m p littleEndian =
     (if littleEndian then ucast (m p) OR push_bit 8 (ucast (m (p + 1))) else push_bit 8 (ucast (m p)) OR ucast (m (p + 1)))"

definition Q9_DetectModuleHeaderFormat :: "memory \<Rightarrow> u32 \<Rightarrow> u32 \<Rightarrow> Q9_ModHeadFormat" where
  "Q9_DetectModuleHeaderFormat m rawBytes availableLen =
     (if rawBytes = 0 \<or> availableLen < 2 then Q9_MHFMT_UNKNOWN
      else
        let syncBE = readU16 m rawBytes False;
            syncLE = readU16 m rawBytes True
        in if syncBE = 0x5139 \<or> syncLE = 0x5139 then Q9_MHFMT_Q9OWN
           else if syncBE = 0x87CD then Q9_MHFMT_6809
           else if syncBE = 0x4AFC then Q9_MHFMT_68K
           else if syncLE = 0x4AFC then Q9_MHFMT_OS9000_LE
           else Q9_MHFMT_UNKNOWN)"

definition Q9_ComputeModuleChecksum68K :: "memory \<Rightarrow> u32 \<Rightarrow> u32 \<Rightarrow> u16" where
  "Q9_ComputeModuleChecksum68K m rawBytes availableLen =
     (if rawBytes = 0 \<or> availableLen < 0x30 then 0
      else fold (\<lambda>i checksum. checksum XOR readU16 m (rawBytes + of_nat (2 * i)) False) [0..<24] 0)"

definition Q9_ComputeRequiredParity68K :: "memory \<Rightarrow> u32 \<Rightarrow> u32 \<Rightarrow> u16" where
  "Q9_ComputeRequiredParity68K m rawBytes availableLen =
     (if rawBytes = 0 \<or> availableLen < 0x30 then 0
      else fold (\<lambda>i acc. if 2 * i = 0x2E then acc else acc XOR readU16 m (rawBytes + of_nat (2 * i)) False) [0..<24] 0 XOR 0xFFFF)"

text \<open>The characters \<open>Q9_ReadModuleName\<close> stores before the terminating zero; its result is their number.\<close>

fun name_chars :: "nat \<Rightarrow> memory \<Rightarrow> u32 \<Rightarrow> u32 \<Rightarrow> u32 \<Rightarrow> u8 list" where
  "name_chars 0 m rawBytes availableLen p = []"
| "name_chars (Suc k) m rawBytes availableLen p =
     (if p < availableLen \<and> m (rawBytes + p) \<noteq> 0 then m (rawBytes + p) # name_chars k m rawBytes availableLen (p + 1) else [])"

definition Q9_ReadModuleName :: "memory \<Rightarrow> u32 \<Rightarrow> u32 \<Rightarrow> u32 \<Rightarrow> u32 \<Rightarrow> u8 list option" where
  "Q9_ReadModuleName m rawBytes availableLen nameOffset destSize =
     (if rawBytes = 0 \<or> destSize = 0 then None
      else if nameOffset \<ge> availableLen then None
      else Some (name_chars (unat destSize - 1) m rawBytes availableLen nameOffset))"

section \<open>The tools agree with the kernel\<close>

lemma parity_bit:
  "((((a XOR push_bit 1 a) XOR push_bit 2 (a XOR push_bit 1 a)) XOR push_bit 4 ((a XOR push_bit 1 a) XOR push_bit 2 (a XOR push_bit 1 a))) AND 0xFF) AND 0x80 \<noteq> 0
     \<longleftrightarrow> bit (smear 4 (smear 2 (smear 1 a))) 7"
proof -
  have b: "(x AND 0xFF) AND 0x80 \<noteq> 0 \<longleftrightarrow> bit x 7" for x :: u32
    using and_exp_eq_0_iff_not_bit [of x 7] by (simp add: and.assoc)
  have k: "bit (smear k x) n \<longleftrightarrow> bit (x XOR push_bit k x) n" if "n < 8" for k x n
    using that by (simp add: smear_def bit_simps)
  show ?thesis unfolding b by (simp add: k bit_simps)
qed

lemma crc_step_bytewise:
  "crc_step b (ucast c0, ucast c1, ucast c2) =
     (case os9_crc_step b (c0, c1, c2) of (d0, d1, d2) \<Rightarrow> (ucast d0, ucast d1, ucast d2))" for c0 c1 c2 :: u8
proof -
  define a :: u32 where "a = ucast (b XOR c0)"
  have t: "take_bit 8 (ucast b XOR ucast c0) = a" unfolding a_def
    by (rule bit_word_eqI) (auto simp: bit_simps dest: bit_imp_le_length)
  have u: "ucast (x XOR y) = (ucast x XOR ucast y :: u32)" "ucast (ucast z :: u8) = take_bit 8 z" for x y :: u8 and z :: u32
    by (rule bit_word_eqI; auto simp: bit_simps)+
  show ?thesis
    unfolding crc_step_alt os9_crc_step_def Let_def prod.case t a_def [symmetric] parity_bit
    by (simp add: u xor.assoc del: push_bit_Suc)
qed

lemma crc_loop_bytewise:
  "crc_steps n m p (ucast c0, ucast c1, ucast c2) =
     (case os9_crc_loop n m p (c0, c1, c2) of (d0, d1, d2) \<Rightarrow> (ucast d0, ucast d1, ucast d2))" for c0 c1 c2 :: u8
proof (induction n arbitrary: p c0 c1 c2)
  case (Suc n)
  show ?case using Suc.IH by (simp add: crc_step_bytewise split: prod.split)
qed simp

lemma parity_loop_xor: "parity_loop n m p (ucast x) = ucast (header_xor n m p x)"
proof (induction n arbitrary: p x)
  case (Suc n)
  have "ucast x XOR (push_bit 8 (ucast (m p)) OR ucast (m (p + 1))) = (ucast (x XOR Q9K_ReadU16BE m p) :: u32)"
    by (rule bit_word_eqI) (auto simp: Q9K_ReadU16BE_def bit_simps dest: bit_imp_le_length)
  then show ?case using Suc.IH [of "p + 2"] by simp
qed simp

lemma put_parity_16be: "put16be m (a + 0x2E) (0xFFFF XOR parity_loop 23 m a 0) = put_parity m a"
proof -
  have p: "parity_loop 23 m a 0 = ucast (header_xor 23 m a 0)" using parity_loop_xor [of 23 m a 0] by simp
  have m16: "(0xFFFF :: u32) = mask 16" by (simp add: mask_eq_exp_minus_1)
  have "ucast (drop_bit 8 (0xFFFF XOR ucast x :: u32)) = (ucast (drop_bit 8 (NOT x)) :: u8)" "ucast (0xFFFF XOR ucast x :: u32) = (ucast (NOT x) :: u8)"
    for x :: u16 unfolding m16 by (rule bit_word_eqI; auto simp: bit_simps)+
  then show ?thesis unfolding p by (simp add: put16be_def put_parity_def Q9K_SetU8_def Let_def)
qed

text \<open>Parity and CRC of the generator are those of the kernel.\<close>

lemma repair_is_checks:
  "repair_module m mb = put_crc (put_parity m mb) mb (Q9K_ReadU32BE m (mb + Q9K_MH_SIZE))"
proof -
  obtain c0 c1 c2 where c: "os9_crc_loop (unat (u32be m (mb + 4) - 3)) (put_parity m mb) mb (0xFF, 0xFF, 0xFF) = (c0, c1, c2)"
    by (rule prod_cases3)
  have f: "crc_steps (unat (u32be m (mb + 4) - 3)) (put_parity m mb) mb (0xFF, 0xFF, 0xFF) = (ucast c0, ucast c1, ucast c2)"
    using crc_loop_bytewise [where ?c0.0 = "0xFF" and ?c1.0 = "0xFF" and ?c2.0 = "0xFF"] c by simp
  have m8: "(0xFF :: u32) = mask 8" "(0xFF :: u8) = mask 8" by (simp_all add: mask_eq_exp_minus_1)
  have j: "ucast ((drop_bit 16 x AND 0xFF) XOR 0xFF) = c0 XOR 0xFF" "ucast ((drop_bit 8 x AND 0xFF) XOR 0xFF) = c1 XOR 0xFF"
    "ucast ((x AND 0xFF) XOR 0xFF) = c2 XOR 0xFF" if "x = (push_bit 16 (ucast c0) OR push_bit 8 (ucast c1) OR ucast c2 :: u32)" for x
    unfolding that m8 by (rule bit_word_eqI; auto simp: bit_simps dest: bit_imp_le_length)+
  have s: "u32be m (mb + 4) = Q9K_ReadU32BE m (mb + Q9K_MH_SIZE)" by (simp add: u32be_def Q9K_ReadU32BE_def)
  have "Q9K_CrcAccumulate (put_parity m mb) 0xFFFFFFFF mb (u32be m (mb + 4) - 3) = push_bit 16 (ucast c0) OR push_bit 8 (ucast c1) OR ucast c2"
    using f by (simp add: Q9K_CrcAccumulate_def)
  note j = j [OF this]
  show ?thesis
    unfolding repair_module_def Let_def put_parity_16be os9_crc_def c prod.case put_crc_def s [symmetric] Q9K_SetU8_def j ..
qed

text \<open>C24: the descriptor generator, with its own CRC that keeps intermediate values wide, writes exactly the parity and CRC bytes
  that F$SetCRC of the kernel writes, for every buffer.\<close>

theorem repair_is_setcrc:
  "(if mb = 0 \<or> mb AND 1 \<noteq> 0 \<or> m mb \<noteq> 0x4A \<or> m (mb + 1) \<noteq> 0xFC \<or> u32be m (mb + 4) < 51 then Q9K_ModSetCRC m mb = Inl Q9K_E_BMID
    else Q9K_ModSetCRC m mb = Inr (repair_module m mb))"
  unfolding repair_is_checks by (auto simp: Q9K_ModSetCRC_def Let_def u32be_def Q9K_ReadU32BE_def)

text \<open>The tools verify and set the header parity as the kernel does.\<close>

lemma readU16_BE: "readU16 m p False = Q9K_ReadU16BE m p"
  by (simp add: readU16_def Q9K_ReadU16BE_def)

lemma fold_header_xor: "fold (\<lambda>i acc. acc XOR readU16 m (a + of_nat (2 * i)) False) [0..<n] x = header_xor n m a x"
proof (induction n)
  case (Suc n)
  have "header_xor (Suc n) m a x = header_xor n m a x XOR Q9K_ReadU16BE m (a + 2 * of_nat n)"
    using header_xor_append [of n 1 m a x] by simp
  then show ?case using Suc by (simp add: readU16_BE)
qed simp

lemma checksum_is_header_xor:
  assumes "a \<noteq> 0" "\<not> n < 0x30"
  shows "Q9_ComputeModuleChecksum68K m a n = header_xor 24 m a 0"
    and "Q9_ComputeRequiredParity68K m a n = NOT (header_xor 23 m a 0)"
proof -
  show "Q9_ComputeModuleChecksum68K m a n = header_xor 24 m a 0"
    using assms by (simp only: Q9_ComputeModuleChecksum68K_def fold_header_xor if_False simp_thms)
  have "[0..<24] = [0..<23] @ [23 :: nat]" by (simp add: upt_conv_Cons upt_rec)
  moreover have "fold (\<lambda>i acc. if 2 * i = 0x2E then acc else acc XOR readU16 m (a + of_nat (2 * i)) False) [0..<23] 0 = header_xor 23 m a 0"
    unfolding fold_header_xor [symmetric] by (rule fold_cong) auto
  moreover have "(0xFFFF :: u16) = - 1" by simp
  then have "x XOR 0xFFFF = NOT x" for x :: u16 by (simp only: bit.xor_one_right)
  ultimately show "Q9_ComputeRequiredParity68K m a n = NOT (header_xor 23 m a 0)"
    using assms by (simp only: Q9_ComputeRequiredParity68K_def fold_append comp_apply if_False simp_thms) simp
qed

section \<open>Generated descriptors\<close>

lemma strcpy_outside: "(\<And>k. k \<le> length cs \<Longrightarrow> x \<noteq> p + of_nat k) \<Longrightarrow> strcpy m p cs x = m x"
proof (induction cs arbitrary: m p)
  case (Cons c cs)
  have "x \<noteq> p + 1 + of_nat k" if "k \<le> length cs" for k using Cons.prems [of "Suc k"] that by (simp add: ac_simps)
  then show ?case using Cons.IH [of "p + 1"] Cons.prems [of 0] by simp
next
  case Nil
  from Nil [of 0] show ?case by simp
qed

lemma geometry_outside:
  assumes "put_geometry m mb want_pcf sectors = Some (c, m')" "i < 8"
  shows "m' (mb + i) = m (mb + i)"
  using assms by (auto simp: put_geometry_def put16be_def Let_def split: if_splits)

lemma descriptor_header:
  assumes "make_descriptor m mb n nm want_pcf lsn sectors sector_size = Some m'" "8 \<le> u16be m (mb + 0x0E)"
  obtains m5 where "m' = repair_module m5 mb" "\<And>i. i < 8 \<Longrightarrow> m5 (mb + i) = m (mb + i)" "load_ok m mb n"
proof -
  let ?o = "u16be m (mb + 0x0E)"
  from assms(1) obtain c m1 m4 v where f: "load_ok m mb n" "?o < n" "length nm \<le> 31"
      "put_geometry (strcpy m (mb + ?o) nm) mb want_pcf sectors = Some (c, m1)"
      "m4 = put32be (put16be (put16be m1 (mb + 0x5C) sector_size) (mb + 0x6C) (if want_pcf then 0 else c)) (mb + 0x68) lsn"
      "m' = repair_module (put16be m4 (mb + 0x5E) v) mb"
    by (auto simp: make_descriptor_def Let_def not_le not_less split: if_splits option.splits prod.splits)
  have n: "?o < 256" using f(1,2) by (auto simp: load_ok_def not_less)
  have "put16be m4 (mb + 0x5E) v (mb + i) = m (mb + i)" if i: "i < 8" for i
  proof -
    have "strcpy m (mb + ?o) nm (mb + i) = m (mb + i)"
    proof (rule strcpy_outside)
      fix k assume "k \<le> length nm"
      then have k: "unat (of_nat k :: u32) = k" "k \<le> 31" using f(3) by (simp_all add: unat_of_nat_u32)
      have "unat (?o + of_nat k) = unat ?o + k" using n k by (subst unat_offset) (simp_all add: word_less_nat_alt)
      then have "i \<noteq> ?o + of_nat k" using assms(2) i by (auto simp: word_less_nat_alt word_le_nat_alt)
      then show "mb + i \<noteq> mb + ?o + of_nat k" by (simp add: add.assoc)
    qed
    then have "m1 (mb + i) = m (mb + i)" using geometry_outside [OF f(4) i] by simp
    then show ?thesis unfolding f(5) using i by (auto simp: put16be_def put32be_def)
  qed
  then show thesis using that f(1,6) by blast
qed

text \<open>C23: a descriptor generated from a template whose name lies behind the first eight bytes passes the module validation of
  the kernel once it is loaded: the kernel enters it, unless the module directory is full.\<close>

theorem descriptor_validates:
  assumes "make_descriptor m mb n nm want_pcf lsn sectors sector_size = Some m'" "8 \<le> u16be m (mb + 0x0E)"
    and "mb \<noteq> 0" "unat mb + 256 \<le> 2 ^ 32"
  shows "case Q9K_ModDirValidateAndAdd m' mb n of Inl e \<Rightarrow> e = Q9K_E_MEMFUL \<and> Q9K_GetU32 m' Q9K_MODDIR_FREE_ADDR = 0
      | Inr (entry, _) \<Rightarrow> entry = Q9K_VMODUL_RETBUF"
proof -
  obtain m5 where m5: "m' = repair_module m5 mb" "\<And>i. i < 8 \<Longrightarrow> m5 (mb + i) = m (mb + i)" "load_ok m mb n"
    using descriptor_header [OF assms(1,2)] by blast
  have n: "\<not> n < 0x33" "n \<le> 256" "m mb = 0x4A" "m (mb + 1) = 0xFC" "u32be m (mb + 4) = n" using m5(3) by (auto simp: load_ok_def not_less)
  have h: "m5 mb = 0x4A" "m5 (mb + 1) = 0xFC" "n = Q9K_ReadU32BE m5 (mb + Q9K_MH_SIZE)"
    using m5(2) [of 0] m5(2) [of 1] m5(2) [of 4] m5(2) [of 5] m5(2) [of 6] m5(2) [of 7] n(3-5)
    by (simp_all add: Q9K_ReadU32BE_def u32be_def add.assoc)
  have "unat mb + unat n \<le> 2 ^ 32" using n(2) assms(4) by (simp add: word_le_nat_alt)
  then show ?thesis
    using put_checks_valid [OF assms(3) h(1,2) n(1) _ h(3), of m'] m5(1) repair_is_checks [of m5 mb] h(3) by auto
qed

text \<open>A template of 112 bytes with the name at \<open>0x60\<close> and the file manager \<open>rbf\<close> at \<open>0x64\<close>.\<close>

definition ex_template :: memory where
  "ex_template = (\<lambda>_. 0)(0x50000 := 0x4A, 0x50001 := 0xFC, 0x50007 := 112, 0x5000F := 0x60, 0x50039 := 0x64,
     0x50064 := 0x72, 0x50065 := 0x62, 0x50066 := 0x66)"

lemma repair_is_setcrc_witness: "Q9K_ModSetCRC ex_template 0x50000 = Inr (repair_module ex_template 0x50000)"
proof -
  have "ex_template 0x50000 = 0x4A" "ex_template (0x50000 + 1) = 0xFC" "u32be ex_template (0x50000 + 4) = 112"
    by (simp_all add: u32be_def ex_template_def)
  with repair_is_setcrc [of "0x50000" ex_template] show ?thesis by simp
qed

lemma descriptor_validates_witness:
  "\<exists>m'. make_descriptor ex_template 0x50000 112 [0x64, 0x30] False 63 32130 512 = Some m' \<and>
     (case Q9K_ModDirValidateAndAdd m' 0x50000 112 of Inl e \<Rightarrow> e = Q9K_E_MEMFUL | Inr (entry, _) \<Rightarrow> entry = Q9K_VMODUL_RETBUF)"
proof -
  have f: "u16be ex_template (0x50000 + 0x38) = 0x64" "u16be ex_template (0x50000 + 0x0E) = 0x60" "load_ok ex_template 0x50000 112"
    by (simp_all add: u16be_def load_ok_def u32be_def ex_template_def)
  have s: "module_string ex_template 0x50000 0x64 16 = Some [0x72, 0x62, 0x66]"
  proof -
    have "module_chars (Suc (Suc (Suc (Suc k)))) ex_template 0x50000 0x64 = ([0x72, 0x62, 0x66], 0x67)" for k by (simp add: ex_template_def)
    from this [of 11] have "module_chars 15 ex_template 0x50000 0x64 = ([0x72, 0x62, 0x66], 0x67)" by simp
    moreover have "ex_template (0x50000 + 0x67) = 0" by (simp add: ex_template_def)
    ultimately show ?thesis by (simp add: module_string_def)
  qed
  obtain m' where m': "make_descriptor ex_template 0x50000 112 [0x64, 0x30] False 63 32130 512 = Some m'"
    unfolding make_descriptor_def f s using f(3) by (simp add: put_geometry_def Let_def)
  have "8 \<le> u16be ex_template (0x50000 + 0x0E)" unfolding f by simp
  from descriptor_validates [OF m' this] m' show ?thesis by (auto split: sum.splits)
qed

end
