(* ===== verification/Q9_InitExt.thy ===== *)
theory Q9_InitExt
  imports Q9_ModCheck
begin

text \<open>
  The optional extension of the Init module (\<^verbatim>\<open>q9kernel_initext.c\<close>): the number of processors.  A missing or foreign extension gives the default.
  The test that the extension lies inside the readable bytes adds without a check for wrap-around: it bounds the reads only for
  offsets up to \<open>0xFFFFFFBF\<close>.
\<close>

abbreviation Q9K_HDREXT_OFF :: u32 where "Q9K_HDREXT_OFF \<equiv> 0x28"
abbreviation Q9K_HDREXTSZ_OFF :: u32 where "Q9K_HDREXTSZ_OFF \<equiv> 0x2C"
abbreviation Q9K_INITEXT_SIZE :: u32 where "Q9K_INITEXT_SIZE \<equiv> 64"
abbreviation Q9K_INITEXT_MAGIC :: u32 where "Q9K_INITEXT_MAGIC \<equiv> 0x51394945"
abbreviation Q9K_INITEXT_VERSION :: u16 where "Q9K_INITEXT_VERSION \<equiv> 1"
abbreviation Q9K_DEFAULT_CPU_COUNT :: u32 where "Q9K_DEFAULT_CPU_COUNT \<equiv> 1"

definition Q9K_GetCpuCount :: "memory \<Rightarrow> u32 \<Rightarrow> u32 \<Rightarrow> u32" where
  "Q9K_GetCpuCount m initModAddr availableLen =
     (if initModAddr = 0 \<or> availableLen < Q9K_HDREXTSZ_OFF + 2 then Q9K_DEFAULT_CPU_COUNT
      else
        let hdExtOffset = Q9K_ReadU32BE m (initModAddr + Q9K_HDREXT_OFF);
            hdExtSize = Q9K_ReadU16BE m (initModAddr + Q9K_HDREXTSZ_OFF)
        in if hdExtOffset = 0 \<or> hdExtSize \<noteq> 64 then Q9K_DEFAULT_CPU_COUNT
           else if hdExtOffset + Q9K_INITEXT_SIZE > availableLen then Q9K_DEFAULT_CPU_COUNT
           else
             let ext = initModAddr + hdExtOffset in
             if Q9K_ReadU32BE m ext \<noteq> Q9K_INITEXT_MAGIC then Q9K_DEFAULT_CPU_COUNT
             else if Q9K_ReadU16BE m (ext + 4) \<noteq> Q9K_INITEXT_VERSION then Q9K_DEFAULT_CPU_COUNT
             else let cpuCount = Q9K_ReadU32BE m (ext + 8)
                  in if cpuCount = 0 then Q9K_DEFAULT_CPU_COUNT else cpuCount)"

lemma cpu_count_positive: "Q9K_GetCpuCount m a n \<noteq> 0"
  by (simp add: Q9K_GetCpuCount_def Let_def)

text \<open>As long as the end of the extension does not wrap around, only the readable bytes of the module decide.\<close>

lemma cpu_count_bounded:
  assumes same: "\<And>i. i < n \<Longrightarrow> m' (a + i) = m (a + i)" and off: "Q9K_ReadU32BE m (a + Q9K_HDREXT_OFF) \<le> 0xFFFFFFBF"
  shows "Q9K_GetCpuCount m' a n = Q9K_GetCpuCount m a n"
proof (cases "n < 0x2E")
  case False
  let ?o = "Q9K_ReadU32BE m (a + Q9K_HDREXT_OFF)"
  have h: "m' (a + i) = m (a + i)" if "i < 0x2E" for i :: u32
    by (rule same) (use that False in \<open>meson not_less less_le_trans\<close>)
  have o: "Q9K_ReadU32BE m' (a + Q9K_HDREXT_OFF) = ?o" "Q9K_ReadU16BE m' (a + Q9K_HDREXTSZ_OFF) = Q9K_ReadU16BE m (a + Q9K_HDREXTSZ_OFF)"
    using h [of "0x28"] h [of "0x29"] h [of "0x2A"] h [of "0x2B"] h [of "0x2C"] h [of "0x2D"] by (simp_all add: Q9K_ReadU32BE_def Q9K_ReadU16BE_def add.assoc)
  have e: "m' (a + (?o + j)) = m (a + (?o + j))" if "?o + 64 \<le> n" "j < 64" for j
  proof (rule same)
    have "unat (?o + 64) = unat ?o + 64" "unat (?o + j) = unat ?o + unat j"
      using off that(2) by (subst unat_offset; simp add: word_le_nat_alt word_less_nat_alt)+
    then show "?o + j < n" using that by (simp add: word_le_nat_alt word_less_nat_alt)
  qed
  have x: "Q9K_ReadU32BE m' (a + ?o) = Q9K_ReadU32BE m (a + ?o)" "Q9K_ReadU16BE m' (a + ?o + 4) = Q9K_ReadU16BE m (a + ?o + 4)"
    "Q9K_ReadU32BE m' (a + ?o + 8) = Q9K_ReadU32BE m (a + ?o + 8)" if "?o + 64 \<le> n"
    using e [OF that, of 0] e [OF that, of 1] e [OF that, of 2] e [OF that, of 3] e [OF that, of 4] e [OF that, of 5]
      e [OF that, of 8] e [OF that, of 9] e [OF that, of 10] e [OF that, of 11]
    by (simp_all add: Q9K_ReadU32BE_def Q9K_ReadU16BE_def add.assoc)
  show ?thesis
  proof (cases "?o + 64 \<le> n")
    case True
    show ?thesis unfolding Q9K_GetCpuCount_def Let_def o x [OF True] ..
  next
    case False
    then have "?o + 64 > n" by (simp add: not_le)
    then show ?thesis unfolding Q9K_GetCpuCount_def Let_def o by simp
  qed
qed (simp add: Q9K_GetCpuCount_def)

text \<open>An offset that wraps makes the bytes before the module count.\<close>

lemma cpu_count_before_module:
  assumes "a \<noteq> 0" "0x2E \<le> n" "Q9K_ReadU32BE m (a + Q9K_HDREXT_OFF) = 0xFFFFFFC0" "Q9K_ReadU16BE m (a + Q9K_HDREXTSZ_OFF) = 64"
    and "Q9K_ReadU32BE m (a - 64) = Q9K_INITEXT_MAGIC" "Q9K_ReadU16BE m (a - 60) = 1" "Q9K_ReadU32BE m (a - 56) = c" "c \<noteq> 0"
  shows "Q9K_GetCpuCount m a n = c"
proof -
  have o: "(0xFFFFFFC0 :: u32) + 64 = 0" "(0xFFFFFFC0 :: u32) \<noteq> 0" "a + 0xFFFFFFC0 = a - 64" "a - 64 + 4 = a - 60" "a - 64 + 8 = a - 56"
    by simp_all
  have "\<not> n < 0x2C + 2" using assms(2) by (simp add: not_less)
  then show ?thesis unfolding Q9K_GetCpuCount_def Let_def assms(3,4) o(1) o(3-5) assms(5-7) using assms(1,8) o(2) by simp
qed

end
