(* ===== verification/Q9_CInit.thy ===== *)
theory Q9_CInit
  imports Q9_Fork Q9_ExcTable Q9_Mmu Q9_InitExt Q9_SysMem Q9_Tables
begin

text \<open>
  The cold start (\<^verbatim>\<open>q9kernel_cinit.c\<close>, production build): \<^verbatim>\<open>Q9K_CInit\<close> makes the queues empty, finds the memory that boot modules leave
  free and gives it to the arena, builds the exception table, finds the Init module, has the system tables made, enters all modules of the boot list in
  the directory, fills the two dispatch tables, creates the first process and the idle process and picks the first to run.  The addresses of assembly routines and of the C
  functions reached through cells are the parameter \<open>symb\<close>, by name; the string \<^verbatim>\<open>"init"\<close> lies at \<open>initName\<close>; \<open>flat\<close> says which memory
  protection the build has.  The diagnostic routines only print a digit.  A search of the boot list that does not end is \<^const>\<open>None\<close>.
\<close>

abbreviation Q9K_BOOTLIST_ADDR :: u32 where "Q9K_BOOTLIST_ADDR \<equiv> 0x1000"
abbreviation Q9K_CPUCOUNT_ADDR :: u32 where "Q9K_CPUCOUNT_ADDR \<equiv> 0x1200"
abbreviation Q9K_BOOT_STATUS_ADDR :: u32 where "Q9K_BOOT_STATUS_ADDR \<equiv> 0x1224"
abbreviation Q9K_FREEMEM_BASE :: u32 where "Q9K_FREEMEM_BASE \<equiv> 0x18000"
abbreviation Q9K_BOOTSTACK_SIZE :: u32 where "Q9K_BOOTSTACK_SIZE \<equiv> 0x8000"
abbreviation Q9K_RACERING_LO :: u32 where "Q9K_RACERING_LO \<equiv> 0x144000"
abbreviation Q9K_RACERING_HI :: u32 where "Q9K_RACERING_HI \<equiv> 0x1541C0"
abbreviation Q9_D_INIT :: u32 where "Q9_D_INIT \<equiv> 0x20"
abbreviation Q9_D_COMPAT :: u32 where "Q9_D_COMPAT \<equiv> 0x2E"
abbreviation Q9_D_COMPAT2 :: u32 where "Q9_D_COMPAT2 \<equiv> 0x3E0"
abbreviation Q9_D_SYSCONF :: u32 where "Q9_D_SYSCONF \<equiv> 0x38"
abbreviation Q9_D_ACTIVQ :: u32 where "Q9_D_ACTIVQ \<equiv> 0x3AC"
abbreviation Q9_D_SLEEPQ :: u32 where "Q9_D_SLEEPQ \<equiv> 0x3B4"
abbreviation Q9_D_WAITQ :: u32 where "Q9_D_WAITQ \<equiv> 0x3BC"
abbreviation Q9_D_ARENA :: u32 where "Q9_D_ARENA \<equiv> 0x3FC"
abbreviation Q9_D_ALMQ1 :: u32 where "Q9_D_ALMQ1 \<equiv> 0x774"
abbreviation Q9_D_ALMQ2 :: u32 where "Q9_D_ALMQ2 \<equiv> 0x77C"

section \<open>Parts\<close>

definition Q9K_ArenaInitSkipRing :: "memory \<Rightarrow> u32 \<Rightarrow> u32 \<Rightarrow> memory" where
  "Q9K_ArenaInitSkipRing m freeBase hi =
     (if hi \<le> Q9K_RACERING_LO \<or> freeBase \<ge> Q9K_RACERING_HI then Q9K_ArenaInit m freeBase (hi - freeBase)
      else
        let haveLow = (freeBase + 16 \<le> Q9K_RACERING_LO);
            m1 = (if haveLow then Q9K_ArenaInit m freeBase (Q9K_RACERING_LO - freeBase) else m)
        in if hi \<ge> Q9K_RACERING_HI + 16 then
             (if haveLow then Q9K_FreeMem m1 Q9K_RACERING_HI (hi - Q9K_RACERING_HI)
              else Q9K_ArenaInit m1 Q9K_RACERING_HI (hi - Q9K_RACERING_HI))
           else m1)"

definition Q9K_BootFail :: "memory \<Rightarrow> u32 \<Rightarrow> memory" where
  "Q9K_BootFail m stage = Q9K_SetU32 m Q9K_BOOT_STATUS_ADDR stage"

definition Q9K_InitEmptyQueue :: "u32 \<Rightarrow> u32 \<Rightarrow> u32 \<Rightarrow> memory \<Rightarrow> memory" where
  "Q9K_InitEmptyQueue queueBase headOff tailOff m =
     Q9K_SetU32 (Q9K_SetU32 m (queueBase + headOff) queueBase) (queueBase + tailOff) queueBase"

text \<open>The cells cleared first.\<close>

definition boot_cells :: "(string \<Rightarrow> u32) \<Rightarrow> memory \<Rightarrow> memory" where
  "boot_cells symb m0 =
     (let m = Q9K_ProcMemTrackInit (Q9K_BootFail m0 0);
          m = Q9K_SetU32 (Q9K_SetU32 (Q9K_SetU32 m 0x1F74 0) 0x1F78 0) 0x1F7C 0;
          m = fold (\<lambda>i m. Q9K_SetU32 m (0x1F94 + of_nat i * 4) 0) [0..<19] m;
          m = Q9K_SetU32 (Q9K_SetU32 m 0x1F14 0) 0x1F1C 0
      in Q9K_SetU32 (Q9K_SetU32 m 0x1F84 (symb ''Q9K_FIRQHandlers'')) 0x1F88 (symb ''Q9K_FIRQStatics''))"

definition boot_queues :: "memory \<Rightarrow> memory" where
  "boot_queues m =
     (let m = Q9K_InitEmptyQueue Q9_D_ACTIVQ 0x30 0x34 m;
          m = Q9K_InitEmptyQueue Q9K_READYQ_SENTINEL_ADDR 0x30 0x34 m;
          m = Q9K_InitEmptyQueue Q9_D_SLEEPQ 0x30 0x34 m;
          m = Q9K_InitEmptyQueue Q9_D_WAITQ 0x30 0x34 m;
          m = Q9K_InitEmptyQueue Q9K_WAITQ_SENTINEL_ADDR 0x30 0x34 m;
          m = Q9K_InitEmptyQueue Q9K_SLEEPQ_SENTINEL_ADDR 0x30 0x34 m;
          m = Q9K_InitEmptyQueue Q9_D_ARENA 0x08 0x0C m;
          m = Q9K_InitEmptyQueue Q9_D_ALMQ1 0x0C 0x10 m
      in Q9K_InitEmptyQueue Q9_D_ALMQ2 0x0C 0x10 m)"

text \<open>The end of the highest boot region below the end of memory, over at most \<open>n\<close> entries of the boot list.\<close>

fun boot_end :: "nat \<Rightarrow> memory \<Rightarrow> u32 \<Rightarrow> u32 \<Rightarrow> u32 \<Rightarrow> u32" where
  "boot_end 0 m totalRam entry freeBase = freeBase"
| "boot_end (Suc n) m totalRam entry freeBase =
     (let base = Q9K_GetU32 m entry;
          size0 = Q9K_GetU32 m (entry + 4)
      in if base = 0 then freeBase
         else if totalRam \<noteq> 0 \<and> base \<ge> totalRam then boot_end n m totalRam (entry + 8) freeBase
         else let endAddr = base + size0
              in boot_end n m totalRam (entry + 8) (if endAddr > freeBase then endAddr else freeBase))"

definition boot_free :: "memory \<Rightarrow> u32" where
  "boot_free m = (boot_end 64 m (Q9K_GetU32 m Q9_D_TOTRAM) Q9K_BOOTLIST_ADDR Q9K_FREEMEM_BASE + 15) AND NOT 15"

definition boot_arena :: "memory \<Rightarrow> memory" where
  "boot_arena m =
     (let totalRam = Q9K_GetU32 m Q9_D_TOTRAM;
          freeBase = boot_free m
      in if totalRam > freeBase + Q9K_BOOTSTACK_SIZE then Q9K_ArenaInitSkipRing m freeBase (totalRam - Q9K_BOOTSTACK_SIZE) else m)"

section \<open>The dispatch tables\<close>

definition user_services :: "(u32 \<times> string) list" where
  "user_services = [
     (0x0, ''Q9K_SysFLink''), (0x2, ''Q9K_SysFUnLink''), (0x3, ''Q9K_SysFFork''), (0x22, ''Q9K_SysDFork''), (0x24, ''Q9K_SysDExit''),
     (0x23, ''Q9K_SysDExec''), (0x4, ''Q9K_SysFWait''), (0x6, ''Q9K_SysFExit''), (0xA, ''Q9K_SysFSleep''), (0xC, ''Q9K_SysFID''),
     (0xD, ''Q9K_SysFSPrior''), (0x28, ''Q9K_SysFSRqMem''), (0x29, ''Q9K_SysFSRtMem''), (0x32, ''Q9K_SysFSSvc''),
     (0x37, ''Q9K_SysFGProcP''), (0x84, ''Q9K_SysFIOpen''), (0x82, ''Q9K_SysFIDup''), (0x8C, ''Q9K_SysFIWritLn''),
     (0x8A, ''Q9K_SysFIWrite''), (0x89, ''Q9K_SysFIRead''), (0x8B, ''Q9K_SysFIReadLn''), (0x8D, ''Q9K_SysFIGetStt''),
     (0x92, ''Q9K_SysFISGetSt''), (0x8E, ''Q9K_SysFISetStt''), (0x88, ''Q9K_SysFISeek''), (0x8F, ''Q9K_SysFIClose''),
     (0x86, ''Q9K_SysFIChgDir''), (0x30, ''Q9K_SysFAllPD''), (0x31, ''Q9K_SysFRetPD''), (0x38, ''Q9K_SysFMove''),
     (0x21, ''Q9K_SysFTLink''), (0x5A, ''Q9K_SysFCCtl''), (0x27, ''Q9K_SysFSetSys''), (0x2E, ''Q9K_SysFVModul''),
     (0x5C, ''Q9K_SysFSRqCMem''), (0x2A, ''Q9K_SysFIRQ''), (0x10, ''Q9K_SysFPrsNam''), (0x11, ''Q9K_SysFCmpNam''),
     (0x1B, ''Q9K_SysFCpyMem''), (0x1C, ''Q9K_SysFSUser''), (0x17, ''Q9K_SysFCRC''), (0x1D, ''Q9K_SysFUnLoad''),
     (0x18, ''Q9K_SysFGPrDsc''), (0x1A, ''Q9K_SysFGModDr''), (0x26, ''Q9K_SysFSetCRC''), (0x20, ''Q9K_SysFJulian''),
     (0x54, ''Q9K_SysFGregor''), (0x1F, ''Q9K_SysFGPrDBT''), (0x2C, ''Q9K_SysFAProc''), (0x4B, ''Q9K_SysFAllPrc''),
     (0x4C, ''Q9K_SysFDelPrc''), (0x55, ''Q9K_SysFSysID''), (0x2F, ''Q9K_SysFFindPD''), (0x57, ''Q9K_SysFSigMask''),
     (0x9, ''Q9K_SysFIcpt''), (0x60, ''Q9K_SysFTrans''), (0x25, ''Q9K_SysFDatMod''), (0x56, ''Q9K_SysFAlarm''), (0x15, ''Q9K_SysFTime''),
     (0x16, ''Q9K_SysFSTime''), (0x12, ''Q9K_SysFSchBit''), (0x13, ''Q9K_SysFAllBit''), (0x14, ''Q9K_SysFDelBit''),
     (0x19, ''Q9K_SysFGBlkMp''), (0x62, ''Q9K_SysFSema''), (0x5, ''Q9K_SysFChain''), (0x1E, ''Q9K_SysFRTE''), (0x63, ''Q9K_SysFSigReset''),
     (0xE, ''Q9K_SysFSTrap''), (0x53, ''Q9K_SysFEvent'')]"

definition bridges :: "(u32 \<times> string) list" where
  "bridges = [
     (0x1E40, ''Q9K_SysEventImpl''), (0x1E4C, ''Q9K_SysEventWaitImpl''), (0x1E54, ''Q9K_SysNProcImpl''), (0x1E58, ''Q9K_SysSTrapImpl''),
     (0x1E5C, ''Q9K_SysRTEImpl''), (0x1E60, ''Q9K_SysSigResetImpl''), (0x1E64, ''Q9K_SysChainImpl''),
     (0x1E68, ''Q9K_SysChainReleaseImpl''), (0x1E6C, ''Q9K_SysSemaImpl''), (0x1E70, ''Q9K_SysSemaWaitImpl''),
     (0x1E88, ''Q9K_SysTLinkImpl''), (0x1E8C, ''Q9K_SysSetSysImpl''), (0x1E90, ''Q9K_SysJulianImpl''), (0x1E94, ''Q9K_SysGregorImpl''),
     (0x1E98, ''Q9K_SysAlarmImpl''), (0x1EA0, ''Q9K_SysSTimeImpl''), (0x1EA4, ''Q9K_SysSchBitImpl''), (0x1EA8, ''Q9K_SysAllBitImpl''),
     (0x1EAC, ''Q9K_SysDelBitImpl''), (0x1EB0, ''Q9K_SysGBlkMpImpl''), (0x1E9C, ''Q9K_SysTimeImpl''), (0x1EB4, ''Q9K_SysSSvcImpl''),
     (0x1EB8, ''Q9K_SysFMemImpl''), (0x1EE8, ''Q9K_SysDForkImpl''), (0x1EF8, ''Q9K_SysDExitImpl''), (0x1EFC, ''Q9K_SysDExecImpl''),
     (0x1F70, ''Q9K_SysFLinkSearchImpl''), (0x1F80, ''Q9K_SysRetPDImpl'')]"

definition user_services2 :: "(u32 \<times> string) list" where
  "user_services2 = [
     (0x5E, ''Q9K_SysFPanic''), (0x2D, ''Q9K_SysFNProc''), (0x58, ''Q9K_SysFChkMem''), (0x52, ''Q9K_SysFSysDbg''),
     (0x4E, ''Q9K_SysFFModul''), (0x7, ''Q9K_SysFMem''), (0x3A, ''Q9K_SysFPermit''), (0x3B, ''Q9K_SysFProtect''),
     (0x40, ''Q9K_SysFDelTsk''), (0x5B, ''Q9K_SysFGSPUMp''), (0x8, ''Q9K_SysFSend'')]"

definition system_services :: "(u32 \<times> string) list" where
  "system_services = [
     (0x0, ''Q9K_SysFLink''), (0x2, ''Q9K_SysFUnLink''), (0x3, ''Q9K_SysFFork''), (0x22, ''Q9K_SysDFork''), (0x24, ''Q9K_SysDExit''),
     (0x23, ''Q9K_SysDExec''), (0x4, ''Q9K_SysFWait''), (0x6, ''Q9K_SysFExit''), (0xA, ''Q9K_SysFSleep''), (0xC, ''Q9K_SysFID''),
     (0xD, ''Q9K_SysFSPrior''), (0x28, ''Q9K_SysFSRqMem''), (0x29, ''Q9K_SysFSRtMem''), (0x32, ''Q9K_SysFSSvc''),
     (0x37, ''Q9K_SysFGProcP''), (0x84, ''Q9K_SysFIOpen''), (0x82, ''Q9K_SysFIDup''), (0x8C, ''Q9K_SysFIWritLn''),
     (0x8A, ''Q9K_SysFIWrite''), (0x89, ''Q9K_SysFIRead''), (0x8B, ''Q9K_SysFIReadLn''), (0x8D, ''Q9K_SysFIGetStt''),
     (0x92, ''Q9K_SysFISGetSt''), (0x8E, ''Q9K_SysFISetStt''), (0x88, ''Q9K_SysFISeek''), (0x8F, ''Q9K_SysFIClose''),
     (0x86, ''Q9K_SysFIChgDir''), (0x30, ''Q9K_SysFAllPD''), (0x31, ''Q9K_SysFRetPD''), (0x38, ''Q9K_SysFMove''),
     (0x21, ''Q9K_SysFTLink''), (0x5A, ''Q9K_SysFCCtl''), (0x27, ''Q9K_SysFSetSys''), (0x2E, ''Q9K_SysFVModul''),
     (0x5C, ''Q9K_SysFSRqCMem''), (0x2A, ''Q9K_SysFIRQ''), (0x61, ''Q9K_SysFFIRQ''), (0x10, ''Q9K_SysFPrsNam''),
     (0x11, ''Q9K_SysFCmpNam''), (0x1B, ''Q9K_SysFCpyMem''), (0x1C, ''Q9K_SysFSUser''), (0x17, ''Q9K_SysFCRC''),
     (0x1D, ''Q9K_SysFUnLoad''), (0x18, ''Q9K_SysFGPrDsc''), (0x1A, ''Q9K_SysFGModDr''), (0x26, ''Q9K_SysFSetCRC''),
     (0x20, ''Q9K_SysFJulian''), (0x54, ''Q9K_SysFGregor''), (0x1F, ''Q9K_SysFGPrDBT''), (0x2C, ''Q9K_SysFAProc''),
     (0x4B, ''Q9K_SysFAllPrc''), (0x4C, ''Q9K_SysFDelPrc''), (0x55, ''Q9K_SysFSysID''), (0x2F, ''Q9K_SysFFindPD''),
     (0x57, ''Q9K_SysFSigMask''), (0x9, ''Q9K_SysFIcpt''), (0x60, ''Q9K_SysFTrans''), (0x25, ''Q9K_SysFDatMod''),
     (0x56, ''Q9K_SysFAlarm''), (0x15, ''Q9K_SysFTime''), (0x16, ''Q9K_SysFSTime''), (0x12, ''Q9K_SysFSchBit''),
     (0x13, ''Q9K_SysFAllBit''), (0x14, ''Q9K_SysFDelBit''), (0x19, ''Q9K_SysFGBlkMp''), (0x62, ''Q9K_SysFSema''),
     (0x5, ''Q9K_SysFChain''), (0x1E, ''Q9K_SysFRTE''), (0x63, ''Q9K_SysFSigReset''), (0xE, ''Q9K_SysFSTrap''), (0x53, ''Q9K_SysFEvent''),
     (0x5E, ''Q9K_SysFPanic''), (0x2D, ''Q9K_SysFNProc''), (0x58, ''Q9K_SysFChkMem''), (0x52, ''Q9K_SysFSysDbg''),
     (0x4E, ''Q9K_SysFFModul''), (0x7, ''Q9K_SysFMem''), (0x3A, ''Q9K_SysFPermit''), (0x3B, ''Q9K_SysFProtect''),
     (0x3F, ''Q9K_SysFAllTsk''), (0x40, ''Q9K_SysFDelTsk''), (0x5B, ''Q9K_SysFGSPUMp''), (0x8, ''Q9K_SysFSend'')]"

definition put_services :: "(string \<Rightarrow> u32) \<Rightarrow> u32 \<Rightarrow> (u32 \<times> string) list \<Rightarrow> memory \<Rightarrow> memory" where
  "put_services symb base svcs m = fold (\<lambda>(code, f) m. Q9K_SetU32 m (base + code * 4) (symb f)) svcs m"

definition put_bridges :: "(string \<Rightarrow> u32) \<Rightarrow> (u32 \<times> string) list \<Rightarrow> memory \<Rightarrow> memory" where
  "put_bridges symb bs m = fold (\<lambda>(a, f) m. Q9K_SetU32 m a (symb f)) bs m"

definition fill_slot :: "u32 \<Rightarrow> u32 \<Rightarrow> nat \<Rightarrow> memory \<Rightarrow> memory" where
  "fill_slot base h i m = (if Q9K_GetU32 m (base + of_nat i * 4) = 0 then Q9K_SetU32 m (base + of_nat i * 4) h else m)"

definition boot_services :: "(string \<Rightarrow> u32) \<Rightarrow> memory \<Rightarrow> memory" where
  "boot_services symb m0 =
     (let usrdisBase = Q9K_GetU32 m0 Q9_D_USRDIS;
          sysdisBase = Q9K_GetU32 m0 Q9_D_SYSDIS;
          m = put_services symb usrdisBase user_services m0;
          m = put_bridges symb bridges m;
          m = put_services symb usrdisBase user_services2 m;
          m = put_services symb sysdisBase system_services m;
          h = symb ''Q9K_SysUnimplemented''
      in fold (\<lambda>i m. fill_slot sysdisBase h i (fill_slot usrdisBase h i m)) [0..<256] m)"

section \<open>The sequence\<close>

text \<open>The end of the start: back to the halt loop, with the stage in the boot status, or the process that runs.\<close>

datatype boot_result = Halted | Running u32

definition boot_processes :: "(string \<Rightarrow> u32) \<Rightarrow> u32 \<Rightarrow> memory \<Rightarrow> (boot_result \<times> memory) option" where
  "boot_processes symb a6 m0 = do {
     let m = Q9K_SetU32 (Q9K_SetU32 m0 0x1F70 (symb ''Q9K_SysFLinkSearchImpl'')) 0x1F80 (symb ''Q9K_SysRetPDImpl'');
     (_, m1) \<leftarrow> Q9K_ProcCreate m a6 (symb ''Q9K_SysStartProc'') 5;
     (_, m2) \<leftarrow> Q9K_ProcCreateIdle m1 a6 (symb ''Q9K_IdleProcLoop'');
     (picked, m3) \<leftarrow> Q9K_SchedFirstPick m2;
     Some (if picked \<noteq> 0 then Running picked else Halted, m3)
   }"

definition Q9K_CInit ::
  "(string \<Rightarrow> u32) \<Rightarrow> exc_handlers \<Rightarrow> u32 \<Rightarrow> bool \<Rightarrow> u32 \<Rightarrow> memory \<Rightarrow> Q9K_MmuRegion list \<Rightarrow> (boot_result \<times> memory \<times> Q9K_MmuRegion list) option" where
  "Q9K_CInit symb H a6 flat initName m0 rs = (
     let m = boot_arena (boot_queues (boot_cells symb m0));
         (code, m1, _) = Q9K_BuildExcTable H m
     in if code \<noteq> 0 then Some (Halted, Q9K_BootFail m1 1, rs)
        else
          let (code2, rs1) = Q9K_MmuInit flat rs in
          if code2 \<noteq> 0 then Some (Halted, Q9K_BootFail m1 5, rs1)
          else do {
            (initMod, initAvailableLen) \<leftarrow> Q9K_FindModuleByName m1 Q9K_BOOTLIST_ADDR initName;
            if initMod = 0 then Some (Halted, Q9K_BootFail m1 2, rs1)
            else
              let m2 = Q9K_SetU32 m1 Q9_D_INIT initMod in
              if initAvailableLen < 0x7C then Some (Halted, Q9K_BootFail m2 3, rs1)
              else do {
                let m3 = Q9K_SetU8 m2 Q9_D_COMPAT (Q9K_GetU8 m2 (initMod + 0x68));
                let m4 = Q9K_SetU8 m3 Q9_D_COMPAT2 (Q9K_GetU8 m3 (initMod + 0x69));
                let m5 = Q9K_SetU16 m4 Q9_D_SYSCONF (push_bit 8 (ucast (Q9K_GetU8 m4 (initMod + 0x7A))) OR ucast (Q9K_GetU8 m4 (initMod + 0x7B)));
                let m6 = Q9K_SetU32 m5 Q9K_CPUCOUNT_ADDR (Q9K_GetCpuCount m5 initMod initAvailableLen);
                (code3, m7) \<leftarrow> Q9K_SetupTables m6 initMod;
                if code3 \<noteq> 0 then Some (Halted, Q9K_BootFail m7 4, rs1)
                else do {
                  (_, m8) \<leftarrow> Q9K_ModDirPopulateFromBootList m7 Q9K_BOOTLIST_ADDR;
                  (res, m9) \<leftarrow> boot_processes symb a6 (boot_services symb m8);
                  Some (res, m9, rs1)
                }
              }
          })"

end
