(* ===== verification/Q9_CInit_Props.thy ===== *)
theory Q9_CInit_Props
  imports Q9_CInit Q9_Arena_Props Q9_Pool
begin

text \<open>
  What the cold start leaves behind: an arena that owns exactly the bytes between the boot modules and the boot stack, less the diagnostic
  ring, and two dispatch tables without a gap.
\<close>

section \<open>The free memory\<close>

abbreviation race_ring :: "nat set" where "race_ring \<equiv> {0x144000 ..< 0x1541C0}"

text \<open>Two ends that are multiples of 16 with something between them make a block.\<close>

lemma block_between:
  assumes "16 dvd unat lo" "16 dvd unat hi" "0x8000 \<le> unat lo" "lo < hi"
  shows "block_ok (lo, hi - lo)" "rng (lo, hi - lo) = {unat lo ..< unat hi}" "rounded (hi - lo) = unat hi - unat lo"
proof -
  have lt: "unat lo < unat hi" using assms(4) by (simp add: word_less_nat_alt)
  have u: "unat (hi - lo) = unat hi - unat lo" using assms(4) by (intro unat_sub) simp
  have d: "16 dvd unat hi - unat lo" using assms(1,2) by (rule dvd_diff_nat [rotated])
  then have "16 \<le> unat hi - unat lo" using lt by (intro dvd_imp_le) simp_all
  then show b: "block_ok (lo, hi - lo)" and "rng (lo, hi - lo) = {unat lo ..< unat hi}"
    using assms(3) d u lt unat_u32_less [of hi] by (simp_all add: block_ok_def rng_def)
  have "unat hi - unat lo \<le> 0xFFFFFFF0" using assms(3) unat_u32_less [of hi] by simp
  then have "rounded (hi - lo) = (unat hi - unat lo + 15) div 16 * 16"
    using round_up_div [of "hi - lo"] u by (simp add: rounded_def)
  also have "\<dots> = unat hi - unat lo" using d by (elim dvdE) simp
  finally show "rounded (hi - lo) = unat hi - unat lo" .
qed

lemma init_owns:
  assumes "16 dvd unat lo" "16 dvd unat hi" "0x8000 \<le> unat lo" "lo < hi"
  shows "arena_owns (Q9K_ArenaInit m lo (hi - lo)) {unat lo ..< unat hi}"
  unfolding arena_owns_def using init_arena [OF block_between(1) [OF assms]] block_between(2) [OF assms] 
  by (intro exI [of _ "[(lo, hi - lo)]"]) (simp add: covered_def)

text \<open>An aligned address below a bound that is aligned too leaves 16 bytes.\<close>

lemma aligned_room: "16 dvd x \<Longrightarrow> 16 dvd y \<Longrightarrow> x < y \<Longrightarrow> x + 16 \<le> y" for x y :: nat
  by (elim dvdE) simp

lemma skip_ring_owns:
  assumes a: "16 dvd unat lo" "16 dvd unat hi" "0x8000 \<le> unat lo" and ne: "{unat lo ..< unat hi} - race_ring \<noteq> {}"
  shows "arena_owns (Q9K_ArenaInitSkipRing m lo hi) ({unat lo ..< unat hi} - race_ring)"
proof -
  have lt: "lo < hi" using ne by (auto simp: word_less_nat_alt)
  have low: "lo + 16 \<le> 0x144000 \<longleftrightarrow> unat lo < 0x144000" if "\<not> 0x1541C0 \<le> lo"
  proof -
    have "unat lo < 0x1541C0" using that by (simp add: word_le_nat_alt)
    then have "unat (lo + 16) = unat lo + 16" using unat_offset [of lo 16] by simp
    then show ?thesis using aligned_room [OF a(1), of "0x144000"] by (auto simp: word_le_nat_alt)
  qed
  have high: "0x1541D0 \<le> hi \<longleftrightarrow> 0x1541C0 < unat hi"
    using aligned_room [of "0x1541C0" "unat hi"] a(2) by (auto simp: word_le_nat_alt)
  show ?thesis
  proof (cases "hi \<le> 0x144000 \<or> 0x1541C0 \<le> lo")
    case True
    then have "{unat lo ..< unat hi} - race_ring = {unat lo ..< unat hi}" by (auto simp: word_le_nat_alt)
    with init_owns [OF a lt, of m] True show ?thesis by (simp add: Q9K_ArenaInitSkipRing_def)
  next
    case False
    then have f: "unat lo < 0x1541C0" "0x144000 < unat hi" by (auto simp: word_le_nat_alt)
    let ?L = "{unat lo ..< 0x144000}" and ?H = "{0x1541C0 ..< unat hi}"
    have split: "{unat lo ..< unat hi} - race_ring = ?L \<union> ?H" using f by auto
    have L: "unat lo < 0x144000 \<Longrightarrow> arena_owns (Q9K_ArenaInit m lo (0x144000 - lo)) ?L" for m
      using init_owns [OF a(1) _ a(3), of "0x144000" m] by (simp add: word_less_nat_alt)
    have H: "0x1541C0 < unat hi \<Longrightarrow> arena_owns (Q9K_ArenaInit m 0x1541C0 (hi - 0x1541C0)) ?H" for m
      using init_owns [OF _ a(2), of "0x1541C0" m] by (simp add: word_less_nat_alt)
    have LH: "arena_owns (Q9K_FreeMem m' 0x1541C0 (hi - 0x1541C0)) (?L \<union> ?H)" if "0x1541C0 < unat hi" "arena_owns m' ?L" for m'
    proof -
      have "rounded (hi - 0x1541C0) = unat hi - 0x1541C0" 
        using block_between(3) [OF _ a(2), of "0x1541C0"] that(1) by (simp add: word_less_nat_alt)
      then show ?thesis using ar.give [OF that(2), of "hi - 0x1541C0" "0x1541C0"] that(1) unat_u32_less [of hi] by simp
    qed
    show ?thesis using False ne L [of m] H [of m] LH [OF _ L] unfolding split
      by (cases "unat lo < 0x144000"; cases "0x1541C0 < unat hi")
        (simp_all add: Q9K_ArenaInitSkipRing_def low high Let_def)
  qed
qed

text \<open>The entries of the boot list that the search reads.\<close>

fun boot_regions :: "nat \<Rightarrow> memory \<Rightarrow> u32 \<Rightarrow> block list" where
  "boot_regions 0 m entry = []"
| "boot_regions (Suc n) m entry =
     (if Q9K_GetU32 m entry = 0 then [] else (Q9K_GetU32 m entry, Q9K_GetU32 m (entry + 4)) # boot_regions n m (entry + 8))"

lemma boot_end_mono: "fb \<le> boot_end n m t e fb"
proof (induction n m t e fb rule: boot_end.induct)
  case (2 n m t e fb)
  then show ?case by (auto simp: Let_def intro: order_trans less_imp_le)
qed simp

lemma boot_end_region:
  assumes "r \<in> set (boot_regions n m e)" "fst r < t"
  shows "fst r + snd r \<le> boot_end n m t e fb"
  using assms
proof (induction n arbitrary: e fb)
  case (Suc n)
  then show ?case using boot_end_mono [of _ n m t "e + 8"] 
    by (auto simp: Let_def not_less not_le split: if_splits intro: order_trans)
qed simp

lemma boot_end_bound:
  assumes "\<forall>r\<in>set (boot_regions n m e). fst r < t \<longrightarrow> fst r + snd r \<le> b" "fb \<le> b" "t \<noteq> 0"
  shows "boot_end n m t e fb \<le> b"
  using assms
proof (induction n arbitrary: e fb)
  case (Suc n)
  then show ?case by (auto simp: Let_def not_le not_less)
qed simp

lemma boot_free_above:
  assumes e: "e = boot_end 64 m (Q9K_GetU32 m Q9_D_TOTRAM) Q9K_BOOTLIST_ADDR Q9K_FREEMEM_BASE" and le: "unat e \<le> 0xFFFFFFF0"
  shows "unat e \<le> unat (boot_free m)" "0x18000 \<le> unat (boot_free m)" "16 dvd unat (boot_free m)"
proof -
  have "boot_free m = Q9K_RoundUp16 e" by (simp add: boot_free_def Q9K_RoundUp16_def e)
  then have "unat (boot_free m) = (unat e + 15) div 16 * 16" using round_up_div [OF le] by simp
  then show le: "unat e \<le> unat (boot_free m)" and "16 dvd unat (boot_free m)" by simp_all
  have "unat (0x18000 :: u32) \<le> unat e" unfolding e word_le_nat_alt [symmetric] by (rule boot_end_mono)
  with le show "0x18000 \<le> unat (boot_free m)" by simp
qed

text \<open>C9: when the boot modules lie inside the memory, whose size is a multiple of 16, and some memory is left, the cold start makes an arena that owns exactly
  the bytes from the end of the highest boot module, rounded up, to the boot stack, less the diagnostic ring.  So nothing below the first free address of the kernel,
  no boot module and no byte of the ring can ever be allocated.\<close>

theorem boot_arena_safe:
  assumes t: "t = Q9K_GetU32 m Q9_D_TOTRAM" "16 dvd unat t"
    and mem: "\<forall>r\<in>set (boot_regions 64 m Q9K_BOOTLIST_ADDR). fst r < t \<longrightarrow> unat (fst r) + unat (snd r) \<le> unat t"
    and F: "F = {unat (boot_free m) ..< unat t - 0x8000} - {0x144000 ..< 0x1541C0}" "F \<noteq> {}"
  shows "arena_owns (boot_arena m) F \<and> F \<subseteq> {0x18000 ..} \<and>
    (\<forall>r\<in>set (boot_regions 64 m Q9K_BOOTLIST_ADDR). fst r < t \<longrightarrow> rng r \<inter> F = {})"
proof -
  let ?R = "boot_regions 64 m Q9K_BOOTLIST_ADDR" and ?b = "if 0x18000 \<le> t then t else 0x18000"
  have fb: "unat (boot_free m) + 0x8000 < unat t" using F by auto
  have t0: "t \<noteq> 0" using fb by auto
  have t_max: "unat t \<le> 0xFFFFFFF0" using t(2) unat_u32_less [of t] aligned_room [of "unat t" "2 ^ 32"] by simp
  have add: "unat (fst r + snd r) = unat (fst r) + unat (snd r)" if "r \<in> set ?R" "fst r < t" for r
    using mem that unat_u32_less [of t] by (intro unat_offset) fastforce
  have "\<forall>r\<in>set ?R. fst r < t \<longrightarrow> fst r + snd r \<le> ?b"
    using mem add by (auto simp: word_le_nat_alt)
  then have "boot_end 64 m t Q9K_BOOTLIST_ADDR Q9K_FREEMEM_BASE \<le> ?b" using t0 by (intro boot_end_bound) auto
  then have e: "unat (boot_end 64 m t Q9K_BOOTLIST_ADDR Q9K_FREEMEM_BASE) \<le> 0xFFFFFFF0"
    using t_max by (auto simp: word_le_nat_alt split: if_splits)
  note free = boot_free_above [OF refl, of m, folded t(1), OF e]
  have "unat (boot_free m + 0x8000) = unat (boot_free m) + 0x8000"
    using unat_offset [of "boot_free m" "0x8000"] fb unat_u32_less [of t] by simp
  then have lt: "boot_free m + 0x8000 < t" using fb by (simp add: word_less_nat_alt)
  have u: "unat (t - 0x8000) = unat t - 0x8000" using fb unat_sub [of "0x8000" t] by (simp add: word_le_nat_alt)
  have "arena_owns (Q9K_ArenaInitSkipRing m (boot_free m) (t - 0x8000)) F"
    using skip_ring_owns [of "boot_free m" "t - 0x8000" m] free(2,3) u F t(2) by (simp add: dvd_diff_nat)
  then have owns: "arena_owns (boot_arena m) F" using lt by (simp add: boot_arena_def Let_def t(1))
  have "rng r \<inter> F = {}" if "r \<in> set ?R" "fst r < t" for r
  proof -
    have "unat (fst r) + unat (snd r) \<le> unat (boot_free m)"
      using boot_end_region [OF that, of Q9K_FREEMEM_BASE] free(1) add [OF that] by (simp add: word_le_nat_alt)
    then show ?thesis by (auto simp: F(1) rng_def)
  qed
  with owns free(2) show ?thesis by (auto simp: F(1))
qed

definition ex_rom :: memory where
  "ex_rom = Q9K_SetU32 (Q9K_SetU32 (Q9K_SetU32 (\<lambda>_. 0) 0x6C 0x200000) 0x1000 0x20000) 0x1004 0x1234"

lemma ex_rom_cells:
  "Q9K_GetU32 ex_rom 0x6C = 0x200000" "Q9K_GetU32 ex_rom 0x1000 = 0x20000" "Q9K_GetU32 ex_rom 0x1004 = 0x1234"
  "Q9K_GetU32 ex_rom 0x1008 = 0"
  by (simp_all add: ex_rom_def)

lemma ex_rom_regions: "boot_regions 64 ex_rom 0x1000 = [(0x20000, 0x1234)]"
  using boot_regions.simps(2) [of "63" ex_rom "0x1000"] boot_regions.simps(2) [of "62" ex_rom "0x1008"] by (simp add: ex_rom_cells)

lemma ex_rom_free: "boot_free ex_rom = 0x21240"
  using boot_end.simps(2) [of "63" ex_rom "0x200000" "0x1000" "0x18000"] boot_end.simps(2) [of "62" ex_rom "0x200000" "0x1008" "0x21234"]
  by (simp add: boot_free_def ex_rom_cells)

lemma boot_arena_safe_witness: "arena_owns (boot_arena ex_rom) ({0x21240 ..< 0x1F8000} - {0x144000 ..< 0x1541C0})"
proof -
  have "0x30000 \<in> {0x21240 ..< 0x1F8000 :: nat} - {0x144000 ..< 0x1541C0}" by simp
  then have "{0x21240 ..< 0x1F8000 :: nat} - {0x144000 ..< 0x1541C0} \<noteq> {}" by blast
  then show ?thesis using boot_arena_safe [of "0x200000" ex_rom, OF _ _ _ refl] by (simp add: ex_rom_cells ex_rom_regions ex_rom_free)
qed

section \<open>The dispatch tables\<close>

text \<open>A table of 256 longwords above the globals.\<close>

abbreviation service_table :: "u32 \<Rightarrow> bool" where "service_table base \<equiv> table_ok base 4 256"

lemma dispatch_cell: "c < 256 \<Longrightarrow> base + c * 4 = slot_at base 4 (unat c) \<and> unat c < 256" for c :: u32
  by (simp add: slot_at_def word_less_nat_alt)

lemma dispatch_apart:
  assumes "service_table base" "c < 256" "d < 256" "c \<noteq> d"
  shows "apart (base + c * 4) 4 (base + d * 4) 4"
proof -
  have "unat c \<noteq> unat d" using assms(4) by (simp add: word_unat_eq_iff)
  then show ?thesis
    using slots_apart_all [OF assms(1), of "unat c" "unat d"] dispatch_cell [OF assms(2), of base] dispatch_cell [OF assms(3), of base] by simp
qed

text \<open>Two tables of which none overlaps the other.\<close>

lemma tables_apart:
  assumes "apart a 0x400 b 0x400" "c < 256" "d < 256"
  shows "apart (a + c * 4) 4 (b + d * 4) 4"
proof -
  have "x * 4 + 4 \<le> 0x400" "x * 4 \<le> x * 4 + 4" if "x < 256" for x :: u32
  proof -
    have x: "unat x < 256" using that by (simp add: word_less_nat_alt)
    then have "unat (x * 4) = unat x * 4" using unat_mult_lem [of x 4] by simp
    then have "unat (x * 4 + 4) = unat x * 4 + 4" using x unat_offset [of "x * 4" 4] by simp
    then show "x * 4 + 4 \<le> 0x400" "x * 4 \<le> x * 4 + 4" using x \<open>unat (x * 4) = unat x * 4\<close> by (simp_all add: word_le_nat_alt)
  qed
  then show ?thesis using assms by (intro apart_sub) auto
qed

lemma put_services_get:
  assumes "service_table base" "c < 256" "distinct (map fst svcs)" "\<forall>s\<in>set svcs. fst s < 256"
  shows "Q9K_GetU32 (put_services symb base svcs m) (base + c * 4) =
    (case map_of svcs c of Some f \<Rightarrow> symb f | None \<Rightarrow> Q9K_GetU32 m (base + c * 4))"
  using assms(3,4)
proof (induction svcs arbitrary: m)
  case (Cons s svcs)
  obtain d f where s: "s = (d, f)" by (cases s)
  let ?m = "Q9K_SetU32 m (base + d * 4) (symb f)"
  have "put_services symb base (s # svcs) m = put_services symb base svcs ?m" by (simp add: put_services_def s)
  moreover have "Q9K_GetU32 (put_services symb base svcs ?m) (base + c * 4) =
      (case map_of svcs c of Some f \<Rightarrow> symb f | None \<Rightarrow> Q9K_GetU32 ?m (base + c * 4))" using Cons by simp
  moreover have "c = d \<Longrightarrow> map_of svcs c = None" using Cons.prems(1) by (simp add: s map_of_eq_None_iff)
  moreover have "c \<noteq> d \<Longrightarrow> Q9K_GetU32 ?m (base + c * 4) = Q9K_GetU32 m (base + c * 4)"
    using dispatch_apart [OF assms(1), of d c] assms(2) Cons.prems(2) by (simp add: s)
  ultimately show ?case by (auto simp: s split: option.splits)
qed (simp add: put_services_def)

lemma put_services_other:
  assumes "\<forall>s\<in>set svcs. apart (base + fst s * 4) 4 a 4"
  shows "Q9K_GetU32 (put_services symb base svcs m) a = Q9K_GetU32 m a"
  using assms by (induction svcs arbitrary: m) (auto simp: put_services_def)

lemma put_bridges_other:
  assumes "\<forall>b\<in>set bs. apart (fst b) 4 a 4"
  shows "Q9K_GetU32 (put_bridges symb bs m) a = Q9K_GetU32 m a"
  using assms by (induction bs arbitrary: m) (auto simp: put_bridges_def)

lemma services_ok:
  "distinct (map fst (user_services @ user_services2))" "distinct (map fst system_services)"
  "\<forall>s\<in>set (user_services @ user_services2). fst s < 256" "\<forall>s\<in>set system_services. fst s < 256"
  "\<forall>b\<in>set bridges. unat (fst b) + 4 \<le> 0x8000"
  by (simp_all add: user_services_def user_services2_def system_services_def bridges_def)

lemma fill_get:
  assumes "service_table base" "c < 256" "i < 256"
  shows "Q9K_GetU32 (fill_slot base h i m) (base + c * 4) =
    (if unat c = i \<and> Q9K_GetU32 m (base + c * 4) = 0 then h else Q9K_GetU32 m (base + c * 4))"
proof -
  have i: "(of_nat i :: u32) < 256" "unat (of_nat i :: u32) = i" using assms(3) by (simp_all add: word_less_nat_alt unat_of_nat_u32)
  show ?thesis
  proof (cases "unat c = i")
    case True
    then have "of_nat i = c" by auto
    then show ?thesis using True by (simp add: fill_slot_def)
  next
    case False
    then have "of_nat i \<noteq> c" using i(2) by auto
    from dispatch_apart [OF assms(1) i(1) assms(2) this] False show ?thesis by (simp add: fill_slot_def)
  qed
qed

lemma fill_other:
  assumes "apart base 0x400 b 0x400" "c < 256" "i < 256"
  shows "Q9K_GetU32 (fill_slot base h i m) (b + c * 4) = Q9K_GetU32 m (b + c * 4)"
proof -
  have "(of_nat i :: u32) < 256" using assms(3) by (simp add: word_less_nat_alt unat_of_nat_u32)
  from tables_apart [OF assms(1) this assms(2)] show ?thesis by (simp add: fill_slot_def)
qed

lemma fill_slots_get:
  assumes ok: "service_table a" "service_table b" "apart a 0x400 b 0x400" and c: "c < 256" and n: "n \<le> 256"
    and M: "M = fold (\<lambda>i m. fill_slot b h i (fill_slot a h i m)) [0..<n] m"
  shows "Q9K_GetU32 M (a + c * 4) = (if unat c < n \<and> Q9K_GetU32 m (a + c * 4) = 0 then h else Q9K_GetU32 m (a + c * 4)) \<and>
    Q9K_GetU32 M (b + c * 4) = (if unat c < n \<and> Q9K_GetU32 m (b + c * 4) = 0 then h else Q9K_GetU32 m (b + c * 4))"
  using n M
proof (induction n arbitrary: M)
  case (Suc n)
  note fill = fill_get [OF ok(1) c, of n] fill_get [OF ok(2) c, of n] fill_other [OF ok(3) c, of n]
    fill_other [OF apart_sym [OF ok(3)] c, of n]
  show ?case using Suc.IH [OF _ refl] Suc.prems fill by (auto simp: less_Suc_eq)
qed simp

text \<open>C10: after the cold start has filled the dispatch tables, every one of the 256 service codes of both tables leads to a handler: the one listed for the code
  or the common stub for the services that do not exist.  No slot is left at zero, which the caller would jump to.\<close>

theorem boot_dispatch:
  assumes usr: "usr = Q9K_GetU32 m Q9_D_USRDIS" and sys: "sys = Q9K_GetU32 m Q9_D_SYSDIS"
    and ok: "service_table usr" "service_table sys" "apart usr 0x400 sys 0x400"
    and zero: "\<forall>c<256. Q9K_GetU32 m (usr + c * 4) = 0 \<and> Q9K_GetU32 m (sys + c * 4) = 0"
    and nz: "\<forall>f. symb f \<noteq> 0" and c: "c < 256"
  shows "Q9K_GetU32 (boot_services symb m) (usr + c * 4) =
      symb (case map_of (user_services @ user_services2) c of Some f \<Rightarrow> f | None \<Rightarrow> ''Q9K_SysUnimplemented'') \<and>
    Q9K_GetU32 (boot_services symb m) (sys + c * 4) =
      symb (case map_of system_services c of Some f \<Rightarrow> f | None \<Rightarrow> ''Q9K_SysUnimplemented'')"
proof -
  let ?m1 = "put_services symb usr user_services m"
  let ?m2 = "put_bridges symb bridges ?m1"
  let ?m3 = "put_services symb usr user_services2 ?m2"
  let ?m4 = "put_services symb sys system_services ?m3"
  have high: "\<forall>b\<in>set bridges. apart (fst b) 4 (base + c * 4) 4" if "service_table base" for base
  proof
    fix b assume "b \<in> set bridges"
    moreover have "unat base \<le> unat (base + c * 4)" "unat (base + c * 4) + 4 \<le> 2 ^ 32" "0x8000 \<le> unat base"
      using slot_span [OF that, of "unat c"] dispatch_cell [OF c, of base] that by (auto simp: table_ok_def)
    ultimately show "apart (fst b) 4 (base + c * 4) 4"
      using apart_high_low [of "0x8000" "base + c * 4" 0 4 "fst b" 4] services_ok(5) by (auto intro: apart_sym)
  qed
  have us: "\<forall>s\<in>set svcs. apart (usr + fst s * 4) 4 (sys + c * 4) 4" if "\<forall>s\<in>set svcs. fst s < 256" for svcs :: "(u32 \<times> string) list"
    using that tables_apart [OF ok(3) _ c] by auto
  have su: "\<forall>s\<in>set system_services. apart (sys + fst s * 4) 4 (usr + c * 4) 4"
    using services_ok(4) tables_apart [OF apart_sym [OF ok(3)] _ c] by auto
  have 1: "Q9K_GetU32 ?m4 (usr + c * 4) = (case map_of (user_services @ user_services2) c of Some f \<Rightarrow> symb f | None \<Rightarrow> 0)"
  proof -
    have "Q9K_GetU32 ?m4 (usr + c * 4) = Q9K_GetU32 ?m3 (usr + c * 4)" by (rule put_services_other [OF su])
    also have "\<dots> = (case map_of user_services2 c of Some f \<Rightarrow> symb f | None \<Rightarrow> Q9K_GetU32 ?m2 (usr + c * 4))"
      using services_ok(1,3) by (intro put_services_get [OF ok(1) c]) auto
    also have "Q9K_GetU32 ?m2 (usr + c * 4) = Q9K_GetU32 ?m1 (usr + c * 4)" by (rule put_bridges_other [OF high [OF ok(1)]])
    also have "\<dots> = (case map_of user_services c of Some f \<Rightarrow> symb f | None \<Rightarrow> Q9K_GetU32 m (usr + c * 4))"
      using services_ok(1,3) by (intro put_services_get [OF ok(1) c]) auto
    finally show ?thesis using zero c services_ok(1)
      by (auto simp: map_add_def split: option.splits dest!: map_of_SomeD) (force dest: map_of_SomeD)+
  qed
  have 2: "Q9K_GetU32 ?m4 (sys + c * 4) = (case map_of system_services c of Some f \<Rightarrow> symb f | None \<Rightarrow> 0)"
  proof -
    have "\<forall>s\<in>set user_services. fst s < 256" "\<forall>s\<in>set user_services2. fst s < 256" using services_ok(3) by auto
    then have "Q9K_GetU32 ?m3 (sys + c * 4) = 0"
      using zero c us by (simp add: put_services_other put_bridges_other [OF high [OF ok(2)]])
    then show ?thesis using put_services_get [OF ok(2) c services_ok(2,4), of symb ?m3] by (simp split: option.splits)
  qed
  have "unat c < 256" using c by (simp add: word_less_nat_alt)
  with fill_slots_get [OF ok c order_refl refl, of "symb ''Q9K_SysUnimplemented''" ?m4] 1 2 nz show ?thesis
    by (auto simp: boot_services_def Let_def usr sys split: option.splits)
qed

definition ex_dispatch :: memory where
  "ex_dispatch = Q9K_SetU32 (Q9K_SetU32 (\<lambda>_. 0) 0x3A4 0x40000) 0x3A8 0x40800"

definition ex_symb :: "string \<Rightarrow> u32" where
  "ex_symb f = (if f = ''Q9K_SysUnimplemented'' then 0x9000 else 0xA000)"

lemma ex_dispatch_zero:
  assumes "service_table base" "c < 256"
  shows "Q9K_GetU32 ex_dispatch (base + c * 4) = 0"
proof -
  have "unat base \<le> unat (base + c * 4)" "unat (base + c * 4) + 4 \<le> 2 ^ 32" "0x8000 \<le> unat base"
    using slot_span [OF assms(1), of "unat c"] dispatch_cell [OF assms(2), of base] assms(1) by (auto simp: table_ok_def)
  then have "apart 0x3A4 4 (base + c * 4) 4" "apart 0x3A8 4 (base + c * 4) 4"
    using apart_sym [OF apart_high_low [of "0x8000" "base + c * 4" 0 4 "0x3A4" 4]]
      apart_sym [OF apart_high_low [of "0x8000" "base + c * 4" 0 4 "0x3A8" 4]] by simp_all
  then show ?thesis by (simp add: ex_dispatch_def)
qed

lemma boot_dispatch_witness:
  "Q9K_GetU32 (boot_services ex_symb ex_dispatch) (0x40800 + 0x61 * 4) = 0x9000 \<and> Q9K_GetU32 (boot_services ex_symb ex_dispatch) (0x40000 + 0x61 * 4) = 0xA000"
proof -
  have t: "service_table 0x40800" "service_table 0x40000" by (simp_all add: table_ok_def)
  have u: "0x40800 = Q9K_GetU32 ex_dispatch Q9_D_USRDIS" "0x40000 = Q9K_GetU32 ex_dispatch Q9_D_SYSDIS" by (simp_all add: ex_dispatch_def)
  have "apart 0x40800 0x400 0x40000 0x400" by simp
  moreover have "\<forall>f. ex_symb f \<noteq> 0" by (simp add: ex_symb_def)
  ultimately show ?thesis using boot_dispatch [OF u t, of ex_symb "0x61"] ex_dispatch_zero [OF t(1)] ex_dispatch_zero [OF t(2)]
    by (simp add: user_services_def user_services2_def system_services_def ex_symb_def)
qed

end
