(* ===== verification/Spec2Isabelle.thy ===== *)
theory Spec2Isabelle
  imports Q9_Tick Q9_Sema_Props Q9_Event_Props Q9_SysMem_Props Q9_Bitmap Q9_RingBuf_Props Q9_Date_Props Q9_ModCrc Q9_ModDir_Props Q9_TrapLink_Props Q9_NativePath Q9_CmpNam
    Q9_ProcEnd_Props Q9_Tables Q9_SetSys Q9_Services Q9_BlkMap Q9_Debug Q9_Tables_Props Q9_Fork_Props Q9_PathRefs_Props Q9_Mmu Q9_Trace Q9_ExcTable_Props Q9_IomanKernel Q9_HostTools Q9_CInit_Props
begin

text \<open>
  \<^bold>\<open>The Q9 kernel: a verification library.\<close>

  Q9 is an operating system for the 68000 family that offers the OS-9 service calls (F$\<dots> for the kernel, I$\<dots> for input and
  output).  The kernel is written in C over raw memory: every structure is a range of bytes at a fixed or computed address that is read
  and written by the accessors \<^verbatim>\<open>Q9K_GetU8\<close> \<dots> \<^verbatim>\<open>Q9K_SetU32\<close>; an assembly file (\<^verbatim>\<open>q9kernel_entry.a\<close>) receives traps and interrupts, copies
  parameters to fixed cells and calls the C functions.  This library translates the C files of the kernel
  (\<^verbatim>\<open>Q9-KERNEL/68k/src/kernel\<close>), of the I/O manager (\<^verbatim>\<open>Q9-IOMAN/src\<close>) and the module tools (\<^verbatim>\<open>Q9-KERNEL/common/src\<close>) into functions and
  proves what they do.

  \<^bold>\<open>Conventions.\<close>  The memory is a function from 32-bit addresses to bytes; a C function that changes memory takes and
  returns it.  Integers keep their width (\<open>u8\<close>, \<open>u16\<close>, \<open>u32\<close>) and wrap around; \<open>long\<close> values with a sign are read with
  \<^const>\<open>sint\<close>.  Names of functions and constants are those of the source.  A call that can fail returns \<^const>\<open>Inl\<close> of the error number or
  \<^const>\<open>Inr\<close> of the result, or a pair of the returned code and the memory where the code has such a result.  A loop over a linked list that
  may not end is a \<open>partial_function\<close> in the option type: \<^const>\<open>None\<close> means that it does not return, and that it does return on
  well-formed states is proved (for the timer tick and the queues in \<^verbatim>\<open>Q9_Tick\<close>, for allocation in \<^verbatim>\<open>Q9_Arena_Props\<close>, for the directory in \<^verbatim>\<open>Q9_ModDir_Props\<close>).  Loops
  with a constant bound in the source recurse over that bound: 32 path numbers, 256 characters of a pathname, 16 events, 8 alarms, 32 owned
  blocks.  No fuel occurs that the source does not have.  Interrupt locks and console output do not appear: each function
  runs with interrupts disabled.  Assembly routines are parameters: handler addresses in \<^verbatim>\<open>Q9_ExcTable\<close>, the value of register A6 in \<^verbatim>\<open>Q9_Fork\<close>.

  \<^bold>\<open>Foundation.\<close>
  \<^item> \<^verbatim>\<open>Q9_Prelude\<close>, \<^verbatim>\<open>Q9_Memory\<close>, \<^verbatim>\<open>Q9_Layout\<close>: words, separated address ranges, the accessors with the locales \<open>cell\<close> and \<open>two_cells\<close> (a read after a
    write to the same or to another cell), and the addresses of the kernel globals and descriptor fields.
  \<^item> \<^verbatim>\<open>Q9_Ring\<close>: the circular lists of the scheduler as lists of descriptors.  \<^verbatim>\<open>Q9_Pool\<close>: the locale \<open>lifo_pool\<close> of free lists, interpreted for
    module entries, path descriptors and process descriptors.  \<^verbatim>\<open>Q9_WaitQ\<close>: the locale \<open>wait_queue\<close>, interpreted for semaphores and events.
    \<^verbatim>\<open>Q9_Arena_Props\<close>: the locale \<open>block_store\<close> of the allocator, on which \<^verbatim>\<open>Q9_SysMem_Props\<close> rests.

  \<^bold>\<open>Processes and time.\<close>
  \<^item> \<^verbatim>\<open>Q9_Sched\<close>, \<^verbatim>\<open>Q9_Sched_Props\<close> (\<^verbatim>\<open>q9kernel_sched.c\<close>): ready, wait and sleep queue, aging and selection, as operations on lists.
  \<^item> \<^verbatim>\<open>Q9_ProcApi\<close>, \<^verbatim>\<open>Q9_Icpt\<close>, \<^verbatim>\<open>Q9_ProcSleep\<close> (\<^verbatim>\<open>q9kernel_procapi.c\<close>, \<^verbatim>\<open>_icpt.c\<close>, \<^verbatim>\<open>_procsleep.c\<close>): process IDs and descriptors, intercept frames, sleeping and signals.
  \<^item> \<^verbatim>\<open>Q9_Date\<close>, \<^verbatim>\<open>Q9_Clock\<close>, \<^verbatim>\<open>Q9_Alarm\<close> (\<^verbatim>\<open>_date.c\<close>, \<^verbatim>\<open>_clock.c\<close>, \<^verbatim>\<open>_alarm.c\<close>): calendar with its round trip (\<^verbatim>\<open>Q9_Date_Props\<close>), clock and alarms.
  \<^item> \<^verbatim>\<open>Q9_Kernel\<close>, \<^verbatim>\<open>Q9_Tick\<close>: the invariant of process management and the timer tick that composes aging, countdown, alarms, clock and selection; the
    states that ticks, sleeps, signals and priority changes reach keep the invariant; a tick always returns, loses no process, and ages, counts down,
    wakes, selects and requeues exactly as specified (\<open>tick_queues\<close>, \<open>tick_age\<close>); only alarms and console signals can wake further sleepers.
  \<^item> \<^verbatim>\<open>Q9_Sema\<close>, \<^verbatim>\<open>Q9_Event\<close> with their \<^verbatim>\<open>_Props\<close> (\<^verbatim>\<open>_sema.c\<close>, \<^verbatim>\<open>_event.c\<close>): first-in first-out semaphores; events that serve waiters as an abstract plan says.
  \<^item> \<^verbatim>\<open>Q9_Fork\<close>, \<^verbatim>\<open>Q9_Debug\<close>, \<^verbatim>\<open>Q9_ProcEnd\<close> with their \<^verbatim>\<open>_Props\<close> (\<^verbatim>\<open>_firstproc.c\<close>, \<^verbatim>\<open>_nproc.c\<close>, \<^verbatim>\<open>_chain.c\<close>, \<^verbatim>\<open>_procend.c\<close>): F$Fork, F$Chain, debugging calls, F$Exit, F$Wait;
    which child F$Wait collects, and how a collected ID leads to a descriptor that two processes share.

  \<^bold>\<open>Memory.\<close>
  \<^item> \<^verbatim>\<open>Q9_Arena\<close>, \<^verbatim>\<open>Q9_SysMem\<close> with their \<^verbatim>\<open>_Props\<close>, \<^verbatim>\<open>Q9_BlkMap\<close>, \<^verbatim>\<open>Q9_Bitmap\<close> (\<^verbatim>\<open>_arena.c\<close>, \<^verbatim>\<open>_sysmem.c\<close>, \<^verbatim>\<open>_mem.c\<close>, \<^verbatim>\<open>_blkmap.c\<close>, \<^verbatim>\<open>_bitmap.c\<close>): the arena as a set of free
    bytes; blocks held at the same time never overlap, under any sequence of allocations, releases and writes (\<open>arena_run\<close>); release as the inverse of allocation,
    ownership of blocks by processes.
  \<^item> \<^verbatim>\<open>Q9_Tables\<close>, \<^verbatim>\<open>Q9_Tables_Props\<close> (\<^verbatim>\<open>_tables.c\<close>): the tables cut at start-up and the three pools made of them.
  \<^item> \<^verbatim>\<open>Q9_Mmu\<close> (\<^verbatim>\<open>_mmu.c\<close>): the region table as rights per process and address.
  \<^item> \<^verbatim>\<open>Q9_RingBuf\<close>, \<^verbatim>\<open>Q9_RingBuf_Props\<close>, \<^verbatim>\<open>Q9_Trace\<close> (\<^verbatim>\<open>q9ringbuf.c\<close>, \<^verbatim>\<open>q9trace.c\<close>): the trace buffer refines a queue of records; records decode to what they were built from.

  \<^bold>\<open>Modules.\<close>
  \<^item> \<^verbatim>\<open>Q9_ModCheck\<close>, \<^verbatim>\<open>Q9_ModDir\<close>, \<^verbatim>\<open>Q9_ModDir_Props\<close>, \<^verbatim>\<open>Q9_ModCrc\<close> (\<^verbatim>\<open>_modcheck.c\<close>, \<^verbatim>\<open>_modsearch.c\<close>, \<^verbatim>\<open>_moddir.c\<close>): header check and search, the directory with linking and unlinking, and
    the CRC: its two implementations agree and F$SetCRC makes a module that F$VModul accepts and enters in the directory.
  \<^item> \<^verbatim>\<open>Q9_HostTools\<close> (\<^verbatim>\<open>mbr.c\<close>, \<^verbatim>\<open>q9moduleheader.c\<close>): the tools compute the same check values as the kernel, which therefore accepts the descriptors they
    generate.  \<^verbatim>\<open>Q9_InitExt\<close> (\<^verbatim>\<open>_initext.c\<close>): the extension of the Init module.
  \<^item> \<^verbatim>\<open>Q9_CInit\<close>, \<^verbatim>\<open>Q9_CInit_Props\<close> (\<^verbatim>\<open>_cinit.c\<close>): the cold start of the production build, which composes arena, exception table, module search, system tables,
    dispatch tables, process creation and the first selection; the arena it makes keeps clear of boot modules, boot stack and diagnostic ring, and no dispatch slot stays empty.
  \<^item> \<^verbatim>\<open>Q9_TrapLink\<close>, \<^verbatim>\<open>Q9_TrapLink_Props\<close> (\<^verbatim>\<open>_traplink.c\<close>): trap handlers and initialised data, which stays inside its block.

  \<^bold>\<open>Input and output, services.\<close>
  \<^item> \<^verbatim>\<open>Q9_IoPath\<close>, \<^verbatim>\<open>Q9_NativePath\<close>, \<^verbatim>\<open>Q9_CmpNam\<close>, \<^verbatim>\<open>Q9_PathRefs\<close>, \<^verbatim>\<open>Q9_PathRefs_Props\<close> (\<^verbatim>\<open>_iopath.c\<close>): path pool, pathnames, native paths; F$CmpNam decides pattern matching; the reference
    count of a descriptor is the number of table entries that hold it, through opens, closes, forks and exits.  The close is the C routine \<^verbatim>\<open>Q9K_ProcNativeClose\<close>; the trap of I$Close is bound to an assembly routine.
  \<^item> \<^verbatim>\<open>Q9_Ioman\<close>, \<^verbatim>\<open>Q9_Ioman_Props\<close>, \<^verbatim>\<open>Q9_IomanKernel\<close> (\<^verbatim>\<open>qioman.c\<close>, \<^verbatim>\<open>qioman_kernel.c\<close>, \<^verbatim>\<open>qioman_system.c\<close>): the I/O manager, whose backends may call it again before they return.  The
    relation \<open>served\<close> describes completed calls with the calls nested in them; a path that is being opened, closed or operated on is not touched by
    them, prefixes in use cannot be unregistered, and the kernel adapter changes the result registers and the carry, and nothing else of the frame.  The
    backends are parameters with the hypothesis \<open>calls_only\<close>: they change the manager by calls only.
  \<^item> \<^verbatim>\<open>Q9_ExcTable\<close>, \<^verbatim>\<open>Q9_ExcTable_Props\<close>, \<^verbatim>\<open>Q9_Services\<close>, \<^verbatim>\<open>Q9_SetSys\<close> (\<^verbatim>\<open>_exctable.c\<close>, \<^verbatim>\<open>_ssvc.c\<close>, \<^verbatim>\<open>_strap.c\<close>, \<^verbatim>\<open>_setsys.c\<close>): the vector table, F$IRQ and F$FIRQ with the invariant that the
    vector of every polled device leads to the dispatcher, as do the shared autovectors that no removal has given up since the last registration; F$SSvc, F$STrap and F$SetSys.

  \<^verbatim>\<open>Q9_Example\<close> is a small concrete machine on which general theorems are instantiated.

  \<^bold>\<open>Not modelled.\<close>  The assembly files (trap entry, context switch, interrupt locks, RBF and the pipe manager), since the library translates C.  The decompiled RBF under
  \<^verbatim>\<open>RBF68k/ref_rea\<close> is generated.  Of the cold start, the routines that print a digit and the start of the board timer are left out, and its
  trace cells belong to the developer build.  The console monitor (\<^verbatim>\<open>q9kernel_dbg.c\<close>, \<^verbatim>\<open>q9kernel_debug.c\<close>) and the audits of the developer build
  only print.  The host file system drivers talk to a socket and to device registers.  Of the tools, file access and printing are left out.
\<close>

end
